(* ===== verification/Prelude.thy ===== *)
theory Prelude
  imports Main "HOL-Library.Word" "HOL-Library.Monad_Syntax"
begin

text \<open>
  Shared types, automation and generic lemmas of the OpenZWave development.
  Machine integers keep their C++ width: \<open>uint8\<close> is an 8-bit word and so on.  A C++
  array or pointer argument is a list of bytes.  An access outside a C++ array has no
  defined result; operations that may reach one return an \<open>option\<close>, with \<open>None\<close> for
  the undefined access.  Two collections are used throughout: \<open>frame_simps\<close> for facts
  about byte buffers and checksums, and \<open>state_simps\<close> for field facts of the state
  records.
\<close>

unbundle bit_operations_syntax

named_theorems frame_simps "facts on byte buffers, checksums and frames"
named_theorems state_simps "field and frame facts of the state records"

type_synonym uint8 = "8 word"
type_synonym uint16 = "16 word"
type_synonym uint32 = "32 word"
type_synonym uint64 = "64 word"
type_synonym bytes = "uint8 list"

section \<open>Words\<close>

lemma unat_u8_less [simp]: "unat (x :: uint8) < 256"
  using unsigned_less [of x] by simp

lemma unat_u8_le: "unat (x :: uint8) \<le> 255"
  using unat_u8_less [of x] by linarith

lemma unat_u8_add: "unat (x + y :: uint8) = (unat x + unat y) mod 256"
  by (simp add: unat_word_ariths)

lemma unat_u8_succ: "unat (x :: uint8) < 255 \<Longrightarrow> unat (x + 1) = Suc (unat x)"
  by (simp add: unat_word_ariths)

lemma unat_u8_of_nat: "n < 256 \<Longrightarrow> unat (of_nat n :: uint8) = n"
  by (simp add: unat_of_nat)

lemma unat_u8_Suc: "n < 255 \<Longrightarrow> unat (1 + of_nat n :: uint8) = Suc n"
  by (simp add: unat_word_ariths unat_of_nat)

lemma unat_u8_neq: "x \<noteq> 255 \<Longrightarrow> unat (x :: uint8) < 255"
proof -
  assume "x \<noteq> 255"
  then have "unat x \<noteq> unat (255 :: uint8)" unfolding word_unat_eq_iff by simp
  then show "unat x < 255" using unat_u8_le [of x] by simp
qed

lemma u8_of_nat_unat [simp]: "of_nat (unat (x :: uint8)) = x"
  by simp

text \<open>Conversions between widths.\<close>

lemma unat_ucast_8_16 [simp]: "unat (ucast (x :: uint8) :: uint16) = unat x"
  by transfer (simp add: take_bit_int_eq_self)

lemma unat_ucast_8_32 [simp]: "unat (ucast (x :: uint8) :: uint32) = unat x"
  by transfer (simp add: take_bit_int_eq_self)

lemma unat_ucast_16_32 [simp]: "unat (ucast (x :: uint16) :: uint32) = unat x"
  by transfer (simp add: take_bit_int_eq_self)

lemma unat_ucast_32_8: "unat (ucast (x :: uint32) :: uint8) = unat x mod 256"
  by (simp add: unsigned_ucast_eq take_bit_eq_mod)

lemma unat_ucast_16_8: "unat (ucast (x :: uint16) :: uint8) = unat x mod 256"
  by (simp add: unsigned_ucast_eq take_bit_eq_mod)

lemma unat_u32_minus1 [simp]: "unat (- 1 :: uint32) = 4294967295"
  by (simp add: unsigned_minus_1_eq_mask mask_eq_exp_minus_1)

lemma and_full [simp]: "(x :: uint8) AND 0xFF = x" "(y :: uint16) AND 0xFFFF = y"
proof -
  have "(0xFF :: uint8) = mask 8" "(0xFFFF :: uint16) = mask 16" by (simp_all add: mask_eq_exp_minus_1)
  moreover have "take_bit 8 x = x" "take_bit 16 y = y"
    by (rule bit_word_eqI; simp add: bit_take_bit_iff)+
  ultimately show "x AND 0xFF = x" "y AND 0xFFFF = y" by (simp_all only: take_bit_eq_mask)
qed

lemma unat_u16_less [simp]: "unat (x :: uint16) < 65536"
  using unsigned_less [of x] by simp

lemma unat_u32_less: "unat (x :: uint32) < 2 ^ 32"
  using unsigned_less [of x] by simp

lemma unat_u32_of_nat: "n < 2 ^ 32 \<Longrightarrow> unat (of_nat n :: uint32) = n"
  by (simp add: unat_of_nat)

text \<open>Shifts and masks read as division and remainder.\<close>

lemma unat_field:
  "unat (drop_bit k ((w :: 'a::len word) AND push_bit k (mask l))) = unat w div 2 ^ k mod 2 ^ l"
proof -
  have "drop_bit k (w AND push_bit k (mask l)) = take_bit l (drop_bit k w)"
    by (rule bit_word_eqI)
      (auto simp: bit_drop_bit_eq bit_and_iff bit_push_bit_iff bit_mask_iff bit_take_bit_iff
        dest: bit_imp_le_length)
  then show ?thesis
    by (metis unsigned_take_bit_eq unat_drop_bit_eq take_bit_eq_mod drop_bit_eq_div)
qed

text \<open>Comparing two numbers of two digits to a base.\<close>

lemma digits_less:
  fixes x y B :: nat
  assumes "x < B" and "y < B"
  shows "a * B + x < b * B + y \<longleftrightarrow> a < b \<or> a = b \<and> x < y"
proof -
  have *: "a * B + x < b * B + y" if "a < b" "x < B" for a b x y :: nat
  proof -
    from that(1) have "Suc a * B \<le> b * B" by (intro mult_le_mono1) simp
    with that(2) show ?thesis by simp
  qed
  show ?thesis using *[of a b x y] *[of b a y x] assms by (cases a b rule: linorder_cases) auto
qed

lemma digits_eq:
  fixes x y B :: nat
  assumes "x < B" and "y < B"
  shows "a * B + x = b * B + y \<longleftrightarrow> a = b \<and> x = y"
  using digits_less [OF assms, of a b] digits_less [OF assms(2,1), of b a]
  by (metis nat_neq_iff)

lemma digit_div: "r < B \<Longrightarrow> (q * B + r) div B = (q :: nat)"
  by simp

lemma digit_mod: "r < B \<Longrightarrow> (q * B + r) mod B = (r :: nat)"
  by simp

lemma nat_or_add: "(y :: nat) < 2 ^ n \<Longrightarrow> x * 2 ^ n OR y = x * 2 ^ n + y"
proof -
  assume "y < 2 ^ n"
  then have "\<not> bit y i" if "n \<le> i" for i
    using that by (metis bit_take_bit_iff take_bit_nat_eq_self not_le)
  then show ?thesis
    by (intro disjunctive_add [symmetric])
      (auto simp: bit_push_bit_iff not_le simp flip: push_bit_eq_mult)
qed

section \<open>Lists\<close>

lemma filter_upt_Cons:
  "filter P [a..<n] = j # js \<Longrightarrow> a \<le> j \<and> j < n \<and> P j \<and> js = filter P [Suc j..<n]"
proof (induction "n - a" arbitrary: a)
  case 0
  then show ?case by simp
next
  case (Suc d)
  then have "a < n" by linarith
  then have "filter P [a..<n] = (if P a then [a] else []) @ filter P [Suc a..<n]"
    by (simp add: upt_conv_Cons)
  with Suc show ?case by (cases "P a") (auto dest: Suc.hyps(1) [rotated])
qed

section \<open>Buffers with checked access\<close>

text \<open>Reading and writing a C++ array: \<open>None\<close> is the access outside it.\<close>

definition peek :: "'a list \<Rightarrow> nat \<Rightarrow> 'a option" where
  "peek xs i = (if i < length xs then Some (xs ! i) else None)"

definition poke :: "'a list \<Rightarrow> nat \<Rightarrow> 'a \<Rightarrow> 'a list option" where
  "poke xs i x = (if i < length xs then Some (xs[i := x]) else None)"

text \<open>A block of \<open>n\<close> elements starting at \<open>i\<close>, as \<open>memcpy\<close> reads it.\<close>

definition peek_block :: "'a list \<Rightarrow> nat \<Rightarrow> nat \<Rightarrow> 'a list option" where
  "peek_block xs i n = (if i + n \<le> length xs then Some (take n (drop i xs)) else None)"

text \<open>Overwriting a block, as \<open>memcpy\<close> writes it.\<close>

definition poke_block :: "'a list \<Rightarrow> nat \<Rightarrow> 'a list \<Rightarrow> 'a list option" where
  "poke_block xs i ys =
     (if i + length ys \<le> length xs then Some (take i xs @ ys @ drop (i + length ys) xs) else None)"

lemma peek_Some [frame_simps]: "i < length xs \<Longrightarrow> peek xs i = Some (xs ! i)"
  by (simp add: peek_def)

lemma peek_block_Some [frame_simps]:
  "i + n \<le> length xs \<Longrightarrow> peek_block xs i n = Some (take n (drop i xs))"
  by (simp add: peek_block_def)

lemma poke_block_Some [frame_simps]:
  "i + length ys \<le> length xs \<Longrightarrow>
    poke_block xs i ys = Some (take i xs @ ys @ drop (i + length ys) xs)"
  by (simp add: poke_block_def)

lemma poke_block_length: "poke_block xs i ys = Some zs \<Longrightarrow> length zs = length xs"
  by (auto simp: poke_block_def split: if_splits)

section \<open>The exclusive-or checksum\<close>

text \<open>\<open>for (i = ...) acc ^= b[i]\<close>\<close>

definition xor_sum :: "uint8 \<Rightarrow> bytes \<Rightarrow> uint8" where
  "xor_sum acc bs = foldl (XOR) acc bs"

lemma xor_sum_Nil [frame_simps]: "xor_sum a [] = a"
  by (simp add: xor_sum_def)

lemma xor_sum_Cons [frame_simps]: "xor_sum a (b # bs) = xor_sum (a XOR b) bs"
  by (simp add: xor_sum_def)

lemma xor_sum_append [frame_simps]: "xor_sum a (bs @ cs) = xor_sum (xor_sum a bs) cs"
  by (simp add: xor_sum_def)

lemma xor_sum_acc: "xor_sum (a XOR c) bs = xor_sum a bs XOR c"
proof (induction bs arbitrary: a)
  case Nil
  show ?case by (simp add: frame_simps)
next
  case (Cons b bs)
  have "(a XOR c) XOR b = (a XOR b) XOR c" by (simp add: ac_simps)
  then show ?case using Cons.IH [of "a XOR b"] by (simp add: frame_simps)
qed

text \<open>Appending the checksum itself makes the whole sum zero.\<close>

lemma xor_sum_self [simp]: "xor_sum a (bs @ [xor_sum a bs]) = 0"
  by (simp add: frame_simps)

text \<open>A single changed byte changes the checksum.\<close>

lemma xor_sum_detects:
  assumes "i < length bs" and "b \<noteq> bs ! i"
  shows "xor_sum a (bs[i := b]) \<noteq> xor_sum a bs"
proof -
  have cancel: "x XOR y = x XOR z \<longleftrightarrow> y = z" for x y z :: uint8
  proof
    assume "x XOR y = x XOR z"
    then have "x XOR (x XOR y) = x XOR (x XOR z)" by simp
    then show "y = z" by (simp flip: xor.assoc)
  qed simp
  have sum: "xor_sum a (take i bs @ c # drop (Suc i) bs)
      = xor_sum (xor_sum a (take i bs)) (drop (Suc i) bs) XOR c" for c
    by (simp add: frame_simps xor_sum_acc)
  have "bs = take i bs @ bs ! i # drop (Suc i) bs"
    using assms(1) by (rule id_take_nth_drop)
  then have "xor_sum a bs = xor_sum (xor_sum a (take i bs)) (drop (Suc i) bs) XOR bs ! i"
    using sum [of "bs ! i"] by simp
  moreover have "xor_sum a (bs[i := b])
      = xor_sum (xor_sum a (take i bs)) (drop (Suc i) bs) XOR b"
    using assms(1) sum [of b] by (simp add: upd_conv_take_nth_drop)
  ultimately show ?thesis using assms(2) by (simp add: cancel)
qed

section \<open>Text\<close>

text \<open>Decimal digits as \<open>snprintf\<close> prints them.\<close>

definition digit_char :: "nat \<Rightarrow> char" where
  "digit_char d = char_of (48 + d)"

fun dec_nat :: "nat \<Rightarrow> string" where
  "dec_nat n = (if n < 10 then [digit_char n] else dec_nat (n div 10) @ [digit_char (n mod 10)])"

declare dec_nat.simps [simp del]

definition dec_int :: "int \<Rightarrow> string" where
  "dec_int i = (if i < 0 then CHR ''-'' # dec_nat (nat (- i)) else dec_nat (nat i))"

text \<open>\<open>snprintf(byteStr, ..., "0x%.2x", b)\<close>\<close>

definition hex_char :: "nat \<Rightarrow> char" where
  "hex_char d = (if d < 10 then char_of (48 + d) else char_of (87 + d))"

definition hex_byte :: "uint8 \<Rightarrow> string" where
  "hex_byte b = ''0x'' @ [hex_char (unat b div 16), hex_char (unat b mod 16)]"

text \<open>The bytes separated by \<open>", "\<close>: the loop that every log line of a packet uses.\<close>

fun hex_list :: "bytes \<Rightarrow> string" where
  "hex_list [] = []"
| "hex_list [b] = hex_byte b"
| "hex_list (b # bs) = hex_byte b @ '', '' @ hex_list bs"

text \<open>\<open>hex << setfill('0') << setw(w)\<close>\<close>

fun hex_nat :: "nat \<Rightarrow> string" where
  "hex_nat n = (if n < 16 then [hex_char n] else hex_nat (n div 16) @ [hex_char (n mod 16)])"

declare hex_nat.simps [simp del]

definition pad_left :: "char \<Rightarrow> nat \<Rightarrow> string \<Rightarrow> string" where
  "pad_left c w s = replicate (w - length s) c @ s"

lemma length_hex_byte [simp]: "length (hex_byte b) = 4"
  by (simp add: hex_byte_def)

lemma length_hex_list: "bs \<noteq> [] \<Longrightarrow> length (hex_list bs) = 6 * length bs - 2"
  by (induction bs rule: hex_list.induct) auto

end
