(* ===== verification/Msg_Frame.thy ===== *)
theory Msg_Frame
  imports Prelude
begin

text \<open>
  The serial message object of \<open>cpp/src/Msg.h\<close> and \<open>cpp/src/Msg.cpp\<close>: construction,
  appending of payload bytes, Multi-Instance/Multi-Channel encapsulation, finalisation
  (length byte, callback id, checksum) and the renewal of the callback id on a resend.
  The static counter \<open>Msg::s_nextCallbackId\<close> is passed explicitly and returned.
  \<open>content\<close> abstracts a message to the bytes it holds so far; every operation is
  characterised on that list, and \<open>frame_valid\<close> is the receiver's view of a frame
  (the check \<open>Driver::ReadMsg\<close> makes).
\<close>

section \<open>Constants of Defs.h and MultiInstance.h\<close>

abbreviation (input) SOF :: uint8 where "SOF \<equiv> 0x01"
abbreviation (input) ACK :: uint8 where "ACK \<equiv> 0x06"
abbreviation (input) NAK :: uint8 where "NAK \<equiv> 0x15"
abbreviation (input) CAN :: uint8 where "CAN \<equiv> 0x18"
abbreviation (input) REQUEST :: uint8 where "REQUEST \<equiv> 0x00"
abbreviation (input) RESPONSE :: uint8 where "RESPONSE \<equiv> 0x01"
abbreviation (input) FUNC_ID_ZW_SEND_DATA :: uint8 where "FUNC_ID_ZW_SEND_DATA \<equiv> 0x13"
abbreviation (input) FUNC_ID_APPLICATION_COMMAND_HANDLER :: uint8 where
  "FUNC_ID_APPLICATION_COMMAND_HANDLER \<equiv> 0x04"
abbreviation (input) MAX_TRIES :: uint8 where "MAX_TRIES \<equiv> 1"
abbreviation (input) MAX_MAX_TRIES :: uint8 where "MAX_MAX_TRIES \<equiv> 7"
abbreviation (input) CC_MULTI_INSTANCE :: uint8 where "CC_MULTI_INSTANCE \<equiv> 0x60"
abbreviation (input) MultiInstanceCmd_Encap :: uint8 where "MultiInstanceCmd_Encap \<equiv> 0x06"
abbreviation (input) MultiChannelCmd_Encap :: uint8 where "MultiChannelCmd_Encap \<equiv> 0x0d"
abbreviation (input) flag_MultiChannel :: uint8 where "flag_MultiChannel \<equiv> 0x01"
abbreviation (input) flag_MultiInstance :: uint8 where "flag_MultiInstance \<equiv> 0x02"

section \<open>State and operations\<close>

record msg =
  m_logText :: string
  m_bFinal :: bool
  m_bCallbackRequired :: bool
  m_callbackId :: uint8
  m_expectedReply :: uint8
  m_expectedCommandClassId :: uint8
  m_length :: uint8
  m_buffer :: bytes
  m_targetNodeId :: uint8
  m_sendAttempts :: uint8
  m_maxSendAttempts :: uint8
  m_instance :: uint8
  m_endPoint :: uint8
  m_flags :: uint8
  m_encrypted :: bool
  m_noncerecvd :: bool
  m_nonce :: bytes
  m_homeId :: uint32
  m_resendDuetoCANorNAK :: bool

definition Msg_new ::
  "string \<Rightarrow> uint8 \<Rightarrow> uint8 \<Rightarrow> uint8 \<Rightarrow> bool \<Rightarrow> bool \<Rightarrow> uint8 \<Rightarrow> uint8 \<Rightarrow> msg" where
  "Msg_new logText targetNodeId msgType function bCallbackRequired bReplyRequired
     expectedReply expectedCommandClassId =
     \<lparr> m_logText = logText, m_bFinal = False, m_bCallbackRequired = bCallbackRequired,
       m_callbackId = 0,
       m_expectedReply =
         (if bReplyRequired then (if expectedReply \<noteq> 0 then expectedReply else function) else 0),
       m_expectedCommandClassId = expectedCommandClassId, m_length = 4,
       m_buffer = [SOF, 0, msgType, function] @ replicate 252 0,
       m_targetNodeId = targetNodeId, m_sendAttempts = 0, m_maxSendAttempts = MAX_TRIES,
       m_instance = 1, m_endPoint = 0, m_flags = 0, m_encrypted = False, m_noncerecvd = False,
       m_nonce = replicate 8 0, m_homeId = 0, m_resendDuetoCANorNAK = False \<rparr>"

text \<open>
  \<open>Msg::SetInstance\<close>: \<open>node\<close> is what the command class's node offers, \<open>None\<close> when the
  node is not found, otherwise the version of its MultiInstance class if it has one;
  \<open>endPoint\<close> is \<open>_cc->GetEndPoint(_instance)\<close>.
\<close>

definition SetInstance :: "uint8 option option \<Rightarrow> uint8 \<Rightarrow> uint8 \<Rightarrow> msg \<Rightarrow> msg" where
  "SetInstance node endPoint inst m =
     (case node of
        None \<Rightarrow> m
      | Some micc \<Rightarrow>
          (let m1 = m\<lparr>m_instance := inst\<rparr> in
           case micc of
             None \<Rightarrow> m1
           | Some version \<Rightarrow>
               if version > 1 then
                 (let m2 = m1\<lparr>m_endPoint := endPoint\<rparr> in
                  if endPoint \<noteq> 0
                  then m2\<lparr>m_flags := m_flags m2 OR flag_MultiChannel,
                          m_expectedCommandClassId := CC_MULTI_INSTANCE\<rparr>
                  else m2)
               else if inst > 1
               then m1\<lparr>m_flags := m_flags m1 OR flag_MultiInstance,
                       m_expectedCommandClassId := CC_MULTI_INSTANCE\<rparr>
               else m1))"

definition Append :: "uint8 \<Rightarrow> msg \<Rightarrow> msg" where
  "Append d m = m\<lparr>m_buffer := (m_buffer m)[unat (m_length m) := d], m_length := m_length m + 1\<rparr>"

definition AppendArray :: "bytes \<Rightarrow> uint8 \<Rightarrow> msg \<Rightarrow> msg option" where
  "AppendArray ds n m =
     (if unat n \<le> length ds then Some (fold Append (take (unat n) ds) m) else None)"

text \<open>The next callback id: the counter skips the ids below 10 when it wraps to zero.\<close>

definition next_callback_id :: "uint8 \<Rightarrow> uint8 \<times> uint8" where
  "next_callback_id s = (let c = (if s = 0 then 10 else s) in (c, c + 1))"

text \<open>\<open>for (i = start; i >= 6; --i) m_buffer[i + off] = m_buffer[i]\<close>\<close>

fun shift_up :: "nat \<Rightarrow> nat \<Rightarrow> bytes \<Rightarrow> bytes option" where
  "shift_up off i buf =
     (if i < 6 then Some buf
      else if i + off < length buf then shift_up off (i - 1) (buf[i + off := buf ! i])
      else None)"

declare shift_up.simps [simp del]

text \<open>The start of the loop is \<open>(uint32)(m_length - 1)\<close>, which wraps when the length is 0.\<close>

definition last_index :: "uint8 \<Rightarrow> nat" where
  "last_index len = (if len = 0 then 2 ^ 32 - 1 else unat len - 1)"

definition MultiEncap :: "msg \<Rightarrow> msg option" where
  "MultiEncap m =
     (if m_buffer m ! 3 \<noteq> FUNC_ID_ZW_SEND_DATA then Some m
      else if m_flags m AND flag_MultiChannel \<noteq> 0 then do {
        buf \<leftarrow> shift_up 4 (last_index (m_length m)) (m_buffer m);
        Some (m\<lparr>m_buffer := buf[5 := buf ! 5 + 4, 6 := CC_MULTI_INSTANCE,
                                7 := MultiChannelCmd_Encap, 8 := 1, 9 := m_endPoint m],
                m_length := m_length m + 4,
                m_logText := take 255 (''MultiChannel Encapsulated (instance='' @
                  dec_nat (unat (m_instance m)) @ ''): '' @ m_logText m)\<rparr>)
      } else do {
        buf \<leftarrow> shift_up 3 (last_index (m_length m)) (m_buffer m);
        Some (m\<lparr>m_buffer := buf[5 := buf ! 5 + 3, 6 := CC_MULTI_INSTANCE,
                                7 := MultiInstanceCmd_Encap, 8 := m_instance m],
                m_length := m_length m + 3,
                m_logText := take 255 (''MultiInstance Encapsulated (instance='' @
                  dec_nat (unat (m_instance m)) @ ''): '' @ m_logText m)\<rparr>)
      })"

text \<open>The checksum loop over \<open>m_buffer[1 ..< n]\<close>.\<close>

definition checksum :: "bytes \<Rightarrow> nat \<Rightarrow> uint8" where
  "checksum buf n = xor_sum 0xff (drop 1 (take n buf))"

text \<open>\<open>Finalize\<close> after the encapsulation: callback id, length byte and checksum.\<close>

definition Finalize_tail :: "uint8 \<Rightarrow> msg \<Rightarrow> uint8 \<times> msg" where
  "Finalize_tail s m1 =
     (let (s', m2) =
        (if m_bCallbackRequired m1 then
           (let (c, s') = next_callback_id s;
                b = (m_buffer m1)[1 := m_length m1]
            in (s', m1\<lparr>m_buffer := b[unat (m_length m1) := c], m_length := m_length m1 + 1,
                       m_callbackId := c\<rparr>))
         else (s, m1\<lparr>m_buffer := (m_buffer m1)[1 := m_length m1 - 1]\<rparr>))
      in (s', m2\<lparr>m_buffer := (m_buffer m2)
                    [unat (m_length m2) := checksum (m_buffer m2) (unat (m_length m2))],
                 m_length := m_length m2 + 1, m_bFinal := True\<rparr>))"

definition Finalize :: "uint8 \<Rightarrow> msg \<Rightarrow> (uint8 \<times> msg) option" where
  "Finalize s m =
     (if m_bFinal m then Some (s, m)
      else do {
        m1 \<leftarrow> (if m_flags m AND (flag_MultiChannel OR flag_MultiInstance) \<noteq> 0
              then MultiEncap m else Some m);
        Some (Finalize_tail s m1)
      })"

definition UpdateCallbackId :: "uint8 \<Rightarrow> msg \<Rightarrow> (uint8 \<times> msg) option" where
  "UpdateCallbackId s m =
     (if m_bCallbackRequired m then
        (if unat (m_length m) < 2 then None
         else (let (c, s') = next_callback_id s;
                   b = (m_buffer m)[unat (m_length m) - 2 := c]
               in Some (s', m\<lparr>m_buffer := b[unat (m_length m) - 1 :=
                                 checksum b (unat (m_length m) - 1)],
                              m_callbackId := c\<rparr>)))
      else Some (s, m))"

definition Msg_GetAsString :: "msg \<Rightarrow> string" where
  "Msg_GetAsString m =
     m_logText m @
     (if m_targetNodeId m \<noteq> 0xff
      then take 15 ('' (Node='' @ dec_nat (unat (m_targetNodeId m)) @ '')'') else []) @
     '': '' @ hex_list (take (unat (m_length m)) (m_buffer m))"

definition GetLength :: "msg \<Rightarrow> uint32" where
  "GetLength m = (if m_encrypted m then ucast (m_length m) + 20 + 6 else ucast (m_length m))"

definition SetMaxSendAttempts :: "uint8 \<Rightarrow> msg \<Rightarrow> msg" where
  "SetMaxSendAttempts n m = (if n < MAX_MAX_TRIES then m\<lparr>m_maxSendAttempts := n\<rparr> else m)"

definition IsWakeUpNoMoreInformationCommand :: "msg \<Rightarrow> bool" where
  "IsWakeUpNoMoreInformationCommand m \<longleftrightarrow>
     m_bFinal m \<and> m_length m = 11 \<and> m_buffer m ! 3 = 0x13 \<and> m_buffer m ! 6 = 0x84 \<and>
     m_buffer m ! 7 = 0x08"

definition IsNoOperation :: "msg \<Rightarrow> bool" where
  "IsNoOperation m \<longleftrightarrow>
     m_bFinal m \<and> m_length m = 11 \<and> m_buffer m ! 3 = 0x13 \<and> m_buffer m ! 6 = 0x00 \<and>
     m_buffer m ! 7 = 0x00"

text \<open>\<open>Msg::operator ==\<close>; the length compared is computed in \<open>uint8\<close>.\<close>

definition msg_eq :: "msg \<Rightarrow> msg \<Rightarrow> bool" where
  "msg_eq m other \<longleftrightarrow>
     m_bFinal m \<and> m_bFinal other \<and>
     (let n = unat (m_length m - (if m_bCallbackRequired m then 2 else 1))
      in take n (m_buffer m) = take n (m_buffer other))"

definition GetSendingCommandClass :: "msg \<Rightarrow> uint8" where
  "GetSendingCommandClass m = (if m_buffer m ! 3 = 0x13 then m_buffer m ! 6 else 0)"

definition setNonce :: "uint8 \<Rightarrow> bytes \<Rightarrow> msg \<Rightarrow> (uint8 \<times> msg) option" where
  "setNonce s nonce m = do {
     n \<leftarrow> peek_block nonce 0 8;
     UpdateCallbackId s (m\<lparr>m_nonce := n, m_noncerecvd := True\<rparr>)
   }"

definition clearNonce :: "msg \<Rightarrow> msg" where
  "clearNonce m = m\<lparr>m_nonce := replicate 8 0, m_noncerecvd := False\<rparr>"

section \<open>Content and well-formedness\<close>

definition content :: "msg \<Rightarrow> bytes" where
  "content m = take (unat (m_length m)) (m_buffer m)"

definition msg_wf :: "msg \<Rightarrow> bool" where
  "msg_wf m \<longleftrightarrow> length (m_buffer m) = 256 \<and> 4 \<le> unat (m_length m) \<and> m_buffer m ! 0 = SOF"

text \<open>What a receiver checks of a frame: start byte, length byte and checksum.\<close>

definition frame_valid :: "bytes \<Rightarrow> bool" where
  "frame_valid f \<longleftrightarrow>
     3 \<le> length f \<and> f ! 0 = SOF \<and> unat (f ! 1) + 2 = length f \<and>
     last f = xor_sum 0xff (drop 1 (butlast f))"

lemma length_content [frame_simps]: "msg_wf m \<Longrightarrow> length (content m) = unat (m_length m)"
  by (simp add: content_def msg_wf_def order.strict_implies_order)

lemma msg_wf_new: "msg_wf (Msg_new t n ty f cb rr er ec)"
  by (simp add: msg_wf_def Msg_new_def)

lemma content_new: "content (Msg_new t n ty f cb rr er ec) = [SOF, 0, ty, f]"
  by (simp add: content_def Msg_new_def)

lemma msg_wf_nonempty: "msg_wf m \<Longrightarrow> 4 \<le> length (content m) \<and> content m ! 0 = SOF"
  by (simp add: frame_simps content_def msg_wf_def)

text \<open>Appending one byte to the content; \<open>take_put\<close> is the list fact behind it.\<close>

lemma take_put: "n < length xs \<Longrightarrow> take (Suc n) (xs[n := x]) = take n xs @ [x]"
  by (simp add: take_Suc_conv_app_nth)

lemma Append_wf: "msg_wf m \<Longrightarrow> unat (m_length m) < 255 \<Longrightarrow> msg_wf (Append d m)"
  by (simp add: msg_wf_def Append_def unat_u8_succ nth_list_update)

lemma content_Append:
  "msg_wf m \<Longrightarrow> unat (m_length m) < 255 \<Longrightarrow> content (Append d m) = content m @ [d]"
  by (simp add: msg_wf_def content_def Append_def unat_u8_succ take_put)

lemma content_fold_Append:
  "msg_wf m \<Longrightarrow> unat (m_length m) + length ds \<le> 255 \<Longrightarrow>
     msg_wf (fold Append ds m) \<and> content (fold Append ds m) = content m @ ds \<and>
     m_bFinal (fold Append ds m) = m_bFinal m"
proof (induction ds arbitrary: m)
  case Nil
  then show ?case by simp
next
  case (Cons d ds)
  then have lt: "unat (m_length m) < 255" by simp
  have "unat (m_length (Append d m)) = Suc (unat (m_length m))"
    using lt by (simp add: Append_def unat_u8_succ)
  with Cons.prems Cons.IH [of "Append d m"] lt show ?case
    by (simp add: Append_wf content_Append) (simp add: Append_def)
qed

section \<open>Encapsulation\<close>

lemma shift_up_eq:
  assumes "5 \<le> i" and "i + off < length buf"
  shows "shift_up off i buf
    = Some (take (6 + off) buf @ drop 6 (take (Suc i) buf) @ drop (Suc i + off) buf)"
  using assms
proof (induction i arbitrary: buf)
  case 0
  then show ?case by simp
next
  case (Suc i)
  show ?case
  proof (cases "Suc i < 6")
    case True
    with Suc.prems have "Suc i = 5" by simp
    then show ?thesis by (subst shift_up.simps) simp
  next
    case False
    let ?b = "buf[Suc i + off := buf ! Suc i]"
    have "shift_up off i ?b
        = Some (take (6 + off) ?b @ drop 6 (take (Suc i) ?b) @ drop (Suc i + off) ?b)"
      using Suc.prems False by (intro Suc.IH) simp_all
    moreover have "take (6 + off) ?b = take (6 + off) buf" and "take (Suc i) ?b = take (Suc i) buf"
      using False by simp_all
    moreover have "drop (Suc i + off) ?b = buf ! Suc i # drop (Suc (Suc i) + off) buf"
      using Suc.prems by (simp add: drop_update_swap Cons_nth_drop_Suc [symmetric])
    moreover have "drop 6 (take (Suc (Suc i)) buf) = drop 6 (take (Suc i) buf) @ [buf ! Suc i]"
      using Suc.prems False take_Suc_conv_app_nth [of "Suc i" buf] by simp
    ultimately show ?thesis
      using Suc.prems False by (subst shift_up.simps) simp
  qed
qed

text \<open>
  The effect of moving the payload up by \<open>off\<close> and overwriting bytes below \<open>6 + off\<close>,
  seen on the content.
\<close>

lemma take_conv_map_nth: "n \<le> length xs \<Longrightarrow> take n xs = map ((!) xs) [0..<n]"
  by (rule nth_equalityI) simp_all

lemma take_shifted:
  assumes "6 \<le> n" and "n + off \<le> length buf" and "length hd' = 6 + off"
  shows "take (n + off) (hd' @ drop 6 (take n buf) @ rest) = hd' @ drop 6 (take n buf)"
  using assms by simp

lemma upt_10: "[0..<10] = [0, 1, 2, 3, 4, 5, 6, 7, 8, 9 :: nat]"
  by (simp add: upt_rec)

lemma upt_9: "[0..<9] = [0, 1, 2, 3, 4, 5, 6, 7, 8 :: nat]"
  by (simp add: upt_rec)

lemma MultiEncap_channel:
  assumes wf: "msg_wf m" and fn: "m_buffer m ! 3 = FUNC_ID_ZW_SEND_DATA"
    and flag: "m_flags m AND flag_MultiChannel \<noteq> 0"
    and lo: "6 \<le> unat (m_length m)" and hi: "unat (m_length m) \<le> 251"
  obtains m' where "MultiEncap m = Some m'" and "msg_wf m'"
    and "unat (m_length m') = unat (m_length m) + 4"
    and "content m' = (let c = content m in
      [SOF, c ! 1, c ! 2, 0x13, c ! 4, c ! 5 + 4, CC_MULTI_INSTANCE, MultiChannelCmd_Encap,
       1, m_endPoint m] @ drop 6 c)"
    and "m_bFinal m' = m_bFinal m" and "m_bCallbackRequired m' = m_bCallbackRequired m"
proof -
  let ?n = "unat (m_length m)" and ?b = "m_buffer m"
  let ?s = "take 10 ?b @ drop 6 (take ?n ?b) @ drop (?n + 4) ?b"
  from wf have len: "length ?b = 256" and sof: "?b ! 0 = SOF" by (simp_all add: msg_wf_def)
  have nz: "m_length m \<noteq> 0" using lo by auto
  then have "shift_up 4 (last_index (m_length m)) ?b = Some ?s"
    using lo hi len by (simp add: last_index_def shift_up_eq Suc_diff_Suc)
  then obtain m' where m': "MultiEncap m = Some m'"
    and eqs: "m_buffer m' = ?s[5 := ?s ! 5 + 4, 6 := CC_MULTI_INSTANCE,
        7 := MultiChannelCmd_Encap, 8 := 1, 9 := m_endPoint m]"
      "m_length m' = m_length m + 4" "m_bFinal m' = m_bFinal m"
      "m_bCallbackRequired m' = m_bCallbackRequired m"
    using fn flag by (simp add: MultiEncap_def)
  have n4: "unat (m_length m') = ?n + 4" using hi eqs by (simp add: unat_word_ariths)
  have hd10: "take 10 ?b = [SOF, ?b ! 1, ?b ! 2, 0x13, ?b ! 4, ?b ! 5, ?b ! 6, ?b ! 7, ?b ! 8, ?b ! 9]"
    using len sof fn by (simp add: take_conv_map_nth upt_10)
  let ?h = "[SOF, ?b ! 1, ?b ! 2, 0x13, ?b ! 4, ?b ! 5 + 4, CC_MULTI_INSTANCE,
    MultiChannelCmd_Encap, 1, m_endPoint m]"
  have buf: "m_buffer m' = ?h @ drop 6 (take ?n ?b) @ drop (?n + 4) ?b"
    unfolding eqs hd10 by simp
  then have "content m' = ?h @ drop 6 (take ?n ?b)"
    using take_shifted [of ?n 4 ?b ?h "drop (?n + 4) ?b"] lo hi len n4 by (simp add: content_def)
  moreover have "content m ! i = ?b ! i" if "i < 6" for i using that lo by (simp add: content_def)
  ultimately have "content m' = (let c = content m in
      [SOF, c ! 1, c ! 2, 0x13, c ! 4, c ! 5 + 4, CC_MULTI_INSTANCE, MultiChannelCmd_Encap,
       1, m_endPoint m] @ drop 6 c)"
    by (simp add: Let_def) (simp add: content_def)
  moreover have "msg_wf m'"
    using buf len lo hi n4 by (simp add: msg_wf_def)
  ultimately show thesis using that m' n4 eqs by blast
qed

lemma MultiEncap_instance:
  assumes wf: "msg_wf m" and fn: "m_buffer m ! 3 = FUNC_ID_ZW_SEND_DATA"
    and flag: "m_flags m AND flag_MultiChannel = 0"
    and lo: "6 \<le> unat (m_length m)" and hi: "unat (m_length m) \<le> 252"
  obtains m' where "MultiEncap m = Some m'" and "msg_wf m'"
    and "unat (m_length m') = unat (m_length m) + 3"
    and "content m' = (let c = content m in
      [SOF, c ! 1, c ! 2, 0x13, c ! 4, c ! 5 + 3, CC_MULTI_INSTANCE, MultiInstanceCmd_Encap,
       m_instance m] @ drop 6 c)"
    and "m_bFinal m' = m_bFinal m" and "m_bCallbackRequired m' = m_bCallbackRequired m"
proof -
  let ?n = "unat (m_length m)" and ?b = "m_buffer m"
  let ?s = "take 9 ?b @ drop 6 (take ?n ?b) @ drop (?n + 3) ?b"
  from wf have len: "length ?b = 256" and sof: "?b ! 0 = SOF" by (simp_all add: msg_wf_def)
  have nz: "m_length m \<noteq> 0" using lo by auto
  then have "shift_up 3 (last_index (m_length m)) ?b = Some ?s"
    using lo hi len by (simp add: last_index_def shift_up_eq Suc_diff_Suc)
  then obtain m' where m': "MultiEncap m = Some m'"
    and eqs: "m_buffer m' = ?s[5 := ?s ! 5 + 3, 6 := CC_MULTI_INSTANCE,
        7 := MultiInstanceCmd_Encap, 8 := m_instance m]"
      "m_length m' = m_length m + 3" "m_bFinal m' = m_bFinal m"
      "m_bCallbackRequired m' = m_bCallbackRequired m"
    using fn flag by (simp add: MultiEncap_def)
  have n3: "unat (m_length m') = ?n + 3" using hi eqs by (simp add: unat_word_ariths)
  have hd9: "take 9 ?b = [SOF, ?b ! 1, ?b ! 2, 0x13, ?b ! 4, ?b ! 5, ?b ! 6, ?b ! 7, ?b ! 8]"
    using len sof fn by (simp add: take_conv_map_nth upt_9)
  let ?h = "[SOF, ?b ! 1, ?b ! 2, 0x13, ?b ! 4, ?b ! 5 + 3, CC_MULTI_INSTANCE,
    MultiInstanceCmd_Encap, m_instance m]"
  have buf: "m_buffer m' = ?h @ drop 6 (take ?n ?b) @ drop (?n + 3) ?b"
    unfolding eqs hd9 by simp
  then have "content m' = ?h @ drop 6 (take ?n ?b)"
    using take_shifted [of ?n 3 ?b ?h "drop (?n + 3) ?b"] lo hi len n3 by (simp add: content_def)
  moreover have "content m ! i = ?b ! i" if "i < 6" for i using that lo by (simp add: content_def)
  ultimately have "content m' = (let c = content m in
      [SOF, c ! 1, c ! 2, 0x13, c ! 4, c ! 5 + 3, CC_MULTI_INSTANCE, MultiInstanceCmd_Encap,
       m_instance m] @ drop 6 c)"
    by (simp add: Let_def) (simp add: content_def)
  moreover have "msg_wf m'"
    using buf len lo hi n3 by (simp add: msg_wf_def)
  ultimately show thesis using that m' n3 eqs by blast
qed

section \<open>Finalisation refines a frame specification\<close>

definition encap_spec :: "msg \<Rightarrow> bytes \<Rightarrow> bytes" where
  "encap_spec m c =
     (if m_flags m AND (flag_MultiChannel OR flag_MultiInstance) = 0 \<or> c ! 3 \<noteq> FUNC_ID_ZW_SEND_DATA
      then c
      else if m_flags m AND flag_MultiChannel \<noteq> 0
      then [SOF, c ! 1, c ! 2, 0x13, c ! 4, c ! 5 + 4, CC_MULTI_INSTANCE, MultiChannelCmd_Encap,
            1, m_endPoint m] @ drop 6 c
      else [SOF, c ! 1, c ! 2, 0x13, c ! 4, c ! 5 + 3, CC_MULTI_INSTANCE, MultiInstanceCmd_Encap,
            m_instance m] @ drop 6 c)"

definition frame_of :: "bytes \<Rightarrow> bytes" where
  "frame_of body =
     (let l = of_nat (length body + 1) in SOF # l # body @ [xor_sum 0xff (l # body)])"

definition frame_spec :: "uint8 \<Rightarrow> msg \<Rightarrow> bytes" where
  "frame_spec s m =
     frame_of (drop 2 (encap_spec m (content m)) @
               (if m_bCallbackRequired m then [fst (next_callback_id s)] else []))"

text \<open>Room in the 256-byte buffer for the header, the callback id and the checksum.\<close>

definition fits :: "msg \<Rightarrow> bool" where
  "fits m \<longleftrightarrow> 4 \<le> unat (m_length m) \<and> unat (m_length m) \<le> 249 \<and>
     (m_flags m AND (flag_MultiChannel OR flag_MultiInstance) \<noteq> 0 \<longrightarrow> 6 \<le> unat (m_length m))"

lemma frame_of_eq:
  "of_nat (length body + 1) = l \<Longrightarrow> frame_of body = SOF # l # body @ [xor_sum 0xff (l # body)]"
  by (auto simp: frame_of_def Let_def)

lemma frame_of_valid: "length body < 255 \<Longrightarrow> frame_valid (frame_of body)"
  by (simp add: frame_of_def frame_valid_def Let_def butlast_append unat_u8_Suc)

lemma frame_valid_frame_of:
  assumes "frame_valid f"
  shows "f = frame_of (drop 2 (butlast f))"
proof -
  from assms obtain l r where f: "f = SOF # l # r" and r: "r \<noteq> []"
    by (cases f; cases "tl f"; cases "tl (tl f)") (auto simp: frame_valid_def)
  from assms f have "unat l = length r" and "last r = xor_sum 0xff (l # butlast r)"
    using r by (auto simp: frame_valid_def)
  moreover from this r have "of_nat (length (butlast r) + 1) = l"
    by (metis Suc_eq_plus1 length_butlast Suc_pred' length_greater_0_conv u8_of_nat_unat)
  ultimately have "frame_of (butlast r) = SOF # l # butlast r @ [last r]"
    by (simp add: frame_of_def Let_def)
  then show ?thesis using f r by simp
qed

lemma set_length_byte:
  "2 \<le> length c \<Longrightarrow> c ! 0 = SOF \<Longrightarrow> c[1 := l] = SOF # l # drop 2 c"
  by (cases c; cases "tl c") auto

text \<open>Writing byte \<open>n\<close> and then the checksum of bytes 1 to \<open>n\<close> at \<open>n + 1\<close>.\<close>

lemma take_checksum:
  assumes "n < length b"
  shows "take (Suc n) (b[n := checksum b n]) = take n b @ [xor_sum 0xff (drop 1 (take n b))]"
  using assms by (simp add: take_put checksum_def)

lemma content_Finalize_tail:
  assumes wf: "msg_wf m" and hi: "unat (m_length m) \<le> 253" and t: "Finalize_tail s m = (s', m')"
  shows "content m' = frame_of (drop 2 (content m) @
      (if m_bCallbackRequired m then [fst (next_callback_id s)] else []))"
    and "unat (m_length m') = unat (m_length m) + (if m_bCallbackRequired m then 2 else 1)"
    and "length (m_buffer m') = 256 \<and> m_bFinal m'"
proof -
  let ?n = "unat (m_length m)" and ?b = "m_buffer m" and ?c = "fst (next_callback_id s)"
  have len: "length ?b = 256" "4 \<le> ?n" "?b ! 0 = SOF" using wf by (simp_all add: msg_wf_def)
  have upd: "take ?n (?b[1 := l]) = SOF # l # drop 2 (content m)" for l
    using len hi set_length_byte [of "content m" l] by (simp add: content_def take_update_swap)
  have lc: "length (content m) = ?n" using wf by (rule length_content)
  show "content m' = frame_of (drop 2 (content m) @
      (if m_bCallbackRequired m then [?c] else []))"
  proof (cases "m_bCallbackRequired m")
    case True
    let ?x = "?b[1 := m_length m, ?n := ?c]"
    have n1: "unat (m_length m + 1) = Suc ?n" using hi by (simp add: unat_u8_succ)
    have n2: "unat (m_length m + 2) = Suc (Suc ?n)" using hi by (simp add: unat_word_ariths)
    have x: "take (Suc ?n) ?x = SOF # m_length m # drop 2 (content m) @ [?c]"
      using len hi upd by (simp add: take_put)
    have "m_buffer m' = ?x[Suc ?n := checksum ?x (Suc ?n)]" and "m_length m' = m_length m + 2"
      using t True n1 by (auto simp: Finalize_tail_def Let_def split_beta)
    then have "content m' = take (Suc ?n) ?x @ [xor_sum 0xff (drop 1 (take (Suc ?n) ?x))]"
      using take_checksum [of "Suc ?n" ?x] len hi n2 by (simp add: content_def)
    moreover have "of_nat (length (drop 2 (content m) @ [?c]) + 1) = m_length m"
      using lc len by (simp add: Suc_diff_Suc numeral_2_eq_2)
    ultimately show ?thesis using True x by (simp add: frame_of_def Let_def)
  next
    case False
    let ?x = "?b[1 := m_length m - 1]"
    have n1: "unat (m_length m + 1) = Suc ?n" using hi by (simp add: unat_u8_succ)
    have "m_buffer m' = ?x[?n := checksum ?x ?n]" and "m_length m' = m_length m + 1"
      using t False by (auto simp: Finalize_tail_def Let_def split_beta)
    then have "content m' = take ?n ?x @ [xor_sum 0xff (drop 1 (take ?n ?x))]"
      using take_checksum [of ?n ?x] len hi n1 by (simp add: content_def)
    moreover have l: "of_nat (length (drop 2 (content m)) + 1) = m_length m - 1"
      using lc len by (simp add: of_nat_diff)
    note fr = frame_of_eq [OF l]
    ultimately show ?thesis using False upd by (simp add: fr)
  qed
  show "unat (m_length m') = ?n + (if m_bCallbackRequired m then 2 else 1)"
    using t hi by (auto simp: Finalize_tail_def Let_def split_beta unat_word_ariths split: if_splits)
  show "length (m_buffer m') = 256 \<and> m_bFinal m'"
    using t len by (auto simp: Finalize_tail_def Let_def split_beta split: if_splits)
qed

lemma MultiEncap_refines:
  assumes wf: "msg_wf m" and fit: "fits m"
    and flag: "m_flags m AND (flag_MultiChannel OR flag_MultiInstance) \<noteq> 0"
  obtains m' where "MultiEncap m = Some m'" and "msg_wf m'"
    and "unat (m_length m') \<le> 253" and "content m' = encap_spec m (content m)"
    and "m_bCallbackRequired m' = m_bCallbackRequired m"
proof (cases "m_buffer m ! 3 = FUNC_ID_ZW_SEND_DATA")
  case False
  moreover have "content m ! 3 = m_buffer m ! 3"
    using fit by (simp add: content_def fits_def)
  ultimately show thesis
    using that [of m] wf fit flag by (simp add: MultiEncap_def encap_spec_def fits_def)
next
  case True
  moreover from this have c3: "content m ! 3 = FUNC_ID_ZW_SEND_DATA"
    using fit by (simp add: content_def fits_def)
  moreover have lo: "6 \<le> unat (m_length m)" and hi: "unat (m_length m) \<le> 249"
    using fit flag by (simp_all add: fits_def)
  ultimately show thesis
  proof (cases "m_flags m AND flag_MultiChannel = 0")
    case True
    show thesis
      by (rule MultiEncap_instance [OF wf \<open>m_buffer m ! 3 = _\<close> True lo])
        (use hi flag True c3 in \<open>auto intro!: that simp: encap_spec_def Let_def\<close>)
  next
    case False
    show thesis
      by (rule MultiEncap_channel [OF wf \<open>m_buffer m ! 3 = _\<close> False lo])
        (use hi flag False c3 in \<open>auto intro!: that simp: encap_spec_def Let_def\<close>)
  qed
qed

text \<open>The whole of \<open>Finalize\<close> on a message with room for its trailer.\<close>

lemma Finalize_refines:
  assumes wf: "msg_wf m" and fit: "fits m" and nf: "\<not> m_bFinal m"
  obtains s' m' where "Finalize s m = Some (s', m')" and "content m' = frame_spec s m"
    and "msg_wf m'" and "m_bFinal m'"
proof -
  obtain m1 where enc: "(if m_flags m AND (flag_MultiChannel OR flag_MultiInstance) \<noteq> 0
        then MultiEncap m else Some m) = Some m1"
    and wf1: "msg_wf m1" and n1: "unat (m_length m1) \<le> 253"
    and c1: "content m1 = encap_spec m (content m)"
    and cb1: "m_bCallbackRequired m1 = m_bCallbackRequired m"
  proof (cases "m_flags m AND (flag_MultiChannel OR flag_MultiInstance) = 0")
    case True
    then show thesis using that [of m] wf fit by (simp add: encap_spec_def fits_def)
  next
    case False
    from MultiEncap_refines [OF wf fit False] show thesis using that False by metis
  qed
  obtain s' m' where t: "Finalize_tail s m1 = (s', m')" by (cases "Finalize_tail s m1")
  note ct = content_Finalize_tail [OF wf1 n1 t]
  have "msg_wf m'"
  proof -
    have "content m' ! 0 = SOF" using ct(1) by (simp add: frame_of_def Let_def)
    then show ?thesis using ct(2,3) wf1 by (auto simp: msg_wf_def content_def split: if_splits)
  qed
  moreover have "Finalize s m = Some (s', m')" using enc t nf by (simp add: Finalize_def)
  moreover have "content m' = frame_spec s m" using ct(1) c1 cb1 by (simp add: frame_spec_def)
  ultimately show thesis using that ct(3) by blast
qed

section \<open>Callback ids\<close>

text \<open>The ids that \<open>n\<close> successive allocations hand out, from counter value \<open>s\<close>.\<close>

fun callback_ids :: "nat \<Rightarrow> uint8 \<Rightarrow> uint8 list" where
  "callback_ids 0 s = []"
| "callback_ids (Suc n) s = (let (c, s') = next_callback_id s in c # callback_ids n s')"

definition counter_ok :: "uint8 \<Rightarrow> bool" where
  "counter_ok s \<longleftrightarrow> s = 0 \<or> 10 \<le> unat s"

definition counter_pos :: "uint8 \<Rightarrow> nat" where
  "counter_pos s = (if s = 0 then 0 else unat s - 10)"

lemma next_callback_id_pos:
  assumes "counter_ok s" and "next_callback_id s = (c, s')"
  shows "counter_ok s' \<and> unat c = 10 + counter_pos s \<and> counter_pos s < 246 \<and>
    counter_pos s' = (counter_pos s + 1) mod 246"
proof -
  have c: "c = (if s = 0 then 10 else s)" and s': "s' = c + 1"
    using assms(2) by (auto simp: next_callback_id_def Let_def)
  have uc: "unat c = 10 + counter_pos s" and lt: "counter_pos s < 246"
    using c assms(1) by (auto simp: counter_ok_def counter_pos_def less_diff_conv2)
  show ?thesis
  proof (cases "c = 255")
    case True
    then show ?thesis using s' uc by (simp add: counter_ok_def counter_pos_def)
  next
    case False
    then have "unat c < 255" by (rule unat_u8_neq)
    then have "unat s' = Suc (unat c)" by (simp add: s' unat_u8_succ)
    moreover from this have "s' \<noteq> 0" by auto
    ultimately show ?thesis using uc lt \<open>unat c < 255\<close>
      by (simp add: counter_ok_def counter_pos_def)
  qed
qed

lemma callback_ids_eq:
  "counter_ok s \<Longrightarrow>
    map unat (callback_ids n s) = map (\<lambda>k. 10 + (counter_pos s + k) mod 246) [0..<n]"
proof (induction n arbitrary: s)
  case 0
  then show ?case by simp
next
  case (Suc n)
  obtain c s' where n: "next_callback_id s = (c, s')" by (cases "next_callback_id s")
  note p = next_callback_id_pos [OF Suc.prems n]
  have "map unat (callback_ids n s')
      = map (\<lambda>k. 10 + (counter_pos s + Suc k) mod 246) [0..<n]"
    using Suc.IH [of s'] p by (simp add: mod_add_left_eq)
  also have "\<dots> = map (\<lambda>k. 10 + (counter_pos s + k) mod 246) [Suc 0..<Suc n]"
    by (simp add: map_Suc_upt [symmetric] comp_def del: upt_Suc)
  finally show ?case using n p by (simp add: upt_conv_Cons del: upt_Suc)
qed

section \<open>Renewing the callback id\<close>

lemma UpdateCallbackId_content:
  assumes wf: "msg_wf m" and cb: "m_bCallbackRequired m" and c: "content m = frame_of (p @ [x])"
  obtains s' m' where "UpdateCallbackId s m = Some (s', m')" and "next_callback_id s = (m_callbackId m', s')"
    and "content m' = frame_of (p @ [m_callbackId m'])" and "msg_wf m'"
proof -
  let ?n = "unat (m_length m)" and ?b = "m_buffer m"
  obtain i s' where n: "next_callback_id s = (i, s')" by (cases "next_callback_id s")
  have len: "length ?b = 256" "4 \<le> ?n" "?b ! 0 = SOF" using wf by (simp_all add: msg_wf_def)
  have lc: "?n = length p + 4"
    using length_content [OF wf] c by (simp add: frame_of_def Let_def)
  let ?l = "of_nat (length p + 2) :: uint8"
  have "take (?n - 2) ?b = take (?n - 2) (content m)" by (simp add: content_def)
  also have "\<dots> = SOF # ?l # p" using lc c by (simp add: frame_of_def Let_def)
  finally have t: "take (length p + 2) ?b = SOF # ?l # p" using lc by simp
  let ?b1 = "?b[length p + 2 := i]"
  have t1: "take (length p + 3) ?b1 = SOF # ?l # p @ [i]"
    using take_put [of "length p + 2" ?b i] t lc len unat_u8_le [of "m_length m"] by (simp add: eval_nat_numeral)
  define m' where "m' = m\<lparr>m_buffer := ?b1[length p + 3 := checksum ?b1 (length p + 3)], m_callbackId := i\<rparr>"
  have "UpdateCallbackId s m = Some (s', m')"
    using cb lc n by (simp add: UpdateCallbackId_def m'_def numeral_eq_Suc Let_def)
  moreover have "content m' = frame_of (p @ [i])"
    using take_checksum [of "length p + 3" ?b1] t1 lc len unat_u8_le [of "m_length m"]
    by (simp add: content_def m'_def frame_of_def Let_def eval_nat_numeral)
  moreover have "msg_wf m'"
    using wf lc by (simp add: msg_wf_def m'_def)
  moreover have "m_callbackId m' = i" by (simp add: m'_def)
  ultimately show thesis using that n by metis
qed

section \<open>Properties\<close>

text \<open>(C2) Finalising a message that has room for its trailer succeeds, yields exactly the
  specified frame (encapsulated payload, callback id when required, length byte, checksum),
  and the frame passes the receiver's check.\<close>

theorem Finalize_frame:
  assumes "msg_wf m" and "fits m" and "\<not> m_bFinal m"
  shows "\<exists>s' m'. Finalize s m = Some (s', m') \<and> content m' = frame_spec s m \<and>
    frame_valid (content m') \<and> m_bFinal m'"
proof -
  obtain s' m' where f: "Finalize s m = Some (s', m')" "content m' = frame_spec s m"
    "msg_wf m'" "m_bFinal m'"
    by (rule Finalize_refines [OF assms])
  have "length (frame_spec s m) < 256"
    using length_content [OF f(3)] f(2) by simp
  then have "frame_valid (frame_spec s m)"
    unfolding frame_spec_def by (intro frame_of_valid) (simp add: frame_of_def Let_def split: if_splits)
  with f show ?thesis by auto
qed

theorem Finalize_frame_witness:
  "\<exists>s' m'. Finalize 255 (Append 0x25 (Append 1 (Append 7 (Msg_new ''x'' 7 REQUEST FUNC_ID_ZW_SEND_DATA
       True True 0 0)))) = Some (s', m') \<and>
     content m' = [0x01, 0x07, 0x00, 0x13, 0x07, 0x01, 0x25, 0xff, 0x37] \<and> frame_valid (content m')"
proof -
  let ?start = "Msg_new ''x'' 7 REQUEST FUNC_ID_ZW_SEND_DATA True True 0 0"
  let ?m = "Append 0x25 (Append 1 (Append 7 ?start))"
  have "msg_wf ?start" and "unat (m_length ?start) + length [7, 1, 0x25 :: uint8] \<le> 255"
    by (simp_all add: msg_wf_new) (simp add: Msg_new_def)
  note w = content_fold_Append [OF this]
  have fit: "fits ?m" by (simp add: fits_def Append_def Msg_new_def)
  have "content ?m = [SOF, 0, REQUEST, FUNC_ID_ZW_SEND_DATA, 7, 1, 0x25]"
    using w by (simp add: content_new)
  then have "frame_spec 255 ?m = [0x01, 0x07, 0x00, 0x13, 0x07, 0x01, 0x25, 0xff, 0x37]"
    by (simp add: frame_spec_def encap_spec_def frame_of_def next_callback_id_def Append_def
        Msg_new_def frame_simps)
  moreover have "\<not> m_bFinal ?m" by (simp add: Append_def Msg_new_def)
  ultimately show ?thesis
    using Finalize_frame [of ?m 255] w fit by auto
qed



text \<open>Callback ids never fall in the reserved range below 10 and repeat only after 246
  allocations, so no two of 246 consecutive messages share one.\<close>

theorem callback_ids_fresh:
  assumes "counter_ok s" and "n \<le> 246"
  shows "distinct (callback_ids n s) \<and> (\<forall>c \<in> set (callback_ids n s). 10 \<le> unat c)"
proof -
  have e: "map unat (callback_ids n s) = map (\<lambda>k. 10 + (counter_pos s + k) mod 246) [0..<n]"
    by (rule callback_ids_eq [OF assms(1)])
  have "inj_on (\<lambda>k. 10 + (counter_pos s + k) mod 246) {0..<n}"
  proof (rule inj_onI)
    fix j k assume jk: "j \<in> {0..<n}" "k \<in> {0..<n}"
      and eq: "10 + (counter_pos s + j) mod 246 = 10 + (counter_pos s + k) mod 246"
    have "counter_pos s < 246"
      using next_callback_id_pos [OF assms(1)] by (cases "next_callback_id s") auto
    then have "(counter_pos s + i) mod 246
        = (if counter_pos s + i < 246 then counter_pos s + i else counter_pos s + i - 246)"
      if "i < 246" for i using that by (simp add: mod_if)
    then show "j = k" using jk eq assms(2) by (auto split: if_splits)
  qed
  then have "distinct (map unat (callback_ids n s))"
    unfolding e by (simp add: distinct_map)
  moreover have "10 \<le> unat c" if "c \<in> set (callback_ids n s)" for c
  proof -
    from that have "unat c \<in> set (map unat (callback_ids n s))" by simp
    then show ?thesis unfolding e by auto
  qed
  ultimately show ?thesis by (auto simp: distinct_map)
qed

theorem callback_ids_fresh_witness:
  "distinct (callback_ids 3 254) \<and> callback_ids 3 254 = [254, 255, 10]"
proof -
  have "counter_ok 254" by (simp add: counter_ok_def)
  then show ?thesis
    using callback_ids_fresh [of 254 3] by (simp add: numeral_3_eq_3 next_callback_id_def)
qed

text \<open>A resend renews the callback id of a framed message and recomputes the checksum:
  the frame differs from the old one in exactly these two bytes and is again valid.\<close>

theorem UpdateCallbackId_frame:
  assumes "msg_wf m" and "m_bCallbackRequired m" and "content m = frame_of (p @ [x])"
  shows "\<exists>s' m'. UpdateCallbackId s m = Some (s', m') \<and>
    next_callback_id s = (m_callbackId m', s') \<and>
    content m' = frame_of (p @ [m_callbackId m']) \<and> frame_valid (content m')"
proof -
  have "length p + 4 < 256"
    using length_content [OF assms(1)] assms(3) unat_u8_le [of "m_length m"]
    by (simp add: frame_of_def Let_def)
  then have "frame_valid (frame_of (p @ [y]))" for y by (intro frame_of_valid) simp
  then show ?thesis
    using UpdateCallbackId_content [OF assms] by metis
qed

theorem UpdateCallbackId_frame_witness:
  "\<exists>s' m'. UpdateCallbackId 20 ((Msg_new ''x'' 7 REQUEST FUNC_ID_ZW_SEND_DATA True True 0 0)
      \<lparr>m_length := 6, m_buffer := frame_of [0, 0x13, 10] @ replicate 250 0\<rparr>) = Some (s', m') \<and>
    content m' = frame_of [0, 0x13, 20]"
proof -
  let ?m = "(Msg_new ''x'' 7 REQUEST FUNC_ID_ZW_SEND_DATA True True 0 0)
      \<lparr>m_length := 6, m_buffer := frame_of [0, 0x13, 10] @ replicate 250 0\<rparr>"
  have "msg_wf ?m" and "m_bCallbackRequired ?m" and "content ?m = frame_of ([0, 0x13] @ [10])"
    by (simp_all add: msg_wf_def Msg_new_def frame_of_def content_def)
  from UpdateCallbackId_frame [OF this, of 20] show ?thesis
    by (auto simp: next_callback_id_def)
qed

end
