(* ===== verification/Serial_Buffer.thy ===== *)
theory Serial_Buffer
  imports Prelude
begin

text \<open>
  The ring buffer between the serial reader thread and the driver,
  \<open>cpp/src/platform/Stream.cpp\<close>.  Sizes and positions are \<open>uint32\<close>; the two block
  copies of a wrapped transfer are checked accesses, so a result \<open>Some\<close> includes that no
  copy leaves the buffer.  \<open>byte_fifo\<close> is the interface the driver relies on: a bounded
  first-in first-out queue of bytes; the ring buffer is an instance of it, and the
  conservation law of a whole run of operations is proved once for the interface.
\<close>

section \<open>The interface\<close>

datatype fifo_op = PutOp bytes | GetOp nat

text \<open>A run of operations: the bytes accepted, the bytes delivered and the final state.\<close>

fun fifo_run ::
  "(bytes \<Rightarrow> 's \<Rightarrow> (bool \<times> 's) option) \<Rightarrow> (nat \<Rightarrow> 's \<Rightarrow> (bool \<times> bytes \<times> 's) option) \<Rightarrow>
   fifo_op list \<Rightarrow> 's \<Rightarrow> (bytes \<times> bytes \<times> 's) option" where
  "fifo_run pt gt [] s = Some ([], [], s)"
| "fifo_run pt gt (PutOp bs # ops) s = do {
     (ok, s') \<leftarrow> pt bs s;
     (acc, del, s'') \<leftarrow> fifo_run pt gt ops s';
     Some ((if ok then bs else []) @ acc, del, s'')
   }"
| "fifo_run pt gt (GetOp n # ops) s = do {
     (ok, bs, s') \<leftarrow> gt n s;
     (acc, del, s'') \<leftarrow> fifo_run pt gt ops s';
     Some (acc, (if ok then bs else []) @ del, s'')
   }"

locale byte_fifo =
  fixes cont :: "'s \<Rightarrow> bytes"
    and inv :: "'s \<Rightarrow> bool"
    and cap :: "'s \<Rightarrow> nat"
    and put :: "bytes \<Rightarrow> 's \<Rightarrow> (bool \<times> 's) option"
    and get :: "nat \<Rightarrow> 's \<Rightarrow> (bool \<times> bytes \<times> 's) option"
  assumes cont_cap: "inv s \<Longrightarrow> length (cont s) \<le> cap s"
    and put_room: "inv s \<Longrightarrow> length (cont s) + length bs \<le> cap s \<Longrightarrow>
      \<exists>s'. put bs s = Some (True, s') \<and> inv s' \<and> cap s' = cap s \<and> cont s' = cont s @ bs"
    and put_full: "inv s \<Longrightarrow> cap s < length (cont s) + length bs \<Longrightarrow> put bs s = Some (False, s)"
    and get_data: "inv s \<Longrightarrow> n \<le> length (cont s) \<Longrightarrow>
      \<exists>s'. get n s = Some (True, take n (cont s), s') \<and> inv s' \<and> cap s' = cap s \<and>
           cont s' = drop n (cont s)"
    and get_short: "inv s \<Longrightarrow> length (cont s) < n \<Longrightarrow> get n s = Some (False, [], s)"
begin

lemma put_cases:
  assumes "inv s"
  obtains s' where "put bs s = Some (True, s')" "inv s'" "cap s' = cap s" "cont s' = cont s @ bs"
  | "put bs s = Some (False, s)"
  using put_room [OF assms] put_full [OF assms] by (meson not_le)

lemma get_cases:
  assumes "inv s"
  obtains s' where "get n s = Some (True, take n (cont s), s')" "inv s'" "cap s' = cap s"
    "cont s' = drop n (cont s)" "n \<le> length (cont s)"
  | "get n s = Some (False, [], s)" "length (cont s) < n"
  using get_data [OF assms] get_short [OF assms] by (meson not_le)

text \<open>No byte is lost, duplicated or reordered: what was in the queue, followed by what was
  accepted, is what was delivered followed by what is still in the queue.\<close>

lemma run_conserves:
  "inv s \<Longrightarrow> \<exists>acc del s'. fifo_run put get ops s = Some (acc, del, s') \<and> inv s' \<and>
     cap s' = cap s \<and> cont s @ acc = del @ cont s'"
proof (induction ops arbitrary: s)
  case Nil
  then show ?case by simp
next
  case (Cons p ops)
  show ?case
  proof (cases p)
    case (PutOp bs)
    from Cons.prems show ?thesis
    proof (cases rule: put_cases [where bs = bs])
      case (1 s')
      with Cons.IH [of s'] show ?thesis by (auto simp: PutOp)
    next
      case 2
      with Cons.IH [OF Cons.prems] show ?thesis by (auto simp: PutOp)
    qed
  next
    case (GetOp n)
    from Cons.prems show ?thesis
    proof (cases rule: get_cases [where n = n])
      case (1 s')
      with Cons.IH [of s'] obtain acc del s'' where r: "fifo_run put get ops s' = Some (acc, del, s'')"
        "inv s''" "cap s'' = cap s" "drop n (cont s) @ acc = del @ cont s''" by auto
      have "cont s @ acc = take n (cont s) @ drop n (cont s) @ acc" by simp
      also have "\<dots> = (take n (cont s) @ del) @ cont s''" by (simp only: r(4) append_assoc)
      finally show ?thesis using 1 r by (auto simp: GetOp)
    next
      case 2
      with Cons.IH [OF Cons.prems] show ?thesis by (auto simp: GetOp)
    qed
  qed
qed

lemma put_then_get:
  assumes "inv s" and "cont s = []" and "length bs \<le> cap s"
  shows "\<exists>s1 s2. put bs s = Some (True, s1) \<and> get (length bs) s1 = Some (True, bs, s2) \<and>
    cont s2 = []"
proof -
  obtain s1 where s1: "put bs s = Some (True, s1)" "inv s1" "cont s1 = bs"
    using put_room [of s bs] assms by auto
  then show ?thesis using get_data [of s1 "length bs"] by auto
qed

end

section \<open>The ring buffer\<close>

record stream =
  st_buffer :: bytes
  m_bufferSize :: uint32
  m_signalSize :: uint32
  m_dataSize :: uint32
  m_head :: uint32
  m_tail :: uint32

definition Stream_new :: "uint32 \<Rightarrow> stream" where
  "Stream_new bufferSize =
     \<lparr> st_buffer = replicate (unat bufferSize) 0, m_bufferSize = bufferSize, m_signalSize = 1,
       m_dataSize = 0, m_head = 0, m_tail = 0 \<rparr>"

definition Stream_IsSignalled :: "stream \<Rightarrow> bool" where
  "Stream_IsSignalled s \<longleftrightarrow> m_dataSize s \<ge> m_signalSize s"

text \<open>The boolean result says whether the watchers are notified.\<close>

definition Stream_SetSignalThreshold :: "uint32 \<Rightarrow> stream \<Rightarrow> bool \<times> stream" where
  "Stream_SetSignalThreshold sz s =
     (let s' = s\<lparr>m_signalSize := sz\<rparr> in (Stream_IsSignalled s', s'))"

definition Stream_Get :: "uint32 \<Rightarrow> stream \<Rightarrow> (bool \<times> bytes \<times> stream) option" where
  "Stream_Get sz s =
     (if m_dataSize s < sz then Some (False, [], s)
      else if m_tail s + sz > m_bufferSize s then do {
        let block1 = m_bufferSize s - m_tail s;
        let block2 = sz - block1;
        b1 \<leftarrow> peek_block (st_buffer s) (unat (m_tail s)) (unat block1);
        b2 \<leftarrow> peek_block (st_buffer s) 0 (unat block2);
        Some (True, b1 @ b2, s\<lparr>m_tail := block2, m_dataSize := m_dataSize s - sz\<rparr>)
      } else do {
        b \<leftarrow> peek_block (st_buffer s) (unat (m_tail s)) (unat sz);
        Some (True, b, s\<lparr>m_tail := m_tail s + sz, m_dataSize := m_dataSize s - sz\<rparr>)
      })"

text \<open>\<open>Put\<close> copies \<open>sz\<close> bytes from the caller's buffer; the second component of the result
  says whether the watchers are notified.\<close>

definition Stream_Put :: "bytes \<Rightarrow> uint32 \<Rightarrow> stream \<Rightarrow> (bool \<times> bool \<times> stream) option" where
  "Stream_Put src sz s =
     (if m_bufferSize s - m_dataSize s < sz then Some (False, False, s)
      else do {
        s1 \<leftarrow> (if m_head s + sz > m_bufferSize s then do {
               let block1 = m_bufferSize s - m_head s;
               let block2 = sz - block1;
               x1 \<leftarrow> peek_block src 0 (unat block1);
               b1 \<leftarrow> poke_block (st_buffer s) (unat (m_head s)) x1;
               x2 \<leftarrow> peek_block src (unat block1) (unat block2);
               b2 \<leftarrow> poke_block b1 0 x2;
               Some (s\<lparr>st_buffer := b2, m_head := block2\<rparr>)
             } else do {
               x \<leftarrow> peek_block src 0 (unat sz);
               b \<leftarrow> poke_block (st_buffer s) (unat (m_head s)) x;
               Some (s\<lparr>st_buffer := b, m_head := m_head s + sz\<rparr>)
             });
        let s2 = s1\<lparr>m_dataSize := m_dataSize s1 + sz\<rparr>;
        Some (True, Stream_IsSignalled s2, s2)
      })"

definition Stream_Purge :: "stream \<Rightarrow> stream" where
  "Stream_Purge s = s\<lparr>m_tail := 0, m_head := 0, m_dataSize := 0\<rparr>"

text \<open>\<open>Stream::LogData\<close>: the text it writes to the log, if any.\<close>

definition Stream_LogData :: "bytes \<Rightarrow> string \<Rightarrow> string option" where
  "Stream_LogData bs func = (if bs = [] then None else Some (func @ hex_list bs))"

section \<open>Invariant and contents\<close>

definition stream_cont :: "stream \<Rightarrow> bytes" where
  "stream_cont s =
     take (unat (m_dataSize s)) (drop (unat (m_tail s)) (st_buffer s) @ st_buffer s)"

definition stream_inv :: "stream \<Rightarrow> bool" where
  "stream_inv s \<longleftrightarrow>
     length (st_buffer s) = unat (m_bufferSize s) \<and> unat (m_bufferSize s) < 2 ^ 31 \<and>
     unat (m_head s) \<le> unat (m_bufferSize s) \<and> unat (m_tail s) \<le> unat (m_bufferSize s) \<and>
     unat (m_dataSize s) \<le> unat (m_bufferSize s) \<and>
     (unat (m_tail s) + unat (m_dataSize s) = unat (m_head s) \<or>
      unat (m_tail s) + unat (m_dataSize s) = unat (m_head s) + unat (m_bufferSize s))"

definition stream_cap :: "stream \<Rightarrow> nat" where
  "stream_cap s = unat (m_bufferSize s)"

lemma stream_inv_new: "unat n < 2 ^ 31 \<Longrightarrow> stream_inv (Stream_new n)"
  by (simp add: stream_inv_def Stream_new_def)

lemma stream_cont_new: "stream_cont (Stream_new n) = []"
  by (simp add: stream_cont_def Stream_new_def)

lemma length_stream_cont: "stream_inv s \<Longrightarrow> length (stream_cont s) = unat (m_dataSize s)"
  by (auto simp: stream_cont_def stream_inv_def min_def)

lemma stream_inv_Purge: "stream_inv s \<Longrightarrow> stream_inv (Stream_Purge s) \<and> stream_cont (Stream_Purge s) = []"
  by (simp add: stream_inv_def Stream_Purge_def stream_cont_def)

lemma stream_inv_threshold:
  "stream_inv (snd (Stream_SetSignalThreshold n s)) = stream_inv s"
  "stream_cont (snd (Stream_SetSignalThreshold n s)) = stream_cont s"
  by (simp_all add: stream_inv_def stream_cont_def Stream_SetSignalThreshold_def Let_def)

text \<open>The unsigned sums of the code do not wrap for buffers of fewer than \<open>2 ^ 31\<close> bytes.\<close>

lemma unat_u32_add: "unat (x :: uint32) + unat y < 2 ^ 32 \<Longrightarrow> unat (x + y) = unat x + unat y"
  by (simp add: unat_word_ariths)

lemma unat_u32_sub: "unat (y :: uint32) \<le> unat x \<Longrightarrow> unat (x - y) = unat x - unat y"
  by (simp add: unat_sub word_le_nat_alt)

lemmas u32_nat = word_less_nat_alt word_le_nat_alt unat_u32_add unat_u32_sub

text \<open>The list facts behind the four block copies.\<close>

lemma circ_take_wrap:
  "t \<le> length b \<Longrightarrow> length b - t \<le> n \<Longrightarrow> n - (length b - t) \<le> length b \<Longrightarrow>
    take n (drop t b @ b) = drop t b @ take (n - (length b - t)) b"
  by simp

lemma circ_drop_wrap:
  assumes "t \<le> length b" and "length b \<le> t + n" and "n \<le> d" and "d \<le> length b"
  shows "drop n (take d (drop t b @ b)) = take (d - n) (drop (n - (length b - t)) b @ b)"
  using assms by (simp add: drop_take)

lemma stream_get_data:
  assumes inv: "stream_inv s" and n: "unat sz \<le> unat (m_dataSize s)"
  obtains s' where "Stream_Get sz s = Some (True, take (unat sz) (stream_cont s), s')"
    and "stream_inv s'" and "stream_cap s' = stream_cap s"
    and "stream_cont s' = drop (unat sz) (stream_cont s)"
proof -
  let ?B = "unat (m_bufferSize s)" and ?t = "unat (m_tail s)" and ?d = "unat (m_dataSize s)"
    and ?n = "unat sz" and ?b = "st_buffer s"
  have i: "length ?b = ?B" "?B < 2 ^ 31" "unat (m_head s) \<le> ?B" "?t \<le> ?B" "?d \<le> ?B"
    "?t + ?d = unat (m_head s) \<or> ?t + ?d = unat (m_head s) + ?B"
    using inv by (auto simp: stream_inv_def)
  have sum: "unat (m_tail s + sz) = ?t + ?n" using i n by (intro unat_u32_add) simp
  have sub: "unat (m_dataSize s - sz) = ?d - ?n" using n by (rule unat_u32_sub)
  show thesis
  proof (cases "?B < ?t + ?n")
    case True
    have b1: "unat (m_bufferSize s - m_tail s) = ?B - ?t" using i by (intro unat_u32_sub)
    have b2: "unat (sz - (m_bufferSize s - m_tail s)) = ?n - (?B - ?t)"
      using True b1 by (subst unat_u32_sub) auto
    let ?s = "s\<lparr>m_tail := sz - (m_bufferSize s - m_tail s), m_dataSize := m_dataSize s - sz\<rparr>"
    have "Stream_Get sz s = Some (True, take ?n (stream_cont s), ?s)"
      using True i n sum b1 b2 by (simp add: Stream_Get_def u32_nat peek_block_def stream_cont_def Let_def)
    moreover have "stream_cont ?s = drop ?n (stream_cont s)"
      using circ_drop_wrap [of ?t ?b ?n ?d] True i n b2 sub by (simp add: stream_cont_def)
    moreover have "stream_inv ?s" using True i n b2 sub by (auto simp: stream_inv_def)
    ultimately show thesis using that by (simp add: stream_cap_def)
  next
    case False
    let ?s = "s\<lparr>m_tail := m_tail s + sz, m_dataSize := m_dataSize s - sz\<rparr>"
    have "Stream_Get sz s = Some (True, take ?n (stream_cont s), ?s)"
      using False i n sum by (simp add: Stream_Get_def u32_nat peek_block_def stream_cont_def Let_def)
    moreover have "stream_cont ?s = drop ?n (stream_cont s)"
      using False i n sum sub by (simp add: stream_cont_def drop_take add.commute)
    moreover have "stream_inv ?s" using False i n sum sub by (auto simp: stream_inv_def)
    ultimately show thesis using that by (simp add: stream_cap_def)
  qed
qed

lemma circ_put_upper:
  assumes "t + d = h" and "h + length xs \<le> length b"
  shows "take (d + length xs) (drop t (take h b @ xs @ drop (h + length xs) b) @ c)
    = take d (drop t b @ e) @ xs"
  using assms by (auto simp: drop_take)

lemma circ_put_lower:
  assumes "t + d = h + length b" and "t \<le> length b" and "h + length xs \<le> t"
  shows "take (d + length xs) (drop t (take h b @ xs @ drop (h + length xs) b) @
      (take h b @ xs @ drop (h + length xs) b)) = take d (drop t b @ b) @ xs"
proof -
  have e: "drop t (take h b @ xs @ drop (h + length xs) b) = drop t b"
    using assms by simp
  have "d + length xs - (length b - t) = h + length xs" and "d - (length b - t) = h"
    using assms by simp_all
  then show ?thesis using assms unfolding e by simp
qed

lemma circ_put_wrap:
  assumes "t + d = h" and "h \<le> length b" and "xs = x1 @ x2" and "h + length x1 = length b"
    and "length x2 \<le> t" and "b1 = take h b @ x1" and "b2 = x2 @ drop (length x2) b1"
  shows "take (d + length xs) (drop t b2 @ b2) = take d (drop t b @ b) @ xs"
proof -
  have l: "length b1 = length b" using assms by simp
  then have "drop t b2 = drop t b1" using assms by simp
  also have "\<dots> = take d (drop t b) @ x1" using assms by (auto simp: drop_take)
  finally have "drop t b2 = take d (drop t b) @ x1" .
  moreover have "length (take d (drop t b)) = d" using assms by simp
  ultimately show ?thesis using assms by simp
qed

lemma stream_put_room:
  assumes inv: "stream_inv s"
    and n: "unat (m_dataSize s) + length xs \<le> unat (m_bufferSize s)"
    and sz: "unat sz = length xs"
  obtains nt s' where "Stream_Put xs sz s = Some (True, nt, s')"
    and "stream_inv s'" and "stream_cap s' = stream_cap s"
    and "stream_cont s' = stream_cont s @ xs"
proof -
  let ?B = "unat (m_bufferSize s)" and ?t = "unat (m_tail s)" and ?d = "unat (m_dataSize s)"
    and ?h = "unat (m_head s)" and ?n = "length xs" and ?b = "st_buffer s"
  have i: "length ?b = ?B" "?B < 2 ^ 31" "?h \<le> ?B" "?t \<le> ?B" "?d \<le> ?B"
    "?t + ?d = ?h \<or> ?t + ?d = ?h + ?B"
    using inv by (auto simp: stream_inv_def)
  have hsum: "unat (m_head s + sz) = ?h + ?n"
    using i n sz by (subst unat_u32_add) simp_all
  have dsum: "unat (m_dataSize s + sz) = ?d + ?n"
    using i n sz by (subst unat_u32_add) simp_all
  have room: "unat (m_bufferSize s - m_dataSize s) = ?B - ?d" using i by (intro unat_u32_sub)
  show thesis
  proof (cases "?B < ?h + ?n")
    case True
    then have up: "?t + ?d = ?h" using i n by linarith
    have b1: "unat (m_bufferSize s - m_head s) = ?B - ?h" using i by (intro unat_u32_sub)
    have b2: "unat (sz - (m_bufferSize s - m_head s)) = ?n - (?B - ?h)"
      using True b1 sz by (subst unat_u32_sub) auto
    let ?x1 = "take (?B - ?h) xs" and ?x2 = "drop (?B - ?h) xs"
    let ?b1 = "take ?h ?b @ ?x1" and ?b2 = "?x2 @ drop (length ?x2) (take ?h ?b @ ?x1)"
    let ?s = "s\<lparr>st_buffer := ?b2, m_head := sz - (m_bufferSize s - m_head s),
      m_dataSize := m_dataSize s + sz\<rparr>"
    have ar: "\<not> ?B - ?d < ?n" "?n + ?h - ?B \<le> ?B" "?B - ?h \<le> ?n"
      using True i n by linarith+
    have "Stream_Put xs sz s = Some (True, Stream_IsSignalled ?s, ?s)"
      using True i n sz hsum b1 b2 room ar
      by (simp add: Stream_Put_def u32_nat peek_block_def poke_block_def Let_def)
    moreover have "stream_cont ?s = stream_cont s @ xs"
      using circ_put_wrap [of ?t ?d ?h ?b xs ?x1 ?x2 ?b1 ?b2] up True i n dsum
      by (simp add: stream_cont_def)
    moreover have "stream_inv ?s" using True up i n b2 dsum by (auto simp: stream_inv_def)
    ultimately show thesis using that by (simp add: stream_cap_def)
  next
    case False
    let ?s = "s\<lparr>st_buffer := take ?h ?b @ xs @ drop (?h + ?n) ?b, m_head := m_head s + sz,
      m_dataSize := m_dataSize s + sz\<rparr>"
    have "Stream_Put xs sz s = Some (True, Stream_IsSignalled ?s, ?s)"
      using False i n sz hsum room
      by (simp add: Stream_Put_def u32_nat peek_block_def poke_block_def Let_def)
    moreover have "stream_cont ?s = stream_cont s @ xs"
    proof (cases "?t + ?d = ?h")
      case True
      then show ?thesis
        using circ_put_upper [of ?t ?d ?h xs ?b _ ?b] False i dsum by (simp add: stream_cont_def)
    next
      case ne: False
      let ?b' = "take ?h ?b @ xs @ drop (?h + ?n) ?b"
      have "take (?d + ?n) (drop ?t ?b' @ ?b') = take ?d (drop ?t ?b @ ?b) @ xs"
        using ne i n by (intro circ_put_lower) linarith+
      then show ?thesis
        by (simp add: stream_cont_def dsum del: take_append drop_append drop_drop)
    qed
    moreover have "stream_inv ?s" using False i n hsum dsum by (auto simp: stream_inv_def)
    ultimately show thesis using that by (simp add: stream_cap_def)
  qed
qed

section \<open>The ring buffer is a byte queue\<close>

text \<open>The operations at list and \<open>nat\<close> level; a block that \<open>uint32\<close> cannot count is refused.\<close>

definition stream_put :: "bytes \<Rightarrow> stream \<Rightarrow> (bool \<times> stream) option" where
  "stream_put bs s =
     (if length bs < 2 ^ 32
      then map_option (\<lambda>(ok, _, s'). (ok, s')) (Stream_Put bs (of_nat (length bs)) s)
      else Some (False, s))"

definition stream_get :: "nat \<Rightarrow> stream \<Rightarrow> (bool \<times> bytes \<times> stream) option" where
  "stream_get n s = (if n < 2 ^ 32 then Stream_Get (of_nat n) s else Some (False, [], s))"

interpretation ring: byte_fifo stream_cont stream_inv stream_cap stream_put stream_get
proof
  fix s :: stream and bs :: bytes
  assume inv: "stream_inv s"
  have l: "length (stream_cont s) = unat (m_dataSize s)" by (rule length_stream_cont [OF inv])
  then show "length (stream_cont s) \<le> stream_cap s"
    using inv by (simp add: stream_inv_def stream_cap_def)
  have B: "stream_cap s < 2 ^ 31" using inv by (simp add: stream_inv_def stream_cap_def)
  {
    assume r: "length (stream_cont s) + length bs \<le> stream_cap s"
    then have n: "unat (of_nat (length bs) :: uint32) = length bs" using B by (intro unat_u32_of_nat) simp
    from r l obtain nt s' where "Stream_Put bs (of_nat (length bs)) s = Some (True, nt, s')"
      "stream_inv s'" "stream_cap s' = stream_cap s" "stream_cont s' = stream_cont s @ bs"
      using stream_put_room [OF inv _ n] by (auto simp: stream_cap_def)
    then show "\<exists>s'. stream_put bs s = Some (True, s') \<and> stream_inv s' \<and>
        stream_cap s' = stream_cap s \<and> stream_cont s' = stream_cont s @ bs"
      using r B by (simp add: stream_put_def)
  next
    assume r: "stream_cap s < length (stream_cont s) + length bs"
    have "unat (m_bufferSize s - m_dataSize s) = stream_cap s - unat (m_dataSize s)"
      using inv by (simp add: unat_u32_sub stream_inv_def stream_cap_def)
    moreover have "stream_cap s - unat (m_dataSize s) < length bs"
      using r l inv by (auto simp: stream_inv_def stream_cap_def)
    ultimately show "stream_put bs s = Some (False, s)"
      by (simp add: stream_put_def Stream_Put_def word_less_nat_alt unat_u32_of_nat)
  }
next
  fix s :: stream and n :: nat
  assume inv: "stream_inv s"
  have l: "length (stream_cont s) = unat (m_dataSize s)" by (rule length_stream_cont [OF inv])
  {
    assume "n \<le> length (stream_cont s)"
    moreover from this have "n < 2 ^ 32" using l unat_u32_less [of "m_dataSize s"] by simp
    ultimately show "\<exists>s'. stream_get n s = Some (True, take n (stream_cont s), s') \<and> stream_inv s' \<and>
        stream_cap s' = stream_cap s \<and> stream_cont s' = drop n (stream_cont s)"
      using stream_get_data [OF inv, of "of_nat n"] l unat_u32_of_nat [of n]
      by (metis stream_get_def)
  next
    assume "length (stream_cont s) < n"
    then show "stream_get n s = Some (False, [], s)"
      using l by (simp add: stream_get_def Stream_Get_def word_less_nat_alt unat_u32_of_nat)
  }
qed

section \<open>Properties\<close>

text \<open>For every sequence of puts and gets on the ring buffer, no copy leaves the buffer and
  the bytes accepted are delivered once each and in order: what was buffered followed by what
  was accepted equals what was delivered followed by what is still buffered.\<close>

theorem stream_run_conserves:
  assumes "stream_inv s"
  shows "\<exists>acc del s'. fifo_run stream_put stream_get ops s = Some (acc, del, s') \<and> stream_inv s' \<and>
    stream_cont s @ acc = del @ stream_cont s'"
  using ring.run_conserves [OF assms, of ops] by auto

theorem stream_run_conserves_witness:
  "\<exists>s'. fifo_run stream_put stream_get
     [PutOp [1, 2, 3], GetOp 2, PutOp [4, 5], PutOp [6, 7], GetOp 3] (Stream_new 4)
     = Some ([1, 2, 3, 4, 5], [1, 2, 3, 4, 5], s') \<and> stream_inv s' \<and> stream_cont s' = []"
proof -
  let ?ops = "[PutOp [1, 2, 3], GetOp 2, PutOp [4, 5], PutOp [6, 7], GetOp 3]"
  have "stream_inv (Stream_new 4)" by (simp add: stream_inv_new)
  from stream_run_conserves [OF this, of ?ops]
  obtain acc del s' where r: "fifo_run stream_put stream_get ?ops (Stream_new 4) = Some (acc, del, s')"
    "stream_inv s'" "acc = del @ stream_cont s'" by (auto simp: stream_cont_new)
  moreover have "map_option (\<lambda>(a, d, _). (a, d))
      (fifo_run stream_put stream_get ?ops (Stream_new 4)) = Some ([1, 2, 3, 4, 5], [1, 2, 3, 4, 5])"
    by (simp add: stream_put_def stream_get_def Stream_Put_def Stream_Get_def Stream_new_def
        peek_block_def poke_block_def Let_def)
  ultimately show ?thesis by auto
qed

end
