(* ===== verification/Zw_Security.thy ===== *)
theory Zw_Security
  imports Msg_Frame
begin

text \<open>
  The S0 security layer: \<open>cpp/src/ZWSecurity.cpp\<close>, the nonce table of \<open>cpp/src/Node.cpp\<close> and
  the nonce and encrypted frames of \<open>cpp/src/Driver.cpp\<close>.  The AES block function of the
  vendored library is the parameter \<open>aes\<close> (\<open>None\<close> for its \<open>EXIT_FAILURE\<close>), one instance per
  key; the random bytes of \<open>rand()\<close> are passed in.  The output-feedback mode
  (\<open>aes_ofb_crypt\<close>) is written out.  Results are \<open>None\<close> where the C++ code reads or writes
  outside a buffer or reads an uninitialised one.
\<close>

section \<open>Constants of Security.h\<close>

abbreviation (input) CC_SECURITY :: uint8 where "CC_SECURITY \<equiv> 0x98"
abbreviation (input) SecurityCmd_SupportedGet :: uint8 where "SecurityCmd_SupportedGet \<equiv> 0x02"
abbreviation (input) SecurityCmd_SupportedReport :: uint8 where "SecurityCmd_SupportedReport \<equiv> 0x03"
abbreviation (input) SecurityCmd_SchemeGet :: uint8 where "SecurityCmd_SchemeGet \<equiv> 0x04"
abbreviation (input) SecurityCmd_SchemeReport :: uint8 where "SecurityCmd_SchemeReport \<equiv> 0x05"
abbreviation (input) SecurityCmd_NetworkKeySet :: uint8 where "SecurityCmd_NetworkKeySet \<equiv> 0x06"
abbreviation (input) SecurityCmd_NetworkKeyVerify :: uint8 where "SecurityCmd_NetworkKeyVerify \<equiv> 0x07"
abbreviation (input) SecurityCmd_SchemeInherit :: uint8 where "SecurityCmd_SchemeInherit \<equiv> 0x08"
abbreviation (input) SecurityCmd_NonceGet :: uint8 where "SecurityCmd_NonceGet \<equiv> 0x40"
abbreviation (input) SecurityCmd_NonceReport :: uint8 where "SecurityCmd_NonceReport \<equiv> 0x80"
abbreviation (input) SecurityCmd_MessageEncap :: uint8 where "SecurityCmd_MessageEncap \<equiv> 0x81"
abbreviation (input) SecurityCmd_MessageEncapNonceGet :: uint8 where
  "SecurityCmd_MessageEncapNonceGet \<equiv> 0xc1"
abbreviation (input) TRANSMIT_OPTION_ACK :: uint8 where "TRANSMIT_OPTION_ACK \<equiv> 0x01"
abbreviation (input) TRANSMIT_OPTION_AUTO_ROUTE :: uint8 where "TRANSMIT_OPTION_AUTO_ROUTE \<equiv> 0x04"

type_synonym block_cipher = "bytes \<Rightarrow> bytes option"

definition xor_bytes :: "bytes \<Rightarrow> bytes \<Rightarrow> bytes" where
  "xor_bytes a b = map2 (XOR) a b"

section \<open>Output feedback mode\<close>

text \<open>\<open>aes_ofb_crypt\<close> from a reset context: the chaining block is encrypted before each block.\<close>

function aes_ofb_crypt :: "block_cipher \<Rightarrow> bytes \<Rightarrow> bytes \<Rightarrow> bytes option" where
  "aes_ofb_crypt aes iv ibuf =
     (if ibuf = [] then Some []
      else do {
        iv' \<leftarrow> aes iv;
        rest \<leftarrow> aes_ofb_crypt aes iv' (drop 16 ibuf);
        Some (xor_bytes (take 16 ibuf) iv' @ rest)
      })"
  by pat_completeness auto
termination
  by (relation "measure (\<lambda>(aes, iv, ibuf). length ibuf)") auto

declare aes_ofb_crypt.simps [simp del]

section \<open>Message authentication\<close>

text \<open>The byte loop of \<open>GenerateAuthentication\<close>: \<open>block\<close>, \<open>encpck\<close> and \<open>tmpauth\<close> are its locals.\<close>

fun auth_loop :: "block_cipher \<Rightarrow> bytes \<Rightarrow> nat \<Rightarrow> bytes \<Rightarrow> bytes \<Rightarrow> (nat \<times> bytes \<times> bytes) option" where
  "auth_loop aes [] block encpck tmpauth = Some (block, encpck, tmpauth)"
| "auth_loop aes (b # bs) block encpck tmpauth =
     (let encpck' = encpck[block := b]; block' = block + 1 in
      if block' = 16 then do {
        t \<leftarrow> aes (xor_bytes encpck' tmpauth);
        auth_loop aes bs 0 (replicate 16 0) t
      } else auth_loop aes bs block' encpck' tmpauth)"

text \<open>
  The result is \<open>Some (Some mac)\<close> for \<open>true\<close>, \<open>Some None\<close> for \<open>false\<close>.  \<open>_length\<close> is
  unsigned, so \<open>_length - 19\<close> wraps for short messages and the copy then leaves the buffer.
\<close>

definition GenerateAuthentication ::
  "block_cipher \<Rightarrow> bytes \<Rightarrow> uint32 \<Rightarrow> uint8 \<Rightarrow> uint8 \<Rightarrow> bytes \<Rightarrow> bytes option option" where
  "GenerateAuthentication aes data len sendingNode receivingNode iv = do {
     d0 \<leftarrow> peek data 0;
     enc \<leftarrow> peek_block data 9 (unat (len - 19));
     let buffer0 = [d0, sendingNode, receivingNode, ucast (len - 19)] @ replicate 252 0;
     buffer \<leftarrow> poke_block buffer0 4 enc;
     let bufsize = (ucast (len - 19 + 4) :: uint8);
     Some (do {
       t0 \<leftarrow> aes iv;
       (block, encpck, t1) \<leftarrow> auth_loop aes (take (unat bufsize) buffer) 0 (replicate 16 0) t0;
       t2 \<leftarrow> (if block > 0 then aes (xor_bytes encpck t1) else Some t1);
       Some (take 8 t2)
     })
   }"

section \<open>Encryption and decryption of a frame\<close>

text \<open>
  \<open>EncryptBuffer\<close>: \<open>Some (True, e)\<close> with the bytes written to \<open>e_buffer\<close>.  The locals
  \<open>plaintextmsg[32]\<close> and \<open>encryptedpayload[30]\<close> bound the payload.
\<close>

definition EncryptBuffer ::
  "block_cipher \<Rightarrow> block_cipher \<Rightarrow> bytes \<Rightarrow> uint8 \<Rightarrow> uint8 \<Rightarrow> uint8 \<Rightarrow> uint8 \<Rightarrow> bytes \<Rightarrow> bytes \<Rightarrow>
     (bool \<times> bytes) option" where
  "EncryptBuffer encKey authKey m_buf m_len sendingNode receivingNode transmitOptions nonce rnd = do {
     nonce8 \<leftarrow> peek_block nonce 0 8;
     rnd8 \<leftarrow> peek_block rnd 0 8;
     let e0 = [SOF, m_len + 18, REQUEST, FUNC_ID_ZW_SEND_DATA, receivingNode, m_len + 11,
               CC_SECURITY, SecurityCmd_MessageEncap] @ rnd8;
     let iv = rnd8 @ nonce8;
     payload \<leftarrow> peek_block m_buf 6 (unat m_len - 9);
     let plaintextmsg = 0 # payload;
     if unat m_len - 9 > 31 \<or> unat m_len - 8 > 30 then None
     else (case aes_ofb_crypt encKey iv (take (unat m_len - 8) plaintextmsg) of
       None \<Rightarrow> Some (False, e0)
     | Some encryptedpayload \<Rightarrow> do {
         let e1 = e0 @ encryptedpayload @ [nonce8 ! 0];
         auth \<leftarrow> GenerateAuthentication authKey (drop 7 e1) (ucast (e1 ! 5)) sendingNode receivingNode iv;
         mac \<leftarrow> auth;
         cb \<leftarrow> (if unat m_len < 2 then None else peek m_buf (unat m_len - 2));
         let e2 = e1 @ mac @ [transmitOptions, cb];
         Some (True, e2 @ [xor_sum 0xff (drop 1 e2)])
       })
   }"

definition createIVFromPacket_inbound :: "bytes \<Rightarrow> bytes \<Rightarrow> bytes option" where
  "createIVFromPacket_inbound data nonce = do {
     d \<leftarrow> peek_block data 0 8;
     n \<leftarrow> peek_block nonce 0 8;
     Some (d @ n)
   }"

text \<open>
  \<open>DecryptBuffer\<close>: the second component is what is written to \<open>m_buffer\<close>, of 256 bytes in
  the caller, of which the first 32 are cleared.  The copy \<open>encyptedpacket[32]\<close> is read by
  the cipher for \<open>encryptedpacketsize\<close> bytes.
\<close>

definition DecryptBuffer ::
  "block_cipher \<Rightarrow> block_cipher \<Rightarrow> bytes \<Rightarrow> uint8 \<Rightarrow> uint8 \<Rightarrow> uint8 \<Rightarrow> bytes \<Rightarrow> (bool \<times> bytes) option" where
  "DecryptBuffer encKey authKey e_buf e_len sendingNode receivingNode nonce =
     (if unat e_len < 19 then Some (False, [])
      else do {
        iv \<leftarrow> createIVFromPacket_inbound (drop 2 e_buf) nonce;
        let sz = (ucast e_len - 8 - 8 - 2 - 2 :: uint32);
        if sz < 3 then Some (False, replicate 32 0)
        else do {
          pkt \<leftarrow> peek_block e_buf 10 (min (unat sz) 32);
          if unat sz > 32 then None
          else (case aes_ofb_crypt encKey iv pkt of
            None \<Rightarrow> Some (False, replicate 32 0)
          | Some plain \<Rightarrow> do {
              let out = plain @ replicate (32 - unat sz) 0;
              auth \<leftarrow> GenerateAuthentication authKey (drop 1 e_buf) (ucast e_len - 1)
                       sendingNode receivingNode iv;
              mac \<leftarrow> auth;
              theirs \<leftarrow> peek_block e_buf (11 + unat sz) 8;
              Some (theirs = mac, out)
            })
        }
      })"

text \<open>\<open>Msg::GetBuffer\<close>: the plain buffer, or the encrypted one (\<open>Some None\<close> is \<open>NULL\<close>).\<close>

definition Msg_GetBuffer ::
  "block_cipher \<Rightarrow> block_cipher \<Rightarrow> uint8 \<Rightarrow> uint8 \<Rightarrow> bytes \<Rightarrow> msg \<Rightarrow> bytes option option" where
  "Msg_GetBuffer encKey authKey controllerNodeId transmitOptions rnd m =
     (if \<not> m_encrypted m then Some (Some (m_buffer m))
      else map_option (\<lambda>(ok, e). if ok then Some e else None)
        (EncryptBuffer encKey authKey (m_buffer m) (m_length m) controllerNodeId (m_targetNodeId m)
           transmitOptions (m_nonce m) rnd))"

section \<open>Nonce frames\<close>

definition SendNonceRequest :: "msg \<Rightarrow> bytes" where
  "SendNonceRequest currentMsg =
     (let b = [SOF, 9, REQUEST, FUNC_ID_ZW_SEND_DATA, m_targetNodeId currentMsg, 2, CC_SECURITY,
               SecurityCmd_NonceGet, TRANSMIT_OPTION_ACK OR TRANSMIT_OPTION_AUTO_ROUTE, 2]
      in b @ [xor_sum 0xff (drop 1 b)])"

text \<open>The bytes written and the new \<open>m_nonceReportSent\<close>.\<close>

definition SendNonceKey :: "uint8 \<Rightarrow> bytes \<Rightarrow> (bytes \<times> uint8) option" where
  "SendNonceKey nodeId nonce = do {
     n \<leftarrow> peek_block nonce 0 8;
     let b = [SOF, 17, REQUEST, FUNC_ID_ZW_SEND_DATA, nodeId, 10, CC_SECURITY,
              SecurityCmd_NonceReport] @ n @
             [TRANSMIT_OPTION_ACK OR TRANSMIT_OPTION_AUTO_ROUTE, 1];
     Some (b @ [xor_sum 0xff (drop 1 b)], nodeId)
   }"

section \<open>The nonce table of a node\<close>

record nonce_table =
  m_nonces :: "bytes list"
  m_lastnonce :: uint8

text \<open>
  \<open>firsts\<close> are the successive values \<open>1 + rand\<close> of the first byte, \<open>rest\<close> the other seven
  bytes.  The do-loop draws until no other row starts with the same byte; \<open>None\<close> when the
  given draws run out before that.
\<close>

fun draw_unique :: "uint8 list \<Rightarrow> uint8 list \<Rightarrow> uint8 option" where
  "draw_unique [] others = None"
| "draw_unique (d # ds) others = (if d \<in> set others then draw_unique ds others else Some d)"

definition GenerateNonceKey :: "uint8 list \<Rightarrow> bytes \<Rightarrow> nonce_table \<Rightarrow> (bytes \<times> nonce_table) option" where
  "GenerateNonceKey firsts rest t = do {
     let idx = unat (m_lastnonce t);
     row \<leftarrow> peek (m_nonces t) idx;
     let others = map (\<lambda>r. r ! 0) (take idx (m_nonces t) @ drop (idx + 1) (m_nonces t));
     d \<leftarrow> draw_unique firsts others;
     let key = d # take 7 rest;
     let last' = m_lastnonce t + 1;
     Some (key, t\<lparr>m_nonces := (m_nonces t)[idx := key],
                 m_lastnonce := (if last' \<ge> 8 then 0 else last')\<rparr>)
   }"

text \<open>The first row whose first byte is the nonce id; \<open>None\<close> is \<open>NULL\<close>.\<close>

definition GetNonceKey :: "uint32 \<Rightarrow> nonce_table \<Rightarrow> bytes option" where
  "GetNonceKey nonceid t = find (\<lambda>r. nonceid = ucast (r ! 0)) (m_nonces t)"

section \<open>Lemmas on the cipher modes\<close>

definition block16 :: "block_cipher \<Rightarrow> bool" where
  "block16 aes \<longleftrightarrow> (\<forall>x. \<exists>y. aes x = Some y \<and> length y = 16)"

lemma block16E:
  assumes "block16 aes"
  obtains y where "aes x = Some y" and "length y = 16"
  using assms by (auto simp: block16_def)

lemma length_xor_bytes [simp]: "length (xor_bytes a b) = min (length a) (length b)"
  by (simp add: xor_bytes_def)

lemma xor_bytes_cancel: "length a \<le> length b \<Longrightarrow> xor_bytes (xor_bytes a b) b = a"
  by (rule nth_equalityI) (simp_all add: xor_bytes_def xor.assoc)

lemma ofb_Nil [simp]: "aes_ofb_crypt aes iv [] = Some []"
  by (simp add: aes_ofb_crypt.simps)

lemma ofb_step:
  "x \<noteq> [] \<Longrightarrow> aes iv = Some iv' \<Longrightarrow> aes_ofb_crypt aes iv x
    = map_option ((@) (xor_bytes (take 16 x) iv')) (aes_ofb_crypt aes iv' (drop 16 x))"
  by (subst aes_ofb_crypt.simps) (simp add: map_conv_bind_option comp_def)

text \<open>Encrypting is total, keeps the length, and is undone by itself with the same chaining block.\<close>

lemma ofb_involution:
  assumes "block16 aes"
  shows "\<exists>c. aes_ofb_crypt aes iv p = Some c \<and> length c = length p \<and> aes_ofb_crypt aes iv c = Some p"
proof (induction "length p" arbitrary: p iv rule: less_induct)
  case less
  show ?case
  proof (cases "p = []")
    case True
    then show ?thesis by simp
  next
    case False
    obtain iv' where iv': "aes iv = Some iv'" "length iv' = 16" by (rule block16E [OF assms])
    from False have "length (drop 16 p) < length p" by simp
    from less [OF this] obtain c where c: "aes_ofb_crypt aes iv' (drop 16 p) = Some c"
      "length c = length (drop 16 p)" "aes_ofb_crypt aes iv' c = Some (drop 16 p)" by blast
    let ?c = "xor_bytes (take 16 p) iv' @ c"
    have e: "aes_ofb_crypt aes iv p = Some ?c"
      using False iv' c by (subst aes_ofb_crypt.simps) simp
    have len: "length ?c = length p" using iv' c by simp
    then have ne: "?c \<noteq> []" using False by (metis length_0_conv)
    have "take 16 ?c = xor_bytes (take 16 p) iv'" and "drop 16 ?c = c"
      using iv' c by (auto simp: min_def split: if_splits)
    then have "aes_ofb_crypt aes iv ?c = Some (xor_bytes (xor_bytes (take 16 p) iv') iv' @ drop 16 p)"
      by (simp only: ofb_step [of ?c aes iv iv', OF ne iv'(1)] c(3) option.map)
    then have "aes_ofb_crypt aes iv ?c = Some p"
      using iv' by (simp add: xor_bytes_cancel)
    then show ?thesis using e len by blast
  qed
qed

text \<open>The specification of the authentication loop: a zero-padded CBC-MAC.\<close>

function cbc_mac :: "block_cipher \<Rightarrow> bytes \<Rightarrow> bytes \<Rightarrow> bytes option" where
  "cbc_mac aes t bs =
     (if bs = [] then Some t
      else do {
        t' \<leftarrow> aes (xor_bytes (take 16 bs @ replicate (16 - length bs) 0) t);
        cbc_mac aes t' (drop 16 bs)
      })"
  by pat_completeness auto
termination
  by (relation "measure (\<lambda>(aes, t, bs). length bs)") auto

declare cbc_mac.simps [simp del]

lemma cbc_mac_Nil [simp]: "cbc_mac aes t [] = Some t"
  by (simp add: cbc_mac.simps)

lemma auth_loop_cbc:
  "length pre < 16 \<Longrightarrow>
    (do { (block, encpck, t1) \<leftarrow> auth_loop aes bs (length pre) (pre @ replicate (16 - length pre) 0) t;
          if block > 0 then aes (xor_bytes encpck t1) else Some t1 })
    = cbc_mac aes t (pre @ bs)"
proof (induction bs arbitrary: pre t)
  case Nil
  show ?case
  proof (cases "pre = []")
    case False
    with Nil show ?thesis by (subst cbc_mac.simps) simp
  qed simp
next
  case (Cons b bs)
  have upd: "(pre @ replicate (16 - length pre) 0)[length pre := b]
      = (pre @ [b]) @ replicate (16 - length (pre @ [b])) 0"
    using Cons.prems by (simp add: Suc_diff_Suc [symmetric])
  show ?case
  proof (cases "length pre = 15")
    case True
    then have "take 16 (pre @ b # bs) = pre @ [b]" and "drop 16 (pre @ b # bs) = bs" by simp_all
    then have "cbc_mac aes t (pre @ b # bs)
        = do { t' \<leftarrow> aes (xor_bytes (pre @ [b]) t); cbc_mac aes t' bs }"
      using True by (subst cbc_mac.simps) simp
    moreover have "auth_loop aes (b # bs) (length pre) (pre @ replicate (16 - length pre) 0) t
        = do { t' \<leftarrow> aes (xor_bytes (pre @ [b]) t); auth_loop aes bs 0 (replicate 16 0) t' }"
      using True upd by simp
    ultimately show ?thesis using Cons.IH [of "[]"] by (simp add: bind_assoc)
  next
    case False
    with Cons.prems upd Cons.IH [of "pre @ [b]" t] show ?thesis by (simp add: Let_def)
  qed
qed

lemma cbc_mac_total:
  assumes "block16 aes" and "length t = 16"
  shows "\<exists>m. cbc_mac aes t bs = Some m \<and> length m = 16"
  using assms(2)
proof (induction "length bs" arbitrary: bs t rule: less_induct)
  case less
  show ?case
  proof (cases "bs = []")
    case True
    with less.prems show ?thesis by simp
  next
    case False
    obtain t' where "aes (xor_bytes (take 16 bs @ replicate (16 - length bs) 0) t) = Some t'"
      "length t' = 16" by (rule block16E [OF assms(1)])
    with False less show ?thesis by (subst cbc_mac.simps) simp
  qed
qed

section \<open>Authentication\<close>

definition mac_spec :: "block_cipher \<Rightarrow> bytes \<Rightarrow> uint8 \<Rightarrow> uint8 \<Rightarrow> uint8 \<Rightarrow> bytes \<Rightarrow> bytes option" where
  "mac_spec aes iv cmd a b enc = do {
     t \<leftarrow> aes iv;
     m \<leftarrow> cbc_mac aes t ([cmd, a, b, of_nat (length enc)] @ enc);
     Some (take 8 m)
   }"

lemma GenerateAuthentication_eq:
  assumes d: "data \<noteq> []" and n: "unat (len - 19) = n" and l: "9 + n \<le> length data" and n2: "n < 252"
  shows "GenerateAuthentication aes data len a b iv
    = Some (mac_spec aes iv (data ! 0) a b (take n (drop 9 data)))"
proof -
  let ?enc = "take n (drop 9 data)"
  have u: "ucast (len - 19) = (of_nat n :: uint8)"
    using of_nat_unat [of "len - 19"] n by metis
  have "ucast (len - 19 + 4) = (of_nat (n + 4) :: uint8)"
  proof -
    have "unat (len - 19 + 4) = n + 4" using n n2 by (subst unat_word_ariths) simp
    then show ?thesis using of_nat_unat [of "len - 19 + 4"] by metis
  qed
  then have bs: "unat (ucast (len - 19 + 4) :: uint8) = n + 4"
    using n2 by (simp add: unat_word_ariths unat_of_nat)
  have le: "length ?enc = n" using l by simp
  have buf: "poke_block ([data ! 0, a, b, ucast (len - 19)] @ replicate 252 0) 4 ?enc
      = Some ([data ! 0, a, b, of_nat n] @ ?enc @ replicate (252 - n) 0)"
    using le n2 u by (simp add: poke_block_def drop_Cons')
  have tk: "take (n + 4) ([data ! 0, a, b, of_nat n] @ ?enc @ replicate (252 - n) 0)
      = [data ! 0, a, b, of_nat n] @ ?enc"
    using le by (simp add: numeral_eq_Suc)
  have "GenerateAuthentication aes data len a b iv = Some (do {
      t0 \<leftarrow> aes iv;
      (block, encpck, t1) \<leftarrow> auth_loop aes ([data ! 0, a, b, of_nat n] @ ?enc) 0 (replicate 16 0) t0;
      t2 \<leftarrow> (if block > 0 then aes (xor_bytes encpck t1) else Some t1);
      Some (take 8 t2) })"
    unfolding GenerateAuthentication_def Let_def bs
    using d l n buf tk by (simp add: frame_simps)
  also have "\<dots> = Some (do {
      t0 \<leftarrow> aes iv;
      t2 \<leftarrow> (do { (block, encpck, t1) \<leftarrow>
                   auth_loop aes ([data ! 0, a, b, of_nat n] @ ?enc) 0 (replicate 16 0) t0;
                 if block > 0 then aes (xor_bytes encpck t1) else Some t1 });
      Some (take 8 t2) })"
    by (simp add: bind_assoc case_prod_unfold)
  also have "\<dots> = Some (mac_spec aes iv (data ! 0) a b ?enc)"
    using auth_loop_cbc [of "[]" aes "[data ! 0, a, b, of_nat n] @ ?enc"] le
    by (simp add: mac_spec_def)
  finally show ?thesis .
qed

lemma mac_spec_total:
  assumes "block16 aes"
  obtains m where "mac_spec aes iv c a b enc = Some m" and "length m = 8"
proof -
  obtain t where t: "aes iv = Some t" "length t = 16" by (rule block16E [OF assms])
  obtain m where "cbc_mac aes t ([c, a, b, of_nat (length enc)] @ enc) = Some m" "length m = 16"
    using cbc_mac_total [OF assms t(2)] by blast
  with t that show thesis by (simp add: mac_spec_def)
qed

lemma GenerateAuthentication_cbc:
  assumes "unat len = n + 19" and "9 + n \<le> length data" and "n < 252"
  shows "GenerateAuthentication aes data len a b iv
    = Some (mac_spec aes iv (data ! 0) a b (take n (drop 9 data)))"
proof -
  have "unat (len - 19) = n"
    using assms(1) by (subst unat_sub) (simp_all add: word_le_nat_alt)
  moreover have "data \<noteq> []" using assms(2) by auto
  ultimately show ?thesis using assms(2,3) by (intro GenerateAuthentication_eq)
qed

section \<open>Properties\<close>

text \<open>(C19) The byte loop of \<open>GenerateAuthentication\<close> computes the first eight bytes of the
  zero-padded CBC-MAC of the header (command, sender, receiver, length) and the encrypted
  bytes, started from the encrypted initialisation vector.\<close>

theorem GenerateAuthentication_mac:
  assumes "unat len = n + 19" and "9 + n \<le> length data" and "n < 252"
  shows "GenerateAuthentication aes data len a b iv
    = Some (mac_spec aes iv (data ! 0) a b (take n (drop 9 data)))"
  using assms by (rule GenerateAuthentication_cbc)

theorem GenerateAuthentication_mac_witness:
  "GenerateAuthentication (\<lambda>x. Some x) (0x81 # replicate 8 0 @ [7, 9]) 21 1 2 (replicate 16 5)
    = Some (Some [0x84, 4, 7, 7, 2, 12, 5, 5])"
proof -
  have "unat (21 :: uint32) = 2 + 19" by simp
  from GenerateAuthentication_mac [OF this, of "0x81 # replicate 8 0 @ [7, 9]" "\<lambda>x. Some x" 1 2 "replicate 16 5"]
  show ?thesis
    by (simp add: mac_spec_def cbc_mac.simps xor_bytes_def numeral_eq_Suc)
qed

lemma EncryptBuffer_eq:
  assumes enc: "block16 encKey" and auth: "block16 authKey"
    and len: "12 \<le> unat m_len" "unat m_len \<le> 38" and bufs: "unat m_len \<le> length m_buf"
    "length nonce = 8" "length rnd = 8"
  obtains c mac e where
    "aes_ofb_crypt encKey (rnd @ nonce) (0 # take (unat m_len - 9) (drop 6 m_buf)) = Some c"
    and "length c = unat m_len - 8"
    and "mac_spec authKey (rnd @ nonce) SecurityCmd_MessageEncap a b c = Some mac" and "length mac = 8"
    and "e = [SOF, m_len + 18, REQUEST, FUNC_ID_ZW_SEND_DATA, b, m_len + 11, CC_SECURITY,
       SecurityCmd_MessageEncap] @ rnd @ c @ [nonce ! 0] @ mac @ [opts, m_buf ! (unat m_len - 2)]"
    and "EncryptBuffer encKey authKey m_buf m_len a b opts nonce rnd
       = Some (True, e @ [xor_sum 0xff (drop 1 e)])"
proof -
  let ?n = "unat m_len - 8" and ?p = "0 # take (unat m_len - 9) (drop 6 m_buf)"
  let ?iv = "rnd @ nonce"
  obtain c where c: "aes_ofb_crypt encKey ?iv ?p = Some c" "length c = length ?p"
    using ofb_involution [OF enc, of ?iv ?p] by blast
  have lp: "length ?p = ?n" using len bufs by simp
  obtain mac where mac: "mac_spec authKey ?iv SecurityCmd_MessageEncap a b c = Some mac" "length mac = 8"
    by (rule mac_spec_total [OF auth])
  let ?e1 = "[SOF, m_len + 18, REQUEST, FUNC_ID_ZW_SEND_DATA, b, m_len + 11, CC_SECURITY,
       SecurityCmd_MessageEncap] @ rnd @ c @ [nonce ! 0]"
  let ?e = "?e1 @ mac @ [opts, m_buf ! (unat m_len - 2)]"
  have e5: "unat (ucast (m_len + 11) :: uint32) = ?n + 19"
    using len by (simp add: unat_word_ariths)
  have "GenerateAuthentication authKey (drop 7 ?e1) (ucast (m_len + 11)) a b ?iv = Some (Some mac)"
    using GenerateAuthentication_cbc [OF e5, of "drop 7 ?e1" authKey a b ?iv] c lp mac len bufs
    by (simp add: drop_Cons')
  moreover have "\<not> 31 < unat m_len - 9" and "\<not> 30 < unat m_len - 8" using len by linarith+
  ultimately have "EncryptBuffer encKey authKey m_buf m_len a b opts nonce rnd
      = Some (True, ?e @ [xor_sum 0xff (drop 1 ?e)])"
    using len bufs c lp by (simp add: EncryptBuffer_def frame_simps Let_def drop_Cons')
  then show thesis using that [of c mac ?e] c lp mac by simp
qed

text \<open>The branches of \<open>DecryptBuffer\<close> once the size is within the local buffers.\<close>

lemma unat_packet_size: "20 \<le> unat (l :: uint8) \<Longrightarrow> unat (ucast l - 8 - 8 - 2 - 2 :: uint32) = unat l - 20"
proof -
  assume "20 \<le> unat l"
  moreover have "ucast l - 8 - 8 - 2 - 2 = (ucast l - 20 :: uint32)" by simp
  ultimately show ?thesis by (simp add: unat_sub word_le_nat_alt)
qed

lemma DecryptBuffer_eq:
  assumes enc: "block16 encKey" and auth: "block16 authKey"
    and len: "23 \<le> unat e_len" "unat e_len \<le> 52"
    and bufs: "unat e_len - 1 \<le> length e_buf" "8 \<le> length nonce"
  defines "n \<equiv> unat e_len - 20" and "iv \<equiv> take 8 (drop 2 e_buf) @ take 8 nonce"
  obtains plain mac where
    "aes_ofb_crypt encKey iv (take n (drop 10 e_buf)) = Some plain" and "length plain = n"
    and "mac_spec authKey iv (e_buf ! 1) a b (take n (drop 10 e_buf)) = Some mac"
    and "DecryptBuffer encKey authKey e_buf e_len a b nonce
      = Some (take 8 (drop (11 + n) e_buf) = mac, plain @ replicate (32 - n) 0)"
proof -
  have lb: "19 + n \<le> length e_buf" and n: "3 \<le> n" "n \<le> 32" "unat e_len = n + 20"
    using len bufs by (simp_all add: n_def)
  have sz: "unat (ucast e_len - 8 - 8 - 2 - 2 :: uint32) = n"
    using len by (subst unat_packet_size) (simp_all add: n_def)
  have al: "unat (ucast e_len - 1 :: uint32) = n + 19"
    using n by (subst unat_sub) (simp_all add: word_le_nat_alt)
  obtain plain where p: "aes_ofb_crypt encKey iv (take n (drop 10 e_buf)) = Some plain"
    "length plain = n"
    using ofb_involution [OF enc, of iv "take n (drop 10 e_buf)"] lb by auto
  obtain mac where m: "mac_spec authKey iv (e_buf ! 1) a b (take n (drop 10 e_buf)) = Some mac"
    by (rule mac_spec_total [OF auth])
  have "drop 1 e_buf ! 0 = e_buf ! 1" using lb by simp
  moreover have "take n (drop 9 (drop 1 e_buf)) = take n (drop 10 e_buf)" by simp
  ultimately have g: "GenerateAuthentication authKey (drop 1 e_buf) (ucast e_len - 1) a b iv = Some (Some mac)"
    using GenerateAuthentication_cbc [OF al, of "drop 1 e_buf" authKey a b iv] lb n m by simp
  have ivp: "createIVFromPacket_inbound (drop 2 e_buf) nonce = Some iv"
    using lb bufs by (simp add: createIVFromPacket_inbound_def frame_simps iv_def)
  have "\<not> (ucast e_len - 8 - 8 - 2 - 2 :: uint32) < 3"
    using sz n by (simp add: word_less_nat_alt)
  then have "DecryptBuffer encKey authKey e_buf e_len a b nonce
      = Some (take 8 (drop (11 + n) e_buf) = mac, plain @ replicate (32 - n) 0)"
    unfolding DecryptBuffer_def Let_def sz ivp
    using g p lb n by (simp add: frame_simps)
  with that p m show thesis by blast
qed

text \<open>(C18) A frame encrypted for a node is well formed, and the peer that holds the same keys
  and the nonce it gave out decrypts and authenticates it to the original payload, behind a
  zero sequence byte.\<close>

theorem secure_frame_roundtrip:
  assumes "block16 encKey" and "block16 authKey"
    and "12 \<le> unat m_len" and "unat m_len \<le> 38" and "unat m_len \<le> length m_buf"
    and "length nonce = 8" and "length rnd = 8"
  shows "\<exists>e. EncryptBuffer encKey authKey m_buf m_len a b opts nonce rnd = Some (True, e) \<and>
    length e = unat m_len + 20 \<and> frame_valid e \<and>
    DecryptBuffer encKey authKey (drop 6 e) (m_len + 12) a b nonce
      = Some (True, 0 # take (unat m_len - 9) (drop 6 m_buf) @ replicate (40 - unat m_len) 0)"
proof -
  let ?p = "0 # take (unat m_len - 9) (drop 6 m_buf)" and ?n = "unat m_len - 8"
  obtain c mac e where c: "aes_ofb_crypt encKey (rnd @ nonce) ?p = Some c" "length c = ?n"
    and mac: "mac_spec authKey (rnd @ nonce) SecurityCmd_MessageEncap a b c = Some mac" "length mac = 8"
    and e: "e = [SOF, m_len + 18, REQUEST, FUNC_ID_ZW_SEND_DATA, b, m_len + 11, CC_SECURITY,
       SecurityCmd_MessageEncap] @ rnd @ c @ [nonce ! 0] @ mac @ [opts, m_buf ! (unat m_len - 2)]"
    and enc: "EncryptBuffer encKey authKey m_buf m_len a b opts nonce rnd
       = Some (True, e @ [xor_sum 0xff (drop 1 e)])"
    by (rule EncryptBuffer_eq [OF assms])
  let ?e = "e @ [xor_sum 0xff (drop 1 e)]"
  have le: "length ?e = unat m_len + 20" using e c mac assms by simp
  have "unat (m_len + 18) = unat m_len + 18" using assms by (simp add: unat_word_ariths)
  then have fv: "frame_valid ?e" using le e by (simp add: frame_valid_def butlast_append)
  have l12: "unat (m_len + 12) = unat m_len + 12" using assms by (simp add: unat_word_ariths)
  define d where "d = drop 6 ?e"
  have d6: "d = [CC_SECURITY, SecurityCmd_MessageEncap] @ rnd @ c @ [nonce ! 0] @ mac @
      [opts, m_buf ! (unat m_len - 2), xor_sum 0xff (drop 1 e)]"
    unfolding d_def e by (simp add: drop_Cons')
  have iv: "take 8 (drop 2 d) @ take 8 nonce = rnd @ nonce"
    unfolding d6 using assms by simp
  have n: "unat (m_len + 12) - 20 = ?n" using l12 by simp
  have cc: "take ?n (drop 10 d) = c" and d1: "d ! 1 = SecurityCmd_MessageEncap"
    and mm: "take 8 (drop (11 + ?n) d) = mac"
    unfolding d6 using assms c mac by (simp_all add: drop_Cons')
  have b1: "23 \<le> unat (m_len + 12)" "unat (m_len + 12) \<le> 52" using l12 assms by simp_all
  have b2: "unat (m_len + 12) - 1 \<le> length d" using l12 le assms by (simp add: d_def)
  have b3: "8 \<le> length nonce" using assms by simp
  obtain q where q: "aes_ofb_crypt encKey (rnd @ nonce) ?p = Some q" "aes_ofb_crypt encKey (rnd @ nonce) q = Some ?p"
    using ofb_involution [OF assms(1)] by blast
  then have rt: "aes_ofb_crypt encKey (rnd @ nonce) c = Some ?p" using c by simp
  have "32 - ?n = 40 - unat m_len" using assms by linarith
  moreover have "DecryptBuffer encKey authKey d (m_len + 12) a b nonce = Some (True, ?p @ replicate (32 - ?n) 0)"
    by (rule DecryptBuffer_eq [OF assms(1,2) b1 b2 b3, of a b, unfolded n iv cc d1 mm]) (use rt mac in simp)
  ultimately have "DecryptBuffer encKey authKey d (m_len + 12) a b nonce
      = Some (True, ?p @ replicate (40 - unat m_len) 0)" by simp
  then show ?thesis using enc le fv unfolding d_def by (intro exI [of _ ?e]) simp
qed

theorem secure_frame_roundtrip_witness:
  "\<exists>e. EncryptBuffer (\<lambda>x. Some (take 16 (x @ replicate 16 0))) (\<lambda>x. Some (take 16 (x @ replicate 16 0)))
      (replicate 13 7) 13 1 2 5 [1,2,3,4,5,6,7,8] [9,8,7,6,5,4,3,2] = Some (True, e) \<and>
    length e = 33 \<and> frame_valid e \<and>
    DecryptBuffer (\<lambda>x. Some (take 16 (x @ replicate 16 0))) (\<lambda>x. Some (take 16 (x @ replicate 16 0)))
      (drop 6 e) 25 1 2 [1,2,3,4,5,6,7,8] = Some (True, 0 # replicate 4 7 @ replicate 27 0)"
proof -
  have "block16 (\<lambda>x. Some (take 16 (x @ replicate 16 0)))"
    by (auto simp: block16_def min_def)
  from secure_frame_roundtrip [OF this this, of 13 "replicate 13 7" "[1,2,3,4,5,6,7,8]" "[9,8,7,6,5,4,3,2]" 1 2 5]
  show ?thesis by simp
qed

text \<open>Below 23 bytes, the length 19 apart, every packet is dropped.\<close>

lemma DecryptBuffer_short:
  assumes "unat e_len < 23" and "unat e_len \<noteq> 19"
  shows "DecryptBuffer encKey authKey e_buf e_len a b nonce
    \<in> {None, Some (False, []), Some (False, replicate 32 0)}"
proof (cases "unat e_len < 19")
  case False
  with assms have ge: "20 \<le> unat e_len" by linarith
  have "(ucast e_len - 8 - 8 - 2 - 2 :: uint32) < 3"
    using assms unfolding word_less_nat_alt unat_packet_size [OF ge] by simp
  then show ?thesis by (auto simp: DecryptBuffer_def Let_def split: Option.bind_splits)
qed (simp add: DecryptBuffer_def)

lemma DecryptBuffer_total:
  assumes "block16 encKey" and "block16 authKey"
    and "unat e_len \<le> length e_buf" and "8 \<le> length nonce"
  shows "DecryptBuffer encKey authKey e_buf e_len a b nonce = None \<longleftrightarrow> unat e_len = 19 \<or> 52 < unat e_len"
proof -
  have iv: "createIVFromPacket_inbound (drop 2 e_buf) nonce \<noteq> None" if "19 \<le> unat e_len"
    using that assms by (simp add: createIVFromPacket_inbound_def frame_simps)
  have big: "peek_block e_buf 10 32 \<noteq> None" if "52 < unat e_len"
    using that assms by (simp add: frame_simps)
  consider "unat e_len < 19" | "unat e_len = 19" | "20 \<le> unat e_len" "unat e_len < 23"
    | "23 \<le> unat e_len" "unat e_len \<le> 52" | "52 < unat e_len" by linarith
  then show ?thesis
  proof cases
    case 1
    then show ?thesis by (simp add: DecryptBuffer_def)
  next
    case 2
    then have "e_len = 19" by (simp add: word_unat_eq_iff)
    then show ?thesis
      by (auto simp: DecryptBuffer_def Let_def unat_u32_minus1 split: Option.bind_splits)
  next
    case 3
    then have "(ucast e_len - 8 - 8 - 2 - 2 :: uint32) < 3"
      unfolding word_less_nat_alt unat_packet_size [OF 3(1)] by simp
    with 3 iv show ?thesis by (auto simp: DecryptBuffer_def Let_def)
  next
    case 4
    then have "unat e_len - 1 \<le> length e_buf" using assms(3) by linarith
    then have "DecryptBuffer encKey authKey e_buf e_len a b nonce \<noteq> None"
      by (rule DecryptBuffer_eq [OF assms(1,2) 4 _ assms(4), of e_buf a b]) simp
    then show ?thesis using 4 by linarith
  next
    case 5
    then have "32 < unat (ucast e_len - 8 - 8 - 2 - 2 :: uint32)"
      and "\<not> (ucast e_len - 8 - 8 - 2 - 2 :: uint32) < 3"
      unfolding word_less_nat_alt by (subst unat_packet_size; simp)+
    with 5 iv show ?thesis by (auto simp: DecryptBuffer_def Let_def split: Option.bind_splits)
  qed
qed

text \<open>For a packet buffer long enough for the declared length, \<open>DecryptBuffer\<close> leaves its local
  buffers exactly for the declared length 19, where the payload size wraps around, and for every
  declared length above 52; in every other case it returns.\<close>

theorem DecryptBuffer_defined:
  assumes "block16 encKey" and "block16 authKey"
    and "unat e_len \<le> length e_buf" and "8 \<le> length nonce"
  shows "DecryptBuffer encKey authKey e_buf e_len a b nonce = None \<longleftrightarrow> unat e_len = 19 \<or> 52 < unat e_len"
  by (rule DecryptBuffer_total [OF assms])

theorem DecryptBuffer_defined_witness:
  "DecryptBuffer (\<lambda>x. Some (replicate 16 0)) (\<lambda>x. Some (replicate 16 0)) (replicate 19 1) 19 1 2
    (replicate 8 0) = None"
  using DecryptBuffer_defined [of "\<lambda>x. Some (replicate 16 0)" "\<lambda>x. Some (replicate 16 0)" 19 "replicate 19 1"
      "replicate 8 0" 1 2]
  by (simp add: block16_def)

text \<open>A packet that \<open>DecryptBuffer\<close> accepts carries the message authentication code, under the
  authentication key, of its own encrypted bytes and of the sender and receiver it is checked for;
  what it delivers is the decryption of those bytes.\<close>

theorem DecryptBuffer_authentic:
  assumes "block16 encKey" and "block16 authKey"
    and "unat e_len \<le> length e_buf" and "8 \<le> length nonce"
    and acc: "DecryptBuffer encKey authKey e_buf e_len a b nonce = Some (True, out)"
  shows "\<exists>n. unat e_len = n + 20 \<and> 3 \<le> n \<and> n \<le> 32 \<and>
    mac_spec authKey (take 8 (drop 2 e_buf) @ take 8 nonce) (e_buf ! 1) a b (take n (drop 10 e_buf))
      = Some (take 8 (drop (11 + n) e_buf)) \<and>
    aes_ofb_crypt encKey (take 8 (drop 2 e_buf) @ take 8 nonce) (take n (drop 10 e_buf)) = Some (take n out)"
proof -
  have ne: "unat e_len \<noteq> 19" "unat e_len \<le> 52"
    using acc DecryptBuffer_total [OF assms(1-4), of a b] by auto
  have ge: "23 \<le> unat e_len"
  proof (rule ccontr)
    assume "\<not> 23 \<le> unat e_len"
    then have "DecryptBuffer encKey authKey e_buf e_len a b nonce \<noteq> Some (True, out)"
      using DecryptBuffer_short [of e_len encKey authKey e_buf a b nonce] ne by auto
    with acc show False by simp
  qed
  then have "unat e_len - 1 \<le> length e_buf" using assms(3) by linarith
  then obtain plain mac where r: "aes_ofb_crypt encKey (take 8 (drop 2 e_buf) @ take 8 nonce)
        (take (unat e_len - 20) (drop 10 e_buf)) = Some plain" "length plain = unat e_len - 20"
      "mac_spec authKey (take 8 (drop 2 e_buf) @ take 8 nonce) (e_buf ! 1) a b
        (take (unat e_len - 20) (drop 10 e_buf)) = Some mac"
      "DecryptBuffer encKey authKey e_buf e_len a b nonce
        = Some (take 8 (drop (11 + (unat e_len - 20)) e_buf) = mac,
                plain @ replicate (32 - (unat e_len - 20)) 0)"
    by (rule DecryptBuffer_eq [OF assms(1,2) ge ne(2) _ assms(4)])
  then have "take n out = plain" if "n = unat e_len - 20" for n using that acc ge ne(2) by auto
  moreover have "unat e_len = (unat e_len - 20) + 20" "3 \<le> unat e_len - 20" "unat e_len - 20 \<le> 32"
    using ge ne(2) by linarith+
  ultimately show ?thesis using acc r by (intro exI [of _ "unat e_len - 20"]) simp
qed

theorem DecryptBuffer_authentic_witness:
  "\<exists>n. unat (24 :: uint8) = n + 20 \<and> 3 \<le> n \<and> n \<le> 32 \<and>
    mac_spec (\<lambda>x. Some (replicate 16 0)) (replicate 16 0) 0 1 2 (replicate n 0)
      = Some (replicate 8 0) \<and>
    aes_ofb_crypt (\<lambda>x. Some (replicate 16 0)) (replicate 16 0) (replicate n 0) = Some (replicate n 0)"
proof -
  let ?z = "\<lambda>x :: bytes. Some (replicate 16 (0 :: uint8))"
  have b: "block16 ?z" by (simp add: block16_def)
  have "aes_ofb_crypt ?z (replicate 16 0) (replicate 4 0) = Some (replicate 4 0)"
    by (simp add: aes_ofb_crypt.simps numeral_eq_Suc xor_bytes_def)
  moreover have "GenerateAuthentication ?z (replicate 23 0) 23 1 2 (replicate 16 0) = Some (Some (replicate 8 0))"
    by (subst GenerateAuthentication_eq [of _ _ 4])
      (simp_all add: mac_spec_def cbc_mac.simps)
  ultimately have "DecryptBuffer ?z ?z (replicate 24 0) 24 1 2 (replicate 8 0) = Some (True, replicate 32 0)"
    by (simp add: DecryptBuffer_def Let_def createIVFromPacket_inbound_def frame_simps flip: replicate_add)
  from DecryptBuffer_authentic [OF b b _ _ this] obtain n where n: "unat (24 :: uint8) = n + 20"
    and r: "mac_spec ?z (replicate 16 0) 0 1 2 (replicate n 0) = Some (replicate 8 0)"
      "aes_ofb_crypt ?z (replicate 16 0) (replicate n 0) = Some (take n (replicate 32 0))"
    by (auto simp flip: replicate_add)
  then show ?thesis by (intro exI [of _ 4]) simp
qed

section \<open>The nonce table\<close>

text \<open>Eight rows of eight bytes; the first bytes of the rows in use (not 0) are distinct.\<close>

definition nonce_inv :: "nonce_table \<Rightarrow> bool" where
  "nonce_inv t \<longleftrightarrow> length (m_nonces t) = 8 \<and> unat (m_lastnonce t) < 8 \<and>
     (\<forall>i < 8. \<forall>j < 8. m_nonces t ! i ! 0 = m_nonces t ! j ! 0 \<longrightarrow> m_nonces t ! i ! 0 = 0 \<or> i = j)"

lemma draw_unique_Some: "draw_unique ds os = Some d \<Longrightarrow> d \<in> set ds \<and> d \<notin> set os"
  by (induction ds) (auto split: if_splits)

lemma find_unique:
  assumes "i < length xs" and "P (xs ! i)" and "\<And>j. j < length xs \<Longrightarrow> P (xs ! j) \<Longrightarrow> j = i"
  shows "find P xs = Some (xs ! i)"
proof -
  have "\<forall>j<i. \<not> P (xs ! j)" using assms(1,3) by (metis less_trans nat_neq_iff)
  with assms(1,2) show ?thesis by (auto simp: find_Some_iff)
qed

lemma ucast_8_32_eq [simp]: "(ucast (x :: uint8) :: uint32) = ucast y \<longleftrightarrow> x = (y :: uint8)"
  by (metis unat_ucast_8_32 word_unat_eq_iff)

lemma GetNonceKey_row:
  assumes "nonce_inv t" and "i < 8" and "m_nonces t ! i ! 0 \<noteq> 0"
  shows "GetNonceKey (ucast (m_nonces t ! i ! 0)) t = Some (m_nonces t ! i)"
  unfolding GetNonceKey_def
  by (rule find_unique) (use assms in \<open>auto simp: nonce_inv_def\<close>)

lemma GenerateNonceKey_cases:
  assumes "GenerateNonceKey firsts rest t = Some (key, t')"
  obtains d where "d \<in> set firsts" and "key = d # take 7 rest"
    and "unat (m_lastnonce t) < length (m_nonces t)"
    and "\<And>j. j < length (m_nonces t) \<Longrightarrow> j \<noteq> unat (m_lastnonce t) \<Longrightarrow> m_nonces t ! j ! 0 \<noteq> d"
    and "t' = t\<lparr>m_nonces := (m_nonces t)[unat (m_lastnonce t) := key],
                m_lastnonce := (if m_lastnonce t + 1 \<ge> 8 then 0 else m_lastnonce t + 1)\<rparr>"
proof -
  let ?i = "unat (m_lastnonce t)" and ?ns = "m_nonces t"
  let ?os = "map (\<lambda>r. r ! 0) (take ?i ?ns @ drop (?i + 1) ?ns)"
  have i: "?i < length ?ns"
    using assms by (auto simp: GenerateNonceKey_def peek_def Let_def split: if_splits)
  obtain d where d: "draw_unique firsts ?os = Some d" "key = d # take 7 rest"
    "t' = t\<lparr>m_nonces := ?ns[?i := key],
            m_lastnonce := (if m_lastnonce t + 1 \<ge> 8 then 0 else m_lastnonce t + 1)\<rparr>"
    using assms i by (auto simp: GenerateNonceKey_def peek_def Let_def split: Option.bind_splits)
  have "?ns ! j ! 0 \<noteq> d" if j: "j < length ?ns" "j \<noteq> ?i" for j
  proof -
    have "?ns ! j \<in> set (take ?i ?ns @ drop (?i + 1) ?ns)"
    proof (cases "j < ?i")
      case True
      then show ?thesis using j by (auto simp: in_set_conv_nth intro!: exI [of _ j])
    next
      case False
      then have "?ns ! j = drop (?i + 1) ?ns ! (j - (?i + 1))" "j - (?i + 1) < length (drop (?i + 1) ?ns)"
        using j by auto
      then show ?thesis by (metis Un_iff nth_mem set_append)
    qed
    then show ?thesis using draw_unique_Some [OF d(1)] by auto
  qed
  then show thesis using that [of d] draw_unique_Some [OF d(1)] d(2,3) i by blast
qed

text \<open>(C21) \<open>GenerateNonceKey\<close> keeps the table usable: the nonce it returns, and each of the seven
  nonces issued before it, is the one \<open>GetNonceKey\<close> finds under its first byte.\<close>

theorem GenerateNonceKey_found:
  assumes "nonce_inv t" and "0 \<notin> set firsts"
    and "GenerateNonceKey firsts rest t = Some (key, t')"
  shows "nonce_inv t' \<and> GetNonceKey (ucast (key ! 0)) t' = Some key \<and>
    (\<forall>i < 8. i \<noteq> unat (m_lastnonce t) \<and> m_nonces t ! i ! 0 \<noteq> 0 \<longrightarrow>
      GetNonceKey (ucast (m_nonces t ! i ! 0)) t' = Some (m_nonces t ! i))"
proof -
  from assms(3) obtain d where d: "d \<in> set firsts" "key = d # take 7 rest"
    "\<And>j. j < length (m_nonces t) \<Longrightarrow> j \<noteq> unat (m_lastnonce t) \<Longrightarrow> m_nonces t ! j ! 0 \<noteq> d"
    "t' = t\<lparr>m_nonces := (m_nonces t)[unat (m_lastnonce t) := key],
            m_lastnonce := (if m_lastnonce t + 1 \<ge> 8 then 0 else m_lastnonce t + 1)\<rparr>"
    by (rule GenerateNonceKey_cases) (rule that)
  have l: "length (m_nonces t) = 8" "unat (m_lastnonce t) < 8" using assms(1) by (auto simp: nonce_inv_def)
  have last: "unat (m_lastnonce t') < 8"
    using d(4) by (auto simp: word_le_nat_alt)
  have inv: "nonce_inv t'"
    unfolding nonce_inv_def
  proof (intro conjI allI impI)
    fix i j assume "i < (8 :: nat)" "j < (8 :: nat)" "m_nonces t' ! i ! 0 = m_nonces t' ! j ! 0"
    then show "m_nonces t' ! i ! 0 = 0 \<or> i = j"
      using assms(1) d(2-4) l by (auto simp: nth_list_update nonce_inv_def split: if_splits)
  qed (use last d(4) l in auto)
  have "key ! 0 \<noteq> 0" using d(1,2) assms(2) by auto
  then have "GetNonceKey (ucast (key ! 0)) t' = Some key"
    using GetNonceKey_row [OF inv l(2)] d(4) l by simp
  moreover have "GetNonceKey (ucast (m_nonces t ! i ! 0)) t' = Some (m_nonces t ! i)"
    if "i < 8" "i \<noteq> unat (m_lastnonce t)" "m_nonces t ! i ! 0 \<noteq> 0" for i
    using GetNonceKey_row [OF inv that(1)] d(4) that by simp
  ultimately show ?thesis using inv by blast
qed

theorem GenerateNonceKey_found_witness:
  "\<exists>t'. GenerateNonceKey [7, 9] [1, 2, 3, 4, 5, 6, 7]
      \<lparr>m_nonces = [[7, 1, 1, 1, 1, 1, 1, 1]] @ replicate 7 (replicate 8 0), m_lastnonce = 1\<rparr>
      = Some ([9, 1, 2, 3, 4, 5, 6, 7], t') \<and>
    GetNonceKey 9 t' = Some [9, 1, 2, 3, 4, 5, 6, 7] \<and> GetNonceKey 7 t' = Some [7, 1, 1, 1, 1, 1, 1, 1]"
proof -
  let ?t = "\<lparr>m_nonces = [[7, 1, 1, 1, 1, 1, 1, 1]] @ replicate 7 (replicate 8 (0 :: uint8)), m_lastnonce = 1\<rparr>"
  have inv: "nonce_inv ?t"
    by (auto simp: nonce_inv_def nth_Cons' split: if_splits)
  obtain t' where g: "GenerateNonceKey [7, 9] [1, 2, 3, 4, 5, 6, 7] ?t = Some ([9, 1, 2, 3, 4, 5, 6, 7], t')"
    by (simp add: GenerateNonceKey_def peek_def Let_def)
  show ?thesis
    using g GenerateNonceKey_found [OF inv _ g] by (auto dest: spec [of _ 0])
qed

end
