(* ===== verification/Bit_Field.thy ===== *)
theory Bit_Field
  imports Prelude
begin

text \<open>
  \<open>cpp/src/Bitfield.cpp\<close>: the set of instance numbers a command class keeps, and the bit
  operations of \<open>ValueBitSet\<close> built on it.  The interface the clients use is the locale
  \<open>bit_set\<close>; its loop lemma covers \<open>SetValue\<close> and the constructor.  The iterator is a partial
  function because its index is a 32-bit counter that may run past the end.
\<close>

section \<open>The interface\<close>

text \<open>Setting, clearing and testing one index below 32; the other indices keep their value.\<close>

locale bit_set =
  fixes is_set :: "uint8 \<Rightarrow> 's \<Rightarrow> bool"
    and set1 :: "uint8 \<Rightarrow> 's \<Rightarrow> 's"
    and clear1 :: "uint8 \<Rightarrow> 's \<Rightarrow> 's"
    and inv :: "'s \<Rightarrow> bool"
  assumes inv_set: "inv s \<Longrightarrow> inv (set1 i s)"
    and inv_clear: "inv s \<Longrightarrow> inv (clear1 i s)"
    and is_set_set: "inv s \<Longrightarrow> is_set j (set1 i s) \<longleftrightarrow> is_set j s \<or> (j = i \<and> i < 32)"
    and is_set_clear: "inv s \<Longrightarrow> is_set j (clear1 i s) \<longleftrightarrow> is_set j s \<and> j \<noteq> i"
    and is_set_range: "is_set j s \<Longrightarrow> j < 32"
begin

lemma inv_loop:
  "inv s \<Longrightarrow> inv (fold (\<lambda>i. if P i then set1 (of_nat i) else clear1 (of_nat i)) xs s)"
  by (induction xs arbitrary: s) (auto simp: inv_set inv_clear)

lemma loop_step:
  assumes "inv s" and "n \<le> 256"
  shows "is_set j (fold (\<lambda>i. if P i then set1 (of_nat i) else clear1 (of_nat i)) [0..<n] s) \<longleftrightarrow>
    (if unat j < n then j < 32 \<and> P (unat j) else is_set j s)"
  using assms(2)
proof (induction n)
  case (Suc n)
  let ?f = "\<lambda>i. if P i then set1 (of_nat i) else clear1 (of_nat i)"
  have i: "inv (fold ?f [0..<n] s)" using assms(1) by (rule inv_loop)
  have n: "j = of_nat n \<longleftrightarrow> unat j = n"
    using Suc.prems by (auto simp: unat_u8_of_nat)
  have "is_set j (fold ?f [0..<Suc n] s) \<longleftrightarrow> is_set j (?f n (fold ?f [0..<n] s))" by simp
  also have "\<dots> \<longleftrightarrow> (if unat j = n then j < 32 \<and> P n else is_set j (fold ?f [0..<n] s))"
    using i n Suc.prems is_set_range [of j] by (auto simp: is_set_set is_set_clear)
  finally show ?case using Suc by auto
qed simp

text \<open>The loop over all 32 indices leaves exactly the wanted set.\<close>

lemma loop32:
  "inv s \<Longrightarrow> is_set j (fold (\<lambda>i. if P i then set1 (of_nat i) else clear1 (of_nat i)) [0..<32] s)
    \<longleftrightarrow> j < 32 \<and> P (unat j)"
  using loop_step [of s 32 j P] is_set_range [of j s] by (auto simp: word_less_nat_alt)

end

section \<open>Bitfield\<close>

record bitfield =
  m_bits :: "uint32 list"
  m_numSetBits :: uint32
  m_value :: uint32

definition Bitfield_empty :: bitfield where
  "Bitfield_empty = \<lparr>m_bits = [], m_numSetBits = 0, m_value = 0\<rparr>"

definition Bitfield_IsSet :: "uint8 \<Rightarrow> bitfield \<Rightarrow> bool" where
  "Bitfield_IsSet idx b =
     (if idx > 0x1F then False
      else if unat (drop_bit 5 idx) < length (m_bits b)
      then m_bits b ! unat (drop_bit 5 idx) AND push_bit (unat (idx AND 0x1f)) 1 \<noteq> 0
      else False)"

definition Bitfield_Set :: "uint8 \<Rightarrow> bitfield \<Rightarrow> bool \<times> bitfield" where
  "Bitfield_Set idx b =
     (if idx > 0x1F then (False, b)
      else if Bitfield_IsSet idx b then (True, b)
      else
        let w = unat (drop_bit 5 idx);
            newSize = w + 1;
            bits = (if newSize > length (m_bits b)
                    then m_bits b @ replicate (newSize - length (m_bits b)) 0 else m_bits b)
        in (True, b\<lparr>m_bits := bits[w := bits ! w OR push_bit (unat (idx AND 0x1f)) 1],
                    m_numSetBits := m_numSetBits b + 1\<rparr>))"

definition Bitfield_Clear :: "uint8 \<Rightarrow> bitfield \<Rightarrow> bool \<times> bitfield" where
  "Bitfield_Clear idx b =
     (if idx > 0x1F then (False, b)
      else if Bitfield_IsSet idx b then
        let w = unat (drop_bit 5 idx)
        in (True, b\<lparr>m_bits := (m_bits b)[w := m_bits b ! w AND NOT (push_bit (unat (idx AND 0x1f)) 1)],
                    m_numSetBits := m_numSetBits b - 1\<rparr>)
      else (True, b))"

text \<open>\<open>Bitfield (uint32 value)\<close> sets the bits of \<open>value\<close>; \<open>SetValue\<close> also clears the others.\<close>

definition Bitfield_new :: "uint32 \<Rightarrow> bitfield" where
  "Bitfield_new value =
     fold (\<lambda>i b. if value AND push_bit i 1 \<noteq> 0 then snd (Bitfield_Set (of_nat i) b) else b) [0..<32]
       \<lparr>m_bits = [], m_numSetBits = 0, m_value = value\<rparr>"

definition Bitfield_SetValue :: "uint32 \<Rightarrow> bitfield \<Rightarrow> bool \<times> bitfield" where
  "Bitfield_SetValue val b =
     (True, fold (\<lambda>i b. if val AND push_bit i 1 \<noteq> 0 then snd (Bitfield_Set (of_nat i) b)
                        else snd (Bitfield_Clear (of_nat i) b)) [0..<32] b)"

definition Bitfield_GetNumSetBits :: "bitfield \<Rightarrow> uint32" where
  "Bitfield_GetNumSetBits b = m_numSetBits b"

definition Bitfield_GetValue :: "bitfield \<Rightarrow> uint32" where
  "Bitfield_GetValue b = sum_list (map (\<lambda>i. push_bit (8 * i) (m_bits b ! i)) [0..<length (m_bits b)])"

definition Bitfield_GetSize :: "bitfield \<Rightarrow> uint32" where
  "Bitfield_GetSize b = of_nat (length (m_bits b)) * 4 * 8"

section \<open>The iterator\<close>

text \<open>\<open>NextSetBit\<close>: \<open>None\<close> is a search that never ends.\<close>

partial_function (option) Bitfield_NextSetBit :: "bitfield \<Rightarrow> uint32 \<Rightarrow> uint32 option" where
  "Bitfield_NextSetBit b idx =
     (let idx' = idx + 1; w = unat (drop_bit 5 idx') in
      if w < length (m_bits b) then
        if m_bits b ! w AND NOT (push_bit (unat (idx' AND 0x1f)) 1 - 1) = 0
        then Bitfield_NextSetBit b ((idx' AND 0xffffffe0) + 31)
        else if m_bits b ! w AND push_bit (unat (idx' AND 0x1f)) 1 \<noteq> 0 then Some idx'
        else Bitfield_NextSetBit b idx'
      else Some idx')"

definition Bitfield_Iterator :: "bitfield \<Rightarrow> uint32 \<Rightarrow> uint32 option" where
  "Bitfield_Iterator b idx =
     (if idx = 0 \<and> \<not> Bitfield_IsSet 0 b then Bitfield_NextSetBit b idx else Some idx)"

definition Bitfield_Begin :: "bitfield \<Rightarrow> uint32 option" where
  "Bitfield_Begin b = Bitfield_Iterator b 0"

definition Bitfield_End :: "bitfield \<Rightarrow> uint32 option" where
  "Bitfield_End b = Bitfield_Iterator b (push_bit 5 (of_nat (length (m_bits b))))"

text \<open>The indices a loop \<open>for (it = Begin(); it != End(); ++it)\<close> visits.\<close>

partial_function (option) Bitfield_visit :: "bitfield \<Rightarrow> uint32 \<Rightarrow> uint32 \<Rightarrow> uint32 list option" where
  "Bitfield_visit b it fin =
     (if it = fin then Some []
      else do {
        it' \<leftarrow> Bitfield_NextSetBit b it;
        rest \<leftarrow> Bitfield_visit b it' fin;
        Some (it # rest)
      })"

definition Bitfield_elems :: "bitfield \<Rightarrow> uint32 list option" where
  "Bitfield_elems b = do { i \<leftarrow> Bitfield_Begin b; e \<leftarrow> Bitfield_End b; Bitfield_visit b i e }"

section \<open>ValueBitSet\<close>

record value_bitset =
  vb_value :: bitfield
  vb_BitMask :: uint32
  vb_size :: uint8

text \<open>A shift of an \<open>int\<close> by a negative amount or by more than 31 is undefined: \<open>None\<close>.\<close>

definition isValidBit :: "value_bitset \<Rightarrow> uint8 \<Rightarrow> bool option" where
  "isValidBit v idx =
     (if idx = 0 \<or> idx > 32 then None
      else Some (vb_BitMask v AND push_bit (unat (idx - 1)) 1 \<noteq> 0))"

definition ValueBitSet_GetBit :: "value_bitset \<Rightarrow> uint8 \<Rightarrow> bool option" where
  "ValueBitSet_GetBit v idx = do {
     ok \<leftarrow> isValidBit v idx;
     Some (if ok then Bitfield_IsSet (idx - 1) (vb_value v) else False)
   }"

text \<open>
  The setters build the value to send in a copy and submit it to \<open>Value::Set\<close>: \<open>Some None\<close>
  for a refused argument, \<open>Some (Some v)\<close> for the copy handed to \<open>Value::Set\<close>.
\<close>

definition ValueBitSet_Set :: "value_bitset \<Rightarrow> uint32 \<Rightarrow> value_bitset option" where
  "ValueBitSet_Set v val =
     (if val AND NOT (vb_BitMask v) \<noteq> 0 then None
      else Some (v\<lparr>vb_value := snd (Bitfield_SetValue val (vb_value v))\<rparr>))"

definition ValueBitSet_SetBit :: "value_bitset \<Rightarrow> uint8 \<Rightarrow> value_bitset option option" where
  "ValueBitSet_SetBit v idx = do {
     ok \<leftarrow> isValidBit v idx;
     Some (if \<not> ok then None
           else Some (v\<lparr>vb_value := snd (Bitfield_Set (idx - 1) (vb_value v))\<rparr>))
   }"

definition ValueBitSet_ClearBit :: "value_bitset \<Rightarrow> uint8 \<Rightarrow> value_bitset option option" where
  "ValueBitSet_ClearBit v idx = do {
     ok \<leftarrow> isValidBit v idx;
     Some (if \<not> ok then None
           else Some (v\<lparr>vb_value := snd (Bitfield_Clear (idx - 1) (vb_value v))\<rparr>))
   }"

text \<open>\<open>GetAsBinaryString\<close>: the digits without leading zeros.\<close>

function bin_loop :: "uint32 \<Rightarrow> string \<Rightarrow> string" where
  "bin_loop n r = (if n = 0 then r else bin_loop (n div 2) ((if n mod 2 = 0 then ''0'' else ''1'') @ r))"
  by pat_completeness auto
termination
  by (relation "measure (\<lambda>(n, r). unat n)") (simp_all add: unat_div unat_gt_0)

definition ValueBitSet_GetAsBinaryString :: "value_bitset \<Rightarrow> string" where
  "ValueBitSet_GetAsBinaryString v = ''0b'' @ bin_loop (Bitfield_GetValue (vb_value v)) []"

section \<open>Lemmas\<close>

text \<open>All the indices in use are below 32, so at most one word is ever allocated.\<close>

definition the_word :: "bitfield \<Rightarrow> uint32" where
  "the_word b = (if m_bits b = [] then 0 else hd (m_bits b))"

definition bitfield_inv :: "bitfield \<Rightarrow> bool" where
  "bitfield_inv b \<longleftrightarrow> length (m_bits b) \<le> 1 \<and>
     unat (m_numSetBits b) = card {i. bit (the_word b) i}"

lemma and_bit: "(w :: uint32) AND push_bit n 1 \<noteq> 0 \<longleftrightarrow> bit w n"
  and and_exp: "(w :: uint32) AND 2 ^ n = 0 \<longleftrightarrow> \<not> bit w n"
  by (simp_all add: push_bit_eq_mult and_exp_eq_0_iff_not_bit)

lemma idx_small:
  assumes "\<not> idx > (0x1F :: uint8)"
  shows "drop_bit 5 idx = 0" and "idx AND 0x1f = idx" and "unat idx < 32"
proof -
  have l: "unat idx < 32" using assms by (simp add: word_less_nat_alt)
  then show "unat idx < 32" .
  show "drop_bit 5 idx = 0"
    unfolding word_unat_eq_iff unat_drop_bit_eq using l by (simp add: drop_bit_eq_div)
  have "take_bit 5 idx = idx"
    unfolding word_unat_eq_iff unsigned_take_bit_eq using l by (simp add: take_bit_eq_mod)
  moreover have "(0x1f :: uint8) = mask 5" by (simp add: mask_eq_exp_minus_1)
  ultimately show "idx AND 0x1f = idx" by (simp only: take_bit_eq_mask)
qed

lemma IsSet_word:
  assumes "bitfield_inv b"
  shows "Bitfield_IsSet idx b \<longleftrightarrow> unat idx < 32 \<and> bit (the_word b) (unat idx)"
proof (cases "idx > 0x1F")
  case True
  then show ?thesis by (simp add: Bitfield_IsSet_def word_less_nat_alt)
next
  case False
  have "m_bits b ! 0 = hd (m_bits b)" if "m_bits b \<noteq> []" using that by (simp add: hd_conv_nth)
  then show ?thesis
    using idx_small [OF False] False
    by (auto simp: Bitfield_IsSet_def the_word_def and_exp)
qed

lemma finite_bits: "finite {i. bit (w :: uint32) i}"
  by (rule finite_subset [of _ "{..<32}"]) (auto dest: bit_imp_le_length)

lemma card_bits: "card {i. bit (w :: uint32) i} \<le> 32"
proof -
  have "{i. bit w i} \<subseteq> {..<32}" by (auto dest: bit_imp_le_length)
  then show ?thesis using card_mono [of "{..<32 :: nat}"] by simp
qed

lemma the_word_Set:
  assumes "bitfield_inv b"
  shows "bitfield_inv (snd (Bitfield_Set idx b)) \<and>
    (\<forall>i. bit (the_word (snd (Bitfield_Set idx b))) i \<longleftrightarrow>
      bit (the_word b) i \<or> (i = unat idx \<and> unat idx < 32))"
proof (cases "idx > 0x1F \<or> Bitfield_IsSet idx b")
  case True
  then show ?thesis
    using assms IsSet_word [OF assms, of idx]
    by (auto simp: Bitfield_Set_def word_less_nat_alt)
next
  case False
  then have r: "\<not> idx > 0x1F" and n: "\<not> Bitfield_IsSet idx b" by auto
  note s = idx_small [OF r]
  let ?b = "snd (Bitfield_Set idx b)"
  have w: "the_word ?b = set_bit (unat idx) (the_word b)" "length (m_bits ?b) = 1"
    "m_numSetBits ?b = m_numSetBits b + 1"
    using r n s assms
    by (cases "m_bits b"; simp add: Bitfield_Set_def Let_def the_word_def bitfield_inv_def set_bit_eq_or)+
  have nb: "\<not> bit (the_word b) (unat idx)" using n s(3) IsSet_word [OF assms] by simp
  have bits: "bit (the_word ?b) i \<longleftrightarrow> bit (the_word b) i \<or> i = unat idx" for i
    unfolding w(1) using s(3) by (auto simp: bit_set_bit_iff)
  then have eq: "{i. bit (the_word ?b) i} = insert (unat idx) {i. bit (the_word b) i}" by auto
  have "card {i. bit (the_word ?b) i} = Suc (card {i. bit (the_word b) i})"
    unfolding eq using nb by (simp add: finite_bits)
  moreover have "unat (m_numSetBits b + 1) = unat (m_numSetBits b) + 1"
    using assms card_bits [of "the_word b"] by (subst unat_word_ariths) (simp add: bitfield_inv_def)
  ultimately show ?thesis
    using w assms s(3) bits by (simp add: bitfield_inv_def)
qed

lemma the_word_Clear:
  assumes "bitfield_inv b"
  shows "bitfield_inv (snd (Bitfield_Clear idx b)) \<and>
    (\<forall>i. bit (the_word (snd (Bitfield_Clear idx b))) i \<longleftrightarrow> bit (the_word b) i \<and> i \<noteq> unat idx)"
proof (cases "idx > 0x1F \<or> \<not> Bitfield_IsSet idx b")
  case True
  then have "Bitfield_Clear idx b \<in> {(True, b), (False, b)}" by (auto simp: Bitfield_Clear_def)
  moreover have "\<not> bit (the_word b) (unat idx)"
    using True IsSet_word [OF assms, of idx] bit_imp_le_length [of "the_word b" "unat idx"]
    by (auto simp: word_less_nat_alt)
  ultimately show ?thesis using assms by auto
next
  case False
  then have r: "\<not> idx > 0x1F" and n: "Bitfield_IsSet idx b" by auto
  note s = idx_small [OF r]
  let ?b = "snd (Bitfield_Clear idx b)"
  have w: "the_word ?b = unset_bit (unat idx) (the_word b)" "length (m_bits ?b) \<le> 1"
    "m_numSetBits ?b = m_numSetBits b - 1"
    using r n s assms
    by (cases "m_bits b"; simp add: Bitfield_Clear_def Let_def the_word_def bitfield_inv_def
        unset_bit_eq_and_not Bitfield_IsSet_def)+
  have nb: "bit (the_word b) (unat idx)" using n s(3) IsSet_word [OF assms] by simp
  have bits: "bit (the_word ?b) i \<longleftrightarrow> bit (the_word b) i \<and> i \<noteq> unat idx" for i
    unfolding w(1) by (auto simp: bit_unset_bit_iff)
  then have "{i. bit (the_word ?b) i} = {i. bit (the_word b) i} - {unat idx}" by auto
  then have "card {i. bit (the_word ?b) i} = card {i. bit (the_word b) i} - 1"
    using nb by (simp add: card_Diff_singleton)
  moreover have "card {i. bit (the_word b) i} > 0"
    using nb by (auto simp: card_gt_0_iff finite_bits)
  ultimately show ?thesis
    using w assms bits by (simp add: bitfield_inv_def unat_sub word_le_nat_alt)
qed

interpretation bits: bit_set Bitfield_IsSet "\<lambda>i b. snd (Bitfield_Set i b)"
    "\<lambda>i b. snd (Bitfield_Clear i b)" bitfield_inv
proof
  fix s i j assume inv: "bitfield_inv s"
  note set = the_word_Set [OF inv, of i] and clr = the_word_Clear [OF inv, of i]
  show "bitfield_inv (snd (Bitfield_Set i s))" "bitfield_inv (snd (Bitfield_Clear i s))"
    using set clr by simp_all
  show "Bitfield_IsSet j (snd (Bitfield_Set i s)) \<longleftrightarrow> Bitfield_IsSet j s \<or> j = i \<and> i < 32"
    using set inv by (auto simp: IsSet_word word_less_nat_alt word_unat_eq_iff)
  show "Bitfield_IsSet j (snd (Bitfield_Clear i s)) \<longleftrightarrow> Bitfield_IsSet j s \<and> j \<noteq> i"
    using clr inv by (auto simp: IsSet_word word_unat_eq_iff)
next
  fix j s assume "Bitfield_IsSet j s"
  then show "j < 32" by (auto simp: Bitfield_IsSet_def word_less_nat_alt split: if_splits)
qed

lemma bitfield_inv_empty: "bitfield_inv Bitfield_empty"
  by (simp add: bitfield_inv_def Bitfield_empty_def the_word_def)

lemma bitfield_inv_new: "bitfield_inv (Bitfield_new v)"
proof -
  have "bitfield_inv \<lparr>m_bits = [], m_numSetBits = 0, m_value = v\<rparr>"
    by (simp add: bitfield_inv_def the_word_def)
  moreover have "bitfield_inv b \<Longrightarrow> bitfield_inv (fold (\<lambda>i b. if v AND push_bit i 1 \<noteq> 0
      then snd (Bitfield_Set (of_nat i) b) else b) xs b)" for xs b
    by (induction xs arbitrary: b) (auto simp: bits.inv_set)
  ultimately show ?thesis by (simp add: Bitfield_new_def)
qed

lemma GetValue_word: "bitfield_inv b \<Longrightarrow> Bitfield_GetValue b = the_word b"
  by (cases "m_bits b") (auto simp: Bitfield_GetValue_def bitfield_inv_def the_word_def)

lemma GetSize_word: "bitfield_inv b \<Longrightarrow> Bitfield_GetSize b \<in> {0, 32}"
  by (cases "m_bits b") (auto simp: Bitfield_GetSize_def bitfield_inv_def)

section \<open>Properties\<close>

text \<open>\<open>Set\<close> and \<open>Clear\<close> insert and remove exactly one index below 32 and reject the others,
  \<open>SetValue\<close> makes \<open>GetValue\<close> return its argument, and \<open>GetNumSetBits\<close> always counts the set
  bits.\<close>

theorem Bitfield_is_a_set:
  assumes "bitfield_inv b"
  shows "fst (Bitfield_Set i b) = (i < 32) \<and> fst (Bitfield_Clear i b) = (i < 32) \<and>
    (Bitfield_IsSet j (snd (Bitfield_Set i b)) \<longleftrightarrow> Bitfield_IsSet j b \<or> j = i \<and> i < 32) \<and>
    (Bitfield_IsSet j (snd (Bitfield_Clear i b)) \<longleftrightarrow> Bitfield_IsSet j b \<and> j \<noteq> i) \<and>
    Bitfield_GetValue (snd (Bitfield_SetValue v b)) = v \<and>
    bitfield_inv (snd (Bitfield_Set i b)) \<and> bitfield_inv (snd (Bitfield_Clear i b)) \<and>
    bitfield_inv (snd (Bitfield_SetValue v b)) \<and>
    unat (Bitfield_GetNumSetBits b) = card {i. bit (Bitfield_GetValue b) i}"
proof -
  let ?s = "snd (Bitfield_SetValue v b)"
  have loop: "?s = fold (\<lambda>i. if bit v i then (\<lambda>b. snd (Bitfield_Set (of_nat i) b))
      else (\<lambda>b. snd (Bitfield_Clear (of_nat i) b))) [0..<32] b"
    unfolding Bitfield_SetValue_def and_bit snd_conv
    by (rule arg_cong [of _ _ "\<lambda>f. fold f _ _"]) (intro ext, simp)
  have inv: "bitfield_inv ?s"
    unfolding loop by (rule bits.inv_loop [OF assms])
  have isset: "Bitfield_IsSet j ?s \<longleftrightarrow> j < 32 \<and> bit v (unat j)" for j
    unfolding loop by (rule bits.loop32 [OF assms])
  have "the_word ?s = v"
  proof (rule bit_word_eqI)
    fix n assume "n < LENGTH(32)"
    then have n: "unat (of_nat n :: uint8) = n" "(of_nat n :: uint8) < 32"
      by (simp_all add: unat_u8_of_nat word_less_nat_alt)
    show "bit (the_word ?s) n \<longleftrightarrow> bit v n"
      using isset [of "of_nat n"] IsSet_word [OF inv, of "of_nat n"] n
      by (simp add: word_less_nat_alt)
  qed
  then have v: "Bitfield_GetValue ?s = v" using GetValue_word [OF inv] by simp
  have ran: "fst (Bitfield_Set i b) = (i < 32)" "fst (Bitfield_Clear i b) = (i < 32)"
    by (auto simp: Bitfield_Set_def Bitfield_Clear_def Let_def word_less_nat_alt)
  have "unat (Bitfield_GetNumSetBits b) = card {i. bit (Bitfield_GetValue b) i}"
    using assms GetValue_word [OF assms] by (simp add: bitfield_inv_def Bitfield_GetNumSetBits_def)
  with v inv ran show ?thesis
    using bits.is_set_set [OF assms, of j i] bits.is_set_clear [OF assms, of j i]
      bits.inv_set [OF assms, of i] bits.inv_clear [OF assms, of i]
    by blast
qed

theorem Bitfield_is_a_set_witness:
  "Bitfield_IsSet 5 (snd (Bitfield_Set 5 (Bitfield_new 6))) \<and>
   Bitfield_GetValue (snd (Bitfield_SetValue 0xF0 (Bitfield_new 6))) = 0xF0"
  using Bitfield_is_a_set [OF bitfield_inv_new [of 6], of 5 5 "0xF0"] by simp

section \<open>Iteration\<close>

lemma word_below:
  assumes "n < 32"
  shows "unat (drop_bit 5 (of_nat n :: uint32)) = 0" and "unat ((of_nat n :: uint32) AND 0x1f) = n"
    and "(of_nat n :: uint32) AND 0xffffffe0 = 0"
proof -
  have l: "unat (of_nat n :: uint32) = n" using assms by (simp add: unat_u32_of_nat)
  show "unat (drop_bit 5 (of_nat n :: uint32)) = 0"
    unfolding unat_drop_bit_eq l using assms by (simp add: drop_bit_eq_div)
  have "take_bit 5 (of_nat n :: uint32) = of_nat n"
    unfolding word_unat_eq_iff unsigned_take_bit_eq l using assms by (simp add: take_bit_eq_mod)
  then have a: "(of_nat n :: uint32) AND 0x1f = of_nat n"
    by (simp add: take_bit_eq_mask mask_eq_exp_minus_1)
  then show "unat ((of_nat n :: uint32) AND 0x1f) = n" using l by simp
  have "(0xffffffe0 :: uint32) = NOT 0x1f" by (simp add: word_unat_eq_iff)
  then have "(of_nat n :: uint32) AND 0xffffffe0 = of_nat n AND NOT 0x1f" by (simp only:)
  also have "\<dots> = (of_nat n AND 0x1f) AND NOT 0x1f" by (simp only: a)
  also have "\<dots> = 0" by (simp add: and.assoc)
  finally show "(of_nat n :: uint32) AND 0xffffffe0 = 0" .
qed

lemma no_more_bits:
  "(w :: uint32) AND NOT (push_bit n 1 - 1) = 0 \<longleftrightarrow> filter (bit w) [n..<32] = []"
proof -
  have m: "push_bit n 1 - 1 = (mask n :: uint32)" by (simp add: mask_eq_exp_minus_1)
  have b: "bit (w AND NOT (mask n)) i \<longleftrightarrow> bit w i \<and> n \<le> i" for i
    using bit_imp_le_length [of w i] by (auto simp: bit_and_iff bit_not_iff bit_mask_iff)
  have "w AND NOT (mask n) = 0 \<longleftrightarrow> (\<forall>i. \<not> (bit w i \<and> n \<le> i))"
    unfolding b [symmetric] by (auto intro: bit_word_eqI)
  also have "\<dots> \<longleftrightarrow> filter (bit w) [n..<32] = []"
    using bit_imp_le_length [of w] by (fastforce simp: filter_empty_conv)
  finally show ?thesis unfolding m .
qed

lemma NextSetBit_word:
  assumes "m_bits b = [w]" and "k < 32"
  shows "Bitfield_NextSetBit b (of_nat k)
    = Some (case filter (bit w) [Suc k..<32] of [] \<Rightarrow> 32 | j # _ \<Rightarrow> of_nat j)"
  using assms(2)
proof (induction "32 - k" arbitrary: k rule: less_induct)
  case less
  show ?case
  proof (cases "k = 31")
    case True
    then show ?thesis using assms(1) by (subst Bitfield_NextSetBit.simps) (simp add: Let_def)
  next
    case False
    then have k: "Suc k < 32" using less.prems by simp
    have idx: "(of_nat k :: uint32) + 1 = of_nat (Suc k)" by simp
    note below = word_below [OF k]
    have f: "filter (bit w) [Suc k..<32] = (if bit w (Suc k) then [Suc k] else []) @ filter (bit w) [Suc (Suc k)..<32]"
      using k by (simp add: upt_rec [of "Suc k" 32])
    have step: "Bitfield_NextSetBit b (of_nat k) =
      (if filter (bit w) [Suc k..<32] = [] then Bitfield_NextSetBit b (of_nat 31)
       else if bit w (Suc k) then Some (of_nat (Suc k)) else Bitfield_NextSetBit b (of_nat (Suc k)))"
      by (subst Bitfield_NextSetBit.simps)
        (simp only: Let_def idx below assms(1) no_more_bits and_bit, simp)
    have last: "Bitfield_NextSetBit b (of_nat 31) = Some 32"
      using assms(1) by (subst Bitfield_NextSetBit.simps) (simp add: Let_def)
    have IH: "Bitfield_NextSetBit b (of_nat (Suc k))
        = Some (case filter (bit w) [Suc (Suc k)..<32] of [] \<Rightarrow> 32 | j # _ \<Rightarrow> of_nat j)"
      using less(1) [of "Suc k"] k by simp
    show ?thesis
      unfolding step last IH f by simp
  qed
qed

lemma visit_word:
  assumes "m_bits b = [w]" and "i < 32"
  shows "Bitfield_visit b (of_nat i) 32 = Some (of_nat i # map of_nat (filter (bit w) [Suc i..<32]))"
  using assms(2)
proof (induction "32 - i" arbitrary: i rule: less_induct)
  case less
  have ne: "(of_nat i :: uint32) \<noteq> 32"
    using less.prems by (simp add: word_unat_eq_iff unat_u32_of_nat)
  have stop: "Bitfield_visit b 32 32 = Some []" by (subst Bitfield_visit.simps) simp
  note next' = NextSetBit_word [OF assms(1) less.prems]
  show ?case
  proof (cases "filter (bit w) [Suc i..<32]")
    case Nil
    then show ?thesis using ne next' stop by (subst Bitfield_visit.simps) simp
  next
    case (Cons j js)
    note j = filter_upt_Cons [OF Cons]
    have "Bitfield_visit b (of_nat j) 32 = Some (of_nat j # map of_nat js)"
      using less.hyps [of j] j less.prems by auto
    then show ?thesis using ne next' Cons by (subst Bitfield_visit.simps) simp
  qed
qed

text \<open>The loops over the instances of a command class visit exactly the indices in the
  set, each once and in increasing order; on a bit field that was never set they visit none.\<close>

theorem Bitfield_elems_sorted:
  assumes "bitfield_inv b"
  shows "Bitfield_elems b = Some (map of_nat (filter (bit (Bitfield_GetValue b)) [0..<32]))"
proof (cases "m_bits b")
  case Nil
  have "Bitfield_NextSetBit b 0 = Some 1"
    using Nil by (subst Bitfield_NextSetBit.simps) (simp add: Let_def)
  moreover have "Bitfield_visit b 1 1 = Some []" by (subst Bitfield_visit.simps) simp
  ultimately show ?thesis
    using Nil by (simp add: Bitfield_elems_def Bitfield_Begin_def Bitfield_End_def Bitfield_Iterator_def
        Bitfield_IsSet_def Bitfield_GetValue_def)
next
  case (Cons w ws)
  then have w: "m_bits b = [w]" using assms by (simp add: bitfield_inv_def)
  have fin: "Bitfield_End b = Some 32"
    using w by (simp add: Bitfield_End_def Bitfield_Iterator_def push_bit_eq_mult)
  have v: "Bitfield_GetValue b = w" using GetValue_word [OF assms] w by (simp add: the_word_def)
  have s: "filter (bit w) [0..<32] = (if bit w 0 then [0] else []) @ filter (bit w) [Suc 0..<32]"
    by (simp add: upt_rec [of 0 32])
  have i0: "Bitfield_IsSet 0 b = bit w 0" using IsSet_word [OF assms, of 0] w by (simp add: the_word_def)
  show ?thesis
  proof (cases "bit w 0")
    case True
    then show ?thesis
      using visit_word [OF w, of 0] fin i0 unfolding v s
      by (simp add: Bitfield_elems_def Bitfield_Begin_def Bitfield_Iterator_def)
  next
    case False
    have stop: "Bitfield_visit b 32 32 = Some []" by (subst Bitfield_visit.simps) simp
    have nx: "Bitfield_Begin b = Some (case filter (bit w) [Suc 0..<32] of [] \<Rightarrow> 32 | j # _ \<Rightarrow> of_nat j)"
      using NextSetBit_word [OF w, of 0] False i0 by (simp add: Bitfield_Begin_def Bitfield_Iterator_def)
    show ?thesis
    proof (cases "filter (bit w) [Suc 0..<32]")
      case Nil
      then show ?thesis using nx fin stop False unfolding v s by (simp add: Bitfield_elems_def)
    next
      case (Cons j js)
      then show ?thesis
        using nx fin False visit_word [OF w, of j] filter_upt_Cons [OF Cons] unfolding v s
        by (simp add: Bitfield_elems_def)
    qed
  qed
qed

theorem Bitfield_elems_sorted_witness: "Bitfield_elems (Bitfield_new 0x80000006) = Some [1, 2, 31]"
proof -
  have "Bitfield_GetValue (Bitfield_new 0x80000006) = 0x80000006"
    by (simp add: Bitfield_new_def upt_rec Bitfield_Set_def Bitfield_IsSet_def Bitfield_GetValue_def)
  with Bitfield_elems_sorted [OF bitfield_inv_new, of "0x80000006"]
  show ?thesis by (simp add: upt_rec)
qed

section \<open>Properties of ValueBitSet\<close>

text \<open>Bits are numbered from 1: for a valid bit the setters submit a copy that differs from
  the current value in that bit only, within the mask; a bit outside the mask is refused, and the
  numbers 0 and above 32 shift by an amount that is not defined.\<close>

theorem ValueBitSet_bits:
  assumes "bitfield_inv (vb_value v)"
  shows "(isValidBit v idx = None \<longleftrightarrow> idx = 0 \<or> 32 < idx) \<and>
    (isValidBit v idx = Some False \<longrightarrow> ValueBitSet_SetBit v idx = Some None \<and>
       ValueBitSet_ClearBit v idx = Some None \<and> ValueBitSet_GetBit v idx = Some False) \<and>
    (isValidBit v idx = Some True \<longrightarrow>
       (\<exists>s c. ValueBitSet_SetBit v idx = Some (Some s) \<and> ValueBitSet_ClearBit v idx = Some (Some c) \<and>
         ValueBitSet_GetBit s idx = Some True \<and> ValueBitSet_GetBit c idx = Some False \<and>
         (\<forall>j. j \<noteq> idx \<longrightarrow> ValueBitSet_GetBit s j = ValueBitSet_GetBit v j \<and>
                         ValueBitSet_GetBit c j = ValueBitSet_GetBit v j)))"
proof -
  have n: "isValidBit v idx = None \<longleftrightarrow> idx = 0 \<or> 32 < idx"
    by (simp add: isValidBit_def)
  have lt: "idx - 1 < 32" if "isValidBit v idx = Some True"
  proof -
    from that have "1 \<le> unat idx" "unat idx \<le> 32"
      by (auto simp: isValidBit_def word_less_nat_alt word_unat_eq_iff not_less Suc_le_eq split: if_splits)
    then show ?thesis by (simp add: word_less_nat_alt unat_sub word_le_nat_alt)
  qed
  have same: "isValidBit (v\<lparr>vb_value := x\<rparr>) j = isValidBit v j" for x j
    by (simp add: isValidBit_def)
  have neq: "j - 1 \<noteq> idx - 1" if "j \<noteq> idx" for j using that by simp
  show ?thesis
    using n lt assms neq
    by (auto simp: ValueBitSet_SetBit_def ValueBitSet_ClearBit_def ValueBitSet_GetBit_def same
        bits.is_set_set bits.is_set_clear split: Option.bind_splits)
qed

theorem ValueBitSet_bits_witness:
  "isValidBit \<lparr>vb_value = Bitfield_new 0, vb_BitMask = 0x0F, vb_size = 1\<rparr> 4 = Some True \<and>
   ValueBitSet_SetBit \<lparr>vb_value = Bitfield_new 0, vb_BitMask = 0x0F, vb_size = 1\<rparr> 5 = Some None"
proof -
  let ?v = "\<lparr>vb_value = Bitfield_new 0, vb_BitMask = 0x0F, vb_size = 1\<rparr>"
  have v: "isValidBit ?v 4 = Some True" "isValidBit ?v 5 = Some False"
    by (simp_all add: isValidBit_def)
  have "bitfield_inv (vb_value ?v)" using bitfield_inv_new by simp
  from ValueBitSet_bits [OF this, of 5] v show ?thesis by simp
qed

end
