(* ===== verification/Value_Id.thy ===== *)
theory Value_Id
  imports Prelude
begin

text \<open>
  \<open>cpp/src/value_classes/ValueID.h\<close>: the packed identifier of a value, its accessors, its
  ordering (an instance of \<open>linorder\<close>) and the key under which a node stores the value.
  The names of genres and types are those of \<open>Value.cpp\<close>.
\<close>

section \<open>Genres and types\<close>

datatype value_genre = Genre_Basic | Genre_User | Genre_Config | Genre_System

datatype value_type =
  Type_Bool | Type_Byte | Type_Decimal | Type_Int | Type_List | Type_Schedule | Type_Short
  | Type_String | Type_Button | Type_Raw | Type_BitSet

text \<open>The numbers of the enumerators.\<close>

fun genre_num :: "value_genre \<Rightarrow> nat" where
  "genre_num Genre_Basic = 0"
| "genre_num Genre_User = 1"
| "genre_num Genre_Config = 2"
| "genre_num Genre_System = 3"

fun type_num :: "value_type \<Rightarrow> nat" where
  "type_num Type_Bool = 0"
| "type_num Type_Byte = 1"
| "type_num Type_Decimal = 2"
| "type_num Type_Int = 3"
| "type_num Type_List = 4"
| "type_num Type_Schedule = 5"
| "type_num Type_Short = 6"
| "type_num Type_String = 7"
| "type_num Type_Button = 8"
| "type_num Type_Raw = 9"
| "type_num Type_BitSet = 10"

definition genres :: "value_genre list" where
  "genres = [Genre_Basic, Genre_User, Genre_Config, Genre_System]"

definition types :: "value_type list" where
  "types = [Type_Bool, Type_Byte, Type_Decimal, Type_Int, Type_List, Type_Schedule, Type_Short,
            Type_String, Type_Button, Type_Raw, Type_BitSet]"

definition c_genreName :: "string list" where
  "c_genreName = [''basic'', ''user'', ''config'', ''system'', ''invalid'']"

definition c_typeName :: "string list" where
  "c_typeName = [''bool'', ''byte'', ''decimal'', ''int'', ''list'', ''schedule'', ''short'', ''string'',
                 ''button'', ''raw'', ''bitset'', ''invalid type'']"

definition GetGenreNameFromEnum :: "nat \<Rightarrow> string option" where
  "GetGenreNameFromEnum g = peek c_genreName g"

definition GetTypeNameFromEnum :: "nat \<Rightarrow> string option" where
  "GetTypeNameFromEnum t = (if t > 10 then peek c_typeName 11 else peek c_typeName t)"

text \<open>\<open>None\<close> is a null pointer; an unknown name gives the default.\<close>

definition GetGenreEnumFromName :: "string option \<Rightarrow> value_genre" where
  "GetGenreEnumFromName name = (case name of None \<Rightarrow> Genre_System
     | Some s \<Rightarrow> (case find (\<lambda>i. s = c_genreName ! i) [0..<4] of
         None \<Rightarrow> Genre_System | Some i \<Rightarrow> genres ! i))"

definition GetTypeEnumFromName :: "string option \<Rightarrow> value_type" where
  "GetTypeEnumFromName name = (case name of None \<Rightarrow> Type_Bool
     | Some s \<Rightarrow> (case find (\<lambda>i. s = c_typeName ! i) [0..<11] of
         None \<Rightarrow> Type_Bool | Some i \<Rightarrow> types ! i))"

section \<open>The identifier\<close>

datatype value_id = ValueIdent (vid_id: uint32) (vid_id1: uint32) (vid_homeId: uint32)

definition ValueID_new ::
  "uint32 \<Rightarrow> uint8 \<Rightarrow> value_genre \<Rightarrow> uint8 \<Rightarrow> uint8 \<Rightarrow> uint16 \<Rightarrow> value_type \<Rightarrow> value_id" where
  "ValueID_new homeId nodeId genre cc inst idx ty =
     ValueIdent (push_bit 24 (ucast nodeId) OR push_bit 22 (of_nat (genre_num genre))
                  OR push_bit 14 (ucast cc) OR push_bit 4 (ucast (inst AND 0xFF))
                  OR of_nat (type_num ty))
       (push_bit 16 (ucast idx)) homeId"

definition ValueID_from_id :: "uint32 \<Rightarrow> uint64 \<Rightarrow> value_id" where
  "ValueID_from_id homeId i = ValueIdent (ucast (i AND 0xFFFFFFFF)) (ucast (drop_bit 32 i)) homeId"

definition ValueID_node :: "uint32 \<Rightarrow> uint8 \<Rightarrow> value_id" where
  "ValueID_node homeId nodeId = ValueIdent (push_bit 24 (ucast nodeId)) 0 homeId"

definition ValueID_instance :: "uint32 \<Rightarrow> uint8 \<Rightarrow> uint32 \<Rightarrow> value_id" where
  "ValueID_instance homeId nodeId inst =
     ValueIdent (push_bit 24 (ucast nodeId) OR push_bit 4 inst) 0 homeId"

definition GetNodeId :: "value_id \<Rightarrow> uint8" where
  "GetNodeId v = ucast (drop_bit 24 (vid_id v AND 0xff000000))"

definition GetGenre :: "value_id \<Rightarrow> value_genre" where
  "GetGenre v = genres ! unat (drop_bit 22 (vid_id v AND 0x00c00000))"

definition GetCommandClassId :: "value_id \<Rightarrow> uint8" where
  "GetCommandClassId v = ucast (drop_bit 14 (vid_id v AND 0x003fc000))"

definition GetInstance :: "value_id \<Rightarrow> uint8" where
  "GetInstance v = ucast (drop_bit 4 (vid_id v AND 0xff0))"

definition GetIndex :: "value_id \<Rightarrow> uint16" where
  "GetIndex v = ucast (drop_bit 16 (vid_id1 v AND 0xFFFF0000))"

text \<open>The number read may be none of the enumerators: \<open>None\<close>.\<close>

definition GetType :: "value_id \<Rightarrow> value_type option" where
  "GetType v = peek types (unat (vid_id v AND 0x0000000f))"

definition GetId :: "value_id \<Rightarrow> uint64" where
  "GetId v = push_bit 32 (ucast (vid_id1 v)) OR ucast (vid_id v)"

definition GetValueStoreKey :: "value_id \<Rightarrow> uint32" where
  "GetValueStoreKey v =
     drop_bit 6 (vid_id v AND 0x003fc000) OR (vid_id1 v AND 0xffff0000) OR drop_bit 4 (vid_id v AND 0xFF0)"

definition GetValueStoreKey_of :: "uint8 \<Rightarrow> uint8 \<Rightarrow> uint16 \<Rightarrow> uint32" where
  "GetValueStoreKey_of cc inst idx =
     ucast inst OR push_bit 8 (ucast cc) OR push_bit 16 (ucast (idx AND 0xFFFF))"

definition GetAsString :: "value_id \<Rightarrow> string option" where
  "GetAsString v = do {
     g \<leftarrow> GetGenreNameFromEnum (genre_num (GetGenre v));
     t \<leftarrow> GetTypeNameFromEnum (unat (vid_id v AND 0x0000000f));
     Some (''HomeID: 0x'' @ pad_left CHR ''0'' 8 (hex_nat (unat (vid_homeId v))) @
       '', ValueID: (Id 0x'' @ pad_left CHR ''0'' 16 (hex_nat (unat (GetId v))) @
       '', NodeID '' @ dec_nat (unat (GetNodeId v)) @
       '', Genre '' @ g @
       '', CC 0x'' @ pad_left CHR ''0'' 2 (hex_nat (unat (GetCommandClassId v))) @
       '', Instance '' @ dec_nat (unat (GetInstance v)) @
       '', Index '' @ dec_nat (unat (GetIndex v)) @
       '', Type '' @ t @ '')'')
   }"

text \<open>\<open>operator <\<close> makes the identifiers a linear order.\<close>

instantiation value_id :: linorder
begin

definition less_value_id :: "value_id \<Rightarrow> value_id \<Rightarrow> bool" where
  "less_value_id a b =
     (if vid_homeId a = vid_homeId b then
        (if vid_id a = vid_id b then vid_id1 a < vid_id1 b else vid_id a < vid_id b)
      else vid_homeId a < vid_homeId b)"

definition less_eq_value_id :: "value_id \<Rightarrow> value_id \<Rightarrow> bool" where
  "less_eq_value_id a b \<longleftrightarrow> a = b \<or> a < b"

instance
  by standard (auto simp: less_value_id_def less_eq_value_id_def value_id.expand split: if_splits)

end

definition ValueID_greater :: "value_id \<Rightarrow> value_id \<Rightarrow> bool" where
  "ValueID_greater a b =
     (if vid_homeId a = vid_homeId b then
        (if vid_id a = vid_id b then vid_id1 a > vid_id1 b else vid_id a > vid_id b)
      else vid_homeId a > vid_homeId b)"

section \<open>The packed number\<close>

lemma genre_num_less: "genre_num g < 4"
  by (cases g) simp_all

lemma type_num_less: "type_num t < 16"
  by (cases t) simp_all

lemma genres_nth [simp]: "genres ! genre_num g = g"
  by (cases g) (simp_all add: genres_def)

lemma types_peek [simp]: "peek types (type_num t) = Some t"
  by (cases t) (simp_all add: peek_def types_def)

text \<open>One field above \<open>n\<close> lower bits.\<close>

lemma unat_pack:
  assumes "x < 2 ^ (32 - n)" and "n \<le> 32" and "unat (w :: uint32) < 2 ^ n"
  shows "unat (push_bit n (of_nat x) OR w) = x * 2 ^ n + unat w"
proof -
  have "x * 2 ^ n < 2 ^ (32 - n) * 2 ^ n" using assms(1) by simp
  also have "\<dots> = 2 ^ 32" using assms(2) by (simp flip: power_add)
  finally have l: "x * 2 ^ n < 2 ^ 32" .
  have "push_bit n (of_nat x :: uint32) = of_nat (x * 2 ^ n)"
    by (simp add: push_bit_eq_mult)
  then have "unat (push_bit n (of_nat x) OR w) = x * 2 ^ n OR unat w"
    using unat_u32_of_nat [OF l] by (simp only: unsigned_or_eq)
  then show ?thesis using nat_or_add [OF assms(3)] by simp
qed

lemma ucast_of_nat_unat: "(ucast (x :: uint8) :: uint32) = of_nat (unat x)"
  "(ucast (y :: uint16) :: uint32) = of_nat (unat y)"
  by (simp_all add: word_unat_eq_iff unat_u32_of_nat order.strict_trans1 [OF unat_u8_le])

definition pack :: "nat \<Rightarrow> nat \<Rightarrow> nat \<Rightarrow> nat \<Rightarrow> nat \<Rightarrow> nat" where
  "pack n g c i t = (((n * 4 + g) * 256 + c) * 1024 + i) * 16 + t"

lemma pack_fields:
  assumes "n < 256" "g < 4" "c < 256" "i < 256" "t < 16"
  shows "pack n g c i t div 2 ^ 24 mod 2 ^ 8 = n" and "pack n g c i t div 2 ^ 22 mod 2 ^ 2 = g"
    and "pack n g c i t div 2 ^ 14 mod 2 ^ 8 = c" and "pack n g c i t div 2 ^ 4 mod 2 ^ 8 = i"
    and "pack n g c i t mod 2 ^ 4 = t"
proof -
  have "pack n g c i t = n * 2 ^ 24 + (g * 2 ^ 22 + c * 2 ^ 14 + i * 2 ^ 4 + t)"
    and "pack n g c i t = (n * 2 ^ 2 + g) * 2 ^ 22 + (c * 2 ^ 14 + i * 2 ^ 4 + t)"
    and "pack n g c i t = ((n * 2 ^ 2 + g) * 2 ^ 8 + c) * 2 ^ 14 + (i * 2 ^ 4 + t)"
    and "pack n g c i t = (((n * 2 ^ 2 + g) * 2 ^ 8 + c) * 4 * 2 ^ 8 + i) * 2 ^ 4 + t"
    by (simp_all add: pack_def)
  note p = this
  show "pack n g c i t div 2 ^ 24 mod 2 ^ 8 = n"
    unfolding p(1) by (subst digit_div) (use assms in simp_all)
  show "pack n g c i t div 2 ^ 22 mod 2 ^ 2 = g"
    unfolding p(2) by (subst digit_div, use assms in simp) (rule digit_mod, use assms in simp)
  show "pack n g c i t div 2 ^ 14 mod 2 ^ 8 = c"
    unfolding p(3) by (subst digit_div, use assms in simp) (rule digit_mod, use assms in simp)
  show "pack n g c i t div 2 ^ 4 mod 2 ^ 8 = i"
    unfolding p(4) by (subst digit_div, use assms in simp) (rule digit_mod, use assms in simp)
  show "pack n g c i t mod 2 ^ 4 = t"
    unfolding p(4) by (rule digit_mod, use assms in simp)
qed

lemma pack_bound:
  assumes "n < 256" "g < 4" "c < 256" "i < 256" "t < 16"
  shows "pack n g c i t < 2 ^ 32"
  using assms by (simp add: pack_def)

lemma unat_ValueID:
  "unat (vid_id (ValueID_new h n g c i x t)) = pack (unat n) (genre_num g) (unat c) (unat i) (type_num t)"
  "unat (vid_id1 (ValueID_new h n g c i x t)) = unat x * 2 ^ 16"
proof -
  note b = unat_u8_le [of n] unat_u8_le [of c] unat_u8_le [of i] genre_num_less [of g] type_num_less [of t]
  have t: "unat (of_nat (type_num t) :: uint32) = type_num t"
    using b by (intro unat_u32_of_nat) simp
  let ?w1 = "push_bit 4 (of_nat (unat i)) OR of_nat (type_num t) :: uint32"
  have w1: "unat ?w1 = unat i * 2 ^ 4 + type_num t"
    using unat_pack [of "unat i" 4 "of_nat (type_num t)"] b t by simp
  let ?w2 = "push_bit 14 (of_nat (unat c)) OR ?w1"
  have w2: "unat ?w2 = unat c * 2 ^ 14 + unat ?w1"
    by (rule unat_pack) (use b w1 in simp_all)
  let ?w3 = "push_bit 22 (of_nat (genre_num g)) OR ?w2"
  have w3: "unat ?w3 = genre_num g * 2 ^ 22 + unat ?w2"
    by (rule unat_pack) (use b w1 w2 in simp_all)
  have "unat (push_bit 24 (of_nat (unat n)) OR ?w3) = unat n * 2 ^ 24 + unat ?w3"
    by (rule unat_pack) (use b w1 w2 w3 in simp_all)
  moreover have "vid_id (ValueID_new h n g c i x t) = push_bit 24 (of_nat (unat n)) OR ?w3"
    unfolding ValueID_new_def and_full ucast_of_nat_unat value_id.sel or.assoc ..
  ultimately show "unat (vid_id (ValueID_new h n g c i x t))
      = pack (unat n) (genre_num g) (unat c) (unat i) (type_num t)"
    unfolding pack_def w3 w2 w1 by simp
  show "unat (vid_id1 (ValueID_new h n g c i x t)) = unat x * 2 ^ 16"
    unfolding ValueID_new_def value_id.sel ucast_of_nat_unat
    using unat_pack [of "unat x" 16 0] unat_u16_less [of x] by simp
qed

text \<open>Each accessor as the field of the packed number.\<close>

lemma masks:
  "(0xff000000 :: uint32) = push_bit 24 (mask 8)" "(0x00c00000 :: uint32) = push_bit 22 (mask 2)"
  "(0x003fc000 :: uint32) = push_bit 14 (mask 8)" "(0xff0 :: uint32) = push_bit 4 (mask 8)"
  "(0xFFFF0000 :: uint32) = push_bit 16 (mask 16)" "(0xf :: uint32) = push_bit 0 (mask 4)"
  by (simp_all add: mask_eq_exp_minus_1 push_bit_eq_mult)

lemma unat_GetNodeId: "unat (GetNodeId v) = unat (vid_id v) div 2 ^ 24 mod 2 ^ 8"
  unfolding GetNodeId_def masks unat_ucast_32_8 unat_field by simp

lemma unat_GetCommandClassId: "unat (GetCommandClassId v) = unat (vid_id v) div 2 ^ 14 mod 2 ^ 8"
  unfolding GetCommandClassId_def masks unat_ucast_32_8 unat_field by simp

lemma unat_GetInstance: "unat (GetInstance v) = unat (vid_id v) div 2 ^ 4 mod 2 ^ 8"
  unfolding GetInstance_def masks unat_ucast_32_8 unat_field by simp

lemma unat_ucast_32_16: "unat (ucast (x :: uint32) :: uint16) = unat x mod 65536"
  by (simp add: unsigned_ucast_eq take_bit_eq_mod)

lemma unat_GetIndex: "unat (GetIndex v) = unat (vid_id1 v) div 2 ^ 16 mod 2 ^ 16"
  unfolding GetIndex_def masks unat_ucast_32_16 unat_field by simp

lemma GetGenre_field: "GetGenre v = genres ! (unat (vid_id v) div 2 ^ 22 mod 2 ^ 2)"
  unfolding GetGenre_def masks unat_field by simp

lemma GetType_field: "GetType v = peek types (unat (vid_id v) mod 2 ^ 4)"
  using unat_field [of 0 "vid_id v" 4] unfolding GetType_def masks by simp

lemma ValueID_getters:
  "GetNodeId (ValueID_new h n g c i x t) = n" "GetGenre (ValueID_new h n g c i x t) = g"
  "GetCommandClassId (ValueID_new h n g c i x t) = c" "GetInstance (ValueID_new h n g c i x t) = i"
  "GetIndex (ValueID_new h n g c i x t) = x" "GetType (ValueID_new h n g c i x t) = Some t"
  "vid_homeId (ValueID_new h n g c i x t) = h"
proof -
  note b = unat_u8_less [of n] genre_num_less [of g] unat_u8_less [of c] unat_u8_less [of i] type_num_less [of t]
  note f = pack_fields [OF b]
  let ?v = "ValueID_new h n g c i x t"
  show "GetNodeId ?v = n" "GetCommandClassId ?v = c" "GetInstance ?v = i"
    using f by (simp_all only: word_unat_eq_iff unat_GetNodeId unat_GetCommandClassId unat_GetInstance unat_ValueID)
  show "GetGenre ?v = g" "GetType ?v = Some t"
    using f by (simp_all only: GetGenre_field GetType_field unat_ValueID genres_nth types_peek)
  show "GetIndex ?v = x"
    by (simp add: word_unat_eq_iff unat_GetIndex unat_ValueID)
  show "vid_homeId ?v = h" by (simp add: ValueID_new_def)
qed

section \<open>Keys and the 64-bit identifier\<close>

lemma unat_key:
  "unat (GetValueStoreKey_of c i x) = (unat x * 256 + unat c) * 256 + unat i"
proof -
  let ?w1 = "push_bit 8 (of_nat (unat c)) OR of_nat (unat i) :: uint32"
  have i: "unat (of_nat (unat i) :: uint32) = unat i"
    using unat_u8_le [of i] by (intro unat_u32_of_nat) simp
  have w1: "unat ?w1 = unat c * 2 ^ 8 + unat i"
    using unat_pack [of "unat c" 8 "of_nat (unat i)"] unat_u8_less [of c] unat_u8_less [of i] i by simp
  have "unat (push_bit 16 (of_nat (unat x)) OR ?w1) = unat x * 2 ^ 16 + unat ?w1"
    by (rule unat_pack) (use w1 unat_u8_le [of c] unat_u8_le [of i] unat_u16_less [of x] in simp_all)
  moreover have "GetValueStoreKey_of c i x = push_bit 16 (of_nat (unat x)) OR ?w1"
    unfolding GetValueStoreKey_of_def and_full ucast_of_nat_unat by (simp add: ac_simps)
  ultimately show ?thesis using w1 by simp
qed

lemma bit_field: "bit ((w :: uint32) AND push_bit k (mask l)) n \<longleftrightarrow> bit w n \<and> k \<le> n \<and> n < k + l"
  using bit_imp_le_length [of w n] by (auto simp: bit_and_iff bit_push_bit_iff bit_mask_iff)

lemma bit_ucasts:
  "bit (ucast (w :: uint32) :: uint8) n \<longleftrightarrow> n < 8 \<and> bit w n"
  "bit (ucast (w :: uint32) :: uint16) n \<longleftrightarrow> n < 16 \<and> bit w n"
  "bit (ucast (b :: uint8) :: uint32) n \<longleftrightarrow> bit b n"
  "bit (ucast (h :: uint16) :: uint32) n \<longleftrightarrow> bit h n"
  using bit_imp_le_length [of b n] bit_imp_le_length [of h n] by (auto simp: bit_ucast_iff)

lemma GetValueStoreKey_fields:
  "GetValueStoreKey v = GetValueStoreKey_of (GetCommandClassId v) (GetInstance v) (GetIndex v)"
proof (rule bit_word_eqI)
  fix n assume "n < LENGTH(32)"
  then have n: "n < 32" by simp
  have k: "bit (GetValueStoreKey v) n \<longleftrightarrow> bit (vid_id v) (6 + n) \<and> 14 \<le> 6 + n \<and> 6 + n < 14 + 8 \<or>
      bit (vid_id1 v) n \<and> 16 \<le> n \<and> n < 16 + 16 \<or> bit (vid_id v) (4 + n) \<and> 4 \<le> 4 + n \<and> 4 + n < 4 + 8"
    unfolding GetValueStoreKey_def masks bit_or_iff bit_drop_bit_eq o_def bit_field by simp
  have cc: "bit (ucast (GetCommandClassId v) :: uint32) m \<longleftrightarrow>
      m < 8 \<and> bit (vid_id v) (14 + m) \<and> 14 \<le> 14 + m \<and> 14 + m < 14 + 8" for m
    unfolding GetCommandClassId_def masks bit_ucasts bit_drop_bit_eq o_def bit_field by simp
  have ii: "bit (ucast (GetInstance v) :: uint32) m \<longleftrightarrow>
      m < 8 \<and> bit (vid_id v) (4 + m) \<and> 4 \<le> 4 + m \<and> 4 + m < 4 + 8" for m
    unfolding GetInstance_def masks bit_ucasts bit_drop_bit_eq o_def bit_field by simp
  have xx: "bit (ucast (GetIndex v) :: uint32) m \<longleftrightarrow>
      m < 16 \<and> bit (vid_id1 v) (16 + m) \<and> 16 \<le> 16 + m \<and> 16 + m < 16 + 16" for m
    unfolding GetIndex_def masks bit_ucasts bit_drop_bit_eq o_def bit_field by simp
  have "14 + (n - 8) = 6 + n" if "8 \<le> n" using that by simp
  moreover have "16 + (n - 16) = n" if "16 \<le> n" using that by simp
  ultimately show "bit (GetValueStoreKey v) n \<longleftrightarrow>
      bit (GetValueStoreKey_of (GetCommandClassId v) (GetInstance v) (GetIndex v)) n"
    unfolding k GetValueStoreKey_of_def and_full bit_or_iff bit_push_bit_iff cc ii xx
    using n by (cases "8 \<le> n"; cases "16 \<le> n") auto
qed

text \<open>Constructing an identifier and reading it back returns every component, and the key of
  a value in its node's store, computed from the packed identifier or from the components, is
  different for different triples of command class, instance and index.\<close>

theorem ValueID_roundtrip:
  "GetNodeId (ValueID_new h n g c i x t) = n \<and> GetGenre (ValueID_new h n g c i x t) = g \<and>
   GetCommandClassId (ValueID_new h n g c i x t) = c \<and> GetInstance (ValueID_new h n g c i x t) = i \<and>
   GetIndex (ValueID_new h n g c i x t) = x \<and> GetType (ValueID_new h n g c i x t) = Some t \<and>
   GetValueStoreKey (ValueID_new h n g c i x t) = GetValueStoreKey_of c i x \<and>
   (GetValueStoreKey_of c i x = GetValueStoreKey_of c' i' x' \<longleftrightarrow> c = c' \<and> i = i' \<and> x = x')"
proof -
  have "GetValueStoreKey_of c i x = GetValueStoreKey_of c' i' x' \<longleftrightarrow> (x = x' \<and> c = c') \<and> i = i'"
    by (simp only: word_unat_eq_iff unat_key digits_eq [OF unat_u8_less unat_u8_less])
  then show ?thesis
    using GetValueStoreKey_fields [of "ValueID_new h n g c i x t"]
    by (auto simp: ValueID_getters)
qed

text \<open>The 64-bit number given to applications, with the home id, gives the identifier back.\<close>

theorem GetId_roundtrip: "ValueID_from_id (vid_homeId v) (GetId v) = v"
proof -
  have m: "(0xFFFFFFFF :: uint64) = mask 32" by (simp add: mask_eq_exp_minus_1)
  have "ucast (GetId v AND 0xFFFFFFFF) = vid_id v" "ucast (drop_bit 32 (GetId v)) = vid_id1 v"
    unfolding GetId_def m
    by (rule bit_word_eqI; auto simp: bit_simps dest: bit_imp_le_length)+
  then show ?thesis by (simp add: ValueID_from_id_def value_id.expand)
qed

text \<open>Sorting identifiers of one controller sorts them by node, genre, command class,
  instance, type and index, in that order of importance.\<close>

theorem ValueID_order:
  "ValueID_new h n g c i x t < ValueID_new h n' g' c' i' x' t' \<longleftrightarrow>
    n < n' \<or> n = n' \<and> (genre_num g < genre_num g' \<or> g = g' \<and> (c < c' \<or> c = c' \<and>
      (i < i' \<or> i = i' \<and> (type_num t < type_num t' \<or> t = t' \<and> x < x'))))"
proof -
  have gi: "genre_num g = genre_num g' \<longleftrightarrow> g = g'" by (metis genres_nth)
  have ti: "type_num t = type_num t' \<longleftrightarrow> t = t'" by (metis types_peek option.inject)
  have b: "genre_num g < 4" "genre_num g' < 4" "type_num t < 16" "type_num t' < 16"
    by (rule genre_num_less type_num_less)+
  have i: "unat i < 1024" "unat i' < 1024"
    using unat_u8_le [of i] unat_u8_le [of i'] by linarith+
  have "pack (unat n) (genre_num g) (unat c) (unat i) (type_num t)
      < pack (unat n') (genre_num g') (unat c') (unat i') (type_num t') \<longleftrightarrow>
    (((unat n < unat n' \<or> unat n = unat n' \<and> genre_num g < genre_num g') \<or>
      (unat n = unat n' \<and> g = g') \<and> unat c < unat c') \<or>
      ((unat n = unat n' \<and> g = g') \<and> unat c = unat c') \<and> unat i < unat i') \<or>
      (((unat n = unat n' \<and> g = g') \<and> unat c = unat c') \<and> unat i = unat i') \<and> type_num t < type_num t'"
    by (simp only: pack_def digits_less [OF b(1,2)] digits_less [OF b(3,4)] digits_less [OF i]
        digits_less [OF unat_u8_less unat_u8_less] digits_eq [OF b(1,2)] digits_eq [OF i]
        digits_eq [OF unat_u8_less unat_u8_less] gi)
  moreover have "pack (unat n) (genre_num g) (unat c) (unat i) (type_num t)
      = pack (unat n') (genre_num g') (unat c') (unat i') (type_num t') \<longleftrightarrow>
    (((unat n = unat n' \<and> g = g') \<and> unat c = unat c') \<and> unat i = unat i') \<and> t = t'"
    by (simp only: pack_def digits_eq [OF b(1,2)] digits_eq [OF b(3,4)] digits_eq [OF i]
        digits_eq [OF unat_u8_less unat_u8_less] gi ti)
  ultimately show ?thesis
    unfolding less_value_id_def
    by (simp only: ValueID_getters(7) if_True refl word_less_nat_alt word_unat_eq_iff unat_ValueID
        mult_less_cancel2) auto
qed

end
