(* ===== verification/Value_Verify.thy ===== *)
theory Value_Verify
  imports Value_Id
begin

text \<open>
  \<open>cpp/src/value_classes/Value.cpp\<close>: what happens when a device reports a value, and when the
  application sets one.  A reported change is either taken at once, compared with a target
  value, or read a second time before it is believed.  The \<open>OnValueRefreshed\<close> of the value
  classes act on the verdict.  Notifications, timers and requests to the device are returned as
  a list of events in the order of the calls.
\<close>

section \<open>State, data and events\<close>

text \<open>The data behind the \<open>void*\<close> parameters; \<open>short\<close> and \<open>int32\<close> by their bits.\<close>

datatype vdata = VBool bool | VByte uint8 | VStr string | VShort uint16 | VInt uint32
  | VRaw bytes | VBits uint32 | VSchedule

datatype value_event =
  Ev_ValueChanged value_id
| Ev_ValueRefreshed value_id
| Ev_CheckForRefreshValues value_id
| Ev_Timer int
| Ev_RequestValue uint16 uint8
| Ev_SetValue value_id
| Ev_RequestAllConfigParams
| Ev_RequestConfigParam uint8

record value_base =
  vb_id :: value_id
  vb_verifyChanges :: bool
  vb_refreshAfterSet :: bool
  vb_targetValueSet :: bool
  vb_duration :: uint32
  vb_readOnly :: bool
  vb_writeOnly :: bool
  vb_isSet :: bool
  vb_affects :: "uint8 list"
  vb_affectsAll :: bool
  vb_checkChange :: bool
  vb_refreshTime :: int

text \<open>What the calls to \<open>Manager\<close>, \<open>Options\<close> and \<open>time\<close> return: the driver, node and command
  class of the value may not exist.\<close>

record value_env =
  env_driver :: bool
  env_node :: bool
  env_cc :: bool
  env_suppress :: bool
  env_time :: int

section \<open>Notifications\<close>

definition OnValueRefreshed :: "value_env \<Rightarrow> value_base \<Rightarrow> value_base \<times> value_event list" where
  "OnValueRefreshed env v =
     (if vb_writeOnly v then (v, [])
      else if env_driver env then
        (v\<lparr>vb_isSet := True\<rparr>, if env_suppress env then [] else [Ev_ValueRefreshed (vb_id v)])
      else (v, []))"

definition OnValueChanged :: "value_env \<Rightarrow> value_base \<Rightarrow> value_base \<times> value_event list" where
  "OnValueChanged env v =
     (if vb_writeOnly v then (v, [])
      else if env_driver env then
        (v\<lparr>vb_isSet := True\<rparr>,
         Ev_ValueChanged (vb_id v) #
           (if env_node env \<and> env_cc env then [Ev_CheckForRefreshValues (vb_id v)] else []))
      else (v, []))"

definition sendValueRefresh :: "value_env \<Rightarrow> value_base \<Rightarrow> value_event list" where
  "sendValueRefresh env v =
     (if env_driver env \<and> env_node env \<and> env_cc env
      then [Ev_RequestValue (GetIndex (vb_id v)) (GetInstance (vb_id v))] else [])"

section \<open>Setting a value\<close>

text \<open>\<open>res\<close> is the answer of the command class to \<open>SetValue\<close>.\<close>

definition Value_Set :: "value_env \<Rightarrow> bool \<Rightarrow> value_base \<Rightarrow> bool \<times> value_event list" where
  "Value_Set env res v =
     (if vb_readOnly v then (False, [])
      else if \<not> (env_driver env \<and> env_node env \<and> env_cc env) then (False, [])
      else (res, Ev_SetValue (vb_id v) #
        (if \<not> res then []
         else if \<not> vb_writeOnly v then
           (if vb_refreshAfterSet v
            then [Ev_RequestValue (GetIndex (vb_id v)) (GetInstance (vb_id v))] else [])
         else if vb_affectsAll v then [Ev_RequestAllConfigParams]
         else map Ev_RequestConfigParam (vb_affects v))))"

section \<open>Comparing reported data\<close>

text \<open>A C string ends at its first zero character.\<close>

definition c_str :: "string \<Rightarrow> string" where
  "c_str s = takeWhile (\<lambda>c. c \<noteq> CHR 0x00) s"

text \<open>The switch over the type; \<open>None\<close> when the pointers do not point to data of that type.\<close>

definition data_equal :: "value_type \<Rightarrow> vdata \<Rightarrow> vdata \<Rightarrow> bool option" where
  "data_equal ty a b =
     (let strings = (case (a, b) of (VStr x, VStr y) \<Rightarrow> Some (c_str x = c_str y) | _ \<Rightarrow> None);
          shorts = (case (a, b) of (VShort x, VShort y) \<Rightarrow> Some (x = y) | _ \<Rightarrow> None);
          ints = (case (a, b) of (VInt x, VInt y) \<Rightarrow> Some (x = y) | _ \<Rightarrow> None);
          uint8s = (case (a, b) of (VByte x, VByte y) \<Rightarrow> Some (x = y) | _ \<Rightarrow> None);
          bools = (case (a, b) of (VBool x, VBool y) \<Rightarrow> Some (x = y) | _ \<Rightarrow> None);
          raws = (case (a, b) of (VRaw x, VRaw y) \<Rightarrow>
                    Some (length x = length y \<and> take (length y) x = y) | _ \<Rightarrow> None);
          bits = (case (a, b) of (VBits x, VBits y) \<Rightarrow> Some (x = y) | _ \<Rightarrow> None)
      in case ty of
        Type_Decimal \<Rightarrow> strings | Type_String \<Rightarrow> strings
      | Type_Short \<Rightarrow> shorts
      | Type_List \<Rightarrow> ints | Type_Int \<Rightarrow> ints
      | Type_Byte \<Rightarrow> uint8s
      | Type_Button \<Rightarrow> bools | Type_Bool \<Rightarrow> bools
      | Type_Raw \<Rightarrow> raws
      | Type_Schedule \<Rightarrow> Some False
      | Type_BitSet \<Rightarrow> bits)"

section \<open>The verdict on a reported value\<close>

text \<open>\<open>CheckTargetValue\<close>: the verdict, the new state and the events.\<close>

definition CheckTargetValue ::
  "value_env \<Rightarrow> vdata \<Rightarrow> vdata \<Rightarrow> value_type \<Rightarrow> value_base \<Rightarrow> (nat \<times> value_base \<times> value_event list) option"
where
  "CheckTargetValue env newV target ty v = do {
     eq \<leftarrow> data_equal ty target newV;
     if eq then
       let (v', ev) = OnValueChanged env (v\<lparr>vb_targetValueSet := False\<rparr>) in Some (2, v', ev)
     else
       let timeout = (if vb_duration v \<le> 2 then 250 else if vb_duration v \<le> 5 then 500 else 1000)
       in Some (0, v, [Ev_Timer timeout])
   }"

text \<open>The part of \<open>VerifyRefreshedValue\<close> after the target value has been dealt with.\<close>

definition verify_change ::
  "value_env \<Rightarrow> vdata \<Rightarrow> vdata \<Rightarrow> vdata \<Rightarrow> value_type \<Rightarrow> value_base \<Rightarrow>
     (nat \<times> value_base \<times> value_event list) option" where
  "verify_change env original check newV ty v = do {
     originalEqual \<leftarrow> data_equal ty original newV;
     if \<not> vb_verifyChanges v then
       let (v', ev) = (if originalEqual then OnValueRefreshed env v else OnValueChanged env v)
       in Some (2, v', ev)
     else if \<not> vb_checkChange v then
       (if originalEqual then
          let (v', ev) = OnValueRefreshed env v in Some (0, v', ev)
        else Some (1, v\<lparr>vb_checkChange := True\<rparr>, [Ev_Timer 250]))
     else do {
       checkEqual \<leftarrow> data_equal ty check newV;
       if checkEqual then
         let (v', ev) = OnValueChanged env (v\<lparr>vb_checkChange := False\<rparr>) in Some (2, v', ev)
       else if originalEqual then
         let (v', ev) = OnValueRefreshed env (v\<lparr>vb_checkChange := False\<rparr>) in Some (0, v', ev)
       else Some (1, v\<lparr>vb_checkChange := True\<rparr>, [Ev_Timer 250])
     }
   }"

definition VerifyRefreshedValue ::
  "value_env \<Rightarrow> vdata \<Rightarrow> vdata \<Rightarrow> vdata \<Rightarrow> vdata \<Rightarrow> value_type \<Rightarrow> value_base \<Rightarrow>
     (nat \<times> value_base \<times> value_event list) option" where
  "VerifyRefreshedValue env original check newV target ty v =
     (if \<not> vb_isSet v then
        let (v', ev) = OnValueChanged env v in Some (2, v', ev)
      else
        let v1 = (if ty = Type_Schedule then v\<lparr>vb_verifyChanges := False\<rparr> else v);
            v2 = v1\<lparr>vb_refreshTime := env_time env\<rparr>
        in if vb_targetValueSet v2 then CheckTargetValue env newV target ty v2
           else verify_change env original check newV ty v2)"

section \<open>The value classes\<close>

text \<open>A value with its current, unconfirmed and target data.\<close>

record value_cell = value_base +
  vc_value :: vdata
  vc_valueCheck :: vdata
  vc_targetValue :: vdata

definition base_of :: "value_cell \<Rightarrow> value_base" where
  "base_of c = value_base.truncate c"

definition with_base :: "value_base \<Rightarrow> value_cell \<Rightarrow> value_cell" where
  "with_base v c = value_base.extend v \<lparr>vc_value = vc_value c, vc_valueCheck = vc_valueCheck c,
                                        vc_targetValue = vc_targetValue c\<rparr>"

text \<open>The switch over the verdict, as every value class has it.\<close>

definition act_on_verdict :: "nat \<Rightarrow> vdata \<Rightarrow> value_cell \<Rightarrow> value_cell" where
  "act_on_verdict verdict x c =
     (if verdict = 1 then c\<lparr>vc_valueCheck := x\<rparr>
      else if verdict = 2 then c\<lparr>vc_value := x\<rparr> else c)"

definition refresh_as ::
  "value_type \<Rightarrow> value_env \<Rightarrow> vdata \<Rightarrow> value_cell \<Rightarrow> (value_cell \<times> value_event list) option" where
  "refresh_as ty env x c = do {
     (verdict, v, ev) \<leftarrow> VerifyRefreshedValue env (vc_value c) (vc_valueCheck c) x (vc_targetValue c) ty
                            (base_of c);
     Some (act_on_verdict verdict x (with_base v c), ev)
   }"

definition ValueBool_OnValueRefreshed where
  "ValueBool_OnValueRefreshed env (b :: bool) = refresh_as Type_Bool env (VBool b)"

definition ValueByte_OnValueRefreshed where
  "ValueByte_OnValueRefreshed env (b :: uint8) = refresh_as Type_Byte env (VByte b)"

definition ValueShort_OnValueRefreshed where
  "ValueShort_OnValueRefreshed env (w :: uint16) = refresh_as Type_Short env (VShort w)"

definition ValueInt_OnValueRefreshed where
  "ValueInt_OnValueRefreshed env (w :: uint32) = refresh_as Type_Int env (VInt w)"

definition ValueString_OnValueRefreshed where
  "ValueString_OnValueRefreshed env (s :: string) = refresh_as Type_String env (VStr s)"

definition ValueDecimal_OnValueRefreshed where
  "ValueDecimal_OnValueRefreshed env (s :: string) = refresh_as Type_Decimal env (VStr s)"

definition ValueRaw_OnValueRefreshed where
  "ValueRaw_OnValueRefreshed env (bs :: bytes) = refresh_as Type_Raw env (VRaw bs)"

text \<open>The current and the unconfirmed value are \<open>Bitfield\<close> objects, the new one is a plain
  integer; the switch over the verdict stores it with \<open>SetValue\<close>.\<close>

definition ValueBitSet_OnValueRefreshed ::
  "value_env \<Rightarrow> uint32 \<Rightarrow> value_cell \<Rightarrow> (value_cell \<times> value_event list) option" where
  "ValueBitSet_OnValueRefreshed env w c = do {
     (verdict, v, ev) \<leftarrow> VerifyRefreshedValue env (vc_value c) (vc_valueCheck c) (VInt w) (vc_targetValue c)
                            Type_BitSet (base_of c);
     Some (act_on_verdict verdict (VBits w) (with_base v c), ev)
   }"

text \<open>\<open>ValueSchedule\<close> passes dummies and ignores the verdict.\<close>

definition ValueSchedule_OnValueRefreshed ::
  "value_env \<Rightarrow> value_base \<Rightarrow> (value_base \<times> value_event list) option" where
  "ValueSchedule_OnValueRefreshed env v = do {
     (verdict, v', ev) \<leftarrow> VerifyRefreshedValue env VSchedule VSchedule VSchedule VSchedule Type_Schedule v;
     Some (v', ev)
   }"

section \<open>ValueList\<close>

type_synonym list_item = "string \<times> uint32"

definition first_index :: "('a \<Rightarrow> bool) \<Rightarrow> 'a list \<Rightarrow> int" where
  "first_index P xs = (case find (\<lambda>i. P (xs ! i)) [0..<length xs] of None \<Rightarrow> -1 | Some i \<Rightarrow> int i)"

definition GetItemIdxByLabel :: "list_item list \<Rightarrow> string \<Rightarrow> int" where
  "GetItemIdxByLabel items label = first_index (\<lambda>it. label = fst it) items"

definition GetItemIdxByValue :: "list_item list \<Rightarrow> uint32 \<Rightarrow> int" where
  "GetItemIdxByValue items val = first_index (\<lambda>it. val = snd it) items"

definition ValueList_OnValueRefreshed ::
  "value_env \<Rightarrow> list_item list \<Rightarrow> uint32 \<Rightarrow> value_cell \<Rightarrow> (value_cell \<times> value_event list) option" where
  "ValueList_OnValueRefreshed env items val c =
     (let i = GetItemIdxByValue items val in
      if i < 0 then Some (c, []) else refresh_as Type_List env (VInt (of_int i)) c)"

text \<open>The index handed to \<open>SetByValue\<close>; \<open>None\<close> is \<open>false\<close>.\<close>

definition SetByLabel :: "list_item list \<Rightarrow> string \<Rightarrow> uint32 option" where
  "SetByLabel items label =
     (let i = GetItemIdxByLabel items label in if i < 0 then None else Some (of_int i))"

definition GetItem :: "list_item list \<Rightarrow> uint32 \<Rightarrow> list_item option" where
  "GetItem items valueIdx = (if length items < unat valueIdx then None else peek items (unat valueIdx))"

definition GetItemLabels :: "list_item list \<Rightarrow> string list \<Rightarrow> string list" where
  "GetItemLabels items out = out @ map fst items"

definition GetItemValues :: "list_item list \<Rightarrow> uint32 list \<Rightarrow> uint32 list" where
  "GetItemValues items out = out @ map snd items"

section \<open>Lemmas\<close>

text \<open>The types whose data are compared by plain equality, with the wrapper of their data.\<close>

definition plain :: "value_type \<Rightarrow> ('a \<Rightarrow> vdata) \<Rightarrow> bool" where
  "plain ty mk \<longleftrightarrow> ty \<noteq> Type_Schedule \<and> (\<forall>x y. data_equal ty (mk x) (mk y) = Some (x = y))"

lemma plain_types:
  "plain Type_Byte VByte" "plain Type_Short VShort" "plain Type_Int VInt" "plain Type_List VInt"
  "plain Type_Bool VBool" "plain Type_Button VBool" "plain Type_Raw VRaw"
  by (auto simp: plain_def data_equal_def)

lemmas verdict_defs = VerifyRefreshedValue_def verify_change_def CheckTargetValue_def Let_def

lemma base_simps [simp, state_simps]:
  "vb_id (base_of c) = vb_id c" "vb_verifyChanges (base_of c) = vb_verifyChanges c"
  "vb_targetValueSet (base_of c) = vb_targetValueSet c" "vb_duration (base_of c) = vb_duration c"
  "vb_writeOnly (base_of c) = vb_writeOnly c" "vb_isSet (base_of c) = vb_isSet c"
  "vb_checkChange (base_of c) = vb_checkChange c"
  "vb_isSet (with_base v c) = vb_isSet v" "vb_verifyChanges (with_base v c) = vb_verifyChanges v"
  "vb_targetValueSet (with_base v c) = vb_targetValueSet v"
  "vb_checkChange (with_base v c) = vb_checkChange v" "vb_id (with_base v c) = vb_id v"
  "vb_writeOnly (with_base v c) = vb_writeOnly v"
  "vc_value (with_base v c) = vc_value c" "vc_valueCheck (with_base v c) = vc_valueCheck c"
  "vc_targetValue (with_base v c) = vc_targetValue c"
  by (simp_all add: base_of_def with_base_def value_base.defs)

lemma OnValueChanged_base:
  "fst (OnValueChanged env v) \<in> {v, v\<lparr>vb_isSet := True\<rparr>}"
  by (simp add: OnValueChanged_def)

lemma OnValueRefreshed_base:
  "fst (OnValueRefreshed env v) \<in> {v, v\<lparr>vb_isSet := True\<rparr>}"
  by (simp add: OnValueRefreshed_def)

section \<open>Reading a change twice\<close>

text \<open>The specification: the accepted value and the reading that waits for confirmation.\<close>

type_synonym 'a debounce = "'a \<times> 'a option"

fun debounce :: "'a \<Rightarrow> 'a debounce \<Rightarrow> 'a debounce" where
  "debounce x (v, None) = (if x = v then (v, None) else (v, Some x))"
| "debounce x (v, Some c) = (if x = c then (x, None) else if x = v then (v, None) else (v, Some x))"

definition cell_rel :: "('a \<Rightarrow> vdata) \<Rightarrow> value_cell \<Rightarrow> 'a debounce \<Rightarrow> bool" where
  "cell_rel mk c s \<longleftrightarrow> vb_isSet c \<and> vb_verifyChanges c \<and> \<not> vb_targetValueSet c \<and>
     vc_value c = mk (fst s) \<and>
     (case snd s of None \<Rightarrow> \<not> vb_checkChange c
      | Some x \<Rightarrow> vb_checkChange c \<and> vc_valueCheck c = mk x \<and> x \<noteq> fst s)"

lemma refresh_debounce:
  assumes "plain ty mk" and "cell_rel mk c s"
  obtains c' ev where "refresh_as ty env (mk x) c = Some (c', ev)" and "cell_rel mk c' (debounce x s)"
    and "vb_writeOnly c' = vb_writeOnly c"
    and "env_driver env \<and> \<not> vb_writeOnly c \<longrightarrow>
      (Ev_ValueChanged (vb_id c) \<in> set ev \<longleftrightarrow> fst (debounce x s) \<noteq> fst s)"
proof -
  have ne: "ty \<noteq> Type_Schedule" and eq: "data_equal ty (mk a) (mk b) = Some (a = b)" for a b
    using assms(1) by (simp_all add: plain_def)
  obtain v p where s: "s = (v, p)" by (cases s)
  let ?t = "env_time env"
  have run: "refresh_as ty env (mk x) c = do {
      (verdict, b, ev) \<leftarrow> verify_change env (mk v) (vc_valueCheck c) (mk x) ty
        ((base_of c)\<lparr>vb_refreshTime := ?t\<rparr>);
      Some (act_on_verdict verdict (mk x) (with_base b c), ev) }"
    using assms(2) ne by (simp add: refresh_as_def VerifyRefreshedValue_def Let_def cell_rel_def s)
  have "\<exists>c' ev. refresh_as ty env (mk x) c = Some (c', ev) \<and> cell_rel mk c' (debounce x s) \<and>
      vb_writeOnly c' = vb_writeOnly c \<and> (env_driver env \<and> \<not> vb_writeOnly c \<longrightarrow>
      (Ev_ValueChanged (vb_id c) \<in> set ev \<longleftrightarrow> fst (debounce x s) \<noteq> fst s))"
  proof (cases p)
    case None
    with assms(2) s have "\<not> vb_checkChange c" "vb_isSet c" "vb_verifyChanges c" "\<not> vb_targetValueSet c"
      "vc_value c = mk v" by (simp_all add: cell_rel_def)
    then show ?thesis
      unfolding run s None
      by (cases "x = v") (simp_all add: verify_change_def eq act_on_verdict_def cell_rel_def OnValueRefreshed_def)
  next
    case (Some w)
    with assms(2) s have c: "vb_checkChange c" "vb_isSet c" "vb_verifyChanges c" "\<not> vb_targetValueSet c"
      "vc_value c = mk v" "vc_valueCheck c = mk w" "w \<noteq> v" by (simp_all add: cell_rel_def)
    consider "x = w" | "x \<noteq> w" "x = v" | "x \<noteq> w" "x \<noteq> v" by blast
    then show ?thesis
      unfolding run s Some
      by cases (use c in \<open>simp_all add: verify_change_def eq act_on_verdict_def cell_rel_def
          OnValueRefreshed_def OnValueChanged_def\<close>)
  qed
  with that show thesis by blast
qed

section \<open>Properties\<close>

text \<open>A sequence of reports to one value.\<close>

fun refresh_run ::
  "value_type \<Rightarrow> ('a \<Rightarrow> vdata) \<Rightarrow> value_env \<Rightarrow> 'a list \<Rightarrow> value_cell \<Rightarrow> value_cell option" where
  "refresh_run ty mk env [] c = Some c"
| "refresh_run ty mk env (x # xs) c = do {
     (c', ev) \<leftarrow> refresh_as ty env (mk x) c;
     refresh_run ty mk env xs c'
   }"

lemma refresh_run_debounce:
  assumes "plain ty mk"
  shows "cell_rel mk c s \<Longrightarrow> \<exists>c'. refresh_run ty mk env xs c = Some c' \<and> cell_rel mk c' (fold debounce xs s)"
proof (induction xs arbitrary: c s)
  case (Cons x xs)
  from Cons.prems obtain c' ev where "refresh_as ty env (mk x) c = Some (c', ev)"
    and "cell_rel mk c' (debounce x s)"
    by (rule refresh_debounce [OF assms, of c s env x])
  with Cons.IH [of c' "debounce x s"] show ?case by simp
qed simp

text \<open>A value taken by the specification was read twice in a row.\<close>

lemma debounce_twice:
  assumes "fold debounce xs (v, None) = (w, p)"
  shows "(w = v \<or> (\<exists>i. Suc i < length xs \<and> xs ! i = w \<and> xs ! Suc i = w)) \<and>
    (p \<noteq> None \<longrightarrow> xs \<noteq> [] \<and> p = Some (last xs))"
  using assms
proof (induction xs arbitrary: w p rule: rev_induct)
  case (snoc x xs)
  obtain w' p' where s: "fold debounce xs (v, None) = (w', p')" by (cases "fold debounce xs (v, None)")
  note IH = snoc.IH [OF s]
  have d: "debounce x (w', p') = (w, p)" using snoc.prems s by simp
  have keep: "w' = v \<or> (\<exists>i. Suc i < length (xs @ [x]) \<and> (xs @ [x]) ! i = w' \<and> (xs @ [x]) ! Suc i = w')"
  proof -
    from IH consider "w' = v" | i where "Suc i < length xs" "xs ! i = w'" "xs ! Suc i = w'" by blast
    then show ?thesis
    proof cases
      case 2
      then show ?thesis by (intro disjI2 exI [of _ i]) (simp add: nth_append)
    qed simp
  qed
  show ?case
  proof (cases "p' = Some x")
    case True
    with IH have "xs \<noteq> []" "last xs = x" by auto
    then have "Suc (length xs - 1) < length (xs @ [x]) \<and> (xs @ [x]) ! (length xs - 1) = x \<and>
        (xs @ [x]) ! Suc (length xs - 1) = x"
      by (simp add: nth_append last_conv_nth)
    with d True show ?thesis by auto
  next
    case False
    with d have "w = w'" "p = None \<or> p = Some x"
      by (cases p'; auto split: if_splits)+
    with keep show ?thesis by auto
  qed
qed simp

text \<open>With change verification on, a value that has been read takes part in a debounced
  protocol: after any sequence of reports it holds its old content or content that was reported
  twice in a row, whatever spurious readings came in between.\<close>

theorem verified_value_confirmed:
  assumes "plain ty mk" and "vb_isSet c" and "vb_verifyChanges c" and "\<not> vb_targetValueSet c"
    and "\<not> vb_checkChange c" and "vc_value c = mk v"
  shows "\<exists>c' w. refresh_run ty mk env xs c = Some c' \<and> vc_value c' = mk w \<and>
    (w = v \<or> (\<exists>i. Suc i < length xs \<and> xs ! i = w \<and> xs ! Suc i = w))"
proof -
  have "cell_rel mk c (v, None)" using assms by (simp add: cell_rel_def)
  from refresh_run_debounce [OF assms(1) this, of env xs] obtain c' where
    c': "refresh_run ty mk env xs c = Some c'" "cell_rel mk c' (fold debounce xs (v, None))" by blast
  obtain w p where wp: "fold debounce xs (v, None) = (w, p)" by (cases "fold debounce xs (v, None)")
  from debounce_twice [OF wp] c' wp show ?thesis by (auto simp: cell_rel_def)
qed

definition sample_cell :: value_cell where
  "sample_cell = \<lparr>vb_id = ValueID_new 1 2 Genre_User 0x25 1 0 Type_Byte, vb_verifyChanges = True,
     vb_refreshAfterSet = True, vb_targetValueSet = False, vb_duration = 0, vb_readOnly = False,
     vb_writeOnly = False, vb_isSet = True, vb_affects = [], vb_affectsAll = False,
     vb_checkChange = False, vb_refreshTime = 0, vc_value = VByte 1, vc_valueCheck = VByte 0,
     vc_targetValue = VByte 9\<rparr>"

definition sample_env :: value_env where
  "sample_env = \<lparr>env_driver = True, env_node = True, env_cc = True, env_suppress = False, env_time = 0\<rparr>"

theorem verified_value_confirmed_witness:
  "\<exists>c' w. refresh_run Type_Byte VByte sample_env [7, 1, 8, 9, 9] sample_cell = Some c' \<and>
    vc_value c' = VByte w \<and> (w = 1 \<or> (\<exists>i. Suc i < length [7, 1, 8, 9, 9 :: uint8] \<and>
      [7, 1, 8, 9, 9] ! i = w \<and> [7, 1, 8, 9, 9] ! Suc i = w))"
  by (rule verified_value_confirmed [OF plain_types(1)]) (simp_all add: sample_cell_def)

text \<open>Each report refines one step of the protocol, and the application is told of a change
  exactly when the accepted value changes.\<close>

theorem verified_value_notified:
  assumes "plain ty mk" and "cell_rel mk c s" and "env_driver env" and "\<not> vb_writeOnly c"
  shows "\<exists>c' ev. refresh_as ty env (mk x) c = Some (c', ev) \<and> cell_rel mk c' (debounce x s) \<and>
    (Ev_ValueChanged (vb_id c) \<in> set ev \<longleftrightarrow> fst (debounce x s) \<noteq> fst s)"
proof -
  obtain c' ev where "refresh_as ty env (mk x) c = Some (c', ev)" and "cell_rel mk c' (debounce x s)"
    and "env_driver env \<and> \<not> vb_writeOnly c \<longrightarrow>
      (Ev_ValueChanged (vb_id c) \<in> set ev \<longleftrightarrow> fst (debounce x s) \<noteq> fst s)"
    by (rule refresh_debounce [OF assms(1,2)])
  with assms(3,4) show ?thesis by blast
qed

theorem verified_value_notified_witness:
  "\<exists>c' ev. refresh_as Type_Byte sample_env (VByte 7) sample_cell = Some (c', ev) \<and>
    cell_rel VByte c' (1, Some 7) \<and> Ev_ValueChanged (vb_id sample_cell) \<notin> set ev"
  using verified_value_notified [OF plain_types(1), of sample_cell "(1, None)" sample_env 7]
  by (simp add: cell_rel_def sample_cell_def sample_env_def)

text \<open>While a target value is set, a report other than the target changes nothing and
  schedules another read in at most a second; the report of the target is taken, announced and
  ends the waiting.  No report ever has the verdict 3 the value classes provide for.\<close>

theorem target_value_awaited:
  assumes "plain ty mk" and "vb_isSet c" and "vb_targetValueSet c" and "vc_targetValue c = mk t"
  shows "\<exists>c' ev. refresh_as ty env (mk x) c = Some (c', ev) \<and>
    (x = t \<longrightarrow> vc_value c' = mk x \<and> \<not> vb_targetValueSet c' \<and>
      ev = snd (OnValueChanged env (base_of c))) \<and>
    (x \<noteq> t \<longrightarrow> vc_value c' = vc_value c \<and> vb_targetValueSet c' \<and>
      (\<exists>ms \<le> 1000. 250 \<le> ms \<and> ev = [Ev_Timer ms]))"
  using assms
  by (auto simp: refresh_as_def verdict_defs plain_def act_on_verdict_def OnValueChanged_def)

theorem target_value_awaited_witness:
  "\<exists>c' ev. refresh_as Type_Byte sample_env (VByte 7) (sample_cell\<lparr>vb_targetValueSet := True\<rparr>) = Some (c', ev) \<and>
    vc_value c' = VByte 1"
  using target_value_awaited [OF plain_types(1), of "sample_cell\<lparr>vb_targetValueSet := True\<rparr>" 9 sample_env 7]
  by (auto simp: sample_cell_def)

text \<open>Once a bit set value has been read, a further report has no defined result: the
  comparison reads the reported integer as if it were a \<open>Bitfield\<close>.\<close>

theorem bitset_refresh_undefined:
  assumes "vb_isSet c"
  shows "ValueBitSet_OnValueRefreshed env w c = None"
  using assms
  by (auto simp: ValueBitSet_OnValueRefreshed_def verdict_defs data_equal_def split: vdata.splits)

theorem bitset_refresh_undefined_witness:
  "ValueBitSet_OnValueRefreshed sample_env 5 (sample_cell\<lparr>vc_value := VBits 4\<rparr>) = None"
  by (rule bitset_refresh_undefined) (simp add: sample_cell_def)

section \<open>Lists of items\<close>

lemma first_index_cases:
  "first_index P xs = -1 \<and> (\<forall>x \<in> set xs. \<not> P x) \<or>
   (\<exists>i < length xs. first_index P xs = int i \<and> P (xs ! i) \<and> (\<forall>j < i. \<not> P (xs ! j)))"
proof (cases "find (\<lambda>i. P (xs ! i)) [0..<length xs]")
  case None
  then have "first_index P xs = -1" by (simp add: first_index_def)
  moreover from None have "\<forall>x \<in> set xs. \<not> P x" by (auto simp: find_None_iff in_set_conv_nth)
  ultimately show ?thesis by blast
next
  case (Some i)
  then have "first_index P xs = int i" by (simp add: first_index_def)
  moreover from Some have "i < length xs" "P (xs ! i)" "\<forall>j < i. \<not> P (xs ! j)"
    by (auto simp: find_Some_iff)
  ultimately show ?thesis by blast
qed

text \<open>A list value only takes reported numbers that belong to an item; the index it stores
  leads back to an item of that number, and an unknown number leaves the value untouched.\<close>

theorem ValueList_refresh_item:
  assumes "length items < 2 ^ 31"
  shows "(val \<notin> snd ` set items \<longrightarrow> ValueList_OnValueRefreshed env items val c = Some (c, [])) \<and>
    (val \<in> snd ` set items \<longrightarrow>
      (\<exists>i < length items. snd (items ! i) = val \<and> GetItem items (of_nat i) = Some (items ! i) \<and>
        ValueList_OnValueRefreshed env items val c = refresh_as Type_List env (VInt (of_nat i)) c))"
proof -
  consider (none) "GetItemIdxByValue items val = -1" "val \<notin> snd ` set items"
    | (some) i where "i < length items" "GetItemIdxByValue items val = int i" "snd (items ! i) = val"
    using first_index_cases [of "\<lambda>it. val = snd it" items] by (auto simp: GetItemIdxByValue_def)
  then show ?thesis
  proof cases
    case none
    then show ?thesis by (simp add: ValueList_OnValueRefreshed_def)
  next
    case some
    then have "unat (of_nat i :: uint32) = i" using assms by (intro unat_u32_of_nat) simp
    then have "GetItem items (of_nat i) = Some (items ! i)"
      using some by (simp add: GetItem_def peek_def)
    moreover have "val \<in> snd ` set items" using some nth_mem by blast
    ultimately show ?thesis using some by (auto simp: ValueList_OnValueRefreshed_def)
  qed
qed

theorem ValueList_refresh_item_witness:
  "ValueList_OnValueRefreshed sample_env [(''Off'', 0), (''On'', 255)] 5 sample_cell = Some (sample_cell, [])"
  using ValueList_refresh_item [of "[(''Off'', 0), (''On'', 255)]" 5 sample_env sample_cell] by simp

end
