(* ===== verification/Keyed_Store.thy ===== *)
theory Keyed_Store
  imports Prelude
begin

text \<open>
  The interface of the components that keep data under keys (the value store of a node, the
  switch points of a schedule): an insertion is accepted or refused, an accepted one
  changes exactly its key, and a removal forgets exactly its key.  The lemmas describe whole
  histories of insertions and removals.
\<close>

datatype ('k, 'v) store_op = Op_Insert 'k 'v | Op_Remove 'k

text \<open>The map a history of accepted and refused operations leaves; \<open>ok\<close> tells which were accepted.\<close>

fun history_map :: "(('k, 'v) store_op \<times> bool) list \<Rightarrow> ('k \<rightharpoonup> 'v) \<Rightarrow> ('k \<rightharpoonup> 'v)" where
  "history_map [] m = m"
| "history_map ((Op_Insert k v, ok) # h) m = history_map h (if ok then m(k \<mapsto> v) else m)"
| "history_map ((Op_Remove k, ok) # h) m = history_map h (if ok then m(k := None) else m)"

text \<open>A history run on a store, with what each operation answered.\<close>

definition apply_op ::
  "('k \<Rightarrow> 'v \<Rightarrow> 's \<Rightarrow> bool \<times> 's) \<Rightarrow> ('k \<Rightarrow> 's \<Rightarrow> bool \<times> 's) \<Rightarrow> ('k, 'v) store_op \<Rightarrow> 's \<Rightarrow> bool \<times> 's"
where
  "apply_op ins rem p s = (case p of Op_Insert k v \<Rightarrow> ins k v s | Op_Remove k \<Rightarrow> rem k s)"

fun store_run ::
  "('k \<Rightarrow> 'v \<Rightarrow> 's \<Rightarrow> bool \<times> 's) \<Rightarrow> ('k \<Rightarrow> 's \<Rightarrow> bool \<times> 's) \<Rightarrow> ('k, 'v) store_op list \<Rightarrow> 's \<Rightarrow>
     bool list \<times> 's"
where
  "store_run ins rem [] s = ([], s)"
| "store_run ins rem (p # ps) s =
     (let (ok, s') = apply_op ins rem p s; (oks, t) = store_run ins rem ps s' in (ok # oks, t))"

text \<open>\<open>insert'\<close> and \<open>remove\<close> return whether they were accepted.\<close>

locale keyed_store =
  fixes lookup' :: "'s \<Rightarrow> 'k \<Rightarrow> 'v option"
    and insert' :: "'k \<Rightarrow> 'v \<Rightarrow> 's \<Rightarrow> bool \<times> 's"
    and remove :: "'k \<Rightarrow> 's \<Rightarrow> bool \<times> 's"
    and inv :: "'s \<Rightarrow> bool"
  assumes insert_ok: "inv s \<Longrightarrow> insert' k v s = (True, s') \<Longrightarrow> inv s' \<and> lookup' s' = (lookup' s)(k \<mapsto> v)"
    and insert_refused: "inv s \<Longrightarrow> insert' k v s = (False, s') \<Longrightarrow> s' = s"
    and remove_ok: "inv s \<Longrightarrow> remove k s = (True, s') \<Longrightarrow> inv s' \<and> lookup' s' = (lookup' s)(k := None)"
    and remove_refused: "inv s \<Longrightarrow> remove k s = (False, s') \<Longrightarrow> s' = s"
    and remove_iff: "inv s \<Longrightarrow> fst (remove k s) \<longleftrightarrow> lookup' s k \<noteq> None"
begin

lemma step_cases:
  assumes "inv s" and "apply_op insert' remove p s = (ok, s')"
  shows "inv s' \<and> lookup' s' = history_map [(p, ok)] (lookup' s)"
proof (cases p)
  case (Op_Insert k v)
  with assms show ?thesis
    using insert_ok [of s k v s'] insert_refused [of s k v s'] by (cases ok) (auto simp: apply_op_def)
next
  case (Op_Remove k)
  with assms show ?thesis
    using remove_ok [of s k s'] remove_refused [of s k s'] by (cases ok) (auto simp: apply_op_def)
qed

lemma history_map_Cons: "history_map (x # h) m = history_map h (history_map [x] m)"
  by (cases x; cases "fst x") auto

text \<open>After any history the store answers as the map of the accepted operations.\<close>

lemma run_lookup:
  "inv s \<Longrightarrow> store_run insert' remove ps s = (oks, t) \<Longrightarrow>
    inv t \<and> length oks = length ps \<and> lookup' t = history_map (zip ps oks) (lookup' s)"
proof (induction ps arbitrary: s oks t)
  case (Cons p ps)
  obtain ok s' where 1: "apply_op insert' remove p s = (ok, s')" by (cases "apply_op insert' remove p s")
  obtain oks' t' where 2: "store_run insert' remove ps s' = (oks', t')" by (cases "store_run insert' remove ps s'")
  with Cons.prems 1 have o: "oks = ok # oks'" "t = t'" by simp_all
  have 3: "inv s'" "lookup' s' = history_map [(p, ok)] (lookup' s)"
    using step_cases [OF Cons.prems(1) 1] by simp_all
  have zip: "zip (p # ps) oks = (p, ok) # zip ps oks'" by (simp add: o)
  have "inv t' \<and> length oks' = length ps \<and> lookup' t' = history_map (zip ps oks') (lookup' s')"
    using Cons.IH [OF 3(1) 2] .
  then show ?case
    unfolding o(2) zip using 3(2) history_map_Cons [of "(p, ok)" "zip ps oks'" "lookup' s"] o by simp
qed simp

lemma remove_twice: "inv s \<Longrightarrow> fst (remove k (snd (remove k s))) = False"
proof -
  assume i: "inv s"
  show ?thesis
  proof (cases "remove k s")
    case (Pair ok s')
    show ?thesis
    proof (cases ok)
      case True
      then have "inv s'" "lookup' s' k = None" using remove_ok [OF i, of k s'] Pair by auto
      then show ?thesis using remove_iff [of s' k] Pair by simp
    next
      case False
      then show ?thesis using remove_refused [OF i, of k s'] Pair by simp
    qed
  qed
qed

end

end
