(* ===== verification/Value_Schedule.thy ===== *)
theory Value_Schedule
  imports Keyed_Store
begin

text \<open>
  \<open>cpp/src/value_classes/ValueSchedule.cpp\<close>: an array of up to nine switch points sorted by
  time.  The array is a list of length nine of which the first \<open>m_numSwitchPoints\<close> entries are
  in use; the shuffling loops are folds over their index sequence.
\<close>

record switch_point =
  m_hours :: uint8
  m_minutes :: uint8
  m_setback :: uint8

record value_schedule =
  m_switchPoints :: "switch_point list"
  m_numSwitchPoints :: uint8

text \<open>The search loop: \<open>Inl\<close> for the index of a point with this time, \<open>Inr\<close> for \<open>insertAt\<close>.\<close>

fun find_slot :: "uint8 \<Rightarrow> uint8 \<Rightarrow> switch_point list \<Rightarrow> nat \<Rightarrow> nat + nat" where
  "find_slot h m [] at = Inr at"
| "find_slot h m (p # ps) at =
     (if m_hours p = h then
        (if m_minutes p = m then Inl at
         else if m_minutes p > m then Inr at else find_slot h m ps (at + 1))
      else if m_hours p > h then Inr at else find_slot h m ps (at + 1))"

definition SetSwitchPoint ::
  "uint8 \<Rightarrow> uint8 \<Rightarrow> uint8 \<Rightarrow> value_schedule \<Rightarrow> bool \<times> value_schedule" where
  "SetSwitchPoint h m setback s =
     (case find_slot h m (take (unat (m_numSwitchPoints s)) (m_switchPoints s)) 0 of
       Inl i \<Rightarrow> (True, s\<lparr>m_switchPoints := (m_switchPoints s)[i := (m_switchPoints s ! i)\<lparr>m_setback := setback\<rparr>]\<rparr>)
     | Inr insertAt \<Rightarrow>
         if m_numSwitchPoints s \<ge> 9 then (False, s)
         else
           let shuffled = fold (\<lambda>i ps. ps[i := ps ! (i - 1)])
                 (rev [insertAt + 1..<unat (m_numSwitchPoints s) + 1]) (m_switchPoints s)
           in (True, s\<lparr>m_switchPoints := shuffled[insertAt :=
                          \<lparr>m_hours = h, m_minutes = m, m_setback = setback\<rparr>],
                       m_numSwitchPoints := m_numSwitchPoints s + 1\<rparr>))"

definition RemoveSwitchPoint :: "uint8 \<Rightarrow> value_schedule \<Rightarrow> bool \<times> value_schedule" where
  "RemoveSwitchPoint idx s =
     (if idx \<ge> m_numSwitchPoints s then (False, s)
      else (True, s\<lparr>m_switchPoints := fold (\<lambda>i ps. ps[i := ps ! (i + 1)])
                      [unat idx..<unat (m_numSwitchPoints s) - 1] (m_switchPoints s),
                    m_numSwitchPoints := m_numSwitchPoints s - 1\<rparr>))"

definition GetSwitchPoint :: "uint8 \<Rightarrow> value_schedule \<Rightarrow> switch_point option" where
  "GetSwitchPoint idx s =
     (if idx \<ge> m_numSwitchPoints s then None else peek (m_switchPoints s) (unat idx))"

fun find_point :: "uint8 \<Rightarrow> uint8 \<Rightarrow> switch_point list \<Rightarrow> nat \<Rightarrow> nat option" where
  "find_point h m [] i = None"
| "find_point h m (p # ps) i =
     (if m_hours p = h then
        (if m_minutes p = m then Some i
         else if m_minutes p > m then None else find_point h m ps (i + 1))
      else if m_hours p > h then None else find_point h m ps (i + 1))"

definition FindSwitchPoint :: "uint8 \<Rightarrow> uint8 \<Rightarrow> value_schedule \<Rightarrow> nat option" where
  "FindSwitchPoint h m s = find_point h m (take (unat (m_numSwitchPoints s)) (m_switchPoints s)) 0"

definition ValueSchedule_new :: "switch_point list \<Rightarrow> value_schedule" where
  "ValueSchedule_new garbage = \<lparr>m_switchPoints = garbage, m_numSwitchPoints = 0\<rparr>"

section \<open>Lemmas\<close>

text \<open>The points in use, the time of a point, and the order of the array.\<close>

definition points :: "value_schedule \<Rightarrow> switch_point list" where
  "points s = take (unat (m_numSwitchPoints s)) (m_switchPoints s)"

definition time_of :: "switch_point \<Rightarrow> nat" where
  "time_of p = unat (m_hours p) * 256 + unat (m_minutes p)"

abbreviation hm :: "uint8 \<Rightarrow> uint8 \<Rightarrow> nat" where
  "hm h m \<equiv> unat h * 256 + unat m"

definition schedule_inv :: "value_schedule \<Rightarrow> bool" where
  "schedule_inv s \<longleftrightarrow> length (m_switchPoints s) = 9 \<and> m_numSwitchPoints s \<le> 9 \<and>
     sorted_wrt (<) (map time_of (points s))"

definition setback_at :: "value_schedule \<Rightarrow> nat \<Rightarrow> uint8 option" where
  "setback_at s = map_of (map (\<lambda>p. (time_of p, m_setback p)) (points s))"

lemma schedule_len: "schedule_inv s \<Longrightarrow> length (points s) = unat (m_numSwitchPoints s) \<and>
    unat (m_numSwitchPoints s) \<le> 9"
  by (auto simp: schedule_inv_def points_def word_le_nat_alt)

text \<open>The search on the sorted points.\<close>

lemma time_cmp:
  "(if m_hours p = h then (if m_minutes p = m then a else if m_minutes p > m then b else c)
    else if m_hours p > h then b else c)
   = (if time_of p = hm h m then a else if time_of p > hm h m then b else c)"
proof -
  have "time_of p = hm h m \<longleftrightarrow> m_hours p = h \<and> m_minutes p = m"
    by (simp add: time_of_def digits_eq word_unat_eq_iff)
  moreover have "time_of p > hm h m \<longleftrightarrow> m_hours p > h \<or> m_hours p = h \<and> m_minutes p > m"
    by (auto simp: time_of_def digits_less word_unat_eq_iff word_less_nat_alt)
  ultimately show ?thesis by auto
qed

lemma find_slot_cases:
  assumes "sorted_wrt (<) (map time_of ps)"
  obtains (found) as p bs where "ps = as @ p # bs" "time_of p = hm h m" "find_slot h m ps at = Inl (at + length as)"
  | (free) as bs where "ps = as @ bs" "\<forall>p \<in> set as. time_of p < hm h m" "\<forall>p \<in> set bs. hm h m < time_of p"
    "find_slot h m ps at = Inr (at + length as)"
  using assms
proof (induction ps arbitrary: at thesis)
  case Nil
  from Nil.prems(2) [of "[]" "[]"] show ?case by simp
next
  case (Cons p ps)
  have step: "find_slot h m (p # ps) at = (if time_of p = hm h m then Inl at
      else if time_of p > hm h m then Inr at else find_slot h m ps (at + 1))"
    by (simp only: find_slot.simps time_cmp)
  consider "time_of p = hm h m" | "time_of p > hm h m" | "time_of p < hm h m" by linarith
  then show ?case
  proof cases
    case 1
    with Cons.prems(1) [of "[]" p ps] step show ?thesis by simp
  next
    case 2
    then have "\<forall>q \<in> set (p # ps). hm h m < time_of q" using Cons.prems(3) by fastforce
    with Cons.prems(2) [of "[]" "p # ps"] step 2 show ?thesis by simp
  next
    case 3
    have srt: "sorted_wrt (<) (map time_of ps)" using Cons.prems(3) by simp
    show ?thesis
    proof (rule Cons.IH [of "at + 1", OF _ _ srt])
      fix as q bs
      assume "ps = as @ q # bs" "time_of q = hm h m" "find_slot h m ps (at + 1) = Inl (at + 1 + length as)"
      with 3 step Cons.prems(1) [of "p # as" q bs] show ?thesis by simp
    next
      fix as bs
      assume "ps = as @ bs" "\<forall>p \<in> set as. time_of p < hm h m" "\<forall>p \<in> set bs. hm h m < time_of p"
        "find_slot h m ps (at + 1) = Inr (at + 1 + length as)"
      with 3 step Cons.prems(2) [of "p # as" bs] show ?thesis by simp
    qed
  qed
qed

lemma find_point_slot: "find_point h m ps i = (case find_slot h m ps i of Inl j \<Rightarrow> Some j | Inr j \<Rightarrow> None)"
  by (induction ps arbitrary: i) auto

text \<open>The shuffling loops.\<close>

lemma shuffle_up:
  "a \<le> n \<Longrightarrow> n < length ps \<Longrightarrow>
    fold (\<lambda>i ps. ps[i := ps ! (i - 1)]) (rev [a + 1..<n + 1]) ps
      = take (a + 1) ps @ drop a (take n ps) @ drop (n + 1) ps"
proof (induction n arbitrary: ps)
  case 0
  then show ?case by (cases ps) auto
next
  case (Suc n)
  show ?case
  proof (cases "a = Suc n")
    case True
    then show ?thesis using Suc.prems by simp
  next
    case False
    let ?ps = "ps[Suc n := ps ! n]"
    have "fold (\<lambda>i ps. ps[i := ps ! (i - 1)]) (rev [a + 1..<Suc n + 1]) ps
        = fold (\<lambda>i ps. ps[i := ps ! (i - 1)]) (rev [a + 1..<n + 1]) ?ps"
      using False Suc.prems by simp
    also have "\<dots> = take (a + 1) ?ps @ drop a (take n ?ps) @ drop (n + 1) ?ps"
      using Suc.IH [of ?ps] Suc.prems False by simp
    also have "drop (n + 1) ?ps = ps ! n # drop (n + 2) ps"
      using Suc.prems by (simp add: drop_update_swap Cons_nth_drop_Suc [symmetric])
    also have "take (a + 1) ?ps = take (a + 1) ps"
      using False Suc.prems by simp
    also have "drop a (take n ?ps) = drop a (take n ps)" by simp
    also have "take (a + 1) ps @ drop a (take n ps) @ ps ! n # drop (n + 2) ps
        = take (a + 1) ps @ drop a (take (Suc n) ps) @ drop (Suc n + 1) ps"
      using Suc.prems False by (simp add: take_Suc_conv_app_nth)
    finally show ?thesis .
  qed
qed

lemma shuffle_down:
  "a < n \<Longrightarrow> n \<le> length ps \<Longrightarrow>
    fold (\<lambda>i ps. ps[i := ps ! (i + 1)]) [a..<n - 1] ps
      = take a ps @ drop (a + 1) (take n ps) @ drop (n - 1) ps"
proof (induction n)
  case (Suc n)
  show ?case
  proof (cases "a = n")
    case True
    then show ?thesis using Suc.prems by (simp add: id_take_nth_drop)
  next
    case False
    then have "[a..<Suc n - 1] = [a..<n - 1] @ [n - 1]"
      using Suc.prems upt_Suc_append [of a "n - 1"] by simp
    then have "fold (\<lambda>i ps. ps[i := ps ! (i + 1)]) [a..<Suc n - 1] ps
        = (let qs = take a ps @ drop (a + 1) (take n ps) @ drop (n - 1) ps in qs[n - 1 := qs ! n])"
      using Suc False by (simp add: Let_def)
    also have "\<dots> = take a ps @ drop (a + 1) (take (Suc n) ps) @ drop n ps"
      using Suc.prems False
      by (auto simp: Let_def list_update_append nth_append take_Suc_conv_app_nth min_def
          Cons_nth_drop_Suc [symmetric] split: nat.splits)
    finally show ?thesis by simp
  qed
qed simp

text \<open>The operations on the points in use.\<close>

lemma setback_at_append:
  assumes "sorted_wrt (<) (map time_of (as @ bs))"
    and "\<forall>p \<in> set as. time_of p < k" and "\<forall>p \<in> set bs. k < time_of p" and "time_of q = k"
  shows "map_of (map (\<lambda>p. (time_of p, m_setback p)) (as @ q # bs)) =
    (map_of (map (\<lambda>p. (time_of p, m_setback p)) (as @ bs)))(time_of q \<mapsto> m_setback q)"
proof -
  have "time_of q \<notin> dom (map_of (map (\<lambda>p. (time_of p, m_setback p)) as))"
    using assms(2,4) by (auto simp: dom_map_of_conv_image_fst)
  then show ?thesis by (simp add: map_add_upd_left)
qed

lemma SetSwitchPoint_points:
  assumes inv: "schedule_inv s"
  obtains (update) as p bs where "points s = as @ p # bs" "time_of p = hm h m"
      "fst (SetSwitchPoint h m sb s)" "points (snd (SetSwitchPoint h m sb s)) = as @ p\<lparr>m_setback := sb\<rparr> # bs"
      "m_numSwitchPoints (snd (SetSwitchPoint h m sb s)) = m_numSwitchPoints s"
      "length (m_switchPoints (snd (SetSwitchPoint h m sb s))) = 9"
  | (full) "SetSwitchPoint h m sb s = (False, s)" "length (points s) = 9" "\<forall>p \<in> set (points s). time_of p \<noteq> hm h m"
  | (add) as bs where "points s = as @ bs" "length (points s) < 9"
      "\<forall>p \<in> set as. time_of p < hm h m" "\<forall>p \<in> set bs. hm h m < time_of p"
      "fst (SetSwitchPoint h m sb s)"
      "points (snd (SetSwitchPoint h m sb s)) = as @ \<lparr>m_hours = h, m_minutes = m, m_setback = sb\<rparr> # bs"
      "m_numSwitchPoints (snd (SetSwitchPoint h m sb s)) = m_numSwitchPoints s + 1"
      "length (m_switchPoints (snd (SetSwitchPoint h m sb s))) = 9"
proof -
  let ?n = "unat (m_numSwitchPoints s)" and ?a = "m_switchPoints s"
  have len: "length ?a = 9" "?n \<le> 9" "length (points s) = ?n"
    using schedule_len [OF inv] inv by (auto simp: schedule_inv_def)
  have srt: "sorted_wrt (<) (map time_of (points s))" using inv by (simp add: schedule_inv_def)
  from srt show thesis
  proof (cases rule: find_slot_cases [where h = h and m = m and at = 0])
    case (found as p bs)
    then have i: "length as < ?n" using len by simp
    have nth: "?a ! length as = p"
      using found(1) i nth_take [OF i, of ?a] unfolding points_def by (metis nth_append_length)
    have S: "SetSwitchPoint h m sb s = (True, s\<lparr>m_switchPoints := ?a[length as := p\<lparr>m_setback := sb\<rparr>]\<rparr>)"
      using found(3) nth by (simp add: SetSwitchPoint_def points_def)
    have "points (snd (SetSwitchPoint h m sb s)) = as @ p\<lparr>m_setback := sb\<rparr> # bs"
      using found(1) by (simp add: S points_def take_update_swap)
    with found S len show thesis by (intro update) simp_all
  next
    case (free as bs)
    have ne: "\<forall>p \<in> set (points s). time_of p \<noteq> hm h m" using free by auto
    show thesis
    proof (cases "m_numSwitchPoints s \<ge> 9")
      case True
      then have "?n = 9" using len by (simp add: word_le_nat_alt)
      then show thesis using free(4) True ne len by (intro full) (simp_all add: SetSwitchPoint_def points_def)
    next
      case False
      then have n9: "?n < 9" by (simp add: word_le_nat_alt)
      have la: "length as \<le> ?n" using free(1) len by simp
      let ?new = "\<lparr>m_hours = h, m_minutes = m, m_setback = sb\<rparr>"
      let ?sh = "take (length as + 1) ?a @ drop (length as) (take ?n ?a) @ drop (?n + 1) ?a"
      have S: "SetSwitchPoint h m sb s = (True, s\<lparr>m_switchPoints := ?sh[length as := ?new],
          m_numSwitchPoints := m_numSwitchPoints s + 1\<rparr>)"
        using free(4) False shuffle_up [OF la, of ?a] len n9
        by (simp add: SetSwitchPoint_def points_def Let_def del: upt_Suc)
      have tas: "take (length as) ?a = as"
        using free(1) la unfolding points_def by (metis append_eq_conv_conj min.absorb1 take_take)
      have tbs: "drop (length as) (take ?n ?a) = bs" using free(1) by (simp add: points_def)
      have "take (length as + 1) ?a = as @ [?a ! length as]"
        using tas la len n9 by (simp add: take_Suc_conv_app_nth)
      then have "?sh[length as := ?new] = as @ ?new # bs @ drop (?n + 1) ?a"
        using tbs by simp
      moreover have u: "unat (m_numSwitchPoints s + 1) = ?n + 1"
        using n9 by (simp add: unat_word_ariths)
      moreover have "?n + 1 = length (as @ ?new # bs)" using free(1) len by simp
      ultimately have P: "points (snd (SetSwitchPoint h m sb s)) = as @ ?new # bs"
        unfolding S points_def by simp
      have "length (?sh[length as := ?new]) = 9" using la len n9 by simp
      then show thesis using P S free len n9 by (intro add) simp_all
    qed
  qed
qed

lemma SetSwitchPoint_inv:
  assumes inv: "schedule_inv s"
  shows "schedule_inv (snd (SetSwitchPoint h m sb s))"
    and "fst (SetSwitchPoint h m sb s) \<Longrightarrow>
      setback_at (snd (SetSwitchPoint h m sb s)) = (setback_at s)(hm h m \<mapsto> sb)"
    and "fst (SetSwitchPoint h m sb s) \<longleftrightarrow> length (points s) < 9 \<or> setback_at s (hm h m) \<noteq> None"
proof -
  have srt: "sorted_wrt (<) (map time_of (points s))" using inv by (simp add: schedule_inv_def)
  let ?r = "SetSwitchPoint h m sb s"
  have "schedule_inv (snd ?r) \<and> (fst ?r \<longrightarrow> setback_at (snd ?r) = (setback_at s)(hm h m \<mapsto> sb)) \<and>
    (fst ?r \<longleftrightarrow> length (points s) < 9 \<or> setback_at s (hm h m) \<noteq> None)"
    using inv
  proof (cases rule: SetSwitchPoint_points [where h = h and m = m and sb = sb])
    case (update as p bs)
    have t: "time_of (p\<lparr>m_setback := sb\<rparr>) = time_of p" by (simp add: time_of_def)
    have "time_of p \<notin> dom (map_of (map (\<lambda>p. (time_of p, m_setback p)) as))"
      using srt update(1) by (auto simp: dom_map_of_conv_image_fst sorted_wrt_append)
    then have "setback_at (snd ?r) = (setback_at s)(hm h m \<mapsto> sb)" "setback_at s (hm h m) \<noteq> None"
      using update t by (simp_all add: setback_at_def map_add_upd_left)
    moreover have "schedule_inv (snd ?r)"
      using update inv t srt by (simp add: schedule_inv_def)
    ultimately show ?thesis using update by simp
  next
    case full
    then have "setback_at s (hm h m) = None" by (auto simp: setback_at_def map_of_eq_None_iff)
    with full inv show ?thesis by simp
  next
    case (add as bs)
    have t: "time_of \<lparr>m_hours = h, m_minutes = m, m_setback = sb\<rparr> = hm h m" by (simp add: time_of_def)
    have "setback_at (snd ?r) = (setback_at s)(hm h m \<mapsto> sb)"
      using setback_at_append [OF _ add(3,4), of "\<lparr>m_hours = h, m_minutes = m, m_setback = sb\<rparr>"]
        srt add(1,6) t by (simp add: setback_at_def)
    moreover have "m_numSwitchPoints s + 1 \<le> 9"
      using add(2) schedule_len [OF inv] by (simp add: word_le_nat_alt unat_word_ariths)
    then have "schedule_inv (snd ?r)"
      using add srt t by (auto simp: schedule_inv_def sorted_wrt_append)
    ultimately show ?thesis using add by simp
  qed
  then show "schedule_inv (snd ?r)" "fst ?r \<Longrightarrow> setback_at (snd ?r) = (setback_at s)(hm h m \<mapsto> sb)"
    "fst ?r \<longleftrightarrow> length (points s) < 9 \<or> setback_at s (hm h m) \<noteq> None" by blast+
qed

lemma FindSwitchPoint_cases:
  assumes "schedule_inv s"
  shows "(case FindSwitchPoint h m s of
      None \<Rightarrow> setback_at s (hm h m) = None
    | Some i \<Rightarrow> i < length (points s) \<and> time_of (points s ! i) = hm h m \<and>
        setback_at s (hm h m) = Some (m_setback (points s ! i)))"
proof -
  have srt: "sorted_wrt (<) (map time_of (points s))" using assms by (simp add: schedule_inv_def)
  then show ?thesis
  proof (cases rule: find_slot_cases [where h = h and m = m and at = 0])
    case (found as p bs)
    have "time_of p \<notin> dom (map_of (map (\<lambda>p. (time_of p, m_setback p)) as))"
      using srt found(1) by (auto simp: dom_map_of_conv_image_fst sorted_wrt_append)
    then have "setback_at s (hm h m) = Some (m_setback p)"
      using found by (simp add: setback_at_def map_add_def domIff)
    with found show ?thesis
      by (simp add: FindSwitchPoint_def find_point_slot points_def [symmetric] nth_append)
  next
    case (free as bs)
    then have "setback_at s (hm h m) = None" by (auto simp: setback_at_def map_of_eq_None_iff)
    with free show ?thesis
      by (simp add: FindSwitchPoint_def find_point_slot points_def [symmetric])
  qed
qed

lemma RemoveSwitchPoint_points:
  assumes inv: "schedule_inv s" and i: "i < length (points s)"
  shows "fst (RemoveSwitchPoint (of_nat i) s)"
    and "points (snd (RemoveSwitchPoint (of_nat i) s)) = take i (points s) @ drop (i + 1) (points s)"
    and "schedule_inv (snd (RemoveSwitchPoint (of_nat i) s))"
proof -
  let ?n = "unat (m_numSwitchPoints s)" and ?a = "m_switchPoints s"
  have len: "length ?a = 9" "?n \<le> 9" "length (points s) = ?n"
    using schedule_len [OF inv] inv by (auto simp: schedule_inv_def)
  have ui: "unat (of_nat i :: uint8) = i" using i len by (simp add: unat_u8_of_nat)
  have lt: "\<not> of_nat i \<ge> m_numSwitchPoints s" using i len ui by (simp add: word_le_nat_alt)
  let ?sh = "take i ?a @ drop (i + 1) (take ?n ?a) @ drop (?n - 1) ?a"
  have S: "RemoveSwitchPoint (of_nat i) s = (True, s\<lparr>m_switchPoints := ?sh,
      m_numSwitchPoints := m_numSwitchPoints s - 1\<rparr>)"
    using lt shuffle_down [of i ?n ?a] i len by (simp add: RemoveSwitchPoint_def ui)
  then show "fst (RemoveSwitchPoint (of_nat i) s)" by simp
  have u: "unat (m_numSwitchPoints s - 1) = ?n - 1"
    using i len by (simp add: unat_sub word_le_nat_alt)
  have "?n - 1 = length (take i ?a @ drop (i + 1) (take ?n ?a))" using i len by simp
  then have P: "points (snd (RemoveSwitchPoint (of_nat i) s)) = take i ?a @ drop (i + 1) (take ?n ?a)"
    unfolding S points_def using u len i by simp
  then show P': "points (snd (RemoveSwitchPoint (of_nat i) s)) = take i (points s) @ drop (i + 1) (points s)"
    using i len by (simp add: points_def min_def)
  have "points s = take i (points s) @ points s ! i # drop (i + 1) (points s)"
    using i by (simp add: id_take_nth_drop)
  then have "sorted_wrt (<) (map time_of (take i (points s) @ points s ! i # drop (i + 1) (points s)))"
    using inv by (simp add: schedule_inv_def)
  then have "sorted_wrt (<) (map time_of (take i (points s) @ drop (i + 1) (points s)))"
    by (auto simp: sorted_wrt_append)
  moreover have "m_numSwitchPoints s - 1 \<le> 9" using u len by (simp add: word_le_nat_alt)
  moreover have "length ?sh = 9" using i len by simp
  ultimately show "schedule_inv (snd (RemoveSwitchPoint (of_nat i) s))"
    using P' S by (simp add: schedule_inv_def)
qed

text \<open>Removing the point at a time, as the clients do: find it, then remove it by its index.\<close>

definition remove_at :: "uint8 \<times> uint8 \<Rightarrow> value_schedule \<Rightarrow> bool \<times> value_schedule" where
  "remove_at k s = (case FindSwitchPoint (fst k) (snd k) s of
     None \<Rightarrow> (False, s) | Some i \<Rightarrow> RemoveSwitchPoint (of_nat i) s)"

definition set_at :: "uint8 \<times> uint8 \<Rightarrow> uint8 \<Rightarrow> value_schedule \<Rightarrow> bool \<times> value_schedule" where
  "set_at k sb s = SetSwitchPoint (fst k) (snd k) sb s"

definition get_at :: "value_schedule \<Rightarrow> uint8 \<times> uint8 \<Rightarrow> uint8 option" where
  "get_at s k = (case FindSwitchPoint (fst k) (snd k) s of
     None \<Rightarrow> None | Some i \<Rightarrow> map_option m_setback (GetSwitchPoint (of_nat i) s))"

lemma get_at_setback: "schedule_inv s \<Longrightarrow> get_at s (h, m) = setback_at s (hm h m)"
proof -
  assume inv: "schedule_inv s"
  note f = FindSwitchPoint_cases [OF inv, of h m]
  show ?thesis
  proof (cases "FindSwitchPoint h m s")
    case (Some i)
    then have i: "i < unat (m_numSwitchPoints s)" "setback_at s (hm h m) = Some (m_setback (points s ! i))"
      using f schedule_len [OF inv] by auto
    have "unat (of_nat i :: uint8) = i"
      using i schedule_len [OF inv] by (intro unat_u8_of_nat) simp
    then have "GetSwitchPoint (of_nat i) s = Some (points s ! i)"
      using i inv schedule_len [OF inv]
      by (simp add: GetSwitchPoint_def word_le_nat_alt peek_def schedule_inv_def points_def)
    then show ?thesis using Some i by (simp add: get_at_def)
  qed (use f in \<open>simp add: get_at_def\<close>)
qed

lemma hm_inj: "hm h m = hm h' m' \<longleftrightarrow> (h, m) = (h', m')"
  by (simp add: digits_eq word_unat_eq_iff)

interpretation sched: keyed_store get_at set_at remove_at schedule_inv
proof
  fix s s' and k :: "uint8 \<times> uint8" and v :: uint8
  assume inv: "schedule_inv s"
  obtain h m where k: "k = (h, m)" by (cases k)
  show "schedule_inv s' \<and> get_at s' = (get_at s)(k \<mapsto> v)" if "set_at k v s = (True, s')"
  proof -
    have S: "SetSwitchPoint h m v s = (True, s')" using that k by (simp add: set_at_def)
    then have inv': "schedule_inv s'" using SetSwitchPoint_inv(1) [OF inv, of h m v] by simp
    have "get_at s' (a, b) = ((get_at s)(k \<mapsto> v)) (a, b)" for a b
      using SetSwitchPoint_inv(2) [OF inv, of h m v] S get_at_setback [OF inv', of a b]
        get_at_setback [OF inv, of a b] hm_inj [of a b h m] k by (auto split: if_splits)
    then show ?thesis using inv' by (auto intro: ext)
  qed
  show "s' = s" if "set_at k v s = (False, s')"
    using SetSwitchPoint_points [OF inv, of h m v] that k
    by (auto simp: set_at_def elim: SetSwitchPoint_points [OF inv, of h m v])
next
  fix s s' :: value_schedule and k :: "uint8 \<times> uint8"
  assume inv: "schedule_inv s"
  obtain h m where k: "k = (h, m)" by (cases k)
  note f = FindSwitchPoint_cases [OF inv, of h m]
  show "fst (remove_at k s) \<longleftrightarrow> get_at s k \<noteq> None"
    using f RemoveSwitchPoint_points(1) [OF inv] get_at_setback [OF inv, of h m] k
    by (auto simp: remove_at_def split: option.splits)
  show "s' = s" if "remove_at k s = (False, s')"
    using that f RemoveSwitchPoint_points(1) [OF inv] k
    by (fastforce simp: remove_at_def split: option.splits)
  show "schedule_inv s' \<and> get_at s' = (get_at s)(k := None)" if r: "remove_at k s = (True, s')"
  proof -
    obtain i where i: "FindSwitchPoint h m s = Some i" "i < length (points s)"
        "time_of (points s ! i) = hm h m"
      and s': "s' = snd (RemoveSwitchPoint (of_nat i) s)"
      using r f k by (auto simp: remove_at_def split: option.splits)
    note R = RemoveSwitchPoint_points [OF inv i(2)]
    let ?as = "take i (points s)" and ?bs = "drop (i + 1) (points s)"
    have split: "points s = ?as @ points s ! i # ?bs" using i(2) by (simp add: id_take_nth_drop)
    then have srt: "sorted_wrt (<) (map time_of (?as @ points s ! i # ?bs))"
      using inv by (simp add: schedule_inv_def)
    have P: "points s' = ?as @ ?bs" using R(2) s' by simp
    have notin: "\<forall>p \<in> set (?as @ ?bs). time_of p \<noteq> hm h m"
      using srt i(3) by (fastforce simp: sorted_wrt_append)
    have "setback_at s = (setback_at s')(hm h m \<mapsto> m_setback (points s ! i))"
    proof -
      have "hm h m \<notin> dom (map_of (map (\<lambda>p. (time_of p, m_setback p)) ?as))"
        using notin by (auto simp: dom_map_of_conv_image_fst)
      then show ?thesis
        unfolding setback_at_def P by (subst split) (simp add: i(3) map_add_upd_left)
    qed
    moreover have "setback_at s' (hm h m) = None"
      using notin P by (auto simp: setback_at_def map_of_eq_None_iff)
    ultimately have "setback_at s' = (setback_at s)(hm h m := None)" by (auto intro!: ext)
    then have "get_at s' (a, b) = ((get_at s)(k := None)) (a, b)" for a b
      using get_at_setback [OF inv, of a b] get_at_setback [of s' a b] R(3) s' hm_inj [of a b h m] k
      by (auto split: if_splits)
    then show ?thesis using R(3) s' by (auto intro: ext)
  qed
qed

section \<open>Properties\<close>

text \<open>A schedule is a finite map from times to setbacks kept as a sorted array: after any
  history of setting and removing switch points on a new schedule the points are sorted by
  strictly ascending time, there are at most nine of them, and looking up a time answers as the map
  of the accepted operations.\<close>

theorem schedule_history:
  assumes "length garbage = 9"
    and "store_run set_at remove_at ops (ValueSchedule_new garbage) = (oks, s)"
  shows "get_at s = history_map (zip ops oks) Map.empty \<and> length (points s) \<le> 9 \<and>
    sorted_wrt (<) (map time_of (points s))"
proof -
  have inv: "schedule_inv (ValueSchedule_new garbage)"
    using assms(1) by (simp add: schedule_inv_def ValueSchedule_new_def points_def)
  have "get_at (ValueSchedule_new garbage) = Map.empty"
    by (rule ext) (simp add: get_at_def FindSwitchPoint_def ValueSchedule_new_def split: prod.splits)
  with sched.run_lookup [OF inv assms(2)] show ?thesis
    using schedule_len [of s] by (auto simp: schedule_inv_def)
qed

theorem schedule_history_witness:
  "\<exists>oks s. store_run set_at remove_at [Op_Insert (8, 30) 5, Op_Insert (6, 0) 7, Op_Remove (8, 30)]
      (ValueSchedule_new (replicate 9 \<lparr>m_hours = 0, m_minutes = 0, m_setback = 0\<rparr>)) = (oks, s) \<and>
    length (points s) \<le> 9 \<and> sorted_wrt (<) (map time_of (points s))"
proof -
  obtain oks s where r: "store_run set_at remove_at [Op_Insert (8, 30) 5, Op_Insert (6, 0) 7, Op_Remove (8, 30)]
      (ValueSchedule_new (replicate 9 \<lparr>m_hours = 0, m_minutes = 0, m_setback = 0\<rparr>)) = (oks, s)"
    by (rule prod.exhaust)
  show ?thesis using schedule_history [OF _ r] r by (intro exI [of _ oks] exI [of _ s]) simp
qed

text \<open>A new switch point is refused exactly when nine others are in use; setting the setback of
  an existing time always works.\<close>

theorem SetSwitchPoint_accepts:
  assumes "schedule_inv s"
  shows "fst (SetSwitchPoint h m sb s) \<longleftrightarrow>
    unat (m_numSwitchPoints s) < 9 \<or> FindSwitchPoint h m s \<noteq> None"
  using SetSwitchPoint_inv(3) [OF assms, of h m sb] FindSwitchPoint_cases [OF assms, of h m]
    schedule_len [OF assms]
  by (auto split: option.splits)

theorem SetSwitchPoint_accepts_witness:
  "fst (SetSwitchPoint 7 15 3 (ValueSchedule_new (replicate 9 \<lparr>m_hours = 0, m_minutes = 0, m_setback = 0\<rparr>)))"
proof -
  let ?s = "ValueSchedule_new (replicate 9 \<lparr>m_hours = 0, m_minutes = 0, m_setback = 0\<rparr>)"
  have "schedule_inv ?s" by (simp add: schedule_inv_def ValueSchedule_new_def points_def)
  from SetSwitchPoint_accepts [OF this, of 7 15 3] show ?thesis by (simp add: ValueSchedule_new_def)
qed

end
