(* ===== verification/Ordered_Map.thy ===== *)
theory Ordered_Map
  imports Prelude
begin

text \<open>
  \<open>std::map\<close> as the list of its entries in iteration order, sorted by key.  \<open>m_insert\<close> is
  \<open>m[k] = v\<close>, \<open>m_erase\<close> removes a key, lookup is \<open>map_of\<close>.
\<close>

fun m_insert :: "'k::linorder \<Rightarrow> 'v \<Rightarrow> ('k \<times> 'v) list \<Rightarrow> ('k \<times> 'v) list" where
  "m_insert k v [] = [(k, v)]"
| "m_insert k v ((k', v') # m) =
     (if k < k' then (k, v) # (k', v') # m
      else if k = k' then (k, v) # m
      else (k', v') # m_insert k v m)"

definition m_erase :: "'k \<Rightarrow> ('k \<times> 'v) list \<Rightarrow> ('k \<times> 'v) list" where
  "m_erase k m = filter (\<lambda>e. fst e \<noteq> k) m"

definition m_ordered :: "('k::linorder \<times> 'v) list \<Rightarrow> bool" where
  "m_ordered m \<longleftrightarrow> sorted_wrt (<) (map fst m)"

named_theorems map_simps "lookup in ordered maps"

lemma m_ordered_Nil [simp]: "m_ordered []"
  by (simp add: m_ordered_def)

lemma keys_m_insert [map_simps]: "fst ` set (m_insert k v m) = insert k (fst ` set m)"
  by (induction k v m rule: m_insert.induct) auto

lemma m_ordered_insert [simp]: "m_ordered m \<Longrightarrow> m_ordered (m_insert k v m)"
proof (induction k v m rule: m_insert.induct)
  case (2 k v k' v' m)
  then show ?case using keys_m_insert [of k v m] by (fastforce simp: m_ordered_def)
qed (simp add: m_ordered_def)

lemma m_ordered_erase [simp]: "m_ordered m \<Longrightarrow> m_ordered (m_erase k m)"
  unfolding m_ordered_def m_erase_def
  by (induction m) auto

lemma map_of_m_insert [map_simps]: "m_ordered m \<Longrightarrow> map_of (m_insert k v m) = (map_of m)(k \<mapsto> v)"
proof (induction k v m rule: m_insert.induct)
  case (2 k v k' v' m)
  then show ?case by (auto simp: m_ordered_def)
qed simp

lemma map_of_m_erase [map_simps]: "map_of (m_erase k m) = (map_of m)(k := None)"
  by (induction m) (auto simp: m_erase_def)

lemma keys_m_erase [map_simps]: "fst ` set (m_erase k m) = fst ` set m - {k}"
  by (auto simp: m_erase_def)

lemma m_ordered_distinct: "m_ordered m \<Longrightarrow> distinct (map fst m)"
  by (simp add: m_ordered_def strict_sorted_iff)

lemma length_keys: "m_ordered m \<Longrightarrow> length m = card (fst ` set m)"
  using m_ordered_distinct [of m] by (metis distinct_card length_map list.set_map)

lemma m_ordered_unique:
  "m_ordered m \<Longrightarrow> map fst m = sorted_list_of_set (fst ` set m)"
  by (simp add: m_ordered_def strict_sorted_iff sorted_list_of_set_sort_remdups distinct_remdups_id
      sorted_sort_id flip: set_map)

end
