(* ===== verification/Value_Store.thy ===== *)
theory Value_Store
  imports Value_Id Ordered_Map Keyed_Store
begin

text \<open>
  \<open>cpp/src/value_classes/ValueStore.cpp\<close>: the values of a node under the keys of
  \<open>GetValueStoreKey\<close>.  Values are reference-counted objects (\<open>cpp/src/platform/Ref.h\<close>) behind
  pointers, so the model has a heap from addresses to objects; dereferencing a freed address
  has no result (\<open>None\<close>).  Notifications are collected in the order they are queued.
\<close>

section \<open>Reference-counted values\<close>

record value_obj =
  vo_id :: value_id
  vo_refs :: int
  vo_verifyChanges :: bool
  vo_refreshAfterSet :: bool

type_synonym value_heap = "nat \<rightharpoonup> value_obj"

definition AddRef :: "nat \<Rightarrow> value_heap \<Rightarrow> value_heap option" where
  "AddRef a h = (case h a of None \<Rightarrow> None | Some v \<Rightarrow> Some (h(a \<mapsto> v\<lparr>vo_refs := vo_refs v + 1\<rparr>)))"

text \<open>The answer is the number of references left; at 0 the object is deleted.\<close>

definition Release :: "nat \<Rightarrow> value_heap \<Rightarrow> (int \<times> value_heap) option" where
  "Release a h = (case h a of None \<Rightarrow> None
     | Some v \<Rightarrow> if 0 \<ge> vo_refs v - 1 then Some (0, h(a := None))
                else Some (vo_refs v - 1, h(a \<mapsto> v\<lparr>vo_refs := vo_refs v - 1\<rparr>)))"

section \<open>The store\<close>

datatype store_note = Note_ValueAdded value_id | Note_ValueRemoved value_id

record value_store =
  vs_values :: "(uint32 \<times> nat) list"
  vs_heap :: value_heap
  vs_notes :: "store_note list"

text \<open>
  What \<open>AddValue\<close> asks of the rest of the program: whether the driver exists, and the
  compatibility flags of the value's command class (\<open>None\<close> when the node or the command class
  does not exist).
\<close>

record store_env =
  se_driver :: "uint32 \<Rightarrow> bool"
  se_flags :: "value_id \<Rightarrow> (bool \<times> bool) option"

definition notify :: "store_env \<Rightarrow> value_id \<Rightarrow> store_note \<Rightarrow> value_store \<Rightarrow> value_store" where
  "notify env i n s = (if se_driver env (vid_homeId i) then s\<lparr>vs_notes := vs_notes s @ [n]\<rparr> else s)"

definition apply_flags :: "(bool \<times> bool) option \<Rightarrow> value_obj \<Rightarrow> value_obj" where
  "apply_flags fl v = (case fl of None \<Rightarrow> v
     | Some (verify, noRefresh) \<Rightarrow>
         v\<lparr>vo_verifyChanges := vo_verifyChanges v \<or> verify,
           vo_refreshAfterSet := vo_refreshAfterSet v \<and> \<not> noRefresh\<rparr>)"

text \<open>\<open>None\<close> as the value is the null pointer.\<close>

definition AddValue :: "store_env \<Rightarrow> nat option \<Rightarrow> value_store \<Rightarrow> (bool \<times> value_store) option" where
  "AddValue env p s = (case p of None \<Rightarrow> Some (False, s)
     | Some a \<Rightarrow> (case vs_heap s a of None \<Rightarrow> None
       | Some v \<Rightarrow>
           let key = GetValueStoreKey (vo_id v) in
           if map_of (vs_values s) key \<noteq> None then Some (False, s)
           else
             let s1 = s\<lparr>vs_values := m_insert key a (vs_values s)\<rparr> in
             (case AddRef a (vs_heap s1) of None \<Rightarrow> None
             | Some h \<Rightarrow>
                 let flags = (if se_driver env (vid_homeId (vo_id v)) then se_flags env (vo_id v) else None);
                     s2 = s1\<lparr>vs_heap := h(a := map_option (apply_flags flags) (h a))\<rparr>
                 in Some (True, notify env (vo_id v) (Note_ValueAdded (vo_id v)) s2))))"

definition RemoveValue :: "store_env \<Rightarrow> uint32 \<Rightarrow> value_store \<Rightarrow> (bool \<times> value_store) option" where
  "RemoveValue env key s = (case map_of (vs_values s) key of None \<Rightarrow> Some (False, s)
     | Some a \<Rightarrow> (case vs_heap s a of None \<Rightarrow> None
       | Some v \<Rightarrow>
           let s1 = notify env (vo_id v) (Note_ValueRemoved (vo_id v)) s in
           (case Release a (vs_heap s1) of None \<Rightarrow> None
           | Some (_, h) \<Rightarrow> Some (True, s1\<lparr>vs_heap := h, vs_values := m_erase key (vs_values s1)\<rparr>))))"

text \<open>The loop of \<open>RemoveCommandClassValues\<close> over the entries that were there at its start.\<close>

fun remove_cc_loop :: "store_env \<Rightarrow> uint8 \<Rightarrow> (uint32 \<times> nat) list \<Rightarrow> value_store \<Rightarrow> value_store option" where
  "remove_cc_loop env cc [] s = Some s"
| "remove_cc_loop env cc ((key, a) # es) s = (case vs_heap s a of None \<Rightarrow> None
     | Some v \<Rightarrow>
         if cc = GetCommandClassId (vo_id v) then
           let s1 = notify env (vo_id v) (Note_ValueRemoved (vo_id v)) s in
           (case Release a (vs_heap s1) of None \<Rightarrow> None
           | Some (_, h) \<Rightarrow>
               remove_cc_loop env cc es (s1\<lparr>vs_heap := h, vs_values := m_erase key (vs_values s1)\<rparr>))
         else remove_cc_loop env cc es s)"

definition RemoveCommandClassValues :: "store_env \<Rightarrow> uint8 \<Rightarrow> value_store \<Rightarrow> value_store option" where
  "RemoveCommandClassValues env cc s = remove_cc_loop env cc (vs_values s) s"

definition GetValue :: "uint32 \<Rightarrow> value_store \<Rightarrow> (nat option \<times> value_store) option" where
  "GetValue key s = (case map_of (vs_values s) key of None \<Rightarrow> Some (None, s)
     | Some a \<Rightarrow> (case AddRef a (vs_heap s) of None \<Rightarrow> None
       | Some h \<Rightarrow> Some (Some a, s\<lparr>vs_heap := h\<rparr>)))"

text \<open>The destructor removes the first value until none is left.\<close>

partial_function (option) ValueStore_destroy :: "store_env \<Rightarrow> value_store \<Rightarrow> value_store option" where
  "ValueStore_destroy env s = (case vs_values s of [] \<Rightarrow> Some s
     | e # _ \<Rightarrow> (case vs_heap s (snd e) of None \<Rightarrow> None
       | Some v \<Rightarrow> do {
           (_, s') \<leftarrow> RemoveValue env (GetValueStoreKey (vo_id v)) s;
           ValueStore_destroy env s'
         }))"

definition ValueStore_new :: "value_heap \<Rightarrow> value_store" where
  "ValueStore_new h = \<lparr>vs_values = [], vs_heap = h, vs_notes = []\<rparr>"

section \<open>Invariant\<close>

text \<open>
  Every entry is a live object with a reference of the store, under its own key, and no object is
  entered twice.
\<close>

definition store_inv :: "value_store \<Rightarrow> bool" where
  "store_inv s \<longleftrightarrow> m_ordered (vs_values s) \<and> distinct (map snd (vs_values s)) \<and>
     (\<forall>(key, a) \<in> set (vs_values s).
        \<exists>v. vs_heap s a = Some v \<and> vo_refs v \<ge> 1 \<and> GetValueStoreKey (vo_id v) = key)"

lemma notify_fields [state_simps]:
  "vs_values (notify env i n s) = vs_values s" "vs_heap (notify env i n s) = vs_heap s"
  by (simp_all add: notify_def)

lemma apply_flags_fields [simp]: "vo_id (apply_flags fl v) = vo_id v" "vo_refs (apply_flags fl v) = vo_refs v"
  by (simp_all add: apply_flags_def split: option.splits prod.splits)

lemma store_invD:
  assumes "store_inv s" and "map_of (vs_values s) key = Some a"
  obtains v where "vs_heap s a = Some v" and "vo_refs v \<ge> 1" and "GetValueStoreKey (vo_id v) = key"
  using assms by (auto simp: store_inv_def dest!: map_of_SomeD)

lemma set_m_insert:
  "m_ordered m \<Longrightarrow> map_of m k = None \<Longrightarrow> set (m_insert k v m) = insert (k, v) (set m)"
  by (induction k v m rule: m_insert.induct) (auto simp: m_ordered_def split: if_splits)

lemma snds_m_insert:
  "m_ordered m \<Longrightarrow> map_of m k = None \<Longrightarrow> distinct (map snd (m_insert k v m)) \<longleftrightarrow>
    distinct (map snd m) \<and> v \<notin> snd ` set m"
proof (induction k v m rule: m_insert.induct)
  case (2 k v k' v' m)
  then show ?case by (auto simp: m_ordered_def set_m_insert split: if_splits)
qed simp

text \<open>Adding an object whose key is free keeps the invariant.\<close>

lemma AddValue_ok:
  assumes "store_inv s" and "vs_heap s a = Some v" and "vo_refs v \<ge> 0"
    and "map_of (vs_values s) (GetValueStoreKey (vo_id v)) = None"
  obtains s' where "AddValue env (Some a) s = Some (True, s')"
    and "vs_values s' = m_insert (GetValueStoreKey (vo_id v)) a (vs_values s)" and "store_inv s'"
proof -
  let ?fl = "if se_driver env (vid_homeId (vo_id v)) then se_flags env (vo_id v) else None"
  let ?v = "apply_flags ?fl (v\<lparr>vo_refs := vo_refs v + 1\<rparr>)"
  let ?s = "notify env (vo_id v) (Note_ValueAdded (vo_id v))
      (s\<lparr>vs_values := m_insert (GetValueStoreKey (vo_id v)) a (vs_values s), vs_heap := (vs_heap s)(a \<mapsto> ?v)\<rparr>)"
  have "AddValue env (Some a) s = Some (True, ?s)"
    using assms by (simp add: AddValue_def AddRef_def Let_def)
  moreover have "a \<notin> snd ` set (vs_values s)"
  proof
    assume "a \<in> snd ` set (vs_values s)"
    then obtain k where "(k, a) \<in> set (vs_values s)" by auto
    moreover from this have "k = GetValueStoreKey (vo_id v)" using assms by (auto simp: store_inv_def)
    ultimately show False using assms(4) by (force simp: map_of_eq_None_iff)
  qed
  then have "store_inv ?s"
    using assms by (auto simp: store_inv_def state_simps set_m_insert snds_m_insert)
  ultimately show thesis using that by (simp add: state_simps)
qed

lemma m_erase_member: "(k, a) \<in> set (m_erase key m) \<longleftrightarrow> (k, a) \<in> set m \<and> k \<noteq> key"
  by (auto simp: m_erase_def)

lemma distinct_snd_erase: "distinct (map snd m) \<Longrightarrow> distinct (map snd (m_erase k m))"
  by (simp add: m_erase_def distinct_map_filter)

lemma m_erase_snd:
  "distinct (map snd m) \<Longrightarrow> (key, a) \<in> set m \<Longrightarrow> (k, a) \<notin> set (m_erase key m)"
  by (auto simp: m_erase_member) (metis distinct_map inj_on_contraD snd_conv prod.inject)

text \<open>Releasing an entry and erasing it keeps the invariant.\<close>

lemma release_entry:
  assumes "store_inv s" and "(key, a) \<in> set (vs_values s)"
  obtains r h v where "vs_heap s a = Some v" and "GetValueStoreKey (vo_id v) = key"
    and "Release a (vs_heap s) = Some (r, h)"
    and "store_inv (s\<lparr>vs_heap := h, vs_values := m_erase key (vs_values s)\<rparr>)"
    and "\<And>b. b \<noteq> a \<Longrightarrow> h b = vs_heap s b"
proof -
  obtain v where v: "vs_heap s a = Some v" "vo_refs v \<ge> 1" "GetValueStoreKey (vo_id v) = key"
    using assms by (auto simp: store_inv_def)
  obtain r h where r: "Release a (vs_heap s) = Some (r, h)"
    using v by (cases "0 \<ge> vo_refs v - 1") (auto simp: Release_def)
  have other: "h b = vs_heap s b" if "b \<noteq> a" for b
    using r v that by (auto simp: Release_def split: if_splits)
  have "a \<noteq> b" if "(k, b) \<in> set (m_erase key (vs_values s))" for k b
    using that m_erase_snd [of "vs_values s" key a k] assms by (auto simp: store_inv_def)
  then have "h b = vs_heap s b" if "(k, b) \<in> set (m_erase key (vs_values s))" for k b
    using that other [of b] by blast
  then have "store_inv (s\<lparr>vs_heap := h, vs_values := m_erase key (vs_values s)\<rparr>)"
    using assms(1) by (fastforce simp: store_inv_def m_erase_member distinct_snd_erase)
  with that v r other show thesis by blast
qed

lemma RemoveValue_cases:
  assumes "store_inv s"
  shows "\<exists>ok s'. RemoveValue env key s = Some (ok, s') \<and> (ok \<longleftrightarrow> map_of (vs_values s) key \<noteq> None) \<and>
    store_inv s' \<and> (if ok then vs_values s' = m_erase key (vs_values s) else s' = s)"
proof (cases "map_of (vs_values s) key")
  case None
  with assms show ?thesis by (intro exI [of _ False]) (simp add: RemoveValue_def)
next
  case (Some a)
  then have "(key, a) \<in> set (vs_values s)" by (rule map_of_SomeD)
  with assms obtain r h v where r: "vs_heap s a = Some v" "Release a (vs_heap s) = Some (r, h)"
    and i: "store_inv (s\<lparr>vs_heap := h, vs_values := m_erase key (vs_values s)\<rparr>)"
    by (rule release_entry)
  have "RemoveValue env key s = Some (True, (notify env (vo_id v) (Note_ValueRemoved (vo_id v)) s)
      \<lparr>vs_heap := h, vs_values := m_erase key (vs_values s)\<rparr>)"
    using Some r by (simp add: RemoveValue_def Let_def state_simps)
  moreover have "store_inv ((notify env (vo_id v) (Note_ValueRemoved (vo_id v)) s)
      \<lparr>vs_heap := h, vs_values := m_erase key (vs_values s)\<rparr>)"
    using i by (simp add: store_inv_def)
  ultimately show ?thesis using Some by (intro exI [of _ True]) auto
qed

section \<open>The store as a keyed store\<close>

definition store_get :: "value_store \<Rightarrow> uint32 \<Rightarrow> nat option" where
  "store_get s key = map_of (vs_values s) key"

text \<open>Entering a live object under its own key.\<close>

definition store_put :: "store_env \<Rightarrow> uint32 \<Rightarrow> nat \<Rightarrow> value_store \<Rightarrow> bool \<times> value_store" where
  "store_put env key a s = (case vs_heap s a of
     Some v \<Rightarrow> if GetValueStoreKey (vo_id v) = key \<and> vo_refs v \<ge> 0
               then (case AddValue env (Some a) s of Some r \<Rightarrow> r | None \<Rightarrow> (False, s)) else (False, s)
   | None \<Rightarrow> (False, s))"

definition store_del :: "store_env \<Rightarrow> uint32 \<Rightarrow> value_store \<Rightarrow> bool \<times> value_store" where
  "store_del env key s = (case RemoveValue env key s of Some r \<Rightarrow> r | None \<Rightarrow> (False, s))"

lemma AddValue_taken:
  "vs_heap s a = Some v \<Longrightarrow> map_of (vs_values s) (GetValueStoreKey (vo_id v)) \<noteq> None \<Longrightarrow>
    AddValue env (Some a) s = Some (False, s)"
  by (auto simp: AddValue_def Let_def)

lemma store_put_cases:
  assumes "store_inv s" and "store_put env key a s = (ok, s')"
  shows "if ok then store_inv s' \<and> vs_values s' = m_insert key a (vs_values s) else s' = s"
proof (cases "vs_heap s a")
  case (Some v)
  show ?thesis
  proof (cases "GetValueStoreKey (vo_id v) = key \<and> vo_refs v \<ge> 0")
    case True
    show ?thesis
    proof (cases "map_of (vs_values s) key")
      case None
      with True obtain t where "AddValue env (Some a) s = Some (True, t)"
        "vs_values t = m_insert (GetValueStoreKey (vo_id v)) a (vs_values s)" "store_inv t"
        by (auto intro: AddValue_ok [OF assms(1) Some, of env])
      with assms(2) True Some show ?thesis by (auto simp: store_put_def)
    qed (use assms(2) AddValue_taken [OF Some, of env] True Some in \<open>auto simp: store_put_def\<close>)
  qed (use assms(2) Some in \<open>auto simp: store_put_def\<close>)
qed (use assms(2) in \<open>auto simp: store_put_def\<close>)

interpretation vstore: keyed_store store_get "store_put env" "store_del env" store_inv for env
proof
  fix s s' key a
  assume inv: "store_inv s"
  have ord: "m_ordered (vs_values s)" using inv by (simp add: store_inv_def)
  show "store_inv s' \<and> store_get s' = (store_get s)(key \<mapsto> a)" if "store_put env key a s = (True, s')"
    using store_put_cases [OF inv that] map_of_m_insert [OF ord, of key a]
    by (auto simp: store_get_def fun_eq_iff)
  show "s' = s" if "store_put env key a s = (False, s')"
    using store_put_cases [OF inv that] by simp
next
  fix s s' key
  assume inv: "store_inv s"
  obtain ok t where t: "RemoveValue env key s = Some (ok, t)" "ok \<longleftrightarrow> map_of (vs_values s) key \<noteq> None"
    "store_inv t" "if ok then vs_values t = m_erase key (vs_values s) else t = s"
    using RemoveValue_cases [OF inv, of env key] by blast
  show "store_inv s' \<and> store_get s' = (store_get s)(key := None)" if "store_del env key s = (True, s')"
    using that t by (auto simp: store_del_def store_get_def map_of_m_erase fun_eq_iff)
  show "s' = s" if "store_del env key s = (False, s')"
    using that t by (auto simp: store_del_def)
  show "fst (store_del env key s) \<longleftrightarrow> store_get s key \<noteq> None"
    using t by (auto simp: store_del_def store_get_def)
qed

section \<open>Properties\<close>


definition obj_at :: "uint8 \<Rightarrow> uint8 \<Rightarrow> value_obj" where
  "obj_at cc idx = \<lparr>vo_id = ValueID_new 1 5 Genre_User cc 1 (ucast idx) Type_Byte, vo_refs = 1,
     vo_verifyChanges = False, vo_refreshAfterSet = True\<rparr>"


text \<open>\<open>GetValue\<close> returns a live object whose identifier has the requested key and takes one more
  reference to it, so the caller's \<open>Release\<close> leaves the store's own reference in place.\<close>

theorem GetValue_reference:
  assumes "store_inv s"
  shows "case store_get s key of
      None \<Rightarrow> GetValue key s = Some (None, s)
    | Some a \<Rightarrow> (\<exists>s' v. GetValue key s = Some (Some a, s') \<and> store_inv s' \<and>
        vs_heap s a = Some v \<and> GetValueStoreKey (vo_id v) = key \<and>
        Release a (vs_heap s') = Some (vo_refs v, vs_heap s))"
proof (cases "store_get s key")
  case None
  then show ?thesis by (simp add: GetValue_def store_get_def)
next
  case (Some a)
  with assms obtain v where v: "vs_heap s a = Some v" "vo_refs v \<ge> 1" "GetValueStoreKey (vo_id v) = key"
    by (auto simp: store_get_def elim: store_invD)
  let ?h = "(vs_heap s)(a \<mapsto> v\<lparr>vo_refs := vo_refs v + 1\<rparr>)"
  have "GetValue key s = Some (Some a, s\<lparr>vs_heap := ?h\<rparr>)"
    using Some v by (simp add: GetValue_def AddRef_def store_get_def)
  moreover have "store_inv (s\<lparr>vs_heap := ?h\<rparr>)"
    using assms v by (fastforce simp: store_inv_def)
  moreover have "Release a ?h = Some (vo_refs v, vs_heap s)"
    using v by (auto simp: Release_def fun_eq_iff)
  ultimately show ?thesis using Some v by auto
qed

theorem GetValue_reference_witness:
  "\<exists>s'. GetValue (GetValueStoreKey (vo_id (obj_at 0x25 0)))
      \<lparr>vs_values = [(GetValueStoreKey (vo_id (obj_at 0x25 0)), 3)], vs_heap = [3 \<mapsto> obj_at 0x25 0], vs_notes = []\<rparr>
    = Some (Some 3, s') \<and> store_inv s'"
proof -
  let ?s = "\<lparr>vs_values = [(GetValueStoreKey (vo_id (obj_at 0x25 0)), 3)], vs_heap = [3 \<mapsto> obj_at 0x25 0], vs_notes = []\<rparr>"
  have "store_inv ?s" by (simp add: store_inv_def m_ordered_def obj_at_def)
  from GetValue_reference [OF this, of "GetValueStoreKey (vo_id (obj_at 0x25 0))"]
  show ?thesis by (auto simp: store_get_def)
qed

section \<open>Removing a command class\<close>

lemma m_erase_append:
  "m_ordered (xs @ (k, a) # ys) \<Longrightarrow> m_erase k (xs @ (k, a) # ys) = xs @ ys"
proof -
  assume "m_ordered (xs @ (k, a) # ys)"
  then have "\<forall>e \<in> set xs. fst e \<noteq> k" "\<forall>e \<in> set ys. fst e \<noteq> k"
    by (fastforce simp: m_ordered_def sorted_wrt_append)+
  then show ?thesis by (simp add: m_erase_def filter_True)
qed

definition cc_of :: "value_store \<Rightarrow> nat \<Rightarrow> uint8 option" where
  "cc_of s a = map_option (\<lambda>v. GetCommandClassId (vo_id v)) (vs_heap s a)"

lemma remove_cc_loop_spec:
  assumes "store_inv s" and "vs_values s = done @ es"
  shows "\<exists>s'. remove_cc_loop env cc es s = Some s' \<and> store_inv s' \<and>
    vs_values s' = done @ filter (\<lambda>(k, a). cc_of s a \<noteq> Some cc) es \<and>
    (\<forall>(k, a) \<in> set (vs_values s'). vs_heap s' a = vs_heap s a)"
  using assms
proof (induction es arbitrary: s "done")
  case Nil
  then show ?case by auto
next
  case (Cons e es)
  obtain k a where e: "e = (k, a)" by (cases e)
  have mem: "(k, a) \<in> set (vs_values s)" using Cons.prems e by simp
  with Cons.prems(1) obtain r h v where v: "vs_heap s a = Some v" and "GetValueStoreKey (vo_id v) = k"
    and r: "Release a (vs_heap s) = Some (r, h)"
    and i: "store_inv (s\<lparr>vs_heap := h, vs_values := m_erase k (vs_values s)\<rparr>)"
    and o: "\<And>b. b \<noteq> a \<Longrightarrow> h b = vs_heap s b"
    by (rule release_entry) blast
  show ?case
  proof (cases "cc = GetCommandClassId (vo_id v)")
    case False
    from Cons.IH [of s "done @ [(k, a)]"] Cons.prems e obtain s' where
      "remove_cc_loop env cc es s = Some s'" "store_inv s'"
      "vs_values s' = (done @ [(k, a)]) @ filter (\<lambda>(k, a). cc_of s a \<noteq> Some cc) es"
      "\<forall>(k, a) \<in> set (vs_values s'). vs_heap s' a = vs_heap s a" by auto
    then show ?thesis using False v e by (auto simp: cc_of_def)
  next
    case True
    let ?s = "(notify env (vo_id v) (Note_ValueRemoved (vo_id v)) s)
        \<lparr>vs_heap := h, vs_values := m_erase k (vs_values s)\<rparr>"
    have inv: "store_inv ?s" using i by (simp add: store_inv_def)
    have erased: "m_erase k (vs_values s) = done @ es"
      using m_erase_append [of "done" k a es] Cons.prems e by (simp add: store_inv_def)
    have notin: "a \<notin> snd ` set (done @ es)"
      using Cons.prems e by (auto simp: store_inv_def)
    from Cons.IH [of ?s "done"] inv erased obtain s' where s':
      "remove_cc_loop env cc es ?s = Some s'" "store_inv s'"
      "vs_values s' = done @ filter (\<lambda>(k, a). cc_of ?s a \<noteq> Some cc) es"
      "\<forall>(k, a) \<in> set (vs_values s'). vs_heap s' a = h a" by auto
    have same: "cc_of ?s b = cc_of s b" if "(j, b) \<in> set es" for j b
      using o [of b] that notin by (force simp: cc_of_def)
    then have fl: "filter (\<lambda>(k, a). cc_of ?s a \<noteq> Some cc) es = filter (\<lambda>(k, a). cc_of s a \<noteq> Some cc) es"
      by (intro filter_cong) auto
    have keep: "h b = vs_heap s b" if "(j, b) \<in> set (vs_values s')" for j b
      using that s'(3) notin by (intro o) force
    have "remove_cc_loop env cc (e # es) s = Some s'"
      using True v r e s'(1) by (simp add: Let_def state_simps)
    moreover have "vs_values s' = done @ filter (\<lambda>(k, a). cc_of s a \<noteq> Some cc) (e # es)"
      unfolding s'(3) fl using True v e by (simp add: cc_of_def)
    moreover have "\<forall>(k, a) \<in> set (vs_values s'). vs_heap s' a = vs_heap s a"
      using s'(4) keep by fastforce
    ultimately show ?thesis using s'(2) by blast
  qed
qed

text \<open>Removing a command class removes exactly its values, keeps the other entries with their
  objects unchanged, and the walk over the map never meets a freed object.\<close>

theorem RemoveCommandClassValues_exact:
  assumes "store_inv s"
  shows "\<exists>s'. RemoveCommandClassValues env cc s = Some s' \<and> store_inv s' \<and>
    vs_values s' = filter (\<lambda>(k, a). cc_of s a \<noteq> Some cc) (vs_values s) \<and>
    (\<forall>(k, a) \<in> set (vs_values s'). vs_heap s' a = vs_heap s a)"
  using remove_cc_loop_spec [OF assms, of "[]" "vs_values s" env cc]
  by (simp add: RemoveCommandClassValues_def)

theorem RemoveCommandClassValues_exact_witness:
  "\<exists>s'. RemoveCommandClassValues \<lparr>se_driver = (\<lambda>_. True), se_flags = (\<lambda>_. None)\<rparr> 0x25
      \<lparr>vs_values = [(GetValueStoreKey (vo_id (obj_at 0x25 0)), 3)], vs_heap = [3 \<mapsto> obj_at 0x25 0], vs_notes = []\<rparr>
    = Some s' \<and> vs_values s' = []"
proof -
  let ?s = "\<lparr>vs_values = [(GetValueStoreKey (vo_id (obj_at 0x25 0)), 3)], vs_heap = [3 \<mapsto> obj_at 0x25 0], vs_notes = []\<rparr>"
  have "store_inv ?s" by (simp add: store_inv_def m_ordered_def obj_at_def)
  moreover have "cc_of ?s 3 = Some 0x25" by (simp add: cc_of_def obj_at_def ValueID_getters)
  ultimately show ?thesis
    using RemoveCommandClassValues_exact [of ?s "\<lparr>se_driver = (\<lambda>_. True), se_flags = (\<lambda>_. None)\<rparr>" "0x25"]
    by auto
qed

text \<open>The destructor ends, with every entry removed, and never touches a freed value.\<close>

theorem ValueStore_destroy_ends:
  assumes "store_inv s"
  shows "\<exists>s'. ValueStore_destroy env s = Some s' \<and> vs_values s' = []"
  using assms
proof (induction "length (vs_values s)" arbitrary: s)
  case 0
  then show ?case by (subst ValueStore_destroy.simps) simp
next
  case (Suc n)
  then obtain k a es where e: "vs_values s = (k, a) # es" by (cases "vs_values s") auto
  then obtain v where v: "vs_heap s a = Some v" "GetValueStoreKey (vo_id v) = k"
    using Suc.prems by (auto simp: store_inv_def)
  obtain s' where s': "RemoveValue env k s = Some (True, s')" "store_inv s'" "vs_values s' = m_erase k (vs_values s)"
    using RemoveValue_cases [OF Suc.prems, of env k] e by auto
  have "vs_values s' = es"
    using m_erase_append [of "[]" k a es] s'(3) e Suc.prems by (simp add: store_inv_def)
  with Suc(2) e have "n = length (vs_values s')" by simp
  from Suc(1) [OF this s'(2)] show ?case
    using e v s'(1) by (subst ValueStore_destroy.simps) simp
qed

theorem ValueStore_destroy_ends_witness:
  "\<exists>s'. ValueStore_destroy \<lparr>se_driver = (\<lambda>_. True), se_flags = (\<lambda>_. None)\<rparr> (ValueStore_new Map.empty) = Some s' \<and>
    vs_values s' = []"
  by (rule ValueStore_destroy_ends) (simp add: store_inv_def ValueStore_new_def)

end
