(* ===== verification/Node_Queries.thy ===== *)
theory Node_Queries
  imports Prelude
begin

text \<open>
  The interview of a node: \<open>Node::AdvanceQueries\<close> and the functions that move the query stage
  (\<open>cpp/src/Node.cpp\<close>, \<open>cpp/src/Node.h\<close>).  One definition per stage of the switch; the loop is
  \<open>advance_loop\<close>.  What the stages ask of the command classes and of the driver, and what those
  answer, is the record \<open>query_env\<close>; what they do is a list of events in order.
\<close>

section \<open>Stages\<close>

datatype query_stage =
  St_None | St_ProtocolInfo | St_Probe | St_WakeUp | St_NodeInfo | St_NodePlusInfo
  | St_SecurityReport | St_Versions | St_ManufacturerSpecific1 | St_Instances
  | St_ManufacturerSpecific2 | St_Static | St_CacheLoad | St_Associations | St_Neighbors
  | St_Session | St_Dynamic | St_Configuration | St_Complete

definition all_stages :: "query_stage list" where
  "all_stages = [St_None, St_ProtocolInfo, St_Probe, St_WakeUp, St_NodeInfo, St_NodePlusInfo,
     St_SecurityReport, St_Versions, St_ManufacturerSpecific1, St_Instances,
     St_ManufacturerSpecific2, St_Static, St_CacheLoad, St_Associations, St_Neighbors,
     St_Session, St_Dynamic, St_Configuration, St_Complete]"

fun stage_num :: "query_stage \<Rightarrow> nat" where
  "stage_num St_None = 0"
| "stage_num St_ProtocolInfo = 1"
| "stage_num St_Probe = 2"
| "stage_num St_WakeUp = 3"
| "stage_num St_NodeInfo = 4"
| "stage_num St_NodePlusInfo = 5"
| "stage_num St_SecurityReport = 6"
| "stage_num St_Versions = 7"
| "stage_num St_ManufacturerSpecific1 = 8"
| "stage_num St_Instances = 9"
| "stage_num St_ManufacturerSpecific2 = 10"
| "stage_num St_Static = 11"
| "stage_num St_CacheLoad = 12"
| "stage_num St_Associations = 13"
| "stage_num St_Neighbors = 14"
| "stage_num St_Session = 15"
| "stage_num St_Dynamic = 16"
| "stage_num St_Configuration = 17"
| "stage_num St_Complete = 18"

text \<open>\<open>(QueryStage) ((uint32) stage + 1)\<close>; past \<open>Complete\<close> the number is no enumerator.\<close>

definition stage_succ :: "query_stage \<Rightarrow> query_stage option" where
  "stage_succ s = peek all_stages (stage_num s + 1)"

definition c_queryStageNames :: "string list" where
  "c_queryStageNames = [''None'', ''ProtocolInfo'', ''Probe'', ''WakeUp'', ''NodeInfo'', ''NodePlusInfo'',
     ''SecurityReport'', ''Versions'', ''ManufacturerSpecific1'', ''Instances'', ''ManufacturerSpecific2'',
     ''Static'', ''CacheLoad'', ''Associations'', ''Neighbors'', ''Session'', ''Dynamic'',
     ''Configuration'', ''Complete'']"

definition GetQueryStageName :: "query_stage \<Rightarrow> string" where
  "GetQueryStageName s = c_queryStageNames ! stage_num s"

lemma stage_num_inj [simp]: "stage_num a = stage_num b \<longleftrightarrow> a = b"
  by (cases a; cases b) simp_all

lemma stage_num_le: "stage_num s \<le> 18"
  by (cases s) simp_all

text \<open>The comparisons \<open>(int) a < (int) b\<close>.\<close>

instantiation query_stage :: linorder
begin

definition less_query_stage :: "query_stage \<Rightarrow> query_stage \<Rightarrow> bool" where
  "less_query_stage a b \<longleftrightarrow> stage_num a < stage_num b"

definition less_eq_query_stage :: "query_stage \<Rightarrow> query_stage \<Rightarrow> bool" where
  "less_eq_query_stage a b \<longleftrightarrow> stage_num a \<le> stage_num b"

instance
  by standard (auto simp: less_query_stage_def less_eq_query_stage_def)

end

section \<open>State, environment and events\<close>

record node_query =
  m_queryStage :: query_stage
  m_queryPending :: bool
  m_queryRetries :: uint8
  m_nodeAlive :: bool
  m_queryConfiguration :: bool

text \<open>
  Lists have one entry per command class, in the order of \<open>m_commandClassMap\<close>.
  \<open>qe_versions\<close>: maximal and current version, and the answer of \<open>RequestCommandClassVersion\<close>;
  \<open>qe_static\<close>: \<open>IsAfterMark\<close> and the answer of \<open>RequestStateForAllInstances\<close>, for the flag that
  is passed; \<open>qe_session\<close> and \<open>qe_dynamic\<close> alike.
\<close>

record query_env =
  qe_isThisController :: bool
  qe_protocolInfoReceived :: bool
  qe_hasWakeUp :: bool
  qe_isController :: bool
  qe_frequentListening :: bool
  qe_nodeInfoReceived :: bool
  qe_nodeInfoSupported :: bool
  qe_plusInfo :: "bool option"
  qe_hasSecurity :: bool
  qe_versions :: "(uint8 \<times> uint8 \<times> bool) list"
  qe_manufacturer :: "bool option"
  qe_multiInstance :: "(bool \<times> bool) option"
  qe_manufacturerReceived :: bool
  qe_manufacturerState :: bool
  qe_static :: "(bool \<times> bool) list"
  qe_hasMultiChannelAssociation :: bool
  qe_hasAssociation :: bool
  qe_session :: "(bool \<times> bool) list"
  qe_dynamic :: "(bool \<times> bool) list"
  qe_config :: bool

datatype query_event =
  QE_RequestProtocolInfo
| QE_NoOperation
| QE_WakeUpInit
| QE_RequestNodeInfo
| QE_RequestPlusInfo
| QE_SecurityInit
| QE_AddVersionClass
| QE_RequestVersion nat
| QE_SetVersion1 nat
| QE_LoadControllerConfig
| QE_ManufacturerInit
| QE_RequestInstances
| QE_NoteEssentialComplete
| QE_ManufacturerState
| QE_CreateVars nat
| QE_RequestStatic nat bool
| QE_MultiChannelGroups
| QE_AssociationGroups
| QE_RequestNeighbors
| QE_RequestSession nat
| QE_RequestDynamic nat
| QE_RequestConfig
| QE_ClearAddingNode
| QE_NoteQueriesComplete
| QE_SendPending
| QE_CheckCompleted
| QE_StageComplete query_stage

text \<open>What one case of the switch leaves: the node, \<open>addQSC\<close>, and its events.\<close>

type_synonym stage_result = "node_query \<times> bool \<times> query_event list"

section \<open>The stages\<close>

definition go :: "query_stage \<Rightarrow> node_query \<Rightarrow> node_query" where
  "go s n = n\<lparr>m_queryStage := s, m_queryRetries := 0\<rparr>"

definition stage_None :: "node_query \<Rightarrow> bool \<Rightarrow> stage_result" where
  "stage_None n qsc = (go St_ProtocolInfo n, qsc, [])"

definition stage_ProtocolInfo :: "query_env \<Rightarrow> node_query \<Rightarrow> bool \<Rightarrow> stage_result" where
  "stage_ProtocolInfo e n qsc =
     (if \<not> qe_protocolInfoReceived e then (n\<lparr>m_queryPending := True\<rparr>, True, [QE_RequestProtocolInfo])
      else (go St_Probe n, qsc, []))"

definition stage_Probe :: "query_env \<Rightarrow> node_query \<Rightarrow> bool \<Rightarrow> stage_result" where
  "stage_Probe e n qsc =
     (if \<not> qe_isThisController e then (n\<lparr>m_queryPending := True\<rparr>, True, [QE_NoOperation])
      else (go St_WakeUp n, qsc, []))"

definition stage_WakeUp :: "query_env \<Rightarrow> node_query \<Rightarrow> bool \<Rightarrow> stage_result" where
  "stage_WakeUp e n qsc =
     (if qe_hasWakeUp e \<and> \<not> qe_isController e \<and> \<not> qe_frequentListening e
      then (n\<lparr>m_queryPending := True\<rparr>, True, [QE_WakeUpInit])
      else (go St_NodeInfo n, qsc, []))"

definition stage_NodeInfo :: "query_env \<Rightarrow> node_query \<Rightarrow> bool \<Rightarrow> stage_result" where
  "stage_NodeInfo e n qsc =
     (if \<not> qe_nodeInfoReceived e \<and> qe_nodeInfoSupported e \<and> \<not> qe_isThisController e
      then (n\<lparr>m_queryPending := True\<rparr>, True, [QE_RequestNodeInfo])
      else (go St_NodePlusInfo n, qsc, []))"

definition stage_NodePlusInfo :: "query_env \<Rightarrow> node_query \<Rightarrow> bool \<Rightarrow> stage_result" where
  "stage_NodePlusInfo e n qsc =
     (let (n1, ev) = (case qe_plusInfo e of None \<Rightarrow> (n, [])
                      | Some r \<Rightarrow> (n\<lparr>m_queryPending := r\<rparr>, [QE_RequestPlusInfo]))
      in if m_queryPending n1 then (n1, m_queryPending n1, ev)
         else (go St_SecurityReport n1, qsc, ev))"

text \<open>\<open>Security::Init\<close> always answers \<open>true\<close>.\<close>

definition stage_SecurityReport :: "query_env \<Rightarrow> node_query \<Rightarrow> bool \<Rightarrow> stage_result" where
  "stage_SecurityReport e n qsc =
     (if qe_hasSecurity e then (n\<lparr>m_queryPending := True\<rparr>, True, [QE_SecurityInit])
      else (go St_Versions n, qsc, []))"

fun versions_loop :: "(uint8 \<times> uint8 \<times> bool) list \<Rightarrow> nat \<Rightarrow> bool \<Rightarrow> bool \<times> query_event list" where
  "versions_loop [] i pending = (pending, [])"
| "versions_loop ((maxv, v, r) # cs) i pending =
     (if maxv > 1 \<and> v = 0 then
        (let (p, ev) = versions_loop cs (i + 1) (pending \<or> r) in (p, QE_RequestVersion i # ev))
      else if v = 0 then
        (let (p, ev) = versions_loop cs (i + 1) pending in (p, QE_SetVersion1 i # ev))
      else versions_loop cs (i + 1) pending)"

definition stage_Versions :: "query_env \<Rightarrow> node_query \<Rightarrow> bool \<Rightarrow> stage_result" where
  "stage_Versions e n qsc =
     (if qe_isThisController e then (go St_ManufacturerSpecific1 n, qsc, [])
      else let (p, ev) = versions_loop (qe_versions e) 0 (m_queryPending n);
               n1 = n\<lparr>m_queryPending := p\<rparr>
           in if \<not> m_queryPending n1 then (go St_ManufacturerSpecific1 n1, p, ev) else (n1, p, ev))"

definition stage_ManufacturerSpecific1 :: "query_env \<Rightarrow> node_query \<Rightarrow> bool \<Rightarrow> stage_result" where
  "stage_ManufacturerSpecific1 e n qsc =
     (if qe_isThisController e then
        (go St_Instances n, qsc, if qe_manufacturer e \<noteq> None then [QE_LoadControllerConfig] else [])
      else
        let (n1, qsc1, ev) = (case qe_manufacturer e of None \<Rightarrow> (n, qsc, [])
                              | Some r \<Rightarrow> (n\<lparr>m_queryPending := r\<rparr>, r, [QE_ManufacturerInit]))
        in if \<not> m_queryPending n1 then (go St_Instances n1, qsc1, ev) else (n1, qsc1, ev))"

definition stage_Instances :: "query_env \<Rightarrow> node_query \<Rightarrow> bool \<Rightarrow> stage_result" where
  "stage_Instances e n qsc =
     (let (n1, qsc1, ev) = (case qe_multiInstance e of None \<Rightarrow> (n, qsc, [])
                            | Some (afterMark, r) \<Rightarrow>
                                if afterMark then (n, qsc, [])
                                else (n\<lparr>m_queryPending := r\<rparr>, r, [QE_RequestInstances]))
      in if \<not> m_queryPending n1
         then (go St_ManufacturerSpecific2 n1, qsc1, ev @ [QE_NoteEssentialComplete])
         else (n1, qsc1, ev))"

definition stage_ManufacturerSpecific2 :: "query_env \<Rightarrow> node_query \<Rightarrow> bool \<Rightarrow> stage_result" where
  "stage_ManufacturerSpecific2 e n qsc =
     (if \<not> qe_manufacturerReceived e then
        let (n1, qsc1, ev) =
              (if qe_manufacturer e \<noteq> None \<and> \<not> qe_isThisController e
               then (n\<lparr>m_queryPending := qe_manufacturerState e\<rparr>, qe_manufacturerState e, [QE_ManufacturerState])
               else (n, qsc, []))
        in if \<not> m_queryPending n1 then (go St_Static n1, qsc1, ev) else (n1, qsc1, ev)
      else (go St_Static n, qsc, []))"

fun static_loop :: "bool \<Rightarrow> (bool \<times> bool) list \<Rightarrow> nat \<Rightarrow> bool \<Rightarrow> bool \<times> query_event list" where
  "static_loop isController [] i pending = (pending, [])"
| "static_loop isController ((afterMark, r) # cs) i pending =
     (if isController then
        (let (p, ev) = static_loop isController cs (i + 1) pending in (p, QE_CreateVars i # ev))
      else
        (let (p, ev) = static_loop isController cs (i + 1) (pending \<or> r)
         in (p, QE_CreateVars i # QE_RequestStatic i afterMark # ev)))"

definition stage_Static :: "query_env \<Rightarrow> node_query \<Rightarrow> bool \<Rightarrow> stage_result" where
  "stage_Static e n qsc =
     (let (p, ev) = static_loop (qe_isThisController e) (qe_static e) 0 (m_queryPending n);
          n1 = n\<lparr>m_queryPending := p\<rparr>
      in if \<not> m_queryPending n1 then (go St_Associations n1, p, ev) else (n1, p, ev))"

definition stage_CacheLoad :: "query_env \<Rightarrow> node_query \<Rightarrow> bool \<Rightarrow> stage_result" where
  "stage_CacheLoad e n qsc =
     (if \<not> qe_isThisController e then (n\<lparr>m_queryPending := True\<rparr>, True, [QE_NoOperation])
      else (go St_Associations n, qsc, []))"

definition stage_Associations :: "query_env \<Rightarrow> node_query \<Rightarrow> bool \<Rightarrow> stage_result" where
  "stage_Associations e n qsc =
     (if qe_hasMultiChannelAssociation e then (n\<lparr>m_queryPending := True\<rparr>, True, [QE_MultiChannelGroups])
      else if qe_hasAssociation e then (n\<lparr>m_queryPending := True\<rparr>, True, [QE_AssociationGroups])
      else (go St_Neighbors n, qsc, []))"

definition stage_Neighbors :: "node_query \<Rightarrow> bool \<Rightarrow> stage_result" where
  "stage_Neighbors n qsc = (n\<lparr>m_queryPending := True\<rparr>, True, [QE_RequestNeighbors])"

text \<open>The loops over the command classes that are not after the mark.\<close>

fun request_loop ::
  "(nat \<Rightarrow> query_event) \<Rightarrow> (bool \<times> bool) list \<Rightarrow> nat \<Rightarrow> bool \<Rightarrow> bool \<times> query_event list" where
  "request_loop req [] i pending = (pending, [])"
| "request_loop req ((afterMark, r) # cs) i pending =
     (if \<not> afterMark then
        (let (p, ev) = request_loop req cs (i + 1) (pending \<or> r) in (p, req i # ev))
      else request_loop req cs (i + 1) pending)"

definition stage_Session :: "query_env \<Rightarrow> node_query \<Rightarrow> bool \<Rightarrow> stage_result" where
  "stage_Session e n qsc =
     (let (p, ev) = request_loop QE_RequestSession (qe_session e) 0 (m_queryPending n);
          n1 = n\<lparr>m_queryPending := p\<rparr>
      in if \<not> m_queryPending n1 then (go St_Dynamic n1, p, ev) else (n1, p, ev))"

definition RequestDynamicValues :: "query_env \<Rightarrow> bool \<times> query_event list" where
  "RequestDynamicValues e = request_loop QE_RequestDynamic (qe_dynamic e) 0 False"

definition stage_Dynamic :: "query_env \<Rightarrow> node_query \<Rightarrow> bool \<Rightarrow> stage_result" where
  "stage_Dynamic e n qsc =
     (let (p, ev) = RequestDynamicValues e; n1 = n\<lparr>m_queryPending := p\<rparr>
      in if \<not> m_queryPending n1 then (go St_Configuration n1, p, ev) else (n1, p, ev))"

definition stage_Configuration :: "query_env \<Rightarrow> node_query \<Rightarrow> bool \<Rightarrow> stage_result" where
  "stage_Configuration e n qsc =
     (let (n1, qsc1, ev) =
            (if m_queryConfiguration n then
               (if qe_config e then (n\<lparr>m_queryPending := True, m_queryConfiguration := False\<rparr>, True, [QE_RequestConfig])
                else (n\<lparr>m_queryConfiguration := False\<rparr>, qsc, [QE_RequestConfig]))
             else (n, qsc, []))
      in if \<not> m_queryPending n1 then (go St_Complete n1, qsc1, ev) else (n1, qsc1, ev))"

definition stage_Complete :: "query_env \<Rightarrow> query_event list" where
  "stage_Complete e = [QE_ClearAddingNode, QE_NoteQueriesComplete] @
     (if qe_hasWakeUp e then [QE_SendPending] else []) @ [QE_CheckCompleted]"

definition do_stage :: "query_env \<Rightarrow> node_query \<Rightarrow> bool \<Rightarrow> stage_result" where
  "do_stage e n qsc = (case m_queryStage n of
     St_None \<Rightarrow> stage_None n qsc
   | St_ProtocolInfo \<Rightarrow> stage_ProtocolInfo e n qsc
   | St_Probe \<Rightarrow> stage_Probe e n qsc
   | St_WakeUp \<Rightarrow> stage_WakeUp e n qsc
   | St_NodeInfo \<Rightarrow> stage_NodeInfo e n qsc
   | St_NodePlusInfo \<Rightarrow> stage_NodePlusInfo e n qsc
   | St_SecurityReport \<Rightarrow> stage_SecurityReport e n qsc
   | St_Versions \<Rightarrow> stage_Versions e n qsc
   | St_ManufacturerSpecific1 \<Rightarrow> stage_ManufacturerSpecific1 e n qsc
   | St_Instances \<Rightarrow> stage_Instances e n qsc
   | St_ManufacturerSpecific2 \<Rightarrow> stage_ManufacturerSpecific2 e n qsc
   | St_Static \<Rightarrow> stage_Static e n qsc
   | St_CacheLoad \<Rightarrow> stage_CacheLoad e n qsc
   | St_Associations \<Rightarrow> stage_Associations e n qsc
   | St_Neighbors \<Rightarrow> stage_Neighbors n qsc
   | St_Session \<Rightarrow> stage_Session e n qsc
   | St_Dynamic \<Rightarrow> stage_Dynamic e n qsc
   | St_Configuration \<Rightarrow> stage_Configuration e n qsc
   | St_Complete \<Rightarrow> (n, qsc, []))"

text \<open>Every stage but the last either waits for an answer or moves on.\<close>

lemmas stage_defs = stage_None_def stage_ProtocolInfo_def stage_Probe_def stage_WakeUp_def
  stage_NodeInfo_def stage_NodePlusInfo_def stage_SecurityReport_def stage_Versions_def
  stage_ManufacturerSpecific1_def stage_Instances_def stage_ManufacturerSpecific2_def stage_Static_def
  stage_CacheLoad_def stage_Associations_def stage_Neighbors_def stage_Session_def stage_Dynamic_def
  stage_Configuration_def go_def

lemma do_stage_progress:
  assumes "do_stage e n qsc = (n', qsc', ev)" and "\<not> m_queryPending n" and "m_queryStage n \<noteq> St_Complete"
  shows "(m_queryPending n' \<and> qsc' \<and> m_queryStage n' = m_queryStage n) \<or>
    (\<not> m_queryPending n' \<and> stage_num (m_queryStage n) < stage_num (m_queryStage n'))"
    and "m_nodeAlive n' = m_nodeAlive n"
  using assms
  by (cases "m_queryStage n";
      auto simp: do_stage_def stage_defs Let_def split: if_splits option.splits prod.splits)+

section \<open>The loop\<close>

text \<open>The last component is \<open>True\<close> when the loop returned from the stage \<open>Complete\<close>.\<close>

function advance_loop ::
  "query_env \<Rightarrow> node_query \<Rightarrow> bool \<Rightarrow> node_query \<times> bool \<times> query_event list \<times> bool" where
  "advance_loop e n qsc =
     (if m_queryPending n \<or> \<not> m_nodeAlive n then (n, qsc, [], False)
      else if m_queryStage n = St_Complete then (n, qsc, stage_Complete e, True)
      else let (n', qsc', ev) = do_stage e n qsc;
               (m, q, evs, r) = advance_loop e n' qsc'
           in (m, q, ev @ evs, r))"
  by pat_completeness auto
termination
proof (relation "measure (\<lambda>(e, n, qsc). if m_queryPending n then 0 else 19 - stage_num (m_queryStage n))")
  fix e n qsc x n' y qsc' ev
  assume a: "\<not> (m_queryPending n \<or> \<not> m_nodeAlive n)" "m_queryStage n \<noteq> St_Complete"
    "x = do_stage e n qsc" "(n', y) = x" "(qsc', ev) = y"
  then have "do_stage e n qsc = (n', qsc', ev)" by simp
  from do_stage_progress(1) [OF this] a stage_num_le [of "m_queryStage n"] stage_num_le [of "m_queryStage n'"]
  show "((e, n', qsc'), (e, n, qsc)) \<in> measure (\<lambda>(e, n, qsc). if m_queryPending n then 0
      else 19 - stage_num (m_queryStage n))"
    by auto
qed simp

declare advance_loop.simps [simp del]

definition AdvanceQueries :: "query_env \<Rightarrow> node_query \<Rightarrow> node_query \<times> query_event list" where
  "AdvanceQueries e n =
     (let (n', addQSC, ev, returned) = advance_loop e n False
      in (n', ev @ (if \<not> returned \<and> addQSC \<and> m_nodeAlive n' then [QE_StageComplete (m_queryStage n')] else [])))"

section \<open>Moving the stage\<close>

text \<open>\<open>None\<close>: the stage would get a number that is no enumerator.\<close>

definition QueryStageComplete :: "query_stage \<Rightarrow> node_query \<Rightarrow> node_query option" where
  "QueryStageComplete s n =
     (if s \<noteq> m_queryStage n then Some n
      else if m_queryStage n \<noteq> St_Complete then do {
        s1 \<leftarrow> stage_succ (m_queryStage n);
        s2 \<leftarrow> (if s1 = St_CacheLoad then stage_succ s1 else Some s1);
        Some (n\<lparr>m_queryPending := False, m_queryStage := s2, m_queryRetries := 0\<rparr>)
      }
      else Some n)"

text \<open>With the stage passed on to \<open>RetryQueryStageComplete\<close>, if any.\<close>

definition QueryStageRetry :: "query_stage \<Rightarrow> uint8 \<Rightarrow> node_query \<Rightarrow> (node_query \<times> query_stage option) option" where
  "QueryStageRetry s maxAttempts n =
     (if s \<noteq> m_queryStage n then Some (n, None)
      else
        let n1 = n\<lparr>m_queryPending := False\<rparr>;
            n2 = (if maxAttempts \<noteq> 0 then n1\<lparr>m_queryRetries := m_queryRetries n1 + 1\<rparr> else n1)
        in if maxAttempts \<noteq> 0 \<and> m_queryRetries n2 \<ge> maxAttempts then
             let n3 = n2\<lparr>m_queryRetries := 0\<rparr> in
             if m_queryStage n3 \<noteq> St_Probe \<and> m_queryStage n3 \<noteq> St_CacheLoad then do {
               s1 \<leftarrow> stage_succ (m_queryStage n3);
               Some (n3\<lparr>m_queryStage := s1\<rparr>, Some s1)
             } else Some (n3, Some (m_queryStage n3))
           else Some (n2, Some (m_queryStage n2)))"

definition SetQueryStage :: "query_env \<Rightarrow> query_stage \<Rightarrow> bool \<Rightarrow> node_query \<Rightarrow> node_query \<times> query_event list" where
  "SetQueryStage e s advance n =
     (let n1 = (if s < m_queryStage n then
                  n\<lparr>m_queryStage := s, m_queryPending := False,
                    m_queryConfiguration := (if s = St_Configuration then True else m_queryConfiguration n)\<rparr>
                else n)
      in if advance then AdvanceQueries e n1 else (n1, []))"

section \<open>Lemmas\<close>

lemma stage_succ_num: "stage_succ s = Some s' \<Longrightarrow> stage_num s' = stage_num s + 1"
  by (cases s) (auto simp: stage_succ_def peek_def all_stages_def)

lemma stage_succ_ex: "s \<noteq> St_Complete \<Longrightarrow> \<exists>s'. stage_succ s = Some s'"
  by (cases s) (auto simp: stage_succ_def peek_def all_stages_def)

text \<open>The markers are not among the events of the stages.\<close>

definition marker :: "query_event \<Rightarrow> bool" where
  "marker ev \<longleftrightarrow> ev = QE_NoteQueriesComplete \<or> ev = QE_NoteEssentialComplete \<or> (\<exists>s. ev = QE_StageComplete s) \<or>
     ev = QE_SendPending"

lemma versions_loop_events: "x \<in> set (snd (versions_loop cs i p)) \<Longrightarrow> \<not> marker x"
  by (induction cs i p rule: versions_loop.induct)
    (auto simp: marker_def split: if_splits prod.splits)

lemma static_loop_events: "x \<in> set (snd (static_loop c cs i p)) \<Longrightarrow> \<not> marker x"
  by (induction c cs i p rule: static_loop.induct)
    (auto simp: marker_def split: if_splits prod.splits)

lemma request_loop_events:
  "x \<in> set (snd (request_loop req cs i p)) \<Longrightarrow> (\<And>j. \<not> marker (req j)) \<Longrightarrow> \<not> marker x"
  by (induction req cs i p rule: request_loop.induct) (auto split: if_splits prod.splits)

lemma do_stage_events:
  assumes "do_stage e n qsc = (n', qsc', ev)" and "x \<in> set ev" and "marker x"
  shows "x = QE_NoteEssentialComplete \<and> m_queryStage n = St_Instances \<and> \<not> m_queryPending n'"
proof -
  have loops: "fst (versions_loop cs i p, snd (versions_loop cs i p)) = versions_loop cs i p" for cs i p
    by simp
  have v: "versions_loop cs i p = (q, ev) \<Longrightarrow> x \<notin> set ev" for cs i p q ev
    using versions_loop_events [of x cs i p] assms(3) by auto
  have s: "static_loop c cs i p = (q, ev) \<Longrightarrow> x \<notin> set ev" for c cs i p q ev
    using static_loop_events [of x c cs i p] assms(3) by auto
  have r: "request_loop QE_RequestSession cs i p = (q, ev) \<Longrightarrow> x \<notin> set ev"
    and d: "request_loop QE_RequestDynamic cs i p = (q, ev) \<Longrightarrow> x \<notin> set ev" for cs i p q ev
    using request_loop_events [of x QE_RequestSession cs i p]
      request_loop_events [of x QE_RequestDynamic cs i p] assms(3) by (auto simp: marker_def)
  show ?thesis
    using assms
    by (cases "m_queryStage n";
        auto simp: do_stage_def stage_defs RequestDynamicValues_def Let_def marker_def
          split: if_splits option.splits prod.splits dest: v s r d)
qed

text \<open>The pending messages are only asked for when the node has a wake-up class.\<close>

lemma advance_loop_SendPending:
  "advance_loop e n qsc = (m, q, evs, r) \<Longrightarrow> QE_SendPending \<in> set evs \<Longrightarrow> qe_hasWakeUp e"
proof (induction e n qsc arbitrary: m q evs r rule: advance_loop.induct)
  case (1 e n qsc)
  show ?case
  proof (cases "m_queryPending n \<or> \<not> m_nodeAlive n \<or> m_queryStage n = St_Complete")
    case True
    then show ?thesis
      using 1(2,3) by (subst (asm) advance_loop.simps) (auto simp: stage_Complete_def split: if_splits)
  next
    case False
    obtain n' qsc' ev where d: "do_stage e n qsc = (n', qsc', ev)" by (cases "do_stage e n qsc")
    obtain m' q' evs' r' where l: "advance_loop e n' qsc' = (m', q', evs', r')"
      by (cases "advance_loop e n' qsc'")
    have "evs = ev @ evs'"
      using 1(2) False d l by (subst (asm) advance_loop.simps) simp
    moreover have "QE_SendPending \<notin> set ev" using do_stage_events [OF d] by (auto simp: marker_def)
    ultimately show ?thesis using 1(1) [OF _ _ d [symmetric] refl refl l] False 1(3) by simp
  qed
qed

lemma AdvanceQueries_SendPending:
  assumes "QE_SendPending \<in> set (snd (AdvanceQueries e n))" shows "qe_hasWakeUp e"
proof -
  obtain m q evs r where l: "advance_loop e n False = (m, q, evs, r)" by (cases "advance_loop e n False")
  then show ?thesis using advance_loop_SendPending [OF l] assms
    by (auto simp: AdvanceQueries_def split: if_splits)
qed

text \<open>What the loop leaves.\<close>

definition Outcome :: "node_query \<Rightarrow> bool \<Rightarrow> node_query \<times> bool \<times> query_event list \<times> bool \<Rightarrow> bool" where
  "Outcome n qsc res \<longleftrightarrow> (case res of (n', q, ev, ret) \<Rightarrow>
     m_queryStage n \<le> m_queryStage n' \<and> m_nodeAlive n' = m_nodeAlive n \<and>
     (\<forall>s. QE_StageComplete s \<notin> set ev) \<and>
     (if m_queryPending n \<or> \<not> m_nodeAlive n then res = (n, qsc, [], False)
      else if ret then m_queryStage n' = St_Complete \<and> \<not> m_queryPending n' \<and> QE_NoteQueriesComplete \<in> set ev
      else m_queryPending n' \<and> q \<and> QE_NoteQueriesComplete \<notin> set ev \<and> m_queryStage n' \<noteq> St_Complete))"

lemma advance_loop_outcome: "Outcome n qsc (advance_loop e n qsc)"
proof (induction e n qsc rule: advance_loop.induct)
  case (1 e n qsc)
  show ?case
  proof (cases "m_queryPending n \<or> \<not> m_nodeAlive n")
    case True
    then show ?thesis by (subst advance_loop.simps) (simp add: Outcome_def)
  next
    case alive: False
    show ?thesis
    proof (cases "m_queryStage n = St_Complete")
      case True
      then show ?thesis
        using alive by (subst advance_loop.simps) (auto simp: Outcome_def stage_Complete_def)
    next
      case False
      obtain n' qsc' ev where d: "do_stage e n qsc = (n', qsc', ev)" by (cases "do_stage e n qsc")
      obtain m q evs r where l: "advance_loop e n' qsc' = (m, q, evs, r)"
        by (cases "advance_loop e n' qsc'")
      have "Outcome n' qsc' (advance_loop e n' qsc')"
        using 1 [OF alive False] d by simp
      then have IH: "Outcome n' qsc' (m, q, evs, r)" by (simp only: l)
      have A: "advance_loop e n qsc = (m, q, ev @ evs, r)"
        using alive False d l by (subst advance_loop.simps) simp
      have no: "QE_StageComplete s \<notin> set ev" "QE_NoteQueriesComplete \<notin> set ev" for s
        using do_stage_events [OF d] by (auto simp: marker_def)
      note pr = do_stage_progress [OF d]
      show ?thesis
      proof (cases "m_queryPending n'")
        case True
        then have "m = n'" "q = qsc'" "evs = []" "\<not> r" using IH by (auto simp: Outcome_def)
        then show ?thesis
          unfolding A using pr alive False True no by (auto simp: Outcome_def less_eq_query_stage_def)
      next
        case False2: False
        then have lt: "stage_num (m_queryStage n) < stage_num (m_queryStage n')" and "m_nodeAlive n'"
          using pr alive False by auto
        with IH False2 show ?thesis
          unfolding A using pr alive False no by (auto simp: Outcome_def less_eq_query_stage_def)
      qed
    qed
  qed
qed

section \<open>Properties\<close>

text \<open>(C26) Advancing the interview of a live node that waits for nothing ends, never goes back a stage,
  and leaves exactly one of two situations: the interview is complete and announced, or the node waits
  for an answer and the very last thing done is to queue one marker for the stage it waits in.\<close>

theorem AdvanceQueries_outcome:
  assumes "AdvanceQueries e n = (n', ev)" and "\<not> m_queryPending n" and "m_nodeAlive n"
  shows "m_queryStage n \<le> m_queryStage n' \<and>
    ((m_queryStage n' = St_Complete \<and> \<not> m_queryPending n' \<and> QE_NoteQueriesComplete \<in> set ev \<and>
      (\<forall>s. QE_StageComplete s \<notin> set ev)) \<or>
     (m_queryStage n' \<noteq> St_Complete \<and> m_queryPending n' \<and> QE_NoteQueriesComplete \<notin> set ev \<and>
      (\<exists>evs. ev = evs @ [QE_StageComplete (m_queryStage n')] \<and> (\<forall>s. QE_StageComplete s \<notin> set evs))))"
proof -
  obtain m q evs r where l: "advance_loop e n False = (m, q, evs, r)" by (cases "advance_loop e n False")
  have "Outcome n False (m, q, evs, r)" using advance_loop_outcome [of n False e] by (simp only: l)
  with assms l show ?thesis by (auto simp: Outcome_def AdvanceQueries_def split: if_splits)
qed

definition plain_env :: query_env where
  "plain_env = \<lparr>qe_isThisController = False, qe_protocolInfoReceived = True, qe_hasWakeUp = False,
     qe_isController = False, qe_frequentListening = False, qe_nodeInfoReceived = True,
     qe_nodeInfoSupported = True, qe_plusInfo = None, qe_hasSecurity = False, qe_versions = [(2, 1, False)],
     qe_manufacturer = None, qe_multiInstance = Some (False, True), qe_manufacturerReceived = True,
     qe_manufacturerState = False, qe_static = [(False, False)], qe_hasMultiChannelAssociation = False,
     qe_hasAssociation = True, qe_session = [], qe_dynamic = [(False, True)], qe_config = False\<rparr>"

definition node_at :: "query_stage \<Rightarrow> node_query" where
  "node_at s = \<lparr>m_queryStage = s, m_queryPending = False, m_queryRetries = 0, m_nodeAlive = True,
                m_queryConfiguration = False\<rparr>"

theorem AdvanceQueries_outcome_witness:
  "\<exists>n' ev. AdvanceQueries plain_env (node_at St_None) = (n', ev) \<and> St_None \<le> m_queryStage n'"
  using AdvanceQueries_outcome [of plain_env "node_at St_None"]
  by (cases "AdvanceQueries plain_env (node_at St_None)") (auto simp: node_at_def)

text \<open>The marker of the current stage comes back and the queries advance, once for each environment
  of the list.\<close>

fun interview :: "query_env list \<Rightarrow> node_query \<Rightarrow> node_query option" where
  "interview [] n = Some n"
| "interview (e # es) n = do {
     n1 \<leftarrow> QueryStageComplete (m_queryStage n) n;
     interview es (fst (AdvanceQueries e n1))
   }"

lemma QueryStageComplete_next:
  assumes "m_queryStage n \<noteq> St_Complete"
  obtains n1 where "QueryStageComplete (m_queryStage n) n = Some n1" and "\<not> m_queryPending n1"
    and "m_nodeAlive n1 = m_nodeAlive n" and "stage_num (m_queryStage n) < stage_num (m_queryStage n1)"
proof -
  obtain s1 where s1: "stage_succ (m_queryStage n) = Some s1" using stage_succ_ex [OF assms] ..
  obtain s2 where s2: "(if s1 = St_CacheLoad then stage_succ s1 else Some s1) = Some s2"
    using stage_succ_ex [of s1] by (cases "s1 = St_CacheLoad") auto
  have "stage_num (m_queryStage n) < stage_num s2"
    using stage_succ_num [OF s1] s2 by (auto split: if_splits dest: stage_succ_num)
  with that [of "n\<lparr>m_queryPending := False, m_queryStage := s2, m_queryRetries := 0\<rparr>"] s1 s2 assms
  show thesis by (simp add: QueryStageComplete_def)
qed

lemma AdvanceQueries_stage:
  "m_nodeAlive (fst (AdvanceQueries e n)) = m_nodeAlive n \<and> m_queryStage n \<le> m_queryStage (fst (AdvanceQueries e n))"
  using advance_loop_outcome [of n False e]
  by (cases "advance_loop e n False") (simp add: AdvanceQueries_def Outcome_def)

lemma interview_progress:
  "m_nodeAlive n \<Longrightarrow> 18 - stage_num (m_queryStage n) \<le> length es \<Longrightarrow>
    \<exists>k \<le> 18 - stage_num (m_queryStage n). \<exists>n'. interview (take k es) n = Some n' \<and> m_queryStage n' = St_Complete"
proof (induction es arbitrary: n)
  case Nil
  then have "stage_num (m_queryStage n) = stage_num St_Complete"
    using stage_num_le [of "m_queryStage n"] by simp
  then have "m_queryStage n = St_Complete" by (simp only: stage_num_inj)
  then show ?case by simp
next
  case (Cons e es)
  show ?case
  proof (cases "m_queryStage n = St_Complete")
    case True
    then show ?thesis by simp
  next
    case False
    then obtain n1 where n1: "QueryStageComplete (m_queryStage n) n = Some n1"
      "m_nodeAlive n1 = m_nodeAlive n" "stage_num (m_queryStage n) < stage_num (m_queryStage n1)"
      by (rule QueryStageComplete_next)
    let ?m = "fst (AdvanceQueries e n1)"
    have m: "m_nodeAlive ?m" "stage_num (m_queryStage n) < stage_num (m_queryStage ?m)"
      using AdvanceQueries_stage [of e n1] n1 Cons.prems by (auto simp: less_eq_query_stage_def)
    then have "18 - stage_num (m_queryStage ?m) \<le> length es"
      using Cons.prems(2) by simp
    from Cons.IH [OF m(1) this] obtain k n' where k: "k \<le> 18 - stage_num (m_queryStage ?m)"
      "interview (take k es) ?m = Some n'" "m_queryStage n' = St_Complete" by blast
    have "Suc k \<le> 18 - stage_num (m_queryStage n)"
      using k(1) m(2) stage_num_le [of "m_queryStage ?m"] by linarith
    moreover have "interview (take (Suc k) (e # es)) n = Some n'" using k(2) n1 by simp
    ultimately show ?thesis using k(3) by blast
  qed
qed



text \<open>A retry below the limit repeats the stage and counts; at the limit the node moves on, except
  from the two probing stages; in the last stage the stage would get a number outside the enumeration.\<close>

theorem QueryStageRetry_result:
  assumes "s = m_queryStage n" and "maxAttempts \<noteq> 0" and "m_queryRetries n < maxAttempts"
  shows "QueryStageRetry s maxAttempts n =
    (if m_queryRetries n + 1 < maxAttempts
     then Some (n\<lparr>m_queryPending := False, m_queryRetries := m_queryRetries n + 1\<rparr>, Some s)
     else if s = St_Probe \<or> s = St_CacheLoad
     then Some (n\<lparr>m_queryPending := False, m_queryRetries := 0\<rparr>, Some s)
     else if s = St_Complete then None
     else Some (n\<lparr>m_queryPending := False, m_queryRetries := 0,
                  m_queryStage := all_stages ! (stage_num s + 1)\<rparr>, Some (all_stages ! (stage_num s + 1))))"
proof -
  have "stage_succ s = (if s = St_Complete then None else Some (all_stages ! (stage_num s + 1)))"
    by (cases s) (simp_all add: stage_succ_def peek_def all_stages_def)
  then show ?thesis using assms by (auto simp: QueryStageRetry_def Let_def not_less)
qed

theorem QueryStageRetry_result_witness:
  "QueryStageRetry St_Static 3 ((node_at St_Static)\<lparr>m_queryRetries := 2\<rparr>)
    = Some ((node_at St_CacheLoad), Some St_CacheLoad) \<and>
   QueryStageRetry St_Complete 1 (node_at St_Complete) = None"
  using QueryStageRetry_result [of St_Static "(node_at St_Static)\<lparr>m_queryRetries := 2\<rparr>" 3]
    QueryStageRetry_result [of St_Complete "node_at St_Complete" 1]
  by (simp add: node_at_def all_stages_def)

text \<open>A node past the instances stage is never announced as ready.\<close>

lemma advance_loop_essential:
  "stage_num St_Instances < stage_num (m_queryStage n) \<Longrightarrow> advance_loop e n qsc = (m, q, evs, r) \<Longrightarrow>
    QE_NoteEssentialComplete \<notin> set evs"
proof (induction e n qsc arbitrary: m q evs r rule: advance_loop.induct)
  case (1 e n qsc)
  show ?case
  proof (cases "m_queryPending n \<or> \<not> m_nodeAlive n \<or> m_queryStage n = St_Complete")
    case True
    then show ?thesis
      using 1(3) by (subst (asm) advance_loop.simps) (auto simp: stage_Complete_def split: if_splits)
  next
    case False
    obtain n' qsc' ev where d: "do_stage e n qsc = (n', qsc', ev)" by (cases "do_stage e n qsc")
    obtain m' q' evs' r' where l: "advance_loop e n' qsc' = (m', q', evs', r')"
      by (cases "advance_loop e n' qsc'")
    have "evs = ev @ evs'"
      using 1(3) False d l by (subst (asm) advance_loop.simps) simp
    moreover have "QE_NoteEssentialComplete \<notin> set ev"
      using do_stage_events [OF d] 1(2) by (auto simp: marker_def)
    moreover have "stage_num St_Instances < stage_num (m_queryStage n')"
      using do_stage_progress(1) [OF d] False 1(2) by auto
    then have "QE_NoteEssentialComplete \<notin> set evs'"
      using 1(1) [OF _ _ d [symmetric] refl refl _ l] False by simp
    ultimately show ?thesis by simp
  qed
qed

text \<open>A node that is asked for its instances is never announced as ready: neither the call that
  asks nor any later advance of its interview sends \<open>EssentialNodeQueriesComplete\<close>.\<close>

theorem essential_note_skipped:
  assumes "m_queryStage n = St_Instances" and "\<not> m_queryPending n" and "m_nodeAlive n"
    and "qe_multiInstance e = Some (False, True)"
    and "QueryStageComplete St_Instances (fst (AdvanceQueries e n)) = Some n1"
    and "m_queryStage n1 \<le> m_queryStage n2"
  shows "QE_NoteEssentialComplete \<notin> set (snd (AdvanceQueries e n)) \<and>
    QE_NoteEssentialComplete \<notin> set (snd (AdvanceQueries e2 n2))"
proof -
  have A: "AdvanceQueries e n = (n\<lparr>m_queryPending := True\<rparr>, [QE_RequestInstances, QE_StageComplete St_Instances])"
    using assms(1-4) by (simp add: AdvanceQueries_def advance_loop.simps do_stage_def stage_Instances_def)
  have "stage_num St_Instances < stage_num (m_queryStage n1)"
    using assms(1,5) by (auto simp: A QueryStageComplete_def stage_succ_def peek_def all_stages_def split: if_splits)
  then have "stage_num St_Instances < stage_num (m_queryStage n2)"
    using assms(6) by (simp add: less_eq_query_stage_def)
  moreover obtain m q evs r where l: "advance_loop e2 n2 False = (m, q, evs, r)"
    by (cases "advance_loop e2 n2 False")
  ultimately have "QE_NoteEssentialComplete \<notin> set (snd (AdvanceQueries e2 n2))"
    using advance_loop_essential by (auto simp: AdvanceQueries_def)
  then show ?thesis by (simp add: A)
qed

theorem essential_note_skipped_witness:
  "QE_NoteEssentialComplete \<notin> set (snd (AdvanceQueries plain_env (node_at St_Instances))) \<and>
   QE_NoteEssentialComplete \<notin> set (snd (AdvanceQueries plain_env (node_at St_ManufacturerSpecific2)))"
proof -
  have "AdvanceQueries plain_env (node_at St_Instances)
      = ((node_at St_Instances)\<lparr>m_queryPending := True\<rparr>, [QE_RequestInstances, QE_StageComplete St_Instances])"
    by (simp add: AdvanceQueries_def advance_loop.simps do_stage_def stage_Instances_def plain_env_def node_at_def)
  then have "QueryStageComplete St_Instances (fst (AdvanceQueries plain_env (node_at St_Instances)))
      = Some (node_at St_ManufacturerSpecific2)"
    by (simp add: QueryStageComplete_def node_at_def stage_succ_def peek_def all_stages_def)
  from essential_note_skipped [OF _ _ _ _ this, of "node_at St_ManufacturerSpecific2" plain_env]
  show ?thesis by (simp add: node_at_def plain_env_def)
qed

end
