(* ===== verification/Driver_State.thy ===== *)
theory Driver_State
  imports Zw_Security Node_Queries
begin

text \<open>
  The state the driver works on (\<open>cpp/src/Driver.h\<close>): the send queues with their events, the
  current message and what it waits for, the nodes as far as the driver uses them, and the
  controller command items, which are shared by pointer and therefore live on an explicit heap
  (\<open>d_ccis\<close>, an address is a natural number).  Messages have one owner each and are values.
  Results are \<open>None\<close> where the C++ code uses a deleted item or leaves a buffer.
\<close>

section \<open>Enumerations\<close>

datatype msg_queue =
  MsgQueue_Command | MsgQueue_NoOp | MsgQueue_Controller | MsgQueue_WakeUp | MsgQueue_Send
  | MsgQueue_Query | MsgQueue_Poll

definition all_queues :: "msg_queue list" where
  "all_queues = [MsgQueue_Command, MsgQueue_NoOp, MsgQueue_Controller, MsgQueue_WakeUp,
     MsgQueue_Send, MsgQueue_Query, MsgQueue_Poll]"

datatype controller_command =
  ControllerCommand_None | ControllerCommand_AddDevice | ControllerCommand_CreateNewPrimary
  | ControllerCommand_ReceiveConfiguration | ControllerCommand_RemoveDevice
  | ControllerCommand_RemoveFailedNode | ControllerCommand_HasNodeFailed
  | ControllerCommand_ReplaceFailedNode | ControllerCommand_TransferPrimaryRole
  | ControllerCommand_RequestNetworkUpdate | ControllerCommand_RequestNodeNeighborUpdate
  | ControllerCommand_AssignReturnRoute | ControllerCommand_DeleteAllReturnRoutes
  | ControllerCommand_SendNodeInformation | ControllerCommand_ReplicationSend
  | ControllerCommand_CreateButton | ControllerCommand_DeleteButton

datatype controller_state =
  ControllerState_Normal | ControllerState_Starting | ControllerState_Cancel
  | ControllerState_Error | ControllerState_Waiting | ControllerState_Sleeping
  | ControllerState_InProgress | ControllerState_Completed | ControllerState_Failed
  | ControllerState_NodeOK | ControllerState_NodeFailed

datatype controller_error =
  ControllerError_None | ControllerError_ButtonNotFound | ControllerError_NodeNotFound
  | ControllerError_NotBridge | ControllerError_NotSUC | ControllerError_NotSecondary
  | ControllerError_NotPrimary | ControllerError_IsPrimary | ControllerError_NotFound
  | ControllerError_Busy | ControllerError_Failed | ControllerError_Disabled
  | ControllerError_Overflow

section \<open>Records\<close>

text \<open>A callback is a number, \<open>0\<close> the null pointer; so is its context.\<close>

record cci =
  cci_state :: controller_state
  cci_stateChanged :: bool
  cci_done :: bool
  cci_command :: controller_command
  cci_callback :: nat
  cci_error :: controller_error
  cci_context :: nat
  cci_highPower :: bool
  cci_added :: bool
  cci_node :: uint8
  cci_arg :: uint8
  cci_info :: bytes
  cci_infoLength :: uint8

type_synonym cci_heap = "nat \<Rightarrow> cci option"

datatype queue_item =
  Item_SendMsg msg
| Item_QueryStageComplete uint8 query_stage bool
| Item_Controller nat
| Item_ReloadNode uint8

text \<open>The wake-up class of a node: \<open>m_awake\<close>, \<open>m_pollRequired\<close>, \<open>m_interval\<close>, the compatibility flag that delays
  the no-more-information message, and \<open>m_pendingQueue\<close>.\<close>

record wakeup =
  w_awake :: bool
  w_pollRequired :: bool
  w_delayNMI :: nat
  w_interval :: uint32
  w_pending :: "queue_item list"

text \<open>The command classes of a node, as far as the base class \<open>CommandClass\<close> keeps state.\<close>

record cc_state =
  c_secured :: bool
  c_sentCnt :: uint32
  c_receivedCnt :: uint32
  c_version :: uint8
  c_static :: uint8
  c_afterMark :: bool
  c_inNIF :: bool
  c_instances :: "uint8 set"
  c_endPoints :: "uint8 \<Rightarrow> uint8 option"

text \<open>The fields a transmission report fills; the signal levels are kept as the bytes received.\<close>

record tx_status =
  t_supported :: bool
  t_time :: uint16
  t_hops :: uint8
  t_rssi :: bytes
  t_ackChannel :: uint8
  t_lastTxChannel :: uint8
  t_routeScheme :: uint8
  t_routeUsed :: bytes
  t_routeSpeed :: uint8
  t_routeTries :: uint8
  t_lastFailedLinkFrom :: uint8
  t_lastFailedLinkTo :: uint8

record node =
  n_query :: node_query
  n_listening :: bool
  n_frequentListening :: bool
  n_wakeUp :: "wakeup option"
  n_classes :: "uint8 \<Rightarrow> cc_state option"
  n_errors :: uint8
  n_retries :: uint32
  n_sentCnt :: uint32
  n_nonces :: nonce_table
  n_buttonMap :: "uint8 \<Rightarrow> uint8 option"
  n_sentFailed :: uint32
  n_receivedCnt :: uint32
  n_lastRequestRTT :: uint32
  n_averageRequestRTT :: uint32
  n_txStatus :: tx_status
  n_neighbors :: bytes
  n_addingNode :: bool
  n_deviceReset :: bool
  n_basic :: uint8
  n_generic :: uint8
  n_specific :: uint8
  n_routing :: bool
  n_beaming :: bool
  n_security :: bool
  n_maxBaudRate :: uint32
  n_version :: uint8
  n_protocolInfoReceived :: bool
  n_basicInfoReceived :: bool
  n_nodeInfoReceived :: bool
  n_refreshOnInfo :: bool
  n_secured :: bool
  n_schemeAgreed :: bool
  n_receivedUnsolicited :: uint32
  n_receivedDups :: uint32
  n_lastReceived :: bytes
  n_lastResponseRTT :: uint32
  n_averageResponseRTT :: uint32

datatype notification =
  Note_ControllerCommand uint8 controller_command controller_state controller_error
| Note_Timeout uint8
| Note_Dead uint8
| Note_Alive uint8
| Note_Awake uint8
| Note_Sleep uint8
| Note_AllNodesQueried
| Note_AllNodesQueriedSomeDead
| Note_AwakeNodesQueried
| Note_EssentialNodeQueriesComplete uint8
| Note_NodeQueriesComplete uint8
| Note_DriverFailed uint8
| Note_NodeRemoved uint8
| Note_NodeAdded uint8
| Note_MsgComplete uint8
| Note_DeleteButton uint8 uint8
| Note_NoOperation uint8
| Note_NodeReset uint8
| Note_NodeReloadRequired
| Note_UnsupportedController
| Note_NodeProtocolInfo uint8
| Note_CreateButton uint8 uint8
| Note_ButtonOn uint8 uint8
| Note_ButtonOff uint8 uint8
| Note_NodeNew uint8
| Note_DriverReset

text \<open>The counters of the driver's statistics.\<close>

record driver_stats =
  s_SOFCnt :: uint32
  s_ACKWaiting :: uint32
  s_readAborts :: uint32
  s_badChecksum :: uint32
  s_readCnt :: uint32
  s_writeCnt :: uint32
  s_CANCnt :: uint32
  s_NAKCnt :: uint32
  s_ACKCnt :: uint32
  s_OOFCnt :: uint32
  s_dropped :: uint32
  s_retries :: uint32
  s_callbacks :: uint32
  s_badroutes :: uint32
  s_noack :: uint32
  s_netbusy :: uint32
  s_notidle :: uint32
  s_txverified :: uint32
  s_nondelivery :: uint32
  s_broadcastReadCnt :: uint32
  s_broadcastWriteCnt :: uint32
  s_routedbusy :: uint32

text \<open>What the driver knows of the controller's capabilities.\<close>

record controller_info =
  i_libraryType :: uint8
  i_initCaps :: uint8
  i_controllerCaps :: uint8
  i_apiMask :: bytes
  i_serialAPIVersion :: "uint8 \<times> uint8"
  i_virtualNeighbors :: bytes
  i_virtualNeighborsReceived :: bool
  i_SUCNodeId :: uint8
  i_libraryVersion :: string
  i_manufacturerId :: uint16
  i_productType :: uint16
  i_productId :: uint16

text \<open>\<open>d_calls\<close> are the calls made of application callbacks, \<open>d_timers\<close> the nodes whose
  no-more-information message has been handed to the timer, \<open>d_out\<close> what was written to the
  controller; \<open>d_stopped\<close> tells that the driver thread was told to stop.\<close>

record driver =
  d_homeId :: uint32
  d_controllerNodeId :: uint8
  d_transmitOptions :: uint8
  d_nodes :: "uint8 \<Rightarrow> node option"
  d_queue :: "msg_queue \<Rightarrow> queue_item list"
  d_event :: "msg_queue \<Rightarrow> bool"
  d_currentMsg :: "msg option"
  d_currentSource :: msg_queue
  d_expectedCallbackId :: uint8
  d_expectedCommandClassId :: uint8
  d_expectedNodeId :: uint8
  d_expectedReply :: uint8
  d_waitingForAck :: bool
  d_nonceReportSent :: uint8
  d_nonceReportSentAttempt :: uint8
  d_currentCmd :: "nat option"
  d_ccis :: cci_heap
  d_nextCci :: nat
  d_callbackId :: uint8
  d_allNodesQueried :: bool
  d_awakeNodesQueried :: bool
  d_stats :: driver_stats
  d_info :: controller_info
  d_notes :: "notification list"
  d_calls :: "(nat \<times> controller_state \<times> controller_error \<times> nat) list"
  d_timers :: "(uint8 \<times> nat) list"
  d_out :: "bytes list"
  d_stopped :: bool
  d_init :: bool
  d_replicating :: bool
  d_extendedTxStatus :: bool

text \<open>\<open>Driver::Driver\<close>; the transmit options are \<open>ACK | AUTO_ROUTE | EXPLORE\<close>, the counter of the
  callback ids is the one static of class \<open>Msg\<close>.\<close>

definition Driver_new :: "uint8 \<Rightarrow> driver" where
  "Driver_new callbackId = \<lparr> d_homeId = 0, d_controllerNodeId = 0, d_transmitOptions = 0x25,
     d_nodes = (\<lambda>_. None), d_queue = (\<lambda>_. []), d_event = (\<lambda>_. False), d_currentMsg = None,
     d_currentSource = MsgQueue_Command, d_expectedCallbackId = 0, d_expectedCommandClassId = 0,
     d_expectedNodeId = 0, d_expectedReply = 0, d_waitingForAck = False, d_nonceReportSent = 0,
     d_nonceReportSentAttempt = 0, d_currentCmd = None, d_ccis = (\<lambda>_. None), d_nextCci = 0,
     d_callbackId = callbackId, d_allNodesQueried = False, d_awakeNodesQueried = False,
     d_stats = \<lparr> s_SOFCnt = 0, s_ACKWaiting = 0, s_readAborts = 0, s_badChecksum = 0, s_readCnt = 0,
       s_writeCnt = 0, s_CANCnt = 0, s_NAKCnt = 0, s_ACKCnt = 0, s_OOFCnt = 0, s_dropped = 0,
       s_retries = 0, s_callbacks = 0, s_badroutes = 0, s_noack = 0, s_netbusy = 0, s_notidle = 0,
       s_txverified = 0, s_nondelivery = 0, s_broadcastReadCnt = 0, s_broadcastWriteCnt = 0,
       s_routedbusy = 0 \<rparr>,
     d_info = \<lparr> i_libraryType = 0, i_initCaps = 0, i_controllerCaps = 0, i_apiMask = replicate 32 0,
       i_serialAPIVersion = (0, 0), i_virtualNeighbors = replicate 29 0,
       i_virtualNeighborsReceived = False, i_SUCNodeId = 0, i_libraryVersion = [],
       i_manufacturerId = 0, i_productType = 0, i_productId = 0 \<rparr>,
     d_notes = [], d_calls = [], d_timers = [], d_out = [], d_stopped = False, d_init = False, d_replicating = False, d_extendedTxStatus = False \<rparr>"

text \<open>
  \<open>CommandClasses::RegisterCommandClasses\<close>: the classes there are, those of a version above 1
  (\<open>GetMaxVersion\<close>) and those whose constructor requests static values.
\<close>

definition registered_classes :: bytes where
  "registered_classes = [0x71, 0x22, 0x85, 0x9b, 0x94, 0x66, 0x20, 0x50, 0x80, 0x5b, 0x46, 0x81, 0x33, 0x70, 0x21,
     0x56, 0x5a, 0x62, 0x4c, 0x90, 0x82, 0x87, 0x89, 0x76, 0x91, 0x72, 0x32, 0x35, 0x8f, 0x60, 0x8e, 0x77, 0x00,
     0x73, 0x88, 0x75, 0x2b, 0x98, 0x9c, 0x30, 0x31, 0x79, 0x27, 0x25, 0x26, 0x28, 0x29, 0x8b, 0x44, 0x45, 0x40,
     0x42, 0x43, 0x63, 0x86, 0x84, 0x5e]"

definition versioned_classes :: bytes where
  "versioned_classes = [0x71, 0x66, 0x20, 0x5b, 0x33, 0x87, 0x72, 0x32, 0x60, 0x31, 0x25, 0x26, 0x40, 0x43, 0x84]"

definition static_classes :: bytes where
  "static_classes = [0x71, 0x85, 0x5b, 0x33, 0x62, 0x4c, 0x72, 0x32, 0x8e, 0x9c, 0x79, 0x40, 0x43, 0x8b, 0x63,
     0x86, 0x84, 0x5e]"

definition class_new :: "uint8 \<Rightarrow> cc_state" where
  "class_new cc = \<lparr> c_secured = False, c_sentCnt = 0, c_receivedCnt = 0, c_version = 0,
     c_static = (if cc \<in> set static_classes then 0x02 else 0), c_afterMark = False, c_inNIF = False,
     c_instances = {}, c_endPoints = (\<lambda>_. None) \<rparr>"

text \<open>\<open>Node::Node\<close>; the classes every node has are \<open>NO_OPERATION\<close> and \<open>MANUFACTURER_SPECIFIC\<close>.\<close>

definition tx_status_new :: tx_status where
  "tx_status_new = \<lparr> t_supported = False, t_time = 0, t_hops = 0, t_rssi = replicate 5 0, t_ackChannel = 0,
     t_lastTxChannel = 0, t_routeScheme = 0, t_routeUsed = replicate 4 0, t_routeSpeed = 0, t_routeTries = 0,
     t_lastFailedLinkFrom = 0, t_lastFailedLinkTo = 0 \<rparr>"

definition Node_new :: node where
  "Node_new = \<lparr> n_query = \<lparr> m_queryStage = St_None, m_queryPending = False, m_queryRetries = 0,
       m_nodeAlive = True, m_queryConfiguration = False \<rparr>,
     n_listening = True, n_frequentListening = False, n_wakeUp = None,
     n_classes = [0x00 \<mapsto> class_new 0x00, 0x72 \<mapsto> class_new 0x72],
     n_errors = 0, n_retries = 0, n_sentCnt = 0,
     n_nonces = \<lparr> m_nonces = replicate 8 (replicate 8 0), m_lastnonce = 0 \<rparr>, n_buttonMap = (\<lambda>_. None),
     n_sentFailed = 0, n_receivedCnt = 0, n_lastRequestRTT = 0, n_averageRequestRTT = 0,
     n_txStatus = tx_status_new, n_neighbors = replicate 29 0, n_addingNode = False, n_deviceReset = False,
     n_basic = 0, n_generic = 0, n_specific = 0, n_routing = False, n_beaming = False, n_security = False,
     n_maxBaudRate = 0, n_version = 0, n_protocolInfoReceived = False, n_basicInfoReceived = False,
     n_nodeInfoReceived = False, n_refreshOnInfo = True, n_secured = False, n_schemeAgreed = False,
     n_receivedUnsolicited = 0, n_receivedDups = 0, n_lastReceived = replicate 254 0, n_lastResponseRTT = 0,
     n_averageResponseRTT = 0 \<rparr>"

section \<open>Elementary updates\<close>

definition push_back :: "msg_queue \<Rightarrow> queue_item \<Rightarrow> driver \<Rightarrow> driver" where
  "push_back q it d = d\<lparr>d_queue := (d_queue d)(q := d_queue d q @ [it]), d_event := (d_event d)(q := True)\<rparr>"

text \<open>\<open>pop_front\<close> with the reset of the event of an empty queue.\<close>

definition pop_front :: "msg_queue \<Rightarrow> driver \<Rightarrow> driver" where
  "pop_front q d = (let xs = tl (d_queue d q) in
     d\<lparr>d_queue := (d_queue d)(q := xs), d_event := (if xs = [] then (d_event d)(q := False) else d_event d)\<rparr>)"

definition set_queue :: "msg_queue \<Rightarrow> queue_item list \<Rightarrow> driver \<Rightarrow> driver" where
  "set_queue q xs d = d\<lparr>d_queue := (d_queue d)(q := xs),
     d_event := (if xs = [] then (d_event d)(q := False) else d_event d)\<rparr>"

definition put_node :: "uint8 \<Rightarrow> node \<Rightarrow> driver \<Rightarrow> driver" where
  "put_node nid n d = d\<lparr>d_nodes := (d_nodes d)(nid \<mapsto> n)\<rparr>"

definition notify :: "notification \<Rightarrow> driver \<Rightarrow> driver" where
  "notify x d = d\<lparr>d_notes := d_notes d @ [x]\<rparr>"

definition new_cci :: "cci \<Rightarrow> driver \<Rightarrow> nat \<times> driver" where
  "new_cci c d = (d_nextCci d, d\<lparr>d_ccis := (d_ccis d)(d_nextCci d \<mapsto> c), d_nextCci := d_nextCci d + 1\<rparr>)"

definition put_cci :: "nat \<Rightarrow> cci \<Rightarrow> driver \<Rightarrow> driver" where
  "put_cci a c d = d\<lparr>d_ccis := (d_ccis d)(a \<mapsto> c)\<rparr>"

text \<open>\<open>delete\<close> of an item: undefined when it is not there.\<close>

definition free_cci :: "nat \<Rightarrow> cci_heap \<Rightarrow> cci_heap option" where
  "free_cci a h = (case h a of None \<Rightarrow> None | Some c \<Rightarrow> Some (h(a := None)))"

text \<open>Monadic iteration, for the loops over lists of items.\<close>

fun run_all :: "('x \<Rightarrow> 's \<Rightarrow> 's option) \<Rightarrow> 'x list \<Rightarrow> 's \<Rightarrow> 's option" where
  "run_all f [] s = Some s"
| "run_all f (x # xs) s = do { s1 \<leftarrow> f x s; run_all f xs s1 }"

lemma run_all_append: "run_all f (xs @ ys) s = do { s1 \<leftarrow> run_all f xs s; run_all f ys s1 }"
  by (induction xs arbitrary: s) (auto split: Option.bind_splits)

section \<open>Ownership of controller command items\<close>

fun cci_addr :: "queue_item \<Rightarrow> nat list" where
  "cci_addr (Item_Controller a) = [a]"
| "cci_addr _ = []"

definition addrs :: "queue_item list \<Rightarrow> nat list" where
  "addrs xs = concat (map cci_addr xs)"

lemma addrs_simps [simp]:
  "addrs [] = []" "addrs (x # xs) = cci_addr x @ addrs xs" "addrs (xs @ ys) = addrs xs @ addrs ys"
  by (simp_all add: addrs_def)

lemma set_addrs: "a \<in> set (addrs xs) \<longleftrightarrow> Item_Controller a \<in> set xs"
proof (induction xs)
  case (Cons x xs)
  then show ?case by (cases x) auto
qed simp

definition pending :: "driver \<Rightarrow> uint8 \<Rightarrow> queue_item list" where
  "pending d nid = (case d_nodes d nid of None \<Rightarrow> []
     | Some n \<Rightarrow> (case n_wakeUp n of None \<Rightarrow> [] | Some w \<Rightarrow> w_pending w))"

text \<open>
  Every item on the heap is owned by exactly one entry of the controller queue or of one pending
  queue, and every entry owns an item that is still there; no other queue holds any.
\<close>

definition owned :: "(nat \<Rightarrow> bool) \<Rightarrow> queue_item list \<Rightarrow> (uint8 \<Rightarrow> queue_item list) \<Rightarrow> bool" where
  "owned live ctl pend \<longleftrightarrow>
     distinct (addrs ctl) \<and> (\<forall>i. distinct (addrs (pend i))) \<and>
     (\<forall>i. set (addrs (pend i)) \<inter> set (addrs ctl) = {}) \<and>
     (\<forall>i j. i \<noteq> j \<longrightarrow> set (addrs (pend i)) \<inter> set (addrs (pend j)) = {}) \<and>
     (\<forall>a. live a \<longleftrightarrow> a \<in> set (addrs ctl) \<or> (\<exists>i. a \<in> set (addrs (pend i))))"

definition heap_ok :: "driver \<Rightarrow> bool" where
  "heap_ok d \<longleftrightarrow>
     owned (\<lambda>a. d_ccis d a \<noteq> None) (d_queue d MsgQueue_Controller) (pending d) \<and>
     (\<forall>q. q \<noteq> MsgQueue_Controller \<longrightarrow> addrs (d_queue d q) = []) \<and>
     (\<forall>a \<ge> d_nextCci d. d_ccis d a = None)"

text \<open>The running command is the item of an entry of the controller queue.\<close>

definition cmd_ok :: "driver \<Rightarrow> bool" where
  "cmd_ok d \<longleftrightarrow> (\<forall>a. d_currentCmd d = Some a \<longrightarrow> a \<in> set (addrs (d_queue d MsgQueue_Controller)))"

text \<open>
  The event of a queue is set exactly when the queue is not empty; the event of the controller
  queue may also be reset while its command waits for the network.
\<close>

definition event_ok :: "driver \<Rightarrow> bool" where
  "event_ok d \<longleftrightarrow> (\<forall>q. (d_event d q \<longrightarrow> d_queue d q \<noteq> []) \<and>
     (q \<noteq> MsgQueue_Controller \<longrightarrow> d_queue d q \<noteq> [] \<longrightarrow> d_event d q))"

definition driver_inv :: "driver \<Rightarrow> bool" where
  "driver_inv d \<longleftrightarrow> heap_ok d \<and> cmd_ok d \<and> event_ok d"

lemma Driver_new_inv: "driver_inv (Driver_new c)"
  by (simp add: driver_inv_def heap_ok_def cmd_ok_def event_ok_def Driver_new_def owned_def pending_def addrs_def)

end
