(* ===== verification/Send_Queues.thy ===== *)
theory Send_Queues
  imports Driver_State
begin

text \<open>
  Queueing of messages and markers (\<open>cpp/src/Driver.cpp\<close>, \<open>WakeUp::QueueMsg\<close> of
  \<open>cpp/src/command_classes/WakeUp.cpp\<close>): \<open>SendMsg\<close>, \<open>SendQueryStageComplete\<close>,
  \<open>RetryQueryStageComplete\<close>, \<open>BeginControllerCommand\<close>, \<open>UpdateControllerState\<close>,
  \<open>RemoveCurrentMsg\<close>, \<open>RemoveQueues\<close> and \<open>CheckCompletedNodeQueries\<close>, with the lemmas that each
  keeps the driver's invariant.
\<close>

abbreviation (input) CC_WAKE_UP :: uint8 where "CC_WAKE_UP \<equiv> 0x84"

section \<open>Controller command state\<close>

definition ends_command :: "controller_state \<Rightarrow> bool" where
  "ends_command st = (case st of
     ControllerState_Error \<Rightarrow> True | ControllerState_Cancel \<Rightarrow> True | ControllerState_Failed \<Rightarrow> True
   | ControllerState_Sleeping \<Rightarrow> True | ControllerState_NodeFailed \<Rightarrow> True
   | ControllerState_NodeOK \<Rightarrow> True | ControllerState_Completed \<Rightarrow> True | _ \<Rightarrow> False)"

definition UpdateControllerState :: "controller_state \<Rightarrow> controller_error \<Rightarrow> driver \<Rightarrow> driver option" where
  "UpdateControllerState st err d =
     (case d_currentCmd d of None \<Rightarrow> Some d
      | Some a \<Rightarrow> do {
          c \<leftarrow> d_ccis d a;
          let changed = (st \<noteq> cci_state c);
          let c1 = (if changed then c\<lparr>cci_stateChanged := True, cci_state := st,
                                       cci_done := (cci_done c \<or> ends_command st)\<rparr> else c);
          let c2 = (if err \<noteq> ControllerError_None then c1\<lparr>cci_error := err\<rparr> else c1);
          let d1 = put_cci a c2 d;
          let d2 = (if changed \<and> ends_command st
                    then d1\<lparr>d_event := (d_event d1)(MsgQueue_Controller := True)\<rparr> else d1);
          Some (notify (Note_ControllerCommand (cci_node c) (cci_command c) st err) d2)
        })"

section \<open>The pending queue of a sleeping node\<close>

text \<open>\<open>MsgQueueItem::operator ==\<close>, called on the queued item \<open>x\<close> with the new item \<open>it\<close>.\<close>

definition item_eq :: "cci_heap \<Rightarrow> queue_item \<Rightarrow> queue_item \<Rightarrow> bool option" where
  "item_eq h x it = (case (x, it) of
     (Item_SendMsg m, Item_SendMsg m') \<Rightarrow> Some (msg_eq m' m)
   | (Item_QueryStageComplete n s r, Item_QueryStageComplete n' s' r') \<Rightarrow> Some (n' = n \<and> s' = s)
   | (Item_Controller a, Item_Controller a') \<Rightarrow> do {
       c \<leftarrow> h a; c' \<leftarrow> h a';
       Some (cci_command c' = cci_command c \<and> cci_callback c' = cci_callback c)
     }
   | (Item_ReloadNode n, Item_ReloadNode n') \<Rightarrow> Some (n' = n)
   | _ \<Rightarrow> Some False)"

text \<open>The loop that deletes the duplicates of \<open>it\<close>.\<close>

fun drop_dups :: "queue_item \<Rightarrow> queue_item list \<Rightarrow> cci_heap \<Rightarrow> (queue_item list \<times> cci_heap) option" where
  "drop_dups it [] h = Some ([], h)"
| "drop_dups it (x # xs) h = do {
     eq \<leftarrow> item_eq h x it;
     if eq then do {
       h1 \<leftarrow> run_all free_cci (cci_addr x) h;
       drop_dups it xs h1
     } else do {
       (ys, h1) \<leftarrow> drop_dups it xs h;
       Some (x # ys, h1)
     }
   }"

definition reset_attempts :: "queue_item \<Rightarrow> queue_item" where
  "reset_attempts it = (case it of Item_SendMsg m \<Rightarrow> Item_SendMsg (m\<lparr>m_sendAttempts := 0\<rparr>) | _ \<Rightarrow> it)"

text \<open>\<open>WakeUp::QueueMsg\<close> of node \<open>nid\<close>.\<close>

definition QueueMsg :: "uint8 \<Rightarrow> queue_item \<Rightarrow> driver \<Rightarrow> driver option" where
  "QueueMsg nid it d = do {
     n \<leftarrow> d_nodes d nid;
     w \<leftarrow> n_wakeUp n;
     (ys, h) \<leftarrow> drop_dups it (w_pending w) (d_ccis d);
     Some (put_node nid (n\<lparr>n_wakeUp := Some (w\<lparr>w_pending := ys @ [reset_attempts it]\<rparr>)\<rparr>)
             (d\<lparr>d_ccis := h\<rparr>))
   }"

section \<open>Queueing\<close>

text \<open>The wake-up class of a node that sleeps now.\<close>

definition sleeping :: "node \<Rightarrow> bool" where
  "sleeping n \<longleftrightarrow> \<not> n_listening n \<and> (case n_wakeUp n of None \<Rightarrow> False | Some w \<Rightarrow> \<not> w_awake w)"

definition needs_encryption :: "node \<Rightarrow> msg \<Rightarrow> bool" where
  "needs_encryption n m \<longleftrightarrow> n_classes n CC_SECURITY \<noteq> None \<and>
     (case n_classes n (GetSendingCommandClass m) of None \<Rightarrow> False | Some c \<Rightarrow> c_secured c)"

definition SendMsg :: "msg \<Rightarrow> msg_queue \<Rightarrow> driver \<Rightarrow> driver option" where
  "SendMsg msg q d0 = do {
     (cb, m) \<leftarrow> Finalize (d_callbackId d0) (msg\<lparr>m_homeId := d_homeId d0\<rparr>);
     let d = d0\<lparr>d_callbackId := cb\<rparr>;
     case d_nodes d (m_targetNodeId m) of
       None \<Rightarrow> Some (push_back q (Item_SendMsg m) d)
     | Some n \<Rightarrow>
         (let m1 = (if needs_encryption n m then m\<lparr>m_encrypted := True\<rparr> else m) in
          if sleeping n then
            (case d_currentCmd d of
               None \<Rightarrow> QueueMsg (m_targetNodeId m) (Item_SendMsg m1) d
             | Some a \<Rightarrow> do {
                 c \<leftarrow> d_ccis d a;
                 let (b, d1) = new_cci c d;
                 d2 \<leftarrow> UpdateControllerState ControllerState_Sleeping ControllerError_None d1;
                 QueueMsg (m_targetNodeId m) (Item_Controller b) d2
               })
          else Some (push_back q (Item_SendMsg m1) d))
   }"

definition SendQueryStageComplete :: "uint8 \<Rightarrow> query_stage \<Rightarrow> driver \<Rightarrow> driver option" where
  "SendQueryStageComplete nid stage d = (case d_nodes d nid of
     None \<Rightarrow> Some d
   | Some n \<Rightarrow> if sleeping n then QueueMsg nid (Item_QueryStageComplete nid stage False) d
               else Some (push_back MsgQueue_Query (Item_QueryStageComplete nid stage False) d))"

text \<open>The search for the first entry of the stage; its retry mark is set.\<close>

fun mark_retry :: "uint8 \<Rightarrow> query_stage \<Rightarrow> queue_item list \<Rightarrow> queue_item list" where
  "mark_retry nid stage [] = []"
| "mark_retry nid stage (it # its) = (case it of
     Item_QueryStageComplete n s r \<Rightarrow>
       if n = nid \<and> s = stage then Item_QueryStageComplete n s True # its
       else it # mark_retry nid stage its
   | _ \<Rightarrow> it # mark_retry nid stage its)"

definition RetryQueryStageComplete :: "uint8 \<Rightarrow> query_stage \<Rightarrow> driver \<Rightarrow> driver" where
  "RetryQueryStageComplete nid stage d =
     d\<lparr>d_queue := (d_queue d)(MsgQueue_Query := mark_retry nid stage (d_queue d MsgQueue_Query))\<rparr>"

definition BeginControllerCommand ::
  "controller_command \<Rightarrow> nat \<Rightarrow> nat \<Rightarrow> bool \<Rightarrow> uint8 \<Rightarrow> uint8 \<Rightarrow> driver \<Rightarrow> bool \<times> driver" where
  "BeginControllerCommand cmd callback context highPower nid arg d =
     (if cmd = ControllerCommand_None then (False, d)
      else let (a, d1) = new_cci \<lparr> cci_state = ControllerState_Normal, cci_stateChanged = False,
               cci_done = False, cci_command = cmd, cci_callback = callback,
               cci_error = ControllerError_None, cci_context = context, cci_highPower = highPower,
               cci_added = False, cci_node = nid, cci_arg = arg, cci_info = replicate 254 0,
               cci_infoLength = 0 \<rparr> d
           in (True, push_back MsgQueue_Controller (Item_Controller a) d1))"

section \<open>Removal\<close>

definition RemoveCurrentMsg :: "driver \<Rightarrow> driver" where
  "RemoveCurrentMsg d = d\<lparr>d_currentMsg := None, d_expectedCallbackId := 0, d_expectedCommandClassId := 0,
     d_expectedNodeId := 0, d_expectedReply := 0, d_waitingForAck := False, d_nonceReportSent := 0,
     d_nonceReportSentAttempt := 0\<rparr>"

text \<open>One queue of \<open>RemoveQueues\<close>: what stays, and the heap without the deleted items.\<close>

fun remove_items ::
  "uint8 \<Rightarrow> nat option \<Rightarrow> queue_item list \<Rightarrow> cci_heap \<Rightarrow> (queue_item list \<times> cci_heap) option" where
  "remove_items nid cur [] h = Some ([], h)"
| "remove_items nid cur (it # its) h = do {
     (rem, h1) \<leftarrow> (case it of
        Item_SendMsg m \<Rightarrow> Some (m_targetNodeId m = nid, h)
      | Item_QueryStageComplete n s r \<Rightarrow> Some (n = nid, h)
      | Item_Controller a \<Rightarrow> do {
          c \<leftarrow> h a;
          if nid = cci_node c \<and> cur \<noteq> Some a then do { h2 \<leftarrow> free_cci a h; Some (True, h2) }
          else Some (False, h)
        }
      | Item_ReloadNode n \<Rightarrow> Some (n = nid, h));
     (ys, h3) \<leftarrow> remove_items nid cur its h1;
     Some (if rem then ys else it # ys, h3)
   }"

definition remove_from_queue :: "uint8 \<Rightarrow> msg_queue \<Rightarrow> driver \<Rightarrow> driver option" where
  "remove_from_queue nid q d = do {
     (ys, h) \<leftarrow> remove_items nid (d_currentCmd d) (d_queue d q) (d_ccis d);
     Some (set_queue q ys (d\<lparr>d_ccis := h\<rparr>))
   }"

definition RemoveQueues :: "uint8 \<Rightarrow> driver \<Rightarrow> driver option" where
  "RemoveQueues nid d =
     run_all (remove_from_queue nid) all_queues
       (case d_currentMsg d of None \<Rightarrow> d
        | Some m \<Rightarrow> if m_targetNodeId m = nid then RemoveCurrentMsg d else d)"

section \<open>Completion of the interview of all nodes\<close>

text \<open>The flags \<open>all\<close>, \<open>sleepingOnly\<close> and \<open>deadFound\<close> after the loop over the node table.\<close>

fun completed_loop :: "node option list \<Rightarrow> bool \<times> bool \<times> bool \<Rightarrow> bool \<times> bool \<times> bool" where
  "completed_loop [] f = f"
| "completed_loop (None # ns) f = completed_loop ns f"
| "completed_loop (Some n # ns) (all, sleepingOnly, deadFound) =
     (if m_queryStage (n_query n) \<noteq> St_Complete then
        (if \<not> m_nodeAlive (n_query n) then completed_loop ns (all, sleepingOnly, True)
         else completed_loop ns (False, sleepingOnly \<and> \<not> n_listening n, deadFound))
      else completed_loop ns (all, sleepingOnly, deadFound))"

definition node_table :: "driver \<Rightarrow> node option list" where
  "node_table d = map (\<lambda>i. d_nodes d (of_nat i)) [0..<256]"

definition CheckCompletedNodeQueries :: "driver \<Rightarrow> driver" where
  "CheckCompletedNodeQueries d =
     (if d_allNodesQueried d then d
      else let (all, sleepingOnly, deadFound) = completed_loop (node_table d) (True, True, False) in
        if all then
          (notify (if deadFound then Note_AllNodesQueriedSomeDead else Note_AllNodesQueried) d)
            \<lparr>d_awakeNodesQueried := True, d_allNodesQueried := True\<rparr>
        else if sleepingOnly \<and> \<not> d_awakeNodesQueried d then
          (notify Note_AwakeNodesQueried d)\<lparr>d_awakeNodesQueried := True\<rparr>
        else d)"

section \<open>Ownership lemmas\<close>

text \<open>The items on the heap.\<close>

definition live :: "driver \<Rightarrow> nat \<Rightarrow> bool" where
  "live d a \<longleftrightarrow> d_ccis d a \<noteq> None"

lemma owned_cong: "owned L xs p \<Longrightarrow> addrs xs = addrs ys \<Longrightarrow> owned L ys p"
  by (simp add: owned_def)

lemma owned_new:
  assumes "owned L xs p" and "\<not> L b"
  shows "owned (\<lambda>a. L a \<or> a = b) (Item_Controller b # xs) p"
  using assms unfolding owned_def by auto

lemma owned_append1: "owned L (it # xs) p \<longleftrightarrow> owned L (xs @ [it]) p"
  unfolding owned_def by auto

lemma free_addr:
  "run_all free_cci (cci_addr x) h = Some h1 \<Longrightarrow> h1 a = (if a \<in> set (cci_addr x) then None else h a)"
  by (cases x) (auto simp: free_cci_def split: Option.bind_splits option.splits)

lemma drop_dups_owned:
  assumes "drop_dups it xs h = Some (ys, h')" and "distinct (addrs xs)"
  shows "distinct (addrs ys) \<and> set (addrs ys) \<subseteq> set (addrs xs) \<and>
    h' = (\<lambda>a. if a \<in> set (addrs xs) \<and> a \<notin> set (addrs ys) then None else h a)"
  using assms
proof (induction it xs h arbitrary: ys h' rule: drop_dups.induct)
  case (2 it x xs h)
  obtain eq where eq: "item_eq h x it = Some eq" using 2(3) by (cases "item_eq h x it") auto
  show ?case
  proof (cases eq)
    case True
    then obtain h1 where h1: "run_all free_cci (cci_addr x) h = Some h1" "drop_dups it xs h1 = Some (ys, h')"
      using 2(3) eq by (auto split: Option.bind_splits)
    have f: "h1 = (\<lambda>a. if a \<in> set (cci_addr x) then None else h a)"
      using free_addr [OF h1(1)] by (auto simp: fun_eq_iff)
    have "distinct (addrs ys) \<and> set (addrs ys) \<subseteq> set (addrs xs) \<and>
      h' = (\<lambda>a. if a \<in> set (addrs xs) \<and> a \<notin> set (addrs ys) then None else h1 a)"
      by (rule 2(1) [OF eq True h1]) (use 2(4) in auto)
    then show ?thesis using f 2(4) by (auto simp: fun_eq_iff)
  next
    case False
    then obtain ys1 where y: "drop_dups it xs h = Some (ys1, h')" "ys = x # ys1"
      using 2(3) eq by (auto split: Option.bind_splits)
    have "distinct (addrs ys1) \<and> set (addrs ys1) \<subseteq> set (addrs xs) \<and>
      h' = (\<lambda>a. if a \<in> set (addrs xs) \<and> a \<notin> set (addrs ys1) then None else h a)"
      by (rule 2(2) [OF eq False y(1)]) (use 2(4) in auto)
    then show ?thesis using y 2(4) by (auto simp: fun_eq_iff)
  qed
qed auto

lemma drop_dups_defined:
  assumes "\<forall>a \<in> set (addrs xs). h a \<noteq> None" and "\<forall>a \<in> set (cci_addr it). h a \<noteq> None"
    and "distinct (addrs xs)" and "set (cci_addr it) \<inter> set (addrs xs) = {}"
  shows "\<exists>ys h'. drop_dups it xs h = Some (ys, h')"
  using assms
proof (induction xs arbitrary: h)
  case (Cons x xs)
  obtain eq where eq: "item_eq h x it = Some eq"
    using Cons.prems(1,2) by (cases x; cases it) (auto simp: item_eq_def)
  show ?case
  proof (cases eq)
    case True
    have "\<exists>h1. run_all free_cci (cci_addr x) h = Some h1 \<and> (\<forall>a. a \<notin> set (cci_addr x) \<longrightarrow> h1 a = h a)"
      using Cons.prems(1) by (cases x) (auto simp: free_cci_def split: option.splits)
    then obtain h1 where h1: "run_all free_cci (cci_addr x) h = Some h1"
      "\<forall>a. a \<notin> set (cci_addr x) \<longrightarrow> h1 a = h a" by blast
    have "a \<notin> set (cci_addr x)" if "a \<in> set (addrs xs) \<or> a \<in> set (cci_addr it)" for a
      using that Cons.prems(3,4) by auto
    then have "\<forall>a \<in> set (addrs xs). h1 a \<noteq> None" "\<forall>a \<in> set (cci_addr it). h1 a \<noteq> None"
      using Cons.prems(1,2) h1(2) by simp_all
    then have "\<exists>ys h'. drop_dups it xs h1 = Some (ys, h')"
      using Cons.prems(3,4) by (intro Cons.IH) auto
    then show ?thesis using eq True h1 by auto
  next
    case False
    have "\<exists>ys h'. drop_dups it xs h = Some (ys, h')" using Cons.prems by (intro Cons.IH) auto
    then show ?thesis using eq False by auto
  qed
qed simp

lemma reset_attempts_addr [simp]: "cci_addr (reset_attempts it) = cci_addr it"
  by (cases it) (simp_all add: reset_attempts_def)

lemma pending_put_node:
  "pending (put_node nid n d) = (pending d)(nid := (case n_wakeUp n of None \<Rightarrow> [] | Some w \<Rightarrow> w_pending w))"
  by (auto simp: pending_def put_node_def fun_eq_iff)

lemma pending_simps [simp]: "pending (d\<lparr>d_ccis := h\<rparr>) = pending d"
  by (simp add: pending_def fun_eq_iff)

lemma QueueMsg_shape:
  assumes "QueueMsg nid it d = Some d'"
  obtains n w ys h where "d_nodes d nid = Some n" "n_wakeUp n = Some w"
    "drop_dups it (w_pending w) (d_ccis d) = Some (ys, h)"
    "d' = put_node nid (n\<lparr>n_wakeUp := Some (w\<lparr>w_pending := ys @ [reset_attempts it]\<rparr>)\<rparr>) (d\<lparr>d_ccis := h\<rparr>)"
  using assms by (auto simp: QueueMsg_def split: Option.bind_splits)

lemma owned_put:
  assumes o: "owned L (it # xs) p" and d: "distinct (addrs zs)"
    and s: "set (addrs zs) \<subseteq> set (addrs (p i))"
  shows "owned (\<lambda>a. L a \<and> \<not> (a \<in> set (addrs (p i)) \<and> a \<notin> set (addrs zs))) xs (p(i := zs @ [it]))"
proof -
  have A: "set (addrs (p j)) \<inter> set (cci_addr it) = {}" "set (addrs (p j)) \<inter> set (addrs xs) = {}" for j
    using o by (auto simp: owned_def)
  have B: "j \<noteq> k \<Longrightarrow> set (addrs (p j)) \<inter> set (addrs (p k)) = {}" for j k
    using o by (auto simp: owned_def)
  have C: "distinct (cci_addr it @ addrs xs)" "distinct (addrs (p j))" for j
    using o by (auto simp: owned_def)
  have D: "L a \<longleftrightarrow> a \<in> set (cci_addr it) \<or> a \<in> set (addrs xs) \<or> (\<exists>j. a \<in> set (addrs (p j)))" for a
    using o by (auto simp: owned_def)
  show ?thesis unfolding owned_def
  proof (intro conjI allI impI)
    show "distinct (addrs xs)" using C(1) by simp
    show "distinct (addrs ((p(i := zs @ [it])) j))" for j
      using C A(1) [of i] d s by (auto dest: subsetD)
    show "set (addrs ((p(i := zs @ [it])) j)) \<inter> set (addrs xs) = {}" for j
      using A(2) [of j] A(2) [of i] C(1) s by auto
    show "set (addrs ((p(i := zs @ [it])) j)) \<inter> set (addrs ((p(i := zs @ [it])) k)) = {}" if "j \<noteq> k" for j k
      using that B [of j k] A(1) [of j] A(1) [of k] s by auto
    show "L a \<and> \<not> (a \<in> set (addrs (p i)) \<and> a \<notin> set (addrs zs)) \<longleftrightarrow>
      a \<in> set (addrs xs) \<or> (\<exists>j. a \<in> set (addrs ((p(i := zs @ [it])) j)))" for a
    proof (cases "a \<in> set (addrs (p i))")
      case True
      have "j \<noteq> i \<Longrightarrow> a \<notin> set (addrs (p j))" for j using B [of j i] True by blast
      moreover have "a \<notin> set (cci_addr it)" "a \<notin> set (addrs xs)" using A [of i] True by blast+
      ultimately show ?thesis using D [of a] True s by auto
    next
      case False
      then show ?thesis using D [of a] s by (auto split: if_splits)
    qed
  qed
qed

lemma QueueMsg_owned:
  assumes "QueueMsg nid it d = Some d'" and o: "owned (live d) (it # xs) (pending d)"
  shows "owned (live d') xs (pending d')"
  using assms(1)
proof (rule QueueMsg_shape)
  fix n w ys h
  assume n: "d_nodes d nid = Some n" "n_wakeUp n = Some w"
    and dd: "drop_dups it (w_pending w) (d_ccis d) = Some (ys, h)"
    and d': "d' = put_node nid (n\<lparr>n_wakeUp := Some (w\<lparr>w_pending := ys @ [reset_attempts it]\<rparr>)\<rparr>) (d\<lparr>d_ccis := h\<rparr>)"
  have p: "pending d nid = w_pending w" using n by (simp add: pending_def)
  have "distinct (addrs (w_pending w))" using o p by (metis owned_def)
  then have H: "distinct (addrs ys)" "set (addrs ys) \<subseteq> set (addrs (w_pending w))"
    "h = (\<lambda>a. if a \<in> set (addrs (w_pending w)) \<and> a \<notin> set (addrs ys) then None else d_ccis d a)"
    using drop_dups_owned [OF dd] by auto
  have "live d' = (\<lambda>a. live d a \<and> \<not> (a \<in> set (addrs (pending d nid)) \<and> a \<notin> set (addrs ys)))"
    using H(3) p by (auto simp: live_def d' put_node_def fun_eq_iff)
  moreover have "owned (\<lambda>a. live d a \<and> \<not> (a \<in> set (addrs (pending d nid)) \<and> a \<notin> set (addrs ys))) xs
      ((pending d)(nid := ys @ [it]))"
    by (rule owned_put [OF o H(1)]) (use H(2) p in simp)
  moreover have "owned L xs ((pending d)(nid := ys @ [it])) \<longleftrightarrow> owned L xs (pending d')" for L
    by (simp add: d' pending_put_node owned_def fun_upd_def if_distrib [of addrs] cong: if_cong)
  ultimately show ?thesis by simp
qed

lemma QueueMsg_frame:
  assumes "QueueMsg nid it d = Some d'"
  shows "d_queue d' = d_queue d" "d_event d' = d_event d" "d_currentCmd d' = d_currentCmd d"
    "d_nextCci d' = d_nextCci d" "d_currentMsg d' = d_currentMsg d" "d_out d' = d_out d"
  using assms by (auto elim!: QueueMsg_shape simp: put_node_def)

lemma QueueMsg_bound:
  assumes "QueueMsg nid it d = Some d'" and "\<forall>i. distinct (addrs (pending d i))" and "d_ccis d a = None"
  shows "d_ccis d' a = None"
  using assms(1)
proof (rule QueueMsg_shape)
  fix n w ys h
  assume n: "d_nodes d nid = Some n" "n_wakeUp n = Some w"
    and dd: "drop_dups it (w_pending w) (d_ccis d) = Some (ys, h)"
    and d': "d' = put_node nid (n\<lparr>n_wakeUp := Some (w\<lparr>w_pending := ys @ [reset_attempts it]\<rparr>)\<rparr>) (d\<lparr>d_ccis := h\<rparr>)"
  have "distinct (addrs (w_pending w))" using assms(2) n by (metis (no_types, lifting) option.simps(5) pending_def)
  then show ?thesis using drop_dups_owned [OF dd] assms(3) d' by (simp add: put_node_def)
qed

lemma QueueMsg_defined:
  assumes "d_nodes d nid = Some n" and "n_wakeUp n = Some w" and o: "owned (live d) (it # xs) (pending d)"
  shows "\<exists>d'. QueueMsg nid it d = Some d'"
proof -
  have p: "pending d nid = w_pending w" using assms(1,2) by (simp add: pending_def)
  have L: "live d a \<longleftrightarrow> a \<in> set (addrs (it # xs)) \<or> (\<exists>i. a \<in> set (addrs (pending d i)))" for a
    using o unfolding owned_def by blast
  have "\<exists>ys h'. drop_dups it (w_pending w) (d_ccis d) = Some (ys, h')"
  proof (rule drop_dups_defined)
    show "\<forall>a \<in> set (addrs (w_pending w)). d_ccis d a \<noteq> None" using L p unfolding live_def by metis
    show "\<forall>a \<in> set (cci_addr it). d_ccis d a \<noteq> None" using L unfolding live_def by simp
    show "distinct (addrs (w_pending w))" using o p by (metis owned_def)
    have "set (addrs (pending d nid)) \<inter> set (addrs (it # xs)) = {}" using o unfolding owned_def by blast
    then show "set (cci_addr it) \<inter> set (addrs (w_pending w)) = {}" using p by auto
  qed
  then show ?thesis using assms(1,2) by (auto simp: QueueMsg_def)
qed

section \<open>The operations keep the invariant\<close>

lemma live_eq: "(\<lambda>a. d_ccis d a \<noteq> None) = live d"
  by (simp add: live_def fun_eq_iff)

lemma heap_ok_live:
  "heap_ok d \<longleftrightarrow> owned (live d) (d_queue d MsgQueue_Controller) (pending d) \<and>
     (\<forall>q. q \<noteq> MsgQueue_Controller \<longrightarrow> addrs (d_queue d q) = []) \<and> (\<forall>a \<ge> d_nextCci d. \<not> live d a)"
  unfolding heap_ok_def live_eq by (simp add: live_def)

lemma event_okI:
  assumes "\<And>q. d_event d q \<Longrightarrow> d_queue d q \<noteq> []"
    and "\<And>q. q \<noteq> MsgQueue_Controller \<Longrightarrow> d_queue d q \<noteq> [] \<Longrightarrow> d_event d q"
  shows "event_ok d"
  using assms unfolding event_ok_def by blast

lemma event_okD:
  "event_ok d \<Longrightarrow> d_event d q \<Longrightarrow> d_queue d q \<noteq> []"
  "event_ok d \<Longrightarrow> d_queue d q \<noteq> [] \<Longrightarrow> q \<noteq> MsgQueue_Controller \<Longrightarrow> d_event d q"
  unfolding event_ok_def by blast+

lemma event_ok_eq: "d_queue d' = d_queue d \<Longrightarrow> d_event d' = d_event d \<Longrightarrow> event_ok d' = event_ok d"
  by (simp add: event_ok_def)

lemma event_ok_set:
  assumes "event_ok d" and "d_queue d' = d_queue d"
    and "d_event d' = d_event d \<or> d_event d' = (d_event d)(q := True) \<and> d_queue d q \<noteq> []"
  shows "event_ok d'"
proof (rule event_okI)
  show "d_queue d' p \<noteq> []" if "d_event d' p" for p
    using that assms event_okD(1) [OF assms(1), of p] by (auto split: if_splits)
  show "d_event d' p" if "p \<noteq> MsgQueue_Controller" "d_queue d' p \<noteq> []" for p
    using that assms event_okD(2) [OF assms(1), of p] by (auto split: if_splits)
qed

lemma event_ok_push:
  assumes "event_ok d" and "d_queue d' = (d_queue d)(q := d_queue d q @ [it])"
    and "d_event d' = (d_event d)(q := True)"
  shows "event_ok d'"
proof (rule event_okI)
  show "d_queue d' p \<noteq> []" if "d_event d' p" for p
    using that assms(2,3) event_okD(1) [OF assms(1), of p] by (auto split: if_splits)
  show "d_event d' p" if "p \<noteq> MsgQueue_Controller" "d_queue d' p \<noteq> []" for p
    using that assms(2,3) event_okD(2) [OF assms(1), of p] by (auto split: if_splits)
qed

lemma pending_nodes: "d_nodes d' = d_nodes d \<Longrightarrow> pending d' = pending d"
  by (simp add: pending_def fun_eq_iff)

text \<open>The part of the state the invariant speaks of.\<close>

definition same_queues :: "driver \<Rightarrow> driver \<Rightarrow> bool" where
  "same_queues d' d \<longleftrightarrow> d_nodes d' = d_nodes d \<and> d_queue d' = d_queue d \<and> d_event d' = d_event d \<and>
     d_currentCmd d' = d_currentCmd d \<and> d_ccis d' = d_ccis d \<and> d_nextCci d' = d_nextCci d"

lemma same_queues_inv: "same_queues d' d \<Longrightarrow> driver_inv d' \<longleftrightarrow> driver_inv d"
  unfolding same_queues_def driver_inv_def heap_ok_def cmd_ok_def event_ok_def
  using pending_nodes [of d' d] by simp

lemma UpdateControllerState_shape:
  assumes "UpdateControllerState st err d = Some d'"
  shows "live d' = live d \<and> d_queue d' = d_queue d \<and> pending d' = pending d \<and> d_nodes d' = d_nodes d \<and>
    d_nextCci d' = d_nextCci d \<and> d_currentCmd d' = d_currentCmd d \<and> d_currentMsg d' = d_currentMsg d \<and>
    (d_event d' = d_event d \<or>
     d_event d' = (d_event d)(MsgQueue_Controller := True) \<and> d_currentCmd d \<noteq> None)"
  using assms
  by (auto simp: UpdateControllerState_def Let_def put_cci_def notify_def live_def fun_eq_iff pending_def
      split: Option.bind_splits option.splits if_splits)

lemma UpdateControllerState_inv:
  assumes "UpdateControllerState st err d = Some d'" and "driver_inv d"
  shows "driver_inv d'"
proof -
  note s = UpdateControllerState_shape [OF assms(1)]
  have "d_currentCmd d \<noteq> None \<longrightarrow> d_queue d MsgQueue_Controller \<noteq> []"
    using assms(2) by (auto simp: driver_inv_def cmd_ok_def)
  then have "event_ok d'"
    using event_ok_set [of d d' MsgQueue_Controller] s assms(2) by (auto simp: driver_inv_def)
  moreover have "heap_ok d'" "cmd_ok d'"
    using s assms(2) by (simp_all add: driver_inv_def heap_ok_live cmd_ok_def)
  ultimately show ?thesis by (simp add: driver_inv_def)
qed

lemma cmd_live: "driver_inv d \<Longrightarrow> d_currentCmd d = Some a \<Longrightarrow> \<exists>c. d_ccis d a = Some c"
  by (auto simp: driver_inv_def heap_ok_def cmd_ok_def owned_def)

lemma UpdateControllerState_defined:
  "driver_inv d \<Longrightarrow> \<exists>d'. UpdateControllerState st err d = Some d'"
  using cmd_live by (fastforce simp: UpdateControllerState_def Let_def split: option.split)

lemma push_back_simps [simp]:
  "d_nodes (push_back q it d) = d_nodes d" "d_ccis (push_back q it d) = d_ccis d"
  "d_currentCmd (push_back q it d) = d_currentCmd d" "d_nextCci (push_back q it d) = d_nextCci d"
  "d_queue (push_back q it d) = (d_queue d)(q := d_queue d q @ [it])"
  "d_event (push_back q it d) = (d_event d)(q := True)"
  "pending (push_back q it d) = pending d" "live (push_back q it d) = live d"
  by (simp_all add: push_back_def pending_def live_def fun_eq_iff)

lemma same_addrs_inv:
  assumes "driver_inv d" and "event_ok d'" and "\<forall>q. addrs (d_queue d' q) = addrs (d_queue d q)"
    and "d_nodes d' = d_nodes d" and "d_ccis d' = d_ccis d" and "d_currentCmd d' = d_currentCmd d"
    and "d_nextCci d' = d_nextCci d"
  shows "driver_inv d'"
proof -
  have "owned (live d) (d_queue d' MsgQueue_Controller) (pending d)"
    by (rule owned_cong [of _ "d_queue d MsgQueue_Controller"])
      (use assms(1,3) in \<open>auto simp: driver_inv_def heap_ok_live\<close>)
  moreover have "live d' = live d" using assms(5) by (simp add: live_def fun_eq_iff)
  ultimately show ?thesis using assms pending_nodes [OF assms(4)]
    by (simp add: driver_inv_def heap_ok_live cmd_ok_def)
qed

lemma push_back_inv:
  assumes "driver_inv d" and "cci_addr it = []"
  shows "driver_inv (push_back q it d)"
  by (rule same_addrs_inv [OF assms(1)])
    (use assms event_ok_push [of d "push_back q it d"] in \<open>simp_all add: driver_inv_def\<close>)

lemma callback_inv: "driver_inv (d\<lparr>d_callbackId := c\<rparr>) \<longleftrightarrow> driver_inv d"
  by (rule same_queues_inv) (simp add: same_queues_def)

lemma QueueMsg_inv_gen:
  assumes q: "QueueMsg nid it d = Some d'"
    and o: "owned (live d) (it # d_queue d MsgQueue_Controller) (pending d)"
    and r: "\<forall>q. q \<noteq> MsgQueue_Controller \<longrightarrow> addrs (d_queue d q) = []"
    and b: "\<forall>a \<ge> d_nextCci d. d_ccis d a = None" and e: "cmd_ok d" "event_ok d"
  shows "driver_inv d'"
proof -
  have "owned (live d') (d_queue d' MsgQueue_Controller) (pending d')"
    using QueueMsg_owned [OF q o] QueueMsg_frame [OF q] by simp
  moreover have "\<forall>a \<ge> d_nextCci d'. \<not> live d' a"
    using QueueMsg_bound [OF q] b o QueueMsg_frame [OF q] by (auto simp: live_def owned_def)
  ultimately show ?thesis
    using QueueMsg_frame [OF q] r e by (auto simp: driver_inv_def heap_ok_live cmd_ok_def event_ok_def)
qed

lemma QueueMsg_inv:
  assumes "QueueMsg nid it d = Some d'" and "driver_inv d" and "cci_addr it = []"
  shows "driver_inv d'"
proof (rule QueueMsg_inv_gen [OF assms(1)])
  show "owned (live d) (it # d_queue d MsgQueue_Controller) (pending d)"
    using assms(2,3) by (auto simp: driver_inv_def heap_ok_live owned_def)
qed (use assms(2) in \<open>auto simp: driver_inv_def heap_ok_def\<close>)

lemma sleeping_wakeUp: "sleeping n \<Longrightarrow> \<exists>w. n_wakeUp n = Some w"
  by (auto simp: sleeping_def split: option.splits)

text \<open>A copy of the running command in the pending queue of a node.\<close>

lemma new_cci_owned:
  assumes "driver_inv d" and "new_cci c d = (b, d1)"
  shows "owned (live d1) (Item_Controller b # d_queue d1 MsgQueue_Controller) (pending d1)"
    "b = d_nextCci d" "\<forall>a \<ge> d_nextCci d1. d_ccis d1 a = None" "d_queue d1 = d_queue d"
    "d_nodes d1 = d_nodes d" "d_currentCmd d1 = d_currentCmd d" "d_event d1 = d_event d"
    "pending d1 = pending d" "d_nextCci d1 = d_nextCci d + 1"
    "\<And>a. a \<noteq> b \<Longrightarrow> d_ccis d1 a = d_ccis d a" "d_ccis d1 b = Some c"
proof -
  have d1: "d1 = d\<lparr>d_ccis := (d_ccis d)(d_nextCci d \<mapsto> c), d_nextCci := d_nextCci d + 1\<rparr>"
    and b: "b = d_nextCci d" using assms(2) by (auto simp: new_cci_def)
  have "live d1 = (\<lambda>a. live d a \<or> a = b)" by (auto simp: live_def d1 b fun_eq_iff)
  moreover have "\<not> live d b" using assms(1) by (auto simp: driver_inv_def heap_ok_live b)
  moreover have "pending d1 = pending d" "d_queue d1 = d_queue d"
    using pending_nodes [of d1 d] by (simp_all add: d1)
  moreover have "owned (\<lambda>a. live d a \<or> a = b) (Item_Controller b # d_queue d MsgQueue_Controller) (pending d)"
    by (rule owned_new) (use assms(1) \<open>\<not> live d b\<close> in \<open>simp_all add: driver_inv_def heap_ok_live\<close>)
  ultimately show "owned (live d1) (Item_Controller b # d_queue d1 MsgQueue_Controller) (pending d1)"
    by simp
  show "\<forall>a \<ge> d_nextCci d1. d_ccis d1 a = None"
    using assms(1) by (auto simp: d1 driver_inv_def heap_ok_def)
qed (use assms(2) in \<open>auto simp: new_cci_def pending_def fun_eq_iff\<close>)

lemma SendMsg_cases:
  assumes "SendMsg msg q d0 = Some d'"
  obtains cb m m1 where "Finalize (d_callbackId d0) (msg\<lparr>m_homeId := d_homeId d0\<rparr>) = Some (cb, m)"
      "m1 = m \<or> m1 = m\<lparr>m_encrypted := True\<rparr>"
      "d' = push_back q (Item_SendMsg m1) (d0\<lparr>d_callbackId := cb\<rparr>)"
      "\<And>n. d_nodes d0 (m_targetNodeId m) = Some n \<Longrightarrow> \<not> sleeping n"
  | cb m m1 n where "Finalize (d_callbackId d0) (msg\<lparr>m_homeId := d_homeId d0\<rparr>) = Some (cb, m)"
      "d_nodes d0 (m_targetNodeId m) = Some n" "sleeping n" "d_currentCmd d0 = None"
      "m1 = m \<or> m1 = m\<lparr>m_encrypted := True\<rparr>"
      "QueueMsg (m_targetNodeId m) (Item_SendMsg m1) (d0\<lparr>d_callbackId := cb\<rparr>) = Some d'"
  | cb m n a c b d1 d2 where "Finalize (d_callbackId d0) (msg\<lparr>m_homeId := d_homeId d0\<rparr>) = Some (cb, m)"
      "d_nodes d0 (m_targetNodeId m) = Some n" "sleeping n" "d_currentCmd d0 = Some a"
      "d_ccis d0 a = Some c" "new_cci c (d0\<lparr>d_callbackId := cb\<rparr>) = (b, d1)"
      "UpdateControllerState ControllerState_Sleeping ControllerError_None d1 = Some d2"
      "QueueMsg (m_targetNodeId m) (Item_Controller b) d2 = Some d'"
proof -
  obtain cb m where f: "Finalize (d_callbackId d0) (msg\<lparr>m_homeId := d_homeId d0\<rparr>) = Some (cb, m)"
    using assms by (auto simp: SendMsg_def split: Option.bind_splits)
  show ?thesis
  proof (cases "d_nodes d0 (m_targetNodeId m)")
    case None
    then show ?thesis using assms f by (intro that(1) [of cb m m]) (auto simp: SendMsg_def)
  next
    case (Some n)
    define m1 where "m1 = (if needs_encryption n m then m\<lparr>m_encrypted := True\<rparr> else m)"
    have m1: "m1 = m \<or> m1 = m\<lparr>m_encrypted := True\<rparr>" by (simp add: m1_def)
    show ?thesis
    proof (cases "sleeping n")
      case False
      then show ?thesis using assms f Some m1
        by (intro that(1) [of cb m m1]) (auto simp: SendMsg_def m1_def Let_def)
    next
      case True
      show ?thesis
      proof (cases "d_currentCmd d0")
        case None
        then show ?thesis using assms f Some m1 True
          by (intro that(2) [of cb m n m1]) (auto simp: SendMsg_def m1_def Let_def)
      next
        case (Some a)
        obtain c where c: "d_ccis d0 a = Some c"
          using assms f True Some \<open>d_nodes d0 (m_targetNodeId m) = Some n\<close>
          by (auto simp: SendMsg_def Let_def split: Option.bind_splits)
        obtain b d1 where b: "new_cci c (d0\<lparr>d_callbackId := cb\<rparr>) = (b, d1)"
          by (cases "new_cci c (d0\<lparr>d_callbackId := cb\<rparr>)")
        show ?thesis
          using assms f True Some c b \<open>d_nodes d0 (m_targetNodeId m) = Some n\<close>
          by (auto simp: SendMsg_def Let_def split: Option.bind_splits intro: that(3))
      qed
    qed
  qed
qed

lemma SendMsg_inv:
  assumes "SendMsg msg q d0 = Some d'" and i: "driver_inv d0"
  shows "driver_inv d'"
  using assms(1)
proof (cases rule: SendMsg_cases)
  case (1 cb m m1)
  then show ?thesis using push_back_inv [of "d0\<lparr>d_callbackId := cb\<rparr>"] i by (simp add: callback_inv)
next
  case (2 cb m m1 n)
  show ?thesis by (rule QueueMsg_inv [OF 2(6)]) (simp_all add: callback_inv i)
next
  case (3 cb m n a c b d1 d2)
  have i1: "driver_inv (d0\<lparr>d_callbackId := cb\<rparr>)" by (simp add: callback_inv i)
  note n = new_cci_owned [OF i1 3(6)]
  note s = UpdateControllerState_shape [OF 3(7)]
  show ?thesis
  proof (rule QueueMsg_inv_gen [OF 3(8)])
    show "owned (live d2) (Item_Controller b # d_queue d2 MsgQueue_Controller) (pending d2)"
      using n(1) s by simp
    show "\<forall>q. q \<noteq> MsgQueue_Controller \<longrightarrow> addrs (d_queue d2 q) = []"
      using n(4) s i by (simp add: driver_inv_def heap_ok_def)
    show "\<forall>a \<ge> d_nextCci d2. d_ccis d2 a = None" using n(3) s by (metis live_def)
    show "cmd_ok d2" using n(4,6) s i by (simp add: driver_inv_def cmd_ok_def)
    have "d_queue d0 MsgQueue_Controller \<noteq> []"
      using i 3(4) by (auto simp: driver_inv_def cmd_ok_def addrs_def)
    then have "event_ok d1" "d_queue d1 MsgQueue_Controller \<noteq> []"
      using n(4,7) i event_ok_eq [of d1 d0] by (simp_all add: driver_inv_def)
    then show "event_ok d2" using s event_ok_set [of d1 d2 MsgQueue_Controller] by blast
  qed
qed

text \<open>
  A message that was finished, and has no nonce yet, can be sent and its callback id renewed.  A new one can be finished
  unless its encapsulation overruns the buffer.
\<close>

definition sendable :: "msg \<Rightarrow> bool" where
  "sendable m \<longleftrightarrow> m_bFinal m \<and> (m_bCallbackRequired m \<longrightarrow> 2 \<le> unat (m_length m)) \<and> \<not> m_noncerecvd m"

definition finishes :: "msg \<Rightarrow> bool" where
  "finishes m \<longleftrightarrow> (\<forall>s h. \<exists>cb m'. Finalize s (m\<lparr>m_homeId := h\<rparr>) = Some (cb, m') \<and> sendable m')"

lemma sendable_finishes: "sendable m \<Longrightarrow> finishes m"
  by (simp add: sendable_def finishes_def Finalize_def)

lemma finishes_plain:
  assumes "\<not> m_bFinal m" and "m_flags m AND 3 = 0" and "unat (m_length m) < 254" and "\<not> m_noncerecvd m"
  shows "finishes m"
proof -
  have "\<exists>cb m'. Finalize s (m\<lparr>m_homeId := h\<rparr>) = Some (cb, m') \<and> sendable m'" for s h
  proof -
    obtain cb m' where t: "Finalize_tail s (m\<lparr>m_homeId := h\<rparr>) = (cb, m')"
      by (cases "Finalize_tail s (m\<lparr>m_homeId := h\<rparr>)")
    then have "sendable m'"
      using assms(3,4)
      by (auto simp: Finalize_tail_def Let_def sendable_def unat_u8_add split: prod.splits if_splits)
    then show ?thesis using t assms by (simp add: Finalize_def)
  qed
  then show ?thesis by (simp add: finishes_def)
qed

lemma SendMsg_defined:
  assumes "finishes msg" and i: "driver_inv d"
  shows "\<exists>d'. SendMsg msg q d = Some d'"
proof -
  obtain cb m where f: "Finalize (d_callbackId d) (msg\<lparr>m_homeId := d_homeId d\<rparr>) = Some (cb, m)"
    using assms(1) unfolding finishes_def by blast
  have i1: "driver_inv (d\<lparr>d_callbackId := cb\<rparr>)" by (simp add: callback_inv i)
  show ?thesis
  proof (cases "\<exists>n. d_nodes d (m_targetNodeId m) = Some n \<and> sleeping n")
    case False
    then show ?thesis using f by (auto simp: SendMsg_def Let_def split: option.split)
  next
    case True
    then obtain n w where n: "d_nodes d (m_targetNodeId m) = Some n" "sleeping n" "n_wakeUp n = Some w"
      using sleeping_wakeUp by blast
    have o: "owned (live (d\<lparr>d_callbackId := cb\<rparr>)) (Item_SendMsg x # d_queue (d\<lparr>d_callbackId := cb\<rparr>) MsgQueue_Controller)
        (pending (d\<lparr>d_callbackId := cb\<rparr>))" for x
      using i1 by (auto simp: driver_inv_def heap_ok_live owned_def)
    show ?thesis
    proof (cases "d_currentCmd d")
      case None
      have "\<exists>d'. QueueMsg (m_targetNodeId m) (Item_SendMsg x) (d\<lparr>d_callbackId := cb\<rparr>) = Some d'" for x
        using n by (intro QueueMsg_defined [OF _ n(3) o]) simp
      then show ?thesis using f n None by (simp add: SendMsg_def Let_def)
    next
      case (Some a)
      obtain c where c: "d_ccis d a = Some c" using cmd_live [OF i Some] by blast
      obtain b d1 where b: "new_cci c (d\<lparr>d_callbackId := cb\<rparr>) = (b, d1)"
        by (cases "new_cci c (d\<lparr>d_callbackId := cb\<rparr>)")
      note nc = new_cci_owned [OF i1 b]
      have "a \<noteq> b" using i c nc(2) by (auto simp: driver_inv_def heap_ok_def)
      then obtain d2 where d2: "UpdateControllerState ControllerState_Sleeping ControllerError_None d1 = Some d2"
        using nc(6,10) Some c by (auto simp: UpdateControllerState_def Let_def)
      note s = UpdateControllerState_shape [OF d2]
      have "\<exists>d'. QueueMsg (m_targetNodeId m) (Item_Controller b) d2 = Some d'"
        using nc s n by (intro QueueMsg_defined [of d2 _ n w _ "d_queue d2 MsgQueue_Controller"]) auto
      then show ?thesis using f n Some c b d2 by (simp add: SendMsg_def Let_def)
    qed
  qed
qed

lemma SendQueryStageComplete_inv:
  assumes "SendQueryStageComplete nid s d = Some d'" and "driver_inv d"
  shows "driver_inv d'"
  using assms QueueMsg_inv [of nid _ d d'] push_back_inv [of d]
  by (auto simp: SendQueryStageComplete_def split: option.splits if_splits)

lemma SendQueryStageComplete_defined:
  assumes "driver_inv d"
  shows "\<exists>d'. SendQueryStageComplete nid s d = Some d'"
proof (cases "\<exists>n. d_nodes d nid = Some n \<and> sleeping n")
  case True
  then obtain n w where n: "d_nodes d nid = Some n" "sleeping n" "n_wakeUp n = Some w"
    using sleeping_wakeUp by blast
  have "owned (live d) (Item_QueryStageComplete nid s False # d_queue d MsgQueue_Controller) (pending d)"
    using assms by (auto simp: driver_inv_def heap_ok_live owned_def)
  from QueueMsg_defined [OF n(1,3) this] show ?thesis using n by (simp add: SendQueryStageComplete_def)
qed (auto simp: SendQueryStageComplete_def split: option.splits)

lemma mark_retry_addrs [simp]: "addrs (mark_retry nid s xs) = addrs xs"
  by (induction xs) (auto split: queue_item.split)

lemma mark_retry_empty [simp]: "mark_retry nid s xs = [] \<longleftrightarrow> xs = []"
  by (cases xs) (auto split: queue_item.splits)

lemma RetryQueryStageComplete_inv: "driver_inv d \<Longrightarrow> driver_inv (RetryQueryStageComplete nid s d)"
proof (rule same_addrs_inv)
  assume i: "driver_inv d"
  let ?d = "RetryQueryStageComplete nid s d"
  have e: "event_ok d" "d_event ?d = d_event d" "(d_queue ?d q = []) = (d_queue d q = [])" for q
    using i by (simp_all add: driver_inv_def RetryQueryStageComplete_def)
  show "event_ok ?d"
    by (rule event_okI) (use event_okD [OF e(1)] e(2,3) in auto)
qed (simp_all add: RetryQueryStageComplete_def)

lemma BeginControllerCommand_inv:
  assumes "driver_inv d" and "BeginControllerCommand cmd f x hp nid arg d = (r, d')"
  shows "driver_inv d'"
proof (cases "cmd = ControllerCommand_None")
  case False
  obtain a c d1 where n: "new_cci c d = (a, d1)" and d': "d' = push_back MsgQueue_Controller (Item_Controller a) d1"
    using assms(2) False by (auto simp: BeginControllerCommand_def new_cci_def)
  note n' = new_cci_owned [OF assms(1) n]
  have "owned (live d') (d_queue d' MsgQueue_Controller) (pending d')"
    using n'(1) owned_append1 [of "live d1" "Item_Controller a" "d_queue d1 MsgQueue_Controller"]
    by (simp add: d')
  moreover have "event_ok d'"
    using event_ok_push [of d d'] assms(1) n'(4,7) by (simp add: d' driver_inv_def)
  moreover have "\<forall>a \<ge> d_nextCci d'. \<not> live d' a" using n'(3) by (simp add: d' live_def)
  moreover have "cmd_ok d'" "\<forall>q. q \<noteq> MsgQueue_Controller \<longrightarrow> addrs (d_queue d' q) = []"
    using assms(1) n'(4,6) by (simp_all add: d' driver_inv_def cmd_ok_def heap_ok_def)
  ultimately show ?thesis by (simp add: driver_inv_def heap_ok_live)
qed (use assms in \<open>auto simp: BeginControllerCommand_def\<close>)

lemma RemoveCurrentMsg_inv [simp]: "driver_inv (RemoveCurrentMsg d) \<longleftrightarrow> driver_inv d"
  by (rule same_queues_inv) (simp add: same_queues_def RemoveCurrentMsg_def)

lemma notify_inv [simp]: "driver_inv (notify x d) \<longleftrightarrow> driver_inv d"
  by (rule same_queues_inv) (simp add: same_queues_def notify_def)

lemma CheckCompletedNodeQueries_inv [simp]: "driver_inv (CheckCompletedNodeQueries d) \<longleftrightarrow> driver_inv d"
  by (rule same_queues_inv) (auto simp: same_queues_def CheckCompletedNodeQueries_def notify_def Let_def split: prod.split)

section \<open>Removing the entries of a node\<close>

text \<open>The node an entry is for.\<close>

definition item_node :: "cci_heap \<Rightarrow> queue_item \<Rightarrow> uint8 option" where
  "item_node h it = (case it of
     Item_SendMsg m \<Rightarrow> Some (m_targetNodeId m)
   | Item_QueryStageComplete n s r \<Rightarrow> Some n
   | Item_Controller a \<Rightarrow> map_option cci_node (h a)
   | Item_ReloadNode n \<Rightarrow> Some n)"

text \<open>What \<open>RemoveQueues\<close> leaves: entries of other nodes and the running command.\<close>

definition stays :: "uint8 \<Rightarrow> nat option \<Rightarrow> cci_heap \<Rightarrow> queue_item \<Rightarrow> bool" where
  "stays nid cur h it \<longleftrightarrow> item_node h it \<noteq> Some nid \<or> (\<exists>a. it = Item_Controller a \<and> cur = Some a)"

lemma stays_heap:
  "\<forall>a \<in> set (addrs xs). h a = h' a \<Longrightarrow> filter (stays nid cur h) xs = filter (stays nid cur h') xs"
proof (induction xs)
  case (Cons x xs)
  have "stays nid cur h x = stays nid cur h' x"
    using Cons.prems by (cases x) (auto simp: stays_def item_node_def)
  then show ?case using Cons by simp
qed simp

lemma remove_items_spec:
  assumes "\<forall>a \<in> set (addrs xs). h a \<noteq> None" and "distinct (addrs xs)"
  shows "\<exists>h'. remove_items nid cur xs h = Some (filter (stays nid cur h) xs, h') \<and>
    h' = (\<lambda>a. if a \<in> set (addrs xs) \<and> a \<notin> set (addrs (filter (stays nid cur h) xs)) then None else h a)"
  using assms
proof (induction xs arbitrary: h)
  case (Cons it its)
  define h1 where "h1 = (\<lambda>a. if a \<in> set (cci_addr it) \<and> \<not> stays nid cur h it then None else h a)"
  have step: "(case it of
        Item_SendMsg m \<Rightarrow> Some (m_targetNodeId m = nid, h)
      | Item_QueryStageComplete n s r \<Rightarrow> Some (n = nid, h)
      | Item_Controller a \<Rightarrow> do {
          c \<leftarrow> h a;
          if nid = cci_node c \<and> cur \<noteq> Some a then do { h2 \<leftarrow> free_cci a h; Some (True, h2) }
          else Some (False, h)
        }
      | Item_ReloadNode n \<Rightarrow> Some (n = nid, h)) = Some (\<not> stays nid cur h it, h1)"
    using Cons.prems(1)
    by (cases it) (auto simp: stays_def item_node_def h1_def free_cci_def fun_eq_iff)
  have h1: "h1 a = h a" if "a \<in> set (addrs its)" for a
    using that Cons.prems(2) by (auto simp: h1_def)
  obtain h' where h': "remove_items nid cur its h1 = Some (filter (stays nid cur h1) its, h')"
    "h' = (\<lambda>a. if a \<in> set (addrs its) \<and> a \<notin> set (addrs (filter (stays nid cur h1) its)) then None else h1 a)"
    using Cons.IH [of h1] Cons.prems h1 by auto
  have f: "filter (stays nid cur h1) its = filter (stays nid cur h) its"
    using stays_heap [of its h1 h] h1 by simp
  have sub: "set (addrs (filter P its)) \<subseteq> set (addrs its)" for P by (auto simp: set_addrs)
  have "h' = (\<lambda>a. if a \<in> set (addrs (it # its)) \<and> a \<notin> set (addrs (filter (stays nid cur h) (it # its)))
      then None else h a)"
    using h'(2) [unfolded f] sub [of "stays nid cur h"] Cons.prems(2) unfolding h1_def by (auto simp: fun_eq_iff)
  then show ?case using h'(1) f step by auto
qed simp

lemma owned_filter:
  assumes "owned L xs p"
  shows "owned (\<lambda>a. L a \<and> \<not> (a \<in> set (addrs xs) \<and> a \<notin> set (addrs (filter P xs)))) (filter P xs) p"
proof -
  have d: "distinct (addrs (filter P xs))" if "distinct (addrs xs)"
    using that
  proof (induction xs)
    case (Cons x xs)
    have "set (addrs (filter P xs)) \<subseteq> set (addrs xs)" by (auto simp: set_addrs)
    with Cons show ?case by auto
  qed simp
  have s: "set (addrs (filter P xs)) \<subseteq> set (addrs xs)" by (auto simp: set_addrs)
  have o: "distinct (addrs xs)" "\<And>i. distinct (addrs (p i))" "\<And>i. set (addrs (p i)) \<inter> set (addrs xs) = {}"
    "\<And>i j. i \<noteq> j \<Longrightarrow> set (addrs (p i)) \<inter> set (addrs (p j)) = {}"
    "\<And>a. L a \<longleftrightarrow> a \<in> set (addrs xs) \<or> (\<exists>i. a \<in> set (addrs (p i)))"
    using assms unfolding owned_def by simp_all
  show ?thesis unfolding owned_def
  proof (intro conjI allI impI)
    show "distinct (addrs (filter P xs))" by (rule d [OF o(1)])
    show "set (addrs (p i)) \<inter> set (addrs (filter P xs)) = {}" for i using o(3) [of i] s by auto
    show "L a \<and> \<not> (a \<in> set (addrs xs) \<and> a \<notin> set (addrs (filter P xs))) \<longleftrightarrow>
      a \<in> set (addrs (filter P xs)) \<or> (\<exists>i. a \<in> set (addrs (p i)))" for a
    proof (cases "a \<in> set (addrs xs)")
      case True
      then have "a \<notin> set (addrs (p i))" for i using o(3) [of i] by blast
      then show ?thesis using o(5) [of a] True by blast
    next
      case False
      then show ?thesis using o(5) [of a] s by blast
    qed
  qed (fact o(2), fact o(4))
qed

lemma event_ok_set_queue:
  assumes "event_ok d" and "d_queue d' = (d_queue d)(q := xs)" and "set xs \<subseteq> set (d_queue d q)"
    and "d_event d' = (if xs = [] then (d_event d)(q := False) else d_event d)"
  shows "event_ok d'"
proof (rule event_okI)
  show "d_queue d' p \<noteq> []" if "d_event d' p" for p
    using that assms(2,4) event_okD(1) [OF assms(1), of p] by (auto split: if_splits)
  show "d_event d' p" if "p \<noteq> MsgQueue_Controller" "d_queue d' p \<noteq> []" for p
  proof (cases "p = q")
    case True
    then have "xs \<noteq> []" using that(2) assms(2) by simp
    moreover have "d_queue d q \<noteq> []" using calculation assms(3) by auto
    ultimately show ?thesis using event_okD(2) [OF assms(1), of q] True that(1) assms(4) by simp
  qed (use that assms(2,4) event_okD(2) [OF assms(1), of p] in \<open>auto split: if_splits\<close>)
qed

lemma heap_ok_queue:
  assumes "driver_inv d"
  shows "\<forall>a \<in> set (addrs (d_queue d q)). d_ccis d a \<noteq> None" "distinct (addrs (d_queue d q))"
proof -
  have o: "owned (live d) (d_queue d MsgQueue_Controller) (pending d)"
    and e: "q \<noteq> MsgQueue_Controller \<Longrightarrow> addrs (d_queue d q) = []"
    using assms by (auto simp: driver_inv_def heap_ok_live)
  show "\<forall>a \<in> set (addrs (d_queue d q)). d_ccis d a \<noteq> None"
    using o e by (cases "q = MsgQueue_Controller") (simp_all add: owned_def live_def)
  show "distinct (addrs (d_queue d q))"
    using o e by (cases "q = MsgQueue_Controller") (simp_all add: owned_def)
qed

lemma remove_from_queue_spec:
  assumes i: "driver_inv d"
  shows "\<exists>d'. remove_from_queue nid q d = Some d' \<and> driver_inv d' \<and> d_currentCmd d' = d_currentCmd d \<and>
    d_queue d' = (d_queue d)(q := filter (stays nid (d_currentCmd d) (d_ccis d)) (d_queue d q)) \<and>
    (q \<noteq> MsgQueue_Controller \<longrightarrow> d_ccis d' = d_ccis d) \<and> d_nodes d' = d_nodes d \<and>
    d_currentMsg d' = d_currentMsg d"
proof -
  let ?k = "stays nid (d_currentCmd d) (d_ccis d)" and ?xs = "d_queue d q"
  define ys where "ys = filter ?k ?xs"
  obtain h where h: "remove_items nid (d_currentCmd d) ?xs (d_ccis d) = Some (ys, h)"
    "h = (\<lambda>a. if a \<in> set (addrs ?xs) \<and> a \<notin> set (addrs ys) then None else d_ccis d a)"
    using remove_items_spec [OF heap_ok_queue [OF i, of q], where nid = nid and cur = "d_currentCmd d"] unfolding ys_def by blast
  define d' where "d' = set_queue q ys (d\<lparr>d_ccis := h\<rparr>)"
  have f: "d_nodes d' = d_nodes d" "d_currentCmd d' = d_currentCmd d" "d_nextCci d' = d_nextCci d"
    "d_queue d' = (d_queue d)(q := ys)" "d_ccis d' = h" "d_currentMsg d' = d_currentMsg d"
    "d_event d' = (if ys = [] then (d_event d)(q := False) else d_event d)"
    by (simp_all add: d'_def set_queue_def)
  have nc: "h = d_ccis d \<and> addrs ys = addrs ?xs" if "q \<noteq> MsgQueue_Controller"
  proof -
    have "addrs ?xs = []" using that i by (simp add: driver_inv_def heap_ok_def)
    moreover have "set (addrs ys) \<subseteq> set (addrs ?xs)" by (auto simp: set_addrs ys_def)
    ultimately show ?thesis using h(2) by auto
  qed
  have e: "event_ok d'"
    by (rule event_ok_set_queue [OF _ f(4)]) (use i f(7) in \<open>auto simp: driver_inv_def ys_def\<close>)
  have "driver_inv d'"
  proof (cases "q = MsgQueue_Controller")
    case False
    show ?thesis
      by (rule same_addrs_inv [OF i e]) (use nc [OF False] f in auto)
  next
    case True
    have p: "pending d' = pending d" using pending_nodes [of d' d] f(1) by simp
    have "owned (\<lambda>a. live d a \<and> \<not> (a \<in> set (addrs ?xs) \<and> a \<notin> set (addrs ys))) ys (pending d)"
      unfolding ys_def by (rule owned_filter) (use i True in \<open>simp add: driver_inv_def heap_ok_live\<close>)
    moreover have "live d' = (\<lambda>a. live d a \<and> \<not> (a \<in> set (addrs ?xs) \<and> a \<notin> set (addrs ys)))"
      by (auto simp: live_def f(5) h(2) fun_eq_iff)
    ultimately have "owned (live d') (d_queue d' MsgQueue_Controller) (pending d')"
      using p f(4) True by simp
    moreover have "\<forall>a \<ge> d_nextCci d'. \<not> live d' a"
      using i by (auto simp: live_def f(3,5) h(2) driver_inv_def heap_ok_def)
    moreover have "cmd_ok d'"
      using i True unfolding cmd_ok_def f(2,4) driver_inv_def
      by (auto simp: set_addrs ys_def stays_def)
    ultimately show ?thesis using i e True by (simp add: driver_inv_def heap_ok_live f(4))
  qed
  then show ?thesis using f nc h(1) unfolding d'_def ys_def by (auto simp: remove_from_queue_def)
qed

lemma remove_queues_spec:
  assumes "driver_inv d" and "distinct qs"
  shows "\<exists>d'. run_all (remove_from_queue nid) qs d = Some d' \<and> driver_inv d' \<and>
    d_currentCmd d' = d_currentCmd d \<and> d_nodes d' = d_nodes d \<and> d_currentMsg d' = d_currentMsg d \<and>
    (\<forall>q. d_queue d' q = (if q \<in> set qs then filter (stays nid (d_currentCmd d) (d_ccis d)) (d_queue d q)
                          else d_queue d q))"
  using assms
proof (induction qs arbitrary: d)
  case (Cons q qs)
  obtain d1 where d1: "remove_from_queue nid q d = Some d1" "driver_inv d1" "d_currentCmd d1 = d_currentCmd d"
    "d_queue d1 = (d_queue d)(q := filter (stays nid (d_currentCmd d) (d_ccis d)) (d_queue d q))"
    "q \<noteq> MsgQueue_Controller \<Longrightarrow> d_ccis d1 = d_ccis d" "d_nodes d1 = d_nodes d"
    "d_currentMsg d1 = d_currentMsg d"
    using remove_from_queue_spec [OF Cons.prems(1), of nid q] by blast
  obtain d' where d': "run_all (remove_from_queue nid) qs d1 = Some d'" "driver_inv d'"
    "d_currentCmd d' = d_currentCmd d1" "d_nodes d' = d_nodes d1" "d_currentMsg d' = d_currentMsg d1"
    "\<forall>p. d_queue d' p = (if p \<in> set qs then filter (stays nid (d_currentCmd d1) (d_ccis d1)) (d_queue d1 p)
                          else d_queue d1 p)"
    using Cons.IH [OF d1(2)] Cons.prems(2) by auto
  have "filter (stays nid (d_currentCmd d) (d_ccis d1)) (d_queue d p) =
    filter (stays nid (d_currentCmd d) (d_ccis d)) (d_queue d p)" if "p \<noteq> q" for p
  proof (rule stays_heap, cases "p = MsgQueue_Controller")
    case True
    then show "\<forall>a \<in> set (addrs (d_queue d p)). d_ccis d1 a = d_ccis d a" using d1(5) that by simp
  next
    case False
    then show "\<forall>a \<in> set (addrs (d_queue d p)). d_ccis d1 a = d_ccis d a"
      using Cons.prems(1) by (simp add: driver_inv_def heap_ok_def)
  qed
  then show ?case using d1 d' Cons.prems(2) by auto
qed simp

lemma all_queues: "set all_queues = UNIV" "distinct all_queues"
proof -
  have "q \<in> set all_queues" for q by (cases q) (simp_all add: all_queues_def)
  then show "set all_queues = UNIV" by blast
qed (simp add: all_queues_def)

lemma RemoveQueues_spec:
  assumes "driver_inv d"
  shows "\<exists>d'. RemoveQueues nid d = Some d' \<and> driver_inv d' \<and> d_currentCmd d' = d_currentCmd d \<and>
    d_nodes d' = d_nodes d \<and>
    d_currentMsg d' = (case d_currentMsg d of None \<Rightarrow> None
      | Some m \<Rightarrow> if m_targetNodeId m = nid then None else Some m) \<and>
    (\<forall>q. d_queue d' q = filter (stays nid (d_currentCmd d) (d_ccis d)) (d_queue d q))"
proof -
  define d0 where "d0 = (case d_currentMsg d of None \<Rightarrow> d
    | Some m \<Rightarrow> if m_targetNodeId m = nid then RemoveCurrentMsg d else d)"
  have f: "driver_inv d0" "d_currentCmd d0 = d_currentCmd d" "d_ccis d0 = d_ccis d" "d_queue d0 = d_queue d"
    "d_nodes d0 = d_nodes d" "d_currentMsg d0 = (case d_currentMsg d of None \<Rightarrow> None
      | Some m \<Rightarrow> if m_targetNodeId m = nid then None else Some m)"
    using assms by (auto simp: d0_def RemoveCurrentMsg_inv RemoveCurrentMsg_def [of d] split: option.splits)
      (simp_all add: RemoveCurrentMsg_def [symmetric] RemoveCurrentMsg_inv)
  obtain d' where d': "run_all (remove_from_queue nid) all_queues d0 = Some d'" "driver_inv d'"
    "d_currentCmd d' = d_currentCmd d0" "d_nodes d' = d_nodes d0" "d_currentMsg d' = d_currentMsg d0"
    "\<forall>q. d_queue d' q = filter (stays nid (d_currentCmd d0) (d_ccis d0)) (d_queue d0 q)"
    using remove_queues_spec [OF f(1) all_queues(2), of nid] all_queues(1) by auto
  then show ?thesis using f unfolding RemoveQueues_def d0_def [symmetric] by auto
qed

end
