(* ===== verification/Queue_Laws.thy ===== *)
theory Queue_Laws
  imports Send_Queues
begin

text \<open>
  What queueing promises: a message is at one place, the pending queue of a node holds no duplicates,
  a removed node leaves nothing behind, and the completion of all interviews is announced once.
\<close>

section \<open>What queueing does\<close>

lemma drop_dups_filter:
  assumes "cci_addr it = []"
  shows "drop_dups it xs h = Some (filter (\<lambda>x. item_eq h x it = Some False) xs, h)"
proof (induction xs)
  case (Cons x xs)
  obtain e where e: "item_eq h x it = Some e" "e \<Longrightarrow> cci_addr x = []"
    using assms by (cases x; cases it) (auto simp: item_eq_def)
  then show ?case using Cons by (cases e) auto
qed simp

lemma QueueMsg_pending:
  assumes "QueueMsg nid it d = Some d'" and "cci_addr it = []"
  shows "pending d' = (pending d)(nid := filter (\<lambda>x. item_eq (d_ccis d) x it = Some False) (pending d nid)
      @ [reset_attempts it])" "d_ccis d' = d_ccis d"
  using assms(1)
  by (auto elim!: QueueMsg_shape simp: drop_dups_filter [OF assms(2)] pending_put_node pending_def put_node_def
      fun_eq_iff)

lemma QueueMsg_keeps:
  assumes "QueueMsg nid it d = Some d'" and o: "owned (live d) (it # xs) (pending d)"
    and a: "a \<in> set (addrs (it # xs))"
  shows "d_ccis d' a = d_ccis d a"
  using assms(1)
proof (rule QueueMsg_shape)
  fix n w ys h
  assume n: "d_nodes d nid = Some n" "n_wakeUp n = Some w"
    and dd: "drop_dups it (w_pending w) (d_ccis d) = Some (ys, h)"
    and d': "d' = put_node nid (n\<lparr>n_wakeUp := Some (w\<lparr>w_pending := ys @ [reset_attempts it]\<rparr>)\<rparr>) (d\<lparr>d_ccis := h\<rparr>)"
  have p: "pending d nid = w_pending w" using n by (simp add: pending_def)
  have "distinct (addrs (w_pending w))" "set (addrs (w_pending w)) \<inter> set (addrs (it # xs)) = {}"
    using o p unfolding owned_def by metis+
  then show ?thesis using drop_dups_owned [OF dd] a d' by (auto simp: put_node_def)
qed

lemma QueueMsg_last:
  assumes "QueueMsg nid it d = Some d'"
  shows "\<exists>xs. pending d' nid = xs @ [reset_attempts it]" "d_callbackId d' = d_callbackId d"
  using assms by (auto elim!: QueueMsg_shape simp: pending_put_node) (simp add: put_node_def)

lemma UpdateControllerState_cmd:
  assumes "UpdateControllerState st err d = Some d'" and "d_currentCmd d = Some a"
  shows "map_option cci_state (d_ccis d' a) = Some st" "b \<noteq> a \<Longrightarrow> d_ccis d' b = d_ccis d b"
    "d_callbackId d' = d_callbackId d"
  using assms by (auto simp: UpdateControllerState_def Let_def put_cci_def notify_def
      split: Option.bind_splits if_splits)

text \<open>A running command is put to sleep when its message is for a sleeping node.\<close>

lemma SendMsg_sleeping_command:
  assumes i: "driver_inv d" and f: "Finalize (d_callbackId d) (msg\<lparr>m_homeId := d_homeId d\<rparr>) = Some (cb, m)"
    and n: "d_nodes d (m_targetNodeId m) = Some n" "sleeping n" and cmd: "d_currentCmd d = Some a"
  shows "\<exists>d' xs b c. SendMsg msg q d = Some d' \<and> d_callbackId d' = cb \<and> d_queue d' = d_queue d \<and>
    pending d' (m_targetNodeId m) = xs @ [Item_Controller b] \<and> d_ccis d a = Some c \<and>
    d_ccis d' b = Some c \<and> map_option cci_state (d_ccis d' a) = Some ControllerState_Sleeping"
proof -
  let ?d = "d\<lparr>d_callbackId := cb\<rparr>"
  have i1: "driver_inv ?d" by (simp add: callback_inv i)
  obtain c where c: "d_ccis d a = Some c" using cmd_live [OF i cmd] by blast
  obtain b d1 where b: "new_cci c ?d = (b, d1)" by (cases "new_cci c ?d")
  note nc = new_cci_owned [OF i1 b]
  have ab: "a \<noteq> b" using i c nc(2) by (auto simp: driver_inv_def heap_ok_def)
  obtain d2 where d2: "UpdateControllerState ControllerState_Sleeping ControllerError_None d1 = Some d2"
    using nc(6,10) cmd c ab by (auto simp: UpdateControllerState_def Let_def)
  note s = UpdateControllerState_shape [OF d2]
  obtain w where w: "n_wakeUp n = Some w" using sleeping_wakeUp [OF n(2)] by blast
  have o: "owned (live d2) (Item_Controller b # d_queue d2 MsgQueue_Controller) (pending d2)"
    using nc(1) s by simp
  obtain d' where d': "QueueMsg (m_targetNodeId m) (Item_Controller b) d2 = Some d'"
    using QueueMsg_defined [OF _ w o] s nc(5) n by auto
  have a_in: "a \<in> set (addrs (d_queue d2 MsgQueue_Controller))"
    using i cmd s nc(4) by (simp add: driver_inv_def cmd_ok_def)
  have cmd1: "d_currentCmd d1 = Some a" using nc(6) cmd by simp
  have "d_ccis d' b = d_ccis d2 b" "d_ccis d' a = d_ccis d2 a"
    using QueueMsg_keeps [OF d' o] a_in by simp_all
  moreover have "d_ccis d2 b = Some c"
    using UpdateControllerState_cmd(2) [OF d2 cmd1, of b] ab nc(11) by simp
  moreover have "map_option cci_state (d_ccis d2 a) = Some ControllerState_Sleeping"
    by (rule UpdateControllerState_cmd(1) [OF d2 cmd1])
  moreover have "d_callbackId d1 = cb" using b by (auto simp: new_cci_def)
  then have "d_callbackId d' = cb"
    using QueueMsg_last(2) [OF d'] UpdateControllerState_cmd(3) [OF d2 cmd1] by simp
  moreover have "SendMsg msg q d = Some d'"
    using f n cmd c b d2 d' by (simp add: SendMsg_def Let_def)
  moreover have "d_queue d' = d_queue d" using QueueMsg_frame(1) [OF d'] s nc(4) by simp
  ultimately show ?thesis using c QueueMsg_last(1) [OF d'] by (auto simp: reset_attempts_def)
qed


text \<open>Queueing for a sleeping node never lets duplicates build up: when no entry of the pending queue
  equals a later one, that still holds after a further entry is queued, and that entry is the last.\<close>

theorem QueueMsg_no_duplicates:
  assumes "QueueMsg nid it d = Some d'" and "cci_addr it = []"
    and "sorted_wrt (\<lambda>x y. item_eq (d_ccis d) x y \<noteq> Some True) (pending d nid)"
  shows "sorted_wrt (\<lambda>x y. item_eq (d_ccis d') x y \<noteq> Some True) (pending d' nid) \<and>
    last (pending d' nid) = reset_attempts it"
proof -
  have e: "item_eq h x (reset_attempts it) = item_eq h x it" for h x
    by (cases it; cases x) (simp_all add: item_eq_def reset_attempts_def msg_eq_def)
  show ?thesis
    using QueueMsg_pending [OF assms(1,2)] assms(3)
    by (auto simp: sorted_wrt_append e sorted_wrt_filter)
qed

section \<open>Announcing that all nodes are queried\<close>

abbreviation (input) incomplete :: "node \<Rightarrow> bool" where
  "incomplete n \<equiv> m_queryStage (n_query n) \<noteq> St_Complete"

abbreviation (input) alive :: "node \<Rightarrow> bool" where
  "alive n \<equiv> m_nodeAlive (n_query n)"

lemma completed_loop_spec:
  "completed_loop ns (a, s, f) =
     (a \<and> (\<forall>n. Some n \<in> set ns \<longrightarrow> incomplete n \<longrightarrow> \<not> alive n),
      s \<and> (\<forall>n. Some n \<in> set ns \<longrightarrow> incomplete n \<longrightarrow> alive n \<longrightarrow> \<not> n_listening n),
      f \<or> (\<exists>n. Some n \<in> set ns \<and> incomplete n \<and> \<not> alive n))"
  by (induction ns "(a, s, f)" arbitrary: a s f rule: completed_loop.induct) auto

lemma set_node_table: "Some n \<in> set (node_table d) \<longleftrightarrow> (\<exists>i. d_nodes d i = Some n)"
proof
  assume "\<exists>i. d_nodes d i = Some n"
  then obtain i where "d_nodes d i = Some n" ..
  then show "Some n \<in> set (node_table d)"
    unfolding node_table_def set_map by (intro image_eqI [of _ _ "unat i"]) simp_all
qed (auto simp: node_table_def)

text \<open>The completion of the interviews is announced exactly once.  Nothing is announced while a live
  listening node is incomplete; when only sleeping nodes are, \<open>AwakeNodesQueried\<close> is; when no live node
  is, \<open>AllNodesQueried\<close>, or its variant for dead nodes if there are any; and a second check right after
  the first announces nothing.\<close>

theorem CheckCompletedNodeQueries_once:
  "d_notes (CheckCompletedNodeQueries d) = d_notes d @
     (if d_allNodesQueried d then []
      else if \<forall>i n. d_nodes d i = Some n \<longrightarrow> m_queryStage (n_query n) = St_Complete \<or> \<not> m_nodeAlive (n_query n)
      then [if \<exists>i n. d_nodes d i = Some n \<and> m_queryStage (n_query n) \<noteq> St_Complete
            then Note_AllNodesQueriedSomeDead else Note_AllNodesQueried]
      else if (\<forall>i n. d_nodes d i = Some n \<longrightarrow> m_queryStage (n_query n) = St_Complete \<or>
                 \<not> m_nodeAlive (n_query n) \<or> \<not> n_listening n) \<and> \<not> d_awakeNodesQueried d
      then [Note_AwakeNodesQueried] else []) \<and>
   d_notes (CheckCompletedNodeQueries (CheckCompletedNodeQueries d)) = d_notes (CheckCompletedNodeQueries d)"
proof -
  have l: "completed_loop (node_table e) (True, True, False) =
     ((\<forall>i n. d_nodes e i = Some n \<longrightarrow> m_queryStage (n_query n) = St_Complete \<or> \<not> m_nodeAlive (n_query n)),
      (\<forall>i n. d_nodes e i = Some n \<longrightarrow> m_queryStage (n_query n) = St_Complete \<or>
                 \<not> m_nodeAlive (n_query n) \<or> \<not> n_listening n),
      (\<exists>i n. d_nodes e i = Some n \<and> m_queryStage (n_query n) \<noteq> St_Complete \<and> \<not> m_nodeAlive (n_query n)))" for e
    unfolding completed_loop_spec set_node_table by auto
  have n: "node_table (CheckCompletedNodeQueries d) = node_table d"
    by (simp add: node_table_def CheckCompletedNodeQueries_def notify_def Let_def split: prod.split)
  show ?thesis
  proof
    show "d_notes (CheckCompletedNodeQueries (CheckCompletedNodeQueries d)) = d_notes (CheckCompletedNodeQueries d)"
      unfolding CheckCompletedNodeQueries_def [of "CheckCompletedNodeQueries d"] n
      by (auto simp: CheckCompletedNodeQueries_def notify_def Let_def split: prod.splits)
  qed (auto simp: CheckCompletedNodeQueries_def l notify_def Let_def; blast)
qed

text \<open>Removing a node's entries leaves, in every send queue and in order, exactly the entries of other
  nodes and the running command; a current message for the node is dropped; the invariant holds, so no
  item is freed twice or lost.\<close>

theorem RemoveQueues_exact:
  assumes "driver_inv d"
  shows "\<exists>d'. RemoveQueues nid d = Some d' \<and> driver_inv d' \<and>
    (\<forall>q. d_queue d' q = filter (\<lambda>it. item_node (d_ccis d) it \<noteq> Some nid \<or>
       (\<exists>a. it = Item_Controller a \<and> d_currentCmd d = Some a)) (d_queue d q)) \<and>
    (\<forall>m. d_currentMsg d' = Some m \<longrightarrow> m_targetNodeId m \<noteq> nid)"
  using RemoveQueues_spec [OF assms, of nid]
  by (auto simp: stays_def [abs_def] split: option.splits if_splits)

section \<open>Examples\<close>

definition sleepy_node :: node where
  "sleepy_node = Node_new\<lparr>n_query := (n_query Node_new)\<lparr>m_queryStage := St_Complete\<rparr>, n_listening := False,
     n_wakeUp := Some \<lparr> w_awake = False, w_pollRequired = False, w_delayNMI = 0, w_interval = 0, w_pending = [] \<rparr>,
     n_classes := (\<lambda>_. None)\<rparr>"

lemma sleepy_node_simps [simp]:
  "m_queryStage (n_query sleepy_node) = St_Complete" "m_nodeAlive (n_query sleepy_node)" "\<not> n_listening sleepy_node"
  "\<not> n_frequentListening sleepy_node" "n_classes sleepy_node = (\<lambda>_. None)" "n_errors sleepy_node = 0"
  by (simp_all add: sleepy_node_def Node_new_def)

definition sleepy_driver :: driver where
  "sleepy_driver = put_node 5 sleepy_node (Driver_new 10)"

lemma pending_sleepy [simp]: "pending sleepy_driver = (\<lambda>_. [])"
  by (auto simp: pending_def sleepy_driver_def put_node_def sleepy_node_def Driver_new_def)

lemma sleepy_driver_inv: "driver_inv sleepy_driver"
  by (simp add: driver_inv_def heap_ok_def cmd_ok_def event_ok_def owned_def)
    (simp add: sleepy_driver_def put_node_def Driver_new_def)

lemma Finalize_plain:
  assumes "\<not> m_bFinal m" and "m_flags m AND 3 = 0"
  shows "\<exists>cb m'. Finalize s m = Some (cb, m') \<and> m_bFinal m' \<and> m_targetNodeId m' = m_targetNodeId m"
proof -
  obtain cb m' where t: "Finalize_tail s m = (cb, m')" by (cases "Finalize_tail s m")
  then have "m_bFinal m' \<and> m_targetNodeId m' = m_targetNodeId m"
    by (auto simp: Finalize_tail_def Let_def split: prod.splits if_splits)
  then show ?thesis using t assms by (simp add: Finalize_def)
qed


theorem QueueMsg_no_duplicates_witness:
  "\<exists>d'. QueueMsg 5 (Item_ReloadNode 5) sleepy_driver = Some d' \<and> last (pending d' 5) = Item_ReloadNode 5"
proof -
  obtain d' where d': "QueueMsg 5 (Item_ReloadNode 5) sleepy_driver = Some d'"
    by (simp add: QueueMsg_def sleepy_driver_def put_node_def sleepy_node_def)
  then show ?thesis using QueueMsg_no_duplicates [OF d'] by (simp add: reset_attempts_def)
qed

theorem CheckCompletedNodeQueries_once_witness:
  "d_notes (CheckCompletedNodeQueries (Driver_new 10)) = [Note_AllNodesQueried]"
  using CheckCompletedNodeQueries_once [of "Driver_new 10"] by (simp add: Driver_new_def)

theorem RemoveQueues_exact_witness:
  "\<exists>d'. RemoveQueues 5 (push_back MsgQueue_Send (Item_ReloadNode 5)
      (push_back MsgQueue_Query (Item_QueryStageComplete 6 St_Probe False) (Driver_new 10))) = Some d' \<and>
    d_queue d' MsgQueue_Send = [] \<and> d_queue d' MsgQueue_Query = [Item_QueryStageComplete 6 St_Probe False]"
proof -
  let ?d = "push_back MsgQueue_Send (Item_ReloadNode 5)
    (push_back MsgQueue_Query (Item_QueryStageComplete 6 St_Probe False) (Driver_new 10))"
  have "driver_inv ?d" by (intro push_back_inv Driver_new_inv) simp_all
  moreover have "d_queue (Driver_new 10) = (\<lambda>_. [])" by (simp add: Driver_new_def)
  ultimately show ?thesis using RemoveQueues_exact [of ?d 5] by (auto simp: item_node_def)
qed

end
