(* ===== verification/Wake_Up.thy ===== *)
theory Wake_Up
  imports Queue_Laws
begin

text \<open>
  Nodes that sleep and wake up (\<open>cpp/src/command_classes/WakeUp.cpp\<close>, and \<open>MoveMessagesToWakeUpQueue\<close>,
  \<open>HandleErrorResponse\<close> of \<open>cpp/src/Driver.cpp\<close>, \<open>SetNodeAlive\<close> of \<open>cpp/src/Node.cpp\<close>): how the messages of
  a node are kept while it sleeps and sent when it wakes, and how its interview runs on the driver.
\<close>

section \<open>What the nodes ask of the driver\<close>

text \<open>
  The answers of the command classes to the interview stages, the messages a stage sends, and the
  messages of \<open>Node::RefreshValuesOnWakeup\<close>, each with its queue; the options (supported classes, network
  key, which classes of the node information frame are to be secured, \<open>AssumeAwake\<close>, delay of the no-more-information message) and the data files (for a generic device
  class its mandatory classes and those of its specific classes, for a node its buttons).
\<close>

record node_env =
  ne_query :: "uint8 \<Rightarrow> query_env"
  ne_submit :: "uint8 \<Rightarrow> query_event \<Rightarrow> (msg \<times> msg_queue) list"
  ne_refresh :: "uint8 \<Rightarrow> (msg \<times> msg_queue) list"
  ne_supported :: "uint8 \<Rightarrow> bool"
  ne_networkKey :: bool
  ne_alsoSecure :: "uint8 \<Rightarrow> bool"
  ne_assumeAwake :: bool
  ne_delayNMI :: nat
  ne_generic :: "uint8 \<Rightarrow> (bytes option \<times> (uint8 \<Rightarrow> bytes option)) option"
  ne_buttons :: "uint8 \<Rightarrow> (uint8 \<times> uint8) list"

definition send_one :: "msg \<times> msg_queue \<Rightarrow> driver \<Rightarrow> driver option" where
  "send_one mq d = SendMsg (fst mq) (snd mq) d"

section \<open>Sending what waits for a node\<close>

definition SendNoMoreInfo :: "uint8 \<Rightarrow> driver \<Rightarrow> driver option" where
  "SendNoMoreInfo nid d = SendMsg
     (Append (d_transmitOptions d) (Append 0x08 (Append CC_WAKE_UP (Append 2 (Append nid
        (Msg_new ''WakeUpCmd_NoMoreInformation'' nid REQUEST FUNC_ID_ZW_SEND_DATA True True 0 0))))))
     MsgQueue_WakeUp d"

text \<open>
  One entry of the pending queue of node \<open>nid\<close>.  An entry that reloads the node is undefined here:
  \<open>ReloadNode\<close> deletes the node, with it the wake-up class and the very queue and entry the loop
  works on, and the loop then goes on with \<open>erase\<close>.
\<close>

definition pending_step :: "queue_item \<Rightarrow> driver \<Rightarrow> driver option" where
  "pending_step it d = (case it of
     Item_SendMsg m \<Rightarrow> SendMsg m MsgQueue_WakeUp d
   | Item_QueryStageComplete n s r \<Rightarrow> SendQueryStageComplete n s d
   | Item_Controller a \<Rightarrow> do {
       c \<leftarrow> d_ccis d a;
       let (ok, d1) = BeginControllerCommand (cci_command c) (cci_callback c) (cci_context c)
                        (cci_highPower c) (cci_node c) (cci_arg c) d;
       h \<leftarrow> free_cci a (d_ccis d1);
       Some (d1\<lparr>d_ccis := h\<rparr>)
     }
   | Item_ReloadNode n \<Rightarrow> None)"

definition map_wakeup :: "(wakeup \<Rightarrow> wakeup) \<Rightarrow> uint8 \<Rightarrow> driver \<Rightarrow> driver option" where
  "map_wakeup f nid d = do {
     n \<leftarrow> d_nodes d nid;
     w \<leftarrow> n_wakeUp n;
     Some (put_node nid (n\<lparr>n_wakeUp := Some (f w)\<rparr>) d)
   }"

definition get_wakeup :: "uint8 \<Rightarrow> driver \<Rightarrow> wakeup option" where
  "get_wakeup nid d = do { n \<leftarrow> d_nodes d nid; n_wakeUp n }"

fun pending_loop :: "uint8 \<Rightarrow> queue_item list \<Rightarrow> driver \<Rightarrow> driver option" where
  "pending_loop nid [] d = Some d"
| "pending_loop nid (it # its) d = do {
     d1 \<leftarrow> pending_step it d;
     d2 \<leftarrow> map_wakeup (\<lambda>w. w\<lparr>w_pending := tl (w_pending w)\<rparr>) nid d1;
     pending_loop nid its d2
   }"

definition SendPending :: "uint8 \<Rightarrow> driver \<Rightarrow> driver option" where
  "SendPending nid d = do {
     d1 \<leftarrow> map_wakeup (\<lambda>w. w\<lparr>w_awake := True\<rparr>) nid d;
     d2 \<leftarrow> pending_loop nid (pending d1 nid) d1;
     n \<leftarrow> d_nodes d2 nid;
     w \<leftarrow> n_wakeUp n;
     if w_awake w \<and> m_queryStage (n_query n) = St_Complete then
       (if w_delayNMI w = 0 then SendNoMoreInfo nid d2
        else Some (d2\<lparr>d_timers := d_timers d2 @ [(nid, w_delayNMI w)]\<rparr>))
     else Some d2
   }"

section \<open>The interview on the driver\<close>

text \<open>\<open>QE_SendPending\<close> is only asked for when the node has a wake-up class.\<close>

definition perform_event :: "node_env \<Rightarrow> uint8 \<Rightarrow> query_event \<Rightarrow> driver \<Rightarrow> driver option" where
  "perform_event env nid ev d = (case ev of
     QE_NoteEssentialComplete \<Rightarrow> Some (notify (Note_EssentialNodeQueriesComplete nid) d)
   | QE_NoteQueriesComplete \<Rightarrow> Some (notify (Note_NodeQueriesComplete nid) d)
   | QE_SendPending \<Rightarrow> SendPending nid d
   | QE_CheckCompleted \<Rightarrow> Some (CheckCompletedNodeQueries d)
   | QE_StageComplete s \<Rightarrow> SendQueryStageComplete nid s d
   | QE_ClearAddingNode \<Rightarrow> Some (case d_nodes d nid of None \<Rightarrow> d | Some n \<Rightarrow> put_node nid (n\<lparr>n_addingNode := False\<rparr>) d)
   | _ \<Rightarrow> run_all send_one (ne_submit env nid ev) d)"

text \<open>What the driver knows of the node itself replaces the free answers.\<close>

definition node_answers :: "node_env \<Rightarrow> uint8 \<Rightarrow> node \<Rightarrow> driver \<Rightarrow> query_env" where
  "node_answers env nid n d = (ne_query env nid)
     \<lparr>qe_isThisController := (nid = d_controllerNodeId d), qe_hasWakeUp := (n_wakeUp n \<noteq> None),
      qe_frequentListening := n_frequentListening n, qe_hasSecurity := (n_classes n CC_SECURITY \<noteq> None)\<rparr>"

definition advance_node :: "node_env \<Rightarrow> uint8 \<Rightarrow> driver \<Rightarrow> driver option" where
  "advance_node env nid d = do {
     n \<leftarrow> d_nodes d nid;
     let (q, evs) = AdvanceQueries (node_answers env nid n d) (n_query n);
     run_all (perform_event env nid) evs (put_node nid (n\<lparr>n_query := q\<rparr>) d)
   }"

definition set_stage_node :: "node_env \<Rightarrow> query_stage \<Rightarrow> bool \<Rightarrow> uint8 \<Rightarrow> driver \<Rightarrow> driver option" where
  "set_stage_node env s advance nid d = do {
     n \<leftarrow> d_nodes d nid;
     let (q, evs) = SetQueryStage (node_answers env nid n d) s advance (n_query n);
     run_all (perform_event env nid) evs (put_node nid (n\<lparr>n_query := q\<rparr>) d)
   }"

section \<open>Falling asleep and waking up\<close>

definition SetAwake :: "node_env \<Rightarrow> bool \<Rightarrow> uint8 \<Rightarrow> driver \<Rightarrow> driver option" where
  "SetAwake env st nid d = do {
     w \<leftarrow> get_wakeup nid d;
     d1 \<leftarrow> (if w_awake w \<noteq> st then do {
             d0 \<leftarrow> (if \<not> w_awake w then run_all send_one (ne_refresh env nid) d else Some d);
             d1 \<leftarrow> map_wakeup (\<lambda>w. w\<lparr>w_awake := st\<rparr>) nid d0;
             Some (notify (if st then Note_Awake nid else Note_Sleep nid) d1)
           } else Some d);
     w1 \<leftarrow> get_wakeup nid d1;
     if w_awake w1 then do {
       d2 \<leftarrow> (if w_pollRequired w1 then do {
               d2 \<leftarrow> set_stage_node env St_Dynamic True nid d1;
               map_wakeup (\<lambda>w. w\<lparr>w_pollRequired := False\<rparr>) nid d2
             } else Some d1);
       SendPending nid d2
     } else Some d1
   }"

text \<open>The loop over one send queue: what stays, after the rest was queued for the node.\<close>

fun move_items :: "uint8 \<Rightarrow> queue_item list \<Rightarrow> driver \<Rightarrow> (queue_item list \<times> driver) option" where
  "move_items nid [] d = Some ([], d)"
| "move_items nid (it # its) d = do {
     target \<leftarrow> (case it of Item_Controller a \<Rightarrow> map_option (Some \<circ> cci_node) (d_ccis d a)
                | Item_ReloadNode n \<Rightarrow> Some None
                | _ \<Rightarrow> Some (item_node (d_ccis d) it));
     if target = Some nid then do {
       d1 \<leftarrow> (case it of
               Item_SendMsg m \<Rightarrow>
                 (if \<not> IsWakeUpNoMoreInformationCommand m \<and> \<not> IsNoOperation m then QueueMsg nid it d else Some d)
             | _ \<Rightarrow> QueueMsg nid it d);
       move_items nid its d1
     } else do {
       (ys, d1) \<leftarrow> move_items nid its d;
       Some (it # ys, d1)
     }
   }"

definition move_queue :: "uint8 \<Rightarrow> msg_queue \<Rightarrow> driver \<Rightarrow> driver option" where
  "move_queue nid q d = do {
     (ys, d1) \<leftarrow> move_items nid (d_queue d q) d;
     Some (set_queue q ys d1)
   }"

text \<open>The current message of the node.\<close>

definition move_current :: "uint8 \<Rightarrow> driver \<Rightarrow> driver option" where
  "move_current nid d = (case d_currentMsg d of None \<Rightarrow> Some d
     | Some m \<Rightarrow> if nid = m_targetNodeId m then do {
         d1 \<leftarrow> (if \<not> IsWakeUpNoMoreInformationCommand m \<and> \<not> IsNoOperation m
               then QueueMsg nid (Item_SendMsg m) d else Some d);
         Some (d1\<lparr>d_currentMsg := None, d_expectedCallbackId := 0, d_expectedCommandClassId := 0,
                  d_expectedNodeId := 0, d_expectedReply := 0, d_waitingForAck := False\<rparr>)
       } else Some d)"

text \<open>The running controller command is copied to the end of its queue, to be cleaned up.\<close>

definition requeue_command :: "driver \<Rightarrow> driver option" where
  "requeue_command d = (case d_currentCmd d of None \<Rightarrow> Some d
     | Some _ \<Rightarrow> do {
         d1 \<leftarrow> UpdateControllerState ControllerState_Sleeping ControllerError_None d;
         a \<leftarrow> d_currentCmd d1;
         c \<leftarrow> d_ccis d1 a;
         let (b, d2) = new_cci c d1;
         Some (push_back MsgQueue_Controller (Item_Controller b) (d2\<lparr>d_currentCmd := Some b\<rparr>))
       })"

definition MoveMessagesToWakeUpQueue :: "node_env \<Rightarrow> uint8 \<Rightarrow> bool \<Rightarrow> driver \<Rightarrow> (bool \<times> driver) option" where
  "MoveMessagesToWakeUpQueue env nid move d = (case d_nodes d nid of
     None \<Rightarrow> Some (False, d)
   | Some n \<Rightarrow>
       if n_listening n \<or> n_frequentListening n \<or> nid = d_controllerNodeId d \<or> n_wakeUp n = None
       then Some (False, d)
       else do {
         d1 \<leftarrow> SetAwake env False nid d;
         if \<not> move then Some (False, d1)
         else do {
           d2 \<leftarrow> move_current nid (if d_currentCmd d1 \<noteq> None then RemoveCurrentMsg d1 else d1);
           d3 \<leftarrow> run_all (move_queue nid) all_queues d2;
           d4 \<leftarrow> requeue_command d3;
           Some (True, CheckCompletedNodeQueries d4)
         }
       })"

section \<open>Dead nodes and error responses\<close>

definition SetNodeAlive :: "node_env \<Rightarrow> bool \<Rightarrow> uint8 \<Rightarrow> driver \<Rightarrow> driver option" where
  "SetNodeAlive env isAlive nid d = do {
     n \<leftarrow> d_nodes d nid;
     let q = n_query n;
     if isAlive then do {
       let d1 = put_node nid (n\<lparr>n_query := q\<lparr>m_nodeAlive := True\<rparr>, n_errors := 0\<rparr>) d;
       d2 \<leftarrow> (if m_queryStage q \<noteq> St_Complete then
               advance_node env nid
                 (put_node nid (n\<lparr>n_query := q\<lparr>m_nodeAlive := True, m_queryRetries := 0\<rparr>, n_errors := 0\<rparr>) d)
             else Some d1);
       Some (notify (Note_Alive nid) d2)
     } else
       (let d1 = put_node nid (n\<lparr>n_query := q\<lparr>m_nodeAlive := False\<rparr>\<rparr>) d;
            d2 = (if m_queryStage q \<noteq> St_Complete then CheckCompletedNodeQueries d1 else d1)
        in Some (notify (Note_Dead nid) d2))
   }"

abbreviation (input) TRANSMIT_COMPLETE_OK :: uint8 where "TRANSMIT_COMPLETE_OK \<equiv> 0"
abbreviation (input) TRANSMIT_COMPLETE_NO_ACK :: uint8 where "TRANSMIT_COMPLETE_NO_ACK \<equiv> 1"
abbreviation (input) TRANSMIT_COMPLETE_FAIL :: uint8 where "TRANSMIT_COMPLETE_FAIL \<equiv> 2"
abbreviation (input) TRANSMIT_COMPLETE_NOT_IDLE :: uint8 where "TRANSMIT_COMPLETE_NOT_IDLE \<equiv> 3"
abbreviation (input) TRANSMIT_COMPLETE_NOROUTE :: uint8 where "TRANSMIT_COMPLETE_NOROUTE \<equiv> 4"
abbreviation (input) TRANSMIT_COMPLETE_VERIFIED :: uint8 where "TRANSMIT_COMPLETE_VERIFIED \<equiv> 5"

text \<open>The counter of the error, and then the count of the node's errors.\<close>

definition count_error :: "uint8 \<Rightarrow> driver_stats \<Rightarrow> driver_stats" where
  "count_error err s =
     (if err = TRANSMIT_COMPLETE_NOROUTE then s\<lparr>s_badroutes := s_badroutes s + 1\<rparr>
      else if err = TRANSMIT_COMPLETE_NO_ACK then s\<lparr>s_noack := s_noack s + 1\<rparr>
      else if err = TRANSMIT_COMPLETE_FAIL then s\<lparr>s_netbusy := s_netbusy s + 1\<rparr>
      else if err = TRANSMIT_COMPLETE_NOT_IDLE then s\<lparr>s_notidle := s_notidle s + 1\<rparr>
      else if err = TRANSMIT_COMPLETE_VERIFIED then s\<lparr>s_txverified := s_txverified s + 1\<rparr>
      else s)"

definition node_error :: "node_env \<Rightarrow> uint8 \<Rightarrow> driver \<Rightarrow> driver option" where
  "node_error env nid d = (case d_nodes d nid of None \<Rightarrow> Some d
     | Some n \<Rightarrow> (let d1 = put_node nid (n\<lparr>n_errors := n_errors n + 1\<rparr>) d
                  in if n_errors n + 1 \<ge> 3 then SetNodeAlive env False nid d1 else Some d1))"

definition HandleErrorResponse :: "node_env \<Rightarrow> uint8 \<Rightarrow> uint8 \<Rightarrow> bool \<Rightarrow> driver \<Rightarrow> (bool \<times> driver) option" where
  "HandleErrorResponse env err nid sleepCheck d0 = do {
     let d = d0\<lparr>d_stats := count_error err (d_stats d0)\<rparr>;
     (moved, d1) \<leftarrow> (case d_currentMsg d of
         Some m \<Rightarrow> if err = TRANSMIT_COMPLETE_NO_ACK
                   then MoveMessagesToWakeUpQueue env (m_targetNodeId m) sleepCheck d else Some (False, d)
       | None \<Rightarrow> Some (False, d));
     if moved then Some (True, d1)
     else do { d2 \<leftarrow> node_error env nid d1; Some (False, d2) }
   }"

section \<open>Shape of the node table and sendable messages\<close>

text \<open>Which nodes there are and which of them have a wake-up class.\<close>

definition shape :: "driver \<Rightarrow> uint8 \<Rightarrow> bool option" where
  "shape d i = map_option (\<lambda>n. n_wakeUp n \<noteq> None) (d_nodes d i)"

text \<open>No entry reloads a node, every message was finished, and the nonce tables have their size.\<close>

definition nonce_ok :: "nonce_table \<Rightarrow> bool" where
  "nonce_ok t \<longleftrightarrow> length (m_nonces t) = 8 \<and> (\<forall>r \<in> set (m_nonces t). length r = 8) \<and> unat (m_lastnonce t) < 8"

definition item_ok :: "queue_item \<Rightarrow> bool" where
  "item_ok it = (case it of Item_SendMsg m \<Rightarrow> sendable m | Item_ReloadNode n \<Rightarrow> False | _ \<Rightarrow> True)"

definition tame :: "(uint8 \<Rightarrow> bool option) \<Rightarrow> driver \<Rightarrow> bool" where
  "tame sh d \<longleftrightarrow> shape d = sh \<and> (\<forall>q. \<forall>it \<in> set (d_queue d q). item_ok it) \<and>
     (\<forall>i. \<forall>it \<in> set (pending d i). item_ok it) \<and> (\<forall>m. d_currentMsg d = Some m \<longrightarrow> sendable m) \<and>
     (\<forall>i n. d_nodes d i = Some n \<longrightarrow> nonce_ok (n_nonces n))"

definition good :: "(uint8 \<Rightarrow> bool option) \<Rightarrow> driver \<Rightarrow> bool" where
  "good sh d \<longleftrightarrow> driver_inv d \<and> tame sh d"

lemma tame_frame:
  assumes "tame sh d" and "d_nodes d' = d_nodes d" and "d_queue d' = d_queue d"
    and "d_currentMsg d' = d_currentMsg d \<or> d_currentMsg d' = None"
  shows "tame sh d'"
proof -
  have "pending d' = pending d" "shape d' = shape d"
    using pending_nodes [OF assms(2)] assms(2) by (simp_all add: shape_def fun_eq_iff)
  with assms show ?thesis by (auto simp: tame_def)
qed

lemma tame_queue:
  assumes "tame sh d" and "d_nodes d' = d_nodes d" and "d_currentMsg d' = d_currentMsg d"
    and "\<forall>q. \<forall>it \<in> set (d_queue d' q). it \<in> set (d_queue d q) \<or> item_ok it"
  shows "tame sh d'"
proof -
  have "pending d' = pending d" "shape d' = shape d"
    using pending_nodes [OF assms(2)] assms(2) by (simp_all add: shape_def fun_eq_iff)
  with assms show ?thesis by (auto simp: tame_def)
qed

lemma tame_put_node:
  assumes "tame sh d" and "d_nodes d i = Some n" and "n_wakeUp n' = None \<longleftrightarrow> n_wakeUp n = None"
    and "\<forall>w. n_wakeUp n' = Some w \<longrightarrow> (\<forall>it \<in> set (w_pending w). item_ok it)"
    and "nonce_ok (n_nonces n) \<Longrightarrow> nonce_ok (n_nonces n')"
  shows "tame sh (put_node i n' d)"
proof -
  have "shape (put_node i n' d) = shape d"
    using assms(2,3) by (auto simp: shape_def put_node_def fun_eq_iff)
  moreover have "item_ok it" if it: "it \<in> set (pending (put_node i n' d) j)" for it j
  proof (cases "j = i")
    case True
    then obtain w where "n_wakeUp n' = Some w" "it \<in> set (w_pending w)"
      using it by (cases "n_wakeUp n'") (simp_all add: pending_put_node)
    then show ?thesis using assms(4) by blast
  next
    case False
    then have "it \<in> set (pending d j)" using it by (simp add: pending_put_node)
    then show ?thesis using assms(1) unfolding tame_def by blast
  qed
  ultimately show ?thesis using assms(1,2,5) by (auto simp: tame_def put_node_def)
qed

lemma item_ok_reset: "item_ok it \<Longrightarrow> item_ok (reset_attempts it)"
  by (cases it) (auto simp: item_ok_def reset_attempts_def sendable_def)

lemma drop_dups_subset:
  "drop_dups it xs h = Some (ys, h') \<Longrightarrow> set ys \<subseteq> set xs"
proof (induction it xs h arbitrary: ys h' rule: drop_dups.induct)
  case (2 it x xs h)
  obtain eq where eq: "item_eq h x it = Some eq" using 2(3) by (cases "item_eq h x it") auto
  show ?case
  proof (cases eq)
    case True
    then obtain h1 where "run_all free_cci (cci_addr x) h = Some h1" "drop_dups it xs h1 = Some (ys, h')"
      using 2(3) eq by (auto split: Option.bind_splits)
    then show ?thesis using 2(1) [OF eq True] by auto
  next
    case False
    then obtain ys1 where "drop_dups it xs h = Some (ys1, h')" "ys = x # ys1"
      using 2(3) eq by (auto split: Option.bind_splits)
    then show ?thesis using 2(2) [OF eq False] by auto
  qed
qed auto

lemma QueueMsg_tame:
  assumes "QueueMsg nid it d = Some d'" and t: "tame sh d" and "item_ok it"
  shows "tame sh d'"
  using assms(1)
proof (rule QueueMsg_shape)
  fix n w ys h
  assume n: "d_nodes d nid = Some n" "n_wakeUp n = Some w"
    and dd: "drop_dups it (w_pending w) (d_ccis d) = Some (ys, h)"
    and d': "d' = put_node nid (n\<lparr>n_wakeUp := Some (w\<lparr>w_pending := ys @ [reset_attempts it]\<rparr>)\<rparr>) (d\<lparr>d_ccis := h\<rparr>)"
  have p: "pending d nid = w_pending w" using n by (simp add: pending_def)
  have "tame sh (d\<lparr>d_ccis := h\<rparr>)" by (rule tame_frame [OF t]) simp_all
  then show ?thesis unfolding d'
  proof (rule tame_put_node [where n = n])
    have "\<forall>x \<in> set (w_pending w). item_ok x" using t p unfolding tame_def by metis
    then have "\<forall>x \<in> set (ys @ [reset_attempts it]). item_ok x"
      using drop_dups_subset [OF dd] item_ok_reset [OF assms(3)] by auto
    then show "\<forall>u. n_wakeUp (n\<lparr>n_wakeUp := Some (w\<lparr>w_pending := ys @ [reset_attempts it]\<rparr>)\<rparr>) = Some u \<longrightarrow>
      (\<forall>x \<in> set (w_pending u). item_ok x)" by simp
  qed (use n in simp_all)
qed

lemma push_back_tame: "tame sh d \<Longrightarrow> item_ok it \<Longrightarrow> tame sh (push_back q it d)"
  by (rule tame_queue) (auto simp: push_back_def)

lemma UpdateControllerState_tame:
  "UpdateControllerState st err d = Some d' \<Longrightarrow> tame sh d \<Longrightarrow> tame sh d'"
  using UpdateControllerState_shape [of st err d d'] by (intro tame_frame [of sh d d']) auto

lemma new_cci_frame:
  assumes "new_cci c d = (b, d1)"
  shows "d_nodes d1 = d_nodes d" "d_queue d1 = d_queue d" "d_currentMsg d1 = d_currentMsg d"
  using assms by (auto simp: new_cci_def)

lemma SendMsg_tame:
  assumes "SendMsg msg q d0 = Some d'" and t: "tame sh d0" and f: "finishes msg"
  shows "tame sh d'"
proof -
  have s: "sendable m1" if "Finalize (d_callbackId d0) (msg\<lparr>m_homeId := d_homeId d0\<rparr>) = Some (cb, m)"
    "m1 = m \<or> m1 = m\<lparr>m_encrypted := True\<rparr>" for cb m m1
  proof -
    have "sendable m" using f that(1) unfolding finishes_def by (metis option.inject prod.inject)
    then show ?thesis using that(2) by (auto simp: sendable_def)
  qed
  have t1: "tame sh (d0\<lparr>d_callbackId := cb\<rparr>)" for cb by (rule tame_frame [OF t]) simp_all
  show ?thesis
    using assms(1)
  proof (cases rule: SendMsg_cases)
    case (1 cb m m1)
    then show ?thesis using push_back_tame [OF t1] s [OF 1(1,2)] by (simp add: item_ok_def)
  next
    case (2 cb m m1 n)
    then show ?thesis using QueueMsg_tame [OF 2(6) t1] s [OF 2(1,5)] by (simp add: item_ok_def)
  next
    case (3 cb m n a c b d1 d2)
    have "tame sh d1" by (rule tame_frame [OF t1]) (use new_cci_frame [OF 3(6)] in auto)
    then have "tame sh d2" by (rule UpdateControllerState_tame [OF 3(7)])
    then show ?thesis using QueueMsg_tame [OF 3(8)] by (simp add: item_ok_def)
  qed
qed

lemma SendQueryStageComplete_tame:
  assumes "SendQueryStageComplete nid s d = Some d'" and "tame sh d"
  shows "tame sh d'"
  using assms QueueMsg_tame [of nid _ d d' sh] push_back_tame [of sh d]
  by (auto simp: SendQueryStageComplete_def item_ok_def split: option.splits if_splits)

lemma BeginControllerCommand_tame:
  assumes "BeginControllerCommand cmd f x hp nid arg d = (r, d')" and "tame sh d"
  shows "tame sh d'"
proof (cases "cmd = ControllerCommand_None")
  case False
  obtain a c d1 where n: "new_cci c d = (a, d1)" and d': "d' = push_back MsgQueue_Controller (Item_Controller a) d1"
    using assms(1) False by (auto simp: BeginControllerCommand_def new_cci_def)
  have "tame sh d1" by (rule tame_frame [OF assms(2)]) (use new_cci_frame [OF n] in auto)
  then show ?thesis unfolding d' by (rule push_back_tame) (simp add: item_ok_def)
qed (use assms in \<open>auto simp: BeginControllerCommand_def\<close>)

lemma notify_tame [simp]: "tame sh (notify x d) \<longleftrightarrow> tame sh d"
  using tame_frame [of sh d "notify x d"] tame_frame [of sh "notify x d" d] by (auto simp: notify_def)

lemma CheckCompletedNodeQueries_frame [simp]:
  "d_nodes (CheckCompletedNodeQueries d) = d_nodes d" "d_queue (CheckCompletedNodeQueries d) = d_queue d"
  "d_currentMsg (CheckCompletedNodeQueries d) = d_currentMsg d" "d_event (CheckCompletedNodeQueries d) = d_event d"
  "d_currentCmd (CheckCompletedNodeQueries d) = d_currentCmd d" "d_ccis (CheckCompletedNodeQueries d) = d_ccis d"
  by (simp_all add: CheckCompletedNodeQueries_def notify_def Let_def split: prod.split)

lemma CheckCompletedNodeQueries_tame [simp]: "tame sh (CheckCompletedNodeQueries d) \<longleftrightarrow> tame sh d"
  using tame_frame [of sh d "CheckCompletedNodeQueries d"] tame_frame [of sh "CheckCompletedNodeQueries d" d] by auto

lemma RemoveCurrentMsg_tame: "tame sh d \<Longrightarrow> tame sh (RemoveCurrentMsg d)"
  by (rule tame_frame) (simp_all add: RemoveCurrentMsg_def)

lemma set_queue_tame: "tame sh d \<Longrightarrow> set ys \<subseteq> set (d_queue d q) \<Longrightarrow> tame sh (set_queue q ys d)"
  by (rule tame_queue) (auto simp: set_queue_def)

section \<open>Families of steps\<close>

text \<open>Steps that keep an invariant, and run on the inputs that are \<open>ok\<close>.\<close>

locale step_family =
  fixes step :: "'x \<Rightarrow> 's \<Rightarrow> 's option" and inv :: "'s \<Rightarrow> bool" and ok :: "'x \<Rightarrow> bool"
  assumes runs: "inv s \<Longrightarrow> ok x \<Longrightarrow> \<exists>s'. step x s = Some s' \<and> inv s'"
begin

lemma all_run: "inv s \<Longrightarrow> \<forall>x \<in> set xs. ok x \<Longrightarrow> \<exists>s'. run_all step xs s = Some s' \<and> inv s'"
proof (induction xs arbitrary: s)
  case (Cons x xs)
  then obtain s1 where "step x s = Some s1" "inv s1" using runs [of s x] by auto
  with Cons show ?case by auto
qed simp

lemma step_keeps: "inv s \<Longrightarrow> ok x \<Longrightarrow> step x s = Some s' \<Longrightarrow> inv s'"
  using runs by fastforce

end

lemma SendMsg_good:
  assumes "good sh d" and "finishes msg"
  shows "\<exists>d'. SendMsg msg q d = Some d' \<and> good sh d'"
  using SendMsg_defined [OF assms(2), of d q] SendMsg_inv [of msg q d] SendMsg_tame [of msg q d _ sh] assms
  unfolding good_def by blast

interpretation sending: step_family send_one "good sh" "\<lambda>mq. finishes (fst mq)" for sh
  by unfold_locales (simp add: send_one_def SendMsg_good)

lemma SendQueryStageComplete_good:
  assumes "good sh d"
  shows "\<exists>d'. SendQueryStageComplete nid s d = Some d' \<and> good sh d'"
  using SendQueryStageComplete_defined [of d nid s] SendQueryStageComplete_inv [of nid s d]
    SendQueryStageComplete_tame [of nid s d _ sh] assms
  unfolding good_def by blast

section \<open>Sending the pending entries\<close>

lemma owned_pop:
  assumes o: "owned L xs p" and p: "p i = it # its"
  shows "owned (\<lambda>a. L a \<and> a \<notin> set (cci_addr it)) xs (p(i := its))"
proof -
  have A: "distinct (addrs xs)" "\<And>j. distinct (addrs (p j))" "\<And>j. set (addrs (p j)) \<inter> set (addrs xs) = {}"
    "\<And>j k. j \<noteq> k \<Longrightarrow> set (addrs (p j)) \<inter> set (addrs (p k)) = {}"
    "\<And>a. L a \<longleftrightarrow> a \<in> set (addrs xs) \<or> (\<exists>j. a \<in> set (addrs (p j)))"
    using o unfolding owned_def by simp_all
  have s: "set (addrs ((p(i := its)) j)) \<subseteq> set (addrs (p j))" for j using p by auto
  have i: "set (addrs (p i)) = set (cci_addr it) \<union> set (addrs its)"
    "set (cci_addr it) \<inter> set (addrs its) = {}" using A(2) [of i] p by auto
  show ?thesis unfolding owned_def
  proof (intro conjI allI impI)
    show "distinct (addrs ((p(i := its)) j))" for j using A(2) [of j] A(2) [of i] p by auto
    show "set (addrs ((p(i := its)) j)) \<inter> set (addrs xs) = {}" for j using A(3) [of j] s [of j] by blast
    show "set (addrs ((p(i := its)) j)) \<inter> set (addrs ((p(i := its)) k)) = {}" if "j \<noteq> k" for j k
      using A(4) [OF that] s [of j] s [of k] by blast
    show "L a \<and> a \<notin> set (cci_addr it) \<longleftrightarrow> a \<in> set (addrs xs) \<or> (\<exists>j. a \<in> set (addrs ((p(i := its)) j)))" for a
    proof (cases "a \<in> set (cci_addr it)")
      case True
      then have "a \<in> set (addrs (p i))" using i by blast
      then have "a \<notin> set (addrs xs)" "\<And>j. j \<noteq> i \<Longrightarrow> a \<notin> set (addrs (p j))" using A(3,4) by blast+
      then show ?thesis using True i(2) by auto
    next
      case False
      have "(\<exists>j. a \<in> set (addrs (p j))) \<longleftrightarrow> (\<exists>j. a \<in> set (addrs ((p(i := its)) j)))"
        using False i(1) by (metis Un_iff fun_upd_apply)
      then show ?thesis using A(5) [of a] False by blast
    qed
  qed (fact A(1))
qed

lemma pop_inv:
  assumes i: "driver_inv d" and p: "pending d nid = it # its"
    and f: "d_queue d' = d_queue d" "d_event d' = d_event d" "d_currentCmd d' = d_currentCmd d"
      "d_nextCci d' = d_nextCci d"
    and h: "d_ccis d' = (\<lambda>a. if a \<in> set (cci_addr it) then None else d_ccis d a)"
    and p': "pending d' = (pending d)(nid := its)"
  shows "driver_inv d'"
proof -
  have "owned (live d) (d_queue d MsgQueue_Controller) (pending d)"
    using i by (simp add: driver_inv_def heap_ok_live)
  from owned_pop [OF this p]
  have "owned (\<lambda>a. live d a \<and> a \<notin> set (cci_addr it)) (d_queue d MsgQueue_Controller) (pending d')"
    by (simp only: p')
  moreover have "live d' = (\<lambda>a. live d a \<and> a \<notin> set (cci_addr it))"
    by (auto simp: live_def h fun_eq_iff)
  moreover have "\<forall>a \<ge> d_nextCci d'. \<not> live d' a"
    using i by (auto simp: live_def h f driver_inv_def heap_ok_def)
  ultimately show ?thesis
    using i event_ok_eq [OF f(1,2)] by (simp add: driver_inv_def heap_ok_live cmd_ok_def f)
qed

text \<open>An operation on a node that is awake leaves its pending queue alone.\<close>

lemma QueueMsg_other: "QueueMsg i it d = Some d' \<Longrightarrow> j \<noteq> i \<Longrightarrow> d_nodes d' j = d_nodes d j"
  by (auto elim!: QueueMsg_shape simp: put_node_def)

lemma SendMsg_awake:
  assumes "SendMsg msg q d0 = Some d'" and n: "d_nodes d0 nid = Some n" and a: "\<not> sleeping n"
  shows "d_nodes d' nid = Some n"
  using assms(1)
proof (cases rule: SendMsg_cases)
  case (1 cb m m1)
  then show ?thesis using n by simp
next
  case (2 cb m m1 k)
  have "nid \<noteq> m_targetNodeId m" using 2(2,3) n a by auto
  from QueueMsg_other [OF 2(6) this] show ?thesis using n by simp
next
  case (3 cb m k x c b d1 d2)
  have "nid \<noteq> m_targetNodeId m" using 3(2,3) n a by auto
  from QueueMsg_other [OF 3(8) this] show ?thesis
    using n UpdateControllerState_shape [OF 3(7)] new_cci_frame(1) [OF 3(6)] by simp
qed

lemma SendQueryStageComplete_awake:
  assumes "SendQueryStageComplete i s d = Some d'" and n: "d_nodes d nid = Some n" and a: "\<not> sleeping n"
  shows "d_nodes d' nid = Some n"
proof (cases "i = nid")
  case True
  then show ?thesis using assms by (auto simp: SendQueryStageComplete_def)
next
  case False
  then show ?thesis using assms(1) n QueueMsg_other [of i _ d d' nid]
    by (auto simp: SendQueryStageComplete_def split: option.splits if_splits)
qed

lemma BeginControllerCommand_frame:
  assumes "BeginControllerCommand cmd f x hp i arg d = (r, d')" and "driver_inv d"
  shows "d_nodes d' = d_nodes d" "d_ccis d a = Some c \<Longrightarrow> d_ccis d' a = Some c"
proof -
  show "d_nodes d' = d_nodes d"
    using assms(1) by (auto simp: BeginControllerCommand_def new_cci_def push_back_def split: if_splits)
  show "d_ccis d' a = Some c" if c: "d_ccis d a = Some c"
  proof -
    have "a \<noteq> d_nextCci d" using assms(2) c by (auto simp: driver_inv_def heap_ok_def)
    then show ?thesis
      using assms(1) c by (auto simp: BeginControllerCommand_def new_cci_def push_back_def split: if_splits)
  qed
qed

lemma pending_step_pop:
  assumes g: "good sh d" and n: "d_nodes d nid = Some n" "n_wakeUp n = Some w" "w_awake w"
    and it: "w_pending w = it # its"
  shows "\<exists>d1 d2. pending_step it d = Some d1 \<and>
    map_wakeup (\<lambda>w. w\<lparr>w_pending := tl (w_pending w)\<rparr>) nid d1 = Some d2 \<and> good sh d2 \<and>
    d_nodes d2 nid = Some (n\<lparr>n_wakeUp := Some (w\<lparr>w_pending := its\<rparr>)\<rparr>)"
proof -
  have p: "pending d nid = it # its" using n it by (simp add: pending_def)
  have i: "driver_inv d" and t: "tame sh d" using g by (simp_all add: good_def)
  have ok: "item_ok it" "\<forall>x \<in> set its. item_ok x"
    using t p unfolding tame_def by (metis list.set_intros(1), metis list.set_intros(2))
  have ns: "\<not> sleeping n" using n by (simp add: sleeping_def)
  \<comment> \<open>the step, up to the deletion of a command item\<close>
  obtain d1 where d1: "good sh d1" "d_nodes d1 nid = Some n"
    "pending_step it d = Some (d1\<lparr>d_ccis := (\<lambda>a. if a \<in> set (cci_addr it) then None else d_ccis d1 a)\<rparr>)"
  proof (cases it)
    case (Item_SendMsg m)
    then obtain d1 where "SendMsg m MsgQueue_WakeUp d = Some d1" "good sh d1"
      using SendMsg_good [OF g, of m MsgQueue_WakeUp] sendable_finishes ok(1) by (auto simp: item_ok_def)
    then show ?thesis using SendMsg_awake [OF _ n(1) ns] Item_SendMsg
      by (intro that [of d1]) (auto simp: pending_step_def)
  next
    case (Item_QueryStageComplete k s r)
    then obtain d1 where "SendQueryStageComplete k s d = Some d1" "good sh d1"
      using SendQueryStageComplete_good [OF g] by blast
    then show ?thesis using SendQueryStageComplete_awake [OF _ n(1) ns] Item_QueryStageComplete
      by (intro that [of d1]) (auto simp: pending_step_def)
  next
    case (Item_Controller a)
    have "live d a" using i p Item_Controller unfolding driver_inv_def heap_ok_live owned_def
      by (metis addrs_simps(2) cci_addr.simps(1) append_Cons list.set_intros(1))
    then obtain c where c: "d_ccis d a = Some c" by (auto simp: live_def)
    obtain r d1 where b: "BeginControllerCommand (cci_command c) (cci_callback c) (cci_context c)
        (cci_highPower c) (cci_node c) (cci_arg c) d = (r, d1)" by force
    have "good sh d1"
      using BeginControllerCommand_inv [OF i b] BeginControllerCommand_tame [OF b t] by (simp add: good_def)
    moreover have "(d_ccis d1)(a := None) = (\<lambda>x. if x = a then None else d_ccis d1 x)" by auto
    ultimately show ?thesis using BeginControllerCommand_frame [OF b i] c b n(1) Item_Controller
      by (intro that [of d1]) (auto simp: pending_step_def free_cci_def)
  next
    case (Item_ReloadNode k)
    then show ?thesis using ok(1) by (simp add: item_ok_def)
  qed
  let ?e = "d1\<lparr>d_ccis := (\<lambda>a. if a \<in> set (cci_addr it) then None else d_ccis d1 a)\<rparr>"
  let ?n = "n\<lparr>n_wakeUp := Some (w\<lparr>w_pending := its\<rparr>)\<rparr>"
  have m: "map_wakeup (\<lambda>w. w\<lparr>w_pending := tl (w_pending w)\<rparr>) nid ?e = Some (put_node nid ?n ?e)"
    using d1(2) n(2) it by (simp add: map_wakeup_def)
  have p1: "pending d1 nid = it # its" using d1(2) n it by (simp add: pending_def)
  have "driver_inv (put_node nid ?n ?e)"
  proof (rule pop_inv [OF _ p1])
    show "driver_inv d1" using d1(1) by (simp add: good_def)
    show "pending (put_node nid ?n ?e) = (pending d1)(nid := its)" by (simp add: pending_put_node)
  qed (simp_all add: put_node_def)
  moreover have "tame sh (put_node nid ?n ?e)"
  proof (rule tame_put_node [where n = n])
    show "tame sh ?e" by (rule tame_frame [of sh d1]) (use d1(1) in \<open>simp_all add: good_def\<close>)
  qed (use d1(2) n(2) ok(2) in simp_all)
  ultimately show ?thesis using d1(3) m by (simp add: good_def put_node_def)
qed

lemma pending_loop_good:
  assumes "good sh d" and "d_nodes d nid = Some n" and "n_wakeUp n = Some w" and "w_awake w"
    and "w_pending w = its"
  shows "\<exists>d'. pending_loop nid its d = Some d' \<and> good sh d' \<and>
    d_nodes d' nid = Some (n\<lparr>n_wakeUp := Some (w\<lparr>w_pending := []\<rparr>)\<rparr>)"
  using assms
proof (induction its arbitrary: d n w)
  case (Cons it its)
  obtain d1 d2 where s: "pending_step it d = Some d1"
    "map_wakeup (\<lambda>w. w\<lparr>w_pending := tl (w_pending w)\<rparr>) nid d1 = Some d2" "good sh d2"
    "d_nodes d2 nid = Some (n\<lparr>n_wakeUp := Some (w\<lparr>w_pending := its\<rparr>)\<rparr>)"
    using pending_step_pop [OF Cons.prems] by blast
  from Cons.IH [OF s(3,4)] Cons.prems s show ?case by auto
qed auto

lemma SendNoMoreInfo_good:
  assumes "good sh d"
  shows "\<exists>d'. SendNoMoreInfo nid d = Some d' \<and> good sh d'"
  unfolding SendNoMoreInfo_def
  by (rule SendMsg_good [OF assms], rule finishes_plain) (simp_all add: Append_def Msg_new_def)

text \<open>\<open>map_wakeup\<close> that keeps the pending queue.\<close>

lemma map_wakeup_good:
  assumes g: "good sh d" and n: "d_nodes d nid = Some n" "n_wakeUp n = Some w"
    and f: "\<And>w. w_pending (f w) = w_pending w"
  shows "\<exists>d'. map_wakeup f nid d = Some d' \<and> good sh d' \<and> d_nodes d' nid = Some (n\<lparr>n_wakeUp := Some (f w)\<rparr>) \<and>
    d_queue d' = d_queue d \<and> d_currentCmd d' = d_currentCmd d"
proof -
  let ?d = "put_node nid (n\<lparr>n_wakeUp := Some (f w)\<rparr>) d"
  have p: "pending ?d = pending d" using n f by (auto simp: pending_put_node pending_def fun_eq_iff)
  have i: "driver_inv d" and t: "tame sh d" using g by (simp_all add: good_def)
  have "live ?d = live d" by (simp add: live_def put_node_def fun_eq_iff)
  then have "driver_inv ?d"
    using i p event_ok_eq [of ?d d] by (simp add: driver_inv_def heap_ok_live cmd_ok_def put_node_def)
  moreover have "tame sh ?d"
  proof (rule tame_put_node [OF t n(1)])
    have "pending d nid = w_pending w" using n by (simp add: pending_def)
    then show "\<forall>u. n_wakeUp (n\<lparr>n_wakeUp := Some (f w)\<rparr>) = Some u \<longrightarrow> (\<forall>it \<in> set (w_pending u). item_ok it)"
      using t f unfolding tame_def by (metis (no_types, lifting) node.select_convs(4) node.surjective node.update_convs(4) option.inject)
  qed (use n in simp_all)
  ultimately show ?thesis using n by (simp add: map_wakeup_def good_def put_node_def)
qed

lemma timers_good: "good sh d \<Longrightarrow> good sh (d\<lparr>d_timers := x\<rparr>)"
  using same_queues_inv [of "d\<lparr>d_timers := x\<rparr>" d] tame_frame [of sh d "d\<lparr>d_timers := x\<rparr>"]
  by (simp add: good_def same_queues_def)

text \<open>After \<open>SendPending\<close> nothing waits for the node, unless the sleep message was queued for it.\<close>

lemma SendPending_good:
  assumes g: "good sh d" and s: "sh nid = Some True"
  shows "\<exists>d'. SendPending nid d = Some d' \<and> good sh d'"
proof -
  have "shape d nid = Some True" using g s by (simp add: good_def tame_def)
  then obtain n w where n: "d_nodes d nid = Some n" "n_wakeUp n = Some w" by (auto simp: shape_def)
  obtain d1 where d1: "map_wakeup (\<lambda>w. w\<lparr>w_awake := True\<rparr>) nid d = Some d1" "good sh d1"
    "d_nodes d1 nid = Some (n\<lparr>n_wakeUp := Some (w\<lparr>w_awake := True\<rparr>)\<rparr>)"
    using map_wakeup_good [OF g n, of "\<lambda>w. w\<lparr>w_awake := True\<rparr>"] by auto
  have p: "pending d1 nid = w_pending w" using d1(3) by (simp add: pending_def)
  obtain d2 where d2: "pending_loop nid (w_pending w) d1 = Some d2" "good sh d2"
    "d_nodes d2 nid = Some (n\<lparr>n_wakeUp := Some (w\<lparr>w_awake := True, w_pending := []\<rparr>)\<rparr>)"
    using pending_loop_good [OF d1(2,3), of "w\<lparr>w_awake := True\<rparr>" "w_pending w"] by auto
  show ?thesis
    using SendNoMoreInfo_good [OF d2(2), of nid] timers_good [OF d2(2)] d1(1) d2 p
    by (simp add: SendPending_def)
qed

end
