(* ===== verification/Wake_Laws.thy ===== *)
theory Wake_Laws
  imports Wake_Up
begin

text \<open>
  The laws of sleeping nodes: every operation keeps the ownership of the controller command items and the
  shape of the node table, and runs unless an item is used after its deletion; messages move to the
  pending queue of a node and back without loss.
\<close>

section \<open>The interview on the driver\<close>

text \<open>Every message a node submits can be finished.\<close>

definition env_ok :: "node_env \<Rightarrow> bool" where
  "env_ok env \<longleftrightarrow> (\<forall>nid ev. \<forall>mq \<in> set (ne_submit env nid ev). finishes (fst mq)) \<and>
     (\<forall>nid. \<forall>mq \<in> set (ne_refresh env nid). finishes (fst mq))"

lemma notify_good [simp]: "good sh (notify x d) \<longleftrightarrow> good sh d"
  by (simp add: good_def)

lemma CheckCompletedNodeQueries_good [simp]: "good sh (CheckCompletedNodeQueries d) \<longleftrightarrow> good sh d"
  by (simp add: good_def)

lemma RemoveCurrentMsg_good: "good sh d \<Longrightarrow> good sh (RemoveCurrentMsg d)"
  by (simp add: good_def RemoveCurrentMsg_tame)

lemma put_node_good:
  assumes g: "good sh d" and n: "d_nodes d nid = Some n" and w: "n_wakeUp n' = n_wakeUp n"
    and t: "nonce_ok (n_nonces n) \<Longrightarrow> nonce_ok (n_nonces n')"
  shows "good sh (put_node nid n' d)"
proof -
  let ?d = "put_node nid n' d"
  have p: "pending ?d = pending d" using n w by (auto simp: pending_put_node pending_def fun_eq_iff)
  have "live ?d = live d" by (simp add: live_def put_node_def fun_eq_iff)
  then have "driver_inv ?d"
    using g p event_ok_eq [of ?d d] by (simp add: good_def driver_inv_def heap_ok_live cmd_ok_def put_node_def)
  moreover have "shape ?d = shape d" using n w by (auto simp: shape_def put_node_def fun_eq_iff)
  moreover have "nonce_ok (n_nonces n')" using g n t unfolding good_def tame_def by blast
  ultimately show ?thesis using g p unfolding good_def tame_def by (simp add: put_node_def)
qed

lemma perform_event_good:
  assumes g: "good sh d" and e: "env_ok env" and s: "ev = QE_SendPending \<Longrightarrow> sh nid = Some True"
  shows "\<exists>d'. perform_event env nid ev d = Some d' \<and> good sh d'"
proof -
  have "\<exists>d'. run_all send_one (ne_submit env nid ev) d = Some d' \<and> good sh d'"
    by (rule sending.all_run [OF g]) (use e in \<open>simp add: env_ok_def\<close>)
  then show ?thesis
    using SendPending_good [OF g s] SendQueryStageComplete_good [OF g] g put_node_good [OF g]
    by (cases ev) (simp_all add: perform_event_def split: option.split)
qed

interpretation performing: step_family "perform_event env nid" "good sh"
    "\<lambda>ev. env_ok env \<and> (ev = QE_SendPending \<longrightarrow> sh nid = Some True)" for env nid sh
  by unfold_locales (auto intro: perform_event_good)

lemma good_shape: "good sh d \<Longrightarrow> d_nodes d nid = Some n \<Longrightarrow> sh nid = Some (n_wakeUp n \<noteq> None)"
  by (auto simp: good_def tame_def shape_def)

lemma good_node: "good sh d \<Longrightarrow> sh nid = Some b \<Longrightarrow> \<exists>n. d_nodes d nid = Some n \<and> b = (n_wakeUp n \<noteq> None)"
  by (auto simp: good_def tame_def shape_def)

lemma good_wakeUp:
  assumes "good sh d" and "sh nid = Some True"
  shows "\<exists>n w. d_nodes d nid = Some n \<and> n_wakeUp n = Some w"
  using good_node [OF assms] by auto

lemma perform_events_good:
  assumes g: "good sh d" and e: "env_ok env" and n: "d_nodes d nid = Some n"
    and p: "QE_SendPending \<in> set evs \<Longrightarrow> n_wakeUp n \<noteq> None"
  shows "\<exists>d'. run_all (perform_event env nid) evs (put_node nid (n\<lparr>n_query := q\<rparr>) d) = Some d' \<and> good sh d'"
proof (rule performing.all_run)
  show "good sh (put_node nid (n\<lparr>n_query := q\<rparr>) d)" by (rule put_node_good [OF g n]) simp_all
  show "\<forall>ev \<in> set evs. env_ok env \<and> (ev = QE_SendPending \<longrightarrow> sh nid = Some True)"
    using e p good_shape [OF g n] by simp
qed

lemma advance_node_good:
  assumes g: "good sh d" and e: "env_ok env" and n: "sh nid \<noteq> None"
  shows "\<exists>d'. advance_node env nid d = Some d' \<and> good sh d'"
proof -
  obtain n where n: "d_nodes d nid = Some n" using good_node [OF g] n by blast
  obtain q evs where a: "AdvanceQueries (node_answers env nid n d) (n_query n) = (q, evs)" by force
  have "n_wakeUp n \<noteq> None" if "QE_SendPending \<in> set evs"
    using AdvanceQueries_SendPending [of "node_answers env nid n d" "n_query n"] a that
    by (simp add: node_answers_def)
  from perform_events_good [OF g e n this] show ?thesis using n a by (simp add: advance_node_def)
qed

lemma set_stage_node_good:
  assumes g: "good sh d" and e: "env_ok env" and n: "sh nid \<noteq> None"
  shows "\<exists>d'. set_stage_node env s adv nid d = Some d' \<and> good sh d'"
proof -
  obtain n where n: "d_nodes d nid = Some n" using good_node [OF g] n by blast
  obtain q evs where a: "SetQueryStage (node_answers env nid n d) s adv (n_query n) = (q, evs)" by force
  have "n_wakeUp n \<noteq> None" if "QE_SendPending \<in> set evs"
    using AdvanceQueries_SendPending [of "node_answers env nid n d"] a that
    by (auto simp: SetQueryStage_def node_answers_def Let_def split: if_splits) (metis snd_conv)+
  from perform_events_good [OF g e n this] show ?thesis using n a by (simp add: set_stage_node_def)
qed

lemma SetAwake_good:
  assumes g: "good sh d" and e: "env_ok env" and s: "sh nid = Some True"
  shows "\<exists>d'. SetAwake env st nid d = Some d' \<and> good sh d'"
proof -
  have wk: "\<exists>w. get_wakeup nid d = Some w" if "good sh d" for d
    using good_wakeUp [OF that s] by (auto simp: get_wakeup_def)
  have mw: "\<exists>d'. map_wakeup f nid d = Some d' \<and> good sh d'"
    if "good sh d" "\<And>w. w_pending (f w) = w_pending w" for f d
    using good_wakeUp [OF that(1) s] map_wakeup_good [OF that(1) _ _ that(2), of nid] by blast
  obtain w where w: "get_wakeup nid d = Some w" using wk [OF g] by blast
  have "\<exists>d0. (if \<not> w_awake w then run_all send_one (ne_refresh env nid) d else Some d) = Some d0 \<and> good sh d0"
    using sending.all_run [OF g, of "ne_refresh env nid"] e g by (auto simp: env_ok_def)
  then obtain d0 where d0: "(if \<not> w_awake w then run_all send_one (ne_refresh env nid) d else Some d) = Some d0"
    "good sh d0" by blast
  obtain d0' where d0': "map_wakeup (\<lambda>w. w\<lparr>w_awake := st\<rparr>) nid d0 = Some d0'" "good sh d0'"
    using mw [OF d0(2), of "\<lambda>w. w\<lparr>w_awake := st\<rparr>"] by auto
  define d1 where "d1 = (if w_awake w \<noteq> st then notify (if st then Note_Awake nid else Note_Sleep nid) d0' else d)"
  have g1: "good sh d1" using d0' g by (simp add: d1_def)
  have e1: "(if w_awake w \<noteq> st then do {
             d0 \<leftarrow> (if \<not> w_awake w then run_all send_one (ne_refresh env nid) d else Some d);
             d1 \<leftarrow> map_wakeup (\<lambda>w. w\<lparr>w_awake := st\<rparr>) nid d0;
             Some (notify (if st then Note_Awake nid else Note_Sleep nid) d1)
           } else Some d) = Some d1"
    using d0 d0' by (cases "w_awake w"; cases st; simp add: d1_def)
  obtain w1 where w1: "get_wakeup nid d1 = Some w1" using wk [OF g1] by blast
  obtain d2 where d2: "set_stage_node env St_Dynamic True nid d1 = Some d2" "good sh d2"
    using set_stage_node_good [OF g1 e, of nid St_Dynamic True] s by auto
  obtain d3 where d3: "map_wakeup (\<lambda>w. w\<lparr>w_pollRequired := False\<rparr>) nid d2 = Some d3" "good sh d3"
    using mw [OF d2(2), of "\<lambda>w. w\<lparr>w_pollRequired := False\<rparr>"] by auto
  show ?thesis
    using w e1 w1 g1 d2 d3 SendPending_good [OF g1 s] SendPending_good [OF d3(2) s]
    unfolding SetAwake_def by simp
qed

section \<open>Moving messages to the pending queue\<close>

text \<open>While entries move, the running command may be in the pending queue.\<close>

definition moving :: "(uint8 \<Rightarrow> bool option) \<Rightarrow> driver \<Rightarrow> bool" where
  "moving sh d \<longleftrightarrow> heap_ok d \<and> event_ok d \<and> tame sh d"

lemma owned_swap: "owned L (xs @ it # ys) p \<longleftrightarrow> owned L (it # xs @ ys) p"
  unfolding owned_def by auto

lemma owned_skip: "cci_addr it = [] \<Longrightarrow> owned L (it # xs) p \<longleftrightarrow> owned L xs p"
  by (simp add: owned_def)

lemma owned_none: "addrs ys = [] \<Longrightarrow> owned L (xs @ ys) p \<longleftrightarrow> owned L xs p"
  by (simp add: owned_def)

lemma item_target:
  "(case it of Item_Controller a \<Rightarrow> map_option (Some \<circ> cci_node) (h a)
     | Item_ReloadNode n \<Rightarrow> Some None | _ \<Rightarrow> Some (item_node h it)) = Some t \<Longrightarrow>
   t = (case it of Item_ReloadNode n \<Rightarrow> None | _ \<Rightarrow> item_node h it)"
  by (cases it) (auto simp: item_node_def)

lemma move_items_keeps:
  assumes "move_items nid xs d = Some (ys, d')" and "owned (live d) (pre @ xs) (pending d)"
    and "\<forall>a \<ge> d_nextCci d. d_ccis d a = None" and "tame sh d" and "\<forall>it \<in> set xs. item_ok it"
  shows "owned (live d') (pre @ ys) (pending d') \<and> (\<forall>a \<ge> d_nextCci d'. d_ccis d' a = None) \<and> tame sh d' \<and>
    set ys \<subseteq> set xs \<and> d_queue d' = d_queue d \<and> d_event d' = d_event d \<and> d_currentCmd d' = d_currentCmd d"
  using assms
proof (induction xs arbitrary: d ys pre)
  case (Cons it its)
  let ?target = "case it of Item_Controller a \<Rightarrow> map_option (Some \<circ> cci_node) (d_ccis d a)
     | Item_ReloadNode n \<Rightarrow> Some None | _ \<Rightarrow> Some (item_node (d_ccis d) it)"
  obtain t where t: "?target = Some t" using Cons.prems(1) by (cases ?target) auto
  show ?case
  proof (cases "t = Some nid")
    case False
    then obtain zs where z: "move_items nid its d = Some (zs, d')" "ys = it # zs"
      using Cons.prems(1) t by (auto split: Option.bind_splits)
    have "owned (live d) ((pre @ [it]) @ its) (pending d)" using Cons.prems(2) by simp
    from Cons.IH [OF z(1) this Cons.prems(3,4)] Cons.prems(5) z(2) show ?thesis by auto
  next
    case True
    let ?step = "case it of
        Item_SendMsg m \<Rightarrow>
          (if \<not> IsWakeUpNoMoreInformationCommand m \<and> \<not> IsNoOperation m then QueueMsg nid it d else Some d)
      | _ \<Rightarrow> QueueMsg nid it d"
    obtain d1 where d1: "?step = Some d1" "move_items nid its d1 = Some (ys, d')"
      using Cons.prems(1) t True by (cases ?step) auto
    have c: "QueueMsg nid it d = Some d1 \<or> d1 = d \<and> cci_addr it = []"
      using d1(1) by (cases it) (auto split: if_splits)
    have o: "owned (live d) (it # pre @ its) (pending d)" using Cons.prems(2) by (simp add: owned_swap)
    have "owned (live d1) (pre @ its) (pending d1) \<and> (\<forall>a \<ge> d_nextCci d1. d_ccis d1 a = None) \<and> tame sh d1 \<and>
      d_queue d1 = d_queue d \<and> d_event d1 = d_event d \<and> d_currentCmd d1 = d_currentCmd d"
      using c
    proof
      assume q: "QueueMsg nid it d = Some d1"
      have "\<forall>i. distinct (addrs (pending d i))" using o by (simp add: owned_def)
      then show ?thesis
        using QueueMsg_owned [OF q o] QueueMsg_frame [OF q] QueueMsg_tame [OF q Cons.prems(4)]
          QueueMsg_bound [OF q] Cons.prems(3,5) by auto
    next
      assume "d1 = d \<and> cci_addr it = []"
      then show ?thesis using o Cons.prems(3,4) by (simp add: owned_skip)
    qed
    then show ?thesis using Cons.IH [OF d1(2), of pre] Cons.prems(5) by auto
  qed
qed simp

lemma move_queue_moving:
  assumes "move_queue nid q d = Some d'" and m: "moving sh d"
  shows "moving sh d' \<and> d_currentCmd d' = d_currentCmd d"
proof -
  obtain ys d1 where y: "move_items nid (d_queue d q) d = Some (ys, d1)" "d' = set_queue q ys d1"
    using assms(1) by (auto simp: move_queue_def split: Option.bind_splits)
  define pre where "pre = (if q = MsgQueue_Controller then [] else d_queue d MsgQueue_Controller)"
  have h: "heap_ok d" "event_ok d" "tame sh d" using m by (simp_all add: moving_def)
  have no: "addrs (d_queue d q) = []" if "q \<noteq> MsgQueue_Controller" using h(1) that by (simp add: heap_ok_def)
  have b: "\<forall>a \<ge> d_nextCci d. d_ccis d a = None" using h(1) by (simp add: heap_ok_def)
  have io: "\<forall>it \<in> set (d_queue d q). item_ok it" using h(3) by (simp add: tame_def)
  have o: "owned (live d) (pre @ d_queue d q) (pending d)"
  proof (cases "q = MsgQueue_Controller")
    case True
    then show ?thesis using h(1) by (simp add: pre_def heap_ok_live)
  next
    case False
    then show ?thesis using h(1) no [OF False] by (simp add: pre_def heap_ok_live owned_none)
  qed
  note k0 = move_items_keeps [OF y(1) o b h(3) io]
  then have k: "owned (live d1) (pre @ ys) (pending d1)" "\<forall>a \<ge> d_nextCci d1. d_ccis d1 a = None" "tame sh d1"
    "set ys \<subseteq> set (d_queue d q)" "d_queue d1 = d_queue d" "d_event d1 = d_event d" "d_currentCmd d1 = d_currentCmd d"
    by simp_all
  have f: "d_nodes d' = d_nodes d1" "d_queue d' = (d_queue d)(q := ys)" "d_ccis d' = d_ccis d1"
    "d_nextCci d' = d_nextCci d1" "d_currentCmd d' = d_currentCmd d"
    "d_event d' = (if ys = [] then (d_event d)(q := False) else d_event d)"
    by (simp_all add: y(2) set_queue_def k)
  have no': "addrs ys = []" if "q \<noteq> MsgQueue_Controller"
    using no [OF that] k(4) by (metis (no_types, lifting) ex_in_conv set_addrs set_empty subset_iff)
  have "owned (live d1) (d_queue d' MsgQueue_Controller) (pending d1)"
  proof (cases "q = MsgQueue_Controller")
    case True
    then show ?thesis using k(1) by (simp add: pre_def f(2))
  next
    case False
    then show ?thesis using k(1) no' [OF False] by (simp add: pre_def f(2) owned_none)
  qed
  moreover have "live d' = live d1" "pending d' = pending d1"
    using pending_nodes [OF f(1)] by (simp_all add: live_def f(3) fun_eq_iff)
  moreover have "\<forall>p. p \<noteq> MsgQueue_Controller \<longrightarrow> addrs (d_queue d' p) = []"
    using h(1) no' by (simp add: f(2) heap_ok_def)
  moreover have "event_ok d'" by (rule event_ok_set_queue [OF h(2) f(2) k(4) f(6)])
  moreover have "tame sh d'" unfolding y(2) by (rule set_queue_tame [OF k(3)]) (simp add: k)
  ultimately show ?thesis using k(2) f(3-5) by (simp add: moving_def heap_ok_live live_def)
qed

lemma move_queues_moving:
  "run_all (move_queue nid) qs d = Some d' \<Longrightarrow> moving sh d \<Longrightarrow> moving sh d' \<and> d_currentCmd d' = d_currentCmd d"
proof (induction qs arbitrary: d)
  case (Cons q qs)
  then obtain d1 where d1: "move_queue nid q d = Some d1" "run_all (move_queue nid) qs d1 = Some d'"
    by (auto split: Option.bind_splits)
  then show ?case using Cons.IH [OF d1(2)] move_queue_moving [OF d1(1) Cons.prems(2)] by simp
qed simp

lemma requeue_command_good:
  assumes "requeue_command d = Some d'" and m: "moving sh d"
  shows "good sh d'"
proof (cases "d_currentCmd d")
  case None
  then show ?thesis using assms by (simp add: requeue_command_def moving_def good_def driver_inv_def cmd_ok_def)
next
  case (Some a)
  obtain d1 where d1: "UpdateControllerState ControllerState_Sleeping ControllerError_None d = Some d1"
    using assms(1) Some by (auto simp: requeue_command_def split: Option.bind_splits)
  note s = UpdateControllerState_shape [OF d1]
  obtain c b d2 where c: "d_ccis d1 a = Some c" "new_cci c d1 = (b, d2)"
    "d' = push_back MsgQueue_Controller (Item_Controller b) (d2\<lparr>d_currentCmd := Some b\<rparr>)"
    using assms(1) Some d1 s by (auto simp: requeue_command_def split: Option.bind_splits prod.splits)
  have e: "event_ok d" and h: "heap_ok d" and t: "tame sh d" using m by (simp_all add: moving_def)
  \<comment> \<open>the same allocation seen from a state without a running command\<close>
  have d2: "d2 = d1\<lparr>d_ccis := (d_ccis d1)(d_nextCci d1 \<mapsto> c), d_nextCci := d_nextCci d1 + 1\<rparr>" "b = d_nextCci d1"
    using c(2) by (auto simp: new_cci_def)
  have L: "live d2 = (\<lambda>x. live d1 x \<or> x = b)" by (auto simp: live_def d2 fun_eq_iff)
  have "\<not> live d1 b" using h s by (simp add: heap_ok_live d2)
  then have "owned (live d2) (Item_Controller b # d_queue d MsgQueue_Controller) (pending d)"
    unfolding L by (intro owned_new) (use h s in \<open>simp_all add: heap_ok_live\<close>)
  then have "owned (live d2) (d_queue d MsgQueue_Controller @ [Item_Controller b]) (pending d)"
    by (simp add: owned_append1)
  moreover have "live d' = live d2" "pending d' = pending d"
    using pending_nodes [of d2 d] s by (simp_all add: c(3) live_def push_back_def pending_def d2 fun_eq_iff)
  moreover have "d_queue d' = (d_queue d)(MsgQueue_Controller := d_queue d MsgQueue_Controller @ [Item_Controller b])"
    using s by (simp add: c(3) d2)
  moreover have "\<forall>x \<ge> d_nextCci d'. \<not> live d' x"
    using h s by (auto simp: c(3) d2 heap_ok_live live_def fun_eq_iff)
  ultimately have "heap_ok d'" using h by (simp add: heap_ok_live)
  moreover have "cmd_ok d'" by (simp add: cmd_ok_def c(3))
  moreover have "event_ok d'"
  proof (rule event_ok_push [OF e])
    show "d_event d' = (d_event d)(MsgQueue_Controller := True)" using s by (auto simp: c(3) d2 fun_eq_iff)
  qed fact
  moreover have "tame sh d'" unfolding c(3)
  proof (rule push_back_tame)
    show "tame sh (d2\<lparr>d_currentCmd := Some b\<rparr>)"
      by (rule tame_frame [OF UpdateControllerState_tame [OF d1 t]]) (simp_all add: d2)
  qed (simp add: item_ok_def)
  ultimately show ?thesis by (simp add: good_def driver_inv_def)
qed

lemma QueueMsg_good:
  "QueueMsg nid it d = Some d' \<Longrightarrow> good sh d \<Longrightarrow> item_ok it \<Longrightarrow> cci_addr it = [] \<Longrightarrow> good sh d'"
  using QueueMsg_inv QueueMsg_tame by (auto simp: good_def)

lemma move_current_good:
  assumes "move_current nid d = Some d'" and g: "good sh d"
  shows "good sh d'"
proof -
  have f: "good sh (e\<lparr>d_currentMsg := None, d_expectedCallbackId := 0, d_expectedCommandClassId := 0,
        d_expectedNodeId := 0, d_expectedReply := 0, d_waitingForAck := False\<rparr>)" if "good sh e" for e
    using that same_queues_inv [of "e\<lparr>d_currentMsg := None, d_expectedCallbackId := 0, d_expectedCommandClassId := 0,
        d_expectedNodeId := 0, d_expectedReply := 0, d_waitingForAck := False\<rparr>" e]
    by (auto simp: good_def same_queues_def intro: tame_frame [of sh e])
  have "sendable m" if "d_currentMsg d = Some m" for m using g that by (simp add: good_def tame_def)
  then show ?thesis
    using assms f QueueMsg_good [of nid _ d _ sh]
    by (auto simp: move_current_def item_ok_def split: option.splits if_splits Option.bind_splits)
qed

lemma MoveMessagesToWakeUpQueue_keeps:
  assumes "MoveMessagesToWakeUpQueue env nid move d = Some (r, d')" and g: "good sh d" and e: "env_ok env"
  shows "good sh d'"
proof (cases "r")
  case False
  show ?thesis
  proof (cases "d' = d")
    case False
    then obtain n where n: "d_nodes d nid = Some n" "n_wakeUp n \<noteq> None" "SetAwake env False nid d = Some d'"
      using assms(1) \<open>\<not> r\<close> by (auto simp: MoveMessagesToWakeUpQueue_def split: option.splits if_splits Option.bind_splits)
    then have "sh nid = Some True" using good_shape [OF g n(1)] by simp
    then show ?thesis using SetAwake_good [OF g e, of nid False] n(3) by auto
  qed (use g in simp)
next
  case True
  obtain n d1 d2 d3 d4 where n: "d_nodes d nid = Some n" "n_wakeUp n \<noteq> None"
    and d1: "SetAwake env False nid d = Some d1"
    and d2: "move_current nid (if d_currentCmd d1 \<noteq> None then RemoveCurrentMsg d1 else d1) = Some d2"
    and d3: "run_all (move_queue nid) all_queues d2 = Some d3" and d4: "requeue_command d3 = Some d4"
    and d': "d' = CheckCompletedNodeQueries d4"
    using assms(1) True
    by (auto simp: MoveMessagesToWakeUpQueue_def split: option.splits if_splits Option.bind_splits)
  have "sh nid = Some True" using good_shape [OF g n(1)] n(2) by simp
  then have "good sh d1" using SetAwake_good [OF g e, of nid False] d1 by auto
  then have "good sh (if d_currentCmd d1 \<noteq> None then RemoveCurrentMsg d1 else d1)"
    by (simp add: RemoveCurrentMsg_good)
  from move_current_good [OF d2 this] have "moving sh d2" by (simp add: good_def moving_def driver_inv_def)
  from move_queues_moving [OF d3 this] have "moving sh d3" by simp
  from requeue_command_good [OF d4 this] show ?thesis by (simp add: d')
qed

section \<open>Dead nodes and errors\<close>

lemma SetNodeAlive_good:
  assumes g: "good sh d" and e: "env_ok env" and n: "d_nodes d nid = Some n"
  shows "\<exists>d'. SetNodeAlive env al nid d = Some d' \<and> good sh d'"
proof -
  have p: "good sh (put_node nid (n\<lparr>n_query := q, n_errors := k\<rparr>) d)"
    "good sh (put_node nid (n\<lparr>n_query := q\<rparr>) d)" for q k
    by (rule put_node_good [OF g n]; simp)+
  have s: "sh nid \<noteq> None" using good_shape [OF g n] by simp
  obtain d2 where "advance_node env nid
      (put_node nid (n\<lparr>n_query := (n_query n)\<lparr>m_nodeAlive := True, m_queryRetries := 0\<rparr>, n_errors := 0\<rparr>) d) = Some d2"
    "good sh d2"
    using advance_node_good [OF p(1) e s, of 0 "(n_query n)\<lparr>m_nodeAlive := True, m_queryRetries := 0\<rparr>"] by blast
  then show ?thesis
    using n p by (cases al) (simp_all add: SetNodeAlive_def Let_def)
qed

lemma stats_good [simp]: "good sh (d\<lparr>d_stats := x\<rparr>) \<longleftrightarrow> good sh d"
proof -
  have "good sh (d\<lparr>d_stats := x\<rparr>)" if "good sh d" for d x
    using that same_queues_inv [of "d\<lparr>d_stats := x\<rparr>" d] tame_frame [of sh d "d\<lparr>d_stats := x\<rparr>"]
    by (simp add: good_def same_queues_def)
  from this [of d x] this [of "d\<lparr>d_stats := x\<rparr>" "d_stats d"] show ?thesis by auto
qed

lemma node_error_good:
  assumes g: "good sh d" and e: "env_ok env"
  shows "\<exists>d'. node_error env nid d = Some d' \<and> good sh d'"
proof (cases "d_nodes d nid")
  case (Some n)
  let ?d = "put_node nid (n\<lparr>n_errors := n_errors n + 1\<rparr>) d"
  have "good sh ?d" by (rule put_node_good [OF g Some]) simp_all
  then show ?thesis using Some SetNodeAlive_good [of sh ?d env nid _ False] e
    by (simp add: node_error_def put_node_def Let_def)
qed (use g in \<open>simp add: node_error_def\<close>)

lemma HandleErrorResponse_keeps:
  assumes "HandleErrorResponse env err nid sc d = Some (r, d')" and g: "good sh d" and e: "env_ok env"
  shows "good sh d'"
proof -
  let ?d = "d\<lparr>d_stats := count_error err (d_stats d)\<rparr>"
  obtain m d1 where m: "(case d_currentMsg ?d of
         Some m \<Rightarrow> if err = TRANSMIT_COMPLETE_NO_ACK
                   then MoveMessagesToWakeUpQueue env (m_targetNodeId m) sc ?d else Some (False, ?d)
       | None \<Rightarrow> Some (False, ?d)) = Some (m, d1)"
    and r: "(if m then Some (True, d1) else do { d2 \<leftarrow> node_error env nid d1; Some (False, d2) }) = Some (r, d')"
    using assms(1) unfolding HandleErrorResponse_def Let_def
    by (auto elim!: bind_eq_Some_conv [THEN iffD1, THEN exE])
  have "good sh d1"
    using m MoveMessagesToWakeUpQueue_keeps [of env _ sc ?d m d1 sh] g e
    by (auto split: option.splits if_splits)
  then show ?thesis using r node_error_good [of sh d1 env nid] e by (auto split: if_splits)
qed

text \<open>Three errors in a row make a node dead: an error that is not answered by moving messages counts
  one more error for the node; from the third on the node is marked dead and that is announced, before that
  its state is untouched.\<close>

theorem HandleErrorResponse_counts:
  assumes g: "good sh d" and n: "d_nodes d nid = Some n"
    and "err \<noteq> 1 \<or> d_currentMsg d = None"
  shows "\<exists>d' n'. HandleErrorResponse env err nid sc d = Some (False, d') \<and> good sh d' \<and> d_nodes d' nid = Some n' \<and>
    n_errors n' = n_errors n + 1 \<and> n_wakeUp n' = n_wakeUp n \<and>
    (if n_errors n + 1 \<ge> 3
     then n_query n' = (n_query n)\<lparr>m_nodeAlive := False\<rparr> \<and> last (d_notes d') = Note_Dead nid
     else n_query n' = n_query n \<and> d_notes d' = d_notes d)"
proof -
  let ?d = "d\<lparr>d_stats := count_error err (d_stats d)\<rparr>"
  let ?n = "n\<lparr>n_errors := n_errors n + 1\<rparr>"
  have h: "HandleErrorResponse env err nid sc d = do { d2 \<leftarrow> node_error env nid ?d; Some (False, d2) }"
    using assms(3) by (cases "d_currentMsg d") (auto simp: HandleErrorResponse_def Let_def)
  have g1: "good sh (put_node nid ?n ?d)" by (rule put_node_good [of sh ?d nid n]) (use g n in simp_all)
  show ?thesis
  proof (cases "n_errors n + 1 \<ge> 3")
    case False
    then show ?thesis using h g1 n by (simp add: node_error_def put_node_def Let_def)
  next
    case True
    let ?n' = "?n\<lparr>n_query := (n_query n)\<lparr>m_nodeAlive := False\<rparr>\<rparr>"
    have g2: "good sh (put_node nid ?n' (put_node nid ?n ?d))"
      by (rule put_node_good [OF g1, of nid ?n]) (simp_all add: put_node_def)
    let ?x = "put_node nid ?n' (put_node nid ?n ?d)"
    let ?d' = "notify (Note_Dead nid) (if m_queryStage (n_query n) \<noteq> St_Complete
      then CheckCompletedNodeQueries ?x else ?x)"
    have "node_error env nid ?d = Some ?d'"
      using True n by (simp add: node_error_def SetNodeAlive_def Let_def put_node_def)
    moreover have "good sh ?d'" using g2 by simp
    moreover have "d_nodes ?d' nid = Some ?n'" by (simp add: notify_def put_node_def)
    moreover have "last (d_notes ?d') = Note_Dead nid" by (simp add: notify_def)
    ultimately show ?thesis using True h by (intro exI [of _ ?d'] exI [of _ ?n']) simp
  qed
qed

section \<open>What moving and sending do to the messages\<close>

text \<open>Entries that are not kept for a sleeping node.\<close>

definition not_kept :: "queue_item \<Rightarrow> bool" where
  "not_kept it = (case it of Item_SendMsg m \<Rightarrow> IsWakeUpNoMoreInformationCommand m \<or> IsNoOperation m | _ \<Rightarrow> False)"

text \<open>Queueing an entry that is not a command, on the list of the pending entries.\<close>

definition queue_into :: "cci_heap \<Rightarrow> queue_item list \<Rightarrow> queue_item \<Rightarrow> queue_item list" where
  "queue_into h ps it = filter (\<lambda>x. item_eq h x it = Some False) ps @ [reset_attempts it]"

definition with_pending :: "uint8 \<Rightarrow> node \<Rightarrow> wakeup \<Rightarrow> queue_item list \<Rightarrow> driver \<Rightarrow> driver" where
  "with_pending nid n w ps d = put_node nid (n\<lparr>n_wakeUp := Some (w\<lparr>w_pending := ps\<rparr>)\<rparr>) d"

lemma with_pending_simps [simp]:
  "d_queue (with_pending nid n w ps d) = d_queue d" "d_ccis (with_pending nid n w ps d) = d_ccis d"
  "d_event (with_pending nid n w ps d) = d_event d" "d_currentMsg (with_pending nid n w ps d) = d_currentMsg d"
  "d_currentCmd (with_pending nid n w ps d) = d_currentCmd d"
  "pending (with_pending nid n w ps d) = (pending d)(nid := ps)"
  "set_queue q xs (with_pending nid n w ps d) = with_pending nid n w ps (set_queue q xs d)"
  by (simp_all add: with_pending_def pending_put_node) (simp_all add: put_node_def set_queue_def)

lemma QueueMsg_with_pending:
  assumes "cci_addr it = []"
  shows "QueueMsg nid it (with_pending nid n w ps d) = Some (with_pending nid n w (queue_into (d_ccis d) ps it) d)"
  using drop_dups_filter [OF assms, of ps "d_ccis d"]
  by (simp add: QueueMsg_def with_pending_def put_node_def queue_into_def)

text \<open>A queue without commands for the node and without reloads.\<close>

definition plain_for :: "cci_heap \<Rightarrow> uint8 \<Rightarrow> queue_item list \<Rightarrow> bool" where
  "plain_for h nid xs \<longleftrightarrow> (\<forall>it \<in> set xs. item_ok it \<and> (\<forall>a. it = Item_Controller a \<longrightarrow>
     (\<exists>c. h a = Some c \<and> cci_node c \<noteq> nid)))"

lemma move_items_plain:
  assumes "plain_for (d_ccis d) nid xs"
  shows "move_items nid xs (with_pending nid n w ps d) =
    Some (filter (\<lambda>it. item_node (d_ccis d) it \<noteq> Some nid) xs,
      with_pending nid n w (foldl (queue_into (d_ccis d)) ps
        (filter (\<lambda>it. item_node (d_ccis d) it = Some nid \<and> \<not> not_kept it) xs)) d)"
  using assms
proof (induction xs arbitrary: ps)
  case (Cons it its)
  have p: "plain_for (d_ccis d) nid its" using Cons.prems by (simp add: plain_for_def)
  show ?case
  proof (cases it)
    case (Item_SendMsg m)
    then show ?thesis
      by (simp add: Cons.IH [OF p] QueueMsg_with_pending item_node_def not_kept_def)
  next
    case (Item_QueryStageComplete k s r)
    then show ?thesis
      by (simp add: Cons.IH [OF p] QueueMsg_with_pending item_node_def not_kept_def)
  next
    case (Item_Controller a)
    then obtain c where "d_ccis d a = Some c" "cci_node c \<noteq> nid"
      using Cons.prems by (auto simp: plain_for_def)
    then show ?thesis using Item_Controller by (simp add: Cons.IH [OF p] item_node_def)
  next
    case (Item_ReloadNode k)
    then show ?thesis using Cons.prems by (simp add: plain_for_def item_ok_def)
  qed
qed simp

text \<open>The send queues without the entries of the node.\<close>

fun strip_queues :: "uint8 \<Rightarrow> msg_queue list \<Rightarrow> driver \<Rightarrow> driver" where
  "strip_queues nid [] d = d"
| "strip_queues nid (q # qs) d =
     strip_queues nid qs (set_queue q (filter (\<lambda>it. item_node (d_ccis d) it \<noteq> Some nid) (d_queue d q)) d)"

lemma strip_queues_simps [simp]:
  "d_ccis (strip_queues nid qs d) = d_ccis d" "d_nodes (strip_queues nid qs d) = d_nodes d"
  "d_currentCmd (strip_queues nid qs d) = d_currentCmd d" "d_currentMsg (strip_queues nid qs d) = d_currentMsg d"
  by (induction qs arbitrary: d) (simp_all add: set_queue_def)

lemma strip_queues_queue:
  "d_queue (strip_queues nid qs d) q =
    (if q \<in> set qs then filter (\<lambda>it. item_node (d_ccis d) it \<noteq> Some nid) (d_queue d q) else d_queue d q)"
  by (induction qs arbitrary: d) (auto simp: set_queue_def)

lemma move_queues_plain:
  assumes "\<forall>q \<in> set qs. plain_for (d_ccis d) nid (d_queue d q)" and "distinct qs"
  shows "run_all (move_queue nid) qs (with_pending nid n w ps d) =
    Some (with_pending nid n w (foldl (queue_into (d_ccis d)) ps (concat (map (\<lambda>q.
        filter (\<lambda>it. item_node (d_ccis d) it = Some nid \<and> \<not> not_kept it) (d_queue d q)) qs))) (strip_queues nid qs d))"
  using assms
proof (induction qs arbitrary: d ps)
  case (Cons q qs)
  let ?d = "set_queue q (filter (\<lambda>it. item_node (d_ccis d) it \<noteq> Some nid) (d_queue d q)) d"
  have f: "d_ccis ?d = d_ccis d" "\<And>p. p \<noteq> q \<Longrightarrow> d_queue ?d p = d_queue d p" by (simp_all add: set_queue_def)
  have m: "(\<lambda>p. filter (\<lambda>it. item_node (d_ccis d) it = Some nid \<and> \<not> not_kept it) (d_queue ?d p)) p =
      (\<lambda>p. filter (\<lambda>it. item_node (d_ccis d) it = Some nid \<and> \<not> not_kept it) (d_queue d p)) p" if "p \<in> set qs" for p
  proof -
    have "p \<noteq> q" using that Cons.prems(2) by auto
    then show ?thesis by (simp add: f(2))
  qed
  have m': "map (\<lambda>p. filter (\<lambda>it. item_node (d_ccis d) it = Some nid \<and> \<not> not_kept it) (d_queue ?d p)) qs =
      map (\<lambda>p. filter (\<lambda>it. item_node (d_ccis d) it = Some nid \<and> \<not> not_kept it) (d_queue d p)) qs"
    by (rule map_cong [OF refl m])
  have p: "plain_for (d_ccis ?d) nid (d_queue ?d p)" if "p \<in> set qs" for p
  proof -
    have "p \<noteq> q" using that Cons.prems(2) by auto
    then show ?thesis using Cons.prems(1) that by (simp add: f)
  qed
  have s: "move_queue nid q (with_pending nid n w ps d) = Some (with_pending nid n w
      (foldl (queue_into (d_ccis d)) ps (filter (\<lambda>it. item_node (d_ccis d) it = Some nid \<and> \<not> not_kept it) (d_queue d q))) ?d)"
    using move_items_plain [of d nid "d_queue d q" n w ps] Cons.prems(1) by (simp add: move_queue_def)
  show ?case
    using Cons.IH [of ?d "foldl (queue_into (d_ccis d)) ps
        (filter (\<lambda>it. item_node (d_ccis d) it = Some nid \<and> \<not> not_kept it) (d_queue d q))"] p Cons.prems(2)
    by (simp add: s f(1) m' del: with_pending_simps)
qed simp

lemma SetAwake_false:
  assumes "d_nodes d nid = Some n" and "n_wakeUp n = Some w"
  shows "SetAwake env False nid d = Some (if w_awake w then notify (Note_Sleep nid)
    (put_node nid (n\<lparr>n_wakeUp := Some (w\<lparr>w_awake := False\<rparr>)\<rparr>) d) else d)"
  using assms by (simp add: SetAwake_def get_wakeup_def map_wakeup_def put_node_def notify_def)


section \<open>Two equal commands for one sleeping node\<close>

lemma drop_dups_less: "drop_dups it xs h = Some (ys, h') \<Longrightarrow> h' a = Some c \<Longrightarrow> h a = Some c"
proof (induction it xs h arbitrary: ys h' rule: drop_dups.induct)
  case (2 it x xs h)
  obtain eq where eq: "item_eq h x it = Some eq" using 2(3) by (cases "item_eq h x it") auto
  show ?case
  proof (cases eq)
    case True
    then obtain h1 where h1: "run_all free_cci (cci_addr x) h = Some h1" "drop_dups it xs h1 = Some (ys, h')"
      using 2(3) eq by (auto split: Option.bind_splits)
    then have "h1 a = Some c" using 2(1) [OF eq True] 2(4) by blast
    then show ?thesis using free_addr [OF h1(1), of a] by (auto split: if_splits)
  next
    case False
    then obtain ys1 where "drop_dups it xs h = Some (ys1, h')"
      using 2(3) eq by (auto split: Option.bind_splits)
    then show ?thesis using 2(2) [OF eq False] 2(4) by blast
  qed
qed simp

lemma QueueMsg_less: "QueueMsg nid it d = Some d' \<Longrightarrow> d_ccis d' a = Some c \<Longrightarrow> d_ccis d a = Some c"
  by (erule QueueMsg_shape) (auto simp: put_node_def dest: drop_dups_less)

text \<open>An entry that leaves the list is deleted.\<close>

lemma drop_dups_entry:
  "drop_dups it xs h = Some (ys, h') \<Longrightarrow> Item_Controller a \<in> set xs \<Longrightarrow>
    Item_Controller a \<in> set ys \<or> h' a = None"
proof (induction it xs h arbitrary: ys h' rule: drop_dups.induct)
  case (2 it x xs h)
  obtain eq where eq: "item_eq h x it = Some eq" using 2(3) by (cases "item_eq h x it") auto
  show ?case
  proof (cases eq)
    case True
    then obtain h1 where h1: "run_all free_cci (cci_addr x) h = Some h1" "drop_dups it xs h1 = Some (ys, h')"
      using 2(3) eq by (auto split: Option.bind_splits)
    show ?thesis
    proof (cases "x = Item_Controller a")
      case True
      then have "h1 a = None" using free_addr [OF h1(1), of a] by simp
      then have "h' a = None" using drop_dups_less [OF h1(2), of a] by (cases "h' a") auto
      then show ?thesis by simp
    qed (use 2(1) [OF eq True h1] 2(4) in auto)
  next
    case False
    then obtain ys1 where "drop_dups it xs h = Some (ys1, h')" "ys = x # ys1"
      using 2(3) eq by (auto split: Option.bind_splits)
    then show ?thesis using 2(2) [OF eq False] 2(4) by auto
  qed
qed simp

text \<open>Queueing a command deletes an equal one that waits already.\<close>

lemma drop_dups_twin:
  "drop_dups (Item_Controller b) xs h = Some (ys, h') \<Longrightarrow> Item_Controller a \<in> set xs \<Longrightarrow>
    (\<And>c e. h a = Some c \<Longrightarrow> h b = Some e \<Longrightarrow> cci_command e = cci_command c \<and> cci_callback e = cci_callback c) \<Longrightarrow>
    h' a = None"
proof (induction "Item_Controller b" xs h arbitrary: ys h' rule: drop_dups.induct)
  case (2 x xs h)
  obtain eq where eq: "item_eq h x (Item_Controller b) = Some eq"
    using 2(3) by (cases "item_eq h x (Item_Controller b)") auto
  show ?case
  proof (cases eq)
    case True
    then obtain h1 where h1: "run_all free_cci (cci_addr x) h = Some h1"
      "drop_dups (Item_Controller b) xs h1 = Some (ys, h')"
      using 2(3) eq by (auto split: Option.bind_splits)
    show ?thesis
    proof (cases "x = Item_Controller a")
      case True
      then have "h1 a = None" using free_addr [OF h1(1), of a] by simp
      then show ?thesis using drop_dups_less [OF h1(2), of a] by (cases "h' a") auto
    next
      case False
      then have m: "Item_Controller a \<in> set xs" using 2(4) by simp
      have l: "h1 y = Some z \<Longrightarrow> h y = Some z" for y z using free_addr [OF h1(1), of y] by (auto split: if_splits)
      show ?thesis by (rule 2(1) [OF eq True h1 m]) (rule 2(5); erule l)+
    qed
  next
    case False
    then obtain ys1 where d: "drop_dups (Item_Controller b) xs h = Some (ys1, h')"
      using 2(3) eq by (auto split: Option.bind_splits)
    have "x \<noteq> Item_Controller a"
    proof
      assume x: "x = Item_Controller a"
      then obtain c e where ce: "h a = Some c" "h b = Some e"
        "eq = (cci_command e = cci_command c \<and> cci_callback e = cci_callback c)"
        using eq by (cases "h a"; cases "h b") (simp_all add: item_eq_def)
      then show False using 2(5) [OF ce(1,2)] False by simp
    qed
    then have m: "Item_Controller a \<in> set xs" using 2(4) by simp
    show ?thesis by (rule 2(2) [OF eq False d m]) (rule 2(5); assumption)+
  qed
qed simp

text \<open>Once in the pending queue, the item stays there or is deleted.\<close>

definition waits_or_dead :: "nat \<Rightarrow> uint8 \<Rightarrow> driver \<Rightarrow> bool" where
  "waits_or_dead a nid d \<longleftrightarrow> Item_Controller a \<in> set (pending d nid) \<or> d_ccis d a = None"

lemma QueueMsg_waits:
  assumes "QueueMsg nid it d = Some d'" and "waits_or_dead a nid d \<or> it = Item_Controller a"
  shows "waits_or_dead a nid d'"
  using assms(1)
proof (rule QueueMsg_shape)
  fix n w ys h
  assume n: "d_nodes d nid = Some n" "n_wakeUp n = Some w"
    and dd: "drop_dups it (w_pending w) (d_ccis d) = Some (ys, h)"
    and d': "d' = put_node nid (n\<lparr>n_wakeUp := Some (w\<lparr>w_pending := ys @ [reset_attempts it]\<rparr>)\<rparr>) (d\<lparr>d_ccis := h\<rparr>)"
  have p: "pending d nid = w_pending w" "pending d' nid = ys @ [reset_attempts it]"
    using n by (simp_all add: pending_def d' put_node_def)
  have h: "d_ccis d' = h" by (simp add: d' put_node_def)
  show ?thesis
  proof (cases "it = Item_Controller a")
    case True
    then show ?thesis using p by (simp add: waits_or_dead_def reset_attempts_def)
  next
    case False
    then have "Item_Controller a \<in> set (w_pending w) \<or> d_ccis d a = None"
      using assms(2) p by (simp add: waits_or_dead_def)
    then show ?thesis
      using drop_dups_entry [OF dd, of a] drop_dups_less [OF dd, of a] p h
      by (cases "h a") (auto simp: waits_or_dead_def)
  qed
qed

lemma move_items_waits:
  "move_items nid xs d = Some (ys, d') \<Longrightarrow>
    (waits_or_dead a nid d \<longrightarrow> waits_or_dead a nid d') \<and> (\<forall>c. d_ccis d' a = Some c \<longrightarrow> d_ccis d a = Some c)"
proof (induction xs arbitrary: d ys)
  case (Cons it its)
  let ?target = "case it of Item_Controller a \<Rightarrow> map_option (Some \<circ> cci_node) (d_ccis d a)
     | Item_ReloadNode n \<Rightarrow> Some None | _ \<Rightarrow> Some (item_node (d_ccis d) it)"
  obtain t where t: "?target = Some t" using Cons.prems(1) by (cases ?target) auto
  show ?case
  proof (cases "t = Some nid")
    case False
    then obtain zs where "move_items nid its d = Some (zs, d')"
      using Cons.prems(1) t by (auto split: Option.bind_splits)
    then show ?thesis by (rule Cons.IH)
  next
    case True
    let ?step = "case it of
        Item_SendMsg m \<Rightarrow>
          (if \<not> IsWakeUpNoMoreInformationCommand m \<and> \<not> IsNoOperation m then QueueMsg nid it d else Some d)
      | _ \<Rightarrow> QueueMsg nid it d"
    obtain d1 where d1: "?step = Some d1" "move_items nid its d1 = Some (ys, d')"
      using Cons.prems(1) t True by (cases ?step) auto
    have c: "QueueMsg nid it d = Some d1 \<or> d1 = d" using d1(1) by (cases it) (auto split: if_splits)
    then show ?thesis
      using Cons.IH [OF d1(2)] QueueMsg_waits [of nid it d d1 a] QueueMsg_less [of nid it d d1] by blast
  qed
qed simp

lemma move_queues_dead:
  "run_all (move_queue nid) qs d = Some d' \<Longrightarrow> d_ccis d a = None \<Longrightarrow> d_ccis d' a = None"
proof (induction qs arbitrary: d)
  case (Cons q qs)
  then obtain e where e: "move_queue nid q d = Some e" "run_all (move_queue nid) qs e = Some d'"
    by (auto split: Option.bind_splits)
  then obtain ys d1 where m: "move_items nid (d_queue d q) d = Some (ys, d1)"
    "run_all (move_queue nid) qs (set_queue q ys d1) = Some d'"
    by (auto simp: move_queue_def [of nid q d] split: Option.bind_splits)
  have "d_ccis d1 a = None" using move_items_waits [OF m(1), of a] Cons.prems(2) by (cases "d_ccis d1 a") auto
  then show ?case using Cons.IH [OF m(2)] by (simp add: set_queue_def)
qed simp

lemma move_items_twins:
  assumes "move_items nid (xs @ Item_Controller a # ys @ Item_Controller b # zs) d = Some (rs, d')"
    and ca: "d_ccis d a = Some ca" "cci_node ca = nid" and cb: "d_ccis d b = Some cb" "cci_node cb = nid"
    and eq: "cci_command cb = cci_command ca" "cci_callback cb = cci_callback ca"
  shows "d_ccis d' a = None"
proof -
  have cut: "\<exists>us d1. move_items nid ps d = Some (us, d1) \<and>
      (\<exists>vs. move_items nid qs d1 = Some (vs, d'))" if "move_items nid (ps @ qs) d = Some (rs, d')" for ps qs rs d
    using that
  proof (induction ps arbitrary: d rs)
    case (Cons it its)
    let ?target = "case it of Item_Controller a \<Rightarrow> map_option (Some \<circ> cci_node) (d_ccis d a)
       | Item_ReloadNode n \<Rightarrow> Some None | _ \<Rightarrow> Some (item_node (d_ccis d) it)"
    obtain t where t: "?target = Some t" using Cons.prems(1) by (cases ?target) auto
    show ?case
    proof (cases "t = Some nid")
      case False
      then obtain us where "move_items nid (its @ qs) d = Some (us, d')"
        using Cons.prems(1) t by (auto split: Option.bind_splits)
      from Cons.IH [OF this] show ?thesis using t False by auto
    next
      case True
      let ?step = "case it of
          Item_SendMsg m \<Rightarrow>
            (if \<not> IsWakeUpNoMoreInformationCommand m \<and> \<not> IsNoOperation m then QueueMsg nid it d else Some d)
        | _ \<Rightarrow> QueueMsg nid it d"
      obtain d1 where d1: "?step = Some d1" "move_items nid (its @ qs) d1 = Some (rs, d')"
        using Cons.prems(1) t True by (cases ?step) auto
      from Cons.IH [OF d1(2)] show ?thesis using t True d1(1) by auto
    qed
  qed auto
  note L = move_items_waits
  obtain us1 d1 vs1 where s1: "move_items nid xs d = Some (us1, d1)"
    "move_items nid (Item_Controller a # ys @ Item_Controller b # zs) d1 = Some (vs1, d')"
    using cut [OF assms(1)] by blast
  obtain d2 where s2: "QueueMsg nid (Item_Controller a) d1 = Some d2"
    "move_items nid (ys @ Item_Controller b # zs) d2 = Some (vs1, d')"
  proof (cases "d_ccis d1 a")
    case (Some c)
    then have "c = ca" using L [OF s1(1), of a] ca(1) by simp
    then show ?thesis using s1(2) Some ca(2) by (auto split: Option.bind_splits intro: that)
  qed (use s1(2) in simp)
  have w2: "waits_or_dead a nid d2" by (rule QueueMsg_waits [OF s2(1)]) simp
  obtain us3 d3 vs3 where s3: "move_items nid ys d2 = Some (us3, d3)"
    "move_items nid (Item_Controller b # zs) d3 = Some (vs3, d')"
    using cut [OF s2(2)] by blast
  have w3: "waits_or_dead a nid d3" using L [OF s3(1), of a] w2 by blast
  have le: "d_ccis d3 y = Some c \<Longrightarrow> d_ccis d y = Some c" for y c
    using L [OF s1(1), of y] L [OF s3(1), of y] QueueMsg_less [OF s2(1), of y] by blast
  obtain d4 where s4: "QueueMsg nid (Item_Controller b) d3 = Some d4" "move_items nid zs d4 = Some (vs3, d')"
  proof (cases "d_ccis d3 b")
    case (Some c)
    then have "c = cb" using le cb(1) by simp
    then show ?thesis using s3(2) Some cb(2) by (auto split: Option.bind_splits intro: that)
  qed (use s3(2) in simp)
  have "d_ccis d4 a = None"
  proof (cases "d_ccis d3 a")
    case None
    then show ?thesis using QueueMsg_less [OF s4(1), of a] by (cases "d_ccis d4 a") auto
  next
    case (Some c)
    then have "Item_Controller a \<in> set (pending d3 nid)" using w3 by (simp add: waits_or_dead_def)
    then show ?thesis using s4(1)
    proof (elim QueueMsg_shape)
      fix n w us h
      assume n: "d_nodes d3 nid = Some n" "n_wakeUp n = Some w"
        and dd: "drop_dups (Item_Controller b) (w_pending w) (d_ccis d3) = Some (us, h)"
        and d4: "d4 = put_node nid (n\<lparr>n_wakeUp := Some (w\<lparr>w_pending := us @ [reset_attempts (Item_Controller b)]\<rparr>)\<rparr>)
          (d3\<lparr>d_ccis := h\<rparr>)"
        and i: "Item_Controller a \<in> set (pending d3 nid)"
      have "Item_Controller a \<in> set (w_pending w)" using i n by (simp add: pending_def)
      from drop_dups_twin [OF dd this] le ca(1) cb(1) eq have "h a = None" by fastforce
      then show ?thesis by (simp add: d4 put_node_def)
    qed
  qed
  then show ?thesis using L [OF s4(2), of a] by (cases "d_ccis d' a") auto
qed


lemma move_items_frame:
  "move_items nid xs d = Some (ys, d') \<Longrightarrow> d_queue d' = d_queue d \<and> d_currentCmd d' = d_currentCmd d"
proof (induction xs arbitrary: d ys)
  case (Cons it its)
  let ?target = "case it of Item_Controller a \<Rightarrow> map_option (Some \<circ> cci_node) (d_ccis d a)
     | Item_ReloadNode n \<Rightarrow> Some None | _ \<Rightarrow> Some (item_node (d_ccis d) it)"
  obtain t where t: "?target = Some t" using Cons.prems by (cases ?target) auto
  show ?case
  proof (cases "t = Some nid")
    case False
    then obtain zs where "move_items nid its d = Some (zs, d')"
      using Cons.prems t by (auto split: Option.bind_splits)
    then show ?thesis by (rule Cons.IH)
  next
    case True
    let ?step = "case it of
        Item_SendMsg m \<Rightarrow>
          (if \<not> IsWakeUpNoMoreInformationCommand m \<and> \<not> IsNoOperation m then QueueMsg nid it d else Some d)
      | _ \<Rightarrow> QueueMsg nid it d"
    obtain d1 where d1: "?step = Some d1" "move_items nid its d1 = Some (ys, d')"
      using Cons.prems t True by (cases ?step) auto
    have "QueueMsg nid it d = Some d1 \<or> d1 = d" using d1(1) by (cases it) (auto split: if_splits)
    then show ?thesis using Cons.IH [OF d1(2)] QueueMsg_frame [of nid it d d1] by auto
  qed
qed simp

lemma move_queue_frame:
  assumes "move_queue nid q d = Some d'"
  shows "p \<noteq> q \<Longrightarrow> d_queue d' p = d_queue d p" "d_ccis d' a = Some c \<Longrightarrow> d_ccis d a = Some c"
    "d_currentCmd d' = d_currentCmd d"
  using assms move_items_frame move_items_waits
  by (fastforce simp: move_queue_def set_queue_def split: Option.bind_splits)+

text \<open>Two equal commands queued for one node that falls asleep while the first runs make the driver use
  a deleted item: moving the second to the pending queue deletes the first as its duplicate, which is the
  running command.\<close>

theorem MoveMessages_twin_commands:
  assumes g: "good sh d" and n: "d_nodes d nid = Some n" and w: "n_wakeUp n = Some w"
    and sl: "\<not> n_listening n" "\<not> n_frequentListening n" "nid \<noteq> d_controllerNodeId d"
    and c: "d_currentCmd d = Some a"
    and q: "d_queue d MsgQueue_Controller = xs @ Item_Controller a # ys @ Item_Controller b # zs"
    and ca: "d_ccis d a = Some ca" "cci_node ca = nid" and cb: "d_ccis d b = Some cb" "cci_node cb = nid"
    and eq: "cci_command cb = cci_command ca" "cci_callback cb = cci_callback ca"
  shows "MoveMessagesToWakeUpQueue env nid True d = None"
proof (rule ccontr)
  assume "MoveMessagesToWakeUpQueue env nid True d \<noteq> None"
  then obtain d1 d2 d3 d4 where d1: "SetAwake env False nid d = Some d1"
    and d2: "move_current nid (if d_currentCmd d1 \<noteq> None then RemoveCurrentMsg d1 else d1) = Some d2"
    and d3: "run_all (move_queue nid) all_queues d2 = Some d3" and d4: "requeue_command d3 = Some d4"
    using n w sl by (auto simp: MoveMessagesToWakeUpQueue_def split: Option.bind_splits)
  have g1: "good sh d1"
  proof (cases "w_awake w")
    case True
    have "good sh (put_node nid (n\<lparr>n_wakeUp := Some (w\<lparr>w_awake := False\<rparr>)\<rparr>) d)"
      using map_wakeup_good [OF g n w, of "\<lambda>w. w\<lparr>w_awake := False\<rparr>"] n w by (simp add: map_wakeup_def)
    then show ?thesis using d1 SetAwake_false [OF n w, of env] True by auto
  qed (use d1 SetAwake_false [OF n w] g in simp)
  have f1: "d_queue d1 = d_queue d" "d_ccis d1 = d_ccis d" "d_currentCmd d1 = Some a"
    using d1 SetAwake_false [OF n w] c by (auto simp: notify_def put_node_def split: if_splits)
  have d2': "d2 = RemoveCurrentMsg d1" using d2 f1(3) by (simp add: move_current_def RemoveCurrentMsg_def)
  have f2: "d_queue d2 = d_queue d" "d_ccis d2 = d_ccis d" "d_currentCmd d2 = Some a"
    by (simp_all add: d2' RemoveCurrentMsg_def f1)
  have "good sh d2" using RemoveCurrentMsg_good [OF g1] by (simp add: d2')
  then have m2: "moving sh d2" by (simp add: good_def moving_def driver_inv_def)
  obtain e1 e2 e3 where e: "move_queue nid MsgQueue_Command d2 = Some e1" "move_queue nid MsgQueue_NoOp e1 = Some e2"
    "move_queue nid MsgQueue_Controller e2 = Some e3"
    "run_all (move_queue nid) [MsgQueue_WakeUp, MsgQueue_Send, MsgQueue_Query, MsgQueue_Poll] e3 = Some d3"
    using d3 by (auto simp: all_queues_def split: Option.bind_splits)
  have m: "moving sh e2" using move_queue_moving [OF e(1) m2] move_queue_moving [OF e(2)] by blast
  have qe: "d_queue e2 MsgQueue_Controller = xs @ Item_Controller a # ys @ Item_Controller b # zs"
    using move_queue_frame(1) [OF e(1)] move_queue_frame(1) [OF e(2)] f2(1) q by simp
  have live: "live e2 a" "live e2 b"
    using m qe unfolding moving_def heap_ok_live owned_def by simp_all
  have le: "d_ccis e2 y = Some z \<Longrightarrow> d_ccis d y = Some z" for y z
    using move_queue_frame(2) [OF e(1)] move_queue_frame(2) [OF e(2)] f2(2) by metis
  have "d_ccis e2 a = Some ca" "d_ccis e2 b = Some cb"
    using live le [of a] le [of b] ca(1) cb(1) by (auto simp: live_def)
  moreover obtain rs e3' where mi: "move_items nid (d_queue e2 MsgQueue_Controller) e2 = Some (rs, e3')"
    "e3 = set_queue MsgQueue_Controller rs e3'"
    using e(3) by (auto simp: move_queue_def split: Option.bind_splits)
  ultimately have "d_ccis e3' a = None"
    using move_items_twins [of nid xs a ys b zs e2 rs e3' ca cb] qe ca(2) cb(2) eq by simp
  then have "d_ccis e3 a = None" using mi(2) by (simp add: set_queue_def)
  then have dead: "d_ccis d3 a = None" by (rule move_queues_dead [OF e(4)])
  have "d_currentCmd d3 = Some a" using move_queues_moving [OF d3 m2] f2(3) by simp
  then show False using d4 dead by (simp add: requeue_command_def UpdateControllerState_def)
qed

section \<open>Waking up\<close>

text \<open>A message as it leaves the pending queue.\<close>

definition woken_msg :: "uint32 \<Rightarrow> node \<Rightarrow> msg \<Rightarrow> msg" where
  "woken_msg home n m = (let m' = m\<lparr>m_homeId := home\<rparr> in if needs_encryption n m' then m'\<lparr>m_encrypted := True\<rparr> else m')"

definition messages_of :: "uint32 \<Rightarrow> node \<Rightarrow> queue_item list \<Rightarrow> queue_item list" where
  "messages_of home n its = concat (map (\<lambda>it. case it of Item_SendMsg m \<Rightarrow> [Item_SendMsg (woken_msg home n m)] | _ \<Rightarrow> []) its)"

definition markers_of :: "queue_item list \<Rightarrow> queue_item list" where
  "markers_of its = concat (map (\<lambda>it. case it of Item_QueryStageComplete k s r \<Rightarrow> [Item_QueryStageComplete k s False] | _ \<Rightarrow> []) its)"

text \<open>The entries of a pending queue are for its node.\<close>

definition own_items :: "uint8 \<Rightarrow> queue_item list \<Rightarrow> bool" where
  "own_items nid its \<longleftrightarrow> (\<forall>it \<in> set its. (\<forall>m. it = Item_SendMsg m \<longrightarrow> m_targetNodeId m = nid) \<and>
     (\<forall>k s r. it = Item_QueryStageComplete k s r \<longrightarrow> k = nid))"

lemma sendable_Finalize: "sendable m \<Longrightarrow> Finalize s m = Some (s, m)"
  by (simp add: sendable_def Finalize_def)

lemma needs_encryption_wakeUp [simp]: "needs_encryption (n\<lparr>n_wakeUp := x\<rparr>) m = needs_encryption n m"
  by (simp add: needs_encryption_def)

lemma pending_step_queues:
  assumes s: "pending_step it d = Some d1" and n: "d_nodes d nid = Some n" "\<not> sleeping n"
    and ok: "item_ok it" "own_items nid [it]"
  shows "d_queue d1 MsgQueue_WakeUp = d_queue d MsgQueue_WakeUp @ messages_of (d_homeId d) n [it] \<and>
    d_queue d1 MsgQueue_Query = d_queue d MsgQueue_Query @ markers_of [it] \<and> d_homeId d1 = d_homeId d \<and>
    d_nodes d1 nid = Some n"
proof (cases it)
  case (Item_SendMsg m)
  then have f: "Finalize (d_callbackId d) (m\<lparr>m_homeId := d_homeId d\<rparr>) = Some (d_callbackId d, m\<lparr>m_homeId := d_homeId d\<rparr>)"
    using ok(1) by (intro sendable_Finalize) (simp add: item_ok_def sendable_def)
  have "m_targetNodeId m = nid" using ok(2) Item_SendMsg by (simp add: own_items_def)
  then show ?thesis using s Item_SendMsg f n
    by (auto simp: pending_step_def SendMsg_def messages_of_def markers_of_def woken_msg_def Let_def push_back_def)
next
  case (Item_QueryStageComplete k st r)
  then have "k = nid" using ok(2) by (simp add: own_items_def)
  then show ?thesis using s Item_QueryStageComplete n
    by (auto simp: pending_step_def SendQueryStageComplete_def messages_of_def markers_of_def push_back_def)
next
  case (Item_Controller a)
  obtain c where c: "d_ccis d a = Some c"
    using s Item_Controller by (auto simp: pending_step_def split: Option.bind_splits)
  obtain r d0 where b: "BeginControllerCommand (cci_command c) (cci_callback c) (cci_context c)
        (cci_highPower c) (cci_node c) (cci_arg c) d = (r, d0)" by force
  obtain h where "d1 = d0\<lparr>d_ccis := h\<rparr>"
    using s Item_Controller c b by (auto simp: pending_step_def split: Option.bind_splits)
  then show ?thesis using Item_Controller n b
    by (auto simp: BeginControllerCommand_def new_cci_def push_back_def messages_of_def markers_of_def split: if_splits)
qed (use ok(1) in \<open>simp add: item_ok_def\<close>)

lemma pending_loop_queues:
  assumes "good sh d" and "d_nodes d nid = Some n" and "n_wakeUp n = Some w" and "w_awake w"
    and "w_pending w = its" and "own_items nid its" and "pending_loop nid its d = Some d'"
  shows "d_queue d' MsgQueue_WakeUp = d_queue d MsgQueue_WakeUp @ messages_of (d_homeId d) n its \<and>
    d_queue d' MsgQueue_Query = d_queue d MsgQueue_Query @ markers_of its"
  using assms
proof (induction its arbitrary: d n w)
  case (Cons it its)
  obtain d1 d2 where s: "pending_step it d = Some d1"
    "map_wakeup (\<lambda>w. w\<lparr>w_pending := tl (w_pending w)\<rparr>) nid d1 = Some d2" "good sh d2"
    "d_nodes d2 nid = Some (n\<lparr>n_wakeUp := Some (w\<lparr>w_pending := its\<rparr>)\<rparr>)"
    using pending_step_pop [OF Cons.prems(1-5)] by blast
  have "pending d nid = it # its" using Cons.prems(2,3,5) by (simp add: pending_def)
  then have ok: "item_ok it" using Cons.prems(1) unfolding good_def tame_def by (metis list.set_intros(1))
  have q: "d_queue d1 MsgQueue_WakeUp = d_queue d MsgQueue_WakeUp @ messages_of (d_homeId d) n [it]"
    "d_queue d1 MsgQueue_Query = d_queue d MsgQueue_Query @ markers_of [it]" "d_homeId d1 = d_homeId d"
    using pending_step_queues [OF s(1) Cons.prems(2) _ ok] Cons.prems(3,4,6)
    by (auto simp: sleeping_def own_items_def)
  have e: "d_queue d2 = d_queue d1" "d_homeId d2 = d_homeId d1"
    using s(2) by (auto simp: map_wakeup_def put_node_def split: Option.bind_splits)
  have l: "pending_loop nid its d2 = Some d'" using Cons.prems(7) s(1,2) by simp
  have m: "messages_of h (n\<lparr>n_wakeUp := x\<rparr>) its = messages_of h n its" for h x
    by (simp add: messages_of_def woken_msg_def cong: queue_item.case_cong)
  show ?case
    using Cons.IH [OF s(3,4) _ _ _ _ l] Cons.prems(4,6) q e
    by (simp add: m own_items_def) (simp add: messages_of_def markers_of_def)
qed (simp add: messages_of_def markers_of_def)

text \<open>When a node wakes up everything that waited for it is sent: its messages move to the end of the
  wake-up queue in their order, marked for encryption where the node asks for it, its stage markers to the
  query queue, and nothing waits any more; if its interview is complete and no delay is configured, one
  more message, the last, sends it back to sleep.\<close>

theorem SendPending_delivers:
  assumes g: "good sh d" and n: "d_nodes d nid = Some n" and w: "n_wakeUp n = Some w"
    and o: "own_items nid (w_pending w)"
  shows "\<exists>d' rest. SendPending nid d = Some d' \<and> good sh d' \<and> pending d' nid = [] \<and>
    d_queue d' MsgQueue_WakeUp = d_queue d MsgQueue_WakeUp @ messages_of (d_homeId d) n (w_pending w) @ rest \<and>
    d_queue d' MsgQueue_Query = d_queue d MsgQueue_Query @ markers_of (w_pending w) \<and>
    (if m_queryStage (n_query n) = St_Complete \<and> w_delayNMI w = 0
     then \<exists>m. rest = [Item_SendMsg m] \<and> m_targetNodeId m = nid else rest = [])"
proof -
  obtain d1 where d1: "map_wakeup (\<lambda>w. w\<lparr>w_awake := True\<rparr>) nid d = Some d1" "good sh d1"
    "d_nodes d1 nid = Some (n\<lparr>n_wakeUp := Some (w\<lparr>w_awake := True\<rparr>)\<rparr>)" "d_queue d1 = d_queue d"
    using map_wakeup_good [OF g n w, of "\<lambda>w. w\<lparr>w_awake := True\<rparr>"] by auto
  have h: "d_homeId d1 = d_homeId d" using d1(1) by (auto simp: map_wakeup_def put_node_def split: Option.bind_splits)
  have p: "pending d1 nid = w_pending w" using d1(3) by (simp add: pending_def)
  let ?n = "n\<lparr>n_wakeUp := Some (w\<lparr>w_awake := True, w_pending := []\<rparr>)\<rparr>"
  obtain d2 where d2: "pending_loop nid (w_pending w) d1 = Some d2" "good sh d2" "d_nodes d2 nid = Some ?n"
    using pending_loop_good [OF d1(2,3), of "w\<lparr>w_awake := True\<rparr>" "w_pending w"] by auto
  have m: "messages_of x (n\<lparr>n_wakeUp := y\<rparr>) its = messages_of x n its" for x y its
    by (simp add: messages_of_def woken_msg_def cong: queue_item.case_cong)
  have q: "d_queue d2 MsgQueue_WakeUp = d_queue d MsgQueue_WakeUp @ messages_of (d_homeId d) n (w_pending w)"
    "d_queue d2 MsgQueue_Query = d_queue d MsgQueue_Query @ markers_of (w_pending w)"
    using pending_loop_queues [OF d1(2,3) _ _ _ _ d2(1), of "w\<lparr>w_awake := True\<rparr>"] o d1(4) h by (simp_all add: m)
  have p2: "pending d2 nid = []" using d2(3) by (simp add: pending_def)
  show ?thesis
  proof (cases "m_queryStage (n_query n) = St_Complete \<and> w_delayNMI w = 0")
    case False
    then show ?thesis
      using d1(1) d2 p q p2 timers_good [OF d2(2)]
      by (auto simp: SendPending_def pending_def)
  next
    case True
    let ?m = "Append (d_transmitOptions d2) (Append 0x08 (Append CC_WAKE_UP (Append 2 (Append nid
        (Msg_new ''WakeUpCmd_NoMoreInformation'' nid REQUEST FUNC_ID_ZW_SEND_DATA True True 0 0)))))"
    obtain cb m where f: "Finalize (d_callbackId d2) (?m\<lparr>m_homeId := d_homeId d2\<rparr>) = Some (cb, m)"
      "m_targetNodeId m = nid"
      using Finalize_plain [of "?m\<lparr>m_homeId := d_homeId d2\<rparr>" "d_callbackId d2"] by (auto simp: Append_def Msg_new_def)
    have "\<not> sleeping ?n" by (simp add: sleeping_def)
    then obtain x where x: "SendNoMoreInfo nid d2 = Some (push_back MsgQueue_WakeUp (Item_SendMsg x) (d2\<lparr>d_callbackId := cb\<rparr>))"
      "m_targetNodeId x = nid"
      using f d2(3) by (cases "needs_encryption ?n m") (auto simp: SendNoMoreInfo_def SendMsg_def Let_def)
    have "good sh (push_back MsgQueue_WakeUp (Item_SendMsg x) (d2\<lparr>d_callbackId := cb\<rparr>))"
      using SendNoMoreInfo_good [OF d2(2), of nid] x(1) by simp
    moreover have "pending (push_back MsgQueue_WakeUp (Item_SendMsg x) (d2\<lparr>d_callbackId := cb\<rparr>)) nid = []"
      using p2 pending_nodes [of "d2\<lparr>d_callbackId := cb\<rparr>" d2] by simp
    ultimately show ?thesis using True d1(1) d2(1,3) p q x
      by (auto simp: SendPending_def)
  qed
qed

text \<open>A reload that waits for a sleeping node destroys the node, its wake-up class and the queue while
  \<open>SendPending\<close> still works on them: waking such a node is undefined.\<close>

theorem SendPending_reload_undefined:
  assumes "d_nodes d nid = Some n" and "n_wakeUp n = Some w" and "w_pending w = Item_ReloadNode nid # its"
  shows "SendPending nid d = None"
  using assms
  by (simp add: SendPending_def map_wakeup_def pending_put_node pending_step_def)

section \<open>Examples\<close>

definition quiet_env :: node_env where
  "quiet_env = \<lparr> ne_query = (\<lambda>_. plain_env), ne_submit = (\<lambda>_ _. []), ne_refresh = (\<lambda>_. []),
     ne_supported = (\<lambda>cc. cc \<in> set registered_classes), ne_networkKey = False,
     ne_alsoSecure = (\<lambda>_. False), ne_assumeAwake = True, ne_delayNMI = 1000,
     ne_generic = (\<lambda>_. None), ne_buttons = (\<lambda>_. []) \<rparr>"

lemma quiet_env_ok: "env_ok quiet_env"
  by (simp add: env_ok_def quiet_env_def)

lemma sleepy_driver_good: "good (shape sleepy_driver) sleepy_driver"
proof -
  have "d_queue sleepy_driver = (\<lambda>_. [])" "d_currentMsg sleepy_driver = None"
    by (simp_all add: sleepy_driver_def put_node_def Driver_new_def)
  moreover have "nonce_ok (n_nonces n)" if "d_nodes sleepy_driver i = Some n" for i n
    using that by (auto simp: sleepy_driver_def put_node_def Driver_new_def sleepy_node_def Node_new_def nonce_ok_def split: if_splits)
  ultimately show ?thesis by (simp add: good_def sleepy_driver_inv tame_def)
qed

definition sleepy_wakeup :: wakeup where
  "sleepy_wakeup = \<lparr> w_awake = False, w_pollRequired = False, w_delayNMI = 0, w_interval = 0, w_pending = [] \<rparr>"

lemma sleepy_wakeup [simp]:
  "n_wakeUp sleepy_node = Some sleepy_wakeup" "w_pending sleepy_wakeup = []" "w_delayNMI sleepy_wakeup = 0"
  "n_listening sleepy_node = False" "n_frequentListening sleepy_node = False"
  "m_queryStage (n_query sleepy_node) = St_Complete" "n_errors sleepy_node = 0"
  by (simp_all add: sleepy_node_def sleepy_wakeup_def Node_new_def)

lemma sleepy_node_at: "d_nodes sleepy_driver 5 = Some sleepy_node"
  by (simp add: sleepy_driver_def put_node_def)

theorem HandleErrorResponse_counts_witness:
  "\<exists>d' n'. HandleErrorResponse quiet_env 2 5 True (put_node 5 (sleepy_node\<lparr>n_errors := 2\<rparr>) sleepy_driver)
     = Some (False, d') \<and> d_nodes d' 5 = Some n' \<and> \<not> m_nodeAlive (n_query n')"
proof -
  let ?d = "put_node 5 (sleepy_node\<lparr>n_errors := 2\<rparr>) sleepy_driver"
  have "good (shape sleepy_driver) ?d" by (rule put_node_good [OF sleepy_driver_good sleepy_node_at]) simp_all
  from HandleErrorResponse_counts [OF this, of 5 "sleepy_node\<lparr>n_errors := 2\<rparr>" 2 quiet_env True]
  obtain d' n' where "HandleErrorResponse quiet_env 2 5 True ?d = Some (False, d')" "d_nodes d' 5 = Some n'"
    "n_query n' = (n_query sleepy_node)\<lparr>m_nodeAlive := False\<rparr>"
    by (auto simp: put_node_def)
  then show ?thesis by auto
qed


text \<open>A controller command becomes the running one.\<close>

lemma run_command_good:
  assumes "good sh d" and "Item_Controller a \<in> set (d_queue d MsgQueue_Controller)"
  shows "good sh (d\<lparr>d_currentCmd := Some a\<rparr>)"
proof -
  let ?d = "d\<lparr>d_currentCmd := Some a\<rparr>"
  have "pending ?d = pending d" by (rule pending_nodes) simp
  then have "driver_inv ?d" using assms event_ok_eq [of ?d d]
    by (simp add: good_def driver_inv_def heap_ok_def cmd_ok_def set_addrs)
  moreover have "tame sh ?d" by (rule tame_frame [of sh d]) (use assms(1) in \<open>simp_all add: good_def\<close>)
  ultimately show ?thesis by (simp add: good_def)
qed

definition twin_driver :: driver where
  "twin_driver = (snd (BeginControllerCommand ControllerCommand_RequestNodeNeighborUpdate 1 0 False 5 0
     (snd (BeginControllerCommand ControllerCommand_RequestNodeNeighborUpdate 1 0 False 5 0 sleepy_driver))))
     \<lparr>d_currentCmd := Some 0\<rparr>"

theorem MoveMessages_twin_commands_witness:
  "MoveMessagesToWakeUpQueue quiet_env 5 True twin_driver = None"
proof -
  let ?b = "BeginControllerCommand ControllerCommand_RequestNodeNeighborUpdate 1 0 False 5 0"
  have b: "good (shape sleepy_driver) (snd (?b d))" if "good (shape sleepy_driver) d" for d
    using BeginControllerCommand_inv [of d] BeginControllerCommand_tame [of _ _ _ _ _ _ d] that
    by (metis good_def prod.collapse)
  have s: "d_queue sleepy_driver = (\<lambda>_. [])" "d_nextCci sleepy_driver = 0"
    by (simp_all add: sleepy_driver_def put_node_def Driver_new_def)
  have q: "d_queue twin_driver MsgQueue_Controller = [] @ Item_Controller 0 # [] @ Item_Controller 1 # []"
    by (simp add: twin_driver_def BeginControllerCommand_def new_cci_def push_back_def s)
  have g: "good (shape sleepy_driver) twin_driver"
    unfolding twin_driver_def
    by (rule run_command_good [OF b [OF b [OF sleepy_driver_good]]])
      (simp add: BeginControllerCommand_def new_cci_def push_back_def s)
  have c: "\<exists>ca. d_ccis twin_driver 0 = Some ca \<and> cci_node ca = 5 \<and> cci_command ca = ControllerCommand_RequestNodeNeighborUpdate \<and> cci_callback ca = 1"
    "\<exists>ca. d_ccis twin_driver 1 = Some ca \<and> cci_node ca = 5 \<and> cci_command ca = ControllerCommand_RequestNodeNeighborUpdate \<and> cci_callback ca = 1"
    by (simp_all add: twin_driver_def BeginControllerCommand_def new_cci_def push_back_def s)
  then obtain ca cb where "d_ccis twin_driver 0 = Some ca" "cci_node ca = 5" "d_ccis twin_driver 1 = Some cb"
    "cci_node cb = 5" "cci_command cb = cci_command ca" "cci_callback cb = cci_callback ca" by auto
  moreover have "d_nodes twin_driver 5 = Some sleepy_node" "d_currentCmd twin_driver = Some 0" "d_controllerNodeId twin_driver = 0"
    by (simp_all add: twin_driver_def BeginControllerCommand_def new_cci_def push_back_def sleepy_driver_def
        put_node_def Driver_new_def)
  ultimately show ?thesis using MoveMessages_twin_commands [OF g _ _ _ _ _ _ q] by simp
qed

definition waiting_driver :: driver where
  "waiting_driver = with_pending 5 sleepy_node sleepy_wakeup [Item_QueryStageComplete 5 St_Static True] sleepy_driver"

theorem SendPending_delivers_witness:
  "\<exists>d' m. SendPending 5 waiting_driver = Some d' \<and> pending d' 5 = [] \<and>
    d_queue d' MsgQueue_Query = [Item_QueryStageComplete 5 St_Static False] \<and>
    d_queue d' MsgQueue_WakeUp = [Item_SendMsg m]"
proof -
  let ?it = "Item_QueryStageComplete 5 St_Static True"
  have "QueueMsg 5 ?it sleepy_driver = Some waiting_driver"
    using sleepy_node_at by (simp add: QueueMsg_def waiting_driver_def with_pending_def put_node_def reset_attempts_def)
  then have g: "good (shape sleepy_driver) waiting_driver"
    by (rule QueueMsg_good [OF _ sleepy_driver_good]) (simp_all add: item_ok_def)
  let ?w = "sleepy_wakeup\<lparr>w_pending := [?it]\<rparr>"
  have n: "d_nodes waiting_driver 5 = Some (sleepy_node\<lparr>n_wakeUp := Some ?w\<rparr>)"
    "d_queue waiting_driver = (\<lambda>_. [])"
    by (simp_all add: waiting_driver_def with_pending_def put_node_def sleepy_driver_def Driver_new_def)
  from SendPending_delivers [OF g n(1), of ?w] show ?thesis
    by (auto simp: own_items_def messages_of_def markers_of_def n(2))
qed

theorem SendPending_reload_undefined_witness:
  "SendPending 5 (with_pending 5 sleepy_node sleepy_wakeup [Item_ReloadNode 5] sleepy_driver) = None"
  by (rule SendPending_reload_undefined [where its = "[]"
        and n = "sleepy_node\<lparr>n_wakeUp := Some (sleepy_wakeup\<lparr>w_pending := [Item_ReloadNode 5]\<rparr>)\<rparr>"
        and w = "sleepy_wakeup\<lparr>w_pending := [Item_ReloadNode 5]\<rparr>"])
    (simp_all add: with_pending_def put_node_def)

end
