(* ===== verification/Controller_Commands.thy ===== *)
theory Controller_Commands
  imports Wake_Laws
begin

text \<open>
  Controller commands (\<open>cpp/src/Driver.cpp\<close>): what the driver knows of the controller, \<open>DoControllerCommand\<close>,
  which starts the command at the head of the controller queue, and \<open>CancelControllerCommand\<close>.  A
  capability map of the code is indexed from 1; number 0 is outside its domain.
\<close>

section \<open>Capabilities\<close>

definition IsPrimaryController :: "driver \<Rightarrow> bool" where
  "IsPrimaryController d \<longleftrightarrow> i_initCaps (d_info d) AND 0x04 = 0"

definition IsStaticUpdateController :: "driver \<Rightarrow> bool" where
  "IsStaticUpdateController d \<longleftrightarrow> i_initCaps (d_info d) AND 0x08 \<noteq> 0"

definition IsBridgeController :: "driver \<Rightarrow> bool" where
  "IsBridgeController d \<longleftrightarrow> i_libraryType (d_info d) = 7"

definition IsInclusionController :: "driver \<Rightarrow> bool" where
  "IsInclusionController d \<longleftrightarrow> i_controllerCaps (d_info d) AND 0x04 \<noteq> 0"

text \<open>The bit maps hold bit \<open>n - 1\<close> for number \<open>n \<ge> 1\<close>.\<close>

definition map_bit :: "bytes \<Rightarrow> uint8 \<Rightarrow> bool" where
  "map_bit bs n \<longleftrightarrow> bs ! ((unat n - 1) div 8) AND push_bit ((unat n - 1) mod 8) 1 \<noteq> 0"

definition IsAPICallSupported :: "uint8 \<Rightarrow> driver \<Rightarrow> bool" where
  "IsAPICallSupported n d \<longleftrightarrow> map_bit (i_apiMask (d_info d)) n"

definition SetAPICall :: "uint8 \<Rightarrow> bool \<Rightarrow> driver \<Rightarrow> driver" where
  "SetAPICall n toSet d = (let i = (unat n - 1) div 8; b = push_bit ((unat n - 1) mod 8) 1;
       bs = i_apiMask (d_info d)
     in d\<lparr>d_info := (d_info d)\<lparr>i_apiMask := bs[i := if toSet then bs ! i OR b else bs ! i AND NOT b]\<rparr>\<rparr>)"

definition IsVirtualNode :: "uint8 \<Rightarrow> driver \<Rightarrow> bool" where
  "IsVirtualNode n d \<longleftrightarrow> map_bit (i_virtualNeighbors (d_info d)) n"

section \<open>Constants of Defs.h\<close>

abbreviation (input) FUNC_ID_ZW_SEND_NODE_INFORMATION :: uint8 where "FUNC_ID_ZW_SEND_NODE_INFORMATION \<equiv> 0x12"
abbreviation (input) FUNC_ID_ZW_ASSIGN_RETURN_ROUTE :: uint8 where "FUNC_ID_ZW_ASSIGN_RETURN_ROUTE \<equiv> 0x46"
abbreviation (input) FUNC_ID_ZW_DELETE_RETURN_ROUTE :: uint8 where "FUNC_ID_ZW_DELETE_RETURN_ROUTE \<equiv> 0x47"
abbreviation (input) FUNC_ID_ZW_REQUEST_NODE_NEIGHBOR_UPDATE :: uint8 where
  "FUNC_ID_ZW_REQUEST_NODE_NEIGHBOR_UPDATE \<equiv> 0x48"
abbreviation (input) FUNC_ID_ZW_ADD_NODE_TO_NETWORK :: uint8 where "FUNC_ID_ZW_ADD_NODE_TO_NETWORK \<equiv> 0x4a"
abbreviation (input) FUNC_ID_ZW_REMOVE_NODE_FROM_NETWORK :: uint8 where
  "FUNC_ID_ZW_REMOVE_NODE_FROM_NETWORK \<equiv> 0x4b"
abbreviation (input) FUNC_ID_ZW_CREATE_NEW_PRIMARY :: uint8 where "FUNC_ID_ZW_CREATE_NEW_PRIMARY \<equiv> 0x4c"
abbreviation (input) FUNC_ID_ZW_CONTROLLER_CHANGE :: uint8 where "FUNC_ID_ZW_CONTROLLER_CHANGE \<equiv> 0x4d"
abbreviation (input) FUNC_ID_ZW_SET_LEARN_MODE :: uint8 where "FUNC_ID_ZW_SET_LEARN_MODE \<equiv> 0x50"
abbreviation (input) FUNC_ID_ZW_REQUEST_NETWORK_UPDATE :: uint8 where "FUNC_ID_ZW_REQUEST_NETWORK_UPDATE \<equiv> 0x53"
abbreviation (input) FUNC_ID_ZW_REQUEST_NODE_NEIGHBOR_UPDATE_OPTIONS :: uint8 where
  "FUNC_ID_ZW_REQUEST_NODE_NEIGHBOR_UPDATE_OPTIONS \<equiv> 0x5a"
abbreviation (input) FUNC_ID_ZW_EXPLORE_REQUEST_INCLUSION :: uint8 where
  "FUNC_ID_ZW_EXPLORE_REQUEST_INCLUSION \<equiv> 0x5e"
abbreviation (input) FUNC_ID_ZW_REMOVE_FAILED_NODE_ID :: uint8 where "FUNC_ID_ZW_REMOVE_FAILED_NODE_ID \<equiv> 0x61"
abbreviation (input) FUNC_ID_ZW_IS_FAILED_NODE_ID :: uint8 where "FUNC_ID_ZW_IS_FAILED_NODE_ID \<equiv> 0x62"
abbreviation (input) FUNC_ID_ZW_REPLACE_FAILED_NODE :: uint8 where "FUNC_ID_ZW_REPLACE_FAILED_NODE \<equiv> 0x63"
abbreviation (input) FUNC_ID_SERIAL_API_SLAVE_NODE_INFO :: uint8 where "FUNC_ID_SERIAL_API_SLAVE_NODE_INFO \<equiv> 0xA0"
abbreviation (input) FUNC_ID_ZW_SEND_SLAVE_NODE_INFO :: uint8 where "FUNC_ID_ZW_SEND_SLAVE_NODE_INFO \<equiv> 0xA2"
abbreviation (input) FUNC_ID_ZW_SET_SLAVE_LEARN_MODE :: uint8 where "FUNC_ID_ZW_SET_SLAVE_LEARN_MODE \<equiv> 0xA4"
abbreviation (input) ADD_NODE_ANY :: uint8 where "ADD_NODE_ANY \<equiv> 0x01"
abbreviation (input) ADD_NODE_CONTROLLER :: uint8 where "ADD_NODE_CONTROLLER \<equiv> 0x02"
abbreviation (input) ADD_NODE_STOP :: uint8 where "ADD_NODE_STOP \<equiv> 0x05"
abbreviation (input) REMOVE_NODE_ANY :: uint8 where "REMOVE_NODE_ANY \<equiv> 0x01"
abbreviation (input) CREATE_PRIMARY_START :: uint8 where "CREATE_PRIMARY_START \<equiv> 0x02"
abbreviation (input) CREATE_PRIMARY_STOP :: uint8 where "CREATE_PRIMARY_STOP \<equiv> 0x05"
abbreviation (input) CONTROLLER_CHANGE_START :: uint8 where "CONTROLLER_CHANGE_START \<equiv> 0x02"
abbreviation (input) CONTROLLER_CHANGE_STOP :: uint8 where "CONTROLLER_CHANGE_STOP \<equiv> 0x05"
abbreviation (input) SLAVE_LEARN_MODE_DISABLE :: uint8 where "SLAVE_LEARN_MODE_DISABLE \<equiv> 0x00"
abbreviation (input) SLAVE_LEARN_MODE_ENABLE :: uint8 where "SLAVE_LEARN_MODE_ENABLE \<equiv> 0x01"
abbreviation (input) SLAVE_LEARN_MODE_ADD :: uint8 where "SLAVE_LEARN_MODE_ADD \<equiv> 0x02"
abbreviation (input) OPTION_HIGH_POWER :: uint8 where "OPTION_HIGH_POWER \<equiv> 0x80"
abbreviation (input) OPTION_NWI :: uint8 where "OPTION_NWI \<equiv> 0x40"

section \<open>Starting a controller command\<close>

definition request_msg :: "string \<Rightarrow> uint8 \<Rightarrow> uint8 \<Rightarrow> bool \<Rightarrow> bytes \<Rightarrow> msg" where
  "request_msg text target func callback bs =
     fold Append bs (Msg_new text target REQUEST func callback True 0 0)"

definition request_no_reply :: "string \<Rightarrow> uint8 \<Rightarrow> uint8 \<Rightarrow> bytes \<Rightarrow> msg" where
  "request_no_reply text target func bs =
     fold Append bs (Msg_new text target REQUEST func False False 0 0)"

text \<open>The outcome of a case of the switch: the messages for the command queue, or the error.\<close>

definition command_error :: "controller_error \<Rightarrow> driver \<Rightarrow> driver option" where
  "command_error err d = UpdateControllerState ControllerState_Error err d"

definition send_command :: "msg \<Rightarrow> driver \<Rightarrow> driver option" where
  "send_command m d = SendMsg m MsgQueue_Command d"

definition high_power :: "cci \<Rightarrow> uint8 \<Rightarrow> uint8" where
  "high_power c b = (if cci_highPower c then b OR OPTION_HIGH_POWER else b)"

definition start_AddDevice :: "cci \<Rightarrow> driver \<Rightarrow> driver option" where
  "start_AddDevice c d =
     (if \<not> IsPrimaryController d then command_error ControllerError_NotPrimary d
      else let options = high_power c ADD_NODE_ANY;
               options2 = (if IsAPICallSupported FUNC_ID_ZW_EXPLORE_REQUEST_INCLUSION d
                           then options OR OPTION_NWI else options)
           in send_command (request_msg ''ControllerCommand_AddDevice'' 0xff FUNC_ID_ZW_ADD_NODE_TO_NETWORK True [options2]) d)"

definition start_CreateNewPrimary :: "driver \<Rightarrow> driver option" where
  "start_CreateNewPrimary d =
     (if IsPrimaryController d then command_error ControllerError_NotSecondary d
      else if \<not> IsStaticUpdateController d then command_error ControllerError_NotSUC d
      else send_command (request_msg ''ControllerCommand_CreateNewPrimary'' 0xff FUNC_ID_ZW_CREATE_NEW_PRIMARY True
             [CREATE_PRIMARY_START]) d)"

definition start_RemoveDevice :: "cci \<Rightarrow> driver \<Rightarrow> driver option" where
  "start_RemoveDevice c d =
     (if \<not> IsPrimaryController d then command_error ControllerError_NotPrimary d
      else send_command (request_msg ''ControllerCommand_RemoveDevice'' 0xff FUNC_ID_ZW_REMOVE_NODE_FROM_NETWORK True
             [high_power c REMOVE_NODE_ANY]) d)"

definition start_TransferPrimaryRole :: "cci \<Rightarrow> driver \<Rightarrow> driver option" where
  "start_TransferPrimaryRole c d =
     (if \<not> IsPrimaryController d then command_error ControllerError_NotPrimary d
      else send_command (request_msg ''ControllerCommand_TransferPrimaryRole'' 0xff FUNC_ID_ZW_CONTROLLER_CHANGE True
             [high_power c CONTROLLER_CHANGE_START]) d)"

definition start_RequestNetworkUpdate :: "driver \<Rightarrow> driver option" where
  "start_RequestNetworkUpdate d =
     (if \<not> IsStaticUpdateController d then command_error ControllerError_NotSUC d
      else send_command (request_msg ''ControllerCommand_RequestNetworkUpdate'' 0xff
             FUNC_ID_ZW_REQUEST_NETWORK_UPDATE True []) d)"

definition start_RequestNodeNeighborUpdate :: "cci \<Rightarrow> driver \<Rightarrow> driver option" where
  "start_RequestNodeNeighborUpdate c d =
     (if \<not> IsPrimaryController d then command_error ControllerError_NotPrimary d
      else if IsAPICallSupported FUNC_ID_ZW_REQUEST_NODE_NEIGHBOR_UPDATE_OPTIONS d
      then send_command (request_msg ''ControllerCommand_RequestNodeNeighborUpdate'' (cci_node c)
             FUNC_ID_ZW_REQUEST_NODE_NEIGHBOR_UPDATE_OPTIONS True [cci_node c, d_transmitOptions d]) d
      else send_command (request_msg ''ControllerCommand_RequestNodeNeighborUpdate'' (cci_node c)
             FUNC_ID_ZW_REQUEST_NODE_NEIGHBOR_UPDATE True [cci_node c]) d)"

definition start_ReplicationSend :: "cci \<Rightarrow> driver \<Rightarrow> driver option" where
  "start_ReplicationSend c d =
     (if \<not> IsPrimaryController d then command_error ControllerError_NotPrimary d
      else send_command (request_msg ''ControllerCommand_ReplicationSend'' 0xff FUNC_ID_ZW_ADD_NODE_TO_NETWORK True
             [high_power c ADD_NODE_CONTROLLER]) d)"

definition SendVirtualNodeInfo :: "uint8 \<Rightarrow> uint8 \<Rightarrow> driver \<Rightarrow> driver option" where
  "SendVirtualNodeInfo fromNode toNode d = send_command
     (request_msg (take 79 (''Send Virtual Node Info from '' @ dec_nat (unat fromNode) @ '' to '' @ dec_nat (unat toNode)))
        0xff FUNC_ID_ZW_SEND_SLAVE_NODE_INFO True [fromNode, toNode, TRANSMIT_OPTION_ACK]) d"

text \<open>The loop over the virtual nodes 1 to 232 that looks for one no button uses.\<close>

definition free_virtual_node :: "node \<Rightarrow> driver \<Rightarrow> uint8 option" where
  "free_virtual_node n d = find (\<lambda>v. IsVirtualNode v d \<and> (\<forall>b \<in> set (map of_nat [0..<256]). n_buttonMap n b \<noteq> Some v))
     (map of_nat [1..<233])"

definition start_CreateButton :: "cci \<Rightarrow> driver \<Rightarrow> driver option" where
  "start_CreateButton c d =
     (if \<not> IsBridgeController d then command_error ControllerError_NotBridge d
      else case d_nodes d (cci_node c) of
        None \<Rightarrow> command_error ControllerError_NodeNotFound d
      | Some n \<Rightarrow>
          if n_buttonMap n (cci_arg c) = None \<and> i_virtualNeighborsReceived (d_info d) then
            (case free_virtual_node n d of
               Some v \<Rightarrow> SendVirtualNodeInfo v (cci_node c)
                 (put_node (cci_node c) (n\<lparr>n_buttonMap := (n_buttonMap n)(cci_arg c \<mapsto> v)\<rparr>) d)
             | None \<Rightarrow> do {
                 d1 \<leftarrow> send_command (request_no_reply ''FUNC_ID_SERIAL_API_SLAVE_NODE_INFO'' 0xff
                        FUNC_ID_SERIAL_API_SLAVE_NODE_INFO [0, 1, 0x09, 0x00, 0]) d;
                 send_command (request_msg ''FUNC_ID_ZW_SET_SLAVE_LEARN_MODE'' 0xff FUNC_ID_ZW_SET_SLAVE_LEARN_MODE True
                   [0, if IsPrimaryController d \<or> IsInclusionController d then SLAVE_LEARN_MODE_ADD
                       else SLAVE_LEARN_MODE_ENABLE]) d1
               })
          else command_error ControllerError_ButtonNotFound d)"

definition start_DeleteButton :: "cci \<Rightarrow> driver \<Rightarrow> driver option" where
  "start_DeleteButton c d =
     (if \<not> IsBridgeController d then command_error ControllerError_NotBridge d
      else case d_nodes d (cci_node c) of
        None \<Rightarrow> command_error ControllerError_NodeNotFound d
      | Some n \<Rightarrow>
          if n_buttonMap n (cci_arg c) \<noteq> None then
            Some (notify (Note_DeleteButton (cci_node c) (cci_arg c))
              (put_node (cci_node c) (n\<lparr>n_buttonMap := (n_buttonMap n)(cci_arg c := None)\<rparr>) d))
          else command_error ControllerError_ButtonNotFound d)"

definition DoControllerCommand :: "driver \<Rightarrow> driver option" where
  "DoControllerCommand d0 = do {
     d \<leftarrow> UpdateControllerState ControllerState_Starting ControllerError_None d0;
     a \<leftarrow> d_currentCmd d;
     c \<leftarrow> d_ccis d a;
     (case cci_command c of
        ControllerCommand_AddDevice \<Rightarrow> start_AddDevice c d
      | ControllerCommand_CreateNewPrimary \<Rightarrow> start_CreateNewPrimary d
      | ControllerCommand_ReceiveConfiguration \<Rightarrow> send_command
          (request_msg ''ControllerCommand_ReceiveConfiguration'' 0xff FUNC_ID_ZW_SET_LEARN_MODE True [0xff]) d
      | ControllerCommand_RemoveDevice \<Rightarrow> start_RemoveDevice c d
      | ControllerCommand_HasNodeFailed \<Rightarrow> send_command
          (request_msg ''ControllerCommand_HasNodeFailed'' 0xff FUNC_ID_ZW_IS_FAILED_NODE_ID False [cci_node c]) d
      | ControllerCommand_RemoveFailedNode \<Rightarrow> send_command
          (request_msg ''ControllerCommand_RemoveFailedNode'' 0xff FUNC_ID_ZW_REMOVE_FAILED_NODE_ID True [cci_node c]) d
      | ControllerCommand_ReplaceFailedNode \<Rightarrow> send_command
          (request_msg ''ControllerCommand_ReplaceFailedNode'' 0xff FUNC_ID_ZW_REPLACE_FAILED_NODE True [cci_node c]) d
      | ControllerCommand_TransferPrimaryRole \<Rightarrow> start_TransferPrimaryRole c d
      | ControllerCommand_RequestNetworkUpdate \<Rightarrow> start_RequestNetworkUpdate d
      | ControllerCommand_RequestNodeNeighborUpdate \<Rightarrow> start_RequestNodeNeighborUpdate c d
      | ControllerCommand_AssignReturnRoute \<Rightarrow> send_command
          (request_msg ''ControllerCommand_AssignReturnRoute'' (cci_node c) FUNC_ID_ZW_ASSIGN_RETURN_ROUTE True
             [cci_node c, cci_arg c]) d
      | ControllerCommand_DeleteAllReturnRoutes \<Rightarrow> send_command
          (request_msg ''ControllerCommand_DeleteAllReturnRoutess'' (cci_node c) FUNC_ID_ZW_DELETE_RETURN_ROUTE True
             [cci_node c]) d
      | ControllerCommand_SendNodeInformation \<Rightarrow> send_command
          (request_msg ''ControllerCommand_SendNodeInformation'' (cci_node c) FUNC_ID_ZW_SEND_NODE_INFORMATION True
             [cci_node c, d_transmitOptions d]) d
      | ControllerCommand_ReplicationSend \<Rightarrow> start_ReplicationSend c d
      | ControllerCommand_CreateButton \<Rightarrow> start_CreateButton c d
      | ControllerCommand_DeleteButton \<Rightarrow> start_DeleteButton c d
      | ControllerCommand_None \<Rightarrow> Some d)
   }"

section \<open>Cancelling a controller command\<close>

definition AddNodeStop :: "uint8 \<Rightarrow> driver \<Rightarrow> driver option" where
  "AddNodeStop func d = (case d_currentCmd d of None \<Rightarrow> Some d
     | Some _ \<Rightarrow> if i_serialAPIVersion (d_info d) = (2, 76)
                 then send_command (request_no_reply ''Add Node Stop'' 0xff func [ADD_NODE_STOP]) d
                 else send_command (request_msg ''Add Node Stop'' 0xff func False [ADD_NODE_STOP]) d)"

definition SendSlaveLearnModeOff :: "driver \<Rightarrow> driver option" where
  "SendSlaveLearnModeOff d =
     (if \<not> (IsPrimaryController d \<or> IsInclusionController d)
      then send_command (request_msg ''Set Slave Learn Mode Off '' 0xff FUNC_ID_ZW_SET_SLAVE_LEARN_MODE True
             [0, SLAVE_LEARN_MODE_DISABLE]) d
      else Some d)"

text \<open>\<open>None\<close> inside: the command cannot be cancelled.\<close>

definition cancel_messages :: "nat \<Rightarrow> cci \<Rightarrow> driver \<Rightarrow> driver option option" where
  "cancel_messages a c d =
     (let d_no_node = put_cci a (c\<lparr>cci_node := 0xff\<rparr>) d in
      case cci_command c of
        ControllerCommand_AddDevice \<Rightarrow> Some (AddNodeStop FUNC_ID_ZW_ADD_NODE_TO_NETWORK d_no_node)
      | ControllerCommand_CreateNewPrimary \<Rightarrow> Some (send_command
          (request_msg ''CreateNewPrimary Stop'' 0xff FUNC_ID_ZW_CREATE_NEW_PRIMARY True [CREATE_PRIMARY_STOP]) d)
      | ControllerCommand_ReceiveConfiguration \<Rightarrow> Some (send_command
          (request_no_reply ''ReceiveConfiguration Stop'' 0xff FUNC_ID_ZW_SET_LEARN_MODE [0]) d)
      | ControllerCommand_RemoveDevice \<Rightarrow> Some (AddNodeStop FUNC_ID_ZW_REMOVE_NODE_FROM_NETWORK d_no_node)
      | ControllerCommand_TransferPrimaryRole \<Rightarrow> Some (send_command
          (request_msg ''Transfer Primary Role Stop'' 0xff FUNC_ID_ZW_CONTROLLER_CHANGE True [CONTROLLER_CHANGE_STOP]) d)
      | ControllerCommand_ReplicationSend \<Rightarrow> Some (AddNodeStop FUNC_ID_ZW_ADD_NODE_TO_NETWORK d_no_node)
      | ControllerCommand_CreateButton \<Rightarrow> Some (if cci_node c \<noteq> 0 then SendSlaveLearnModeOff d else Some d)
      | ControllerCommand_DeleteButton \<Rightarrow> Some (if cci_node c \<noteq> 0 then SendSlaveLearnModeOff d else Some d)
      | _ \<Rightarrow> None)"

definition CancelControllerCommand :: "driver \<Rightarrow> (bool \<times> driver) option" where
  "CancelControllerCommand d = (case d_currentCmd d of None \<Rightarrow> Some (False, d)
     | Some a \<Rightarrow> do {
         c \<leftarrow> d_ccis d a;
         (case cancel_messages a c d of
            None \<Rightarrow> Some (False, d)
          | Some r \<Rightarrow> do {
              d1 \<leftarrow> r;
              d2 \<leftarrow> UpdateControllerState ControllerState_Cancel ControllerError_None d1;
              Some (True, d2)
            })
       })"

section \<open>Requests can be finished\<close>

lemma Append_fields [simp]:
  "m_bFinal (Append b m) = m_bFinal m" "m_flags (Append b m) = m_flags m"
  "m_length (Append b m) = m_length m + 1" "m_targetNodeId (Append b m) = m_targetNodeId m"
  by (simp_all add: Append_def)

lemma Append_all_fields:
  "m_bFinal (fold Append bs m) = m_bFinal m" "m_flags (fold Append bs m) = m_flags m"
  "m_length (fold Append bs m) = m_length m + of_nat (length bs)"
  "m_targetNodeId (fold Append bs m) = m_targetNodeId m" "m_noncerecvd (fold Append bs m) = m_noncerecvd m"
  by (induction bs arbitrary: m) (simp_all add: Append_def)

lemma Msg_new_fields:
  "\<not> m_bFinal (Msg_new t n REQUEST f cb r e c)" "m_flags (Msg_new t n REQUEST f cb r e c) = 0"
  "m_length (Msg_new t n REQUEST f cb r e c) = 4" "m_targetNodeId (Msg_new t n REQUEST f cb r e c) = n"
  "\<not> m_noncerecvd (Msg_new t n REQUEST f cb r e c)"
  by (simp_all add: Msg_new_def)

lemma finishes_request: "length bs < 200 \<Longrightarrow> finishes (request_msg t n f cb bs)"
  by (rule finishes_plain)
    (simp_all add: request_msg_def Append_all_fields Msg_new_fields unat_word_ariths unat_of_nat)

lemma finishes_request_no_reply: "length bs < 200 \<Longrightarrow> finishes (request_no_reply t n f bs)"
  by (rule finishes_plain)
    (simp_all add: request_no_reply_def Append_all_fields Msg_new_fields unat_word_ariths unat_of_nat)

lemma finishes_lists [simp]:
  "finishes (request_msg t n f cb [])" "finishes (request_msg t n f cb [a])"
  "finishes (request_msg t n f cb [a, b])" "finishes (request_msg t n f cb [a, b, c])"
  "finishes (request_no_reply t n f [])" "finishes (request_no_reply t n f [a])"
  "finishes (request_no_reply t n f [a, b, c, d, e])"
  by (simp_all add: finishes_request finishes_request_no_reply)

section \<open>The operations keep the driver well formed\<close>

lemma UpdateControllerState_good:
  assumes "good sh d"
  shows "\<exists>d'. UpdateControllerState st err d = Some d' \<and> good sh d'"
  using assms UpdateControllerState_defined [of d st err] UpdateControllerState_inv [of st err d]
    UpdateControllerState_tame [of st err d] unfolding good_def by blast

definition keeps :: "(uint8 \<Rightarrow> bool option) \<Rightarrow> driver option \<Rightarrow> bool" where
  "keeps sh r \<longleftrightarrow> (\<exists>d'. r = Some d' \<and> good sh d')"

lemma keeps_if [simp]: "(c \<Longrightarrow> keeps sh r) \<Longrightarrow> (\<not> c \<Longrightarrow> keeps sh s) \<Longrightarrow> keeps sh (if c then r else s)"
  by simp

lemma send_command_keeps: "good sh d \<Longrightarrow> finishes m \<Longrightarrow> keeps sh (send_command m d)"
  using SendMsg_good [of sh d m MsgQueue_Command] by (auto simp: keeps_def send_command_def)

lemma command_error_keeps: "good sh d \<Longrightarrow> keeps sh (command_error err d)"
  using UpdateControllerState_good [of sh d ControllerState_Error err] by (auto simp: keeps_def command_error_def)

lemmas command_keeps = send_command_keeps command_error_keeps

lemma put_buttons_good:
  assumes g: "good sh d" and n: "d_nodes d i = Some n"
  shows "good sh (put_node i (n\<lparr>n_buttonMap := f\<rparr>) d)"
  by (rule put_node_good [OF g n]) simp_all

lemma start_keeps:
  assumes "good sh d"
  shows "keeps sh (start_AddDevice c d)" "keeps sh (start_CreateNewPrimary d)" "keeps sh (start_RemoveDevice c d)"
    "keeps sh (start_TransferPrimaryRole c d)" "keeps sh (start_RequestNetworkUpdate d)"
    "keeps sh (start_RequestNodeNeighborUpdate c d)" "keeps sh (start_ReplicationSend c d)"
  using assms
  by (simp_all add: start_AddDevice_def start_CreateNewPrimary_def start_RemoveDevice_def Let_def
      start_TransferPrimaryRole_def start_RequestNetworkUpdate_def start_RequestNodeNeighborUpdate_def
      start_ReplicationSend_def command_keeps)

lemma keeps_bind:
  assumes "keeps sh r" and "\<And>d. good sh d \<Longrightarrow> keeps sh (f d)"
  shows "keeps sh (Option.bind r f)"
  using assms by (auto simp: keeps_def)

lemma start_CreateButton_keeps:
  assumes g: "good sh d"
  shows "keeps sh (start_CreateButton c d)"
  using g put_buttons_good [OF g]
  by (auto simp: start_CreateButton_def SendVirtualNodeInfo_def command_keeps
      intro!: keeps_bind split: option.split)

lemma start_DeleteButton_keeps:
  assumes g: "good sh d"
  shows "keeps sh (start_DeleteButton c d)"
proof -
  have "good sh (notify x (put_node i (n\<lparr>n_buttonMap := f\<rparr>) d))" if "d_nodes d i = Some n" for x i n f
    using put_buttons_good [OF g that] by (simp add: good_def)
  then show ?thesis using g
    by (auto simp: start_DeleteButton_def command_keeps split: option.split) (simp add: keeps_def)
qed

lemma good_cmd: "good sh d \<Longrightarrow> d_currentCmd d = Some a \<Longrightarrow> \<exists>c. d_ccis d a = Some c"
  by (simp add: good_def cmd_live)

lemma DoControllerCommand_keeps:
  assumes g: "good sh d0" and a: "d_currentCmd d0 = Some a"
  shows "keeps sh (DoControllerCommand d0)"
proof -
  obtain d where d: "UpdateControllerState ControllerState_Starting ControllerError_None d0 = Some d"
    and g1: "good sh d" using UpdateControllerState_good [OF g] by blast
  have a1: "d_currentCmd d = Some a" using UpdateControllerState_shape [OF d] a by simp
  obtain c where c: "d_ccis d a = Some c" using good_cmd [OF g1 a1] by blast
  have "keeps sh (Some d)" using g1 by (simp add: keeps_def)
  then show ?thesis
    by (simp add: DoControllerCommand_def d a1 c start_keeps [OF g1] start_CreateButton_keeps [OF g1]
        start_DeleteButton_keeps [OF g1] send_command_keeps [OF g1] split: controller_command.split)
qed

lemma put_cci_good:
  assumes g: "good sh d" and "d_ccis d a = Some c"
  shows "good sh (put_cci a c' d)"
proof -
  have p: "pending (put_cci a c' d) = pending d" by (rule pending_nodes) (simp add: put_cci_def)
  have "live (put_cci a c' d) = live d" using assms(2) by (auto simp: live_def put_cci_def fun_eq_iff)
  then have "driver_inv (put_cci a c' d)"
    using assms p event_ok_eq [of "put_cci a c' d" d]
    by (auto simp: good_def driver_inv_def heap_ok_live cmd_ok_def put_cci_def)
  moreover have "tame sh (put_cci a c' d)"
    by (rule tame_frame [of sh d]) (use g in \<open>simp_all add: good_def put_cci_def\<close>)
  ultimately show ?thesis by (simp add: good_def)
qed

lemma AddNodeStop_keeps: "good sh d \<Longrightarrow> keeps sh (AddNodeStop f d)"
  by (auto simp: AddNodeStop_def command_keeps split: option.split) (simp add: keeps_def)

lemma SendSlaveLearnModeOff_keeps: "good sh d \<Longrightarrow> keeps sh (SendSlaveLearnModeOff d)"
  by (simp add: SendSlaveLearnModeOff_def command_keeps) (simp add: keeps_def)

lemma cancel_messages_keeps:
  assumes g: "good sh d" and "d_ccis d a = Some c" and "cancel_messages a c d = Some r"
  shows "keeps sh r"
proof -
  have "keeps sh (Some d)" using g by (simp add: keeps_def)
  then show ?thesis
    using assms put_cci_good [OF g assms(2), of "c\<lparr>cci_node := 0xff\<rparr>"]
    by (auto simp: cancel_messages_def Let_def AddNodeStop_keeps SendSlaveLearnModeOff_keeps command_keeps
        split: controller_command.splits if_splits)
qed

lemma CancelControllerCommand_good:
  assumes g: "good sh d"
  shows "\<exists>r d'. CancelControllerCommand d = Some (r, d') \<and> good sh d'"
proof (cases "d_currentCmd d")
  case (Some a)
  obtain c where c: "d_ccis d a = Some c" using good_cmd [OF g Some] by blast
  show ?thesis
  proof (cases "cancel_messages a c d")
    case (Some r)
    obtain d1 where "r = Some d1" "good sh d1"
      using cancel_messages_keeps [OF g c Some] by (auto simp: keeps_def)
    then show ?thesis using UpdateControllerState_good [of sh d1 ControllerState_Cancel ControllerError_None]
        Some \<open>d_currentCmd d = Some a\<close> c by (auto simp: CancelControllerCommand_def)
  qed (use g Some c in \<open>auto simp: CancelControllerCommand_def intro: exI [of _ False]\<close>)
qed (use g in \<open>auto simp: CancelControllerCommand_def intro: exI [of _ False]\<close>)

section \<open>The outcome of starting a command\<close>

text \<open>What becomes of a command: the error it is refused with, or the function of its request.\<close>

definition start_spec :: "cci \<Rightarrow> driver \<Rightarrow> controller_error + uint8" where
  "start_spec c d =
     (let primary = IsPrimaryController d; suc = IsStaticUpdateController d;
          if_primary = (\<lambda>f. if primary then Inr f else Inl ControllerError_NotPrimary) in
      case cci_command c of
        ControllerCommand_AddDevice \<Rightarrow> if_primary FUNC_ID_ZW_ADD_NODE_TO_NETWORK
      | ControllerCommand_RemoveDevice \<Rightarrow> if_primary FUNC_ID_ZW_REMOVE_NODE_FROM_NETWORK
      | ControllerCommand_TransferPrimaryRole \<Rightarrow> if_primary FUNC_ID_ZW_CONTROLLER_CHANGE
      | ControllerCommand_ReplicationSend \<Rightarrow> if_primary FUNC_ID_ZW_ADD_NODE_TO_NETWORK
      | ControllerCommand_RequestNodeNeighborUpdate \<Rightarrow> if_primary
          (if IsAPICallSupported FUNC_ID_ZW_REQUEST_NODE_NEIGHBOR_UPDATE_OPTIONS d
           then FUNC_ID_ZW_REQUEST_NODE_NEIGHBOR_UPDATE_OPTIONS else FUNC_ID_ZW_REQUEST_NODE_NEIGHBOR_UPDATE)
      | ControllerCommand_CreateNewPrimary \<Rightarrow>
          (if primary then Inl ControllerError_NotSecondary else if \<not> suc then Inl ControllerError_NotSUC
           else Inr FUNC_ID_ZW_CREATE_NEW_PRIMARY)
      | ControllerCommand_RequestNetworkUpdate \<Rightarrow>
          (if suc then Inr FUNC_ID_ZW_REQUEST_NETWORK_UPDATE else Inl ControllerError_NotSUC)
      | ControllerCommand_ReceiveConfiguration \<Rightarrow> Inr FUNC_ID_ZW_SET_LEARN_MODE
      | ControllerCommand_HasNodeFailed \<Rightarrow> Inr FUNC_ID_ZW_IS_FAILED_NODE_ID
      | ControllerCommand_RemoveFailedNode \<Rightarrow> Inr FUNC_ID_ZW_REMOVE_FAILED_NODE_ID
      | ControllerCommand_ReplaceFailedNode \<Rightarrow> Inr FUNC_ID_ZW_REPLACE_FAILED_NODE
      | ControllerCommand_AssignReturnRoute \<Rightarrow> Inr FUNC_ID_ZW_ASSIGN_RETURN_ROUTE
      | ControllerCommand_DeleteAllReturnRoutes \<Rightarrow> Inr FUNC_ID_ZW_DELETE_RETURN_ROUTE
      | ControllerCommand_SendNodeInformation \<Rightarrow> Inr FUNC_ID_ZW_SEND_NODE_INFORMATION
      | _ \<Rightarrow> Inl ControllerError_None)"

abbreviation (input) no_button_command :: "controller_command \<Rightarrow> bool" where
  "no_button_command cmd \<equiv> cmd \<notin> {ControllerCommand_CreateButton, ControllerCommand_DeleteButton, ControllerCommand_None}"

text \<open>The command is over, with its error, and the controller queue's event is set, so that the thread reports it.\<close>

definition failed_with :: "nat \<Rightarrow> controller_error \<Rightarrow> driver \<Rightarrow> bool" where
  "failed_with a err d \<longleftrightarrow> (\<exists>c. d_ccis d a = Some c \<and> cci_done c \<and> cci_state c = ControllerState_Error \<and>
     cci_error c = err) \<and> d_event d MsgQueue_Controller"

definition sent_request :: "nat \<Rightarrow> uint8 \<Rightarrow> driver \<Rightarrow> driver \<Rightarrow> bool" where
  "sent_request a f d d' \<longleftrightarrow> (\<exists>m. d_queue d' = (d_queue d)(MsgQueue_Command := d_queue d MsgQueue_Command @ [Item_SendMsg m]) \<and>
     sendable m \<and> m_buffer m ! 3 = f) \<and> d_event d' MsgQueue_Command \<and>
     (\<exists>c. d_ccis d' a = Some c \<and> cci_state c = ControllerState_Starting)"

lemma starting:
  assumes "d_currentCmd d0 = Some a" and "d_ccis d0 a = Some c0" and "cci_state c0 = ControllerState_Normal"
  obtains d c where "UpdateControllerState ControllerState_Starting ControllerError_None d0 = Some d"
    "d_ccis d a = Some c" "c = c0\<lparr>cci_stateChanged := True, cci_state := ControllerState_Starting\<rparr>"
    "d_queue d = d_queue d0" "d_nodes d = d_nodes d0" "d_currentCmd d = Some a"
    "d_info d = d_info d0" "d_transmitOptions d = d_transmitOptions d0"
  using assms by (auto simp: UpdateControllerState_def put_cci_def notify_def ends_command_def Let_def)

lemma request_function:
  assumes "Finalize s ((request_msg t n f cb bs)\<lparr>m_homeId := h\<rparr>) = Some (s', m)" and "length bs < 200"
  shows "m_buffer m ! 3 = f \<and> m_targetNodeId m = n"
proof -
  let ?m = "request_msg t n f cb bs"
  have l: "unat (m_length ?m) = 4 + length bs" using assms(2)
    by (simp add: request_msg_def Append_all_fields Msg_new_fields unat_word_ariths unat_of_nat)
  have g: "m_buffer (fold Append bs m0) ! 3 = m_buffer m0 ! 3"
    if "4 \<le> unat (m_length m0)" "unat (m_length m0) + length bs < 256" for bs m0
    using that
  proof (induction bs arbitrary: m0)
    case (Cons b bs)
    then show ?case by (simp add: Append_def unat_word_ariths)
  qed simp
  have b: "m_buffer ?m ! 3 = f"
    using assms(2) by (simp add: request_msg_def g Msg_new_fields) (simp add: Msg_new_def)
  have u: "unat (word_of_nat (length bs) :: uint8) = length bs" using assms(2) by (simp add: unat_of_nat)
  show ?thesis
    using assms(1) b l assms(2) u
    by (auto simp: Finalize_def Finalize_tail_def Let_def request_msg_def Append_all_fields Msg_new_fields unat_word_ariths
        split: if_splits prod.splits)
qed

text \<open>A request to a node that does not sleep now.\<close>

lemma send_command_sent:
  assumes g: "good sh d" and l: "length bs < 200"
    and n: "\<And>nd. d_nodes d n = Some nd \<Longrightarrow> \<not> sleeping nd"
    and c: "d_ccis d a = Some c" "cci_state c = ControllerState_Starting"
  shows "\<exists>d'. send_command (request_msg t n f cb bs) d = Some d' \<and> sent_request a f d d'"
proof -
  obtain d' where d': "SendMsg (request_msg t n f cb bs) MsgQueue_Command d = Some d'"
    using SendMsg_good [OF g finishes_request [OF l]] by blast
  have "sent_request a f d d'"
    using d'
  proof (cases rule: SendMsg_cases)
    case (1 cb' m m1)
    have "sendable m" "m_buffer m ! 3 = f"
      using finishes_request [OF l, of t n f cb] 1(1) request_function [OF 1(1) l]
      unfolding finishes_def by (metis option.inject prod.inject)+
    then have "sendable m1" "m_buffer m1 ! 3 = f" using 1(2) by (auto simp: sendable_def)
    then show ?thesis using 1(3) c by (auto simp: sent_request_def)
  next
    case (2 cb m m1 nd)
    then show ?thesis using n request_function [OF 2(1) l] by simp
  next
    case (3 cb m nd a c b d1 d2)
    then show ?thesis using n request_function [OF 3(1) l] by simp
  qed
  then show ?thesis using d' by (simp add: send_command_def)
qed

lemma command_error_fails:
  assumes "d_currentCmd d = Some a" and "d_ccis d a = Some c" and "cci_state c = ControllerState_Starting"
    and "err \<noteq> ControllerError_None"
  shows "\<exists>d'. command_error err d = Some d' \<and> failed_with a err d' \<and> d_queue d' = d_queue d"
  using assms by (auto simp: command_error_def UpdateControllerState_def put_cci_def notify_def ends_command_def
      failed_with_def Let_def)

definition outcome :: "nat \<Rightarrow> controller_error + uint8 \<Rightarrow> driver \<Rightarrow> driver option \<Rightarrow> bool" where
  "outcome a s d r \<longleftrightarrow> (\<exists>d'. r = Some d' \<and> (case s of
     Inl err \<Rightarrow> failed_with a err d' \<and> d_queue d' = d_queue d
   | Inr f \<Rightarrow> sent_request a f d d'))"


lemma Driver_new_good: "good (\<lambda>_. None) (Driver_new c)"
  using Driver_new_inv [of c]
  by (auto simp: good_def tame_def shape_def Driver_new_def pending_def fun_eq_iff)

lemma BeginControllerCommand_good:
  "BeginControllerCommand cmd f x hp nid arg d = (r, d') \<Longrightarrow> good sh d \<Longrightarrow> good sh d'"
  using BeginControllerCommand_inv BeginControllerCommand_tame by (simp add: good_def) blast

definition adding_driver :: driver where
  "adding_driver = (snd (BeginControllerCommand ControllerCommand_AddDevice 1 7 True 0 0 (Driver_new 10)))
     \<lparr>d_currentCmd := Some 0\<rparr>"

lemma adding_driver_simps:
  "d_currentCmd adding_driver = Some 0" "d_nodes adding_driver = (\<lambda>_. None)"
  "d_info adding_driver = d_info (Driver_new 10)"
  "\<exists>c. d_ccis adding_driver 0 = Some c \<and> cci_command c = ControllerCommand_AddDevice \<and>
     cci_state c = ControllerState_Normal"
  by (simp_all add: adding_driver_def BeginControllerCommand_def new_cci_def Driver_new_def push_back_def Let_def)

lemma adding_driver_good: "good (\<lambda>_. None) adding_driver"
proof -
  obtain r d' where b: "BeginControllerCommand ControllerCommand_AddDevice 1 7 True 0 0 (Driver_new 10) = (r, d')"
    by (meson prod.exhaust)
  have "good (\<lambda>_. None) d'" by (rule BeginControllerCommand_good [OF b Driver_new_good])
  moreover have "Item_Controller 0 \<in> set (d_queue d' MsgQueue_Controller)"
    using b by (auto simp: BeginControllerCommand_def new_cci_def Driver_new_def push_back_def Let_def)
  ultimately show ?thesis using run_command_good [of _ d' 0] b by (simp add: adding_driver_def)
qed


section \<open>The map of supported calls\<close>

lemma map_bit_eq: "map_bit bs n \<longleftrightarrow> bit (bs ! ((unat n - 1) div 8)) ((unat n - 1) mod 8)"
proof -
  have "push_bit i (1 :: uint8) AND w \<noteq> 0 \<longleftrightarrow> bit w i" if "i < 8" for i w
    using that by (simp add: bit_iff_and_push_bit_not_eq_0 and.commute)
  then show ?thesis by (simp add: map_bit_def and.commute)
qed

text \<open>Recording that a call is supported, or is not, changes the answer for that call only.\<close>

lemma SetAPICall_supported:
  assumes "length (i_apiMask (d_info d)) = 32" and "n \<noteq> 0" and "k \<noteq> 0"
  shows "IsAPICallSupported k (SetAPICall n v d) \<longleftrightarrow> (if k = n then v else IsAPICallSupported k d)"
proof -
  let ?i = "\<lambda>n. (unat n - 1) div 8" and ?b = "\<lambda>n. (unat n - 1) mod 8"
  have "?i n < 32" using unat_u8_less [of n] by linarith
  have pos: "1 \<le> unat n" "1 \<le> unat k" using assms(2,3) by (simp_all add: Suc_leI unat_gt_0)
  have "k = n \<longleftrightarrow> ?i k = ?i n \<and> ?b k = ?b n"
  proof
    assume "?i k = ?i n \<and> ?b k = ?b n"
    then have "unat k - 1 = unat n - 1" by (metis mult_div_mod_eq)
    then show "k = n" using pos by (metis le_add_diff_inverse word_unat_eq_iff)
  qed simp
  then show ?thesis
    using \<open>?i n < 32\<close> assms(1)
    by (cases "?i k = ?i n")
      (auto simp: IsAPICallSupported_def SetAPICall_def Let_def map_bit_eq bit_simps)
qed

end
