(* ===== verification/Send_Engine.thy ===== *)
theory Send_Engine
  imports Controller_Commands
begin

text \<open>
  The driver thread's sending side (\<open>cpp/src/Driver.cpp\<close>): \<open>WriteMsg\<close> with \<open>SendEncryptedMessage\<close>, \<open>WriteNextMsg\<close>,
  which takes the next entry of a queue, \<open>InitNode\<close>, \<open>ReloadNode\<close> and \<open>refreshNodeConfig\<close>, which destroy and
  create nodes, and the part of \<open>DriverThreadProc\<close> that chooses what to do; each keeps the driver well
  formed.
\<close>

section \<open>What the driver is given\<close>

text \<open>
  The block ciphers of the two keys, random bytes (for a packet and for a nonce), whether the
  controller accepts what is written, and what the nodes answer and ask during their interview.
\<close>

record io_env =
  io_enc :: block_cipher
  io_auth :: block_cipher
  io_rnd :: bytes
  io_firsts :: "uint8 list"
  io_rest :: bytes
  io_writeOk :: bool
  io_node :: node_env

definition write_out :: "bytes \<Rightarrow> driver \<Rightarrow> driver" where
  "write_out bs d = d\<lparr>d_out := d_out d @ [bs]\<rparr>"

definition count :: "(driver_stats \<Rightarrow> driver_stats) \<Rightarrow> driver \<Rightarrow> driver" where
  "count f d = d\<lparr>d_stats := f (d_stats d)\<rparr>"

definition map_node :: "(node \<Rightarrow> node) \<Rightarrow> uint8 \<Rightarrow> driver \<Rightarrow> driver" where
  "map_node f nid d = (case d_nodes d nid of None \<Rightarrow> d | Some n \<Rightarrow> put_node nid (f n) d)"

section \<open>Writing the current message\<close>

text \<open>
  The buffer of an encrypted message has 256 bytes of which \<open>EncryptBuffer\<close> fills the first; the
  length is cast to a byte.  Writing is undefined when there is no buffer.
\<close>

definition SendEncryptedMessage :: "io_env \<Rightarrow> driver \<Rightarrow> driver option" where
  "SendEncryptedMessage io d = do {
     m \<leftarrow> d_currentMsg d;
     r \<leftarrow> Msg_GetBuffer (io_enc io) (io_auth io) (d_controllerNodeId d) (d_transmitOptions d) (io_rnd io) m;
     b \<leftarrow> r;
     let n = unat (ucast (GetLength m) :: uint8);
     Some (write_out (take n (b @ replicate 256 0))
       (d\<lparr>d_expectedCallbackId := m_callbackId m, d_currentMsg := Some (clearNonce m)\<rparr>))
   }"

text \<open>\<open>node->GenerateNonceKey()\<close> and \<open>SendNonceKey\<close>.\<close>

definition report_nonce :: "io_env \<Rightarrow> uint8 \<Rightarrow> node \<Rightarrow> driver \<Rightarrow> driver option" where
  "report_nonce io nid n d = do {
     (key, t) \<leftarrow> GenerateNonceKey (io_firsts io) (io_rest io) (n_nonces n);
     (b, sent) \<leftarrow> SendNonceKey nid key;
     Some (write_out b ((put_node nid (n\<lparr>n_nonces := t\<rparr>) d)\<lparr>d_nonceReportSent := sent\<rparr>))
   }"

text \<open>
  \<open>WriteMsg\<close> in three parts: the decision to drop the message, the preparation of the transmission
  (callback id, attempts, what is expected), and the transmission with its counters.
\<close>

definition attempts_of :: "driver \<Rightarrow> msg \<Rightarrow> uint8" where
  "attempts_of d m = (if d_nonceReportSent d > 0 then d_nonceReportSentAttempt d else m_sendAttempts m)"

definition target_of :: "driver \<Rightarrow> msg \<Rightarrow> uint8" where
  "target_of d m = (if d_nonceReportSent d > 0 then d_nonceReportSent d else m_targetNodeId m)"

definition gives_up :: "driver \<Rightarrow> msg \<Rightarrow> bool" where
  "gives_up d m \<longleftrightarrow> attempts_of d m \<ge> m_maxSendAttempts m \<or>
     (\<exists>n \<in> set_option (d_nodes d (target_of d m)). \<not> m_nodeAlive (n_query n) \<and> \<not> IsNoOperation m)"

definition drop_message :: "driver \<Rightarrow> driver option" where
  "drop_message d = do {
     d1 \<leftarrow> UpdateControllerState ControllerState_Error ControllerError_Failed d;
     Some (count (\<lambda>s. s\<lparr>s_dropped := s_dropped s + 1\<rparr>) (RemoveCurrentMsg d1))
   }"

definition prepare_message :: "driver \<Rightarrow> msg \<Rightarrow> (uint8 \<times> msg \<times> driver) option" where
  "prepare_message d m =
     (let attempts = attempts_of d m in
      if d_nonceReportSent d > 0 then Some (attempts, m, d\<lparr>d_nonceReportSentAttempt := attempts + 1\<rparr>)
      else do {
        (cb, m1) \<leftarrow> (if attempts \<noteq> 0 then UpdateCallbackId (d_callbackId d) m else Some (d_callbackId d, m));
        let counted = (\<not> m_encrypted m1 \<or> \<not> m_noncerecvd m1);
        let m2 = (if counted then m1\<lparr>m_sendAttempts := attempts + 1\<rparr> else m1);
        Some (if counted then attempts + 1 else attempts, m2,
          d\<lparr>d_currentMsg := Some m2, d_callbackId := cb, d_expectedCallbackId := m_callbackId m2,
            d_expectedCommandClassId := m_expectedCommandClassId m2, d_expectedNodeId := m_targetNodeId m2,
            d_expectedReply := m_expectedReply m2, d_waitingForAck := True\<rparr>)
      })"

text \<open>The inner \<open>None\<close> tells that the port is closed.\<close>

definition transmit :: "io_env \<Rightarrow> uint8 \<Rightarrow> msg \<Rightarrow> driver \<Rightarrow> driver option option" where
  "transmit io nodeId m d =
     (case (if d_nonceReportSent d > 0 then d_nodes d nodeId else None) of
        Some n \<Rightarrow> map_option Some (report_nonce io nodeId n d)
      | None \<Rightarrow>
          if m_encrypted m then
            (if m_noncerecvd m then map_option Some (SendEncryptedMessage io d)
             else Some (Some (write_out (SendNonceRequest m) d)))
          else Some (if io_writeOk io
                     then Some (write_out (take (unat (GetLength m)) (m_buffer m)) d) else None))"

definition class_sent :: "uint8 \<Rightarrow> node \<Rightarrow> node" where
  "class_sent cc n = n\<lparr>n_classes := (n_classes n)(cc := map_option (\<lambda>c. c\<lparr>c_sentCnt := c_sentCnt c + 1\<rparr>) (n_classes n cc))\<rparr>"

definition count_sent :: "uint8 \<Rightarrow> driver \<Rightarrow> driver" where
  "count_sent nodeId d0 =
     (let d = count (\<lambda>s. s\<lparr>s_writeCnt := s_writeCnt s + 1\<rparr>) d0 in
      if nodeId = 0xff then count (\<lambda>s. s\<lparr>s_broadcastWriteCnt := s_broadcastWriteCnt s + 1\<rparr>) d
      else map_node (\<lambda>n. (if d_expectedReply d = FUNC_ID_APPLICATION_COMMAND_HANDLER
                          then class_sent (d_expectedCommandClassId d) else id)
                         (n\<lparr>n_sentCnt := n_sentCnt n + 1\<rparr>)) nodeId d)"

definition WriteMsg :: "io_env \<Rightarrow> driver \<Rightarrow> (bool \<times> driver) option" where
  "WriteMsg io d = (case d_currentMsg d of
     None \<Rightarrow> Some (False, d\<lparr>d_expectedCallbackId := 0, d_expectedCommandClassId := 0, d_expectedNodeId := 0,
                            d_expectedReply := 0, d_waitingForAck := False\<rparr>)
   | Some m \<Rightarrow>
       let nodeId = target_of d m in
       if gives_up d m then do { d1 \<leftarrow> drop_message d; Some (False, d1) }
       else do {
         (attempts, m1, d1) \<leftarrow> prepare_message d m;
         let d2 = (if attempts > 1
                   then map_node (\<lambda>n. n\<lparr>n_retries := n_retries n + 1\<rparr>) nodeId
                          (count (\<lambda>s. s\<lparr>s_retries := s_retries s + 1\<rparr>) d1)
                   else d1);
         r \<leftarrow> transmit io nodeId m1 d2;
         (case r of
            None \<Rightarrow> Some (False, (notify (Note_DriverFailed (m_targetNodeId m1)) d2)\<lparr>d_stopped := True\<rparr>)
          | Some d3 \<Rightarrow> Some (True, count_sent nodeId d3))
       })"

section \<open>Creating and destroying nodes\<close>

text \<open>\<open>Node::~Node\<close> with the destructor of its wake-up class, as far as the driver's state goes.\<close>

definition destroy_node :: "uint8 \<Rightarrow> driver \<Rightarrow> driver option" where
  "destroy_node nid d = do {
     d1 \<leftarrow> RemoveQueues nid d;
     h \<leftarrow> run_all free_cci (addrs (pending d1 nid)) (d_ccis d1);
     Some (d1\<lparr>d_ccis := h, d_nodes := (d_nodes d1)(nid := None)\<rparr>)
   }"

text \<open>\<open>InitNode\<close>, whose first part replaces the node, without protocol information.\<close>

definition fresh_node :: "uint8 \<Rightarrow> bool \<Rightarrow> driver \<Rightarrow> driver option" where
  "fresh_node nid newNode d = do {
     d1 \<leftarrow> (if d_nodes d nid \<noteq> None then map_option (notify (Note_NodeRemoved nid)) (destroy_node nid d) else Some d);
     Some (notify (Note_NodeAdded nid) (put_node nid (Node_new\<lparr>n_addingNode := newNode\<rparr>) d1))
   }"

definition InitNode :: "node_env \<Rightarrow> uint8 \<Rightarrow> bool \<Rightarrow> driver \<Rightarrow> driver option" where
  "InitNode env nid newNode d = do {
     d1 \<leftarrow> fresh_node nid newNode d;
     set_stage_node env St_ProtocolInfo True nid d1
   }"

text \<open>\<open>ReloadNode\<close>; the node's part of the cache file is removed first.\<close>

definition ReloadNode :: "node_env \<Rightarrow> uint8 \<Rightarrow> driver \<Rightarrow> driver option" where
  "ReloadNode env nid d = InitNode env nid False d"

text \<open>\<open>refreshNodeConfig\<close>; the option \<open>ReloadAfterUpdate\<close> in capitals is an input.\<close>

definition refreshNodeConfig :: "node_env \<Rightarrow> string \<Rightarrow> uint8 \<Rightarrow> driver \<Rightarrow> (bool \<times> driver) option" where
  "refreshNodeConfig env action nid d =
     (if action = ''NEVER'' then Some (True, notify Note_NodeReloadRequired d)
      else if action = ''IMMEDIATE'' then map_option (Pair True) (ReloadNode env nid d)
      else if action = ''AWAKE'' then do {
        n \<leftarrow> d_nodes d nid;
        (if n_listening n then map_option (Pair False) (ReloadNode env nid d)
         else case n_wakeUp n of
             None \<Rightarrow> Some (False, d)
           | Some w \<Rightarrow> if \<not> w_awake w then map_option (Pair False) (QueueMsg nid (Item_ReloadNode nid) d)
                       else map_option (Pair True) (ReloadNode env nid d))
      }
      else Some (False, d))"

section \<open>Taking the next entry of a queue\<close>

definition push_front :: "msg_queue \<Rightarrow> queue_item \<Rightarrow> driver \<Rightarrow> driver" where
  "push_front q it d = d\<lparr>d_queue := (d_queue d)(q := it # d_queue d q), d_event := (d_event d)(q := True)\<rparr>"

definition call_back :: "cci \<Rightarrow> driver \<Rightarrow> driver" where
  "call_back c d = (if cci_callback c = 0 then d
     else d\<lparr>d_calls := d_calls d @ [(cci_callback c, cci_state c, cci_error c, cci_context c)]\<rparr>)"

definition next_message :: "io_env \<Rightarrow> msg_queue \<Rightarrow> msg \<Rightarrow> driver \<Rightarrow> (bool \<times> driver) option" where
  "next_message io q m d =
     (let d1 = pop_front q (d\<lparr>d_currentMsg := Some m, d_currentSource := q\<rparr>);
          d2 = (if d_nonceReportSent d > 0 then push_front q (Item_SendMsg m) d1 else d1)
      in WriteMsg io d2)"

definition next_stage :: "io_env \<Rightarrow> msg_queue \<Rightarrow> uint8 \<Rightarrow> query_stage \<Rightarrow> bool \<Rightarrow> driver \<Rightarrow> (bool \<times> driver) option" where
  "next_stage io q nid st retry d =
     (let d1 = pop_front q (d\<lparr>d_currentMsg := None\<rparr>) in
      case d_nodes d1 nid of None \<Rightarrow> Some (False, d1)
      | Some n \<Rightarrow> do {
          qs \<leftarrow> (if retry then Some (n_query n) else QueryStageComplete st (n_query n));
          map_option (Pair True) (advance_node (io_node io) nid (put_node nid (n\<lparr>n_query := qs\<rparr>) d1))
        })"

definition next_command :: "msg_queue \<Rightarrow> nat \<Rightarrow> driver \<Rightarrow> driver option" where
  "next_command q a d0 = do {
     let d = d0\<lparr>d_currentCmd := Some a\<rparr>;
     c \<leftarrow> d_ccis d a;
     if cci_done c then do {
       let d1 = call_back c (pop_front q d);
       h \<leftarrow> free_cci a (d_ccis d1);
       Some (d1\<lparr>d_ccis := h, d_currentCmd := None\<rparr>)
     }
     else if cci_state c = ControllerState_Normal then DoControllerCommand d
     else if cci_stateChanged c then Some (put_cci a (c\<lparr>cci_stateChanged := False\<rparr>) (call_back c d))
     else Some (d\<lparr>d_event := (d_event d)(q := False)\<rparr>)
   }"

text \<open>The front of an empty list is undefined.\<close>

definition WriteNextMsg :: "io_env \<Rightarrow> msg_queue \<Rightarrow> driver \<Rightarrow> (bool \<times> driver) option" where
  "WriteNextMsg io q d = (case d_queue d q of [] \<Rightarrow> None
     | it # _ \<Rightarrow> (case it of
         Item_SendMsg m \<Rightarrow> next_message io q m d
       | Item_QueryStageComplete nid st retry \<Rightarrow> next_stage io q nid st retry d
       | Item_Controller a \<Rightarrow> map_option (Pair True) (next_command q a d)
       | Item_ReloadNode nid \<Rightarrow> map_option (Pair True) (ReloadNode (io_node io) nid (pop_front q d))))"

section \<open>Time-outs\<close>

text \<open>The case of \<open>DriverThreadProc\<close> in which nothing arrived in time.\<close>

definition wait_timed_out :: "io_env \<Rightarrow> driver \<Rightarrow> (bool \<times> driver) option" where
  "wait_timed_out io d = WriteMsg io (case d_currentMsg d of
     Some m \<Rightarrow> if m_resendDuetoCANorNAK m then d else notify (Note_Timeout (m_targetNodeId m)) d
   | None \<Rightarrow> d)"

section \<open>What the driver thread waits for\<close>

text \<open>The send queues the loop of \<open>DriverThreadProc\<close> listens to, the first signalled one being served.\<close>

definition listened :: "driver \<Rightarrow> msg_queue list" where
  "listened d =
     (if d_waitingForAck d \<or> d_expectedCallbackId d \<noteq> 0 \<or> d_expectedReply d \<noteq> 0 then []
      else if d_currentCmd d \<noteq> None then take 3 all_queues else all_queues)"

definition served :: "driver \<Rightarrow> msg_queue option" where
  "served d = find (d_event d) (listened d)"

section \<open>Writing keeps the driver well formed\<close>

definition io_ok :: "io_env \<Rightarrow> bool" where
  "io_ok io \<longleftrightarrow> env_ok (io_node io) \<and> 8 \<le> length (io_firsts io) \<and> distinct (io_firsts io) \<and>
     7 \<le> length (io_rest io)"

lemma good_frame:
  assumes g: "good sh d" and e: "d_nodes d' = d_nodes d" "d_queue d' = d_queue d" "d_event d' = d_event d"
    "d_ccis d' = d_ccis d" "d_currentCmd d' = d_currentCmd d" "d_nextCci d' = d_nextCci d"
    and m: "\<And>m. d_currentMsg d' = Some m \<Longrightarrow> sendable m"
  shows "good sh d'"
proof -
  have p: "pending d' = pending d" by (rule pending_nodes [OF e(1)])
  have "driver_inv d'"
    using g e p event_ok_eq [of d' d] by (simp add: good_def driver_inv_def heap_ok_def cmd_ok_def)
  moreover have "shape d' = shape d" by (simp add: shape_def e(1) fun_eq_iff)
  ultimately show ?thesis using g e p m by (simp add: good_def tame_def)
qed

lemma good_current: "good sh d \<Longrightarrow> d_currentMsg d = Some m \<Longrightarrow> sendable m"
  by (simp add: good_def tame_def)

lemma good_simps:
  assumes "good sh d"
  shows "good sh (notify x d)" "good sh (count f d)" "good sh (write_out bs d)"
    "good sh (d\<lparr>d_stopped := b\<rparr>)" "good sh (RemoveCurrentMsg d)" "good sh (d\<lparr>d_nonceReportSent := k\<rparr>)"
    "good sh (d\<lparr>d_nonceReportSentAttempt := k\<rparr>)"
  by (rule good_frame [OF assms];
      use good_current [OF assms] in \<open>simp add: notify_def count_def write_out_def RemoveCurrentMsg_def\<close>)+

lemma call_back_good: "good sh d \<Longrightarrow> good sh (call_back c d)"
  by (cases "cci_callback c = 0") (auto simp: call_back_def good_current intro: good_frame [of sh d])

lemma map_node_good:
  assumes g: "good sh d" and w: "\<And>n. n_wakeUp (f n) = n_wakeUp n" "\<And>n. n_nonces (f n) = n_nonces n"
  shows "good sh (map_node f nid d)"
proof (cases "d_nodes d nid")
  case (Some n)
  show ?thesis using put_node_good [OF g Some w(1)] w(2) Some by (simp add: map_node_def)
qed (use g in \<open>simp add: map_node_def\<close>)

lemma drop_message_good:
  assumes "good sh d"
  obtains d' where "drop_message d = Some d'" "good sh d'" "d_currentMsg d' = None"
proof -
  obtain d1 where "UpdateControllerState ControllerState_Error ControllerError_Failed d = Some d1" "good sh d1"
    using UpdateControllerState_good [OF assms] by blast
  then show ?thesis using that good_simps(2,5) by (simp add: drop_message_def) (simp add: count_def RemoveCurrentMsg_def)
qed

lemma UpdateCallbackId_sendable:
  assumes "sendable m"
  obtains cb m1 where "UpdateCallbackId s m = Some (cb, m1)" "sendable m1" "m_encrypted m1 = m_encrypted m"
    "m_sendAttempts m1 = m_sendAttempts m" "m_maxSendAttempts m1 = m_maxSendAttempts m"
    "m_targetNodeId m1 = m_targetNodeId m" "m_length m1 = m_length m"
proof (cases "m_bCallbackRequired m")
  case True
  obtain c s' where n: "next_callback_id s = (c, s')" by (cases "next_callback_id s")
  have "\<not> unat (m_length m) < 2" using True assms by (simp add: sendable_def)
  then show ?thesis
    by (intro that [of s' "m\<lparr>m_buffer := _, m_callbackId := c\<rparr>"])
      (use True n assms in \<open>simp_all add: UpdateCallbackId_def sendable_def Let_def\<close>)
next
  case False
  show ?thesis by (rule that [of s m]) (use False assms in \<open>simp_all add: UpdateCallbackId_def\<close>)
qed

lemma prepare_message_good:
  assumes g: "good sh d" and m: "d_currentMsg d = Some m"
  obtains k m1 d1 where "prepare_message d m = Some (k, m1, d1)" "good sh d1" "sendable m1"
    "d_currentMsg d1 = Some m1" "d_nonceReportSent d1 = d_nonceReportSent d" "d_nodes d1 = d_nodes d"
    "d_nonceReportSent d = 0 \<Longrightarrow> m_sendAttempts m1 = m_sendAttempts m + 1"
    "m_maxSendAttempts m1 = m_maxSendAttempts m" "m_targetNodeId m1 = m_targetNodeId m"
proof (cases "d_nonceReportSent d > 0")
  case True
  show ?thesis
  proof (rule that)
    show "prepare_message d m = Some (attempts_of d m, m, d\<lparr>d_nonceReportSentAttempt := attempts_of d m + 1\<rparr>)"
      using True by (simp add: prepare_message_def Let_def)
    show "good sh (d\<lparr>d_nonceReportSentAttempt := attempts_of d m + 1\<rparr>)"
      by (rule good_frame [OF g]) (use good_current [OF g] in simp_all)
  qed (use True m good_current [OF g m] in simp_all)
next
  case False
  obtain cb m1 where u: "(if m_sendAttempts m \<noteq> 0 then UpdateCallbackId (d_callbackId d) m else Some (d_callbackId d, m)) = Some (cb, m1)"
    "sendable m1" "m_sendAttempts m1 = m_sendAttempts m" "m_maxSendAttempts m1 = m_maxSendAttempts m"
    "m_targetNodeId m1 = m_targetNodeId m"
  proof (cases "m_sendAttempts m = 0")
    case True
    then show ?thesis using that good_current [OF g m] by simp
  next
    case False
    obtain cb m1 where "UpdateCallbackId (d_callbackId d) m = Some (cb, m1)" "sendable m1"
      "m_sendAttempts m1 = m_sendAttempts m" "m_maxSendAttempts m1 = m_maxSendAttempts m"
      "m_targetNodeId m1 = m_targetNodeId m"
      by (rule UpdateCallbackId_sendable [OF good_current [OF g m], of "d_callbackId d"])
    then show ?thesis using that False by simp
  qed
  define m2 where "m2 = m1\<lparr>m_sendAttempts := m_sendAttempts m + 1\<rparr>"
  have s: "sendable m2" "\<not> m_noncerecvd m1" using u(2) by (simp_all add: m2_def sendable_def)
  define d1 where "d1 = d\<lparr>d_currentMsg := Some m2, d_callbackId := cb, d_expectedCallbackId := m_callbackId m2,
    d_expectedCommandClassId := m_expectedCommandClassId m2, d_expectedNodeId := m_targetNodeId m2,
    d_expectedReply := m_expectedReply m2, d_waitingForAck := True\<rparr>"
  have "prepare_message d m = Some (m_sendAttempts m + 1, m2, d1)"
    using False u(1) s(2) by (simp add: prepare_message_def attempts_of_def Let_def m2_def d1_def)
  moreover have "good sh d1" by (rule good_frame [OF g]) (simp_all add: d1_def s(1))
  ultimately show ?thesis by (rule that) (use s False u in \<open>simp_all add: d1_def m2_def\<close>)
qed

lemma draw_unique_ex:
  assumes "distinct ds" and "length os < length ds"
  shows "\<exists>d. draw_unique ds os = Some d"
proof -
  have "draw_unique ds os = None \<Longrightarrow> set ds \<subseteq> set os" for ds
    by (induction ds) (auto split: if_splits)
  moreover have "\<not> set ds \<subseteq> set os"
    using card_mono [of "set os" "set ds"] card_length [of os] assms by (auto simp: distinct_card)
  ultimately show ?thesis by fastforce
qed

lemma GenerateNonceKey_defined:
  assumes io: "io_ok io" and t: "nonce_ok t"
  obtains key t' where "GenerateNonceKey (io_firsts io) (io_rest io) t = Some (key, t')" "length key = 8" "nonce_ok t'"
proof -
  define idx where "idx = unat (m_lastnonce t)"
  have idx: "idx < 8" "length (m_nonces t) = 8" using t by (simp_all add: nonce_ok_def idx_def)
  define os where "os = map (\<lambda>r. r ! 0) (take idx (m_nonces t) @ drop (idx + 1) (m_nonces t))"
  have "length os < length (io_firsts io)" using idx io by (simp add: os_def io_ok_def)
  then obtain d where d: "draw_unique (io_firsts io) os = Some d"
    using draw_unique_ex io unfolding io_ok_def by blast
  define key where "key = d # take 7 (io_rest io)"
  define t' where "t' = t\<lparr>m_nonces := (m_nonces t)[idx := key],
    m_lastnonce := (if m_lastnonce t + 1 \<ge> 8 then 0 else m_lastnonce t + 1)\<rparr>"
  have k: "length key = 8" using io by (simp add: key_def io_ok_def)
  have "GenerateNonceKey (io_firsts io) (io_rest io) t = Some (key, t')"
    using d idx by (simp add: GenerateNonceKey_def peek_def idx_def [symmetric] os_def key_def t'_def Let_def)
  moreover have "nonce_ok t'"
  proof -
    have "unat (if m_lastnonce t + 1 \<ge> 8 then 0 else m_lastnonce t + 1) < 8"
      by (simp add: word_less_nat_alt not_le)
    moreover have "set ((m_nonces t)[idx := key]) \<subseteq> insert key (set (m_nonces t))" by (rule set_update_subset_insert)
    ultimately show ?thesis using t k by (auto simp: nonce_ok_def t'_def)
  qed
  ultimately show ?thesis using k that by blast
qed

lemma report_nonce_good:
  assumes io: "io_ok io" and g: "good sh d" and n: "d_nodes d nid = Some n"
  obtains d' where "report_nonce io nid n d = Some d'" "good sh d'" "d_currentMsg d' = d_currentMsg d"
proof -
  have "nonce_ok (n_nonces n)" using g n by (auto simp: good_def tame_def)
  then obtain key t where t: "GenerateNonceKey (io_firsts io) (io_rest io) (n_nonces n) = Some (key, t)"
    "length key = 8" "nonce_ok t" using GenerateNonceKey_defined [OF io] by blast
  obtain b where b: "SendNonceKey nid key = Some (b, nid)"
    using t(2) by (simp add: SendNonceKey_def peek_block_def Let_def)
  have "good sh (put_node nid (n\<lparr>n_nonces := t\<rparr>) d)" by (rule put_node_good [OF g n]) (simp_all add: t(3))
  then show ?thesis
    using that good_simps(3,6) by (simp add: report_nonce_def t(1) b) (simp add: write_out_def put_node_def)
qed

lemma transmit_good:
  assumes io: "io_ok io" and g: "good sh d" and m: "sendable m"
  obtains r where "transmit io nid m d = Some r"
    "\<And>d'. r = Some d' \<Longrightarrow> good sh d' \<and> d_currentMsg d' = d_currentMsg d"
proof (cases "if d_nonceReportSent d > 0 then d_nodes d nid else None")
  case None
  then show ?thesis using that m good_simps(3) [OF g]
    by (cases "m_encrypted m"; cases "io_writeOk io")
      (simp_all add: transmit_def sendable_def, simp_all add: write_out_def)
next
  case (Some n)
  then have "d_nodes d nid = Some n" by (simp split: if_splits)
  then obtain d' where "report_nonce io nid n d = Some d'" "good sh d'" "d_currentMsg d' = d_currentMsg d"
    using report_nonce_good [OF io g] by blast
  then show ?thesis using that Some by (simp add: transmit_def)
qed

lemma count_sent_good:
  assumes "good sh d"
  shows "good sh (count_sent nid d)"
  using good_simps(2) [OF assms] good_simps(2)
  by (auto simp: count_sent_def Let_def class_sent_def intro!: map_node_good)

lemma map_node_current [simp]: "d_currentMsg (map_node f nid d) = d_currentMsg d"
  by (simp add: map_node_def put_node_def split: option.split)

lemma count_current [simp]: "d_currentMsg (count f d) = d_currentMsg d" "d_nonceReportSent (count f d) = d_nonceReportSent d"
  "d_nodes (count f d) = d_nodes d"
  by (simp_all add: count_def)

text \<open>The operation is defined and its state is well formed.\<close>

definition answers :: "(uint8 \<Rightarrow> bool option) \<Rightarrow> (bool \<times> driver) option \<Rightarrow> bool" where
  "answers sh r \<longleftrightarrow> (\<exists>x. r = Some x \<and> good sh (snd x))"

lemma answers_Some [simp]: "answers sh (Some (b, d)) \<longleftrightarrow> good sh d"
  by (simp add: answers_def)

lemma answers_pair: "keeps sh r \<Longrightarrow> answers sh (map_option (Pair b) r)"
  by (auto simp: keeps_def)

lemma WriteMsg_good:
  assumes io: "io_ok io" and g: "good sh d"
  shows "answers sh (WriteMsg io d)"
proof (cases "d_currentMsg d")
  case None
  have "good sh (d\<lparr>d_expectedCallbackId := 0, d_expectedCommandClassId := 0, d_expectedNodeId := 0,
    d_expectedReply := 0, d_waitingForAck := False\<rparr>)" by (rule good_frame [OF g]) (simp_all add: None)
  then show ?thesis by (simp add: None WriteMsg_def)
next
  case (Some m)
  show ?thesis
  proof (cases "gives_up d m")
    case True
    obtain d1 where "drop_message d = Some d1" "good sh d1" using drop_message_good [OF g] by blast
    then show ?thesis using Some True by (simp add: WriteMsg_def Let_def)
  next
    case False
    obtain k m1 d1 where p: "prepare_message d m = Some (k, m1, d1)" "good sh d1" "sendable m1"
      using prepare_message_good [OF g Some] by blast
    define d2 where "d2 = (if k > 1 then map_node (\<lambda>n. n\<lparr>n_retries := n_retries n + 1\<rparr>) (target_of d m)
      (count (\<lambda>s. s\<lparr>s_retries := s_retries s + 1\<rparr>) d1) else d1)"
    have g2: "good sh d2" using good_simps(2) [OF p(2)] p(2) by (auto simp: d2_def intro!: map_node_good)
    obtain r where r: "transmit io (target_of d m) m1 d2 = Some r"
      "\<And>d'. r = Some d' \<Longrightarrow> good sh d' \<and> d_currentMsg d' = d_currentMsg d2"
      using transmit_good [OF io g2 p(3), of "target_of d m"] by blast
    have "WriteMsg io d = (case r of None \<Rightarrow> Some (False, (notify (Note_DriverFailed (m_targetNodeId m1)) d2)\<lparr>d_stopped := True\<rparr>)
      | Some d3 \<Rightarrow> Some (True, count_sent (target_of d m) d3))"
      using Some False p(1) r(1) by (simp add: WriteMsg_def Let_def d2_def [symmetric])
    then show ?thesis
      using good_simps(4) [OF good_simps(1) [OF g2]] r(2) count_sent_good by (cases r) auto
  qed
qed

section \<open>Taking entries keeps the driver well formed\<close>

lemma pop_front_good:
  assumes g: "good sh d" and q: "d_queue d q = it # its" and a: "cci_addr it = []"
  shows "good sh (pop_front q d)"
proof -
  have f: "d_queue (pop_front q d) = (d_queue d)(q := its)"
    "d_event (pop_front q d) = (if its = [] then (d_event d)(q := False) else d_event d)"
    using q by (simp_all add: pop_front_def Let_def)
  have "event_ok (pop_front q d)"
    by (rule event_ok_set_queue [OF _ f(1) _ f(2)]) (use g q in \<open>auto simp: good_def driver_inv_def\<close>)
  then have "driver_inv (pop_front q d)"
    by (intro same_addrs_inv [of d "pop_front q d"])
      (use g q a f in \<open>auto simp: good_def pop_front_def Let_def\<close>)
  moreover have "tame sh (pop_front q d)"
    by (rule tame_queue [of sh d]) (use g q in \<open>auto simp: good_def pop_front_def Let_def\<close>)
  ultimately show ?thesis by (simp add: good_def)
qed

lemma push_front_good:
  assumes g: "good sh d" and a: "cci_addr it = []" "item_ok it"
  shows "good sh (push_front q it d)"
proof -
  have "event_ok d" using g by (simp add: good_def driver_inv_def)
  then have "event_ok (push_front q it d)"
    using event_okD [of d] by (intro event_okI) (auto simp: push_front_def split: if_splits)
  then have "driver_inv (push_front q it d)"
    by (intro same_addrs_inv [of d "push_front q it d"]) (use g a in \<open>auto simp: good_def push_front_def\<close>)
  moreover have "tame sh (push_front q it d)"
    by (rule tame_queue [of sh d]) (use g a in \<open>auto simp: good_def push_front_def\<close>)
  ultimately show ?thesis by (simp add: good_def)
qed

lemma good_item: "good sh d \<Longrightarrow> it \<in> set (d_queue d q) \<Longrightarrow> item_ok it"
  by (auto simp: good_def tame_def)

lemma pop_front_simps [simp]:
  "d_currentMsg (pop_front q d) = d_currentMsg d" "d_nodes (pop_front q d) = d_nodes d"
  "d_ccis (pop_front q d) = d_ccis d" "d_currentCmd (pop_front q d) = d_currentCmd d"
  by (simp_all add: pop_front_def Let_def)

lemma next_message_good:
  assumes io: "io_ok io" and g: "good sh d" and q: "d_queue d q = Item_SendMsg m # its"
  shows "answers sh (next_message io q m d)"
proof -
  have m: "sendable m" using good_item [OF g, of "Item_SendMsg m" q] q by (simp add: item_ok_def)
  have "good sh (d\<lparr>d_currentMsg := Some m, d_currentSource := q\<rparr>)" by (rule good_frame [OF g]) (simp_all add: m)
  then have p: "good sh (pop_front q (d\<lparr>d_currentMsg := Some m, d_currentSource := q\<rparr>))"
    by (rule pop_front_good [where it = "Item_SendMsg m"]) (use q in simp_all)
  have "good sh (push_front q (Item_SendMsg m) (pop_front q (d\<lparr>d_currentMsg := Some m, d_currentSource := q\<rparr>)))"
    by (rule push_front_good [OF p]) (simp_all add: m item_ok_def)
  then show ?thesis using WriteMsg_good [OF io p] WriteMsg_good [OF io] by (simp add: next_message_def Let_def)
qed

lemma QueryStageComplete_ex: "\<exists>n'. QueryStageComplete s n = Some n'"
proof (cases "s = m_queryStage n \<and> m_queryStage n \<noteq> St_Complete")
  case True
  then show ?thesis using QueryStageComplete_next [of n] by metis
qed (auto simp: QueryStageComplete_def)

lemma next_stage_good:
  assumes io: "io_ok io" and g: "good sh d" and q: "d_queue d q = Item_QueryStageComplete nid st rt # its"
  shows "answers sh (next_stage io q nid st rt d)"
proof -
  define d1 where "d1 = pop_front q (d\<lparr>d_currentMsg := None\<rparr>)"
  have "good sh (d\<lparr>d_currentMsg := None\<rparr>)" by (rule good_frame [OF g]) simp_all
  then have g1: "good sh d1" unfolding d1_def
    by (rule pop_front_good [where it = "Item_QueryStageComplete nid st rt"]) (use q in simp_all)
  show ?thesis
  proof (cases "d_nodes d1 nid")
    case None
    then show ?thesis using g1 by (simp add: next_stage_def d1_def Let_def)
  next
    case (Some n)
    obtain qs where qs: "(if rt then Some (n_query n) else QueryStageComplete st (n_query n)) = Some qs"
      using QueryStageComplete_ex [of st "n_query n"] by (cases rt) auto
    have g2: "good sh (put_node nid (n\<lparr>n_query := qs\<rparr>) d1)" by (rule put_node_good [OF g1 Some]) simp_all
    have "sh nid \<noteq> None" using good_shape [OF g1 Some] by simp
    then obtain d' where "advance_node (io_node io) nid (put_node nid (n\<lparr>n_query := qs\<rparr>) d1) = Some d'" "good sh d'"
      using advance_node_good [OF g2, of "io_node io" nid] io by (auto simp: io_ok_def)
    then show ?thesis using Some qs by (simp add: next_stage_def d1_def [symmetric] Let_def)
  qed
qed

lemma owned_tail:
  assumes "owned L (Item_Controller a # xs) p"
  shows "owned (\<lambda>x. L x \<and> x \<noteq> a) xs p"
  using assms unfolding owned_def by auto

lemma controller_item:
  assumes g: "good sh d" and "d_queue d q = Item_Controller a # its"
  shows "q = MsgQueue_Controller"
  using assms by (auto simp: good_def driver_inv_def heap_ok_def)

lemma finish_command_good:
  assumes g: "good sh d" and q: "d_queue d MsgQueue_Controller = Item_Controller a # its"
  shows "good sh ((pop_front MsgQueue_Controller d)\<lparr>d_ccis := (d_ccis d)(a := None), d_currentCmd := None\<rparr>)"
    (is "good sh ?d")
proof -
  have f: "d_queue ?d = (d_queue d)(MsgQueue_Controller := its)" "d_nodes ?d = d_nodes d"
    "d_event ?d = (if its = [] then (d_event d)(MsgQueue_Controller := False) else d_event d)"
    "d_nextCci ?d = d_nextCci d" "d_currentMsg ?d = d_currentMsg d"
    using q by (simp_all add: pop_front_def Let_def)
  have p: "pending ?d = pending d" by (rule pending_nodes [OF f(2)])
  have "owned (live d) (Item_Controller a # its) (pending d)"
    using g q by (simp add: good_def driver_inv_def heap_ok_live)
  then have "owned (\<lambda>x. live d x \<and> x \<noteq> a) its (pending d)" by (rule owned_tail)
  moreover have "live ?d = (\<lambda>x. live d x \<and> x \<noteq> a)" by (auto simp: live_def fun_eq_iff)
  moreover have "event_ok ?d"
    by (rule event_ok_set_queue [OF _ f(1) _ f(3)]) (use g q in \<open>auto simp: good_def driver_inv_def\<close>)
  ultimately have "driver_inv ?d"
    using g f p by (simp add: good_def driver_inv_def heap_ok_live cmd_ok_def)
  moreover have "tame sh ?d"
    by (rule tame_queue [of sh d]) (use g f q in \<open>auto simp: good_def\<close>)
  ultimately show ?thesis by (simp add: good_def)
qed

lemma next_command_good:
  assumes g: "good sh d" and q: "d_queue d q = Item_Controller a # its"
  shows "keeps sh (next_command q a d)"
proof -
  let ?d = "d\<lparr>d_currentCmd := Some a\<rparr>"
  have Q: "q = MsgQueue_Controller" by (rule controller_item [OF g q])
  have g1: "good sh ?d" by (rule run_command_good [OF g]) (use q Q in simp)
  obtain c where c: "d_ccis ?d a = Some c" using good_cmd [OF g1] by auto
  show ?thesis
  proof (cases "cci_done c")
    case True
    have f: "good sh ((pop_front q ?d)\<lparr>d_ccis := (d_ccis ?d)(a := None), d_currentCmd := None\<rparr>)"
      unfolding Q by (rule finish_command_good [OF g1]) (use q Q in simp)
    have "good sh ((call_back c (pop_front q ?d))\<lparr>d_ccis := (d_ccis ?d)(a := None), d_currentCmd := None\<rparr>)"
      by (rule good_frame [OF f]; cases "cci_callback c = 0")
        (use good_current [OF g] in \<open>simp_all add: call_back_def\<close>)
    moreover have "d_ccis (call_back c (pop_front q ?d)) = d_ccis d" by (simp add: call_back_def)
    ultimately show ?thesis using True c by (simp add: next_command_def keeps_def free_cci_def Let_def)
  next
    case False
    have "good sh (put_cci a c' (call_back c ?d))" for c'
      by (rule put_cci_good [OF call_back_good [OF g1], where a = a and c = c]) (use c in \<open>simp add: call_back_def\<close>)
    moreover have "good sh (?d\<lparr>d_event := (d_event ?d)(q := False)\<rparr>)"
    proof -
      let ?e = "?d\<lparr>d_event := (d_event ?d)(q := False)\<rparr>"
      have p: "pending ?e = pending ?d" by (rule pending_nodes) simp
      have "event_ok ?e"
        by (rule event_okI) (use event_okD [of ?d] g1 Q in \<open>auto simp: good_def driver_inv_def split: if_splits\<close>)
      then have "driver_inv ?e"
        by (intro same_addrs_inv [of ?d ?e]) (use g1 in \<open>auto simp: good_def\<close>)
      moreover have "tame sh ?e" by (rule tame_frame [of sh ?d]) (use g1 in \<open>auto simp: good_def\<close>)
      ultimately show ?thesis by (simp add: good_def)
    qed
    ultimately show ?thesis using False c DoControllerCommand_keeps [OF g1, of a]
      by (simp add: next_command_def keeps_def Let_def)
  qed
qed

text \<open>The thread only takes from a queue whose event is set, and that queue is not empty.\<close>

lemma WriteNextMsg_good:
  assumes io: "io_ok io" and g: "good sh d" and e: "d_event d q"
  shows "answers sh (WriteNextMsg io q d)"
proof -
  have "d_queue d q \<noteq> []" using g e by (simp add: good_def driver_inv_def event_okD)
  then obtain it its where q: "d_queue d q = it # its" by (cases "d_queue d q") auto
  have "item_ok it" using good_item [OF g, of it q] q by simp
  then show ?thesis
    using q next_message_good [OF io g] next_stage_good [OF io g] answers_pair [OF next_command_good [OF g]]
    by (cases it) (simp_all add: WriteNextMsg_def item_ok_def)
qed

lemma wait_timed_out_good: "io_ok io \<Longrightarrow> good sh d \<Longrightarrow> answers sh (wait_timed_out io d)"
  by (simp add: wait_timed_out_def WriteMsg_good good_simps split: option.split)

section \<open>Destroying and creating nodes keeps the driver well formed\<close>

lemma run_all_free:
  "distinct as \<Longrightarrow> \<forall>a \<in> set as. h a \<noteq> None \<Longrightarrow>
   run_all free_cci as h = Some (\<lambda>a. if a \<in> set as then None else h a)"
proof (induction as arbitrary: h)
  case (Cons a as)
  then obtain c where "h a = Some c" by auto
  moreover have "run_all free_cci as (h(a := None)) = Some (\<lambda>b. if b \<in> set as then None else (h(a := None)) b)"
    by (rule Cons.IH) (use Cons.prems in auto)
  moreover have "free_cci a h = Some (h(a := None))" using calculation(1) by (simp add: free_cci_def)
  ultimately show ?case by (simp add: fun_eq_iff)
qed simp

lemma owned_drop:
  assumes "owned L xs p"
  shows "owned (\<lambda>a. L a \<and> a \<notin> set (addrs (p i))) xs (p(i := []))"
proof -
  have o: "distinct (addrs xs)" "\<And>i. distinct (addrs (p i))" "\<And>i. set (addrs (p i)) \<inter> set (addrs xs) = {}"
    "\<And>i j. i \<noteq> j \<Longrightarrow> set (addrs (p i)) \<inter> set (addrs (p j)) = {}"
    "\<And>a. L a \<longleftrightarrow> a \<in> set (addrs xs) \<or> (\<exists>i. a \<in> set (addrs (p i)))"
    using assms unfolding owned_def by simp_all
  show ?thesis unfolding owned_def
  proof (intro conjI allI impI)
    show "L a \<and> a \<notin> set (addrs (p i)) \<longleftrightarrow> a \<in> set (addrs xs) \<or> (\<exists>j. a \<in> set (addrs ((p(i := [])) j)))" for a
    proof (cases "a \<in> set (addrs (p i))")
      case True
      then have "a \<notin> set (addrs xs)" "\<And>j. j \<noteq> i \<Longrightarrow> a \<notin> set (addrs (p j))" using o(3) [of i] o(4) by blast+
      then show ?thesis using True by (auto split: if_splits)
    next
      case False
      then show ?thesis using o(5) [of a] by (auto split: if_splits)
    qed
  qed (use o in \<open>auto split: if_splits\<close>)
qed

lemma destroy_node_good:
  assumes g: "good sh d"
  obtains d' where "destroy_node nid d = Some d'" "good (sh(nid := None)) d'" "d_nodes d' = (d_nodes d)(nid := None)"
    "\<And>q. d_queue d' q = filter (stays nid (d_currentCmd d) (d_ccis d)) (d_queue d q)"
    "d_currentCmd d' = d_currentCmd d"
proof -
  obtain d1 where d1: "RemoveQueues nid d = Some d1" "driver_inv d1" "d_currentCmd d1 = d_currentCmd d"
    "d_nodes d1 = d_nodes d" "\<And>q. d_queue d1 q = filter (stays nid (d_currentCmd d) (d_ccis d)) (d_queue d q)"
    and m: "d_currentMsg d1 = d_currentMsg d \<or> d_currentMsg d1 = None"
    using RemoveQueues_spec [of d nid] g by (fastforce simp: good_def split: option.splits if_splits)
  have o: "owned (live d1) (d_queue d1 MsgQueue_Controller) (pending d1)" using d1(2) by (simp add: driver_inv_def heap_ok_live)
  define as where "as = addrs (pending d1 nid)"
  define h where "h = (\<lambda>a. if a \<in> set as then None else d_ccis d1 a)"
  have "run_all free_cci as (d_ccis d1) = Some h" unfolding h_def
    by (rule run_all_free) (use o in \<open>auto simp: as_def owned_def live_def\<close>)
  then have r: "destroy_node nid d = Some (d1\<lparr>d_ccis := h, d_nodes := (d_nodes d1)(nid := None)\<rparr>)"
    by (simp add: destroy_node_def d1(1) as_def)
  let ?d = "d1\<lparr>d_ccis := h, d_nodes := (d_nodes d1)(nid := None)\<rparr>"
  have p: "pending ?d = (pending d1)(nid := [])" by (auto simp: pending_def fun_eq_iff)
  have l: "live ?d = (\<lambda>a. live d1 a \<and> a \<notin> set (addrs (pending d1 nid)))"
    by (auto simp: live_def h_def as_def fun_eq_iff)
  have "owned (live ?d) (d_queue ?d MsgQueue_Controller) (pending ?d)"
    unfolding p l using owned_drop [OF o, of nid] by simp
  moreover have "event_ok ?d" using d1(2) event_ok_eq [of ?d d1] by (simp add: driver_inv_def)
  ultimately have "driver_inv ?d" using d1(2) l by (simp add: driver_inv_def heap_ok_live cmd_ok_def)
  moreover have "tame (sh(nid := None)) ?d"
  proof -
    have "shape ?d = (shape d)(nid := None)" by (simp add: shape_def fun_eq_iff d1(4))
    moreover have "pending d1 = pending d" by (rule pending_nodes [OF d1(4)])
    ultimately show ?thesis using g m d1(4,5) p by (auto simp: good_def tame_def split: if_splits)
  qed
  ultimately have "good (sh(nid := None)) ?d" by (simp add: good_def)
  then show ?thesis using that [OF r] d1 by simp
qed

lemma new_node_good:
  assumes g: "good sh d" and n: "d_nodes d nid = None" and w: "n_wakeUp nd = None" "nonce_ok (n_nonces nd)"
  shows "good (sh(nid := Some False)) (put_node nid nd d)"
proof -
  let ?d = "put_node nid nd d"
  have p: "pending ?d = pending d" using n w by (auto simp: pending_put_node pending_def fun_eq_iff)
  have "live ?d = live d" by (simp add: live_def put_node_def fun_eq_iff)
  then have "driver_inv ?d"
    using g p event_ok_eq [of ?d d] by (simp add: good_def driver_inv_def heap_ok_live cmd_ok_def put_node_def)
  moreover have "shape ?d = (shape d)(nid := Some False)" using w by (auto simp: shape_def put_node_def fun_eq_iff)
  ultimately show ?thesis using g p w unfolding good_def tame_def by (auto simp: put_node_def)
qed

lemma Node_new_ok: "n_wakeUp Node_new = None" "nonce_ok (n_nonces Node_new)"
  by (simp_all add: Node_new_def nonce_ok_def)

lemma fresh_node_good:
  assumes g: "good sh d"
  obtains d' where "fresh_node nid nn d = Some d'" "good (sh(nid := Some False)) d'"
    "d_nodes d' nid = Some (Node_new\<lparr>n_addingNode := nn\<rparr>)" "\<And>i. i \<noteq> nid \<Longrightarrow> d_nodes d' i = d_nodes d i"
    "d_currentCmd d' = d_currentCmd d"
proof -
  obtain d1 where d1: "(if d_nodes d nid \<noteq> None then map_option (notify (Note_NodeRemoved nid)) (destroy_node nid d) else Some d) = Some d1"
    "good (sh(nid := None)) d1" "d_nodes d1 = (d_nodes d)(nid := None)" "d_currentCmd d1 = d_currentCmd d"
  proof (cases "d_nodes d nid")
    case None
    then have "sh nid = None" using g by (auto simp: good_def tame_def shape_def)
    then have "sh(nid := None) = sh" "(d_nodes d)(nid := None) = d_nodes d" using None by (simp_all add: fun_eq_iff)
    then show ?thesis using that [of d] None g by simp
  next
    case (Some n)
    obtain d' where d': "destroy_node nid d = Some d'" "good (sh(nid := None)) d'" "d_nodes d' = (d_nodes d)(nid := None)"
      "d_currentCmd d' = d_currentCmd d"
      by (rule destroy_node_good [OF g, of nid])
    show ?thesis
      by (rule that [of "notify (Note_NodeRemoved nid) d'"])
        (use d' Some good_simps(1) in \<open>simp_all add: notify_def\<close>)
  qed
  have g2: "good (sh(nid := Some False)) (put_node nid (Node_new\<lparr>n_addingNode := nn\<rparr>) d1)"
    using new_node_good [OF d1(2), of nid "Node_new\<lparr>n_addingNode := nn\<rparr>"] Node_new_ok d1(3) by simp
  have r: "fresh_node nid nn d = Some (notify (Note_NodeAdded nid) (put_node nid (Node_new\<lparr>n_addingNode := nn\<rparr>) d1))"
    using d1(1) by (simp add: fresh_node_def)
  show ?thesis
    by (rule that [OF r good_simps(1) [OF g2]]) (use d1(3,4) in \<open>simp_all add: notify_def put_node_def\<close>)
qed

lemma InitNode_good:
  assumes g: "good sh d" and e: "env_ok env"
  shows "\<exists>d'. InitNode env nid nn d = Some d' \<and> good (sh(nid := Some False)) d'"
proof -
  obtain d1 where d1: "fresh_node nid nn d = Some d1" "good (sh(nid := Some False)) d1"
    using fresh_node_good [OF g] by blast
  then show ?thesis using set_stage_node_good [OF d1(2) e, of nid St_ProtocolInfo True] by (simp add: InitNode_def)
qed

end
