(* ===== verification/Serial_Frames.thy ===== *)
theory Serial_Frames
  imports Msg_Frame Serial_Buffer
begin

text \<open>
  How \<open>Driver::ReadMsg\<close> (\<open>cpp/src/Driver.cpp\<close>) takes a frame from the receive buffer while the serial
  thread goes on filling it: the start byte, the length byte, the rest of the frame, with the waits in
  between, and the check of the sum.  A frame made by \<open>Msg::Finalize\<close> arrives as it was sent.
\<close>

section \<open>Reading\<close>

datatype received =
  Nothing_read
| Frame_read bytes
| Read_aborted
| Control_read uint8

text \<open>The local buffer of 1024 bytes, cleared first.\<close>

definition frame_pad :: "bytes \<Rightarrow> bytes" where
  "frame_pad bs = take 1024 (bs @ replicate 1024 0)"

text \<open>What the serial thread puts into the buffer before a wait is over; a full buffer refuses it.\<close>

definition arrive :: "bytes \<Rightarrow> stream \<Rightarrow> stream option" where
  "arrive bs s = map_option snd (stream_put bs s)"

definition set_threshold :: "uint32 \<Rightarrow> stream \<Rightarrow> stream" where
  "set_threshold n s = snd (Stream_SetSignalThreshold n s)"

text \<open>A wait for the buffer succeeds when it is signalled after \<open>bs\<close> has arrived.\<close>

definition wait_for :: "bytes \<Rightarrow> stream \<Rightarrow> (bool \<times> stream) option" where
  "wait_for bs s = map_option (\<lambda>s1. (Stream_IsSignalled s1, s1)) (arrive bs s)"

definition read_port :: "bytes \<Rightarrow> bytes \<Rightarrow> stream \<Rightarrow> (received \<times> stream) option" where
  "read_port more1 more2 s = do {
     (ok, b, s1) \<leftarrow> Stream_Get 1 s;
     if \<not> ok then Some (Nothing_read, s1)
     else if b ! 0 \<noteq> SOF then Some (Control_read (b ! 0), s1)
     else do {
       (ready, s2) \<leftarrow> wait_for more1 (set_threshold 1 s1);
       if \<not> ready then Some (Read_aborted, s2)
       else do {
         (ok2, b2, s3) \<leftarrow> Stream_Get 1 s2;
         let len = (if ok2 then b2 ! 0 else 0);
         (ready2, s4) \<leftarrow> wait_for more2 (set_threshold (ucast len) s3);
         if \<not> ready2 then Some (Read_aborted, set_threshold 1 s4)
         else do {
           (ok3, b3, s5) \<leftarrow> Stream_Get (ucast len) s4;
           Some (Frame_read (frame_pad ([SOF, len] @ b3)), set_threshold 1 s5)
         }
       }
     }
   }"

text \<open>The check of the sum over \<open>length - 2\<close> bytes from the length byte on.\<close>

definition buffer_ok :: "bytes \<Rightarrow> bool" where
  "buffer_ok buf \<longleftrightarrow> buf ! (unat (buf ! 1) + 1) = xor_sum 0xff (take (unat (buf ! 1)) (drop 1 buf))"

section \<open>The buffer while it is read\<close>

lemma threshold_simps [simp]:
  "stream_cont (set_threshold n s) = stream_cont s" "stream_inv (set_threshold n s) = stream_inv s"
  "stream_cap (set_threshold n s) = stream_cap s" "m_signalSize (set_threshold n s) = n"
  by (simp_all add: set_threshold_def Stream_SetSignalThreshold_def stream_cont_def stream_inv_def stream_cap_def Let_def)

lemma signalled_cont:
  "stream_inv s \<Longrightarrow> Stream_IsSignalled s \<longleftrightarrow> unat (m_signalSize s) \<le> length (stream_cont s)"
  by (simp add: Stream_IsSignalled_def length_stream_cont word_le_nat_alt)

lemma Stream_Put_signal: "Stream_Put bs n s = Some (ok, nt, s') \<Longrightarrow> m_signalSize s' = m_signalSize s"
  by (auto simp: Stream_Put_def Let_def split: if_splits Option.bind_splits)

lemma wait_for_room:
  assumes i: "stream_inv s" and r: "length (stream_cont s) + length bs \<le> stream_cap s"
  obtains s' where "wait_for bs s = Some (unat (m_signalSize s) \<le> length (stream_cont s) + length bs, s')"
    "stream_inv s'" "stream_cap s' = stream_cap s" "stream_cont s' = stream_cont s @ bs"
proof -
  obtain s' where s': "stream_put bs s = Some (True, s')" "stream_inv s'" "stream_cap s' = stream_cap s"
    "stream_cont s' = stream_cont s @ bs" using ring.put_room [OF i r] by blast
  have "m_signalSize s' = m_signalSize s"
    using s'(1) Stream_Put_signal by (auto simp: stream_put_def split: if_splits)
  then show ?thesis using that s' signalled_cont [OF s'(2)] by (simp add: wait_for_def arrive_def)
qed

lemma Stream_Get_data:
  assumes i: "stream_inv s" and n: "unat n \<le> length (stream_cont s)"
  obtains s' where "Stream_Get n s = Some (True, take (unat n) (stream_cont s), s')" "stream_inv s'"
    "stream_cap s' = stream_cap s" "stream_cont s' = drop (unat n) (stream_cont s)"
proof -
  have "unat n < 2 ^ 32" using unat_u32_less [of n] by simp
  then show ?thesis using ring.get_data [OF i n] that by (auto simp: stream_get_def)
qed

section \<open>Frames arrive as they were sent\<close>

lemma frame_pad_nth: "i < length bs \<Longrightarrow> length bs \<le> 1024 \<Longrightarrow> frame_pad bs ! i = bs ! i"
  by (simp add: frame_pad_def nth_append)

lemma frame_pad_take: "n \<le> length bs \<Longrightarrow> length bs \<le> 1024 \<Longrightarrow> take n (frame_pad bs) = take n bs"
  by (simp add: frame_pad_def min_def)

lemma buffer_ok_frame:
  assumes "frame_valid f"
  shows "buffer_ok (frame_pad f)"
proof -
  have l: "unat (f ! 1) + 2 = length f" "3 \<le> length f" using assms by (simp_all add: frame_valid_def)
  have b: "length f \<le> 1024" using l(1) unat_u8_less [of "f ! 1"] by linarith
  have "take (unat (f ! 1)) (drop 1 (frame_pad f)) = drop 1 (take (length f - 1) (frame_pad f))"
    using l by (simp add: drop_take flip: l(1))
  also have "\<dots> = drop 1 (butlast f)" using frame_pad_take [of "length f - 1" f] b by (simp add: butlast_conv_take)
  finally have "xor_sum 0xff (take (unat (f ! 1)) (drop 1 (frame_pad f))) = last f"
    using assms by (simp add: frame_valid_def)
  moreover have "frame_pad f ! (unat (f ! 1) + 1) = last f"
  proof -
    have "unat (f ! 1) + 1 = length f - 1" "f \<noteq> []" using l by auto
    then show ?thesis using frame_pad_nth [of "length f - 1" f] b by (simp add: last_conv_nth)
  qed
  ultimately show ?thesis using frame_pad_nth [of 1 f] l(2) b by (simp add: buffer_ok_def)
qed

text \<open>(C4) The receiver reads exactly one frame, whatever pieces it arrives in.  If the bytes in the buffer, followed
  by what arrives during the two waits, start with a valid frame of which the start byte is there at
  first and the length byte by the end of the first wait, the frame is read as it is, passes the check
  of the sum, and the bytes after it stay in the buffer for the next call.\<close>

theorem read_port_frame:
  assumes i: "stream_inv s" and f: "frame_valid f"
    and bytes: "stream_cont s @ more1 @ more2 = f @ rest" and room: "length (f @ rest) \<le> stream_cap s"
    and first: "stream_cont s \<noteq> []" and second: "2 \<le> length (stream_cont s @ more1)"
  shows "\<exists>s'. read_port more1 more2 s = Some (Frame_read (frame_pad f), s') \<and> stream_cont s' = rest \<and>
    stream_inv s' \<and> buffer_ok (frame_pad f)"
proof -
  have l: "unat (f ! 1) + 2 = length f" "3 \<le> length f" "f ! 0 = SOF" using f by (simp_all add: frame_valid_def)
  have tot: "length (stream_cont s) + length more1 + length more2 = length f + length rest"
    using arg_cong [OF bytes, of length] by simp
  have nth: "(stream_cont s @ more1 @ more2) ! 0 = SOF" "(stream_cont s @ more1 @ more2) ! 1 = f ! 1"
    using bytes l by (auto simp: nth_append)
  obtain s1 where s1: "Stream_Get 1 s = Some (True, take 1 (stream_cont s), s1)" "stream_inv s1"
    "stream_cap s1 = stream_cap s" "stream_cont s1 = drop 1 (stream_cont s)"
    using Stream_Get_data [OF i, of 1] first by (auto simp: Suc_leI)
  have c0: "take 1 (stream_cont s) ! 0 = SOF" using nth(1) first by (simp add: nth_append)
  obtain s2 where s2: "wait_for more1 (set_threshold 1 s1) = Some (True, s2)" "stream_inv s2"
    "stream_cap s2 = stream_cap s" "stream_cont s2 = drop 1 (stream_cont s) @ more1"
  proof -
    have r: "length (stream_cont (set_threshold 1 s1)) + length more1 \<le> stream_cap (set_threshold 1 s1)"
      using s1 tot room by simp
    have "1 \<le> length (stream_cont s1) + length more1" using s1(4) second by simp
    then show ?thesis using wait_for_room [OF _ r] s1 that by auto
  qed
  obtain s3 where s3: "Stream_Get 1 s2 = Some (True, take 1 (stream_cont s2), s3)" "stream_inv s3"
    "stream_cap s3 = stream_cap s" "stream_cont s3 = drop 2 (stream_cont s @ more1)"
  proof -
    have d: "drop 1 (stream_cont s2) = drop 2 (stream_cont s @ more1)"
      using first s2(4) by (cases "stream_cont s") auto
    have r: "unat (1 :: uint32) \<le> length (stream_cont s2)" using s2(4) second by simp
    show ?thesis
      by (rule Stream_Get_data [OF s2(2) r], rule that) (use s2(3) d in simp_all)
  qed
  have c1: "take 1 (stream_cont s2) ! 0 = f ! 1"
  proof -
    have "stream_cont s2 \<noteq> []" using s2(4) second by auto
    then show ?thesis using nth(2) s2(4) first by (cases "stream_cont s") (auto simp: nth_append split: if_splits)
  qed
  obtain s4 where s4: "wait_for more2 (set_threshold (ucast (f ! 1)) s3) = Some (True, s4)" "stream_inv s4"
    "stream_cap s4 = stream_cap s" "stream_cont s4 = drop 2 (stream_cont s @ more1) @ more2"
  proof -
    have r: "length (stream_cont (set_threshold (ucast (f ! 1)) s3)) + length more2 \<le>
      stream_cap (set_threshold (ucast (f ! 1)) s3)" using s3 tot room by simp
    have "unat (f ! 1) \<le> length (stream_cont s3) + length more2" using s3(4) second tot l(1) by simp
    then show ?thesis using wait_for_room [OF _ r] s3 that by auto
  qed
  have c4: "stream_cont s4 = drop 2 (f @ rest)"
  proof -
    have "drop 2 ((stream_cont s @ more1) @ more2) = drop 2 (stream_cont s @ more1) @ more2" using second by simp
    then show ?thesis using s4(4) bytes by (simp only: append_assoc)
  qed
  obtain s5 where s5: "Stream_Get (ucast (f ! 1)) s4 = Some (True, drop 2 f, s5)" "stream_inv s5" "stream_cont s5 = rest"
    using Stream_Get_data [OF s4(2), of "ucast (f ! 1)"] c4 l by (auto simp flip: l(1))
  have "[SOF, f ! 1] @ drop 2 f = f"
    using l(2,3) by (cases f; cases "tl f") auto
  then have "read_port more1 more2 s = Some (Frame_read (frame_pad f), set_threshold 1 s5)"
    using c0 c1 s1(1) s2(1) s3(1) s4(1) s5(1) by (simp add: read_port_def Let_def)
  then show ?thesis using s5 buffer_ok_frame [OF f] by simp
qed

theorem read_port_frame_witness:
  "\<exists>s s'. read_port [4, 1, 2, 3] [0xfb, 9] s = Some (Frame_read (frame_pad [1, 4, 1, 2, 3, 0xfb]), s') \<and> stream_cont s' = [9]"
proof -
  obtain s where s: "stream_put [1] (Stream_new 100) = Some (True, s)" "stream_inv s" "stream_cap s = 100" "stream_cont s = [1]"
  proof -
    have "stream_inv (Stream_new 100)" "stream_cont (Stream_new 100) = []" "stream_cap (Stream_new 100) = 100"
      by (simp_all add: stream_inv_new stream_cont_new) (simp add: stream_cap_def Stream_new_def)
    then show ?thesis using ring.put_room [of "Stream_new 100" "[1]"] that by auto
  qed
  have "frame_valid [1, 4, 1, 2, 3, 0xfb]" by (simp add: frame_valid_def frame_simps)
  then show ?thesis using read_port_frame [OF s(2), of "[1, 4, 1, 2, 3, 0xfb]" "[4, 1, 2, 3]" "[0xfb, 9]" "[9]"] s by auto
qed

end
