(* ===== verification/Receive_Path.thy ===== *)
theory Receive_Path
  imports Send_Engine Serial_Frames
begin

text \<open>
  The receiving side of \<open>cpp/src/Driver.cpp\<close>: \<open>ReadMsg\<close> once it has read something, the start of
  \<open>ProcessMsg\<close>, which handles the secured frames, its end, which decides whether the current transaction
  is over, and the replies to \<open>SEND_DATA\<close>; each keeps the driver well formed.
\<close>

section \<open>Bytes of a received frame\<close>

text \<open>\<open>buf\<close> is the buffer of \<open>ReadMsg\<close>, 1024 bytes; \<open>_data\<close> points to its third byte.\<close>

definition dat :: "bytes \<Rightarrow> nat \<Rightarrow> uint8" where
  "dat buf i = buf ! (i + 2)"

definition message_node :: "driver \<Rightarrow> uint8" where
  "message_node d = (case d_currentMsg d of None \<Rightarrow> 0 | Some m \<Rightarrow> m_targetNodeId m)"

section \<open>Frames and control bytes\<close>

text \<open>
  What \<open>ReadMsg\<close> does with what it has read; the result tells whether \<open>ProcessMsg\<close> is to follow.  The
  purge of the receive buffer is told by the middle component.  \<open>NAK\<close> without a current message is a
  null pointer.
\<close>

definition resend_later :: "msg \<Rightarrow> msg" where
  "resend_later m = (SetMaxSendAttempts (m_maxSendAttempts m + 1) m)\<lparr>m_resendDuetoCANorNAK := True\<rparr>"

definition control_byte :: "uint8 \<Rightarrow> driver \<Rightarrow> (bool \<times> driver) option" where
  "control_byte c d =
     (if c = CAN then Some (False, (count (\<lambda>s. s\<lparr>s_CANCnt := s_CANCnt s + 1\<rparr>) d)
           \<lparr>d_currentMsg := map_option resend_later (d_currentMsg d)\<rparr>)
      else if c = NAK then (case d_currentMsg d of None \<Rightarrow> None
        | Some m \<Rightarrow> Some (False, (count (\<lambda>s. s\<lparr>s_NAKCnt := s_NAKCnt s + 1\<rparr>) d)\<lparr>d_currentMsg := Some (resend_later m)\<rparr>))
      else if c = ACK then
        (let d1 = (count (\<lambda>s. s\<lparr>s_ACKCnt := s_ACKCnt s + 1\<rparr>) d)\<lparr>d_waitingForAck := False\<rparr>
         in Some (False, if d_currentMsg d \<noteq> None \<and> d_expectedCallbackId d = 0 \<and> d_expectedReply d = 0
                         then RemoveCurrentMsg d1 else d1))
      else Some (True, write_out [NAK] (count (\<lambda>s. s\<lparr>s_OOFCnt := s_OOFCnt s + 1\<rparr>) d)))"

definition start_of_frame :: "driver \<Rightarrow> driver" where
  "start_of_frame d = (let d1 = count (\<lambda>s. s\<lparr>s_SOFCnt := s_SOFCnt s + 1\<rparr>) d
     in if d_waitingForAck d then count (\<lambda>s. s\<lparr>s_ACKWaiting := s_ACKWaiting s + 1\<rparr>) d1 else d1)"

definition frame_read :: "bytes \<Rightarrow> driver \<Rightarrow> bool \<times> bool \<times> driver" where
  "frame_read buf d =
     (if buffer_ok buf then (True, False, count (\<lambda>s. s\<lparr>s_readCnt := s_readCnt s + 1\<rparr>) (write_out [ACK] d))
      else (False, True, write_out [NAK] (count (\<lambda>s. s\<lparr>s_badChecksum := s_badChecksum s + 1\<rparr>) d)))"

text \<open>The result: the frame to process, whether the buffer is purged, the driver.\<close>

definition ReadMsg :: "received \<Rightarrow> driver \<Rightarrow> (bytes option \<times> bool \<times> driver) option" where
  "ReadMsg r d = (case r of
     Nothing_read \<Rightarrow> Some (None, False, d)
   | Read_aborted \<Rightarrow> Some (None, False, count (\<lambda>s. s\<lparr>s_readAborts := s_readAborts s + 1\<rparr>) (start_of_frame d))
   | Frame_read buf \<Rightarrow> (let (ok, purge, d1) = frame_read buf (start_of_frame d) in Some (if ok then Some buf else None, purge, d1))
   | Control_read c \<Rightarrow> map_option (Pair None) (control_byte c d))"

section \<open>Secured messages\<close>

abbreviation (input) SecurityCmd_MessageEncapNonceGet :: uint8 where "SecurityCmd_MessageEncapNonceGet \<equiv> 0xc1"

text \<open>
  The start of \<open>ProcessMsg\<close>.  Inner result: \<open>None\<close> when the message is dealt with, otherwise the buffer
  and whether it was encrypted.
\<close>

definition nonce_received :: "io_env \<Rightarrow> bytes \<Rightarrow> driver \<Rightarrow> driver option" where
  "nonce_received io buf d = (case d_currentMsg d of None \<Rightarrow> Some d
     | Some m \<Rightarrow> do {
         (cb, m1) \<leftarrow> setNonce (d_callbackId d) (take 8 (drop 9 buf)) m;
         SendEncryptedMessage io (d\<lparr>d_callbackId := cb, d_currentMsg := Some m1\<rparr>)
       })"

definition nonce_wanted :: "io_env \<Rightarrow> uint8 \<Rightarrow> driver \<Rightarrow> driver option" where
  "nonce_wanted io nid d = (case d_nodes d nid of None \<Rightarrow> Some d | Some n \<Rightarrow> report_nonce io nid n d)"

text \<open>The index of the nonce id is \<open>_data[4] - 4\<close> from \<open>_data\<close>, two before that from \<open>buf\<close>.\<close>

definition packet_received :: "io_env \<Rightarrow> bytes \<Rightarrow> driver \<Rightarrow> ((bytes \<times> bool) option \<times> driver) option" where
  "packet_received io buf d0 =
     (let d = d0\<lparr>d_nonceReportSent := 0, d_nonceReportSentAttempt := 0\<rparr>;
          nid = dat buf 3; len = dat buf 4; again = (dat buf 6 = SecurityCmd_MessageEncapNonceGet)
      in case d_nodes d nid of None \<Rightarrow> Some (None, d)
      | Some n \<Rightarrow>
          if unat len < 2 then None
          else case GetNonceKey (ucast (buf ! (unat len - 2))) (n_nonces n) of
            None \<Rightarrow> Some (None, d)
          | Some nonce \<Rightarrow> do {
              (ok, plain) \<leftarrow> DecryptBuffer (io_enc io) (io_auth io) (drop 7 buf) (len + 1) nid (d_controllerNodeId d) nonce;
              d1 \<leftarrow> (if again then nonce_wanted io nid d else Some d);
              if ok then do {
                let len1 = len - 20;
                b1 \<leftarrow> poke buf 6 len1;
                b2 \<leftarrow> poke_block b1 7 (take (unat len1) (drop 1 plain));
                Some (Some (b2, True), d1)
              }
              else Some (None, RemoveCurrentMsg (d1\<lparr>d_expectedReply := 0, d_expectedNodeId := 0\<rparr>))
            })"

definition secure_message :: "io_env \<Rightarrow> bytes \<Rightarrow> driver \<Rightarrow> ((bytes \<times> bool) option \<times> driver) option" where
  "secure_message io buf d =
     (if dat buf 0 = REQUEST \<and> dat buf 1 = FUNC_ID_APPLICATION_COMMAND_HANDLER \<and> dat buf 5 = CC_SECURITY then
        (if dat buf 6 = SecurityCmd_NonceReport then map_option (Pair None) (nonce_received io buf d)
         else if dat buf 6 = SecurityCmd_NonceGet then map_option (Pair None) (nonce_wanted io (dat buf 3) d)
         else if dat buf 6 = SecurityCmd_MessageEncap \<or> dat buf 6 = SecurityCmd_MessageEncapNonceGet
         then packet_received io buf d
         else Some (Some (buf, False), d))
      else Some (Some (buf, False), d))"

section \<open>The end of a transaction\<close>

definition IsExpectedReply :: "uint8 \<Rightarrow> driver \<Rightarrow> bool" where
  "IsExpectedReply nid d \<longleftrightarrow> d_expectedNodeId d = 255 \<or> nid = 0 \<or>
     d_expectedReply d \<in> {0x41, 0x60, 0x80, FUNC_ID_ZW_ASSIGN_RETURN_ROUTE, FUNC_ID_ZW_DELETE_RETURN_ROUTE,
       FUNC_ID_ZW_SEND_DATA, FUNC_ID_ZW_SEND_NODE_INFORMATION, FUNC_ID_ZW_REQUEST_NODE_NEIGHBOR_UPDATE,
       0x52, 0x54, FUNC_ID_ZW_REQUEST_NODE_NEIGHBOR_UPDATE_OPTIONS} \<or>
     d_expectedNodeId d = nid"

definition callback_matched :: "bytes \<Rightarrow> driver \<Rightarrow> driver option" where
  "callback_matched buf d =
     (if d_expectedCallbackId d = 0 then Some d
      else if d_expectedCallbackId d = dat buf 2 then Some (d\<lparr>d_expectedCallbackId := 0\<rparr>)
      else if dat buf 2 = 2 \<or> dat buf 2 = 1 then None
      else Some d)"

definition reply_matched :: "bytes \<Rightarrow> driver \<Rightarrow> driver" where
  "reply_matched buf d =
     (if d_expectedReply d \<noteq> 0 \<and> d_expectedReply d = dat buf 1 then
        (if d_expectedCommandClassId d \<noteq> 0 \<and> d_expectedReply d = FUNC_ID_APPLICATION_COMMAND_HANDLER then
           (if d_expectedCallbackId d = 0 \<and> d_expectedCommandClassId d = dat buf 5 \<and> d_expectedNodeId d = dat buf 3
            then d\<lparr>d_waitingForAck := False, d_expectedReply := 0, d_expectedCommandClassId := 0, d_expectedNodeId := 0\<rparr>
            else d)
         else if IsExpectedReply (dat buf 3) d then d\<lparr>d_expectedReply := 0, d_expectedNodeId := 0\<rparr> else d)
      else d)"

text \<open>The generic handling at the end of \<open>ProcessMsg\<close>; \<open>notifying\<close> is the option \<open>NotifyTransactions\<close>.\<close>

definition end_of_message :: "bool \<Rightarrow> bytes \<Rightarrow> driver \<Rightarrow> driver" where
  "end_of_message notifying buf d =
     (if d_expectedCallbackId d \<noteq> 0 \<or> d_expectedReply d \<noteq> 0 then
        (case callback_matched buf d of None \<Rightarrow> d
         | Some d1 \<Rightarrow> let d2 = reply_matched buf d1 in
             if d_expectedCallbackId d2 = 0 \<and> d_expectedReply d2 = 0
             then RemoveCurrentMsg (if notifying then notify (Note_MsgComplete (message_node d2)) d2 else d2)
             else d2)
      else d)"

section \<open>Send data replies\<close>

definition HandleSendDataResponse :: "bytes \<Rightarrow> driver \<Rightarrow> driver" where
  "HandleSendDataResponse buf d =
     (if dat buf 2 \<noteq> 0 then d
      else map_node (\<lambda>n. n\<lparr>n_sentFailed := n_sentFailed n + 1\<rparr>) (message_node d)
             (count (\<lambda>s. s\<lparr>s_nondelivery := s_nondelivery s + 1\<rparr>) d))"

text \<open>The round trip time \<open>rtt\<close> is read from a clock.\<close>

definition request_time :: "uint32 \<Rightarrow> node \<Rightarrow> node" where
  "request_time rtt n = n\<lparr>n_lastRequestRTT := rtt,
     n_averageRequestRTT := (if n_averageRequestRTT n \<noteq> 0 then drop_bit 1 (n_averageRequestRTT n + rtt) else rtt)\<rparr>"

definition tx_report :: "bytes \<Rightarrow> node \<Rightarrow> node" where
  "tx_report buf n = n\<lparr>n_txStatus := \<lparr> t_supported = True,
     t_time = (ucast (dat buf 5) + push_bit 8 (ucast (dat buf 4))) * 10, t_hops = dat buf 6,
     t_rssi = map (dat buf) [7, 8, 9, 10, 11], t_ackChannel = dat buf 12, t_lastTxChannel = dat buf 13,
     t_routeScheme = dat buf 14, t_routeUsed = map (dat buf) [15, 16, 17, 18], t_routeSpeed = dat buf 19,
     t_routeTries = dat buf 20, t_lastFailedLinkFrom = dat buf 21, t_lastFailedLinkTo = dat buf 22 \<rparr>\<rparr>"

text \<open>\<open>node->QueryStageRetry(node->GetCurrentQueryStage(), 3)\<close> on the driver.\<close>

definition retry_stage :: "query_stage \<Rightarrow> uint8 \<Rightarrow> uint8 \<Rightarrow> driver \<Rightarrow> driver option" where
  "retry_stage st maxAttempts nid d = do {
     n \<leftarrow> d_nodes d nid;
     (q, marked) \<leftarrow> QueryStageRetry st maxAttempts (n_query n);
     let d1 = put_node nid (n\<lparr>n_query := q\<rparr>) d;
     Some (case marked of None \<Rightarrow> d1 | Some s \<Rightarrow> RetryQueryStageComplete nid s d1)
   }"

definition is_noop :: "driver \<Rightarrow> bool" where
  "is_noop d \<longleftrightarrow> (\<exists>m \<in> set_option (d_currentMsg d). IsNoOperation m)"

definition send_failed :: "node_env \<Rightarrow> uint8 \<Rightarrow> uint8 \<Rightarrow> bool \<Rightarrow> driver \<Rightarrow> driver option" where
  "send_failed env err nid replication d = do {
     (moved, d1) \<leftarrow> HandleErrorResponse env err nid (\<not> replication) d;
     if \<not> moved \<and> is_noop d1 then
       (case d_nodes d1 nid of None \<Rightarrow> Some d1
        | Some n \<Rightarrow> if m_queryStage (n_query n) \<in> {St_Probe, St_CacheLoad}
                    then retry_stage (m_queryStage (n_query n)) 3 nid d1 else Some d1)
     else Some d1
   }"

definition send_done :: "node_env \<Rightarrow> uint8 \<Rightarrow> driver \<Rightarrow> driver option" where
  "send_done env nid d = (case d_nodes d nid of None \<Rightarrow> Some d
     | Some n \<Rightarrow> do {
         d1 \<leftarrow> (if (\<exists>m \<in> set_option (d_currentMsg d). IsWakeUpNoMoreInformationCommand m) \<and> n_wakeUp n \<noteq> None
               then SetAwake env False nid d else Some d);
         n1 \<leftarrow> d_nodes d1 nid;
         if \<not> m_nodeAlive (n_query n1) then SetNodeAlive env True nid d1 else Some d1
       })"

definition HandleSendDataRequest ::
  "node_env \<Rightarrow> uint32 \<Rightarrow> bytes \<Rightarrow> uint8 \<Rightarrow> bool \<Rightarrow> driver \<Rightarrow> driver option" where
  "HandleSendDataRequest env rtt buf len replication d =
     (let nid = message_node d in
      if dat buf 2 > 10 \<and> dat buf 2 \<noteq> d_expectedCallbackId d
      then Some (count (\<lambda>s. s\<lparr>s_callbacks := s_callbacks s + 1\<rparr>) d)
      else
        let d1 = map_node (\<lambda>n. if dat buf 3 \<noteq> TRANSMIT_COMPLETE_OK then n\<lparr>n_sentFailed := n_sentFailed n + 1\<rparr>
                               else request_time rtt n) nid d;
            d2 = (if len \<ge> 23 then map_node (tx_report buf) nid d1 else d1);
            d3 = (if is_noop d2 then notify (Note_NoOperation nid) d2 else d2)
        in if dat buf 3 \<noteq> TRANSMIT_COMPLETE_OK then send_failed env (dat buf 3) nid replication d3
           else send_done env nid d3)"

section \<open>Reading keeps the driver well formed\<close>

lemma sendable_resend_later: "sendable m \<Longrightarrow> sendable (resend_later m)"
  by (simp add: sendable_def resend_later_def SetMaxSendAttempts_def)

lemma good_current_map:
  assumes g: "good sh d" and f: "\<And>m. sendable m \<Longrightarrow> sendable (f m)"
  shows "good sh (d\<lparr>d_currentMsg := map_option f (d_currentMsg d)\<rparr>)"
  by (rule good_frame [OF g]) (use good_current [OF g] f in auto)

lemma good_waiting: "good sh d \<Longrightarrow> good sh (d\<lparr>d_waitingForAck := b\<rparr>)"
  by (rule good_frame) (use good_current in auto)

lemma control_byte_good:
  assumes g: "good sh d" and r: "control_byte c d = Some (p, d')"
  shows "good sh d'"
proof -
  have C: "good sh ((count f d)\<lparr>d_currentMsg := map_option resend_later (d_currentMsg d)\<rparr>)" for f
    using good_current_map [OF good_simps(2) [OF g, of f], of resend_later] sendable_resend_later
    by (simp add: count_def)
  have N: "good sh ((count f d)\<lparr>d_currentMsg := Some (resend_later m)\<rparr>)" if "d_currentMsg d = Some m" for f m
    using C [of f] that by simp
  have A: "good sh ((count f d)\<lparr>d_waitingForAck := False\<rparr>)" for f
    by (rule good_waiting [OF good_simps(2) [OF g]])
  have "good sh (RemoveCurrentMsg ((count f d)\<lparr>d_waitingForAck := False\<rparr>))" for f
    by (rule good_simps(5) [OF A])
  then show ?thesis
    using r C N A good_simps(3) [OF good_simps(2) [OF g]]
    by (auto simp: control_byte_def Let_def split: if_splits option.splits)
qed

lemma start_of_frame_good: "good sh d \<Longrightarrow> good sh (start_of_frame d)"
  using good_simps(2) by (simp add: start_of_frame_def Let_def)

lemma frame_read_good: "good sh d \<Longrightarrow> frame_read buf d = (ok, p, d') \<Longrightarrow> good sh d'"
  using good_simps(2,3) by (auto simp: frame_read_def split: if_splits)

lemma ReadMsg_good:
  assumes g: "good sh d" and r: "ReadMsg r d = Some (f, p, d')"
  shows "good sh d'"
  using r start_of_frame_good [OF g] good_simps(2) [OF start_of_frame_good [OF g]] g
    frame_read_good [OF start_of_frame_good [OF g]] control_byte_good [OF g]
  by (auto simp: ReadMsg_def split: received.splits prod.splits if_splits)

section \<open>Secured messages keep the driver well formed\<close>

lemma setNonce_final:
  assumes "setNonce s nonce m = Some (cb, m1)" and "sendable m"
  shows "sendable (clearNonce m1)"
  using assms
  by (auto simp: setNonce_def UpdateCallbackId_def sendable_def clearNonce_def poke_def Let_def
      split: Option.bind_splits if_splits prod.splits)

lemma SendEncryptedMessage_cleared:
  assumes g: "good sh d" and s: "setNonce cb0 nonce m = Some (cb, m1)" and m: "d_currentMsg d = Some m"
    and r: "SendEncryptedMessage io (d\<lparr>d_callbackId := cb, d_currentMsg := Some m1\<rparr>) = Some d'"
  shows "good sh d'"
proof -
  have "sendable (clearNonce m1)" by (rule setNonce_final [OF s good_current [OF g m]])
  then show ?thesis
    using r by (auto simp: SendEncryptedMessage_def write_out_def Let_def split: Option.bind_splits intro!: good_frame [OF g])
qed

lemma nonce_received_good: "good sh d \<Longrightarrow> nonce_received io buf d = Some d' \<Longrightarrow> good sh d'"
  using SendEncryptedMessage_cleared [of sh d]
  by (auto simp: nonce_received_def split: option.splits Option.bind_splits)

lemma nonce_wanted_good:
  assumes io: "io_ok io" and g: "good sh d"
  obtains d' where "nonce_wanted io nid d = Some d'" "good sh d'" "d_currentMsg d' = d_currentMsg d"
proof (cases "d_nodes d nid")
  case (Some n)
  then show ?thesis using report_nonce_good [OF io g Some] that by (auto simp: nonce_wanted_def)
qed (use that g in \<open>simp add: nonce_wanted_def\<close>)

lemma good_forget: "good sh d \<Longrightarrow> good sh (d\<lparr>d_nonceReportSent := 0, d_nonceReportSentAttempt := 0\<rparr>)"
  by (rule good_frame) (use good_current in auto)

lemma packet_received_good:
  assumes io: "io_ok io" and g: "good sh d" and r: "packet_received io buf d = Some (x, d')"
  shows "good sh d'"
proof -
  define e where "e = d\<lparr>d_nonceReportSent := 0, d_nonceReportSentAttempt := 0\<rparr>"
  have ge: "good sh e" unfolding e_def by (rule good_forget [OF g])
  obtain d1 where d1: "nonce_wanted io (dat buf 3) e = Some d1" "good sh d1"
    using nonce_wanted_good [OF io ge] by blast
  have "good sh (RemoveCurrentMsg (c\<lparr>d_expectedReply := 0, d_expectedNodeId := 0\<rparr>))" if "good sh c" for c
    by (rule good_simps(5), rule good_frame [OF that]) (use good_current [OF that] in auto)
  then show ?thesis
    using r ge d1 by (auto simp: packet_received_def e_def [symmetric] Let_def
        split: option.splits Option.bind_splits if_splits prod.splits)
qed

lemma secure_message_good:
  assumes io: "io_ok io" and g: "good sh d" and r: "secure_message io buf d = Some (x, d')"
  shows "good sh d'"
  using r nonce_received_good [OF g] nonce_wanted_good [OF io g, of "dat buf 3"] packet_received_good [OF io g] g
  by (auto simp: secure_message_def split: if_splits)

section \<open>The end of a transaction keeps the driver well formed\<close>

lemma callback_matched_good: "good sh d \<Longrightarrow> callback_matched buf d = Some d' \<Longrightarrow> good sh d'"
  by (rule good_frame [of sh d])
    (use good_current [of sh d] in \<open>auto simp: callback_matched_def split: if_splits\<close>)

lemma reply_matched_good: "good sh d \<Longrightarrow> good sh (reply_matched buf d)"
  by (rule good_frame [of sh d])
    (use good_current [of sh d] in \<open>auto simp: reply_matched_def split: if_splits\<close>)

lemma end_of_message_good:
  assumes "good sh d"
  shows "good sh (end_of_message b buf d)"
  using assms callback_matched_good [OF assms] reply_matched_good good_simps(1,5)
  by (simp add: end_of_message_def Let_def split: option.split)

section \<open>Send data replies keep the driver well formed\<close>

lemma HandleSendDataResponse_good: "good sh d \<Longrightarrow> good sh (HandleSendDataResponse buf d)"
  using good_simps(2) by (auto simp: HandleSendDataResponse_def intro!: map_node_good)

lemma mark_retry_items: "it \<in> set (mark_retry nid s xs) \<Longrightarrow> it \<in> set xs \<or> item_ok it"
proof (induction xs)
  case (Cons x xs)
  then show ?case by (cases x) (auto simp: item_ok_def split: if_splits)
qed simp

lemma RetryQueryStageComplete_good:
  assumes g: "good sh d"
  shows "good sh (RetryQueryStageComplete nid s d)"
proof -
  let ?d = "RetryQueryStageComplete nid s d"
  have q: "it \<in> set (d_queue d q) \<or> item_ok it" if "it \<in> set (d_queue ?d q)" for q it
    using that mark_retry_items [of it nid s "d_queue d MsgQueue_Query"]
    by (cases "q = MsgQueue_Query") (simp_all add: RetryQueryStageComplete_def)
  have f: "d_nodes ?d = d_nodes d" "d_currentMsg ?d = d_currentMsg d" by (simp_all add: RetryQueryStageComplete_def)
  have "tame sh ?d" by (rule tame_queue [OF _ f]) (use g q in \<open>simp_all add: good_def\<close>)
  then show ?thesis using g RetryQueryStageComplete_inv [of d nid s] by (simp add: good_def)
qed

lemma retry_stage_good:
  assumes g: "good sh d" and r: "retry_stage st k nid d = Some d'"
  shows "good sh d'"
proof -
  obtain n q s where n: "d_nodes d nid = Some n" "QueryStageRetry st k (n_query n) = Some (q, s)"
    and d': "d' = (case s of None \<Rightarrow> put_node nid (n\<lparr>n_query := q\<rparr>) d
      | Some s \<Rightarrow> RetryQueryStageComplete nid s (put_node nid (n\<lparr>n_query := q\<rparr>) d))"
    using r by (auto simp: retry_stage_def Let_def split: Option.bind_splits)
  have "good sh (put_node nid (n\<lparr>n_query := q\<rparr>) d)" by (rule put_node_good [OF g n(1)]) simp_all
  then show ?thesis using d' RetryQueryStageComplete_good by (simp split: option.split)
qed

lemma send_failed_good:
  assumes e: "env_ok env" and g: "good sh d" and r: "send_failed env err nid rep d = Some d'"
  shows "good sh d'"
proof -
  obtain m d1 where "HandleErrorResponse env err nid (\<not> rep) d = Some (m, d1)"
    and d': "(if \<not> m \<and> is_noop d1 then
       (case d_nodes d1 nid of None \<Rightarrow> Some d1
        | Some n \<Rightarrow> if m_queryStage (n_query n) \<in> {St_Probe, St_CacheLoad}
                    then retry_stage (m_queryStage (n_query n)) 3 nid d1 else Some d1)
     else Some d1) = Some d'"
    using r by (auto simp: send_failed_def split: Option.bind_splits)
  then have "good sh d1" using HandleErrorResponse_keeps [OF _ g e] by blast
  then show ?thesis using d' retry_stage_good [of sh d1] by (auto split: if_splits option.splits)
qed

lemma send_done_good:
  assumes e: "env_ok env" and g: "good sh d"
  shows "\<exists>d'. send_done env nid d = Some d' \<and> good sh d'"
proof (cases "d_nodes d nid")
  case (Some n)
  have s: "sh nid = Some (n_wakeUp n \<noteq> None)" by (rule good_shape [OF g Some])
  obtain d1 where d1: "(if (\<exists>m \<in> set_option (d_currentMsg d). IsWakeUpNoMoreInformationCommand m) \<and> n_wakeUp n \<noteq> None
      then SetAwake env False nid d else Some d) = Some d1" "good sh d1"
    by (cases "(\<exists>m \<in> set_option (d_currentMsg d). IsWakeUpNoMoreInformationCommand m) \<and> n_wakeUp n \<noteq> None")
      (use SetAwake_good [OF g e, of nid False] s g that in \<open>simp_all only: if_True if_False simp_thms, auto\<close>)
  obtain n1 where n1: "d_nodes d1 nid = Some n1" using good_node [OF d1(2) s] by blast
  show ?thesis
    using d1(2) SetNodeAlive_good [OF d1(2) e n1, of True] Some n1
    unfolding send_done_def Some option.case d1(1) by simp
qed (use g in \<open>simp add: send_done_def\<close>)

lemma HandleSendDataRequest_good:
  assumes e: "env_ok env" and g: "good sh d" and r: "HandleSendDataRequest env rtt buf len rep d = Some d'"
  shows "good sh d'"
proof -
  define nid where "nid = message_node d"
  define d1 where "d1 = map_node (\<lambda>n. if dat buf 3 \<noteq> TRANSMIT_COMPLETE_OK then n\<lparr>n_sentFailed := n_sentFailed n + 1\<rparr>
      else request_time rtt n) nid d"
  define d2 where "d2 = (if len \<ge> 23 then map_node (tx_report buf) nid d1 else d1)"
  define d3 where "d3 = (if is_noop d2 then notify (Note_NoOperation nid) d2 else d2)"
  have "good sh d1" unfolding d1_def by (rule map_node_good [OF g]) (simp_all add: request_time_def)
  then have "good sh d2" by (auto simp: d2_def tx_report_def intro!: map_node_good)
  then have g3: "good sh d3" by (simp add: d3_def)
  have "HandleSendDataRequest env rtt buf len rep d =
     (if dat buf 2 > 10 \<and> dat buf 2 \<noteq> d_expectedCallbackId d
      then Some (count (\<lambda>s. s\<lparr>s_callbacks := s_callbacks s + 1\<rparr>) d)
      else if dat buf 3 \<noteq> TRANSMIT_COMPLETE_OK then send_failed env (dat buf 3) nid rep d3 else send_done env nid d3)"
    by (simp only: HandleSendDataRequest_def Let_def nid_def d1_def d2_def d3_def)
  then show ?thesis
    using r good_simps(2) [OF g] send_failed_good [OF e g3] send_done_good [OF e g3, of nid] by (auto split: if_splits)
qed

end
