(* ===== verification/Send_Laws.thy ===== *)
theory Send_Laws
  imports Send_Engine
begin

text \<open>
  Properties of the sending side: the thread is never stuck, deleting a button blocks the driver, and a
  message is dropped after its attempts.
\<close>

section \<open>What the driver thread does\<close>

lemma served_event: "served d = Some q \<Longrightarrow> d_event d q"
  by (auto simp: served_def find_Some_iff)

text \<open>(C7) The driver thread never takes from an empty queue and never touches a deleted command: in a well-formed
  driver every queue the thread decides to serve yields an entry, the operation is defined whatever the
  entry is (a message, a stage completion, a controller command) and whatever the controller and the
  nodes answer, and leaves the driver well formed.\<close>

theorem WriteNextMsg_served:
  assumes "io_ok io" and "good sh d" and "served d = Some q"
  shows "\<exists>r d'. WriteNextMsg io q d = Some (r, d') \<and> good sh d'"
  using WriteNextMsg_good [OF assms(1,2) served_event [OF assms(3)]] by (auto simp: answers_def)

definition quiet_io :: io_env where
  "quiet_io = \<lparr> io_enc = (\<lambda>_. Some (replicate 16 0)), io_auth = (\<lambda>_. Some (replicate 16 0)), io_rnd = replicate 8 0,
     io_firsts = [1, 2, 3, 4, 5, 6, 7, 8], io_rest = replicate 7 0, io_writeOk = True, io_node = quiet_env \<rparr>"

lemma quiet_io_ok: "io_ok quiet_io"
  by (simp add: io_ok_def quiet_io_def quiet_env_ok)

theorem WriteNextMsg_served_witness:
  "\<exists>r d'. WriteNextMsg quiet_io MsgQueue_Controller adding_driver = Some (r, d') \<and> good (\<lambda>_. None) d'"
proof (rule WriteNextMsg_served [OF quiet_io_ok adding_driver_good])
  show "served adding_driver = Some MsgQueue_Controller"
    by (simp add: served_def listened_def adding_driver_def BeginControllerCommand_def new_cci_def Driver_new_def
        push_back_def Let_def all_queues_def)
qed

section \<open>A deleted button\<close>

text \<open>The button's command has been started, reported once and then found with nothing to do.\<close>

definition three_times :: "io_env \<Rightarrow> driver \<Rightarrow> driver option" where
  "three_times io d = do {
     (r1, d1) \<leftarrow> WriteNextMsg io MsgQueue_Controller d;
     (r2, d2) \<leftarrow> WriteNextMsg io MsgQueue_Controller d1;
     (r3, d3) \<leftarrow> WriteNextMsg io MsgQueue_Controller d2;
     Some d3
   }"

text \<open>Deleting a button blocks the driver.  Removing the button succeeds, but the command is never completed:
  the thread starts it, reports that it starts and then finds nothing to do, with the command still
  running and not done.  While a command runs the thread listens to the first three queues only, so
  from then on nothing in the wake-up, send, query and poll queues is served, whatever is put there.\<close>

theorem DeleteButton_blocks:
  assumes q: "d_queue d MsgQueue_Controller = Item_Controller a # its" and c: "d_ccis d a = Some c"
    and b: "cci_command c = ControllerCommand_DeleteButton" "cci_state c = ControllerState_Normal" "\<not> cci_done c"
    and n: "IsBridgeController d" "d_nodes d (cci_node c) = Some nd" "n_buttonMap nd (cci_arg c) = Some v"
    and idle: "\<not> d_event d MsgQueue_Command" "\<not> d_event d MsgQueue_NoOp"
  shows "\<exists>d'. three_times io d = Some d' \<and> d_currentCmd d' = Some a \<and>
    (\<exists>c'. d_ccis d' a = Some c' \<and> \<not> cci_done c') \<and>
    (\<exists>nd'. d_nodes d' (cci_node c) = Some nd' \<and> n_buttonMap nd' (cci_arg c) = None) \<and>
    (\<forall>p it. p \<notin> {MsgQueue_Command, MsgQueue_NoOp, MsgQueue_Controller} \<longrightarrow> served (push_back p it d') = None)"
proof -
  define c1 where "c1 = c\<lparr>cci_stateChanged := True, cci_state := ControllerState_Starting, cci_done := False\<rparr>"
  define nd1 where "nd1 = nd\<lparr>n_buttonMap := (n_buttonMap nd)(cci_arg c := None)\<rparr>"
  define d1 where "d1 = notify (Note_DeleteButton (cci_node c) (cci_arg c)) (put_node (cci_node c) nd1
    (notify (Note_ControllerCommand (cci_node c) ControllerCommand_DeleteButton ControllerState_Starting ControllerError_None)
      (put_cci a c1 (d\<lparr>d_currentCmd := Some a\<rparr>))))"
  have "DoControllerCommand (d\<lparr>d_currentCmd := Some a\<rparr>) = Some d1"
    using c b n
    by (simp add: DoControllerCommand_def UpdateControllerState_def start_DeleteButton_def IsBridgeController_def
        ends_command_def Let_def d1_def c1_def nd1_def put_cci_def put_node_def notify_def)
  then have s1: "WriteNextMsg io MsgQueue_Controller d = Some (True, d1)"
    using q c b by (simp add: WriteNextMsg_def next_command_def Let_def)
  have f1: "d_queue d1 = d_queue d" "d_ccis d1 a = Some c1" "d_currentCmd d1 = Some a" "d_event d1 = d_event d"
    "d_nodes d1 (cci_node c) = Some nd1"
    by (simp_all add: d1_def notify_def put_node_def put_cci_def)
  have k1: "\<not> cci_done c1" "cci_state c1 = ControllerState_Starting" "cci_stateChanged c1" using b by (simp_all add: c1_def)
  define d2 where "d2 = put_cci a (c1\<lparr>cci_stateChanged := False\<rparr>) (call_back c1 (d1\<lparr>d_currentCmd := Some a\<rparr>))"
  have s2: "WriteNextMsg io MsgQueue_Controller d1 = Some (True, d2)"
    using q f1 k1 by (simp add: WriteNextMsg_def next_command_def Let_def d2_def)
  have f2: "d_queue d2 = d_queue d" "d_ccis d2 a = Some (c1\<lparr>cci_stateChanged := False\<rparr>)" "d_event d2 = d_event d"
    "d_nodes d2 = d_nodes d1"
    using f1 by (simp_all add: d2_def put_cci_def call_back_def)
  define d3 where "d3 = d2\<lparr>d_currentCmd := Some a, d_event := (d_event d2)(MsgQueue_Controller := False)\<rparr>"
  have s3: "WriteNextMsg io MsgQueue_Controller d2 = Some (True, d3)"
    using q f2 k1 by (simp add: WriteNextMsg_def next_command_def Let_def d3_def)
  have "served (push_back p it d3) = None" if "p \<notin> {MsgQueue_Command, MsgQueue_NoOp, MsgQueue_Controller}" for p it
    using that idle f2(3) by (auto simp: served_def listened_def all_queues_def d3_def push_back_def)
  then show ?thesis
    using s1 s2 s3 f1 f2 k1 by (auto simp: three_times_def d3_def nd1_def)
qed

definition button_driver :: driver where
  "button_driver = (put_node 5 (Node_new\<lparr>n_buttonMap := [1 \<mapsto> 7]\<rparr>)
     (snd (BeginControllerCommand ControllerCommand_DeleteButton 1 7 True 5 1 (Driver_new 10))))
     \<lparr>d_info := (d_info (Driver_new 10))\<lparr>i_libraryType := 7\<rparr>\<rparr>"

theorem DeleteButton_blocks_witness:
  "\<exists>d'. three_times quiet_io button_driver = Some d' \<and> served (push_back MsgQueue_Send (Item_QueryStageComplete 5 St_None False) d') = None"
proof -
  obtain c where c: "d_ccis button_driver 0 = Some c" "cci_command c = ControllerCommand_DeleteButton"
    "cci_state c = ControllerState_Normal" "\<not> cci_done c" "cci_node c = 5" "cci_arg c = 1"
    by (simp add: button_driver_def BeginControllerCommand_def new_cci_def put_node_def push_back_def Driver_new_def Let_def)
  have "d_queue button_driver MsgQueue_Controller = [Item_Controller 0]"
    "\<not> d_event button_driver MsgQueue_Command" "\<not> d_event button_driver MsgQueue_NoOp"
    "IsBridgeController button_driver" "d_nodes button_driver 5 = Some (Node_new\<lparr>n_buttonMap := [1 \<mapsto> 7]\<rparr>)"
    by (simp_all add: button_driver_def BeginControllerCommand_def new_cci_def put_node_def push_back_def Driver_new_def
        Let_def IsBridgeController_def)
  then show ?thesis
    using DeleteButton_blocks [of button_driver 0 "[]" c "Node_new\<lparr>n_buttonMap := [1 \<mapsto> 7]\<rparr>" 7 quiet_io] c by auto
qed

section \<open>Messages are not sent forever\<close>

fun timeouts :: "io_env list \<Rightarrow> driver \<Rightarrow> driver option" where
  "timeouts [] d = Some d"
| "timeouts (io # ios) d = do { (r, d1) \<leftarrow> wait_timed_out io d; timeouts ios d1 }"

lemma map_node_frame [simp]:
  "d_out (map_node f nid d) = d_out d" "d_nonceReportSent (map_node f nid d) = d_nonceReportSent d"
  by (simp_all add: map_node_def put_node_def split: option.split)

lemma count_frame [simp]: "d_out (count f d) = d_out d"
  by (simp add: count_def)

lemma count_sent_frame [simp]:
  "d_out (count_sent nid d) = d_out d" "d_nonceReportSent (count_sent nid d) = d_nonceReportSent d"
  "d_currentMsg (count_sent nid d) = d_currentMsg d"
  by (simp_all add: count_sent_def Let_def)

lemma drop_message_frame: "drop_message d = Some d' \<Longrightarrow> d_out d' = d_out d \<and> d_currentMsg d' = None"
  by (auto simp: drop_message_def count_def RemoveCurrentMsg_def UpdateControllerState_def put_cci_def notify_def Let_def
      split: Option.bind_splits option.splits)

text \<open>One attempt, while there is no nonce to report and the port is open.\<close>

lemma WriteMsg_attempt:
  assumes io: "io_ok io" "io_writeOk io" and g: "good sh d" and m: "d_currentMsg d = Some m"
    and z: "d_nonceReportSent d = 0" and "\<not> gives_up d m"
  obtains d' m' where "WriteMsg io d = Some (True, d')" "good sh d'" "d_currentMsg d' = Some m'"
    "m_sendAttempts m' = m_sendAttempts m + 1" "m_maxSendAttempts m' = m_maxSendAttempts m"
    "d_nonceReportSent d' = 0" "length (d_out d') = length (d_out d) + 1"
proof -
  obtain k m1 d1 where p: "prepare_message d m = Some (k, m1, d1)" "sendable m1" "d_currentMsg d1 = Some m1"
    "d_nonceReportSent d1 = 0" "m_sendAttempts m1 = m_sendAttempts m + 1" "m_maxSendAttempts m1 = m_maxSendAttempts m"
    using prepare_message_good [OF g m] z by metis
  have o1: "d_out d1 = d_out d" using p(1) z
    by (auto simp: prepare_message_def Let_def split: Option.bind_splits if_splits)
  define d2 where "d2 = (if k > 1 then map_node (\<lambda>n. n\<lparr>n_retries := n_retries n + 1\<rparr>) (target_of d m)
      (count (\<lambda>s. s\<lparr>s_retries := s_retries s + 1\<rparr>) d1) else d1)"
  have f2: "d_nonceReportSent d2 = 0" "d_currentMsg d2 = Some m1" "d_out d2 = d_out d"
    using p o1 by (simp_all add: d2_def)
  obtain bs where t: "transmit io (target_of d m) m1 d2 = Some (Some (write_out bs d2))"
    by (cases "m_encrypted m1") (use f2(1) p(2) io(2) in \<open>auto simp: transmit_def sendable_def\<close>)
  have w: "WriteMsg io d = Some (True, count_sent (target_of d m) (write_out bs d2))"
    using m assms(6) p(1) t by (simp add: WriteMsg_def Let_def d2_def [symmetric])
  moreover have "good sh (count_sent (target_of d m) (write_out bs d2))"
    using WriteMsg_good [OF io(1) g] w by simp
  ultimately show ?thesis
    by (rule that [of _ m1]) (use f2 p(5,6) in \<open>simp_all add: write_out_def\<close>)
qed

lemma wait_timed_out_none:
  assumes "d_currentMsg d = None"
  shows "\<exists>d'. wait_timed_out io d = Some (False, d') \<and> d_currentMsg d' = None \<and> d_out d' = d_out d \<and>
    \<not> d_waitingForAck d' \<and> d_expectedReply d' = 0 \<and> d_expectedCallbackId d' = 0"
  using assms by (simp add: wait_timed_out_def WriteMsg_def)

lemma timeouts_none:
  "d_currentMsg d = None \<Longrightarrow> \<exists>d'. timeouts ios d = Some d' \<and> d_currentMsg d' = None \<and> d_out d' = d_out d"
proof (induction ios arbitrary: d)
  case (Cons io ios)
  obtain d1 where "wait_timed_out io d = Some (False, d1)" "d_currentMsg d1 = None" "d_out d1 = d_out d"
    using wait_timed_out_none [OF Cons.prems, of io] by blast
  then show ?case using Cons.IH [of d1] by auto
qed simp

text \<open>A message is not sent forever: if nothing arrives any more, the current message is written at most as
  often as it has attempts left, and with the following time-out it is dropped, however the time-outs,
  the callback ids, encryption and dead nodes interleave; every time-out is handled.\<close>

theorem timeouts_drop:
  assumes "good sh d" and "d_currentMsg d = Some m" and "d_nonceReportSent d = 0"
    and "\<forall>io \<in> set ios. io_ok io \<and> io_writeOk io" and "length ios > unat (m_maxSendAttempts m) - unat (m_sendAttempts m)"
  shows "\<exists>d'. timeouts ios d = Some d' \<and> d_currentMsg d' = None \<and>
    length (d_out d') \<le> length (d_out d) + (unat (m_maxSendAttempts m) - unat (m_sendAttempts m))"
  using assms
proof (induction ios arbitrary: d m)
  case (Cons io ios)
  define e where "e = (if m_resendDuetoCANorNAK m then d else notify (Note_Timeout (m_targetNodeId m)) d)"
  have w: "wait_timed_out io d = WriteMsg io e" using Cons.prems(2) by (simp add: wait_timed_out_def e_def)
  have e: "good sh e" "d_currentMsg e = Some m" "d_nonceReportSent e = 0" "d_out e = d_out d" "d_nodes e = d_nodes d"
    using Cons.prems(1-3) good_simps(1) by (simp_all add: e_def notify_def [of _ d]) (simp_all add: notify_def [symmetric])
  show ?case
  proof (cases "gives_up e m")
    case True
    obtain d1 where d1: "drop_message e = Some d1" using drop_message_good [OF e(1)] by blast
    then have "wait_timed_out io d = Some (False, d1)" using w e(2) True by (simp add: WriteMsg_def Let_def)
    then show ?thesis using timeouts_none [of d1 ios] drop_message_frame [OF d1] e(4) by auto
  next
    case False
    then have less: "m_sendAttempts m < m_maxSendAttempts m" using e(3) by (simp add: gives_up_def attempts_of_def not_le)
    obtain d1 m1 where s: "WriteMsg io e = Some (True, d1)" "good sh d1" "d_currentMsg d1 = Some m1"
      "m_sendAttempts m1 = m_sendAttempts m + 1" "m_maxSendAttempts m1 = m_maxSendAttempts m"
      "d_nonceReportSent d1 = 0" "length (d_out d1) = length (d_out e) + 1"
      using WriteMsg_attempt [OF _ _ e(1,2,3) False, of io] Cons.prems(4) by (metis list.set_intros(1))
    have u: "unat (m_sendAttempts m1) = unat (m_sendAttempts m) + 1"
    proof -
      have "unat (m_sendAttempts m) + 1 < 256"
        using less unat_u8_less [of "m_maxSendAttempts m"] unfolding word_less_nat_alt by linarith
      then show ?thesis using s(4) by (simp add: unat_word_ariths)
    qed
    have lt: "unat (m_sendAttempts m) < unat (m_maxSendAttempts m)" using less by (simp add: word_less_nat_alt)
    have k: "unat (m_maxSendAttempts m1) - unat (m_sendAttempts m1) < length ios"
      using Cons.prems(5) lt u s(5) by simp
    obtain d' where "timeouts ios d1 = Some d'" "d_currentMsg d' = None"
      "length (d_out d') \<le> length (d_out d1) + (unat (m_maxSendAttempts m1) - unat (m_sendAttempts m1))"
      using Cons.IH [OF s(2,3,6) _ k] Cons.prems(4) by auto
    then show ?thesis using w s(1,5,7) u e(4) lt by auto
  qed
qed simp

definition waiting_message :: msg where
  "waiting_message = (request_msg ''x'' 0xff 0x4a True [1])\<lparr>m_bFinal := True\<rparr>"

definition sending_driver :: driver where
  "sending_driver = (Driver_new 10)\<lparr>d_currentMsg := Some waiting_message\<rparr>"

lemma waiting_message: "m_maxSendAttempts waiting_message = 1" "m_sendAttempts waiting_message = 0"
  "sendable waiting_message"
  by (simp_all add: waiting_message_def request_msg_def Append_def Msg_new_def sendable_def)

lemma sending_driver_good: "good (\<lambda>_. None) sending_driver"
  by (rule good_frame [OF Driver_new_good [of 10]]) (simp_all add: sending_driver_def waiting_message)

theorem timeouts_drop_witness:
  "\<exists>d'. timeouts (replicate 2 quiet_io) sending_driver = Some d' \<and> d_currentMsg d' = None \<and> length (d_out d') \<le> 1"
proof -
  have "d_currentMsg sending_driver = Some waiting_message" "d_nonceReportSent sending_driver = 0" "d_out sending_driver = []"
    by (simp_all add: sending_driver_def Driver_new_def)
  moreover have "io_writeOk quiet_io" by (simp add: quiet_io_def)
  ultimately show ?thesis
    using timeouts_drop [OF sending_driver_good, of waiting_message "replicate 2 quiet_io"] quiet_io_ok
    by (simp add: waiting_message)
qed

end
