(* ===== verification/Receive_Laws.thy ===== *)
theory Receive_Laws
  imports Receive_Path Send_Laws
begin

text \<open>
  Properties of the receiving side: what breaks it, how often a message is sent again, when a transaction
  is over, and what secured frames can do.
\<close>

section \<open>Control bytes\<close>

text \<open>The only thing read from the controller that breaks the receiver is a \<open>NAK\<close> while no message is being
  sent: it is followed through a null pointer.  Every other byte and every frame, whatever its content, is
  dealt with in every state.\<close>

theorem ReadMsg_undefined: "ReadMsg r d = None \<longleftrightarrow> r = Control_read NAK \<and> d_currentMsg d = None"
proof (cases r)
  case (Control_read c)
  have "CAN \<noteq> NAK" "ACK \<noteq> NAK" by simp_all
  then show ?thesis using Control_read by (auto simp: ReadMsg_def control_byte_def Let_def split: option.splits)
qed (simp_all add: ReadMsg_def split: prod.splits)

section \<open>Resends\<close>

text \<open>While the driver waits, the wait times out or the controller asks for a resend.\<close>

datatype wait_event =
  Wait_timeout io_env
| Wait_CAN

fun waits :: "wait_event list \<Rightarrow> driver \<Rightarrow> driver option" where
  "waits [] d = Some d"
| "waits (Wait_timeout io # es) d = do { (r, d1) \<leftarrow> wait_timed_out io d; waits es d1 }"
| "waits (Wait_CAN # es) d = do { (f, p, d1) \<leftarrow> ReadMsg (Control_read CAN) d; waits es d1 }"

fun is_timeout :: "wait_event \<Rightarrow> bool" where
  "is_timeout (Wait_timeout io) = True"
| "is_timeout Wait_CAN = False"

fun event_io :: "wait_event \<Rightarrow> bool" where
  "event_io (Wait_timeout io) \<longleftrightarrow> io_ok io \<and> io_writeOk io"
| "event_io Wait_CAN \<longleftrightarrow> True"

lemma CAN_read:
  obtains d1 where "ReadMsg (Control_read CAN) d = Some (None, False, d1)"
    "d_currentMsg d1 = map_option resend_later (d_currentMsg d)" "d_out d1 = d_out d"
    "d_nonceReportSent d1 = d_nonceReportSent d"
  using that by (simp add: ReadMsg_def control_byte_def count_def)

lemma resend_later_attempts:
  "m_sendAttempts (resend_later m) = m_sendAttempts m"
  "m_maxSendAttempts m \<le> 6 \<Longrightarrow> m_maxSendAttempts (resend_later m) \<le> 6"
proof -
  have "m + 1 \<le> 6" if "m + 1 < 7" for m :: uint8 using that by (simp add: word_less_nat_alt word_le_nat_alt)
  then show "m_sendAttempts (resend_later m) = m_sendAttempts m"
    "m_maxSendAttempts m \<le> 6 \<Longrightarrow> m_maxSendAttempts (resend_later m) \<le> 6"
    by (auto simp: resend_later_def SetMaxSendAttempts_def)
qed

lemma waits_none:
  "d_currentMsg d = None \<Longrightarrow> \<exists>d'. waits es d = Some d' \<and> d_currentMsg d' = None \<and> d_out d' = d_out d"
proof (induction es arbitrary: d)
  case (Cons e es)
  show ?case
  proof (cases e)
    case (Wait_timeout io)
    obtain d1 where "wait_timed_out io d = Some (False, d1)" "d_currentMsg d1 = None" "d_out d1 = d_out d"
      using wait_timed_out_none [OF Cons.prems, of io] by blast
    then show ?thesis using Cons.IH [of d1] Wait_timeout by auto
  next
    case Wait_CAN
    obtain d1 where "ReadMsg (Control_read CAN) d = Some (None, False, d1)"
      "d_currentMsg d1 = map_option resend_later (d_currentMsg d)" "d_out d1 = d_out d" by (rule CAN_read)
    then show ?thesis using Cons.IH [of d1] Cons.prems Wait_CAN by simp
  qed
qed simp

text \<open>A time-out either drops the message or writes it once.\<close>

lemma timeout_step:
  assumes io: "io_ok io" "io_writeOk io" and g: "good sh d" and m: "d_currentMsg d = Some m"
    and z: "d_nonceReportSent d = 0"
  obtains (dropped) d' where "wait_timed_out io d = Some (False, d')" "d_currentMsg d' = None" "d_out d' = d_out d"
  | (written) d' m' where "wait_timed_out io d = Some (True, d')" "good sh d'" "d_currentMsg d' = Some m'"
    "unat (m_sendAttempts m') = unat (m_sendAttempts m) + 1" "m_maxSendAttempts m' = m_maxSendAttempts m"
    "d_nonceReportSent d' = 0" "length (d_out d') = length (d_out d) + 1"
    "m_sendAttempts m < m_maxSendAttempts m"
proof -
  define e where "e = (if m_resendDuetoCANorNAK m then d else notify (Note_Timeout (m_targetNodeId m)) d)"
  have w: "wait_timed_out io d = WriteMsg io e" using m by (simp add: wait_timed_out_def e_def)
  have e: "good sh e" "d_currentMsg e = Some m" "d_nonceReportSent e = 0" "d_out e = d_out d"
    using g m z good_simps(1) by (simp_all add: e_def) (simp_all add: notify_def)
  show ?thesis
  proof (cases "gives_up e m")
    case True
    obtain d1 where d1: "drop_message e = Some d1" using drop_message_good [OF e(1)] by blast
    then have "wait_timed_out io d = Some (False, d1)" using w e(2) True by (simp add: WriteMsg_def Let_def)
    then show ?thesis using dropped drop_message_frame [OF d1] e(4) by simp
  next
    case False
    then have less: "m_sendAttempts m < m_maxSendAttempts m" using e(3) by (simp add: gives_up_def attempts_of_def not_le)
    obtain d1 m1 where s: "WriteMsg io e = Some (True, d1)" "good sh d1" "d_currentMsg d1 = Some m1"
      "m_sendAttempts m1 = m_sendAttempts m + 1" "m_maxSendAttempts m1 = m_maxSendAttempts m"
      "d_nonceReportSent d1 = 0" "length (d_out d1) = length (d_out e) + 1"
      using WriteMsg_attempt [OF io e(1,2,3) False] by metis
    have "unat (m_sendAttempts m) + 1 < 256"
      using less unat_u8_less [of "m_maxSendAttempts m"] unfolding word_less_nat_alt by linarith
    then have "unat (m_sendAttempts m1) = unat (m_sendAttempts m) + 1" using s(4) by (simp add: unat_word_ariths)
    then show ?thesis using written [of d1 m1] w s less e(4) by simp
  qed
qed



section \<open>The end of a transaction\<close>

text \<open>The awaited reply is in the frame; \<open>d\<close> still waits for it.\<close>

definition reply_seen :: "bytes \<Rightarrow> driver \<Rightarrow> bool" where
  "reply_seen buf d \<longleftrightarrow> d_expectedReply d = 0 \<or> (d_expectedReply d = dat buf 1 \<and>
     (if d_expectedCommandClassId d \<noteq> 0 \<and> d_expectedReply d = FUNC_ID_APPLICATION_COMMAND_HANDLER
      then d_expectedCommandClassId d = dat buf 5 \<and> d_expectedNodeId d = dat buf 3
      else IsExpectedReply (dat buf 3) d))"

text \<open>(C10) A frame ends the current transaction exactly when nothing else is awaited after it: the callback id
  had come before or is the third byte of this frame, and the reply had come before or is in this frame;
  a report of the awaited command class counts only if it comes from the node asked.  Otherwise the
  message stays the current one.\<close>

theorem end_of_message_ends:
  assumes "d_currentMsg d = Some m" and "d_expectedCallbackId d \<noteq> 0 \<or> d_expectedReply d \<noteq> 0"
  shows "d_currentMsg (end_of_message b buf d) =
    (if d_expectedCallbackId d \<in> {0, dat buf 2} \<and> reply_seen buf d then None else Some m)"
proof (cases "callback_matched buf d")
  case None
  then have "d_expectedCallbackId d \<notin> {0, dat buf 2}" by (auto simp: callback_matched_def split: if_splits)
  then show ?thesis using None assms by (simp add: end_of_message_def)
next
  case (Some d1)
  have c: "d_currentMsg d1 = Some m" "d_expectedReply d1 = d_expectedReply d"
    "d_expectedCommandClassId d1 = d_expectedCommandClassId d" "d_expectedNodeId d1 = d_expectedNodeId d"
    "d_expectedCallbackId d1 = (if d_expectedCallbackId d = dat buf 2 then 0 else d_expectedCallbackId d)"
    using Some assms(1) by (auto simp: callback_matched_def split: if_splits)
  have r: "d_currentMsg (reply_matched buf d1) = Some m"
    "d_expectedCallbackId (reply_matched buf d1) = d_expectedCallbackId d1"
    using c(1) by (simp_all add: reply_matched_def)
  have e: "d_expectedReply (reply_matched buf d1) = 0 \<longleftrightarrow> reply_seen buf d" if "d_expectedCallbackId d1 = 0"
    using that c by (auto simp: reply_matched_def reply_seen_def IsExpectedReply_def)
  show ?thesis
    using Some assms(2) c(5) r e
    by (auto simp: end_of_message_def Let_def RemoveCurrentMsg_def notify_def)
qed

definition asked_driver :: driver where
  "asked_driver = (Driver_new 10)\<lparr>d_currentMsg := Some waiting_message, d_expectedCallbackId := 11,
     d_expectedReply := FUNC_ID_APPLICATION_COMMAND_HANDLER, d_expectedCommandClassId := 0x25, d_expectedNodeId := 5\<rparr>"

theorem end_of_message_ends_witness:
  "d_currentMsg (end_of_message True [1, 5, 0, 0x13, 11, 0] asked_driver) = Some waiting_message"
  using end_of_message_ends [of asked_driver waiting_message True "[1, 5, 0, 0x13, 11, 0]"]
  by (simp add: asked_driver_def reply_seen_def dat_def)

text \<open>The order of the answers matters.  A command that awaits the callback of its transmission and a report of
  the node ends when first the callback and then the report is received.  If the report overtakes the
  callback, it is not counted: after the callback the driver still waits for the report, and only a
  second report ends the transaction.\<close>

theorem report_overtakes_callback:
  assumes m: "d_currentMsg d = Some m" and cb: "d_expectedCallbackId d = dat k 2" "2 < dat k 2"
    and cc: "d_expectedReply d = FUNC_ID_APPLICATION_COMMAND_HANDLER" "d_expectedCommandClassId d = dat r 5"
      "d_expectedNodeId d = dat r 3" "dat r 5 \<noteq> 0"
    and r: "dat r 1 = FUNC_ID_APPLICATION_COMMAND_HANDLER" "dat r 2 = 0"
    and k: "dat k 1 = FUNC_ID_ZW_SEND_DATA"
  shows "d_currentMsg (end_of_message b r (end_of_message b k d)) = None \<and>
    d_currentMsg (end_of_message b k (end_of_message b r d)) = Some m \<and>
    d_expectedReply (end_of_message b k (end_of_message b r d)) = FUNC_ID_APPLICATION_COMMAND_HANDLER \<and>
    d_currentMsg (end_of_message b r (end_of_message b k (end_of_message b r d))) = None"
proof -
  have n: "dat k 2 \<noteq> 0" "dat k 2 \<noteq> 1" "dat k 2 \<noteq> 2" using cb(2) by auto
  have e: "end_of_message b k d = d\<lparr>d_expectedCallbackId := 0\<rparr>" "end_of_message b r d = d"
    using n cb cc r k
    by (simp_all add: end_of_message_def callback_matched_def reply_matched_def Let_def)
  have "d_currentMsg (end_of_message b r (d\<lparr>d_expectedCallbackId := 0\<rparr>)) = None"
    using cc r by (simp add: end_of_message_def callback_matched_def reply_matched_def Let_def RemoveCurrentMsg_def)
  then show ?thesis using e m cc(1) by simp
qed

theorem report_overtakes_callback_witness:
  "d_currentMsg (end_of_message True [1, 5, 0, 0x13, 11, 0] (end_of_message True [1, 8, 0, 4, 0, 5, 3, 0x25] asked_driver))
    = Some waiting_message"
  using report_overtakes_callback [of asked_driver waiting_message "[1, 5, 0, 0x13, 11, 0]" "[1, 8, 0, 4, 0, 5, 3, 0x25]" True]
  by (simp add: asked_driver_def dat_def)

section \<open>Nonce reports\<close>

fun secured_frames :: "io_env \<Rightarrow> bytes list \<Rightarrow> driver \<Rightarrow> driver option" where
  "secured_frames io [] d = Some d"
| "secured_frames io (f # fs) d = do { (x, d1) \<leftarrow> secure_message io f d; secured_frames io fs d1 }"

definition is_nonce_report :: "bytes \<Rightarrow> bool" where
  "is_nonce_report buf \<longleftrightarrow> 17 \<le> length buf \<and> dat buf 0 = REQUEST \<and> dat buf 1 = FUNC_ID_APPLICATION_COMMAND_HANDLER \<and>
     dat buf 5 = CC_SECURITY \<and> dat buf 6 = SecurityCmd_NonceReport"

lemma setNonce_sendable:
  assumes m: "sendable m" and n: "8 \<le> length nonce"
  obtains cb m1 where "setNonce s nonce m = Some (cb, m1)" "sendable (clearNonce m1)"
    "m_encrypted m1 = m_encrypted m" "m_sendAttempts m1 = m_sendAttempts m" "m_targetNodeId m1 = m_targetNodeId m"
proof -
  obtain cb m2 where u: "UpdateCallbackId s (m\<lparr>m_nonce := take 8 nonce, m_noncerecvd := True\<rparr>) = Some (cb, m2)"
    "m_encrypted m2 = m_encrypted m" "m_sendAttempts m2 = m_sendAttempts m" "m_targetNodeId m2 = m_targetNodeId m"
  proof (cases "m_bCallbackRequired m")
    case True
    obtain c s' where c: "next_callback_id s = (c, s')" by (cases "next_callback_id s")
    have "\<not> unat (m_length m) < 2" using True m by (simp add: sendable_def)
    then show ?thesis
      by (intro that [of s' "m\<lparr>m_nonce := _, m_noncerecvd := _, m_buffer := _, m_callbackId := c\<rparr>"])
        (use True c m in \<open>simp_all add: UpdateCallbackId_def sendable_def Let_def\<close>)
  next
    case False
    show ?thesis
      by (rule that [of s "m\<lparr>m_nonce := take 8 nonce, m_noncerecvd := True\<rparr>"]) (use False in \<open>simp_all add: UpdateCallbackId_def\<close>)
  qed
  have "setNonce s nonce m = Some (cb, m2)" using u(1) n by (simp add: setNonce_def frame_simps)
  then show ?thesis using that setNonce_final m u(2-4) by blast
qed

lemma nonce_report_step:
  assumes f: "is_nonce_report f" and g: "good sh d" and m: "d_currentMsg d = Some m" "\<not> m_encrypted m"
  obtains d' m' bs where "secure_message io f d = Some (None, d')" "good sh d'" "d_currentMsg d' = Some m'"
    "\<not> m_encrypted m'" "m_sendAttempts m' = m_sendAttempts m" "m_targetNodeId m' = m_targetNodeId m"
    "d_out d' = d_out d @ [bs]"
proof -
  have "8 \<le> length (take 8 (drop 9 f))" using f unfolding is_nonce_report_def by auto
  then obtain cb m1 where s: "setNonce (d_callbackId d) (take 8 (drop 9 f)) m = Some (cb, m1)"
    "m_encrypted m1 = m_encrypted m" "m_sendAttempts m1 = m_sendAttempts m" "m_targetNodeId m1 = m_targetNodeId m"
    by (rule setNonce_sendable [OF good_current [OF g m(1)]])
  define d1 where "d1 = d\<lparr>d_callbackId := cb, d_currentMsg := Some m1\<rparr>"
  obtain d' bs where d': "SendEncryptedMessage io d1 = Some d'" "d_currentMsg d' = Some (clearNonce m1)"
    "d_out d' = d_out d @ [bs]"
    using s(2) m by (simp add: SendEncryptedMessage_def d1_def Msg_GetBuffer_def write_out_def Let_def)
  have r: "secure_message io f d = Some (None, d')"
    using f m(1) s(1) d'(1) by (simp add: secure_message_def is_nonce_report_def nonce_received_def d1_def)
  have "good sh d'"
    using SendEncryptedMessage_cleared [OF g s(1) m(1), where io = io and d' = d'] d'(1) by (simp add: d1_def)
  then show ?thesis using that [OF r _ d'(2) _ _ _ d'(3)] s m by (simp add: clearNonce_def)
qed

text \<open>A nonce report makes the driver send its current message without asking whether a nonce was requested, whether the
  message is to be encrypted and whether the report comes from the node the message is for.  Any nodes can
  so have an unencrypted message sent again as often as they report nonces: every report writes it once more,
  and none of these transmissions counts as an attempt, which the limit of \<open>WriteMsg\<close> is checked against.\<close>

theorem nonce_reports_resend:
  assumes "good sh d" and "d_currentMsg d = Some m" and "\<not> m_encrypted m"
    and "\<forall>f \<in> set fs. is_nonce_report f"
  shows "\<exists>d' m'. secured_frames io fs d = Some d' \<and> length (d_out d') = length (d_out d) + length fs \<and>
    d_currentMsg d' = Some m' \<and> m_targetNodeId m' = m_targetNodeId m \<and> m_sendAttempts m' = m_sendAttempts m"
  using assms
proof (induction fs arbitrary: d m)
  case (Cons f fs)
  obtain d1 m1 bs where s: "secure_message io f d = Some (None, d1)" "good sh d1" "d_currentMsg d1 = Some m1"
    "\<not> m_encrypted m1" "m_sendAttempts m1 = m_sendAttempts m" "m_targetNodeId m1 = m_targetNodeId m"
    "d_out d1 = d_out d @ [bs]"
    using nonce_report_step [OF _ Cons.prems(1-3), of f] Cons.prems(4) by (metis list.set_intros(1))
  then show ?case using Cons.IH [OF s(2-4)] Cons.prems(4) by fastforce
qed simp

theorem nonce_reports_resend_witness:
  "\<exists>d'. secured_frames quiet_io (replicate 9 ([1, 14, 0, 4, 0, 77, 10, 0x98, 0x80] @ replicate 8 7)) sending_driver = Some d' \<and>
    length (d_out d') = 9"
proof -
  have "d_currentMsg sending_driver = Some waiting_message" "d_out sending_driver = []" "\<not> m_encrypted waiting_message"
    by (simp_all add: sending_driver_def Driver_new_def waiting_message_def request_msg_def Append_def Msg_new_def)
  moreover have "is_nonce_report ([1, 14, 0, 4, 0, 77, 10, 0x98, 0x80] @ replicate 8 7)"
    by (simp add: is_nonce_report_def dat_def numeral_eq_Suc)
  ultimately show ?thesis
    using nonce_reports_resend [OF sending_driver_good, of waiting_message
        "replicate 9 ([1, 14, 0, 4, 0, 77, 10, 0x98, 0x80] @ replicate 8 7)" quiet_io] by auto
qed

section \<open>Secured packets\<close>

definition is_packet :: "bytes \<Rightarrow> bool" where
  "is_packet buf \<longleftrightarrow> dat buf 0 = REQUEST \<and> dat buf 1 = FUNC_ID_APPLICATION_COMMAND_HANDLER \<and>
     dat buf 5 = CC_SECURITY \<and> dat buf 6 \<in> {SecurityCmd_MessageEncap, SecurityCmd_MessageEncapNonceGet}"

lemma secure_message_packet: "is_packet buf \<Longrightarrow> secure_message io buf d = packet_received io buf d"
  by (auto simp: is_packet_def secure_message_def)

lemma accepted_packet:
  assumes "secure_message io buf d = Some (Some (b, True), d')"
  obtains n nonce plain b1 where "is_packet buf" "2 \<le> unat (dat buf 4)" "d_nodes d (dat buf 3) = Some n"
    "GetNonceKey (ucast (buf ! (unat (dat buf 4) - 2))) (n_nonces n) = Some nonce"
    "DecryptBuffer (io_enc io) (io_auth io) (drop 7 buf) (dat buf 4 + 1) (dat buf 3) (d_controllerNodeId d) nonce = Some (True, plain)"
    "poke buf 6 (dat buf 4 - 20) = Some b1" "poke_block b1 7 (take (unat (dat buf 4 - 20)) (drop 1 plain)) = Some b"
    "(if dat buf 6 = SecurityCmd_MessageEncapNonceGet
      then nonce_wanted io (dat buf 3) (d\<lparr>d_nonceReportSent := 0, d_nonceReportSentAttempt := 0\<rparr>)
      else Some (d\<lparr>d_nonceReportSent := 0, d_nonceReportSentAttempt := 0\<rparr>)) = Some d'"
proof -
  have p: "is_packet buf"
    using assms by (auto simp: secure_message_def is_packet_def nonce_received_def split: if_splits)
  then have "packet_received io buf d = Some (Some (b, True), d')" using assms by (simp add: secure_message_packet)
  then show ?thesis
    using p by (auto simp: packet_received_def Let_def split: option.splits Option.bind_splits if_splits prod.splits intro!: that)
qed

lemma nonce_wanted_current: "nonce_wanted io nid d = Some d' \<Longrightarrow> d_currentMsg d' = d_currentMsg d \<and> d_controllerNodeId d' = d_controllerNodeId d"
  by (auto simp: nonce_wanted_def report_nonce_def write_out_def put_node_def split: option.splits Option.bind_splits)


text \<open>(C23) A recorded packet can be played back.  Nonces are not taken out of the table when they have been used: a
  secured packet that was accepted is accepted with the same content a second time, and a third, as long as
  no new nonces have been requested in between.\<close>

theorem packet_replayed:
  assumes "secure_message io buf d = Some (Some (b, True), d1)" and "dat buf 6 = SecurityCmd_MessageEncap"
  shows "secure_message io buf d1 = Some (Some (b, True), d1)"
proof -
  define e where "e = d\<lparr>d_nonceReportSent := 0, d_nonceReportSentAttempt := 0\<rparr>"
  obtain n nonce plain b1 where r: "is_packet buf" "2 \<le> unat (dat buf 4)" "d_nodes d (dat buf 3) = Some n"
    "GetNonceKey (ucast (buf ! (unat (dat buf 4) - 2))) (n_nonces n) = Some nonce"
    "DecryptBuffer (io_enc io) (io_auth io) (drop 7 buf) (dat buf 4 + 1) (dat buf 3) (d_controllerNodeId d) nonce = Some (True, plain)"
    "poke buf 6 (dat buf 4 - 20) = Some b1" "poke_block b1 7 (take (unat (dat buf 4 - 20)) (drop 1 plain)) = Some b"
    and d1: "(if dat buf 6 = SecurityCmd_MessageEncapNonceGet then nonce_wanted io (dat buf 3) e else Some e) = Some d1"
    unfolding e_def by (rule accepted_packet [OF assms(1)])
  have "d1 = e" using d1 assms(2) by simp
  moreover have "e\<lparr>d_nonceReportSent := 0, d_nonceReportSentAttempt := 0\<rparr> = e" by (simp add: e_def)
  ultimately have "packet_received io buf d1 = Some (Some (b, True), d1)"
    using r assms(2) by (simp add: packet_received_def Let_def e_def)
  then show ?thesis using r(1) by (simp add: secure_message_packet)
qed

text \<open>A packet of 23 bytes, from node 1, under a cipher that yields zeros.\<close>

definition zero_io :: io_env where
  "zero_io = quiet_io\<lparr>io_enc := \<lambda>_. Some (replicate 16 0), io_auth := \<lambda>_. Some (replicate 16 0)\<rparr>"

definition zero_packet :: bytes where
  "zero_packet = [1, 29, 0, 4, 0, 1, 23, 0x98, 0x81] @ replicate 22 0 @ [0]"

definition node1_driver :: driver where
  "node1_driver = (put_node 1 Node_new sending_driver)\<lparr>d_controllerNodeId := 2\<rparr>"

lemma zero_packet_parts:
  "dat zero_packet 0 = 0" "dat zero_packet 1 = 4" "dat zero_packet 3 = 1" "dat zero_packet 4 = 23"
  "dat zero_packet 5 = 0x98" "dat zero_packet 6 = 0x81" "zero_packet ! 21 = 0"
  "drop 7 zero_packet = [0x98, 0x81] @ replicate 23 0" "length zero_packet = 32"
  by (simp_all add: zero_packet_def dat_def numeral_eq_Suc)

lemma zero_packet_decrypted:
  "DecryptBuffer (\<lambda>_. Some (replicate 16 0)) (\<lambda>_. Some (replicate 16 0)) ([0x98, 0x81] @ replicate 23 0) 24 1 2 (replicate 8 0)
    = Some (True, replicate 32 0)"
proof -
  let ?z = "\<lambda>x :: bytes. Some (replicate 16 (0 :: uint8))"
  have "aes_ofb_crypt ?z (replicate 16 0) (replicate 4 0) = Some (replicate 4 0)"
    by (simp add: aes_ofb_crypt.simps numeral_eq_Suc xor_bytes_def)
  moreover have "GenerateAuthentication ?z (0x81 # replicate 23 0) 23 1 2 (replicate 16 0) = Some (Some (replicate 8 0))"
    by (subst GenerateAuthentication_eq [of _ _ 4])
      (simp_all add: mac_spec_def cbc_mac.simps)
  ultimately show ?thesis
    by (simp add: DecryptBuffer_def Let_def createIVFromPacket_inbound_def frame_simps flip: replicate_add)
qed

lemma zero_packet_accepted:
  "\<exists>b d'. secure_message zero_io zero_packet node1_driver = Some (Some (b, True), d')"
proof -
  have n: "d_nodes node1_driver 1 = Some Node_new" "d_controllerNodeId node1_driver = 2"
    by (simp_all add: node1_driver_def put_node_def)
  have "GetNonceKey 0 (n_nonces Node_new) = Some (replicate 8 0)" by (simp add: GetNonceKey_def Node_new_def numeral_eq_Suc)
  moreover have "unat (23 :: uint8) = 23" "unat (3 :: uint8) = 3" by simp_all
  ultimately show ?thesis
    using n zero_packet_decrypted zero_packet_parts
    by (simp add: secure_message_def packet_received_def Let_def zero_io_def poke_def poke_block_def
      del: append.simps)
qed


theorem packet_replayed_witness:
  "\<exists>b d1. secure_message zero_io zero_packet node1_driver = Some (Some (b, True), d1) \<and>
    secure_message zero_io zero_packet d1 = Some (Some (b, True), d1)"
proof -
  obtain b d' where "secure_message zero_io zero_packet node1_driver = Some (Some (b, True), d')"
    using zero_packet_accepted by blast
  moreover from packet_replayed [OF this] zero_packet_parts(6)
  have "secure_message zero_io zero_packet d' = Some (Some (b, True), d')" by simp
  ultimately show ?thesis by blast
qed

text \<open>A packet that fails the check costs the message being sent, whatever node that message is for: if a known node's
  packet is not accepted although the nonce is known (which anyone can do with a payload of less than 18
  bytes and nonce id 0, which a node's table holds from the start), the current message is gone and the driver waits
  for nothing any more.\<close>

theorem bad_packet_drops_message:
  assumes "is_packet buf" and "2 \<le> unat (dat buf 4)" and "unat (dat buf 4) < 18" and "d_nodes d (dat buf 3) = Some n"
    and "dat buf 6 = SecurityCmd_MessageEncap"
    and "\<exists>r \<in> set (m_nonces (n_nonces n)). r ! 0 = buf ! (unat (dat buf 4) - 2)"
  shows "\<exists>d'. secure_message io buf d = Some (None, d') \<and> d_currentMsg d' = None \<and> d_expectedReply d' = 0 \<and>
    d_expectedCallbackId d' = 0 \<and> \<not> d_waitingForAck d'"
proof -
  let ?P = "\<lambda>r. ucast (buf ! (unat (dat buf 4) - 2)) = (ucast (r ! 0) :: uint32)"
  obtain nonce where nonce: "GetNonceKey (ucast (buf ! (unat (dat buf 4) - 2))) (n_nonces n) = Some nonce"
    using assms(6) find_None_iff [of ?P "m_nonces (n_nonces n)"] by (auto simp: GetNonceKey_def)
  have "unat (dat buf 4 + 1) < 19"
    using assms(3) by (simp add: unat_word_ariths)
  then have "DecryptBuffer (io_enc io) (io_auth io) (drop 7 buf) (dat buf 4 + 1) (dat buf 3) (d_controllerNodeId d) nonce = Some (False, [])"
    by (simp add: DecryptBuffer_def)
  then show ?thesis
    using assms nonce by (simp add: secure_message_packet packet_received_def Let_def RemoveCurrentMsg_def)
qed

theorem bad_packet_drops_message_witness:
  "\<exists>d'. secure_message quiet_io ([1, 9, 0, 4, 0, 1, 4, 0x98, 0x81, 0, 0]) node1_driver = Some (None, d') \<and> d_currentMsg d' = None"
proof -
  let ?b = "[1, 9, 0, 4, 0, 1, 4, 0x98, 0x81, 0, 0] :: bytes"
  have "is_packet ?b" "dat ?b 4 = 4" "dat ?b 3 = 1" "dat ?b 6 = 0x81" "?b ! 2 = 0" by (simp_all add: is_packet_def dat_def)
  moreover have "d_nodes node1_driver 1 = Some (Node_new)" by (simp add: node1_driver_def put_node_def)
  moreover have "\<exists>r \<in> set (m_nonces (n_nonces Node_new)). r ! 0 = 0" by (simp add: Node_new_def)
  moreover have "unat (4 :: uint8) = 4" by simp
  ultimately show ?thesis
    using bad_packet_drops_message [of ?b node1_driver Node_new quiet_io] by auto
qed

end
