(* ===== verification/Node_Info.thy ===== *)
theory Node_Info
  imports Receive_Path
begin

text \<open>
  A node is set up (\<open>cpp/src/Node.cpp\<close>): the command classes it gets from its device class, its protocol
  information and its node information frame, the secure classes it reports, the dispatch of the frames it
  sends to its command classes, the command class \<open>SECURITY\<close> (\<open>command_classes/Security.cpp\<close>), and
  \<open>Driver::InitNode\<close> with protocol information; each keeps the driver well formed.
\<close>

section \<open>Command classes of a node\<close>

abbreviation (input) CC_VERSION :: uint8 where "CC_VERSION \<equiv> 0x86"
abbreviation (input) CC_MULTI_INSTANCE :: uint8 where "CC_MULTI_INSTANCE \<equiv> 0x60"
abbreviation (input) CC_MARK :: uint8 where "CC_MARK \<equiv> 0xef"

text \<open>The wake-up class of a node is kept in \<open>n_wakeUp\<close>.\<close>

definition has_class :: "uint8 \<Rightarrow> node \<Rightarrow> bool" where
  "has_class cc n \<longleftrightarrow> n_classes n cc \<noteq> None \<or> (cc = CC_WAKE_UP \<and> n_wakeUp n \<noteq> None)"

definition map_class :: "(cc_state \<Rightarrow> cc_state) \<Rightarrow> uint8 \<Rightarrow> node \<Rightarrow> node" where
  "map_class f cc n = n\<lparr>n_classes := (n_classes n)(cc := map_option f (n_classes n cc))\<rparr>"

text \<open>
  \<open>Node::AddCommandClass\<close>, with the wake-up class's constructor; the result tells whether the class is
  new.  The version of a class just created is not requested, since it holds no request for it.
\<close>

definition wakeup_new :: "node_env \<Rightarrow> wakeup" where
  "wakeup_new env = \<lparr> w_awake = ne_assumeAwake env, w_pollRequired = False, w_delayNMI = ne_delayNMI env, w_interval = 0, w_pending = [] \<rparr>"

definition AddCommandClass :: "node_env \<Rightarrow> uint8 \<Rightarrow> node \<Rightarrow> bool \<times> node" where
  "AddCommandClass env cc n =
     (if has_class cc n \<or> cc \<notin> set registered_classes then (False, n)
      else
        let c = class_new cc;
            hasVersion = (cc = CC_VERSION \<or> has_class CC_VERSION n);
            c1 = (if St_SecurityReport \<le> m_queryStage (n_query n) \<and> hasVersion \<and> cc \<notin> set versioned_classes
                  then c\<lparr>c_version := 1\<rparr> else c)
        in (True, n\<lparr>n_classes := (n_classes n)(cc \<mapsto> c1),
                     n_wakeUp := (if cc = CC_WAKE_UP then Some (wakeup_new env) else n_wakeUp n)\<rparr>))"

definition cc_SetInstance :: "uint8 \<Rightarrow> cc_state \<Rightarrow> cc_state" where
  "cc_SetInstance i c = c\<lparr>c_instances := insert i (c_instances c)\<rparr>"

section \<open>Classes named by the device class\<close>

text \<open>\<open>AddMandatoryCommandClasses\<close>; the list of the device class ends before its first zero byte.\<close>

fun add_mandatory :: "node_env \<Rightarrow> bool \<Rightarrow> bytes \<Rightarrow> node \<Rightarrow> node" where
  "add_mandatory env afterMark [] n = n"
| "add_mandatory env afterMark (cc # ccs) n =
     (if cc = CC_MARK then add_mandatory env True ccs n
      else if \<not> ne_supported env cc \<or> (cc = CC_SECURITY \<and> \<not> ne_networkKey env) then add_mandatory env afterMark ccs n
      else let (new, n1) = AddCommandClass env cc n
           in add_mandatory env afterMark ccs
                (if new then map_class (\<lambda>c. cc_SetInstance 1 (c\<lparr>c_afterMark := (c_afterMark c \<or> afterMark)\<rparr>)) cc n1 else n1))"

definition AddMandatoryCommandClasses :: "node_env \<Rightarrow> bytes option \<Rightarrow> node \<Rightarrow> node" where
  "AddMandatoryCommandClasses env ccs n = (case ccs of None \<Rightarrow> n
     | Some bs \<Rightarrow> add_mandatory env False (takeWhile (\<lambda>b. b \<noteq> 0) bs) n)"

text \<open>The wake-up class of a device that does not always listen.\<close>

definition needs_wakeup :: "node_env \<Rightarrow> node \<Rightarrow> node" where
  "needs_wakeup env n =
     (if \<not> n_listening n \<and> \<not> n_frequentListening n
      then let (new, n1) = AddCommandClass env CC_WAKE_UP n in if new then map_class (cc_SetInstance 1) CC_WAKE_UP n1 else n1
      else n)"

text \<open>\<open>SetDeviceClasses\<close>; labels and the mapping of the class \<open>BASIC\<close> are left out.\<close>

definition SetDeviceClasses :: "node_env \<Rightarrow> uint8 \<Rightarrow> uint8 \<Rightarrow> uint8 \<Rightarrow> node \<Rightarrow> node" where
  "SetDeviceClasses env basic generic specific n0 =
     (let n = n0\<lparr>n_basic := basic, n_generic := generic, n_specific := specific\<rparr>;
          n1 = (case ne_generic env generic of None \<Rightarrow> n
                | Some (mandatory, specifics) \<Rightarrow>
                    AddMandatoryCommandClasses env (specifics specific) (AddMandatoryCommandClasses env mandatory n))
      in needs_wakeup env n1)"

section \<open>The node information frame\<close>

fun add_optional :: "node_env \<Rightarrow> bool \<Rightarrow> bytes \<Rightarrow> node \<Rightarrow> node" where
  "add_optional env afterMark [] n = n"
| "add_optional env afterMark (cc # ccs) n =
     (if cc = CC_MARK then add_optional env True ccs n
      else if \<not> ne_supported env cc \<or> (cc = CC_SECURITY \<and> \<not> ne_networkKey env) then add_optional env afterMark ccs n
      else let (new, n1) = AddCommandClass env cc n
           in add_optional env afterMark ccs
                (if new then map_class (\<lambda>c. cc_SetInstance 1 (c\<lparr>c_inNIF := True, c_afterMark := (c_afterMark c \<or> afterMark)\<rparr>)) cc n1
                 else map_class (\<lambda>c. c\<lparr>c_inNIF := True\<rparr>) cc n1))"

definition static_request :: "node \<Rightarrow> uint8" where
  "static_request n = (if has_class CC_MULTI_INSTANCE n then 0x01 else 0) OR (if has_class CC_VERSION n then 0x04 else 0)"

definition SetStaticRequests :: "node_env \<Rightarrow> uint8 \<Rightarrow> driver \<Rightarrow> driver option" where
  "SetStaticRequests env nid d = do {
     n \<leftarrow> d_nodes d nid;
     if static_request n \<noteq> 0 then
       set_stage_node env St_ManufacturerSpecific2 True nid
         (put_node nid (n\<lparr>n_classes := (\<lambda>cc. map_option (\<lambda>c. c\<lparr>c_static := c_static c OR static_request n\<rparr>) (n_classes n cc))\<rparr>) d)
     else Some d
   }"

text \<open>\<open>UpdateNodeInfo(data, length)\<close>, undefined when \<open>length\<close> bytes are not there.\<close>

definition UpdateNodeInfo :: "node_env \<Rightarrow> uint8 \<Rightarrow> bytes \<Rightarrow> uint8 \<Rightarrow> driver \<Rightarrow> driver option" where
  "UpdateNodeInfo env nid data len d = do {
     n \<leftarrow> d_nodes d nid;
     d1 \<leftarrow> (if \<not> n_nodeInfoReceived n then do {
              ccs \<leftarrow> peek_block data 0 (unat len);
              d1 \<leftarrow> SetStaticRequests env nid (put_node nid (add_optional env False ccs n) d);
              n1 \<leftarrow> d_nodes d1 nid;
              Some (put_node nid (n1\<lparr>n_nodeInfoReceived := True\<rparr>) d1)
            }
            else if n_refreshOnInfo n then set_stage_node env St_Dynamic True nid d else Some d);
     n2 \<leftarrow> d_nodes d1 nid;
     if n_wakeUp n2 \<noteq> None then SetAwake env True nid d1 else Some d1
   }"

section \<open>Protocol information\<close>

definition baud_rate :: "bytes \<Rightarrow> uint32" where
  "baud_rate data = (case unat (data ! 2 AND 0x07) of Suc 0 \<Rightarrow> 100000 | Suc (Suc 0) \<Rightarrow> 200000
     | _ \<Rightarrow> if data ! 0 AND 0x38 = 0x10 then 40000 else 9600)"

definition protocol_flags :: "bytes \<Rightarrow> node \<Rightarrow> node" where
  "protocol_flags data n = n\<lparr>n_listening := (data ! 0 AND 0x80 \<noteq> 0), n_routing := (data ! 0 AND 0x40 \<noteq> 0),
     n_maxBaudRate := baud_rate data, n_version := (data ! 0 AND 0x07) + 1,
     n_frequentListening := (data ! 1 AND 0x60 \<noteq> 0), n_beaming := (data ! 1 AND 0x10 \<noteq> 0),
     n_security := (data ! 1 AND 0x01 \<noteq> 0)\<rparr>"

definition IsController :: "node \<Rightarrow> bool" where
  "IsController n \<longleftrightarrow> (n_basic n = 0x01 \<or> n_basic n = 0x02) \<and> (n_generic n = 0x01 \<or> n_generic n = 0x02)"

text \<open>\<open>ReadButtons\<close>, given the entries of the file.\<close>

definition set_button :: "uint8 \<Rightarrow> uint8 \<Rightarrow> node \<Rightarrow> node" where
  "set_button b v n = n\<lparr>n_buttonMap := (n_buttonMap n)(b \<mapsto> v)\<rparr>"

definition read_button :: "uint8 \<Rightarrow> uint8 \<times> uint8 \<Rightarrow> driver \<Rightarrow> driver" where
  "read_button nid e d = notify (Note_CreateButton (snd e) (fst e)) (map_node (set_button (fst e) (snd e)) nid d)"

definition ReadButtons :: "node_env \<Rightarrow> uint8 \<Rightarrow> driver \<Rightarrow> driver" where
  "ReadButtons env nid d = fold (read_button nid) (ne_buttons env nid) d"

definition UpdateProtocolInfo :: "node_env \<Rightarrow> uint8 \<Rightarrow> bytes \<Rightarrow> driver \<Rightarrow> driver option" where
  "UpdateProtocolInfo env nid data d = do {
     n \<leftarrow> d_nodes d nid;
     if n_protocolInfoReceived n then Some d
     else if data ! 4 = 0 then SetNodeAlive env False nid d
     else do {
       let n1 = protocol_flags data n;
       let d1 = (if n_basicInfoReceived n1 then put_node nid n1 d
          else let n2 = SetDeviceClasses env (data ! 3) (data ! 4) (data ! 5) n1;
                   d2 = put_node nid n2 (notify (Note_NodeProtocolInfo nid) d)
               in map_node (\<lambda>n. n\<lparr>n_basicInfoReceived := True\<rparr>) nid (if IsController n2 then ReadButtons env nid d2 else d2));
       Some (map_node (\<lambda>n. (needs_wakeup env n)\<lparr>n_protocolInfoReceived := True\<rparr>) nid d1)
     }
   }"

text \<open>\<open>Security::ExchangeNetworkKeys\<close> starts the key exchange of a node being added.\<close>

abbreviation (input) SecurityCmd_SchemeGet :: uint8 where "SecurityCmd_SchemeGet \<equiv> 0x04"

definition security_msg :: "string \<Rightarrow> uint8 \<Rightarrow> bytes \<Rightarrow> driver \<Rightarrow> msg" where
  "security_msg text nid bs d = fold Append ([nid, of_nat (length bs) + 1, CC_SECURITY] @ bs @ [d_transmitOptions d])
     (Msg_new text nid REQUEST FUNC_ID_ZW_SEND_DATA True True FUNC_ID_APPLICATION_COMMAND_HANDLER CC_SECURITY)"

definition ExchangeNetworkKeys :: "uint8 \<Rightarrow> driver \<Rightarrow> driver option" where
  "ExchangeNetworkKeys nid d = do {
     n \<leftarrow> d_nodes d nid;
     if n_addingNode n
     then SendMsg (security_msg ''SecurityCmd_SchemeGet'' nid [SecurityCmd_SchemeGet, 0] d) MsgQueue_Command d
     else Some d
   }"

text \<open>
  The search for the security class in the frame: the second entry of it finds it added, the class
  pointer is null then and followed when there is a network key.
\<close>

fun find_security :: "node_env \<Rightarrow> uint8 \<Rightarrow> bytes \<Rightarrow> driver \<Rightarrow> driver option" where
  "find_security env nid [] d = Some d"
| "find_security env nid (cc # ccs) d =
     (if cc = CC_SECURITY then do {
        n \<leftarrow> d_nodes d nid;
        let (new, n1) = AddCommandClass env CC_SECURITY n;
        d1 \<leftarrow> (if \<not> ne_networkKey env then Some (put_node nid n1 d)
               else if new then ExchangeNetworkKeys nid (put_node nid n1 d) else None);
        find_security env nid ccs d1
      } else find_security env nid ccs d)"

text \<open>\<open>SetProtocolInfo\<close>; \<open>info\<close> is the buffer, its first three bytes are the device classes.\<close>

definition SetProtocolInfo :: "node_env \<Rightarrow> uint8 \<Rightarrow> bytes \<Rightarrow> uint8 \<Rightarrow> driver \<Rightarrow> driver option" where
  "SetProtocolInfo env nid info len d = do {
     n \<leftarrow> d_nodes d nid;
     if n_protocolInfoReceived n \<or> n_basicInfoReceived n then Some d
     else if info ! 1 = 0 then SetNodeAlive env False nid d
     else do {
       let n1 = SetDeviceClasses env (info ! 0) (info ! 1) (info ! 2) n;
       let d1 = put_node nid n1 (notify (Note_NodeProtocolInfo nid) d);
       d2 \<leftarrow> (if \<not> n_secured n1 then Some d1
              else if has_class CC_SECURITY n1 then (if ne_networkKey env then ExchangeNetworkKeys nid d1 else Some d1)
              else find_security env nid (drop 3 (take (unat len) info)) d1);
       d3 \<leftarrow> UpdateNodeInfo env nid (drop 3 info) (len - 3) d2;
       n3 \<leftarrow> d_nodes d3 nid;
       Some (put_node nid (n3\<lparr>n_basicInfoReceived := True\<rparr>) d3)
     }
   }"

text \<open>\<open>InitNode\<close> with protocol information.\<close>

definition InitNode_info :: "node_env \<Rightarrow> uint8 \<Rightarrow> bool \<Rightarrow> bool \<Rightarrow> bytes \<Rightarrow> uint8 \<Rightarrow> driver \<Rightarrow> driver option" where
  "InitNode_info env nid newNode secure info len d =
     (if len = 0 then InitNode env nid newNode d
      else do {
        d1 \<leftarrow> fresh_node nid newNode d;
        SetProtocolInfo env nid info len
          (if ne_networkKey env then map_node (\<lambda>n. n\<lparr>n_secured := secure\<rparr>) nid d1 else d1)
      })"

section \<open>The classes a secured node reports\<close>

definition IsSecureSupported :: "uint8 \<Rightarrow> bool" where
  "IsSecureSupported cc \<longleftrightarrow> cc \<noteq> CC_SECURITY"

definition set_secured :: "uint8 \<Rightarrow> cc_state \<Rightarrow> cc_state" where
  "set_secured cc c = (if IsSecureSupported cc then c\<lparr>c_secured := True\<rparr> else c)"

text \<open>A class that is there already; for an instance the end point of the security class is copied.\<close>

definition secure_known :: "node_env \<Rightarrow> uint32 \<Rightarrow> uint8 \<Rightarrow> node \<Rightarrow> node option" where
  "secure_known env inst cc n =
     (let n1 = map_class (\<lambda>c. if c_inNIF c \<and> \<not> ne_alsoSecure env cc then c else set_secured cc c) cc n in
      if inst > 1 then do {
        sec \<leftarrow> n_classes n1 CC_SECURITY;
        let i = (ucast inst :: uint8);
        let ep = (case c_endPoints sec i of None \<Rightarrow> 0 | Some e \<Rightarrow> e);
        Some (map_class (\<lambda>c. cc_SetInstance i (c\<lparr>c_endPoints := (c_endPoints c)(i \<mapsto> ep)\<rparr>)) cc n1)
      } else Some n1)"

definition secure_class :: "node_env \<Rightarrow> uint32 \<Rightarrow> bool \<Rightarrow> uint8 \<Rightarrow> node \<Rightarrow> node option" where
  "secure_class env inst afterMark cc n =
     (if has_class cc n then secure_known env inst cc n
      else if \<not> ne_supported env cc then Some n
      else let (new, n1) = AddCommandClass env cc n
           in Some (if new then map_class (\<lambda>c. cc_SetInstance (if inst > 1 then ucast inst else 1)
                      (set_secured cc (c\<lparr>c_afterMark := (c_afterMark c \<or> afterMark)\<rparr>))) cc n1 else n1))"

fun secure_classes :: "node_env \<Rightarrow> uint32 \<Rightarrow> bool \<Rightarrow> bytes \<Rightarrow> node \<Rightarrow> node option" where
  "secure_classes env inst afterMark [] n = Some n"
| "secure_classes env inst afterMark (cc # ccs) n =
     (if cc = CC_MARK then secure_classes env inst True ccs n
      else do { n1 \<leftarrow> secure_class env inst afterMark cc n; secure_classes env inst afterMark ccs n1 })"

definition SetSecuredClasses :: "node_env \<Rightarrow> uint8 \<Rightarrow> bytes \<Rightarrow> uint8 \<Rightarrow> uint32 \<Rightarrow> driver \<Rightarrow> driver option" where
  "SetSecuredClasses env nid data len inst d = do {
     n \<leftarrow> d_nodes d nid;
     let n0 = n\<lparr>n_secured := True\<rparr>;
     if \<not> ne_networkKey env then Some (put_node nid n0 d)
     else do {
       ccs \<leftarrow> peek_block data 0 (unat len);
       n1 \<leftarrow> secure_classes env inst False ccs n0;
       SetStaticRequests env nid (put_node nid n1 d)
     }
   }"

section \<open>The security class\<close>

abbreviation (input) SecurityCmd_SupportedGet :: uint8 where "SecurityCmd_SupportedGet \<equiv> 0x02"
abbreviation (input) SecurityCmd_SupportedReport :: uint8 where "SecurityCmd_SupportedReport \<equiv> 0x03"
abbreviation (input) SecurityCmd_SchemeReport :: uint8 where "SecurityCmd_SchemeReport \<equiv> 0x05"
abbreviation (input) SecurityCmd_NetworkKeySet :: uint8 where "SecurityCmd_NetworkKeySet \<equiv> 0x06"
abbreviation (input) SecurityCmd_NetworkKeyVerify :: uint8 where "SecurityCmd_NetworkKeyVerify \<equiv> 0x07"
abbreviation (input) SecurityCmd_SchemeInherit :: uint8 where "SecurityCmd_SchemeInherit \<equiv> 0x08"

definition encrypted_msg :: "string \<Rightarrow> uint8 \<Rightarrow> bytes \<Rightarrow> driver \<Rightarrow> msg" where
  "encrypted_msg text nid bs d = (security_msg text nid bs d)\<lparr>m_encrypted := True\<rparr>"

text \<open>
  \<open>Security::HandleMsg\<close> of node \<open>nid\<close>, given the network key; \<open>data\<close> starts with the command, \<open>len\<close> counts
  the class too.  The value that shows whether an instance is secured is left out.
\<close>

definition Security_HandleMsg ::
  "node_env \<Rightarrow> bytes \<Rightarrow> uint8 \<Rightarrow> bytes \<Rightarrow> uint32 \<Rightarrow> uint32 \<Rightarrow> driver \<Rightarrow> (bool \<times> driver) option" where
  "Security_HandleMsg env key nid data len inst d =
     (if data ! 0 = SecurityCmd_SupportedReport
      then map_option (Pair True) (SetSecuredClasses env nid (drop 2 data) (ucast (len - 3)) inst d)
      else if data ! 0 = SecurityCmd_SchemeReport then do {
        n \<leftarrow> d_nodes d nid;
        if n_schemeAgreed n \<or> data ! 1 \<noteq> 0 then Some (True, d)
        else do {
          d1 \<leftarrow> SendMsg (encrypted_msg ''SecurityCmd_NetworkKeySet'' nid (SecurityCmd_NetworkKeySet # take 16 key) d) MsgQueue_Command d;
          Some (True, map_node (\<lambda>n. n\<lparr>n_schemeAgreed := True\<rparr>) nid d1)
        }
      }
      else if data ! 0 = SecurityCmd_NetworkKeyVerify
      then map_option (Pair True) (SendMsg (encrypted_msg ''SecurityCmd_SupportedGet'' nid [SecurityCmd_SupportedGet] d) MsgQueue_Command d)
      else Some (data ! 0 \<in> {SecurityCmd_NetworkKeySet, SecurityCmd_SchemeInherit, SecurityCmd_NonceGet,
        SecurityCmd_NonceReport, SecurityCmd_MessageEncap, SecurityCmd_MessageEncapNonceGet}, d))"

section \<open>Frames for a node\<close>

text \<open>
  \<open>Node::ApplicationCommandHandler\<close>.  The classes other than \<open>SECURITY\<close> are an argument: \<open>handle nid cc
  controlled\<close> is \<open>HandleMsg\<close> or \<open>HandleIncomingMsg\<close> of class \<open>cc\<close>, given the frame.  \<open>enforce\<close> is the option
  \<open>EnforceSecureReception\<close>.
\<close>

abbreviation (input) CC_CONTROLLER_REPLICATION :: uint8 where "CC_CONTROLLER_REPLICATION \<equiv> 0x21"
abbreviation (input) FUNC_ID_ZW_REPLICATION_COMMAND_COMPLETE :: uint8 where
  "FUNC_ID_ZW_REPLICATION_COMMAND_COMPLETE \<equiv> 0x44"

type_synonym class_handler = "uint8 \<Rightarrow> uint8 \<Rightarrow> bool \<Rightarrow> bytes \<Rightarrow> driver \<Rightarrow> driver option"

definition dispatch :: "node_env \<Rightarrow> bytes \<Rightarrow> class_handler \<Rightarrow> uint8 \<Rightarrow> uint8 \<Rightarrow> bool \<Rightarrow> bytes \<Rightarrow> driver \<Rightarrow> driver option" where
  "dispatch env key handle nid cc controlled buf d =
     (if cc = CC_SECURITY then map_option snd (Security_HandleMsg env key nid (drop 8 buf) (ucast (dat buf 4)) 1 d)
      else handle nid cc controlled buf d)"

definition class_received :: "uint8 \<Rightarrow> node \<Rightarrow> node" where
  "class_received cc = map_class (\<lambda>c. c\<lparr>c_receivedCnt := c_receivedCnt c + 1\<rparr>) cc"

definition ApplicationCommandHandler ::
  "node_env \<Rightarrow> bytes \<Rightarrow> class_handler \<Rightarrow> bool \<Rightarrow> uint8 \<Rightarrow> bytes \<Rightarrow> bool \<Rightarrow> driver \<Rightarrow> driver option" where
  "ApplicationCommandHandler env key handle enforce nid buf encrypted d = do {
     n \<leftarrow> d_nodes d nid;
     let cc = dat buf 5;
     (case n_classes n cc of
        Some c \<Rightarrow>
          if c_secured c \<and> \<not> encrypted \<and> enforce then Some d
          else dispatch env key handle nid cc (c_afterMark c) buf (put_node nid (class_received cc n) d)
      | None \<Rightarrow>
          if cc = CC_CONTROLLER_REPLICATION
          then SendMsg (Msg_new ''Replication Command Complete'' nid REQUEST FUNC_ID_ZW_REPLICATION_COMMAND_COMPLETE False True 0 0)
                 MsgQueue_Command d
          else if cc = CC_MULTI_INSTANCE then
            (if m_queryStage (n_query n) \<noteq> St_Complete then Some d
             else let (new, n1) = AddCommandClass env cc n in
               if new then handle nid cc False buf (put_node nid (class_received cc n1) d) else Some d)
          else Some d)
   }"

section \<open>Adding classes keeps the driver well formed\<close>

text \<open>What the operations on classes keep of a node: everything but its classes, and a wake-up class
  that is there; one that is new has nothing pending.\<close>

definition same_wakeup :: "node \<Rightarrow> node \<Rightarrow> bool" where
  "same_wakeup n n' \<longleftrightarrow> n_nonces n' = n_nonces n \<and>
     (n_wakeUp n' = n_wakeUp n \<or> (n_wakeUp n = None \<and> (\<exists>w. n_wakeUp n' = Some w \<and> w_pending w = [])))"

lemma same_wakeup_refl [simp]: "same_wakeup n n"
  by (simp add: same_wakeup_def)

lemma same_wakeup_trans: "same_wakeup n m \<Longrightarrow> same_wakeup m k \<Longrightarrow> same_wakeup n k"
  by (auto simp: same_wakeup_def)

lemma same_wakeup_map_class [simp]:
  "same_wakeup n (map_class f cc m) \<longleftrightarrow> same_wakeup n m" "same_wakeup (map_class f cc n) m \<longleftrightarrow> same_wakeup n m"
  by (simp_all add: same_wakeup_def map_class_def)

lemma AddCommandClass_wakeup:
  assumes "AddCommandClass env cc n = (new, n')"
  shows "same_wakeup n n'"
  using assms by (auto simp: AddCommandClass_def same_wakeup_def has_class_def wakeup_new_def Let_def split: if_splits)

lemma needs_wakeup_wakeup [simp]: "same_wakeup n (needs_wakeup env n)"
  using AddCommandClass_wakeup [of env CC_WAKE_UP n]
  by (auto simp: needs_wakeup_def split: prod.split)

lemma add_mandatory_wakeup: "same_wakeup n (add_mandatory env mk ccs n)"
proof (induction env mk ccs n rule: add_mandatory.induct)
  case (2 env mk cc ccs n)
  obtain new n1 where a: "AddCommandClass env cc n = (new, n1)" by force
  show ?case using 2 a same_wakeup_trans [OF AddCommandClass_wakeup [OF a]] by (cases new) (auto intro: same_wakeup_trans)
qed simp

lemma add_optional_wakeup: "same_wakeup n (add_optional env mk ccs n)"
proof (induction env mk ccs n rule: add_optional.induct)
  case (2 env mk cc ccs n)
  obtain new n1 where a: "AddCommandClass env cc n = (new, n1)" by force
  show ?case using 2 a same_wakeup_trans [OF AddCommandClass_wakeup [OF a]] by (cases new) (auto intro: same_wakeup_trans)
qed simp

lemma SetDeviceClasses_wakeup: "same_wakeup n (SetDeviceClasses env b g s n)"
proof -
  have m: "same_wakeup n (AddMandatoryCommandClasses env ccs n)" for ccs n
    by (simp add: AddMandatoryCommandClasses_def add_mandatory_wakeup split: option.split)
  have "same_wakeup n (n\<lparr>n_basic := b, n_generic := g, n_specific := s\<rparr>)" by (simp add: same_wakeup_def)
  then show ?thesis
    using same_wakeup_trans [OF _ needs_wakeup_wakeup] same_wakeup_trans [OF _ m] 
    by (simp add: SetDeviceClasses_def Let_def split: option.split prod.split)
qed

lemma secure_class_wakeup:
  assumes "secure_class env inst mk cc n = Some n'"
  shows "same_wakeup n n'"
proof -
  obtain new n1 where a: "AddCommandClass env cc n = (new, n1)" by force
  show ?thesis
    using assms a AddCommandClass_wakeup [OF a]
    by (auto simp: secure_class_def secure_known_def Let_def split: if_splits Option.bind_splits)
qed

lemma secure_classes_wakeup: "secure_classes env inst mk ccs n = Some n' \<Longrightarrow> same_wakeup n n'"
proof (induction env inst mk ccs n rule: secure_classes.induct)
  case (2 env inst mk cc ccs n)
  then show ?case using secure_class_wakeup [of env inst mk cc n] same_wakeup_trans
    by (auto split: if_splits Option.bind_splits)
qed simp

lemma put_node_info:
  assumes g: "good sh d" and n: "d_nodes d nid = Some n" and s: "same_wakeup n n'"
  shows "good (sh(nid := Some (n_wakeUp n' \<noteq> None))) (put_node nid n' d)"
proof (cases "n_wakeUp n' = n_wakeUp n")
  case True
  have "good sh (put_node nid n' d)" by (rule put_node_good [OF g n True]) (use s in \<open>simp add: same_wakeup_def\<close>)
  moreover have "sh(nid := Some (n_wakeUp n' \<noteq> None)) = sh" using good_shape [OF g n] True by (simp add: fun_eq_iff)
  ultimately show ?thesis by simp
next
  case False
  then obtain w where w: "n_wakeUp n = None" "n_wakeUp n' = Some w" "w_pending w = []" "n_nonces n' = n_nonces n"
    using s by (auto simp: same_wakeup_def)
  let ?d = "put_node nid n' d"
  have p: "pending ?d = pending d" using n w by (auto simp: pending_put_node pending_def fun_eq_iff)
  have l: "live ?d = live d" by (simp add: live_def put_node_def fun_eq_iff)
  have "driver_inv ?d"
    using g p l event_ok_eq [of ?d d] by (simp add: good_def driver_inv_def heap_ok_live cmd_ok_def put_node_def)
  moreover have "shape ?d = (shape d)(nid := Some True)" using w by (auto simp: shape_def put_node_def fun_eq_iff)
  ultimately show ?thesis using g p w n unfolding good_def tame_def by (auto simp: put_node_def)
qed

text \<open>Node \<open>nid\<close> is there and the driver is well formed, but its wake-up class may be new.\<close>

definition keeps_info :: "(uint8 \<Rightarrow> bool option) \<Rightarrow> uint8 \<Rightarrow> driver option \<Rightarrow> bool" where
  "keeps_info sh nid r \<longleftrightarrow> (\<exists>d' b. r = Some d' \<and> good (sh(nid := Some b)) d')"

lemma keeps_info_node:
  assumes "good (sh(nid := Some b)) d"
  obtains n where "d_nodes d nid = Some n" "b = (n_wakeUp n \<noteq> None)"
  using good_node [OF assms, of nid b] by auto

lemma keeps_infoI: "good sh d \<Longrightarrow> d_nodes d nid = Some n \<Longrightarrow> keeps_info sh nid (Some d)"
  unfolding keeps_info_def
  by (intro exI [of _ d] exI [of _ "n_wakeUp n \<noteq> None"]) (use good_shape [of sh d nid n] in \<open>auto simp: fun_upd_idem\<close>)

lemma put_node_again:
  assumes g: "good (sh(nid := Some b)) d" and n: "d_nodes d nid = Some n" and s: "same_wakeup n n'"
  shows "keeps_info sh nid (Some (put_node nid n' d))"
  using put_node_info [OF g n s] by (auto simp: keeps_info_def)

lemma SetStaticRequests_good:
  assumes g: "good sh d" and e: "env_ok env" and n: "d_nodes d nid = Some n"
  shows "\<exists>d'. SetStaticRequests env nid d = Some d' \<and> good sh d'"
proof -
  define m where "m = n\<lparr>n_classes := (\<lambda>cc. map_option (\<lambda>c. c\<lparr>c_static := c_static c OR static_request n\<rparr>) (n_classes n cc))\<rparr>"
  have g1: "good sh (put_node nid m d)" by (rule put_node_good [OF g n]) (simp_all add: m_def)
  have "sh nid \<noteq> None" using good_shape [OF g n] by simp
  then show ?thesis
    using g n set_stage_node_good [OF g1 e, of nid St_ManufacturerSpecific2 True]
    by (simp add: SetStaticRequests_def m_def [symmetric])
qed

lemma UpdateNodeInfo_good:
  assumes g: "good sh d" and e: "env_ok env" and n: "d_nodes d nid = Some n" and l: "unat len \<le> length data"
  shows "keeps_info sh nid (UpdateNodeInfo env nid data len d)"
proof -
  have s: "sh nid = Some (n_wakeUp n \<noteq> None)" by (rule good_shape [OF g n])
  define r where "r = (if \<not> n_nodeInfoReceived n then do {
      ccs \<leftarrow> peek_block data 0 (unat len);
      d1 \<leftarrow> SetStaticRequests env nid (put_node nid (add_optional env False ccs n) d);
      n1 \<leftarrow> d_nodes d1 nid;
      Some (put_node nid (n1\<lparr>n_nodeInfoReceived := True\<rparr>) d1)
    }
    else if n_refreshOnInfo n then set_stage_node env St_Dynamic True nid d else Some d)"
  have "\<exists>d1 b. r = Some d1 \<and> good (sh(nid := Some b)) d1"
  proof (cases "n_nodeInfoReceived n")
    case True
    have u: "sh(nid := Some (n_wakeUp n \<noteq> None)) = sh" using s by (simp add: fun_eq_iff)
    obtain d1 where d1: "set_stage_node env St_Dynamic True nid d = Some d1" "good sh d1"
      using set_stage_node_good [OF g e, of nid St_Dynamic True] s by auto
    have "r = Some (if n_refreshOnInfo n then d1 else d)" using True d1(1) by (simp add: r_def)
    then show ?thesis
      by (intro exI [of _ "if n_refreshOnInfo n then d1 else d"] exI [of _ "n_wakeUp n \<noteq> None"]) (use u g d1(2) in auto)
  next
    case False
    define b where "b = (n_wakeUp (add_optional env False (take (unat len) data) n) \<noteq> None)"
    have g0: "good (sh(nid := Some b)) (put_node nid (add_optional env False (take (unat len) data) n) d)"
      unfolding b_def by (rule put_node_info [OF g n add_optional_wakeup])
    have "d_nodes (put_node nid (add_optional env False (take (unat len) data) n) d) nid =
      Some (add_optional env False (take (unat len) data) n)" by (simp add: put_node_def)
    then obtain d1 where d1: "SetStaticRequests env nid (put_node nid (add_optional env False (take (unat len) data) n) d) = Some d1"
      "good (sh(nid := Some b)) d1" using SetStaticRequests_good [OF g0 e] by blast
    from d1(2) obtain n1 where "d_nodes d1 nid = Some n1" by (rule keeps_info_node)
    then have "good (sh(nid := Some b)) (put_node nid (n1\<lparr>n_nodeInfoReceived := True\<rparr>) d1)" "d_nodes d1 nid = Some n1"
      using put_node_good [OF d1(2)] by simp_all
    then show ?thesis using False d1(1) l by (auto simp: r_def frame_simps)
  qed
  then obtain d1 b where d1: "r = Some d1" "good (sh(nid := Some b)) d1" by blast
  obtain n2 where n2: "d_nodes d1 nid = Some n2" "b = (n_wakeUp n2 \<noteq> None)" by (rule keeps_info_node [OF d1(2)])
  have "UpdateNodeInfo env nid data len d = (if n_wakeUp n2 \<noteq> None then SetAwake env True nid d1 else Some d1)"
    using n d1(1) n2 by (simp add: UpdateNodeInfo_def r_def [symmetric])
  then show ?thesis using d1(2) n2 SetAwake_good [OF d1(2) e, of nid True] by (auto simp: keeps_info_def)
qed

lemma map_node_info:
  assumes g: "good (sh(nid := Some b)) d" and s: "\<And>n. same_wakeup n (f n)"
  shows "\<exists>b. good (sh(nid := Some b)) (map_node f nid d)"
proof -
  obtain n where n: "d_nodes d nid = Some n" by (rule keeps_info_node [OF g])
  then show ?thesis using put_node_again [OF g n s] by (simp add: map_node_def keeps_info_def)
qed

lemma set_button_simps [simp]:
  "n_wakeUp (set_button b v n) = n_wakeUp n" "n_nonces (set_button b v n) = n_nonces n"
  by (simp_all add: set_button_def)

lemma ReadButtons_good:
  assumes "good sh d"
  shows "good sh (ReadButtons env nid d)"
proof -
  have "good sh (fold (read_button nid) bs d)" if "good sh d" for bs d
    using that by (induction bs arbitrary: d) (simp_all add: read_button_def map_node_good)
  then show ?thesis using assms by (simp add: ReadButtons_def)
qed

lemma UpdateProtocolInfo_good:
  assumes g: "good sh d" and e: "env_ok env" and n: "d_nodes d nid = Some n"
  shows "keeps_info sh nid (UpdateProtocolInfo env nid data d)"
proof -
  consider "n_protocolInfoReceived n" | "\<not> n_protocolInfoReceived n" "data ! 4 = 0"
    | "\<not> n_protocolInfoReceived n" "data ! 4 \<noteq> 0" by blast
  then show ?thesis
  proof cases
    case 1
    then show ?thesis using keeps_infoI [OF g n] n by (simp add: UpdateProtocolInfo_def)
  next
    case 2
    obtain d1 where d1: "SetNodeAlive env False nid d = Some d1" "good sh d1" using SetNodeAlive_good [OF g e n] by blast
    have "sh nid \<noteq> None" using good_shape [OF g n] by simp
    then obtain b where "sh nid = Some b" by auto
    then have "\<exists>n. d_nodes d1 nid = Some n" using good_node [OF d1(2)] by blast
    then show ?thesis using d1 n 2 keeps_infoI [OF d1(2)] by (auto simp: UpdateProtocolInfo_def)
  next
    case 3
    define n1 where "n1 = protocol_flags data n"
    define n2 where "n2 = SetDeviceClasses env (data ! 3) (data ! 4) (data ! 5) n1"
    define d2 where "d2 = put_node nid n2 (notify (Note_NodeProtocolInfo nid) d)"
    define d1 where "d1 = (if n_basicInfoReceived n1 then put_node nid n1 d
      else map_node (\<lambda>n. n\<lparr>n_basicInfoReceived := True\<rparr>) nid (if IsController n2 then ReadButtons env nid d2 else d2))"
    have w: "same_wakeup n n1" "same_wakeup n n2"
      using SetDeviceClasses_wakeup [of n1] by (simp_all add: n1_def n2_def protocol_flags_def same_wakeup_def)
    have "\<exists>b. good (sh(nid := Some b)) d1"
    proof (cases "n_basicInfoReceived n1")
      case True
      then show ?thesis using put_node_info [OF g n w(1)] by (auto simp: d1_def)
    next
      case False
      have "d_nodes (notify (Note_NodeProtocolInfo nid) d) nid = Some n" using n by (simp add: notify_def)
      then have "good (sh(nid := Some (n_wakeUp n2 \<noteq> None))) d2"
        unfolding d2_def by (rule put_node_info [OF good_simps(1) [OF g] _ w(2)])
      then have b: "good (sh(nid := Some (n_wakeUp n2 \<noteq> None))) (if IsController n2 then ReadButtons env nid d2 else d2)"
        using ReadButtons_good by simp
      show ?thesis using map_node_info [OF b, of "\<lambda>n. n\<lparr>n_basicInfoReceived := True\<rparr>"] False
        by (simp add: d1_def same_wakeup_def)
    qed
    then obtain b where b: "good (sh(nid := Some b)) d1" by blast
    have "same_wakeup m ((needs_wakeup env m)\<lparr>n_protocolInfoReceived := True\<rparr>)" for m
      using needs_wakeup_wakeup [of m env] by (simp add: same_wakeup_def)
    from map_node_info [OF b this]
    have k: "\<exists>b. good (sh(nid := Some b)) (map_node (\<lambda>n. (needs_wakeup env n)\<lparr>n_protocolInfoReceived := True\<rparr>) nid d1)" .
    have "UpdateProtocolInfo env nid data d = Some (map_node (\<lambda>n. (needs_wakeup env n)\<lparr>n_protocolInfoReceived := True\<rparr>) nid d1)"
      using n 3 unfolding d1_def d2_def n2_def n1_def by (simp add: UpdateProtocolInfo_def Let_def)
    then show ?thesis using k by (simp add: keeps_info_def)
  qed
qed

section \<open>Adding nodes keeps the driver well formed\<close>

lemma finishes_fold: "length bs < 200 \<Longrightarrow> finishes (fold Append bs (Msg_new t n REQUEST f cb r e c))"
  by (rule finishes_plain) (simp_all add: Append_all_fields Msg_new_fields unat_word_ariths unat_of_nat)

lemma finishes_fold_encrypted:
  "length bs < 200 \<Longrightarrow> finishes ((fold Append bs (Msg_new t n REQUEST f cb r e c))\<lparr>m_encrypted := True\<rparr>)"
  by (rule finishes_plain) (simp_all add: Append_all_fields Msg_new_fields unat_word_ariths unat_of_nat)

lemma finishes_security: "length bs < 190 \<Longrightarrow> finishes (security_msg text nid bs d)"
  unfolding security_msg_def by (rule finishes_fold) simp

lemma finishes_encrypted: "length bs < 190 \<Longrightarrow> finishes (encrypted_msg text nid bs d)"
  unfolding encrypted_msg_def security_msg_def by (rule finishes_fold_encrypted) simp

lemma ExchangeNetworkKeys_good:
  assumes g: "good sh d" and n: "d_nodes d nid = Some n"
  shows "\<exists>d'. ExchangeNetworkKeys nid d = Some d' \<and> good sh d'"
  using n g SendMsg_good [OF g finishes_security, of "[SecurityCmd_SchemeGet, 0]"]
  by (simp add: ExchangeNetworkKeys_def)

text \<open>The security class is named at most once in the bytes.\<close>

lemma find_security_good:
  assumes "good (sh(nid := Some b)) d" and "env_ok env" and "length (filter (\<lambda>cc. cc = CC_SECURITY) ccs) \<le> 1"
    and "d_nodes d nid = Some n" and "\<not> has_class CC_SECURITY n \<or> CC_SECURITY \<notin> set ccs"
  shows "keeps_info sh nid (find_security env nid ccs d)"
  using assms
proof (induction ccs arbitrary: d n b)
  case Nil
  then show ?case unfolding keeps_info_def find_security.simps by blast
next
  case (Cons cc ccs)
  show ?case
  proof (cases "cc = CC_SECURITY")
    case False
    then show ?thesis using Cons.IH [OF Cons.prems(1,2) _ Cons.prems(4)] Cons.prems(3,5) by auto
  next
    case True
    then have no: "CC_SECURITY \<notin> set ccs" using Cons.prems(3) by (auto simp: filter_empty_conv)
    obtain n1 where a: "AddCommandClass env CC_SECURITY n = (True, n1)"
      using Cons.prems(5) True by (simp add: AddCommandClass_def registered_classes_def Let_def)
    obtain b1 where b1: "good (sh(nid := Some b1)) (put_node nid n1 d)"
      using put_node_again [OF Cons.prems(1,4) AddCommandClass_wakeup [OF a]] by (auto simp: keeps_info_def)
    have n1: "d_nodes (put_node nid n1 d) nid = Some n1" by (simp add: put_node_def)
    obtain d2 where d2: "(if \<not> ne_networkKey env then Some (put_node nid n1 d) else ExchangeNetworkKeys nid (put_node nid n1 d)) = Some d2"
      "good (sh(nid := Some b1)) d2"
      using ExchangeNetworkKeys_good [OF b1 n1] b1 by (cases "ne_networkKey env") auto
    obtain n2 where n2: "d_nodes d2 nid = Some n2" by (rule keeps_info_node [OF d2(2)])
    have "filter (\<lambda>cc. cc = CC_SECURITY) ccs = []" using no by (auto simp: filter_empty_conv)
    then have "keeps_info sh nid (find_security env nid ccs d2)"
      by (intro Cons.IH [OF d2(2) Cons.prems(2) _ n2]) (use no in simp_all)
    then show ?thesis using True Cons.prems(4) a d2(1) by (cases "ne_networkKey env") simp_all
  qed
qed

text \<open>The frame is long enough for its three device classes and names the security class at most once.\<close>

definition frame_ok :: "bytes \<Rightarrow> uint8 \<Rightarrow> bool" where
  "frame_ok info len \<longleftrightarrow> 3 \<le> unat len \<and> unat len \<le> length info \<and>
     length (filter (\<lambda>cc. cc = CC_SECURITY) (drop 3 (take (unat len) info))) \<le> 1"

lemma SetProtocolInfo_good:
  assumes g: "good sh d" and e: "env_ok env" and n: "d_nodes d nid = Some n" and f: "frame_ok info len"
  shows "keeps_info sh nid (SetProtocolInfo env nid info len d)"
proof -
  have len: "3 \<le> unat len" "unat len \<le> length info" using f by (simp_all add: frame_ok_def)
  have l: "unat (len - 3) \<le> length (drop 3 info)" using len by (simp add: unat_sub word_le_nat_alt)
  consider "n_protocolInfoReceived n \<or> n_basicInfoReceived n"
    | "\<not> n_protocolInfoReceived n" "\<not> n_basicInfoReceived n" "info ! 1 = 0"
    | "\<not> n_protocolInfoReceived n" "\<not> n_basicInfoReceived n" "info ! 1 \<noteq> 0" by blast
  then show ?thesis
  proof cases
    case 1
    then show ?thesis using keeps_infoI [OF g n] n by (simp add: SetProtocolInfo_def)
  next
    case 2
    obtain d1 where d1: "SetNodeAlive env False nid d = Some d1" "good sh d1" using SetNodeAlive_good [OF g e n] by blast
    have "sh nid \<noteq> None" using good_shape [OF g n] by simp
    then obtain b where "sh nid = Some b" by auto
    then have "\<exists>n. d_nodes d1 nid = Some n" using good_node [OF d1(2)] by blast
    then show ?thesis using d1 n 2 keeps_infoI [OF d1(2)] by (auto simp: SetProtocolInfo_def)
  next
    case 3
    define n1 where "n1 = SetDeviceClasses env (info ! 0) (info ! 1) (info ! 2) n"
    define d1 where "d1 = put_node nid n1 (notify (Note_NodeProtocolInfo nid) d)"
    define r2 where "r2 = (if \<not> n_secured n1 then Some d1
      else if has_class CC_SECURITY n1 then (if ne_networkKey env then ExchangeNetworkKeys nid d1 else Some d1)
      else find_security env nid (drop 3 (take (unat len) info)) d1)"
    have "d_nodes (notify (Note_NodeProtocolInfo nid) d) nid = Some n" using n by (simp add: notify_def)
    then have g1: "good (sh(nid := Some (n_wakeUp n1 \<noteq> None))) d1"
      unfolding d1_def n1_def by (rule put_node_info [OF good_simps(1) [OF g] _ SetDeviceClasses_wakeup])
    have n1: "d_nodes d1 nid = Some n1" by (simp add: d1_def put_node_def)
    have "keeps_info sh nid r2"
    proof (cases "n_secured n1 \<and> \<not> has_class CC_SECURITY n1")
      case True
      then show ?thesis using find_security_good [OF g1 e _ n1] f by (simp add: r2_def frame_ok_def)
    next
      case False
      then show ?thesis using g1 ExchangeNetworkKeys_good [OF g1 n1] unfolding r2_def keeps_info_def
        by (cases "n_secured n1"; cases "ne_networkKey env") auto
    qed
    then obtain d2 b2 where d2: "r2 = Some d2" "good (sh(nid := Some b2)) d2" by (auto simp: keeps_info_def)
    obtain n2 where n2: "d_nodes d2 nid = Some n2" by (rule keeps_info_node [OF d2(2)])
    obtain d3 b3 where d3: "UpdateNodeInfo env nid (drop 3 info) (len - 3) d2 = Some d3" "good (sh(nid := Some b3)) d3"
      using UpdateNodeInfo_good [OF d2(2) e n2 l] unfolding keeps_info_def fun_upd_upd by blast
    obtain n3 where n3: "d_nodes d3 nid = Some n3" by (rule keeps_info_node [OF d3(2)])
    have "SetProtocolInfo env nid info len d = do {
        d2 \<leftarrow> r2;
        d3 \<leftarrow> UpdateNodeInfo env nid (drop 3 info) (len - 3) d2;
        n3 \<leftarrow> d_nodes d3 nid;
        Some (put_node nid (n3\<lparr>n_basicInfoReceived := True\<rparr>) d3)
      }" using 3 n unfolding r2_def d1_def n1_def by (simp add: SetProtocolInfo_def Let_def)
    then have "SetProtocolInfo env nid info len d = Some (put_node nid (n3\<lparr>n_basicInfoReceived := True\<rparr>) d3)"
      using d2(1) d3(1) n3 by simp
    moreover have "keeps_info sh nid (Some (put_node nid (n3\<lparr>n_basicInfoReceived := True\<rparr>) d3))"
      by (rule put_node_again [OF d3(2) n3]) (simp add: same_wakeup_def)
    ultimately show ?thesis by simp
  qed
qed

lemma InitNode_info_good:
  assumes g: "good sh d" and e: "env_ok env" and f: "len = 0 \<or> frame_ok info len"
  shows "keeps_info sh nid (InitNode_info env nid nn sec info len d)"
proof (cases "len = 0")
  case True
  then show ?thesis using InitNode_good [OF g e, of nid nn] unfolding InitNode_info_def keeps_info_def by auto
next
  case False
  obtain d1 where d1: "fresh_node nid nn d = Some d1" "good (sh(nid := Some False)) d1"
    "d_nodes d1 nid = Some (Node_new\<lparr>n_addingNode := nn\<rparr>)" using fresh_node_good [OF g] by blast
  define d2 where "d2 = (if ne_networkKey env then map_node (\<lambda>n. n\<lparr>n_secured := sec\<rparr>) nid d1 else d1)"
  have g2: "good (sh(nid := Some False)) d2" using d1(2) by (auto simp: d2_def intro!: map_node_good)
  obtain n2 where n2: "d_nodes d2 nid = Some n2" by (rule keeps_info_node [OF g2])
  have "keeps_info sh nid (SetProtocolInfo env nid info len d2)"
    using SetProtocolInfo_good [OF g2 e n2] f False unfolding keeps_info_def fun_upd_upd by blast
  then show ?thesis using False d1(1) by (simp add: InitNode_info_def d2_def)
qed

end
