(* ===== verification/Node_Info_Laws.thy ===== *)
theory Node_Info_Laws
  imports Node_Info Receive_Laws
begin

text \<open>
  What the set-up of a node (\<open>Node_Info\<close>) shows: the classes a node information frame adds, the classes a
  security report secures, and two failures of adding a node with its information.
\<close>

section \<open>What a node information frame does to the classes\<close>

lemma AddCommandClass_other:
  "AddCommandClass env x n = (new, n') \<Longrightarrow> cc \<noteq> x \<Longrightarrow> n_classes n' cc = n_classes n cc"
  by (auto simp: AddCommandClass_def Let_def split: if_splits)

lemma AddCommandClass_old: "n_classes n x = Some c \<Longrightarrow> AddCommandClass env x n = (False, n)"
  by (simp add: AddCommandClass_def has_class_def)

lemma AddCommandClass_created:
  assumes "\<not> has_class x n" and "x \<in> set registered_classes"
  obtains n' c where "AddCommandClass env x n = (True, n')" "n_classes n' x = Some c" "c_secured c = False"
    "c_afterMark c = False" "c_inNIF c = False" "c_instances c = {}"
  using assms that by (simp add: AddCommandClass_def class_new_def Let_def split: if_splits)

lemma AddCommandClass_unknown: "x \<notin> set registered_classes \<Longrightarrow> AddCommandClass env x n = (False, n)"
  by (simp add: AddCommandClass_def)

lemma AddCommandClass_old_iff: "AddCommandClass env x n = (False, n') \<Longrightarrow> n' = n"
  by (auto simp: AddCommandClass_def Let_def split: if_splits)

lemma map_class_simps [simp]:
  "n_classes (map_class f x n) x = map_option f (n_classes n x)"
  "cc \<noteq> x \<Longrightarrow> n_classes (map_class f x n) cc = n_classes n cc"
  "n_wakeUp (map_class f x n) = n_wakeUp n"
  by (simp_all add: map_class_def)

text \<open>The class is named in the list, supported, and not the security class without a network key.\<close>

definition named :: "node_env \<Rightarrow> bytes \<Rightarrow> uint8 \<Rightarrow> bool" where
  "named env ccs cc \<longleftrightarrow> cc \<in> set ccs \<and> cc \<noteq> CC_MARK \<and> ne_supported env cc \<and> (cc = CC_SECURITY \<longrightarrow> ne_networkKey env)"

lemma add_optional_unnamed: "\<not> named env ccs cc \<Longrightarrow> n_classes (add_optional env mk ccs n) cc = n_classes n cc"
proof (induction env mk ccs n rule: add_optional.induct)
  case (2 env mk x ccs n)
  obtain new n1 where a: "AddCommandClass env x n = (new, n1)" by force
  have u: "\<not> named env ccs cc" using 2(4) by (auto simp: named_def)
  show ?case
  proof (cases "x = CC_MARK \<or> \<not> ne_supported env x \<or> (x = CC_SECURITY \<and> \<not> ne_networkKey env)")
    case True
    then show ?thesis using 2(1,2) u by (auto simp: named_def)
  next
    case False
    then have "cc \<noteq> x" using 2(4) by (auto simp: named_def)
    then show ?thesis using 2(3) [OF _ _ a [symmetric] refl] False u a AddCommandClass_other [OF a] by (cases new) auto
  qed
qed simp

lemma add_optional_known:
  "n_classes n cc = Some c \<Longrightarrow> named env ccs cc \<Longrightarrow>
   n_classes (add_optional env mk ccs n) cc = Some (c\<lparr>c_inNIF := True\<rparr>)"
proof (induction env mk ccs n arbitrary: c rule: add_optional.induct)
  case (1 env mk n)
  then show ?case by (simp add: named_def)
next
  case (2 env mk x ccs n)
  obtain new n1 where a: "AddCommandClass env x n = (new, n1)" by force
  show ?case
  proof (cases "x = CC_MARK \<or> \<not> ne_supported env x \<or> (x = CC_SECURITY \<and> \<not> ne_networkKey env)")
    case True
    then show ?thesis using 2(1,2,4,5) by (auto simp: named_def)
  next
    case False
    note IH = 2(3) [OF _ _ a [symmetric] refl]
    show ?thesis
    proof (cases "x = cc")
      case True
      then have a': "AddCommandClass env x n = (False, n)" using AddCommandClass_old 2(4) by blast
      let ?m = "map_class (\<lambda>c. c\<lparr>c_inNIF := True\<rparr>) x n"
      have m: "n_classes ?m cc = Some (c\<lparr>c_inNIF := True\<rparr>)" using 2(4) True by simp
      then have "n_classes (add_optional env mk ccs ?m) cc = Some (c\<lparr>c_inNIF := True\<rparr>)"
        using add_optional_unnamed [of env ccs cc mk ?m] IH [where c = "c\<lparr>c_inNIF := True\<rparr>"] a a' False
        by (cases "named env ccs cc") auto
      then show ?thesis using False a' by auto
    next
      case neq: False
      then have n: "named env ccs cc" using 2(5) by (auto simp: named_def)
      have "n_classes n1 cc = Some c" using AddCommandClass_other [OF a] neq 2(4) by simp
      then show ?thesis using IH [where c = c] False a n neq by (cases new) auto
    qed
  qed
qed

lemma add_optional_new:
  "\<not> has_class cc n \<Longrightarrow> named env ccs cc \<Longrightarrow> cc \<in> set registered_classes \<Longrightarrow>
   \<exists>c. n_classes (add_optional env mk ccs n) cc = Some c \<and> c_inNIF c \<and> \<not> c_secured c \<and> c_instances c = {1} \<and>
     c_afterMark c = (mk \<or> CC_MARK \<in> set (takeWhile (\<lambda>x. x \<noteq> cc) ccs))"
proof (induction env mk ccs n rule: add_optional.induct)
  case (1 env mk n)
  then show ?case by (simp add: named_def)
next
  case (2 env mk x ccs n)
  obtain new n1 where a: "AddCommandClass env x n = (new, n1)" by force
  have mark: "cc \<noteq> CC_MARK" using 2(5) by (simp add: named_def)
  show ?case
  proof (cases "x = CC_MARK \<or> \<not> ne_supported env x \<or> (x = CC_SECURITY \<and> \<not> ne_networkKey env)")
    case True
    then show ?thesis using 2(1,2,4,5,6) mark by (auto simp: named_def)
  next
    case False
    show ?thesis
    proof (cases "x = cc")
      case True
      obtain n' c where c: "AddCommandClass env x n = (True, n')" "n_classes n' x = Some c" "c_secured c = False"
        "c_afterMark c = False" "c_inNIF c = False" "c_instances c = {}"
        using AddCommandClass_created [of x n env] 2(4,6) True by blast
      let ?c = "cc_SetInstance 1 (c\<lparr>c_inNIF := True, c_afterMark := (c_afterMark c \<or> mk)\<rparr>)"
      let ?m = "map_class (\<lambda>c. cc_SetInstance 1 (c\<lparr>c_inNIF := True, c_afterMark := (c_afterMark c \<or> mk)\<rparr>)) x n'"
      have m: "n_classes ?m cc = Some ?c" using c(2) True by simp
      have "?c\<lparr>c_inNIF := True\<rparr> = ?c" by (simp add: cc_SetInstance_def)
      then have "n_classes (add_optional env mk ccs ?m) cc = Some ?c"
        using m add_optional_unnamed [of env ccs cc mk ?m] add_optional_known [OF m, of env ccs mk] by (cases "named env ccs cc") simp_all
      then show ?thesis using False c True by (auto simp: cc_SetInstance_def)
    next
      case neq: False
      have "\<not> has_class cc n1"
        using 2(4) AddCommandClass_other [OF a] neq a by (auto simp: has_class_def AddCommandClass_def Let_def split: if_splits)
      moreover have "named env ccs cc" using 2(5) neq by (auto simp: named_def)
      ultimately show ?thesis
        using 2(3) [OF _ _ a [symmetric] refl] False a neq 2(6) by (cases new) (auto simp: has_class_def)
    qed
  qed
qed

lemma add_optional_unknown:
  "cc \<notin> set registered_classes \<Longrightarrow> n_classes n cc = None \<Longrightarrow> n_classes (add_optional env mk ccs n) cc = None"
proof (induction env mk ccs n rule: add_optional.induct)
  case (2 env mk x ccs n)
  obtain new n1 where a: "AddCommandClass env x n = (new, n1)" by force
  show ?case
  proof (cases "x = CC_MARK \<or> \<not> ne_supported env x \<or> (x = CC_SECURITY \<and> \<not> ne_networkKey env)")
    case True
    then show ?thesis using 2(1,2,4,5) by auto
  next
    case False
    have k: "n_classes n1 cc = None"
      using AddCommandClass_other [OF a, of cc] AddCommandClass_unknown [OF 2(4), of env n] a 2(5) by (cases "cc = x") auto
    have m: "n_classes (map_class f x n1) cc = None" for f using k by (cases "cc = x") simp_all
    show ?thesis using 2(3) [OF _ _ a [symmetric] refl] False a m 2(4) by (cases new) auto
  qed
qed simp

text \<open>(C28) A node information frame adds exactly the classes it names: a class that is not named, not supported, or
  is the security class without a network key stays as it was; a known class that is named is only marked as
  named in the frame; a new one is created, unsecured, with one instance, and as only controlled exactly when
  the mark comes before its first mention; a class there is no code for is not added.\<close>

theorem add_optional_exact:
  assumes w: "has_class cc n \<Longrightarrow> n_classes n cc \<noteq> None"
  shows "(\<not> named env ccs cc \<longrightarrow> n_classes (add_optional env False ccs n) cc = n_classes n cc) \<and>
    (\<forall>c. named env ccs cc \<and> n_classes n cc = Some c \<longrightarrow>
      n_classes (add_optional env False ccs n) cc = Some (c\<lparr>c_inNIF := True\<rparr>)) \<and>
    (named env ccs cc \<and> n_classes n cc = None \<and> cc \<in> set registered_classes \<longrightarrow>
      (\<exists>c. n_classes (add_optional env False ccs n) cc = Some c \<and> c_inNIF c \<and> \<not> c_secured c \<and> c_instances c = {1} \<and>
        (c_afterMark c \<longleftrightarrow> CC_MARK \<in> set (takeWhile (\<lambda>x. x \<noteq> cc) ccs)))) \<and>
    (named env ccs cc \<and> n_classes n cc = None \<and> cc \<notin> set registered_classes \<longrightarrow>
      n_classes (add_optional env False ccs n) cc = None)"
proof -
  have "n_classes n cc = None \<Longrightarrow> \<not> has_class cc n" using w by blast
  then show ?thesis
    using add_optional_unnamed [of env ccs cc False n] add_optional_known [of n cc _ env ccs False]
      add_optional_new [of cc n env ccs False] add_optional_unknown [of cc n env False ccs] by auto
qed

theorem add_optional_exact_witness:
  "\<exists>c. n_classes (add_optional quiet_env False [0x25, 0xef, 0x86] Node_new) 0x86 = Some c \<and> c_afterMark c"
proof -
  have n: "named quiet_env [0x25, 0xef, 0x86] 0x86" "n_classes Node_new 0x86 = None" "0x86 \<in> set registered_classes"
    by (simp_all add: named_def quiet_env_def registered_classes_def Node_new_def)
  have "has_class 0x86 Node_new \<Longrightarrow> n_classes Node_new 0x86 \<noteq> None" by (simp add: has_class_def)
  from add_optional_exact [OF this, of quiet_env "[0x25, 0xef, 0x86]"] n show ?thesis
    by (auto simp del: add_optional.simps)
qed

section \<open>What a report of secured classes does\<close>

lemma secure_known_single: "inst \<le> 1 \<Longrightarrow> secure_known env inst cc n =
  Some (map_class (\<lambda>c. if c_inNIF c \<and> \<not> ne_alsoSecure env cc then c else set_secured cc c) cc n)"
  by (simp add: secure_known_def Let_def not_less [symmetric])

definition secured_by_report :: "node_env \<Rightarrow> uint8 \<Rightarrow> cc_state \<Rightarrow> cc_state" where
  "secured_by_report env cc c =
     c\<lparr>c_secured := (c_secured c \<or> (cc \<noteq> CC_SECURITY \<and> (c_inNIF c \<longrightarrow> ne_alsoSecure env cc)))\<rparr>"

lemma secured_by_report_eq:
  "(if c_inNIF c \<and> \<not> ne_alsoSecure env cc then c else set_secured cc c) = secured_by_report env cc c"
  "secured_by_report env cc (secured_by_report env cc c) = secured_by_report env cc c"
  by (auto simp: secured_by_report_def set_secured_def IsSecureSupported_def)

definition reported :: "bytes \<Rightarrow> uint8 \<Rightarrow> bool" where
  "reported ccs cc \<longleftrightarrow> cc \<in> set ccs \<and> cc \<noteq> CC_MARK"

lemma secure_class_other:
  assumes "secure_class env inst mk x n = Some m" and "inst \<le> 1" and "cc \<noteq> x"
  shows "n_classes m cc = n_classes n cc" "has_class cc m = has_class cc n"
proof -
  obtain new n1 where a: "AddCommandClass env x n = (new, n1)" by force
  have "n_classes n1 cc = n_classes n cc" "has_class cc n1 = has_class cc n"
    using AddCommandClass_other [OF a assms(3)] a assms(3)
    by (auto simp: has_class_def AddCommandClass_def Let_def split: if_splits)
  then show "n_classes m cc = n_classes n cc" "has_class cc m = has_class cc n"
    using assms secure_known_single [OF assms(2)] a
    by (auto simp: secure_class_def has_class_def split: if_splits)
qed

lemma secure_class_known:
  assumes "secure_class env inst mk x n = Some m" and "inst \<le> 1" and "n_classes n x = Some c"
  shows "n_classes m x = Some (secured_by_report env x c)"
  using assms secure_known_single [OF assms(2)] by (auto simp: secure_class_def has_class_def secured_by_report_eq)

lemma secure_class_new:
  assumes "secure_class env inst mk x n = Some m" and "\<not> has_class x n" and "ne_supported env x"
    and "x \<in> set registered_classes"
  obtains c where "n_classes m x = Some c" "c_secured c = (x \<noteq> CC_SECURITY)" "\<not> c_inNIF c"
proof -
  obtain n1 c where "AddCommandClass env x n = (True, n1)" "n_classes n1 x = Some c" "c_secured c = False" "c_inNIF c = False"
    using AddCommandClass_created [OF assms(2,4)] by metis
  then show ?thesis using assms(1-3) that
    by (auto simp: secure_class_def set_secured_def IsSecureSupported_def cc_SetInstance_def split: if_splits)
qed

lemma secure_classes_unreported:
  "secure_classes env inst mk ccs n = Some n' \<Longrightarrow> inst \<le> 1 \<Longrightarrow> \<not> reported ccs cc \<Longrightarrow> n_classes n' cc = n_classes n cc"
proof (induction env inst mk ccs n rule: secure_classes.induct)
  case (2 env inst mk x ccs n)
  have "\<not> reported ccs cc" using 2(5) by (auto simp: reported_def)
  moreover have "cc \<noteq> x" if "x \<noteq> CC_MARK" using that 2(5) by (auto simp: reported_def)
  ultimately show ?case using 2(1,2,3,4) secure_class_other(1) [of env inst mk x n _ cc]
    by (auto split: if_splits Option.bind_splits)
qed simp

lemma secure_classes_known:
  "secure_classes env inst mk ccs n = Some n' \<Longrightarrow> inst \<le> 1 \<Longrightarrow> n_classes n cc = Some c \<Longrightarrow> reported ccs cc \<Longrightarrow>
   n_classes n' cc = Some (secured_by_report env cc c)"
proof (induction env inst mk ccs n arbitrary: c rule: secure_classes.induct)
  case (1 env inst mk n)
  then show ?case by (simp add: reported_def)
next
  case (2 env inst mk x ccs n)
  show ?case
  proof (cases "x = CC_MARK")
    case True
    then show ?thesis using 2(1) 2(3-6) by (auto simp: reported_def)
  next
    case False
    then obtain m where m: "secure_class env inst mk x n = Some m" "secure_classes env inst mk ccs m = Some n'"
      using 2(3) by (auto split: Option.bind_splits)
    show ?thesis
    proof (cases "x = cc")
      case True
      have "n_classes m cc = Some (secured_by_report env cc c)" using secure_class_known [OF m(1) 2(4)] 2(5) True by simp
      then show ?thesis
        using 2(2) [OF False m 2(4)] secure_classes_unreported [OF m(2) 2(4)]
        by (cases "reported ccs cc") (simp_all add: secured_by_report_eq)
    next
      case neq: False
      then have "reported ccs cc" using 2(6) by (auto simp: reported_def)
      moreover have "n_classes m cc = Some c" using secure_class_other(1) [OF m(1) 2(4)] neq 2(5) by simp
      ultimately show ?thesis using 2(2) [OF False m 2(4)] by simp
    qed
  qed
qed

lemma secure_classes_new:
  "secure_classes env inst mk ccs n = Some n' \<Longrightarrow> inst \<le> 1 \<Longrightarrow> \<not> has_class cc n \<Longrightarrow> reported ccs cc \<Longrightarrow>
   ne_supported env cc \<Longrightarrow> cc \<in> set registered_classes \<Longrightarrow>
   \<exists>c. n_classes n' cc = Some c \<and> c_secured c = (cc \<noteq> CC_SECURITY)"
proof (induction env inst mk ccs n rule: secure_classes.induct)
  case (1 env inst mk n)
  then show ?case by (simp add: reported_def)
next
  case (2 env inst mk x ccs n)
  show ?case
  proof (cases "x = CC_MARK")
    case True
    then show ?thesis using 2(1) 2(3-8) by (auto simp: reported_def)
  next
    case False
    then obtain m where m: "secure_class env inst mk x n = Some m" "secure_classes env inst mk ccs m = Some n'"
      using 2(3) by (auto split: Option.bind_splits)
    show ?thesis
    proof (cases "x = cc")
      case True
      obtain c where c: "n_classes m x = Some c" "c_secured c = (x \<noteq> CC_SECURITY)" "\<not> c_inNIF c"
        using secure_class_new [OF m(1)] 2(5,7,8) True by auto
      then show ?thesis
        using secure_classes_known [OF m(2) 2(4)] secure_classes_unreported [OF m(2) 2(4)] True
        by (cases "reported ccs cc") (auto simp: secured_by_report_def)
    next
      case neq: False
      then have "reported ccs cc" using 2(6) by (auto simp: reported_def)
      moreover have "\<not> has_class cc m" using secure_class_other(2) [OF m(1) 2(4)] neq 2(5) by simp
      ultimately show ?thesis using 2(2) [OF False m 2(4)] 2(7,8) by simp
    qed
  qed
qed

lemma secure_classes_defined: "inst \<le> 1 \<Longrightarrow> \<exists>n'. secure_classes env inst mk ccs n = Some n'"
proof (induction ccs arbitrary: mk n)
  case (Cons x ccs)
  have "\<exists>m. secure_class env inst mk x n = Some m"
    using secure_known_single [OF Cons.prems] by (simp add: secure_class_def split: prod.split)
  then show ?case using Cons.IH [OF Cons.prems] by (cases "x = CC_MARK") auto
qed simp

text \<open>The report of secured classes decides which classes are only taken encrypted.  A class the node did not name in the
  clear is secured when it is reported, one it did name only if the option says so, a class unknown before
  is created and secured; the class \<open>SECURITY\<close> itself never is, and a class that is not reported keeps
  its state.\<close>

theorem secure_classes_exact:
  assumes "secure_classes env inst False ccs n = Some n'" and "inst \<le> 1"
  shows "(\<not> reported ccs cc \<longrightarrow> n_classes n' cc = n_classes n cc) \<and>
    (\<forall>c. reported ccs cc \<and> n_classes n cc = Some c \<longrightarrow>
      n_classes n' cc = Some (c\<lparr>c_secured := (c_secured c \<or> (cc \<noteq> CC_SECURITY \<and> (c_inNIF c \<longrightarrow> ne_alsoSecure env cc)))\<rparr>)) \<and>
    (reported ccs cc \<and> \<not> has_class cc n \<and> ne_supported env cc \<and> cc \<in> set registered_classes \<longrightarrow>
      (\<exists>c. n_classes n' cc = Some c \<and> c_secured c = (cc \<noteq> CC_SECURITY)))"
  using secure_classes_unreported [OF assms] secure_classes_known [OF assms] secure_classes_new [OF assms]
  by (auto simp: secured_by_report_def)

theorem secure_classes_exact_witness:
  "\<exists>n' c. secure_classes quiet_env 1 False [0x62, 0xef, 0x25] Node_new = Some n' \<and> n_classes n' 0x62 = Some c \<and> c_secured c"
proof -
  obtain n' where n': "secure_classes quiet_env 1 False [0x62, 0xef, 0x25] Node_new = Some n'"
    using secure_classes_defined [where inst = 1 and env = quiet_env and mk = False and ccs = "[0x62, 0xef, 0x25]" and n = Node_new] by auto
  have "reported [0x62, 0xef, 0x25] 0x62" "ne_supported quiet_env 0x62" "0x62 \<in> set registered_classes" "\<not> has_class 0x62 Node_new"
    by (simp_all add: reported_def quiet_env_def registered_classes_def has_class_def Node_new_def)
  then show ?thesis using secure_classes_exact [OF n', where cc = "0x62"] n' by (auto simp del: secure_classes.simps)
qed

section \<open>Nodes added with protocol information\<close>

text \<open>Only the classes and the wake-up class differ.\<close>

definition only_classes :: "node \<Rightarrow> node \<Rightarrow> bool" where
  "only_classes n n' \<longleftrightarrow> n' = n\<lparr>n_classes := n_classes n', n_wakeUp := n_wakeUp n'\<rparr>"

lemma only_classes_refl [simp]: "only_classes n n"
  by (simp add: only_classes_def)

lemma only_classes_trans: "only_classes n m \<Longrightarrow> only_classes m k \<Longrightarrow> only_classes n k"
  unfolding only_classes_def by (cases n, cases m, cases k) simp

lemma only_classes_fields:
  assumes "only_classes n n'"
  shows "n_query n' = n_query n" "n_nodeInfoReceived n' = n_nodeInfoReceived n" "n_secured n' = n_secured n"
    "n_addingNode n' = n_addingNode n" "n_listening n' = n_listening n"
  by (subst assms [unfolded only_classes_def]; simp)+

lemma only_classes_map_class: "only_classes n (map_class f cc n)"
  by (simp add: only_classes_def map_class_def)

lemma AddCommandClass_only: "AddCommandClass env cc n = (new, n') \<Longrightarrow> only_classes n n'"
  by (auto simp: AddCommandClass_def only_classes_def Let_def split: if_splits)

lemma add_optional_only: "only_classes n (add_optional env mk ccs n)"
proof (induction env mk ccs n rule: add_optional.induct)
  case (2 env mk cc ccs n)
  obtain new n1 where a: "AddCommandClass env cc n = (new, n1)" by force
  have k: "only_classes n n1" "only_classes n (map_class f cc n1)" for f
    using AddCommandClass_only [OF a] only_classes_trans [OF _ only_classes_map_class] by auto
  show ?case using 2 a by (cases new) (auto intro: only_classes_trans [OF k(1)] only_classes_trans [OF k(2)])
qed simp

lemma add_mandatory_only: "only_classes n (add_mandatory env mk ccs n)"
proof (induction env mk ccs n rule: add_mandatory.induct)
  case (2 env mk cc ccs n)
  obtain new n1 where a: "AddCommandClass env cc n = (new, n1)" by force
  have k: "only_classes n n1" "only_classes n (map_class f cc n1)" for f
    using AddCommandClass_only [OF a] only_classes_trans [OF _ only_classes_map_class] by auto
  show ?case using 2 a by (cases new) (auto intro: only_classes_trans [OF k(1)] only_classes_trans [OF k(2)])
qed simp

lemma needs_wakeup_only: "only_classes n (needs_wakeup env n)"
  using AddCommandClass_only [of env CC_WAKE_UP n] only_classes_trans [OF _ only_classes_map_class]
  by (auto simp: needs_wakeup_def split: prod.split)

lemma SetDeviceClasses_fields:
  "n_nodeInfoReceived (SetDeviceClasses env b g s n) = n_nodeInfoReceived n"
  "n_secured (SetDeviceClasses env b g s n) = n_secured n"
proof -
  have m: "only_classes n (AddMandatoryCommandClasses env ccs n)" for ccs n
    by (simp add: AddMandatoryCommandClasses_def add_mandatory_only split: option.split)
  obtain m where "SetDeviceClasses env b g s n = needs_wakeup env m"
    "only_classes (n\<lparr>n_basic := b, n_generic := g, n_specific := s\<rparr>) m"
    using m only_classes_trans [OF m m] by (auto simp: SetDeviceClasses_def Let_def split: option.split prod.split)
  then have "only_classes (n\<lparr>n_basic := b, n_generic := g, n_specific := s\<rparr>) (SetDeviceClasses env b g s n)"
    using only_classes_trans [OF _ needs_wakeup_only] by simp
  from only_classes_fields [OF this]
  show "n_nodeInfoReceived (SetDeviceClasses env b g s n) = n_nodeInfoReceived n"
    "n_secured (SetDeviceClasses env b g s n) = n_secured n" by simp_all
qed

lemma fresh_node_node: "fresh_node nid nn d = Some d' \<Longrightarrow> d_nodes d' nid = Some (Node_new\<lparr>n_addingNode := nn\<rparr>)"
  by (auto simp: fresh_node_def notify_def put_node_def split: Option.bind_splits)

lemma Node_new_flags: "\<not> n_nodeInfoReceived Node_new" "\<not> n_secured Node_new" "\<not> n_protocolInfoReceived Node_new"
  "\<not> n_basicInfoReceived Node_new" "n_listening Node_new" "n_wakeUp Node_new = None"
  "m_queryStage (n_query Node_new) = St_None"
  by (simp_all add: Node_new_def)

text \<open>A node is not added safely when the controller reports it with one or two bytes of information: three is
  subtracted from the length in a byte, it wraps around, and the list of classes is read beyond the buffer
  of 254 bytes.\<close>

theorem short_info_overruns:
  assumes "0 < unat len" "unat len < 3" "length info = 254" "info ! 1 \<noteq> 0" and "\<not> (secure \<and> ne_networkKey env)"
  shows "InitNode_info env nid nn secure info len d = None"
proof (cases "fresh_node nid nn d")
  case (Some d1)
  define m where "m = (Node_new\<lparr>n_addingNode := nn\<rparr>)\<lparr>n_secured := False\<rparr>"
  define d2 where "d2 = (if ne_networkKey env then map_node (\<lambda>n. n\<lparr>n_secured := secure\<rparr>) nid d1 else d1)"
  have n2: "d_nodes d2 nid = Some m"
    using fresh_node_node [OF Some] assms(5) Node_new_flags(2)
    by (auto simp: d2_def m_def map_node_def put_node_def Node_new_def)
  have flags: "\<not> n_protocolInfoReceived m" "\<not> n_basicInfoReceived m" "\<not> n_nodeInfoReceived m" "\<not> n_secured m"
    by (simp_all add: m_def Node_new_flags)
  have "unat (len - 3) = 253 + unat len"
  proof -
    have "len = 1 \<or> len = 2" using assms(1,2) by (auto simp: word_unat_eq_iff)
    then show ?thesis by (auto simp: unsigned_minus_1_eq_mask mask_eq_exp_minus_1)
  qed
  then have over: "peek_block (drop 3 info) 0 (unat (len - 3)) = None" using assms(1,3) by (simp add: peek_block_def)
  have "UpdateNodeInfo env nid (drop 3 info) (len - 3) (put_node nid k e) = None" if "\<not> n_nodeInfoReceived k" for k e
    using that over by (simp add: UpdateNodeInfo_def put_node_def)
  then have "SetProtocolInfo env nid info len d2 = None"
    using n2 flags assms(4) by (simp add: SetProtocolInfo_def SetDeviceClasses_fields Let_def)
  moreover have "len \<noteq> 0" using assms(1) by auto
  ultimately show ?thesis using Some by (simp add: InitNode_info_def d2_def)
qed (use assms(1) in \<open>auto simp: InitNode_info_def\<close>)

theorem short_info_overruns_witness:
  "InitNode_info quiet_env 9 True False ([4, 0x10] @ replicate 252 0) 2 (Driver_new 10) = None"
  by (rule short_info_overruns) simp_all

lemma fresh_node_queue:
  assumes "fresh_node nid nn d = Some d'" and g: "good sh d"
  shows "set (d_queue d' q) \<subseteq> set (d_queue d q)"
proof -
  obtain e where "destroy_node nid d = Some e" "\<And>q. d_queue e q = filter (stays nid (d_currentCmd d) (d_ccis d)) (d_queue d q)"
    by (rule destroy_node_good [OF g, of nid]) (rule that)
  then show ?thesis using assms(1)
    by (cases "d_nodes d nid") (auto simp: fresh_node_def notify_def put_node_def)
qed

lemma add_optional_no_wakeup:
  "CC_WAKE_UP \<notin> set ccs \<Longrightarrow> n_wakeUp (add_optional env mk ccs n) = n_wakeUp n"
proof (induction env mk ccs n rule: add_optional.induct)
  case (2 env mk cc ccs n)
  obtain new n1 where a: "AddCommandClass env cc n = (new, n1)" by force
  have "n_wakeUp n1 = n_wakeUp n" using a 2(4) by (auto simp: AddCommandClass_def Let_def split: if_splits)
  then show ?case using 2 a by (cases new) auto
qed simp

text \<open>A node added with its information may never be interviewed.  The interview is only started by the request for
  versions and instances or by the wake-up class, so a node whose frame and device class name none of
  \<open>VERSION\<close>, \<open>MULTI_INSTANCE\<close> and \<open>WAKE_UP\<close> is created and announced, but stays at the very first stage
  of its interview with nothing queued for it, although \<open>InitNode\<close> without information would ask
  it for its protocol information.\<close>

theorem added_node_not_interviewed:
  assumes g: "good sh d" and f: "frame_ok info len" and i: "info ! 1 \<noteq> 0" "ne_generic env (info ! 1) = None"
    and k: "\<not> ne_networkKey env"
    and no: "set (drop 3 (take (unat len) info)) \<inter> {CC_VERSION, CC_MULTI_INSTANCE, CC_WAKE_UP} = {}"
  shows "\<exists>d' n'. InitNode_info env nid nn secure info len d = Some d' \<and> d_nodes d' nid = Some n' \<and>
    m_queryStage (n_query n') = St_None \<and> n_nodeInfoReceived n' \<and> (\<forall>q. set (d_queue d' q) \<subseteq> set (d_queue d q))"
proof -
  obtain d1 where d1: "fresh_node nid nn d = Some d1" using fresh_node_good [OF g] by blast
  define m where "m = (Node_new\<lparr>n_addingNode := nn\<rparr>)\<lparr>n_basic := info ! 0, n_generic := info ! 1, n_specific := info ! 2\<rparr>"
  have n1: "d_nodes d1 nid = Some (Node_new\<lparr>n_addingNode := nn\<rparr>)" by (rule fresh_node_node [OF d1])
  have c: "SetDeviceClasses env (info ! 0) (info ! 1) (info ! 2) (Node_new\<lparr>n_addingNode := nn\<rparr>) = m"
    using i by (simp add: SetDeviceClasses_def needs_wakeup_def m_def Node_new_flags Let_def)
  define ccs where "ccs = drop 3 (take (unat len) info)"
  have l: "3 \<le> unat len" "unat len \<le> length info" using f by (simp_all add: frame_ok_def)
  have u: "unat (len - 3) = unat len - 3" using l by (simp add: unat_sub word_le_nat_alt)
  have p: "peek_block (drop 3 info) 0 (unat (len - 3)) = Some ccs"
    using l u by (simp add: frame_simps ccs_def drop_take)
  define n2 where "n2 = add_optional env False ccs m"
  have ccs: "CC_VERSION \<notin> set ccs" "CC_MULTI_INSTANCE \<notin> set ccs" "CC_WAKE_UP \<notin> set ccs" using no by (auto simp: ccs_def)
  have "n_classes n2 CC_VERSION = None" "n_classes n2 CC_MULTI_INSTANCE = None"
    using ccs add_optional_unnamed [of env ccs _ False m]
    by (simp_all add: n2_def named_def m_def Node_new_def)
  then have s: "static_request n2 = 0" by (simp add: static_request_def has_class_def)
  have w: "n_wakeUp n2 = None" using add_optional_no_wakeup [OF ccs(3)] by (simp add: n2_def m_def Node_new_flags)
  have q: "n_query n2 = n_query Node_new"
    using only_classes_fields(1) [OF add_optional_only [of m env False ccs]] by (simp add: n2_def m_def)
  let ?e = "put_node nid m (notify (Note_NodeProtocolInfo nid) d1)"
  have stat: "SetStaticRequests env nid (put_node nid n2 ?e) = Some (put_node nid n2 ?e)"
    using s by (simp add: SetStaticRequests_def put_node_def)
  have e: "d_nodes ?e nid = Some m" "\<not> n_nodeInfoReceived m" "\<not> n_secured m"
    by (simp_all add: put_node_def m_def Node_new_flags)
  have w2: "n_nodeInfoReceived n2 = n_nodeInfoReceived m"
    unfolding n2_def by (rule only_classes_fields(2) [OF add_optional_only])
  have "UpdateNodeInfo env nid (drop 3 info) (len - 3) ?e =
    Some (put_node nid (n2\<lparr>n_nodeInfoReceived := True\<rparr>) (put_node nid n2 ?e))"
    unfolding UpdateNodeInfo_def e(1) using p stat e(2,3) w
    by (simp add: n2_def [symmetric] put_node_def)
  then have "SetProtocolInfo env nid info len d1 =
    Some (put_node nid ((n2\<lparr>n_nodeInfoReceived := True\<rparr>)\<lparr>n_basicInfoReceived := True\<rparr>)
      (put_node nid (n2\<lparr>n_nodeInfoReceived := True\<rparr>) (put_node nid n2 ?e)))"
    using n1 c i by (simp add: SetProtocolInfo_def Let_def Node_new_flags m_def put_node_def)
  moreover have "len \<noteq> 0" using l(1) by auto
  ultimately show ?thesis
    using d1 k fresh_node_queue [OF d1 g] q Node_new_flags(7) by (simp add: InitNode_info_def put_node_def notify_def)
qed

theorem added_node_not_interviewed_witness:
  "\<exists>d' n'. InitNode_info quiet_env 9 True False ([4, 0x10, 1, 0x25, 0x20] @ replicate 249 0) 5 (Driver_new 10) = Some d' \<and>
    d_nodes d' 9 = Some n' \<and> m_queryStage (n_query n') = St_None \<and> n_nodeInfoReceived n' \<and>
    (\<forall>q. set (d_queue d' q) \<subseteq> set (d_queue (Driver_new 10) q))"
proof -
  let ?i = "[4, 0x10, 1, 0x25, 0x20] @ replicate 249 0 :: bytes"
  have u: "unat (5 :: uint8) = 5" by simp
  have "drop 3 (take 5 ?i) = [0x25, 0x20]" by simp
  then have "frame_ok ?i 5" "set (drop 3 (take (unat (5 :: uint8)) ?i)) \<inter> {CC_VERSION, CC_MULTI_INSTANCE, CC_WAKE_UP} = {}"
    by (simp_all add: frame_ok_def u)
  moreover have "?i ! 1 \<noteq> 0" "ne_generic quiet_env (?i ! 1) = None" "\<not> ne_networkKey quiet_env"
    by (simp_all add: quiet_env_def)
  ultimately show ?thesis by (intro added_node_not_interviewed [OF Driver_new_good [of 10]])
qed

end
