(* ===== verification/Controller_Replies.thy ===== *)
theory Controller_Replies
  imports Node_Info
begin

text \<open>
  The replies of the controller (\<open>cpp/src/Driver.cpp\<close>): the handlers of the initialisation sequence, of the
  table of nodes and of the controller commands, and the switch of \<open>ProcessMsg\<close> over the replies; each leaves
  the driver well formed.
\<close>

section \<open>What the handlers are given\<close>

text \<open>
  \<open>re_handle\<close> are the command classes other than \<open>SECURITY\<close>, \<open>re_cached\<close> the nodes \<open>ReadCache\<close> finds in the cache
  file; \<open>re_rtt\<close> and \<open>re_responseRTT\<close> are round trip times read from clocks and \<open>re_within\<close> tells that the
  previous frame of the node is at most 500 ms old.
\<close>

record reply_env =
  re_node :: node_env
  re_key :: bytes
  re_handle :: class_handler
  re_enforce :: bool
  re_notifying :: bool
  re_enableSIS :: bool
  re_cached :: "(uint8 \<times> node) list"
  re_rtt :: uint32
  re_responseRTT :: uint32
  re_within :: bool

section \<open>Constants of Defs.h\<close>

abbreviation (input) FUNC_ID_SERIAL_API_GET_INIT_DATA :: uint8 where "FUNC_ID_SERIAL_API_GET_INIT_DATA \<equiv> 0x02"
abbreviation (input) FUNC_ID_SERIAL_API_APPL_NODE_INFORMATION :: uint8 where
  "FUNC_ID_SERIAL_API_APPL_NODE_INFORMATION \<equiv> 0x03"
abbreviation (input) FUNC_ID_ZW_GET_CONTROLLER_CAPABILITIES :: uint8 where
  "FUNC_ID_ZW_GET_CONTROLLER_CAPABILITIES \<equiv> 0x05"
abbreviation (input) FUNC_ID_SERIAL_API_SET_TIMEOUTS :: uint8 where "FUNC_ID_SERIAL_API_SET_TIMEOUTS \<equiv> 0x06"
abbreviation (input) FUNC_ID_SERIAL_API_GET_CAPABILITIES :: uint8 where "FUNC_ID_SERIAL_API_GET_CAPABILITIES \<equiv> 0x07"
abbreviation (input) FUNC_ID_SERIAL_API_SETUP :: uint8 where "FUNC_ID_SERIAL_API_SETUP \<equiv> 0x0b"
abbreviation (input) FUNC_ID_ZW_GET_VERSION :: uint8 where "FUNC_ID_ZW_GET_VERSION \<equiv> 0x15"
abbreviation (input) FUNC_ID_ZW_GET_RANDOM :: uint8 where "FUNC_ID_ZW_GET_RANDOM \<equiv> 0x1c"
abbreviation (input) FUNC_ID_ZW_MEMORY_GET_ID :: uint8 where "FUNC_ID_ZW_MEMORY_GET_ID \<equiv> 0x20"
abbreviation (input) FUNC_ID_ZW_GET_NODE_PROTOCOL_INFO :: uint8 where "FUNC_ID_ZW_GET_NODE_PROTOCOL_INFO \<equiv> 0x41"
abbreviation (input) FUNC_ID_ZW_ENABLE_SUC :: uint8 where "FUNC_ID_ZW_ENABLE_SUC \<equiv> 0x52"
abbreviation (input) FUNC_ID_ZW_SET_SUC_NODE_ID :: uint8 where "FUNC_ID_ZW_SET_SUC_NODE_ID \<equiv> 0x54"
abbreviation (input) FUNC_ID_ZW_GET_SUC_NODE_ID :: uint8 where "FUNC_ID_ZW_GET_SUC_NODE_ID \<equiv> 0x56"
abbreviation (input) FUNC_ID_ZW_GET_ROUTING_INFO :: uint8 where "FUNC_ID_ZW_GET_ROUTING_INFO \<equiv> 0x80"
abbreviation (input) FUNC_ID_ZW_GET_VIRTUAL_NODES :: uint8 where "FUNC_ID_ZW_GET_VIRTUAL_NODES \<equiv> 0xA5"
abbreviation (input) SUC_FUNC_NODEID_SERVER :: uint8 where "SUC_FUNC_NODEID_SERVER \<equiv> 0x01"

section \<open>The initialisation sequence\<close>

definition init_request :: "string \<Rightarrow> uint8 \<Rightarrow> bytes \<Rightarrow> driver \<Rightarrow> driver option" where
  "init_request text func bs d = send_command (request_msg text 0xff func False bs) d"

definition map_info :: "(controller_info \<Rightarrow> controller_info) \<Rightarrow> driver \<Rightarrow> driver" where
  "map_info f d = d\<lparr>d_info := f (d_info d)\<rparr>"

text \<open>
  The version text ends before the first zero byte; a text that does not end in the buffer is read
  beyond it.  An unsupported library is reported for the current message, a null pointer if there is none.
\<close>

definition HandleGetVersionResponse :: "bytes \<Rightarrow> driver \<Rightarrow> driver option" where
  "HandleGetVersionResponse buf d =
     (let v = takeWhile (\<lambda>b. b \<noteq> 0) (drop 4 buf) in
      if length buf \<le> length v + 5 then None
      else let t = dat buf (length v + 3);
               d1 = map_info (\<lambda>i. i\<lparr>i_libraryVersion := map (\<lambda>b. char_of (unat b)) v, i_libraryType := t\<rparr>) d
      in do {
        d2 \<leftarrow> (if t = 1 \<or> t = 2 then Some d1
              else case d_currentMsg d1 of None \<Rightarrow> None
                | Some m \<Rightarrow> Some ((notify (Note_DriverFailed (m_targetNodeId m)) (notify Note_UnsupportedController d1))
                    \<lparr>d_stopped := True\<rparr>));
        init_request ''FUNC_ID_ZW_MEMORY_GET_ID'' FUNC_ID_ZW_MEMORY_GET_ID [] d2
      })"

text \<open>The status is tested in \<open>_data[0]\<close>.\<close>

definition HandleSerialAPISetupResponse :: "bytes \<Rightarrow> driver \<Rightarrow> driver" where
  "HandleSerialAPISetupResponse buf d = d\<lparr>d_extendedTxStatus := (dat buf 0 = 1)\<rparr>"

definition HandleGetControllerCapabilitiesResponse :: "bytes \<Rightarrow> driver \<Rightarrow> driver option" where
  "HandleGetControllerCapabilitiesResponse buf d =
     init_request ''FUNC_ID_ZW_GET_SUC_NODE_ID'' FUNC_ID_ZW_GET_SUC_NODE_ID []
       (map_info (\<lambda>i. i\<lparr>i_controllerCaps := dat buf 2\<rparr>) d)"

definition word_at :: "bytes \<Rightarrow> nat \<Rightarrow> uint16" where
  "word_at buf i = push_bit 8 (ucast (dat buf i)) OR ucast (dat buf (i + 1))"

definition advertised_classes :: bytes where
  "advertised_classes = [0x5e]"

text \<open>A request that is only sent under a condition.\<close>

definition request_if :: "bool \<Rightarrow> string \<Rightarrow> uint8 \<Rightarrow> bytes \<Rightarrow> driver \<Rightarrow> driver option" where
  "request_if b text func bs d = (if b then init_request text func bs d else Some d)"

definition HandleGetSerialAPICapabilitiesResponse :: "bytes \<Rightarrow> driver \<Rightarrow> driver option" where
  "HandleGetSerialAPICapabilitiesResponse buf d = do {
     let d0 = map_info (\<lambda>i. i\<lparr>i_serialAPIVersion := (dat buf 2, dat buf 3), i_manufacturerId := word_at buf 4,
       i_productType := word_at buf 6, i_productId := word_at buf 8, i_apiMask := map (dat buf) [10..<42]\<rparr>) d;
     d1 \<leftarrow> request_if (IsBridgeController d0) ''FUNC_ID_ZW_GET_VIRTUAL_NODES'' FUNC_ID_ZW_GET_VIRTUAL_NODES [] d0;
     d2 \<leftarrow> request_if (IsAPICallSupported FUNC_ID_ZW_GET_RANDOM d1) ''FUNC_ID_ZW_GET_RANDOM'' FUNC_ID_ZW_GET_RANDOM [32] d1;
     d3 \<leftarrow> request_if (IsAPICallSupported FUNC_ID_SERIAL_API_SETUP d2) ''FUNC_ID_SERIAL_API_SETUP'' FUNC_ID_SERIAL_API_SETUP [2, 1] d2;
     d4 \<leftarrow> init_request ''FUNC_ID_SERIAL_API_GET_INIT_DATA'' FUNC_ID_SERIAL_API_GET_INIT_DATA [] d3;
     d5 \<leftarrow> request_if (\<not> IsBridgeController d4) ''FUNC_ID_SERIAL_API_SET_TIMEOUTS'' FUNC_ID_SERIAL_API_SET_TIMEOUTS [100, 15] d4;
     send_command (request_no_reply ''FUNC_ID_SERIAL_API_APPL_NODE_INFORMATION'' 0xff FUNC_ID_SERIAL_API_APPL_NODE_INFORMATION
       ([0x01, 0x02, 0x01, of_nat (length advertised_classes)] @ advertised_classes)) d5
   }"

definition HandleGetSUCNodeIdResponse :: "bool \<Rightarrow> bytes \<Rightarrow> driver \<Rightarrow> driver option" where
  "HandleGetSUCNodeIdResponse enableSIS buf d0 = do {
     let d = map_info (\<lambda>i. i\<lparr>i_SUCNodeId := dat buf 2\<rparr>) d0;
     d1 \<leftarrow> (if dat buf 2 = 0 \<and> enableSIS \<and> IsAPICallSupported FUNC_ID_ZW_ENABLE_SUC d \<and>
               IsAPICallSupported FUNC_ID_ZW_SET_SUC_NODE_ID d
           then do {
             d1 \<leftarrow> SendMsg (request_msg ''Enable SUC'' (d_controllerNodeId d) FUNC_ID_ZW_ENABLE_SUC False
               [1, SUC_FUNC_NODEID_SERVER]) MsgQueue_Send d;
             SendMsg (request_msg ''Set SUC node ID'' (d_controllerNodeId d) FUNC_ID_ZW_SET_SUC_NODE_ID False
               [d_controllerNodeId d, 1, 0, SUC_FUNC_NODEID_SERVER]) MsgQueue_Send d1
           } else Some d);
     init_request ''FUNC_ID_SERIAL_API_GET_CAPABILITIES'' FUNC_ID_SERIAL_API_GET_CAPABILITIES [] d1
   }"

definition home_id :: "bytes \<Rightarrow> uint32" where
  "home_id buf = push_bit 24 (ucast (dat buf 2)) OR push_bit 16 (ucast (dat buf 3)) OR push_bit 8 (ucast (dat buf 4))
     OR ucast (dat buf 5)"

definition HandleMemoryGetIdResponse :: "bytes \<Rightarrow> driver \<Rightarrow> driver option" where
  "HandleMemoryGetIdResponse buf d =
     init_request ''FUNC_ID_ZW_GET_CONTROLLER_CAPABILITIES'' FUNC_ID_ZW_GET_CONTROLLER_CAPABILITIES []
       (d\<lparr>d_homeId := home_id buf, d_controllerNodeId := dat buf 6, d_replicating := True\<rparr>)"

section \<open>The nodes of the network\<close>

text \<open>\<open>ReadCache\<close>, given the nodes of the file; the rest of the file is not modelled.\<close>

definition cached_node :: "uint8 \<times> node \<Rightarrow> driver \<Rightarrow> driver" where
  "cached_node e d = notify (Note_NodeAdded (fst e)) (put_node (fst e) (snd e) d)"

definition ReadCache :: "(uint8 \<times> node) list \<Rightarrow> driver \<Rightarrow> driver" where
  "ReadCache es d = fold cached_node es d"

definition remove_node :: "uint8 \<Rightarrow> driver \<Rightarrow> driver option" where
  "remove_node nid d = (if d_nodes d nid = None then Some d else destroy_node nid d)"

text \<open>One bit of the map of nodes; node \<open>i + 1\<close> is bit \<open>i\<close>.\<close>

definition sync_node :: "node_env \<Rightarrow> bytes \<Rightarrow> nat \<Rightarrow> driver \<Rightarrow> driver option" where
  "sync_node env buf i d =
     (let nid = of_nat (i + 1) in
      if bit (dat buf (i div 8 + 5)) (i mod 8) then
        (if IsVirtualNode nid d then Some d
         else if d_nodes d nid \<noteq> None then (if \<not> d_init d then set_stage_node env St_CacheLoad True nid d else Some d)
         else InitNode env nid False (notify (Note_NodeNew nid) d))
      else if d_nodes d nid \<noteq> None then map_option (notify (Note_NodeRemoved nid)) (destroy_node nid d)
      else Some d)"

definition HandleSerialAPIGetInitDataResponse ::
  "node_env \<Rightarrow> (uint8 \<times> node) list \<Rightarrow> bytes \<Rightarrow> driver \<Rightarrow> driver option" where
  "HandleSerialAPIGetInitDataResponse env cached buf d =
     (if d_homeId d = 0 \<or> d_controllerNodeId d = 255 \<or> d_controllerNodeId d = 0
      then Some ((notify (Note_DriverFailed 0) d)\<lparr>d_stopped := True\<rparr>)
      else do {
        let d1 = (if \<not> d_init d then ReadCache cached d else notify Note_DriverReset d);
        let d2 = map_info (\<lambda>i. i\<lparr>i_initCaps := dat buf 3\<rparr>) d1;
        d3 \<leftarrow> (if dat buf 4 = 29 then run_all (sync_node env buf) [0..<232] d2 else Some d2);
        Some (d3\<lparr>d_init := True\<rparr>)
      })"

definition HandleGetNodeProtocolInfoResponse :: "node_env \<Rightarrow> bytes \<Rightarrow> driver \<Rightarrow> driver option" where
  "HandleGetNodeProtocolInfoResponse env buf d = (case d_currentMsg d of None \<Rightarrow> Some d
     | Some m \<Rightarrow> if d_nodes d (m_targetNodeId m) = None then Some d
                 else UpdateProtocolInfo env (m_targetNodeId m) (drop 4 buf) d)"

definition HandleGetRoutingInfoResponse :: "bytes \<Rightarrow> driver \<Rightarrow> driver" where
  "HandleGetRoutingInfoResponse buf d =
     map_node (\<lambda>n. n\<lparr>n_neighbors := map (dat buf) [2..<31]\<rparr>) (message_node d) d"

definition HandleGetVirtualNodesResponse :: "bytes \<Rightarrow> driver \<Rightarrow> driver" where
  "HandleGetVirtualNodesResponse buf d =
     map_info (\<lambda>i. i\<lparr>i_virtualNeighbors := map (dat buf) [2..<31], i_virtualNeighborsReceived := True\<rparr>) d"

section \<open>Replies to controller commands\<close>

text \<open>The inner boolean is the result of the handler: whether the callback is still to be awaited.\<close>

definition progress_reply :: "bool \<Rightarrow> controller_error \<Rightarrow> driver \<Rightarrow> (bool \<times> driver) option" where
  "progress_reply ok err d = map_option (Pair ok)
     (UpdateControllerState (if ok then ControllerState_InProgress else ControllerState_Failed) err d)"

definition HandleNetworkUpdateResponse :: "bytes \<Rightarrow> driver \<Rightarrow> (bool \<times> driver) option" where
  "HandleNetworkUpdateResponse buf d = progress_reply (dat buf 2 \<noteq> 0) ControllerError_None d"

definition HandleAssignReturnRouteResponse :: "bytes \<Rightarrow> driver \<Rightarrow> (bool \<times> driver) option" where
  "HandleAssignReturnRouteResponse buf d = progress_reply (dat buf 2 \<noteq> 0) ControllerError_None d"

definition HandleDeleteReturnRouteResponse :: "bytes \<Rightarrow> driver \<Rightarrow> (bool \<times> driver) option" where
  "HandleDeleteReturnRouteResponse buf d = progress_reply (dat buf 2 \<noteq> 0) ControllerError_None d"

definition failed_node_error :: "uint8 \<Rightarrow> controller_error" where
  "failed_node_error b = (if b = 0x08 then ControllerError_NotFound else if b = 0x10 then ControllerError_Busy
     else if b = 0x20 then ControllerError_Failed else if b = 0x02 then ControllerError_NotPrimary
     else ControllerError_None)"

definition HandleRemoveFailedNodeResponse :: "bytes \<Rightarrow> driver \<Rightarrow> (bool \<times> driver) option" where
  "HandleRemoveFailedNodeResponse buf d = progress_reply (dat buf 2 = 0) (failed_node_error (dat buf 2)) d"

definition HandleReplaceFailedNodeResponse :: "bytes \<Rightarrow> driver \<Rightarrow> (bool \<times> driver) option" where
  "HandleReplaceFailedNodeResponse buf d = progress_reply (dat buf 2 = 0) ControllerError_None d"

text \<open>The node a reply about failed nodes is for.\<close>

definition command_node :: "driver \<Rightarrow> uint8 option" where
  "command_node d = (case d_currentCmd d of None \<Rightarrow> Some (message_node d)
     | Some a \<Rightarrow> map_option cci_node (d_ccis d a))"

definition HandleIsFailedNodeResponse :: "node_env \<Rightarrow> bytes \<Rightarrow> driver \<Rightarrow> driver option" where
  "HandleIsFailedNodeResponse env buf d = do {
     nid \<leftarrow> command_node d;
     if dat buf 2 \<noteq> 0 then (case d_nodes d nid of
          None \<Rightarrow> UpdateControllerState ControllerState_NodeFailed ControllerError_None d
        | Some n \<Rightarrow>
            if n_deviceReset n then
              UpdateControllerState ControllerState_Completed ControllerError_None
                (notify (Note_NodeReset nid)
                  (snd (BeginControllerCommand ControllerCommand_RemoveFailedNode 0 0 True nid 0 d)))
            else do {
              d1 \<leftarrow> SetNodeAlive env False nid d;
              UpdateControllerState ControllerState_NodeFailed ControllerError_None d1
            })
     else do {
       d1 \<leftarrow> (if d_nodes d nid = None then Some d else SetNodeAlive env True nid d);
       UpdateControllerState ControllerState_NodeOK ControllerError_None d1
     }
   }"

definition HandleSetSlaveLearnModeResponse :: "bytes \<Rightarrow> driver \<Rightarrow> (bool \<times> driver) option" where
  "HandleSetSlaveLearnModeResponse buf d =
     (if dat buf 2 \<noteq> 0 then progress_reply True ControllerError_None d
      else do { d1 \<leftarrow> SendSlaveLearnModeOff d; progress_reply False ControllerError_None d1 })"

definition HandleSendSlaveNodeInfoResponse :: "bytes \<Rightarrow> driver \<Rightarrow> (bool \<times> driver) option" where
  "HandleSendSlaveNodeInfoResponse buf d = (case d_currentCmd d of None \<Rightarrow> Some (False, d)
     | Some a \<Rightarrow> do {
         c \<leftarrow> d_ccis d a;
         if dat buf 2 \<noteq> 0 then progress_reply True ControllerError_None d
         else progress_reply False ControllerError_None
                (map_node (\<lambda>n. n\<lparr>n_buttonMap := (n_buttonMap n)(cci_arg c := None)\<rparr>) (cci_node c) d)
       })"

text \<open>A reply that says no callback will come is to end the transaction.\<close>

definition force_complete :: "uint8 \<Rightarrow> bool \<times> driver \<Rightarrow> driver" where
  "force_complete b r = (if fst r then snd r
     else (snd r)\<lparr>d_expectedCallbackId := b, d_expectedReply := 0, d_expectedCommandClassId := 0, d_expectedNodeId := 0\<rparr>)"

text \<open>
  The switch over the replies: whether the generic handling follows, and the driver.  The replies not
  named only write to the log.
\<close>

definition process_response :: "reply_env \<Rightarrow> bytes \<Rightarrow> driver \<Rightarrow> (bool \<times> driver) option" where
  "process_response env buf d =
     (let f = dat buf 1; b = dat buf 2; forced = map_option (\<lambda>r. (True, force_complete b r)) in
      if f = FUNC_ID_SERIAL_API_GET_INIT_DATA
        then map_option (Pair True) (HandleSerialAPIGetInitDataResponse (re_node env) (re_cached env) buf d)
      else if f = FUNC_ID_ZW_GET_CONTROLLER_CAPABILITIES then map_option (Pair True) (HandleGetControllerCapabilitiesResponse buf d)
      else if f = FUNC_ID_SERIAL_API_GET_CAPABILITIES then map_option (Pair True) (HandleGetSerialAPICapabilitiesResponse buf d)
      else if f = FUNC_ID_ZW_SEND_DATA then Some (False, HandleSendDataResponse buf d)
      else if f = FUNC_ID_ZW_GET_VERSION then map_option (Pair True) (HandleGetVersionResponse buf d)
      else if f = FUNC_ID_SERIAL_API_SETUP then Some (True, HandleSerialAPISetupResponse buf d)
      else if f = FUNC_ID_ZW_MEMORY_GET_ID then map_option (Pair True) (HandleMemoryGetIdResponse buf d)
      else if f = FUNC_ID_ZW_GET_NODE_PROTOCOL_INFO
        then map_option (Pair True) (HandleGetNodeProtocolInfoResponse (re_node env) buf d)
      else if f = 0x45 then Some (False, HandleSendDataResponse buf d)
      else if f = FUNC_ID_ZW_ASSIGN_RETURN_ROUTE then forced (HandleAssignReturnRouteResponse buf d)
      else if f = FUNC_ID_ZW_DELETE_RETURN_ROUTE then forced (HandleDeleteReturnRouteResponse buf d)
      else if f = FUNC_ID_ZW_REQUEST_NETWORK_UPDATE then forced (HandleNetworkUpdateResponse buf d)
      else if f = FUNC_ID_ZW_GET_SUC_NODE_ID then map_option (Pair True) (HandleGetSUCNodeIdResponse (re_enableSIS env) buf d)
      else if f = FUNC_ID_ZW_REMOVE_FAILED_NODE_ID then forced (HandleRemoveFailedNodeResponse buf d)
      else if f = FUNC_ID_ZW_IS_FAILED_NODE_ID then map_option (Pair True) (HandleIsFailedNodeResponse (re_node env) buf d)
      else if f = FUNC_ID_ZW_REPLACE_FAILED_NODE then forced (HandleReplaceFailedNodeResponse buf d)
      else if f = FUNC_ID_ZW_GET_ROUTING_INFO then Some (True, HandleGetRoutingInfoResponse buf d)
      else if f = FUNC_ID_ZW_GET_VIRTUAL_NODES then Some (True, HandleGetVirtualNodesResponse buf d)
      else if f = FUNC_ID_ZW_SET_SLAVE_LEARN_MODE then forced (HandleSetSlaveLearnModeResponse buf d)
      else if f = FUNC_ID_ZW_SEND_SLAVE_NODE_INFO then forced (HandleSendSlaveNodeInfoResponse buf d)
      else Some (True, d))"

section \<open>Well-formed drivers\<close>

text \<open>A driver well formed for the nodes it has, and an operation that is defined and leaves such a driver.\<close>

definition well_formed :: "driver \<Rightarrow> bool" where
  "well_formed d \<longleftrightarrow> (\<exists>sh. good sh d)"

definition leaves_wf :: "driver option \<Rightarrow> bool" where
  "leaves_wf r \<longleftrightarrow> (\<exists>d'. r = Some d' \<and> well_formed d')"

definition answers_wf :: "('b \<times> driver) option \<Rightarrow> bool" where
  "answers_wf r \<longleftrightarrow> (\<exists>b d'. r = Some (b, d') \<and> well_formed d')"

lemma wf_simps [simp]:
  "leaves_wf (Some d) \<longleftrightarrow> well_formed d" "answers_wf (Some (b, d)) \<longleftrightarrow> well_formed d"
  "answers_wf (map_option (Pair c) r) \<longleftrightarrow> leaves_wf r"
  by (auto simp: leaves_wf_def answers_wf_def)

lemma good_wf: "good sh d \<Longrightarrow> well_formed d"
  by (auto simp: well_formed_def)

lemma keeps_wf: "keeps sh r \<Longrightarrow> leaves_wf r"
  by (auto simp: keeps_def leaves_wf_def intro: good_wf)

lemma keeps_info_wf: "keeps_info sh nid r \<Longrightarrow> leaves_wf r"
  by (auto simp: keeps_info_def leaves_wf_def intro: good_wf)

lemma leaves_wfI: "\<exists>d'. r = Some d' \<and> good sh d' \<Longrightarrow> leaves_wf r"
  by (auto simp: leaves_wf_def intro: good_wf)

lemma well_formedE:
  assumes "well_formed d"
  obtains sh where "good sh d"
  using assms by (auto simp: well_formed_def)

lemma leaves_wf_bind: "leaves_wf r \<Longrightarrow> (\<And>d. well_formed d \<Longrightarrow> leaves_wf (f d)) \<Longrightarrow> leaves_wf (Option.bind r f)"
  by (auto simp: leaves_wf_def)

lemma leaves_wf_if: "(c \<Longrightarrow> leaves_wf r) \<Longrightarrow> (\<not> c \<Longrightarrow> leaves_wf s) \<Longrightarrow> leaves_wf (if c then r else s)"
  by simp

text \<open>The parts of the state the invariant does not speak of.\<close>

lemma wf_frame:
  assumes "well_formed d" and "d_nodes d' = d_nodes d" "d_queue d' = d_queue d" "d_event d' = d_event d"
    "d_ccis d' = d_ccis d" "d_currentCmd d' = d_currentCmd d" "d_nextCci d' = d_nextCci d"
    and "d_currentMsg d' = d_currentMsg d"
  shows "well_formed d'"
proof -
  obtain sh where g: "good sh d" using assms(1) by (rule well_formedE)
  have "good sh d'" by (rule good_frame [OF g assms(2-7)]) (use good_current [OF g] assms(8) in auto)
  then show ?thesis by (rule good_wf)
qed

lemma wf_updates [simp]:
  "well_formed d \<Longrightarrow> well_formed (notify x d)" "well_formed d \<Longrightarrow> well_formed (count f d)"
  "well_formed d \<Longrightarrow> well_formed (map_info g d)" "well_formed d \<Longrightarrow> well_formed (d\<lparr>d_stopped := b\<rparr>)"
  "well_formed d \<Longrightarrow> well_formed (d\<lparr>d_init := b\<rparr>)" "well_formed d \<Longrightarrow> well_formed (d\<lparr>d_extendedTxStatus := b\<rparr>)"
  "well_formed d \<Longrightarrow> well_formed (d\<lparr>d_homeId := h, d_controllerNodeId := k, d_replicating := b\<rparr>)"
  by (auto simp: notify_def count_def map_info_def intro: wf_frame)

lemma wf_expects [simp]:
  "well_formed d \<Longrightarrow> well_formed (d\<lparr>d_expectedCallbackId := a, d_expectedReply := b, d_expectedCommandClassId := c,
     d_expectedNodeId := e\<rparr>)"
  by (rule wf_frame) simp_all

lemma force_complete_wf [simp]: "well_formed (snd r) \<Longrightarrow> well_formed (force_complete b r)"
  by (simp add: force_complete_def)

lemma send_command_wf: "well_formed d \<Longrightarrow> finishes m \<Longrightarrow> leaves_wf (send_command m d)"
  by (erule well_formedE) (rule keeps_wf [OF send_command_keeps])

lemma SendMsg_wf: "well_formed d \<Longrightarrow> finishes m \<Longrightarrow> leaves_wf (SendMsg m q d)"
  by (erule well_formedE) (rule leaves_wfI [OF SendMsg_good])

lemma UpdateControllerState_wf: "well_formed d \<Longrightarrow> leaves_wf (UpdateControllerState st err d)"
  by (erule well_formedE) (rule leaves_wfI [OF UpdateControllerState_good])

lemma init_request_wf: "well_formed d \<Longrightarrow> length bs < 200 \<Longrightarrow> leaves_wf (init_request t f bs d)"
  by (simp add: init_request_def send_command_wf finishes_request)

lemma request_if_wf: "well_formed d \<Longrightarrow> length bs < 200 \<Longrightarrow> leaves_wf (request_if b t f bs d)"
  by (simp add: request_if_def init_request_wf)

lemma map_node_wf:
  "well_formed d \<Longrightarrow> (\<And>n. n_wakeUp (f n) = n_wakeUp n) \<Longrightarrow> (\<And>n. n_nonces (f n) = n_nonces n) \<Longrightarrow> well_formed (map_node f nid d)"
  by (erule well_formedE) (auto intro: good_wf map_node_good)

lemma SetNodeAlive_wf:
  assumes "well_formed d" and "env_ok env" and "d_nodes d nid \<noteq> None"
  shows "leaves_wf (SetNodeAlive env al nid d)"
proof -
  obtain sh n where "good sh d" "d_nodes d nid = Some n" using assms(1,3) by (auto elim: well_formedE)
  then show ?thesis using SetNodeAlive_good [of sh d env nid n al] assms(2) by (auto simp: leaves_wf_def intro: good_wf)
qed

lemma set_stage_node_wf:
  assumes "well_formed d" and "env_ok env" and "d_nodes d nid \<noteq> None"
  shows "leaves_wf (set_stage_node env st b nid d)"
proof -
  obtain sh n where "good sh d" "d_nodes d nid = Some n" using assms(1,3) by (auto elim: well_formedE)
  then show ?thesis using set_stage_node_good [of sh d env nid st b] good_shape [of sh d nid n] assms(2)
    by (auto simp: leaves_wf_def intro: good_wf)
qed

lemma destroy_node_wf:
  assumes "well_formed d"
  shows "leaves_wf (destroy_node nid d)"
proof -
  obtain sh where "good sh d" using assms by (rule well_formedE)
  then obtain d' where "destroy_node nid d = Some d'" "good (sh(nid := None)) d'" by (rule destroy_node_good)
  then show ?thesis by (auto intro: good_wf)
qed

lemma remove_node_wf: "well_formed d \<Longrightarrow> leaves_wf (remove_node nid d)"
  by (simp add: remove_node_def destroy_node_wf)

lemma InitNode_wf: "well_formed d \<Longrightarrow> env_ok env \<Longrightarrow> leaves_wf (InitNode env nid nn d)"
  by (erule well_formedE) (rule leaves_wfI [OF InitNode_good])

lemma SendSlaveLearnModeOff_wf: "well_formed d \<Longrightarrow> leaves_wf (SendSlaveLearnModeOff d)"
  by (erule well_formedE) (rule keeps_wf [OF SendSlaveLearnModeOff_keeps])

lemma AddNodeStop_wf: "well_formed d \<Longrightarrow> leaves_wf (AddNodeStop f d)"
  by (erule well_formedE) (rule keeps_wf [OF AddNodeStop_keeps])

lemma BeginControllerCommand_wf: "well_formed d \<Longrightarrow> well_formed (snd (BeginControllerCommand c f x hp nid arg d))"
  by (erule well_formedE) (use BeginControllerCommand_good in \<open>metis good_wf prod.collapse\<close>)

lemma wf_cmd: "well_formed d \<Longrightarrow> d_currentCmd d = Some a \<Longrightarrow> \<exists>c. d_ccis d a = Some c"
  by (erule well_formedE) (rule good_cmd)

lemma put_cci_wf: "well_formed d \<Longrightarrow> d_ccis d a = Some c \<Longrightarrow> well_formed (put_cci a c' d)"
  by (erule well_formedE) (rule good_wf [OF put_cci_good])

lemmas wf_ops = send_command_wf SendMsg_wf UpdateControllerState_wf init_request_wf request_if_wf SetNodeAlive_wf
  set_stage_node_wf destroy_node_wf remove_node_wf InitNode_wf SendSlaveLearnModeOff_wf AddNodeStop_wf

section \<open>The replies leave the driver well formed\<close>

lemma progress_reply_wf: "well_formed d \<Longrightarrow> answers_wf (progress_reply ok err d)"
  by (simp add: progress_reply_def UpdateControllerState_wf)

text \<open>The version text ends in the buffer, and an unsupported library answers a message.\<close>

definition version_ok :: "bytes \<Rightarrow> driver \<Rightarrow> bool" where
  "version_ok buf d \<longleftrightarrow> (let v = takeWhile (\<lambda>b. b \<noteq> 0) (drop 4 buf) in
     length v + 5 < length buf \<and> (dat buf (length v + 3) \<in> {1, 2} \<or> d_currentMsg d \<noteq> None))"

lemma HandleGetVersionResponse_wf:
  assumes w: "well_formed d" and v: "version_ok buf d"
  shows "leaves_wf (HandleGetVersionResponse buf d)"
proof -
  have "d_currentMsg (map_info f d) = d_currentMsg d" for f by (simp add: map_info_def)
  then show ?thesis using w v
    by (auto simp: HandleGetVersionResponse_def version_ok_def Let_def init_request_wf)
qed

lemma simple_replies_wf:
  assumes "well_formed d"
  shows "leaves_wf (HandleGetControllerCapabilitiesResponse buf d)" "leaves_wf (HandleMemoryGetIdResponse buf d)"
    "well_formed (HandleSerialAPISetupResponse buf d)" "well_formed (HandleGetVirtualNodesResponse buf d)"
    "well_formed (HandleGetRoutingInfoResponse buf d)" "well_formed (HandleSendDataResponse buf d)"
    "answers_wf (HandleNetworkUpdateResponse buf d)" "answers_wf (HandleAssignReturnRouteResponse buf d)"
    "answers_wf (HandleDeleteReturnRouteResponse buf d)" "answers_wf (HandleRemoveFailedNodeResponse buf d)"
    "answers_wf (HandleReplaceFailedNodeResponse buf d)"
  using assms
  by (simp_all add: HandleGetControllerCapabilitiesResponse_def HandleMemoryGetIdResponse_def
      HandleSerialAPISetupResponse_def HandleGetVirtualNodesResponse_def HandleGetRoutingInfoResponse_def init_request_wf
      HandleNetworkUpdateResponse_def HandleAssignReturnRouteResponse_def HandleDeleteReturnRouteResponse_def
      HandleRemoveFailedNodeResponse_def HandleReplaceFailedNodeResponse_def progress_reply_wf map_node_wf)
    (auto elim!: well_formedE intro: good_wf HandleSendDataResponse_good)

lemma HandleGetSerialAPICapabilitiesResponse_wf:
  assumes "well_formed d"
  shows "leaves_wf (HandleGetSerialAPICapabilitiesResponse buf d)"
  unfolding HandleGetSerialAPICapabilitiesResponse_def Let_def
  by (intro leaves_wf_bind request_if_wf init_request_wf send_command_wf wf_updates assms finishes_request_no_reply)
    (simp_all add: advertised_classes_def)

lemma HandleGetSUCNodeIdResponse_wf:
  assumes "well_formed d"
  shows "leaves_wf (HandleGetSUCNodeIdResponse b buf d)"
  unfolding HandleGetSUCNodeIdResponse_def Let_def
  by (intro leaves_wf_bind leaves_wf_if SendMsg_wf init_request_wf) (simp_all add: assms finishes_request)

lemma HandleIsFailedNodeResponse_wf:
  assumes w: "well_formed d" and e: "env_ok env"
  shows "leaves_wf (HandleIsFailedNodeResponse env buf d)"
proof -
  obtain nid where "command_node d = Some nid"
    using wf_cmd [OF w] by (cases "d_currentCmd d") (auto simp: command_node_def)
  then show ?thesis using w e
    by (auto simp: HandleIsFailedNodeResponse_def intro!: leaves_wf_bind UpdateControllerState_wf SetNodeAlive_wf
        wf_updates BeginControllerCommand_wf split: option.split)
qed

lemma HandleSetSlaveLearnModeResponse_wf: "well_formed d \<Longrightarrow> answers_wf (HandleSetSlaveLearnModeResponse buf d)"
  using SendSlaveLearnModeOff_wf [of d]
  by (auto simp: HandleSetSlaveLearnModeResponse_def progress_reply_wf leaves_wf_def)

lemma HandleSendSlaveNodeInfoResponse_wf: "well_formed d \<Longrightarrow> answers_wf (HandleSendSlaveNodeInfoResponse buf d)"
  using wf_cmd [of d]
  by (auto simp: HandleSendSlaveNodeInfoResponse_def map_node_wf intro!: progress_reply_wf split: option.split)

lemma HandleGetNodeProtocolInfoResponse_wf:
  assumes w: "well_formed d" and e: "env_ok env"
  shows "leaves_wf (HandleGetNodeProtocolInfoResponse env buf d)"
proof -
  obtain sh where "good sh d" using w by (rule well_formedE)
  then have "leaves_wf (UpdateProtocolInfo env nid data d)" if "d_nodes d nid \<noteq> None" for nid data
    using that keeps_info_wf [OF UpdateProtocolInfo_good [OF _ e]] by auto
  then show ?thesis using w by (simp add: HandleGetNodeProtocolInfoResponse_def split: option.split)
qed

end
