(* ===== verification/Controller_Requests.thy ===== *)
theory Controller_Requests
  imports Controller_Replies
begin

text \<open>
  The requests the controller sends on its own account: progress of adding and removing nodes, learn
  mode, routes, neighbours, updates, virtual nodes, the frames of nodes, and the switch over them.
\<close>

section \<open>The running command\<close>

text \<open>Writing through \<open>m_currentControllerCommand\<close>, undefined when it is null.\<close>

definition map_cmd :: "(cci \<Rightarrow> cci) \<Rightarrow> driver \<Rightarrow> driver option" where
  "map_cmd f d = do { a \<leftarrow> d_currentCmd d; c \<leftarrow> d_ccis d a; Some (put_cci a (f c) d) }"

definition command_of :: "driver \<Rightarrow> cci option" where
  "command_of d = do { a \<leftarrow> d_currentCmd d; d_ccis d a }"

definition InitAllNodes :: "driver \<Rightarrow> driver option" where
  "InitAllNodes d = do {
     d1 \<leftarrow> run_all (\<lambda>i. remove_node (of_nat i)) [0..<256] d;
     init_request ''FUNC_ID_ZW_GET_VERSION'' FUNC_ID_ZW_GET_VERSION [] d1
   }"

section \<open>Adding nodes\<close>

text \<open>The information on the new device, at most 254 bytes of it.\<close>

definition adding_slave :: "bytes \<Rightarrow> cci \<Rightarrow> cci" where
  "adding_slave buf c = (let len = min (unat (dat buf 5)) 254 in
     c\<lparr>cci_added := False, cci_node := dat buf 4, cci_info := take len (drop 8 buf) @ drop len (cci_info c),
       cci_infoLength := of_nat len\<rparr>)"

definition node_added :: "node_env \<Rightarrow> uint8 \<Rightarrow> driver \<Rightarrow> driver option" where
  "node_added env func d = (case d_currentCmd d of None \<Rightarrow> Some d
     | Some a \<Rightarrow> do {
         c \<leftarrow> d_ccis d a;
         d1 \<leftarrow> (if cci_node c \<noteq> 0xff
               then InitNode_info env (cci_node c) True (cci_arg c \<noteq> 0) (cci_info c) (cci_infoLength c) d else Some d);
         c1 \<leftarrow> d_ccis d1 a;
         if func \<noteq> FUNC_ID_ZW_ADD_NODE_TO_NETWORK \<and> cci_added c1 then InitAllNodes d1 else Some d1
       })"

text \<open>
  The first component is the new state of the command.  \<open>LEARN_READY\<close> (1) and \<open>ADDING_SLAVE\<close> (3), in its log
  message, follow the running command without a test.
\<close>

definition add_node_status :: "node_env \<Rightarrow> uint8 \<Rightarrow> bytes \<Rightarrow> controller_state \<Rightarrow> driver \<Rightarrow> (controller_state \<times> driver) option" where
  "add_node_status env func buf st d =
     (let s = dat buf 3; if_command = (\<lambda>f. if d_currentCmd d = None then Some (st, d) else map_option (Pair st) (map_cmd f d)) in
      if s = 1 then map_option (Pair ControllerState_Waiting) (map_cmd (\<lambda>c. c\<lparr>cci_added := False\<rparr>) d)
      else if s = 2 then Some (ControllerState_InProgress, d)
      else if s = 3 then map_option (Pair st) (map_cmd (adding_slave buf) d)
      else if s = 4 then if_command (\<lambda>c. c\<lparr>cci_added := True, cci_node := dat buf 4\<rparr>)
      else if s = 5 then map_option (Pair st) (AddNodeStop func d)
      else if s = 6 then (if st = ControllerState_Failed then Some (ControllerState_Completed, d)
                          else map_option (Pair ControllerState_Completed) (node_added env func d))
      else if s = 7 then map_option (Pair ControllerState_Failed) (AddNodeStop func (RemoveCurrentMsg d))
      else Some (st, d))"

definition command_state :: "driver \<Rightarrow> controller_state option" where
  "command_state d = (case d_currentCmd d of None \<Rightarrow> Some ControllerState_Normal | Some a \<Rightarrow> map_option cci_state (d_ccis d a))"

definition CommonAddNodeStatusRequestHandler :: "node_env \<Rightarrow> uint8 \<Rightarrow> bytes \<Rightarrow> driver \<Rightarrow> driver option" where
  "CommonAddNodeStatusRequestHandler env func buf d = do {
     st \<leftarrow> command_state d;
     (st1, d1) \<leftarrow> add_node_status env func buf st d;
     UpdateControllerState st1 ControllerError_None d1
   }"

section \<open>Removing nodes\<close>

text \<open>The search for the node of a controller that was removed, by its device classes.\<close>

definition same_device :: "bytes \<Rightarrow> driver \<Rightarrow> uint8 \<Rightarrow> bool" where
  "same_device buf d i \<longleftrightarrow> (case d_nodes d i of None \<Rightarrow> False
     | Some n \<Rightarrow> i \<noteq> d_controllerNodeId d \<and> n_basic n = dat buf 6 \<and> n_generic n = dat buf 7 \<and> n_specific n = dat buf 8)"

definition removed_controller :: "bytes \<Rightarrow> driver \<Rightarrow> uint8" where
  "removed_controller buf d =
     (if dat buf 4 \<noteq> 0 then dat buf 4
      else if dat buf 5 \<ge> 3 then (case find (same_device buf d) (map of_nat [1..<256]) of None \<Rightarrow> 0 | Some i \<Rightarrow> i)
      else 0)"

definition removal_done :: "bytes \<Rightarrow> driver \<Rightarrow> driver option" where
  "removal_done buf d = do {
     d1 \<leftarrow> UpdateControllerState ControllerState_Completed ControllerError_None d;
     d2 \<leftarrow> map_cmd (\<lambda>c. if cci_node c = 0 \<and> dat buf 4 \<noteq> 0 then c\<lparr>cci_node := dat buf 4\<rparr> else c) d1;
     c \<leftarrow> command_of d2;
     if cci_node c \<noteq> 0 \<and> cci_node c \<noteq> 0xff
     then map_option (notify (Note_NodeRemoved (cci_node c))) (remove_node (cci_node c) d2)
     else Some d2
   }"

definition HandleRemoveNodeFromNetworkRequest :: "bytes \<Rightarrow> driver \<Rightarrow> driver option" where
  "HandleRemoveNodeFromNetworkRequest buf d = (case d_currentCmd d of None \<Rightarrow> Some d
     | Some a \<Rightarrow> do {
         c \<leftarrow> d_ccis d a;
         let s = dat buf 3;
         let st = cci_state c;
         let finish = (\<lambda>st d. UpdateControllerState st ControllerError_None d);
         if s = 1 then do { d1 \<leftarrow> map_cmd (\<lambda>c. c\<lparr>cci_node := 0\<rparr>) d; finish ControllerState_Waiting d1 }
         else if s = 2 then finish ControllerState_InProgress d
         else if s = 3 then
           (if dat buf 4 \<noteq> 0 then do { d1 \<leftarrow> map_cmd (\<lambda>c. c\<lparr>cci_node := dat buf 4\<rparr>) d; finish st d1 }
            else finish ControllerState_Failed d)
         else if s = 4 then do { d1 \<leftarrow> map_cmd (\<lambda>c. c\<lparr>cci_node := removed_controller buf d\<rparr>) d; finish st d1 }
         else if s = 6 then (if \<not> cci_done c then removal_done buf d else Some d)
         else if s = 7 then finish ControllerState_Failed d
         else finish st d
       })"

text \<open>\<open>FAILED_NODE_REMOVED\<close> deletes the node of the running command, a null pointer when none runs.\<close>

definition HandleRemoveFailedNodeRequest :: "bytes \<Rightarrow> driver \<Rightarrow> driver option" where
  "HandleRemoveFailedNodeRequest buf d =
     (let s = dat buf 3 in
      if s = 0 then UpdateControllerState ControllerState_NodeOK ControllerError_None d
      else if s = 1 then do {
        c \<leftarrow> command_of d;
        d1 \<leftarrow> remove_node (cci_node c) d;
        UpdateControllerState ControllerState_Completed ControllerError_None (notify (Note_NodeRemoved (cci_node c)) d1)
      }
      else UpdateControllerState (if s = 2 then ControllerState_Failed else ControllerState_Completed) ControllerError_None d)"

definition HandleReplaceFailedNodeRequest :: "node_env \<Rightarrow> bytes \<Rightarrow> driver \<Rightarrow> driver option" where
  "HandleReplaceFailedNodeRequest env buf d =
     (let s = dat buf 3; finish = (\<lambda>st d. UpdateControllerState st ControllerError_None d) in
      if s = 0 then finish ControllerState_NodeOK d
      else if s = 3 then finish ControllerState_Waiting d
      else if s = 4 then do {
        d1 \<leftarrow> (case d_currentCmd d of None \<Rightarrow> Some d
              | Some a \<Rightarrow> do { c \<leftarrow> d_ccis d a; InitNode env (cci_node c) True d });
        finish ControllerState_Completed d1
      }
      else finish (if s = 5 then ControllerState_Failed else ControllerState_Completed) d)"

section \<open>Learn mode, routes and neighbours\<close>

definition end_learn_mode :: "driver \<Rightarrow> driver option" where
  "end_learn_mode d = send_command (request_no_reply ''End Learn Mode'' 0xff FUNC_ID_ZW_SET_LEARN_MODE [0]) d"

definition HandleSetLearnModeRequest :: "bytes \<Rightarrow> driver \<Rightarrow> driver option" where
  "HandleSetLearnModeRequest buf d = (case d_currentCmd d of None \<Rightarrow> Some d
     | Some a \<Rightarrow> do {
         c \<leftarrow> d_ccis d a;
         let s = dat buf 3;
         let finish = (\<lambda>st d. UpdateControllerState st ControllerError_None d);
         if s = 0x01 then finish ControllerState_Waiting d
         else if s = 0x06 \<or> s = 0x07 then do {
           d1 \<leftarrow> end_learn_mode d;
           d2 \<leftarrow> InitAllNodes d1;
           finish (if s = 0x06 then ControllerState_Completed else ControllerState_Failed) d2
         }
         else if s = 0x80 then do { d1 \<leftarrow> end_learn_mode d; finish ControllerState_Failed d1 }
         else finish (cci_state c) d
       })"

definition HandleNetworkUpdateRequest :: "bytes \<Rightarrow> driver \<Rightarrow> driver option" where
  "HandleNetworkUpdateRequest buf d =
     (let s = dat buf 3 in
      if s = 0 then UpdateControllerState ControllerState_Completed ControllerError_None d
      else UpdateControllerState ControllerState_Failed
        (if s = 1 then ControllerError_Failed else if s = 2 then ControllerError_Busy
         else if s = 3 then ControllerError_Disabled else if s = 4 then ControllerError_Overflow
         else ControllerError_None) d)"

text \<open>A transmission for the running command is over.\<close>

definition transmission_over :: "node_env \<Rightarrow> bool \<Rightarrow> bytes \<Rightarrow> driver \<Rightarrow> driver option" where
  "transmission_over env sleepCheck buf d = (case d_currentCmd d of None \<Rightarrow> Some d
     | Some a \<Rightarrow>
         if dat buf 3 \<noteq> TRANSMIT_COMPLETE_OK then do {
           c \<leftarrow> d_ccis d a;
           (moved, d1) \<leftarrow> HandleErrorResponse env (dat buf 3) (cci_node c) sleepCheck d;
           UpdateControllerState ControllerState_Failed ControllerError_None d1
         } else UpdateControllerState ControllerState_Completed ControllerError_None d)"

definition HandleAssignReturnRouteRequest :: "node_env \<Rightarrow> bytes \<Rightarrow> driver \<Rightarrow> driver option" where
  "HandleAssignReturnRouteRequest env = transmission_over env True"

definition HandleDeleteReturnRouteRequest :: "node_env \<Rightarrow> bytes \<Rightarrow> driver \<Rightarrow> driver option" where
  "HandleDeleteReturnRouteRequest env = transmission_over env True"

definition HandleSendNodeInformationRequest :: "node_env \<Rightarrow> bytes \<Rightarrow> driver \<Rightarrow> driver option" where
  "HandleSendNodeInformationRequest env = transmission_over env False"

definition RequestNodeNeighbors :: "uint8 \<Rightarrow> driver \<Rightarrow> driver option" where
  "RequestNodeNeighbors nid d =
     (if IsAPICallSupported FUNC_ID_ZW_GET_ROUTING_INFO d
      then send_command (request_msg ''Get Routing Info'' nid FUNC_ID_ZW_GET_ROUTING_INFO False [nid, 0, 0, 3]) d else Some d)"

definition HandleNodeNeighborUpdateRequest :: "bytes \<Rightarrow> driver \<Rightarrow> driver option" where
  "HandleNodeNeighborUpdateRequest buf d =
     (let s = dat buf 3; finish = (\<lambda>st d. UpdateControllerState st ControllerError_None d) in
      if s = 0x21 then finish ControllerState_InProgress d
      else if s = 0x22 then do {
        d1 \<leftarrow> (case d_currentCmd d of None \<Rightarrow> Some d
              | Some a \<Rightarrow> do { c \<leftarrow> d_ccis d a; RequestNodeNeighbors (cci_node c) d });
        finish ControllerState_Completed d1
      }
      else finish (if s = 0x23 then ControllerState_Failed else ControllerState_Normal) d)"

section \<open>Updates of the controller\<close>

text \<open>The first component tells that the current message was moved away.\<close>

definition info_request_failed :: "node_env \<Rightarrow> driver \<Rightarrow> (bool \<times> driver) option" where
  "info_request_failed env d = (case d_currentMsg d of None \<Rightarrow> Some (False, d)
     | Some m \<Rightarrow> if d_nodes d (m_targetNodeId m) = None then Some (False, d)
         else do {
           d1 \<leftarrow> retry_stage St_NodeInfo 2 (m_targetNodeId m) d;
           (moved, d2) \<leftarrow> MoveMessagesToWakeUpQueue env (m_targetNodeId m) True d1;
           Some (moved, if moved then d2\<lparr>d_waitingForAck := False, d_expectedCallbackId := 0, d_expectedReply := 0,
             d_expectedCommandClassId := 0, d_expectedNodeId := 0\<rparr> else d2)
         })"

definition HandleApplicationUpdateRequest :: "node_env \<Rightarrow> bytes \<Rightarrow> driver \<Rightarrow> (bool \<times> driver) option" where
  "HandleApplicationUpdateRequest env buf d0 = do {
     let nid = dat buf 3;
     let s = dat buf 2;
     d \<leftarrow> (case d_nodes d0 nid of None \<Rightarrow> Some d0
          | Some n \<Rightarrow> if \<not> m_nodeAlive (n_query n) then SetNodeAlive env True nid d0 else Some d0);
     if s = 0x10 then Some (False, map_info (\<lambda>i. i\<lparr>i_SUCNodeId := nid\<rparr>) d)
     else if s = 0x20 then map_option (Pair False \<circ> notify (Note_NodeRemoved nid)) (remove_node nid d)
     else if s = 0x40 then (if dat buf 3 \<noteq> dat buf 6 then map_option (Pair False) (InitNode env nid False d) else Some (False, d))
     else if s = 0x81 then info_request_failed env d
     else if s = 0x84 then
       (if d_nodes d nid = None then Some (False, d)
        else map_option (Pair False) (UpdateNodeInfo env nid (drop 10 buf) (dat buf 4 - 3) d))
     else Some (False, d)
   }"

section \<open>Virtual nodes\<close>

definition slave_assigned :: "bytes \<Rightarrow> driver \<Rightarrow> driver option" where
  "slave_assigned buf d = do {
     c \<leftarrow> command_of d;
     if dat buf 4 = 0 \<and> d_nodes d (cci_node c) \<noteq> None
     then SendVirtualNodeInfo (dat buf 5) (cci_node c) (map_node (set_button (cci_arg c) (dat buf 5)) (cci_node c) d)
     else Some d
   }"

definition HandleSetSlaveLearnModeRequest :: "bytes \<Rightarrow> driver \<Rightarrow> driver option" where
  "HandleSetSlaveLearnModeRequest buf d = (case d_currentCmd d of None \<Rightarrow> Some d
     | Some _ \<Rightarrow> do {
         d1 \<leftarrow> SendSlaveLearnModeOff d;
         d2 \<leftarrow> (if dat buf 3 = 0 \<or> dat buf 3 = 1 then slave_assigned buf d1 else Some d1);
         d3 \<leftarrow> map_cmd (\<lambda>c. c\<lparr>cci_added := False\<rparr>) d2;
         UpdateControllerState ControllerState_Waiting ControllerError_None d3
       })"

text \<open>\<open>m_buttonMap[arg]\<close> inserts zero for a button that is not there.\<close>

definition resend_button :: "cci \<Rightarrow> driver \<Rightarrow> driver option" where
  "resend_button c d = (case d_nodes d (cci_node c) of None \<Rightarrow> Some d
     | Some n \<Rightarrow> let v = (case n_buttonMap n (cci_arg c) of None \<Rightarrow> 0 | Some v \<Rightarrow> v)
         in SendVirtualNodeInfo v (cci_node c) (map_node (set_button (cci_arg c) v) (cci_node c) d))"

definition HandleSendSlaveNodeInfoRequest :: "node_env \<Rightarrow> bytes \<Rightarrow> driver \<Rightarrow> driver option" where
  "HandleSendSlaveNodeInfoRequest env buf d = (case d_currentCmd d of None \<Rightarrow> Some d
     | Some a \<Rightarrow> do {
         c \<leftarrow> d_ccis d a;
         if dat buf 3 = TRANSMIT_COMPLETE_OK then do {
           d1 \<leftarrow> UpdateControllerState ControllerState_Completed ControllerError_None
                  (notify (Note_CreateButton (cci_node c) (cci_arg c)) d);
           SendMsg (request_msg ''Get Virtual Neighbor List'' 0xff FUNC_ID_ZW_GET_VIRTUAL_NODES False []) MsgQueue_Send d1
         } else do {
           (moved, d1) \<leftarrow> HandleErrorResponse env (dat buf 3) (cci_node c) False d;
           c1 \<leftarrow> command_of d1;
           resend_button c1 d1
         }
       })"

definition HandleApplicationSlaveCommandRequest :: "bytes \<Rightarrow> driver \<Rightarrow> driver" where
  "HandleApplicationSlaveCommandRequest buf d = (case d_nodes d (dat buf 4) of None \<Rightarrow> d
     | Some n \<Rightarrow>
         if dat buf 5 = 3 \<and> dat buf 6 = 0x20 \<and> dat buf 7 = 0x01
         then (case find (\<lambda>b. n_buttonMap n b = Some (dat buf 3)) (map of_nat [0..<256]) of None \<Rightarrow> d
           | Some b \<Rightarrow> notify (if dat buf 8 = 0 then Note_ButtonOff (dat buf 4) b else Note_ButtonOn (dat buf 4) b) d)
         else d)"

section \<open>Frames of the nodes\<close>

definition count_frame :: "reply_env \<Rightarrow> bytes \<Rightarrow> bool \<Rightarrow> node \<Rightarrow> node" where
  "count_frame env buf expected n =
     (let frame = take 254 (drop 2 buf);
          n1 = n\<lparr>n_receivedCnt := n_receivedCnt n + 1, n_errors := 0\<rparr>;
          n2 = (if frame = n_lastReceived n \<and> re_within env then n1\<lparr>n_receivedDups := n_receivedDups n + 1\<rparr>
                else n1\<lparr>n_lastReceived := frame\<rparr>)
      in if expected then n2\<lparr>n_lastResponseRTT := re_responseRTT env, n_averageResponseRTT :=
             (if n_averageResponseRTT n \<noteq> 0 then drop_bit 1 (n_averageResponseRTT n + re_responseRTT env) else re_responseRTT env)\<rparr>
         else n2\<lparr>n_receivedUnsolicited := n_receivedUnsolicited n + 1\<rparr>)"

definition count_status :: "uint8 \<Rightarrow> driver_stats \<Rightarrow> driver_stats" where
  "count_status status s =
     (let s1 = (if status AND 0x01 \<noteq> 0 then s\<lparr>s_routedbusy := s_routedbusy s + 1\<rparr> else s)
      in if status AND 0x04 \<noteq> 0 then s1\<lparr>s_broadcastReadCnt := s_broadcastReadCnt s1 + 1\<rparr> else s1)"

text \<open>The class \<open>CONTROLLER_REPLICATION\<close> of the controller, which exists once the home id is known, answers each command.\<close>

definition HandleApplicationCommandHandlerRequest :: "reply_env \<Rightarrow> bytes \<Rightarrow> bool \<Rightarrow> driver \<Rightarrow> driver option" where
  "HandleApplicationCommandHandlerRequest env buf encrypted d0 = do {
     let nid = dat buf 3;
     let cc = dat buf 5;
     let d = map_node (count_frame env buf (d_expectedReply d0 = FUNC_ID_APPLICATION_COMMAND_HANDLER \<and> d_expectedNodeId d0 = nid)) nid
               (count (count_status (dat buf 2)) d0);
     d1 \<leftarrow> (case d_nodes d nid of None \<Rightarrow> Some d
           | Some n \<Rightarrow> if \<not> m_nodeAlive (n_query n) then SetNodeAlive (re_node env) True nid d else Some d);
     if cc = 0x22 then Some d1
     else if cc = CC_CONTROLLER_REPLICATION then
       (case command_of d1 of None \<Rightarrow> Some d1
        | Some c \<Rightarrow> if d_replicating d1 \<and> cci_command c = ControllerCommand_ReceiveConfiguration then do {
              d2 \<leftarrow> send_command (request_no_reply ''ControllerReplicationCmd_Complete'' (d_controllerNodeId d1)
                     FUNC_ID_ZW_REPLICATION_COMMAND_COMPLETE []) d1;
              UpdateControllerState ControllerState_InProgress ControllerError_None d2
            } else Some d1)
     else if d_nodes d1 nid = None then Some d1
     else ApplicationCommandHandler (re_node env) (re_key env) (re_handle env) (re_enforce env) nid buf encrypted d1
   }"

section \<open>The switch over the requests\<close>

text \<open>
  Whether the generic handling follows, and the driver.  The requests not named only write to the log;
  the replication of data is never started here.
\<close>

definition process_request :: "reply_env \<Rightarrow> bytes \<Rightarrow> uint8 \<Rightarrow> bool \<Rightarrow> driver \<Rightarrow> (bool \<times> driver) option" where
  "process_request env buf len encrypted d =
     (let f = dat buf 1; ne = re_node env; done = map_option (Pair True) in
      if f = FUNC_ID_APPLICATION_COMMAND_HANDLER then done (HandleApplicationCommandHandlerRequest env buf encrypted d)
      else if f = FUNC_ID_ZW_SEND_DATA then done (HandleSendDataRequest ne (re_rtt env) buf len False d)
      else if f = 0x45 then done (HandleSendDataRequest ne (re_rtt env) buf len True d)
      else if f = FUNC_ID_ZW_ASSIGN_RETURN_ROUTE then done (HandleAssignReturnRouteRequest ne buf d)
      else if f = FUNC_ID_ZW_DELETE_RETURN_ROUTE then done (HandleDeleteReturnRouteRequest ne buf d)
      else if f = FUNC_ID_ZW_SEND_NODE_INFORMATION then done (HandleSendNodeInformationRequest ne buf d)
      else if f = FUNC_ID_ZW_REQUEST_NODE_NEIGHBOR_UPDATE \<or> f = FUNC_ID_ZW_REQUEST_NODE_NEIGHBOR_UPDATE_OPTIONS
        then done (HandleNodeNeighborUpdateRequest buf d)
      else if f = 0x49 then map_option (\<lambda>(moved, d). (\<not> moved, d)) (HandleApplicationUpdateRequest ne buf d)
      else if f = FUNC_ID_ZW_ADD_NODE_TO_NETWORK \<or> f = FUNC_ID_ZW_CREATE_NEW_PRIMARY \<or> f = FUNC_ID_ZW_CONTROLLER_CHANGE
        then done (CommonAddNodeStatusRequestHandler ne f buf d)
      else if f = FUNC_ID_ZW_REMOVE_NODE_FROM_NETWORK then done (HandleRemoveNodeFromNetworkRequest buf d)
      else if f = FUNC_ID_ZW_SET_LEARN_MODE then done (HandleSetLearnModeRequest buf d)
      else if f = FUNC_ID_ZW_REQUEST_NETWORK_UPDATE then done (HandleNetworkUpdateRequest buf d)
      else if f = FUNC_ID_ZW_REMOVE_FAILED_NODE_ID then done (HandleRemoveFailedNodeRequest buf d)
      else if f = FUNC_ID_ZW_REPLACE_FAILED_NODE then done (HandleReplaceFailedNodeRequest ne buf d)
      else if f = FUNC_ID_ZW_SET_SLAVE_LEARN_MODE then done (HandleSetSlaveLearnModeRequest buf d)
      else if f = FUNC_ID_ZW_SEND_SLAVE_NODE_INFO then done (HandleSendSlaveNodeInfoRequest ne buf d)
      else if f = 0xA1 then Some (True, HandleApplicationSlaveCommandRequest buf d)
      else Some (True, d))"

end
