(* ===== verification/Reply_Laws.thy ===== *)
theory Reply_Laws
  imports Controller_Replies Node_Info_Laws
begin

text \<open>
  What the replies show: the initial data bring the table of nodes into line with the network, the
  initialisation sequence never breaks off, a refusal does not always end its transaction, and bridge
  controllers are turned away.
\<close>

section \<open>What sending and querying leave alone\<close>

definition same_info :: "driver \<Rightarrow> driver \<Rightarrow> bool" where
  "same_info d d' \<longleftrightarrow> d_info d' = d_info d \<and> d_init d' = d_init d \<and> d_stopped d' = d_stopped d \<and>
     d_currentCmd d' = d_currentCmd d \<and> d_homeId d' = d_homeId d \<and> d_controllerNodeId d' = d_controllerNodeId d"

lemma same_info_refl [simp]: "same_info d d"
  by (simp add: same_info_def)

lemma same_info_trans: "same_info a b \<Longrightarrow> same_info b c \<Longrightarrow> same_info a c"
  by (simp add: same_info_def)

lemma same_info_simps [simp]:
  "same_info d (notify x e) \<longleftrightarrow> same_info d e" "same_info d (put_node i n e) \<longleftrightarrow> same_info d e"
  "same_info d (push_back q it e) \<longleftrightarrow> same_info d e" "same_info d (put_cci a c e) \<longleftrightarrow> same_info d e"
  "same_info d (CheckCompletedNodeQueries e) \<longleftrightarrow> same_info d e"
  "same_info d (set_queue q xs e) \<longleftrightarrow> same_info d e" "same_info d (RemoveCurrentMsg e) \<longleftrightarrow> same_info d e"
  by (auto simp: same_info_def notify_def put_node_def push_back_def put_cci_def CheckCompletedNodeQueries_def
      set_queue_def RemoveCurrentMsg_def Let_def split: prod.split)

lemma UpdateControllerState_info: "UpdateControllerState st err d = Some d' \<Longrightarrow> same_info d d'"
  by (auto simp: UpdateControllerState_def Let_def split: option.splits Option.bind_splits if_splits)
    (simp_all add: same_info_def notify_def put_cci_def)

lemma QueueMsg_info: "QueueMsg nid it d = Some d' \<Longrightarrow> same_info d d'"
  by (auto simp: QueueMsg_def split: Option.bind_splits) (simp add: same_info_def)

lemma SendMsg_info:
  assumes "SendMsg m q d = Some d'"
  shows "same_info d d'"
proof -
  obtain cb m1 where f: "Finalize (d_callbackId d) (m\<lparr>m_homeId := d_homeId d\<rparr>) = Some (cb, m1)"
    using assms by (auto simp: SendMsg_def split: Option.bind_splits)
  define d1 where "d1 = d\<lparr>d_callbackId := cb\<rparr>"
  have i: "same_info d d1" by (simp add: d1_def same_info_def)
  have n: "same_info d e" if "new_cci c d1 = (x, e)" for c x e
    using that i by (auto simp: same_info_def new_cci_def)
  have U: "same_info d e'" if "new_cci c d1 = (x, e)" "UpdateControllerState st err e = Some e'" for st err c x e e'
    by (rule same_info_trans [OF n [OF that(1)] UpdateControllerState_info [OF that(2)]])
  have Q: "same_info d e'" if "QueueMsg nid it e = Some e'" "same_info d e" for nid it e e'
    by (rule same_info_trans [OF that(2) QueueMsg_info [OF that(1)]])
  have r: "SendMsg m q d = (case d_nodes d1 (m_targetNodeId m1) of None \<Rightarrow> Some (push_back q (Item_SendMsg m1) d1)
    | Some n \<Rightarrow> (let m2 = (if needs_encryption n m1 then m1\<lparr>m_encrypted := True\<rparr> else m1) in
        if sleeping n then (case d_currentCmd d1 of None \<Rightarrow> QueueMsg (m_targetNodeId m1) (Item_SendMsg m2) d1
          | Some a \<Rightarrow> do { c \<leftarrow> d_ccis d1 a; let (b, d2) = new_cci c d1;
              d3 \<leftarrow> UpdateControllerState ControllerState_Sleeping ControllerError_None d2;
              QueueMsg (m_targetNodeId m1) (Item_Controller b) d3 })
        else Some (push_back q (Item_SendMsg m2) d1)))"
    unfolding d1_def SendMsg_def f by (simp add: Let_def)
  show ?thesis
  proof (cases "d_nodes d1 (m_targetNodeId m1)")
    case None
    then show ?thesis using assms r i by auto
  next
    case (Some k)
    show ?thesis
    proof (cases "sleeping k \<and> d_currentCmd d1 \<noteq> None")
      case True
      then obtain a where a: "d_currentCmd d1 = Some a" by blast
      then obtain c where c: "d_ccis d1 a = Some c"
        using assms Some True unfolding r Let_def by (auto split: Option.bind_splits)
      obtain x e where e: "new_cci c d1 = (x, e)" by force
      obtain e' where e': "UpdateControllerState ControllerState_Sleeping ControllerError_None e = Some e'"
        "QueueMsg (m_targetNodeId m1) (Item_Controller x) e' = Some d'"
        using assms Some True a c e unfolding r Let_def by (auto split: Option.bind_splits)
      show ?thesis by (rule Q [OF e'(2) U [OF e e'(1)]])
    next
      case False
      then show ?thesis using assms Some i Q [OF _ i] unfolding r Let_def by (auto split: if_splits option.splits)
    qed
  qed
qed

lemma run_all_info:
  assumes "\<And>x d d'. f x d = Some d' \<Longrightarrow> same_info d d'"
  shows "run_all f xs d = Some d' \<Longrightarrow> same_info d d'"
proof (induction xs arbitrary: d)
  case (Cons x xs)
  then obtain d1 where "f x d = Some d1" "run_all f xs d1 = Some d'" by (auto split: Option.bind_splits)
  then show ?case using same_info_trans [OF assms Cons.IH] by blast
qed simp

lemma SendQueryStageComplete_info: "SendQueryStageComplete nid s d = Some d' \<Longrightarrow> same_info d d'"
  using QueueMsg_info by (auto simp: SendQueryStageComplete_def split: option.splits if_splits)

lemma map_wakeup_info: "map_wakeup f nid d = Some d' \<Longrightarrow> same_info d d'"
  by (auto simp: map_wakeup_def split: Option.bind_splits)

lemma BeginControllerCommand_info: "BeginControllerCommand c f x hp nid arg d = (r, d') \<Longrightarrow> same_info d d'"
  by (auto simp: BeginControllerCommand_def new_cci_def Let_def split: if_splits) (simp add: same_info_def)

lemma pending_step_info:
  assumes "pending_step it d = Some d'"
  shows "same_info d d'"
proof (cases it)
  case (Item_Controller a)
  obtain c where c: "d_ccis d a = Some c" using assms Item_Controller by (auto simp: pending_step_def split: Option.bind_splits)
  obtain r e where b: "BeginControllerCommand (cci_command c) (cci_callback c) (cci_context c) (cci_highPower c) (cci_node c)
    (cci_arg c) d = (r, e)" by force
  then show ?thesis using assms Item_Controller c BeginControllerCommand_info [OF b]
    by (auto simp: pending_step_def same_info_def split: Option.bind_splits)
qed (use assms SendMsg_info SendQueryStageComplete_info in \<open>auto simp: pending_step_def\<close>)

lemma pending_loop_info: "pending_loop nid its d = Some d' \<Longrightarrow> same_info d d'"
proof (induction its arbitrary: d)
  case (Cons it its)
  then obtain d1 d2 where "pending_step it d = Some d1" "map_wakeup (\<lambda>w. w\<lparr>w_pending := tl (w_pending w)\<rparr>) nid d1 = Some d2"
    "pending_loop nid its d2 = Some d'" by (auto split: Option.bind_splits)
  then show ?case
    using same_info_trans [OF pending_step_info same_info_trans [OF map_wakeup_info Cons.IH]] by blast
qed simp

lemma SendNoMoreInfo_info: "SendNoMoreInfo nid d = Some d' \<Longrightarrow> same_info d d'"
  by (simp add: SendNoMoreInfo_def SendMsg_info)

lemma SendPending_info:
  assumes "SendPending nid d = Some d'"
  shows "same_info d d'"
proof -
  obtain d1 d2 where s: "map_wakeup (\<lambda>w. w\<lparr>w_awake := True\<rparr>) nid d = Some d1" "pending_loop nid (pending d1 nid) d1 = Some d2"
    using assms by (auto simp: SendPending_def split: Option.bind_splits)
  have i: "same_info d d2" using same_info_trans map_wakeup_info [OF s(1)] pending_loop_info [OF s(2)] by blast
  then have "same_info d (d2\<lparr>d_timers := t\<rparr>)" for t by (simp add: same_info_def)
  then show ?thesis using assms s i same_info_trans [OF i SendNoMoreInfo_info]
    by (auto simp: SendPending_def split: Option.bind_splits if_splits)
qed

lemma perform_event_info: "perform_event env nid ev d = Some d' \<Longrightarrow> same_info d d'"
  using SendPending_info SendQueryStageComplete_info run_all_info [of send_one] SendMsg_info
  by (auto simp: perform_event_def send_one_def split: query_event.splits option.splits)

lemma set_stage_node_info:
  assumes "set_stage_node env s b nid d = Some d'"
  shows "same_info d d'"
proof -
  obtain n q evs where "run_all (perform_event env nid) evs (put_node nid (n\<lparr>n_query := q\<rparr>) d) = Some d'"
    using assms by (auto simp: set_stage_node_def split: Option.bind_splits prod.splits)
  from run_all_info [OF perform_event_info this] show ?thesis by (simp add: same_info_def put_node_def)
qed

lemma remove_from_queue_info: "remove_from_queue nid q d = Some d' \<Longrightarrow> same_info d d'"
  by (auto simp: remove_from_queue_def split: Option.bind_splits) (simp add: same_info_def)

lemma destroy_node_info:
  assumes "destroy_node nid d = Some d'"
  shows "same_info d d'"
proof -
  obtain d1 h where r: "RemoveQueues nid d = Some d1" "d' = d1\<lparr>d_ccis := h, d_nodes := (d_nodes d1)(nid := None)\<rparr>"
    using assms by (auto simp: destroy_node_def split: Option.bind_splits)
  have "same_info d d1"
    using run_all_info [OF remove_from_queue_info r(1) [unfolded RemoveQueues_def]]
    by (auto simp: same_info_def RemoveCurrentMsg_def split: option.splits if_splits)
  then show ?thesis using r(2) by (simp add: same_info_def)
qed

lemma fresh_node_info: "fresh_node nid nn d = Some d' \<Longrightarrow> same_info d d'"
  using destroy_node_info by (auto simp: fresh_node_def split: Option.bind_splits if_splits)

lemma InitNode_info: "InitNode env nid nn d = Some d' \<Longrightarrow> same_info d d'"
  by (auto simp: InitNode_def split: Option.bind_splits intro: same_info_trans fresh_node_info set_stage_node_info)

section \<open>The map of nodes\<close>

text \<open>Whether node \<open>nid\<close> is to be there after a bit of the map was looked at.\<close>

definition node_listed :: "bytes \<Rightarrow> nat \<Rightarrow> bool" where
  "node_listed buf i \<longleftrightarrow> bit (dat buf (i div 8 + 5)) (i mod 8)"

lemma sync_node_outcome:
  assumes w: "well_formed d" and e: "env_ok env" and nid: "nid = of_nat (i + 1)"
  shows "\<exists>d'. sync_node env buf i d = Some d' \<and> well_formed d' \<and> same_info d d' \<and>
    (\<forall>j. j \<noteq> nid \<longrightarrow> (d_nodes d' j = None \<longleftrightarrow> d_nodes d j = None)) \<and>
    (d_nodes d' nid \<noteq> None \<longleftrightarrow> node_listed buf i \<and> (IsVirtualNode nid d \<longrightarrow> d_nodes d nid \<noteq> None))"
proof -
  have s: "sync_node env buf i d = (if node_listed buf i then
        (if IsVirtualNode nid d then Some d
         else if d_nodes d nid \<noteq> None then (if \<not> d_init d then set_stage_node env St_CacheLoad True nid d else Some d)
         else InitNode env nid False (notify (Note_NodeNew nid) d))
      else if d_nodes d nid \<noteq> None then map_option (notify (Note_NodeRemoved nid)) (destroy_node nid d)
      else Some d)"
    unfolding sync_node_def nid node_listed_def Let_def ..
  have there: "(d_nodes e j = None) = (s j = None)" if "good s e" for s e j
    using good_shape [OF that, of j] good_node [OF that, of j] by (cases "d_nodes e j"; cases "s j") auto
  obtain sh where g: "good sh d" using w by (rule well_formedE)
  consider "\<not> node_listed buf i" "d_nodes d nid = None" | "\<not> node_listed buf i" "d_nodes d nid \<noteq> None"
    | "node_listed buf i" "IsVirtualNode nid d" | "node_listed buf i" "\<not> IsVirtualNode nid d" "d_nodes d nid \<noteq> None"
    | "node_listed buf i" "\<not> IsVirtualNode nid d" "d_nodes d nid = None" by blast
  then show ?thesis
  proof cases
    case 2
    obtain d1 where d1: "destroy_node nid d = Some d1" "good (sh(nid := None)) d1" "d_nodes d1 = (d_nodes d)(nid := None)"
      by (rule destroy_node_good [OF g, of nid])
    have k: "d_nodes (notify x d1) = (d_nodes d)(nid := None)" for x by (simp add: notify_def d1(3))
    have r: "sync_node env buf i d = Some (notify (Note_NodeRemoved nid) d1)" using 2 d1(1) by (simp add: s)
    show ?thesis
      by (intro exI [of _ "notify (Note_NodeRemoved nid) d1"])
        (use r 2 destroy_node_info [OF d1(1)] good_wf [OF d1(2)] in \<open>simp add: k\<close>)
  next
    case 4
    have "sh nid \<noteq> None" using 4 there [OF g] by simp
    from set_stage_node_good [OF g e this]
    obtain d1 where d1: "set_stage_node env St_CacheLoad True nid d = Some d1" "good sh d1" by blast
    show ?thesis
    proof (cases "d_init d")
      case True
      then show ?thesis using 4 w by (intro exI [of _ d]) (simp add: s)
    next
      case False
      then show ?thesis using 4 set_stage_node_info [OF d1(1)] good_wf [OF d1(2)] d1(1) there [OF g] there [OF d1(2)]
        by (intro exI [of _ d1]) (simp add: s)
    qed
  next
    case 5
    have "good sh (notify (Note_NodeNew nid) d)" using g by simp
    from InitNode_good [OF this e] obtain d1 where d1: "InitNode env nid False (notify (Note_NodeNew nid) d) = Some d1"
      "good (sh(nid := Some False)) d1" by blast
    have "same_info d d1" using InitNode_info [OF d1(1)] by (simp add: same_info_def notify_def)
    then show ?thesis using 5 d1 good_wf [OF d1(2)] there [OF g] there [OF d1(2)]
      by (intro exI [of _ d1]) (simp add: s)
  qed (use w in \<open>auto simp: s\<close>)
qed

section \<open>The controller is brought up\<close>

text \<open>A node of the cache file: nothing waits for it, and its nonce table has its size.\<close>

definition cached_ok :: "(uint8 \<times> node) list \<Rightarrow> driver \<Rightarrow> bool" where
  "cached_ok es d \<longleftrightarrow> (\<forall>(nid, n) \<in> set es. pending d nid = [] \<and> nonce_ok (n_nonces n) \<and>
     (case n_wakeUp n of None \<Rightarrow> True | Some w \<Rightarrow> w_pending w = []))"

lemma no_pending_node_good:
  assumes g: "good sh d" and p: "pending d nid = []" and w: "case n_wakeUp n of None \<Rightarrow> True | Some w \<Rightarrow> w_pending w = []"
    and t: "nonce_ok (n_nonces n)"
  shows "good (sh(nid := Some (n_wakeUp n \<noteq> None))) (put_node nid n d)"
proof -
  let ?d = "put_node nid n d"
  have "pending ?d = pending d"
    using p w by (auto simp: pending_put_node fun_eq_iff split: option.split)
  then have "driver_inv ?d" "\<forall>i. \<forall>it \<in> set (pending ?d i). item_ok it"
    using g event_ok_eq [of ?d d]
    by (auto simp: good_def driver_inv_def heap_ok_def cmd_ok_def put_node_def tame_def)
  moreover have "shape ?d = sh(nid := Some (n_wakeUp n \<noteq> None))"
    using g by (auto simp: good_def tame_def shape_def put_node_def fun_eq_iff)
  ultimately show ?thesis using g t by (auto simp: good_def tame_def put_node_def)
qed

lemma ReadCache_wf:
  assumes "well_formed d" and "cached_ok es d"
  shows "well_formed (ReadCache es d) \<and> same_info d (ReadCache es d) \<and>
    (\<forall>j. d_nodes (ReadCache es d) j \<noteq> None \<longleftrightarrow> d_nodes d j \<noteq> None \<or> j \<in> fst ` set es)"
  using assms
proof (induction es arbitrary: d)
  case (Cons e es)
  obtain nid n where e: "e = (nid, n)" by force
  obtain sh where g: "good sh d" using Cons.prems(1) by (rule well_formedE)
  have k: "pending d nid = []" "case n_wakeUp n of None \<Rightarrow> True | Some w \<Rightarrow> w_pending w = []" "nonce_ok (n_nonces n)"
    using Cons.prems(2) by (auto simp: cached_ok_def e)
  have w: "well_formed (cached_node e d)"
    using no_pending_node_good [OF g k] by (auto simp: cached_node_def e intro: good_wf)
  have "pending (cached_node e d) i = pending d i" for i
  proof -
    have "pending (cached_node e d) i = pending (put_node nid n d) i" by (simp add: cached_node_def e pending_def notify_def)
    then show ?thesis using k(1,2) by (auto simp: pending_put_node split: option.split)
  qed
  then have "cached_ok es (cached_node e d)" using Cons.prems(2) by (auto simp: cached_ok_def)
  from Cons.IH [OF w this] show ?case
    by (auto simp: ReadCache_def e) (auto simp: cached_node_def same_info_def notify_def put_node_def)
qed (simp add: ReadCache_def)

lemma sync_nodes_outcome:
  assumes w: "well_formed d" and e: "env_ok env" and k: "k \<le> 232"
  shows "\<exists>d'. run_all (sync_node env buf) [0..<k] d = Some d' \<and> well_formed d' \<and> same_info d d' \<and>
    (\<forall>j. k < unat j \<or> j = 0 \<longrightarrow> (d_nodes d' j = None \<longleftrightarrow> d_nodes d j = None)) \<and>
    (\<forall>i < k. d_nodes d' (of_nat (i + 1)) \<noteq> None \<longleftrightarrow>
       node_listed buf i \<and> (IsVirtualNode (of_nat (i + 1)) d \<longrightarrow> d_nodes d (of_nat (i + 1)) \<noteq> None))"
  using k
proof (induction k)
  case 0
  then show ?case using w by simp
next
  case (Suc k)
  obtain d1 where d1: "run_all (sync_node env buf) [0..<k] d = Some d1" "well_formed d1" "same_info d d1"
    "\<And>j. k < unat j \<or> j = 0 \<Longrightarrow> (d_nodes d1 j = None \<longleftrightarrow> d_nodes d j = None)"
    "\<And>i. i < k \<Longrightarrow> d_nodes d1 (of_nat (i + 1)) \<noteq> None \<longleftrightarrow>
       node_listed buf i \<and> (IsVirtualNode (of_nat (i + 1)) d \<longrightarrow> d_nodes d (of_nat (i + 1)) \<noteq> None)"
    using Suc.IH [OF Suc_leD [OF Suc.prems]] by blast
  define nid :: uint8 where "nid = of_nat (k + 1)"
  have u: "unat (of_nat (i + 1) :: uint8) = i + 1" if "i \<le> k" for i using that Suc.prems by (simp add: unat_of_nat del: of_nat_add of_nat_1 of_nat_Suc)
  have un: "unat nid = k + 1" using u [of k] by (simp add: nid_def)
  obtain d2 where d2: "sync_node env buf k d1 = Some d2" "well_formed d2" "same_info d1 d2"
    "\<And>j. j \<noteq> nid \<Longrightarrow> (d_nodes d2 j = None \<longleftrightarrow> d_nodes d1 j = None)"
    "d_nodes d2 nid \<noteq> None \<longleftrightarrow> node_listed buf k \<and> (IsVirtualNode nid d1 \<longrightarrow> d_nodes d1 nid \<noteq> None)"
    using sync_node_outcome [OF d1(2) e nid_def, of buf] by blast
  have v: "IsVirtualNode nid d1 = IsVirtualNode nid d" using d1(3) by (simp add: IsVirtualNode_def same_info_def)
  have n: "d_nodes d1 nid = None \<longleftrightarrow> d_nodes d nid = None" using d1(4) [of nid] un by simp
  have old: "d_nodes d2 j = None \<longleftrightarrow> d_nodes d j = None" if "Suc k < unat j \<or> j = 0" for j
  proof -
    have "j \<noteq> nid" using that un by auto
    moreover have "k < unat j \<or> j = 0" using that by auto
    ultimately show ?thesis using d2(4) d1(4) [of j] by simp
  qed
  have new: "d_nodes d2 (of_nat (i + 1)) \<noteq> None \<longleftrightarrow>
       node_listed buf i \<and> (IsVirtualNode (of_nat (i + 1)) d \<longrightarrow> d_nodes d (of_nat (i + 1)) \<noteq> None)" if "i < Suc k" for i
  proof (cases "i = k")
    case True
    then show ?thesis using d2(5) v n by (simp only: True nid_def [symmetric])
  next
    case False
    then have "(of_nat (i + 1) :: uint8) \<noteq> nid" using u [of i] un that by (metis add_right_cancel less_or_eq_imp_le less_Suc_eq_le)
    then show ?thesis using d2(4) d1(5) [of i] that False by simp
  qed
  have "run_all (sync_node env buf) [0..<Suc k] d = Some d2" using d1(1) d2(1) by (simp add: run_all_append)
  then show ?case using d2(2) same_info_trans [OF d1(3) d2(3)] old new by blast
qed

text \<open>(C12) The reply to the request for initial data brings the table of nodes into line with the network: a number
  from 1 to 232 has a node exactly when its bit is set in the map of the controller, virtual nodes being
  left as they were, whatever was known before, from the cache file or from an earlier start; the driver is
  then marked as initialised and is well formed.\<close>

theorem init_data_synchronises:
  assumes w: "well_formed d" and e: "env_ok env"
    and ids: "d_homeId d \<noteq> 0" "d_controllerNodeId d \<noteq> 0" "d_controllerNodeId d \<noteq> 255"
    and c: "d_init d \<or> cached_ok cached d" and m: "dat buf 4 = 29"
    and known: "known = {j. d_nodes d j \<noteq> None} \<union> (if d_init d then {} else fst ` set cached)"
  shows "\<exists>d'. HandleSerialAPIGetInitDataResponse env cached buf d = Some d' \<and> well_formed d' \<and> d_init d' \<and>
    (\<forall>i < 232. d_nodes d' (of_nat (i + 1)) \<noteq> None \<longleftrightarrow>
       node_listed buf i \<and> (IsVirtualNode (of_nat (i + 1)) d \<longrightarrow> of_nat (i + 1) \<in> known)) \<and>
    (\<forall>j. 232 < unat j \<or> j = 0 \<longrightarrow> (d_nodes d' j \<noteq> None \<longleftrightarrow> j \<in> known))"
proof -
  define d1 where "d1 = (if \<not> d_init d then ReadCache cached d else notify Note_DriverReset d)"
  define d2 where "d2 = map_info (\<lambda>i. i\<lparr>i_initCaps := dat buf 3\<rparr>) d1"
  have d1: "well_formed d1" "same_info d d1" "\<And>j. d_nodes d1 j \<noteq> None \<longleftrightarrow> j \<in> known"
    using ReadCache_wf [OF w, of cached] c w by (auto simp: d1_def known) (auto simp: notify_def)
  have d2: "well_formed d2" "\<And>j. d_nodes d2 j \<noteq> None \<longleftrightarrow> j \<in> known" "\<And>j. IsVirtualNode j d2 = IsVirtualNode j d"
  proof -
    show "well_formed d2" using d1(1) by (simp add: d2_def)
    show "\<And>j. d_nodes d2 j \<noteq> None \<longleftrightarrow> j \<in> known" using d1(3) by (simp add: d2_def map_info_def)
    show "\<And>j. IsVirtualNode j d2 = IsVirtualNode j d"
      using d1(2) by (simp add: d2_def map_info_def IsVirtualNode_def same_info_def)
  qed
  obtain d3 where d3: "run_all (sync_node env buf) [0..<232] d2 = Some d3" "well_formed d3"
    "\<And>j. 232 < unat j \<or> j = 0 \<Longrightarrow> (d_nodes d3 j = None \<longleftrightarrow> d_nodes d2 j = None)"
    "\<And>i. i < 232 \<Longrightarrow> d_nodes d3 (of_nat (i + 1)) \<noteq> None \<longleftrightarrow>
       node_listed buf i \<and> (IsVirtualNode (of_nat (i + 1)) d2 \<longrightarrow> d_nodes d2 (of_nat (i + 1)) \<noteq> None)"
    using sync_nodes_outcome [OF d2(1) e order_refl, of buf] by blast
  have "HandleSerialAPIGetInitDataResponse env cached buf d = Some (d3\<lparr>d_init := True\<rparr>)"
    using ids m d3(1) by (simp add: HandleSerialAPIGetInitDataResponse_def d1_def d2_def Let_def del: run_all.simps)
  moreover have "well_formed (d3\<lparr>d_init := True\<rparr>)" using d3(2) by simp
  ultimately show ?thesis using d3(3,4) d2(2,3) by (intro exI [of _ "d3\<lparr>d_init := True\<rparr>"]) simp
qed

text \<open>Nodes 1 and 3 are listed; the cache file knew nodes 3 and 200, and node 5 was there.\<close>

definition init_reply :: bytes where
  "init_reply = [1, 37, 1, 2, 5, 8, 29, 5] @ replicate 1016 0"

definition joined_driver :: driver where
  "joined_driver = (put_node 5 Node_new (Driver_new 10))\<lparr>d_homeId := 7, d_controllerNodeId := 1, d_replicating := True\<rparr>"

lemma joined_driver_wf: "well_formed joined_driver"
proof -
  have "good ((\<lambda>_. None)(5 := Some False)) (put_node 5 Node_new (Driver_new 10))"
    by (rule new_node_good [OF Driver_new_good]) (simp_all add: Driver_new_def Node_new_ok)
  then show ?thesis unfolding joined_driver_def by (intro wf_updates(7) good_wf)
qed

theorem init_data_synchronises_witness:
  "\<exists>d'. HandleSerialAPIGetInitDataResponse quiet_env [(3, Node_new), (200, Node_new)] init_reply joined_driver = Some d' \<and>
     well_formed d' \<and> d_init d' \<and> d_nodes d' 1 \<noteq> None \<and> d_nodes d' 3 \<noteq> None \<and> d_nodes d' 5 = None \<and> d_nodes d' 200 = None"
proof -
  have c: "cached_ok [(3, Node_new), (200, Node_new)] joined_driver"
    by (simp add: cached_ok_def joined_driver_def pending_def put_node_def Driver_new_def Node_new_ok)
  have i: "d_homeId joined_driver \<noteq> 0" "d_controllerNodeId joined_driver \<noteq> 0" "d_controllerNodeId joined_driver \<noteq> 255"
    "dat init_reply 4 = 29" by (simp_all add: joined_driver_def init_reply_def dat_def)
  have e: "env_ok quiet_env" by (simp add: env_ok_def quiet_env_def)
  have l: "node_listed init_reply 0" "node_listed init_reply 2" "\<not> node_listed init_reply 4" "\<not> node_listed init_reply 199"
    by (simp_all add: node_listed_def init_reply_def dat_def bit_simps)
  have v: "\<not> IsVirtualNode j joined_driver" if "j = 1 \<or> j = 3" for j
    using that by (auto simp: IsVirtualNode_def map_bit_def joined_driver_def put_node_def Driver_new_def)
  obtain d' where d': "HandleSerialAPIGetInitDataResponse quiet_env [(3, Node_new), (200, Node_new)] init_reply joined_driver = Some d'"
    "well_formed d'" "d_init d'"
    "\<And>i. i < 232 \<Longrightarrow> d_nodes d' (of_nat (i + 1)) \<noteq> None \<longleftrightarrow> node_listed init_reply i \<and>
      (IsVirtualNode (of_nat (i + 1)) joined_driver \<longrightarrow> of_nat (i + 1) \<in> {j. d_nodes joined_driver j \<noteq> None} \<union>
        (if d_init joined_driver then {} else fst ` set [(3, Node_new), (200, Node_new)]))"
    using init_data_synchronises [OF joined_driver_wf e i(1-3) disjI2 [OF c] i(4) refl] by blast
  have "d_nodes d' 1 \<noteq> None" using d'(4) [of 0] l(1) v by simp
  moreover have "d_nodes d' 3 \<noteq> None" using d'(4) [of 2] l(2) v by simp
  moreover have "d_nodes d' 5 = None" using d'(4) [of 4] l(3) by simp
  moreover have "d_nodes d' 200 = None" using d'(4) [of 199] l(4) by simp
  ultimately show ?thesis using d'(1-3) by blast
qed

section \<open>The order of the start\<close>

text \<open>The request that follows the reply to a request of the initialisation sequence.\<close>

definition init_next :: "uint8 \<Rightarrow> uint8 option" where
  "init_next f = (if f = FUNC_ID_ZW_GET_VERSION then Some FUNC_ID_ZW_MEMORY_GET_ID
     else if f = FUNC_ID_ZW_MEMORY_GET_ID then Some FUNC_ID_ZW_GET_CONTROLLER_CAPABILITIES
     else if f = FUNC_ID_ZW_GET_CONTROLLER_CAPABILITIES then Some FUNC_ID_ZW_GET_SUC_NODE_ID
     else if f = FUNC_ID_ZW_GET_SUC_NODE_ID then Some FUNC_ID_SERIAL_API_GET_CAPABILITIES
     else if f = FUNC_ID_SERIAL_API_GET_CAPABILITIES then Some FUNC_ID_SERIAL_API_GET_INIT_DATA
     else None)"

text \<open>\<open>fs\<close> are the functions of the requests put at the end of the command queue.\<close>

definition commands_sent :: "uint8 list \<Rightarrow> driver \<Rightarrow> driver \<Rightarrow> bool" where
  "commands_sent fs d d' \<longleftrightarrow> d_nodes d' 0xff = d_nodes d 0xff \<and> (\<exists>ms. map (\<lambda>m. m_buffer m ! 3) ms = fs \<and>
     d_queue d' MsgQueue_Command = d_queue d MsgQueue_Command @ map Item_SendMsg ms)"

lemma commands_sent_refl [simp]: "commands_sent [] d d"
  by (simp add: commands_sent_def)

lemma commands_sent_trans: "commands_sent fs d e \<Longrightarrow> commands_sent gs e f \<Longrightarrow> commands_sent (fs @ gs) d f"
  unfolding commands_sent_def by (elim conjE exE, intro conjI) (simp, metis append_assoc map_append)

lemma commands_sent_info [simp]:
  "commands_sent fs (map_info g d) d' \<longleftrightarrow> commands_sent fs d d'" "commands_sent fs (notify x d) d' \<longleftrightarrow> commands_sent fs d d'"
  "commands_sent fs (d\<lparr>d_stopped := b\<rparr>) d' \<longleftrightarrow> commands_sent fs d d'"
  "commands_sent fs (d\<lparr>d_homeId := h, d_controllerNodeId := k, d_replicating := b\<rparr>) d' \<longleftrightarrow> commands_sent fs d d'"
  by (simp_all add: commands_sent_def map_info_def notify_def)

text \<open>An operation that sends these requests, among others perhaps, and is well formed again.\<close>

definition asks :: "uint8 set \<Rightarrow> driver \<Rightarrow> driver option \<Rightarrow> bool" where
  "asks fs d r \<longleftrightarrow> (\<exists>d' gs. r = Some d' \<and> well_formed d' \<and> commands_sent gs d d' \<and> fs \<subseteq> set gs)"

lemma asks_Some [simp]: "well_formed d \<Longrightarrow> asks {} d (Some d)"
  by (auto simp: asks_def intro!: exI [of _ "[]"])

lemma asks_info [simp]: "asks fs (map_info g d) r \<longleftrightarrow> asks fs d r"
  by (simp add: asks_def)

lemma asks_bind:
  assumes "asks fs d r" and "\<And>e. well_formed e \<Longrightarrow> d_nodes e 0xff = d_nodes d 0xff \<Longrightarrow> asks gs e (f e)"
  shows "asks (fs \<union> gs) d (Option.bind r f)"
proof -
  obtain e xs where e: "r = Some e" "well_formed e" "commands_sent xs d e" "fs \<subseteq> set xs" using assms(1) by (auto simp: asks_def)
  have "d_nodes e 0xff = d_nodes d 0xff" using e(3) by (simp add: commands_sent_def)
  from assms(2) [OF e(2) this] obtain d' ys where d': "f e = Some d'" "well_formed d'" "commands_sent ys e d'" "gs \<subseteq> set ys"
    by (auto simp: asks_def)
  show ?thesis unfolding asks_def
    by (intro exI [of _ d'] exI [of _ "xs @ ys"]) (use e d' commands_sent_trans [OF e(3) d'(3)] in auto)
qed

lemma SendMsg_no_node:
  assumes "well_formed d" and "d_nodes d n = None" and "length bs < 200"
  obtains m cb where "SendMsg (request_msg t n f cbk bs) q d = Some (push_back q (Item_SendMsg m) (d\<lparr>d_callbackId := cb\<rparr>))"
    "m_buffer m ! 3 = f"
proof -
  have "finishes (request_msg t n f cbk bs)" by (rule finishes_request [OF assms(3)])
  then obtain cb m where f: "Finalize (d_callbackId d) ((request_msg t n f cbk bs)\<lparr>m_homeId := d_homeId d\<rparr>) = Some (cb, m)"
    unfolding finishes_def by (metis option.exhaust surj_pair option.distinct(1))
  show ?thesis using that [of m cb] request_function [OF f assms(3)] f assms(2) by (simp add: SendMsg_def)
qed

lemma no_reply_no_node:
  assumes "d_nodes d n = None" and "length bs < 200"
  obtains m cb where "SendMsg (request_no_reply t n f bs) q d = Some (push_back q (Item_SendMsg m) (d\<lparr>d_callbackId := cb\<rparr>))"
proof -
  have "finishes (request_no_reply t n f bs)" by (rule finishes_request_no_reply [OF assms(2)])
  then obtain cb m where f: "Finalize (d_callbackId d) ((request_no_reply t n f bs)\<lparr>m_homeId := d_homeId d\<rparr>) = Some (cb, m)"
    unfolding finishes_def by (metis option.exhaust surj_pair option.distinct(1))
  have "m_targetNodeId m = n"
    using f by (auto simp: Finalize_def Finalize_tail_def Let_def request_no_reply_def Append_all_fields Msg_new_fields
        split: if_splits prod.splits)
  then show ?thesis using that f assms(1) by (simp add: SendMsg_def)
qed

lemma asks_pushed:
  assumes "r = Some (push_back q (Item_SendMsg m) (d\<lparr>d_callbackId := cb\<rparr>))" and "leaves_wf r"
    and "fs \<subseteq> (if q = MsgQueue_Command then {m_buffer m ! 3} else {})"
  shows "asks fs d r"
  unfolding asks_def
  by (intro exI [of _ "push_back q (Item_SendMsg m) (d\<lparr>d_callbackId := cb\<rparr>)"]
      exI [of _ "if q = MsgQueue_Command then [m_buffer m ! 3] else []"])
    (use assms in \<open>auto simp: commands_sent_def intro!: exI [of _ "[m]"]\<close>)

lemma SendMsg_asks:
  assumes w: "well_formed d" and n: "d_nodes d n = None" and l: "length bs < 200"
  shows "asks (if q = MsgQueue_Command then {f} else {}) d (SendMsg (request_msg t n f cbk bs) q d)"
proof -
  obtain m cb where s: "SendMsg (request_msg t n f cbk bs) q d = Some (push_back q (Item_SendMsg m) (d\<lparr>d_callbackId := cb\<rparr>))"
    "m_buffer m ! 3 = f" by (rule SendMsg_no_node [OF w n l])
  show ?thesis by (rule asks_pushed [OF s(1) SendMsg_wf [OF w finishes_request [OF l]]]) (simp add: s(2))
qed

lemma init_request_asks:
  "well_formed d \<Longrightarrow> d_nodes d 0xff = None \<Longrightarrow> length bs < 200 \<Longrightarrow> asks {f} d (init_request t f bs d)"
  using SendMsg_asks [where d = d and n = "0xff" and bs = bs and q = MsgQueue_Command and f = f and t = t and cbk = False] by (simp add: init_request_def send_command_def)

lemma asks_mono: "asks fs d r \<Longrightarrow> gs \<subseteq> fs \<Longrightarrow> asks gs d r"
  unfolding asks_def by blast

lemma request_if_asks:
  "well_formed d \<Longrightarrow> d_nodes d 0xff = None \<Longrightarrow> length bs < 200 \<Longrightarrow> asks {} d (request_if b t f bs d)"
  using asks_mono [OF init_request_asks] by (simp add: request_if_def)

lemma no_reply_asks:
  assumes w: "well_formed d" and n: "d_nodes d n = None" and l: "length bs < 200"
  shows "asks {} d (SendMsg (request_no_reply t n f bs) q d)"
proof -
  obtain m cb where s: "SendMsg (request_no_reply t n f bs) q d = Some (push_back q (Item_SendMsg m) (d\<lparr>d_callbackId := cb\<rparr>))"
    by (rule no_reply_no_node [OF n l])
  show ?thesis by (rule asks_pushed [OF s SendMsg_wf [OF w finishes_request_no_reply [OF l]]]) simp
qed

text \<open>The start of the driver is a chain of requests, each sent when its predecessor is answered: version,
  home id, capabilities of the controller, static update controller, capabilities of the serial interface,
  initial data.  Whatever a reply of the chain holds, its handler is defined, puts the next request of the
  chain into the command queue after what was there, and leaves the driver well formed, so that the chain
  never breaks off before the nodes are known.\<close>

theorem init_sequence_continues:
  assumes w: "well_formed d" and n: "d_nodes d 0xff = None" and f: "init_next (dat buf 1) = Some f"
    and v: "dat buf 1 = FUNC_ID_ZW_GET_VERSION \<longrightarrow> version_ok buf d"
    and c: "d_nodes d (d_controllerNodeId d) = None"
  shows "\<exists>d' fs. process_response env buf d = Some (True, d') \<and> well_formed d' \<and> commands_sent fs d d' \<and> f \<in> set fs"
proof -
  have wi: "well_formed (map_info g d)" "d_nodes (map_info g d) 0xff = None" for g
    using wf_updates(3) [OF w] n by (simp, simp add: map_info_def)
  have fin: ?thesis if "process_response env buf d = map_option (Pair True) r" "asks {f} d r" for r
    using that by (auto simp: asks_def)
  consider "dat buf 1 = FUNC_ID_ZW_GET_VERSION" | "dat buf 1 = FUNC_ID_ZW_MEMORY_GET_ID"
    | "dat buf 1 = FUNC_ID_ZW_GET_CONTROLLER_CAPABILITIES" | "dat buf 1 = FUNC_ID_ZW_GET_SUC_NODE_ID"
    | "dat buf 1 = FUNC_ID_SERIAL_API_GET_CAPABILITIES"
    using f by (auto simp: init_next_def split: if_splits)
  then show ?thesis
  proof cases
    case 1
    have m: "d_currentMsg (map_info g d) = d_currentMsg d" for g by (simp add: map_info_def)
    have e: "asks {FUNC_ID_ZW_MEMORY_GET_ID} d (init_request t FUNC_ID_ZW_MEMORY_GET_ID [] e)"
      if "e = map_info g d \<or> e = (notify x (notify y (map_info g d)))\<lparr>d_stopped := True\<rparr>" for t e g x y
    proof -
      have "well_formed e" using that wi(1) [of g] by auto
      moreover have "d_nodes e 0xff = None" using that wi(2) [of g] by (auto simp: notify_def)
      ultimately show ?thesis using init_request_asks [of e "[]"] that by (auto simp: asks_def)
    qed
    have "asks {FUNC_ID_ZW_MEMORY_GET_ID} d (HandleGetVersionResponse buf d)"
      using v 1 by (auto simp: HandleGetVersionResponse_def version_ok_def Let_def m intro!: e)
    then show ?thesis using fin [of "HandleGetVersionResponse buf d"] 1 f by (simp add: process_response_def init_next_def)
  next
    case 2
    have "well_formed (d\<lparr>d_homeId := home_id buf, d_controllerNodeId := dat buf 6, d_replicating := True\<rparr>)" using w by simp
    from init_request_asks [OF this, of "[]"] n
    have "asks {FUNC_ID_ZW_GET_CONTROLLER_CAPABILITIES} d (HandleMemoryGetIdResponse buf d)"
      by (simp add: HandleMemoryGetIdResponse_def asks_def)
    then show ?thesis using fin [of "HandleMemoryGetIdResponse buf d"] 2 f by (simp add: process_response_def init_next_def)
  next
    case 3
    from init_request_asks [OF wi, of "[]"]
    have "asks {FUNC_ID_ZW_GET_SUC_NODE_ID} d (HandleGetControllerCapabilitiesResponse buf d)"
      by (simp add: HandleGetControllerCapabilitiesResponse_def)
    then show ?thesis using fin [of "HandleGetControllerCapabilitiesResponse buf d"] 3 f
      by (simp add: process_response_def init_next_def)
  next
    case 4
    let ?d = "map_info (\<lambda>i. i\<lparr>i_SUCNodeId := dat buf 2\<rparr>) d"
    have k: "d_nodes ?d (d_controllerNodeId d) = None" using c by (simp add: map_info_def)
    have two: "asks {} ?d (do { d1 \<leftarrow> SendMsg (request_msg t (d_controllerNodeId d) g False bs) MsgQueue_Send ?d;
        SendMsg (request_msg t' (d_controllerNodeId d) g' False bs') MsgQueue_Send d1 })"
      if l: "length bs < 200" "length bs' < 200" for t t' g g' bs bs'
    proof -
      obtain m cb where s: "SendMsg (request_msg t (d_controllerNodeId d) g False bs) MsgQueue_Send ?d =
          Some (push_back MsgQueue_Send (Item_SendMsg m) (?d\<lparr>d_callbackId := cb\<rparr>))"
        by (rule SendMsg_no_node [OF wi(1) k l(1)])
      let ?e = "push_back MsgQueue_Send (Item_SendMsg m) (?d\<lparr>d_callbackId := cb\<rparr>)"
      have e: "well_formed ?e" "d_nodes ?e (d_controllerNodeId d) = None"
        using SendMsg_wf [OF wi(1) finishes_request [OF l(1)]] s k by (metis wf_simps(1)) (use k in simp)
      have "commands_sent [] ?d ?e" by (simp add: commands_sent_def)
      from SendMsg_asks [OF e l(2), where q = MsgQueue_Send and f = g' and t = t' and cbk = False] this show ?thesis
        unfolding s by (auto simp: asks_def commands_sent_def)
    qed
    have "asks ({} \<union> {FUNC_ID_SERIAL_API_GET_CAPABILITIES}) ?d (HandleGetSUCNodeIdResponse b buf d)" for b
      unfolding HandleGetSUCNodeIdResponse_def Let_def
      by (rule asks_bind) (use two wi n in \<open>auto simp: map_info_def intro!: init_request_asks\<close>)
    then show ?thesis using fin [of "HandleGetSUCNodeIdResponse (re_enableSIS env) buf d"] 4 f
      by (simp add: process_response_def init_next_def)
  next
    case 5
    define g where "g = (\<lambda>i :: controller_info. i\<lparr>i_serialAPIVersion := (dat buf 2, dat buf 3), i_manufacturerId := word_at buf 4,
       i_productType := word_at buf 6, i_productId := word_at buf 8, i_apiMask := map (dat buf) [10..<42]\<rparr>)"
    have "asks ({} \<union> ({} \<union> ({} \<union> ({FUNC_ID_SERIAL_API_GET_INIT_DATA} \<union> ({} \<union> {}))))) (map_info g d)
        (HandleGetSerialAPICapabilitiesResponse buf d)"
      unfolding HandleGetSerialAPICapabilitiesResponse_def Let_def send_command_def g_def [symmetric]
      by (intro asks_bind request_if_asks init_request_asks no_reply_asks)
        (use wi [of g] in \<open>simp_all add: advertised_classes_def\<close>)
    then show ?thesis using fin [of "HandleGetSerialAPICapabilitiesResponse buf d"] 5 f
      by (simp add: process_response_def init_next_def)
  qed
qed

definition quiet_replies :: reply_env where
  "quiet_replies = \<lparr> re_node = quiet_env, re_key = replicate 16 0, re_handle = (\<lambda>nid cc ctl buf d. Some d),
     re_enforce = True, re_notifying = True, re_enableSIS = True, re_cached = [], re_rtt = 20, re_responseRTT = 30,
     re_within = False \<rparr>"

theorem init_sequence_continues_witness:
  "\<exists>d' fs. process_response quiet_replies ([1, 7, 1, 0x15, 0x5a, 0x2d, 0, 1] @ replicate 1016 0) (Driver_new 10) = Some (True, d') \<and>
     well_formed d' \<and> commands_sent fs (Driver_new 10) d' \<and> 0x20 \<in> set fs"
proof -
  let ?b = "[1, 7, 1, 0x15, 0x5a, 0x2d, 0, 1] @ replicate 1016 0 :: bytes"
  have f: "init_next (dat ?b 1) = Some 0x20" by (simp add: init_next_def dat_def)
  have v: "version_ok ?b (Driver_new 10)" by (simp add: version_ok_def dat_def)
  show ?thesis
    by (rule init_sequence_continues [OF good_wf [OF Driver_new_good] _ f])
      (use v in \<open>simp_all add: Driver_new_def\<close>)
qed

section \<open>Replies that refuse\<close>

lemma progress_reply_keeps:
  assumes "progress_reply ok err d = Some (r, d')"
  shows "r = ok \<and> d_currentMsg d' = d_currentMsg d"
  using assms by (auto simp: progress_reply_def UpdateControllerState_shape)

text \<open>A reply that refuses a command says that no callback will come, and the driver then forces the
  transaction to its end.  This works only for the functions that refuse with a status other than zero.
  The refusal of a return route or of a network update is the status zero, which is taken for the callback
  id to wait for: nothing is awaited any more, so the end of the message does not see a transaction, and the
  message stays the current one without ever being completed.\<close>

theorem refused_reply_ends:
  assumes w: "well_formed d" and m: "d_currentMsg d = Some m"
    and f: "dat buf 1 \<in> {FUNC_ID_ZW_ASSIGN_RETURN_ROUTE, FUNC_ID_ZW_DELETE_RETURN_ROUTE, FUNC_ID_ZW_REQUEST_NETWORK_UPDATE,
      FUNC_ID_ZW_REMOVE_FAILED_NODE_ID, FUNC_ID_ZW_REPLACE_FAILED_NODE}"
    and refused: "(dat buf 2 = 0) = (dat buf 1 \<notin> {FUNC_ID_ZW_REMOVE_FAILED_NODE_ID, FUNC_ID_ZW_REPLACE_FAILED_NODE})"
  shows "\<exists>d'. process_response env buf d = Some (True, d') \<and>
    (if dat buf 1 \<in> {FUNC_ID_ZW_REMOVE_FAILED_NODE_ID, FUNC_ID_ZW_REPLACE_FAILED_NODE}
     then d_currentMsg (end_of_message notifying buf d') = None
     else end_of_message notifying buf d' = d' \<and> d_currentMsg d' = Some m)"
proof -
  obtain e where e: "progress_reply False (if dat buf 1 = FUNC_ID_ZW_REMOVE_FAILED_NODE_ID then failed_node_error (dat buf 2)
      else ControllerError_None) d = Some (False, e)" "d_currentMsg e = Some m"
    using progress_reply_wf [OF w, of False] progress_reply_keeps m unfolding answers_wf_def by metis
  have "process_response env buf d = Some (True, force_complete (dat buf 2) (False, e))"
    using f refused e(1)
    by (auto simp: process_response_def HandleAssignReturnRouteResponse_def HandleDeleteReturnRouteResponse_def
        HandleNetworkUpdateResponse_def HandleRemoveFailedNodeResponse_def HandleReplaceFailedNodeResponse_def Let_def)
  then show ?thesis using refused e(2)
    by (auto simp: force_complete_def end_of_message_def callback_matched_def reply_matched_def Let_def RemoveCurrentMsg_def)
qed

theorem refused_reply_ends_witness:
  "\<exists>m. \<exists>d'. process_response quiet_replies ([1, 5, 1, 0x46, 0] @ replicate 1019 0) ((Driver_new 10)\<lparr>d_currentMsg := Some m\<rparr>) =
      Some (True, d') \<and> end_of_message True ([1, 5, 1, 0x46, 0] @ replicate 1019 0) d' = d' \<and> d_currentMsg d' = Some m"
proof -
  have "finishes (request_msg ''x'' 0xff 0x46 False [])" by simp
  then obtain m where "sendable m" unfolding finishes_def by blast
  then have "good (\<lambda>_. None) ((Driver_new 10)\<lparr>d_currentMsg := Some m\<rparr>)"
    using good_frame [OF Driver_new_good [of 10], of "(Driver_new 10)\<lparr>d_currentMsg := Some m\<rparr>"] by simp
  from refused_reply_ends [OF good_wf [OF this], where m = m and buf = "[1, 5, 1, 0x46, 0] @ replicate 1019 0" and
    env = quiet_replies and notifying = True]
  show ?thesis by (auto simp: dat_def)
qed

section \<open>Controllers that are turned away\<close>

text \<open>The driver has code for bridge controllers, with their virtual nodes and buttons, but never works with
  one: whatever version is reported, the driver takes the controller for a bridge only after it has reported
  it as unsupported and told its thread to stop.\<close>

theorem bridge_refused:
  assumes "HandleGetVersionResponse buf d = Some d'" and "IsBridgeController d'"
  shows "d_stopped d'"
proof -
  define v where "v = takeWhile (\<lambda>b. b \<noteq> 0) (drop 4 buf)"
  define t where "t = dat buf (length v + 3)"
  define d1 where "d1 = map_info (\<lambda>i. i\<lparr>i_libraryVersion := map (\<lambda>b. char_of (unat b)) v, i_libraryType := t\<rparr>) d"
  define r where "r = (if t = 1 \<or> t = 2 then Some d1 else case d_currentMsg d1 of None \<Rightarrow> None
    | Some m \<Rightarrow> Some ((notify (Note_DriverFailed (m_targetNodeId m)) (notify Note_UnsupportedController d1))\<lparr>d_stopped := True\<rparr>))"
  obtain d2 where d2: "r = Some d2" "init_request ''FUNC_ID_ZW_MEMORY_GET_ID'' FUNC_ID_ZW_MEMORY_GET_ID [] d2 = Some d'"
    using assms(1) unfolding HandleGetVersionResponse_def Let_def v_def [symmetric] t_def [symmetric] d1_def [symmetric]
      r_def [symmetric] by (auto split: if_splits Option.bind_splits)
  have "same_info d2 d'" using d2(2) by (simp add: init_request_def send_command_def SendMsg_info)
  then have "IsBridgeController d2" "d_stopped d' = d_stopped d2" using assms(2) by (simp_all add: IsBridgeController_def same_info_def)
  moreover have "i_libraryType (d_info d2) = t" using d2(1)
    by (auto simp: r_def d1_def map_info_def notify_def split: if_splits option.splits)
  ultimately show ?thesis using d2(1) by (auto simp: r_def IsBridgeController_def split: if_splits option.splits)
qed

theorem bridge_refused_witness:
  "\<exists>m d'. HandleGetVersionResponse ([1, 7, 1, 0x15, 0x5a, 0x2d, 0, 7] @ replicate 1016 0)
      ((Driver_new 10)\<lparr>d_currentMsg := Some m\<rparr>) = Some d' \<and> d_stopped d'"
proof -
  let ?b = "[1, 7, 1, 0x15, 0x5a, 0x2d, 0, 7] @ replicate 1016 0 :: bytes"
  have "finishes (request_msg ''x'' 0xff 0x46 False [])" by simp
  then obtain m where m: "sendable m" unfolding finishes_def by blast
  let ?d = "(Driver_new 10)\<lparr>d_currentMsg := Some m\<rparr>"
  have w: "well_formed ?d" using good_frame [OF Driver_new_good [of 10], of ?d] m by (auto intro: good_wf)
  have "version_ok ?b ?d" by (simp add: version_ok_def dat_def)
  then obtain d' where d': "HandleGetVersionResponse ?b ?d = Some d'"
    using HandleGetVersionResponse_wf [OF w] by (auto simp: leaves_wf_def)
  have "IsBridgeController d'"
    using d' SendMsg_info
    by (auto simp: HandleGetVersionResponse_def Let_def dat_def init_request_def send_command_def IsBridgeController_def
        same_info_def map_info_def notify_def dest!: SendMsg_info)
  from bridge_refused [OF d' this] show ?thesis using d' by blast
qed

section \<open>All replies\<close>

definition reply_ok :: "reply_env \<Rightarrow> bytes \<Rightarrow> driver \<Rightarrow> bool" where
  "reply_ok env buf d \<longleftrightarrow> (dat buf 1 = FUNC_ID_ZW_GET_VERSION \<longrightarrow> version_ok buf d) \<and>
     (dat buf 1 = FUNC_ID_SERIAL_API_GET_INIT_DATA \<longrightarrow> d_init d \<or> cached_ok (re_cached env) d)"

lemma HandleSerialAPIGetInitDataResponse_wf:
  assumes w: "well_formed d" and e: "env_ok env" and c: "d_init d \<or> cached_ok cached d"
  shows "leaves_wf (HandleSerialAPIGetInitDataResponse env cached buf d)"
proof -
  define d1 where "d1 = (if \<not> d_init d then ReadCache cached d else notify Note_DriverReset d)"
  have "well_formed d1" using ReadCache_wf [OF w, of cached] c w by (auto simp: d1_def)
  then have "well_formed (map_info g d1)" for g by simp
  from sync_nodes_outcome [OF this e order_refl, of buf]
  have "leaves_wf (run_all (sync_node env buf) [0..<232] (map_info g d1))" for g
    unfolding leaves_wf_def by blast
  moreover have "leaves_wf (HandleSerialAPIGetInitDataResponse env cached buf d)"
    if "\<And>g. leaves_wf (run_all (sync_node env buf) [0..<232] (map_info g d1))" "\<And>g. well_formed (map_info g d1)"
    using w that unfolding HandleSerialAPIGetInitDataResponse_def d1_def [symmetric] Let_def
    by (intro leaves_wf_if leaves_wf_bind) simp_all
  ultimately show ?thesis using \<open>well_formed d1\<close> by simp
qed

lemma forced_wf: "answers_wf r \<Longrightarrow> answers_wf (map_option (\<lambda>r. (True, force_complete b r)) r)"
  by (auto simp: answers_wf_def)

lemma process_response_wf:
  assumes w: "well_formed d" and e: "env_ok (re_node env)" and r: "reply_ok env buf d"
  shows "answers_wf (process_response env buf d)"
  using r w
  by (simp add: process_response_def Let_def reply_ok_def forced_wf simple_replies_wf HandleGetVersionResponse_wf
      HandleGetSerialAPICapabilitiesResponse_wf HandleGetSUCNodeIdResponse_wf HandleIsFailedNodeResponse_wf [OF w e]
      HandleSetSlaveLearnModeResponse_wf HandleSendSlaveNodeInfoResponse_wf HandleGetNodeProtocolInfoResponse_wf [OF w e]
      HandleSerialAPIGetInitDataResponse_wf [OF w e])

end
