(* ===== verification/Request_Safety.thy ===== *)
theory Request_Safety
  imports Controller_Requests Reply_Laws
begin

text \<open>
  Whatever a request of the controller does, it leaves the driver well formed where it is defined:
  rules for partial operations, then each handler and the switch over them.
\<close>

section \<open>Whatever is defined leaves the driver well formed\<close>

text \<open>Partial: the operation may be undefined, but no outcome breaks the driver.\<close>

definition safe :: "driver option \<Rightarrow> bool" where
  "safe r \<longleftrightarrow> (\<forall>d. r = Some d \<longrightarrow> well_formed d)"

definition safe2 :: "('b \<times> driver) option \<Rightarrow> bool" where
  "safe2 r \<longleftrightarrow> (\<forall>b d. r = Some (b, d) \<longrightarrow> well_formed d)"

lemma safe_simps [simp]:
  "safe None" "safe (Some d) \<longleftrightarrow> well_formed d" "safe2 None" "safe2 (Some (b, d)) \<longleftrightarrow> well_formed d"
  by (simp_all add: safe_def safe2_def)

lemma safe2_pair [simp]: "safe2 (map_option (Pair c) r) \<longleftrightarrow> safe r"
  by (cases r) simp_all

lemma safe_map: "safe r \<Longrightarrow> (\<And>d. well_formed d \<Longrightarrow> well_formed (f d)) \<Longrightarrow> safe (map_option f r)"
  by (cases r) simp_all

lemma leaves_safe: "leaves_wf r \<Longrightarrow> safe r"
  by (auto simp: leaves_wf_def)

lemma answers_safe: "answers_wf r \<Longrightarrow> safe2 r"
  by (auto simp: answers_wf_def)

lemma safe_bind: "safe r \<Longrightarrow> (\<And>d. well_formed d \<Longrightarrow> safe (f d)) \<Longrightarrow> safe (Option.bind r f)"
  by (cases r) auto

lemma safe_bind2: "safe2 r \<Longrightarrow> (\<And>b d. well_formed d \<Longrightarrow> safe (f (b, d))) \<Longrightarrow> safe (Option.bind r f)"
  by (cases r) auto

lemma safe_get: "(\<And>x. r = Some x \<Longrightarrow> safe (f x)) \<Longrightarrow> safe (Option.bind r f)"
  by (cases r) auto

lemma safe2_bind: "safe r \<Longrightarrow> (\<And>d. well_formed d \<Longrightarrow> safe2 (f d)) \<Longrightarrow> safe2 (Option.bind r f)"
  by (cases r) auto

lemma safe2_bind2: "safe2 r \<Longrightarrow> (\<And>b d. well_formed d \<Longrightarrow> safe2 (f (b, d))) \<Longrightarrow> safe2 (Option.bind r f)"
  by (cases r) auto

lemma safe2_get: "(\<And>x. r = Some x \<Longrightarrow> safe2 (f x)) \<Longrightarrow> safe2 (Option.bind r f)"
  by (cases r) auto

lemma safe_run_all: "well_formed d \<Longrightarrow> (\<And>x d. well_formed d \<Longrightarrow> safe (f x d)) \<Longrightarrow> safe (run_all f xs d)"
proof (induction xs arbitrary: d)
  case (Cons x xs)
  show ?case using Cons.prems Cons.IH unfolding run_all.simps by (intro safe_bind) blast+
qed simp

lemmas wf_safe = wf_ops [THEN leaves_safe]

lemma map_cmd_safe: "well_formed d \<Longrightarrow> safe (map_cmd f d)"
  by (auto simp: map_cmd_def put_cci_wf intro!: safe_get)

lemma keeps_info_safe: "keeps_info sh nid r \<Longrightarrow> safe r"
  by (rule leaves_safe [OF keeps_info_wf])

lemma InitAllNodes_safe: "well_formed d \<Longrightarrow> safe (InitAllNodes d)"
  unfolding InitAllNodes_def by (intro safe_bind safe_run_all wf_safe) simp_all

section \<open>Protocol information of any length\<close>

lemma UpdateNodeInfo_safe:
  assumes w: "well_formed d" and e: "env_ok env"
  shows "safe (UpdateNodeInfo env nid data len d)"
proof (cases "d_nodes d nid")
  case None
  then show ?thesis by (simp add: UpdateNodeInfo_def)
next
  case (Some n)
  obtain sh where g: "good sh d" using w by (rule well_formedE)
  show ?thesis
  proof (cases "unat len \<le> length data")
    case True
    then show ?thesis by (rule keeps_info_safe [OF UpdateNodeInfo_good [OF g e Some]])
  next
    case False
    then have p: "peek_block data 0 (unat len) = None" by (simp add: peek_block_def)
    show ?thesis
    proof (cases "n_nodeInfoReceived n")
      case True
      then have "UpdateNodeInfo env nid data len d = UpdateNodeInfo env nid [] 0 d" using Some by (simp add: UpdateNodeInfo_def)
      then show ?thesis using keeps_info_safe [OF UpdateNodeInfo_good [OF g e Some, of 0 "[]"]] by simp
    next
      case False
      then show ?thesis using Some p by (simp add: UpdateNodeInfo_def)
    qed
  qed
qed

lemma put_node_wf:
  assumes w: "well_formed d" and n: "d_nodes d nid = Some n" and s: "same_wakeup n n'"
  shows "well_formed (put_node nid n' d)"
proof -
  obtain sh where g: "good sh d" using w by (rule well_formedE)
  show ?thesis by (rule good_wf [OF put_node_info [OF g n s]])
qed

lemma ExchangeNetworkKeys_safe:
  assumes w: "well_formed d"
  shows "safe (ExchangeNetworkKeys nid d)"
proof -
  have s: "safe (SendMsg (security_msg t nid [SecurityCmd_SchemeGet, 0] d) q d)" for q t
    by (rule leaves_safe [OF SendMsg_wf [OF w finishes_security]]) simp
  show ?thesis unfolding ExchangeNetworkKeys_def
    by (rule safe_get) (auto simp: w s)
qed

lemma safe_if: "(c \<Longrightarrow> safe r) \<Longrightarrow> (\<not> c \<Longrightarrow> safe s) \<Longrightarrow> safe (if c then r else s)"
  by simp

lemma find_security_safe: "well_formed d \<Longrightarrow> safe (find_security env nid ccs d)"
proof (induction ccs arbitrary: d)
  case (Cons cc ccs)
  have step: "safe (case AddCommandClass env CC_SECURITY n of (new, n1) \<Rightarrow>
      (if \<not> ne_networkKey env then Some (put_node nid n1 d)
       else if new then ExchangeNetworkKeys nid (put_node nid n1 d) else None) \<bind> find_security env nid ccs)"
    if n: "d_nodes d nid = Some n" for n
  proof -
    obtain new n1 where a: "AddCommandClass env CC_SECURITY n = (new, n1)" by (cases "AddCommandClass env CC_SECURITY n")
    have w: "well_formed (put_node nid n1 d)" by (rule put_node_wf [OF Cons.prems n AddCommandClass_wakeup [OF a]])
    have "safe (if \<not> ne_networkKey env then Some (put_node nid n1 d)
        else if new then ExchangeNetworkKeys nid (put_node nid n1 d) else None)"
      using w ExchangeNetworkKeys_safe [OF w] by simp
    then show ?thesis unfolding a prod.case by (rule safe_bind) (rule Cons.IH)
  qed
  show ?case unfolding find_security.simps
  proof (rule safe_if)
    show "safe (d_nodes d nid \<bind> (\<lambda>n. let (new, n1) = AddCommandClass env CC_SECURITY n
       in (if \<not> ne_networkKey env then Some (put_node nid n1 d)
           else if new then ExchangeNetworkKeys nid (put_node nid n1 d) else None) \<bind> find_security env nid ccs))"
      unfolding Let_def by (rule safe_get) (rule step)
    show "safe (find_security env nid ccs d)" by (rule Cons.IH [OF Cons.prems])
  qed
qed simp

lemma SetProtocolInfo_safe:
  assumes w: "well_formed d" and e: "env_ok env"
  shows "safe (SetProtocolInfo env nid info len d)"
  unfolding SetProtocolInfo_def
proof (rule safe_get, rule safe_if)
  fix n assume n: "d_nodes d nid = Some n"
  show "safe (Some d)" using w by simp
  define n1 where "n1 = SetDeviceClasses env (info ! 0) (info ! 1) (info ! 2) n"
  define d1 where "d1 = put_node nid n1 (notify (Note_NodeProtocolInfo nid) d)"
  have w1: "well_formed d1" unfolding d1_def n1_def
    by (rule put_node_wf [OF wf_updates(1) [OF w] _ SetDeviceClasses_wakeup]) (simp add: n notify_def)
  have s1: "safe (if \<not> n_secured n1 then Some d1
      else if has_class CC_SECURITY n1 then (if ne_networkKey env then ExchangeNetworkKeys nid d1 else Some d1)
      else find_security env nid ccs d1)" for ccs
    using w1 ExchangeNetworkKeys_safe find_security_safe by simp
  have s2: "safe (do { d3 \<leftarrow> UpdateNodeInfo env nid (drop 3 info) (len - 3) d2; n3 \<leftarrow> d_nodes d3 nid;
      Some (put_node nid (n3\<lparr>n_basicInfoReceived := True\<rparr>) d3) })" if "well_formed d2" for d2
    by (intro safe_bind [OF UpdateNodeInfo_safe [OF that e]] safe_get) (simp add: put_node_wf same_wakeup_def)
  have s0: "safe (SetNodeAlive env False nid d)" using wf_safe(6) [OF w e] n by simp
  show "safe (if info ! 1 = 0 then SetNodeAlive env False nid d
    else do {
       let n1 = SetDeviceClasses env (info ! 0) (info ! 1) (info ! 2) n;
       let d1 = put_node nid n1 (notify (Note_NodeProtocolInfo nid) d);
       d2 \<leftarrow> (if \<not> n_secured n1 then Some d1
              else if has_class CC_SECURITY n1 then (if ne_networkKey env then ExchangeNetworkKeys nid d1 else Some d1)
              else find_security env nid (drop 3 (take (unat len) info)) d1);
       d3 \<leftarrow> UpdateNodeInfo env nid (drop 3 info) (len - 3) d2;
       n3 \<leftarrow> d_nodes d3 nid;
       Some (put_node nid (n3\<lparr>n_basicInfoReceived := True\<rparr>) d3)
     })"
      unfolding Let_def n1_def [symmetric] d1_def [symmetric]
      by (rule safe_if [OF s0], rule safe_bind [OF s1], erule s2)
qed

lemma fresh_node_wf: "well_formed d \<Longrightarrow> leaves_wf (fresh_node nid nn d)"
  by (erule well_formedE, erule fresh_node_good [of _ _ nid nn]) (auto simp: leaves_wf_def intro: good_wf)

lemma InitNode_info_safe:
  assumes w: "well_formed d" and e: "env_ok env"
  shows "safe (InitNode_info env nid nn sec info len d)"
proof -
  have "safe (fresh_node nid nn d \<bind> (\<lambda>d1. SetProtocolInfo env nid info len
          (if ne_networkKey env then map_node (\<lambda>n. n\<lparr>n_secured := sec\<rparr>) nid d1 else d1)))"
    by (rule safe_bind [OF leaves_safe [OF fresh_node_wf [OF w]]], rule SetProtocolInfo_safe [OF _ e])
      (auto intro!: map_node_wf)
  then show ?thesis using leaves_safe [OF InitNode_wf [OF w e]] by (simp add: InitNode_info_def)
qed

lemma HandleErrorResponse_safe: 
  assumes w: "well_formed d" and e: "env_ok env"
  shows "safe2 (HandleErrorResponse env err nid b d)"
proof -
  obtain sh where g: "good sh d" using w by (rule well_formedE)
  show ?thesis unfolding safe2_def using HandleErrorResponse_keeps [OF _ g e] good_wf by blast
qed

lemma MoveMessages_safe:
  assumes w: "well_formed d" and e: "env_ok env"
  shows "safe2 (MoveMessagesToWakeUpQueue env nid b d)"
proof -
  obtain sh where g: "good sh d" using w by (rule well_formedE)
  show ?thesis unfolding safe2_def using MoveMessagesToWakeUpQueue_keeps [OF _ g e] good_wf by blast
qed

lemma retry_stage_safe: "well_formed d \<Longrightarrow> safe (retry_stage st k nid d)"
  unfolding safe_def by (erule well_formedE) (use retry_stage_good good_wf in blast)

lemma HandleSendDataRequest_safe: "well_formed d \<Longrightarrow> env_ok env \<Longrightarrow> safe (HandleSendDataRequest env rtt buf len rep d)"
  unfolding safe_def by (erule well_formedE) (use HandleSendDataRequest_good good_wf in blast)

section \<open>Rules for the handlers\<close>

lemma safe_pairs: "safe2 r \<Longrightarrow> (\<And>b d. well_formed d \<Longrightarrow> safe (f b d)) \<Longrightarrow> safe (Option.bind r (case_prod f))"
  by (cases r) auto

lemma safe2_pairs: "safe2 r \<Longrightarrow> (\<And>b d. well_formed d \<Longrightarrow> safe2 (f b d)) \<Longrightarrow> safe2 (Option.bind r (case_prod f))"
  by (cases r) auto

lemma safe2_if: "(c \<Longrightarrow> safe2 r) \<Longrightarrow> (\<not> c \<Longrightarrow> safe2 s) \<Longrightarrow> safe2 (if c then r else s)"
  by simp

lemma safe_option: "(x = None \<Longrightarrow> safe a) \<Longrightarrow> (\<And>y. x = Some y \<Longrightarrow> safe (f y)) \<Longrightarrow> safe (case x of None \<Rightarrow> a | Some y \<Rightarrow> f y)"
  by (cases x) simp_all

lemma safe2_option: "(x = None \<Longrightarrow> safe2 a) \<Longrightarrow> (\<And>y. x = Some y \<Longrightarrow> safe2 (f y)) \<Longrightarrow> safe2 (case x of None \<Rightarrow> a | Some y \<Rightarrow> f y)"
  by (cases x) simp_all

lemma safe2_pairI: "safe r \<Longrightarrow> safe2 (map_option (Pair c) r)"
  by simp

lemma safe_Some: "well_formed d \<Longrightarrow> safe (Some d)"
  by simp

lemma safe2_Some: "well_formed d \<Longrightarrow> safe2 (Some (b, d))"
  by simp

lemma safe2_snd: "safe2 r \<Longrightarrow> safe (map_option snd r)"
  by (cases r) auto

lemma safe_notify: "safe r \<Longrightarrow> safe (map_option (notify x) r)"
  by (cases r) simp_all

lemma RemoveCurrentMsg_wf: "well_formed d \<Longrightarrow> well_formed (RemoveCurrentMsg d)"
  by (erule well_formedE) (rule good_wf [OF RemoveCurrentMsg_good])

lemma send_safe: "well_formed d \<Longrightarrow> finishes m \<Longrightarrow> safe (SendMsg m q d)"
  by (rule leaves_safe [OF SendMsg_wf])

lemma send_command_safe: "well_formed d \<Longrightarrow> finishes m \<Longrightarrow> safe (send_command m d)"
  by (rule leaves_safe [OF send_command_wf])

lemma state_safe: "well_formed d \<Longrightarrow> safe (UpdateControllerState st err d)"
  by (rule leaves_safe [OF UpdateControllerState_wf])

lemma remove_safe: "well_formed d \<Longrightarrow> safe (remove_node nid d)"
  by (rule leaves_safe [OF remove_node_wf])

lemma stop_safe: "well_formed d \<Longrightarrow> safe (AddNodeStop f d)"
  by (rule leaves_safe [OF AddNodeStop_wf])

lemma InitNode_safe: "well_formed d \<Longrightarrow> env_ok env \<Longrightarrow> safe (InitNode env nid nn d)"
  by (rule leaves_safe [OF InitNode_wf])

lemma SetNodeAlive_safe:
  assumes "well_formed d" "env_ok env"
  shows "safe (SetNodeAlive env a nid d)"
proof (cases "d_nodes d nid")
  case None
  then show ?thesis by (simp add: SetNodeAlive_def)
next
  case (Some n)
  then show ?thesis using SetNodeAlive_wf [OF assms] leaves_safe by simp
qed

lemma node_new_wf:
  assumes w: "well_formed d" and n: "d_nodes d nid = Some n"
    and "n_wakeUp n' = n_wakeUp n" "n_nonces n' = n_nonces n"
  shows "well_formed (put_node nid n' d)"
  by (rule put_node_wf [OF w n]) (simp add: same_wakeup_def assms)

lemma end_transaction_wf:
  "well_formed d \<Longrightarrow> well_formed (d\<lparr>d_waitingForAck := False, d_expectedCallbackId := 0, d_expectedReply := 0,
     d_expectedCommandClassId := 0, d_expectedNodeId := 0\<rparr>)"
  by (rule wf_frame) simp_all

lemmas safe_rules = safe_pairs safe2_pairs safe_bind [where f = "f" for f :: "driver \<Rightarrow> driver option"]
  safe2_bind [where f = "f" for f :: "driver \<Rightarrow> ('b \<times> driver) option"]
  safe_get [where r = "r" for r :: "node option"] safe2_get [where r = "r" for r :: "node option"]
  safe_get [where r = "r" for r :: "cci option"] safe2_get [where r = "r" for r :: "cci option"]
  safe_get [where r = "r" for r :: "controller_state option"]
  safe_if safe2_if safe_option safe2_option safe2_pairI safe_Some safe2_Some safe2_snd safe_notify
  send_safe send_command_safe state_safe remove_safe stop_safe InitNode_safe SetNodeAlive_safe
  InitAllNodes_safe map_cmd_safe UpdateNodeInfo_safe InitNode_info_safe HandleErrorResponse_safe MoveMessages_safe
  retry_stage_safe HandleSendDataRequest_safe RemoveCurrentMsg_wf wf_updates end_transaction_wf

section \<open>The handlers\<close>

lemma node_added_safe: "well_formed d \<Longrightarrow> env_ok env \<Longrightarrow> safe (node_added env f d)"
  unfolding node_added_def by (intro safe_rules)

lemma add_node_status_safe: "well_formed d \<Longrightarrow> env_ok env \<Longrightarrow> safe2 (add_node_status env f buf st d)"
  unfolding add_node_status_def Let_def by (intro safe_rules node_added_safe)

lemma CommonAddNodeStatus_safe: "well_formed d \<Longrightarrow> env_ok env \<Longrightarrow> safe (CommonAddNodeStatusRequestHandler env f buf d)"
  unfolding CommonAddNodeStatusRequestHandler_def by (intro safe_rules add_node_status_safe)

lemma removal_done_safe: "well_formed d \<Longrightarrow> safe (removal_done buf d)"
  unfolding removal_done_def by (intro safe_rules)

lemma HandleRemoveNode_safe: "well_formed d \<Longrightarrow> safe (HandleRemoveNodeFromNetworkRequest buf d)"
  unfolding HandleRemoveNodeFromNetworkRequest_def Let_def by (intro safe_rules removal_done_safe)

lemma HandleRemoveFailedNode_safe: "well_formed d \<Longrightarrow> safe (HandleRemoveFailedNodeRequest buf d)"
  unfolding HandleRemoveFailedNodeRequest_def Let_def by (intro safe_rules)

lemma HandleReplaceFailedNode_safe: "well_formed d \<Longrightarrow> env_ok env \<Longrightarrow> safe (HandleReplaceFailedNodeRequest env buf d)"
  unfolding HandleReplaceFailedNodeRequest_def Let_def by (intro safe_rules)

lemma end_learn_mode_safe: "well_formed d \<Longrightarrow> safe (end_learn_mode d)"
  unfolding end_learn_mode_def by (intro safe_rules finishes_lists)

lemma HandleSetLearnMode_safe: "well_formed d \<Longrightarrow> safe (HandleSetLearnModeRequest buf d)"
  unfolding HandleSetLearnModeRequest_def Let_def by (intro safe_rules end_learn_mode_safe)

lemma HandleNetworkUpdate_safe: "well_formed d \<Longrightarrow> safe (HandleNetworkUpdateRequest buf d)"
  unfolding HandleNetworkUpdateRequest_def Let_def by (intro safe_rules)

lemma transmission_over_safe: "well_formed d \<Longrightarrow> env_ok env \<Longrightarrow> safe (transmission_over env b buf d)"
  unfolding transmission_over_def by (intro safe_rules)

lemma RequestNodeNeighbors_safe: "well_formed d \<Longrightarrow> safe (RequestNodeNeighbors nid d)"
  unfolding RequestNodeNeighbors_def by (intro safe_rules finishes_request) simp_all

lemma HandleNodeNeighborUpdate_safe: "well_formed d \<Longrightarrow> safe (HandleNodeNeighborUpdateRequest buf d)"
  unfolding HandleNodeNeighborUpdateRequest_def Let_def by (intro safe_rules RequestNodeNeighbors_safe)


lemma info_request_failed_safe: "well_formed d \<Longrightarrow> env_ok env \<Longrightarrow> safe2 (info_request_failed env d)"
  unfolding info_request_failed_def by (intro safe_rules) (auto intro: end_transaction_wf)

lemma SendVirtualNodeInfo_safe: "well_formed d \<Longrightarrow> safe (SendVirtualNodeInfo f t d)"
  unfolding SendVirtualNodeInfo_def by (intro send_command_safe finishes_lists)

lemma HandleApplicationUpdate_safe:
  assumes w: "well_formed d" and e: "env_ok env"
  shows "safe2 (HandleApplicationUpdateRequest env buf d)"
proof -
  have s: "safe2 (map_option (Pair b \<circ> notify x) r)" if "safe r" for b x r
    using that by (cases r) simp_all
  show ?thesis unfolding HandleApplicationUpdateRequest_def Let_def
    by (intro safe_rules s info_request_failed_safe w e)
qed

lemma button_wf: "well_formed d \<Longrightarrow> well_formed (map_node (set_button b v) nid d)"
  by (rule map_node_wf) (simp_all add: set_button_def)

lemma slave_assigned_safe: "well_formed d \<Longrightarrow> safe (slave_assigned buf d)"
  unfolding slave_assigned_def by (intro safe_rules SendVirtualNodeInfo_safe button_wf)

lemma SlaveOff_safe: "well_formed d \<Longrightarrow> safe (SendSlaveLearnModeOff d)"
  by (rule leaves_safe [OF SendSlaveLearnModeOff_wf])

lemma HandleSetSlaveLearnMode_safe: "well_formed d \<Longrightarrow> safe (HandleSetSlaveLearnModeRequest buf d)"
  unfolding HandleSetSlaveLearnModeRequest_def by (intro safe_rules SlaveOff_safe slave_assigned_safe)

lemma resend_button_safe: "well_formed d \<Longrightarrow> safe (resend_button c d)"
  unfolding resend_button_def Let_def by (intro safe_rules SendVirtualNodeInfo_safe button_wf)

lemma HandleSendSlaveNodeInfo_safe: "well_formed d \<Longrightarrow> env_ok env \<Longrightarrow> safe (HandleSendSlaveNodeInfoRequest env buf d)"
  unfolding HandleSendSlaveNodeInfoRequest_def Let_def by (intro safe_rules resend_button_safe finishes_request) simp_all

lemma HandleApplicationSlaveCommand_wf: "well_formed d \<Longrightarrow> well_formed (HandleApplicationSlaveCommandRequest buf d)"
  by (simp add: HandleApplicationSlaveCommandRequest_def split: option.split)

section \<open>Frames of the nodes\<close>

lemma SetSecuredClasses_safe:
  assumes w: "well_formed d" and e: "env_ok env"
  shows "safe (SetSecuredClasses env nid data len inst d)"
  unfolding SetSecuredClasses_def Let_def
proof (intro safe_get safe_if safe_Some)
  fix n assume n: "d_nodes d nid = Some n"
  show "well_formed (put_node nid (n\<lparr>n_secured := True\<rparr>) d)" by (rule node_new_wf [OF w n]) simp_all
  fix ccs n1 assume s: "secure_classes env inst False ccs (n\<lparr>n_secured := True\<rparr>) = Some n1"
  have "same_wakeup n n1"
    by (rule same_wakeup_trans [OF _ secure_classes_wakeup [OF s]]) (simp add: same_wakeup_def)
  then have p: "well_formed (put_node nid n1 d)" by (rule put_node_wf [OF w n])
  then obtain sh where g: "good sh (put_node nid n1 d)" by (rule well_formedE)
  have "d_nodes (put_node nid n1 d) nid = Some n1" by (simp add: put_node_def)
  from SetStaticRequests_good [OF g e this] show "safe (SetStaticRequests env nid (put_node nid n1 d))"
    by (auto intro: good_wf)
qed

lemma encrypted_safe: "well_formed d \<Longrightarrow> length bs < 190 \<Longrightarrow> safe (SendMsg (encrypted_msg t nid bs d1) q d)"
  by (rule send_safe) (simp_all add: finishes_encrypted)

lemma Security_HandleMsg_safe:
  assumes w: "well_formed d" and e: "env_ok env"
  shows "safe2 (Security_HandleMsg env key nid data len inst d)"
  unfolding Security_HandleMsg_def
  by (intro safe_rules SetSecuredClasses_safe encrypted_safe w e map_node_wf) simp_all

lemma class_received_wf:
  "well_formed d \<Longrightarrow> d_nodes d nid = Some n \<Longrightarrow> same_wakeup n m \<Longrightarrow> well_formed (put_node nid (class_received cc m) d)"
  by (erule put_node_wf, assumption) (simp add: class_received_def same_wakeup_def map_class_def)

text \<open>What is relied on of the command classes: that they leave the driver well formed.\<close>

definition handler_ok :: "class_handler \<Rightarrow> bool" where
  "handler_ok handle \<longleftrightarrow> (\<forall>nid cc c buf d. well_formed d \<longrightarrow> safe (handle nid cc c buf d))"

lemma handler_okD: "handler_ok handle \<Longrightarrow> well_formed d \<Longrightarrow> safe (handle nid cc c buf d)"
  by (simp add: handler_ok_def)

lemma dispatch_safe: "well_formed d \<Longrightarrow> env_ok env \<Longrightarrow> handler_ok h \<Longrightarrow> safe (dispatch env key h nid cc c buf d)"
  unfolding dispatch_def by (intro safe_rules Security_HandleMsg_safe handler_okD)

lemma safe_option_cc: "(x = None \<Longrightarrow> safe a) \<Longrightarrow> (\<And>y. x = Some y \<Longrightarrow> safe (f y)) \<Longrightarrow> safe (case x of Some y \<Rightarrow> f y | None \<Rightarrow> a)"
  by (cases x) simp_all

lemma ApplicationCommandHandler_safe:
  assumes w: "well_formed d" and e: "env_ok env" and h: "handler_ok handle"
  shows "safe (ApplicationCommandHandler env key handle enforce nid buf enc d)"
  unfolding ApplicationCommandHandler_def Let_def
proof (rule safe_get, rule safe_option)
  fix n assume n: "d_nodes d nid = Some n"
  have r: "well_formed (put_node nid (class_received cc n) d)" for cc by (rule class_received_wf [OF w n]) simp
  show "safe (if c_secured c \<and> \<not> enc \<and> enforce then Some d
      else dispatch env key handle nid (dat buf 5) (c_afterMark c) buf (put_node nid (class_received (dat buf 5) n) d))" for c
    using w dispatch_safe [OF r e h] by simp
  obtain new n1 where a: "AddCommandClass env (dat buf 5) n = (new, n1)" by (cases "AddCommandClass env (dat buf 5) n")
  have "well_formed (put_node nid (class_received cc n1) d)" for cc
    by (rule class_received_wf [OF w n AddCommandClass_wakeup [OF a]])
  then have c: "safe (handle nid (dat buf 5) False buf (put_node nid (class_received (dat buf 5) n1) d))"
    by (rule handler_okD [OF h])
  have f: "finishes (Msg_new t nid REQUEST f False True 0 0)" for t f
    using finishes_fold [of "[]" t nid f False True 0 0] by simp
  show "safe (if dat buf 5 = CC_CONTROLLER_REPLICATION
          then SendMsg (Msg_new ''Replication Command Complete'' nid REQUEST FUNC_ID_ZW_REPLICATION_COMMAND_COMPLETE False True 0 0)
                 MsgQueue_Command d
          else if dat buf 5 = CC_MULTI_INSTANCE then
            (if m_queryStage (n_query n) \<noteq> St_Complete then Some d
             else case AddCommandClass env (dat buf 5) n of (new, n1) \<Rightarrow>
               if new then handle nid (dat buf 5) False buf (put_node nid (class_received (dat buf 5) n1) d) else Some d)
          else Some d)"
    unfolding a prod.case by (intro safe_rules w c f)
qed

lemma count_frame_wf: "well_formed d \<Longrightarrow> well_formed (map_node (count_frame env buf x) nid d)"
  by (rule map_node_wf) (simp_all add: count_frame_def Let_def)

lemma HandleApplicationCommandHandler_safe:
  assumes w: "well_formed d" and e: "env_ok (re_node env)" and h: "handler_ok (re_handle env)"
  shows "safe (HandleApplicationCommandHandlerRequest env buf enc d)"
  unfolding HandleApplicationCommandHandlerRequest_def Let_def
  by (intro safe_rules ApplicationCommandHandler_safe count_frame_wf w e h finishes_lists)

lemma safe2_map: "safe2 r \<Longrightarrow> safe2 (map_option (\<lambda>(b, d). (f b, d)) r)"
  by (cases r) auto

lemma process_request_safe:
  assumes w: "well_formed d" and e: "env_ok (re_node env)" and h: "handler_ok (re_handle env)"
  shows "safe2 (process_request env buf len enc d)"
proof -
  note b = HandleAssignReturnRouteRequest_def HandleDeleteReturnRouteRequest_def HandleSendNodeInformationRequest_def
  show ?thesis unfolding process_request_def Let_def b
    by (intro safe_rules safe2_map HandleApplicationCommandHandler_safe transmission_over_safe HandleNodeNeighborUpdate_safe
        HandleApplicationUpdate_safe CommonAddNodeStatus_safe HandleRemoveNode_safe HandleSetLearnMode_safe HandleNetworkUpdate_safe
        HandleRemoveFailedNode_safe HandleReplaceFailedNode_safe HandleSetSlaveLearnMode_safe HandleSendSlaveNodeInfo_safe
        HandleApplicationSlaveCommand_wf w e h)
qed

end
