(* ===== verification/Process_Message.thy ===== *)
theory Process_Message
  imports Request_Safety
begin

text \<open>
  \<open>ProcessMsg\<close> as a whole, and the driver as a transition system: what its thread and the other threads
  can do, the states that can be reached, and the invariant of all of them.
\<close>


section \<open>A frame of the controller\<close>

text \<open>The length handed to \<open>ProcessMsg\<close> is the length byte of the frame.\<close>

definition switch_message :: "reply_env \<Rightarrow> bytes \<Rightarrow> bool \<Rightarrow> driver \<Rightarrow> (bool \<times> driver) option" where
  "switch_message env buf encrypted d =
     (if dat buf 0 = RESPONSE then process_response env buf d
      else if dat buf 0 = REQUEST then process_request env buf (buf ! 1) encrypted d
      else Some (True, d))"

definition ProcessMsg :: "io_env \<Rightarrow> reply_env \<Rightarrow> bytes \<Rightarrow> driver \<Rightarrow> driver option" where
  "ProcessMsg io env buf d = do {
     (frame, d1) \<leftarrow> secure_message io buf d;
     case frame of None \<Rightarrow> Some d1
     | Some (b, encrypted) \<Rightarrow> do {
         (generic, d2) \<leftarrow> switch_message env b encrypted d1;
         Some (if generic then end_of_message (re_notifying env) b d2 else d2)
       }
   }"

section \<open>The steps of the driver\<close>

text \<open>
  The driver thread serves a queue, has its wait time out, reads from the controller and processes a
  frame; other threads send messages, start controller commands and cancel them, under the locks that
  make each a step.  Where the C++ code is undefined there is no step.
\<close>

definition frame_env_ok :: "class_handler \<Rightarrow> reply_env \<Rightarrow> driver \<Rightarrow> bool" where
  "frame_env_ok h env d \<longleftrightarrow> env_ok (re_node env) \<and> re_handle env = h \<and> (d_init d \<or> cached_ok (re_cached env) d)"

inductive driver_step :: "class_handler \<Rightarrow> driver \<Rightarrow> driver \<Rightarrow> bool" for h where
  serve: "served d = Some q \<Longrightarrow> io_ok io \<Longrightarrow> WriteNextMsg io q d = Some (r, d') \<Longrightarrow> driver_step h d d'"
| time_out: "listened d = [] \<Longrightarrow> io_ok io \<Longrightarrow> wait_timed_out io d = Some (r, d') \<Longrightarrow> driver_step h d d'"
| control: "ReadMsg x d = Some (None, p, d') \<Longrightarrow> driver_step h d d'"
| frame: "ReadMsg x d = Some (Some buf, p, d1) \<Longrightarrow> io_ok io \<Longrightarrow> frame_env_ok h env d1 \<Longrightarrow>
    ProcessMsg io env buf d1 = Some d' \<Longrightarrow> driver_step h d d'"
| send: "finishes m \<Longrightarrow> SendMsg m q d = Some d' \<Longrightarrow> driver_step h d d'"
| begin_command: "BeginControllerCommand c f x hp nid arg d = (ok, d') \<Longrightarrow> driver_step h d d'"
| cancel: "CancelControllerCommand d = Some (ok, d') \<Longrightarrow> driver_step h d d'"

inductive reachable :: "class_handler \<Rightarrow> driver \<Rightarrow> bool" for h where
  start: "reachable h (Driver_new c)"
| step: "reachable h d \<Longrightarrow> driver_step h d d' \<Longrightarrow> reachable h d'"

inductive_cases reachableE: "reachable h d"

section \<open>Every step keeps the driver well formed\<close>

lemma HandleGetVersionResponse_safe: "well_formed d \<Longrightarrow> safe (HandleGetVersionResponse buf d)"
proof -
  assume w: "well_formed d"
  have i: "safe (init_request t f [] d1)" if "well_formed d1" for t f d1
    by (rule leaves_safe [OF init_request_wf [OF that]]) simp
  show ?thesis unfolding HandleGetVersionResponse_def Let_def
    by (intro safe_if safe_bind i safe_option) (simp_all add: w)
qed

lemma process_response_safe:
  assumes w: "well_formed d" and e: "env_ok (re_node env)" and c: "d_init d \<or> cached_ok (re_cached env) d"
  shows "safe2 (process_response env buf d)"
proof (cases "dat buf 1 = FUNC_ID_ZW_GET_VERSION")
  case True
  then show ?thesis using HandleGetVersionResponse_safe [OF w]
    by (auto simp: process_response_def Let_def safe2_def safe_def)
next
  case False
  then have "reply_ok env buf d" using c by (simp add: reply_ok_def)
  then show ?thesis by (rule answers_safe [OF process_response_wf [OF w e]])
qed

lemma end_of_message_wf: "well_formed d \<Longrightarrow> well_formed (end_of_message b buf d)"
  by (erule well_formedE) (rule good_wf [OF end_of_message_good])

lemma secure_message_init: "dat buf 0 \<noteq> REQUEST \<Longrightarrow> secure_message io buf d = Some (Some (buf, False), d)"
  by (simp add: secure_message_def)


lemma packet_received_kind:
  assumes "packet_received io buf d = Some (Some (b, enc), d1)"
  shows "dat b 0 = dat buf 0"
  using assms by (auto simp: packet_received_def Let_def dat_def poke_def poke_block_def
      split: option.splits Option.bind_splits if_splits prod.splits) (simp_all add: nth_append)

lemma secure_message_response:
  assumes "secure_message io buf d = Some (Some (b, enc), d1)" and "dat b 0 = RESPONSE"
  shows "b = buf \<and> d1 = d"
  using assms packet_received_kind [of io buf d b enc d1]
  by (auto simp: secure_message_def split: if_splits)

lemma switch_message_safe:
  assumes w: "well_formed d" and e: "env_ok (re_node env)" and h: "handler_ok (re_handle env)"
    and c: "dat b 0 = RESPONSE \<longrightarrow> d_init d \<or> cached_ok (re_cached env) d"
  shows "safe2 (switch_message env b enc d)"
  using process_response_safe [OF w e] process_request_safe [OF w e h] c w by (simp add: switch_message_def)

lemma ProcessMsg_safe:
  assumes h: "handler_ok h" and w: "well_formed d" and io: "io_ok io" and e: "frame_env_ok h env d"
  shows "safe (ProcessMsg io env buf d)"
proof -
  have s: "safe2 (secure_message io buf d)"
    using w secure_message_good [OF io] good_wf unfolding safe2_def by (metis well_formedE)
  have "safe (case x of None \<Rightarrow> Some d1
     | Some (b, enc) \<Rightarrow> do { (generic, d2) \<leftarrow> switch_message env b enc d1;
         Some (if generic then end_of_message (re_notifying env) b d2 else d2) })"
    if x: "secure_message io buf d = Some (x, d1)" for x d1
  proof (cases x)
    case None
    then show ?thesis using s x by (auto simp: safe2_def)
  next
    case (Some y)
    obtain b enc where y: "y = (b, enc)" by force
    have w1: "well_formed d1" using s x by (auto simp: safe2_def)
    have "dat b 0 = RESPONSE \<Longrightarrow> d1 = d" using secure_message_response x Some y by blast
    then have "safe2 (switch_message env b enc d1)"
      using switch_message_safe [OF w1] e h by (auto simp: frame_env_ok_def)
    then have "safe (do { (generic, d2) \<leftarrow> switch_message env b enc d1;
         Some (if generic then end_of_message (re_notifying env) b d2 else d2) })"
      by (rule safe_pairs) (simp add: end_of_message_wf)
    then show ?thesis by (simp add: Some y)
  qed
  then show ?thesis unfolding ProcessMsg_def
    by (cases "secure_message io buf d") auto
qed

lemma driver_step_wf:
  assumes h: "handler_ok h" and s: "driver_step h d d'" and w: "well_formed d"
  shows "well_formed d'"
proof -
  obtain sh where g: "good sh d" using w by (rule well_formedE)
  show ?thesis using s
  proof cases
    case (serve q io r)
    then show ?thesis using WriteNextMsg_good [OF serve(2) g served_event [OF serve(1)]] by (auto simp: answers_def intro: good_wf)
  next
    case (time_out io r)
    then show ?thesis using wait_timed_out_good [OF time_out(2) g] by (auto simp: answers_def intro: good_wf)
  next
    case (control x p)
    then show ?thesis using ReadMsg_good [OF g] good_wf by blast
  next
    case (frame x buf p d1 io env)
    have "well_formed d1" using ReadMsg_good [OF g frame(1)] by (rule good_wf)
    from ProcessMsg_safe [OF h this frame(2,3)] show ?thesis using frame(4) by (simp add: safe_def)
  next
    case (send m q)
    then show ?thesis using SendMsg_wf [OF w send(1), of q] by (auto simp: leaves_wf_def)
  next
    case (begin_command c f x hp nid arg ok)
    then show ?thesis using BeginControllerCommand_wf [OF w] by (metis snd_conv)
  next
    case (cancel ok)
    then show ?thesis using CancelControllerCommand_good [OF g] good_wf by fastforce
  qed
qed

lemma reachable_wf: "reachable h d \<Longrightarrow> handler_ok h \<Longrightarrow> well_formed d"
  by (induction rule: reachable.induct) (auto intro: good_wf [OF Driver_new_good] driver_step_wf)

end
