(* ===== verification/Wake_Class.thy ===== *)
theory Wake_Class
  imports Process_Message
begin

text \<open>
  The wake-up class (\<open>cpp/src/command_classes/WakeUp.cpp\<close>): its requests, its interval and the frames it
  receives; it keeps the contract the driver relies on.
\<close>


section \<open>Static requests\<close>

abbreviation (input) StaticRequest_Instances :: uint8 where "StaticRequest_Instances \<equiv> 0x01"
abbreviation (input) StaticRequest_Values :: uint8 where "StaticRequest_Values \<equiv> 0x02"
abbreviation (input) RequestFlag_Static :: uint32 where "RequestFlag_Static \<equiv> 0x01"

definition HasStaticRequest :: "uint8 \<Rightarrow> cc_state \<Rightarrow> bool" where
  "HasStaticRequest r c \<longleftrightarrow> c_static c AND r \<noteq> 0"

definition SetStaticRequest :: "uint8 \<Rightarrow> cc_state \<Rightarrow> cc_state" where
  "SetStaticRequest r c = c\<lparr>c_static := c_static c OR r\<rparr>"

definition ClearStaticRequest :: "uint8 \<Rightarrow> cc_state \<Rightarrow> cc_state" where
  "ClearStaticRequest r c = c\<lparr>c_static := c_static c AND NOT r\<rparr>"

section \<open>Requests of the wake-up class\<close>

abbreviation (input) WakeUpCmd_IntervalSet :: uint8 where "WakeUpCmd_IntervalSet \<equiv> 0x04"
abbreviation (input) WakeUpCmd_IntervalGet :: uint8 where "WakeUpCmd_IntervalGet \<equiv> 0x05"
abbreviation (input) WakeUpCmd_IntervalReport :: uint8 where "WakeUpCmd_IntervalReport \<equiv> 0x06"
abbreviation (input) WakeUpCmd_Notification :: uint8 where "WakeUpCmd_Notification \<equiv> 0x07"
abbreviation (input) WakeUpCmd_IntervalCapabilitiesGet :: uint8 where "WakeUpCmd_IntervalCapabilitiesGet \<equiv> 0x09"
abbreviation (input) WakeUpCmd_IntervalCapabilitiesReport :: uint8 where "WakeUpCmd_IntervalCapabilitiesReport \<equiv> 0x0a"

datatype wake_index = Index_Interval | Index_Min_Interval | Index_Max_Interval | Index_Default_Interval | Index_Interval_Step

definition wake_get :: "string \<Rightarrow> uint8 \<Rightarrow> uint8 \<Rightarrow> driver \<Rightarrow> msg" where
  "wake_get text nid cmd d = fold Append [nid, 2, CC_WAKE_UP, cmd, d_transmitOptions d]
     (Msg_new text nid REQUEST FUNC_ID_ZW_SEND_DATA True True FUNC_ID_APPLICATION_COMMAND_HANDLER CC_WAKE_UP)"

text \<open>The request for the capabilities is sent, but reported as not sent.\<close>

definition WakeUp_RequestValue :: "uint8 \<Rightarrow> wake_index \<Rightarrow> uint8 \<Rightarrow> msg_queue \<Rightarrow> driver \<Rightarrow> (bool \<times> driver) option" where
  "WakeUp_RequestValue nid index inst q d =
     (if inst \<noteq> 1 then Some (False, d)
      else if index = Index_Min_Interval \<or> index = Index_Max_Interval \<or> index = Index_Interval_Step
      then map_option (Pair False) (SendMsg (wake_get ''WakeUpCmd_IntervalCapabilityGet'' nid WakeUpCmd_IntervalCapabilitiesGet d) q d)
      else if index = Index_Interval
      then map_option (Pair True) (SendMsg (wake_get ''WakeUpCmd_IntervalGet'' nid WakeUpCmd_IntervalGet d) q d)
      else Some (False, d))"

definition WakeUp_Init :: "uint8 \<Rightarrow> driver \<Rightarrow> driver option" where
  "WakeUp_Init nid d = map_option snd (WakeUp_RequestValue nid Index_Interval 1 MsgQueue_WakeUp d)"

text \<open>\<open>ClearStaticRequest\<close> is given the flag of the request instead of the kind of static data.\<close>

definition WakeUp_RequestState :: "uint8 \<Rightarrow> uint32 \<Rightarrow> uint8 \<Rightarrow> msg_queue \<Rightarrow> driver \<Rightarrow> (bool \<times> driver) option" where
  "WakeUp_RequestState nid flags inst q d = do {
     n \<leftarrow> d_nodes d nid;
     c \<leftarrow> n_classes n CC_WAKE_UP;
     w \<leftarrow> n_wakeUp n;
     if flags AND RequestFlag_Static \<noteq> 0 \<and> HasStaticRequest StaticRequest_Values c then do {
       (r1, d1) \<leftarrow> (if c_version c > 1 then WakeUp_RequestValue nid Index_Min_Interval inst q d else Some (False, d));
       (r2, d2) \<leftarrow> (if w_interval w = 0 then WakeUp_RequestValue nid Index_Interval inst q d1 else Some (False, d1));
       Some (r1 \<or> r2, map_node (map_class (ClearStaticRequest (ucast RequestFlag_Static)) CC_WAKE_UP) nid d2)
     } else Some (False, d)
   }"

section \<open>The wake-up interval\<close>

definition interval_bytes :: "uint32 \<Rightarrow> bytes" where
  "interval_bytes iv = [ucast (drop_bit 16 iv AND 0xff), ucast (drop_bit 8 iv AND 0xff), ucast (iv AND 0xff)]"

definition interval_set :: "uint8 \<Rightarrow> uint32 \<Rightarrow> driver \<Rightarrow> driver option" where
  "interval_set nid iv d = SendMsg (fold Append ([nid, 6, CC_WAKE_UP, WakeUpCmd_IntervalSet] @ interval_bytes iv @
       [d_controllerNodeId d, d_transmitOptions d])
     (Msg_new ''WakeUpCmd_IntervalSet'' nid REQUEST FUNC_ID_ZW_SEND_DATA True True 0 0)) MsgQueue_WakeUp d"

text \<open>\<open>SetValue\<close> of the value \<open>Interval\<close>, \<open>v\<close> being its content.\<close>

definition WakeUp_SetValue :: "uint8 \<Rightarrow> wake_index \<Rightarrow> uint32 \<Rightarrow> driver \<Rightarrow> (bool \<times> driver) option" where
  "WakeUp_SetValue nid index v d =
     (if index = Index_Interval then do {
        d1 \<leftarrow> map_wakeup (\<lambda>w. w\<lparr>w_interval := v\<rparr>) nid d;
        map_option (Pair True) (interval_set nid v d1)
      } else Some (False, d))"

text \<open>The three bytes of an interval, the highest first.\<close>

definition interval_of :: "bytes \<Rightarrow> uint32" where
  "interval_of bs = (push_bit 16 (ucast (bs ! 0)) OR push_bit 8 (ucast (bs ! 1))) OR ucast (bs ! 2)"

text \<open>
  A frame of the class.  \<open>values nid iv\<close> is the content of the value \<open>Interval\<close> of the node once it has been
  refreshed with \<open>iv\<close>, if the node has it.
\<close>

definition WakeUp_HandleMsg ::
  "node_env \<Rightarrow> (uint8 \<Rightarrow> uint32 \<Rightarrow> uint32 option) \<Rightarrow> uint8 \<Rightarrow> bytes \<Rightarrow> uint32 \<Rightarrow> driver \<Rightarrow> (bool \<times> driver) option" where
  "WakeUp_HandleMsg env values nid data len d =
     (if data ! 0 = WakeUpCmd_IntervalReport then
        (if len < 6 then Some (False, d)
         else do {
           let iv = interval_of (tl data);
           d1 \<leftarrow> map_wakeup (\<lambda>w. w\<lparr>w_interval := iv\<rparr>) nid d;
           if d_controllerNodeId d1 \<noteq> data ! 4 then
             (case values nid iv of
                Some v \<Rightarrow> map_option (Pair True \<circ> snd) (WakeUp_SetValue nid Index_Interval v d1)
              | None \<Rightarrow> map_option (Pair True) (interval_set nid iv d1))
           else Some (True, d1)
         })
      else if data ! 0 = WakeUpCmd_Notification then map_option (Pair True) (SetAwake env True nid d)
      else if data ! 0 = WakeUpCmd_IntervalCapabilitiesReport
      then Some (True, map_node (map_class (ClearStaticRequest StaticRequest_Values) CC_WAKE_UP) nid d)
      else Some (False, d))"

text \<open>
  The frames of the class as \<open>ApplicationCommandHandler\<close> passes them on; those of other classes are passed to
  \<open>other\<close>.  \<open>HandleIncomingMsg\<close>, for a class that is controlled, is the same function.
\<close>

definition with_wakeup :: "node_env \<Rightarrow> (uint8 \<Rightarrow> uint32 \<Rightarrow> uint32 option) \<Rightarrow> class_handler \<Rightarrow> class_handler" where
  "with_wakeup env values other nid cc controlled buf d =
     (if cc = CC_WAKE_UP then map_option snd (WakeUp_HandleMsg env values nid (drop 8 buf) (ucast (dat buf 4)) d)
      else other nid cc controlled buf d)"

section \<open>The class keeps the driver well formed\<close>

lemma map_wakeup_safe:
  assumes w: "well_formed d" and f: "\<And>v. w_pending (f v) = w_pending v"
  shows "safe (map_wakeup f nid d)"
proof (cases "get_wakeup nid d")
  case None
  then show ?thesis by (auto simp: safe_def get_wakeup_def map_wakeup_def split: Option.bind_splits)
next
  case (Some v)
  then obtain n where n: "d_nodes d nid = Some n" "n_wakeUp n = Some v" by (auto simp: get_wakeup_def split: Option.bind_splits)
  obtain sh where g: "good sh d" using w by (rule well_formedE)
  show ?thesis using map_wakeup_good [OF g n, of f] f by (auto intro: good_wf)
qed

lemma interval_set_safe: "well_formed d \<Longrightarrow> safe (interval_set nid iv d)"
  unfolding interval_set_def by (rule send_safe, assumption, rule finishes_fold) (simp add: interval_bytes_def)

lemma WakeUp_SetValue_safe: "well_formed d \<Longrightarrow> safe2 (WakeUp_SetValue nid i v d)"
  unfolding WakeUp_SetValue_def by (intro safe_rules map_wakeup_safe interval_set_safe) simp_all

lemma SetAwake_safe:
  assumes w: "well_formed d" and e: "env_ok env"
  shows "safe (SetAwake env st nid d)"
proof (cases "get_wakeup nid d")
  case None
  then show ?thesis by (simp add: SetAwake_def)
next
  case (Some v)
  obtain sh where g: "good sh d" using w by (rule well_formedE)
  have "sh nid = Some True" using Some good_shape [OF g] by (auto simp: get_wakeup_def split: Option.bind_splits)
  from SetAwake_good [OF g e this, of st] show ?thesis by (auto intro: good_wf)
qed

lemma map_class_wf: "well_formed d \<Longrightarrow> well_formed (map_node (map_class f cc) nid d)"
  by (rule map_node_wf) (simp_all add: map_class_def)

lemma safe2_snd_pair: "safe2 r \<Longrightarrow> safe2 (map_option (Pair b \<circ> snd) r)"
  by (cases r) auto

lemma WakeUp_HandleMsg_safe:
  assumes w: "well_formed d" and e: "env_ok env"
  shows "safe2 (WakeUp_HandleMsg env values nid data len d)"
  unfolding WakeUp_HandleMsg_def Let_def
  by (intro safe_rules map_wakeup_safe interval_set_safe SetAwake_safe map_class_wf safe2_snd_pair WakeUp_SetValue_safe w e)
    simp_all

lemma with_wakeup_ok:
  assumes e: "env_ok env" and h: "handler_ok other"
  shows "handler_ok (with_wakeup env values other)"
  unfolding handler_ok_def with_wakeup_def
  by (intro allI impI safe_rules WakeUp_HandleMsg_safe e handler_okD [OF h])

end
