(* ===== verification/Wake_Class_Laws.thy ===== *)
theory Wake_Class_Laws
  imports Wake_Class
begin

text \<open>
  Waking up from the serial port to the send queues, the requests and the interval of the wake-up class, and
  the contract under which no reachable state of the driver is stuck.
\<close>

section \<open>Waking up\<close>

lemma interval_of_bytes: "interval_of (interval_bytes iv @ rest) = iv AND 0xffffff"
proof -
  have m: "(0xffffff :: uint32) = mask 24" "(0xff :: uint32) = mask 8" by (simp_all add: mask_eq_exp_minus_1)
  have "bit (interval_of (interval_bytes iv @ rest)) n \<longleftrightarrow> bit (iv AND 0xffffff) n" if "n < 32" for n
    unfolding interval_of_def interval_bytes_def m using that by (cases "n < 8"; cases "n < 16") (auto simp: bit_simps)
  then show ?thesis by (intro bit_word_eqI) simp
qed

lemma messages_of_node:
  "(\<And>m. needs_encryption n' m = needs_encryption n m) \<Longrightarrow> messages_of h n' its = messages_of h n its"
  by (simp add: messages_of_def woken_msg_def cong: queue_item.case_cong)

lemma SetAwake_true:
  assumes g: "good sh d" and n: "d_nodes d nid = Some n" and w: "n_wakeUp n = Some w"
    and a: "\<not> w_awake w" "\<not> w_pollRequired w" and r: "ne_refresh env nid = []" and o: "own_items nid (w_pending w)"
  shows "\<exists>d' rest. SetAwake env True nid d = Some d' \<and> good sh d' \<and> pending d' nid = [] \<and>
    d_queue d' MsgQueue_WakeUp = d_queue d MsgQueue_WakeUp @ messages_of (d_homeId d) n (w_pending w) @ rest \<and>
    d_queue d' MsgQueue_Query = d_queue d MsgQueue_Query @ markers_of (w_pending w) \<and>
    (if m_queryStage (n_query n) = St_Complete \<and> w_delayNMI w = 0
     then \<exists>m. rest = [Item_SendMsg m] \<and> m_targetNodeId m = nid else rest = [])"
proof -
  let ?n = "n\<lparr>n_wakeUp := Some (w\<lparr>w_awake := True\<rparr>)\<rparr>"
  obtain d0 where d0: "map_wakeup (\<lambda>w. w\<lparr>w_awake := True\<rparr>) nid d = Some d0" "good sh d0"
    "d_nodes d0 nid = Some ?n" "d_queue d0 = d_queue d"
    using map_wakeup_good [OF g n w, of "\<lambda>w. w\<lparr>w_awake := True\<rparr>"] by auto
  have h: "d_homeId d0 = d_homeId d" using d0(1) by (auto simp: map_wakeup_def put_node_def split: Option.bind_splits)
  define d1 where "d1 = notify (Note_Awake nid) d0"
  have d1: "good sh d1" "d_nodes d1 nid = Some ?n" "d_queue d1 = d_queue d" "d_homeId d1 = d_homeId d"
    using d0 h by (simp_all add: d1_def) (simp_all add: notify_def)
  have "SetAwake env True nid d = SendPending nid d1"
    using n w a r d0(1) d1(2) by (simp add: SetAwake_def get_wakeup_def d1_def [symmetric])
  moreover have "messages_of (d_homeId d) ?n its = messages_of (d_homeId d) n its" for its
    by (rule messages_of_node) simp
  ultimately show ?thesis
    using SendPending_delivers [OF d1(1,2), of "w\<lparr>w_awake := True\<rparr>"] o d1(3,4) by simp
qed

lemma end_of_message_frame: "d_queue (end_of_message b buf d) = d_queue d" "d_nodes (end_of_message b buf d) = d_nodes d"
  by (simp_all add: end_of_message_def callback_matched_def reply_matched_def RemoveCurrentMsg_def notify_def Let_def
      split: option.split)

text \<open>A frame with a wake-up notification of node \<open>nid\<close>.\<close>

definition wake_notification :: "uint8 \<Rightarrow> bytes \<Rightarrow> bool" where
  "wake_notification nid buf \<longleftrightarrow> dat buf 0 = REQUEST \<and> dat buf 1 = FUNC_ID_APPLICATION_COMMAND_HANDLER \<and>
     dat buf 3 = nid \<and> dat buf 5 = CC_WAKE_UP \<and> dat buf 6 = WakeUpCmd_Notification \<and> 9 \<le> length buf"

lemma wake_frame:
  assumes k: "wake_notification nid buf" and n: "d_nodes d nid = Some n" and c: "n_classes n CC_WAKE_UP = Some c"
    and u: "\<not> c_secured c \<or> \<not> re_enforce env" and al: "m_nodeAlive (n_query n)"
    and h: "re_handle env = with_wakeup (re_node env) values other"
  obtains x n1 where "ProcessMsg io env buf d = map_option (end_of_message (re_notifying env) buf)
      (SetAwake (re_node env) True nid (put_node nid n1 (count x d)))"
    "n_wakeUp n1 = n_wakeUp n" "n_nonces n1 = n_nonces n" "n_query n1 = n_query n" "\<And>m. needs_encryption n1 m = needs_encryption n m"
proof -
  define ex where "ex = (d_expectedReply d = FUNC_ID_APPLICATION_COMMAND_HANDLER \<and> d_expectedNodeId d = nid)"
  define x where "x = count_status (dat buf 2)"
  define nf where "nf = count_frame env buf ex n"
  define n1 where "n1 = class_received CC_WAKE_UP nf"
  have kf: "dat buf 0 = REQUEST" "dat buf 1 = FUNC_ID_APPLICATION_COMMAND_HANDLER" "dat buf 3 = nid"
    "dat buf 5 = CC_WAKE_UP" "dat buf 6 = WakeUpCmd_Notification" "drop 8 buf ! 0 = WakeUpCmd_Notification"
    using k by (simp_all add: wake_notification_def dat_def)
  have f: "n_wakeUp nf = n_wakeUp n" "n_nonces nf = n_nonces n" "n_query nf = n_query n" "n_classes nf = n_classes n"
    by (simp_all add: nf_def count_frame_def Let_def)
  have k1: "n_wakeUp n1 = n_wakeUp n" "n_nonces n1 = n_nonces n" "n_query n1 = n_query n"
    by (simp_all add: n1_def class_received_def map_class_def f)
  have k2: "needs_encryption n1 m = needs_encryption n m" for m
    using c by (simp add: needs_encryption_def n1_def class_received_def map_class_def f)
  have m: "map_node (count_frame env buf ex) nid (count x d) = put_node nid nf (count x d)"
    using n by (simp add: map_node_def count_def nf_def)
  have p: "put_node nid n1 (put_node nid nf (count x d)) = put_node nid n1 (count x d)"
    "d_nodes (put_node nid nf (count x d)) nid = Some nf" by (simp_all add: put_node_def)
  have "HandleApplicationCommandHandlerRequest env buf False d =
      ApplicationCommandHandler (re_node env) (re_key env) (re_handle env) (re_enforce env) nid buf False (put_node nid nf (count x d))"
    unfolding HandleApplicationCommandHandlerRequest_def Let_def kf ex_def [symmetric] x_def [symmetric] m
    using al f(3) p(2) by simp
  also have "\<dots> = SetAwake (re_node env) True nid (put_node nid n1 (count x d))"
  proof -
    have w: "with_wakeup (re_node env) values other nid CC_WAKE_UP ctl buf d1 = SetAwake (re_node env) True nid d1" for ctl d1
      using kf(6) by (cases "SetAwake (re_node env) True nid d1") (simp_all add: with_wakeup_def WakeUp_HandleMsg_def)
    have "dispatch (re_node env) (re_key env) (re_handle env) nid CC_WAKE_UP ctl buf d1 = SetAwake (re_node env) True nid d1" for ctl d1
      unfolding dispatch_def h by (simp add: w)
    moreover have "n_classes nf CC_WAKE_UP = Some c" "\<not> (c_secured c \<and> \<not> False \<and> re_enforce env)" using f(4) c u by auto
    ultimately show ?thesis unfolding ApplicationCommandHandler_def Let_def kf p(2) bind.bind_lunit
      by (auto simp: p(1) n1_def [symmetric])
  qed
  finally have "HandleApplicationCommandHandlerRequest env buf False d = SetAwake (re_node env) True nid (put_node nid n1 (count x d))" .
  moreover have "ProcessMsg io env buf d = map_option (end_of_message (re_notifying env) buf)
      (HandleApplicationCommandHandlerRequest env buf False d)"
    using k by (cases "HandleApplicationCommandHandlerRequest env buf False d")
      (simp_all add: ProcessMsg_def secure_message_def switch_message_def process_request_def Let_def wake_notification_def)
  ultimately show ?thesis using that [of n1 x] k1 k2 by simp
qed



text \<open>The interval a node reports is read back from the three bytes that set it; the upper byte of the 32 bit
  interval is lost.\<close>

theorem interval_roundtrip: "interval_of (interval_bytes iv @ rest) = (if iv < 2 ^ 24 then iv else iv AND 0xffffff)"
proof -
  have "iv AND 0xffffff = iv" if "iv < 2 ^ 24"
    using that less_mask_eq [of iv 24] by (simp add: mask_eq_exp_minus_1)
  then show ?thesis by (simp add: interval_of_bytes)
qed

text \<open>The capabilities of a wake-up class of version 2 or more are requested again with every stage that asks
  for static values: the request marks the wrong static data as read, and it is reported as not sent.\<close>

theorem capabilities_requested_again:
  assumes w: "well_formed d" and n: "d_nodes d nid = Some n" "n_classes n CC_WAKE_UP = Some c" "n_wakeUp n = Some v"
    and s: "HasStaticRequest StaticRequest_Values c" "c_version c > 1" "w_interval v \<noteq> 0" "flags AND RequestFlag_Static \<noteq> 0"
    and a: "w_awake v"
  shows "\<exists>d' n' c'. WakeUp_RequestState nid flags 1 q d = Some (False, d') \<and> well_formed d' \<and>
    d_nodes d' nid = Some n' \<and> n_classes n' CC_WAKE_UP = Some c' \<and> HasStaticRequest StaticRequest_Values c' \<and>
    length (d_queue d' q) = length (d_queue d q) + 1"
proof -
  let ?m = "wake_get ''WakeUpCmd_IntervalCapabilityGet'' nid WakeUpCmd_IntervalCapabilitiesGet d"
  obtain cb m where f: "Finalize (d_callbackId d) (?m\<lparr>m_homeId := d_homeId d\<rparr>) = Some (cb, m)" "m_targetNodeId m = nid"
    using Finalize_plain [of "?m\<lparr>m_homeId := d_homeId d\<rparr>" "d_callbackId d"]
    by (auto simp: wake_get_def Append_def Msg_new_def)
  have "\<not> sleeping n" using n(3) a by (simp add: sleeping_def)
  then obtain x where x: "SendMsg ?m q d = Some (push_back q (Item_SendMsg x) (d\<lparr>d_callbackId := cb\<rparr>))"
    using f n(1) by (cases "needs_encryption n m") (auto simp: SendMsg_def Let_def)
  define d1 where "d1 = push_back q (Item_SendMsg x) (d\<lparr>d_callbackId := cb\<rparr>)"
  have "finishes ?m" unfolding wake_get_def by (rule finishes_fold) simp
  then have "well_formed d1" using send_safe [OF w, of ?m q] by (simp add: x d1_def)
  moreover have "d_nodes d1 nid = Some n" "length (d_queue d1 q) = length (d_queue d q) + 1"
    using n(1) by (simp_all add: d1_def push_back_def)
  moreover have "WakeUp_RequestState nid flags 1 q d =
      Some (False, map_node (map_class (ClearStaticRequest (ucast RequestFlag_Static)) CC_WAKE_UP) nid d1)"
    using n s x by (simp add: WakeUp_RequestState_def WakeUp_RequestValue_def d1_def [symmetric])
  moreover have "HasStaticRequest StaticRequest_Values (ClearStaticRequest (ucast RequestFlag_Static) c)"
    using s(1) by (simp add: HasStaticRequest_def ClearStaticRequest_def and.assoc)
  moreover have "well_formed (map_node (map_class (ClearStaticRequest (ucast RequestFlag_Static)) CC_WAKE_UP) nid d1)"
    by (rule map_class_wf) fact
  moreover have "d_nodes (map_node (map_class h CC_WAKE_UP) nid d1) nid = Some (map_class h CC_WAKE_UP n)"
    "d_queue (map_node (map_class h CC_WAKE_UP) nid d1) = d_queue d1" for h
    using \<open>d_nodes d1 nid = Some n\<close> by (simp_all add: map_node_def put_node_def)
  moreover have "n_classes (map_class h CC_WAKE_UP n) CC_WAKE_UP = Some (h c)" for h
    using n(2) by (simp add: map_class_def)
  ultimately show ?thesis using n(2) by auto
qed

section \<open>The driver never stops working\<close>

text \<open>What the driver relies on of the command classes, and what follows for every state it can reach.\<close>

locale command_classes =
  fixes handle :: class_handler
  assumes keeps: "well_formed d \<Longrightarrow> safe (handle nid cc controlled buf d)"
begin

lemma handler: "handler_ok handle"
  unfolding handler_ok_def using keeps by blast

lemma reached_wf: "reachable handle d \<Longrightarrow> well_formed d"
  by (rule reachable_wf [OF _ handler])

lemma served_defined:
  assumes "reachable handle d" and "io_ok io" and "served d = Some q"
  shows "WriteNextMsg io q d \<noteq> None" "d_queue d q \<noteq> []"
proof -
  obtain sh where g: "good sh d" using reached_wf [OF assms(1)] by (rule well_formedE)
  show "WriteNextMsg io q d \<noteq> None"
    using WriteNextMsg_good [OF assms(2) g served_event [OF assms(3)]] by (auto simp: answers_def)
  show "d_queue d q \<noteq> []" using g served_event [OF assms(3)] by (simp add: good_def driver_inv_def event_okD)
qed

lemma other_steps_defined:
  assumes "reachable handle d" and "io_ok io"
  shows "wait_timed_out io d \<noteq> None" "CancelControllerCommand d \<noteq> None" "finishes m \<Longrightarrow> SendMsg m q' d \<noteq> None"
proof -
  obtain sh where g: "good sh d" using reached_wf [OF assms(1)] by (rule well_formedE)
  show "wait_timed_out io d \<noteq> None" using wait_timed_out_good [OF assms(2) g] by (auto simp: answers_def)
  show "CancelControllerCommand d \<noteq> None" using CancelControllerCommand_good [OF g] by auto
  show "finishes m \<Longrightarrow> SendMsg m q' d \<noteq> None" using SendMsg_good [OF g] by auto
qed

end

text \<open>The wake-up class, and no other, keeps the contract.\<close>

definition no_classes :: class_handler where
  "no_classes nid cc controlled buf d = Some d"

interpretation wake: command_classes "with_wakeup quiet_env (\<lambda>_ _. None) no_classes"
  using handler_okD [OF with_wakeup_ok [OF quiet_env_ok]] by unfold_locales (simp add: handler_ok_def no_classes_def)


section \<open>Examples\<close>

text \<open>A driver that is to add a device, reached in one step.\<close>

definition asked_driver :: driver where
  "asked_driver = snd (BeginControllerCommand ControllerCommand_AddDevice 1 7 True 0 0 (Driver_new 10))"

lemma asked_reached: "reachable h asked_driver"
proof (rule reachable.step [OF reachable.start])
  show "driver_step h (Driver_new 10) asked_driver"
    unfolding asked_driver_def by (rule driver_step.begin_command [OF surjective_pairing])
qed


text \<open>The sleeping node 5 with a message waiting, and its notification.\<close>

definition dozing_node :: node where
  "dozing_node = sleepy_node\<lparr>n_classes := (n_classes sleepy_node)(CC_WAKE_UP := Some (class_new CC_WAKE_UP))\<rparr>"

definition dozing_driver :: driver where
  "dozing_driver = put_node 5 (dozing_node\<lparr>n_wakeUp := Some (sleepy_wakeup\<lparr>w_pending := [Item_QueryStageComplete 5 St_Static True]\<rparr>)\<rparr>)
     sleepy_driver"

definition notification_frame :: bytes where
  "notification_frame = [0x01, 0x09, 0, 0x04, 0, 5, 2, 0x84, 0x07, 0x77]"

definition listening_env :: reply_env where
  "listening_env = quiet_replies\<lparr>re_handle := with_wakeup quiet_env (\<lambda>_ _. None) no_classes\<rparr>"

lemma dozing_node_good: "good (shape sleepy_driver) (put_node 5 dozing_node sleepy_driver)"
  by (rule put_node_good [OF sleepy_driver_good sleepy_node_at]) (simp_all add: dozing_node_def)

lemma dozing_driver_good: "good (shape sleepy_driver) dozing_driver"
proof -
  let ?it = "Item_QueryStageComplete 5 St_Static True"
  have "n_wakeUp dozing_node = Some sleepy_wakeup" by (simp add: dozing_node_def)
  then have "QueueMsg 5 ?it (put_node 5 dozing_node sleepy_driver) = Some dozing_driver"
    by (simp add: QueueMsg_def dozing_driver_def with_pending_def put_node_def reset_attempts_def)
  then show ?thesis by (rule QueueMsg_good [OF _ dozing_node_good]) (simp_all add: item_ok_def)
qed

lemma notification_frame: "wake_notification 5 notification_frame"
  by (simp add: wake_notification_def notification_frame_def dat_def)


definition capable_node :: node where
  "capable_node = dozing_node\<lparr>
     n_classes := (n_classes dozing_node)(CC_WAKE_UP := Some ((class_new CC_WAKE_UP)\<lparr>c_version := 2\<rparr>)),
     n_wakeUp := Some (sleepy_wakeup\<lparr>w_awake := True, w_interval := 3600\<rparr>)\<rparr>"

theorem capabilities_requested_again_witness:
  "\<exists>d'. WakeUp_RequestState 5 1 1 MsgQueue_Query (put_node 5 capable_node sleepy_driver) = Some (False, d') \<and>
     length (d_queue d' MsgQueue_Query) = 1"
proof -
  let ?d = "put_node 5 capable_node sleepy_driver"
  have g: "good (shape sleepy_driver) ?d"
  proof -
    have "map_wakeup (\<lambda>w. w\<lparr>w_awake := True, w_interval := 3600\<rparr>) 5
       (put_node 5 (capable_node\<lparr>n_wakeUp := Some sleepy_wakeup\<rparr>) sleepy_driver) = Some ?d"
      by (simp add: map_wakeup_def put_node_def capable_node_def)
    moreover have "good (shape sleepy_driver) (put_node 5 (capable_node\<lparr>n_wakeUp := Some sleepy_wakeup\<rparr>) sleepy_driver)"
      by (rule put_node_good [OF sleepy_driver_good sleepy_node_at]) (simp_all add: capable_node_def dozing_node_def)
    ultimately show ?thesis
      using map_wakeup_good [of "shape sleepy_driver" "put_node 5 (capable_node\<lparr>n_wakeUp := Some sleepy_wakeup\<rparr>) sleepy_driver" 5
          "capable_node\<lparr>n_wakeUp := Some sleepy_wakeup\<rparr>" sleepy_wakeup "\<lambda>w. w\<lparr>w_awake := True, w_interval := 3600\<rparr>"]
      by (auto simp: put_node_def)
  qed
  have n: "d_nodes ?d 5 = Some capable_node" "d_queue ?d = (\<lambda>_. [])"
    by (simp_all add: put_node_def sleepy_driver_def Driver_new_def)
  have c: "n_classes capable_node CC_WAKE_UP = Some ((class_new CC_WAKE_UP)\<lparr>c_version := 2\<rparr>)"
    "n_wakeUp capable_node = Some (sleepy_wakeup\<lparr>w_awake := True, w_interval := 3600\<rparr>)"
    "HasStaticRequest StaticRequest_Values ((class_new CC_WAKE_UP)\<lparr>c_version := 2\<rparr>)"
    by (simp_all add: capable_node_def class_new_def HasStaticRequest_def static_classes_def)
  from capabilities_requested_again [OF good_wf [OF g] n(1) c, of 1 MsgQueue_Query]
  show ?thesis by (auto simp: n(2))
qed

end
