(* ===== verification/Request_Laws.thy ===== *)
theory Request_Laws
  imports Wake_Class_Laws
begin

text \<open>
  What adding and removing nodes does to the table of nodes and to the running command, and when the reports
  on it are undefined.
\<close>


section \<open>What the operations on nodes leave alone\<close>

definition leaves_info :: "driver \<Rightarrow> driver option \<Rightarrow> bool" where
  "leaves_info d r \<longleftrightarrow> (\<forall>d'. r = Some d' \<longrightarrow> same_info d d')"

lemma leaves_infoD: "leaves_info d r \<Longrightarrow> r = Some d' \<Longrightarrow> same_info d d'"
  by (simp add: leaves_info_def)

lemma leaves_infoI: "(\<And>d'. r = Some d' \<Longrightarrow> same_info e d') \<Longrightarrow> same_info d e \<Longrightarrow> leaves_info d r"
  unfolding leaves_info_def using same_info_trans by blast

lemma info_bind: "leaves_info d r \<Longrightarrow> (\<And>e. same_info d e \<Longrightarrow> leaves_info d (f e)) \<Longrightarrow> leaves_info d (Option.bind r f)"
  by (cases r) (auto simp: leaves_info_def)

lemma info_get: "(\<And>x. r = Some x \<Longrightarrow> leaves_info d (f x)) \<Longrightarrow> leaves_info d (Option.bind r f)"
  by (cases r) (auto simp: leaves_info_def)

lemma info_if: "(c \<Longrightarrow> leaves_info d r) \<Longrightarrow> (\<not> c \<Longrightarrow> leaves_info d s) \<Longrightarrow> leaves_info d (if c then r else s)"
  by simp

lemma info_Some: "same_info d e \<Longrightarrow> leaves_info d (Some e)"
  by (simp add: leaves_info_def)

lemma info_None: "leaves_info d None"
  by (simp add: leaves_info_def)

lemma info_put: "same_info d e \<Longrightarrow> same_info d (put_node nid n e)"
  by simp

lemma info_map_node: "same_info d e \<Longrightarrow> same_info d (map_node f nid e)"
  by (simp add: map_node_def split: option.split)

lemma info_notify: "same_info d e \<Longrightarrow> same_info d (notify x e)"
  by simp

lemma info_checked: "same_info d e \<Longrightarrow> same_info d (CheckCompletedNodeQueries e)"
  by simp

lemma info_ops:
  assumes "same_info d e"
  shows "leaves_info d (SendMsg m q e)"
    "leaves_info d (set_stage_node env s b nid e)"
    "leaves_info d (SendPending nid e)"
    "leaves_info d (map_wakeup f nid e)"
    "leaves_info d (fresh_node nid nn e)"
    "leaves_info d (destroy_node nid e)"
    "leaves_info d (UpdateControllerState st err e)"
    "leaves_info d (InitNode env nid nn e)"
  unfolding leaves_info_def
  using same_info_trans [OF assms] 
  by (simp_all add: SendMsg_info set_stage_node_info SendPending_info map_wakeup_info fresh_node_info destroy_node_info
      UpdateControllerState_info InitNode_info)

lemma info_if_driver: "same_info d x \<Longrightarrow> same_info d y \<Longrightarrow> same_info d (if c then x else y)"
  by simp

lemmas info_rules = info_bind [where f = f for f :: "driver \<Rightarrow> driver option"]
  info_get [where r = r for r :: "node option"] info_get [where r = r for r :: "wakeup option"]
  info_get [where r = r for r :: "bytes option"] info_get [where r = r for r :: "cci option"]
  info_if info_Some info_None info_put info_notify info_checked info_map_node info_if_driver info_ops

lemma SetStaticRequests_info: "same_info d e \<Longrightarrow> leaves_info d (SetStaticRequests env nid e)"
  unfolding SetStaticRequests_def by (intro info_rules)

lemma refresh_info: "same_info d e \<Longrightarrow> leaves_info d (run_all send_one xs e)"
  unfolding leaves_info_def using run_all_info [of send_one] same_info_trans
  by (metis SendMsg_info send_one_def)

lemma SetAwake_info: "same_info d e \<Longrightarrow> leaves_info d (SetAwake env st nid e)"
  unfolding SetAwake_def by (intro info_rules refresh_info)

lemma UpdateNodeInfo_info: "same_info d e \<Longrightarrow> leaves_info d (UpdateNodeInfo env nid data len e)"
  unfolding UpdateNodeInfo_def by (intro info_rules SetStaticRequests_info SetAwake_info)

lemma advance_node_info: "same_info d e \<Longrightarrow> leaves_info d (advance_node env nid e)"
proof (rule leaves_infoI)
  fix d' assume "advance_node env nid e = Some d'"
  then obtain n q evs where "run_all (perform_event env nid) evs (put_node nid (n\<lparr>n_query := q\<rparr>) e) = Some d'"
    by (auto simp: advance_node_def split: Option.bind_splits prod.splits)
  from run_all_info [OF perform_event_info this] show "same_info e d'" by (simp add: same_info_def put_node_def)
qed

lemma SetNodeAlive_info: "same_info d e \<Longrightarrow> leaves_info d (SetNodeAlive env a nid e)"
  unfolding SetNodeAlive_def Let_def by (intro info_rules advance_node_info)

lemma ExchangeNetworkKeys_info: "same_info d e \<Longrightarrow> leaves_info d (ExchangeNetworkKeys nid e)"
  unfolding ExchangeNetworkKeys_def by (intro info_rules)

lemma find_security_info: "same_info d e \<Longrightarrow> leaves_info d (find_security env nid ccs e)"
proof (induction ccs arbitrary: e)
  case (Cons cc ccs)
  have "leaves_info d (case p of (new, n1) \<Rightarrow> (if \<not> ne_networkKey env then Some (put_node nid n1 e)
      else if new then ExchangeNetworkKeys nid (put_node nid n1 e) else None) \<bind> find_security env nid ccs)" for p
    by (cases p) (simp only: prod.case, intro info_rules ExchangeNetworkKeys_info Cons.IH Cons.prems)
  then show ?case unfolding find_security.simps Let_def by (intro info_rules Cons.IH Cons.prems)
qed (simp add: info_Some)

lemma SetProtocolInfo_info: "same_info d e \<Longrightarrow> leaves_info d (SetProtocolInfo env nid info len e)"
  unfolding SetProtocolInfo_def Let_def
  by (intro info_rules SetNodeAlive_info ExchangeNetworkKeys_info find_security_info UpdateNodeInfo_info)

lemma InitNode_frame_info: "same_info d e \<Longrightarrow> leaves_info d (InitNode_info env nid nn sec info len e)"
  unfolding InitNode_info_def by (intro info_rules SetProtocolInfo_info)

lemma remove_node_info: "same_info d e \<Longrightarrow> leaves_info d (remove_node nid e)"
  unfolding remove_node_def by (intro info_rules)

lemma AddNodeStop_info: "same_info d e \<Longrightarrow> leaves_info d (AddNodeStop f e)"
  by (auto simp: AddNodeStop_def send_command_def info_ops(1) info_Some split: option.split)

section \<open>Adding and removing nodes\<close>

lemma there_good: "good sh d \<Longrightarrow> d_nodes d j = None \<longleftrightarrow> sh j = None"
  using good_shape [of sh d j] good_node [of sh d j] by (cases "d_nodes d j"; cases "sh j") auto

text \<open>The running command ends up in the state it is given.\<close>

lemma UpdateControllerState_state:
  assumes w: "well_formed d" and a: "d_currentCmd d = Some a"
  shows "\<exists>d' c'. UpdateControllerState st err d = Some d' \<and> well_formed d' \<and> d_nodes d' = d_nodes d \<and>
    d_currentCmd d' = Some a \<and> d_ccis d' a = Some c' \<and> cci_state c' = st"
proof -
  obtain c where c: "d_ccis d a = Some c" using wf_cmd [OF w a] by blast
  obtain d' where d': "UpdateControllerState st err d = Some d'" "well_formed d'"
    using UpdateControllerState_wf [OF w, of st err] by (auto simp: leaves_wf_def)
  have "d_nodes d' = d_nodes d \<and> d_currentCmd d' = Some a \<and> (\<exists>c'. d_ccis d' a = Some c' \<and> cci_state c' = st)"
    using d'(1) a c by (auto simp: UpdateControllerState_def Let_def notify_def put_cci_def)
  then show ?thesis using d' by blast
qed

text \<open>When no command runs, a report on adding a node is followed through a null pointer exactly if it says
  that the controller is ready or that a device is being added.\<close>

theorem add_status_undefined:
  assumes w: "well_formed d" and n: "d_currentCmd d = None"
  shows "CommonAddNodeStatusRequestHandler env func buf d = None \<longleftrightarrow> dat buf 3 = 1 \<or> dat buf 3 = 3"
proof -
  have u: "UpdateControllerState st err e = Some e" if "d_currentCmd e = None" for st err e
    using that by (simp add: UpdateControllerState_def)
  have "d_currentCmd (RemoveCurrentMsg d) = None" using n by (simp add: RemoveCurrentMsg_def)
  then have "AddNodeStop f (RemoveCurrentMsg d) = Some (RemoveCurrentMsg d)" "AddNodeStop f d = Some d" for f
    using n by (simp_all add: AddNodeStop_def)
  then show ?thesis using n u \<open>d_currentCmd (RemoveCurrentMsg d) = None\<close>
    by (auto simp: CommonAddNodeStatusRequestHandler_def command_state_def add_node_status_def Let_def map_cmd_def node_added_def)
qed


text \<open>Destroying a node frees commands and changes none.\<close>

definition only_frees :: "cci_heap \<Rightarrow> cci_heap \<Rightarrow> bool" where
  "only_frees h h' \<longleftrightarrow> (\<forall>x. h' x = h x \<or> h' x = None)"

lemma only_frees_trans: "only_frees h h1 \<Longrightarrow> only_frees h1 h2 \<Longrightarrow> only_frees h h2"
  unfolding only_frees_def by metis

lemma free_cci_frees: "free_cci a h = Some h' \<Longrightarrow> only_frees h h'"
  by (auto simp: free_cci_def only_frees_def split: option.splits if_splits)

lemma remove_items_frees: "remove_items nid cur its h = Some (ys, h') \<Longrightarrow> only_frees h h'"
proof (induction its arbitrary: h ys h')
  case Nil
  then show ?case by (simp add: only_frees_def)
next
  case (Cons it its)
  have "\<exists>h1 zs. remove_items nid cur its h1 = Some (zs, h') \<and> (h1 = h \<or> (\<exists>a. free_cci a h = Some h1))"
    using Cons.prems by (cases it) (auto split: Option.bind_splits if_splits, blast+)
  then obtain h1 zs where s: "remove_items nid cur its h1 = Some (zs, h')"
    and k: "h1 = h \<or> (\<exists>a. free_cci a h = Some h1)" by blast
  have "only_frees h h" by (simp add: only_frees_def)
  then have "only_frees h h1" using k free_cci_frees by blast
  then show ?case using Cons.IH [OF s] by (rule only_frees_trans)
qed

lemma run_all_frees:
  assumes "\<And>x d d'. f x d = Some d' \<Longrightarrow> only_frees (v d) (v d')"
  shows "run_all f xs d = Some d' \<Longrightarrow> only_frees (v d) (v d')"
proof (induction xs arbitrary: d)
  case Nil
  then show ?case by (simp add: only_frees_def)
next
  case (Cons x xs)
  then obtain d1 where "f x d = Some d1" "run_all f xs d1 = Some d'" by (auto split: Option.bind_splits)
  then show ?case using only_frees_trans [OF assms Cons.IH] by blast
qed

lemma destroy_node_frees:
  assumes "destroy_node nid d = Some d'"
  shows "only_frees (d_ccis d) (d_ccis d')"
proof -
  obtain d1 h where r: "RemoveQueues nid d = Some d1" "run_all free_cci (addrs (pending d1 nid)) (d_ccis d1) = Some h"
    "d_ccis d' = h"
    using assms by (auto simp: destroy_node_def split: Option.bind_splits)
  have q: "only_frees (d_ccis e) (d_ccis e')" if "remove_from_queue nid q e = Some e'" for q e e'
    using that remove_items_frees by (auto simp: remove_from_queue_def set_queue_def split: Option.bind_splits)
  define d0 where "d0 = (case d_currentMsg d of None \<Rightarrow> d
        | Some m \<Rightarrow> if m_targetNodeId m = nid then RemoveCurrentMsg d else d)"
  have d0: "d_ccis d0 = d_ccis d" by (simp add: d0_def RemoveCurrentMsg_def split: option.split)
  have "run_all (remove_from_queue nid) all_queues d0 = Some d1" using r(1) by (simp add: RemoveQueues_def d0_def)
  from run_all_frees [of "remove_from_queue nid" d_ccis, OF q this] d0 have "only_frees (d_ccis d) (d_ccis d1)" by simp
  moreover have "only_frees (d_ccis d1) h" using run_all_frees [of free_cci "\<lambda>h. h", OF free_cci_frees r(2)] .
  ultimately show ?thesis unfolding r(3) by (rule only_frees_trans)
qed

text \<open>What deleting a node does for the running command.\<close>

lemma remove_node_outcome:
  assumes w: "well_formed d" and a: "d_currentCmd d = Some a" "d_ccis d a = Some c"
  shows "\<exists>d'. remove_node nid d = Some d' \<and> well_formed d' \<and> d_nodes d' = (d_nodes d)(nid := None) \<and>
    d_currentCmd d' = Some a \<and> d_ccis d' a = Some c"
proof (cases "d_nodes d nid")
  case None
  then show ?thesis using w a by (simp add: remove_node_def fun_eq_iff)
next
  case (Some n)
  obtain sh where g: "good sh d" using w by (rule well_formedE)
  obtain d' where d': "destroy_node nid d = Some d'" "good (sh(nid := None)) d'" "d_nodes d' = (d_nodes d)(nid := None)"
    "d_currentCmd d' = d_currentCmd d" by (rule destroy_node_good [OF g, of nid])
  obtain c' where "d_ccis d' a = Some c'" using wf_cmd [OF good_wf [OF d'(2)]] d'(4) a(1) by auto
  then have "d_ccis d' a = Some c" using destroy_node_frees [OF d'(1)] a(2) unfolding only_frees_def by (metis option.distinct(1))
  then show ?thesis using Some d' good_wf [OF d'(2)] a(1) by (simp add: remove_node_def)
qed

text \<open>(C14) A removal that is done deletes exactly the node that was announced, or, when none was, the node the
  last report names; nothing else changes in the table of nodes, and the command is completed.\<close>

theorem removed_node_leaves:
  assumes w: "well_formed d" and a: "d_currentCmd d = Some a" "d_ccis d a = Some c" and dn: "\<not> cci_done c"
    and s: "dat buf 3 = 6" and nid: "nid = (if cci_node c = 0 then dat buf 4 else cci_node c)" "nid \<noteq> 0" "nid \<noteq> 0xff"
  shows "\<exists>d' c'. HandleRemoveNodeFromNetworkRequest buf d = Some d' \<and> well_formed d' \<and>
    d_nodes d' = (d_nodes d)(nid := None) \<and> d_ccis d' a = Some c' \<and> cci_state c' = ControllerState_Completed \<and>
    last (d_notes d') = Note_NodeRemoved nid"
proof -
  obtain d1 where d1: "UpdateControllerState ControllerState_Completed ControllerError_None d = Some d1" "well_formed d1"
    using UpdateControllerState_wf [OF w, of ControllerState_Completed ControllerError_None] by (auto simp: leaves_wf_def)
  have k1: "d_nodes d1 = d_nodes d" "d_currentCmd d1 = Some a"
    and "\<exists>c1. d_ccis d1 a = Some c1 \<and> cci_state c1 = ControllerState_Completed \<and> cci_node c1 = cci_node c"
    using d1(1) a by (auto simp: UpdateControllerState_def Let_def notify_def put_cci_def)
  then obtain c1 where c1: "d_ccis d1 a = Some c1" "cci_state c1 = ControllerState_Completed" "cci_node c1 = cci_node c" by blast
  define c2 where "c2 = (if cci_node c1 = 0 \<and> dat buf 4 \<noteq> 0 then c1\<lparr>cci_node := dat buf 4\<rparr> else c1)"
  define d2 where "d2 = put_cci a c2 d1"
  have w2: "well_formed d2" unfolding d2_def by (rule put_cci_wf [OF d1(2) c1(1)])
  have k2: "d_currentCmd d2 = Some a" "d_ccis d2 a = Some c2" "d_nodes d2 = d_nodes d"
    using k1 by (simp_all add: d2_def put_cci_def)
  have c2: "cci_node c2 = nid" "cci_state c2 = ControllerState_Completed" using c1 nid by (auto simp: c2_def)
  obtain d3 where d3: "remove_node nid d2 = Some d3" "well_formed d3" "d_nodes d3 = (d_nodes d)(nid := None)"
    "d_ccis d3 a = Some c2" using remove_node_outcome [OF w2 k2(1,2)] k2(3) by auto
  have m: "map_cmd (\<lambda>c. if cci_node c = 0 \<and> dat buf 4 \<noteq> 0 then c\<lparr>cci_node := dat buf 4\<rparr> else c) d1 = Some d2"
    using k1(2) c1(1) by (simp add: map_cmd_def d2_def c2_def)
  have r: "removal_done buf d = Some (notify (Note_NodeRemoved nid) d3)"
    using d1(1) m k2 c2(1) nid d3(1) by (simp add: removal_done_def command_of_def)
  have "HandleRemoveNodeFromNetworkRequest buf d = Some (notify (Note_NodeRemoved nid) d3)"
    using a dn s r by (simp add: HandleRemoveNodeFromNetworkRequest_def)
  then show ?thesis using d3 c2(2) by (simp add: notify_def wf_updates(1) [unfolded notify_def])
qed

text \<open>The report that a failed node was removed is followed through a null pointer exactly when no command
  runs; otherwise it deletes the node the running command names, whatever that command is.\<close>

theorem failed_node_removed:
  assumes w: "well_formed d" and s: "dat buf 3 = 1"
  shows "case command_of d of
      None \<Rightarrow> HandleRemoveFailedNodeRequest buf d = None \<and> d_currentCmd d = None
    | Some c \<Rightarrow> \<exists>d'. HandleRemoveFailedNodeRequest buf d = Some d' \<and> well_formed d' \<and> d_nodes d' = (d_nodes d)(cci_node c := None) \<and>
        map_option cci_state (command_of d') = Some ControllerState_Completed"
proof (cases "d_currentCmd d")
  case None
  then show ?thesis using s by (simp add: command_of_def HandleRemoveFailedNodeRequest_def)
next
  case (Some a)
  obtain c where c: "d_ccis d a = Some c" using wf_cmd [OF w Some] by blast
  obtain d1 where d1: "remove_node (cci_node c) d = Some d1" "well_formed d1" "d_nodes d1 = (d_nodes d)(cci_node c := None)"
    "d_currentCmd d1 = Some a" using remove_node_outcome [OF w Some c] by blast
  have "well_formed (notify (Note_NodeRemoved (cci_node c)) d1)" "d_currentCmd (notify (Note_NodeRemoved (cci_node c)) d1) = Some a"
    using d1 by (simp_all add: notify_def [of _ d1]) (simp add: d1(2) wf_updates(1) [unfolded notify_def])
  from UpdateControllerState_state [OF this, of ControllerState_Completed ControllerError_None] show ?thesis
    using Some c d1 s by (auto simp: command_of_def HandleRemoveFailedNodeRequest_def) (auto simp: notify_def)
qed


text \<open>A device that could not be added leaves no trace: after the failure and the end of the procedure the
  table of nodes has the nodes it had, and the command is reported as completed.\<close>

theorem failed_addition_completes:
  assumes w: "well_formed d" and a: "d_currentCmd d = Some a" and s: "dat buf 3 = 7" "dat buf' 3 = 6"
  shows "\<exists>d1 d2. CommonAddNodeStatusRequestHandler env func buf d = Some d1 \<and>
    map_option cci_state (command_of d1) = Some ControllerState_Failed \<and>
    CommonAddNodeStatusRequestHandler env' func buf' d1 = Some d2 \<and> well_formed d2 \<and>
    (\<forall>i. d_nodes d2 i = None \<longleftrightarrow> d_nodes d i = None) \<and> map_option cci_state (command_of d2) = Some ControllerState_Completed"
proof -
  have w0: "well_formed (RemoveCurrentMsg d)" by (rule RemoveCurrentMsg_wf [OF w])
  obtain sh where g: "good sh (RemoveCurrentMsg d)" using w0 by (rule well_formedE)
  obtain d0 where d0: "AddNodeStop func (RemoveCurrentMsg d) = Some d0" "good sh d0"
    using AddNodeStop_keeps [OF g] by (auto simp: keeps_def)
  have "d_currentCmd d0 = Some a"
    using leaves_infoD [OF AddNodeStop_info [OF same_info_refl] d0(1)] a by (simp add: same_info_def RemoveCurrentMsg_def)
  from UpdateControllerState_state [OF good_wf [OF d0(2)] this, of ControllerState_Failed ControllerError_None]
  obtain d1 c1 where d1: "UpdateControllerState ControllerState_Failed ControllerError_None d0 = Some d1" "well_formed d1"
    "d_nodes d1 = d_nodes d0" "d_currentCmd d1 = Some a" "d_ccis d1 a = Some c1" "cci_state c1 = ControllerState_Failed" by blast
  from UpdateControllerState_state [OF d1(2,4), of ControllerState_Completed ControllerError_None]
  obtain d2 c2 where d2: "UpdateControllerState ControllerState_Completed ControllerError_None d1 = Some d2" "well_formed d2"
    "d_nodes d2 = d_nodes d1" "d_currentCmd d2 = Some a" "d_ccis d2 a = Some c2" "cci_state c2 = ControllerState_Completed" by blast
  obtain c where c: "d_ccis d a = Some c" using wf_cmd [OF w a] by blast
  have r1: "CommonAddNodeStatusRequestHandler env func buf d = Some d1"
    using a c s(1) d0(1) d1(1) by (simp add: CommonAddNodeStatusRequestHandler_def command_state_def add_node_status_def)
  have r2: "CommonAddNodeStatusRequestHandler env' func buf' d1 = Some d2"
    using d1 s(2) d2(1) by (simp add: CommonAddNodeStatusRequestHandler_def command_state_def add_node_status_def)
  have "d_nodes (RemoveCurrentMsg d) = d_nodes d" by (simp add: RemoveCurrentMsg_def)
  then have "d_nodes d2 i = None \<longleftrightarrow> d_nodes d i = None" for i
    using there_good [OF g, of i] there_good [OF d0(2), of i] d1(3) d2(3) by simp
  then show ?thesis using r1 r2 d1 d2 by (intro exI [of _ d1] exI [of _ d2]) (simp add: command_of_def)
qed

section \<open>Examples\<close>

definition status_frame :: "uint8 \<Rightarrow> uint8 \<Rightarrow> bytes" where
  "status_frame s nid = [1, 7, 0, 0x4a, 1, s, nid, 0, 0]"

lemma status_frame [simp]: "dat (status_frame s nid) 3 = s" "dat (status_frame s nid) 4 = nid"
  by (simp_all add: status_frame_def dat_def)

text \<open>Node 5 is there, and a command about node \<open>nid\<close> runs.\<close>

definition running_driver :: "uint8 \<Rightarrow> driver" where
  "running_driver nid = put_cci 0 ((the (d_ccis adding_driver 0))\<lparr>cci_node := nid\<rparr>) (put_node 5 Node_new adding_driver)"

lemma adding_command: "\<exists>c. d_ccis adding_driver 0 = Some c \<and> cci_infoLength c = 0 \<and> \<not> cci_done c \<and> cci_state c = ControllerState_Normal"
  by (simp add: adding_driver_def BeginControllerCommand_def new_cci_def Driver_new_def push_back_def Let_def)

lemma running_driver:
  shows "well_formed (running_driver nid)" "d_currentCmd (running_driver nid) = Some 0"
    "\<exists>c. d_ccis (running_driver nid) 0 = Some c \<and> cci_node c = nid \<and> cci_infoLength c = 0 \<and> \<not> cci_done c \<and>
       cci_state c = ControllerState_Normal"
    "d_nodes (running_driver nid) = [5 \<mapsto> Node_new]"
proof -
  obtain c where c: "d_ccis adding_driver 0 = Some c" "cci_infoLength c = 0" "\<not> cci_done c" "cci_state c = ControllerState_Normal"
    using adding_command by blast
  have "good ((\<lambda>_. None)(5 := Some False)) (put_node 5 Node_new adding_driver)"
    by (rule new_node_good [OF adding_driver_good]) (simp_all add: adding_driver_simps Node_new_ok)
  then show "well_formed (running_driver nid)"
    unfolding running_driver_def by (intro put_cci_wf [of _ _ c] good_wf) (simp_all add: put_node_def c)
  show "d_currentCmd (running_driver nid) = Some 0" "d_nodes (running_driver nid) = [5 \<mapsto> Node_new]"
    by (simp_all add: running_driver_def put_cci_def put_node_def adding_driver_simps)
  show "\<exists>c. d_ccis (running_driver nid) 0 = Some c \<and> cci_node c = nid \<and> cci_infoLength c = 0 \<and> \<not> cci_done c \<and>
       cci_state c = ControllerState_Normal"
    using c by (simp add: running_driver_def put_cci_def)
qed

theorem add_status_undefined_witness:
  "CommonAddNodeStatusRequestHandler quiet_env FUNC_ID_ZW_ADD_NODE_TO_NETWORK (status_frame 1 0) (Driver_new 10) = None"
proof -
  have "d_currentCmd (Driver_new 10) = None" by (simp add: Driver_new_def)
  from add_status_undefined [OF good_wf [OF Driver_new_good] this] show ?thesis by simp
qed


theorem removed_node_leaves_witness:
  "\<exists>d'. HandleRemoveNodeFromNetworkRequest (status_frame 6 5) (running_driver 0) = Some d' \<and> d_nodes d' 5 = None"
proof -
  obtain c where c: "d_ccis (running_driver 0) 0 = Some c" "cci_node c = 0" "\<not> cci_done c" using running_driver(3) by blast
  from removed_node_leaves [OF running_driver(1,2) c(1,3), of "status_frame 6 5" 5] show ?thesis by (auto simp: c(2))
qed

theorem failed_node_removed_witness:
  "HandleRemoveFailedNodeRequest (status_frame 1 0) (Driver_new 10) = None"
proof -
  have "command_of (Driver_new 10) = None" by (simp add: command_of_def Driver_new_def)
  then show ?thesis using failed_node_removed [OF good_wf [OF Driver_new_good [of 10]], of "status_frame 1 0"] by simp
qed

theorem failed_addition_completes_witness:
  "\<exists>d1 d2. CommonAddNodeStatusRequestHandler quiet_env FUNC_ID_ZW_ADD_NODE_TO_NETWORK (status_frame 7 0) (running_driver 7) = Some d1 \<and>
     CommonAddNodeStatusRequestHandler quiet_env FUNC_ID_ZW_ADD_NODE_TO_NETWORK (status_frame 6 0) d1 = Some d2 \<and> d_nodes d2 7 = None"
proof -
  have "dat (status_frame 7 0) 3 = 7" "dat (status_frame 6 0) 3 = 6" by simp_all
  from failed_addition_completes [OF running_driver(1,2) [of 7] this, where env = quiet_env and func = FUNC_ID_ZW_ADD_NODE_TO_NETWORK and env' = quiet_env]
  show ?thesis by (auto simp: running_driver(4))
qed

end
