(* ===== verification/CC_Values.thy ===== *)
theory CC_Values
  imports Msg_Frame
begin

text \<open>
  The numbers the command classes exchange (\<open>cpp/src/command_classes/CommandClass.cpp\<close>): \<open>ExtractValue\<close>,
  \<open>AppendValue\<close> and \<open>ValueToInteger\<close>, which keep numbers as text, and the encoding of durations; what a
  number and a duration become on their way to a device and back.
\<close>


section \<open>Durations\<close>

definition decodeDuration :: "uint8 \<Rightarrow> uint32" where
  "decodeDuration b = (if b \<le> 0x7f then ucast b else if b \<le> 0xfd then (ucast b - 0x7f) * 60 else - 1)"

definition encodeDuration :: "uint32 \<Rightarrow> uint8" where
  "encodeDuration seconds =
     (if seconds \<le> 0x7f then ucast (seconds AND 0xff)
      else if seconds > 7620 then 0xff
      else ucast (0x79 + ((seconds div 60) AND 0xff)))"

section \<open>Numbers as text\<close>

text \<open>The ten digits that \<open>"%011d"\<close> prints after the sign or the first zero.\<close>

definition ten_digits :: "nat \<Rightarrow> string" where
  "ten_digits n = map (\<lambda>i. digit_char (n div 10 ^ (9 - i) mod 10)) [0..<10]"

definition print_padded :: "int \<Rightarrow> string" where
  "print_padded v = (if v < 0 then CHR ''-'' else CHR ''0'') # ten_digits (nat (abs v))"

text \<open>
  The text of a value: the loop that moves the digits over the sign and looks for the first one that is
  not zero, the decimal point \<open>pt\<close> of the locale, the rest of the digits.
\<close>

definition print_value :: "char \<Rightarrow> bool \<Rightarrow> nat \<Rightarrow> int \<Rightarrow> string" where
  "print_value pt neg precision v =
     (if precision = 0 then dec_int v
      else let decimal = 10 - precision;
               moved = take decimal (tl (print_padded v));
               zeros = length (takeWhile (\<lambda>c. c = CHR ''0'') moved);
               start = (if zeros < decimal then zeros else decimal - 1)
           in (if neg then ''-'' else '''') @ drop start moved @ [pt] @ drop decimal (tl (print_padded v)))"

section \<open>Values in frames\<close>

definition extract_word :: "bytes \<Rightarrow> uint32" where
  "extract_word bs = foldl (\<lambda>v b. push_bit 8 v OR ucast b) 0 bs"

definition sign_extend :: "nat \<Rightarrow> uint32 \<Rightarrow> uint32" where
  "sign_extend sz v = (if sz = 1 then v OR 0xffffff00 else if sz = 2 then v OR 0xffff0000 else v)"

text \<open>\<open>None\<close> when a byte is not there.  The results are the text, the scale and the precision.\<close>

definition ExtractValue :: "char \<Rightarrow> bytes \<Rightarrow> nat \<Rightarrow> (string \<times> uint8 \<times> uint8) option" where
  "ExtractValue pt data off = do {
     header \<leftarrow> peek data 0;
     let sz = unat (header AND 0x07);
     let precision = drop_bit 5 (header AND 0xe0);
     bs \<leftarrow> peek_block data off sz;
     first \<leftarrow> peek data off;
     let neg = (first AND 0x80 \<noteq> 0);
     let value = (if neg then sign_extend sz (extract_word bs) else extract_word bs);
     Some (print_value pt neg (unat precision) (sint value), drop_bit 3 (header AND 0x18), precision)
   }"

section \<open>Values from text\<close>

definition is_digit :: "char \<Rightarrow> bool" where
  "is_digit c \<longleftrightarrow> 48 \<le> (of_char c :: nat) \<and> (of_char c :: nat) \<le> 57"

definition is_space :: "char \<Rightarrow> bool" where
  "is_space c \<longleftrightarrow> (of_char c :: nat) = 32 \<or> (9 \<le> (of_char c :: nat) \<and> (of_char c :: nat) \<le> 13)"

definition digits_value :: "string \<Rightarrow> nat" where
  "digits_value ds = foldl (\<lambda>a c. a * 10 + (of_char c - 48)) 0 ds"

text \<open>\<open>atol\<close>; its result is not specified beyond 64 bits.\<close>

definition atol :: "string \<Rightarrow> int" where
  "atol s =
     (let t = dropWhile is_space s;
          (neg, u) = (case t of [] \<Rightarrow> (False, t)
            | c # cs \<Rightarrow> if c = CHR ''-'' then (True, cs) else if c = CHR ''+'' then (False, cs) else (False, t));
          n = int (digits_value (takeWhile is_digit u))
      in if neg then - n else n)"

fun find_first :: "char \<Rightarrow> string \<Rightarrow> nat option" where
  "find_first c [] = None"
| "find_first c (x # xs) = (if x = c then Some 0 else map_option Suc (find_first c xs))"

definition decimal_point :: "string \<Rightarrow> nat option" where
  "decimal_point s = (case find_first CHR ''.'' s of None \<Rightarrow> find_first CHR '','' s | Some i \<Rightarrow> Some i)"

text \<open>The loop that raises the precision to the one the compatibility flag asks for.\<close>

function raise_precision :: "uint8 \<Rightarrow> uint8 \<Rightarrow> uint32 \<Rightarrow> uint8 \<times> uint32" where
  "raise_precision orp precision val =
     (if precision < orp then raise_precision orp (precision + 1) (val * 10) else (precision, val))"
  by pat_completeness auto
termination
proof (relation "measure (\<lambda>(orp, precision, val). 255 - unat precision)", simp)
  fix orp precision :: uint8 and val :: uint32 assume "precision < orp"
  then have "unat precision < unat orp" by (simp add: word_less_nat_alt)
  moreover have "unat orp < 256" using unsigned_less [of orp] by simp
  ultimately have "unat precision < 255" by linarith
  then show "((orp, precision + 1, val * 10), orp, precision, val) \<in> measure (\<lambda>(orp, precision, val). 255 - unat precision)"
    by (simp add: unat_word_ariths)
qed

declare raise_precision.simps [simp del]

definition value_size :: "uint32 \<Rightarrow> uint8" where
  "value_size val =
     (if val <s 0 then (if val AND 0xffffff80 = 0xffffff80 then 1 else if val AND 0xffff8000 = 0xffff8000 then 2 else 4)
      else if val AND 0xffffff00 = 0 then 1 else if val AND 0xffff0000 = 0 then 2 else 4)"

text \<open>\<open>orp\<close> is the compatibility flag \<open>OVERRIDEPRECISION\<close>, zero when it is not set.\<close>

definition ValueToInteger :: "uint8 \<Rightarrow> string \<Rightarrow> uint32 \<times> uint8 \<times> uint8" where
  "ValueToInteger orp s =
     (let (precision, val) = (case decimal_point s of
            None \<Rightarrow> (0, word_of_int (atol s))
          | Some pos \<Rightarrow> (of_nat (length s - pos - 1), word_of_int (atol (take pos s @ drop (pos + 1) s))));
          (precision, val) = (if orp > 0 then raise_precision orp precision val else (precision, val))
      in (val, precision, value_size val))"

text \<open>The bytes of a value, the highest first.\<close>

definition word_bytes :: "nat \<Rightarrow> uint32 \<Rightarrow> bytes" where
  "word_bytes sz w = map (\<lambda>i. ucast (signed_drop_bit (8 * (sz - 1 - i)) w)) [0..<sz]"

definition value_bytes :: "uint8 \<Rightarrow> string \<Rightarrow> uint8 \<Rightarrow> bytes" where
  "value_bytes orp s scale =
     (let (val, precision, sz) = ValueToInteger orp s
      in (push_bit 5 precision OR push_bit 3 scale OR sz) # word_bytes (unat sz) val)"

definition AppendValue :: "uint8 \<Rightarrow> string \<Rightarrow> uint8 \<Rightarrow> msg \<Rightarrow> msg" where
  "AppendValue orp s scale m = fold Append (value_bytes orp s scale) m"

definition GetAppendValueSize :: "uint8 \<Rightarrow> string \<Rightarrow> uint8" where
  "GetAppendValueSize orp s = snd (snd (ValueToInteger orp s))"


section \<open>Digits\<close>

lemma of_char_digit: "d < 10 \<Longrightarrow> (of_char (digit_char d) :: nat) = 48 + d"
  by (simp add: digit_char_def)

lemma digit_char_digit [simp]: "d < 10 \<Longrightarrow> is_digit (digit_char d)"
  by (simp add: is_digit_def of_char_digit)

lemma digits_value_Nil [simp]: "digits_value [] = 0"
  by (simp add: digits_value_def)

lemma digits_value_snoc [simp]: "digits_value (ds @ [c]) = digits_value ds * 10 + (of_char c - 48)"
  by (simp add: digits_value_def)

lemma digits_value_zero: "digits_value (CHR ''0'' # ds) = digits_value ds"
  by (simp add: digits_value_def)

lemma digits_value_zeros: "(\<forall>c \<in> set zs. c = CHR ''0'') \<Longrightarrow> digits_value (zs @ ds) = digits_value ds"
  by (induction zs) (auto simp: digits_value_zero)

lemma dec_nat_value: "digits_value (dec_nat n) = n \<and> (\<forall>c \<in> set (dec_nat n). is_digit c) \<and> dec_nat n \<noteq> []"
proof (induction n rule: dec_nat.induct)
  case (1 n)
  show ?case
  proof (cases "n < 10")
    case True
    then show ?thesis by (subst (1 2 3) dec_nat.simps) (simp add: digits_value_def of_char_digit)
  next
    case False
    then show ?thesis using 1 by (subst (1 2 3) dec_nat.simps) (simp add: of_char_digit)
  qed
qed

lemma power_digits: "digits_value (map (\<lambda>i. digit_char (n div 10 ^ (k - 1 - i) mod 10)) [0..<k]) = n mod 10 ^ k"
proof (induction k arbitrary: n)
  case (Suc k)
  have "n div 10 ^ (k - i) = n div 10 div 10 ^ (k - 1 - i)" if "i < k" for i
  proof -
    have "k - i = Suc (k - 1 - i)" using that by simp
    then show ?thesis by (simp add: div_mult2_eq)
  qed
  then have "map (\<lambda>i. digit_char (n div 10 ^ (k - i) mod 10)) [0..<k] =
      map (\<lambda>i. digit_char (n div 10 div 10 ^ (k - 1 - i) mod 10)) [0..<k]"
    by (intro map_cong) simp_all
  then have "digits_value (map (\<lambda>i. digit_char (n div 10 ^ (k - i) mod 10)) [0..<k]) = n div 10 mod 10 ^ k"
    by (simp only: Suc.IH)
  then have "digits_value (map (\<lambda>i. digit_char (n div 10 ^ (Suc k - 1 - i) mod 10)) [0..<Suc k]) =
      (n div 10 mod 10 ^ k) * 10 + n mod 10"
    by (simp add: of_char_digit)
  also have "\<dots> = n mod 10 ^ Suc k" by (simp add: mod_mult2_eq)
  finally show ?case .
qed simp

lemma ten_digits: "length (ten_digits n) = 10" "\<forall>c \<in> set (ten_digits n). is_digit c"
  "n < 10 ^ 10 \<Longrightarrow> digits_value (ten_digits n) = n"
  using power_digits [of n 10] by (auto simp: ten_digits_def)

section \<open>Reading a printed number\<close>

lemma digit_not_space: "is_digit c \<Longrightarrow> \<not> is_space c"
  by (auto simp: is_digit_def is_space_def)

lemma digit_not_sign: "is_digit c \<Longrightarrow> c \<noteq> CHR ''-'' \<and> c \<noteq> CHR ''+'' \<and> c \<noteq> CHR ''.'' \<and> c \<noteq> CHR '',''"
  by (auto simp: is_digit_def)

lemma atol_digits:
  assumes "\<forall>c \<in> set ds. is_digit c" and "ds \<noteq> []"
  shows "atol ds = int (digits_value ds)" "atol (CHR ''-'' # ds) = - int (digits_value ds)"
proof -
  obtain c cs where ds: "ds = c # cs" using assms(2) by (cases ds) auto
  have d: "is_digit c" using assms(1) ds by simp
  have t: "takeWhile is_digit ds = ds" using assms(1) by (simp add: takeWhile_eq_all_conv)
  have "\<not> is_space c" "c \<noteq> CHR ''-''" "c \<noteq> CHR ''+''" using d digit_not_space [OF d] digit_not_sign [OF d] by auto
  then have "atol ds = int (digits_value (takeWhile is_digit ds))" by (simp add: atol_def ds Let_def del: takeWhile.simps)
  then show "atol ds = int (digits_value ds)" by (simp only: t)
  have "\<not> is_space CHR ''-''" by (simp add: is_space_def)
  then have "atol (CHR ''-'' # ds) = - int (digits_value (takeWhile is_digit ds))" by (simp add: atol_def Let_def)
  then show "atol (CHR ''-'' # ds) = - int (digits_value ds)" by (simp only: t)
qed

lemma dec_int_atol: "atol (dec_int v) = v"
  using dec_nat_value [of "nat (- v)"] dec_nat_value [of "nat v"] atol_digits by (simp add: dec_int_def)

lemma find_first_append: "c \<notin> set xs \<Longrightarrow> find_first c (xs @ c # ys) = Some (length xs)"
  by (induction xs) auto

lemma find_first_none: "c \<notin> set xs \<Longrightarrow> find_first c xs = None"
  by (induction xs) auto

lemma dec_int_no_point: "decimal_point (dec_int v) = None"
proof -
  have "c \<noteq> CHR ''.'' \<and> c \<noteq> CHR '',''" if "c \<in> set (dec_int v)" for c
    using that dec_nat_value [of "nat (- v)"] dec_nat_value [of "nat v"] digit_not_sign
    by (auto simp: dec_int_def split: if_splits)
  then have "CHR ''.'' \<notin> set (dec_int v)" "CHR '','' \<notin> set (dec_int v)" by blast+
  then show ?thesis by (simp add: decimal_point_def find_first_none)
qed

text \<open>The parts of a printed number with a decimal point.\<close>

lemma print_value_parts:
  assumes p: "0 < p" "p < 10" and v: "nat (abs v) < 10 ^ 10"
  obtains ip fr where "print_value pt neg p v = (if neg then ''-'' else '''') @ ip @ [pt] @ fr"
    "length fr = p" "\<forall>c \<in> set (ip @ fr). is_digit c" "ip \<noteq> []" "digits_value (ip @ fr) = nat (abs v)"
proof -
  define ds where "ds = ten_digits (nat (abs v))"
  have tl: "tl (print_padded v) = ds" by (simp add: print_padded_def ds_def)
  have ds: "length ds = 10" "\<forall>c \<in> set ds. is_digit c" "digits_value ds = nat (abs v)"
    using ten_digits [of "nat (abs v)"] v by (simp_all add: ds_def)
  define moved where "moved = take (10 - p) ds"
  define fr where "fr = drop (10 - p) ds"
  have mf: "ds = moved @ fr" "length moved = 10 - p" "length fr = p" using ds(1) p by (simp_all add: moved_def fr_def)
  define zeros where "zeros = length (takeWhile (\<lambda>c. c = CHR ''0'') moved)"
  define start where "start = (if zeros < 10 - p then zeros else 10 - p - 1)"
  have z: "take zeros moved = takeWhile (\<lambda>c. c = CHR ''0'') moved" by (simp add: zeros_def takeWhile_eq_take [symmetric])
  have "start \<le> zeros" "start < 10 - p" using p by (auto simp: start_def)
  then have "set (take start moved) \<subseteq> set (take zeros moved)" by (simp add: set_take_subset_set_take)
  then have "\<forall>c \<in> set (take start moved). c = CHR ''0''" using z by (auto dest: set_takeWhileD)
  then have "digits_value (take start moved @ (drop start moved @ fr)) = digits_value (drop start moved @ fr)"
    by (rule digits_value_zeros)
  then have "digits_value (drop start moved @ fr) = nat (abs v)" using ds(3) mf(1) by (simp flip: append_assoc)
  moreover have "drop start moved \<noteq> []" using \<open>start < 10 - p\<close> mf(2) by simp
  moreover have "\<forall>c \<in> set (drop start moved @ fr). is_digit c" using ds(2) mf(1) by (auto dest: in_set_dropD)
  moreover have "print_value pt neg p v = (if neg then ''-'' else '''') @ drop start moved @ [pt] @ fr"
    using p by (simp add: print_value_def Let_def tl moved_def fr_def zeros_def start_def)
  ultimately show ?thesis using that mf(3) by blast
qed

text \<open>Reading back what was printed, without the compatibility flag.\<close>

lemma ValueToInteger_print:
  assumes p: "p \<le> 7" and v: "- (2 ^ 31) \<le> v" "v < 2 ^ 31" and pt: "pt = CHR ''.'' \<or> pt = CHR '',''"
  shows "ValueToInteger 0 (print_value pt (v < 0) p v) = (word_of_int v, of_nat p, value_size (word_of_int v))"
proof (cases "p = 0")
  case True
  then show ?thesis by (simp add: ValueToInteger_def print_value_def dec_int_no_point dec_int_atol)
next
  case False
  have "nat (abs v) < 10 ^ 10" using v by (simp add: nat_less_iff abs_less_iff)
  then obtain ip fr where s: "print_value pt (v < 0) p v = (if v < 0 then ''-'' else '''') @ ip @ [pt] @ fr"
    "length fr = p" "\<forall>c \<in> set (ip @ fr). is_digit c" "ip \<noteq> []" "digits_value (ip @ fr) = nat (abs v)"
    using print_value_parts [of p v pt "v < 0"] p False by auto
  define sg where "sg = (if v < 0 then ''-'' else '''')"
  have dg: "\<And>c. c \<in> set (ip @ fr) \<Longrightarrow> c \<noteq> CHR ''.'' \<and> c \<noteq> CHR '',''" using s(3) digit_not_sign by blast
  have pos: "decimal_point (sg @ ip @ [pt] @ fr) = Some (length (sg @ ip))"
  proof (cases "pt = CHR ''.''")
    case True
    have "CHR ''.'' \<notin> set (sg @ ip)" using dg by (auto simp: sg_def)
    from find_first_append [OF this, of fr] show ?thesis by (simp add: True decimal_point_def)
  next
    case False
    then have "pt = CHR '',''" using pt by simp
    moreover have "CHR ''.'' \<notin> set (sg @ ip @ [CHR '',''] @ fr)" using dg by (auto simp: sg_def)
    moreover have "CHR '','' \<notin> set (sg @ ip)" using dg by (auto simp: sg_def)
    ultimately show ?thesis
      using find_first_none [of "CHR ''.''" "sg @ ip @ [CHR '',''] @ fr"] find_first_append [of "CHR '',''" "sg @ ip" fr]
      by (simp add: decimal_point_def)
  qed
  have "atol (sg @ ip @ fr) = v"
    using atol_digits [OF s(3)] s(4,5) by (auto simp: sg_def)
  moreover have "take (length (sg @ ip)) (sg @ ip @ [pt] @ fr) @ drop (length (sg @ ip) + 1) (sg @ ip @ [pt] @ fr) = sg @ ip @ fr"
    by simp
  moreover have "length (sg @ ip @ [pt] @ fr) - length (sg @ ip) - 1 = p" using s(2) by simp
  ultimately show ?thesis unfolding s(1) sg_def [symmetric] ValueToInteger_def pos by simp
qed


lemma take_bit_small: "take_bit n w = w \<longleftrightarrow> uint w < 2 ^ n" for w :: "'a :: len word"
  by (simp add: take_bit_eq_mask mask_eq_iff)

lemma high_bits_zero: "(w :: uint32) AND NOT (mask n) = 0 \<longleftrightarrow> uint w < 2 ^ n"
proof -
  have "w AND NOT (mask n) = 0 \<longleftrightarrow> take_bit n w = w"
    by (auto simp: bit_eq_iff bit_simps)
  then show ?thesis by (simp add: take_bit_small)
qed

lemma high_bits_one: "(w :: uint32) AND NOT (mask n) = NOT (mask n) \<longleftrightarrow> uint (NOT w) < 2 ^ n"
proof -
  have "w AND NOT (mask n) = NOT (mask n) \<longleftrightarrow> NOT w AND NOT (mask n) = 0"
    by (auto simp: bit_eq_iff bit_simps)
  then show ?thesis using high_bits_zero [of "NOT w"] by simp
qed

lemma value_size_int:
  assumes v: "- (2 ^ 31) \<le> v" "v < 2 ^ 31"
  shows "value_size (word_of_int v) = (if v < 0 then (if - 128 \<le> v then 1 else if - 32768 \<le> v then 2 else 4)
    else if v < 256 then 1 else if v < 65536 then 2 else 4)"
proof -
  let ?w = "word_of_int v :: uint32"
  have c: "(0xffffff80 :: uint32) = NOT (mask 7)" "(0xffff8000 :: uint32) = NOT (mask 15)"
    "(0xffffff00 :: uint32) = NOT (mask 8)" "(0xffff0000 :: uint32) = NOT (mask 16)"
    by (simp_all add: mask_eq_exp_minus_1)
  have s: "sint ?w = v" using v by (simp add: signed_of_int signed_take_bit_int_eq_self_iff)
  show ?thesis
  proof (cases "v < 0")
    case True
    have "uint (NOT ?w) = - v - 1"
    proof -
      have "NOT ?w = word_of_int (- v - 1)" by (simp add: not_eq_complement)
      then show ?thesis using True v by (simp only: uint_word_of_int_eq) (simp add: take_bit_int_eq_self_iff)
    qed
    then show ?thesis using True s unfolding value_size_def c high_bits_one by (auto simp: word_sless_alt)
  next
    case False
    then have "uint ?w = v" using v by (simp add: uint_word_of_int_eq take_bit_int_eq_self_iff)
    then show ?thesis using False s unfolding value_size_def c high_bits_zero by (auto simp: word_sless_alt)
  qed
qed

lemma header_fields:
  assumes "p < 8" "sc < 4" "sz < 8"
  shows "(push_bit 5 p OR push_bit 3 sc OR sz :: uint8) AND 0x07 = sz"
    "drop_bit 5 ((push_bit 5 p OR push_bit 3 sc OR sz :: uint8) AND 0xe0) = p"
    "drop_bit 3 ((push_bit 5 p OR push_bit 3 sc OR sz :: uint8) AND 0x18) = sc"
proof -
  have t: "take_bit 3 p = p" "take_bit 2 sc = sc" "take_bit 3 sz = sz"
    using assms by (simp_all add: take_bit_small word_less_def)
  have m: "(0x07 :: uint8) = mask 3" "(0xe0 :: uint8) = push_bit 5 (mask 3)" "(0x18 :: uint8) = push_bit 3 (mask 2)"
    by (simp_all add: mask_eq_exp_minus_1 push_bit_eq_mult)
  let ?h = "push_bit 5 (take_bit 3 p) OR push_bit 3 (take_bit 2 sc) OR take_bit 3 sz :: uint8"
  have "?h AND mask 3 = take_bit 3 sz" "drop_bit 5 (?h AND push_bit 5 (mask 3)) = take_bit 3 p"
    "drop_bit 3 (?h AND push_bit 3 (mask 2)) = take_bit 2 sc"
    by (rule bit_word_eqI, auto simp: bit_simps)+
  then show "(push_bit 5 p OR push_bit 3 sc OR sz :: uint8) AND 0x07 = sz"
    "drop_bit 5 ((push_bit 5 p OR push_bit 3 sc OR sz :: uint8) AND 0xe0) = p"
    "drop_bit 3 ((push_bit 5 p OR push_bit 3 sc OR sz :: uint8) AND 0x18) = sc"
    unfolding m t by blast+
qed

lemma extract_word_bytes:
  assumes "sz = 1 \<or> sz = 2 \<or> sz = 4"
  shows "extract_word (word_bytes sz w) = take_bit (8 * sz) w" "word_bytes sz w ! 0 AND 0x80 \<noteq> 0 \<longleftrightarrow> bit w (8 * sz - 1)"
proof -
  have l: "[0..<1] = [0 :: nat]" "[0..<2] = [0, 1 :: nat]" "[0..<4] = [0, 1, 2, 3 :: nat]" by (simp_all add: upt_rec)
  have b: "b AND 0x80 \<noteq> 0 \<longleftrightarrow> bit b 7" for b :: uint8
  proof -
    have "(0x80 :: uint8) = push_bit 7 1" by (simp add: push_bit_eq_mult)
    then show ?thesis by (simp add: bit_iff_and_push_bit_not_eq_0)
  qed
  show "extract_word (word_bytes sz w) = take_bit (8 * sz) w"
    using assms
  proof (elim disjE)
    assume "sz = 1"
    then show ?thesis unfolding word_bytes_def by (simp only: l) (simp add: extract_word_def, rule bit_word_eqI, auto simp: bit_simps)
  next
    assume "sz = 2"
    then show ?thesis unfolding word_bytes_def by (simp only: l) (simp add: extract_word_def, rule bit_word_eqI, auto simp: bit_simps)
  next
    assume "sz = 4"
    have "bit (extract_word (word_bytes 4 w)) n \<longleftrightarrow> bit w n" if "n < 32" for n
      unfolding word_bytes_def l extract_word_def using that
      by (cases "n < 8"; cases "n < 16"; cases "n < 24") (auto simp: bit_simps)
    then show ?thesis using \<open>sz = 4\<close> by (auto intro!: bit_word_eqI simp: bit_simps)
  qed
  show "word_bytes sz w ! 0 AND 0x80 \<noteq> 0 \<longleftrightarrow> bit w (8 * sz - 1)"
    unfolding b using assms by (auto simp: word_bytes_def bit_simps)
qed


lemma sint_extended:
  assumes sz: "sz = 1 \<or> sz = 2 \<or> sz = 4"
  shows "sint (if bit w (8 * sz - 1) then sign_extend sz (take_bit (8 * sz) w) else take_bit (8 * sz) w :: uint32)
    = signed_take_bit (8 * sz - 1) (sint w)"
proof -
  have m: "(0xffffff00 :: uint32) = NOT (mask 8)" "(0xffff0000 :: uint32) = NOT (mask 16)" by (simp_all add: mask_eq_exp_minus_1)
  have seven: "n = 7" if "7 \<le> n" "n < 8" for n :: nat using that by simp
  have fifteen: "n = 15" if "15 \<le> n" "n < 16" for n :: nat using that by simp
  show ?thesis using sz
    by (elim disjE; intro bit_eqI) (auto simp: sign_extend_def m bit_simps min_def dest: seven fifteen)
qed

text \<open>What a receiver makes of a number, which is sent in as few of 1, 2 and 4 bytes as hold it without a sign.\<close>

definition misread :: "int \<Rightarrow> int" where
  "misread v = (if 128 \<le> v \<and> v < 256 then v - 256 else if 32768 \<le> v \<and> v < 65536 then v - 65536 else v)"

lemma wrap_once:
  assumes "- h \<le> v" "v < 2 * h"
  shows "(v + h) mod (2 * h) - h = (if v < h then v else v - 2 * h :: int)"
proof (cases "v < h")
  case True
  then show ?thesis using assms by (simp add: mod_pos_pos_trivial)
next
  case False
  have "(v + h) mod (2 * h) = (v - h + 2 * h) mod (2 * h)" by (simp add: algebra_simps)
  also have "\<dots> = v - h" using False assms by (subst mod_add_self2) (simp add: mod_pos_pos_trivial)
  finally show ?thesis using False by simp
qed

lemma misread_signed:
  assumes v: "- (2 ^ 31) \<le> v" "v < 2 ^ 31" and sz: "sz = unat (value_size (word_of_int v))"
  shows "sz = 1 \<or> sz = 2 \<or> sz = 4" "signed_take_bit (8 * sz - 1) v = misread v"
proof -
  show s: "sz = 1 \<or> sz = 2 \<or> sz = 4" unfolding sz value_size_int [OF v] by simp
  have e: "signed_take_bit n v = (v + 2 ^ n) mod (2 * 2 ^ n) - 2 ^ n" for n
    by (simp add: signed_take_bit_eq_take_bit_shift take_bit_eq_mod)
  have "sz = 1 \<Longrightarrow> - 128 \<le> v \<and> v < 256" "sz = 2 \<Longrightarrow> - 32768 \<le> v \<and> v < 65536 \<and> (v < - 128 \<or> 256 \<le> v)"
    "sz = 4 \<Longrightarrow> v < - 32768 \<or> 65536 \<le> v"
    unfolding sz value_size_int [OF v] by (auto split: if_splits)
  then show "signed_take_bit (8 * sz - 1) v = misread v"
    using s v wrap_once [of "2 ^ 7" v] wrap_once [of "2 ^ 15" v] wrap_once [of "2 ^ 31" v]
    unfolding e misread_def by (elim disjE) (simp_all, auto)
qed

text \<open>A number sent as text and read back as text: the receiver gets the same text, scale and precision,
  whatever the sign, the precision of up to seven digits and the decimal point of the locale, except that 128
  to 255 and 32768 to 65535 are sent in too few bytes and come back 256 and 65536 lower.\<close>

theorem value_text_roundtrip:
  assumes p: "p \<le> 7" and v: "- (2 ^ 31) \<le> v" "v < 2 ^ 31" and pt: "pt = CHR ''.'' \<or> pt = CHR '',''" and sc: "scale < 4"
  shows "ExtractValue pt (value_bytes 0 (print_value pt (v < 0) p v) scale) 1 =
    Some (print_value pt (misread v < 0) p (misread v), scale, of_nat p)"
proof -
  let ?w = "word_of_int v :: uint32"
  define sz where "sz = unat (value_size ?w)"
  have s: "sz = 1 \<or> sz = 2 \<or> sz = 4" "signed_take_bit (8 * sz - 1) v = misread v" using misread_signed [OF v sz_def] by auto
  have "sint ?w = v" using v by (simp add: signed_of_int signed_take_bit_int_eq_self_iff)
  define header where "header = push_bit 5 (of_nat p) OR push_bit 3 scale OR value_size ?w"
  have "value_size ?w < 8" using s(1) by (auto simp: sz_def word_less_nat_alt)
  moreover have "(of_nat p :: uint8) < 8" using p by (simp add: word_less_nat_alt unat_of_nat)
  ultimately have h: "unat (header AND 0x07) = sz" "drop_bit 5 (header AND 0xe0) = of_nat p" "drop_bit 3 (header AND 0x18) = scale"
    using header_fields [OF _ sc] by (simp_all add: header_def sz_def)
  have b: "value_bytes 0 (print_value pt (v < 0) p v) scale = header # word_bytes sz ?w"
    unfolding value_bytes_def ValueToInteger_print [OF p v pt] by (simp add: header_def sz_def)
  have l: "length (word_bytes sz ?w) = sz" by (simp add: word_bytes_def)
  have k: "peek_block (header # word_bytes sz ?w) 1 sz = Some (word_bytes sz ?w)" "peek (header # word_bytes sz ?w) 0 = Some header"
    "peek (header # word_bytes sz ?w) 1 = Some (word_bytes sz ?w ! 0)"
    using s(1) l by (auto simp: peek_block_def peek_def)
  have neg: "word_bytes sz ?w ! 0 AND 0x80 \<noteq> 0 \<longleftrightarrow> misread v < 0"
    unfolding extract_word_bytes(2) [OF s(1)] s(2) [symmetric] using s(1) \<open>sint ?w = v\<close>
    by (auto simp: signed_take_bit_negative_iff bit_simps)
  have "sint (if misread v < 0 then sign_extend sz (extract_word (word_bytes sz ?w)) else extract_word (word_bytes sz ?w)) = misread v"
    using sint_extended [OF s(1), of ?w] neg unfolding extract_word_bytes [OF s(1)] s(2) [symmetric] \<open>sint ?w = v\<close> by simp
  then show ?thesis unfolding b ExtractValue_def k h bind.bind_lunit Let_def neg
    using p by (simp add: h unat_of_nat)
qed

theorem value_text_roundtrip_witness:
  "ExtractValue CHR ''.'' (value_bytes 0 (print_value CHR ''.'' False 1 215) 1) 1 = Some (print_value CHR ''.'' True 1 (- 41), 1, 1)"
  using value_text_roundtrip [of 1 215 "CHR ''.''" 1] by (simp add: misread_def)

lemma byte_fits: "x < 256 \<Longrightarrow> (ucast (ucast x :: uint8) :: uint32) = x"
proof -
  assume "x < 256"
  then have "take_bit 8 x = x" by (simp add: take_bit_small word_less_def)
  moreover have "(ucast (ucast x :: uint8) :: uint32) = take_bit 8 x" by (rule bit_word_eqI) (auto simp: bit_simps)
  ultimately show ?thesis by simp
qed

lemma unat_byte: "x < 256 \<Longrightarrow> unat (ucast x :: uint8) = unat x" for x :: uint32
  by (simp add: unsigned_ucast_eq take_bit_nat_eq_self_iff word_less_nat_alt)

lemma byte_le: "x < 256 \<Longrightarrow> n < 256 \<Longrightarrow> (ucast x :: uint8) \<le> ucast n \<longleftrightarrow> x \<le> (n :: uint32)"
  by (simp add: word_le_nat_alt unat_byte)

text \<open>Durations: up to 127 seconds are sent exactly; every longer one up to 7620 seconds is read back six
  minutes short, or as a number of seconds, since the code for minutes starts at 0x79 and not at 0x7f; longer
  ones are read back as unknown.\<close>

theorem duration_read_back:
  "decodeDuration (encodeDuration s) =
     (if s \<le> 127 then s else if s < 420 then 121 + s div 60 else if s \<le> 7620 then (s div 60 - 6) * 60 else - 1)"
proof -
  have low: "x AND 0xff = x" if "x < 256" for x :: uint32
  proof -
    have "(0xff :: uint32) = mask 8" by (simp add: mask_eq_exp_minus_1)
    then show ?thesis using less_mask_eq [where x = x and n = 8] that by simp
  qed
  consider "s \<le> 127" | "127 < s" "s \<le> 7620" | "7620 < s" by fastforce
  then show ?thesis
  proof cases
    case 1
    then have "s < 256" by (simp add: word_less_nat_alt word_le_nat_alt)
    then have "encodeDuration s = ucast s" "(ucast s :: uint8) \<le> 0x7f" "(ucast (ucast s :: uint8) :: uint32) = s"
      using 1 low [where x = s] byte_le [where x = s and n = "0x7f"] byte_fits [where x = s] by (simp_all add: encodeDuration_def)
    then show ?thesis using 1 by (simp add: decodeDuration_def)
  next
    case 2
    define m where "m = s div 60"
    have um: "unat m = unat s div 60" by (simp add: m_def unat_div)
    have us: "127 < unat s" "unat s \<le> 7620" using 2 by (simp_all add: word_less_nat_alt word_le_nat_alt)
    then have b: "2 \<le> unat m" "unat m \<le> 127" unfolding um by auto
    define x where "x = 0x79 + m"
    have ux: "unat x = 121 + unat m" using b(2) by (simp add: x_def unat_word_ariths)
    have x: "x < 256" using b(2) by (simp add: word_less_nat_alt ux)
    have "m < 256" using b(2) by (simp add: word_less_nat_alt)
    then have e: "encodeDuration s = ucast x" using 2 low [where x = m] by (simp add: encodeDuration_def m_def [symmetric] x_def word_less_nat_alt word_le_nat_alt)
    have c: "(ucast x :: uint8) \<le> 0x7f \<longleftrightarrow> x \<le> 0x7f" "(ucast x :: uint8) \<le> 0xfd"
      using byte_le [OF x, where n = "0x7f"] byte_le [OF x, where n = "0xfd"] b(2) by (simp_all add: word_le_nat_alt ux)
    have d: "x \<le> 0x7f \<longleftrightarrow> s < 420" using us by (simp add: word_le_nat_alt word_less_nat_alt ux um) linarith
    show ?thesis using 2 c d byte_fits [OF x]
      by (simp add: e decodeDuration_def x_def m_def [symmetric] algebra_simps not_le [symmetric])
  next
    case 3
    then have "encodeDuration s = 0xff" by (simp add: encodeDuration_def word_less_nat_alt word_le_nat_alt)
    then show ?thesis using 3 by (simp add: decodeDuration_def word_less_nat_alt word_le_nat_alt)
  qed
qed

end
