(* ===== verification/Assoc_Group.thy ===== *)
theory Assoc_Group
  imports Driver_State Ordered_Map
begin

text \<open>
  Association groups: \<open>Group.cpp\<close>, the command classes \<open>Association.cpp\<close>, \<open>MultiChannelAssociation.cpp\<close> and
  \<open>AssociationCommandConfiguration.cpp\<close>, the groups of a \<open>Node\<close> and \<open>Driver::UpdateNodeRoutes\<close>.  What these
  functions send is collected in \<open>gn_out\<close>.  \<open>None\<close> stands for a loop that never ends, a null pointer that is
  followed and a block that is freed twice.
\<close>

section \<open>Loops with an eight-bit counter\<close>

text \<open>\<open>for (uint8 i = start; i < n; ++i) body\<close>: with \<open>n\<close> above 255 it does not end.\<close>

partial_function (option) for8 :: "nat \<Rightarrow> (uint8 \<Rightarrow> 's \<Rightarrow> 's option) \<Rightarrow> uint8 \<Rightarrow> 's \<Rightarrow> 's option" where
  "for8 n body i s = (if unat i < n then Option.bind (body i s) (for8 n body (i + 1)) else Some s)"

section \<open>Associations\<close>

datatype instance_association = InstanceAssociation (ia_nodeId: uint8) (ia_instance: uint8)

text \<open>The order \<open>classcomp\<close>.\<close>

instantiation instance_association :: linorder
begin

definition less_instance_association :: "instance_association \<Rightarrow> instance_association \<Rightarrow> bool" where
  "less_instance_association l r \<longleftrightarrow>
     (if ia_nodeId l = ia_nodeId r then ia_instance l < ia_instance r else ia_nodeId l < ia_nodeId r)"

definition less_eq_instance_association :: "instance_association \<Rightarrow> instance_association \<Rightarrow> bool" where
  "less_eq_instance_association l r \<longleftrightarrow> l < r \<or> l = r"

instance
proof
  fix x y z :: instance_association
  show "(x < y) = (x \<le> y \<and> \<not> y \<le> x)" "x \<le> x"
    by (auto simp: less_instance_association_def less_eq_instance_association_def split: if_splits)
  show "x \<le> z" if "x \<le> y" "y \<le> z"
    using that by (auto simp: less_instance_association_def less_eq_instance_association_def split: if_splits)
  show "x = y" if "x \<le> y" "y \<le> x"
    using that by (auto simp: less_instance_association_def less_eq_instance_association_def split: if_splits)
  show "x \<le> y \<or> y \<le> x"
    by (cases x; cases y) (auto simp: less_instance_association_def less_eq_instance_association_def)
qed

end

text \<open>An association command is the address of the block its data is in.\<close>

type_synonym associations = "(instance_association \<times> nat list) list"

record group =
  g_label :: string
  g_groupIdx :: uint8
  g_maxAssociations :: uint8
  g_auto :: bool
  g_multiInstance :: bool
  g_associations :: associations

text \<open>The state of the classes \<open>Association\<close> (\<open>'a\<close> is a node id) and \<open>MultiChannelAssociation\<close>.\<close>

record 'a assoc_class =
  as_getSupported :: bool
  as_staticValues :: bool
  as_queryAll :: bool
  as_currentGroupQuery :: uint8
  as_numGroups :: uint8
  as_pendingMembers :: "'a list"

datatype assoc_out =
  Out_Msg msg msg_queue
| Out_Group uint8
| Out_Controller controller_command uint8 uint8

text \<open>
  A node as far as its groups are concerned.  \<open>gn_commandConfig\<close> is the flag \<open>GETSUPPORTED\<close> of the class
  \<open>AssociationCommandConfiguration\<close> if the node has it; \<open>gn_live\<close> are the allocated blocks.
\<close>

record group_node =
  gn_id :: uint8
  gn_basic :: uint8
  gn_groups :: "(uint8 \<times> group) list"
  gn_assoc :: "uint8 assoc_class option"
  gn_mca :: "instance_association assoc_class option"
  gn_forceInstances :: bool
  gn_hasMultiInstance :: bool
  gn_commandConfig :: "bool option"
  gn_numRouteNodes :: uint8
  gn_routeNodes :: bytes
  gn_live :: "nat set"
  gn_next :: nat
  gn_out :: "assoc_out list"

text \<open>The driver's node id and transmit options, and the options \<open>Associate\<close> and \<open>PerformReturnRoutes\<close>.\<close>

record group_env =
  ge_controllerNodeId :: uint8
  ge_transmitOptions :: uint8
  ge_associate :: bool
  ge_returnRoutes :: bool

abbreviation CC_ASSOCIATION :: uint8 where "CC_ASSOCIATION \<equiv> 0x85"
abbreviation CC_MULTI_CHANNEL_ASSOCIATION :: uint8 where "CC_MULTI_CHANNEL_ASSOCIATION \<equiv> 0x8e"
abbreviation CC_ASSOCIATION_COMMAND_CONFIGURATION :: uint8 where "CC_ASSOCIATION_COMMAND_CONFIGURATION \<equiv> 0x9b"
abbreviation AssociationCmd_Set :: uint8 where "AssociationCmd_Set \<equiv> 0x01"
abbreviation AssociationCmd_Get :: uint8 where "AssociationCmd_Get \<equiv> 0x02"
abbreviation AssociationCmd_Report :: uint8 where "AssociationCmd_Report \<equiv> 0x03"
abbreviation AssociationCmd_Remove :: uint8 where "AssociationCmd_Remove \<equiv> 0x04"
abbreviation AssociationCmd_GroupingsGet :: uint8 where "AssociationCmd_GroupingsGet \<equiv> 0x05"
abbreviation AssociationCmd_GroupingsReport :: uint8 where "AssociationCmd_GroupingsReport \<equiv> 0x06"

definition emit :: "assoc_out \<Rightarrow> group_node \<Rightarrow> group_node" where
  "emit x n = n\<lparr>gn_out := gn_out n @ [x]\<rparr>"

text \<open>A message that expects a report, and one that does not.\<close>

definition query_msg :: "string \<Rightarrow> uint8 \<Rightarrow> bytes \<Rightarrow> group_env \<Rightarrow> group_node \<Rightarrow> msg" where
  "query_msg txt cc payload env n =
     fold Append ([gn_id n] @ payload @ [ge_transmitOptions env])
       (Msg_new txt (gn_id n) REQUEST FUNC_ID_ZW_SEND_DATA True True FUNC_ID_APPLICATION_COMMAND_HANDLER cc)"

definition command_msg :: "string \<Rightarrow> bytes \<Rightarrow> group_env \<Rightarrow> group_node \<Rightarrow> msg" where
  "command_msg txt payload env n =
     fold Append ([gn_id n] @ payload @ [ge_transmitOptions env])
       (Msg_new txt (gn_id n) REQUEST FUNC_ID_ZW_SEND_DATA True False 0 0)"

section \<open>The groups of a node\<close>

definition Node_GetGroup :: "uint8 \<Rightarrow> group_node \<Rightarrow> group option" where
  "Node_GetGroup idx n = map_of (gn_groups n) idx"

definition update_group :: "uint8 \<Rightarrow> (group \<Rightarrow> group) \<Rightarrow> group_node \<Rightarrow> group_node" where
  "update_group idx f n =
     (case Node_GetGroup idx n of None \<Rightarrow> n | Some g \<Rightarrow> n\<lparr>gn_groups := m_insert idx (f g) (gn_groups n)\<rparr>)"

text \<open>Deleting commands frees their blocks.\<close>

fun delete_blocks :: "nat list \<Rightarrow> nat set \<Rightarrow> nat set option" where
  "delete_blocks [] live = Some live"
| "delete_blocks (a # as) live = (if a \<in> live then delete_blocks as (live - {a}) else None)"

definition Node_AddGroup :: "group \<Rightarrow> group_node \<Rightarrow> group_node option" where
  "Node_AddGroup g n = do {
     live \<leftarrow> (case Node_GetGroup (g_groupIdx g) n of
         None \<Rightarrow> Some (gn_live n)
       | Some old \<Rightarrow> delete_blocks (concat (map snd (g_associations old))) (gn_live n));
     Some (n\<lparr>gn_groups := m_insert (g_groupIdx g) g (m_erase (g_groupIdx g) (gn_groups n)), gn_live := live\<rparr>)
   }"

definition Node_GetNumGroups :: "group_node \<Rightarrow> uint8" where
  "Node_GetNumGroups n = of_nat (length (gn_groups n))"

definition Node_GetMaxAssociations :: "uint8 \<Rightarrow> group_node \<Rightarrow> uint8" where
  "Node_GetMaxAssociations idx n = (case Node_GetGroup idx n of None \<Rightarrow> 0 | Some g \<Rightarrow> g_maxAssociations g)"

definition Node_IsMultiInstance :: "uint8 \<Rightarrow> group_node \<Rightarrow> bool" where
  "Node_IsMultiInstance idx n = (case Node_GetGroup idx n of None \<Rightarrow> False | Some g \<Rightarrow> g_multiInstance g)"

definition Node_GetGroupLabel :: "uint8 \<Rightarrow> group_node \<Rightarrow> string" where
  "Node_GetGroupLabel idx n = (case Node_GetGroup idx n of None \<Rightarrow> '''' | Some g \<Rightarrow> g_label g)"

definition Group_Contains :: "uint8 \<Rightarrow> uint8 \<Rightarrow> group \<Rightarrow> bool" where
  "Group_Contains nid ep g =
     (\<exists>e \<in> set (g_associations g). ia_nodeId (fst e) = nid \<and> ia_instance (fst e) = ep)"

text \<open>The two getters: the nodes associated without an end point, and all associations.\<close>

definition Group_GetAssociations :: "group \<Rightarrow> uint8 list" where
  "Group_GetAssociations g = map (ia_nodeId \<circ> fst) (filter (\<lambda>e. ia_instance (fst e) = 0) (g_associations g))"

definition Group_GetInstanceAssociations :: "group \<Rightarrow> instance_association list" where
  "Group_GetInstanceAssociations g = map fst (g_associations g)"

definition Node_GetInstanceAssociations :: "uint8 \<Rightarrow> group_node \<Rightarrow> instance_association list" where
  "Node_GetInstanceAssociations idx n =
     (case Node_GetGroup idx n of None \<Rightarrow> [] | Some g \<Rightarrow> Group_GetInstanceAssociations g)"

definition CheckAuto :: "uint8 \<Rightarrow> group_node \<Rightarrow> bool \<times> group_node" where
  "CheckAuto idx n =
     (if idx = 255 then (True, n)
      else if idx = 1 then (True, update_group 255 (\<lambda>g. g\<lparr>g_auto := False\<rparr>) n)
      else (False, n))"

definition Group_new :: "uint8 \<Rightarrow> uint8 \<Rightarrow> group_node \<Rightarrow> group \<times> group_node" where
  "Group_new idx maxAssociations n =
     (let (auto, n1) = CheckAuto idx n
      in (\<lparr>g_label = ''Group '' @ dec_nat (unat idx), g_groupIdx = idx, g_maxAssociations = maxAssociations,
           g_auto = auto, g_multiInstance = False, g_associations = []\<rparr>, n1))"

section \<open>Commands of a group\<close>

text \<open>
  \<open>push_back\<close> gets a temporary that owns a new block; the vector copies the address and the temporary frees
  the block.  When the vector grows (\<open>regrow\<close> says at which lengths) it copies and destroys its elements.
\<close>

definition AddCommand :: "(nat \<Rightarrow> bool) \<Rightarrow> uint8 \<Rightarrow> uint8 \<Rightarrow> uint8 \<Rightarrow> group_node \<Rightarrow> (bool \<times> group_node) option" where
  "AddCommand regrow idx nid ep n = do {
     g \<leftarrow> Node_GetGroup idx n;
     case map_of (g_associations g) (InstanceAssociation nid ep) of
       None \<Rightarrow> Some (False, n)
     | Some cmds \<Rightarrow> do {
         let block = gn_next n;
         let live = insert block (gn_live n);
         live1 \<leftarrow> (if regrow (length cmds) then delete_blocks cmds live else Some live);
         live2 \<leftarrow> delete_blocks [block] live1;
         let put = (\<lambda>g. g\<lparr>g_associations := m_insert (InstanceAssociation nid ep) (cmds @ [block]) (g_associations g)\<rparr>);
         Some (True, (update_group idx put n)\<lparr>gn_live := live2, gn_next := Suc block\<rparr>)
       }
   }"

definition ClearCommands :: "uint8 \<Rightarrow> uint8 \<Rightarrow> uint8 \<Rightarrow> group_node \<Rightarrow> (bool \<times> group_node) option" where
  "ClearCommands idx nid ep n = do {
     g \<leftarrow> Node_GetGroup idx n;
     case map_of (g_associations g) (InstanceAssociation nid ep) of
       None \<Rightarrow> Some (False, n)
     | Some cmds \<Rightarrow> do {
         live \<leftarrow> delete_blocks cmds (gn_live n);
         let clr = (\<lambda>g. g\<lparr>g_associations := m_insert (InstanceAssociation nid ep) [] (g_associations g)\<rparr>);
         Some (True, (update_group idx clr n)\<lparr>gn_live := live\<rparr>)
       }
   }"

text \<open>\<open>RequestCommands\<close> asks for the commands of one node in a group.\<close>

definition RequestCommands :: "group_env \<Rightarrow> bool \<Rightarrow> uint8 \<Rightarrow> uint8 \<Rightarrow> group_node \<Rightarrow> group_node" where
  "RequestCommands env getSupported idx nid n =
     (if getSupported
      then emit (Out_Msg (query_msg ''AssociationCommandConfigurationCmd_Get'' CC_ASSOCIATION_COMMAND_CONFIGURATION
             [4, CC_ASSOCIATION_COMMAND_CONFIGURATION, 0x04, idx, nid] env n) MsgQueue_Send) n
      else n)"

text \<open>
  A report of commands: the test of the group is the wrong way round, so the commands of a known group are not
  stored and those of an unknown group are stored through a null pointer.
\<close>

definition AssociationCommandConfiguration_HandleReport :: "bytes \<Rightarrow> group_node \<Rightarrow> (bool \<times> group_node) option" where
  "AssociationCommandConfiguration_HandleReport data n =
     (let firstReports = (data ! 3 AND 0x80 \<noteq> 0); numReports = data ! 3 AND 0x0f
      in if Node_GetGroup (data ! 1) n = None \<and> (firstReports \<or> 0 < numReports) then None else Some (True, n))"

section \<open>Return routes\<close>

text \<open>A node that is not in the list is added while there is room for five.\<close>

definition add_route :: "uint8 \<Rightarrow> bytes \<Rightarrow> bytes" where
  "add_route x ns = (if x \<in> set ns \<or> 5 \<le> length ns then ns else ns @ [x])"

partial_function (option) route_groups :: "group_node \<Rightarrow> uint8 \<Rightarrow> uint8 \<Rightarrow> bytes \<Rightarrow> bytes option" where
  "route_groups n numGroups i ns =
     (if i \<le> numGroups \<and> length ns < 5
      then let associations = Node_GetInstanceAssociations i n
           in Option.bind (for8 (length associations) (\<lambda>j ns. Some (add_route (ia_nodeId (associations ! unat j)) ns)) 0 ns)
                (route_groups n numGroups (i + 1))
      else Some ns)"

definition UpdateNodeRoutes :: "bool \<Rightarrow> group_node \<Rightarrow> group_node option" where
  "UpdateNodeRoutes doUpdate n =
     (if gn_basic n = 0x04 then do {
        ns \<leftarrow> route_groups n (Node_GetNumGroups n) 1 [];
        let nodes = ns @ replicate (5 - length ns) 0;
        if doUpdate \<or> of_nat (length ns) \<noteq> gn_numRouteNodes n \<or> nodes \<noteq> gn_routeNodes n then do {
          let n1 = emit (Out_Controller ControllerCommand_DeleteAllReturnRoutes (gn_id n) 0) n;
          let n2 = fold (\<lambda>x. emit (Out_Controller ControllerCommand_AssignReturnRoute (gn_id n) x)) ns n1;
          Some (n2\<lparr>gn_numRouteNodes := of_nat (length ns), gn_routeNodes := nodes\<rparr>)
        } else Some n
      } else Some n)"

section \<open>The members of a group\<close>

definition clear_members :: "associations \<Rightarrow> nat set \<Rightarrow> (associations \<times> nat set) option" where
  "clear_members m live = map_option (Pair []) (delete_blocks (concat (map snd m)) live)"

text \<open>The loop \<open>m_associations[_associations[i]] = AssociationCommandVec()\<close>.\<close>

definition assign_member :: "instance_association \<Rightarrow> associations \<times> nat set \<Rightarrow> (associations \<times> nat set) option" where
  "assign_member x = (\<lambda>(m, live).
     map_option (Pair (m_insert x [] m)) (delete_blocks (case map_of m x of None \<Rightarrow> [] | Some cmds \<Rightarrow> cmds) live))"

definition assign_members :: "instance_association list \<Rightarrow> associations \<times> nat set \<Rightarrow> (associations \<times> nat set) option" where
  "assign_members xs = for8 (length xs) (\<lambda>i. assign_member (xs ! unat i)) 0"

text \<open>What \<open>OnGroupChanged\<close> makes of the members, and whether it notifies.\<close>

definition change_members ::
  "instance_association list \<Rightarrow> associations \<times> nat set \<Rightarrow> (associations \<times> nat set \<times> bool) option" where
  "change_members xs = (\<lambda>(old, live). do {
     let differs = (length xs \<noteq> length old);
     let notify = (differs \<or> xs = []);
     s1 \<leftarrow> (if differs then clear_members old live else Some (old, live));
     let oldSize = (of_nat (length (fst s1)) :: uint8);
     s2 \<leftarrow> assign_members xs s1;
     if \<not> notify \<and> unat oldSize \<noteq> length (fst s2) then do {
       s3 \<leftarrow> clear_members (fst s2) (snd s2);
       s4 \<leftarrow> assign_members xs s3;
       Some (fst s4, snd s4, True)
     } else Some (fst s2, snd s2, notify)
   })"

definition OnGroupChanged :: "group_env \<Rightarrow> uint8 \<Rightarrow> instance_association list \<Rightarrow> group_node \<Rightarrow> group_node option" where
  "OnGroupChanged env idx xs n = do {
     g \<leftarrow> Node_GetGroup idx n;
     (m, live, notify) \<leftarrow> change_members xs (g_associations g, gn_live n);
     let n1 = (update_group idx (\<lambda>g. g\<lparr>g_associations := m\<rparr>) n)\<lparr>gn_live := live\<rparr>;
     if notify then do {
       let n2 = (case gn_commandConfig n of
           None \<Rightarrow> n1
         | Some getSupported \<Rightarrow> fold (\<lambda>e. RequestCommands env getSupported idx (ia_nodeId (fst e))) m n1);
       let n3 = emit (Out_Group idx) n2;
       if ge_returnRoutes env then UpdateNodeRoutes False n3 else Some n3
     } else Some n1
   }"

definition OnGroupChanged_nodes :: "group_env \<Rightarrow> uint8 \<Rightarrow> uint8 list \<Rightarrow> group_node \<Rightarrow> group_node option" where
  "OnGroupChanged_nodes env idx xs n = do {
     members \<leftarrow> for8 (length xs) (\<lambda>i acc. Some (acc @ [InstanceAssociation (xs ! unat i) 0])) 0 [];
     OnGroupChanged env idx members n
   }"

section \<open>The class Association\<close>

definition map_assoc :: "(uint8 assoc_class \<Rightarrow> uint8 assoc_class) \<Rightarrow> group_node \<Rightarrow> group_node" where
  "map_assoc f n = n\<lparr>gn_assoc := map_option f (gn_assoc n)\<rparr>"

definition Association_RequestValue :: "group_env \<Rightarrow> uint8 \<Rightarrow> msg_queue \<Rightarrow> group_node \<Rightarrow> bool \<times> group_node" where
  "Association_RequestValue env inst q n =
     (if inst \<noteq> 1 then (False, n)
      else (True, emit (Out_Msg (query_msg ''AssociationCmd_GroupingsGet'' CC_ASSOCIATION
              [2, CC_ASSOCIATION, AssociationCmd_GroupingsGet] env n) q) n))"

definition Association_RequestState :: "group_env \<Rightarrow> uint32 \<Rightarrow> uint8 \<Rightarrow> msg_queue \<Rightarrow> group_node \<Rightarrow> bool \<times> group_node" where
  "Association_RequestState env flags inst q n =
     (case gn_assoc n of
        Some c \<Rightarrow> if flags AND 0x01 \<noteq> 0 \<and> as_staticValues c then Association_RequestValue env inst q n else (False, n)
      | None \<Rightarrow> (False, n))"

definition Association_QueryGroup :: "group_env \<Rightarrow> uint8 \<Rightarrow> group_node \<Rightarrow> group_node" where
  "Association_QueryGroup env idx n =
     (case gn_assoc n of
        None \<Rightarrow> n
      | Some c \<Rightarrow>
          if as_getSupported c then
            (let n1 = emit (Out_Msg (query_msg ''AssociationCmd_Get'' CC_ASSOCIATION
                   [3, CC_ASSOCIATION, AssociationCmd_Get, idx] env n) MsgQueue_Send) n
             in if as_queryAll c then map_assoc (\<lambda>c. c\<lparr>as_currentGroupQuery := idx\<rparr>) n1 else n1)
          else n)"

definition Association_RequestAllGroups :: "group_env \<Rightarrow> group_node \<Rightarrow> group_node" where
  "Association_RequestAllGroups env n =
     (let n1 = map_assoc (\<lambda>c. c\<lparr>as_queryAll := True\<rparr>) n
      in case gn_assoc n1 of
           None \<Rightarrow> n
         | Some c \<Rightarrow> Association_QueryGroup env (if as_numGroups c = 0xff then 0xff else 1) n1)"

definition Association_Set :: "group_env \<Rightarrow> uint8 \<Rightarrow> uint8 \<Rightarrow> group_node \<Rightarrow> group_node" where
  "Association_Set env idx target n =
     emit (Out_Msg (command_msg ''AssociationCmd_Set'' [4, CC_ASSOCIATION, AssociationCmd_Set, idx, target] env n) MsgQueue_Send) n"

definition Association_Remove :: "group_env \<Rightarrow> uint8 \<Rightarrow> uint8 \<Rightarrow> group_node \<Rightarrow> group_node" where
  "Association_Remove env idx target n =
     emit (Out_Msg (command_msg ''AssociationCmd_Remove'' [4, CC_ASSOCIATION, AssociationCmd_Remove, idx, target] env n) MsgQueue_Send) n"

section \<open>The class MultiChannelAssociation\<close>

definition map_mca ::
  "(instance_association assoc_class \<Rightarrow> instance_association assoc_class) \<Rightarrow> group_node \<Rightarrow> group_node" where
  "map_mca f n = n\<lparr>gn_mca := map_option f (gn_mca n)\<rparr>"

definition MultiChannelAssociation_RequestValue :: "group_env \<Rightarrow> uint8 \<Rightarrow> msg_queue \<Rightarrow> group_node \<Rightarrow> bool \<times> group_node" where
  "MultiChannelAssociation_RequestValue env ep q n =
     (if ep \<noteq> 1 then (False, n)
      else (True, emit (Out_Msg (query_msg ''MultiChannelAssociationCmd_GroupingsGet'' CC_MULTI_CHANNEL_ASSOCIATION
              [2, CC_MULTI_CHANNEL_ASSOCIATION, AssociationCmd_GroupingsGet] env n) q) n))"

definition MultiChannelAssociation_QueryGroup :: "group_env \<Rightarrow> uint8 \<Rightarrow> group_node \<Rightarrow> group_node" where
  "MultiChannelAssociation_QueryGroup env idx n =
     (case gn_mca n of
        None \<Rightarrow> n
      | Some c \<Rightarrow>
          if as_getSupported c then
            (let n1 = emit (Out_Msg (query_msg ''MultiChannelAssociationCmd_Get'' CC_MULTI_CHANNEL_ASSOCIATION
                   [3, CC_MULTI_CHANNEL_ASSOCIATION, AssociationCmd_Get, idx] env n) MsgQueue_Send) n
             in if as_queryAll c then map_mca (\<lambda>c. c\<lparr>as_currentGroupQuery := idx\<rparr>) n1 else n1)
          else n)"

definition MultiChannelAssociation_RequestAllGroups :: "group_env \<Rightarrow> group_node \<Rightarrow> group_node" where
  "MultiChannelAssociation_RequestAllGroups env n =
     (let n1 = map_mca (\<lambda>c. c\<lparr>as_queryAll := True\<rparr>) n
      in case gn_mca n1 of
           None \<Rightarrow> n
         | Some c \<Rightarrow> MultiChannelAssociation_QueryGroup env (if as_numGroups c = 0xff then 0xff else 1) n1)"

definition end_point_payload :: "uint8 \<Rightarrow> uint8 \<Rightarrow> uint8 \<Rightarrow> uint8 \<Rightarrow> bytes" where
  "end_point_payload cmd idx target ep =
     (if ep = 0 then [4, CC_MULTI_CHANNEL_ASSOCIATION, cmd, idx, target]
      else [6, CC_MULTI_CHANNEL_ASSOCIATION, cmd, idx, 0, target, ep])"

text \<open>The controller is always associated by its end point when the compatibility flag asks for it.\<close>

definition MultiChannelAssociation_Set :: "group_env \<Rightarrow> uint8 \<Rightarrow> uint8 \<Rightarrow> uint8 \<Rightarrow> group_node \<Rightarrow> group_node" where
  "MultiChannelAssociation_Set env idx target ep n =
     (let ep' = (if gn_forceInstances n \<and> ep = 0 \<and> ge_controllerNodeId env = target then 1 else ep)
      in emit (Out_Msg (command_msg ''MultiChannelAssociationCmd_Set'' (end_point_payload AssociationCmd_Set idx target ep') env n)
           MsgQueue_Send) n)"

definition MultiChannelAssociation_Remove :: "group_env \<Rightarrow> uint8 \<Rightarrow> uint8 \<Rightarrow> uint8 \<Rightarrow> group_node \<Rightarrow> group_node" where
  "MultiChannelAssociation_Remove env idx target ep n =
     emit (Out_Msg (command_msg ''MultiChannelAssociationCmd_Remove'' (end_point_payload AssociationCmd_Remove idx target ep) env n)
       MsgQueue_Send) n"

section \<open>Changing associations\<close>

definition Group_AddAssociation :: "group_env \<Rightarrow> group \<Rightarrow> uint8 \<Rightarrow> uint8 \<Rightarrow> group_node \<Rightarrow> group_node" where
  "Group_AddAssociation env g nid ep n =
     (let idx = g_groupIdx g
      in if nid = 255 then n
         else if gn_mca n \<noteq> None \<and> g_multiInstance g \<and> gn_hasMultiInstance n
         then MultiChannelAssociation_QueryGroup env idx (MultiChannelAssociation_Set env idx nid ep n)
         else if gn_assoc n \<noteq> None
         then Association_QueryGroup env idx (Association_Set env idx nid n)
         else n)"

definition Group_RemoveAssociation :: "group_env \<Rightarrow> group \<Rightarrow> uint8 \<Rightarrow> uint8 \<Rightarrow> group_node \<Rightarrow> group_node" where
  "Group_RemoveAssociation env g nid ep n =
     (let idx = g_groupIdx g
      in if gn_mca n \<noteq> None \<and> g_multiInstance g
         then MultiChannelAssociation_QueryGroup env idx (MultiChannelAssociation_Remove env idx nid ep n)
         else if gn_assoc n \<noteq> None
         then Association_QueryGroup env idx (Association_Remove env idx nid n)
         else n)"

definition Node_AddAssociation :: "group_env \<Rightarrow> uint8 \<Rightarrow> uint8 \<Rightarrow> uint8 \<Rightarrow> group_node \<Rightarrow> group_node" where
  "Node_AddAssociation env idx nid ep n =
     (case Node_GetGroup idx n of None \<Rightarrow> n | Some g \<Rightarrow> Group_AddAssociation env g nid ep n)"

definition Node_RemoveAssociation :: "group_env \<Rightarrow> uint8 \<Rightarrow> uint8 \<Rightarrow> uint8 \<Rightarrow> group_node \<Rightarrow> group_node" where
  "Node_RemoveAssociation env idx nid ep n =
     (case Node_GetGroup idx n of None \<Rightarrow> n | Some g \<Rightarrow> Group_RemoveAssociation env g nid ep n)"

definition auto_associate_one :: "group_env \<Rightarrow> group \<Rightarrow> group_node \<Rightarrow> group_node" where
  "auto_associate_one env g n =
     (if g_auto g \<and> \<not> Group_Contains (ge_controllerNodeId env) 0 g
      then Group_AddAssociation env g (ge_controllerNodeId env) 0 n else n)"

definition AutoAssociate :: "group_env \<Rightarrow> group_node \<Rightarrow> group_node" where
  "AutoAssociate env n =
     (if ge_associate env then fold (\<lambda>(idx, g). auto_associate_one env g) (gn_groups n) n else n)"

section \<open>Reports\<close>

text \<open>The group a report is about, created when the node does not have it.\<close>

definition ensure_group :: "uint8 \<Rightarrow> uint8 \<Rightarrow> group_node \<Rightarrow> group_node option" where
  "ensure_group idx maxAssociations n =
     (case Node_GetGroup idx n of
        Some g \<Rightarrow> Some n
      | None \<Rightarrow> (let (g, n1) = Group_new idx maxAssociations n in Node_AddGroup g n1))"

text \<open>The group to ask for next.\<close>

definition next_group :: "uint8 \<Rightarrow> uint8" where
  "next_group current = (if current + 1 = 0 then 1 else current + 1)"

definition Association_continue :: "group_env \<Rightarrow> group_node \<Rightarrow> group_node" where
  "Association_continue env n =
     (case gn_assoc n of
        None \<Rightarrow> n
      | Some c \<Rightarrow>
          if as_queryAll c then
            (if next_group (as_currentGroupQuery c) \<le> as_numGroups c
             then Association_QueryGroup env (next_group (as_currentGroupQuery c)) n
             else map_assoc (\<lambda>c. c\<lparr>as_queryAll := False, as_currentGroupQuery := 0\<rparr>) (AutoAssociate env n))
          else n)"

definition Association_members :: "bytes \<Rightarrow> uint32 \<Rightarrow> bytes option" where
  "Association_members data len = (if 5 \<le> len then peek_block data 4 (unat (ucast (len - 5) :: uint8)) else Some [])"

definition Association_HandleReport :: "group_env \<Rightarrow> bytes \<Rightarrow> uint32 \<Rightarrow> group_node \<Rightarrow> group_node option" where
  "Association_HandleReport env data len n = do {
     groupIdx \<leftarrow> peek data 1;
     maxAssociations \<leftarrow> peek data 2;
     numReportsToFollow \<leftarrow> peek data 3;
     if groupIdx = 0 then Some (Association_continue env n)
     else if maxAssociations = 0
     then Some (Association_continue env (map_assoc (\<lambda>c. c\<lparr>as_queryAll := False\<rparr>) (AutoAssociate env n)))
     else do {
       members \<leftarrow> Association_members data len;
       let n1 = map_assoc (\<lambda>c. c\<lparr>as_pendingMembers := as_pendingMembers c @ members\<rparr>) n;
       if numReportsToFollow \<noteq> 0 then Some n1
       else do {
         n2 \<leftarrow> ensure_group groupIdx maxAssociations n1;
         c \<leftarrow> gn_assoc n2;
         n3 \<leftarrow> OnGroupChanged_nodes env groupIdx (as_pendingMembers c) n2;
         Some (Association_continue env (map_assoc (\<lambda>c. c\<lparr>as_pendingMembers := []\<rparr>) n3))
       }
     }
   }"

definition Association_HandleMsg :: "group_env \<Rightarrow> bytes \<Rightarrow> uint32 \<Rightarrow> group_node \<Rightarrow> (bool \<times> group_node) option" where
  "Association_HandleMsg env data len n = do {
     cmd \<leftarrow> peek data 0;
     if cmd = AssociationCmd_GroupingsReport then do {
       k \<leftarrow> peek data 1;
       Some (True, map_assoc (\<lambda>c. c\<lparr>as_numGroups := k, as_staticValues := False\<rparr>) n)
     }
     else if cmd = AssociationCmd_Report then map_option (Pair True) (Association_HandleReport env data len n)
     else Some (False, n)
   }"

definition MultiChannelAssociation_continue :: "group_env \<Rightarrow> group_node \<Rightarrow> group_node" where
  "MultiChannelAssociation_continue env n =
     (case gn_mca n of
        None \<Rightarrow> n
      | Some c \<Rightarrow>
          if as_queryAll c then
            (if next_group (as_currentGroupQuery c) \<le> as_numGroups c
             then MultiChannelAssociation_QueryGroup env (next_group (as_currentGroupQuery c)) n
             else map_mca (\<lambda>c. c\<lparr>as_queryAll := False, as_currentGroupQuery := 0\<rparr>) (AutoAssociate env n))
          else n)"

text \<open>
  The members of a report: node ids, a zero, then node ids and end points.  \<open>next\<close> is the byte after the list,
  which is taken as an end point when the list ends with a node id.
\<close>

fun end_point_members :: "uint8 \<Rightarrow> bool \<Rightarrow> bytes \<Rightarrow> instance_association list" where
  "end_point_members nx past [] = []"
| "end_point_members nx past (x # xs) =
     (if x = 0 then end_point_members nx True xs
      else if \<not> past then InstanceAssociation x 0 # end_point_members nx past xs
      else case xs of
             [] \<Rightarrow> [InstanceAssociation x nx]
           | y # ys \<Rightarrow> InstanceAssociation x y # end_point_members nx past ys)"

text \<open>The count of the loop, \<open>_length - 5\<close>, has 32 bits here.\<close>

definition MultiChannelAssociation_members :: "bytes \<Rightarrow> uint32 \<Rightarrow> instance_association list option" where
  "MultiChannelAssociation_members data len =
     (if 5 \<le> len then do {
        bs \<leftarrow> peek_block data 4 (unat len - 5);
        nx \<leftarrow> peek data (unat len - 1);
        Some (end_point_members nx False bs)
      } else Some [])"

definition MultiChannelAssociation_HandleReport :: "group_env \<Rightarrow> bytes \<Rightarrow> uint32 \<Rightarrow> group_node \<Rightarrow> group_node option" where
  "MultiChannelAssociation_HandleReport env data len n = do {
     groupIdx \<leftarrow> peek data 1;
     maxAssociations \<leftarrow> peek data 2;
     numReportsToFollow \<leftarrow> peek data 3;
     if groupIdx = 0 then Some (MultiChannelAssociation_continue env n)
     else if maxAssociations = 0
     then Some (MultiChannelAssociation_continue env (map_mca (\<lambda>c. c\<lparr>as_queryAll := False\<rparr>) (AutoAssociate env n)))
     else do {
       members \<leftarrow> MultiChannelAssociation_members data len;
       let n1 = map_mca (\<lambda>c. c\<lparr>as_pendingMembers := as_pendingMembers c @ members\<rparr>) n;
       if numReportsToFollow \<noteq> 0 then Some n1
       else do {
         n2 \<leftarrow> ensure_group groupIdx maxAssociations n1;
         let n3 = update_group groupIdx (\<lambda>g. g\<lparr>g_multiInstance := True\<rparr>) n2;
         c \<leftarrow> gn_mca n3;
         n4 \<leftarrow> OnGroupChanged env groupIdx (as_pendingMembers c) n3;
         Some (MultiChannelAssociation_continue env (map_mca (\<lambda>c. c\<lparr>as_pendingMembers := []\<rparr>) n4))
       }
     }
   }"

definition MultiChannelAssociation_HandleMsg :: "group_env \<Rightarrow> bytes \<Rightarrow> uint32 \<Rightarrow> group_node \<Rightarrow> (bool \<times> group_node) option" where
  "MultiChannelAssociation_HandleMsg env data len n = do {
     cmd \<leftarrow> peek data 0;
     if cmd = AssociationCmd_GroupingsReport then do {
       k \<leftarrow> peek data 1;
       Some (True, map_mca (\<lambda>c. c\<lparr>as_numGroups := k, as_staticValues := False\<rparr>) n)
     }
     else if cmd = AssociationCmd_Report then map_option (Pair True) (MultiChannelAssociation_HandleReport env data len n)
     else Some (False, n)
   }"

end
