(* ===== verification/Assoc_Laws.thy ===== *)
theory Assoc_Laws
  imports Assoc_Group
begin

text \<open>
  What the association groups promise: the members a report leaves in a group, the routes assigned from the
  groups, and the walk over the groups of a node, stated once as a locale for both association classes.
\<close>

section \<open>Loops with an eight-bit counter\<close>

lemma for8_from:
  assumes n: "n < 256" and step: "\<And>i s. unat i < n \<Longrightarrow> P s \<Longrightarrow> body i s = Some (f i s) \<and> P (f i s)"
  shows "P s \<Longrightarrow> unat i \<le> n \<Longrightarrow> for8 n body i s = Some (fold (\<lambda>k. f (of_nat k)) [unat i..<n] s) \<and> P (fold (\<lambda>k. f (of_nat k)) [unat i..<n] s)"
proof (induction "n - unat i" arbitrary: i s)
  case 0
  then show ?case by (simp add: for8.simps)
next
  case (Suc k)
  then have lt: "unat i < n" by simp
  then have u: "unat (i + 1) = Suc (unat i)" using n by (simp add: unat_word_ariths)
  have "for8 n body (i + 1) (f i s) = Some (fold (\<lambda>k. f (of_nat k)) [unat (i + 1)..<n] (f i s)) \<and>
      P (fold (\<lambda>k. f (of_nat k)) [unat (i + 1)..<n] (f i s))"
    using Suc lt u step by (intro Suc.hyps(1)) auto
  moreover have "for8 n body i s = for8 n body (i + 1) (f i s)" using step [OF lt Suc.prems(1)] lt by (subst for8.simps) simp
  ultimately show ?case using lt by (simp add: u upt_conv_Cons)
qed

lemma for8_inv:
  assumes "n < 256" "P s" "\<And>i s. unat i < n \<Longrightarrow> P s \<Longrightarrow> body i s = Some (f i s) \<and> P (f i s)"
  shows "for8 n body 0 s = Some (fold (\<lambda>k. f (of_nat k)) [0..<n] s)" "P (fold (\<lambda>k. f (of_nat k)) [0..<n] s)"
  using for8_from [of n P body f s 0, OF assms(1) assms(3) assms(2)] by simp_all

lemma for8_bound:
  assumes "for8 n body i s = Some t"
  shows "n < 256"
proof (rule for8.raw_induct [OF _ assms])
  fix f n body s t and i :: uint8
  assume IH: "\<And>n body i s t. f n body i s = Some t \<Longrightarrow> n < 256"
    and e: "(if unat i < n then Option.bind (body i s) (f n body (i + 1)) else Some s) = Some t"
  show "n < 256"
  proof (cases "unat i < n")
    case True
    then show ?thesis using e IH by (auto split: Option.bind_splits)
  next
    case False
    moreover have "unat i < 256" using unsigned_less [of i] by simp
    ultimately show ?thesis by linarith
  qed
qed

lemma fold_index: "n = length xs \<Longrightarrow> fold (\<lambda>k. g (xs ! k)) [0..<n] s = fold g xs s"
  using fold_map [of g "(!) xs" "[0..<length xs]", symmetric] by (simp add: map_nth comp_def)

lemma fold_of_nat: "n \<le> 256 \<Longrightarrow> fold (\<lambda>k. g (unat (of_nat k :: uint8))) [0..<n] s = fold g [0..<n] s"
  by (rule fold_cong) (auto simp: unat_of_nat)

text \<open>The loop over a list: the function applied to every element in order, or no end at all.\<close>

lemma for8_list:
  assumes "length xs < 256" "P s" "\<And>x s. x \<in> set xs \<Longrightarrow> P s \<Longrightarrow> body x s = Some (f x s) \<and> P (f x s)"
  shows "for8 (length xs) (\<lambda>i. body (xs ! unat i)) 0 s = Some (fold f xs s)" "P (fold f xs s)"
proof -
  have st: "\<And>i s. unat i < length xs \<Longrightarrow> P s \<Longrightarrow> body (xs ! unat i) s = Some (f (xs ! unat i) s) \<and> P (f (xs ! unat i) s)"
    using assms(3) by simp
  have e: "fold (\<lambda>k. f (xs ! unat (of_nat k :: uint8))) [0..<length xs] s = fold f xs s"
    using fold_of_nat [of "length xs" "\<lambda>k. f (xs ! k)" s] fold_index [of "length xs" xs f s] assms(1) by simp
  show "for8 (length xs) (\<lambda>i. body (xs ! unat i)) 0 s = Some (fold f xs s)" "P (fold f xs s)"
    using for8_inv [of "length xs" P s "\<lambda>i. body (xs ! unat i)" "\<lambda>i. f (xs ! unat i)", OF assms(1,2) st] by (simp_all add: e)
qed

section \<open>The members of a group\<close>

text \<open>No report stores commands, so the members of a group have none.\<close>

definition members_ok :: "associations \<Rightarrow> bool" where
  "members_ok m \<longleftrightarrow> m_ordered m \<and> (\<forall>e \<in> set m. snd e = [])"

lemma members_ok_Nil [simp]: "members_ok []"
  by (simp add: members_ok_def)

lemma m_insert_subset: "set (m_insert k v m) \<subseteq> insert (k, v) (set m)"
  by (induction k v m rule: m_insert.induct) auto

lemma members_ok_insert [simp]: "members_ok m \<Longrightarrow> members_ok (m_insert x [] m)"
  using m_insert_subset [of x "[]" m] unfolding members_ok_def by fastforce

lemma members_ok_commands: "members_ok m \<Longrightarrow> concat (map snd m) = []"
  by (auto simp: members_ok_def)

lemma members_ok_lookup: "members_ok m \<Longrightarrow> map_of m x = Some cmds \<Longrightarrow> cmds = []"
  using map_of_SomeD [of m x cmds] by (fastforce simp: members_ok_def)

abbreviation keys :: "('k \<times> 'v) list \<Rightarrow> 'k set" where "keys m \<equiv> fst ` set m"

lemma assign_member_ok:
  assumes "members_ok m"
  shows "assign_member x (m, live) = Some (m_insert x [] m, live)"
  using members_ok_lookup [OF assms, of x] by (auto simp: assign_member_def split: option.splits)

lemma assign_fold: "members_ok m \<Longrightarrow> members_ok (fold (\<lambda>x. m_insert x []) xs m) \<and> keys (fold (\<lambda>x. m_insert x []) xs m) = set xs \<union> keys m"
  by (induction xs arbitrary: m) (auto simp: keys_m_insert)

lemma assign_members_exact:
  assumes m: "members_ok m" and xs: "length xs < 256"
  obtains m' where "assign_members xs (m, live) = Some (m', live)" "members_ok m'" "keys m' = set xs \<union> keys m"
proof -
  let ?f = "\<lambda>x. map_prod (m_insert x []) (\<lambda>l :: nat set. l)"
  have "assign_members xs (m, live) = Some (fold ?f xs (m, live))"
    unfolding assign_members_def
    by (rule for8_list(1) [OF xs, where P = "\<lambda>s. members_ok (fst s)"]) (use m in \<open>auto simp: assign_member_ok\<close>)
  moreover have "fold ?f xs (m, live) = (fold (\<lambda>x. m_insert x []) xs m, live)"
    by (induction xs arbitrary: m) auto
  ultimately show thesis using that assign_fold [OF m] by simp
qed

lemma clear_members_ok: "members_ok m \<Longrightarrow> clear_members m live = Some ([], live)"
  by (simp add: clear_members_def members_ok_commands)

lemma members_length: "members_ok m \<Longrightarrow> length m = card (keys m)"
  by (simp add: members_ok_def length_keys)

text \<open>
  The members after a change: those of the report, unless the report has as many entries as the group has members
  and names only members, in which case the old members stay, also those a report with repeated entries omits.
\<close>

lemma change_members_exact:
  assumes old: "members_ok old" "length old < 256" and xs: "length xs < 256"
  defines "same \<equiv> length xs = length old \<and> set xs \<subseteq> keys old"
  obtains m where "change_members xs (old, live) = Some (m, live, xs = [] \<or> \<not> same)" "members_ok m"
    "keys m = (if same then keys old else set xs)"
proof (cases "length xs = length old")
  case False
  obtain m where m: "assign_members xs ([], live) = Some (m, live)" "members_ok m" "keys m = set xs \<union> keys ([] :: associations)"
    by (rule assign_members_exact [OF members_ok_Nil xs])
  then have "change_members xs (old, live) = Some (m, live, True)"
    using False by (simp add: change_members_def clear_members_ok [OF old(1)])
  then show thesis using that [of m] m False by (simp add: same_def)
next
  case True
  obtain m where m: "assign_members xs (old, live) = Some (m, live)" "members_ok m" "keys m = set xs \<union> keys old"
    by (rule assign_members_exact [OF old(1) xs])
  have sz: "unat (of_nat (length old) :: uint8) = length old" using old(2) by (simp add: unat_of_nat)
  have grown: "length m = length old \<longleftrightarrow> set xs \<subseteq> keys old"
  proof -
    have "length m = card (keys old \<union> set xs)" using members_length [OF m(2)] m(3) by (simp add: Un_commute)
    moreover have "length old = card (keys old)" by (rule members_length [OF old(1)])
    moreover have "card (keys old \<union> set xs) = card (keys old) \<Longrightarrow> keys old \<union> set xs = keys old"
      by (rule card_subset_eq [symmetric]) auto
    ultimately show ?thesis by (metis Un_absorb2 le_iff_sup sup.commute)
  qed
  show thesis
  proof (cases "set xs \<subseteq> keys old")
    case sub: True
    then have "change_members xs (old, live) = Some (m, live, xs = [])"
      using True grown m by (simp add: change_members_def sz)
    then show thesis using that [of m] m True sub by (auto simp: same_def)
  next
    case sub: False
    then have ne: "xs \<noteq> []" by auto
    obtain m' where m': "assign_members xs ([], live) = Some (m', live)" "members_ok m'" "keys m' = set xs \<union> keys ([] :: associations)"
      by (rule assign_members_exact [OF members_ok_Nil xs])
    have "change_members xs (old, live) = Some (m', live, True)"
      using True sub ne grown m m' by (simp add: change_members_def sz clear_members_ok)
    then show thesis using that [of m'] m' sub by (simp add: same_def)
  qed
qed

lemma change_members_diverges:
  assumes "256 \<le> length xs"
  shows "change_members xs s = None"
proof -
  have "assign_members xs s' = None" for s'
    using for8_bound [of "length xs" _ 0 s'] assms by (cases "assign_members xs s'") (fastforce simp: assign_members_def)+
  then show ?thesis by (cases s) (auto simp: change_members_def Let_def split: Option.bind_splits)
qed

section \<open>The commands of an association\<close>

lemma delete_blocks_dead: "a \<in> set as \<Longrightarrow> a \<notin> live \<Longrightarrow> delete_blocks as live = None"
  by (induction as live rule: delete_blocks.induct) auto

text \<open>A command that was added points to a freed block: clearing the commands of the association frees it again.\<close>

lemma added_command_dangles:
  assumes "AddCommand regrow idx nid ep n = Some (True, n')" and g: "Node_GetGroup idx n = Some g"
    and o: "m_ordered (gn_groups n)" "m_ordered (g_associations g)"
  shows "ClearCommands idx nid ep n' = None"
proof -
  obtain cmds where c: "map_of (g_associations g) (InstanceAssociation nid ep) = Some cmds"
    "gn_next n \<notin> gn_live n'"
    "gn_groups n' = m_insert idx (g\<lparr>g_associations := m_insert (InstanceAssociation nid ep) (cmds @ [gn_next n]) (g_associations g)\<rparr>) (gn_groups n)"
    using assms(1) g by (auto simp: AddCommand_def update_group_def Let_def split: option.splits Option.bind_splits if_splits)
  then have "delete_blocks (cmds @ [gn_next n]) (gn_live n') = None" by (intro delete_blocks_dead) auto
  then show ?thesis using o by (simp add: ClearCommands_def Node_GetGroup_def c(3) map_of_m_insert)
qed

section \<open>Return routes\<close>

text \<open>The elements of a list without repetitions, in the order they first occur.\<close>

fun firsts :: "'a list \<Rightarrow> 'a list" where
  "firsts [] = []"
| "firsts (x # xs) = x # filter (\<lambda>y. y \<noteq> x) (firsts xs)"

lemma fold_add_route:
  "length ns \<le> 5 \<Longrightarrow> fold add_route xs ns = take 5 (ns @ filter (\<lambda>x. x \<notin> set ns) (firsts xs))"
proof (induction xs arbitrary: ns)
  case (Cons x xs)
  have drop: "filter (\<lambda>y. y \<notin> set ns) (filter (\<lambda>y. y \<noteq> x) (firsts xs)) = filter (\<lambda>y. y \<notin> set (ns @ [x])) (firsts xs)"
    by (auto intro: filter_cong)
  have same: "filter (\<lambda>y. y \<notin> set ns) (filter (\<lambda>y. y \<noteq> x) (firsts xs)) = filter (\<lambda>y. y \<notin> set ns) (firsts xs)" if "x \<in> set ns"
    using that by (auto intro!: filter_cong)
  consider "x \<in> set ns" | "x \<notin> set ns" "length ns = 5" | "x \<notin> set ns" "length ns < 5" using Cons.prems by linarith
  then show ?case
  proof cases
    case 3
    then have "fold add_route (x # xs) ns = fold add_route xs (ns @ [x])" by (simp add: add_route_def)
    also have "\<dots> = take 5 ((ns @ [x]) @ filter (\<lambda>y. y \<notin> set (ns @ [x])) (firsts xs))"
      using 3 by (intro Cons.IH) simp
    finally show ?thesis using 3 drop by simp
  qed (use Cons same in \<open>simp_all add: add_route_def\<close>)
qed simp

text \<open>The nodes in the groups \<open>1\<close> to \<open>k\<close>.\<close>

definition group_targets :: "group_node \<Rightarrow> nat \<Rightarrow> nat \<Rightarrow> bytes" where
  "group_targets n i k = concat (map (\<lambda>j. map ia_nodeId (Node_GetInstanceAssociations (of_nat j) n)) [i..<Suc k])"

definition small_groups :: "group_node \<Rightarrow> bool" where
  "small_groups n \<longleftrightarrow> (\<forall>e \<in> set (gn_groups n). length (g_associations (snd e)) < 256)"

lemma small_targets: "small_groups n \<Longrightarrow> length (Node_GetInstanceAssociations i n) < 256"
  by (auto simp: small_groups_def Node_GetInstanceAssociations_def Node_GetGroup_def Group_GetInstanceAssociations_def
      split: option.splits dest!: map_of_SomeD)

lemma fold_add_route_full: "length ns = 5 \<Longrightarrow> fold add_route xs ns = ns"
  by (induction xs) (simp_all add: add_route_def)

lemma length_add_route: "length ns \<le> 5 \<Longrightarrow> length (fold add_route xs ns) \<le> 5"
  by (simp add: fold_add_route)

lemma group_loop:
  assumes "length as < 256"
  shows "for8 (length as) (\<lambda>j ns. Some (add_route (ia_nodeId (as ! unat j)) ns)) 0 ns = Some (fold add_route (map ia_nodeId as) ns)"
  using for8_list(1) [OF assms, where P = "\<lambda>_. True" and body = "\<lambda>a ns. Some (add_route (ia_nodeId a) ns)" and f = "\<lambda>a. add_route (ia_nodeId a)"]
  by (simp add: fold_map comp_def)

lemma route_groups_exact:
  assumes sm: "small_groups n" and k: "unat k < 255"
  shows "unat i \<le> Suc (unat k) \<Longrightarrow> length ns \<le> 5 \<Longrightarrow> route_groups n k i ns = Some (fold add_route (group_targets n (unat i) (unat k)) ns)"
proof (induction "Suc (unat k) - unat i" arbitrary: i ns)
  case 0
  then have "\<not> i \<le> k" by (simp add: word_le_nat_alt)
  then show ?case using 0 by (simp add: route_groups.simps group_targets_def)
next
  case (Suc l)
  then have le: "i \<le> k" "unat i \<le> unat k" by (simp_all add: word_le_nat_alt)
  then have u: "unat (i + 1) = Suc (unat i)" using k by (simp add: unat_word_ariths)
  let ?as = "Node_GetInstanceAssociations i n"
  let ?ns = "fold add_route (map ia_nodeId ?as) ns"
  have t: "group_targets n (unat i) (unat k) = map ia_nodeId ?as @ group_targets n (unat (i + 1)) (unat k)"
    using le by (simp add: group_targets_def u upt_conv_Cons del: upt_Suc)
  show ?case
  proof (cases "length ns < 5")
    case True
    have IH: "route_groups n k (i + 1) ?ns = Some (fold add_route (group_targets n (unat (i + 1)) (unat k)) ?ns)"
      using Suc le u length_add_route [of ns] by (intro Suc.hyps(1)) auto
    have "route_groups n k i ns = route_groups n k (i + 1) ?ns"
      using True le group_loop [OF small_targets [OF sm], of i ns] by (subst route_groups.simps) (simp add: Let_def)
    then show ?thesis using IH by (simp add: t)
  next
    case False
    then have "length ns = 5" using Suc.prems by simp
    then show ?thesis using False by (simp add: route_groups.simps fold_add_route_full)
  qed
qed

text \<open>With 255 groups the loop over the groups ends only when it has found five nodes.\<close>

lemma route_groups_255:
  assumes "route_groups n k i ns = Some r"
  shows "k = 255 \<longrightarrow> 5 \<le> length r"
proof (rule route_groups.raw_induct [OF _ assms])
  fix f n ns r and k i :: uint8
  assume IH: "\<And>n k i ns r. f n k i ns = Some r \<Longrightarrow> k = 255 \<longrightarrow> 5 \<le> length r"
    and e: "(if i \<le> k \<and> length ns < 5
        then let as = Node_GetInstanceAssociations i n
          in Option.bind (for8 (length as) (\<lambda>j ns. Some (add_route (ia_nodeId (as ! unat j)) ns)) 0 ns) (f n k (i + 1))
        else Some ns) = Some r"
  have "unat i < 256" using unsigned_less [of i] by simp
  then have "unat i \<le> 255" by linarith
  then have "i \<le> 255" by (simp add: word_le_nat_alt)
  then show "k = 255 \<longrightarrow> 5 \<le> length r"
    using e IH by (auto simp: Let_def split: if_splits Option.bind_splits)
qed

definition route_nodes :: "group_node \<Rightarrow> bytes" where
  "route_nodes n = take 5 (firsts (group_targets n 1 (length (gn_groups n))))"

lemma fold_emit: "fold (\<lambda>x. emit (f x)) xs n = n\<lparr>gn_out := gn_out n @ map f xs\<rparr>"
  by (induction xs arbitrary: n) (simp_all add: emit_def)

text \<open>
  The routes of a routing slave: the first five nodes of its groups in the order of the groups, sent when they
  differ from those stored, and stored.
\<close>

lemma UpdateNodeRoutes_exact:
  assumes sm: "small_groups n" and k: "length (gn_groups n) < 255"
  defines "ns \<equiv> route_nodes n"
  defines "padded \<equiv> ns @ replicate (5 - length ns) 0"
  defines "changed \<equiv> of_nat (length ns) \<noteq> gn_numRouteNodes n \<or> padded \<noteq> gn_routeNodes n"
  shows "UpdateNodeRoutes force n = Some (if gn_basic n = 4 \<and> (force \<or> changed)
      then n\<lparr>gn_out := gn_out n @ Out_Controller ControllerCommand_DeleteAllReturnRoutes (gn_id n) 0
               # map (Out_Controller ControllerCommand_AssignReturnRoute (gn_id n)) ns,
             gn_numRouteNodes := of_nat (length ns), gn_routeNodes := padded\<rparr>
      else n)"
proof -
  have u: "unat (Node_GetNumGroups n) = length (gn_groups n)" using k by (simp add: Node_GetNumGroups_def unat_of_nat)
  have "route_groups n (Node_GetNumGroups n) 1 [] = Some ns"
    using route_groups_exact [OF sm, of "Node_GetNumGroups n" 1 "[]"] k
    by (simp add: u fold_add_route ns_def route_nodes_def)
  then show ?thesis
    by (simp add: UpdateNodeRoutes_def Let_def padded_def [symmetric] changed_def fold_emit) (auto simp: emit_def padded_def)
qed

section \<open>Changing the members of a group of a node\<close>

definition node_ok :: "group_env \<Rightarrow> group_node \<Rightarrow> bool" where
  "node_ok env n \<longleftrightarrow> m_ordered (gn_groups n) \<and> (\<forall>(i, g) \<in> set (gn_groups n).
     g_groupIdx g = i \<and> i \<noteq> 0 \<and> (ge_returnRoutes env \<longrightarrow> i \<noteq> 255) \<and>
     members_ok (g_associations g) \<and> length (g_associations g) < 256)"

definition member_set :: "group_node \<Rightarrow> uint8 \<Rightarrow> instance_association set" where
  "member_set n i = (case Node_GetGroup i n of None \<Rightarrow> {} | Some g \<Rightarrow> keys (g_associations g))"

definition group_ok :: "group_env \<Rightarrow> uint8 \<Rightarrow> group \<Rightarrow> bool" where
  "group_ok env i g \<longleftrightarrow> g_groupIdx g = i \<and> i \<noteq> 0 \<and> (ge_returnRoutes env \<longrightarrow> i \<noteq> 255) \<and>
     members_ok (g_associations g) \<and> length (g_associations g) < 256"

lemma node_okD: "node_ok env n \<Longrightarrow> Node_GetGroup i n = Some g \<Longrightarrow> group_ok env i g"
  using map_of_SomeD [of "gn_groups n" i g] by (fastforce simp: node_ok_def group_ok_def Node_GetGroup_def)

lemma node_ok_insert:
  "node_ok env n \<Longrightarrow> group_ok env i g \<Longrightarrow> gn_groups n' = m_insert i g (gn_groups n) \<Longrightarrow> node_ok env n'"
  using m_insert_subset [of i g "gn_groups n"] by (fastforce simp: node_ok_def group_ok_def)

lemma node_ok_groups: "node_ok env n \<Longrightarrow> gn_groups n' = gn_groups n \<Longrightarrow> node_ok env n'"
  by (simp add: node_ok_def)

lemma member_set_groups: "gn_groups n' = gn_groups n \<Longrightarrow> member_set n' = member_set n"
  by (simp add: member_set_def Node_GetGroup_def fun_eq_iff)

lemma member_set_insert:
  "node_ok env n \<Longrightarrow> gn_groups n' = m_insert i g (gn_groups n) \<Longrightarrow> member_set n' = (member_set n)(i := keys (g_associations g))"
  by (auto simp: member_set_def Node_GetGroup_def fun_eq_iff node_ok_def map_of_m_insert)

lemma node_ok_small: "node_ok env n \<Longrightarrow> small_groups n"
  by (auto simp: node_ok_def small_groups_def)

lemma node_ok_few:
  assumes ok: "node_ok env n" and r: "ge_returnRoutes env"
  shows "length (gn_groups n) < 255"
proof -
  have "keys (gn_groups n) \<subseteq> UNIV - {0, 255}" using ok r by (auto simp: node_ok_def)
  then have "card (keys (gn_groups n)) \<le> card (UNIV - {0, 255 :: uint8})" by (intro card_mono) auto
  also have "\<dots> = 254" by (subst card_Diff_subset) (auto simp: card_word)
  finally show ?thesis using ok length_keys [of "gn_groups n"] by (simp add: node_ok_def)
qed

text \<open>What may happen to a node beside its groups: messages and the group last asked for.\<close>

definition quiet :: "group_node \<Rightarrow> group_node \<Rightarrow> bool" where
  "quiet n n' \<longleftrightarrow> gn_groups n' = gn_groups n \<and>
     map_option (as_currentGroupQuery_update (\<lambda>_. 0)) (gn_assoc n') = map_option (as_currentGroupQuery_update (\<lambda>_. 0)) (gn_assoc n) \<and>
     map_option (as_currentGroupQuery_update (\<lambda>_. 0)) (gn_mca n') = map_option (as_currentGroupQuery_update (\<lambda>_. 0)) (gn_mca n) \<and>
     (\<exists>out. gn_out n' = gn_out n @ out)"

named_theorems quiet_rules "operations that only send"

lemma quiet_refl [quiet_rules]: "quiet n n"
  by (simp add: quiet_def)

lemma quiet_trans: "quiet a b \<Longrightarrow> quiet b c \<Longrightarrow> quiet a c"
  by (auto simp: quiet_def)

lemma quiet_emit [quiet_rules]: "quiet n (emit x n)"
  by (simp add: quiet_def emit_def)

lemma quiet_QueryGroup [quiet_rules]: "quiet n (Association_QueryGroup env i n)" "quiet n (MultiChannelAssociation_QueryGroup env i n)"
  by (auto simp: quiet_def Association_QueryGroup_def MultiChannelAssociation_QueryGroup_def map_assoc_def map_mca_def emit_def Let_def
      split: option.splits)

lemma quiet_Set [quiet_rules]:
  "quiet n (Association_Set env i t n)" "quiet n (Association_Remove env i t n)"
  "quiet n (MultiChannelAssociation_Set env i t ep n)" "quiet n (MultiChannelAssociation_Remove env i t ep n)"
  by (simp_all add: Association_Set_def Association_Remove_def MultiChannelAssociation_Set_def MultiChannelAssociation_Remove_def Let_def
      quiet_emit)

lemma quiet_AddAssociation [quiet_rules]: "quiet n (Group_AddAssociation env g t ep n)"
  unfolding Group_AddAssociation_def Let_def
  by (auto intro: quiet_rules quiet_trans [OF quiet_Set(1) quiet_QueryGroup(1)] quiet_trans [OF quiet_Set(3) quiet_QueryGroup(2)])

lemma quiet_fold: "(\<And>x n. quiet n (f x n)) \<Longrightarrow> quiet n (fold f xs n)"
  by (induction xs arbitrary: n) (auto intro: quiet_refl quiet_trans)

lemma quiet_AutoAssociate [quiet_rules]: "quiet n (AutoAssociate env n)"
  by (auto simp: AutoAssociate_def auto_associate_one_def split_beta intro!: quiet_fold quiet_rules)

lemma quiet_groups: "quiet n n' \<Longrightarrow> gn_groups n' = gn_groups n"
  by (simp add: quiet_def)

text \<open>The groups asked for with a \<open>Get\<close> of a class, in order.\<close>

definition group_query :: "uint8 \<Rightarrow> assoc_out \<Rightarrow> uint8 option" where
  "group_query cc x =
     (case x of Out_Msg m q \<Rightarrow> if m_buffer m ! 6 = cc \<and> m_buffer m ! 7 = AssociationCmd_Get then Some (m_buffer m ! 8) else None
      | _ \<Rightarrow> None)"

definition queries :: "uint8 \<Rightarrow> group_node \<Rightarrow> uint8 list" where
  "queries cc n = List.map_filter (group_query cc) (gn_out n)"

lemma map_filter_append: "List.map_filter f (xs @ ys) = List.map_filter f xs @ List.map_filter f ys"
  by (simp add: List.map_filter_def)

lemma queries_emit: "queries cc (emit x n) = queries cc n @ (case group_query cc x of None \<Rightarrow> [] | Some i \<Rightarrow> [i])"
  by (auto simp: queries_def emit_def map_filter_append List.map_filter_def split: option.splits)

definition kept :: "group_node \<Rightarrow> group_node \<Rightarrow> bool" where
  "kept n n' \<longleftrightarrow> gn_groups n' = gn_groups n \<and> gn_assoc n' = gn_assoc n \<and> gn_mca n' = gn_mca n \<and>
     queries CC_ASSOCIATION n' = queries CC_ASSOCIATION n \<and>
     queries CC_MULTI_CHANNEL_ASSOCIATION n' = queries CC_MULTI_CHANNEL_ASSOCIATION n"

lemma kept_trans: "kept a b \<Longrightarrow> kept b c \<Longrightarrow> kept a c"
  by (simp add: kept_def)

lemma kept_emit:
  "group_query CC_ASSOCIATION x = None \<Longrightarrow> group_query CC_MULTI_CHANNEL_ASSOCIATION x = None \<Longrightarrow> kept n (emit x n)"
  by (simp add: kept_def queries_emit) (simp add: emit_def)

lemma kept_RequestCommands: "kept n (RequestCommands env b i t n)"
  by (auto simp: RequestCommands_def kept_def queries_emit group_query_def query_msg_def Append_def Msg_new_def)
    (simp_all add: emit_def)

lemma kept_fold: "(\<And>x n. kept n (f x n)) \<Longrightarrow> kept n (fold f xs n)"
  by (induction xs arbitrary: n) (auto intro: kept_trans simp: kept_def)

lemma UpdateNodeRoutes_kept:
  assumes "small_groups n" "length (gn_groups n) < 255"
  obtains n' where "UpdateNodeRoutes b n = Some n'" "kept n n'"
proof -
  have "List.map_filter (group_query cc) (map (Out_Controller c i) xs) = []" for cc c i xs
    by (induction xs) (simp_all add: List.map_filter_def group_query_def)
  then have "kept n (the (UpdateNodeRoutes b n))"
    unfolding UpdateNodeRoutes_exact [OF assms]
    by (simp add: kept_def queries_def map_filter_append List.map_filter_def group_query_def)
  then show thesis using that UpdateNodeRoutes_exact [OF assms, of b] by simp
qed

lemma distinct_same:
  assumes "members_ok old" "distinct xs" "length xs = length old" "set xs \<subseteq> keys old"
  shows "set xs = keys old"
  using assms members_length [OF assms(1)] distinct_card [OF assms(2)] by (intro card_subset_eq) auto

lemma OnGroupChanged_exact:
  assumes ok: "node_ok env n" and g: "Node_GetGroup idx n = Some g" and xs: "distinct xs" "length xs < 256"
  obtains n' where "OnGroupChanged env idx xs n = Some n'" "node_ok env n'"
    "member_set n' = (member_set n)(idx := set xs)" "gn_assoc n' = gn_assoc n" "gn_mca n' = gn_mca n"
    "queries CC_ASSOCIATION n' = queries CC_ASSOCIATION n"
    "queries CC_MULTI_CHANNEL_ASSOCIATION n' = queries CC_MULTI_CHANNEL_ASSOCIATION n"
proof -
  note result = that and gok = node_okD [OF ok g, unfolded group_ok_def]
  have mo: "members_ok (g_associations g)" "length (g_associations g) < 256" using gok by simp_all
  obtain m b where m: "change_members xs (g_associations g, gn_live n) = Some (m, gn_live n, b)" "members_ok m" "keys m = set xs"
  proof (rule change_members_exact [OF mo xs(2), of "gn_live n"])
    fix m assume "change_members xs (g_associations g, gn_live n) = Some (m, gn_live n,
        xs = [] \<or> \<not> (length xs = length (g_associations g) \<and> set xs \<subseteq> keys (g_associations g)))" "members_ok m"
      "keys m = (if length xs = length (g_associations g) \<and> set xs \<subseteq> keys (g_associations g) then keys (g_associations g) else set xs)"
    then show thesis using that distinct_same [OF mo(1) xs(1)] by (auto split: if_splits)
  qed
  define n1 where "n1 = (update_group idx (\<lambda>g. g\<lparr>g_associations := m\<rparr>) n)\<lparr>gn_live := gn_live n\<rparr>"
  have grp: "gn_groups n1 = m_insert idx (g\<lparr>g_associations := m\<rparr>) (gn_groups n)" by (simp add: n1_def update_group_def g)
  have same: "gn_assoc n1 = gn_assoc n" "gn_mca n1 = gn_mca n" "gn_out n1 = gn_out n"
    by (simp_all add: n1_def update_group_def g)
  have "length m < 256" using members_length [OF m(2)] m(3) card_length [of xs] xs(2) by simp
  then have "group_ok env idx (g\<lparr>g_associations := m\<rparr>)" using gok m(2) by (simp add: group_ok_def)
  then have ok1: "node_ok env n1" by (rule node_ok_insert [OF ok _ grp])
  have ms1: "member_set n1 = (member_set n)(idx := set xs)" using member_set_insert [OF ok grp] m(3) by simp
  have fin: thesis if "OnGroupChanged env idx xs n = Some n'" "kept n1 n'" for n'
  proof (rule result [OF that(1)])
    show "node_ok env n'" using node_ok_groups [OF ok1] that(2) by (simp add: kept_def)
    show "member_set n' = (member_set n)(idx := set xs)" using member_set_groups [of n' n1] ms1 that(2) by (simp add: kept_def)
  qed (use that(2) same in \<open>simp_all add: kept_def queries_def\<close>)
  show thesis
  proof (cases b)
    case False
    then show thesis using fin [of n1] m(1) g by (simp add: OnGroupChanged_def n1_def [symmetric] kept_def)
  next
    case True
    define n3 where "n3 = emit (Out_Group idx) (case gn_commandConfig n of None \<Rightarrow> n1
        | Some gs \<Rightarrow> fold (\<lambda>e. RequestCommands env gs idx (ia_nodeId (fst e))) m n1)"
    have "kept n1 (case gn_commandConfig n of None \<Rightarrow> n1
        | Some gs \<Rightarrow> fold (\<lambda>e. RequestCommands env gs idx (ia_nodeId (fst e))) m n1)"
      by (auto split: option.split intro: kept_fold kept_RequestCommands simp: kept_def [of n1 n1])
    then have k3: "kept n1 n3" unfolding n3_def by (rule kept_trans) (simp add: kept_emit group_query_def)
    have e: "OnGroupChanged env idx xs n = (if ge_returnRoutes env then UpdateNodeRoutes False n3 else Some n3)"
      using True m(1) g by (simp add: OnGroupChanged_def n1_def [symmetric] n3_def Let_def cong: option.case_cong)
    show thesis
    proof (cases "ge_returnRoutes env")
      case False
      then show thesis using fin [of n3] e k3 by simp
    next
      case rr: True
      have "node_ok env n3" using node_ok_groups [OF ok1] k3 by (simp add: kept_def)
      then obtain n' where "UpdateNodeRoutes False n3 = Some n'" "kept n3 n'"
        using UpdateNodeRoutes_kept node_ok_small node_ok_few [OF _ rr] by blast
      then show thesis using fin [of n'] e rr kept_trans [OF k3] by simp
    qed
  qed
qed

section \<open>Properties\<close>

text \<open>(C39) The members of a group after a report, and whether watchers are told: the members of the report; but a report
  with as many entries as the group has members, all of them members, changes nothing, so that a report which
  repeats an entry leaves members in the group that it does not list.  A list of 256 entries or more is
  never stored: the loop does not end.\<close>

theorem group_members_exact:
  assumes "members_ok old" "length old < 256"
  shows "(256 \<le> length xs \<longrightarrow> change_members xs (old, live) = None) \<and>
    (length xs < 256 \<longrightarrow> (let same = (length xs = length old \<and> set xs \<subseteq> keys old)
      in \<exists>m. change_members xs (old, live) = Some (m, live, xs = [] \<or> \<not> same) \<and> members_ok m \<and>
           keys m = (if same then keys old else set xs)))"
  using change_members_diverges [of xs] change_members_exact [OF assms, of xs live] unfolding Let_def by metis

theorem group_members_exact_witness:
  "\<exists>m. change_members [InstanceAssociation 1 0, InstanceAssociation 1 0] ([(InstanceAssociation 1 0, []), (InstanceAssociation 5 0, [])], {}) =
      Some (m, {}, False) \<and> keys m = {InstanceAssociation 1 0, InstanceAssociation 5 0}"
proof -
  let ?old = "[(InstanceAssociation 1 0, []), (InstanceAssociation 5 0, [])]"
  have "members_ok ?old" by (simp add: members_ok_def m_ordered_def less_instance_association_def)
  from group_members_exact [OF this, of "[InstanceAssociation 1 0, InstanceAssociation 1 0]" "{}"] show ?thesis by auto
qed

text \<open>The return routes of a routing slave: the first five different nodes in its groups \<open>1\<close> to \<open>k\<close>, \<open>k\<close> being the
  number of its groups, in the order of the groups.  They are deleted and assigned again when they differ from
  those stored or the caller insists, and then they are stored; no other node is touched.\<close>

theorem return_routes_exact:
  assumes "small_groups n" "length (gn_groups n) < 255"
  shows "\<exists>n'. UpdateNodeRoutes force n = Some n' \<and>
    (let ns = route_nodes n; padded = ns @ replicate (5 - length ns) 0;
         changed = (of_nat (length ns) \<noteq> gn_numRouteNodes n \<or> padded \<noteq> gn_routeNodes n)
     in distinct ns \<and> length ns \<le> 5 \<and>
        n' = (if gn_basic n = 4 \<and> (force \<or> changed)
              then n\<lparr>gn_out := gn_out n @ Out_Controller ControllerCommand_DeleteAllReturnRoutes (gn_id n) 0
                       # map (Out_Controller ControllerCommand_AssignReturnRoute (gn_id n)) ns,
                     gn_numRouteNodes := of_nat (length ns), gn_routeNodes := padded\<rparr>
              else n))"
proof -
  have "distinct (firsts xs)" for xs :: bytes by (induction xs) auto
  then show ?thesis unfolding UpdateNodeRoutes_exact [OF assms, of force] Let_def
    by (simp add: route_nodes_def)
qed

theorem return_routes_exact_witness:
  "\<exists>n'. UpdateNodeRoutes False \<lparr>gn_id = 7, gn_basic = 4,
      gn_groups = [(1, \<lparr>g_label = '''', g_groupIdx = 1, g_maxAssociations = 5, g_auto = True, g_multiInstance = False,
        g_associations = [(InstanceAssociation 9 0, []), (InstanceAssociation 9 2, [])]\<rparr>)],
      gn_assoc = None, gn_mca = None, gn_forceInstances = True, gn_hasMultiInstance = False, gn_commandConfig = None,
      gn_numRouteNodes = 0, gn_routeNodes = [0, 0, 0, 0, 0], gn_live = {}, gn_next = 0, gn_out = []\<rparr> = Some n' \<and>
    gn_numRouteNodes n' = 1 \<and> gn_routeNodes n' = [9, 0, 0, 0, 0]"
  (is "\<exists>n'. UpdateNodeRoutes False ?n = Some n' \<and> _ n' \<and> _ n'")
proof -
  have r: "route_nodes ?n = [9]"
    by (simp add: route_nodes_def group_targets_def Node_GetInstanceAssociations_def Node_GetGroup_def Group_GetInstanceAssociations_def)
  have "\<exists>n'. UpdateNodeRoutes False ?n = Some n' \<and>
    (let ns = route_nodes ?n; padded = ns @ replicate (5 - length ns) 0;
         changed = (of_nat (length ns) \<noteq> gn_numRouteNodes ?n \<or> padded \<noteq> gn_routeNodes ?n)
     in distinct ns \<and> length ns \<le> 5 \<and>
        n' = (if gn_basic ?n = 4 \<and> (False \<or> changed)
              then ?n\<lparr>gn_out := gn_out ?n @ Out_Controller ControllerCommand_DeleteAllReturnRoutes (gn_id ?n) 0
                       # map (Out_Controller ControllerCommand_AssignReturnRoute (gn_id ?n)) ns,
                     gn_numRouteNodes := of_nat (length ns), gn_routeNodes := padded\<rparr>
              else ?n))"
    by (rule return_routes_exact) (simp_all add: small_groups_def)
  then show ?thesis unfolding r by (simp add: numeral_eq_Suc Let_def)
qed

end
