(* ===== verification/Group_Walk.thy ===== *)
theory Group_Walk
  imports Assoc_Laws
begin

text \<open>
  The walk over the association groups of a node, which both association classes make: it asks for one group, and
  the report that comes in makes it ask for the next.  The locale \<open>group_walk\<close> states what one report does; it is
  interpreted on \<open>Association\<close> and on \<open>MultiChannelAssociation\<close>.
\<close>

section \<open>The walk\<close>

datatype walk = Walk (wk_groups: uint8) (wk_all: bool) (wk_current: uint8) (wk_queries: "uint8 list")

definition first_group :: "uint8 \<Rightarrow> uint8" where
  "first_group k = (if k = 0xff then 0xff else 1)"

definition begin_walk :: "walk \<Rightarrow> walk" where
  "begin_walk v = Walk (wk_groups v) True (first_group (wk_groups v)) (wk_queries v @ [first_group (wk_groups v)])"

text \<open>The step a report makes: the next group is asked for, or the walk ends, with what it then sends.\<close>

definition advances :: "walk \<Rightarrow> walk \<Rightarrow> bool" where
  "advances v v' \<longleftrightarrow>
     (if next_group (wk_current v) \<le> wk_groups v
      then v' = Walk (wk_groups v) True (next_group (wk_current v)) (wk_queries v @ [next_group (wk_current v)])
      else wk_groups v' = wk_groups v \<and> \<not> wk_all v' \<and> (\<exists>more. wk_queries v' = wk_queries v @ more))"

fun feed :: "('r \<Rightarrow> 's \<Rightarrow> 's option) \<Rightarrow> 'r list \<Rightarrow> 's \<Rightarrow> 's option" where
  "feed step [] s = Some s"
| "feed step (r # rs) s = Option.bind (step r s) (feed step rs)"

lemma feed_append: "feed step (xs @ ys) s = Option.bind (feed step xs s) (feed step ys)"
  by (induction xs arbitrary: s) (auto simp: Option.bind_assoc intro!: arg_cong [where f = "Option.bind _"])

fun learn :: "('r \<Rightarrow> uint8) \<Rightarrow> ('r \<Rightarrow> 'm) \<Rightarrow> 'r list \<Rightarrow> (uint8 \<Rightarrow> 'm) \<Rightarrow> uint8 \<Rightarrow> 'm" where
  "learn subject listed [] M = M"
| "learn subject listed (r # rs) M = learn subject listed rs (M(subject r := listed r))"

lemma learn_snoc: "learn subject listed (rs @ [r]) M = (learn subject listed rs M)(subject r := listed r)"
  by (induction rs arbitrary: M) auto

lemma learn_other: "i \<notin> subject ` set rs \<Longrightarrow> learn subject listed rs M i = M i"
  by (induction rs arbitrary: M) auto

lemma learn_member: "distinct (map subject rs) \<Longrightarrow> r \<in> set rs \<Longrightarrow> learn subject listed rs M (subject r) = listed r"
  by (induction rs arbitrary: M) (auto simp: learn_other)

lemma next_group_unat: "unat i < 255 \<Longrightarrow> next_group i = i + 1 \<and> unat (next_group i) = Suc (unat i)"
proof -
  assume "unat i < 255"
  then have "unat (i + 1) = Suc (unat i)" by (simp add: unat_word_ariths)
  moreover from this have "i + 1 \<noteq> 0" by (metis nat.simps(3) unsigned_0)
  ultimately show ?thesis by (simp add: next_group_def)
qed

lemma next_of_nat:
  assumes "m < 255"
  shows "next_group (of_nat m) = of_nat (Suc m) \<and> unat (of_nat m :: uint8) = m \<and> unat (of_nat (Suc m) :: uint8) = Suc m"
proof -
  have u: "unat (of_nat m :: uint8) = m" using assms by (simp add: unat_of_nat)
  then have n: "next_group (of_nat m) = of_nat (Suc m)" using next_group_unat [of "of_nat m"] assms by (simp add: add.commute)
  have "unat (next_group (of_nat m)) = Suc m" using next_group_unat [of "of_nat m", THEN conjunct2] u assms by simp
  then show ?thesis using u n by (simp del: of_nat_Suc)
qed

locale group_walk =
  fixes view :: "'s \<Rightarrow> walk" and members :: "'s \<Rightarrow> uint8 \<Rightarrow> 'm" and ok :: "'s \<Rightarrow> bool"
    and start :: "'s \<Rightarrow> 's" and report :: "'r \<Rightarrow> 's \<Rightarrow> 's option"
    and subject :: "'r \<Rightarrow> uint8" and listed :: "'r \<Rightarrow> 'm" and fits :: "'r \<Rightarrow> bool"
  assumes start_walk: "ok s \<Longrightarrow> ok (start s) \<and> members (start s) = members s \<and> view (start s) = begin_walk (view s)"
    and report_step: "ok s \<Longrightarrow> fits r \<Longrightarrow> \<exists>s'. report r s = Some s' \<and> ok s' \<and>
      members s' = (members s)(subject r := listed r) \<and> (wk_all (view s) \<longrightarrow> advances (view s) (view s'))"
begin

text \<open>The reports of as many groups as the node has, less one: every group is asked for once, in order.\<close>

lemma walk_prefix:
  assumes "ok s" "wk_groups (view s) = k" "unat k < 255"
  shows "\<forall>r \<in> set rs. fits r \<Longrightarrow> length rs < unat k \<Longrightarrow>
    \<exists>s'. feed report rs (start s) = Some s' \<and> ok s' \<and> members s' = learn subject listed rs (members s) \<and>
      view s' = Walk k True (of_nat (Suc (length rs))) (wk_queries (view s) @ map of_nat [1..<length rs + 2])"
proof (induction rs rule: rev_induct)
  case Nil
  have "k \<noteq> 255" using assms(3) by auto
  then show ?case using start_walk [OF assms(1)] assms(2) by (simp add: begin_walk_def first_group_def)
next
  case (snoc r rs)
  then obtain s' where s': "feed report rs (start s) = Some s'" "ok s'" "members s' = learn subject listed rs (members s)"
    "view s' = Walk k True (of_nat (Suc (length rs))) (wk_queries (view s) @ map of_nat [1..<length rs + 2])" by auto
  have fr: "fits r" using snoc.prems by simp
  obtain t where t: "report r s' = Some t" "ok t" "members t = (members s')(subject r := listed r)"
    "wk_all (view s') \<longrightarrow> advances (view s') (view t)"
    using report_step [OF s'(2) fr] by blast
  have nx: "next_group (of_nat (Suc (length rs))) = of_nat (Suc (Suc (length rs)))" "unat (of_nat (Suc (Suc (length rs))) :: uint8) = Suc (Suc (length rs))"
    using next_of_nat [of "Suc (length rs)"] snoc.prems assms(3) by (simp_all del: of_nat_Suc)
  then have "next_group (of_nat (Suc (length rs))) \<le> k" using snoc.prems by (simp add: word_le_nat_alt del: of_nat_Suc)
  then have "view t = Walk k True (of_nat (Suc (Suc (length rs)))) (wk_queries (view s) @ map of_nat [1..<Suc (length rs) + 2])"
    using t(4) s'(4) nx by (simp add: advances_def del: of_nat_Suc)
  moreover have "members t = learn subject listed (rs @ [r]) (members s)" unfolding learn_snoc t(3) s'(3) by (rule refl)
  moreover have "feed report (rs @ [r]) (start s) = Some t" using s'(1) t(1) by (simp add: feed_append)
  ultimately show ?case using t(2) by (intro exI [of _ t]) (simp only: length_append_singleton)
qed

text \<open>The whole walk.\<close>

lemma walk_complete:
  assumes "ok s" "wk_groups (view s) = k" "1 \<le> unat k" "unat k < 255"
    and rs: "\<forall>r \<in> set rs. fits r" "map subject rs = map of_nat [1..<Suc (unat k)]"
  shows "\<exists>s' more. feed report rs (start s) = Some s' \<and> ok s' \<and> \<not> wk_all (view s') \<and>
    wk_queries (view s') = wk_queries (view s) @ map of_nat [1..<Suc (unat k)] @ more \<and>
    (\<forall>r \<in> set rs. members s' (subject r) = listed r)"
proof -
  have len: "length rs = unat k" using arg_cong [OF rs(2), of length] by simp
  then obtain pre r where pre: "rs = pre @ [r]" "length pre = unat k - 1" using assms(3) by (cases rs rule: rev_cases) auto
  have fits: "\<forall>r \<in> set pre. fits r" "fits r" and lt: "length pre < unat k" using rs(1) pre assms(3) by auto
  obtain s1 where s1: "feed report pre (start s) = Some s1" "ok s1" "members s1 = learn subject listed pre (members s)"
    "view s1 = Walk k True (of_nat (Suc (length pre))) (wk_queries (view s) @ map of_nat [1..<length pre + 2])"
    using walk_prefix [OF assms(1,2,4) fits(1) lt] by auto
  obtain t where t: "report r s1 = Some t" "ok t" "members t = (members s1)(subject r := listed r)" "advances (view s1) (view t)"
    using report_step [OF s1(2) fits(2)] s1(4) by auto
  have cur: "(of_nat (Suc (length pre)) :: uint8) = k" using pre(2) assms(3) by (simp del: of_nat_Suc)
  have "unat k < unat (next_group k)" using next_group_unat [OF assms(4), THEN conjunct2] by simp
  then have "\<not> next_group k \<le> k" by (simp only: word_le_nat_alt not_le)
  then obtain more where q: "\<not> wk_all (view t)" "wk_queries (view t) = wk_queries (view s1) @ more"
    using t(4) s1(4) cur by (auto simp: advances_def simp del: of_nat_Suc)
  have "inj_on (of_nat :: nat \<Rightarrow> uint8) {1..<Suc (unat k)}" using assms(4)
    by (intro inj_onI) (auto dest!: arg_cong [where f = unat] simp: unat_of_nat)
  then have d: "distinct (map subject rs)" by (simp add: rs(2) distinct_map del: upt_Suc)
  have "members t = learn subject listed rs (members s)"
    unfolding pre(1) learn_snoc using s1(3) t(3) by simp
  then have "members t (subject r') = listed r'" if "r' \<in> set rs" for r' using learn_member [OF d that] by simp
  moreover have "feed report rs (start s) = Some t" using s1(1) t(1) pre(1) by (simp add: feed_append)
  moreover have "wk_queries (view t) = wk_queries (view s) @ map of_nat [1..<Suc (unat k)] @ more"
    using q(2) s1(4) pre(2) assms(3) by simp
  ultimately show ?thesis using t(2) q(1) by blast
qed

text \<open>With 255 groups the walk goes round as long as reports come in.\<close>

lemma walk_endless:
  assumes "ok s" "wk_groups (view s) = 255"
  shows "\<forall>r \<in> set rs. fits r \<Longrightarrow> \<exists>s'. feed report rs (start s) = Some s' \<and> ok s' \<and> wk_all (view s') \<and>
    wk_groups (view s') = 255 \<and> length (wk_queries (view s')) = length (wk_queries (view s)) + Suc (length rs)"
proof (induction rs rule: rev_induct)
  case Nil
  then show ?case using start_walk [OF assms(1)] assms(2) by (simp add: begin_walk_def)
next
  case (snoc r rs)
  then obtain s' where s': "feed report rs (start s) = Some s'" "ok s'" "wk_all (view s')" "wk_groups (view s') = 255"
    "length (wk_queries (view s')) = length (wk_queries (view s)) + Suc (length rs)" by auto
  have fr: "fits r" using snoc.prems by simp
  obtain t where t: "report r s' = Some t" "ok t" "advances (view s') (view t)" using report_step [OF s'(2) fr] s'(3) by auto
  have "unat (next_group (wk_current (view s'))) < 256" using unsigned_less [of "next_group (wk_current (view s'))"] by simp
  then have "unat (next_group (wk_current (view s'))) \<le> 255" by linarith
  then have "next_group (wk_current (view s')) \<le> 255" by (simp add: word_le_nat_alt)
  then show ?case using s' t by (simp add: feed_append advances_def)
qed

end

section \<open>The walk of Association\<close>

text \<open>A report of a supported group, complete in one message: the group, its capacity, the members and what follows
  the payload in the receive buffer.\<close>

datatype 'a group_report = GroupReport (gr_group: uint8) (gr_max: uint8) (gr_members: "'a list") (gr_rest: bytes)

definition assoc_view :: "group_node \<Rightarrow> walk" where
  "assoc_view n =
     (case gn_assoc n of
        Some c \<Rightarrow> Walk (as_numGroups c) (as_queryAll c) (as_currentGroupQuery c) (queries CC_ASSOCIATION n)
      | None \<Rightarrow> Walk 0 False 0 [])"

definition assoc_ok :: "group_env \<Rightarrow> group_node \<Rightarrow> bool" where
  "assoc_ok env n \<longleftrightarrow> node_ok env n \<and>
     (case gn_assoc n of Some c \<Rightarrow> as_getSupported c \<and> as_pendingMembers c = [] | None \<Rightarrow> False)"

definition assoc_report :: "group_env \<Rightarrow> uint8 group_report \<Rightarrow> group_node \<Rightarrow> group_node option" where
  "assoc_report env r n = map_option snd (Association_HandleMsg env
     ([AssociationCmd_Report, gr_group r, gr_max r, 0] @ gr_members r @ gr_rest r) (of_nat (5 + length (gr_members r))) n)"

definition assoc_members :: "uint8 group_report \<Rightarrow> instance_association set" where
  "assoc_members r = (\<lambda>x. InstanceAssociation x 0) ` set (gr_members r)"

definition assoc_fits :: "group_env \<Rightarrow> uint8 group_report \<Rightarrow> bool" where
  "assoc_fits env r \<longleftrightarrow> gr_group r \<noteq> 0 \<and> (ge_returnRoutes env \<longrightarrow> gr_group r \<noteq> 255) \<and> gr_max r \<noteq> 0 \<and>
     distinct (gr_members r) \<and> length (gr_members r) \<le> 250"

lemma ensure_group_ok:
  assumes ok: "node_ok env n" and i: "idx \<noteq> 0" "ge_returnRoutes env \<longrightarrow> idx \<noteq> 255"
  obtains n' g where "ensure_group idx mx n = Some n'" "node_ok env n'" "member_set n' = member_set n"
    "Node_GetGroup idx n' = Some g" "gn_assoc n' = gn_assoc n" "gn_mca n' = gn_mca n" "gn_out n' = gn_out n"
proof (cases "Node_GetGroup idx n")
  case (Some g)
  then show thesis using that [of n g] ok by (simp add: ensure_group_def)
next
  case None
  obtain g n1 where gn: "Group_new idx mx n = (g, n1)" by (cases "Group_new idx mx n")
  then have g: "g_groupIdx g = idx" "g_associations g = []" by (auto simp: Group_new_def split: prod.splits)
  have n1: "n1 = snd (CheckAuto idx n)" using gn by (auto simp: Group_new_def split: prod.splits)
  have up: "node_ok env (update_group 255 (\<lambda>g. g\<lparr>g_auto := False\<rparr>) n) \<and>
      member_set (update_group 255 (\<lambda>g. g\<lparr>g_auto := False\<rparr>) n) = member_set n"
  proof (cases "Node_GetGroup 255 n")
    case (Some h)
    let ?n = "update_group 255 (\<lambda>g. g\<lparr>g_auto := False\<rparr>) n"
    have e: "gn_groups ?n = m_insert 255 (h\<lparr>g_auto := False\<rparr>) (gn_groups n)" by (simp add: update_group_def Some)
    have "group_ok env 255 (h\<lparr>g_auto := False\<rparr>)" using node_okD [OF ok Some] by (simp add: group_ok_def)
    then show ?thesis using node_ok_insert [OF ok _ e] member_set_insert [OF ok e] Some
      by (auto simp: member_set_def fun_eq_iff)
  qed (simp add: update_group_def ok)
  have n1_ok: "node_ok env n1" "member_set n1 = member_set n" using up ok by (auto simp: n1 CheckAuto_def)
  have n1_same: "gn_assoc n1 = gn_assoc n" "gn_mca n1 = gn_mca n" "gn_out n1 = gn_out n"
    by (auto simp: n1 CheckAuto_def update_group_def split: option.split)
  have missing: "Node_GetGroup idx n1 = None"
    using None by (auto simp: n1 CheckAuto_def update_group_def Node_GetGroup_def split: option.split)
      (use ok in \<open>simp_all add: map_of_m_insert node_ok_def\<close>)
  define n2 where "n2 = n1\<lparr>gn_groups := m_insert idx g (gn_groups n1), gn_live := gn_live n1\<rparr>"
  have "m_erase idx (gn_groups n1) = gn_groups n1"
    using missing by (auto simp: m_erase_def Node_GetGroup_def map_of_eq_None_iff filter_id_conv)
  then have e: "ensure_group idx mx n = Some n2" using None gn missing g by (simp add: ensure_group_def Node_AddGroup_def n2_def)
  have gi: "gn_groups n2 = m_insert idx g (gn_groups n1)" by (simp add: n2_def)
  have "group_ok env idx g" using g i by (simp add: group_ok_def)
  then have "node_ok env n2" by (rule node_ok_insert [OF n1_ok(1) _ gi])
  moreover have "member_set n2 = member_set n"
    using member_set_insert [OF n1_ok(1) gi] n1_ok(2) None g by (auto simp: member_set_def fun_eq_iff)
  moreover have "Node_GetGroup idx n2 = Some g"
    using n1_ok(1) by (simp add: Node_GetGroup_def gi map_of_m_insert node_ok_def)
  ultimately show thesis using that e n1_same by (simp add: n2_def)
qed

lemma assoc_query:
  assumes c: "gn_assoc n = Some c" and a: "as_getSupported c" "as_queryAll c"
  shows "assoc_view (Association_QueryGroup env i n) = Walk (as_numGroups c) True i (queries CC_ASSOCIATION n @ [i])"
    "gn_assoc (Association_QueryGroup env i n) = Some (c\<lparr>as_currentGroupQuery := i\<rparr>)"
    "gn_groups (Association_QueryGroup env i n) = gn_groups n"
  using a
  by (simp_all add: Association_QueryGroup_def assoc_view_def c map_assoc_def emit_def queries_def map_filter_append
      List.map_filter_def group_query_def query_msg_def Append_def Msg_new_def)

lemma same_class:
  assumes "map_option (as_currentGroupQuery_update (\<lambda>_. 0)) x = map_option (as_currentGroupQuery_update (\<lambda>_. 0)) (Some c)"
  obtains c' where "x = Some c'" "as_numGroups c' = as_numGroups c" "as_getSupported c' = as_getSupported c"
    "as_pendingMembers c' = as_pendingMembers c" "as_queryAll c' = as_queryAll c"
proof (cases x)
  case (Some c')
  then show thesis using that [of c'] assms by (cases c; cases c') simp
qed (use assms in simp)

lemma assoc_continue:
  assumes ok: "assoc_ok env n"
  shows "assoc_ok env (Association_continue env n) \<and> member_set (Association_continue env n) = member_set n \<and>
    (wk_all (assoc_view n) \<longrightarrow> advances (assoc_view n) (assoc_view (Association_continue env n)))"
proof -
  obtain c where c: "gn_assoc n = Some c" "as_getSupported c" "as_pendingMembers c = []" "node_ok env n"
    using ok by (auto simp: assoc_ok_def split: option.splits)
  show ?thesis
  proof (cases "as_queryAll c")
    case False
    then show ?thesis using ok c by (simp add: Association_continue_def assoc_view_def)
  next
    case all: True
    define i where "i = next_group (as_currentGroupQuery c)"
    show ?thesis
    proof (cases "i \<le> as_numGroups c")
      case True
      then have e: "Association_continue env n = Association_QueryGroup env i n" using c all by (simp add: Association_continue_def i_def)
      have v: "assoc_view n = Walk (as_numGroups c) True (as_currentGroupQuery c) (queries CC_ASSOCIATION n)"
        using c all by (simp add: assoc_view_def)
      let ?m = "Association_QueryGroup env i n"
      note m = assoc_query [OF c(1,2) all, of env i]
      have "assoc_ok env ?m" using node_ok_groups [OF c(4) m(3)] m(2) c by (simp add: assoc_ok_def)
      moreover have "advances (assoc_view n) (assoc_view ?m)" 
        unfolding m(1) v advances_def using True by (simp add: i_def)
      ultimately show ?thesis unfolding e using member_set_groups [OF m(3)] by simp
    next
      case False
      let ?n = "AutoAssociate env n"
      have q: "quiet n ?n" by (rule quiet_rules)
      obtain out where out: "gn_out ?n = gn_out n @ out" using q by (auto simp: quiet_def)
      have "map_option (as_currentGroupQuery_update (\<lambda>_. 0)) (gn_assoc ?n) = map_option (as_currentGroupQuery_update (\<lambda>_. 0)) (Some c)"
        using q c(1) by (simp add: quiet_def)
      then obtain c' where c': "gn_assoc ?n = Some c'" "as_numGroups c' = as_numGroups c" "as_getSupported c' = as_getSupported c"
        "as_pendingMembers c' = as_pendingMembers c" by (rule same_class)
      have e: "Association_continue env n = map_assoc (\<lambda>c. c\<lparr>as_queryAll := False, as_currentGroupQuery := 0\<rparr>) ?n"
        using False c all by (simp add: Association_continue_def i_def)
      let ?m = "map_assoc (\<lambda>c. c\<lparr>as_queryAll := False, as_currentGroupQuery := 0\<rparr>) ?n"
      have m: "gn_groups ?m = gn_groups n" "gn_assoc ?m = Some (c'\<lparr>as_queryAll := False, as_currentGroupQuery := 0\<rparr>)"
        "queries CC_ASSOCIATION ?m = queries CC_ASSOCIATION n @ List.map_filter (group_query CC_ASSOCIATION) out"
        using quiet_groups [OF q] c' out by (simp_all add: map_assoc_def queries_def map_filter_append)
      have "assoc_ok env ?m" using node_ok_groups [OF c(4) m(1)] m(2) c c' by (simp add: assoc_ok_def)
      moreover have "advances (assoc_view n) (assoc_view ?m)"
        using False m(2,3) c(1) c' by (simp add: advances_def assoc_view_def i_def)
      ultimately show ?thesis unfolding e using member_set_groups [OF m(1)] by simp
    qed
  qed
qed

lemma convert_nodes:
  assumes "length xs < 256"
  shows "for8 (length xs) (\<lambda>i acc. Some (acc @ [InstanceAssociation (xs ! unat i) 0])) 0 [] = Some (map (\<lambda>x. InstanceAssociation x 0) xs)"
proof -
  have "fold (\<lambda>x acc. acc @ [InstanceAssociation x 0]) xs acc = acc @ map (\<lambda>x. InstanceAssociation x 0) xs" for acc
    by (induction xs arbitrary: acc) simp_all
  then show ?thesis
    using for8_list(1) [OF assms, where P = "\<lambda>_. True" and body = "\<lambda>x acc. Some (acc @ [InstanceAssociation x 0])"
        and f = "\<lambda>x acc. acc @ [InstanceAssociation x 0]" and s = "[]"] by simp
qed

lemma report_length:
  assumes "k \<le> 250"
  shows "(5 :: uint32) \<le> of_nat (5 + k) \<and> unat (of_nat (5 + k) :: uint32) = 5 + k \<and>
    unat (ucast ((of_nat (5 + k) :: uint32) - 5) :: uint8) = k"
proof -
  have u: "unat (of_nat (5 + k) :: uint32) = 5 + k" using assms by (simp add: unat_of_nat del: of_nat_add)
  have "(of_nat (5 + k) :: uint32) - 5 = of_nat k" by simp
  then have "unat (ucast ((of_nat (5 + k) :: uint32) - 5) :: uint8) = k" using assms
    by (simp add: unsigned_ucast_eq take_bit_nat_eq_self_iff unat_of_nat)
  moreover have "(5 :: uint32) \<le> of_nat (5 + k)" unfolding word_le_nat_alt u by simp
  ultimately show ?thesis using u by blast
qed

lemma assoc_report_step:
  assumes ok: "assoc_ok env n" and r: "assoc_fits env r"
  shows "\<exists>n'. assoc_report env r n = Some n' \<and> assoc_ok env n' \<and>
    member_set n' = (member_set n)(gr_group r := assoc_members r) \<and>
    (wk_all (assoc_view n) \<longrightarrow> advances (assoc_view n) (assoc_view n'))"
proof -
  obtain c where c: "gn_assoc n = Some c" "as_getSupported c" "as_pendingMembers c = []" "node_ok env n"
    using ok by (auto simp: assoc_ok_def split: option.splits)
  let ?xs = "gr_members r" and ?i = "gr_group r"
  note fits = r [unfolded assoc_fits_def]
  let ?data = "[AssociationCmd_Report, ?i, gr_max r, 0] @ ?xs @ gr_rest r"
  have members: "Association_members ?data (of_nat (5 + length ?xs)) = Some ?xs"
    using report_length [of "length ?xs"] fits by (simp add: Association_members_def peek_block_def)
  define n1 where "n1 = map_assoc (\<lambda>c. c\<lparr>as_pendingMembers := as_pendingMembers c @ ?xs\<rparr>) n"
  have n1: "gn_groups n1 = gn_groups n" "gn_assoc n1 = Some (c\<lparr>as_pendingMembers := ?xs\<rparr>)" "gn_out n1 = gn_out n"
    using c by (simp_all add: n1_def map_assoc_def)
  have ok1: "node_ok env n1" by (rule node_ok_groups [OF c(4) n1(1)])
  obtain n2 g where n2: "ensure_group ?i (gr_max r) n1 = Some n2" "node_ok env n2" "member_set n2 = member_set n1"
    "Node_GetGroup ?i n2 = Some g" "gn_assoc n2 = gn_assoc n1" "gn_out n2 = gn_out n1"
    by (rule ensure_group_ok [OF ok1, of ?i "gr_max r"]) (use fits in auto)
  let ?ms = "map (\<lambda>x. InstanceAssociation x 0) ?xs"
  have dm: "distinct ?ms" "length ?ms < 256" using fits by (auto simp: distinct_map inj_on_def)
  obtain n3 where n3: "OnGroupChanged env ?i ?ms n2 = Some n3" "node_ok env n3" "member_set n3 = (member_set n2)(?i := set ?ms)"
    "gn_assoc n3 = gn_assoc n2" "queries CC_ASSOCIATION n3 = queries CC_ASSOCIATION n2"
    using OnGroupChanged_exact [OF n2(2,4) dm] by metis
  have ch: "OnGroupChanged_nodes env ?i ?xs n2 = Some n3" using n3(1) convert_nodes [of ?xs] dm by (simp add: OnGroupChanged_nodes_def)
  define n4 where "n4 = map_assoc (\<lambda>c. c\<lparr>as_pendingMembers := []\<rparr>) n3"
  have n4: "gn_groups n4 = gn_groups n3" "gn_assoc n4 = Some c" "gn_out n4 = gn_out n3"
    using n1(2) n2(5) n3(4) c(3) by (simp_all add: n4_def map_assoc_def)
  have ok4: "assoc_ok env n4" using node_ok_groups [OF n3(2) n4(1)] n4(2) c by (simp add: assoc_ok_def)
  have v4: "assoc_view n4 = assoc_view n" using n4 n3(5) n2(6) n1(3) c(1) by (simp add: assoc_view_def queries_def)
  have m4: "member_set n4 = (member_set n)(?i := assoc_members r)"
    using member_set_groups [OF n4(1)] n3(3) n2(3) member_set_groups [OF n1(1)] by (simp add: assoc_members_def)
  have "Association_HandleReport env ?data (of_nat (5 + length ?xs)) n = Some (Association_continue env n4)"
    using members fits n2(1) ch n1(2) n2(5)
    by (simp add: Association_HandleReport_def peek_def n1_def [symmetric] n4_def [symmetric])
  then have "assoc_report env r n = Some (Association_continue env n4)"
    by (simp add: assoc_report_def Association_HandleMsg_def peek_def)
  then show ?thesis using assoc_continue [OF ok4] v4 m4 by simp
qed

lemma assoc_start:
  assumes ok: "assoc_ok env n"
  shows "assoc_ok env (Association_RequestAllGroups env n) \<and> member_set (Association_RequestAllGroups env n) = member_set n \<and>
    assoc_view (Association_RequestAllGroups env n) = begin_walk (assoc_view n)"
proof -
  obtain c where c: "gn_assoc n = Some c" "as_getSupported c" "as_pendingMembers c = []" "node_ok env n"
    using ok by (auto simp: assoc_ok_def split: option.splits)
  define n1 where "n1 = map_assoc (\<lambda>c. c\<lparr>as_queryAll := True\<rparr>) n"
  have n1: "gn_assoc n1 = Some (c\<lparr>as_queryAll := True\<rparr>)" "gn_groups n1 = gn_groups n" "gn_out n1 = gn_out n"
    using c by (simp_all add: n1_def map_assoc_def)
  let ?i = "first_group (as_numGroups c)"
  have e: "Association_RequestAllGroups env n = Association_QueryGroup env ?i n1"
    using n1(1) by (simp add: Association_RequestAllGroups_def n1_def [symmetric] first_group_def)
  note q = assoc_query [OF n1(1), of env ?i]
  have g: "gn_groups (Association_QueryGroup env ?i n1) = gn_groups n" using q(3) c n1(2) by simp
  have v: "assoc_view (Association_QueryGroup env ?i n1) = begin_walk (assoc_view n)"
    using q(1) c n1(3) by (simp add: begin_walk_def assoc_view_def queries_def)
  show ?thesis unfolding e using node_ok_groups [OF c(4) g] q(2) c member_set_groups [OF g] v by (simp add: assoc_ok_def)
qed

interpretation assoc: group_walk assoc_view member_set "assoc_ok env" "Association_RequestAllGroups env" "assoc_report env"
    gr_group assoc_members "assoc_fits env" for env
  using assoc_start assoc_report_step by unfold_locales blast+

section \<open>The walk of MultiChannelAssociation\<close>

text \<open>The members as a device lists them: the nodes, a zero if end points follow, nodes with their end points.\<close>

definition end_point_bytes :: "instance_association list \<Rightarrow> bytes" where
  "end_point_bytes ms =
     (let ends = filter (\<lambda>a. ia_instance a \<noteq> 0) ms
      in map ia_nodeId (filter (\<lambda>a. ia_instance a = 0) ms) @
         (if ends = [] then [] else 0 # concat (map (\<lambda>a. [ia_nodeId a, ia_instance a]) ends)))"

lemma end_point_members_nodes:
  "\<forall>a \<in> set ms. ia_nodeId a \<noteq> 0 \<and> ia_instance a = 0 \<Longrightarrow> end_point_members nx False (map ia_nodeId ms @ xs) = ms @ end_point_members nx False xs"
  by (induction ms) (auto simp: instance_association.expand)

lemma end_point_members_ends:
  "\<forall>a \<in> set ms. ia_nodeId a \<noteq> 0 \<Longrightarrow> end_point_members nx True (concat (map (\<lambda>a. [ia_nodeId a, ia_instance a]) ms)) = ms"
  by (induction ms) auto

text \<open>The parser reads back what the device lists.\<close>

lemma end_point_members_bytes:
  assumes "\<forall>a \<in> set ms. ia_nodeId a \<noteq> 0"
  shows "end_point_members nx False (end_point_bytes ms) = filter (\<lambda>a. ia_instance a = 0) ms @ filter (\<lambda>a. ia_instance a \<noteq> 0) ms"
  using assms end_point_members_nodes [of "filter (\<lambda>a. ia_instance a = 0) ms" nx]
    end_point_members_nodes [of "filter (\<lambda>a. ia_instance a = 0) ms" nx "[]"]
    end_point_members_ends [of "filter (\<lambda>a. ia_instance a \<noteq> 0) ms" nx]
  by (auto simp: end_point_bytes_def Let_def)

definition mca_view :: "group_node \<Rightarrow> walk" where
  "mca_view n =
     (case gn_mca n of
        Some c \<Rightarrow> Walk (as_numGroups c) (as_queryAll c) (as_currentGroupQuery c) (queries CC_MULTI_CHANNEL_ASSOCIATION n)
      | None \<Rightarrow> Walk 0 False 0 [])"

definition mca_ok :: "group_env \<Rightarrow> group_node \<Rightarrow> bool" where
  "mca_ok env n \<longleftrightarrow> node_ok env n \<and>
     (case gn_mca n of Some c \<Rightarrow> as_getSupported c \<and> as_pendingMembers c = [] | None \<Rightarrow> False)"

definition mca_report :: "group_env \<Rightarrow> instance_association group_report \<Rightarrow> group_node \<Rightarrow> group_node option" where
  "mca_report env r n = map_option snd (MultiChannelAssociation_HandleMsg env
     ([AssociationCmd_Report, gr_group r, gr_max r, 0] @ end_point_bytes (gr_members r) @ gr_rest r)
     (of_nat (5 + length (end_point_bytes (gr_members r)))) n)"

definition mca_fits :: "group_env \<Rightarrow> instance_association group_report \<Rightarrow> bool" where
  "mca_fits env r \<longleftrightarrow> gr_group r \<noteq> 0 \<and> (ge_returnRoutes env \<longrightarrow> gr_group r \<noteq> 255) \<and> gr_max r \<noteq> 0 \<and> gr_rest r \<noteq> [] \<and>
     distinct (gr_members r) \<and> (\<forall>a \<in> set (gr_members r). ia_nodeId a \<noteq> 0) \<and> length (end_point_bytes (gr_members r)) \<le> 250"

lemma length_end_point_bytes: "length ms \<le> length (end_point_bytes ms)"
proof -
  let ?e = "filter (\<lambda>a. ia_instance a \<noteq> 0) ms"
  have "length (concat (map (\<lambda>a. [ia_nodeId a, ia_instance a]) xs)) = 2 * length xs" for xs by (induction xs) simp_all
  moreover have "length ms = length (filter (\<lambda>a. ia_instance a = 0) ms) + length ?e"
    using sum_length_filter_compl [of "\<lambda>a. ia_instance a = 0" ms] by simp
  ultimately show ?thesis by (cases "?e = []") (simp_all only: end_point_bytes_def Let_def length_append length_map if_True if_False list.size)
qed

lemma mca_query:
  assumes c: "gn_mca n = Some c" and a: "as_getSupported c" "as_queryAll c"
  shows "mca_view (MultiChannelAssociation_QueryGroup env i n) = Walk (as_numGroups c) True i (queries CC_MULTI_CHANNEL_ASSOCIATION n @ [i])"
    "gn_mca (MultiChannelAssociation_QueryGroup env i n) = Some (c\<lparr>as_currentGroupQuery := i\<rparr>)"
    "gn_groups (MultiChannelAssociation_QueryGroup env i n) = gn_groups n"
  using a
  by (simp_all add: MultiChannelAssociation_QueryGroup_def mca_view_def c map_mca_def emit_def queries_def map_filter_append
      List.map_filter_def group_query_def query_msg_def Append_def Msg_new_def)

lemma mca_continue:
  assumes ok: "mca_ok env n"
  shows "mca_ok env (MultiChannelAssociation_continue env n) \<and> member_set (MultiChannelAssociation_continue env n) = member_set n \<and>
    (wk_all (mca_view n) \<longrightarrow> advances (mca_view n) (mca_view (MultiChannelAssociation_continue env n)))"
proof -
  obtain c where c: "gn_mca n = Some c" "as_getSupported c" "as_pendingMembers c = []" "node_ok env n"
    using ok by (auto simp: mca_ok_def split: option.splits)
  show ?thesis
  proof (cases "as_queryAll c")
    case False
    then show ?thesis using ok c by (simp add: MultiChannelAssociation_continue_def mca_view_def)
  next
    case all: True
    define i where "i = next_group (as_currentGroupQuery c)"
    show ?thesis
    proof (cases "i \<le> as_numGroups c")
      case True
      then have e: "MultiChannelAssociation_continue env n = MultiChannelAssociation_QueryGroup env i n" using c all by (simp add: MultiChannelAssociation_continue_def i_def)
      have v: "mca_view n = Walk (as_numGroups c) True (as_currentGroupQuery c) (queries CC_MULTI_CHANNEL_ASSOCIATION n)"
        using c all by (simp add: mca_view_def)
      let ?m = "MultiChannelAssociation_QueryGroup env i n"
      note m = mca_query [OF c(1,2) all, of env i]
      have "mca_ok env ?m" using node_ok_groups [OF c(4) m(3)] m(2) c by (simp add: mca_ok_def)
      moreover have "advances (mca_view n) (mca_view ?m)" 
        unfolding m(1) v advances_def using True by (simp add: i_def)
      ultimately show ?thesis unfolding e using member_set_groups [OF m(3)] by simp
    next
      case False
      let ?n = "AutoAssociate env n"
      have q: "quiet n ?n" by (rule quiet_rules)
      obtain out where out: "gn_out ?n = gn_out n @ out" using q by (auto simp: quiet_def)
      have "map_option (as_currentGroupQuery_update (\<lambda>_. 0)) (gn_mca ?n) = map_option (as_currentGroupQuery_update (\<lambda>_. 0)) (Some c)"
        using q c(1) by (simp add: quiet_def)
      then obtain c' where c': "gn_mca ?n = Some c'" "as_numGroups c' = as_numGroups c" "as_getSupported c' = as_getSupported c"
        "as_pendingMembers c' = as_pendingMembers c" by (rule same_class)
      have e: "MultiChannelAssociation_continue env n = map_mca (\<lambda>c. c\<lparr>as_queryAll := False, as_currentGroupQuery := 0\<rparr>) ?n"
        using False c all by (simp add: MultiChannelAssociation_continue_def i_def)
      let ?m = "map_mca (\<lambda>c. c\<lparr>as_queryAll := False, as_currentGroupQuery := 0\<rparr>) ?n"
      have m: "gn_groups ?m = gn_groups n" "gn_mca ?m = Some (c'\<lparr>as_queryAll := False, as_currentGroupQuery := 0\<rparr>)"
        "queries CC_MULTI_CHANNEL_ASSOCIATION ?m = queries CC_MULTI_CHANNEL_ASSOCIATION n @ List.map_filter (group_query CC_MULTI_CHANNEL_ASSOCIATION) out"
        using quiet_groups [OF q] c' out by (simp_all add: map_mca_def queries_def map_filter_append)
      have "mca_ok env ?m" using node_ok_groups [OF c(4) m(1)] m(2) c c' by (simp add: mca_ok_def)
      moreover have "advances (mca_view n) (mca_view ?m)"
        using False m(2,3) c(1) c' by (simp add: advances_def mca_view_def i_def)
      ultimately show ?thesis unfolding e using member_set_groups [OF m(1)] by simp
    qed
  qed
qed

lemma mca_start:
  assumes ok: "mca_ok env n"
  shows "mca_ok env (MultiChannelAssociation_RequestAllGroups env n) \<and> member_set (MultiChannelAssociation_RequestAllGroups env n) = member_set n \<and>
    mca_view (MultiChannelAssociation_RequestAllGroups env n) = begin_walk (mca_view n)"
proof -
  obtain c where c: "gn_mca n = Some c" "as_getSupported c" "as_pendingMembers c = []" "node_ok env n"
    using ok by (auto simp: mca_ok_def split: option.splits)
  define n1 where "n1 = map_mca (\<lambda>c. c\<lparr>as_queryAll := True\<rparr>) n"
  have n1: "gn_mca n1 = Some (c\<lparr>as_queryAll := True\<rparr>)" "gn_groups n1 = gn_groups n" "gn_out n1 = gn_out n"
    using c by (simp_all add: n1_def map_mca_def)
  let ?i = "first_group (as_numGroups c)"
  have e: "MultiChannelAssociation_RequestAllGroups env n = MultiChannelAssociation_QueryGroup env ?i n1"
    using n1(1) by (simp add: MultiChannelAssociation_RequestAllGroups_def n1_def [symmetric] first_group_def)
  note q = mca_query [OF n1(1), of env ?i]
  have g: "gn_groups (MultiChannelAssociation_QueryGroup env ?i n1) = gn_groups n" using q(3) c n1(2) by simp
  have v: "mca_view (MultiChannelAssociation_QueryGroup env ?i n1) = begin_walk (mca_view n)"
    using q(1) c n1(3) by (simp add: begin_walk_def mca_view_def queries_def)
  show ?thesis unfolding e using node_ok_groups [OF c(4) g] q(2) c member_set_groups [OF g] v by (simp add: mca_ok_def)
qed

lemma mca_report_step:
  assumes ok: "mca_ok env n" and r: "mca_fits env r"
  shows "\<exists>n'. mca_report env r n = Some n' \<and> mca_ok env n' \<and>
    member_set n' = (member_set n)(gr_group r := set (gr_members r)) \<and>
    (wk_all (mca_view n) \<longrightarrow> advances (mca_view n) (mca_view n'))"
proof -
  obtain c where c: "gn_mca n = Some c" "as_getSupported c" "as_pendingMembers c = []" "node_ok env n"
    using ok by (auto simp: mca_ok_def split: option.splits)
  let ?bs = "end_point_bytes (gr_members r)" and ?i = "gr_group r"
  let ?ms = "filter (\<lambda>a. ia_instance a = 0) (gr_members r) @ filter (\<lambda>a. ia_instance a \<noteq> 0) (gr_members r)"
  note fits = r [unfolded mca_fits_def]
  let ?data = "[AssociationCmd_Report, ?i, gr_max r, 0] @ ?bs @ gr_rest r"
  let ?len = "of_nat (5 + length ?bs) :: uint32"
  have len: "5 \<le> ?len" "unat ?len = 5 + length ?bs" using report_length [of "length ?bs"] fits by blast+
  have members: "MultiChannelAssociation_members ?data ?len = Some ?ms"
    using len fits end_point_members_bytes [of "gr_members r"]
    by (simp add: MultiChannelAssociation_members_def peek_block_def peek_def del: of_nat_add)
  define n1 where "n1 = map_mca (\<lambda>c. c\<lparr>as_pendingMembers := as_pendingMembers c @ ?ms\<rparr>) n"
  have n1: "gn_groups n1 = gn_groups n" "gn_mca n1 = Some (c\<lparr>as_pendingMembers := ?ms\<rparr>)" "gn_out n1 = gn_out n"
    using c by (simp_all add: n1_def map_mca_def)
  have ok1: "node_ok env n1" by (rule node_ok_groups [OF c(4) n1(1)])
  obtain n2 g where n2: "ensure_group ?i (gr_max r) n1 = Some n2" "node_ok env n2" "member_set n2 = member_set n1"
    "Node_GetGroup ?i n2 = Some g" "gn_mca n2 = gn_mca n1" "gn_out n2 = gn_out n1"
    by (rule ensure_group_ok [OF ok1, of ?i "gr_max r"]) (use fits in auto)
  define n3 where "n3 = update_group ?i (\<lambda>g. g\<lparr>g_multiInstance := True\<rparr>) n2"
  have g3: "gn_groups n3 = m_insert ?i (g\<lparr>g_multiInstance := True\<rparr>) (gn_groups n2)" by (simp add: n3_def update_group_def n2(4))
  have "group_ok env ?i (g\<lparr>g_multiInstance := True\<rparr>)" using node_okD [OF n2(2,4)] by (simp add: group_ok_def)
  then have ok3: "node_ok env n3" by (rule node_ok_insert [OF n2(2) _ g3])
  have m3: "member_set n3 = member_set n2" using member_set_insert [OF n2(2) g3] n2(4) by (auto simp: member_set_def fun_eq_iff)
  have s3: "gn_mca n3 = gn_mca n1" "gn_out n3 = gn_out n1" using n2(4-6) by (simp_all add: n3_def update_group_def)
  have in3: "Node_GetGroup ?i n3 = Some (g\<lparr>g_multiInstance := True\<rparr>)"
    using n2(2) by (simp add: Node_GetGroup_def g3 map_of_m_insert node_ok_def)
  have dm: "distinct ?ms" "length ?ms < 256" "set ?ms = set (gr_members r)"
    using fits length_end_point_bytes [of "gr_members r"] sum_length_filter_compl [of "\<lambda>a. ia_instance a = 0" "gr_members r"] by auto
  obtain n4 where n4: "OnGroupChanged env ?i ?ms n3 = Some n4" "node_ok env n4" "member_set n4 = (member_set n3)(?i := set ?ms)"
    "gn_mca n4 = gn_mca n3" "queries CC_MULTI_CHANNEL_ASSOCIATION n4 = queries CC_MULTI_CHANNEL_ASSOCIATION n3"
    using OnGroupChanged_exact [OF ok3 in3 dm(1,2)] by metis
  define n5 where "n5 = map_mca (\<lambda>c. c\<lparr>as_pendingMembers := []\<rparr>) n4"
  have n5: "gn_groups n5 = gn_groups n4" "gn_mca n5 = Some c" "gn_out n5 = gn_out n4"
    using n1(2) s3 n4(4) c(3) by (simp_all add: n5_def map_mca_def)
  have ok5: "mca_ok env n5" using node_ok_groups [OF n4(2) n5(1)] n5(2) c by (simp add: mca_ok_def)
  have v5: "mca_view n5 = mca_view n" using n5 n4(5) s3 n1(3) c(1) by (simp add: mca_view_def queries_def)
  have m5: "member_set n5 = (member_set n)(?i := set (gr_members r))"
    using member_set_groups [OF n5(1)] n4(3) m3 n2(3) member_set_groups [OF n1(1)] dm(3) by simp
  have "MultiChannelAssociation_HandleReport env ?data ?len n = Some (MultiChannelAssociation_continue env n5)"
    using members fits n2(1) n4(1) n1(2) s3
    by (simp add: MultiChannelAssociation_HandleReport_def peek_def n1_def [symmetric] n3_def [symmetric] n5_def [symmetric])
  then have "mca_report env r n = Some (MultiChannelAssociation_continue env n5)"
    by (simp add: mca_report_def MultiChannelAssociation_HandleMsg_def peek_def)
  then show ?thesis using mca_continue [OF ok5] v5 m5 by simp
qed

interpretation mca: group_walk mca_view member_set "mca_ok env" "MultiChannelAssociation_RequestAllGroups env" "mca_report env"
    gr_group "\<lambda>r. set (gr_members r)" "mca_fits env" for env
  using mca_start mca_report_step by unfold_locales blast+

section \<open>Properties\<close>


definition example_env :: group_env where
  "example_env = \<lparr>ge_controllerNodeId = 1, ge_transmitOptions = 0x25, ge_associate = True, ge_returnRoutes = True\<rparr>"

definition example_class :: "uint8 \<Rightarrow> bool \<Rightarrow> 'a assoc_class" where
  "example_class k b = \<lparr>as_getSupported = True, as_staticValues = False, as_queryAll = b, as_currentGroupQuery = 1,
     as_numGroups = k, as_pendingMembers = []\<rparr>"

definition example_group :: "uint8 \<Rightarrow> group" where
  "example_group i = \<lparr>g_label = ''Group'', g_groupIdx = i, g_maxAssociations = 5, g_auto = False, g_multiInstance = False,
     g_associations = [(InstanceAssociation 1 0, []), (InstanceAssociation 3 0, [])]\<rparr>"

definition example_node :: "uint8 \<Rightarrow> bool \<Rightarrow> (uint8 \<times> group) list \<Rightarrow> group_node" where
  "example_node k b gs = \<lparr>gn_id = 7, gn_basic = 4, gn_groups = gs, gn_assoc = Some (example_class k b), gn_mca = None,
     gn_forceInstances = True, gn_hasMultiInstance = False, gn_commandConfig = None, gn_numRouteNodes = 0,
     gn_routeNodes = replicate 5 0, gn_live = {}, gn_next = 0, gn_out = []\<rparr>"

lemmas example_defs = example_env_def example_class_def example_group_def example_node_def


text \<open>A node that claims 255 groups, all of them supported, is asked for one group after the other without end:
  the walk is still going on after any number of reports, with one request for each.\<close>

theorem group_walk_endless:
  assumes "mca_ok env n" "gn_mca n = Some c" "as_numGroups c = 255" "\<forall>r \<in> set rs. mca_fits env r"
  shows "\<exists>n' c'. feed (mca_report env) rs (MultiChannelAssociation_RequestAllGroups env n) = Some n' \<and>
    gn_mca n' = Some c' \<and> as_queryAll c' \<and>
    length (queries CC_MULTI_CHANNEL_ASSOCIATION n') = length (queries CC_MULTI_CHANNEL_ASSOCIATION n) + Suc (length rs)"
proof -
  have v: "mca_view n = Walk 255 (as_queryAll c) (as_currentGroupQuery c) (queries CC_MULTI_CHANNEL_ASSOCIATION n)"
    using assms(2,3) by (simp add: mca_view_def)
  then obtain n' where n': "feed (mca_report env) rs (MultiChannelAssociation_RequestAllGroups env n) = Some n'" "mca_ok env n'"
    "wk_all (mca_view n')" "length (wk_queries (mca_view n')) = length (wk_queries (mca_view n)) + Suc (length rs)"
    using mca.walk_endless [OF assms(1) _ assms(4)] by auto
  obtain c' where "gn_mca n' = Some c'" using n'(2) by (auto simp: mca_ok_def split: option.splits)
  then show ?thesis using n' v by (simp add: mca_view_def)
qed

theorem group_walk_endless_witness:
  "\<exists>n' c'. feed (mca_report example_env) [GroupReport 1 5 [InstanceAssociation 1 0, InstanceAssociation 4 2] [0]]
      (MultiChannelAssociation_RequestAllGroups example_env ((example_node 2 False [])\<lparr>gn_mca := Some (example_class 255 False)\<rparr>)) = Some n' \<and>
    gn_mca n' = Some c' \<and> as_queryAll c' \<and> length (queries CC_MULTI_CHANNEL_ASSOCIATION n') = 2"
proof -
  let ?n = "(example_node 2 False [])\<lparr>gn_mca := Some (example_class 255 False)\<rparr>"
    and ?r = "GroupReport 1 5 [InstanceAssociation 1 0, InstanceAssociation 4 2] [0]"
  have q: "queries CC_MULTI_CHANNEL_ASSOCIATION ?n = []" by (simp add: queries_def example_node_def List.map_filter_def)
  have "mca_fits example_env ?r" by (simp add: mca_fits_def example_env_def end_point_bytes_def)
  moreover have "mca_ok example_env ?n" "gn_mca ?n = Some (example_class 255 False)"
    by (simp_all add: mca_ok_def node_ok_def example_defs)
  ultimately have "\<exists>n' c'. feed (mca_report example_env) [?r] (MultiChannelAssociation_RequestAllGroups example_env ?n) = Some n' \<and>
      gn_mca n' = Some c' \<and> as_queryAll c' \<and>
      length (queries CC_MULTI_CHANNEL_ASSOCIATION n') = length (queries CC_MULTI_CHANNEL_ASSOCIATION ?n) + Suc (length [?r])"
    by (intro group_walk_endless [where c = "example_class 255 False"]) (simp_all add: example_class_def)
  then show ?thesis using q by (simp add: numeral_2_eq_2)
qed

text \<open>Adding an association while the walk is on diverts it: the request that follows the change is remembered as
  the group the walk is at, so the next report, whatever group it is of, makes the walk go on behind the changed
  group; the groups in between are never asked for.\<close>

theorem association_diverts_walk:
  assumes "assoc_ok env n" "wk_all (assoc_view n)" "Node_GetGroup j n = Some g" "gn_mca n = None" "nid \<noteq> 255"
    and "assoc_fits env r" "unat j < 255" "j + 1 \<le> wk_groups (assoc_view n)"
  shows "\<exists>n'. assoc_report env r (Node_AddAssociation env j nid ep n) = Some n' \<and>
    assoc_view n' = Walk (wk_groups (assoc_view n)) True (j + 1) (wk_queries (assoc_view n) @ [j, j + 1])"
proof -
  obtain c where c: "gn_assoc n = Some c" "as_getSupported c" "as_pendingMembers c = []" "node_ok env n"
    using assms(1) by (auto simp: assoc_ok_def split: option.splits)
  have all: "as_queryAll c" using assms(2) c(1) by (simp add: assoc_view_def)
  have idx: "g_groupIdx g = j" using node_okD [OF c(4) assms(3)] by (simp add: group_ok_def)
  let ?n1 = "Association_Set env j nid n"
  have n1: "gn_assoc ?n1 = Some c" "gn_groups ?n1 = gn_groups n" "queries CC_ASSOCIATION ?n1 = queries CC_ASSOCIATION n"
    using c(1) by (simp_all add: Association_Set_def queries_emit group_query_def command_msg_def Append_def Msg_new_def)
      (simp_all add: emit_def)
  have add: "Node_AddAssociation env j nid ep n = Association_QueryGroup env j ?n1"
    using assms(3-5) c(1) idx by (simp add: Node_AddAssociation_def Group_AddAssociation_def)
  note q = assoc_query [OF n1(1) c(2) all, of env j]
  let ?n2 = "Association_QueryGroup env j ?n1"
  have "assoc_ok env ?n2" using node_ok_groups [OF c(4)] q(2,3) n1(2) c by (simp add: assoc_ok_def)
  then obtain n' where "assoc_report env r ?n2 = Some n'" "advances (assoc_view ?n2) (assoc_view n')"
    using assoc.report_step [OF _ assms(6)] q(1) by fastforce
  then show ?thesis using assms(8) next_group_unat [OF assms(7)] c(1) n1(3) unfolding add q(1)
    by (simp add: advances_def assoc_view_def)
qed

theorem association_diverts_walk_witness:
  "\<exists>n'. assoc_report example_env (GroupReport 1 5 [] []) (Node_AddAssociation example_env 4 3 0 (example_node 9 True [(4, example_group 4)])) = Some n' \<and>
    assoc_view n' = Walk 9 True 5 [4, 5]"
proof -
  let ?n = "example_node 9 True [(4, example_group 4)]"
  have v: "assoc_view ?n = Walk 9 True 1 []"
    by (simp add: assoc_view_def example_defs queries_def List.map_filter_def)
  have ok: "assoc_ok example_env ?n"
    by (simp add: assoc_ok_def node_ok_def example_defs members_ok_def m_ordered_def less_instance_association_def)
  have "\<exists>n'. assoc_report example_env (GroupReport 1 5 [] []) (Node_AddAssociation example_env 4 3 0 ?n) = Some n' \<and>
    assoc_view n' = Walk (wk_groups (assoc_view ?n)) True (4 + 1) (wk_queries (assoc_view ?n) @ [4, 4 + 1])"
  proof (rule association_diverts_walk [OF ok])
    show "Node_GetGroup 4 ?n = Some (example_group 4)" by (simp add: Node_GetGroup_def example_node_def)
  qed (simp_all add: v assoc_fits_def, simp add: example_node_def)
  then show ?thesis by (simp add: v)
qed

end
