(* ===== verification/Polling.thy ===== *)
theory Polling
  imports Value_Id Keyed_Store "HOL-Library.Signed_Division"
begin

text \<open>
  The polling of values (\<open>Driver::EnablePoll\<close>, \<open>DisablePoll\<close>, \<open>isPolled\<close>, \<open>SetPollIntensity\<close> and the poll thread
  \<open>PollThreadProc\<close>).  The list of polled values is shared with the poll thread under the recursive mutex
  \<open>m_pollMutex\<close>, which is part of the state: an operation may find it held by another thread.
\<close>

section \<open>State\<close>

record poll_entry =
  pe_id :: value_id
  pe_pollCounter :: uint8

text \<open>A node: whether it listens, the state of its wake-up class, its classes, and the poll intensity of the values
  in its store, by key.\<close>

record poll_node =
  pn_listening :: bool
  pn_awake :: "bool option"
  pn_pollRequired :: bool
  pn_classes :: "uint8 list"
  pn_values :: "uint32 \<Rightarrow> uint8 option"

datatype poll_out = Out_RequestValue value_id | Out_PollingEnabled value_id | Out_PollingDisabled value_id

text \<open>\<open>pd_mutex\<close> is the thread that holds the mutex and how often it has locked it.\<close>

record poll_driver =
  pd_list :: "poll_entry list"
  pd_nodes :: "uint8 \<Rightarrow> poll_node option"
  pd_awakeNodesQueried :: bool
  pd_interval :: int
  pd_intervalBetweenPolls :: bool
  pd_mutex :: "(nat \<times> nat) option"
  pd_out :: "poll_out list"

text \<open>What becomes of a call: it returns, it waits for the mutex, or its behaviour is undefined.\<close>

datatype 'a outcome = Done 'a | Blocked | Undefined

definition lock :: "nat \<Rightarrow> poll_driver \<Rightarrow> poll_driver outcome" where
  "lock t d = (case pd_mutex d of
     None \<Rightarrow> Done (d\<lparr>pd_mutex := Some (t, 1)\<rparr>)
   | Some (holder, k) \<Rightarrow> if holder = t then Done (d\<lparr>pd_mutex := Some (t, Suc k)\<rparr>) else Blocked)"

definition unlock :: "poll_driver \<Rightarrow> poll_driver" where
  "unlock d = d\<lparr>pd_mutex := (case pd_mutex d of
     Some (t, k) \<Rightarrow> if k \<le> 1 then None else Some (t, k - 1)
   | None \<Rightarrow> None)\<rparr>"

definition locked :: "nat \<Rightarrow> poll_driver \<Rightarrow> (poll_driver \<Rightarrow> 'a outcome) \<Rightarrow> 'a outcome" where
  "locked t d f = (case lock t d of Done d1 \<Rightarrow> f d1 | Blocked \<Rightarrow> Blocked | Undefined \<Rightarrow> Undefined)"

section \<open>Values\<close>

text \<open>\<open>Driver::GetValue\<close>: the poll intensity of a value, if its node and the value exist.\<close>

definition pollIntensity :: "poll_driver \<Rightarrow> value_id \<Rightarrow> uint8 option" where
  "pollIntensity d v = (case pd_nodes d (GetNodeId v) of None \<Rightarrow> None | Some n \<Rightarrow> pn_values n (GetValueStoreKey v))"

definition set_intensity :: "value_id \<Rightarrow> uint8 \<Rightarrow> poll_driver \<Rightarrow> poll_driver" where
  "set_intensity v i d = d\<lparr>pd_nodes := (pd_nodes d)(GetNodeId v :=
     map_option (\<lambda>n. n\<lparr>pn_values := (pn_values n)(GetValueStoreKey v \<mapsto> i)\<rparr>) (pd_nodes d (GetNodeId v)))\<rparr>"

definition poll_emit :: "poll_out \<Rightarrow> poll_driver \<Rightarrow> poll_driver" where
  "poll_emit x d = d\<lparr>pd_out := pd_out d @ [x]\<rparr>"

section \<open>Operations of the application\<close>

definition EnablePoll :: "nat \<Rightarrow> value_id \<Rightarrow> uint8 \<Rightarrow> poll_driver \<Rightarrow> (bool \<times> poll_driver) outcome" where
  "EnablePoll t v intensity d = locked t d (\<lambda>d1.
     if pollIntensity d1 v = None then Done (False, unlock d1)
     else let d2 = set_intensity v intensity d1 in
       if v \<in> pe_id ` set (pd_list d2) then Done (True, unlock d2)
       else let d3 = d2\<lparr>pd_list := pd_list d2 @ [\<lparr>pe_id = v, pe_pollCounter = intensity\<rparr>]\<rparr>
            in Done (True, poll_emit (Out_PollingEnabled v) (unlock d3)))"

fun erase_first :: "value_id \<Rightarrow> poll_entry list \<Rightarrow> poll_entry list" where
  "erase_first v [] = []"
| "erase_first v (e # es) = (if pe_id e = v then es else e # erase_first v es)"

text \<open>When the value is gone the loop goes on from the erased list element.\<close>

definition DisablePoll :: "nat \<Rightarrow> value_id \<Rightarrow> poll_driver \<Rightarrow> (bool \<times> poll_driver) outcome" where
  "DisablePoll t v d = locked t d (\<lambda>d1.
     if pd_nodes d1 (GetNodeId v) = None then Done (False, unlock d1)
     else if v \<in> pe_id ` set (pd_list d1) then
       (let d2 = d1\<lparr>pd_list := erase_first v (pd_list d1)\<rparr>
        in if pollIntensity d2 v = None then Undefined
           else Done (True, poll_emit (Out_PollingDisabled v) (unlock (set_intensity v 0 d2))))
     else Done (False, unlock d1))"

definition isPolled :: "nat \<Rightarrow> value_id \<Rightarrow> poll_driver \<Rightarrow> (bool \<times> poll_driver) outcome" where
  "isPolled t v d = locked t d (\<lambda>d1.
     let bPolled = (case pollIntensity d1 v of None \<Rightarrow> False | Some i \<Rightarrow> i \<noteq> 0) in
     if pd_nodes d1 (GetNodeId v) \<noteq> None \<and> v \<in> pe_id ` set (pd_list d1) \<and> bPolled then Done (True, unlock d1)
     else Done (False, unlock d1))"

text \<open>An unknown value: the function returns without unlocking.\<close>

definition SetPollIntensity :: "nat \<Rightarrow> value_id \<Rightarrow> uint8 \<Rightarrow> poll_driver \<Rightarrow> (unit \<times> poll_driver) outcome" where
  "SetPollIntensity t v intensity d = locked t d (\<lambda>d1.
     if pollIntensity d1 v = None then Done ((), d1)
     else Done ((), unlock (set_intensity v intensity d1)))"

section \<open>The poll thread\<close>

text \<open>The request: a sleeping node is marked instead.\<close>

definition request_poll :: "value_id \<Rightarrow> poll_driver \<Rightarrow> poll_driver" where
  "request_poll v d = (case pd_nodes d (GetNodeId v) of
     None \<Rightarrow> d
   | Some n \<Rightarrow>
       if \<not> pn_listening n \<and> pn_awake n = Some False
       then d\<lparr>pd_nodes := (pd_nodes d)(GetNodeId v \<mapsto> n\<lparr>pn_pollRequired := True\<rparr>)\<rparr>
       else if GetCommandClassId v \<in> set (pn_classes n) then poll_emit (Out_RequestValue v) d
       else d)"

text \<open>The delay after a poll, in milliseconds; \<open>None\<close> is a signed overflow.\<close>

definition poll_delay :: "poll_driver \<Rightarrow> int option" where
  "poll_delay d =
     (if pd_intervalBetweenPolls d then Some (pd_interval d)
      else let p = (if pd_interval d < 100 then pd_interval d * 1000 else pd_interval d)
           in if - (2 ^ 31) \<le> p \<and> p < 2 ^ 31 then Some (p sdiv int (length (pd_list d))) else None)"

text \<open>The test at the head of the loop, without the mutex, and one turn of the loop.\<close>

definition poll_ready :: "poll_driver \<Rightarrow> bool" where
  "poll_ready d \<longleftrightarrow> pd_awakeNodesQueried d \<and> pd_list d \<noteq> []"

definition poll_turn :: "nat \<Rightarrow> poll_driver \<Rightarrow> (int option \<times> poll_driver) outcome" where
  "poll_turn t d = locked t d (\<lambda>d1. case pd_list d1 of
     [] \<Rightarrow> Undefined
   | e # es \<Rightarrow>
       if pe_pollCounter e \<noteq> 1
       then Done (None, unlock (d1\<lparr>pd_list := es @ [e\<lparr>pe_pollCounter := pe_pollCounter e - 1\<rparr>]\<rparr>))
       else (case pollIntensity d1 (pe_id e) of
           None \<Rightarrow> Done (None, d1\<lparr>pd_list := es\<rparr>)
         | Some i \<Rightarrow>
             let d2 = d1\<lparr>pd_list := es @ [e\<lparr>pe_pollCounter := i\<rparr>]\<rparr> in
             (case poll_delay d2 of
                None \<Rightarrow> Undefined
              | Some ms \<Rightarrow> Done (Some ms, unlock (request_poll (pe_id e) d2)))))"

text \<open>The number of turns the thread makes.\<close>

fun poll_turns :: "nat \<Rightarrow> nat \<Rightarrow> poll_driver \<Rightarrow> poll_driver outcome" where
  "poll_turns t 0 d = Done d"
| "poll_turns t (Suc k) d = (case poll_turn t d of Done (_, d1) \<Rightarrow> poll_turns t k d1 | Blocked \<Rightarrow> Blocked | Undefined \<Rightarrow> Undefined)"

section \<open>Rounds of the poll list\<close>

definition poll_env :: "poll_driver \<Rightarrow> bool" where
  "poll_env d \<longleftrightarrow> pd_mutex d = None \<and> poll_delay d \<noteq> None \<and>
     (\<forall>e \<in> set (pd_list d). \<exists>n. pd_nodes d (GetNodeId (pe_id e)) = Some n \<and> pn_values n (GetValueStoreKey (pe_id e)) \<noteq> None \<and>
        (pn_listening n \<or> pn_awake n \<noteq> Some False) \<and> GetCommandClassId (pe_id e) \<in> set (pn_classes n))"

definition next_counter :: "uint8 \<Rightarrow> uint8 \<Rightarrow> uint8" where
  "next_counter i c = (if c = 1 then i else c - 1)"

definition turned :: "poll_driver \<Rightarrow> poll_entry \<Rightarrow> poll_entry" where
  "turned d e = e\<lparr>pe_pollCounter := next_counter (the (pollIntensity d (pe_id e))) (pe_pollCounter e)\<rparr>"

definition requested :: "poll_entry list \<Rightarrow> poll_out list" where
  "requested es = map (Out_RequestValue \<circ> pe_id) (filter (\<lambda>e. pe_pollCounter e = 1) es)"

lemma locked_free: "pd_mutex d = None \<Longrightarrow> locked t d f = f (d\<lparr>pd_mutex := Some (t, 1)\<rparr>)"
  by (simp add: locked_def lock_def)

lemma unlock_locked: "pd_mutex d = None \<Longrightarrow> unlock (d\<lparr>pd_mutex := Some (t, 1)\<rparr>) = d"
  by (simp add: unlock_def)

lemma poll_delay_length: "length (pd_list d') = length (pd_list d) \<Longrightarrow> pd_interval d' = pd_interval d \<Longrightarrow>
    pd_intervalBetweenPolls d' = pd_intervalBetweenPolls d \<Longrightarrow> poll_delay d' = poll_delay d"
  unfolding poll_delay_def Let_def by (simp only:)

text \<open>One turn: the first entry goes to the end with its next counter, and is requested when its counter is 1.\<close>

lemma poll_turn_step:
  assumes env: "poll_env d" and e: "pd_list d = e # es"
  shows "\<exists>r. poll_turn t d = Done (r, d\<lparr>pd_list := es @ [turned d e], pd_out := pd_out d @ requested [e]\<rparr>)"
proof (cases "pe_pollCounter e = 1")
  case False
  have m: "pd_mutex d = None" using env by (simp add: poll_env_def)
  have "poll_turn t d = Done (None, d\<lparr>pd_list := es @ [turned d e]\<rparr>)"
    using False e m by (simp add: poll_turn_def locked_free unlock_def turned_def next_counter_def)
  then show ?thesis using False by (simp add: requested_def)
next
  case True
  have m: "pd_mutex d = None" using env by (simp add: poll_env_def)
  obtain n where n: "pd_nodes d (GetNodeId (pe_id e)) = Some n" "pn_values n (GetValueStoreKey (pe_id e)) \<noteq> None"
    "pn_listening n \<or> pn_awake n \<noteq> Some False" "GetCommandClassId (pe_id e) \<in> set (pn_classes n)"
    using env e by (auto simp: poll_env_def)
  then obtain i where i: "pn_values n (GetValueStoreKey (pe_id e)) = Some i" by blast
  let ?d2 = "d\<lparr>pd_mutex := Some (t, 1), pd_list := es @ [turned d e]\<rparr>"
  have "poll_delay ?d2 = poll_delay d" using e by (intro poll_delay_length) simp_all
  then obtain ms where ms: "poll_delay ?d2 = Some ms" using env by (auto simp: poll_env_def)
  have "turned d e = e\<lparr>pe_pollCounter := i\<rparr>" using True n i by (simp add: turned_def next_counter_def pollIntensity_def)
  then show ?thesis using True e m n i ms
    by (auto simp: poll_turn_def locked_free pollIntensity_def request_poll_def poll_emit_def unlock_def requested_def Let_def)
qed

lemma poll_env_turn:
  assumes "poll_env d" "pd_list d = e # es"
  shows "poll_env (d\<lparr>pd_list := es @ [turned d e], pd_out := out\<rparr>)"
proof -
  have "poll_delay (d\<lparr>pd_list := es @ [turned d e], pd_out := out\<rparr>) = poll_delay d"
    using assms(2) by (intro poll_delay_length) simp_all
  then show ?thesis using assms by (auto simp: poll_env_def turned_def)
qed

lemma turned_frame [simp]: "turned (d\<lparr>pd_list := l, pd_out := out\<rparr>) = turned d"
  by (simp add: turned_def pollIntensity_def fun_eq_iff)

lemma requested_append: "requested (xs @ ys) = requested xs @ requested ys"
  by (simp add: requested_def)

lemma poll_turns_part:
  "poll_env d \<Longrightarrow> pd_list d = xs @ ys \<Longrightarrow>
    poll_turns t (length xs) d = Done (d\<lparr>pd_list := ys @ map (turned d) xs, pd_out := pd_out d @ requested xs\<rparr>)"
proof (induction xs arbitrary: d ys)
  case Nil
  then show ?case by (simp add: requested_def)
next
  case (Cons e xs)
  then have e: "pd_list d = e # (xs @ ys)" by simp
  let ?d = "d\<lparr>pd_list := (xs @ ys) @ [turned d e], pd_out := pd_out d @ requested [e]\<rparr>"
  obtain r where r: "poll_turn t d = Done (r, ?d)" using poll_turn_step [OF Cons.prems(1) e] by blast
  have "poll_turns t (length xs) ?d = Done (?d\<lparr>pd_list := (ys @ [turned d e]) @ map (turned ?d) xs, pd_out := pd_out ?d @ requested xs\<rparr>)"
    by (rule Cons.IH) (use poll_env_turn [OF Cons.prems(1) e] in \<open>simp_all\<close>)
  then show ?case using r requested_append [of "[e]" xs] by simp
qed

text \<open>A round, as many turns as there are entries: every entry has had its turn and the order is as before.\<close>

lemma poll_round:
  assumes "poll_env d"
  shows "poll_turns t (length (pd_list d)) d =
    Done (d\<lparr>pd_list := map (turned d) (pd_list d), pd_out := pd_out d @ requested (pd_list d)\<rparr>)"
  using poll_turns_part [OF assms, of "pd_list d" "[]" t] by simp

lemma poll_turns_add:
  "poll_turns t (j + k) d = (case poll_turns t j d of Done d1 \<Rightarrow> poll_turns t k d1 | Blocked \<Rightarrow> Blocked | Undefined \<Rightarrow> Undefined)"
  by (induction t j d rule: poll_turns.induct) (auto split: outcome.split)

lemma poll_env_round:
  assumes "poll_env d"
  shows "poll_env (d\<lparr>pd_list := map (turned d) (pd_list d), pd_out := out\<rparr>)"
proof -
  have "poll_delay (d\<lparr>pd_list := map (turned d) (pd_list d), pd_out := out\<rparr>) = poll_delay d"
    by (intro poll_delay_length) simp_all
  then show ?thesis using assms by (auto simp: poll_env_def turned_def)
qed

text \<open>How often a counter is 1 in \<open>r\<close> rounds.\<close>

fun due :: "uint8 \<Rightarrow> nat \<Rightarrow> uint8 \<Rightarrow> nat" where
  "due i 0 c = 0"
| "due i (Suc r) c = (if c = 1 then 1 else 0) + due i r (next_counter i c)"

lemma count_requested:
  "distinct (map pe_id es) \<Longrightarrow> e \<in> set es \<Longrightarrow> count_list (requested es) (Out_RequestValue (pe_id e)) = (if pe_pollCounter e = 1 then 1 else 0)"
  by (induction es) (auto simp: requested_def count_list_0_iff)

lemma poll_rounds_due:
  "poll_env d \<Longrightarrow> distinct (map pe_id (pd_list d)) \<Longrightarrow>
    \<exists>d' out. poll_turns t (r * length (pd_list d)) d = Done d' \<and> map pe_id (pd_list d') = map pe_id (pd_list d) \<and>
      pd_out d' = pd_out d @ out \<and>
      (\<forall>e \<in> set (pd_list d). count_list out (Out_RequestValue (pe_id e)) = due (the (pollIntensity d (pe_id e))) r (pe_pollCounter e))"
proof (induction r arbitrary: d)
  case 0
  then show ?case by (intro exI [of _ d] exI [of _ "[]"]) simp
next
  case (Suc r)
  let ?d = "d\<lparr>pd_list := map (turned d) (pd_list d), pd_out := pd_out d @ requested (pd_list d)\<rparr>"
  have ids: "map pe_id (pd_list ?d) = map pe_id (pd_list d)" by (simp add: turned_def)
  have inten: "pollIntensity ?d = pollIntensity d" by (simp add: pollIntensity_def fun_eq_iff)
  have dd: "distinct (map pe_id (pd_list ?d))" using Suc.prems(2) unfolding ids .
  obtain d' out where d': "poll_turns t (r * length (pd_list ?d)) ?d = Done d'" "map pe_id (pd_list d') = map pe_id (pd_list ?d)"
    "pd_out d' = pd_out ?d @ out"
    "\<forall>e \<in> set (pd_list ?d). count_list out (Out_RequestValue (pe_id e)) = due (the (pollIntensity ?d (pe_id e))) r (pe_pollCounter e)"
    using Suc.IH [OF poll_env_round [OF Suc.prems(1), of "pd_out d @ requested (pd_list d)"] dd] by blast
  note cnt = count_requested [OF Suc.prems(2)]
  have turns: "poll_turns t (Suc r * length (pd_list d)) d = Done d'"
    using poll_turns_add [of t "length (pd_list d)" "r * length (pd_list d)" d] poll_round [OF Suc.prems(1), of t] d'(1) by simp
  have all: "count_list (requested (pd_list d) @ out) (Out_RequestValue (pe_id e)) = due (the (pollIntensity d (pe_id e))) (Suc r) (pe_pollCounter e)"
    if e: "e \<in> set (pd_list d)" for e
  proof -
    have "turned d e \<in> set (pd_list ?d)" using e by simp
    then have "count_list out (Out_RequestValue (pe_id e)) = due (the (pollIntensity d (pe_id e))) r (pe_pollCounter (turned d e))"
      using d'(4) inten by (fastforce simp: turned_def)
    then show ?thesis using cnt [OF e] by (simp add: turned_def)
  qed
  show ?case
  proof (intro exI conjI ballI)
    show "poll_turns t (Suc r * length (pd_list d)) d = Done d'" by (rule turns)
    show "map pe_id (pd_list d') = map pe_id (pd_list d)" using d'(2) unfolding ids .
    show "pd_out d' = pd_out d @ (requested (pd_list d) @ out)" using d'(3) by simp
  qed (rule all)
qed

text \<open>The period of a value: its intensity, 256 rounds for intensity 0.\<close>

definition period :: "uint8 \<Rightarrow> nat" where
  "period i = (if i = 0 then 256 else unat i)"

lemma period_pos: "0 < period i"
  by (auto simp: period_def unat_gt_0)

lemma period_pred:
  assumes "c \<noteq> 1"
  shows "period c = Suc (period (c - 1))"
proof (cases "c = 0")
  case True
  then show ?thesis by (simp add: period_def unsigned_minus_1_eq_mask mask_eq_exp_minus_1)
next
  case False
  then have u: "unat (c - 1) = unat c - 1" by (simp add: unat_minus_one)
  have "unat c \<noteq> 0" using False by (simp add: unat_eq_zero)
  moreover have "unat c \<noteq> 1" using assms by (metis unat_1 word_unat_eq_iff)
  ultimately have "unat (c - 1) \<noteq> 0" using u by linarith
  then have "c - 1 \<noteq> 0" by (metis unsigned_0)
  then show ?thesis using False u \<open>unat c \<noteq> 0\<close> by (simp add: period_def)
qed

lemma due_closed: "due i r c = (if r < period c then 0 else Suc ((r - period c) div period i))"
proof (induction r arbitrary: c)
  case 0
  then show ?case using period_pos [of c] by simp
next
  case (Suc r)
  show ?case
  proof (cases "c = 1")
    case True
    then have p: "period c = 1" by (simp add: period_def)
    have "due i (Suc r) c = Suc (due i r i)" using True by (simp add: next_counter_def)
    also have "\<dots> = Suc (r div period i)"
      using period_pos [of i] by (simp add: Suc.IH div_if [of r "period i"])
    finally show ?thesis by (simp add: p)
  next
    case False
    then show ?thesis by (simp add: next_counter_def Suc.IH period_pred)
  qed
qed

section \<open>The list of polled values\<close>

text \<open>Enabling and disabling as operations on the set of polled values, called by one thread with the mutex free.\<close>

definition poll_put :: "nat \<Rightarrow> uint8 \<Rightarrow> value_id \<Rightarrow> unit \<Rightarrow> poll_driver \<Rightarrow> bool \<times> poll_driver" where
  "poll_put t i v u d = (case EnablePoll t v i d of Done r \<Rightarrow> r | _ \<Rightarrow> (False, d))"

definition poll_del :: "nat \<Rightarrow> value_id \<Rightarrow> poll_driver \<Rightarrow> bool \<times> poll_driver" where
  "poll_del t v d = (case DisablePoll t v d of Done r \<Rightarrow> r | _ \<Rightarrow> (False, d))"

definition polled :: "poll_driver \<Rightarrow> value_id \<Rightarrow> unit option" where
  "polled d v = (if v \<in> pe_id ` set (pd_list d) then Some () else None)"

definition poll_inv :: "poll_driver \<Rightarrow> bool" where
  "poll_inv d \<longleftrightarrow> pd_mutex d = None \<and> distinct (map pe_id (pd_list d)) \<and> (\<forall>e \<in> set (pd_list d). pollIntensity d (pe_id e) \<noteq> None)"

lemma intensity_frame [simp]:
  "pollIntensity (d\<lparr>pd_list := l\<rparr>) = pollIntensity d" "pollIntensity (d\<lparr>pd_mutex := m\<rparr>) = pollIntensity d"
  "pollIntensity (unlock d) = pollIntensity d" "pollIntensity (poll_emit x d) = pollIntensity d"
  by (simp_all add: pollIntensity_def unlock_def poll_emit_def fun_eq_iff)

lemma intensity_set: "pollIntensity d w \<noteq> None \<Longrightarrow> pollIntensity (set_intensity v i d) w \<noteq> None"
  by (auto simp: pollIntensity_def set_intensity_def split: option.splits)

lemma set_intensity_frame [simp]:
  "pd_list (set_intensity v i d) = pd_list d" "pd_mutex (set_intensity v i d) = pd_mutex d"
  by (simp_all add: set_intensity_def)

lemma poll_frame [simp]:
  "pd_list (unlock d) = pd_list d" "pd_list (poll_emit x d) = pd_list d" "pd_mutex (poll_emit x d) = pd_mutex d"
  by (simp_all add: unlock_def poll_emit_def)

lemma unlock_once [simp]: "pd_mutex d = Some (t, Suc 0) \<Longrightarrow> pd_mutex (unlock d) = None"
  by (simp add: unlock_def)

lemma erase_first_keys: "distinct (map pe_id es) \<Longrightarrow>
    pe_id ` set (erase_first v es) = pe_id ` set es - {v} \<and> distinct (map pe_id (erase_first v es)) \<and> set (erase_first v es) \<subseteq> set es"
  by (induction v es rule: erase_first.induct) (auto intro: rev_image_eqI)

lemma EnablePoll_cases:
  assumes inv: "poll_inv d"
  shows "if pollIntensity d v = None then EnablePoll t v i d = Done (False, d)
    else \<exists>d'. EnablePoll t v i d = Done (True, d') \<and> poll_inv d' \<and> polled d' = (polled d)(v \<mapsto> ())"
proof (cases "pollIntensity d v = None")
  case True
  then show ?thesis using inv by (simp add: EnablePoll_def locked_free poll_inv_def unlock_def)
next
  case False
  have m: "pd_mutex d = None" using inv by (simp add: poll_inv_def)
  let ?d = "set_intensity v i (d\<lparr>pd_mutex := Some (t, 1)\<rparr>)"
  have keep: "pollIntensity ?d w \<noteq> None" if "pollIntensity d w \<noteq> None" for w
    using intensity_set [of "d\<lparr>pd_mutex := Some (t, 1)\<rparr>" w v i] that by simp
  show ?thesis
  proof (cases "v \<in> pe_id ` set (pd_list d)")
    case True
    then have "EnablePoll t v i d = Done (True, unlock ?d)" using False m by (simp add: EnablePoll_def locked_free Let_def)
    moreover have "poll_inv (unlock ?d)" using inv keep by (simp add: poll_inv_def)
    moreover have "polled (unlock ?d) = (polled d)(v \<mapsto> ())" using True by (auto simp: polled_def fun_eq_iff)
    ultimately show ?thesis using False by simp
  next
    case new: False
    let ?d2 = "?d\<lparr>pd_list := pd_list d @ [\<lparr>pe_id = v, pe_pollCounter = i\<rparr>]\<rparr>"
    have "EnablePoll t v i d = Done (True, poll_emit (Out_PollingEnabled v) (unlock ?d2))"
      using False new m by (simp add: EnablePoll_def locked_free Let_def)
    moreover have "poll_inv (poll_emit (Out_PollingEnabled v) (unlock ?d2))"
      using inv keep new False by (auto simp: poll_inv_def)
    moreover have "polled (poll_emit (Out_PollingEnabled v) (unlock ?d2)) = (polled d)(v \<mapsto> ())"
      by (auto simp: polled_def fun_eq_iff)
    ultimately show ?thesis using False by simp
  qed
qed

lemma DisablePoll_cases:
  assumes inv: "poll_inv d"
  shows "if polled d v = None then DisablePoll t v d = Done (False, d)
    else \<exists>d'. DisablePoll t v d = Done (True, d') \<and> poll_inv d' \<and> polled d' = (polled d)(v := None)"
proof (cases "v \<in> pe_id ` set (pd_list d)")
  case False
  then show ?thesis using inv by (simp add: DisablePoll_def locked_free poll_inv_def unlock_def polled_def)
next
  case True
  have m: "pd_mutex d = None" using inv by (simp add: poll_inv_def)
  have known: "pollIntensity d v \<noteq> None" using inv True by (auto simp: poll_inv_def)
  then have node: "pd_nodes d (GetNodeId v) \<noteq> None" by (auto simp: pollIntensity_def split: option.splits)
  let ?d1 = "d\<lparr>pd_mutex := Some (t, 1), pd_list := erase_first v (pd_list d)\<rparr>"
  let ?d' = "poll_emit (Out_PollingDisabled v) (unlock (set_intensity v 0 ?d1))"
  have e: "DisablePoll t v d = Done (True, ?d')" using True m known node by (simp add: DisablePoll_def locked_free Let_def)
  have keep: "pollIntensity (set_intensity v 0 ?d1) w \<noteq> None" if "pollIntensity d w \<noteq> None" for w
    using intensity_set [of ?d1 w v 0] that by simp
  have er: "pe_id ` set (erase_first v (pd_list d)) = pe_id ` set (pd_list d) - {v}"
      "distinct (map pe_id (erase_first v (pd_list d)))" "set (erase_first v (pd_list d)) \<subseteq> set (pd_list d)"
    using erase_first_keys [of "pd_list d" v] inv by (auto simp: poll_inv_def)
  have "poll_inv ?d'" using er keep inv by (auto simp: poll_inv_def)
  moreover have "polled ?d' = (polled d)(v := None)" using er(1) by (auto simp: polled_def fun_eq_iff)
  ultimately show ?thesis using e True by (simp add: polled_def)
qed

interpretation polls: keyed_store polled "poll_put t i" "poll_del t" poll_inv for t i
proof
  fix s :: poll_driver and k :: value_id and v :: unit and s'
  assume inv: "poll_inv s"
  show "poll_put t i k v s = (True, s') \<Longrightarrow> poll_inv s' \<and> polled s' = (polled s)(k \<mapsto> v)"
    using EnablePoll_cases [OF inv, of k t i] by (auto simp: poll_put_def split: if_splits)
  show "poll_put t i k v s = (False, s') \<Longrightarrow> s' = s"
    using EnablePoll_cases [OF inv, of k t i] by (auto simp: poll_put_def split: if_splits)
  show "poll_del t k s = (True, s') \<Longrightarrow> poll_inv s' \<and> polled s' = (polled s)(k := None)"
    using DisablePoll_cases [OF inv, of k t] by (auto simp: poll_del_def split: if_splits)
  show "poll_del t k s = (False, s') \<Longrightarrow> s' = s"
    using DisablePoll_cases [OF inv, of k t] by (auto simp: poll_del_def split: if_splits)
  show "fst (poll_del t k s) = (polled s k \<noteq> None)"
    using DisablePoll_cases [OF inv, of k t] by (auto simp: poll_del_def split: if_splits)
qed

section \<open>The mutex that is not released\<close>

text \<open>The calls that take the mutex.\<close>

datatype poll_call =
  Call_Enable value_id uint8 | Call_Disable value_id | Call_IsPolled value_id | Call_SetIntensity value_id uint8 | Call_Turn

definition forget :: "('a \<times> poll_driver) outcome \<Rightarrow> poll_driver outcome" where
  "forget r = (case r of Done (_, d) \<Rightarrow> Done d | Blocked \<Rightarrow> Blocked | Undefined \<Rightarrow> Undefined)"

definition perform :: "nat \<Rightarrow> poll_call \<Rightarrow> poll_driver \<Rightarrow> poll_driver outcome" where
  "perform t c d = (case c of
     Call_Enable v i \<Rightarrow> forget (EnablePoll t v i d)
   | Call_Disable v \<Rightarrow> forget (DisablePoll t v d)
   | Call_IsPolled v \<Rightarrow> forget (isPolled t v d)
   | Call_SetIntensity v i \<Rightarrow> forget (SetPollIntensity t v i d)
   | Call_Turn \<Rightarrow> forget (poll_turn t d))"

definition held_by :: "nat \<Rightarrow> poll_driver \<Rightarrow> bool" where
  "held_by t d \<longleftrightarrow> (\<exists>k. pd_mutex d = Some (t, Suc k))"

lemma other_thread_blocked: "held_by t d \<Longrightarrow> u \<noteq> t \<Longrightarrow> perform u c d = Blocked"
  by (cases c) (auto simp: held_by_def perform_def forget_def EnablePoll_def DisablePoll_def isPolled_def SetPollIntensity_def
      poll_turn_def locked_def lock_def)

definition balanced :: "nat \<Rightarrow> ('a \<times> poll_driver) outcome \<Rightarrow> bool" where
  "balanced t r \<longleftrightarrow> (case r of Done (_, d) \<Rightarrow> held_by t d | _ \<Rightarrow> True)"

lemma held_unlock: "pd_mutex d = Some (t, Suc (Suc k)) \<Longrightarrow> held_by t (unlock d)"
  by (simp add: held_by_def unlock_def)

lemma held_frame [simp]: "held_by t (poll_emit x d) = held_by t d"
  by (simp add: held_by_def)

lemma request_poll_mutex [simp]: "pd_mutex (request_poll v d) = pd_mutex d"
  by (simp add: request_poll_def split: option.split)

lemma locked_balanced:
  assumes "held_by t d" and "\<And>d1 k. pd_mutex d1 = Some (t, Suc (Suc k)) \<Longrightarrow> balanced t (f d1)"
  shows "balanced t (locked t d f)"
proof -
  obtain k where k: "pd_mutex d = Some (t, Suc k)" using assms(1) by (auto simp: held_by_def)
  have "balanced t (f (d\<lparr>pd_mutex := Some (t, Suc (Suc k))\<rparr>))" by (rule assms(2)) simp
  then show ?thesis by (simp add: locked_def lock_def k)
qed

lemma balanced_forget: "balanced t r \<Longrightarrow> forget r = Done d \<Longrightarrow> held_by t d"
  by (cases r) (auto simp: balanced_def forget_def)

lemma perform_held:
  assumes h: "held_by t d" and p: "perform t c d = Done d'"
  shows "held_by t d'"
proof -
  have "balanced t (EnablePoll t v i d)" for v i
    unfolding EnablePoll_def Let_def by (rule locked_balanced [OF h]) (simp add: balanced_def held_unlock)
  moreover have "balanced t (DisablePoll t v d)" for v
    unfolding DisablePoll_def Let_def by (rule locked_balanced [OF h]) (simp add: balanced_def held_unlock)
  moreover have "balanced t (isPolled t v d)" for v
    unfolding isPolled_def Let_def by (rule locked_balanced [OF h]) (simp add: balanced_def held_unlock)
  moreover have "balanced t (SetPollIntensity t v i d)" for v i
    unfolding SetPollIntensity_def Let_def
    by (rule locked_balanced [OF h]) (auto simp: balanced_def held_unlock held_by_def unlock_def)
  moreover have "balanced t (poll_turn t d)"
    unfolding poll_turn_def Let_def
    by (rule locked_balanced [OF h])
      (auto simp: balanced_def held_unlock held_by_def unlock_def split: list.split option.split)
  ultimately show ?thesis using p by (cases c; simp add: perform_def) (erule balanced_forget [rotated]; simp)+
qed

text \<open>Calls of several threads; one that would wait is left out, since it does not return while the others run.\<close>

fun calls :: "(nat \<times> poll_call) list \<Rightarrow> poll_driver \<Rightarrow> poll_driver outcome" where
  "calls [] d = Done d"
| "calls ((t, c) # cs) d = (case perform t c d of Done d1 \<Rightarrow> calls cs d1 | Blocked \<Rightarrow> calls cs d | Undefined \<Rightarrow> Undefined)"

lemma calls_held: "held_by t d \<Longrightarrow> calls cs d = Done d' \<Longrightarrow> held_by t d'"
proof (induction cs arbitrary: d)
  case (Cons x cs)
  obtain u c where x: "x = (u, c)" by (cases x)
  show ?case
  proof (cases "u = t")
    case True
    show ?thesis
    proof (cases "perform u c d")
      case (Done d1)
      then have "held_by t d1" using perform_held Cons.prems(1) True by blast
      then show ?thesis using Cons.IH Cons.prems(2) Done x by simp
    qed (use Cons x in auto)
  next
    case False
    then show ?thesis using Cons x other_thread_blocked by auto
  qed
qed simp

section \<open>Properties\<close>


definition polled_driver :: "uint8 \<Rightarrow> poll_entry list \<Rightarrow> poll_driver" where
  "polled_driver i es = \<lparr>pd_list = es,
     pd_nodes = [3 \<mapsto> \<lparr>pn_listening = True, pn_awake = None, pn_pollRequired = False, pn_classes = [0x25],
       pn_values = [0x2501 \<mapsto> i]\<rparr>],
     pd_awakeNodesQueried = True, pd_interval = 30, pd_intervalBetweenPolls = False, pd_mutex = None, pd_out = []\<rparr>"

definition switch_value :: value_id where
  "switch_value = ValueIdent 0x03494011 0 1"

lemma switch_value: "GetNodeId switch_value = 3" "GetValueStoreKey switch_value = 0x2501" "GetCommandClassId switch_value = 0x25"
  by (simp_all add: switch_value_def GetNodeId_def GetValueStoreKey_def GetCommandClassId_def)


text \<open>(C31) The list of polled values is the set of values enabled and not disabled since: after any sequence of
  \<open>EnablePoll\<close> and \<open>DisablePoll\<close>, accepted or refused, a value is in the list exactly if the last
  accepted call about it enabled it.\<close>

theorem polled_history:
  assumes "poll_inv d" and "store_run (poll_put t i) (poll_del t) ops d = (oks, d')"
  shows "poll_inv d' \<and> length oks = length ops \<and> polled d' = history_map (zip ops oks) (polled d)"
  by (rule polls.run_lookup [OF assms])

theorem polled_history_witness:
  "\<exists>oks d'. store_run (poll_put 1 2) (poll_del 1) [Op_Insert switch_value (), Op_Remove switch_value] (polled_driver 0 []) = (oks, d') \<and>
    poll_inv d' \<and> length oks = 2"
proof -
  obtain oks d' where r: "store_run (poll_put 1 2) (poll_del 1) [Op_Insert switch_value (), Op_Remove switch_value] (polled_driver 0 []) = (oks, d')"
    by (rule prod.exhaust)
  have "poll_inv (polled_driver 0 [])" by (simp add: poll_inv_def polled_driver_def)
  from polled_history [OF this r] r show ?thesis by auto
qed

text \<open>\<open>SetPollIntensity\<close> of a value that does not exist leaves the mutex locked: whatever calls follow, by whatever
  threads, every later call of another thread waits for ever; in particular the poll thread never polls again.\<close>

theorem unknown_value_blocks:
  assumes "pd_mutex d = None" and "pollIntensity d v = None"
  shows "\<exists>d1. SetPollIntensity t v i d = Done ((), d1) \<and>
    (\<forall>cs d2 u c. calls cs d1 = Done d2 \<longrightarrow> u \<noteq> t \<longrightarrow> perform u c d2 = Blocked)"
proof -
  let ?d1 = "d\<lparr>pd_mutex := Some (t, 1)\<rparr>"
  have "SetPollIntensity t v i d = Done ((), ?d1)" using assms by (simp add: SetPollIntensity_def locked_free)
  moreover have "held_by t ?d1" by (simp add: held_by_def)
  ultimately show ?thesis using calls_held other_thread_blocked by blast
qed

theorem unknown_value_blocks_witness:
  "\<exists>d1. SetPollIntensity 7 (ValueIdent 0 0 1) 1 (polled_driver 1 []) = Done ((), d1) \<and> perform 2 Call_Turn d1 = Blocked"
proof -
  have "pd_mutex (polled_driver 1 []) = None" "pollIntensity (polled_driver 1 []) (ValueIdent 0 0 1) = None"
    by (simp_all add: polled_driver_def pollIntensity_def GetNodeId_def)
  then obtain d1 where d1: "SetPollIntensity 7 (ValueIdent 0 0 1) 1 (polled_driver 1 []) = Done ((), d1)"
    "\<forall>cs d2 u c. calls cs d1 = Done d2 \<longrightarrow> u \<noteq> 7 \<longrightarrow> perform u c d2 = Blocked"
    using unknown_value_blocks by blast
  have "calls [] d1 = Done d1 \<longrightarrow> (2 :: nat) \<noteq> 7 \<longrightarrow> perform 2 Call_Turn d1 = Blocked" using d1(2) by blast
  then have "perform 2 Call_Turn d1 = Blocked" by simp
  then show ?thesis using d1(1) by blast
qed

text \<open>The test for an empty list is made before the mutex is taken: a value disabled in between leaves the thread
  to take the first element of an empty list.\<close>

lemma poll_race:
  assumes "poll_inv d" "pd_awakeNodesQueried d" "pd_list d = [e]"
  shows "poll_ready d \<and> (\<exists>d'. DisablePoll t (pe_id e) d = Done (True, d') \<and> poll_turn u d' = Undefined)"
proof -
  obtain d' where d': "DisablePoll t (pe_id e) d = Done (True, d')" "poll_inv d'" "polled d' = (polled d)(pe_id e := None)"
    using DisablePoll_cases [OF assms(1), of "pe_id e" t] assms(3) by (auto simp: polled_def)
  have "polled d' v = None" for v using fun_cong [OF d'(3), of v] assms(3) by (auto simp: polled_def split: if_splits)
  then have "polled d' (pe_id (hd (pd_list d'))) = None" .
  then have "pd_list d' = []" by (cases "pd_list d'") (simp_all add: polled_def)
  then have "poll_turn u d' = Undefined" using d'(2) by (simp add: poll_turn_def locked_free poll_inv_def)
  then show ?thesis using d'(1) assms by (auto simp: poll_ready_def)
qed

text \<open>A value that is gone when its node still exists: disabling it goes on from an erased element, and the poll thread
  keeps the mutex.\<close>

lemma vanished_value:
  assumes "pd_mutex d = None" "pd_list d = e # es" "pd_nodes d (GetNodeId (pe_id e)) = Some n" "pn_values n (GetValueStoreKey (pe_id e)) = None"
  shows "DisablePoll t (pe_id e) d = Undefined"
    and "pe_pollCounter e = 1 \<Longrightarrow> \<exists>d'. poll_turn t d = Done (None, d') \<and> held_by t d'"
  using assms by (simp_all add: DisablePoll_def poll_turn_def locked_free pollIntensity_def held_by_def)

end
