(* ===== verification/Encapsulation.thy ===== *)
theory Encapsulation
  imports Node_Info
begin

text \<open>
  Frames inside frames: \<open>CRC16Encap.cpp\<close>, \<open>MultiCmd.cpp\<close> and the encapsulation of \<open>MultiInstance.cpp\<close>.  The classes
  hand the part of the frame behind their own header to the class it names, which may again be one of
  them.  All other classes are the argument \<open>leaf\<close>, given the data behind the class byte, the length (which
  counts the class byte) and the instance.  \<open>None\<close> is a read outside the frame.
\<close>

section \<open>The check sum\<close>

definition crc_step :: "uint16 \<Rightarrow> uint8 \<Rightarrow> uint16" where
  "crc_step crc b =
     (let x0 = (ucast (drop_bit 8 crc) :: uint8) XOR b;
          x = x0 XOR drop_bit 4 x0
      in push_bit 8 crc XOR push_bit 12 (ucast x) XOR push_bit 5 (ucast x) XOR ucast x)"

definition crc16 :: "bytes \<Rightarrow> uint16" where
  "crc16 bs = foldl crc_step 0xF6AF bs"

section \<open>Parts of a multi-command frame\<close>

text \<open>
  The loop over the commands: the class, the data behind the class byte and the length handed on of every part
  that is accepted, and whether all commands were.  \<open>hi\<close> is the last index that may be used.
\<close>

function multi_loop :: "bytes \<Rightarrow> int \<Rightarrow> uint8 \<Rightarrow> uint8 \<Rightarrow> nat \<Rightarrow> ((uint8 \<times> bytes \<times> uint32) list \<times> bool) option" where
  "multi_loop data hi commands i base =
     (if i \<le> commands then
        (if hi < int base then Some ([], False)
         else do {
           l \<leftarrow> peek data base;
           if hi < int base + int (unat l) then Some ([], False)
           else do {
             cc \<leftarrow> peek data (base + 1);
             (parts, ok) \<leftarrow> multi_loop data hi commands (i + 1) (base + unat l + 1);
             Some ((cc, drop (base + 2) data, of_nat (unat l) - 1) # parts, ok)
           }
         })
      else Some ([], True))"
  by pat_completeness auto
termination
proof (relation "measure (\<lambda>(data, hi, commands, i, base). nat (hi + 1 - int base))", goal_cases)
  case (2 data hi commands i base l cc)
  from 2(2) have "int base \<le> hi" by simp
  then have "nat (hi + 1 - int (base + unat l + 1)) < nat (hi + 1 - int base)"
    by linarith
  then show ?case by simp
qed simp

declare multi_loop.simps [simp del]

text \<open>\<open>_length - 2\<close> is taken as a signed number.\<close>

definition multi_parts :: "bytes \<Rightarrow> uint32 \<Rightarrow> ((uint8 \<times> bytes \<times> uint32) list \<times> bool) option" where
  "multi_parts data len = do { commands \<leftarrow> peek data 1; multi_loop data (sint (len - 2)) commands 1 2 }"

lemma multi_loop_shorter:
  "multi_loop data hi n i base = Some (parts, ok) \<Longrightarrow> (cc, sub, len) \<in> set parts \<Longrightarrow> 0 < length data \<Longrightarrow> length sub < length data"
proof (induction data hi n i base arbitrary: parts ok rule: multi_loop.induct)
  case (1 data hi commands i base)
  note IH = 1(1) and result = 1(2) and part = 1(3) and data = 1(4)
  show ?case
  proof (cases "i \<le> commands \<and> \<not> hi < int base")
    case False
    with result part show ?thesis
      by (subst (asm) multi_loop.simps) (auto split: if_splits)
  next
    case True
    from result True obtain l where l: "peek data base = Some l"
      by (subst (asm) multi_loop.simps) (auto split: Option.bind_splits)
    show ?thesis
    proof (cases "hi < int base + int (unat l)")
      case True
      with result part l \<open>i \<le> commands \<and> \<not> hi < int base\<close> show ?thesis
        by (subst (asm) multi_loop.simps) (auto split: if_splits)
    next
      case False
      with result l True obtain c qs ok' where c: "peek data (base + 1) = Some c"
        and rest: "multi_loop data hi commands (i + 1) (base + unat l + 1) = Some (qs, ok')"
        and parts: "parts = (c, drop (base + 2) data, of_nat (unat l) - 1) # qs"
        by (subst (asm) multi_loop.simps) (auto split: Option.bind_splits)
      from IH [OF _ _ l False c rest] True data
      have "(cc, sub, len) \<in> set qs \<Longrightarrow> length sub < length data" by auto
      with part parts data show ?thesis by auto
    qed
  qed
qed

section \<open>Unwrapping\<close>

type_synonym frame_handler = "uint8 \<Rightarrow> uint8 \<Rightarrow> bool \<Rightarrow> bytes \<Rightarrow> uint32 \<Rightarrow> uint32 \<Rightarrow> driver \<Rightarrow> driver option"

abbreviation CC_CRC16_ENCAP :: uint8 where "CC_CRC16_ENCAP \<equiv> 0x56"
abbreviation CC_MULTI_CMD :: uint8 where "CC_MULTI_CMD \<equiv> 0x8f"

lemma run_all_cong [fundef_cong]:
  "xs = ys \<Longrightarrow> s = t \<Longrightarrow> (\<And>x u. x \<in> set ys \<Longrightarrow> f x u = g x u) \<Longrightarrow> run_all f xs s = run_all g ys t"
  by (induction xs arbitrary: ys s t) (auto intro!: Option.bind_cong)

text \<open>\<open>GetInstance\<close>: the first instance that is mapped to an end point, or 0.\<close>

definition GetInstanceOf :: "cc_state \<Rightarrow> uint8 \<Rightarrow> uint8" where
  "GetInstanceOf c endPoint =
     (case find (\<lambda>i. c_endPoints c i = Some endPoint) (map of_nat [0..<256]) of None \<Rightarrow> 0 | Some i \<Rightarrow> i)"

text \<open>The class a nested frame is for; \<open>None\<close> when the node is gone.\<close>

definition nested_class :: "uint8 \<Rightarrow> uint8 \<Rightarrow> driver \<Rightarrow> (cc_state \<Rightarrow> driver option) \<Rightarrow> driver option" where
  "nested_class nid cc d f = do {
     n \<leftarrow> d_nodes d nid;
     case n_classes n cc of None \<Rightarrow> Some d | Some c \<Rightarrow> f c
   }"

lemma nested_class_cong [fundef_cong]:
  "nid = nid' \<Longrightarrow> cc = cc' \<Longrightarrow> d = d' \<Longrightarrow> (\<And>c. f c = g c) \<Longrightarrow> nested_class nid cc d f = nested_class nid' cc' d' g"
  by (auto simp: nested_class_def intro!: Option.bind_cong split: option.split)

text \<open>The body of a frame with a check sum: the class inside, its data and its length, if the sum is right.\<close>

definition crc_open :: "bytes \<Rightarrow> uint32 \<Rightarrow> (uint8 \<times> bytes \<times> uint32) option option" where
  "crc_open data len = do {
     c1 \<leftarrow> peek data (unat (len - 3));
     c2 \<leftarrow> peek data (unat (len - 2));
     body \<leftarrow> peek_block data 0 (unat (len - 3));
     if push_bit 8 (ucast c1) + ucast c2 \<noteq> crc16 body then Some None
     else do { cc \<leftarrow> peek data 1; Some (Some (cc, drop 2 data, len - 4)) }
   }"

text \<open>The frame inside a multi-channel frame: class, whether it goes to an instance, data, length, end point.\<close>

definition channel_open :: "bytes \<Rightarrow> uint32 \<Rightarrow> (uint8 \<times> uint8 \<times> bytes \<times> uint32) option" where
  "channel_open data len = do {
     e \<leftarrow> peek data 1;
     cc \<leftarrow> peek data 3;
     Some (e AND 0x7f, cc, drop 4 data, len - 4)
   }"

definition channel_instance :: "uint8 \<Rightarrow> cc_state \<Rightarrow> bool \<times> uint32" where
  "channel_instance endPoint c =
     (if endPoint = 0 then (False, 1)
      else (c_afterMark c, ucast (if GetInstanceOf c endPoint = 0 then 1 else GetInstanceOf c endPoint)))"

text \<open>The frame inside a multi-instance frame, and the instance.\<close>

definition instance_open :: "uint8 \<Rightarrow> bytes \<Rightarrow> uint32 \<Rightarrow> (uint8 \<times> uint8 \<times> bytes \<times> uint32) option" where
  "instance_open version data len = do {
     i \<leftarrow> peek data 1;
     cc \<leftarrow> peek data 2;
     Some (if version > 1 then i AND 0x7f else i, cc, drop 3 data, len - 3)
   }"

text \<open>
  \<open>HandleMsg\<close> of class \<open>cc\<close> (\<open>HandleIncomingMsg\<close> when \<open>controlled\<close>; for the three classes it is the same).
\<close>

function unwrap :: "frame_handler \<Rightarrow> uint8 \<Rightarrow> uint8 \<Rightarrow> bool \<Rightarrow> bytes \<Rightarrow> uint32 \<Rightarrow> uint32 \<Rightarrow> driver \<Rightarrow> driver option" where
  "unwrap leaf nid cc controlled data len inst d =
     (if data = [] then None
      else if cc = CC_CRC16_ENCAP then
        (if hd data = 0x01 then do {
           opened \<leftarrow> crc_open data len;
           case opened of
             None \<Rightarrow> Some d
           | Some (c, sub, l) \<Rightarrow>
               if length sub < length data
               then nested_class nid c d (\<lambda>k. unwrap leaf nid c (c_afterMark k) sub l 1 d) else None
         } else Some d)
      else if cc = CC_MULTI_CMD then
        (if hd data = 0x01 then
           (if len < 3 then Some d
            else do {
              (parts, ok) \<leftarrow> multi_parts data len;
              run_all (\<lambda>(c, sub, l) d. if length sub < length data
                  then nested_class nid c d (\<lambda>k. unwrap leaf nid c (c_afterMark k) sub l 1 d) else None) parts d
            })
         else Some d)
      else if cc = CC_MULTI_INSTANCE \<and> (hd data = 0x06 \<or> hd data = 0x0d) then do {
        n \<leftarrow> d_nodes d nid;
        own \<leftarrow> n_classes n CC_MULTI_INSTANCE;
        (i, c, sub, l) \<leftarrow> instance_open (c_version own) data len;
        if hd data = 0x06 \<and> n_classes n c \<noteq> None
        then (if length sub < length data
              then unwrap leaf nid c False sub l (ucast i) (put_node nid (class_received c n) d) else None)
        else do {
          (e, c, sub, l) \<leftarrow> channel_open data len;
          if length sub < length data
          then nested_class nid c d (\<lambda>k. unwrap leaf nid c (fst (channel_instance e k)) sub l (snd (channel_instance e k)) d) else None
        }
      }
      else leaf nid cc controlled data len inst d)"
  by pat_completeness auto
termination
  by (relation "measure (\<lambda>(leaf, nid, cc, controlled, data, len, inst, d). length data)") auto

declare unwrap.simps [simp del]

text \<open>
  The classes as \<open>ApplicationCommandHandler\<close> calls them: the frame's data starts at byte 8 of the buffer, its
  length is byte 4 of the message.
\<close>

definition with_encap :: "frame_handler \<Rightarrow> class_handler" where
  "with_encap leaf nid cc controlled buf d = unwrap leaf nid cc controlled (drop 8 buf) (ucast (dat buf 4)) 1 d"

end
