(* ===== verification/Encapsulation_Laws.thy ===== *)
theory Encapsulation_Laws
  imports Encapsulation
begin

text \<open>
  What the encapsulations achieve: the check sum finds every change of one byte, a frame nested in any depth
  reaches its class, and the requirement that a class be used encrypted is only applied to the outer class.
\<close>

section \<open>The check sum finds every change of one byte\<close>

definition fold4 :: "uint8 \<Rightarrow> uint8" where "fold4 y = y XOR drop_bit 4 y"
definition fold5 :: "uint8 \<Rightarrow> uint8" where "fold5 x = x XOR push_bit 5 x"

lemma fold4_fold4: "fold4 (fold4 y) = y"
  by (rule bit_word_eqI) (auto simp: fold4_def bit_simps)

lemma fold5_fold5: "fold5 (fold5 x) = x"
  by (rule bit_word_eqI) (auto simp: fold5_def bit_simps)

lemma fold4_inj: "fold4 y = fold4 z \<longleftrightarrow> y = z" by (metis fold4_fold4)
lemma fold5_inj: "fold5 y = fold5 z \<longleftrightarrow> y = z" by (metis fold5_fold5)

lemma spread_low:
  "(ucast (push_bit 8 crc XOR push_bit 12 (ucast x) XOR push_bit 5 (ucast x) XOR ucast x :: uint16) :: uint8) = fold5 x"
  by (rule bit_word_eqI) (auto simp: fold5_def bit_simps)

lemma crc_step_fold4:
  "crc_step crc b = (let x = fold4 (ucast (drop_bit 8 crc) XOR b)
     in push_bit 8 crc XOR push_bit 12 (ucast x) XOR push_bit 5 (ucast x) XOR ucast x)"
  by (simp only: crc_step_def fold4_def Let_def)

lemma crc_step_low: "(ucast (crc_step crc b) :: uint8) = fold5 (fold4 (ucast (drop_bit 8 crc) XOR b))"
  by (simp only: crc_step_fold4 Let_def spread_low)

lemma xor_cancel: "a XOR b = a XOR c \<longleftrightarrow> b = (c :: 'a :: len word)"
  by (metis xor.assoc xor.left_neutral xor_self_eq)

lemma xor_cancel_right: "b XOR a = c XOR a \<longleftrightarrow> b = (c :: 'a :: len word)"
  by (metis xor.assoc xor.right_neutral xor_self_eq)

lemma crc_step_byte_inj: "crc_step crc b = crc_step crc c \<longleftrightarrow> b = c"
proof
  assume "crc_step crc b = crc_step crc c"
  then have "(ucast (crc_step crc b) :: uint8) = ucast (crc_step crc c)" by simp
  then show "b = c" by (simp only: crc_step_low fold4_inj fold5_inj xor_cancel)
qed simp

lemma high_low_eq:
  assumes hi: "(ucast (drop_bit 8 c) :: uint8) = ucast (drop_bit 8 c')" and lo: "push_bit 8 c = push_bit 8 (c' :: uint16)"
  shows "c = c'"
proof (rule bit_word_eqI)
  fix i assume i: "i < LENGTH(16)"
  show "bit c i = bit c' i"
  proof (cases "i < 8")
    case True
    then show ?thesis using arg_cong [OF lo, of "\<lambda>w. bit w (8 + i)"] by (simp add: bit_push_bit_iff)
  next
    case False
    then have "i - 8 < 8" using i by simp
    with False show ?thesis using arg_cong [OF hi, of "\<lambda>w. bit w (i - 8)"] by (simp add: bit_simps)
  qed
qed

lemma crc_step_inj: "crc_step crc b = crc_step crc' b \<longleftrightarrow> crc = crc'"
proof
  assume e: "crc_step crc b = crc_step crc' b"
  then have "(ucast (crc_step crc b) :: uint8) = ucast (crc_step crc' b)" by simp
  then have hi: "(ucast (drop_bit 8 crc) :: uint8) = ucast (drop_bit 8 crc')"
    by (simp only: crc_step_low fold4_inj fold5_inj xor_cancel_right)
  have "push_bit 8 crc = push_bit 8 crc'"
    using e by (simp only: crc_step_fold4 Let_def hi xor_cancel_right)
  with hi show "crc = crc'" by (rule high_low_eq)
qed simp

lemma crc_fold_inj: "foldl crc_step c bs = foldl crc_step c' bs \<longleftrightarrow> c = c'"
  by (induction bs arbitrary: c c') (simp_all add: crc_step_inj)

lemma crc16_update:
  assumes "i < length bs" "b \<noteq> bs ! i"
  shows "crc16 (bs[i := b]) \<noteq> crc16 bs"
proof -
  have "bs = take i bs @ bs ! i # drop (Suc i) bs" using assms(1) by (rule id_take_nth_drop)
  moreover have "bs[i := b] = take i bs @ b # drop (Suc i) bs" using assms(1) by (rule upd_conv_take_nth_drop)
  ultimately show ?thesis
    using assms(2) unfolding crc16_def
    by (metis (no_types, lifting) crc_fold_inj crc_step_byte_inj foldl_Cons foldl_append)
qed

section \<open>Nested frames\<close>

text \<open>
  A frame for class \<open>cc\<close>, possibly inside others: a check sum, an end point, or several commands in one frame.
\<close>

datatype packet =
    Plain uint8 bytes
  | Crc packet
  | Channel uint8 uint8 packet
  | Multi "(uint8 \<times> bytes) list"

fun packet_class :: "packet \<Rightarrow> uint8" where
  "packet_class (Plain cc bs) = cc"
| "packet_class (Crc p) = CC_CRC16_ENCAP"
| "packet_class (Channel src dst p) = CC_MULTI_INSTANCE"
| "packet_class (Multi ps) = CC_MULTI_CMD"

definition crc_bytes :: "uint16 \<Rightarrow> bytes" where
  "crc_bytes w = [ucast (drop_bit 8 w), ucast w]"

fun part_bytes :: "uint8 \<times> bytes \<Rightarrow> bytes" where
  "part_bytes (cc, bs) = of_nat (length bs + 1) # cc # bs"

text \<open>The bytes behind the class byte.\<close>

fun packet_body :: "packet \<Rightarrow> bytes" where
  "packet_body (Plain cc bs) = bs"
| "packet_body (Crc p) = (let b = 0x01 # packet_class p # packet_body p in b @ crc_bytes (crc16 b))"
| "packet_body (Channel src dst p) = 0x0d # src # dst # packet_class p # packet_body p"
| "packet_body (Multi ps) = 0x01 # of_nat (length ps) # concat (map part_bytes ps)"

definition no_encap :: "uint8 \<Rightarrow> bool" where
  "no_encap cc \<longleftrightarrow> cc \<noteq> CC_CRC16_ENCAP \<and> cc \<noteq> CC_MULTI_CMD \<and> cc \<noteq> CC_MULTI_INSTANCE"

fun packet_ok :: "packet \<Rightarrow> bool" where
  "packet_ok (Plain cc bs) \<longleftrightarrow> no_encap cc \<and> bs \<noteq> []"
| "packet_ok (Crc p) \<longleftrightarrow> packet_ok p"
| "packet_ok (Channel src dst p) \<longleftrightarrow> packet_ok p"
| "packet_ok (Multi ps) \<longleftrightarrow> ps \<noteq> [] \<and> length ps < 255 \<and> (\<forall>(cc, bs) \<in> set ps. no_encap cc \<and> bs \<noteq> [] \<and> length bs < 255)"

text \<open>
  What is to happen: every class inside that the node has is given its bytes, followed by what is left of the
  buffer, and the instance of the innermost end point.  A command of a multi-command frame is given a length that
  is one less than everywhere else.
\<close>

definition has_channels :: "uint8 \<Rightarrow> driver \<Rightarrow> (driver \<Rightarrow> driver option) \<Rightarrow> driver option" where
  "has_channels nid d f = do { n \<leftarrow> d_nodes d nid; own \<leftarrow> n_classes n CC_MULTI_INSTANCE; f d }"

fun deliver_parts :: "frame_handler \<Rightarrow> uint8 \<Rightarrow> (uint8 \<times> bytes) list \<Rightarrow> bytes \<Rightarrow> driver \<Rightarrow> driver option" where
  "deliver_parts leaf nid [] rest d = Some d"
| "deliver_parts leaf nid ((cc, bs) # ps) rest d =
     Option.bind (nested_class nid cc d (\<lambda>k. leaf nid cc (c_afterMark k) (bs @ concat (map part_bytes ps) @ rest) (of_nat (length bs)) 1 d))
       (deliver_parts leaf nid ps rest)"

fun deliver :: "frame_handler \<Rightarrow> uint8 \<Rightarrow> packet \<Rightarrow> bool \<Rightarrow> bytes \<Rightarrow> uint32 \<Rightarrow> driver \<Rightarrow> driver option" where
  "deliver leaf nid (Plain cc bs) controlled rest inst d = leaf nid cc controlled (bs @ rest) (of_nat (length bs + 1)) inst d"
| "deliver leaf nid (Crc p) controlled rest inst d =
     nested_class nid (packet_class p) d (\<lambda>k. deliver leaf nid p (c_afterMark k)
       (crc_bytes (crc16 (0x01 # packet_class p # packet_body p)) @ rest) 1 d)"
| "deliver leaf nid (Channel src dst p) controlled rest inst d =
     has_channels nid d (\<lambda>d. nested_class nid (packet_class p) d (\<lambda>k.
       deliver leaf nid p (fst (channel_instance (src AND 0x7f) k)) rest (snd (channel_instance (src AND 0x7f) k)) d))"
| "deliver leaf nid (Multi ps) controlled rest inst d = deliver_parts leaf nid ps rest d"

lemma packet_body_nonempty: "packet_ok p \<Longrightarrow> packet_body p \<noteq> []"
  by (cases p) (auto simp: Let_def)

lemma unwrap_leaf: "no_encap cc \<Longrightarrow> data \<noteq> [] \<Longrightarrow> unwrap leaf nid cc controlled data len inst d = leaf nid cc controlled data len inst d"
  by (subst unwrap.simps) (simp add: no_encap_def)

lemma two_bytes_or: "push_bit 8 (ucast (a :: uint8)) + ucast (b :: uint8) = (push_bit 8 (ucast a) OR ucast b :: uint16)"
  by (rule disjunctive_add_eq_or) (rule bit_word_eqI, auto simp: bit_simps dest: bit_imp_le_length)

lemma two_bytes_crc: "push_bit 8 (ucast (a :: uint8)) + ucast (b :: uint8) = w \<longleftrightarrow> [a, b] = crc_bytes (w :: uint16)"
proof
  assume "push_bit 8 (ucast a) + ucast b = w"
  then have w: "w = push_bit 8 (ucast a) OR ucast b" by (simp add: two_bytes_or)
  have "ucast (drop_bit 8 w) = a" "ucast w = b"
    unfolding w by (rule bit_word_eqI; auto simp: bit_simps dest: bit_imp_le_length)+
  then show "[a, b] = crc_bytes w" by (simp add: crc_bytes_def)
next
  assume "[a, b] = crc_bytes w"
  then have "a = ucast (drop_bit 8 w)" "b = ucast w" by (simp_all add: crc_bytes_def)
  then show "push_bit 8 (ucast a) + ucast b = w"
    unfolding two_bytes_or by (auto intro!: bit_word_eqI simp: bit_simps)
qed

lemma crc_open_good:
  assumes "b = 0x01 # cc # bs" "length b + 3 < 2 ^ 32"
  shows "crc_open (b @ crc_bytes (crc16 b) @ rest) (of_nat (length b + 3))
    = Some (Some (cc, bs @ crc_bytes (crc16 b) @ rest, of_nat (length bs + 1)))"
proof -
  let ?n = "of_nat (length b + 3) :: uint32" and ?d = "b @ crc_bytes (crc16 b) @ rest"
  have n: "?n - 3 = of_nat (length b)" "?n - 2 = of_nat (length b + 1)" "?n - 4 = of_nat (length bs + 1)"
    using assms(1) by (simp_all add: algebra_simps)
  have u: "unat (?n - 3) = length b" "unat (?n - 2) = length b + 1"
    unfolding n using assms(2) by (simp_all add: unat_of_nat take_bit_nat_eq_self del: of_nat_Suc of_nat_add)
  obtain c1 c2 where c: "crc_bytes (crc16 b) = [c1, c2]" by (simp add: crc_bytes_def)
  have "peek ?d (length b) = Some c1" "peek ?d (length b + 1) = Some c2" "peek_block ?d 0 (length b) = Some b"
    "peek ?d 1 = Some cc" "drop 2 ?d = bs @ crc_bytes (crc16 b) @ rest"
    unfolding c by (simp_all add: assms(1) peek_def peek_block_def nth_append)
  then show ?thesis
    unfolding crc_open_def u n(3) using two_bytes_crc [of c1 c2 "crc16 b"] c by simp
qed

fun part_read :: "(uint8 \<times> bytes) list \<Rightarrow> bytes \<Rightarrow> (uint8 \<times> bytes \<times> uint32) list" where
  "part_read [] rest = []"
| "part_read ((cc, bs) # ps) rest = (cc, bs @ concat (map part_bytes ps) @ rest, of_nat (length bs)) # part_read ps rest"

lemma multi_loop_good:
  assumes "data = pre @ concat (map part_bytes ps) @ rest"
    and "int (length pre + length (concat (map part_bytes ps))) = hi + 1"
    and "\<forall>(cc, bs) \<in> set ps. bs \<noteq> [] \<and> length bs < 255"
    and "unat i + length ps = unat commands + 1" and "unat commands < 255"
  shows "multi_loop data hi commands i (length pre) = Some (part_read ps rest, True)"
  using assms
proof (induction ps arbitrary: pre i)
  case Nil
  then have "\<not> i \<le> commands" by (simp add: word_le_nat_alt)
  then show ?case by (subst multi_loop.simps) simp
next
  case (Cons p ps)
  obtain cc bs where p: "p = (cc, bs)" by force
  define l where "l = (of_nat (length bs + 1) :: uint8)"
  have b: "length bs < 255" and l: "unat l = length bs + 1"
    using Cons.prems(3) by (simp_all add: l_def p unat_of_nat take_bit_nat_eq_self del: of_nat_Suc of_nat_add)
  have le: "i \<le> commands" using Cons.prems(4) by (simp add: word_le_nat_alt)
  have d: "data = (pre @ part_bytes (cc, bs)) @ concat (map part_bytes ps) @ rest" using Cons.prems(1) by (simp add: p)
  have r: "peek data (length pre) = Some l" "peek data (length pre + 1) = Some cc"
    "drop (length pre + 2) data = bs @ concat (map part_bytes ps) @ rest"
    unfolding d by (simp_all add: l_def peek_def nth_append del: of_nat_Suc of_nat_add)
  have h: "hi + 1 = int (length pre) + int (length bs + 2) + int (length (concat (map part_bytes ps)))"
    using Cons.prems(2) by (simp add: p)
  have i: "unat (i + 1) = unat i + 1"
    using Cons.prems(4,5) by (simp add: unat_word_ariths)
  have n: "length (pre @ part_bytes (cc, bs)) = length pre + unat l + 1" unfolding l by simp
  have ih: "multi_loop data hi commands (i + 1) (length pre + unat l + 1) = Some (part_read ps rest, True)"
    using Cons.IH [OF d, of "i + 1", unfolded n] h i l Cons.prems(3-5) by simp
  have "uint l = int (length bs) + 1" using l by (simp add: uint_nat)
  moreover have "of_nat (length bs + 1) - 1 = (of_nat (length bs) :: uint32)" by simp
  ultimately show ?case
    by (subst multi_loop.simps) (use le h r l ih in \<open>simp add: p del: uint_nat\<close>)
qed

abbreviation unwrap_part :: "frame_handler \<Rightarrow> uint8 \<Rightarrow> nat \<Rightarrow> uint8 \<times> bytes \<times> uint32 \<Rightarrow> driver \<Rightarrow> driver option" where
  "unwrap_part leaf nid n \<equiv> \<lambda>(c, sub, l) d.
     if length sub < n then nested_class nid c d (\<lambda>k. unwrap leaf nid c (c_afterMark k) sub l 1 d) else None"

lemma deliver_parts_unwrap:
  assumes "\<forall>(cc, bs) \<in> set ps. no_encap cc \<and> bs \<noteq> []" "length (concat (map part_bytes ps) @ rest) < n"
  shows "run_all (unwrap_part leaf nid n) (part_read ps rest) d = deliver_parts leaf nid ps rest d"
  using assms
proof (induction ps arbitrary: d)
  case (Cons p ps)
  obtain cc bs where p: "p = (cc, bs)" by force
  have u: "unwrap leaf nid cc m (bs @ concat (map part_bytes ps) @ rest) l 1 d
      = leaf nid cc m (bs @ concat (map part_bytes ps) @ rest) l 1 d" for m l d
    using Cons.prems(1) by (intro unwrap_leaf) (simp_all add: p)
  show ?case using Cons by (simp add: p u cong: bind_option_cong)
qed simp

lemma sint_of_nat_small: "m < 2 ^ 31 \<Longrightarrow> sint (of_nat m :: uint32) = int m"
  by (simp add: signed_of_nat signed_take_bit_int_eq_self)

lemma multi_parts_good:
  assumes "ps \<noteq> []" "length ps < 255" "\<forall>(cc, bs) \<in> set ps. bs \<noteq> [] \<and> length bs < 255"
    and "length (packet_body (Multi ps)) + 1 < 2 ^ 31"
  shows "multi_parts (packet_body (Multi ps) @ rest) (of_nat (length (packet_body (Multi ps)) + 1)) = Some (part_read ps rest, True)"
proof -
  let ?b = "packet_body (Multi ps)" and ?c = "concat (map part_bytes ps)"
  have n: "unat (of_nat (length ps) :: uint8) = length ps"
    using assms(2) by (simp add: unat_of_nat take_bit_nat_eq_self)
  have "sint (of_nat (length ?b + 1) - 2 :: uint32) = int (length ?b) - 1"
  proof -
    have "(of_nat (length ?b + 1) - 2 :: uint32) = of_nat (length ?b - 1)" by (simp add: of_nat_diff)
    moreover have "1 \<le> length ?b" "length ?b - 1 < 2 ^ 31" using assms(4) by simp_all
    ultimately show ?thesis using sint_of_nat_small [of "length ?b - 1"] by (simp only: of_nat_diff of_nat_1)
  qed
  then show ?thesis
    using multi_loop_good [of _ "[0x01, of_nat (length ps)]" ps rest "int (length ?b) - 1" 1 "of_nat (length ps)"] assms n
    by (simp add: multi_parts_def peek_def numeral_2_eq_2)
qed

lemma unwrap_crc:
  assumes "packet_ok p" "length (packet_body (Crc p)) + 1 < 2 ^ 32"
  shows "unwrap leaf nid CC_CRC16_ENCAP controlled (packet_body (Crc p) @ rest) (of_nat (length (packet_body (Crc p)) + 1)) inst d
    = nested_class nid (packet_class p) d (\<lambda>k. unwrap leaf nid (packet_class p) (c_afterMark k)
        (packet_body p @ crc_bytes (crc16 (0x01 # packet_class p # packet_body p)) @ rest) (of_nat (length (packet_body p) + 1)) 1 d)"
proof -
  let ?b = "0x01 # packet_class p # packet_body p"
  define data where "data = ?b @ crc_bytes (crc16 ?b) @ rest"
  define sub where "sub = packet_body p @ crc_bytes (crc16 ?b) @ rest"
  define len :: uint32 where "len = of_nat (length ?b + 3)"
  define l :: uint32 where "l = of_nat (length (packet_body p) + 1)"
  have b: "packet_body (Crc p) @ rest = data" "of_nat (length (packet_body (Crc p)) + 1) = len"
    by (simp_all add: Let_def crc_bytes_def data_def len_def)
  have o: "crc_open data len = Some (Some (packet_class p, sub, l))"
    unfolding data_def len_def sub_def l_def
    using assms(2) by (intro crc_open_good) (simp_all add: crc_bytes_def Let_def)
  have "data \<noteq> []" "hd data = 0x01" "length sub < length data" by (simp_all add: data_def sub_def)
  with o show ?thesis unfolding b sub_def [symmetric] l_def [symmetric]
    by (subst unwrap.simps) simp
qed

lemma unwrap_channel:
  "unwrap leaf nid CC_MULTI_INSTANCE controlled (packet_body (Channel src dst p) @ rest) (of_nat (length (packet_body (Channel src dst p)) + 1)) inst d
    = has_channels nid d (\<lambda>d. nested_class nid (packet_class p) d (\<lambda>k. unwrap leaf nid (packet_class p) (fst (channel_instance (src AND 0x7f) k))
        (packet_body p @ rest) (of_nat (length (packet_body p) + 1)) (snd (channel_instance (src AND 0x7f) k)) d))"
  by (subst unwrap.simps)
    (simp add: has_channels_def instance_open_def channel_open_def peek_def cong: bind_option_cong)

lemma unwrap_multi:
  assumes "packet_ok (Multi ps)" "length (packet_body (Multi ps)) + 1 < 2 ^ 31"
  shows "unwrap leaf nid CC_MULTI_CMD controlled (packet_body (Multi ps) @ rest) (of_nat (length (packet_body (Multi ps)) + 1)) inst d
    = deliver_parts leaf nid ps rest d"
proof -
  define data where "data = packet_body (Multi ps) @ rest"
  define len :: uint32 where "len = of_nat (length (packet_body (Multi ps)) + 1)"
  have f: "\<forall>(cc, bs) \<in> set ps. no_encap cc \<and> bs \<noteq> []" "\<forall>(cc, bs) \<in> set ps. bs \<noteq> [] \<and> length bs < 255"
    using assms(1) by auto
  have m: "multi_parts data len = Some (part_read ps rest, True)"
    unfolding data_def len_def using assms f(2) by (intro multi_parts_good) simp_all
  have "data \<noteq> []" "hd data = 0x01" by (simp_all add: data_def)
  moreover have "unat len = length (packet_body (Multi ps)) + 1"
    unfolding len_def using assms(2) by (simp add: unat_of_nat take_bit_nat_eq_self del: of_nat_Suc of_nat_add)
  then have "\<not> len < 3" by (simp add: word_less_nat_alt)
  moreover have "run_all (unwrap_part leaf nid (length data)) (part_read ps rest) d = deliver_parts leaf nid ps rest d"
    using f(1) by (intro deliver_parts_unwrap) (simp_all add: data_def)
  ultimately show ?thesis using m unfolding data_def [symmetric] len_def [symmetric]
    by (subst unwrap.simps) simp
qed

text \<open>
  A frame nested in check sums, end points and a multi-command frame reaches exactly the classes inside it that the
  node has, with their bytes, in order, and the instance of the innermost end point.
\<close>

lemma unwrap_packet:
  assumes "packet_ok p" "length (packet_body p) + 1 < 2 ^ 31"
  shows "unwrap leaf nid (packet_class p) controlled (packet_body p @ rest) (of_nat (length (packet_body p) + 1)) inst d
    = deliver leaf nid p controlled rest inst d"
  using assms
proof (induction p arbitrary: controlled rest inst d)
  case (Plain cc bs)
  then show ?case by (simp add: unwrap_leaf)
next
  case (Crc p)
  have "packet_ok p" "length (packet_body p) + 1 < 2 ^ 31" using Crc.prems by (simp_all add: Let_def)
  note ih = Crc.IH [OF this]
  have "length (packet_body (Crc p)) + 1 < 2 ^ 32" by (rule less_trans [OF Crc.prems(2)]) simp
  then show ?case
    unfolding packet_class.simps deliver.simps ih [symmetric] using Crc.prems(1) by (intro unwrap_crc) simp_all
next
  case (Channel src dst p)
  have "packet_ok p" "length (packet_body p) + 1 < 2 ^ 31" using Channel.prems by simp_all
  note ih = Channel.IH [OF this]
  show ?case unfolding packet_class.simps deliver.simps ih [symmetric] by (rule unwrap_channel)
next
  case (Multi ps)
  then show ?case unfolding packet_class.simps deliver.simps by (rule unwrap_multi)
qed

section \<open>Damaged and short frames\<close>

lemma unwrap_crc_read:
  assumes "data \<noteq> []" "hd data = 0x01 \<Longrightarrow> crc_open data len = Some None"
  shows "unwrap leaf nid CC_CRC16_ENCAP controlled data len inst d = Some d"
  by (subst unwrap.simps) (use assms in simp)

lemma crc_open_refused:
  assumes "length b + 3 < 2 ^ 32" "[c1, c2] \<noteq> crc_bytes (crc16 b)"
  shows "crc_open (b @ c1 # c2 # rest) (of_nat (length b + 3)) = Some None"
proof -
  let ?n = "of_nat (length b + 3) :: uint32" and ?d = "b @ c1 # c2 # rest"
  have n: "?n - 3 = of_nat (length b)" "?n - 2 = of_nat (length b + 1)" by (simp_all add: algebra_simps)
  have u: "unat (?n - 3) = length b" "unat (?n - 2) = length b + 1"
    unfolding n using assms by (simp_all add: unat_of_nat take_bit_nat_eq_self del: of_nat_Suc of_nat_add)
  have "peek ?d (length b) = Some c1" "peek ?d (length b + 1) = Some c2" "peek_block ?d 0 (length b) = Some b"
    by (simp_all add: peek_def peek_block_def nth_append)
  then show ?thesis unfolding crc_open_def u using assms(2) by (simp add: two_bytes_crc)
qed

lemma crc_bytes_inj: "crc_bytes v = crc_bytes w \<longleftrightarrow> v = w"
  using two_bytes_crc [of "ucast (drop_bit 8 v)" "ucast v"] unfolding crc_bytes_def by metis

text \<open>(C22)
  Whatever byte of a frame with a check sum arrives changed, in the sum or in what it covers, the frame is ignored.
\<close>

lemma crc_frame_corruption:
  assumes "frame = packet_body (Crc p)" "length frame + 1 < 2 ^ 32" "i < length frame" "x \<noteq> frame ! i"
  shows "unwrap leaf nid CC_CRC16_ENCAP controlled (frame[i := x] @ rest) (of_nat (length frame + 1)) inst d = Some d"
proof (rule unwrap_crc_read)
  define b where "b = 0x01 # packet_class p # packet_body p"
  obtain c1 c2 where c: "crc_bytes (crc16 b) = [c1, c2]" by (simp add: crc_bytes_def)
  have f: "frame = b @ [c1, c2]" using assms(1) by (simp add: Let_def b_def c [unfolded b_def])
  then have len: "length frame + 1 = length b + 3" by simp
  then have short: "length b + 3 < 2 ^ 32" using assms(2) by simp
  show "frame[i := x] @ rest \<noteq> []" using f by simp
  show "crc_open (frame[i := x] @ rest) (of_nat (length frame + 1)) = Some None"
  proof (cases "i < length b")
    case True
    then have "crc16 (b[i := x]) \<noteq> crc16 b" using assms(4) f by (intro crc16_update) (simp_all add: nth_append)
    then have "[c1, c2] \<noteq> crc_bytes (crc16 (b[i := x]))" by (simp add: c [symmetric] crc_bytes_inj)
    with short show ?thesis
      using True crc_open_refused [of "b[i := x]" c1 c2 rest] unfolding len by (simp add: f list_update_append)
  next
    case False
    then consider "i = length b" | "i = length b + 1" using assms(3) f by fastforce
    then show ?thesis
    proof cases
      case 1
      then have "x \<noteq> c1" using assms(4) f by (simp add: nth_append)
      then have "[x, c2] \<noteq> crc_bytes (crc16 b)" by (simp add: c)
      from crc_open_refused [OF short this] 1 show ?thesis unfolding len by (simp add: f list_update_append)
    next
      case 2
      then have "x \<noteq> c2" using assms(4) f by (simp add: nth_append)
      then have "[c1, x] \<noteq> crc_bytes (crc16 b)" by (simp add: c)
      from crc_open_refused [OF short this] 2 show ?thesis unfolding len by (simp add: f list_update_append)
    qed
  qed
qed

text \<open>
  A frame of the class that is shorter than a check sum makes the driver read far outside the frame.
\<close>

lemma short_crc_frame_undefined:
  assumes "hd data = 0x01" "len < 3" "length data \<le> 2 ^ 32 - 3"
  shows "unwrap leaf nid CC_CRC16_ENCAP controlled data len inst d = None"
proof -
  have "unat len = 0 \<or> unat len = 1 \<or> unat len = 2" using assms(2) by (auto simp: word_less_nat_alt)
  then have "len = 0 \<or> len = 1 \<or> len = 2" by (auto simp: word_unat_eq_iff)
  then have "2 ^ 32 - 3 \<le> unat (len - 3)" by (elim disjE) simp_all
  then have "length data \<le> unat (len - 3)" using assms(3) by (rule le_trans [rotated])
  then have "crc_open data len = None" by (simp add: crc_open_def peek_def)
  then show ?thesis by (subst unwrap.simps) (simp add: assms(1))
qed

section \<open>Encryption is only required of the outer class\<close>

lemma with_encap_packet:
  assumes "drop 8 buf = packet_body p @ rest" "unat (dat buf 4) = length (packet_body p) + 1" "packet_ok p"
  shows "with_encap leaf nid (packet_class p) controlled buf d = deliver leaf nid p controlled rest 1 d"
proof -
  have l: "length (packet_body p) + 1 < 2 ^ 31"
  proof -
    have "unat (dat buf 4) < 2 ^ LENGTH(8)" by (rule unsigned_less)
    then have "length (packet_body p) + 1 < 2 ^ 8" using assms(2) by simp
    then show ?thesis by (rule less_trans) simp
  qed
  have "(ucast (dat buf 4) :: uint32) = of_nat (length (packet_body p) + 1)"
    using assms(2) by (metis of_nat_unat)
  then show ?thesis
    using unwrap_packet [OF assms(3) l] unfolding with_encap_def assms(1) by simp
qed

text \<open>(C16)
  A class that is to be used encrypted refuses the frames that arrive in clear, but the same bytes in clear inside
  a frame with a check sum are handed to it.
\<close>

lemma encapsulation_evades_encryption:
  assumes n: "d_nodes d nid = Some n" and outer: "n_classes n CC_CRC16_ENCAP = Some k0" "\<not> c_secured k0"
    and inner: "n_classes n cc = Some k" "c_secured k" and cc: "no_encap cc" "bs \<noteq> []"
    and direct: "dat buf 5 = cc"
    and wrapped: "dat buf' 5 = CC_CRC16_ENCAP" "drop 8 buf' = packet_body (Crc (Plain cc bs)) @ rest"
      "unat (dat buf' 4) = length (packet_body (Crc (Plain cc bs))) + 1"
  shows "ApplicationCommandHandler env key (with_encap leaf) True nid buf False d = Some d \<and>
    ApplicationCommandHandler env key (with_encap leaf) True nid buf' False d =
      leaf nid cc (c_afterMark k) (bs @ crc_bytes (crc16 (0x01 # cc # bs)) @ rest) (of_nat (length bs + 1)) 1
        (put_node nid (class_received CC_CRC16_ENCAP n) d)"
proof
  show "ApplicationCommandHandler env key (with_encap leaf) True nid buf False d = Some d"
    using n inner direct by (simp add: ApplicationCommandHandler_def)
  have "cc \<noteq> CC_CRC16_ENCAP" using cc(1) by (simp add: no_encap_def)
  then have c: "n_classes (class_received CC_CRC16_ENCAP n) cc = Some k"
    using inner(1) by (simp add: class_received_def map_class_def split: option.split)
  have "with_encap leaf nid CC_CRC16_ENCAP m buf' d' = deliver leaf nid (Crc (Plain cc bs)) m rest 1 d'" for m d'
    using with_encap_packet [OF wrapped(2,3)] cc by simp
  then show "ApplicationCommandHandler env key (with_encap leaf) True nid buf' False d =
      leaf nid cc (c_afterMark k) (bs @ crc_bytes (crc16 (0x01 # cc # bs)) @ rest) (of_nat (length bs + 1)) 1
        (put_node nid (class_received CC_CRC16_ENCAP n) d)"
    using n outer c
    by (simp add: ApplicationCommandHandler_def wrapped(1) dispatch_def nested_class_def put_node_def)
qed

section \<open>Examples\<close>

text \<open>A driver with a node 5 that has the three classes and one that is to be used encrypted.\<close>

definition wrapping_node :: node where
  "wrapping_node = Node_new\<lparr>n_classes :=
     [CC_CRC16_ENCAP \<mapsto> class_new CC_CRC16_ENCAP, CC_MULTI_CMD \<mapsto> class_new CC_MULTI_CMD,
      CC_MULTI_INSTANCE \<mapsto> class_new CC_MULTI_INSTANCE, 0x25 \<mapsto> (class_new 0x25)\<lparr>c_secured := True\<rparr>]\<rparr>"

definition wrapping_driver :: driver where
  "wrapping_driver = put_node 5 wrapping_node (Driver_new 10)"

text \<open>Classes that announce the command they are given.\<close>

definition telling :: frame_handler where
  "telling nid cc controlled data len inst d =
     (if data = [] then None else Some (notify (Note_ButtonOn nid (hd data)) d))"

text \<open>(C15)
  A frame nested in check sums, end points and a multi-command frame reaches exactly the classes inside it that the
  node has, with their bytes and what follows them in the buffer, in order, and the instance of the innermost end
  point.  The length handed on counts the class byte, except for the commands of a multi-command frame, where it is
  one less.
\<close>

lemma nested_frames_delivered:
  assumes "drop 8 buf = packet_body p @ rest" "unat (dat buf 4) = length (packet_body p) + 1" "packet_ok p"
  shows "with_encap leaf nid (packet_class p) controlled buf d = deliver leaf nid p controlled rest 1 d"
  using assms by (rule with_encap_packet)

lemma nested_frames_delivered_witness:
  "with_encap telling 5 CC_CRC16_ENCAP False
     ([0x01, 27, 0, 0x04, 0, 5, 21, 0x56] @ packet_body (Crc (Channel 2 0 (Multi [(0x25, [3]), (0x20, [1]), (0x25, [1, 0xff])])))) wrapping_driver
   = Some (notify (Note_ButtonOn 5 1) (notify (Note_ButtonOn 5 3) wrapping_driver))"
proof -
  let ?p = "Crc (Channel 2 0 (Multi [(0x25, [3]), (0x20, [1]), (0x25, [1, 0xff])]))"
  let ?b = "[0x01, 27, 0, 0x04, 0, 5, 21, 0x56] @ packet_body ?p"
  have "with_encap telling 5 (packet_class ?p) False ?b wrapping_driver = deliver telling 5 ?p False [] 1 wrapping_driver"
    by (rule nested_frames_delivered) (simp_all add: dat_def crc_bytes_def no_encap_def Let_def)
  also have "\<dots> = Some (notify (Note_ButtonOn 5 1) (notify (Note_ButtonOn 5 3) wrapping_driver))"
    by (simp add: nested_class_def has_channels_def telling_def wrapping_driver_def wrapping_node_def put_node_def notify_def)
  finally show ?thesis by simp
qed

lemma crc_frame_corruption_witness:
  "unwrap telling 5 CC_CRC16_ENCAP False ((packet_body (Crc (Plain 0x25 [3, 0xff])))[3 := 0]) 7 1 wrapping_driver = Some wrapping_driver"
  using crc_frame_corruption [OF refl, of "Plain 0x25 [3, 0xff]" 3 0 telling 5 False "[]" 1 wrapping_driver]
  by (simp add: crc_bytes_def Let_def)

lemma short_crc_frame_undefined_witness:
  "unwrap telling 5 CC_CRC16_ENCAP False [0x01, 0x77] 2 1 wrapping_driver = None"
  by (rule short_crc_frame_undefined) simp_all

lemma encapsulation_evades_encryption_witness:
  "ApplicationCommandHandler quiet_env [] (with_encap telling) True 5 ([0x01, 9, 0, 0x04, 0, 5, 3, 0x25, 1, 0xff]) False wrapping_driver
      = Some wrapping_driver \<and>
   ApplicationCommandHandler quiet_env [] (with_encap telling) True 5
      ([0x01, 12, 0, 0x04, 0, 5, 7, 0x56] @ packet_body (Crc (Plain 0x25 [1, 0xff]))) False wrapping_driver
      = Some (notify (Note_ButtonOn 5 1) (put_node 5 (class_received CC_CRC16_ENCAP wrapping_node) wrapping_driver))"
proof -
  have n: "d_nodes wrapping_driver 5 = Some wrapping_node" by (simp add: wrapping_driver_def put_node_def)
  have c: "n_classes wrapping_node CC_CRC16_ENCAP = Some (class_new CC_CRC16_ENCAP)" "\<not> c_secured (class_new CC_CRC16_ENCAP)"
    "n_classes wrapping_node 0x25 = Some ((class_new 0x25)\<lparr>c_secured := True\<rparr>)" "c_secured ((class_new 0x25)\<lparr>c_secured := True\<rparr>)"
    by (simp_all add: wrapping_node_def class_new_def)
  show ?thesis
    using encapsulation_evades_encryption [OF n c, of "[1, 0xff]" "[0x01, 9, 0, 0x04, 0, 5, 3, 0x25, 1, 0xff]"
        "[0x01, 12, 0, 0x04, 0, 5, 7, 0x56] @ packet_body (Crc (Plain 0x25 [1, 0xff]))" "[]" quiet_env "[]" telling]
    by (simp add: dat_def no_encap_def telling_def crc_bytes_def Let_def)
qed

end
