(* ===== verification/Encapsulation_Safe.thy ===== *)
theory Encapsulation_Safe
  imports Encapsulation_Laws Wake_Class_Laws
begin

text \<open>
  The encapsulations as command classes of the driver: whatever is nested in a frame, the driver stays well formed if
  the classes keep it so.  The wake-up and the security class are then reached through any nesting.
\<close>

definition leaf_ok :: "frame_handler \<Rightarrow> bool" where
  "leaf_ok leaf \<longleftrightarrow> (\<forall>nid cc m data len inst d. well_formed d \<longrightarrow> safe (leaf nid cc m data len inst d))"

lemma leaf_okD: "leaf_ok leaf \<Longrightarrow> well_formed d \<Longrightarrow> safe (leaf nid cc m data len inst d)"
  by (simp add: leaf_ok_def)

lemma nested_class_safe:
  assumes "well_formed d" "\<And>c. safe (f c)"
  shows "safe (nested_class nid cc d f)"
  using assms by (auto simp: nested_class_def safe_def split: Option.bind_splits option.splits)

lemma run_all_safe:
  assumes "well_formed d" "\<And>x d. x \<in> set xs \<Longrightarrow> well_formed d \<Longrightarrow> safe (f x d)"
  shows "safe (run_all f xs d)"
  using assms
proof (induction xs arbitrary: d)
  case (Cons x xs)
  then have "safe (f x d)" by simp
  with Cons show ?case by (cases "f x d") simp_all
qed simp

lemma unwrap_safe:
  assumes leaf: "leaf_ok leaf" and w: "well_formed d"
  shows "safe (unwrap leaf nid cc m data len inst d)"
  using w
proof (induction data arbitrary: nid cc m len inst d rule: measure_induct_rule [of length])
  case (less data)
  note w = less.prems
  have in_class: "safe (if length sub < length data then nested_class nid c d (\<lambda>k. unwrap leaf nid c (f k) sub l (g k) d) else None)"
    if "well_formed d" for c sub l f g d
    using that less.IH by (auto intro!: nested_class_safe)
  have received: "well_formed (put_node nid (class_received c n) d)" if "d_nodes d nid = Some n" for c n
    by (rule class_received_wf [OF w that]) simp
  have crc: "safe (do { opened \<leftarrow> crc_open data len;
      case opened of None \<Rightarrow> Some d | Some (c, sub, l) \<Rightarrow>
        if length sub < length data then nested_class nid c d (\<lambda>k. unwrap leaf nid c (c_afterMark k) sub l 1 d) else None })"
    using w in_class by (auto intro!: safe_get split: option.split)
  have multi: "safe (do { (parts, ok) \<leftarrow> multi_parts data len;
      run_all (\<lambda>(c, sub, l) d. if length sub < length data
        then nested_class nid c d (\<lambda>k. unwrap leaf nid c (c_afterMark k) sub l 1 d) else None) parts d })"
    using w in_class by (auto intro!: safe_get run_all_safe)
  have channel: "safe (do { n \<leftarrow> d_nodes d nid; own \<leftarrow> n_classes n CC_MULTI_INSTANCE;
      (i, c, sub, l) \<leftarrow> instance_open (c_version own) data len;
      if hd data = 0x06 \<and> n_classes n c \<noteq> None
      then (if length sub < length data
            then unwrap leaf nid c False sub l (ucast i) (put_node nid (class_received c n) d) else None)
      else do { (e, c, sub, l) \<leftarrow> channel_open data len;
        if length sub < length data
        then nested_class nid c d (\<lambda>k. unwrap leaf nid c (fst (channel_instance e k)) sub l (snd (channel_instance e k)) d)
        else None } })"
    using w in_class received less.IH by (auto intro!: safe_get)
  show ?case
    by (subst unwrap.simps) (use w crc multi channel leaf_okD [OF leaf w] in simp)
qed

lemma with_encap_ok: "leaf_ok leaf \<Longrightarrow> handler_ok (with_encap leaf)"
  by (simp add: handler_ok_def with_encap_def unwrap_safe)

section \<open>The classes that are modelled\<close>

text \<open>The wake-up and the security class behind any nesting; the others are \<open>other\<close>.\<close>

definition class_leaf :: "node_env \<Rightarrow> bytes \<Rightarrow> (uint8 \<Rightarrow> uint32 \<Rightarrow> uint32 option) \<Rightarrow> frame_handler \<Rightarrow> frame_handler" where
  "class_leaf env key values other nid cc m data len inst d =
     (if cc = CC_WAKE_UP then map_option snd (WakeUp_HandleMsg env values nid data len d)
      else if cc = CC_SECURITY then map_option snd (Security_HandleMsg env key nid data len inst d)
      else other nid cc m data len inst d)"

lemma class_leaf_ok:
  assumes "env_ok env" "leaf_ok other"
  shows "leaf_ok (class_leaf env key values other)"
  unfolding leaf_ok_def class_leaf_def
  by (intro allI impI safe_rules WakeUp_HandleMsg_safe Security_HandleMsg_safe assms(1) leaf_okD [OF assms(2)])

definition no_leaves :: frame_handler where
  "no_leaves nid cc m data len inst d = Some d"

lemma no_leaves_ok: "leaf_ok no_leaves"
  by (simp add: leaf_ok_def no_leaves_def)

interpretation encap: command_classes "with_encap (class_leaf quiet_env key (\<lambda>_ _. None) no_leaves)"
  using handler_okD [OF with_encap_ok [OF class_leaf_ok [OF quiet_env_ok no_leaves_ok]]] by unfold_locales

end
