(* ===== verification/Options_Store.thy ===== *)
theory Options_Store
  imports Prelude
begin

text \<open>
  The program options: \<open>Options.cpp\<close> and \<open>Options.h\<close>.  The option objects are each pointed to by one entry of the
  map, so an entry holds the object.  \<open>None\<close> as a result is an exception of the string library or a conversion the
  library leaves undefined.  An XML file is what the XML library makes of it: the elements below the root, with their
  name and the two attributes that are read.
\<close>

section \<open>Strings\<close>

definition tolower :: "char \<Rightarrow> char" where
  "tolower c = (if 65 \<le> (of_char c :: nat) \<and> (of_char c :: nat) \<le> 90 then char_of ((of_char c :: nat) + 32) else c)"

definition ToLower :: "string \<Rightarrow> string" where
  "ToLower s = map tolower s"

text \<open>\<open>atol\<close>: white space, a sign, digits; what does not fit in 64 bits is undefined.\<close>

definition is_space :: "char \<Rightarrow> bool" where
  "is_space c \<longleftrightarrow> c = CHR '' '' \<or> (9 \<le> (of_char c :: nat) \<and> (of_char c :: nat) \<le> 13)"

definition digit_value :: "char \<Rightarrow> nat option" where
  "digit_value c = (if 48 \<le> (of_char c :: nat) \<and> (of_char c :: nat) \<le> 57 then Some (of_char c - 48) else None)"

fun digits :: "int \<Rightarrow> string \<Rightarrow> int" where
  "digits n [] = n"
| "digits n (c # cs) = (case digit_value c of None \<Rightarrow> n | Some k \<Rightarrow> digits (10 * n + int k) cs)"

definition signed_digits :: "string \<Rightarrow> int" where
  "signed_digits s =
     (case s of [] \<Rightarrow> 0
      | c # cs \<Rightarrow> if c = CHR ''-'' then - digits 0 cs else if c = CHR ''+'' then digits 0 cs else digits 0 s)"

definition atol :: "string \<Rightarrow> int option" where
  "atol s = (let v = signed_digits (dropWhile is_space s) in if - (2 ^ 63) \<le> v \<and> v < 2 ^ 63 then Some v else None)"

section \<open>Options\<close>

datatype option_type = OptionType_Invalid | OptionType_Bool | OptionType_Int | OptionType_String

record option_entry =
  o_type :: option_type
  o_name :: string
  o_valueBool :: bool
  o_valueInt :: uint32
  o_valueString :: string
  o_append :: bool

record options =
  os_options :: "string \<Rightarrow> option_entry option"
  os_commandLine :: string
  os_locked :: bool

definition Option_new :: "string \<Rightarrow> option_entry" where
  "Option_new name = \<lparr> o_type = OptionType_Invalid, o_name = name, o_valueBool = False, o_valueInt = 0,
     o_valueString = [], o_append = False \<rparr>"

definition Options_new :: "string \<Rightarrow> options" where
  "Options_new commandLine = \<lparr> os_options = (\<lambda>_. None), os_commandLine = commandLine, os_locked = False \<rparr>"

definition Options_Find :: "string \<Rightarrow> options \<Rightarrow> option_entry option" where
  "Options_Find name os = os_options os (ToLower name)"

definition AddOption :: "string \<Rightarrow> options \<Rightarrow> option_entry option" where
  "AddOption name os =
     (if os_locked os then None
      else case Options_Find name os of None \<Rightarrow> Some (Option_new name) | Some e \<Rightarrow> Some e)"

definition put_option :: "string \<Rightarrow> option_entry \<Rightarrow> options \<Rightarrow> options" where
  "put_option name e os = os\<lparr>os_options := (os_options os)(ToLower name \<mapsto> e)\<rparr>"

definition AddOptionBool :: "string \<Rightarrow> bool \<Rightarrow> options \<Rightarrow> bool \<times> options" where
  "AddOptionBool name v os =
     (case AddOption name os of None \<Rightarrow> (False, os)
      | Some e \<Rightarrow> (True, put_option name (e\<lparr>o_type := OptionType_Bool, o_valueBool := v\<rparr>) os))"

definition AddOptionInt :: "string \<Rightarrow> uint32 \<Rightarrow> options \<Rightarrow> bool \<times> options" where
  "AddOptionInt name v os =
     (case AddOption name os of None \<Rightarrow> (False, os)
      | Some e \<Rightarrow> (True, put_option name (e\<lparr>o_type := OptionType_Int, o_valueInt := v\<rparr>) os))"

definition AddOptionString :: "string \<Rightarrow> string \<Rightarrow> bool \<Rightarrow> options \<Rightarrow> bool \<times> options" where
  "AddOptionString name v app os =
     (case AddOption name os of None \<Rightarrow> (False, os)
      | Some e \<Rightarrow> (True, put_option name (e\<lparr>o_type := OptionType_String, o_valueString := v, o_append := app\<rparr>) os))"

definition GetOptionAsBool :: "string \<Rightarrow> options \<Rightarrow> bool option" where
  "GetOptionAsBool name os =
     (case Options_Find name os of None \<Rightarrow> None
      | Some e \<Rightarrow> if o_type e = OptionType_Bool then Some (o_valueBool e) else None)"

definition GetOptionAsInt :: "string \<Rightarrow> options \<Rightarrow> uint32 option" where
  "GetOptionAsInt name os =
     (case Options_Find name os of None \<Rightarrow> None
      | Some e \<Rightarrow> if o_type e = OptionType_Int then Some (o_valueInt e) else None)"

definition GetOptionAsString :: "string \<Rightarrow> options \<Rightarrow> string option" where
  "GetOptionAsString name os =
     (case Options_Find name os of None \<Rightarrow> None
      | Some e \<Rightarrow> if o_type e = OptionType_String then Some (o_valueString e) else None)"

definition GetOptionType :: "string \<Rightarrow> options \<Rightarrow> option_type" where
  "GetOptionType name os = (case Options_Find name os of None \<Rightarrow> OptionType_Invalid | Some e \<Rightarrow> o_type e)"

definition SetValueFromString :: "string \<Rightarrow> option_entry \<Rightarrow> (bool \<times> option_entry) option" where
  "SetValueFromString v e =
     (case o_type e of
        OptionType_Bool \<Rightarrow>
          (if ToLower v = ''true'' \<or> ToLower v = ''1'' then Some (True, e\<lparr>o_valueBool := True\<rparr>)
           else if ToLower v = ''false'' \<or> ToLower v = ''0'' then Some (True, e\<lparr>o_valueBool := False\<rparr>)
           else Some (False, e))
      | OptionType_Int \<Rightarrow> map_option (\<lambda>i. (True, e\<lparr>o_valueInt := of_int i\<rparr>)) (atol v)
      | OptionType_String \<Rightarrow>
          Some (True, e\<lparr>o_valueString := (if o_append e \<and> o_valueString e \<noteq> [] then o_valueString e @ '','' @ v else v)\<rparr>)
      | OptionType_Invalid \<Rightarrow> Some (False, e))"

section \<open>The command line\<close>

text \<open>
  A position in the command line is the rest of it from there, \<open>None\<close> the position behind every string
  (\<open>npos\<close>).  \<open>next_word\<close> is the text up to a blank and the position behind the blank.
\<close>

definition next_word :: "string \<Rightarrow> string \<times> string option" where
  "next_word r = (takeWhile (\<lambda>c. c \<noteq> CHR '' '') r,
     (case dropWhile (\<lambda>c. c \<noteq> CHR '' '') r of [] \<Rightarrow> None | _ # t \<Rightarrow> Some t))"

lemma next_word_shorter: "next_word r = (w, Some t) \<Longrightarrow> length t < length r"
  using length_dropWhile_le [of "\<lambda>c. c \<noteq> CHR '' ''" r] by (auto simp: next_word_def split: list.splits)

text \<open>
  The values of one option, from a position on: the option, whether it had a value if it needs one, and the
  position where the next option is looked for.
\<close>

function read_values :: "option_entry \<Rightarrow> nat \<Rightarrow> string option \<Rightarrow> (option_entry \<times> bool \<times> string option) option" where
  "read_values e numValues None = None"
| "read_values e numValues (Some r) =
     (let (v, rest) = next_word r in
      if take 2 v = ''--''
      then (if numValues = 0
            then (if o_type e = OptionType_Bool then Some (e\<lparr>o_valueBool := True\<rparr>, True, Some r) else Some (e, False, Some r))
            else Some (e, True, Some r))
      else if v \<noteq> [] then do {
        (_, e1) \<leftarrow> SetValueFromString v e;
        (case rest of None \<Rightarrow> Some (e1, True, None) | Some t \<Rightarrow> read_values e1 (numValues + 1) (Some t))
      }
      else (case rest of None \<Rightarrow> Some (e, True, None) | Some t \<Rightarrow> read_values e numValues (Some t)))"
  by pat_completeness auto
termination
  by (relation "measure (\<lambda>(e, n, r). case r of None \<Rightarrow> 0 | Some s \<Rightarrow> length s)") (auto dest!: next_word_shorter [OF sym])

declare read_values.simps [simp del]

definition one_value :: "option_entry \<Rightarrow> option_entry \<Rightarrow> bool" where
  "one_value e e' \<longleftrightarrow> e' = e \<or> e' = e\<lparr>o_valueBool := True\<rparr> \<or> (\<exists>v ok. SetValueFromString v e = Some (ok, e'))"

text \<open>One round: it stops at the next option or the end, or goes on behind a word.\<close>

lemma read_values_round:
  assumes "read_values e n (Some r) = Some (e', ok, r')"
  shows "(one_value e e' \<and> (r' = Some r \<or> r' = None)) \<or>
    (\<exists>e1 m t. one_value e e1 \<and> length t < length r \<and> read_values e1 m (Some t) = Some (e', ok, r'))"
proof -
  obtain v rest where w: "next_word r = (v, rest)" by force
  have t: "length t < length r" if "rest = Some t" for t using next_word_shorter w that by simp
  note result = assms [unfolded read_values.simps(2) [of e n r] w Let_def prod.case]
  consider "take 2 v = ''--''" | "take 2 v \<noteq> ''--''" "v = []" | "take 2 v \<noteq> ''--''" "v \<noteq> []" by blast
  then show ?thesis
  proof cases
    case 1
    with result show ?thesis by (simp add: one_value_def split: if_splits)
  next
    case 2
    with result t show ?thesis by (cases rest) (auto simp: one_value_def)
  next
    case 3
    obtain x where x: "SetValueFromString v e = Some x"
      using result 3 by (cases "SetValueFromString v e") simp_all
    then have o: "one_value e (snd x)" by (auto simp: one_value_def intro!: exI [of _ v] exI [of _ "fst x"])
    show ?thesis
    proof (cases rest)
      case None
      with result 3 x o show ?thesis by (simp add: case_prod_unfold)
    next
      case (Some u)
      then have "read_values (snd x) (n + 1) (Some u) = Some (e', ok, r')" using result 3 x by (simp add: case_prod_unfold)
      with o t [OF Some] show ?thesis by blast
    qed
  qed
qed

lemma read_values_shorter:
  "read_values e n (Some r) = Some (e', ok, Some r') \<Longrightarrow> length r' \<le> length r"
proof (induction r arbitrary: e n rule: measure_induct_rule [of length])
  case (less r)
  from read_values_round [OF less.prems] show ?case
  proof
    assume "\<exists>e1 m t. one_value e e1 \<and> length t < length r \<and> read_values e1 m (Some t) = Some (e', ok, Some r')"
    then obtain e1 m t where "length t < length r" "read_values e1 m (Some t) = Some (e', ok, Some r')" by blast
    with less.IH [of t e1 m] show ?case by simp
  qed simp
qed

text \<open>\<open>find_first_of(''--'')\<close> looks for one of the characters, that is, for a single dash.\<close>

function parse_options :: "string option \<Rightarrow> options \<Rightarrow> (bool \<times> options) option" where
  "parse_options None os = Some (True, os)"
| "parse_options (Some s) os =
     (case dropWhile (\<lambda>c. c \<noteq> CHR ''-'') s of
        [] \<Rightarrow> Some (True, os)
      | [_] \<Rightarrow> None
      | _ # _ # r \<Rightarrow>
          (let (name, rest) = next_word r in
           case Options_Find name os of
             None \<Rightarrow> parse_options rest os
           | Some e \<Rightarrow> do {
               (e1, ok, rest1) \<leftarrow> read_values e 0 rest;
               (res, os1) \<leftarrow> parse_options rest1 (put_option name e1 os);
               Some (ok \<and> res, os1)
             }))"
  by pat_completeness auto
termination
proof (relation "measure (\<lambda>(r, os). case r of None \<Rightarrow> 0 | Some s \<Rightarrow> Suc (length s))", goal_cases)
  case (2 s os c cs d r w name rest)
  have "Suc (Suc (length r)) \<le> length s"
    using 2(1-3) length_dropWhile_le [of "\<lambda>c. c \<noteq> CHR ''-''" s] by simp
  moreover have "length t < length r" if "rest = Some t" for t
    using 2(3-5) that by (intro next_word_shorter [of r name]) simp
  ultimately show ?case by (cases rest) fastforce+
next
  case (3 s os c cs d r w name rest e a e1 p ok rest1)
  have "Suc (Suc (length r)) \<le> length s"
    using 3(1-3) length_dropWhile_le [of "\<lambda>c. c \<noteq> CHR ''-''" s] by simp
  moreover have "length t < length r" if "rest = Some t" for t
    using 3(3-6) that by (intro next_word_shorter [of r name]) simp
  moreover have "length u \<le> length t" if "rest = Some t" "rest1 = Some u" for t u
    using 3(6-8) that by (intro read_values_shorter [of e 0 t e1 ok]) simp
  moreover have "rest \<noteq> None" using 3(6-8) by (cases rest) (simp_all add: read_values.simps(1))
  ultimately show ?case by (cases rest; cases rest1) fastforce+
qed simp

declare parse_options.simps [simp del]

definition ParseOptionsString :: "string \<Rightarrow> options \<Rightarrow> (bool \<times> options) option" where
  "ParseOptionsString commandLine os = parse_options (Some commandLine) os"

section \<open>XML files, locking, defaults\<close>

record xml_element =
  x_value :: string
  x_name :: "string option"
  x_setting :: "string option"

definition option_element :: "xml_element \<Rightarrow> options \<Rightarrow> options option" where
  "option_element x os =
     (if x_value x = ''Option'' then
        (case x_name x of None \<Rightarrow> Some os
         | Some name \<Rightarrow>
             (case Options_Find name os of None \<Rightarrow> Some os
              | Some e \<Rightarrow>
                  (case x_setting x of None \<Rightarrow> Some os
                   | Some v \<Rightarrow> map_option (\<lambda>(_, e1). put_option name e1 os) (SetValueFromString v e))))
      else Some os)"

fun option_elements :: "xml_element list \<Rightarrow> options \<Rightarrow> options option" where
  "option_elements [] os = Some os"
| "option_elements (x # xs) os = Option.bind (option_element x os) (option_elements xs)"

text \<open>The file is \<open>None\<close> when it cannot be loaded.\<close>

definition ParseOptionsXML :: "xml_element list option \<Rightarrow> options \<Rightarrow> (bool \<times> options) option" where
  "ParseOptionsXML file os =
     (case file of None \<Rightarrow> Some (False, os) | Some xs \<Rightarrow> map_option (Pair True) (option_elements xs os))"

text \<open>\<open>Options::Lock\<close>, given the files at the system's and the user's path.\<close>

definition Options_Lock :: "xml_element list option \<Rightarrow> xml_element list option \<Rightarrow> options \<Rightarrow> (bool \<times> options) option" where
  "Options_Lock system user os =
     (if os_locked os then Some (False, os)
      else do {
        (_, os1) \<leftarrow> ParseOptionsXML system os;
        (_, os2) \<leftarrow> ParseOptionsXML user os1;
        (_, os3) \<leftarrow> ParseOptionsString (os_commandLine os) os2;
        Some (True, os3\<lparr>os_locked := True\<rparr>)
      })"

datatype option_decl = DeclBool string bool | DeclInt string uint32 | DeclString string string bool

fun declare_option :: "option_decl \<Rightarrow> options \<Rightarrow> options" where
  "declare_option (DeclBool name v) os = snd (AddOptionBool name v os)"
| "declare_option (DeclInt name v) os = snd (AddOptionInt name v os)"
| "declare_option (DeclString name v app) os = snd (AddOptionString name v app os)"

definition default_options :: "string \<Rightarrow> string \<Rightarrow> option_decl list" where
  "default_options configPath userPath =
    [DeclString ''ConfigPath'' configPath False,
     DeclString ''UserPath'' userPath False,
     DeclBool ''Logging'' True,
     DeclString ''LogFileName'' ''OZW_Log.txt'' False,
     DeclBool ''AppendLogFile'' False,
     DeclBool ''ConsoleOutput'' True,
     DeclInt ''SaveLogLevel'' 8,
     DeclInt ''QueueLogLevel'' 9,
     DeclInt ''DumpTriggerLevel'' 1,
     DeclBool ''Associate'' True,
     DeclString ''Exclude'' [] True,
     DeclString ''Include'' [] True,
     DeclBool ''NotifyTransactions'' False,
     DeclString ''Interface'' [] True,
     DeclBool ''SaveConfiguration'' True,
     DeclInt ''DriverMaxAttempts'' 0,
     DeclInt ''PollInterval'' 30000,
     DeclBool ''IntervalBetweenPolls'' False,
     DeclBool ''SuppressValueRefresh'' False,
     DeclBool ''PerformReturnRoutes'' False,
     DeclString ''NetworkKey'' [] False,
     DeclBool ''RefreshAllUserCodes'' False,
     DeclInt ''RetryTimeout'' 10000,
     DeclBool ''EnableSIS'' True,
     DeclBool ''AssumeAwake'' True,
     DeclBool ''NotifyOnDriverUnload'' False,
     DeclString ''SecurityStrategy'' ''SUPPORTED'' False,
     DeclString ''CustomSecuredCC'' ''0x62,0x4c,0x63'' False,
     DeclBool ''EnforceSecureReception'' True,
     DeclBool ''AutoUpdateConfigFile'' True,
     DeclString ''ReloadAfterUpdate'' ''AWAKE'' False,
     DeclString ''Language'' [] False,
     DeclBool ''IncludeInstanceLabel'' True]"

definition with_slash :: "string \<Rightarrow> string" where
  "with_slash path = (if path \<noteq> [] \<and> last path \<noteq> CHR ''/'' then path @ ''/'' else path)"

text \<open>
  \<open>Options::Create\<close> without an object there is: the folder of the configuration is the one given or one of two
  others, \<open>exists\<close> telling which folders there are; \<open>None\<close> when there is none.
\<close>

definition Options_Create :: "(string \<Rightarrow> bool) \<Rightarrow> string \<Rightarrow> string \<Rightarrow> string \<Rightarrow> options option" where
  "Options_Create exists configPath userPath commandLine = do {
     path \<leftarrow> (if exists (with_slash configPath) then Some (with_slash configPath)
       else if exists ''config/'' then Some ''config/''
       else if exists ''/etc/openzwave/'' then Some ''/etc/openzwave/''
       else None);
     Some (fold declare_option (default_options path (with_slash userPath)) (Options_new commandLine))
   }"

end
