(* ===== verification/Options_Laws.thy ===== *)
theory Options_Laws
  imports Options_Store
begin

text \<open>
  What the options promise: a command line sets the options as written, an option keeps the type it was declared
  with whatever is read, and nothing can be declared once they are locked.
\<close>

section \<open>Command lines\<close>

fun join_words :: "string list \<Rightarrow> string" where
  "join_words [] = []"
| "join_words [w] = w"
| "join_words (w # ws) = w @ CHR '' '' # join_words ws"

type_synonym setting = "string \<times> string list"

fun setting_words :: "setting \<Rightarrow> string list" where
  "setting_words (n, vs) = (''--'' @ n) # vs"

definition command_line :: "setting list \<Rightarrow> string" where
  "command_line ss = join_words (concat (map setting_words ss))"

fun set_values :: "string list \<Rightarrow> option_entry \<Rightarrow> option_entry option" where
  "set_values [] e = Some e"
| "set_values (v # vs) e = Option.bind (SetValueFromString v e) (\<lambda>(_, e1). set_values vs e1)"

text \<open>What one option of the command line is to do; only a boolean option may stand without a value.\<close>

fun apply_setting :: "setting \<Rightarrow> options \<Rightarrow> (bool \<times> options) option" where
  "apply_setting (n, vs) os =
     (case Options_Find n os of
        None \<Rightarrow> Some (True, os)
      | Some e \<Rightarrow>
          if vs \<noteq> [] then map_option (\<lambda>e1. (True, put_option n e1 os)) (set_values vs e)
          else if o_type e = OptionType_Bool then Some (True, put_option n (e\<lparr>o_valueBool := True\<rparr>) os)
          else Some (False, put_option n e os))"

fun apply_settings :: "setting list \<Rightarrow> options \<Rightarrow> (bool \<times> options) option" where
  "apply_settings [] os = Some (True, os)"
| "apply_settings (s # ss) os = do {
     (a, os1) \<leftarrow> apply_setting s os;
     (b, os2) \<leftarrow> apply_settings ss os1;
     Some (a \<and> b, os2)
   }"

definition word_ok :: "string \<Rightarrow> bool" where
  "word_ok w \<longleftrightarrow> w \<noteq> [] \<and> CHR '' '' \<notin> set w \<and> take 2 w \<noteq> ''--''"

definition known :: "options \<Rightarrow> string \<Rightarrow> bool" where
  "known os n \<longleftrightarrow> Options_Find n os \<noteq> None"

fun setting_ok :: "options \<Rightarrow> setting \<Rightarrow> bool" where
  "setting_ok os (n, vs) \<longleftrightarrow> CHR '' '' \<notin> set n \<and> list_all word_ok vs \<and> (\<not> known os n \<longrightarrow> list_all (\<lambda>v. CHR ''-'' \<notin> set v) vs)"

text \<open>The last option, if it is known, has a value.\<close>

definition line_ok :: "options \<Rightarrow> setting list \<Rightarrow> bool" where
  "line_ok os ss \<longleftrightarrow> list_all (setting_ok os) ss \<and> (ss \<noteq> [] \<longrightarrow> known os (fst (last ss)) \<longrightarrow> snd (last ss) \<noteq> [])"

subsection \<open>Reading words\<close>

definition words_from :: "string list \<Rightarrow> string option" where
  "words_from ws = (if ws = [] then None else Some (join_words ws))"

lemma words_from_Nil: "words_from [] = None" by (simp add: words_from_def)

lemma join_Cons: "join_words (w # ws) = w @ (if ws = [] then [] else CHR '' '' # join_words ws)"
  by (cases ws) simp_all

lemma takeWhile_word: "CHR '' '' \<notin> set w \<Longrightarrow> takeWhile (\<lambda>c. c \<noteq> CHR '' '') w = w"
  by (simp add: takeWhile_eq_all_conv) metis

lemma next_word_join: "CHR '' '' \<notin> set w \<Longrightarrow> next_word (join_words (w # ws)) = (w, words_from ws)"
  by (auto simp: next_word_def join_Cons words_from_def takeWhile_append dropWhile_append takeWhile_word split: list.split)

lemma take_dashes: "take 2 (''--'' @ n) = ''--''" by simp

lemma read_values_stop:
  assumes "CHR '' '' \<notin> set n"
  shows "read_values e k (Some (join_words ((''--'' @ n) # ws))) =
    Some (if k = 0 \<and> o_type e = OptionType_Bool then e\<lparr>o_valueBool := True\<rparr> else e,
      k \<noteq> 0 \<or> o_type e = OptionType_Bool, Some (join_words ((''--'' @ n) # ws)))"
  using assms next_word_join [of "''--'' @ n" ws] by (subst read_values.simps) simp

lemma read_values_word:
  assumes "word_ok v"
  shows "read_values e k (Some (join_words (v # ws))) = do {
    (_, e1) \<leftarrow> SetValueFromString v e;
    (case words_from ws of None \<Rightarrow> Some (e1, True, None) | Some t \<Rightarrow> read_values e1 (k + 1) (Some t)) }"
  using assms next_word_join [of v ws] by (subst read_values.simps) (simp add: word_ok_def)

lemma read_values_last:
  "list_all word_ok vs \<Longrightarrow> vs \<noteq> [] \<Longrightarrow>
    read_values e k (words_from vs) = map_option (\<lambda>e1. (e1, True, None)) (set_values vs e)"
proof (induction vs arbitrary: e k)
  case (Cons v vs)
  show ?case
  proof (cases "vs = []")
    case True
    then show ?thesis using Cons.prems
      by (simp add: words_from_def read_values_word [where ws = "[]", simplified] case_prod_unfold map_option_case split: Option.bind_split option.split)
  next
    case False
    then have "words_from vs = Some (join_words vs)" by (simp add: words_from_def)
    with Cons False show ?thesis
      by (simp add: words_from_def read_values_word case_prod_unfold map_option_bind o_def)
  qed
qed simp

lemma read_values_more:
  "list_all word_ok vs \<Longrightarrow> CHR '' '' \<notin> set n \<Longrightarrow> vs \<noteq> [] \<or> k \<noteq> 0 \<Longrightarrow>
    read_values e k (Some (join_words (vs @ (''--'' @ n) # ws))) =
      map_option (\<lambda>e1. (e1, True, Some (join_words ((''--'' @ n) # ws)))) (set_values vs e)"
proof (induction vs arbitrary: e k)
  case Nil
  then show ?case using read_values_stop [of n e k ws] by simp
next
  case (Cons v vs)
  then show ?case
    by (simp add: read_values_word words_from_def case_prod_unfold map_option_bind o_def)
qed

subsection \<open>Parsing a line\<close>

lemma join_dashes: "join_words ((''--'' @ n) # ws) = CHR ''-'' # CHR ''-'' # join_words (n # ws)"
  by (simp add: join_Cons)

lemma parse_option_name:
  assumes "CHR '' '' \<notin> set n"
  shows "parse_options (Some (join_words ((''--'' @ n) # ws))) os =
    (case Options_Find n os of
       None \<Rightarrow> parse_options (words_from ws) os
     | Some e \<Rightarrow> do {
         (e1, ok, rest1) \<leftarrow> read_values e 0 (words_from ws);
         (res, os1) \<leftarrow> parse_options rest1 (put_option n e1 os);
         Some (ok \<and> res, os1) })"
  unfolding join_dashes
  using next_word_join [OF assms, of ws] by (subst parse_options.simps(2)) simp

lemma parse_no_dash:
  assumes "list_all (\<lambda>v. CHR ''-'' \<notin> set v) vs"
  shows "parse_options (words_from (vs @ ws)) os = parse_options (words_from ws) os"
  using assms
proof (induction vs)
  case (Cons v vs)
  have d: "dropWhile (\<lambda>c. c \<noteq> CHR ''-'') v = []" using Cons.prems by auto
  have "parse_options (words_from (v # us)) os = parse_options (words_from us) os" for us
  proof (cases "us = []")
    case True
    then show ?thesis using d by (simp add: words_from_def parse_options.simps del: dropWhile_eq_Nil_conv)
  next
    case False
    have "dropWhile (\<lambda>c. c \<noteq> CHR ''-'') (join_words (v # us)) = dropWhile (\<lambda>c. c \<noteq> CHR ''-'') (join_words us)"
      using Cons.prems False by (simp add: join_Cons dropWhile_append)
    then show ?thesis using False unfolding words_from_def
      by (simp add: parse_options.simps(2) del: join_words.simps)
  qed
  with Cons show ?case by simp
qed simp

lemma known_put [simp]: "known os n \<Longrightarrow> known (put_option n e os) m \<longleftrightarrow> known os m"
  by (auto simp: known_def Options_Find_def put_option_def)

lemma apply_setting_known: "apply_setting s os = Some (a, os1) \<Longrightarrow> known os1 m \<longleftrightarrow> known os m"
  by (cases s) (auto split: option.splits if_splits simp: known_def Options_Find_def put_option_def)

definition setting_line :: "setting list \<Rightarrow> string list" where
  "setting_line ss = concat (map setting_words ss)"

lemma setting_line_Cons: "setting_line ((n, vs) # ss) = (''--'' @ n) # vs @ setting_line ss"
  by (simp add: setting_line_def)

lemma setting_line_Nil [simp]: "setting_line [] = []" by (simp add: setting_line_def)

lemma setting_line_empty [simp]: "setting_line ss = [] \<longleftrightarrow> ss = []"
  by (cases ss) (auto simp: setting_line_def)

lemma line_ok_Cons:
  assumes "line_ok os (s # ss)"
  shows "setting_ok os s" "ss = [] \<Longrightarrow> known os (fst s) \<Longrightarrow> snd s \<noteq> []" "ss \<noteq> [] \<Longrightarrow> CHR '' '' \<notin> set (fst (hd ss))"
    "line_ok os ss"
  using assms by (cases ss; cases "hd ss"; auto simp: line_ok_def split: if_splits)+

lemma line_ok_same: "(\<And>m. known os1 m \<longleftrightarrow> known os m) \<Longrightarrow> line_ok os1 ss \<longleftrightarrow> line_ok os ss"
  by (auto simp: line_ok_def list_all_iff)

lemma parse_setting:
  assumes "setting_ok os (n, vs)" "ss = [] \<Longrightarrow> known os n \<Longrightarrow> vs \<noteq> []" "ss \<noteq> [] \<Longrightarrow> CHR '' '' \<notin> set (fst (hd ss))"
  shows "parse_options (words_from (setting_line ((n, vs) # ss))) os = do {
    (a, os1) \<leftarrow> apply_setting (n, vs) os;
    (b, os2) \<leftarrow> parse_options (words_from (setting_line ss)) os1;
    Some (a \<and> b, os2) }"
proof -
  have ok: "CHR '' '' \<notin> set n" "list_all word_ok vs" "\<not> known os n \<Longrightarrow> list_all (\<lambda>v. CHR ''-'' \<notin> set v) vs"
    using assms(1) by simp_all
  have p: "parse_options (words_from (setting_line ((n, vs) # ss))) os =
    (case Options_Find n os of
       None \<Rightarrow> parse_options (words_from (vs @ setting_line ss)) os
     | Some e \<Rightarrow> do {
         (e1, ok, rest1) \<leftarrow> read_values e 0 (words_from (vs @ setting_line ss));
         (res, os1) \<leftarrow> parse_options rest1 (put_option n e1 os);
         Some (ok \<and> res, os1) })"
    using parse_option_name [OF ok(1), of "vs @ setting_line ss" os] by (simp add: setting_line_Cons words_from_def)
  show ?thesis
  proof (cases "Options_Find n os")
    case None
    then have "\<not> known os n" by (simp add: known_def)
    with None show ?thesis unfolding p using parse_no_dash [OF ok(3)] by (simp add: case_prod_unfold)
  next
    case (Some e)
    then have k: "known os n" by (simp add: known_def)
    show ?thesis
    proof (cases ss)
      case Nil
      then have "vs \<noteq> []" using assms(2) k by simp
      with Some Nil show ?thesis unfolding p
        by (simp add: read_values_last [OF ok(2)] case_prod_unfold map_option_case words_from_Nil parse_options.simps split: option.split)
    next
      case (Cons s ss')
      obtain m us where s: "s = (m, us)" by force
      have m: "CHR '' '' \<notin> set m" using assms(3) Cons s by simp
      define w where "w = ''--'' @ m"
      note stop = read_values_stop [OF m, folded w_def] and more = read_values_more [OF ok(2) m, folded w_def]
      have l: "setting_line ss = w # us @ setting_line ss'" by (simp add: Cons s setting_line_Cons w_def)
      show ?thesis
      proof (cases "vs = []")
        case True
        with Some show ?thesis unfolding p l
          by (simp add: words_from_def stop del: join_words.simps)
      next
        case False
        then have "words_from (vs @ setting_line ss) = Some (join_words (vs @ setting_line ss))" by (simp add: words_from_def)
        with Some False show ?thesis unfolding p l
          by (simp add: more words_from_def case_prod_unfold map_option_case del: join_words.simps
              split: option.split)
      qed
    qed
  qed
qed

lemma parse_settings: "line_ok os ss \<Longrightarrow> parse_options (words_from (setting_line ss)) os = apply_settings ss os"
proof (induction ss arbitrary: os)
  case Nil
  then show ?case by (simp add: words_from_def parse_options.simps)
next
  case (Cons s ss)
  obtain n vs where s: "s = (n, vs)" by force
  have "parse_options (words_from (setting_line ss)) os1 = apply_settings ss os1"
    if "apply_setting (n, vs) os = Some (a, os1)" for a os1
    using Cons.IH line_ok_Cons(4) [OF Cons.prems] line_ok_same [of os1 os ss] apply_setting_known [OF that] by blast
  moreover note parse_setting [of os n vs ss] line_ok_Cons(1-3) [OF Cons.prems [unfolded s]]
  ultimately show ?case unfolding s apply_settings.simps
    by (cases "apply_setting (n, vs) os") (auto simp del: apply_setting.simps setting_ok.simps)
qed

text \<open>
  A command line of option names, each with its values, sets exactly the options named, in order, each from its
  values as \<open>SetValueFromString\<close> reads them; it is reported as wrong exactly when an option that is not boolean stands
  without a value; and names that are not known are skipped with their values.
\<close>

theorem command_line_applied:
  assumes "line_ok os ss"
  shows "ParseOptionsString (command_line ss) os = apply_settings ss os"
proof (cases "ss = []")
  case True
  then show ?thesis by (simp add: ParseOptionsString_def command_line_def parse_options.simps)
next
  case False
  then show ?thesis
    using parse_settings [OF assms] unfolding ParseOptionsString_def command_line_def setting_line_def [symmetric]
    by (simp add: words_from_def)
qed


theorem command_line_applied_witness:
  "map_option (\<lambda>(ok, os). (ok, GetOptionAsBool ''logging'' os, GetOptionAsString ''EXCLUDE'' os, GetOptionAsInt ''PollInterval'' os))
     (ParseOptionsString (command_line [(''Exclude'', [''0x25'', ''0x26'']), (''Unknown'', [''x'']), (''Logging'', []), (''pollinterval'', [''-7''])])
       (fold declare_option [DeclBool ''Logging'' False, DeclString ''Exclude'' [] True, DeclInt ''PollInterval'' 30] (Options_new [])))
   = Some (True, Some True, Some ''0x25,0x26'', Some (- 7))"
proof -
  let ?os = "fold declare_option [DeclBool ''Logging'' False, DeclString ''Exclude'' [] True, DeclInt ''PollInterval'' 30] (Options_new [])"
  let ?ss = "[(''Exclude'', [''0x25'', ''0x26'']), (''Unknown'', [''x'']), (''Logging'', []), (''pollinterval'', [''-7''])]"
  have [simp]: "char_of (112 :: nat) = CHR ''p''" "char_of (105 :: nat) = CHR ''i''" "char_of (101 :: nat) = CHR ''e''"
    "char_of (100 :: nat) = CHR ''d''" "char_of (117 :: nat) = CHR ''u''" "char_of (108 :: nat) = CHR ''l''"
    "char_of (99 :: nat) = CHR ''c''" "char_of (120 :: nat) = CHR ''x''" by code_simp+
  note defs = AddOptionBool_def AddOptionInt_def AddOptionString_def AddOption_def Options_Find_def put_option_def
    Options_new_def Option_new_def ToLower_def tolower_def known_def
  have "line_ok ?os ?ss" by (simp add: line_ok_def word_ok_def defs)
  note command_line_applied [OF this]
  also have "apply_settings ?ss ?os = Some (True, put_option ''pollinterval'' (the (Options_Find ''pollinterval'' ?os)\<lparr>o_valueInt := - 7\<rparr>)
     (put_option ''Logging'' (the (Options_Find ''Logging'' ?os)\<lparr>o_valueBool := True\<rparr>)
     (put_option ''Exclude'' (the (Options_Find ''Exclude'' ?os)\<lparr>o_valueString := ''0x25,0x26''\<rparr>) ?os)))"
    by (simp add: defs SetValueFromString_def atol_def is_space_def signed_digits_def digit_value_def)
  finally show ?thesis
    by (simp add: defs GetOptionAsBool_def GetOptionAsInt_def GetOptionAsString_def)
qed

lemma parse_bare:
  "list_all (setting_ok os) (ss @ [(n, [])]) \<Longrightarrow> known os n \<Longrightarrow> parse_options (words_from (setting_line (ss @ [(n, [])]))) os = None"
proof (induction ss arbitrary: os)
  case Nil
  then show ?case using parse_option_name [of n "[]" os]
    by (auto simp: setting_line_Cons words_from_def known_def read_values.simps(1))
next
  case (Cons s ss)
  obtain m vs where s: "s = (m, vs)" by force
  have "setting_ok os (hd (ss @ [(n, [])]))" using Cons.prems(1) by (cases ss) simp_all
  then have h: "CHR '' '' \<notin> set (fst (hd (ss @ [(n, [])])))" by (cases "hd (ss @ [(n, [])])") simp
  have "parse_options (words_from (setting_line (ss @ [(n, [])]))) os1 = None"
    if "apply_setting (m, vs) os = Some (a, os1)" for a os1
  proof (rule Cons.IH)
    have k: "known os1 = known os" using apply_setting_known [OF that] by blast
    then show "known os1 n" using Cons.prems(2) by simp
    have "setting_ok os1 = setting_ok os" using k by (auto simp: fun_eq_iff)
    then show "list_all (setting_ok os1) (ss @ [(n, [])])" using Cons.prems(1) by (simp del: setting_ok.simps)
  qed
  then show ?case
    using parse_setting [of os m vs "ss @ [(n, [])]"] h Cons.prems(1) unfolding s append_Cons
    by (cases "apply_setting (m, vs) os") (auto simp del: apply_setting.simps setting_ok.simps)
qed

text \<open>
  A command line that ends with the bare name of an option, with nothing behind it, is not parsed at all: the
  string library raises an exception, which nothing catches.
\<close>

theorem bare_last_option_throws:
  assumes "list_all (setting_ok os) (ss @ [(n, [])])" and "known os n"
  shows "ParseOptionsString (command_line (ss @ [(n, [])])) os = None"
  using parse_bare [OF assms] unfolding ParseOptionsString_def command_line_def setting_line_def [symmetric]
  by (simp add: words_from_def)

theorem bare_last_option_throws_witness:
  "ParseOptionsString ''--Associate false --Logging'' (fold declare_option [DeclBool ''Associate'' True, DeclBool ''Logging'' False] (Options_new [])) = None"
proof -
  let ?os = "fold declare_option [DeclBool ''Associate'' True, DeclBool ''Logging'' False] (Options_new [])"
  note defs = AddOptionBool_def AddOption_def Options_Find_def put_option_def Options_new_def Option_new_def ToLower_def
    tolower_def known_def word_ok_def
  have "ParseOptionsString (command_line ([(''Associate'', [''false''])] @ [(''Logging'', [])])) ?os = None"
    by (rule bare_last_option_throws) (simp_all add: defs)
  then show ?thesis by (simp add: command_line_def)
qed

section \<open>Types\<close>

fun decl_name :: "option_decl \<Rightarrow> string" where
  "decl_name (DeclBool n v) = n"
| "decl_name (DeclInt n i) = n"
| "decl_name (DeclString n s app) = n"

fun decl_type :: "option_decl \<Rightarrow> option_type" where
  "decl_type (DeclBool n v) = OptionType_Bool"
| "decl_type (DeclInt n i) = OptionType_Int"
| "decl_type (DeclString n s app) = OptionType_String"

text \<open>The type of the last declaration of a name, letters of either case being the same.\<close>

definition declared_type :: "option_decl list \<Rightarrow> string \<Rightarrow> option_type" where
  "declared_type ds n =
     (case find (\<lambda>d. ToLower (decl_name d) = ToLower n) (rev ds) of None \<Rightarrow> OptionType_Invalid | Some d \<Rightarrow> decl_type d)"

definition same_types :: "options \<Rightarrow> options \<Rightarrow> bool" where
  "same_types os os' \<longleftrightarrow> (\<forall>k. map_option o_type (os_options os' k) = map_option o_type (os_options os k)) \<and>
     os_locked os' = os_locked os \<and> os_commandLine os' = os_commandLine os"

lemma same_types_refl [simp]: "same_types os os" by (simp add: same_types_def)

lemma same_types_trans: "same_types a b \<Longrightarrow> same_types b c \<Longrightarrow> same_types a c"
  by (simp add: same_types_def)

lemma SetValueFromString_type: "SetValueFromString v e = Some (ok, e') \<Longrightarrow> o_type e' = o_type e"
  by (auto simp: SetValueFromString_def split: option_type.splits if_splits)

lemma put_option_types: "Options_Find n os = Some e \<Longrightarrow> o_type e' = o_type e \<Longrightarrow> same_types os (put_option n e' os)"
  by (auto simp: same_types_def put_option_def Options_Find_def)

lemma one_value_type: "one_value e e' \<Longrightarrow> o_type e' = o_type e"
  by (auto simp: one_value_def SetValueFromString_type)

lemma read_values_type: "read_values e n (Some r) = Some (e', ok, r') \<Longrightarrow> o_type e' = o_type e"
proof (induction r arbitrary: e n rule: measure_induct_rule [of length])
  case (less r)
  from read_values_round [OF less.prems] show ?case
  proof
    assume "\<exists>e1 m t. one_value e e1 \<and> length t < length r \<and> read_values e1 m (Some t) = Some (e', ok, r')"
    then obtain e1 m t where "one_value e e1" "length t < length r" "read_values e1 m (Some t) = Some (e', ok, r')" by blast
    with less.IH [of t e1 m] one_value_type [of e e1] show ?case by simp
  qed (simp add: one_value_type)
qed

lemma parse_options_types: "parse_options r os = Some (ok, os') \<Longrightarrow> same_types os os'"
proof (induction r os arbitrary: ok os' rule: parse_options.induct)
  case (2 s os)
  show ?case
  proof (cases "dropWhile (\<lambda>c. c \<noteq> CHR ''-'') s")
    case Nil
    with 2(3) show ?thesis by (simp add: parse_options.simps(2))
  next
    case (Cons c cs)
    then obtain d u where cs: "cs = d # u" using 2(3) by (cases cs) (simp_all add: parse_options.simps(2))
    obtain name rest where w: "next_word u = (name, rest)" by force
    show ?thesis
    proof (cases "Options_Find name os")
      case None
      then have "parse_options rest os = Some (ok, os')" using 2(3) Cons cs w by (simp add: parse_options.simps(2))
      with 2(1) [OF Cons cs _ refl None] w show ?thesis by simp
    next
      case (Some e)
      then have step: "(do { (e1, ok, rest1) \<leftarrow> read_values e 0 rest;
         (res, os1) \<leftarrow> parse_options rest1 (put_option name e1 os); Some (ok \<and> res, os1) }) = Some (ok, os')"
        using 2(3) Cons cs w by (simp add: parse_options.simps(2))
      then obtain e1 k1 rest1 where r: "read_values e 0 rest = Some (e1, k1, rest1)"
        by (cases "read_values e 0 rest") auto
      with step obtain b where p: "parse_options rest1 (put_option name e1 os) = Some (b, os')"
        by (cases "parse_options rest1 (put_option name e1 os)") auto
      have "same_types (put_option name e1 os) os'"
        using 2(2) [OF Cons cs _ refl Some r] w p by simp
      moreover have "same_types os (put_option name e1 os)"
        using put_option_types [OF Some] read_values_type r by (cases rest) (auto simp: read_values.simps(1))
      ultimately show ?thesis using same_types_trans by blast
    qed
  qed
qed (simp add: parse_options.simps(1))

lemma option_elements_types: "option_elements xs os = Some os' \<Longrightarrow> same_types os os'"
proof (induction xs arbitrary: os)
  case (Cons x xs)
  then obtain os1 where o: "option_element x os = Some os1" "option_elements xs os1 = Some os'"
    by (auto split: Option.bind_splits)
  have "same_types os os1"
    using o(1) by (auto simp: option_element_def split: if_splits option.splits intro: put_option_types dest: SetValueFromString_type)
  with Cons.IH [OF o(2)] show ?case using same_types_trans by blast
qed simp

lemma ParseOptionsXML_types: "ParseOptionsXML file os = Some (ok, os') \<Longrightarrow> same_types os os'"
  by (auto simp: ParseOptionsXML_def option_elements_types split: option.splits)

lemma Lock_types:
  assumes "Options_Lock system user os = Some (True, os')"
  shows "map_option o_type (os_options os' k) = map_option o_type (os_options os k)" "os_locked os'"
proof -
  obtain a os1 b os2 c os3 where p: "ParseOptionsXML system os = Some (a, os1)" "ParseOptionsXML user os1 = Some (b, os2)"
    "ParseOptionsString (os_commandLine os) os2 = Some (c, os3)" "os' = os3\<lparr>os_locked := True\<rparr>"
    using assms by (auto simp: Options_Lock_def split: if_splits Option.bind_splits)
  have "same_types os os3"
    using ParseOptionsXML_types [OF p(1)] ParseOptionsXML_types [OF p(2)] parse_options_types p(3) same_types_trans
    unfolding ParseOptionsString_def by blast
  then show "map_option o_type (os_options os' k) = map_option o_type (os_options os k)" "os_locked os'"
    by (simp_all add: same_types_def p(4))
qed

lemma GetOptionType_eq: "GetOptionType n os = (case map_option o_type (os_options os (ToLower n)) of None \<Rightarrow> OptionType_Invalid | Some t \<Rightarrow> t)"
  by (simp add: GetOptionType_def Options_Find_def split: option.split)

lemma declare_unlocked: "os_locked (declare_option d os) = os_locked os"
  by (cases d) (auto simp: AddOptionBool_def AddOptionInt_def AddOptionString_def put_option_def split: option.split)

lemma declare_types:
  assumes "\<not> os_locked os"
  shows "map_option o_type (os_options (declare_option d os) k) =
    (if k = ToLower (decl_name d) then Some (decl_type d) else map_option o_type (os_options os k))"
  using assms by (cases d)
    (auto simp: AddOptionBool_def AddOptionInt_def AddOptionString_def AddOption_def put_option_def split: option.split)

lemma declared:
  "map_option o_type (os_options (fold declare_option ds (Options_new cl)) (ToLower n)) =
      map_option decl_type (find (\<lambda>d. ToLower (decl_name d) = ToLower n) (rev ds))"
  "\<not> os_locked (fold declare_option ds (Options_new cl))"
proof (induction ds rule: rev_induct)
  case (snoc d ds)
  case 1
  then show ?case using snoc by (auto simp: declare_types)
  case 2
  then show ?case using snoc by (simp add: declare_unlocked)
qed (simp_all add: Options_new_def)

text \<open>(C34)
  Whatever the files and the command line say, an option has the type it was last declared with: it can be read as
  that type, and as no other, and after the options are locked nothing can be declared.
\<close>

theorem options_keep_types:
  assumes "Options_Lock system user (fold declare_option ds (Options_new commandLine)) = Some (True, os)"
  shows "GetOptionType n os = declared_type ds n \<and>
    (GetOptionAsBool n os \<noteq> None \<longleftrightarrow> declared_type ds n = OptionType_Bool) \<and>
    (GetOptionAsInt n os \<noteq> None \<longleftrightarrow> declared_type ds n = OptionType_Int) \<and>
    (GetOptionAsString n os \<noteq> None \<longleftrightarrow> declared_type ds n = OptionType_String) \<and>
    declare_option d os = os"
proof -
  have t: "map_option o_type (os_options os (ToLower n)) = map_option decl_type (find (\<lambda>d. ToLower (decl_name d) = ToLower n) (rev ds))"
    using Lock_types(1) [OF assms] declared(1) by simp
  then have g: "GetOptionType n os = declared_type ds n"
    by (auto simp: GetOptionType_eq declared_type_def split: option.splits)
  moreover have "GetOptionAsBool n os \<noteq> None \<longleftrightarrow> GetOptionType n os = OptionType_Bool"
    "GetOptionAsInt n os \<noteq> None \<longleftrightarrow> GetOptionType n os = OptionType_Int"
    "GetOptionAsString n os \<noteq> None \<longleftrightarrow> GetOptionType n os = OptionType_String"
    by (auto simp: GetOptionAsBool_def GetOptionAsInt_def GetOptionAsString_def GetOptionType_def split: option.splits)
  moreover have "declare_option d os = os"
    using Lock_types(2) [OF assms] by (cases d) (simp_all add: AddOptionBool_def AddOptionInt_def AddOptionString_def AddOption_def)
  ultimately show ?thesis by simp
qed

theorem options_keep_types_witness:
  "\<exists>os. Options_Lock None (Some [\<lparr> x_value = ''Option'', x_name = Some ''log'', x_setting = Some ''12'' \<rparr>])
      (fold declare_option [DeclBool ''Log'' True, DeclInt ''LOG'' 5] (Options_new [])) = Some (True, os) \<and>
    GetOptionType ''Log'' os = OptionType_Int \<and> GetOptionAsBool ''Log'' os = None \<and> GetOptionAsInt ''log'' os = Some 12"
proof -
  let ?ds = "[DeclBool ''Log'' True, DeclInt ''LOG'' 5]"
  have [simp]: "ToLower ''Log'' = ''log''" "ToLower ''LOG'' = ''log''" "ToLower ''log'' = ''log''" by code_simp+
  define os where "os = put_option ''log'' (\<lparr> o_type = OptionType_Int, o_name = ''Log'', o_valueBool = True, o_valueInt = 12,
    o_valueString = [], o_append = False \<rparr>) (Options_new [])\<lparr>os_locked := True\<rparr>"
  have l: "Options_Lock None (Some [\<lparr> x_value = ''Option'', x_name = Some ''log'', x_setting = Some ''12'' \<rparr>])
      (fold declare_option ?ds (Options_new [])) = Some (True, os)"
    by (simp add: Options_Lock_def ParseOptionsXML_def option_element_def AddOptionBool_def AddOptionInt_def AddOption_def
        Options_Find_def put_option_def Options_new_def Option_new_def SetValueFromString_def atol_def is_space_def
        signed_digits_def digit_value_def ParseOptionsString_def parse_options.simps os_def)
  moreover have "declared_type ?ds ''Log'' = OptionType_Int" by (simp add: declared_type_def)
  moreover have "GetOptionAsInt ''log'' os = Some 12" by (simp add: GetOptionAsInt_def Options_Find_def os_def put_option_def)
  ultimately show ?thesis using options_keep_types [OF l, of "''Log''"] by auto
qed

end
