(* ===== verification/Multi_Channel.thy ===== *)
theory Multi_Channel
  imports Wake_Class Encapsulation Assoc_Group
begin

text \<open>
  The reports of \<open>MultiInstance.cpp\<close>: how many instances or end points a node has, what they can do, and the map from
  the instances of a class to end points that is made from it.  Encapsulated frames are in \<open>Encapsulation\<close>.  \<open>None\<close>
  is a read outside the frame or a loop that does not end.
\<close>

section \<open>State\<close>

text \<open>
  The fields of the class.  Only \<open>m_numEndPoints\<close> is initialised, so the others start with any values.  The settings
  of the device, the properties of classes and the class \<open>BASIC\<close> stands for are fixed.
\<close>

record mi_state =
  mi_numEndPointsCanChange :: bool
  mi_endPointsAreSameClass :: bool
  mi_numEndPoints :: uint8
  mi_endPointFindIndex :: uint8
  mi_numEndPointsFound :: uint8
  mi_endPointCommandClasses :: "uint8 set"
  mi_endPointGenericType :: "uint8 \<Rightarrow> uint8 option"
  mi_endPointSpecificType :: "uint8 \<Rightarrow> uint8 option"

record mi_env =
  me_node :: node_env
  me_mapRoot :: bool
  me_forceUnique :: bool
  me_ignoreReports :: bool
  me_endPointHint :: uint8
  me_removeClass :: "uint8 \<Rightarrow> bool"
  me_multiInstance :: "uint8 \<Rightarrow> bool"
  me_mapping :: uint8

definition MultiInstance_new :: "bool \<Rightarrow> bool \<Rightarrow> uint8 \<Rightarrow> uint8 \<Rightarrow> mi_state" where
  "MultiInstance_new canChange same index found =
     \<lparr> mi_numEndPointsCanChange = canChange, mi_endPointsAreSameClass = same, mi_numEndPoints = 0,
       mi_endPointFindIndex = index, mi_numEndPointsFound = found, mi_endPointCommandClasses = {},
       mi_endPointGenericType = (\<lambda>_. None), mi_endPointSpecificType = (\<lambda>_. None) \<rparr>"

definition c_genericClass :: bytes where
  "c_genericClass = [0x21, 0x20, 0x31, 0x08, 0x11, 0x10, 0x12, 0xa1, 0x16, 0x30, 0x40, 0x13, 0x03, 0x04, 0x00]"

abbreviation (input) CC_BASIC :: uint8 where "CC_BASIC \<equiv> 0x20"
abbreviation (input) MultiInstanceCmd_Get :: uint8 where "MultiInstanceCmd_Get \<equiv> 0x04"
abbreviation (input) MultiInstanceCmd_Report :: uint8 where "MultiInstanceCmd_Report \<equiv> 0x05"
abbreviation (input) MultiChannelCmd_EndPointGet :: uint8 where "MultiChannelCmd_EndPointGet \<equiv> 0x07"
abbreviation (input) MultiChannelCmd_EndPointReport :: uint8 where "MultiChannelCmd_EndPointReport \<equiv> 0x08"
abbreviation (input) MultiChannelCmd_CapabilityGet :: uint8 where "MultiChannelCmd_CapabilityGet \<equiv> 0x09"
abbreviation (input) MultiChannelCmd_CapabilityReport :: uint8 where "MultiChannelCmd_CapabilityReport \<equiv> 0x0a"
abbreviation (input) MultiChannelCmd_EndPointFind :: uint8 where "MultiChannelCmd_EndPointFind \<equiv> 0x0b"
abbreviation (input) MultiChannelCmd_EndPointFindReport :: uint8 where "MultiChannelCmd_EndPointFindReport \<equiv> 0x0c"

text \<open>A set of classes and the classes of a node, in ascending order.\<close>

definition ascending :: "(uint8 \<Rightarrow> bool) \<Rightarrow> bytes" where
  "ascending P = filter P (map of_nat [0..<256])"

section \<open>Requests\<close>

definition mi_msg :: "string \<Rightarrow> uint8 \<Rightarrow> bytes \<Rightarrow> driver \<Rightarrow> msg" where
  "mi_msg text nid bs d = fold Append ([nid, of_nat (length bs) + 1, CC_MULTI_INSTANCE] @ bs @ [d_transmitOptions d])
     (Msg_new text nid REQUEST FUNC_ID_ZW_SEND_DATA True True FUNC_ID_APPLICATION_COMMAND_HANDLER CC_MULTI_INSTANCE)"

definition request_instance :: "uint8 \<Rightarrow> uint8 \<Rightarrow> bool \<times> driver \<Rightarrow> (bool \<times> driver) option" where
  "request_instance nid cc = (\<lambda>(res, d). do {
     n \<leftarrow> d_nodes d nid;
     (case n_classes n cc of
        None \<Rightarrow> Some (res, d)
      | Some c \<Rightarrow>
          if cc = 0 \<or> \<not> HasStaticRequest StaticRequest_Instances c then Some (res, d)
          else map_option (Pair True) (SendMsg (mi_msg ''MultiInstanceCmd_Get'' nid [MultiInstanceCmd_Get, cc] d) MsgQueue_Query d))
   })"

definition RequestInstances :: "uint8 \<Rightarrow> driver \<Rightarrow> (bool \<times> driver) option" where
  "RequestInstances nid d = do {
     n \<leftarrow> d_nodes d nid;
     own \<leftarrow> n_classes n CC_MULTI_INSTANCE;
     if c_version own = 1 then run_all (request_instance nid) (ascending (\<lambda>cc. n_classes n cc \<noteq> None)) (False, d)
     else map_option (Pair True) (SendMsg (mi_msg ''MultiChannelCmd_EndPointGet'' nid [MultiChannelCmd_EndPointGet] d) MsgQueue_Query d)
   }"

definition capability_get :: "uint8 \<Rightarrow> uint8 \<Rightarrow> driver \<Rightarrow> driver option" where
  "capability_get nid endPoint d =
     SendMsg (mi_msg ''MultiChannelCmd_CapabilityGet'' nid [MultiChannelCmd_CapabilityGet, endPoint] d) MsgQueue_Send d"

section \<open>Instances and end points of a class\<close>

definition cc_SetInstances :: "uint8 \<Rightarrow> cc_state \<Rightarrow> cc_state" where
  "cc_SetInstances instances c =
     (if c_afterMark c then c else fold (\<lambda>i. cc_SetInstance (i + 1)) (map of_nat [0..<unat instances]) c)"

definition cc_SetEndPoint :: "uint8 \<Rightarrow> uint8 \<Rightarrow> cc_state \<Rightarrow> cc_state" where
  "cc_SetEndPoint inst endPoint c = c\<lparr>c_endPoints := (c_endPoints c)(inst \<mapsto> endPoint)\<rparr>"

definition cc_GetEndPoint :: "uint8 \<Rightarrow> cc_state \<Rightarrow> uint8" where
  "cc_GetEndPoint inst c = (case c_endPoints c inst of None \<Rightarrow> 0 | Some e \<Rightarrow> e)"

definition HandleMultiInstanceReport :: "uint8 \<Rightarrow> bytes \<Rightarrow> driver \<Rightarrow> driver option" where
  "HandleMultiInstanceReport nid data d = do {
     cc \<leftarrow> peek data 1;
     instances \<leftarrow> peek data 2;
     Some (map_node (map_class (ClearStaticRequest StaticRequest_Instances \<circ> cc_SetInstances instances) cc) nid d)
   }"

section \<open>The report of end points\<close>

definition HandleMultiChannelEndPointReport :: "mi_env \<Rightarrow> uint8 \<Rightarrow> bytes \<Rightarrow> mi_state \<times> driver \<Rightarrow> (mi_state \<times> driver) option" where
  "HandleMultiChannelEndPointReport env nid data = (\<lambda>(mi, d).
     if mi_numEndPoints mi \<noteq> 0 then Some (mi, d)
     else do {
       b1 \<leftarrow> peek data 1;
       b2 \<leftarrow> peek data 2;
       let same = (b1 AND 0x40 \<noteq> 0 \<and> \<not> me_forceUnique env);
       let num = (if me_endPointHint env \<noteq> 0 then me_endPointHint env else b2 AND 0x7f);
       let len = (if same then 1 else unat num);
       d1 \<leftarrow> for8 (len + 1) (capability_get nid) 1 d;
       Some (mi\<lparr>mi_numEndPointsCanChange := (b1 AND 0x80 \<noteq> 0), mi_endPointsAreSameClass := same, mi_numEndPoints := num\<rparr>, d1)
     })"

section \<open>The report of the capabilities of an end point\<close>

text \<open>One class of the list: the mark, the set of classes, the node.\<close>

definition capability_class :: "mi_env \<Rightarrow> uint8 \<Rightarrow> bool \<times> uint8 set \<times> node \<Rightarrow> bool \<times> uint8 set \<times> node" where
  "capability_class env cc = (\<lambda>(mark, ccs, n).
     let mark1 = (mark \<or> cc = CC_MARK) in
     if me_removeClass env cc then (mark1, ccs, n)
     else
       let n1 = (if n_classes n cc = None then snd (AddCommandClass (me_node env) cc n) else n);
           n2 = (if mark1 then map_class (\<lambda>c. c\<lparr>c_afterMark := True\<rparr>) cc n1 else n1)
       in (mark1, insert cc ccs, n2))"

text \<open>An instance with its end point, also for \<open>BASIC\<close> if it stands for the class.\<close>

definition set_instance :: "mi_env \<Rightarrow> uint8 \<Rightarrow> (cc_state \<Rightarrow> cc_state) \<Rightarrow> node \<Rightarrow> node" where
  "set_instance env cc f n =
     (let n1 = map_class f cc n in if me_mapping env = cc then map_class f CC_BASIC n1 else n1)"

text \<open>All end points have the same classes: instance \<open>i\<close> of one class.\<close>

definition security_init :: "uint8 \<Rightarrow> uint8 \<Rightarrow> driver \<Rightarrow> driver option" where
  "security_init nid i d = do {
     n \<leftarrow> d_nodes d nid;
     c \<leftarrow> n_classes n CC_SECURITY;
     let m0 = Msg_new ''SecurityCmd_SupportedGet'' nid REQUEST FUNC_ID_ZW_SEND_DATA True True FUNC_ID_APPLICATION_COMMAND_HANDLER CC_SECURITY;
     let m1 = SetInstance (Some (map_option c_version (n_classes n CC_MULTI_INSTANCE))) (cc_GetEndPoint i c) i m0;
     let m2 = fold Append [nid, 2, CC_SECURITY, SecurityCmd_SupportedGet, d_transmitOptions d] m1;
     SendMsg (m2\<lparr>m_encrypted := True\<rparr>) MsgQueue_Command d
   }"

definition same_class :: "mi_env \<Rightarrow> uint8 \<Rightarrow> uint8 \<Rightarrow> uint8 \<Rightarrow> uint8 \<Rightarrow> driver \<Rightarrow> driver option" where
  "same_class env nid i endPoint cc d = do {
     n \<leftarrow> d_nodes d nid;
     (case n_classes n cc of
        None \<Rightarrow> Some d
      | Some c \<Rightarrow>
          if \<not> me_multiInstance env cc then Some d
          else
            let f = (\<lambda>c. if me_mapRoot env \<or> i \<noteq> 1 then cc_SetEndPoint i endPoint (cc_SetInstance i c) else cc_SetInstance i c);
                d1 = put_node nid (set_instance env cc f n) d
            in if cc = CC_SECURITY \<and> i > 1 \<and> n_secured n \<and> \<not> c_afterMark c then security_init nid i d1 else Some d1)
   }"

definition same_classes :: "mi_env \<Rightarrow> uint8 \<Rightarrow> mi_state \<Rightarrow> driver \<Rightarrow> driver option" where
  "same_classes env nid mi d =
     map_option snd (for8 (if me_mapRoot env then unat (mi_numEndPoints mi) + 1 else unat (mi_numEndPoints mi) + 2)
       (\<lambda>i (endPoint, d). do {
          d1 \<leftarrow> run_all (same_class env nid i endPoint) (ascending (\<lambda>cc. cc \<in> mi_endPointCommandClasses mi)) d;
          Some (endPoint + 1, d1)
        }) 1 (if me_mapRoot env then 1 else 0, d))"

text \<open>The end points differ: the next free instance of one class, 128 when there is none.\<close>

definition free_instance :: "mi_env \<Rightarrow> cc_state \<Rightarrow> uint8" where
  "free_instance env c =
     (case find (\<lambda>i. if \<not> me_mapRoot env then i \<notin> c_instances c
                     else (i = 1 \<and> i \<in> c_instances c \<and> cc_GetEndPoint i c = 0) \<or> i \<notin> c_instances c) (map of_nat [1..<128]) of
        None \<Rightarrow> 128 | Some i \<Rightarrow> i)"

definition unique_class :: "mi_env \<Rightarrow> uint8 \<Rightarrow> uint8 \<Rightarrow> node \<Rightarrow> node" where
  "unique_class env endPoint cc n =
     (case n_classes n cc of
        None \<Rightarrow> n
      | Some c \<Rightarrow>
          if \<not> me_multiInstance env cc \<or> GetInstanceOf c endPoint \<noteq> 0 then n
          else set_instance env cc (cc_SetEndPoint (free_instance env c) endPoint \<circ> cc_SetInstance (free_instance env c)) n)"

definition HandleMultiChannelCapabilityReport ::
  "mi_env \<Rightarrow> uint8 \<Rightarrow> bytes \<Rightarrow> uint32 \<Rightarrow> mi_state \<times> driver \<Rightarrow> (mi_state \<times> driver) option" where
  "HandleMultiChannelCapabilityReport env nid data len = (\<lambda>(mi, d). do {
     b1 \<leftarrow> peek data 1;
     n \<leftarrow> d_nodes d nid;
     if me_ignoreReports env \<and> m_queryStage (n_query n) \<noteq> St_Instances \<and> b1 AND 0x80 = 0 \<and> mi_endPointCommandClasses mi \<noteq> {}
     then Some (mi, d)
     else do {
       let endPoint = b1 AND 0x7f;
       generic \<leftarrow> peek data 2;
       specific \<leftarrow> peek data 3;
       let add = (\<lambda>v m. if m endPoint = None then m(endPoint \<mapsto> v) else m);
       ccs \<leftarrow> peek_block data 4 (unat (ucast (len - 5) :: uint8));
       let (_, known, n1) = fold (capability_class env) ccs (False, {}, n);
       let mi1 = mi\<lparr>mi_endPointGenericType := add generic (mi_endPointGenericType mi),
                    mi_endPointSpecificType := add specific (mi_endPointSpecificType mi),
                    mi_endPointCommandClasses := known\<rparr>;
       if mi_endPointsAreSameClass mi then map_option (Pair mi1) (same_classes env nid mi1 (put_node nid n1 d))
       else Some (mi1, put_node nid (fold (unique_class env endPoint) (ascending (\<lambda>cc. cc \<in> known)) n1) d)
     }
   })"

section \<open>The report of a search\<close>

definition found_end_point :: "mi_state \<Rightarrow> uint8 \<Rightarrow> uint8 \<Rightarrow> driver \<Rightarrow> driver option" where
  "found_end_point mi nid b d =
     (if mi_endPointsAreSameClass mi
      then Some (map_node (\<lambda>n. fold (map_class (cc_SetInstance (b AND 0x7f))) (ascending (\<lambda>cc. cc \<in> mi_endPointCommandClasses mi)) n) nid d)
      else capability_get nid (b AND 0x7f) d)"

definition HandleMultiChannelEndPointFindReport ::
  "uint8 \<Rightarrow> bytes \<Rightarrow> uint32 \<Rightarrow> mi_state \<times> driver \<Rightarrow> (mi_state \<times> driver) option" where
  "HandleMultiChannelEndPointFindReport nid data len = (\<lambda>(mi, d). do {
     let num = (ucast (len - 5) :: uint8);
     bs \<leftarrow> peek_block data 4 (unat num);
     d1 \<leftarrow> run_all (found_end_point mi nid) bs d;
     let mi1 = mi\<lparr>mi_numEndPointsFound := mi_numEndPointsFound mi + num\<rparr>;
     if mi_endPointsAreSameClass mi then Some (mi1, d1)
     else do {
       more \<leftarrow> peek data 1;
       if more = 0 \<and> mi_numEndPointsFound mi1 < num then do {
         let mi2 = mi1\<lparr>mi_endPointFindIndex := mi_endPointFindIndex mi1 + 1\<rparr>;
         if mi_endPointFindIndex mi2 \<le> 13 \<and> c_genericClass ! unat (mi_endPointFindIndex mi2) > 0
         then map_option (Pair mi2) (SendMsg (mi_msg ''MultiChannelCmd_EndPointFind'' nid
                [MultiChannelCmd_EndPointFind, c_genericClass ! unat (mi_endPointFindIndex mi2), 0xff] d1) MsgQueue_Send d1)
         else Some (mi2, d1)
       }
       else Some (mi1, d1)
     }
   })"

section \<open>The handler\<close>

text \<open>
  \<open>MultiInstance::HandleMsg\<close> without the encapsulated frames; the result tells whether the command is known.
\<close>

definition MultiInstance_HandleMsg :: "mi_env \<Rightarrow> uint8 \<Rightarrow> bytes \<Rightarrow> uint32 \<Rightarrow> mi_state \<times> driver \<Rightarrow> (bool \<times> mi_state \<times> driver) option" where
  "MultiInstance_HandleMsg env nid data len s = do {
     cmd \<leftarrow> peek data 0;
     if d_nodes (snd s) nid = None then Some (False, s)
     else if cmd = MultiInstanceCmd_Report then map_option (\<lambda>d. (True, fst s, d)) (HandleMultiInstanceReport nid data (snd s))
     else if cmd = MultiChannelCmd_EndPointReport then map_option (Pair True) (HandleMultiChannelEndPointReport env nid data s)
     else if cmd = MultiChannelCmd_CapabilityReport then map_option (Pair True) (HandleMultiChannelCapabilityReport env nid data len s)
     else if cmd = MultiChannelCmd_EndPointFindReport then map_option (Pair True) (HandleMultiChannelEndPointFindReport nid data len s)
     else Some (False, s)
   }"

end
