(* ===== verification/Multi_Channel_Laws.thy ===== *)
theory Multi_Channel_Laws
  imports Multi_Channel Assoc_Laws
begin

text \<open>
  The map between the instances of a class and the end points of a node: what a report of capabilities adds to it,
  that a frame from an end point and a message to its instance meet, and the reports that are handled wrongly.
\<close>

section \<open>The map of one class\<close>

definition map_ok :: "cc_state \<Rightarrow> bool" where
  "map_ok c \<longleftrightarrow> c_endPoints c 0 = None \<and> dom (c_endPoints c) \<subseteq> c_instances c \<and>
     (\<forall>i j e. e \<noteq> 0 \<longrightarrow> c_endPoints c i = Some e \<longrightarrow> c_endPoints c j = Some e \<longrightarrow> i = j)"

definition has_room :: "cc_state \<Rightarrow> bool" where
  "has_room c \<longleftrightarrow> (\<exists>i. 1 \<le> i \<and> i < 128 \<and> i \<notin> c_instances c)"

lemma find_SomeD: "find P xs = Some x \<Longrightarrow> P x \<and> x \<in> set xs"
  by (induction xs) (auto split: if_splits)

lemma all_bytes: "(b :: uint8) \<in> set (map of_nat [0..<256])"
proof -
  have "unat b < 256" using unsigned_less [of b, where 'a = nat] by simp
  then show ?thesis by (auto intro!: image_eqI [of _ _ "unat b"])
qed

lemma GetInstanceOf_zero:
  assumes "c_endPoints c 0 = None"
  shows "GetInstanceOf c e = 0 \<longleftrightarrow> (\<forall>i. c_endPoints c i \<noteq> Some e)"
proof -
  have "(\<exists>i \<in> set (map of_nat [0..<256]). c_endPoints c i = Some e) \<longleftrightarrow> (\<exists>i. c_endPoints c i = Some e)"
    using all_bytes by blast
  then show ?thesis
    using assms by (auto simp: GetInstanceOf_def find_None_iff find_Some_iff split: option.split)
qed

lemma GetInstanceOf_unique:
  assumes "c_endPoints c i = Some e" "\<And>j. c_endPoints c j = Some e \<Longrightarrow> j = i"
  shows "GetInstanceOf c e = i"
proof (cases "find (\<lambda>i. c_endPoints c i = Some e) (map of_nat [0..<256])")
  case None
  then have "\<not> (\<exists>x. x \<in> set (map of_nat [0..<256]) \<and> c_endPoints c x = Some e)" by (simp only: find_None_iff not_False_eq_True)
  then show ?thesis using all_bytes [of i] assms(1) by blast
next
  case (Some j)
  then have "c_endPoints c j = Some e" by (auto simp: find_Some_iff)
  with Some assms(2) show ?thesis by (simp add: GetInstanceOf_def)
qed

lemma map_ok_GetInstanceOf:
  assumes "map_ok c" "e \<noteq> 0" "c_endPoints c i = Some e"
  shows "GetInstanceOf c e = i"
  using assms by (intro GetInstanceOf_unique) (auto simp: map_ok_def)

lemma map_ok_found:
  assumes "map_ok c" "GetInstanceOf c e \<noteq> 0"
  shows "c_endPoints c (GetInstanceOf c e) = Some e"
proof -
  obtain i where "find (\<lambda>i. c_endPoints c i = Some e) (map of_nat [0..<256]) = Some i"
    using assms(2) by (auto simp: GetInstanceOf_def split: option.splits)
  then show ?thesis using find_SomeD by (fastforce simp: GetInstanceOf_def)
qed

lemma free_instance_room:
  assumes "has_room c"
  shows "free_instance env c \<noteq> 0" "free_instance env c \<notin> c_instances c \<or> cc_GetEndPoint (free_instance env c) c = 0"
proof -
  let ?P = "\<lambda>i. if \<not> me_mapRoot env then i \<notin> c_instances c
    else (i = 1 \<and> i \<in> c_instances c \<and> cc_GetEndPoint i c = 0) \<or> i \<notin> c_instances c"
  let ?xs = "map of_nat [1..<128] :: uint8 list"
  obtain i where i: "1 \<le> i" "i < 128" "i \<notin> c_instances c" using assms by (auto simp: has_room_def)
  then have "unat i \<in> set [1..<128]" by (auto simp: word_le_nat_alt word_less_nat_alt)
  then have "i \<in> set ?xs" by (auto intro!: image_eqI [of _ _ "unat i"])
  then have "find ?P ?xs \<noteq> None" using i(3) by (auto simp: find_None_iff)
  then obtain j where j: "find ?P ?xs = Some j" by blast
  then have "?P j" "j \<in> set ?xs" using find_SomeD by (fast, fast)
  moreover have "j \<noteq> 0"
  proof -
    obtain k where "k \<in> set [1..<128]" "j = of_nat k" using \<open>j \<in> set ?xs\<close> by auto
    then show ?thesis by (simp add: word_unat_eq_iff unat_of_nat)
  qed
  moreover have "free_instance env c = j" using j by (simp add: free_instance_def)
  ultimately show "free_instance env c \<noteq> 0" "free_instance env c \<notin> c_instances c \<or> cc_GetEndPoint (free_instance env c) c = 0"
    by (auto split: if_splits)
qed

text \<open>What a report for end point \<open>e\<close> does to a class.\<close>

definition assign :: "mi_env \<Rightarrow> uint8 \<Rightarrow> cc_state \<Rightarrow> cc_state" where
  "assign env e c =
     (if GetInstanceOf c e \<noteq> 0 then c
      else cc_SetEndPoint (free_instance env c) e (cc_SetInstance (free_instance env c) c))"

lemma assign_spec:
  assumes c: "map_ok c" and e: "e \<noteq> 0" and room: "has_room c"
  shows "map_ok (assign env e c)" "GetInstanceOf (assign env e c) e \<noteq> 0"
    "\<And>e'. e' \<noteq> 0 \<Longrightarrow> e' \<noteq> e \<Longrightarrow> GetInstanceOf (assign env e c) e' = GetInstanceOf c e'"
    "GetInstanceOf (assign env e c) e \<in> c_instances (assign env e c)"
proof -
  define f where "f = free_instance env c"
  define c' where "c' = cc_SetEndPoint f e (cc_SetInstance f c)"
  have f: "f \<noteq> 0" "f \<notin> c_instances c \<or> cc_GetEndPoint f c = 0"
    using free_instance_room [OF room] by (simp_all add: f_def)
  have old: "c_endPoints c f = None \<or> c_endPoints c f = Some 0"
    using f(2) c by (auto simp: map_ok_def cc_GetEndPoint_def split: option.splits)
  have ep: "c_endPoints c' = (c_endPoints c)(f \<mapsto> e)" "c_instances c' = insert f (c_instances c)"
    by (simp_all add: c'_def cc_SetEndPoint_def cc_SetInstance_def)
  show "map_ok (assign env e c)" "GetInstanceOf (assign env e c) e \<noteq> 0"
    "\<And>e'. e' \<noteq> 0 \<Longrightarrow> e' \<noteq> e \<Longrightarrow> GetInstanceOf (assign env e c) e' = GetInstanceOf c e'"
    "GetInstanceOf (assign env e c) e \<in> c_instances (assign env e c)"
  proof -
    show "map_ok (assign env e c)"
    proof (cases "GetInstanceOf c e = 0")
      case True
      then have none: "\<And>i. c_endPoints c i \<noteq> Some e" using GetInstanceOf_zero c by (auto simp: map_ok_def)
      have "map_ok c'" using c none f(1) by (auto simp: map_ok_def ep)
      with True show ?thesis by (simp add: assign_def c'_def f_def)
    qed (simp add: assign_def c)
    show "GetInstanceOf (assign env e c) e' = GetInstanceOf c e'" if "e' \<noteq> 0" "e' \<noteq> e" for e'
    proof (cases "GetInstanceOf c e = 0")
      case True
      have "c_endPoints c' i = Some e' \<longleftrightarrow> c_endPoints c i = Some e'" for i using old that by (auto simp: ep)
      then have "GetInstanceOf c' e' = GetInstanceOf c e'" by (simp add: GetInstanceOf_def)
      with True show ?thesis by (simp add: assign_def c'_def f_def)
    qed (simp add: assign_def)
    have g: "c_endPoints (assign env e c) (GetInstanceOf (assign env e c) e) = Some e \<and> GetInstanceOf (assign env e c) e \<noteq> 0"
    proof (cases "GetInstanceOf c e = 0")
      case True
      then have none: "\<And>i. c_endPoints c i \<noteq> Some e" using GetInstanceOf_zero c by (auto simp: map_ok_def)
      have "GetInstanceOf c' e = f" by (rule GetInstanceOf_unique) (use none in \<open>auto simp: ep split: if_splits\<close>)
      with True f(1) ep show ?thesis by (simp add: assign_def c'_def f_def)
    qed (simp add: assign_def map_ok_found [OF c])
    then show "GetInstanceOf (assign env e c) e \<noteq> 0" by simp
    show "GetInstanceOf (assign env e c) e \<in> c_instances (assign env e c)"
      using g \<open>map_ok (assign env e c)\<close> by (auto simp: map_ok_def)
  qed
qed

section \<open>A report of capabilities\<close>

lemma map_class_other: "k \<noteq> cc \<Longrightarrow> n_classes (map_class f cc n) k = n_classes n k"
  by (simp add: map_class_def)

lemma unique_class_at:
  assumes "k \<noteq> CC_BASIC"
  shows "n_classes (unique_class env e cc n) k =
    (if k = cc \<and> me_multiInstance env cc then map_option (assign env e) (n_classes n k) else n_classes n k)"
  using assms by (auto simp: unique_class_def set_instance_def assign_def map_class_def Let_def split: option.split)

lemma unique_classes_at:
  assumes "k \<noteq> CC_BASIC" "distinct ccs"
  shows "n_classes (fold (unique_class env e) ccs n) k =
    (if k \<in> set ccs \<and> me_multiInstance env k then map_option (assign env e) (n_classes n k) else n_classes n k)"
  using assms(2)
proof (induction ccs arbitrary: n)
  case (Cons cc ccs)
  then show ?case using unique_class_at [OF assms(1), of env e cc n] by auto
qed simp

lemma ascending_set: "set (ascending P) = {cc. P cc}"
  using all_bytes by (auto simp: ascending_def)

lemma ascending_distinct: "distinct (ascending P)"
proof -
  have "inj_on (of_nat :: nat \<Rightarrow> uint8) {0..<256}" by (rule inj_onI) (simp add: word_unat_eq_iff unat_of_nat take_bit_nat_eq_self)
  then have "distinct (map of_nat [0..<256] :: uint8 list)" by (simp add: distinct_map)
  then show ?thesis by (simp add: ascending_def)
qed


text \<open>What the list of classes leaves of the map of a class: a class that is there keeps it, a new one has none.\<close>

definition same_map :: "cc_state option \<Rightarrow> cc_state option \<Rightarrow> bool" where
  "same_map x y \<longleftrightarrow> (\<forall>c'. y = Some c' \<longrightarrow>
     (case x of None \<Rightarrow> c_endPoints c' = Map.empty \<and> c_instances c' = {}
      | Some c \<Rightarrow> c_endPoints c' = c_endPoints c \<and> c_instances c' = c_instances c))"

lemma same_map_refl [simp]: "same_map (Some c) (Some c)" "same_map None None"
  by (simp_all add: same_map_def)

lemma same_map_same [simp]: "same_map x x" by (cases x) simp_all

lemma same_map_trans: "same_map x y \<Longrightarrow> same_map y z \<Longrightarrow> (y = None \<Longrightarrow> x = None) \<Longrightarrow> same_map x z"
  by (cases x; cases y; cases z) (simp_all add: same_map_def)

lemma AddCommandClass_map:
  "same_map (n_classes n k) (n_classes (snd (AddCommandClass env cc n)) k) \<and>
   (n_classes (snd (AddCommandClass env cc n)) k = None \<longrightarrow> n_classes n k = None)"
proof (cases "has_class cc n \<or> cc \<notin> set registered_classes")
  case True
  then show ?thesis by (simp add: AddCommandClass_def)
next
  case False
  then have "n_classes n cc = None" by (simp add: has_class_def)
  with False show ?thesis by (simp add: AddCommandClass_def same_map_def class_new_def Let_def)
qed

lemma mark_map:
  "same_map (n_classes n k) (n_classes (map_class (\<lambda>c. c\<lparr>c_afterMark := True\<rparr>) cc n) k)"
  "n_classes (map_class (\<lambda>c. c\<lparr>c_afterMark := True\<rparr>) cc n) k = None \<longleftrightarrow> n_classes n k = None"
  by (auto simp: same_map_def map_class_def split: option.splits)

lemma capability_class_map:
  assumes "capability_class env cc (mark, ccs, n) = (mark', ccs', n')"
  shows "same_map (n_classes n k) (n_classes n' k)" "n_classes n' k = None \<Longrightarrow> n_classes n k = None"
proof -
  define n1 where "n1 = (if n_classes n cc = None then snd (AddCommandClass (me_node env) cc n) else n)"
  have n1: "same_map (n_classes n k) (n_classes n1 k)" "n_classes n1 k = None \<Longrightarrow> n_classes n k = None"
    using AddCommandClass_map [of n k "me_node env" cc] by (auto simp: n1_def split: if_splits)
  have n': "n' = n \<or> n' = n1 \<or> n' = map_class (\<lambda>c. c\<lparr>c_afterMark := True\<rparr>) cc n1"
    using assms by (auto simp: capability_class_def n1_def Let_def split: if_splits)
  show "same_map (n_classes n k) (n_classes n' k)"
    using n' n1 same_map_trans [OF n1(1) mark_map(1)] by auto
  show "n_classes n' k = None \<Longrightarrow> n_classes n k = None" using n' n1 mark_map(2) by auto
qed

lemma capability_classes_map:
  assumes "fold (capability_class env) bs (mark, ccs, n) = (mark', ccs', n')"
  shows "same_map (n_classes n k) (n_classes n' k) \<and> (n_classes n' k = None \<longrightarrow> n_classes n k = None)"
  using assms
proof (induction bs arbitrary: mark ccs n)
  case (Cons b bs)
  obtain m1 c1 n1 where s: "capability_class env b (mark, ccs, n) = (m1, c1, n1)" by (cases "capability_class env b (mark, ccs, n)")
  with Cons.prems have "fold (capability_class env) bs (m1, c1, n1) = (mark', ccs', n')" by simp
  from Cons.IH [OF this] have ih: "same_map (n_classes n1 k) (n_classes n' k)" "n_classes n' k = None \<longrightarrow> n_classes n1 k = None"
    by blast+
  note step = capability_class_map [OF s, of k]
  show ?case using same_map_trans [OF step(1) ih(1) step(2)] ih(2) step(2) by simp
qed simp

lemma same_map_ok: "same_map (Some c) (Some c') \<Longrightarrow> map_ok c \<Longrightarrow> map_ok c'"
  "same_map (Some c) (Some c') \<Longrightarrow> has_room c \<Longrightarrow> has_room c'"
  "same_map (Some c) (Some c') \<Longrightarrow> GetInstanceOf c' e = GetInstanceOf c e"
  by (simp_all add: same_map_def map_ok_def has_room_def GetInstanceOf_def)

lemma same_map_new: "same_map None (Some c') \<Longrightarrow> map_ok c' \<and> has_room c' \<and> GetInstanceOf c' e = 0"
proof -
  assume "same_map None (Some c')"
  then have c: "c_endPoints c' = Map.empty" "c_instances c' = {}" by (simp_all add: same_map_def)
  have "find (\<lambda>i. False) xs = None" for xs :: bytes by (induction xs) simp_all
  then show ?thesis using c by (auto simp: map_ok_def has_room_def GetInstanceOf_def intro!: exI [of _ 1])
qed



section \<open>Every end point is asked\<close>

lemma for8_run_all:
  assumes "n < 256" "unat i \<le> n"
  shows "for8 n body i s = run_all body (map of_nat [unat i..<n]) s"
  using assms(2)
proof (induction "n - unat i" arbitrary: i s)
  case 0
  then show ?case by (simp add: for8.simps)
next
  case (Suc k)
  then have lt: "unat i < n" by simp
  then have u: "unat (i + 1) = Suc (unat i)" using assms(1) by (simp add: unat_word_ariths)
  have "for8 n body (i + 1) = run_all body (map of_nat [Suc (unat i)..<n])"
    using Suc.hyps(1) [of "i + 1"] Suc.hyps(2) lt by (intro ext) (simp add: u)
  then show ?case using lt by (subst for8.simps) (simp add: upt_conv_Cons)
qed

lemma for8_endless: "256 \<le> n \<Longrightarrow> for8 n body i s = None"
  using for8_bound [of n body i s] by (cases "for8 n body i s") simp_all

text \<open>
  The report of the number of end points asks each of them, or the first if they are all the same; with a hint of 255
  the loop has no end.
\<close>

lemma end_points_asked:
  assumes "mi_numEndPoints mi = 0" "peek data 1 = Some b1" "peek data 2 = Some b2" "me_endPointHint env = 0"
  shows "map_option snd (HandleMultiChannelEndPointReport env nid data (mi, d)) =
    run_all (capability_get nid) (map of_nat [1..<(if b1 AND 0x40 \<noteq> 0 \<and> \<not> me_forceUnique env then 1 else unat (b2 AND 0x7f)) + 1]) d"
proof -
  have "unat (b2 AND 0x7f) \<le> 127"
    using word_and_le1 [of b2 "0x7f"] by (simp add: word_le_nat_alt)
  then show ?thesis
    using assms by (simp add: HandleMultiChannelEndPointReport_def for8_run_all map_option_bind o_def Let_def option.map_comp)
qed

lemma hint_endless:
  assumes "mi_numEndPoints mi = 0" "peek data 1 = Some b1" "peek data 2 = Some b2" "me_endPointHint env = 255"
    and "b1 AND 0x40 = 0 \<or> me_forceUnique env"
  shows "HandleMultiChannelEndPointReport env nid data (mi, d) = None"
  using assms by (auto simp: HandleMultiChannelEndPointReport_def for8_endless)

section \<open>The search for end points is never continued\<close>

text \<open>
  The count of what was found is compared with the number it was just increased by, so the next device class is only
  asked for when the count overflows.
\<close>

lemma search_not_continued:
  assumes "unat (mi_numEndPointsFound mi) + unat (ucast (len - 5) :: uint8) < 256"
    and "HandleMultiChannelEndPointFindReport nid data len (mi, d) = Some (mi', d')"
  shows "mi_endPointFindIndex mi' = mi_endPointFindIndex mi \<and>
    (\<exists>bs. run_all (found_end_point mi nid) bs d = Some d')"
proof -
  have "\<not> mi_numEndPointsFound mi + ucast (len - 5) < (ucast (len - 5) :: uint8)"
    using assms(1) by (simp add: word_less_nat_alt unat_word_ariths)
  then show ?thesis using assms(2)
    by (auto simp: HandleMultiChannelEndPointFindReport_def Let_def split: Option.bind_splits if_splits)
qed

section \<open>BASIC loses an end point\<close>

text \<open>
  \<open>BASIC\<close> follows the class it stands for to the instance that is free there, also if that instance of its own is
  already the one of another end point, which then has none.
\<close>

definition two_end_points :: mi_env where
  "two_end_points = \<lparr> me_node = quiet_env, me_mapRoot = False, me_forceUnique = False, me_ignoreReports = False,
     me_endPointHint = 0, me_removeClass = (\<lambda>_. False), me_multiInstance = (\<lambda>_. True), me_mapping = 0x25 \<rparr>"

definition root_class :: "uint8 \<Rightarrow> cc_state" where
  "root_class cc = cc_SetInstance 1 (class_new cc)"

definition channel_node :: node where
  "channel_node = Node_new\<lparr>n_classes := [CC_BASIC \<mapsto> root_class CC_BASIC, 0x25 \<mapsto> root_class 0x25]\<rparr>"

lemma free_instance_two:
  assumes "c_instances c = {1}" "\<not> me_mapRoot env"
  shows "free_instance env c = 2"
proof -
  have "[1..<128] = 1 # 2 # [3..<128]" by (simp add: upt_conv_Cons)
  then show ?thesis using assms by (simp add: free_instance_def)
qed

lemma GetInstanceOf_none: "c_endPoints c = Map.empty \<Longrightarrow> GetInstanceOf c e = 0"
  using GetInstanceOf_zero [of c e] by simp

lemma assign_root:
  assumes "c_instances c = {1}" "c_endPoints c = Map.empty" "\<not> me_mapRoot env"
  shows "assign env e c = c\<lparr>c_instances := {1, 2}, c_endPoints := [2 \<mapsto> e]\<rparr>"
  using assms by (simp add: assign_def GetInstanceOf_none free_instance_two cc_SetEndPoint_def cc_SetInstance_def insert_commute)

lemma root_class_map: "c_instances (root_class cc) = {1}" "c_endPoints (root_class cc) = Map.empty"
  by (simp_all add: root_class_def cc_SetInstance_def class_new_def)

lemma basic_loses_end_point:
  "\<exists>basic. n_classes (unique_class two_end_points 2 0x25 (unique_class two_end_points 1 CC_BASIC channel_node)) CC_BASIC = Some basic \<and>
     GetInstanceOf basic 1 = 0 \<and> cc_GetEndPoint 2 basic = 2"
proof -
  let ?b = "(root_class CC_BASIC)\<lparr>c_instances := {1, 2}, c_endPoints := [2 \<mapsto> 1]\<rparr>"
  have one: "unique_class two_end_points 1 CC_BASIC channel_node = channel_node\<lparr>n_classes := [CC_BASIC \<mapsto> ?b, 0x25 \<mapsto> root_class 0x25]\<rparr>"
    by (simp add: unique_class_def set_instance_def map_class_def channel_node_def two_end_points_def GetInstanceOf_none
        root_class_map free_instance_two cc_SetEndPoint_def cc_SetInstance_def insert_commute fun_upd_twist)
  have "n_classes (unique_class two_end_points 2 0x25 (unique_class two_end_points 1 CC_BASIC channel_node)) CC_BASIC
      = Some (cc_SetEndPoint 2 2 (cc_SetInstance 2 ?b))"
    unfolding one by (simp add: unique_class_def set_instance_def map_class_def two_end_points_def GetInstanceOf_none
        root_class_map free_instance_two)
  moreover have "GetInstanceOf (cc_SetEndPoint 2 2 (cc_SetInstance 2 ?b)) 1 = 0"
    by (subst GetInstanceOf_zero) (simp_all add: cc_SetEndPoint_def cc_SetInstance_def)
  ultimately show ?thesis by (simp add: cc_GetEndPoint_def cc_SetEndPoint_def cc_SetInstance_def)
qed


end
