(* ===== verification/Timer_Service.thy ===== *)
theory Timer_Service
  imports Wake_Up "HOL-Library.Signed_Division"
begin

text \<open>
  Delayed actions: \<open>TimerThread.cpp\<close> with the time stamps of \<open>platform/unix/TimeStampImpl.cpp\<close>.  The entries are
  shared by pointer between the list of the thread and the list of the timer that set them, so they live on a
  heap; \<open>None\<close> is the use of an entry that has been deleted.  The mutex of the thread is held during a whole
  pass, the list of a timer has none.  \<open>call\<close> is the callback of a timer, which acts on the timers and on a state
  \<open>'w\<close> of its own.
\<close>

section \<open>Time stamps\<close>

record clock =
  k_sec :: int
  k_usec :: int

record stamp =
  tv_sec :: int
  tv_nsec :: int

text \<open>Division and remainder of C, towards zero.\<close>

definition stamp_SetTime :: "clock \<Rightarrow> int \<Rightarrow> stamp" where
  "stamp_SetTime now ms =
     (let sec = k_sec now + ms sdiv 1000;
          usec = k_usec now + (ms smod 1000) * 1000
      in if usec \<ge> 1000000 then \<lparr> tv_sec = sec + 1, tv_nsec = (usec smod 1000000) * 1000 \<rparr>
         else \<lparr> tv_sec = sec, tv_nsec = usec * 1000 \<rparr>)"

text \<open>The result has 32 bits.\<close>

definition stamp_TimeRemaining :: "clock \<Rightarrow> stamp \<Rightarrow> int" where
  "stamp_TimeRemaining now s =
     sint (of_int ((tv_sec s - k_sec now) * 1000) + of_int ((tv_nsec s sdiv 1000 - k_usec now) sdiv 1000) :: 32 word)"

section \<open>State\<close>

record timer_entry =
  te_instance :: nat
  te_timestamp :: stamp
  te_id :: uint32

record timers =
  ti_now :: clock
  ti_heap :: "nat \<Rightarrow> timer_entry option"
  ti_next :: nat
  ti_list :: "nat list"
  ti_own :: "nat \<Rightarrow> nat list"
  ti_driver :: "nat \<Rightarrow> bool"
  ti_timeout :: int
  ti_event :: bool

abbreviation Timeout_Infinite :: int where "Timeout_Infinite \<equiv> - 1"

definition timers_new :: "clock \<Rightarrow> timers" where
  "timers_new now = \<lparr> ti_now = now, ti_heap = (\<lambda>_. None), ti_next = 0, ti_list = [], ti_own = (\<lambda>_. []), ti_driver = (\<lambda>_. False),
     ti_timeout = Timeout_Infinite, ti_event = False \<rparr>"

section \<open>Operations\<close>

definition Thread_TimerSetEvent :: "int \<Rightarrow> nat \<Rightarrow> uint32 \<Rightarrow> timers \<Rightarrow> nat \<times> timers" where
  "Thread_TimerSetEvent ms inst i s =
     (let p = ti_next s;
          e = \<lparr> te_instance = inst, te_timestamp = stamp_SetTime (ti_now s) ms, te_id = i \<rparr>
      in (p, s\<lparr>ti_heap := (ti_heap s)(p \<mapsto> e), ti_next := p + 1, ti_list := ti_list s @ [p], ti_event := True\<rparr>))"

definition Thread_TimerDelEvent :: "nat \<Rightarrow> timers \<Rightarrow> timers" where
  "Thread_TimerDelEvent p s =
     (if p \<in> set (ti_list s) then s\<lparr>ti_heap := (ti_heap s)(p := None), ti_list := remove1 p (ti_list s)\<rparr> else s)"

text \<open>\<open>there\<close>: whether the driver is given, and not a null pointer.\<close>

definition Timer_SetDriver :: "nat \<Rightarrow> bool \<Rightarrow> timers \<Rightarrow> timers" where
  "Timer_SetDriver inst there s = s\<lparr>ti_driver := (ti_driver s)(inst := there)\<rparr>"

definition set_own :: "nat \<Rightarrow> nat list \<Rightarrow> timers \<Rightarrow> timers" where
  "set_own inst ps s = s\<lparr>ti_own := (ti_own s)(inst := ps)\<rparr>"

definition Timer_TimerSetEvent :: "int \<Rightarrow> nat \<Rightarrow> uint32 \<Rightarrow> timers \<Rightarrow> timers" where
  "Timer_TimerSetEvent ms inst i s =
     (if ti_driver s inst
      then let (p, s1) = Thread_TimerSetEvent ms inst i s in set_own inst (ti_own s1 inst @ [p]) s1
      else s)"

fun delete_entries :: "nat list \<Rightarrow> timers \<Rightarrow> timers" where
  "delete_entries [] s = s"
| "delete_entries (p # ps) s = delete_entries ps (Thread_TimerDelEvent p s)"

text \<open>\<open>TimerDelEvents\<close>, which the destructor calls.\<close>

definition Timer_TimerDelEvents :: "nat \<Rightarrow> timers \<Rightarrow> timers" where
  "Timer_TimerDelEvents inst s = (if ti_driver s inst then set_own inst [] (delete_entries (ti_own s inst) s) else s)"

definition Timer_TimerDelEvent :: "nat \<Rightarrow> nat \<Rightarrow> timers \<Rightarrow> timers" where
  "Timer_TimerDelEvent inst p s =
     (if ti_driver s inst \<and> p \<in> set (ti_own s inst)
      then let s1 = Thread_TimerDelEvent p s in set_own inst (remove1 p (ti_own s1 inst)) s1
      else s)"

text \<open>The search by id looks at the entries, which must be there.\<close>

fun find_id :: "uint32 \<Rightarrow> nat list \<Rightarrow> timers \<Rightarrow> nat option option" where
  "find_id i [] s = Some None"
| "find_id i (p # ps) s = (case ti_heap s p of None \<Rightarrow> None | Some e \<Rightarrow> if te_id e = i then Some (Some p) else find_id i ps s)"

definition Timer_TimerDelEvent_id :: "nat \<Rightarrow> uint32 \<Rightarrow> timers \<Rightarrow> timers option" where
  "Timer_TimerDelEvent_id inst i s =
     (if ti_driver s inst
      then map_option (\<lambda>r. case r of None \<Rightarrow> s | Some p \<Rightarrow> Timer_TimerDelEvent inst p s) (find_id i (ti_own s inst) s)
      else Some s)"

section \<open>The thread\<close>

type_synonym 'w callback = "nat \<Rightarrow> uint32 \<Rightarrow> timers \<times> 'w \<Rightarrow> (timers \<times> 'w) option"

definition Timer_TimerFireEvent :: "'w callback \<Rightarrow> nat \<Rightarrow> timer_entry \<Rightarrow> timers \<times> 'w \<Rightarrow> (timers \<times> 'w) option" where
  "Timer_TimerFireEvent call p e s =
     map_option (apfst (Timer_TimerDelEvent (te_instance e) p)) (call (te_instance e) (te_id e) s)"

text \<open>The list iterator is the entry it stands at, \<open>None\<close> behind the last one.\<close>

fun list_next :: "nat \<Rightarrow> nat list \<Rightarrow> nat option" where
  "list_next p [] = None"
| "list_next p (q # qs) = (if p = q then (case qs of [] \<Rightarrow> None | r # _ \<Rightarrow> Some r) else list_next p qs)"

definition list_begin :: "nat list \<Rightarrow> nat option" where
  "list_begin ps = (case ps of [] \<Rightarrow> None | p # _ \<Rightarrow> Some p)"

partial_function (option) scan :: "'w callback \<Rightarrow> nat option \<Rightarrow> int \<Rightarrow> timers \<times> 'w \<Rightarrow> (int \<times> timers \<times> 'w) option" where
  "scan call it timeout s =
     (case it of
        None \<Rightarrow> Some (timeout, s)
      | Some p \<Rightarrow>
          (case ti_heap (fst s) p of
             None \<Rightarrow> None
           | Some e \<Rightarrow>
               let nx = list_next p (ti_list (fst s));
                   tr = stamp_TimeRemaining (ti_now (fst s)) (te_timestamp e)
               in if tr \<le> 0 then Option.bind (Timer_TimerFireEvent call p e s) (scan call nx timeout)
                  else scan call nx (if timeout = Timeout_Infinite then tr else min timeout tr) s))"

text \<open>One turn of \<open>TimerThreadProc\<close> after a time-out or a signal.\<close>

definition timer_pass :: "'w callback \<Rightarrow> timers \<times> 'w \<Rightarrow> (timers \<times> 'w) option" where
  "timer_pass call s = do {
     (timeout, t, w) \<leftarrow> scan call (list_begin (ti_list (fst s))) Timeout_Infinite s;
     Some (t\<lparr>ti_timeout := timeout, ti_event := False\<rparr>, w)
   }"

section \<open>Well-formed timers\<close>

definition timers_ok :: "timers \<Rightarrow> bool" where
  "timers_ok s \<longleftrightarrow> distinct (ti_list s) \<and> dom (ti_heap s) = set (ti_list s) \<and> (\<forall>p \<in> set (ti_list s). p < ti_next s) \<and>
     (\<forall>t. distinct (ti_own s t)) \<and>
     (\<forall>t p. p \<in> set (ti_own s t) \<longleftrightarrow> (\<exists>e. ti_heap s p = Some e \<and> te_instance e = t)) \<and>
     (\<forall>p e. ti_heap s p = Some e \<longrightarrow> ti_driver s (te_instance e))"

lemma timers_new_ok: "timers_ok (timers_new now)"
  by (simp add: timers_ok_def timers_new_def)

lemma timers_okD:
  assumes "timers_ok s"
  shows "distinct (ti_list s)" "p \<in> set (ti_list s) \<longleftrightarrow> ti_heap s p \<noteq> None" "p \<in> set (ti_list s) \<Longrightarrow> p < ti_next s"
    "distinct (ti_own s t)" "p \<in> set (ti_own s t) \<longleftrightarrow> (\<exists>e. ti_heap s p = Some e \<and> te_instance e = t)"
    "ti_heap s p = Some e \<Longrightarrow> ti_driver s (te_instance e)"
  using assms by (auto simp: timers_ok_def dom_def)

lemma timers_okI:
  assumes "distinct (ti_list s)" "\<And>p. p \<in> set (ti_list s) \<longleftrightarrow> ti_heap s p \<noteq> None" "\<And>p. p \<in> set (ti_list s) \<Longrightarrow> p < ti_next s"
    "\<And>t. distinct (ti_own s t)" "\<And>t p. p \<in> set (ti_own s t) \<longleftrightarrow> (\<exists>e. ti_heap s p = Some e \<and> te_instance e = t)"
    "\<And>p e. ti_heap s p = Some e \<Longrightarrow> ti_driver s (te_instance e)"
  shows "timers_ok s"
  using assms by (auto simp: timers_ok_def dom_def)

lemma Timer_SetDriver_ok: "timers_ok s \<Longrightarrow> timers_ok (Timer_SetDriver inst True s)"
  by (simp add: timers_ok_def Timer_SetDriver_def)

lemma Timer_TimerSetEvent_ok:
  assumes "timers_ok s"
  shows "timers_ok (Timer_TimerSetEvent ms inst i s)"
proof (cases "ti_driver s inst")
  case True
  note ok = timers_okD [OF assms]
  have new: "ti_next s \<notin> set (ti_list s)" "ti_next s \<notin> set (ti_own s t)" for t using ok(3) ok(2,5) by (blast, force)
  have heap: "ti_heap s (ti_next s) = None" using new(1) ok(2) by simp
  show ?thesis
    using ok new heap True
    by (intro timers_okI) (auto simp: Timer_TimerSetEvent_def Thread_TimerSetEvent_def set_own_def less_Suc_eq Let_def split: if_splits)
qed (simp add: Timer_TimerSetEvent_def assms)

lemma Timer_TimerDelEvent_ok:
  assumes "timers_ok s"
  shows "timers_ok (Timer_TimerDelEvent inst p s)"
proof (cases "ti_driver s inst \<and> p \<in> set (ti_own s inst)")
  case True
  note ok = timers_okD [OF assms]
  have "p \<in> set (ti_list s)" using True ok(2,5) by auto
  then show ?thesis
    using ok True
    by (intro timers_okI) (auto simp: Timer_TimerDelEvent_def Thread_TimerDelEvent_def set_own_def Let_def split: if_splits)
qed (auto simp: Timer_TimerDelEvent_def assms)

text \<open>A search by id never meets a deleted entry.\<close>

lemma find_id_ok:
  assumes "timers_ok s" "set ps \<subseteq> set (ti_own s inst)"
  shows "find_id i ps s \<noteq> None"
  using assms(2)
proof (induction ps)
  case (Cons p ps)
  then obtain e where "ti_heap s p = Some e" using timers_okD(5) [OF assms(1)] by auto
  with Cons show ?case by simp
qed simp

lemma Timer_TimerDelEvent_id_ok:
  assumes "timers_ok s"
  shows "\<exists>s'. Timer_TimerDelEvent_id inst i s = Some s' \<and> timers_ok s'"
proof (cases "ti_driver s inst")
  case True
  obtain r where r: "find_id i (ti_own s inst) s = Some r" using find_id_ok [OF assms subset_refl, of i inst] by blast
  show ?thesis using True assms Timer_TimerDelEvent_ok [OF assms]
    by (cases r) (simp_all add: Timer_TimerDelEvent_id_def r)
qed (simp add: Timer_TimerDelEvent_id_def assms)

end
