(* ===== verification/Timer_Laws.thy ===== *)
theory Timer_Laws
  imports Timer_Service Wake_Laws
begin

text \<open>
  What the timer thread promises: a pass calls exactly the expired actions, once each and in the order they were set,
  forgets them, and sleeps no longer than until the next one.
\<close>

section \<open>Removing entries\<close>

definition purge :: "nat set \<Rightarrow> timers \<Rightarrow> timers" where
  "purge A s = s\<lparr>ti_heap := (\<lambda>p. if p \<in> A then None else ti_heap s p), ti_list := filter (\<lambda>p. p \<notin> A) (ti_list s),
     ti_own := (\<lambda>t. filter (\<lambda>p. p \<notin> A) (ti_own s t))\<rparr>"

lemma purge_fields [simp]:
  "ti_now (purge A s) = ti_now s" "ti_driver (purge A s) = ti_driver s" "ti_timeout (purge A s) = ti_timeout s"
  "ti_list (purge A s) = filter (\<lambda>p. p \<notin> A) (ti_list s)" "ti_heap (purge A s) p = (if p \<in> A then None else ti_heap s p)"
  "ti_own (purge A s) t = filter (\<lambda>p. p \<notin> A) (ti_own s t)" "ti_next (purge A s) = ti_next s" "ti_event (purge A s) = ti_event s"
  by (simp_all add: purge_def)

lemma purge_none [simp]: "purge {} s = s"
  by (simp add: purge_def)

lemma purge_purge: "purge A (purge B s) = purge (A \<union> B) s"
  by (auto simp: purge_def fun_eq_iff intro!: timers.equality filter_cong)

lemma purge_ok: "timers_ok s \<Longrightarrow> timers_ok (purge A s)"
  by (rule timers_okI) (auto simp: timers_okD split: if_splits)

lemma Timer_TimerDelEvent_purge:
  assumes ok: "timers_ok s" and e: "ti_heap s p = Some e"
  shows "Timer_TimerDelEvent (te_instance e) p s = purge {p} s"
proof -
  have p: "p \<in> set (ti_own s (te_instance e))" "p \<in> set (ti_list s)" "ti_driver s (te_instance e)"
    using timers_okD(2,5,6) [OF ok] e by auto
  have r: "distinct xs \<Longrightarrow> remove1 p xs = filter (\<lambda>q. q \<noteq> p) xs" for xs
    by (auto simp: distinct_remove1_removeAll removeAll_filter_not_eq intro: filter_cong)
  have own: "filter (\<lambda>q. q \<noteq> p) (ti_own s t) = ti_own s t" if "t \<noteq> te_instance e" for t
    using timers_okD(5) [OF ok, of p t] e that by (auto intro!: filter_True)
  show ?thesis
    using p r [OF timers_okD(1) [OF ok]] r [OF timers_okD(4) [OF ok]] own
    by (auto simp: Timer_TimerDelEvent_def Thread_TimerDelEvent_def set_own_def purge_def Let_def fun_eq_iff intro!: timers.equality)
qed

section \<open>One pass\<close>

definition remaining :: "timers \<Rightarrow> nat \<Rightarrow> int" where
  "remaining s p = (case ti_heap s p of None \<Rightarrow> 0 | Some e \<Rightarrow> stamp_TimeRemaining (ti_now s) (te_timestamp e))"

definition expired :: "timers \<Rightarrow> nat \<Rightarrow> bool" where
  "expired s p \<longleftrightarrow> remaining s p \<le> 0"

definition earliest :: "timers \<Rightarrow> nat list \<Rightarrow> int \<Rightarrow> int" where
  "earliest s = fold (\<lambda>p timeout. if timeout = Timeout_Infinite then remaining s p else min timeout (remaining s p))"

definition act :: "(nat \<Rightarrow> uint32 \<Rightarrow> 'w \<Rightarrow> 'w option) \<Rightarrow> timers \<Rightarrow> nat \<Rightarrow> 'w \<Rightarrow> 'w option" where
  "act effect s p w = (case ti_heap s p of None \<Rightarrow> Some w | Some e \<Rightarrow> effect (te_instance e) (te_id e) w)"

text \<open>Callbacks that leave the timers alone.\<close>

locale timer_client =
  fixes call :: "'w callback" and effect :: "nat \<Rightarrow> uint32 \<Rightarrow> 'w \<Rightarrow> 'w option"
  assumes call_eq: "call t i (s, w) = map_option (Pair s) (effect t i w)"
begin

lemma fire:
  assumes "timers_ok s" "ti_heap s p = Some e"
  shows "Timer_TimerFireEvent call p e (s, w) = map_option (Pair (purge {p} s)) (effect (te_instance e) (te_id e) w)"
  using Timer_TimerDelEvent_purge [OF assms] by (simp add: Timer_TimerFireEvent_def call_eq option.map_comp o_def)

lemma next_left: "p \<notin> set xs \<Longrightarrow> list_next p (xs @ p # ys) = list_begin ys"
  by (induction xs) (auto simp: list_begin_def)

lemma scan_rest:
  assumes "timers_ok s" "ti_list s = before @ ps" "A \<subseteq> set before"
  shows "scan call (list_begin ps) timeout (purge A s, w) =
    map_option (\<lambda>w'. (earliest s (filter (\<lambda>p. \<not> expired s p) ps) timeout, purge (A \<union> {p \<in> set ps. expired s p}) s, w'))
      (run_all (act effect s) (filter (expired s) ps) w)"
  using assms(2,3)
proof (induction ps arbitrary: before A timeout w)
  case Nil
  then show ?case by (simp add: list_begin_def scan.simps earliest_def)
next
  case (Cons p ps)
  note ok = timers_okD [OF assms(1)]
  have d: "distinct (before @ p # ps)" using ok(1) Cons.prems(1) by simp
  have "ti_heap s p \<noteq> None" using ok(2) [of p] Cons.prems(1) by simp
  then obtain e where e: "ti_heap s p = Some e" by blast
  have pA: "p \<notin> A" using d Cons.prems(2) by auto
  have "filter (\<lambda>q. q \<notin> A) ps = ps" using d Cons.prems(2) by (intro filter_True) auto
  then have nx: "list_next p (ti_list (purge A s)) = list_begin ps"
    using Cons.prems(1) pA d next_left [of p "filter (\<lambda>q. q \<notin> A) before" ps] by simp
  have r: "remaining s p = stamp_TimeRemaining (ti_now s) (te_timestamp e)" by (simp add: remaining_def e)
  have split: "ti_list s = (before @ [p]) @ ps" using Cons.prems(1) by simp
  show ?case
  proof (cases "expired s p")
    case True
    have eA: "ti_heap (purge A s) p = Some e" using e pA by simp
    have f: "Timer_TimerFireEvent call p e (purge A s, w) = map_option (Pair (purge (insert p A) s)) (effect (te_instance e) (te_id e) w)"
      unfolding fire [OF purge_ok [OF assms(1)] eA] purge_purge by simp
    have sub: "insert p A \<subseteq> set (before @ [p])" using Cons.prems(2) by auto
    have ih: "scan call (list_begin ps) timeout (purge (insert p A) s, w1) =
      map_option (\<lambda>w'. (earliest s (filter (\<lambda>p. \<not> expired s p) ps) timeout, purge (insert p A \<union> {p \<in> set ps. expired s p}) s, w'))
        (run_all (act effect s) (filter (expired s) ps) w1)" for w1
      by (rule Cons.IH [OF split sub])
    have u: "insert p A \<union> {q \<in> set ps. expired s q} = A \<union> {q \<in> set (p # ps). expired s q}" using True by auto
    have ex: "stamp_TimeRemaining (ti_now s) (te_timestamp e) \<le> 0" using True r by (simp add: expired_def)
    show ?thesis
      using True nx eA f ex ih unfolding u
      by (subst scan.simps) (cases "effect (te_instance e) (te_id e) w"; simp add: list_begin_def act_def e)
  next
    case False
    have sub: "A \<subseteq> set (before @ [p])" using Cons.prems(2) by auto
    have u: "{q \<in> set (p # ps). expired s q} = {q \<in> set ps. expired s q}" using False by auto
    have ex: "\<not> stamp_TimeRemaining (ti_now s) (te_timestamp e) \<le> 0" using False r by (simp add: expired_def)
    show ?thesis
      using False nx e pA r ex Cons.IH [OF split sub] unfolding u
      by (subst scan.simps) (simp add: list_begin_def earliest_def)
  qed
qed

lemma pass:
  assumes "timers_ok s"
  shows "timer_pass call (s, w) = map_option (\<lambda>w'.
      (purge {p \<in> set (ti_list s). expired s p} s\<lparr>ti_timeout := earliest s (filter (\<lambda>p. \<not> expired s p) (ti_list s)) Timeout_Infinite,
         ti_event := False\<rparr>, w'))
    (run_all (act effect s) (filter (expired s) (ti_list s)) w)"
  using scan_rest [OF assms, of "[]" "ti_list s" "{}" Timeout_Infinite w]
  by (cases "run_all (act effect s) (filter (expired s) (ti_list s)) w") (simp_all add: timer_pass_def)

end

lemma earliest_from:
  "(\<And>p. p \<in> set ps \<Longrightarrow> 0 < remaining s p) \<Longrightarrow> 0 < t \<Longrightarrow> earliest s ps t = Min (insert t (remaining s ` set ps))"
proof (induction ps arbitrary: t)
  case (Cons p ps)
  have "earliest s (p # ps) t = earliest s ps (min t (remaining s p))" using Cons.prems(2) by (simp add: earliest_def)
  also have "\<dots> = Min (insert (min t (remaining s p)) (remaining s ` set ps))" using Cons by simp
  also have "\<dots> = Min (insert t (remaining s ` set (p # ps)))" by (cases "ps = []") (simp_all add: min.assoc)
  finally show ?case .
qed (simp add: earliest_def)

lemma earliest_first:
  assumes "\<And>p. p \<in> set ps \<Longrightarrow> 0 < remaining s p"
  shows "earliest s ps Timeout_Infinite = (if ps = [] then Timeout_Infinite else Min (remaining s ` set ps))"
proof (cases ps)
  case (Cons p qs)
  then have "earliest s ps Timeout_Infinite = earliest s qs (remaining s p)" by (simp add: earliest_def)
  also have "\<dots> = Min (insert (remaining s p) (remaining s ` set qs))" using assms Cons by (intro earliest_from) auto
  finally show ?thesis using Cons by simp
qed (simp add: earliest_def)

section \<open>Delayed sleep\<close>

text \<open>The callback of \<open>WakeUp::SendMoreInfo\<close>: the timer is the wake-up class of the node.\<close>

definition wakeup_callback :: "driver callback" where
  "wakeup_callback t i = (\<lambda>(s, d). map_option (Pair s) (SendNoMoreInfo (of_nat t) d))"

interpretation delayed_sleep: timer_client wakeup_callback "\<lambda>t i. SendNoMoreInfo (of_nat t)"
  by unfold_locales (simp add: wakeup_callback_def)

lemma run_sleep:
  assumes "good sh d"
  shows "\<exists>d'. run_all (act (\<lambda>t i. SendNoMoreInfo (of_nat t)) s) ps d = Some d' \<and> good sh d'"
  using assms
proof (induction ps arbitrary: d)
  case (Cons p ps)
  obtain d1 where d1: "act (\<lambda>t i. SendNoMoreInfo (of_nat t)) s p d = Some d1" "good sh d1"
    using SendNoMoreInfo_good [OF Cons.prems] Cons.prems by (cases "ti_heap s p") (force simp: act_def)+
  with Cons.IH [OF d1(2)] show ?case by auto
qed simp


section \<open>Time stamps\<close>

lemma sdiv_close: "\<bar>1000 * (x sdiv 1000) - x\<bar> < (1000 :: int)"
proof (cases "0 \<le> x")
  case True
  then have "x sdiv 1000 = x div 1000" by (simp add: signed_divide_int_def sgn_if)
  moreover have "1000 * (x div 1000) = x - x mod 1000" using minus_mod_eq_mult_div [of x 1000] by simp
  moreover have "0 \<le> x mod 1000" "x mod 1000 < 1000" by simp_all
  ultimately show ?thesis by linarith
next
  case False
  then have "x sdiv 1000 = - ((- x) div 1000)" by (simp add: signed_divide_int_def sgn_if)
  moreover have "1000 * ((- x) div 1000) = - x - (- x) mod 1000" using minus_mod_eq_mult_div [of "- x" 1000] by simp
  moreover have "0 \<le> (- x) mod 1000" "(- x) mod 1000 < 1000" by simp_all
  ultimately show ?thesis by linarith
qed

lemma sdiv_nonneg: "0 \<le> x \<Longrightarrow> 0 < y \<Longrightarrow> x sdiv y = x div (y :: int)"
  by (simp add: signed_divide_int_def sgn_if)

lemma smod_nonneg: "0 \<le> x \<Longrightarrow> 0 < y \<Longrightarrow> x smod y = x mod (y :: int)"
  by (cases "x = 0") (simp_all add: signed_modulo_int_def sgn_if)

lemma stamp_SetTime_exact:
  assumes "0 \<le> k_usec now" "k_usec now < 1000000" "0 \<le> ms"
  shows "tv_sec (stamp_SetTime now ms) * 1000000 + tv_nsec (stamp_SetTime now ms) sdiv 1000
    = k_sec now * 1000000 + k_usec now + 1000 * ms"
proof -
  define u where "u = k_usec now + ms mod 1000 * 1000"
  have m: "0 \<le> ms mod 1000" "ms mod 1000 < 1000" "1000 * (ms div 1000) = ms - ms mod 1000"
    using minus_mod_eq_mult_div [of ms 1000] by simp_all
  then have u: "0 \<le> u" "u < 2000000" using assms(1,2) unfolding u_def by linarith+
  have s: "stamp_SetTime now ms = (if u \<ge> 1000000 then \<lparr> tv_sec = k_sec now + ms div 1000 + 1, tv_nsec = (u mod 1000000) * 1000 \<rparr>
      else \<lparr> tv_sec = k_sec now + ms div 1000, tv_nsec = u * 1000 \<rparr>)"
  proof -
    have n: "ms sdiv 1000 = ms div 1000" "ms smod 1000 = ms mod 1000" "u smod 1000000 = u mod 1000000"
      using assms(3) u(1) by (simp_all only: sdiv_nonneg smod_nonneg zero_less_numeral)
    show ?thesis unfolding stamp_SetTime_def Let_def n(1,2) u_def [symmetric] n(3) by (rule refl)
  qed
  have d: "x * 1000 sdiv 1000 = x" if "0 \<le> x" for x :: int
    using sdiv_nonneg [of "x * 1000" 1000] that by simp
  show ?thesis
  proof (cases "u \<ge> 1000000")
    case True
    then have "(u - 1000000) mod 1000000 = u - 1000000" using u by (intro mod_pos_pos_trivial) simp_all
    then have "u mod 1000000 = u - 1000000" by simp
    with True have "tv_sec (stamp_SetTime now ms) = k_sec now + ms div 1000 + 1" "tv_nsec (stamp_SetTime now ms) sdiv 1000 = u - 1000000"
      using True d [of "u - 1000000"] unfolding s by simp_all
    then show ?thesis using m(3) unfolding u_def by linarith
  next
    case False
    then have "tv_sec (stamp_SetTime now ms) = k_sec now + ms div 1000" "tv_nsec (stamp_SetTime now ms) sdiv 1000 = u"
      using d [of u] u(1) unfolding s by simp_all
    then show ?thesis using m(3) unfolding u_def by linarith
  qed
qed

text \<open>
  The time that remains of a time stamp is within one millisecond of the exact one, as long as that fits in 32 bits.
\<close>

theorem stamp_exact:
  assumes now: "0 \<le> k_usec now" "k_usec now < 1000000" "0 \<le> ms"
    and exact: "exact = 1000 * ms - ((k_sec now' - k_sec now) * 1000000 + (k_usec now' - k_usec now))"
    and range: "\<bar>exact\<bar> < 1000 * (2 ^ 31 - 1)"
  shows "\<bar>1000 * stamp_TimeRemaining now' (stamp_SetTime now ms) - exact\<bar> < 1000"
proof -
  define st where "st = stamp_SetTime now ms"
  define x where "x = tv_nsec st sdiv 1000 - k_usec now'"
  define r where "r = (tv_sec st - k_sec now') * 1000 + x sdiv 1000"
  have "tv_sec st * 1000000 + tv_nsec st sdiv 1000 = k_sec now * 1000000 + k_usec now + 1000 * ms"
    unfolding st_def by (rule stamp_SetTime_exact [OF now])
  then have e: "exact = (tv_sec st - k_sec now') * 1000000 + x" unfolding exact x_def by (simp add: algebra_simps)
  have c: "\<bar>1000 * r - exact\<bar> < 1000"
    using sdiv_close [of x] unfolding e r_def by (simp add: algebra_simps)
  moreover have "\<bar>exact\<bar> < 2147483647000" using range by simp
  ultimately have "- 2147483648 \<le> r" "r < 2147483648" by linarith+
  then have "sint (of_int r :: 32 word) = r" by (simp add: signed_of_int signed_take_bit_int_eq_self)
  moreover have "stamp_TimeRemaining now' st = sint (of_int r :: 32 word)"
    by (simp only: stamp_TimeRemaining_def r_def x_def of_int_add)
  ultimately show ?thesis using c by (simp add: st_def)
qed

theorem stamp_exact_witness:
  "\<bar>1000 * stamp_TimeRemaining \<lparr> k_sec = 101, k_usec = 250 \<rparr> (stamp_SetTime \<lparr> k_sec = 100, k_usec = 999999 \<rparr> 250) - 249749\<bar> < 1000"
  using stamp_exact [of "\<lparr> k_sec = 100, k_usec = 999999 \<rparr>" 250 249749 "\<lparr> k_sec = 101, k_usec = 250 \<rparr>"] by simp

section \<open>An action that deletes the next one\<close>

text \<open>
  The iterator already stands at the next entry while an action runs, so an action must not delete that entry.
\<close>

lemma next_deleted_undefined:
  assumes "ti_list s = p # q # ps" "ti_heap s p = Some e" "expired s p"
    and "call (te_instance e) (te_id e) (s, w) = Some (s1, w1)" "ti_heap s1 q = None"
  shows "timer_pass call (s, w) = None"
proof -
  have "stamp_TimeRemaining (ti_now s) (te_timestamp e) \<le> 0" using assms(2,3) by (simp add: expired_def remaining_def)
  moreover have "ti_heap (Timer_TimerDelEvent (te_instance e) p s1) q = None"
    using assms(5) by (simp add: Timer_TimerDelEvent_def Thread_TimerDelEvent_def set_own_def Let_def)
  ultimately have "scan call (Some p) Timeout_Infinite (s, w) = None"
    using assms(1,2,4)
    by (subst scan.simps) (simp add: Timer_TimerFireEvent_def scan.simps [of call "Some q"])
  then show ?thesis by (simp add: timer_pass_def list_begin_def assms(1))
qed

section \<open>Example\<close>

text \<open>Two notices of node 5, after ten milliseconds and after five seconds, when one second has passed.\<close>

definition two_notices :: timers where
  "two_notices = (Timer_TimerSetEvent 5000 5 1 (Timer_TimerSetEvent 10 5 1 (Timer_SetDriver 5 True
     (timers_new \<lparr> k_sec = 0, k_usec = 0 \<rparr>))))\<lparr>ti_now := \<lparr> k_sec = 1, k_usec = 0 \<rparr>\<rparr>"

lemma two_notices_ok: "timers_ok two_notices"
proof -
  have "timers_ok (Timer_TimerSetEvent 5000 5 1 (Timer_TimerSetEvent 10 5 1 (Timer_SetDriver 5 True (timers_new c))))" for c
    by (intro Timer_TimerSetEvent_ok Timer_SetDriver_ok timers_new_ok)
  then show ?thesis by (simp add: two_notices_def timers_ok_def)
qed

lemma two_notices:
  "ti_list two_notices = [0, Suc 0]" "remaining two_notices 0 = - 990" "remaining two_notices (Suc 0) = 4000"
  by (simp_all add: two_notices_def Timer_TimerSetEvent_def Thread_TimerSetEvent_def set_own_def Timer_SetDriver_def timers_new_def
      remaining_def stamp_TimeRemaining_def stamp_SetTime_def signed_divide_int_def signed_modulo_int_def)


end
