(* ===== verification/Schedule_Class.thy ===== *)
theory Schedule_Class
  imports Value_Schedule
begin

text \<open>
  Climate schedules on the wire: \<open>ClimateControlSchedule.cpp\<close>, on the schedules of \<open>Value_Schedule\<close>.  The values of
  the class that exist are explicit; the messages sent are the bytes given to \<open>Append\<close>, for the first instance.  \<open>None\<close> is a read
  outside the frame.
\<close>

section \<open>State\<close>

record schedule_env =
  se_nodeId :: uint8
  se_transmitOptions :: uint8

record schedule_class =
  sc_changeCounter :: uint8
  sc_days :: "uint8 \<Rightarrow> value_schedule option"
  sc_overrideState :: "uint8 option"
  sc_overrideSetback :: "uint8 option"
  sc_out :: "bytes list"

abbreviation (input) CC_CLIMATE_CONTROL_SCHEDULE :: uint8 where "CC_CLIMATE_CONTROL_SCHEDULE \<equiv> 0x46"

definition schedule_send :: "schedule_env \<Rightarrow> bytes \<Rightarrow> schedule_class \<Rightarrow> schedule_class" where
  "schedule_send env bs c =
     c\<lparr>sc_out := sc_out c @ [[se_nodeId env, of_nat (length bs) + 1, CC_CLIMATE_CONTROL_SCHEDULE] @ bs @ [se_transmitOptions env]]\<rparr>"

section \<open>Setting a schedule\<close>

definition ClearSwitchPoints :: "value_schedule \<Rightarrow> value_schedule" where
  "ClearSwitchPoints s = s\<lparr>m_numSwitchPoints := 0\<rparr>"

definition point_bytes :: "value_schedule \<Rightarrow> uint8 \<Rightarrow> bytes" where
  "point_bytes s i = (case GetSwitchPoint i s of Some p \<Rightarrow> [m_hours p, m_minutes p, m_setback p] | None \<Rightarrow> [0, 0, 0x7f])"

definition schedule_bytes :: "value_schedule \<Rightarrow> bytes" where
  "schedule_bytes s = concat (map (\<lambda>i. point_bytes s (of_nat i)) [0..<9])"

text \<open>\<open>SetValue\<close> of the schedule of a day, and of an override.\<close>

definition Schedule_SetValue_day :: "schedule_env \<Rightarrow> uint8 \<Rightarrow> value_schedule \<Rightarrow> schedule_class \<Rightarrow> schedule_class" where
  "Schedule_SetValue_day env idx s = schedule_send env ([0x01, idx] @ schedule_bytes s)"

definition Schedule_SetValue_override :: "schedule_env \<Rightarrow> schedule_class \<Rightarrow> schedule_class" where
  "Schedule_SetValue_override env c =
     (case (sc_overrideState c, sc_overrideSetback c) of
        (Some st, Some sb) \<Rightarrow> schedule_send env [0x06, st, sb] c
      | _ \<Rightarrow> c)"

section \<open>Requests and reports\<close>

definition Schedule_RequestValue :: "schedule_env \<Rightarrow> schedule_class \<Rightarrow> schedule_class" where
  "Schedule_RequestValue env = schedule_send env [0x04]"

text \<open>The switch points from the indices given, until one is unused.\<close>

fun parse_points :: "bytes \<Rightarrow> nat list \<Rightarrow> value_schedule \<Rightarrow> value_schedule option" where
  "parse_points data [] s = Some s"
| "parse_points data (i # is) s = do {
     setback \<leftarrow> peek data (i + 2);
     if setback = 0x7f then Some s
     else do {
       h \<leftarrow> peek data i;
       m \<leftarrow> peek data (i + 1);
       parse_points data is (snd (SetSwitchPoint (h AND 0x1f) (m AND 0x3f) setback s))
     }
   }"

definition point_indices :: "nat list" where
  "point_indices = map (\<lambda>k. 2 + 3 * k) [0..<9]"

definition Schedule_report :: "bytes \<Rightarrow> schedule_class \<Rightarrow> schedule_class option" where
  "Schedule_report data c = do {
     b \<leftarrow> peek data 1;
     (case sc_days c (b AND 0x07) of
        None \<Rightarrow> Some c
      | Some s \<Rightarrow> map_option (\<lambda>s1. c\<lparr>sc_days := (sc_days c)(b AND 0x07 \<mapsto> s1)\<rparr>)
          (parse_points data point_indices (ClearSwitchPoints s)))
   }"

definition Schedule_changed :: "schedule_env \<Rightarrow> bytes \<Rightarrow> schedule_class \<Rightarrow> schedule_class option" where
  "Schedule_changed env data c = do {
     counter \<leftarrow> peek data 1;
     if counter \<noteq> 0 then
       (if counter \<noteq> sc_changeCounter c
        then Some (fold (\<lambda>day. schedule_send env [0x02, of_nat day]) [1..<8] (c\<lparr>sc_changeCounter := counter\<rparr>))
        else Some c)
     else Some (schedule_send env [0x07] c)
   }"

text \<open>The list of override states has the items 0, 1 and 2; a value that is no item is ignored.\<close>

definition Schedule_override :: "bytes \<Rightarrow> schedule_class \<Rightarrow> schedule_class option" where
  "Schedule_override data c = do {
     b \<leftarrow> peek data 1;
     setback \<leftarrow> peek data 2;
     Some (c\<lparr>sc_overrideState := (if b AND 0x03 = 0x03 then sc_overrideState c else map_option (\<lambda>_. b AND 0x03) (sc_overrideState c)),
             sc_overrideSetback := map_option (\<lambda>_. setback) (sc_overrideSetback c)\<rparr>)
   }"

definition Schedule_HandleMsg :: "schedule_env \<Rightarrow> bytes \<Rightarrow> schedule_class \<Rightarrow> (bool \<times> schedule_class) option" where
  "Schedule_HandleMsg env data c = do {
     cmd \<leftarrow> peek data 0;
     if cmd = 0x03 then map_option (Pair True) (Schedule_report data c)
     else if cmd = 0x05 then map_option (Pair True) (Schedule_changed env data c)
     else if cmd = 0x08 then map_option (Pair True) (Schedule_override data c)
     else Some (False, c)
   }"

section \<open>A schedule comes back as it was sent\<close>

lemma SetSwitchPoint_later:
  assumes "schedule_inv s" "length (points s) < 9" "\<forall>p \<in> set (points s). time_of p < hm h m"
  shows "points (snd (SetSwitchPoint h m sb s)) = points s @ [\<lparr>m_hours = h, m_minutes = m, m_setback = sb\<rparr>]"
  using assms(1)
proof (cases rule: SetSwitchPoint_points [of s h m sb])
  case (update as p bs)
  then show ?thesis using assms(3) by simp
next
  case full
  then show ?thesis using assms(2) by simp
next
  case (add as bs)
  have "bs = []"
  proof (rule ccontr)
    assume "bs \<noteq> []"
    then have "hd bs \<in> set bs" by simp
    then have "hm h m < time_of (hd bs)" "time_of (hd bs) < hm h m" using add(4) assms(3) add(1) by auto
    then show False by simp
  qed
  with add show ?thesis by simp
qed

text \<open>The schedules a message can hold: the hours have five bits, the minutes six, and one setback means unused.\<close>

definition wire_point :: "switch_point \<Rightarrow> bool" where
  "wire_point p \<longleftrightarrow> m_hours p AND 0x1f = m_hours p \<and> m_minutes p AND 0x3f = m_minutes p \<and> m_setback p \<noteq> 0x7f"

lemma GetSwitchPoint_points:
  assumes "schedule_inv s" "k < 9"
  shows "GetSwitchPoint (of_nat k) s = (if k < length (points s) then Some (points s ! k) else None)"
proof -
  have "unat (of_nat k :: uint8) = k" using assms(2) by (simp add: unat_of_nat take_bit_nat_eq_self)
  then show ?thesis
    using schedule_len [OF assms(1)] assms
    by (auto simp: GetSwitchPoint_def points_def peek_def schedule_inv_def word_le_nat_alt)
qed

lemma point_bytes_len: "length (point_bytes s i) = 3"
  by (simp add: point_bytes_def split: option.split)

lemma blocks_nth:
  assumes "\<And>x. length (f x) = 3" "k < n" "j < 3"
  shows "concat (map f [0..<n]) ! (3 * k + j) = f k ! j"
  using assms(2)
proof (induction n)
  case (Suc n)
  have l: "length (concat (map f [0..<n])) = 3 * n" using assms(1) by (induction n) simp_all
  show ?case
  proof (cases "k = n")
    case True
    then show ?thesis using l assms(1,3) by (simp add: nth_append)
  next
    case False
    then have "3 * k + j < 3 * n" using Suc.prems assms(3) by linarith
    then show ?thesis using Suc False l by (simp add: nth_append)
  qed
qed simp

lemma schedule_bytes_len: "length (schedule_bytes s) = 27"
  by (simp add: schedule_bytes_def length_concat o_def point_bytes_len sum_list_triv)

lemma frame_point:
  assumes "k < 9"
  shows "peek (cmd # day # schedule_bytes s) (2 + 3 * k) = Some (point_bytes s (of_nat k) ! 0)"
    "peek (cmd # day # schedule_bytes s) (2 + 3 * k + 1) = Some (point_bytes s (of_nat k) ! 1)"
    "peek (cmd # day # schedule_bytes s) (2 + 3 * k + 2) = Some (point_bytes s (of_nat k) ! 2)"
proof -
  have b: "schedule_bytes s ! (3 * k + j) = point_bytes s (of_nat k) ! j" if "j < 3" for j
    unfolding schedule_bytes_def using blocks_nth [of "\<lambda>i. point_bytes s (of_nat i)", OF point_bytes_len assms that] .
  show "peek (cmd # day # schedule_bytes s) (2 + 3 * k) = Some (point_bytes s (of_nat k) ! 0)"
    "peek (cmd # day # schedule_bytes s) (2 + 3 * k + 1) = Some (point_bytes s (of_nat k) ! 1)"
    "peek (cmd # day # schedule_bytes s) (2 + 3 * k + 2) = Some (point_bytes s (of_nat k) ! 2)"
    using b [of 0] b [of 1] b [of 2] assms by (simp_all add: peek_def schedule_bytes_len nth_Cons')
qed

lemma parse_points_from:
  assumes s: "schedule_inv s" "\<forall>p \<in> set (points s). wire_point p"
  shows "schedule_inv t \<Longrightarrow> k \<le> length (points s) \<Longrightarrow> points t = take k (points s) \<Longrightarrow>
    \<exists>t'. parse_points (cmd # day # schedule_bytes s) (map (\<lambda>k. 2 + 3 * k) [k..<9]) t = Some t' \<and>
      schedule_inv t' \<and> points t' = points s"
proof (induction "length (points s) - k" arbitrary: k t)
  case 0
  then have k: "k = length (points s)" by simp
  show ?case
  proof (cases "k < 9")
    case True
    then have "point_bytes s (of_nat k) = [0, 0, 0x7f]" using GetSwitchPoint_points [OF s(1) True] k by (simp add: point_bytes_def)
    then show ?thesis using True frame_point [OF True, of cmd day s] 0 k by (simp add: upt_conv_Cons)
  next
    case False
    then show ?thesis using 0 k by simp
  qed
next
  case (Suc n)
  then have k: "k < length (points s)" by simp
  then have k9: "k < 9" using schedule_len [OF s(1)] by linarith
  let ?p = "points s ! k"
  have w: "wire_point ?p" using s(2) k by simp
  have pb: "point_bytes s (of_nat k) = [m_hours ?p, m_minutes ?p, m_setback ?p]"
    using GetSwitchPoint_points [OF s(1) k9] k by (simp add: point_bytes_def)
  define t1 where "t1 = snd (SetSwitchPoint (m_hours ?p) (m_minutes ?p) (m_setback ?p) t)"
  have srt: "sorted_wrt (<) (map time_of (points s))" using s(1) by (simp add: schedule_inv_def)
  have "time_of p < hm (m_hours ?p) (m_minutes ?p)" if "p \<in> set (points t)" for p
  proof -
    note mem = that
    obtain i where "i < length (points t)" "points t ! i = p" using mem by (auto simp: in_set_conv_nth)
    then have "i < k" "p = points s ! i" using k by (simp_all add: Suc.prems(3))
    then have "time_of p < time_of ?p" using srt k by (auto simp: sorted_wrt_iff_nth_less)
    then show ?thesis by (simp add: time_of_def)
  qed
  then have "points t1 = points t @ [\<lparr>m_hours = m_hours ?p, m_minutes = m_minutes ?p, m_setback = m_setback ?p\<rparr>]"
    unfolding t1_def using Suc.prems k k9 by (intro SetSwitchPoint_later) auto
  then have t1: "points t1 = take (Suc k) (points s)" using k by (simp add: Suc.prems(3) take_Suc_conv_app_nth)
  have inv: "schedule_inv t1" unfolding t1_def by (rule SetSwitchPoint_inv(1) [OF Suc.prems(1)])
  have step: "parse_points (cmd # day # schedule_bytes s) (map (\<lambda>k. 2 + 3 * k) [k..<9]) t =
      parse_points (cmd # day # schedule_bytes s) (map (\<lambda>k. 2 + 3 * k) [Suc k..<9]) t1"
    using w frame_point [OF k9, of cmd day s] k9 by (simp add: upt_conv_Cons pb wire_point_def t1_def)
  show ?case unfolding step using Suc.hyps(1) [of "Suc k" t1] Suc.hyps(2) inv t1 k by simp
qed

text \<open>(C32)
  Setting a schedule sends one frame of the announced length; when the device reports the bytes that were sent to it, the
  schedule comes back unchanged, whatever the value held before, if its times fit in the bits they have on the wire and no setback is the one that
  marks an unused switch point.
\<close>

theorem schedule_wire_roundtrip:
  assumes "schedule_inv s" "\<forall>p \<in> set (points s). wire_point p"
    and "sc_days c (day AND 0x07) = Some old" "schedule_inv old"
  shows "sc_out (Schedule_SetValue_day env day s c) =
      sc_out c @ [[se_nodeId env, 30, 0x46, 0x01, day] @ schedule_bytes s @ [se_transmitOptions env]] \<and>
    (\<exists>c' s'. Schedule_HandleMsg env ([0x03, day] @ schedule_bytes s) c = Some (True, c') \<and>
      sc_days c' (day AND 0x07) = Some s' \<and> schedule_inv s' \<and> points s' = points s)"
proof -
  have clear: "schedule_inv (ClearSwitchPoints old)" "points (ClearSwitchPoints old) = take 0 (points s)"
    using assms(4) by (simp_all add: schedule_inv_def ClearSwitchPoints_def points_def)
  obtain s' where s': "parse_points (0x03 # day # schedule_bytes s) point_indices (ClearSwitchPoints old) = Some s'"
    "schedule_inv s'" "points s' = points s"
    using parse_points_from [OF assms(1,2) clear(1) _ clear(2), of "0x03" day] unfolding point_indices_def by auto
  then show ?thesis using assms(3)
    by (auto simp: Schedule_HandleMsg_def Schedule_report_def peek_def Schedule_SetValue_day_def schedule_send_def schedule_bytes_len)
qed

theorem schedule_wire_roundtrip_witness:
  "\<exists>c' s'. Schedule_HandleMsg \<lparr>se_nodeId = 5, se_transmitOptions = 0x25\<rparr>
     ([0x03, 2] @ schedule_bytes (snd (SetSwitchPoint 22 30 0x79 (snd (SetSwitchPoint 6 15 20 (ValueSchedule_new (replicate 9 \<lparr>m_hours = 0, m_minutes = 0, m_setback = 0\<rparr>)))))))
     \<lparr>sc_changeCounter = 0, sc_days = [2 \<mapsto> ValueSchedule_new (replicate 9 \<lparr>m_hours = 0, m_minutes = 0, m_setback = 0\<rparr>)],
       sc_overrideState = None, sc_overrideSetback = None, sc_out = []\<rparr> = Some (True, c') \<and>
     sc_days c' 2 = Some s' \<and>
     points s' = [\<lparr>m_hours = 6, m_minutes = 15, m_setback = 20\<rparr>, \<lparr>m_hours = 22, m_minutes = 30, m_setback = 0x79\<rparr>]"
proof -
  let ?e = "ValueSchedule_new (replicate 9 \<lparr>m_hours = 0, m_minutes = 0, m_setback = 0\<rparr>)"
  let ?s = "snd (SetSwitchPoint 22 30 0x79 (snd (SetSwitchPoint 6 15 20 ?e)))"
  have e: "schedule_inv ?e" by (simp add: schedule_inv_def ValueSchedule_new_def points_def)
  then have s: "schedule_inv ?s" by (intro SetSwitchPoint_inv(1))
  have p: "points ?s = [\<lparr>m_hours = 6, m_minutes = 15, m_setback = 20\<rparr>, \<lparr>m_hours = 22, m_minutes = 30, m_setback = 0x79\<rparr>]"
    by code_simp
  have w: "\<forall>p \<in> set (points ?s). wire_point p" unfolding p by (simp add: wire_point_def)
  let ?c = "\<lparr>sc_changeCounter = 0, sc_days = [2 \<mapsto> ?e], sc_overrideState = None, sc_overrideSetback = None, sc_out = []\<rparr>"
  have "sc_days ?c (2 AND 0x07) = Some ?e" by simp
  from schedule_wire_roundtrip [OF s w this e, of "\<lparr>se_nodeId = 5, se_transmitOptions = 0x25\<rparr>"] p
  show ?thesis by fastforce
qed

end
