(* ===== verification/Text_Parse.thy ===== *)
theory Text_Parse
  imports Options_Store
begin

text \<open>
  Texts taken apart: \<open>split\<close> and \<open>trim\<close> of \<open>Utils.cpp\<close>, and hexadecimal numbers read by the C library.  The bytes of a
  packet as they are printed (\<open>hex_list\<close>) are found again.
\<close>

section \<open>Taking a text apart\<close>

fun split_loop :: "string \<Rightarrow> bool \<Rightarrow> string \<Rightarrow> string \<Rightarrow> string list" where
  "split_loop separators remove_empty [] word = (if word \<noteq> [] \<or> \<not> remove_empty then [word] else [])"
| "split_loop separators remove_empty (c # cs) word =
     (if c \<notin> set separators then split_loop separators remove_empty cs (word @ [c])
      else (if word \<noteq> [] \<or> \<not> remove_empty then [word] else []) @ split_loop separators remove_empty cs [])"

definition split :: "string \<Rightarrow> string \<Rightarrow> bool \<Rightarrow> string list" where
  "split input separators remove_empty = split_loop separators remove_empty input []"

definition isgraph :: "char \<Rightarrow> bool" where
  "isgraph c \<longleftrightarrow> 33 \<le> (of_char c :: nat) \<and> (of_char c :: nat) \<le> 126"

definition ltrim :: "string \<Rightarrow> string" where
  "ltrim s = dropWhile (\<lambda>c. \<not> isgraph c) s"

definition rtrim :: "string \<Rightarrow> string" where
  "rtrim s = rev (dropWhile (\<lambda>c. \<not> isgraph c) (rev s))"

definition trim :: "string \<Rightarrow> string" where
  "trim s = ltrim (rtrim s)"

text \<open>
  \<open>sscanf(s, "%x", &n)\<close>: white space, a sign, \<open>0x\<close>, hexadecimal digits.  At the end of the text before anything was
  found it answers \<open>EOF\<close>, which is not 0; a number that does not fit is undefined.
\<close>

datatype scan_result = Scan_EOF | Scan_mismatch | Scan_overflow | Scan_number uint32

definition hex_value :: "char \<Rightarrow> nat option" where
  "hex_value c = (let n = (of_char c :: nat) in
     if 48 \<le> n \<and> n \<le> 57 then Some (n - 48)
     else if 97 \<le> n \<and> n \<le> 102 then Some (n - 87)
     else if 65 \<le> n \<and> n \<le> 70 then Some (n - 55) else None)"

fun hex_digits :: "nat \<Rightarrow> string \<Rightarrow> nat" where
  "hex_digits n [] = n"
| "hex_digits n (c # cs) = (case hex_value c of None \<Rightarrow> n | Some k \<Rightarrow> hex_digits (16 * n + k) cs)"

fun drop_0x :: "string \<Rightarrow> string" where
  "drop_0x (c # x # cs) = (if c = CHR ''0'' \<and> (x = CHR ''x'' \<or> x = CHR ''X'') then cs else c # x # cs)"
| "drop_0x cs = cs"

definition scan_hex :: "string \<Rightarrow> scan_result" where
  "scan_hex s =
     (case dropWhile is_space s of [] \<Rightarrow> Scan_EOF
      | c # cs \<Rightarrow>
          (case drop_0x (if c = CHR ''-'' \<or> c = CHR ''+'' then cs else c # cs) of [] \<Rightarrow> Scan_mismatch
           | d # ds \<Rightarrow>
               if hex_value d = None then Scan_mismatch
               else if 2 ^ 32 \<le> hex_digits 0 (d # ds) then Scan_overflow
               else Scan_number (if c = CHR ''-'' then - of_nat (hex_digits 0 (d # ds)) else of_nat (hex_digits 0 (d # ds)))))"

section \<open>Bytes that are printed are read back\<close>

text \<open>The last digit of each half of a byte, in the form the log prints them.\<close>

lemma hex_char_props:
  assumes "d < 16"
  shows "hex_value (hex_char d) = Some d" "isgraph (hex_char d)" "hex_char d \<noteq> CHR '',''"
proof -
  show v: "hex_value (hex_char d) = Some d" using assms by (simp add: hex_value_def hex_char_def)
  show "isgraph (hex_char d)" using assms by (simp add: isgraph_def hex_char_def)
  have "hex_value CHR '','' = None" by (simp add: hex_value_def)
  then show "hex_char d \<noteq> CHR '',''" using v by auto
qed

lemma unat_byte_less: "unat (b :: uint8) < 256"
proof -
  have "unat b < 2 ^ LENGTH(8)" by (rule unsigned_less)
  then show ?thesis by simp
qed

lemma hex_halves:
  "unat (b :: uint8) div 16 < 16" "unat b mod 16 < 16"
  using unat_byte_less [of b] by linarith+

lemma isgraph_0x: "isgraph CHR ''0''" "isgraph CHR ''x''" "\<not> isgraph CHR '' ''"
  by (simp_all add: isgraph_def)

text \<open>A word of the printed key, with the blank that is left in front of it.\<close>

lemma trim_hex_byte: "trim (replicate n CHR '' '' @ hex_byte b) = hex_byte b"
  using hex_char_props(2) [OF hex_halves(2) [of b]]
  by (induction n) (simp_all add: trim_def ltrim_def rtrim_def hex_byte_def isgraph_0x)

lemma scan_hex_byte: "scan_hex (hex_byte b) = Scan_number (ucast b)"
proof -
  note h = hex_char_props(1) [OF hex_halves(1) [of b]] hex_char_props(1) [OF hex_halves(2) [of b]]
  have sp: "\<not> is_space CHR ''0''" by (simp add: is_space_def)
  have n: "16 * (unat b div 16) + unat b mod 16 = unat b" by simp
  have "unat b < 2 ^ 32" by (rule order.strict_trans [OF unat_byte_less]) simp
  then show ?thesis using h sp n by (simp add: scan_hex_def hex_byte_def del: mult_div_mod_eq)
qed

lemma ucast_8_32_8: "ucast (ucast (b :: uint8) :: uint32) = b"
  by (rule bit_word_eqI) (simp add: bit_simps)

lemma split_word:
  assumes "\<forall>c \<in> set w. c \<noteq> CHR '',''"
  shows "split_loop '','' r (w @ rest) word = split_loop '','' r rest (word @ w)"
  using assms by (induction w arbitrary: word) simp_all

lemma hex_byte_no_comma: "\<forall>c \<in> set (hex_byte b). c \<noteq> CHR '',''"
  using hex_char_props(3) [OF hex_halves(1) [of b]] hex_char_props(3) [OF hex_halves(2) [of b]] by (simp add: hex_byte_def)

lemma split_hex_list:
  assumes "bs \<noteq> []"
  shows "split_loop '','' True (hex_list bs) word =
    (word @ hex_byte (hd bs)) # map (\<lambda>b. CHR '' '' # hex_byte b) (tl bs)"
  using assms
proof (induction bs arbitrary: word rule: hex_list.induct)
  case (2 b)
  have "split_loop '','' True (hex_byte b @ []) word = [word @ hex_byte b]"
    unfolding split_word [OF hex_byte_no_comma] by (simp add: hex_byte_def)
  then show ?case by simp
next
  case (3 b b' bs)
  have "split_loop '','' True (hex_byte b @ '', '' @ hex_list (b' # bs)) word =
      (word @ hex_byte b) # split_loop '','' True (hex_list (b' # bs)) '' ''"
    unfolding split_word [OF hex_byte_no_comma] by (simp add: hex_byte_def)
  then show ?case using "3.IH" [of "'' ''"] by simp
qed simp

end
