(* ===== verification/Network_Key.thy ===== *)
theory Network_Key
  imports Text_Parse Zw_Security Driver_State
begin

text \<open>
  The keys of the security layer (\<open>Driver.cpp\<close>): the network key as an option of the program, and the
  keys for encryption and authentication that follow from it.  A key set up in a context is the block cipher it gives; the context is \<open>None\<close> before.  A result \<open>None\<close> inside the
  pair is an exception (\<open>OZW_FATAL_ERROR\<close>), \<open>None\<close> outside it a value that was never assigned.
\<close>

section \<open>The network key\<close>

text \<open>The program options, the two static variables of \<open>GetNetworkKey\<close>, \<open>m_inclusionkeySet\<close>, and the two contexts.\<close>

record key_store =
  ks_options :: options
  ks_keybytes :: bytes
  ks_keySet :: bool
  ks_inclusion :: bool
  ks_AuthKey :: "block_cipher option"
  ks_EncryptKey :: "block_cipher option"

text \<open>The loop over the words of the option; \<open>False\<close>: a word could not be converted.\<close>

fun read_key :: "nat \<Rightarrow> string list \<Rightarrow> bytes \<Rightarrow> (bool \<times> bytes) option" where
  "read_key i [] key = Some (True, key)"
| "read_key i (w # ws) key =
     (case scan_hex (trim w) of
        Scan_mismatch \<Rightarrow> Some (False, key)
      | Scan_number n \<Rightarrow> read_key (i + 1) ws (key[i := ucast n])
      | _ \<Rightarrow> None)"

definition GetNetworkKey :: "key_store \<Rightarrow> (bytes option \<times> key_store) option" where
  "GetNetworkKey s =
     (if ks_keySet s then Some (Some (ks_keybytes s), s)
      else
        let text = (case GetOptionAsString ''NetworkKey'' (ks_options s) of None \<Rightarrow> [] | Some t \<Rightarrow> t);
            elems = split text '','' True
        in if length elems \<noteq> 16 then Some (None, s)
           else do {
             (converted, key) \<leftarrow> read_key 0 elems (ks_keybytes s);
             if converted then Some (Some key, s\<lparr>ks_keybytes := key, ks_keySet := True\<rparr>)
             else Some (None, s\<lparr>ks_keybytes := key\<rparr>)
           })"

definition isNetworkKeySet :: "key_store \<Rightarrow> bool" where
  "isNetworkKeySet s = (case GetOptionAsString ''NetworkKey'' (ks_options s) of None \<Rightarrow> False | Some t \<Rightarrow> t \<noteq> [])"

section \<open>The keys in use\<close>

text \<open>The AES code: whether \<open>aes_init\<close> succeeds, and the cipher \<open>aes_encrypt_key128\<close> makes of a key, \<open>None\<close> when it fails.\<close>

record key_env =
  ke_init :: bool
  ke_schedule :: "bytes \<Rightarrow> block_cipher option"

text \<open>The end of \<open>initNetworkKeys\<close>, with the initial key in both contexts.\<close>

definition derive_keys :: "key_env \<Rightarrow> block_cipher \<Rightarrow> block_cipher \<Rightarrow> key_store \<Rightarrow> bool \<times> key_store" where
  "derive_keys env enc auth s =
     (case enc (replicate 16 0xAA) of None \<Rightarrow> (False, s)
      | Some tmpEncKey \<Rightarrow>
     (case auth (replicate 16 0x55) of None \<Rightarrow> (False, s)
      | Some tmpAuthKey \<Rightarrow>
     (case ke_schedule env tmpEncKey of None \<Rightarrow> (False, s)
      | Some e \<Rightarrow>
     (case ke_schedule env tmpAuthKey of None \<Rightarrow> (False, s\<lparr>ks_EncryptKey := Some e\<rparr>)
      | Some a \<Rightarrow> (True, s\<lparr>ks_EncryptKey := Some e, ks_AuthKey := Some a\<rparr>)))))"

definition initial_key :: "bool \<Rightarrow> key_store \<Rightarrow> (bytes option \<times> key_store) option" where
  "initial_key newnode s = (if newnode then Some (Some (replicate 16 0), s) else GetNetworkKey s)"

definition initNetworkKeys :: "key_env \<Rightarrow> bool \<Rightarrow> key_store \<Rightarrow> (bool option \<times> key_store) option" where
  "initNetworkKeys env newnode s =
     (let s0 = s\<lparr>ks_inclusion := newnode, ks_AuthKey := None, ks_EncryptKey := None\<rparr> in
      if \<not> isNetworkKeySet s0 \<or> \<not> ke_init env then Some (Some False, s0)
      else do {
        (k1, s1) \<leftarrow> initial_key newnode s0;
        (case k1 of None \<Rightarrow> Some (None, s1)
         | Some key1 \<Rightarrow>
             (case ke_schedule env key1 of None \<Rightarrow> Some (Some False, s1)
              | Some enc \<Rightarrow> do {
                  (k2, s2) \<leftarrow> initial_key newnode (s1\<lparr>ks_EncryptKey := Some enc\<rparr>);
                  (case k2 of None \<Rightarrow> Some (None, s2)
                   | Some key2 \<Rightarrow>
                       (case ke_schedule env key2 of None \<Rightarrow> Some (Some False, s2)
                        | Some auth \<Rightarrow> Some (apfst Some (derive_keys env enc auth (s2\<lparr>ks_AuthKey := Some auth\<rparr>)))))
                }))
      })"

text \<open>A device has just been added; \<open>None\<close> if the current command is deleted.\<close>

definition device_added :: "driver \<Rightarrow> bool option" where
  "device_added d =
     (case d_currentCmd d of None \<Rightarrow> Some False
      | Some a \<Rightarrow> map_option (\<lambda>c. cci_command c = ControllerCommand_AddDevice \<and> cci_state c = ControllerState_Completed) (d_ccis d a))"

definition renew_keys :: "key_env \<Rightarrow> driver \<Rightarrow> key_store \<Rightarrow> (bool option \<times> key_store) option" where
  "renew_keys env d s = do {
     added \<leftarrow> device_added d;
     if added then initNetworkKeys env True s
     else if ks_inclusion s then initNetworkKeys env False s
     else Some (Some True, s)
   }"

definition GetAuthKey :: "key_env \<Rightarrow> driver \<Rightarrow> key_store \<Rightarrow> (block_cipher option option \<times> key_store) option" where
  "GetAuthKey env d s = map_option (\<lambda>(r, s'). (map_option (\<lambda>_. ks_AuthKey s') r, s')) (renew_keys env d s)"

definition GetEncKey :: "key_env \<Rightarrow> driver \<Rightarrow> key_store \<Rightarrow> (block_cipher option option \<times> key_store) option" where
  "GetEncKey env d s = map_option (\<lambda>(r, s'). (map_option (\<lambda>_. ks_EncryptKey s') r, s')) (renew_keys env d s)"

text \<open>The keys before the constructor of the driver sets them up.\<close>

definition key_store_new :: "options \<Rightarrow> key_store" where
  "key_store_new os = \<lparr> ks_options = os, ks_keybytes = replicate 16 0, ks_keySet = False, ks_inclusion = False,
     ks_AuthKey = None, ks_EncryptKey = None \<rparr>"

section \<open>A key that is printed is read back\<close>

lemma read_key_printed:
  assumes "i + length bs \<le> length key" "\<And>w b. (w, b) \<in> set (zip ws bs) \<Longrightarrow> trim w = hex_byte b" "length ws = length bs"
  shows "read_key i ws key = Some (True, take i key @ bs @ drop (i + length bs) key)"
  using assms
proof (induction bs arbitrary: i ws key)
  case (Cons b bs)
  obtain w ws' where ws: "ws = w # ws'" using Cons.prems(3) by (cases ws) auto
  have w: "trim w = hex_byte b" using Cons.prems(2) ws by simp
  have "read_key (i + 1) ws' (key[i := b]) = Some (True, take (i + 1) (key[i := b]) @ bs @ drop (i + 1 + length bs) (key[i := b]))"
    using Cons.prems ws by (intro Cons.IH) auto
  moreover have "take (i + 1) (key[i := b]) = take i key @ [b]"
    using Cons.prems(1) by (simp add: take_Suc_conv_app_nth)
  moreover have "drop (i + 1 + length bs) (key[i := b]) = drop (i + 1 + length bs) key" by simp
  ultimately show ?case using ws w by (simp add: scan_hex_byte ucast_8_32_8)
qed simp

lemma GetNetworkKey_printed:
  assumes "GetOptionAsString ''NetworkKey'' (ks_options s) = Some (hex_list key)" "length key = 16"
    "\<not> ks_keySet s" "length (ks_keybytes s) = 16"
  shows "GetNetworkKey s = Some (Some key, s\<lparr>ks_keybytes := key, ks_keySet := True\<rparr>)"
proof -
  have ne: "key \<noteq> []" using assms(2) by auto
  let ?ws = "hex_byte (hd key) # map (\<lambda>b. CHR '' '' # hex_byte b) (tl key)"
  have ws: "split (hex_list key) '','' True = ?ws" using split_hex_list [OF ne, of "[]"] by (simp add: split_def)
  have zip: "zip ?ws key = (hex_byte (hd key), hd key) # zip (map (\<lambda>b. CHR '' '' # hex_byte b) (tl key)) (tl key)"
    using ne by (cases key) simp_all
  have "trim w = hex_byte b" if "(w, b) \<in> set (zip ?ws key)" for w b
    using that trim_hex_byte [of 0] trim_hex_byte [of 1] unfolding zip by (auto simp: in_set_zip)
  then have "read_key 0 ?ws (ks_keybytes s) = Some (True, take 0 (ks_keybytes s) @ key @ drop (0 + length key) (ks_keybytes s))"
    using assms ne by (intro read_key_printed) auto
  then show ?thesis using assms ws ne by (simp add: GetNetworkKey_def)
qed

text \<open>A word of blanks between two commas is taken for a number: the byte is never assigned.\<close>

lemma blank_key_word_undefined:
  assumes "GetOptionAsString ''NetworkKey'' (ks_options s) = Some t" "\<not> ks_keySet s"
    "split t '','' True = ws" "length ws = 16" "\<forall>c \<in> set (hd ws). \<not> isgraph c"
  shows "GetNetworkKey s = None"
proof -
  obtain w ws' where ws: "ws = w # ws'" using assms(4) by (cases ws) auto
  have "trim w = []" using assms(5) ws by (auto simp: trim_def ltrim_def rtrim_def dest: set_dropWhileD)
  then show ?thesis using assms ws by (simp add: GetNetworkKey_def scan_hex_def)
qed


section \<open>The right keys are in use\<close>

text \<open>The key that a master key gives for one purpose: the master key encrypts the text that stands for it.\<close>

definition session_key :: "key_env \<Rightarrow> uint8 \<Rightarrow> bytes \<Rightarrow> block_cipher option" where
  "session_key env purpose master = do {
     c \<leftarrow> ke_schedule env master;
     k \<leftarrow> c (replicate 16 purpose);
     ke_schedule env k
   }"

definition aes_works :: "key_env \<Rightarrow> bool" where
  "aes_works env \<longleftrightarrow> ke_init env \<and> (\<forall>k. length k = 16 \<longrightarrow> (\<exists>c. ke_schedule env k = Some c \<and> block16 c))"

text \<open>The option holds the key, and the static copy, once made, is the same.\<close>

definition key_known :: "bytes \<Rightarrow> key_store \<Rightarrow> bool" where
  "key_known key s \<longleftrightarrow> length key = 16 \<and> GetOptionAsString ''NetworkKey'' (ks_options s) = Some (hex_list key) \<and>
     length (ks_keybytes s) = 16 \<and> (ks_keySet s \<longrightarrow> ks_keybytes s = key)"

definition master_key :: "bytes \<Rightarrow> bool \<Rightarrow> bytes" where
  "master_key key inclusion = (if inclusion then replicate 16 0 else key)"

text \<open>The keys in the contexts fit the flag that says which they are.\<close>

definition keys_ready :: "key_env \<Rightarrow> bytes \<Rightarrow> key_store \<Rightarrow> bool" where
  "keys_ready env key s \<longleftrightarrow> key_known key s \<and>
     ks_EncryptKey s = session_key env 0xAA (master_key key (ks_inclusion s)) \<and>
     ks_AuthKey s = session_key env 0x55 (master_key key (ks_inclusion s))"

lemma initial_key_known:
  assumes "key_known key s"
  obtains s' where "initial_key newnode s = Some (Some (master_key key newnode), s')" "key_known key s'"
    "ks_inclusion s' = ks_inclusion s" "ks_AuthKey s' = ks_AuthKey s" "ks_EncryptKey s' = ks_EncryptKey s"
proof (cases "newnode \<or> ks_keySet s")
  case True
  have "initial_key newnode s = Some (Some (master_key key newnode), s)"
    using True assms by (auto simp: initial_key_def master_key_def GetNetworkKey_def key_known_def)
  then show thesis using that [of s] assms by simp
next
  case False
  then have "initial_key newnode s = Some (Some (master_key key newnode), s\<lparr>ks_keybytes := key, ks_keySet := True\<rparr>)"
    using assms GetNetworkKey_printed [of s key] by (simp add: initial_key_def master_key_def key_known_def)
  then show thesis using that assms by (simp add: key_known_def)
qed

lemma initNetworkKeys_ready:
  assumes "aes_works env" "key_known key s"
  obtains s' where "initNetworkKeys env newnode s = Some (Some True, s')" "keys_ready env key s'" "ks_inclusion s' = newnode"
proof -
  let ?m = "master_key key newnode"
  define s0 where "s0 = s\<lparr>ks_inclusion := newnode, ks_AuthKey := None, ks_EncryptKey := None\<rparr>"
  have "key \<noteq> []" using assms(2) by (auto simp: key_known_def)
  then have "hex_list key \<noteq> []" by (cases key rule: hex_list.cases) (simp_all add: hex_byte_def)
  then have set: "isNetworkKeySet s0" using assms(2) by (simp add: s0_def isNetworkKeySet_def key_known_def)
  have k0: "key_known key s0" using assms(2) by (simp add: s0_def key_known_def)
  obtain s1 where s1: "initial_key newnode s0 = Some (Some ?m, s1)" "key_known key s1" "ks_inclusion s1 = ks_inclusion s0"
    by (rule initial_key_known [OF k0])
  have m: "length ?m = 16" using assms(2) by (simp add: master_key_def key_known_def)
  obtain c where c: "ke_schedule env ?m = Some c" "block16 c" using assms(1) m by (auto simp: aes_works_def)
  obtain te ta where t: "c (replicate 16 0xAA) = Some te" "length te = 16" "c (replicate 16 0x55) = Some ta" "length ta = 16"
    using c(2) by (metis block16E)
  obtain e where e: "ke_schedule env te = Some e" using assms(1) t(2) by (auto simp: aes_works_def)
  obtain a where a: "ke_schedule env ta = Some a" using assms(1) t(4) by (auto simp: aes_works_def)
  define s3 where "s3 = s1\<lparr>ks_EncryptKey := Some c\<rparr>"
  have k3: "key_known key s3" using s1(2) by (simp add: s3_def key_known_def)
  obtain s2 where s2: "initial_key newnode s3 = Some (Some ?m, s2)" "key_known key s2" "ks_inclusion s2 = ks_inclusion s3"
    by (rule initial_key_known [OF k3])
  have incl: "ks_inclusion s2 = newnode" using s1(3) s2(3) by (simp add: s3_def s0_def)
  let ?s' = "s2\<lparr>ks_AuthKey := Some a, ks_EncryptKey := Some e\<rparr>"
  have "initNetworkKeys env newnode s = Some (Some True, ?s')"
    using set assms(1) s1(1) s2(1) c(1) t e a
    by (simp add: initNetworkKeys_def s0_def [symmetric] s3_def [symmetric] aes_works_def derive_keys_def Let_def)
  moreover have "keys_ready env key ?s'"
    using s2(2) incl c(1) t e a by (simp add: keys_ready_def key_known_def session_key_def)
  ultimately show thesis using that incl by simp
qed

lemma renew_keys_ready:
  assumes "aes_works env" "keys_ready env key s" "device_added d = Some added"
  obtains s' where "renew_keys env d s = Some (Some True, s')" "keys_ready env key s'" "ks_inclusion s' = added"
proof (cases "added \<or> ks_inclusion s")
  case True
  have "key_known key s" using assms(2) by (simp add: keys_ready_def)
  with initNetworkKeys_ready [OF assms(1)] obtain s' where
    "initNetworkKeys env added s = Some (Some True, s')" "keys_ready env key s'" "ks_inclusion s' = added" .
  then show thesis using that [of s'] True assms(3) by (cases added) (simp_all add: renew_keys_def)
next
  case False
  then show thesis using that [of s] assms by (simp add: renew_keys_def)
qed

text \<open>The keys asked for, one after the other: for authentication or for encryption, and the state of the driver then.\<close>

fun ask_keys :: "key_env \<Rightarrow> (bool \<times> driver) list \<Rightarrow> key_store \<Rightarrow> block_cipher option option list option" where
  "ask_keys env [] s = Some []"
| "ask_keys env ((auth, d) # rs) s = do {
     (k, s') \<leftarrow> (if auth then GetAuthKey env d s else GetEncKey env d s);
     ks \<leftarrow> ask_keys env rs s';
     Some (k # ks)
   }"

lemma ask_keys_ready:
  assumes "aes_works env" "keys_ready env key s" "\<forall>(auth, d) \<in> set rs. device_added d \<noteq> None"
  shows "ask_keys env rs s = Some (map (\<lambda>(auth, d).
    Some (session_key env (if auth then 0x55 else 0xAA) (master_key key (device_added d = Some True)))) rs)"
  using assms(2,3)
proof (induction rs arbitrary: s)
  case (Cons r rs)
  obtain auth d where r: "r = (auth, d)" by (cases r)
  obtain added where d: "device_added d = Some added" using Cons.prems(2) r by auto
  obtain s' where s': "renew_keys env d s = Some (Some True, s')" "keys_ready env key s'" "ks_inclusion s' = added"
    using renew_keys_ready [OF assms(1) Cons.prems(1) d] .
  have "ask_keys env rs s' = Some (map (\<lambda>(auth, d).
    Some (session_key env (if auth then 0x55 else 0xAA) (master_key key (device_added d = Some True)))) rs)"
    using Cons.prems(2) by (intro Cons.IH s'(2)) simp
  then show ?case using s' d r by (simp add: GetAuthKey_def GetEncKey_def keys_ready_def)
qed simp

text \<open>A cipher that works, and a driver that has just added a device.\<close>

definition xor_env :: key_env where
  "xor_env = \<lparr>ke_init = True, ke_schedule = \<lambda>k. Some (\<lambda>b. Some (xor_bytes (take 16 (k @ replicate 16 0)) (take 16 (b @ replicate 16 0))))\<rparr>"


definition added_driver :: driver where
  "added_driver = (snd (new_cci \<lparr>cci_state = ControllerState_Completed, cci_stateChanged = False, cci_done = False,
     cci_command = ControllerCommand_AddDevice, cci_callback = 0, cci_error = ControllerError_None, cci_context = 0,
     cci_highPower = False, cci_added = True, cci_node = 7, cci_arg = 0, cci_info = [], cci_infoLength = 0\<rparr>
     (Driver_new 10)))\<lparr>d_currentCmd := Some (d_nextCci (Driver_new 10))\<rparr>"

text \<open>(C35)
  The network key may be given as the log prints bytes.  Then, from the constructor of the driver on, every key that
  the security layer asks for is the one for its purpose: derived from the key of the inclusion while a device has
  just been added, and from the network key at any other time, in whatever order these times follow each other.
\<close>

theorem session_keys_exact:
  assumes "aes_works env" "length key = 16" "GetOptionAsString ''NetworkKey'' os = Some (hex_list key)"
    and "\<forall>(auth, d) \<in> set rs. device_added d \<noteq> None"
  shows "\<exists>s. initNetworkKeys env False (key_store_new os) = Some (Some True, s) \<and>
    ask_keys env rs s = Some (map (\<lambda>(auth, d).
      Some (session_key env (if auth then 0x55 else 0xAA) (if device_added d = Some True then replicate 16 0 else key))) rs)"
proof -
  have "key_known key (key_store_new os)" using assms(2,3) by (simp add: key_known_def key_store_new_def)
  with initNetworkKeys_ready [OF assms(1)] obtain s where
    s: "initNetworkKeys env False (key_store_new os) = Some (Some True, s)" "keys_ready env key s" .
  then show ?thesis using ask_keys_ready [OF assms(1) s(2) assms(4)] by (simp add: master_key_def)
qed


theorem session_keys_exact_witness:
  "\<exists>s. initNetworkKeys xor_env
     False (key_store_new (snd (AddOptionString ''NetworkKey'' (hex_list (replicate 16 0x2a)) False (Options_new [])))) = Some (Some True, s) \<and>
   ask_keys xor_env
     [(True, Driver_new 10), (False, added_driver), (False, Driver_new 10)] s =
   Some (map (\<lambda>(purpose, master). Some (session_key
     xor_env purpose master))
     [(0x55, replicate 16 0x2a), (0xAA, replicate 16 0), (0xAA, replicate 16 0x2a)])"
proof -
  let ?os = "snd (AddOptionString ''NetworkKey'' (hex_list (replicate 16 0x2a)) False (Options_new []))"
  have env: "aes_works xor_env" by (simp add: xor_env_def aes_works_def block16_def)
  have os: "GetOptionAsString ''NetworkKey'' ?os = Some (hex_list (replicate 16 0x2a))"
    by (simp add: GetOptionAsString_def Options_Find_def AddOptionString_def AddOption_def Options_new_def put_option_def)
  have d: "device_added (Driver_new 10) = Some False" "device_added added_driver = Some True"
    by (simp_all add: device_added_def Driver_new_def added_driver_def new_cci_def)
  have r: "\<forall>(auth, d) \<in> set [(True, Driver_new 10), (False, added_driver), (False, Driver_new 10)]. device_added d \<noteq> None"
    by (simp only: list.set prod.case d ball_simps) simp
  show ?thesis
    using session_keys_exact [OF env _ os r]
    by (simp add: d del: ask_keys.simps)
qed

end
