(* ===== verification/User_Codes.thy ===== *)
theory User_Codes
  imports Driver_State
begin

text \<open>
  The user codes of a lock: \<open>UserCode.cpp\<close>.  The values that exist are explicit; the messages sent and the values
  refreshed, for one instance, are recorded in order.  \<open>None\<close> is a read outside the frame, a copy of a negative number of bytes, or a
  value used as one of another class.
\<close>

section \<open>State\<close>

record user_env =
  ue_nodeId :: uint8
  ue_transmitOptions :: uint8
  ue_getSupported :: bool
  ue_exposeRaw :: bool
  ue_refreshAll :: "bool option"

datatype user_effect =
  Code_sent msg_queue bytes
| Code_text uint16 bytes
| Code_count uint16
| Code_rawIndex uint16
| Code_raw bytes

text \<open>\<open>uc_texts\<close> tells which indices have a text value; the values for the raw code exist when they were created.\<close>

record user_codes =
  uc_queryAll :: bool
  uc_currentCode :: uint16
  uc_codes :: "uint16 \<Rightarrow> (uint8 \<times> bytes) option"
  uc_refresh :: bool
  uc_count :: uint8
  uc_static :: bool
  uc_texts :: "uint16 \<Rightarrow> bool"
  uc_rawIndex :: "uint16 option"
  uc_hasRaw :: bool
  uc_effects :: "user_effect list"

abbreviation (input) UserCode_Refresh :: uint16 where "UserCode_Refresh \<equiv> 255"
abbreviation (input) UserCode_RemoveCode :: uint16 where "UserCode_RemoveCode \<equiv> 256"
abbreviation (input) UserCode_Count :: uint16 where "UserCode_Count \<equiv> 257"
abbreviation (input) UserCode_Available :: uint8 where "UserCode_Available \<equiv> 0"
abbreviation (input) UserCode_Occupied :: uint8 where "UserCode_Occupied \<equiv> 1"

definition UserCode_new :: "user_env \<Rightarrow> user_codes" where
  "UserCode_new env = \<lparr> uc_queryAll = False, uc_currentCode = 0, uc_codes = (\<lambda>_. None),
     uc_refresh = (case ue_refreshAll env of None \<Rightarrow> False | Some b \<Rightarrow> b), uc_count = 0, uc_static = True,
     uc_texts = (\<lambda>_. False), uc_rawIndex = None, uc_hasRaw = False, uc_effects = [] \<rparr>"

definition code_effect :: "user_effect \<Rightarrow> user_codes \<Rightarrow> user_codes" where
  "code_effect e c = c\<lparr>uc_effects := uc_effects c @ [e]\<rparr>"

definition code_send :: "user_env \<Rightarrow> bytes \<Rightarrow> msg_queue \<Rightarrow> user_codes \<Rightarrow> user_codes" where
  "code_send env bs q = code_effect (Code_sent q ([ue_nodeId env, of_nat (length bs) + 1, 0x63] @ bs @ [ue_transmitOptions env]))"

section \<open>Requests\<close>

definition UserCode_RequestValue :: "user_env \<Rightarrow> uint16 \<Rightarrow> uint8 \<Rightarrow> msg_queue \<Rightarrow> user_codes \<Rightarrow> bool \<times> user_codes" where
  "UserCode_RequestValue env idx inst q c =
     (if inst \<noteq> 1 \<or> \<not> ue_getSupported env then (False, c)
      else if idx = UserCode_Count then (True, code_send env [0x04] q c)
      else if idx = 0 \<or> ucast (uc_count c) < idx then (False, c)
      else (True, code_send env [0x02, ucast idx] q c))"

definition UserCode_RequestState :: "user_env \<Rightarrow> uint32 \<Rightarrow> uint8 \<Rightarrow> msg_queue \<Rightarrow> user_codes \<Rightarrow> bool \<times> user_codes" where
  "UserCode_RequestState env flags inst q c =
     (let (r1, c1) = (if flags AND 0x1 \<noteq> 0 \<and> uc_static c then UserCode_RequestValue env UserCode_Count inst q c else (False, c));
          (r2, c2) = (if flags AND 0x2 \<noteq> 0 \<and> 0 < uc_count c1
                      then UserCode_RequestValue env 1 inst q (c1\<lparr>uc_queryAll := True, uc_currentCode := 1\<rparr>)
                      else (False, c1))
      in (r1 \<or> r2, c2))"

section \<open>Reports\<close>

text \<open>
  The number of codes: values and empty codes for them.  The value of index 255 is the button that
  refreshes the codes, so no text value is made for that code.
\<close>

definition UserCode_number_report :: "user_env \<Rightarrow> bytes \<Rightarrow> user_codes \<Rightarrow> user_codes option" where
  "UserCode_number_report env data c = do {
     n \<leftarrow> peek data 1;
     Some ((code_effect (Code_count (ucast n)) c)\<lparr>uc_count := n, uc_static := False,
       uc_texts := (\<lambda>i. uc_texts c i \<or> (i \<le> ucast n \<and> i \<noteq> UserCode_Refresh)),
       uc_codes := (\<lambda>i. if i \<le> ucast n then Some (UserCode_Available, replicate 10 0) else uc_codes c i),
       uc_rawIndex := (if ue_exposeRaw env \<and> uc_rawIndex c = None then Some 0 else uc_rawIndex c),
       uc_hasRaw := (uc_hasRaw c \<or> ue_exposeRaw env)\<rparr>)
   }"

text \<open>\<open>int8 size = _length - 4\<close>, at most 10; a negative size is a huge one for \<open>memcpy\<close>.\<close>

definition code_size :: "uint32 \<Rightarrow> nat option" where
  "code_size len =
     (let size = sint (ucast (len - 4) :: uint8)
      in if size < 0 then None else Some (if 10 < size then 10 else nat size))"

definition bytes_from :: "bytes \<Rightarrow> nat \<Rightarrow> nat \<Rightarrow> bytes option" where
  "bytes_from data i n = (if i + n \<le> length data then Some (take n (drop i data)) else None)"

definition code_text :: "uint16 \<Rightarrow> bytes \<Rightarrow> user_codes \<Rightarrow> user_codes option" where
  "code_text i text c =
     (if i = UserCode_Refresh then None
      else if uc_texts c i then Some (code_effect (Code_text i text) c) else Some c)"

definition code_raw :: "user_env \<Rightarrow> uint16 \<Rightarrow> bytes \<Rightarrow> uint32 \<Rightarrow> user_codes \<Rightarrow> user_codes option" where
  "code_raw env i data len c =
     (if \<not> ue_exposeRaw env then Some c
      else do {
        let c1 = (case uc_rawIndex c of None \<Rightarrow> c | Some _ \<Rightarrow> (code_effect (Code_rawIndex i) c)\<lparr>uc_rawIndex := Some i\<rparr>);
        if uc_hasRaw c1 then do {
          raw \<leftarrow> bytes_from data 3 (unat (ucast (len - 4) :: uint8));
          Some (code_effect (Code_raw raw) c1)
        }
        else Some c1
      })"

text \<open>The next code of the walk is asked for, or the walk ends.\<close>

definition code_walk :: "user_env \<Rightarrow> uint16 \<Rightarrow> uint8 \<Rightarrow> uint8 \<Rightarrow> user_codes \<Rightarrow> user_codes" where
  "code_walk env i status inst c =
     (if \<not> (uc_queryAll c \<and> i = uc_currentCode c) then c
      else if uc_refresh c \<or> status \<noteq> UserCode_Available then
        (if i + 1 \<le> ucast (uc_count c)
         then snd (UserCode_RequestValue env (i + 1) inst MsgQueue_Query (c\<lparr>uc_currentCode := i + 1\<rparr>))
         else c\<lparr>uc_queryAll := False,
                uc_refresh := (case ue_refreshAll env of None \<Rightarrow> uc_refresh c | Some b \<Rightarrow> b)\<rparr>)
      else c\<lparr>uc_queryAll := False\<rparr>)"

definition UserCode_report :: "user_env \<Rightarrow> bytes \<Rightarrow> uint32 \<Rightarrow> uint8 \<Rightarrow> user_codes \<Rightarrow> user_codes option" where
  "UserCode_report env data len inst c = do {
     b \<leftarrow> peek data 1;
     let i = ucast b;
     status \<leftarrow> peek data 2;
     size \<leftarrow> code_size len;
     text \<leftarrow> bytes_from data 3 size;
     let old = (case uc_codes c i of None \<Rightarrow> replicate 10 0 | Some (_, t) \<Rightarrow> t);
     c1 \<leftarrow> code_text i text (c\<lparr>uc_codes := (uc_codes c)(i \<mapsto> (status, text @ drop size old))\<rparr>);
     c2 \<leftarrow> code_raw env i data len c1;
     Some (code_walk env i status inst c2)
   }"

definition UserCode_HandleMsg :: "user_env \<Rightarrow> bytes \<Rightarrow> uint32 \<Rightarrow> uint8 \<Rightarrow> user_codes \<Rightarrow> (bool \<times> user_codes) option" where
  "UserCode_HandleMsg env data len inst c = do {
     cmd \<leftarrow> peek data 0;
     if cmd = 0x05 then map_option (Pair True) (UserCode_number_report env data c)
     else if cmd = 0x03 then map_option (Pair True) (UserCode_report env data len inst c)
     else Some (False, c)
   }"

section \<open>Setting values\<close>

text \<open>The values of the class that can be set, by their index.\<close>

datatype user_value =
  Text_value uint16 bytes
| Button_value uint16
| Short_value uint16 uint16
| Raw_value bytes

definition UserCode_SetValue :: "user_env \<Rightarrow> uint8 \<Rightarrow> user_value \<Rightarrow> user_codes \<Rightarrow> bool \<times> user_codes" where
  "UserCode_SetValue env inst v c =
     (case v of
        Text_value idx s \<Rightarrow>
          (if \<not> idx < UserCode_Refresh \<or> length s < 4 \<or> 10 < length s \<or> idx = 0 \<or> ucast (uc_count c) < idx then (False, c)
           else (True, code_send env ([0x01, ucast idx, UserCode_Occupied] @ s) MsgQueue_Send c))
      | Button_value idx \<Rightarrow>
          (if idx = UserCode_Refresh
           then (True, snd (UserCode_RequestValue env 1 inst MsgQueue_Query
                  (c\<lparr>uc_refresh := True, uc_currentCode := 1, uc_queryAll := True\<rparr>)))
           else (False, c))
      | Short_value idx x \<Rightarrow>
          (if idx = UserCode_RemoveCode then
             (let i = ucast x :: uint8 in
              if i = 0 \<or> uc_count c < i then (False, c)
              else (False, snd (UserCode_RequestValue env (ucast i) inst MsgQueue_Send
                     (code_send env [0x01, i, UserCode_Available, 0, 0, 0, 0] MsgQueue_Send c))))
           else if idx = 259 then
             (if x = 0 \<or> ucast (uc_count c) < x then (False, c)
              else if uc_hasRaw c then
                (let code = (case uc_codes c x of None \<Rightarrow> replicate 10 0 | Some (_, t) \<Rightarrow> t)
                 in (False, code_effect (Code_raw code) (c\<lparr>uc_codes := (uc_codes c)(x \<mapsto> (case uc_codes c x of None \<Rightarrow> (0, code) | Some e \<Rightarrow> e))\<rparr>)))
              else (False, c))
           else (False, c))
      | Raw_value s \<Rightarrow>
          (let idx = (case uc_rawIndex c of None \<Rightarrow> 0 | Some i \<Rightarrow> i) in
           if idx = 0 \<or> ucast (uc_count c) < idx then (False, c)
           else (False, snd (UserCode_RequestValue env idx inst MsgQueue_Send
                  (code_send env ([0x01, ucast idx, UserCode_Occupied] @ s) MsgQueue_Send c)))))"

section \<open>The walk over the codes\<close>

text \<open>A device that has a status and a code for every number, and its report on one.\<close>

definition code_reply :: "(uint8 \<Rightarrow> uint8 \<times> bytes) \<Rightarrow> uint8 \<Rightarrow> bytes" where
  "code_reply f i = [0x03, i, fst (f i)] @ snd (f i)"

definition code_asked :: "user_env \<Rightarrow> uint8 \<Rightarrow> bytes" where
  "code_asked env i = [ue_nodeId env, 3, 0x63, 0x02, i, ue_transmitOptions env]"

text \<open>The reports on the codes from the numbers given, one after the other.\<close>

fun code_reports :: "user_env \<Rightarrow> (uint8 \<Rightarrow> uint8 \<times> bytes) \<Rightarrow> nat list \<Rightarrow> user_codes \<Rightarrow> user_codes option" where
  "code_reports env f [] c = Some c"
| "code_reports env f (k # ks) c = do {
     let data = code_reply f (of_nat k);
     (_, c') \<leftarrow> UserCode_HandleMsg env data (of_nat (length data) + 1) 1 c;
     code_reports env f ks c'
   }"

text \<open>The queries among the effects.\<close>

definition code_queries :: "user_codes \<Rightarrow> (msg_queue \<times> bytes) list" where
  "code_queries c = concat (map (\<lambda>e. case e of Code_sent q b \<Rightarrow> [(q, b)] | _ \<Rightarrow> []) (uc_effects c))"

definition code_device :: "(uint8 \<Rightarrow> uint8 \<times> bytes) \<Rightarrow> bool" where
  "code_device f \<longleftrightarrow> (\<forall>i. length (snd (f i)) \<le> 10)"

lemma code_queries_effect:
  "code_queries (code_effect e c) = code_queries c @ (case e of Code_sent q b \<Rightarrow> [(q, b)] | _ \<Rightarrow> [])"
  by (simp add: code_queries_def code_effect_def)

lemma code_effect_fields [simp]:
  "uc_queryAll (code_effect e c) = uc_queryAll c" "uc_currentCode (code_effect e c) = uc_currentCode c"
  "uc_refresh (code_effect e c) = uc_refresh c" "uc_count (code_effect e c) = uc_count c"
  "uc_rawIndex (code_effect e c) = uc_rawIndex c" "uc_hasRaw (code_effect e c) = uc_hasRaw c"
  by (simp_all add: code_effect_def)

lemma code_queries_update [simp]:
  "code_queries (c\<lparr>uc_codes := x1\<rparr>) = code_queries c" "code_queries (c\<lparr>uc_rawIndex := x2\<rparr>) = code_queries c"
  "code_queries (c\<lparr>uc_queryAll := x3\<rparr>) = code_queries c" "code_queries (c\<lparr>uc_refresh := x4\<rparr>) = code_queries c"
  "code_queries (c\<lparr>uc_currentCode := x5\<rparr>) = code_queries c"
  by (simp_all add: code_queries_def)

text \<open>What a walk depends on: the three variables, the count, and what was asked.\<close>

definition walk_view :: "user_codes \<Rightarrow> bool \<times> uint16 \<times> bool \<times> uint8 \<times> (msg_queue \<times> bytes) list" where
  "walk_view c = (uc_queryAll c, uc_currentCode c, uc_refresh c, uc_count c, code_queries c)"

lemma code_text_view:
  assumes "i \<noteq> UserCode_Refresh"
  obtains c' where "code_text i t c = Some c'" "walk_view c' = walk_view c"
  using assms that by (cases "uc_texts c i") (auto simp: code_text_def walk_view_def code_queries_effect)

lemma code_raw_view:
  assumes "3 + unat (ucast (len - 4) :: uint8) \<le> length data"
  obtains c' where "code_raw env i data len c = Some c'" "walk_view c' = walk_view c"
  using assms that
  by (cases "ue_exposeRaw env"; cases "uc_rawIndex c"; cases "uc_hasRaw c")
    (auto simp: code_raw_def walk_view_def code_queries_effect bytes_from_def Let_def)

lemma reply_lengths:
  assumes "length t \<le> 10"
  shows "code_size (of_nat (length t + 3) + 1) = Some (length t)"
    "unat (ucast (of_nat (length t + 3) + 1 - 4 :: uint32) :: uint8) = length t"
proof -
  have e: "of_nat (length t + 3) + 1 - 4 = (of_nat (length t) :: uint32)" by simp
  have u: "ucast (of_nat (length t) :: uint32) = (of_nat (length t) :: uint8)"
    using assms by (simp add: unsigned_of_nat take_bit_nat_eq_self)
  have s: "sint (of_nat (length t) :: uint8) = int (length t)"
    using assms by (simp add: signed_of_nat signed_take_bit_int_eq_self)
  show "code_size (of_nat (length t + 3) + 1) = Some (length t)"
    unfolding code_size_def e u s using assms by simp
  show "unat (ucast (of_nat (length t + 3) + 1 - 4 :: uint32) :: uint8) = length t"
    unfolding e u using assms by (simp add: unat_of_nat take_bit_nat_eq_self)
qed

lemma code_report_view:
  assumes "code_device f" "i \<noteq> 255"
  obtains c' c'' where "UserCode_HandleMsg env (code_reply f i) (of_nat (length (code_reply f i)) + 1) 1 c = Some (True, c'')"
    "c'' = code_walk env (ucast i) (fst (f i)) 1 c'" "walk_view c' = walk_view c"
proof -
  let ?t = "snd (f i)"
  have t: "length ?t \<le> 10" using assms(1) by (simp add: code_device_def)
  have len: "length (code_reply f i) = length ?t + 3" by (simp add: code_reply_def)
  have i: "ucast i \<noteq> UserCode_Refresh"
  proof
    assume "ucast i = UserCode_Refresh"
    then have "unat (ucast i :: uint16) = 255" by simp
    then show False using assms(2) by (simp add: word_unat_eq_iff)
  qed
  have pk: "peek (code_reply f i) 0 = Some 3" "peek (code_reply f i) 1 = Some i" "peek (code_reply f i) 2 = Some (fst (f i))"
    "bytes_from (code_reply f i) 3 (length ?t) = Some ?t"
    by (simp_all add: code_reply_def peek_def bytes_from_def)
  define c1 where "c1 = c\<lparr>uc_codes := (uc_codes c)(ucast i \<mapsto> (fst (f i),
    ?t @ drop (length ?t) (case uc_codes c (ucast i) of None \<Rightarrow> replicate 10 0 | Some (_, t) \<Rightarrow> t)))\<rparr>"
  obtain c2 where c2: "code_text (ucast i) ?t c1 = Some c2" "walk_view c2 = walk_view c1" by (rule code_text_view [OF i])
  have "3 + unat (ucast (of_nat (length ?t + 3) + 1 - 4 :: uint32) :: uint8) \<le> length (code_reply f i)"
    unfolding reply_lengths(2) [OF t] len by simp
  then obtain c3 where c3: "code_raw env (ucast i) (code_reply f i) (of_nat (length ?t + 3) + 1) c2 = Some c3" "walk_view c3 = walk_view c2"
    by (rule code_raw_view)
  have v: "walk_view c1 = walk_view c" by (simp add: c1_def walk_view_def)
  have "UserCode_HandleMsg env (code_reply f i) (of_nat (length ?t + 3) + 1) 1 c = Some (True, code_walk env (ucast i) (fst (f i)) 1 c3)"
    unfolding UserCode_HandleMsg_def UserCode_report_def Let_def pk reply_lengths(1) [OF t]
    using pk reply_lengths(1) [OF t] c2(1) c3(1) by (simp add: c1_def)
  then show thesis using that c2(2) c3(2) v unfolding len by metis
qed


text \<open>Where a walk that has reached code \<open>i\<close> of \<open>n\<close> ends: at the first code that is available, unless all are refreshed.\<close>

function code_walk_end :: "bool \<Rightarrow> (uint8 \<Rightarrow> uint8 \<times> bytes) \<Rightarrow> nat \<Rightarrow> nat \<Rightarrow> nat" where
  "code_walk_end refresh f n i =
     (if i < n \<and> (refresh \<or> fst (f (of_nat i)) \<noteq> UserCode_Available) then code_walk_end refresh f n (i + 1) else i)"
  by pat_completeness auto
termination
  by (relation "measure (\<lambda>(refresh, f, n, i). n - i)") auto

declare code_walk_end.simps [simp del]

lemma code_walk_end_bounds: "i \<le> n \<Longrightarrow> i \<le> code_walk_end refresh f n i \<and> code_walk_end refresh f n i \<le> n"
proof (induction refresh f n i rule: code_walk_end.induct)
  case (1 refresh f n i)
  then show ?case using code_walk_end.simps [of refresh f n i] by (cases "i < n") auto
qed

lemma code_number:
  assumes "k < 256"
  shows "ucast (of_nat k :: uint8) = (of_nat k :: uint16)" "unat (of_nat k :: uint16) = k" "unat (of_nat k :: uint8) = k"
    "ucast (of_nat k :: uint16) = (of_nat k :: uint8)"
  using assms by (simp_all add: unsigned_of_nat unat_of_nat take_bit_nat_eq_self)

lemma code_ask: "code_send env [0x02, x] q c = code_effect (Code_sent q (code_asked env x)) c"
  by (simp add: code_send_def code_asked_def)

text \<open>One report in the walk: the next code is asked for, or the walk is over.\<close>

lemma code_report_step:
  assumes "code_device f" "ue_getSupported env" "n < 255" "1 \<le> i" "i \<le> n"
    and view: "walk_view c = (True, of_nat i, refresh, of_nat n, qs)"
  obtains c1 where "UserCode_HandleMsg env (code_reply f (of_nat i)) (of_nat (length (code_reply f (of_nat i))) + 1) 1 c = Some (True, c1)"
    "i < n \<and> (refresh \<or> fst (f (of_nat i)) \<noteq> UserCode_Available) \<Longrightarrow>
      walk_view c1 = (True, of_nat (i + 1), refresh, of_nat n, qs @ [(MsgQueue_Query, code_asked env (of_nat (i + 1)))])"
    "\<not> (i < n \<and> (refresh \<or> fst (f (of_nat i)) \<noteq> UserCode_Available)) \<Longrightarrow> \<not> uc_queryAll c1 \<and> code_queries c1 = qs"
proof -
  have i: "i < 256" "i + 1 < 256" "n < 256" using assms(3,5) by simp_all
  note num = code_number [OF i(1)] code_number [OF i(2)] code_number [OF i(3)]
  have "of_nat i \<noteq> (255 :: uint8)" using num(3) assms(3,5) by (auto simp: word_unat_eq_iff)
  then obtain c' c1 where h: "UserCode_HandleMsg env (code_reply f (of_nat i)) (of_nat (length (code_reply f (of_nat i))) + 1) 1 c = Some (True, c1)"
    and w: "c1 = code_walk env (ucast (of_nat i :: uint8)) (fst (f (of_nat i))) 1 c'" "walk_view c' = walk_view c"
    by (rule code_report_view [OF assms(1)])
  have v: "uc_queryAll c'" "uc_currentCode c' = of_nat i" "uc_refresh c' = refresh" "uc_count c' = of_nat n" "code_queries c' = qs"
    using w(2) view by (simp_all add: walk_view_def)
  have suc: "(of_nat i :: uint16) + 1 = of_nat (i + 1)" by simp
  have le: "(of_nat (i + 1) :: uint16) \<le> of_nat n \<longleftrightarrow> i < n"
    using num by (simp add: word_le_nat_alt Suc_le_eq del: of_nat_Suc)
  have other: "(of_nat (i + 1) :: uint16) \<noteq> 257" "(of_nat (i + 1) :: uint16) \<noteq> 0" "\<not> (of_nat n :: uint16) < of_nat (i + 1) \<longleftrightarrow> i < n"
    using num i by (auto simp: word_unat_eq_iff word_less_nat_alt simp del: of_nat_Suc of_nat_add)
  show thesis
  proof (rule that [OF h])
    assume go: "i < n \<and> (refresh \<or> fst (f (of_nat i)) \<noteq> UserCode_Available)"
    then have "c1 = code_effect (Code_sent MsgQueue_Query (code_asked env (of_nat (i + 1)))) (c'\<lparr>uc_currentCode := of_nat (i + 1)\<rparr>)"
      unfolding w(1) code_walk_def num(1) suc v using le other num assms(2)
      by (simp add: UserCode_RequestValue_def code_ask v num del: of_nat_Suc of_nat_add)
    then show "walk_view c1 = (True, of_nat (i + 1), refresh, of_nat n, qs @ [(MsgQueue_Query, code_asked env (of_nat (i + 1)))])"
      using v by (simp add: walk_view_def code_queries_effect)
  next
    assume "\<not> (i < n \<and> (refresh \<or> fst (f (of_nat i)) \<noteq> UserCode_Available))"
    then show "\<not> uc_queryAll c1 \<and> code_queries c1 = qs"
      unfolding w(1) code_walk_def num(1) suc v using le v num by (auto simp del: of_nat_Suc of_nat_add)
  qed
qed

lemma code_reports_walk:
  assumes "code_device f" "ue_getSupported env" "n < 255" "1 \<le> i" "i \<le> n"
    and "walk_view c = (True, of_nat i, refresh, of_nat n, qs)"
  shows "\<exists>c'. code_reports env f [i..<code_walk_end refresh f n i + 1] c = Some c' \<and> \<not> uc_queryAll c' \<and>
    code_queries c' = qs @ map (\<lambda>k. (MsgQueue_Query, code_asked env (of_nat k))) [i + 1..<code_walk_end refresh f n i + 1]"
  using assms
proof (induction refresh f n i arbitrary: c qs rule: code_walk_end.induct)
  case (1 refresh f n i)
  note step = code_report_step [OF "1.prems"]
  note e = code_walk_end.simps [of refresh f n i]
  let ?e = "code_walk_end refresh f n i"
  have le: "i \<le> ?e" using code_walk_end_bounds [OF "1.prems"(5)] by blast
  obtain c1 where h: "UserCode_HandleMsg env (code_reply f (of_nat i)) (of_nat (length (code_reply f (of_nat i))) + 1) 1 c = Some (True, c1)"
    and go: "i < n \<and> (refresh \<or> fst (f (of_nat i)) \<noteq> UserCode_Available) \<Longrightarrow>
      walk_view c1 = (True, of_nat (i + 1), refresh, of_nat n, qs @ [(MsgQueue_Query, code_asked env (of_nat (i + 1)))])"
    and stop: "\<not> (i < n \<and> (refresh \<or> fst (f (of_nat i)) \<noteq> UserCode_Available)) \<Longrightarrow> \<not> uc_queryAll c1 \<and> code_queries c1 = qs"
    by (rule step) (rule that, blast+)
  have first: "code_reports env f [i..<?e + 1] c = code_reports env f [i + 1..<?e + 1] c1"
    using le h by (simp add: upt_conv_Cons Let_def del: upt_Suc)
  show ?case
  proof (cases "i < n \<and> (refresh \<or> fst (f (of_nat i)) \<noteq> UserCode_Available)")
    case True
    then have e': "?e = code_walk_end refresh f n (i + 1)" using e by simp
    have "i + 1 \<le> ?e" using code_walk_end_bounds [of "i + 1" n refresh f] True e' by simp
    then have "[i + 1..<?e + 1] = (i + 1) # [i + 1 + 1..<?e + 1]" by (simp add: upt_conv_Cons del: upt_Suc)
    moreover have "\<exists>c'. code_reports env f [i + 1..<?e + 1] c1 = Some c' \<and> \<not> uc_queryAll c' \<and>
      code_queries c' = (qs @ [(MsgQueue_Query, code_asked env (of_nat (i + 1)))]) @
        map (\<lambda>k. (MsgQueue_Query, code_asked env (of_nat k))) [i + 1 + 1..<?e + 1]"
      unfolding e' using True "1.prems" by (intro "1.IH" go) simp_all
    ultimately show ?thesis unfolding first by (simp del: upt_Suc)
  next
    case False
    then have "?e = i" using e by (simp only: if_False)
    then show ?thesis unfolding first using stop [OF False] by simp
  qed
qed

text \<open>A lock that has told it has twenty codes.\<close>

definition lock_codes :: user_codes where
  "lock_codes = (UserCode_new \<lparr>ue_nodeId = 9, ue_transmitOptions = 0x25, ue_getSupported = True, ue_exposeRaw = True, ue_refreshAll = None\<rparr>)
     \<lparr>uc_count := 20, uc_static := False\<rparr>"

text \<open>(C40)
  When a session starts, the codes of a lock are asked for in order from the first, each after the report on the one before,
  up to the first that is available, or to the last when all are to be refreshed; then nothing more is asked for.
\<close>

theorem code_walk_exact:
  assumes "code_device f" "ue_getSupported env" "uc_count c = of_nat n" "1 \<le> n" "n < 255" "flags AND 0x2 \<noteq> 0" "\<not> uc_static c"
  shows "\<exists>c'. code_reports env f [1..<code_walk_end (uc_refresh c) f n 1 + 1] (snd (UserCode_RequestState env flags 1 q c)) = Some c' \<and>
    \<not> uc_queryAll c' \<and>
    code_queries c' = code_queries c @ (q, code_asked env 1) # map (\<lambda>k. (MsgQueue_Query, code_asked env (of_nat k))) [2..<code_walk_end (uc_refresh c) f n 1 + 1]"
proof -
  note num = code_number [of n]
  have pos: "0 < (of_nat n :: uint8)" using num(3) assms(4,5) by (simp add: word_less_nat_alt)
  have one: "\<not> (of_nat n :: uint16) < 1" using num(2) assms(4,5) by (simp add: word_less_nat_alt)
  have "snd (UserCode_RequestState env flags 1 q c) =
      code_effect (Code_sent q (code_asked env 1)) (c\<lparr>uc_queryAll := True, uc_currentCode := 1\<rparr>)"
    using assms(2-7) pos one num(1)
    by (simp add: UserCode_RequestState_def UserCode_RequestValue_def code_ask)
  then have "walk_view (snd (UserCode_RequestState env flags 1 q c)) =
      (True, of_nat 1, uc_refresh c, of_nat n, code_queries c @ [(q, code_asked env 1)])"
    using assms(3) by (simp add: walk_view_def code_queries_effect)
  from code_reports_walk [OF assms(1,2,5) _ assms(4) this] show ?thesis by (simp add: numeral_2_eq_2)
qed

theorem code_walk_exact_witness:
  "\<exists>c'. code_reports \<lparr>ue_nodeId = 9, ue_transmitOptions = 0x25, ue_getSupported = True, ue_exposeRaw = True, ue_refreshAll = None\<rparr>
      (\<lambda>i. if i < 3 then (1, [0x31, 0x32, 0x33, 0x34]) else (0, [0, 0, 0, 0])) [1, 2, 3]
      (snd (UserCode_RequestState \<lparr>ue_nodeId = 9, ue_transmitOptions = 0x25, ue_getSupported = True, ue_exposeRaw = True, ue_refreshAll = None\<rparr>
        0x2 1 MsgQueue_Query (lock_codes))) = Some c' \<and>
    \<not> uc_queryAll c' \<and> code_queries c' = [(MsgQueue_Query, [9, 3, 0x63, 0x02, 1, 0x25]),
      (MsgQueue_Query, [9, 3, 0x63, 0x02, 2, 0x25]), (MsgQueue_Query, [9, 3, 0x63, 0x02, 3, 0x25])]"
proof -
  let ?env = "\<lparr>ue_nodeId = 9, ue_transmitOptions = 0x25, ue_getSupported = True, ue_exposeRaw = True, ue_refreshAll = None\<rparr>"
  let ?f = "\<lambda>i :: uint8. if i < 3 then (1 :: uint8, [0x31, 0x32, 0x33, 0x34 :: uint8]) else (0, [0, 0, 0, 0])"
  have e: "code_walk_end False ?f 20 1 = 3"
    by code_simp
  have f: "code_device ?f" by (simp add: code_device_def)
  have n: "uc_count lock_codes = of_nat 20" "uc_refresh lock_codes = False" "\<not> uc_static lock_codes" "code_queries lock_codes = []"
    by (simp_all add: lock_codes_def UserCode_new_def code_queries_def)
  have u: "[1..<3 + 1] = [1, 2, 3 :: nat]" "[2..<3 + 1] = [2, 3 :: nat]" by (simp_all add: upt_rec)
  show ?thesis
    using code_walk_exact [OF f, of ?env lock_codes 20 "0x2" MsgQueue_Query] n(1,3)
    unfolding n(2,4) e u by (simp add: code_asked_def)
qed

text \<open>A report that is too short for its code has a negative size, and the code of index 255 is kept in a button.\<close>

lemma short_user_code_undefined:
  assumes "peek data 0 = Some 3" "len < 4" "0 < len"
  shows "UserCode_HandleMsg env data len inst c = None"
proof -
  have "unat len < 4" "0 < unat len" using assms(2,3) by (simp_all add: word_less_nat_alt)
  then have "len = 1 \<or> len = 2 \<or> len = 3" by (auto simp: word_unat_eq_iff)
  moreover have "code_size 1 = None" "code_size 2 = None" "code_size 3 = None" by code_simp+
  ultimately have "code_size len = None" by auto
  then show ?thesis using assms(1) by (auto simp: UserCode_HandleMsg_def UserCode_report_def Let_def)
qed

lemma last_user_code_undefined:
  assumes "peek data 0 = Some 3" "peek data 1 = Some 255"
  shows "UserCode_HandleMsg env data len inst c = None"
  using assms by (auto simp: UserCode_HandleMsg_def UserCode_report_def code_text_def Let_def bind_eq_None_conv)

end
