(* ===== verification/Neighbour_Map.thy ===== *)
theory Neighbour_Map
  imports Controller_Replies
begin

text \<open>
  The neighbours of a node and the virtual nodes of a bridge (\<open>Node.cpp\<close>, \<open>Driver.cpp\<close>): bit maps of 29 bytes that
  the application gets as lists of node numbers.  The bits are counted in one order and listed in another; the
  array has room for as many as were counted, and a write beyond it is undefined.
\<close>

section \<open>Counting and listing\<close>

text \<open>The masks \<open>0x80\<close>, \<open>0x40\<close>, ..., until the shift leaves nothing.\<close>

definition count_bits :: "bytes \<Rightarrow> uint32" where
  "count_bits m = fold (\<lambda>b n. fold (\<lambda>mask n. if b AND mask \<noteq> 0 then n + 1 else n)
     [0x80, 0x40, 0x20, 0x10, 0x08, 0x04, 0x02, 0x01] n) (map ((!) m) [0..<29]) 0"

definition store_at :: "uint32 \<Rightarrow> uint8 \<Rightarrow> bytes \<Rightarrow> bytes option" where
  "store_at i x xs = (if unat i < length xs then Some (xs[unat i := x]) else None)"

text \<open>The two loops over the bytes and the bits of each.\<close>

fun list_bits :: "bytes \<Rightarrow> (nat \<times> nat) list \<Rightarrow> uint32 \<times> bytes \<Rightarrow> (uint32 \<times> bytes) option" where
  "list_bits m [] s = Some s"
| "list_bits m ((by, bi) # ps) (index, xs) =
     (if m ! by AND push_bit bi 1 \<noteq> 0
      then do {
        xs' \<leftarrow> store_at index (of_nat (push_bit 3 by + bi + 1)) xs;
        list_bits m ps (index + 1, xs')
      }
      else list_bits m ps (index, xs))"

definition read_map :: "bytes \<Rightarrow> bytes option" where
  "read_map m =
     (let n = count_bits m
      in if n = 0 then Some []
         else map_option snd (list_bits m (List.product [0..<29] [0..<8]) (0, replicate (unat n) 0)))"

section \<open>What the application asks for\<close>

text \<open>The result is the array, empty for a null pointer.\<close>

definition Node_GetNeighbors :: "node \<Rightarrow> bytes option" where
  "Node_GetNeighbors n =
     (if stage_num (m_queryStage (n_query n)) < stage_num St_Session then Some [] else read_map (n_neighbors n))"

definition GetNodeNeighbors :: "uint8 \<Rightarrow> driver \<Rightarrow> bytes option" where
  "GetNodeNeighbors nid d = (case d_nodes d nid of None \<Rightarrow> Some [] | Some n \<Rightarrow> Node_GetNeighbors n)"

definition GetVirtualNeighbors :: "driver \<Rightarrow> bytes option" where
  "GetVirtualNeighbors d =
     (if \<not> i_virtualNeighborsReceived (d_info d) then Some [] else read_map (i_virtualNeighbors (d_info d)))"

section \<open>Both passes see the same bits\<close>

definition map_positions :: "(nat \<times> nat) list" where
  "map_positions = List.product [0..<29] [0..<8]"

definition bit_at :: "bytes \<Rightarrow> nat \<times> nat \<Rightarrow> bool" where
  "bit_at m p \<longleftrightarrow> bit (m ! fst p) (snd p)"

definition map_nodes :: "bytes \<Rightarrow> bytes" where
  "map_nodes m = map (\<lambda>(by, bi). of_nat (8 * by + bi + 1)) (filter (bit_at m) map_positions)"

lemma and_bit_mask: "(b :: uint8) AND push_bit k 1 \<noteq> 0 \<longleftrightarrow> bit b k"
  by (simp add: push_bit_eq_mult and_exp_eq_0_iff_not_bit)

lemma push_three: "push_bit 3 (b :: nat) = 8 * b"
  by (simp add: push_bit_eq_mult)

lemma fold_count: "fold (\<lambda>x n. if P x then n + 1 else n) xs (n :: uint32) = n + of_nat (length (filter P xs))"
  by (induction xs arbitrary: n) (simp_all add: algebra_simps)

lemma byte_count:
  "fold (\<lambda>mask n. if b AND mask \<noteq> 0 then n + 1 else n) [0x80, 0x40, 0x20, 0x10, 0x08, 0x04, 0x02, 0x01] (n :: uint32) =
     n + of_nat (length (filter (bit (b :: uint8)) [0..<8]))"
proof -
  have "[0x80, 0x40, 0x20, 0x10, 0x08, 0x04, 0x02, 0x01 :: uint8] = map (\<lambda>k. push_bit k 1) (rev [0..<8])"
    by (simp add: upt_rec push_bit_eq_mult)
  then show ?thesis by (simp only: fold_count filter_map o_def and_bit_mask length_map rev_filter [symmetric] length_rev)
qed

lemma count_bits_length:
  "count_bits m = of_nat (length (filter (bit_at m) map_positions))"
proof -
  have "fold (\<lambda>b n. n + of_nat (length (filter (bit b) [0..<8]))) (map ((!) m) xs) (n :: uint32) =
      n + of_nat (length (filter (bit_at m) (List.product xs [0..<8])))" for xs n
    by (induction xs arbitrary: n) (simp_all add: filter_map o_def bit_at_def algebra_simps)
  then show ?thesis by (simp only: count_bits_def byte_count map_positions_def) simp
qed

lemma list_bits_fills:
  assumes "unat i + length (filter (bit_at m) ps) \<le> length xs" "length xs < 2 ^ 32"
  shows "\<exists>j. list_bits m ps (i, xs) = Some (j, take (unat i) xs @
      map (\<lambda>(by, bi). of_nat (8 * by + bi + 1)) (filter (bit_at m) ps) @ drop (unat i + length (filter (bit_at m) ps)) xs)"
  using assms
proof (induction ps arbitrary: i xs)
  case (Cons p ps)
  obtain b k where p: "p = (b, k)" by (cases p)
  show ?case
  proof (cases "bit_at m p")
    case True
    let ?x = "of_nat (8 * b + k + 1) :: uint8"
    have i: "unat i < length xs" "unat (i + 1) = unat i + 1"
      using Cons.prems True by (simp_all add: unat_add_lem [symmetric] unat_word_ariths)
    have "\<exists>j. list_bits m ps (i + 1, xs[unat i := ?x]) = Some (j, take (unat (i + 1)) (xs[unat i := ?x]) @
        map (\<lambda>(by, bi). of_nat (8 * by + bi + 1)) (filter (bit_at m) ps) @
        drop (unat (i + 1) + length (filter (bit_at m) ps)) (xs[unat i := ?x]))"
      using Cons.prems True i by (intro Cons.IH) simp_all
    moreover have "take (unat (i + 1)) (xs[unat i := ?x]) = take (unat i) xs @ [?x]"
      unfolding i(2) using i(1) by (simp add: take_Suc_conv_app_nth)
    moreover have "bit (m ! b) k" "bit_at m (b, k)" using True p by (simp_all add: bit_at_def)
    ultimately show ?thesis using p i
      by (simp add: and_bit_mask and_exp_eq_0_iff_not_bit store_at_def push_three)
  next
    case False
    then show ?thesis using Cons.IH [of i xs] Cons.prems p by (simp add: bit_at_def and_bit_mask and_exp_eq_0_iff_not_bit)
  qed
qed simp

text \<open>Every array is filled exactly, in ascending order.\<close>

lemma read_map_nodes: "read_map m = Some (map_nodes m)"
proof -
  let ?fs = "filter (bit_at m) map_positions"
  have "length ?fs \<le> length map_positions" by simp
  moreover have "length map_positions = 232" by (simp add: map_positions_def)
  ultimately have l: "length ?fs \<le> 232" by simp
  then have u: "unat (count_bits m) = length ?fs" unfolding count_bits_length by (simp add: unat_of_nat take_bit_nat_eq_self)
  show ?thesis
  proof (cases "?fs = []")
    case True
    then show ?thesis by (simp add: read_map_def count_bits_length map_nodes_def)
  next
    case False
    then have "count_bits m \<noteq> 0" using u by auto
    then show ?thesis
      using list_bits_fills [of 0 m map_positions "replicate (unat (count_bits m)) 0"] u l
      by (auto simp: read_map_def map_nodes_def map_positions_def [symmetric])
  qed
qed

text \<open>The neighbours a node is told of in a reply are those the application gets, once the interview is past that stage.\<close>

lemma neighbours_exact:
  assumes "d_nodes d (message_node d) = Some n" "15 \<le> stage_num (m_queryStage (n_query n))"
  shows "GetNodeNeighbors (message_node d) (HandleGetRoutingInfoResponse buf d) = Some (map_nodes (map (dat buf) [2..<31]))"
  using assms
  by (simp add: GetNodeNeighbors_def Node_GetNeighbors_def HandleGetRoutingInfoResponse_def map_node_def put_node_def read_map_nodes)

lemma virtual_neighbours_exact:
  "GetVirtualNeighbors (HandleGetVirtualNodesResponse buf d) = Some (map_nodes (map (dat buf) [2..<31]))"
  by (simp add: GetVirtualNeighbors_def HandleGetVirtualNodesResponse_def map_info_def read_map_nodes)

text \<open>Every node number from 1 to 232 is in the list exactly when its bit is set.\<close>

lemma map_nodes_iff:
  assumes "k < 232"
  shows "of_nat (k + 1) \<in> set (map_nodes m) \<longleftrightarrow> bit (m ! (k div 8)) (k mod 8)"
proof -
  have inj: "8 * b + i = k" if "of_nat (k + 1) = (of_nat (8 * b + i + 1) :: uint8)" "b < 29" "i < 8" for b i
  proof -
    have "k + 1 < 256" "8 * b + i + 1 < 256" using assms that by simp_all
    then have "k + 1 = 8 * b + i + 1" using arg_cong [OF that(1), of unat] by (simp add: unat_of_nat take_bit_nat_eq_self del: of_nat_add of_nat_Suc)
    then show ?thesis by simp
  qed
  show ?thesis
  proof
    assume "of_nat (k + 1) \<in> set (map_nodes m)"
    then obtain b i where bi: "b < 29" "i < 8" "bit_at m (b, i)" "of_nat (k + 1) = (of_nat (8 * b + i + 1) :: uint8)"
      by (auto simp: map_nodes_def map_positions_def simp del: of_nat_add of_nat_Suc)
    have "8 * b + i = k" by (rule inj [OF bi(4,1,2)])
    then show "bit (m ! (k div 8)) (k mod 8)" using bi(2,3) by (auto simp: bit_at_def)
  next
    assume "bit (m ! (k div 8)) (k mod 8)"
    moreover have "k div 8 < 29" using assms by simp
    ultimately have "(k div 8, k mod 8) \<in> set (filter (bit_at m) map_positions)"
      by (simp add: bit_at_def map_positions_def)
    then have "(\<lambda>(by, bi). of_nat (8 * by + bi + 1)) (k div 8, k mod 8) \<in> set (map_nodes m)"
      unfolding map_nodes_def set_map by (rule imageI)
    then show "of_nat (k + 1) \<in> set (map_nodes m)" by (simp only: prod.case mult_div_mod_eq)
  qed
qed

end
