(* ===== verification/Config_Params.thy ===== *)
theory Config_Params
  imports Driver_State Value_Verify
begin

text \<open>
  The configuration parameters of a device: \<open>Configuration.cpp\<close>, with \<open>SetConfigParam\<close> and what it calls in \<open>Node.cpp\<close>
  and in the values.  The values of the class, those of instance 1, are kept by index in the order of the store; the
  messages sent and the references that are not given back are recorded.
\<close>

section \<open>State\<close>

text \<open>\<open>int32\<close> by its bits.\<close>

record list_value =
  lv_items :: "list_item list"
  lv_valueIdx :: uint32
  lv_size :: uint8

datatype config_data =
  Config_BitSet uint32 uint8
| Config_Bool bool
| Config_Byte uint8
| Config_Short uint16
| Config_Int uint32
| Config_List list_value
| Config_Button bool
| Config_Other

record config_value =
  cv_readOnly :: bool
  cv_writeOnly :: bool
  cv_refreshAfterSet :: bool
  cv_affectsAll :: bool
  cv_affects :: "uint8 list"
  cv_data :: config_data

record config_class =
  cf_values :: "(uint16 \<times> config_value) list"
  cf_sent :: "(msg_queue \<times> bytes) list"
  cf_unreleased :: "uint16 list"

record config_env =
  ce_nodeId :: uint8
  ce_transmitOptions :: uint8
  ce_getSupported :: bool

definition config_send :: "bytes \<Rightarrow> msg_queue \<Rightarrow> config_class \<Rightarrow> config_class" where
  "config_send bs q c = c\<lparr>cf_sent := cf_sent c @ [(q, bs)]\<rparr>"

definition List_refreshed :: "uint32 \<Rightarrow> list_value \<Rightarrow> list_value" where
  "List_refreshed v l = (let i = GetItemIdxByValue (lv_items l) v in if i < 0 then l else l\<lparr>lv_valueIdx := of_int i\<rparr>)"

section \<open>Setting a parameter\<close>

definition Configuration_Set :: "config_env \<Rightarrow> uint16 \<Rightarrow> uint32 \<Rightarrow> uint8 \<Rightarrow> config_class \<Rightarrow> config_class" where
  "Configuration_Set env param v sz =
     config_send ([ce_nodeId env, 4 + sz, 0x70, 0x04, ucast param, sz] @
       (if 2 < sz then [ucast (drop_bit 24 v), ucast (drop_bit 16 v)] else []) @
       (if 1 < sz then [ucast (drop_bit 8 v)] else []) @
       [ucast v, ce_transmitOptions env]) MsgQueue_Send"

definition Configuration_SetValue :: "config_env \<Rightarrow> uint16 \<Rightarrow> config_data \<Rightarrow> config_class \<Rightarrow> bool \<times> config_class" where
  "Configuration_SetValue env param data c =
     (case data of
        Config_BitSet v sz \<Rightarrow> (True, Configuration_Set env param v sz c)
      | Config_Bool b \<Rightarrow> (True, Configuration_Set env param (if b then 1 else 0) 1 c)
      | Config_Byte v \<Rightarrow> (True, Configuration_Set env param (ucast v) 1 c)
      | Config_Short v \<Rightarrow> (True, Configuration_Set env param (scast v) 2 c)
      | Config_Int v \<Rightarrow> (True, Configuration_Set env param v 4 c)
      | Config_List l \<Rightarrow>
          (True, case GetItem (lv_items l) (lv_valueIdx l) of None \<Rightarrow> c | Some it \<Rightarrow> Configuration_Set env param (snd it) (lv_size l) c)
      | Config_Button b \<Rightarrow> (True, Configuration_Set env param (if b then 1 else 0) 1 c)
      | Config_Other \<Rightarrow> (False, c))"

definition Configuration_RequestValue :: "config_env \<Rightarrow> uint16 \<Rightarrow> uint8 \<Rightarrow> msg_queue \<Rightarrow> config_class \<Rightarrow> bool \<times> config_class" where
  "Configuration_RequestValue env param inst q c =
     (if inst \<noteq> 1 \<or> \<not> ce_getSupported env then (False, c)
      else (True, config_send [ce_nodeId env, 3, 0x70, 0x05, ucast param, ce_transmitOptions env] q c))"

definition RequestConfigParam :: "config_env \<Rightarrow> uint8 \<Rightarrow> config_class \<Rightarrow> config_class" where
  "RequestConfigParam env param c = snd (Configuration_RequestValue env (ucast param) 1 MsgQueue_Send c)"

text \<open>The values in the order of the store.\<close>

definition RequestAllConfigParams :: "config_env \<Rightarrow> config_class \<Rightarrow> bool \<times> config_class" where
  "RequestAllConfigParams env c =
     fold (\<lambda>(param, v) (res, c).
       if cv_writeOnly v then (res, c)
       else (let (r, c') = Configuration_RequestValue env param 1 MsgQueue_Query c in (res \<or> r, c'))) (cf_values c) (False, c)"

text \<open>\<open>Value::Set\<close> of a temporary copy with other data.\<close>

definition set_copy :: "config_env \<Rightarrow> uint16 \<Rightarrow> config_value \<Rightarrow> config_data \<Rightarrow> config_class \<Rightarrow> bool \<times> config_class" where
  "set_copy env param v data c =
     (if cv_readOnly v then (False, c)
      else let (res, c1) = Configuration_SetValue env param data c in
        if \<not> res then (res, c1)
        else if \<not> cv_writeOnly v then
          (if cv_refreshAfterSet v then (res, snd (Configuration_RequestValue env param 1 MsgQueue_Send c1)) else (res, c1))
        else if cv_affectsAll v then (res, snd (RequestAllConfigParams env c1))
        else (res, fold (RequestConfigParam env) (cv_affects v) c1))"

text \<open>The reference \<open>cc->GetValue\<close> takes is not given back.\<close>

definition SetConfigParam :: "config_env \<Rightarrow> uint8 \<Rightarrow> uint32 \<Rightarrow> uint8 \<Rightarrow> config_class \<Rightarrow> bool \<times> config_class" where
  "SetConfigParam env param v sz c =
     (case map_of (cf_values c) (ucast param) of
        None \<Rightarrow> (True, Configuration_Set env (ucast param) v sz c)
      | Some cv \<Rightarrow>
          (let c1 = c\<lparr>cf_unreleased := cf_unreleased c @ [ucast param]\<rparr>;
               set = (\<lambda>data. snd (set_copy env (ucast param) cv data c1))
           in (True, case cv_data cv of
                 Config_Bool _ \<Rightarrow> set (Config_Bool (v \<noteq> 0))
               | Config_Byte _ \<Rightarrow> set (Config_Byte (ucast v))
               | Config_Short _ \<Rightarrow> set (Config_Short (ucast v))
               | Config_Int _ \<Rightarrow> set (Config_Int v)
               | Config_List l \<Rightarrow> set (Config_List (l\<lparr>lv_valueIdx := v\<rparr>))
               | _ \<Rightarrow> c1)))"

section \<open>Reports\<close>

text \<open>\<open>paramValue\<close>, from the bytes at and after an index.\<close>

fun param_value :: "bytes \<Rightarrow> nat \<Rightarrow> nat \<Rightarrow> uint32 \<Rightarrow> uint32 option" where
  "param_value data 0 i v = Some v"
| "param_value data (Suc n) i v = do { b \<leftarrow> peek data i; param_value data n (i + 1) (push_bit 8 v OR ucast b) }"

definition refreshed :: "uint32 \<Rightarrow> config_data \<Rightarrow> config_data" where
  "refreshed v data = (case data of
     Config_BitSet _ sz \<Rightarrow> Config_BitSet v sz
   | Config_Bool _ \<Rightarrow> Config_Bool (v \<noteq> 0)
   | Config_Byte _ \<Rightarrow> Config_Byte (ucast v)
   | Config_Short _ \<Rightarrow> Config_Short (ucast v)
   | Config_Int _ \<Rightarrow> Config_Int v
   | Config_List l \<Rightarrow> Config_List (List_refreshed v l)
   | _ \<Rightarrow> data)"

definition put_param :: "uint16 \<Rightarrow> config_value \<Rightarrow> config_class \<Rightarrow> config_class" where
  "put_param param v c = c\<lparr>cf_values := map (\<lambda>(k, w). if k = param then (k, v) else (k, w)) (cf_values c)\<rparr>"

definition new_param :: "uint16 \<Rightarrow> config_data \<Rightarrow> config_class \<Rightarrow> config_class" where
  "new_param param data c = c\<lparr>cf_values := takeWhile (\<lambda>(k, _). k < param) (cf_values c) @
     [(param, \<lparr>cv_readOnly = False, cv_writeOnly = False, cv_refreshAfterSet = True, cv_affectsAll = False, cv_affects = [], cv_data = data\<rparr>)] @
     dropWhile (\<lambda>(k, _). k < param) (cf_values c)\<rparr>"

definition Configuration_HandleMsg :: "bytes \<Rightarrow> config_class \<Rightarrow> (bool \<times> config_class) option" where
  "Configuration_HandleMsg data c = do {
     cmd \<leftarrow> peek data 0;
     if cmd \<noteq> 0x06 then Some (False, c)
     else do {
       b \<leftarrow> peek data 1;
       s \<leftarrow> peek data 2;
       let param = ucast b;
       let sz = unat (s AND 0x07);
       v \<leftarrow> param_value data sz 3 0;
       Some (True, case map_of (cf_values c) param of
          Some cv \<Rightarrow> put_param param (cv\<lparr>cv_data := refreshed v (cv_data cv)\<rparr>) c
        | None \<Rightarrow>
            (if sz = 1 then new_param param (Config_Byte (ucast v)) c
             else if sz = 2 then new_param param (Config_Short (ucast v)) c
             else if sz = 4 then new_param param (Config_Int v) c
             else c))
     }
   }"

section \<open>What is set is read back\<close>

text \<open>A device that keeps the bytes it is sent, and the report on them.\<close>

definition device_echo :: "bytes \<Rightarrow> bytes" where
  "device_echo frame = [0x06, frame ! 4, frame ! 5] @ take (unat (frame ! 5)) (drop 6 frame)"

definition set_frame :: "config_env \<Rightarrow> uint16 \<Rightarrow> uint32 \<Rightarrow> uint8 \<Rightarrow> bytes" where
  "set_frame env param v sz = [ce_nodeId env, 4 + sz, 0x70, 0x04, ucast param, sz] @
       (if 2 < sz then [ucast (drop_bit 24 v), ucast (drop_bit 16 v)] else []) @
       (if 1 < sz then [ucast (drop_bit 8 v)] else []) @
       [ucast v, ce_transmitOptions env]"

lemma Configuration_Set_frame: "Configuration_Set env param v sz = config_send (set_frame env param v sz) MsgQueue_Send"
  by (simp add: Configuration_Set_def set_frame_def)

lemma four_bytes:
  "push_bit 8 (push_bit 8 (push_bit 8 (ucast (ucast (drop_bit 24 v :: uint32) :: uint8)) OR
     ucast (ucast (drop_bit 16 v) :: uint8)) OR ucast (ucast (drop_bit 8 v) :: uint8)) OR ucast (ucast v :: uint8) = (v :: uint32)"
proof (rule bit_word_eqI)
  fix n assume n: "n < LENGTH(32)"
  then consider "n < 8" | "8 \<le> n" "n < 16" | "16 \<le> n" "n < 24" | "24 \<le> n" "n < 32" by fastforce
  then show "bit (push_bit 8 (push_bit 8 (push_bit 8 (ucast (ucast (drop_bit 24 v :: uint32) :: uint8)) OR
     ucast (ucast (drop_bit 16 v) :: uint8)) OR ucast (ucast (drop_bit 8 v) :: uint8)) OR ucast (ucast v :: uint8) :: uint32) n = bit v n"
    by cases (auto simp: bit_simps)
qed

lemma two_bytes: "push_bit 8 (ucast (ucast (drop_bit 8 v) :: uint8)) OR ucast (ucast v :: uint8) = take_bit 16 (v :: uint32)"
  by (rule bit_word_eqI) (auto simp: bit_simps)

lemma one_byte: "ucast (ucast v :: uint8) = take_bit 8 (v :: uint32)"
  by (rule bit_word_eqI) (auto simp: bit_simps)

lemma param_value_numeral [simp]:
  "param_value data (numeral k) i v = do { b \<leftarrow> peek data i; param_value data (pred_numeral k) (i + 1) (push_bit 8 v OR ucast b) }"
  by (simp add: numeral_eq_Suc)

lemma echo_value:
  assumes "sz = 1 \<or> sz = 2 \<or> sz = 4"
  shows "peek (device_echo (set_frame env param v sz)) 0 = Some 0x06"
    "peek (device_echo (set_frame env param v sz)) 1 = Some (ucast param)"
    "peek (device_echo (set_frame env param v sz)) 2 = Some sz"
    "unat (sz AND 0x07) = unat sz"
    "param_value (device_echo (set_frame env param v sz)) (unat sz) 3 0 = Some (take_bit (8 * unat sz) v)"
proof -
  show "peek (device_echo (set_frame env param v sz)) 0 = Some 0x06"
    "peek (device_echo (set_frame env param v sz)) 1 = Some (ucast param)"
    "peek (device_echo (set_frame env param v sz)) 2 = Some sz"
    by (simp_all add: device_echo_def set_frame_def peek_def)
  show "unat (sz AND 0x07) = unat sz" using assms by auto
  from assms consider "sz = 1" | "sz = 2" | "sz = 4" by blast
  then show "param_value (device_echo (set_frame env param v sz)) (unat sz) 3 0 = Some (take_bit (8 * unat sz) v)"
  proof cases
    case 1
    then show ?thesis by (simp add: device_echo_def set_frame_def peek_def one_byte)
  next
    case 2
    then show ?thesis by (simp add: device_echo_def set_frame_def peek_def two_bytes)
  next
    case 3
    have "take_bit 32 v = v" by (rule bit_word_eqI) (simp add: bit_simps)
    then show ?thesis using four_bytes [of v] 3 by (simp add: device_echo_def set_frame_def peek_def)
  qed
qed

text \<open>
  The data that \<open>SetConfigParam\<close> asks for.  In a list it selects the item at the position \<open>v\<close>, not the one with the value \<open>v\<close>.
\<close>

fun wanted :: "uint32 \<Rightarrow> config_data \<Rightarrow> config_data" where
  "wanted v (Config_Bool _) = Config_Bool (v \<noteq> 0)"
| "wanted v (Config_Byte _) = Config_Byte (ucast v)"
| "wanted v (Config_Short _) = Config_Short (ucast v)"
| "wanted v (Config_Int _) = Config_Int v"
| "wanted v (Config_List l) = Config_List (l\<lparr>lv_valueIdx := v\<rparr>)"
| "wanted v data = data"

text \<open>Data a message can carry: the value of the chosen item fits in the bytes of the list and is that of no other item.\<close>

fun settable :: "config_data \<Rightarrow> bool" where
  "settable (Config_List l) \<longleftrightarrow> unat (lv_valueIdx l) < length (lv_items l) \<and> length (lv_items l) < 2 ^ 32 \<and>
     distinct (map snd (lv_items l)) \<and> (lv_size l = 1 \<or> lv_size l = 2 \<or> lv_size l = 4) \<and>
     take_bit (8 * unat (lv_size l)) (snd (lv_items l ! unat (lv_valueIdx l))) = snd (lv_items l ! unat (lv_valueIdx l))"
| "settable (Config_BitSet _ _) \<longleftrightarrow> False"
| "settable (Config_Button _) \<longleftrightarrow> False"
| "settable Config_Other \<longleftrightarrow> False"
| "settable data \<longleftrightarrow> True"

lemma item_index_nth:
  assumes "distinct (map snd items)" "k < length items"
  shows "GetItemIdxByValue items (snd (items ! k)) = int k"
proof -
  have "\<exists>i. GetItemIdxByValue items (snd (items ! k)) = int i \<and> i < length items \<and> snd (items ! i) = snd (items ! k)"
    using first_index_cases [of "\<lambda>it. snd (items ! k) = snd it" items] assms(2)
    unfolding GetItemIdxByValue_def by (metis nth_mem)
  then obtain i where i: "GetItemIdxByValue items (snd (items ! k)) = int i" "i < length items" "snd (items ! i) = snd (items ! k)"
    by blast
  then have "i = k" using assms by (metis length_map nth_eq_iff_index_eq nth_map)
  with i(1) show ?thesis by simp
qed

lemma set_value_echo:
  assumes "settable (wanted v old)"
  obtains w sz where "Configuration_SetValue env p (wanted v old) c = (True, Configuration_Set env p w sz c)"
    "sz = 1 \<or> sz = 2 \<or> sz = 4" "refreshed (take_bit (8 * unat sz) w) old = wanted v old"
proof (cases old)
  case (Config_Bool b)
  show thesis by (rule that [of "if v \<noteq> 0 then 1 else 0" 1]) (simp_all add: Config_Bool Configuration_SetValue_def refreshed_def)
next
  case (Config_Byte b)
  have "ucast (take_bit 8 (ucast (ucast v :: uint8) :: uint32)) = (ucast v :: uint8)" by (rule bit_word_eqI) (simp add: bit_simps)
  then show thesis by (intro that [of "ucast (ucast v :: uint8)" 1]) (simp_all add: Config_Byte Configuration_SetValue_def refreshed_def)
next
  case (Config_Short b)
  have "ucast (take_bit 16 (scast (ucast v :: uint16) :: uint32)) = (ucast v :: uint16)"
    by (rule bit_word_eqI) (auto simp: bit_simps)
  then show thesis by (intro that [of "scast (ucast v :: uint16)" 2]) (simp_all add: Config_Short Configuration_SetValue_def refreshed_def)
next
  case (Config_Int b)
  have "take_bit 32 v = v" by (rule bit_word_eqI) (simp add: bit_simps)
  then show thesis by (intro that [of v 4]) (simp_all add: Config_Int Configuration_SetValue_def refreshed_def)
next
  case (Config_List l)
  let ?it = "lv_items l ! unat v"
  have s: "unat v < length (lv_items l)" "distinct (map snd (lv_items l))" "lv_size l = 1 \<or> lv_size l = 2 \<or> lv_size l = 4"
    "take_bit (8 * unat (lv_size l)) (snd ?it) = snd ?it"
    using assms Config_List by simp_all
  have "List_refreshed (snd ?it) l = l\<lparr>lv_valueIdx := v\<rparr>" using item_index_nth [OF s(2,1)] by (simp add: List_refreshed_def)
  then show thesis using s
    by (intro that [of "snd ?it" "lv_size l"]) (simp_all add: Config_List Configuration_SetValue_def refreshed_def GetItem_def peek_def)
qed (use assms in simp_all)

text \<open>What is sent after a parameter was set only adds to the messages.\<close>

definition only_sends :: "(config_class \<Rightarrow> config_class) \<Rightarrow> bool" where
  "only_sends g \<longleftrightarrow> (\<forall>c. cf_values (g c) = cf_values c \<and> (\<exists>ms. cf_sent (g c) = cf_sent c @ ms))"

lemma only_sends_request: "only_sends (\<lambda>c. snd (Configuration_RequestValue env param inst q c))"
  by (simp add: only_sends_def Configuration_RequestValue_def config_send_def)

lemma only_sends_fold:
  assumes "\<And>x. only_sends (g x)"
  shows "only_sends (fold g xs)"
proof (induction xs)
  case (Cons x xs)
  then show ?case using assms [of x] unfolding only_sends_def by (metis append.assoc comp_apply fold_simps(2))
qed (simp add: only_sends_def)

lemma only_sends_param: "only_sends (RequestConfigParam env param)"
  using only_sends_request [of env "ucast param" 1 MsgQueue_Send] by (simp add: only_sends_def RequestConfigParam_def)

lemma only_sends_all: "only_sends (\<lambda>c. snd (RequestAllConfigParams env c))"
proof -
  let ?g = "\<lambda>(param, v) c. if cv_writeOnly v then c else snd (Configuration_RequestValue env param 1 MsgQueue_Query c)"
  have "snd (fold (\<lambda>(param, v) (res, c). if cv_writeOnly v then (res, c)
       else (let (r, c') = Configuration_RequestValue env param 1 MsgQueue_Query c in (res \<or> r, c'))) xs (r, c)) = fold ?g xs c" for xs r c
    by (induction xs arbitrary: r c) (auto split: prod.split)
  then have eq: "snd (RequestAllConfigParams env c) = fold ?g (cf_values c) c" for c
    by (simp add: RequestAllConfigParams_def)
  have "only_sends (?g x)" for x
    using only_sends_request by (cases x) (auto simp: only_sends_def)
  then have "only_sends (fold ?g xs)" for xs by (rule only_sends_fold)
  then show ?thesis unfolding only_sends_def eq by blast
qed

lemma set_copy_sends:
  assumes "\<not> cv_readOnly cv" "Configuration_SetValue env p data c = (True, Configuration_Set env p w sz c)"
  shows "\<exists>ms. cf_sent (snd (set_copy env p cv data c)) = cf_sent c @ (MsgQueue_Send, set_frame env p w sz) # ms"
    "cf_values (snd (set_copy env p cv data c)) = cf_values c"
proof -
  let ?c1 = "Configuration_Set env p w sz c"
  have c1: "cf_sent ?c1 = cf_sent c @ [(MsgQueue_Send, set_frame env p w sz)]" "cf_values ?c1 = cf_values c"
    by (simp_all add: Configuration_Set_frame config_send_def)
  have "\<exists>g. only_sends g \<and> snd (set_copy env p cv data c) = g ?c1"
  proof (cases "cv_writeOnly cv")
    case True
    have "only_sends (fold (RequestConfigParam env) (cv_affects cv))" by (intro only_sends_fold only_sends_param)
    with True show ?thesis using assms only_sends_all [of env]
      by (cases "cv_affectsAll cv") (auto simp: set_copy_def)
  next
    case False
    have "only_sends (\<lambda>c. c)" by (simp add: only_sends_def)
    with False show ?thesis using assms only_sends_request [of env p 1 MsgQueue_Send]
      by (cases "cv_refreshAfterSet cv") (auto simp: set_copy_def)
  qed
  then show "\<exists>ms. cf_sent (snd (set_copy env p cv data c)) = cf_sent c @ (MsgQueue_Send, set_frame env p w sz) # ms"
    "cf_values (snd (set_copy env p cv data c)) = cf_values c"
    using c1 by (auto simp: only_sends_def) (metis append.assoc append_Cons append_Nil)
qed

lemma put_param_lookup:
  "map_of (cf_values (put_param k v c)) j = (if j = k then map_option (\<lambda>_. v) (map_of (cf_values c) k) else map_of (cf_values c) j)"
proof -
  have "map_of (map (\<lambda>(i, w). if i = k then (i, v) else (i, w)) xs) j =
      (if j = k then map_option (\<lambda>_. v) (map_of xs k) else map_of xs j)" for xs
    by (induction xs) auto
  then show ?thesis by (simp add: put_param_def)
qed

text \<open>A parameter with two values, and a device that has it.\<close>

definition lamp_param :: config_value where
  "lamp_param = \<lparr>cv_readOnly = False, cv_writeOnly = False, cv_refreshAfterSet = True, cv_affectsAll = False, cv_affects = [],
     cv_data = Config_List \<lparr>lv_items = [(''off'', 0), (''slow'', 10)], lv_valueIdx = 0, lv_size = 1\<rparr>\<rparr>"

definition lamp_params :: config_class where
  "lamp_params = \<lparr>cf_values = [(3, lamp_param)], cf_sent = [], cf_unreleased = []\<rparr>"



text \<open>Asked for the item with the value 10, a list that has it at position 1 sends nothing, and the call reports success.\<close>

lemma list_param_by_value_lost:
  assumes "map_of (cf_values c) (ucast param) = Some cv" "cv_data cv = Config_List l" "lv_items l = [(''off'', 0), (''slow'', 10)]"
    and "cv_affects cv = []" "\<not> cv_affectsAll cv" "cv_readOnly cv \<or> cv_writeOnly cv \<or> \<not> cv_refreshAfterSet cv"
  shows "SetConfigParam env param 10 1 c = (True, c\<lparr>cf_unreleased := cf_unreleased c @ [ucast param]\<rparr>)"
proof -
  have "GetItem (lv_items l) 10 = None" using assms(3) by (simp add: GetItem_def peek_def)
  then show ?thesis using assms by (auto simp: SetConfigParam_def set_copy_def Configuration_SetValue_def Let_def)
qed

end
