(* ===== verification/Scene_Store.thy ===== *)
theory Scene_Store
  imports Value_Id CC_Values Text_Parse
begin

text \<open>
  Scenes (\<open>Scene.cpp\<close>) and what the application does with them (\<open>Manager.cpp\<close>): lists of values with the text each is to be set
  to, in a table by number, saved to an XML file and read back.  A file is what the XML library makes of it: elements with
  the attributes that are read.  \<open>None\<close> is an array used beyond its end, a null pointer used as a text, or a loop
  that does not end.
\<close>

section \<open>State\<close>

record scene =
  sn_label :: string
  sn_values :: "(value_id \<times> string) list"

text \<open>The static variables: the count and the table.\<close>

record scene_table =
  sb_cnt :: uint8
  sb_scenes :: "uint8 \<Rightarrow> scene option"

definition scenes_empty :: scene_table where
  "scenes_empty = \<lparr> sb_cnt = 0, sb_scenes = (\<lambda>_. None) \<rparr>"

definition Scene_new :: "uint8 \<Rightarrow> scene_table \<Rightarrow> scene_table" where
  "Scene_new i t = t\<lparr>sb_scenes := (sb_scenes t)(i \<mapsto> \<lparr>sn_label = [], sn_values = []\<rparr>), sb_cnt := sb_cnt t + 1\<rparr>"

definition Scene_delete :: "uint8 \<Rightarrow> scene_table \<Rightarrow> scene_table" where
  "Scene_delete i t = t\<lparr>sb_cnt := sb_cnt t - 1, sb_scenes := (sb_scenes t)(i := None)\<rparr>"

definition Scene_Get :: "uint8 \<Rightarrow> scene_table \<Rightarrow> scene option" where
  "Scene_Get i t = sb_scenes t i"

definition on_scene :: "uint8 \<Rightarrow> (scene \<Rightarrow> scene) \<Rightarrow> scene_table \<Rightarrow> scene_table" where
  "on_scene i f t = t\<lparr>sb_scenes := (sb_scenes t)(i := map_option f (sb_scenes t i))\<rparr>"

section \<open>The values of a scene\<close>

definition Scene_AddValue :: "value_id \<Rightarrow> string \<Rightarrow> scene \<Rightarrow> scene" where
  "Scene_AddValue v x s = s\<lparr>sn_values := sn_values s @ [(v, x)]\<rparr>"

fun remove_first :: "value_id \<Rightarrow> (value_id \<times> string) list \<Rightarrow> bool \<times> (value_id \<times> string) list" where
  "remove_first v [] = (False, [])"
| "remove_first v (e # es) = (if fst e = v then (True, es) else apsnd ((#) e) (remove_first v es))"

definition Scene_RemoveValue :: "value_id \<Rightarrow> scene \<Rightarrow> bool \<times> scene" where
  "Scene_RemoveValue v s = apsnd (\<lambda>es. s\<lparr>sn_values := es\<rparr>) (remove_first v (sn_values s))"

text \<open>The scene is deleted when nothing is left in it.\<close>

definition keep_values :: "(value_id \<Rightarrow> bool) \<Rightarrow> uint8 \<Rightarrow> scene_table \<Rightarrow> scene_table" where
  "keep_values P i t =
     (case sb_scenes t i of None \<Rightarrow> t
      | Some s \<Rightarrow> (let es = filter (\<lambda>e. P (fst e)) (sn_values s)
                  in if es = [] then Scene_delete i t else on_scene i (\<lambda>s. s\<lparr>sn_values := es\<rparr>) t))"

definition Scene_RemoveValues_home :: "uint32 \<Rightarrow> uint8 \<Rightarrow> scene_table \<Rightarrow> scene_table" where
  "Scene_RemoveValues_home h = keep_values (\<lambda>v. vid_homeId v \<noteq> h)"

definition Scene_RemoveValues :: "uint32 \<Rightarrow> uint8 \<Rightarrow> scene_table \<Rightarrow> scene_table" where
  "Scene_RemoveValues h n = fold (\<lambda>i. keep_values (\<lambda>v. \<not> (vid_homeId v = h \<and> GetNodeId v = n)) (of_nat i)) [1..<256]"

definition Scene_GetValues :: "scene \<Rightarrow> value_id list" where
  "Scene_GetValues s = map fst (sn_values s)"

definition Scene_GetValue :: "value_id \<Rightarrow> scene \<Rightarrow> string option" where
  "Scene_GetValue v s = map_option snd (find (\<lambda>e. fst e = v) (sn_values s))"

fun set_first :: "value_id \<Rightarrow> string \<Rightarrow> (value_id \<times> string) list \<Rightarrow> bool \<times> (value_id \<times> string) list" where
  "set_first v x [] = (False, [])"
| "set_first v x (e # es) = (if fst e = v then (True, (fst e, x) # es) else apsnd ((#) e) (set_first v x es))"

definition Scene_SetValue :: "value_id \<Rightarrow> string \<Rightarrow> scene \<Rightarrow> bool \<times> scene" where
  "Scene_SetValue v x s = apsnd (\<lambda>es. s\<lparr>sn_values := es\<rparr>) (set_first v x (sn_values s))"

text \<open>\<open>Manager::SetValue\<close> is a parameter: whether it succeeds and what it does.\<close>

definition Scene_Activate :: "(value_id \<Rightarrow> string \<Rightarrow> 'w \<Rightarrow> bool \<times> 'w) \<Rightarrow> scene \<Rightarrow> 'w \<Rightarrow> bool \<times> 'w" where
  "Scene_Activate set_value s w =
     fold (\<lambda>(v, x) (res, w). let (r, w') = set_value v x w in (if r then res else False, w')) (sn_values s) (True, w)"

section \<open>The table\<close>

text \<open>The array of numbers: elements that are not assigned are \<open>None\<close>.\<close>

fun fill_ids :: "nat list \<Rightarrow> nat \<Rightarrow> scene_table \<Rightarrow> uint8 option list \<Rightarrow> uint8 option list option" where
  "fill_ids [] j t xs = Some xs"
| "fill_ids (i # is) j t xs =
     (if sb_scenes t (of_nat i) = None then fill_ids is j t xs
      else if j < length xs then fill_ids is (j + 1) t (xs[j := Some (of_nat i)]) else None)"

definition GetAllScenes :: "scene_table \<Rightarrow> (uint8 option list \<times> uint8) option" where
  "GetAllScenes t =
     (if 0 < sb_cnt t then map_option (\<lambda>xs. (xs, sb_cnt t)) (fill_ids [1..<256] 0 t (replicate (unat (sb_cnt t)) None))
      else Some ([], sb_cnt t))"

definition CreateScene :: "scene_table \<Rightarrow> uint8 \<times> scene_table" where
  "CreateScene t =
     (case find (\<lambda>i. sb_scenes t (of_nat i) = None) [1..<256] of
        None \<Rightarrow> (0, t) | Some i \<Rightarrow> (of_nat i, Scene_new (of_nat i) t))"

definition RemoveScene :: "uint8 \<Rightarrow> scene_table \<Rightarrow> bool \<times> scene_table" where
  "RemoveScene i t = (case Scene_Get i t of None \<Rightarrow> (False, t) | Some _ \<Rightarrow> (True, Scene_delete i t))"

definition RemoveAllScenes :: "uint32 \<Rightarrow> scene_table \<Rightarrow> scene_table" where
  "RemoveAllScenes h = fold (\<lambda>i t. if h = 0 then snd (RemoveScene (of_nat i) t) else Scene_RemoveValues_home h (of_nat i) t) [1..<256]"

text \<open>The values the application gives, and the text that is kept of each.\<close>

datatype scene_data = SD_Bool bool | SD_Byte uint8 | SD_Int uint32 | SD_Short uint16 | SD_Text string | SD_Selection uint32

fun scene_text :: "scene_data \<Rightarrow> string" where
  "scene_text (SD_Bool b) = (if b then ''True'' else ''False'')"
| "scene_text (SD_Byte x) = dec_int (uint x)"
| "scene_text (SD_Int x) = dec_int (sint x)"
| "scene_text (SD_Short x) = dec_int (sint x)"
| "scene_text (SD_Text x) = x"
| "scene_text (SD_Selection x) = dec_int (sint x)"

definition AddSceneValue :: "uint8 \<Rightarrow> value_id \<Rightarrow> scene_data \<Rightarrow> scene_table \<Rightarrow> bool \<times> scene_table" where
  "AddSceneValue i v x t = (case Scene_Get i t of None \<Rightarrow> (False, t)
     | Some _ \<Rightarrow> (True, on_scene i (Scene_AddValue v (scene_text x)) t))"

definition SetSceneValue :: "uint8 \<Rightarrow> value_id \<Rightarrow> scene_data \<Rightarrow> scene_table \<Rightarrow> bool \<times> scene_table" where
  "SetSceneValue i v x t = (case Scene_Get i t of None \<Rightarrow> (False, t)
     | Some s \<Rightarrow> (let (r, s') = Scene_SetValue v (scene_text x) s in (r, on_scene i (\<lambda>_. s') t)))"

definition RemoveSceneValue :: "uint8 \<Rightarrow> value_id \<Rightarrow> scene_table \<Rightarrow> bool \<times> scene_table" where
  "RemoveSceneValue i v t = (case Scene_Get i t of None \<Rightarrow> (False, t)
     | Some s \<Rightarrow> (let (r, s') = Scene_RemoveValue v s in (r, on_scene i (\<lambda>_. s') t)))"

definition scene_value :: "uint8 \<Rightarrow> value_id \<Rightarrow> scene_table \<Rightarrow> string option" where
  "scene_value i v t = Option.bind (Scene_Get i t) (Scene_GetValue v)"

definition SceneGetValueAsBool :: "uint8 \<Rightarrow> value_id \<Rightarrow> scene_table \<Rightarrow> bool option" where
  "SceneGetValueAsBool i v t = map_option (\<lambda>x. ToLower x = ''true'') (scene_value i v t)"

definition SceneGetValueAsByte :: "uint8 \<Rightarrow> value_id \<Rightarrow> scene_table \<Rightarrow> uint8 option" where
  "SceneGetValueAsByte i v t = map_option (\<lambda>x. of_int (CC_Values.atol x)) (scene_value i v t)"

definition SceneGetValueAsInt :: "uint8 \<Rightarrow> value_id \<Rightarrow> scene_table \<Rightarrow> uint32 option" where
  "SceneGetValueAsInt i v t = map_option (\<lambda>x. of_int (CC_Values.atol x)) (scene_value i v t)"

definition SceneGetValueAsShort :: "uint8 \<Rightarrow> value_id \<Rightarrow> scene_table \<Rightarrow> uint16 option" where
  "SceneGetValueAsShort i v t = map_option (\<lambda>x. of_int (CC_Values.atol x)) (scene_value i v t)"

text \<open>\<open>return NULL\<close> makes a text of a null pointer.\<close>

definition GetSceneLabel :: "uint8 \<Rightarrow> scene_table \<Rightarrow> string option" where
  "GetSceneLabel i t = map_option sn_label (Scene_Get i t)"

definition SetSceneLabel :: "uint8 \<Rightarrow> string \<Rightarrow> scene_table \<Rightarrow> scene_table" where
  "SetSceneLabel i x = on_scene i (\<lambda>s. s\<lparr>sn_label := x\<rparr>)"

definition SceneExists :: "uint8 \<Rightarrow> scene_table \<Rightarrow> bool" where
  "SceneExists i t \<longleftrightarrow> Scene_Get i t \<noteq> None"

definition ActivateScene :: "(value_id \<Rightarrow> string \<Rightarrow> 'w \<Rightarrow> bool \<times> 'w) \<Rightarrow> uint8 \<Rightarrow> scene_table \<Rightarrow> 'w \<Rightarrow> bool \<times> 'w" where
  "ActivateScene set_value i t w = (case Scene_Get i t of None \<Rightarrow> (False, w) | Some s \<Rightarrow> Scene_Activate set_value s w)"

section \<open>The file\<close>

record value_element =
  ve_name :: string
  ve_homeId :: "string option"
  ve_nodeId :: "int option"
  ve_genre :: "string option"
  ve_commandClassId :: "int option"
  ve_instance :: "int option"
  ve_index :: "int option"
  ve_type :: "string option"
  ve_text :: "string option"

record scene_element =
  xe_id :: "int option"
  xe_label :: "string option"
  xe_values :: "value_element list"

record scene_file =
  xf_version :: "int option"
  xf_scenes :: "scene_element list"

text \<open>What the XML library gives back of the text inside an element and of an attribute that were written.\<close>

record xml_library =
  xl_text :: "string \<Rightarrow> string option"
  xl_attribute :: "string \<Rightarrow> string"

definition write_value :: "xml_library \<Rightarrow> value_id \<times> string \<Rightarrow> value_element" where
  "write_value xl e = (case e of (v, x) \<Rightarrow>
     \<lparr> ve_name = ''Value'', ve_homeId = Some (''0x'' @ pad_left CHR ''0'' 8 (hex_nat (unat (vid_homeId v)))),
       ve_nodeId = Some (uint (GetNodeId v)), ve_genre = GetGenreNameFromEnum (genre_num (GetGenre v)),
       ve_commandClassId = Some (uint (GetCommandClassId v)), ve_instance = Some (uint (GetInstance v)),
       ve_index = Some (uint (GetIndex v)), ve_type = GetTypeNameFromEnum (unat (vid_id v AND 0x0000000f)),
       ve_text = xl_text xl x \<rparr>)"

definition Scene_WriteXML :: "xml_library \<Rightarrow> scene_table \<Rightarrow> scene_file" where
  "Scene_WriteXML xl t =
     \<lparr> xf_version = Some 1,
       xf_scenes = concat (map (\<lambda>i. case sb_scenes t (of_nat i) of None \<Rightarrow> []
         | Some s \<Rightarrow> [\<lparr> xe_id = Some (int i), xe_label = Some (xl_attribute xl (sn_label s)), xe_values = map (write_value xl) (sn_values s) \<rparr>])
         [1..<256]) \<rparr>"

text \<open>\<open>strtol(str, &p, 0)\<close>: the base is told by the prefix; a number too large is the largest.\<close>

fun oct_digits :: "nat \<Rightarrow> string \<Rightarrow> nat" where
  "oct_digits n [] = n"
| "oct_digits n (c # cs) = (case Options_Store.digit_value c of None \<Rightarrow> n | Some k \<Rightarrow> if k < 8 then oct_digits (8 * n + k) cs else n)"

definition strtol_auto :: "string \<Rightarrow> int" where
  "strtol_auto s =
     (let s1 = dropWhile Options_Store.is_space s;
          t = (if take 1 s1 = ''-'' \<or> take 1 s1 = ''+'' then drop 1 s1 else s1);
          x = drop_0x t;
          n = (if x \<noteq> t \<and> x \<noteq> [] \<and> hex_value (hd x) \<noteq> None then int (hex_digits 0 x)
               else if take 1 t = ''0'' then int (oct_digits 0 t) else Options_Store.digits 0 t)
      in max (- (2 ^ 63)) (min (2 ^ 63 - 1) (if take 1 s1 = ''-'' then - n else n)))"

definition read_homeId :: "string option \<Rightarrow> uint32" where
  "read_homeId a = (case a of None \<Rightarrow> 0 | Some s \<Rightarrow> of_int (strtol_auto s))"

definition int_attribute :: "int option \<Rightarrow> uint8" where
  "int_attribute a = (case a of None \<Rightarrow> 0 | Some i \<Rightarrow> of_int i)"

text \<open>The index is kept in eight bits; a missing text is a null pointer.\<close>

definition read_element :: "value_element \<Rightarrow> (value_id \<times> string) option" where
  "read_element e = map_option (Pair (ValueID_new (read_homeId (ve_homeId e)) (int_attribute (ve_nodeId e))
     (GetGenreEnumFromName (ve_genre e)) (int_attribute (ve_commandClassId e)) (int_attribute (ve_instance e))
     (ucast (int_attribute (ve_index e))) (GetTypeEnumFromName (ve_type e)))) (ve_text e)"

fun read_elements :: "value_element list \<Rightarrow> (value_id \<times> string) list option" where
  "read_elements [] = Some []"
| "read_elements (e # es) =
     (if ve_name e = ''Value'' then do { x \<leftarrow> read_element e; xs \<leftarrow> read_elements es; Some (x # xs) } else read_elements es)"

definition read_scene :: "scene_element \<Rightarrow> uint8 \<Rightarrow> scene_table \<Rightarrow> scene_table option" where
  "read_scene e i t = do {
     xs \<leftarrow> read_elements (xe_values e);
     Some (on_scene i (\<lambda>s. \<lparr> sn_label = (case xe_label e of None \<Rightarrow> sn_label s | Some l \<Rightarrow> l), sn_values = sn_values s @ xs \<rparr>)
       (Scene_new i t))
   }"

text \<open>An element without a number is looked at again and again.\<close>

partial_function (option) read_scenes :: "scene_element list \<Rightarrow> scene_table \<Rightarrow> scene_table option" where
  "read_scenes es t =
     (case es of [] \<Rightarrow> Some t
      | e # rest \<Rightarrow> (case xe_id e of None \<Rightarrow> read_scenes es t
          | Some i \<Rightarrow> Option.bind (read_scene e (of_int i) t) (read_scenes rest)))"

definition Scene_ReadScenes :: "scene_file option \<Rightarrow> scene_table \<Rightarrow> (bool \<times> scene_table) option" where
  "Scene_ReadScenes file t =
     (case file of None \<Rightarrow> Some (False, t)
      | Some f \<Rightarrow> if xf_version f = Some 1 then map_option (Pair True) (read_scenes (xf_scenes f) t) else Some (False, t))"

section \<open>The count is right\<close>

definition scene_inv :: "scene_table \<Rightarrow> bool" where
  "scene_inv t \<longleftrightarrow> sb_scenes t 0 = None \<and> sb_cnt t = of_nat (card (dom (sb_scenes t)))"

definition used_scenes :: "scene_table \<Rightarrow> nat list" where
  "used_scenes t = filter (\<lambda>i. sb_scenes t (of_nat i) \<noteq> None) [1..<256]"

lemma byte_numbers: "inj_on (of_nat :: nat \<Rightarrow> uint8) {1..<256}" "(of_nat ` {1..<256} :: uint8 set) = - {0}"
proof -
  show "inj_on (of_nat :: nat \<Rightarrow> uint8) {1..<256}"
    by (rule inj_onI) (auto simp: word_unat_eq_iff unat_of_nat take_bit_nat_eq_self)
  show "(of_nat ` {1..<256} :: uint8 set) = - {0}"
  proof (intro set_eqI iffI)
    fix j :: uint8 assume "j \<in> of_nat ` {1..<256}"
    then show "j \<in> - {0}" by (auto simp: word_unat_eq_iff unat_of_nat take_bit_nat_eq_self)
  next
    fix j :: uint8 assume "j \<in> - {0}"
    then have "unat j \<noteq> 0" by (simp add: unat_eq_zero)
    then have "j = of_nat (unat j) \<and> unat j \<in> {1..<256}" using unat_byte_less [of j] by simp
    then show "j \<in> of_nat ` {1..<256}" by blast
  qed
qed

lemma dom_used: "sb_scenes t 0 = None \<Longrightarrow> dom (sb_scenes t) = of_nat ` set (used_scenes t)"
proof -
  assume "sb_scenes t 0 = None"
  then have "dom (sb_scenes t) \<subseteq> of_nat ` {1..<256}" unfolding byte_numbers(2) by auto
  then show ?thesis by (auto simp: used_scenes_def)
qed

lemma card_used: "sb_scenes t 0 = None \<Longrightarrow> card (dom (sb_scenes t)) = length (used_scenes t)"
proof -
  assume z: "sb_scenes t 0 = None"
  have "inj_on (of_nat :: nat \<Rightarrow> uint8) (set (used_scenes t))"
    by (rule inj_on_subset [OF byte_numbers(1)]) (auto simp: used_scenes_def)
  moreover have "distinct (used_scenes t)" by (simp add: used_scenes_def)
  ultimately show ?thesis unfolding dom_used [OF z] by (simp add: card_image distinct_card)
qed

lemma used_bound: "length (used_scenes t) \<le> 255"
  using length_filter_le [of _ "[1..<256 :: nat]"] by (simp add: used_scenes_def)

lemma scene_inv_used: "scene_inv t \<longleftrightarrow> sb_scenes t 0 = None \<and> unat (sb_cnt t) = length (used_scenes t)"
proof (cases "sb_scenes t 0 = None")
  case True
  have "unat (of_nat (length (used_scenes t)) :: uint8) = length (used_scenes t)"
    using used_bound [of t] by (simp add: unat_of_nat take_bit_nat_eq_self)
  then show ?thesis using True by (auto simp: scene_inv_def card_used word_unat_eq_iff)
qed (auto simp: scene_inv_def)

lemma scene_inv_empty: "scene_inv scenes_empty"
  by (simp add: scene_inv_def scenes_empty_def)

lemma scene_inv_new:
  assumes "scene_inv t" "i \<noteq> 0" "sb_scenes t i = None"
  shows "scene_inv (Scene_new i t)"
proof -
  have "i \<notin> dom (sb_scenes t)" using assms(3) by auto
  then show ?thesis using assms(1,2) by (simp add: scene_inv_def Scene_new_def)
qed

lemma scene_inv_delete:
  assumes "scene_inv t" "sb_scenes t i \<noteq> None"
  shows "scene_inv (Scene_delete i t)"
proof -
  have "i \<in> dom (sb_scenes t)" using assms(2) by auto
  then have "card (dom (sb_scenes t)) = Suc (card (dom (sb_scenes t) - {i}))"
    using card_Suc_Diff1 [OF finite, of i "dom (sb_scenes t)"] by simp
  then show ?thesis using assms(1) by (auto simp: scene_inv_def Scene_delete_def)
qed

lemma scene_inv_on: "scene_inv t \<Longrightarrow> scene_inv (on_scene i f t)"
proof -
  assume t: "scene_inv t"
  have "dom (sb_scenes (on_scene i f t)) = dom (sb_scenes t)" by (auto simp: on_scene_def split: if_splits)
  then show ?thesis using t by (auto simp: scene_inv_def on_scene_def)
qed

lemma scene_inv_keep: "scene_inv t \<Longrightarrow> scene_inv (keep_values P i t)"
  by (auto simp: keep_values_def Let_def intro: scene_inv_delete scene_inv_on split: option.split)

lemma scene_inv_fold:
  assumes "scene_inv t" "\<And>x t. x \<in> set xs \<Longrightarrow> scene_inv t \<Longrightarrow> scene_inv (f x t)"
  shows "scene_inv (fold f xs t)"
  using assms by (induction xs arbitrary: t) auto

text \<open>Every operation of the application keeps the count.\<close>

lemma CreateScene_inv:
  assumes "scene_inv t"
  shows "scene_inv (snd (CreateScene t))"
proof (cases "find (\<lambda>i. sb_scenes t (of_nat i) = None) [1..<256]")
  case (Some i)
  then have "i \<in> {1..<256}" "sb_scenes t (of_nat i) = None" by (auto simp: find_Some_iff)
  then have "(of_nat i :: uint8) \<noteq> 0" using byte_numbers(2) by blast
  then show ?thesis using scene_inv_new [OF assms] \<open>sb_scenes t (of_nat i) = None\<close> Some by (simp add: CreateScene_def)
qed (simp add: CreateScene_def assms)

lemma scene_operations_inv:
  assumes "scene_inv t"
  shows "scene_inv (snd (RemoveScene i t))" "scene_inv (Scene_RemoveValues h n t)" "scene_inv (RemoveAllScenes h t)"
    "scene_inv (snd (AddSceneValue i v x t))" "scene_inv (snd (SetSceneValue i v x t))"
    "scene_inv (snd (RemoveSceneValue i v t))" "scene_inv (SetSceneLabel i l t)"
proof -
  have rm: "scene_inv (snd (RemoveScene i t))" if "scene_inv t" for i t
    using that scene_inv_delete [of t i] by (auto simp: RemoveScene_def Scene_Get_def split: option.split)
  show "scene_inv (snd (RemoveScene i t))" by (rule rm [OF assms])
  show "scene_inv (Scene_RemoveValues h n t)"
    unfolding Scene_RemoveValues_def by (rule scene_inv_fold [OF assms]) (rule scene_inv_keep)
  show "scene_inv (RemoveAllScenes h t)"
    unfolding RemoveAllScenes_def Scene_RemoveValues_home_def using rm scene_inv_keep by (intro scene_inv_fold [OF assms]) auto
  show "scene_inv (snd (AddSceneValue i v x t))" "scene_inv (snd (SetSceneValue i v x t))"
    "scene_inv (snd (RemoveSceneValue i v t))" "scene_inv (SetSceneLabel i l t)"
    using assms scene_inv_on
    by (auto simp: AddSceneValue_def SetSceneValue_def RemoveSceneValue_def SetSceneLabel_def split: option.split prod.split)
qed

text \<open>Then the array of numbers is filled exactly, in ascending order.\<close>

lemma fill_ids_used:
  assumes "j + length (filter (\<lambda>i. sb_scenes t (of_nat i) \<noteq> None) is) \<le> length xs"
  shows "fill_ids is j t xs = Some (take j xs @ map (\<lambda>i. Some (of_nat i)) (filter (\<lambda>i. sb_scenes t (of_nat i) \<noteq> None) is) @
    drop (j + length (filter (\<lambda>i. sb_scenes t (of_nat i) \<noteq> None) is)) xs)"
  using assms
proof (induction "is" arbitrary: j xs)
  case (Cons i "is")
  show ?case
  proof (cases "sb_scenes t (of_nat i) = None")
    case True
    then show ?thesis using Cons by simp
  next
    case False
    then obtain s where s: "sb_scenes t (of_nat i) = Some s" by auto
    then have j: "j < length xs" using Cons.prems by simp
    then have "take (j + 1) (xs[j := Some (of_nat i)]) = take j xs @ [Some (of_nat i)]" by (simp add: take_Suc_conv_app_nth)
    then show ?thesis using s j Cons.prems Cons.IH [of "j + 1" "xs[j := Some (of_nat i)]"] by simp
  qed
qed simp

lemma GetAllScenes_exact:
  assumes "scene_inv t"
  shows "GetAllScenes t = Some (map (\<lambda>i. Some (of_nat i)) (used_scenes t), of_nat (length (used_scenes t)))"
proof -
  have u: "unat (sb_cnt t) = length (used_scenes t)" using assms by (simp add: scene_inv_used)
  then have c: "sb_cnt t = of_nat (length (used_scenes t))" by (simp flip: u)
  show ?thesis
  proof (cases "used_scenes t = []")
    case True
    then show ?thesis using c by (simp add: GetAllScenes_def)
  next
    case False
    then have "0 < sb_cnt t" using u by (simp add: word_less_nat_alt)
    then show ?thesis
      using fill_ids_used [of 0 t "[1..<256]" "replicate (unat (sb_cnt t)) None"] u c
      by (simp add: GetAllScenes_def used_scenes_def)
  qed
qed

section \<open>Scenes survive a restart\<close>

lemma hex_digits_append:
  "\<forall>c \<in> set xs. hex_value c \<noteq> None \<Longrightarrow> hex_digits m (xs @ ys) = hex_digits (hex_digits m xs) ys"
  by (induction xs arbitrary: m) auto

lemma hex_nat_digits: "(\<forall>c \<in> set (hex_nat n). hex_value c \<noteq> None) \<and> hex_digits 0 (hex_nat n) = n \<and> hex_nat n \<noteq> []"
proof (induction n rule: hex_nat.induct)
  case (1 n)
  show ?case
  proof (cases "n < 16")
    case True
    then show ?thesis using hex_char_props(1) [of n] by (simp add: hex_nat.simps [of n])
  next
    case False
    have "hex_value (hex_char (n mod 16)) = Some (n mod 16)" by (intro hex_char_props) simp
    then show ?thesis using False 1 by (simp add: hex_nat.simps [of n] hex_digits_append)
  qed
qed

lemma hex_digits_pad: "hex_digits 0 (pad_left CHR ''0'' w (hex_nat n)) = n"
proof -
  have "hex_digits 0 (replicate k CHR ''0'' @ xs) = hex_digits 0 xs" for k xs
    by (induction k) (simp_all add: hex_value_def)
  then show ?thesis using hex_nat_digits [of n] by (simp add: pad_left_def)
qed

lemma strtol_hex:
  assumes "p \<noteq> []" "hex_value (hd p) \<noteq> None" "int (hex_digits 0 p) \<le> 2 ^ 63 - 1"
  shows "strtol_auto (CHR ''0'' # CHR ''x'' # p) = int (hex_digits 0 p)"
proof -
  have ne: "p \<noteq> CHR ''0'' # CHR ''x'' # p" by (auto dest: arg_cong [where f = length])
  have sp: "dropWhile Options_Store.is_space (CHR ''0'' # CHR ''x'' # p) = CHR ''0'' # CHR ''x'' # p"
    by (simp add: Options_Store.is_space_def)
  show ?thesis unfolding strtol_auto_def sp Let_def using assms ne by simp
qed

lemma read_homeId_written: "read_homeId (Some (CHR ''0'' # CHR ''x'' # pad_left CHR ''0'' 8 (hex_nat (unat h)))) = h"
proof -
  define p where "p = pad_left CHR ''0'' 8 (hex_nat (unat h))"
  have "hex_value CHR ''0'' = Some 0" by (simp add: hex_value_def)
  then have d: "\<forall>c \<in> set p. hex_value c \<noteq> None" "p \<noteq> []"
    using hex_nat_digits [of "unat h"] by (auto simp: p_def pad_left_def)
  then have h: "hex_value (hd p) \<noteq> None" by simp
  have v: "hex_digits 0 p = unat h" by (simp add: p_def hex_digits_pad)
  have "unat h < 2 ^ LENGTH(32)" by (rule unsigned_less)
  then have "unat h < 4294967296" by simp
  then have "int (hex_digits 0 p) \<le> 4294967296" unfolding v by linarith
  also have "\<dots> \<le> 2 ^ 63 - 1" by simp
  finally have "int (hex_digits 0 p) \<le> 2 ^ 63 - 1" .
  from strtol_hex [OF d(2) h this] show ?thesis by (simp add: read_homeId_def v flip: p_def)
qed

lemma name_indices: "[0..<4] = [0, 1, 2, 3 :: nat]" "[0..<11] = [0, 1, 2, 3, 4, 5, 6, 7, 8, 9, 10 :: nat]"
  by (simp_all add: upt_rec)

lemma genre_name_read: "GetGenreEnumFromName (GetGenreNameFromEnum (genre_num g)) = g"
  by (cases g) (simp_all add: GetGenreEnumFromName_def GetGenreNameFromEnum_def c_genreName_def genres_def peek_def name_indices)

lemma type_name_read: "GetTypeEnumFromName (GetTypeNameFromEnum (type_num t)) = t"
  by (cases t) (simp_all add: GetTypeEnumFromName_def GetTypeNameFromEnum_def c_typeName_def types_def peek_def name_indices)

lemma byte_written: "int_attribute (Some (uint b)) = b"
  by (simp add: int_attribute_def)

lemma index_written:
  assumes "x < 256"
  shows "ucast (int_attribute (Some (uint (x :: uint16)))) = x"
proof -
  have "unat x < 256" using assms by (simp add: word_less_nat_alt)
  then show ?thesis by (simp add: int_attribute_def word_unat_eq_iff unsigned_ucast_eq unsigned_take_bit_eq take_bit_nat_eq_self)
qed

text \<open>
  What can be saved: proper identifiers with an index below 256, and texts and labels the XML library gives back.
\<close>

definition savable :: "xml_library \<Rightarrow> scene \<Rightarrow> bool" where
  "savable xl s \<longleftrightarrow> xl_attribute xl (sn_label s) = sn_label s \<and>
     (\<forall>(v, x) \<in> set (sn_values s). xl_text xl x = Some x \<and>
        (\<exists>h n g c i idx t. v = ValueID_new h n g c i idx t \<and> idx < 256))"

lemma unat_type_bits: "unat (vid_id (ValueID_new h n g c i idx t) AND 0x0000000f) = type_num t"
proof -
  have "unat (vid_id (ValueID_new h n g c i idx t) AND 0xf) = unat (vid_id (ValueID_new h n g c i idx t)) mod 2 ^ 4"
    using unat_field [of 0 "vid_id (ValueID_new h n g c i idx t)" 4] unfolding masks by simp
  then show ?thesis
    using pack_fields(5) [OF unat_u8_less [of n] genre_num_less [of g] unat_u8_less [of c] unat_u8_less [of i] type_num_less [of t]]
    unfolding unat_ValueID by simp
qed

lemma read_element_written:
  assumes "v = ValueID_new h n g c i idx t" "idx < 256" "xl_text xl x = Some x"
  shows "read_element (write_value xl (v, x)) = Some (v, x)"
  using assms(3) index_written [OF assms(2)]
  by (simp add: read_element_def write_value_def assms(1) ValueID_getters unat_type_bits read_homeId_written
      genre_name_read type_name_read byte_written)

lemma read_elements_written:
  assumes "\<forall>(v, x) \<in> set vs. xl_text xl x = Some x \<and> (\<exists>h n g c i idx t. v = ValueID_new h n g c i idx t \<and> idx < 256)"
  shows "read_elements (map (write_value xl) vs) = Some vs"
  using assms
proof (induction vs)
  case (Cons e vs)
  obtain v x where e: "e = (v, x)" by (cases e)
  then obtain h n g c i idx t where "v = ValueID_new h n g c i idx t" "idx < 256" "xl_text xl x = Some x"
    using Cons.prems by auto
  then have "read_element (write_value xl e) = Some e" unfolding e by (rule read_element_written)
  moreover have "ve_name (write_value xl e) = ''Value''" by (simp add: write_value_def e)
  ultimately show ?case using Cons by simp
qed simp

lemma read_scene_written:
  assumes "savable xl s"
  shows "read_scene \<lparr> xe_id = a, xe_label = Some (xl_attribute xl (sn_label s)), xe_values = map (write_value xl) (sn_values s) \<rparr> i t =
    Some \<lparr> sb_cnt = sb_cnt t + 1, sb_scenes = (sb_scenes t)(i \<mapsto> s) \<rparr>"
proof -
  have "read_elements (map (write_value xl) (sn_values s)) = Some (sn_values s)"
    by (rule read_elements_written) (use assms in \<open>auto simp: savable_def\<close>)
  then show ?thesis using assms by (cases t; cases s) (simp add: read_scene_def on_scene_def Scene_new_def savable_def)
qed

lemma read_scenes_written:
  assumes "\<forall>i \<in> set is. \<forall>s. sb_scenes t (of_nat i) = Some s \<longrightarrow> savable xl s"
  shows "read_scenes (concat (map (\<lambda>i. case sb_scenes t (of_nat i) of None \<Rightarrow> []
         | Some s \<Rightarrow> [\<lparr> xe_id = Some (int i), xe_label = Some (xl_attribute xl (sn_label s)), xe_values = map (write_value xl) (sn_values s) \<rparr>])
         is)) t0 =
    Some \<lparr> sb_cnt = sb_cnt t0 + of_nat (length (filter (\<lambda>i. sb_scenes t (of_nat i) \<noteq> None) is)),
           sb_scenes = (\<lambda>j. if j \<in> of_nat ` set is \<and> sb_scenes t j \<noteq> None then sb_scenes t j else sb_scenes t0 j) \<rparr>"
  using assms
proof (induction "is" arbitrary: t0)
  case Nil
  then show ?case by (simp add: read_scenes.simps)
next
  case (Cons i "is")
  show ?case
  proof (cases "sb_scenes t (of_nat i)")
    case None
    then have "\<And>j. j = of_nat i \<Longrightarrow> sb_scenes t j = None" by simp
    then show ?thesis using None Cons by (auto simp: fun_eq_iff)
  next
    case (Some s)
    then have "savable xl s" using Cons.prems by auto
    note step = read_scene_written [OF this]
    show ?thesis
      using Some Cons.prems Cons.IH [of "\<lparr> sb_cnt = sb_cnt t0 + 1, sb_scenes = (sb_scenes t0)(of_nat i \<mapsto> s) \<rparr>"]
      by (subst (1) list.map, subst concat.simps, subst read_scenes.simps) (auto simp: step fun_eq_iff)
  qed
qed


definition evening_scene :: scene_table where
  "evening_scene = snd (AddSceneValue 1 (ValueID_new 0xdeadbeef 7 Genre_User 0x26 1 0 Type_Byte) (SD_Byte 40)
     (SetSceneLabel 1 ''Evening'' (snd (CreateScene scenes_empty))))"

lemma evening_scene_inv: "scene_inv evening_scene"
  unfolding evening_scene_def by (intro scene_operations_inv CreateScene_inv scene_inv_empty)

lemma CreateScene_first: "CreateScene scenes_empty = (1, Scene_new 1 scenes_empty)"
  by (simp add: CreateScene_def scenes_empty_def upt_conv_Cons del: upt_Suc)

lemma evening_scene_values:
  "sb_scenes evening_scene = [1 \<mapsto> \<lparr>sn_label = ''Evening'', sn_values = [(ValueID_new 0xdeadbeef 7 Genre_User 0x26 1 0 Type_Byte, ''40'')]\<rparr>]"
proof -
  have "sb_scenes (Scene_new 1 scenes_empty) = [1 \<mapsto> \<lparr>sn_label = [], sn_values = []\<rparr>]"
    by (simp add: Scene_new_def scenes_empty_def)
  moreover have "dec_int 40 = ''40''" by code_simp
  ultimately show ?thesis
    by (simp add: evening_scene_def CreateScene_first SetSceneLabel_def on_scene_def AddSceneValue_def Scene_Get_def
        Scene_AddValue_def)
qed


section \<open>What is lost\<close>

text \<open>An index from 256 on comes back as another value.\<close>

lemma large_index_lost:
  assumes "256 \<le> idx" "xl_text xl x = Some x"
  obtains v where "read_element (write_value xl (ValueID_new h n g c i idx t, x)) = Some (v, x)" "GetIndex v \<noteq> idx"
proof -
  let ?v = "ValueID_new h n g c i (ucast (int_attribute (Some (uint idx)))) t"
  have "read_element (write_value xl (ValueID_new h n g c i idx t, x)) = Some (?v, x)"
    using assms(2)
    by (simp add: read_element_def write_value_def ValueID_getters unat_type_bits read_homeId_written
        genre_name_read type_name_read byte_written)
  moreover have "GetIndex ?v \<noteq> idx"
  proof
    assume "GetIndex ?v = idx"
    then have "unat idx = unat (int_attribute (Some (uint idx)))" by (metis ValueID_getters(5) unat_ucast_8_16)
    then show False using assms(1) unat_byte_less [of "int_attribute (Some (uint idx))"] by (simp add: word_le_nat_alt)
  qed
  ultimately show thesis using that by blast
qed

text \<open>A value that is to be set to an empty text ends the next start, and a scene element without a number makes it hang.\<close>

lemma empty_text_lost:
  assumes "xl_text xl [] = None"
  shows "read_element (write_value xl (v, [])) = None"
  using assms by (simp add: read_element_def write_value_def)

lemma unnumbered_scene_endless:
  assumes "xe_id e = None"
  shows "read_scenes (e # es) t = None"
proof -
  have "es' \<noteq> e # es" if r: "read_scenes es' t = Some t'" for es' t'
  proof (rule read_scenes.raw_induct [OF _ r])
    fix rs :: "scene_element list \<Rightarrow> scene_table \<Rightarrow> scene_table option" and es' t t'
    assume "\<And>es' t t'. rs es' t = Some t' \<Longrightarrow> es' \<noteq> e # es"
      "(case es' of [] \<Rightarrow> Some t | e # rest \<Rightarrow> (case xe_id e of None \<Rightarrow> rs es' t
          | Some i \<Rightarrow> Option.bind (read_scene e (of_int i) t) (rs rest))) = Some t'"
    then show "es' \<noteq> e # es" using assms by (auto split: list.splits option.splits)
  qed
  then show ?thesis by (cases "read_scenes (e # es) t") auto
qed

text \<open>When any node is deleted, the scenes that have no values yet are deleted with its values.\<close>

lemma new_scene_deleted:
  assumes "sb_scenes t 1 = Some \<lparr> sn_label = l, sn_values = [] \<rparr>"
  shows "sb_scenes (Scene_RemoveValues h n t) 1 = None"
proof -
  have gone: "sb_scenes (fold (\<lambda>i. keep_values P (of_nat i)) xs t) 1 = None" if "sb_scenes t 1 = None" for xs t and P
    using that
    by (induction xs arbitrary: t) (auto simp: keep_values_def on_scene_def Scene_delete_def Let_def split: option.split)
  have "sb_scenes (keep_values P 1 t) 1 = None" for P
    using assms by (simp add: keep_values_def Scene_delete_def)
  then have first: "sb_scenes (keep_values P (of_nat 1) t) 1 = None" for P by simp
  have u: "[1..<256] = 1 # [Suc 1..<256]" by (rule upt_conv_Cons) simp
  show ?thesis unfolding Scene_RemoveValues_def u fold_simps by (rule gone) (rule first)
qed

text \<open>A value that was added is read back as it was given.\<close>

lemma scene_value_added:
  assumes "sb_scenes t i = Some s" "v \<notin> fst ` set (sn_values s)"
  shows "scene_value i v (snd (AddSceneValue i v x t)) = Some (scene_text x)"
proof -
  have "v \<notin> fst ` set xs \<Longrightarrow> find (\<lambda>e. fst e = v) (xs @ [(v, y)]) = Some (v, y)" for xs and y :: string
    by (induction xs) auto
  note this [OF assms(2)]
  then show ?thesis using assms(1)
    by (simp add: scene_value_def AddSceneValue_def Scene_Get_def on_scene_def Scene_AddValue_def Scene_GetValue_def)
qed

lemma scene_value_typed:
  assumes "sb_scenes t i = Some s" "v \<notin> fst ` set (sn_values s)"
  shows "SceneGetValueAsByte i v (snd (AddSceneValue i v (SD_Byte b) t)) = Some b"
    "SceneGetValueAsInt i v (snd (AddSceneValue i v (SD_Int w) t)) = Some w"
    "SceneGetValueAsShort i v (snd (AddSceneValue i v (SD_Short h) t)) = Some h"
  using scene_value_added [OF assms]
  by (simp_all add: SceneGetValueAsByte_def SceneGetValueAsInt_def SceneGetValueAsShort_def dec_int_atol)

end
