(* ===== verification/Node_Names.thy ===== *)
theory Node_Names
  imports Driver_State
begin

text \<open>
  The name and the location a device keeps (\<open>NodeNaming.cpp\<close>), sent as ASCII and read in three encodings into a buffer of 32
  characters.  \<open>None\<close> is a write beyond the buffer or a read beyond the frame.  The half of a pair that the conversion
  keeps from one call to the next is explicit.
\<close>

section \<open>State\<close>

record name_env =
  ne_id :: uint8
  ne_options :: uint8
  ne_supported :: bool

record node_names =
  nn_name :: string
  nn_location :: string
  nn_surrogate :: uint16
  nn_sent :: "(msg_queue \<times> bytes) list"
  nn_notified :: nat

definition names_send :: "bytes \<Rightarrow> msg_queue \<Rightarrow> node_names \<Rightarrow> node_names" where
  "names_send bs q s = s\<lparr>nn_sent := nn_sent s @ [(q, bs)]\<rparr>"

section \<open>From UTF-16 to UTF-8\<close>

text \<open>The characters written so far; the position is their number.\<close>

definition put_chars :: "bytes \<Rightarrow> bytes \<Rightarrow> bytes option" where
  "put_chars str cs = (if length str + length cs \<le> 32 then Some (str @ cs) else None)"

definition ConvertUFT16ToUTF8 :: "uint16 \<Rightarrow> uint16 \<times> bytes \<Rightarrow> (uint16 \<times> bytes) option" where
  "ConvertUFT16ToUTF8 u s = (case s of (surrogate, str) \<Rightarrow>
     if surrogate \<noteq> 0 \<and> u AND 0xdc00 = 0xdc00 then
       map_option (Pair surrogate) (put_chars str
         [ucast ((drop_bit 7 surrogate AND 0x0007) OR 0x00f0),
          ucast ((drop_bit 1 surrogate AND 0x0020) OR (drop_bit 2 surrogate AND 0x000f) OR 0x0090),
          ucast ((drop_bit 6 u AND 0x000f) OR (push_bit 4 surrogate AND 0x0030) OR 0x0080),
          ucast ((u AND 0x003f) OR 0x0080)])
     else if u AND 0xff80 \<noteq> 0 then
       (if u AND 0xf800 \<noteq> 0 then
          (if u AND 0xd800 = 0xd800 then Some (u, str)
           else map_option (Pair 0) (put_chars str
             [ucast (drop_bit 12 u OR 0x00e0), ucast ((drop_bit 6 u AND 0x003f) OR 0x0080), ucast ((u AND 0x003f) OR 0x0080)]))
        else map_option (Pair 0) (put_chars str [ucast (drop_bit 6 u OR 0x00c0), ucast ((u AND 0x003f) OR 0x0080)]))
     else map_option (Pair 0) (put_chars str [ucast u]))"

section \<open>The text of a report\<close>

definition c_extendedAsciiToUnicode :: "uint16 list" where
  "c_extendedAsciiToUnicode =
     [0x20ac, 0x0081, 0x201a, 0x0192, 0x201e, 0x2026, 0x2020, 0x2021, 0x02c6, 0x2030, 0x0160, 0x2039, 0x0152, 0x008d, 0x017d, 0x008f,
      0x0090, 0x2018, 0x2019, 0x201c, 0x201d, 0x2022, 0x2013, 0x2014, 0x02dc, 0x2122, 0x0161, 0x203a, 0x0153, 0x009d, 0x017e, 0x0178]
     @ map of_nat [0xa0..<0x100]"

fun copy_ascii :: "bytes \<Rightarrow> nat list \<Rightarrow> uint16 \<times> bytes \<Rightarrow> (uint16 \<times> bytes) option" where
  "copy_ascii data [] s = Some s"
| "copy_ascii data (i # is) (sur, str) = do {
     b \<leftarrow> peek data (i + 2);
     str' \<leftarrow> put_chars str [b];
     copy_ascii data is (sur, str')
   }"

fun copy_extended :: "bytes \<Rightarrow> nat list \<Rightarrow> uint16 \<times> bytes \<Rightarrow> (uint16 \<times> bytes) option" where
  "copy_extended data [] s = Some s"
| "copy_extended data (i # is) (sur, str) = do {
     ch \<leftarrow> peek data (i + 2);
     s' \<leftarrow> (if 0x80 \<le> ch then ConvertUFT16ToUTF8 (c_extendedAsciiToUnicode ! unat (ch - 0x80)) (sur, str)
            else map_option (Pair sur) (put_chars str [ch]));
     copy_extended data is s'
   }"

fun copy_utf16 :: "bytes \<Rightarrow> nat list \<Rightarrow> uint16 \<times> bytes \<Rightarrow> (uint16 \<times> bytes) option" where
  "copy_utf16 data [] s = Some s"
| "copy_utf16 data (i # is) s = do {
     hi \<leftarrow> peek data (i + 2);
     lo \<leftarrow> peek data (i + 3);
     s' \<leftarrow> ConvertUFT16ToUTF8 (push_bit 8 (ucast hi) OR ucast lo) s;
     copy_utf16 data is s'
   }"

text \<open>The indices of the loops: \<open>i < numBytes\<close> in steps of one or two.\<close>

definition name_bytes :: "uint32 \<Rightarrow> nat" where
  "name_bytes len = min 16 (unat (ucast (len - 3) :: uint8))"

definition ExtractString :: "bytes \<Rightarrow> uint32 \<Rightarrow> uint16 \<Rightarrow> (bytes \<times> uint16) option" where
  "ExtractString data len sur = do {
     e \<leftarrow> peek data 1;
     let encoding = e AND 0x07;
     if len < 3 then Some ([], sur)
     else do {
       let n = name_bytes len;
       (sur', str) \<leftarrow>
         (if encoding = 0 then copy_ascii data [0..<n] (sur, [])
          else if encoding = 1 then copy_extended data [0..<n] (sur, [])
          else if encoding = 2 then copy_utf16 data (map ((*) 2) [0..<(n + 1) div 2]) (sur, [])
          else Some (sur, []));
       if length str < 32 then Some (takeWhile (\<lambda>c. c \<noteq> 0) str, sur') else None
     }
   }"

section \<open>Requests, reports and settings\<close>

definition Naming_RequestValue :: "name_env \<Rightarrow> uint16 \<Rightarrow> uint8 \<Rightarrow> msg_queue \<Rightarrow> node_names \<Rightarrow> bool \<times> node_names" where
  "Naming_RequestValue env get inst q s =
     (if inst \<noteq> 1 then (False, s)
      else if get = 0x02 then
        (if ne_supported env then (True, names_send [ne_id env, 2, 0x77, 0x02, ne_options env] q s) else (False, s))
      else if get = 0x05 then (True, names_send [ne_id env, 2, 0x77, 0x05, ne_options env] q s)
      else (False, s))"

definition Naming_RequestState :: "name_env \<Rightarrow> uint32 \<Rightarrow> uint8 \<Rightarrow> msg_queue \<Rightarrow> node_names \<Rightarrow> bool \<times> node_names" where
  "Naming_RequestState env flags inst q s =
     (if flags AND 0x2 \<noteq> 0 then
        (let (r1, s1) = (if nn_name s = [] then Naming_RequestValue env 0x02 inst q s else (False, s));
             (r2, s2) = (if nn_location s1 = [] then Naming_RequestValue env 0x05 inst q s1 else (False, s1))
         in (r1 \<or> r2, s2))
      else (False, s))"

definition chars :: "bytes \<Rightarrow> string" where
  "chars bs = map (\<lambda>b. char_of (unat b)) bs"

definition Naming_HandleMsg :: "bytes \<Rightarrow> uint32 \<Rightarrow> node_names \<Rightarrow> (bool \<times> node_names) option" where
  "Naming_HandleMsg data len s = do {
     cmd \<leftarrow> peek data 0;
     if cmd = 0x03 then do {
       (t, sur) \<leftarrow> ExtractString data len (nn_surrogate s);
       let s1 = s\<lparr>nn_surrogate := sur\<rparr>;
       Some (True, if nn_name s1 = [] then s1\<lparr>nn_name := chars t, nn_notified := nn_notified s1 + 1\<rparr> else s1)
     }
     else if cmd = 0x06 then do {
       (t, sur) \<leftarrow> ExtractString data len (nn_surrogate s);
       let s1 = s\<lparr>nn_surrogate := sur\<rparr>;
       Some (True, if nn_location s1 = [] then s1\<lparr>nn_location := chars t, nn_notified := nn_notified s1 + 1\<rparr> else s1)
     }
     else Some (True, s)
   }"

definition Naming_Set :: "name_env \<Rightarrow> uint8 \<Rightarrow> bytes \<Rightarrow> node_names \<Rightarrow> node_names" where
  "Naming_Set env cmd t = names_send
     ([ne_id env, of_nat (min (length t) 16 + 3), 0x77, cmd, 0] @ take 16 t @ [ne_options env]) MsgQueue_Send"

definition Naming_SetName :: "name_env \<Rightarrow> bytes \<Rightarrow> node_names \<Rightarrow> node_names" where
  "Naming_SetName env = Naming_Set env 0x01"

definition Naming_SetLocation :: "name_env \<Rightarrow> bytes \<Rightarrow> node_names \<Rightarrow> node_names" where
  "Naming_SetLocation env = Naming_Set env 0x04"

section \<open>The reference encodings\<close>

definition utf8 :: "nat \<Rightarrow> bytes" where
  "utf8 cp = map of_nat
     (if cp < 0x80 then [cp]
      else if cp < 0x800 then [0xC0 + cp div 64, 0x80 + cp mod 64]
      else if cp < 0x10000 then [0xE0 + cp div 4096, 0x80 + cp div 64 mod 64, 0x80 + cp mod 64]
      else [0xF0 + cp div 262144, 0x80 + cp div 4096 mod 64, 0x80 + cp div 64 mod 64, 0x80 + cp mod 64])"

definition utf16 :: "nat \<Rightarrow> uint16 list" where
  "utf16 cp = (if cp < 0x10000 then [of_nat cp]
     else [of_nat (0xD800 + (cp - 0x10000) div 1024), of_nat (0xDC00 + (cp - 0x10000) mod 1024)])"

text \<open>
  The characters that the conversion gets right: those of the first plane below \<open>0xF800\<close>, without the halves of pairs, and those of
  the second plane.
\<close>

definition convertible :: "nat \<Rightarrow> bool" where
  "convertible cp \<longleftrightarrow> cp < 0xD800 \<or> (0xE000 \<le> cp \<and> cp < 0xF800) \<or> (0x10000 \<le> cp \<and> cp < 0x20000)"

text \<open>The parts of a word as numbers.\<close>

lemma field16: "drop_bit k (w :: uint16) AND mask l = of_nat (unat w div 2 ^ k mod 2 ^ l)"
proof -
  have "drop_bit k w AND mask l = drop_bit k (w AND push_bit k (mask l))"
    by (rule bit_word_eqI) (auto simp: bit_simps dest: bit_imp_le_length)
  then have "unat (drop_bit k w AND mask l) = unat w div 2 ^ k mod 2 ^ l" by (simp only: unat_field)
  then show ?thesis by (metis of_nat_unat ucast_id)
qed

lemma masks16: "(0x0007 :: uint16) = mask 3" "(0x000f :: uint16) = mask 4" "(0x003f :: uint16) = mask 6"
  by (simp_all add: mask_eq_exp_minus_1)

lemma drop12: "drop_bit 12 (w :: uint16) = of_nat (unat w div 4096)"
  and drop6: "drop_bit 6 (w :: uint16) = of_nat (unat w div 64)"
  and low6: "(w :: uint16) AND mask 6 = of_nat (unat w mod 64)"
  using field16 [of 12 w 16] field16 [of 6 w 16] field16 [of 0 w 6] unat_u16_less [of w]
  by (simp_all add: mask_eq_exp_minus_1)

text \<open>The marks that are put over the six low bits, checked for every number they can have.\<close>

lemma marks:
  "a < 64 \<Longrightarrow> ucast (of_nat a OR 0x0080 :: uint16) = (of_nat (0x80 + a) :: uint8)"
  "b < 32 \<Longrightarrow> ucast (of_nat b OR 0x00c0 :: uint16) = (of_nat (0xC0 + b) :: uint8)"
  "c < 16 \<Longrightarrow> ucast (of_nat c OR 0x00e0 :: uint16) = (of_nat (0xE0 + c) :: uint8)"
proof -
  have "\<forall>a \<in> set [0..<64]. ucast (of_nat a OR 0x0080 :: uint16) = (of_nat (0x80 + a) :: uint8)" by code_simp
  then show "a < 64 \<Longrightarrow> ucast (of_nat a OR 0x0080 :: uint16) = (of_nat (0x80 + a) :: uint8)" by simp
  have "\<forall>b \<in> set [0..<32]. ucast (of_nat b OR 0x00c0 :: uint16) = (of_nat (0xC0 + b) :: uint8)" by code_simp
  then show "b < 32 \<Longrightarrow> ucast (of_nat b OR 0x00c0 :: uint16) = (of_nat (0xC0 + b) :: uint8)" by simp
  have "\<forall>c \<in> set [0..<16]. ucast (of_nat c OR 0x00e0 :: uint16) = (of_nat (0xE0 + c) :: uint8)" by code_simp
  then show "c < 16 \<Longrightarrow> ucast (of_nat c OR 0x00e0 :: uint16) = (of_nat (0xE0 + c) :: uint8)" by simp
qed

lemma push_drop: "push_bit k (drop_bit k (u :: uint16)) = u AND NOT (mask k)"
  by (rule bit_word_eqI) (auto simp: bit_simps)

lemma and_push_mask: "v AND push_bit k (mask l) = push_bit k (drop_bit k (v :: uint16) AND mask l)"
  by (rule bit_word_eqI) (auto simp: bit_simps)

text \<open>The test for the half of a pair: the five high bits, one of them left out.\<close>

lemma surrogate_test: "(u :: uint16) AND 0xd800 = 0xd800 \<longleftrightarrow> unat u div 2048 = 27 \<or> unat u div 2048 = 31"
proof -
  have d: "drop_bit 11 u = of_nat (unat u div 2048)"
    using field16 [of 11 u 16] unat_u16_less [of u] by (simp add: mask_eq_exp_minus_1)
  have "push_bit 11 (drop_bit 11 u AND 27) = push_bit 11 (drop_bit 11 u) AND push_bit 11 27" by (rule push_bit_and)
  also have "\<dots> = u AND (NOT (mask 11) AND 0xd800)" by (simp add: push_drop and.assoc)
  also have "NOT (mask 11) AND 0xd800 = (0xd800 :: uint16)" by (simp add: mask_eq_exp_minus_1)
  finally have "u AND 0xd800 = push_bit 11 (drop_bit 11 u AND 27)" by simp
  moreover have "\<forall>t \<in> set [0..<32]. push_bit 11 (of_nat t AND 27 :: uint16) = 0xd800 \<longleftrightarrow> t = 27 \<or> t = 31" by code_simp
  moreover have "unat u div 2048 < 32" using unat_u16_less [of u] by linarith
  ultimately show ?thesis unfolding d by simp
qed

lemma second_half: "(u :: uint16) AND 0xdc00 = 0xdc00 \<Longrightarrow> u AND 0xd800 = 0xd800 \<and> unat u div 1024 mod 2 = 1"
proof -
  assume u: "u AND 0xdc00 = 0xdc00"
  have "u AND 0xd800 = (u AND 0xdc00) AND 0xd800" by (simp add: and.assoc)
  moreover have "bit u 10" using arg_cong [OF u, of "\<lambda>w. bit w 10"] by (simp add: bit_simps)
  then have "bit (unat u) 10" by (simp add: bit_unsigned_iff)
  ultimately show ?thesis using u by (simp add: bit_iff_odd odd_iff_mod_2_eq_one)
qed

lemma second_half_test: "(u :: uint16) AND 0xd800 = 0xd800 \<Longrightarrow> bit u 10 \<Longrightarrow> u AND 0xdc00 = 0xdc00"
proof -
  assume h: "u AND 0xd800 = 0xd800" and b: "bit u 10"
  have "bit (unat u) 10" using b by (simp add: bit_unsigned_iff)
  then have "unat u div 1024 mod 2 = 1" by (simp add: bit_iff_odd odd_iff_mod_2_eq_one)
  then have "u AND push_bit 10 (mask 1) = push_bit 10 1" unfolding and_push_mask field16 by simp
  then have "u AND 0x0400 = 0x0400" by (simp add: mask_eq_exp_minus_1)
  then have "(u AND 0xd800) OR (u AND 0x0400) = 0xd800 OR 0x0400" using h by simp
  then show "u AND 0xdc00 = 0xdc00" by (simp flip: bit.conj_disj_distrib)
qed

lemma and_not_mask_zero: "(u :: uint16) AND NOT (mask k) = 0 \<longleftrightarrow> unat u < 2 ^ k"
proof -
  have "u AND NOT (mask k) = 0 \<longleftrightarrow> take_bit k u = u"
    by (auto simp: bit_eq_iff bit_simps)
  also have "\<dots> \<longleftrightarrow> take_bit k (unat u) = unat u" by (simp add: word_unat_eq_iff unsigned_take_bit_eq)
  also have "\<dots> \<longleftrightarrow> unat u < 2 ^ k" by (simp add: take_bit_nat_eq_self_iff)
  finally show ?thesis .
qed

lemma high_zero:
  "(u :: uint16) AND 0xff80 = 0 \<longleftrightarrow> unat u < 128" "u AND 0xf800 = 0 \<longleftrightarrow> unat u < 2048"
proof -
  have z: "u AND NOT (mask k) = 0 \<longleftrightarrow> unat u < 2 ^ k" for k
    by (simp add: and_not_mask_zero)
  have "NOT (mask 7) = (0xff80 :: uint16)" "NOT (mask 11) = (0xf800 :: uint16)" by (simp_all add: mask_eq_exp_minus_1)
  then show "u AND 0xff80 = 0 \<longleftrightarrow> unat u < 128" "u AND 0xf800 = 0 \<longleftrightarrow> unat u < 2048"
    using z [of 7] z [of 11] by simp_all
qed

section \<open>The conversion meets the reference\<close>

lemma unat_u16_of_nat: "n < 65536 \<Longrightarrow> unat (of_nat n :: uint16) = n"
  by (simp add: unat_of_nat take_bit_nat_eq_self)

lemma convert_single:
  assumes "cp < 0xD800 \<or> 0xE000 \<le> cp \<and> cp < 0xF800"
  shows "ConvertUFT16ToUTF8 (of_nat cp) (sur, str) = map_option (Pair 0) (put_chars str (utf8 cp))"
proof -
  let ?u = "of_nat cp :: uint16"
  have u: "unat ?u = cp" using assms by (intro unat_u16_of_nat) auto
  have "cp div 2048 \<noteq> 27" "cp div 2048 \<noteq> 31" using assms by auto
  then have s: "?u AND 0xd800 \<noteq> 0xd800" unfolding surrogate_test u by simp
  then have l: "?u AND 0xdc00 \<noteq> 0xdc00" using second_half by blast
  have m: "cp mod 64 < 64" "cp div 64 mod 64 < 64" by simp_all
  have d: "drop_bit 6 ?u AND mask 6 = of_nat (cp div 64 mod 64)" using field16 [of 6 ?u 6] u by simp
  consider "cp < 128" | "128 \<le> cp" "cp < 2048" | "2048 \<le> cp" by linarith
  then show ?thesis
  proof cases
    case 1
    then have "utf8 cp = [ucast ?u]" by (simp add: utf8_def unsigned_of_nat take_bit_nat_eq_self)
    then show ?thesis using 1 u l by (simp add: ConvertUFT16ToUTF8_def high_zero)
  next
    case 2
    then have "cp div 64 < 32" by simp
    then have "utf8 cp = [ucast (drop_bit 6 ?u OR 0x00c0), ucast ((?u AND 0x003f) OR 0x0080)]"
      using 2 u by (simp only: utf8_def masks16 drop6 low6 marks m u) simp
    then show ?thesis using 2 u l by (simp add: ConvertUFT16ToUTF8_def high_zero)
  next
    case 3
    then have "cp div 4096 < 16" using assms by auto
    then have "utf8 cp = [ucast (drop_bit 12 ?u OR 0x00e0), ucast ((drop_bit 6 ?u AND 0x003f) OR 0x0080), ucast ((?u AND 0x003f) OR 0x0080)]"
      using 3 assms by (simp add: utf8_def masks16 drop12 d low6 [of "of_nat cp"] marks m u)
    then show ?thesis using 3 u l s by (simp add: ConvertUFT16ToUTF8_def high_zero)
  qed
qed

lemma convert_first:
  assumes "x < 64"
  shows "ConvertUFT16ToUTF8 (of_nat (0xD800 + x)) (sur, str) = Some (of_nat (0xD800 + x), str)"
proof -
  let ?u = "of_nat (0xD800 + x) :: uint16"
  have u: "unat ?u = 0xD800 + x" using assms by (intro unat_u16_of_nat) simp
  have "(0xD800 + x) div 2048 = 27" "(0xD800 + x) div 1024 = 54" using assms by linarith+
  then have "?u AND 0xd800 = 0xd800" "?u AND 0xdc00 \<noteq> 0xdc00"
    using second_half [of ?u] unfolding surrogate_test u by auto
  moreover have "?u AND 0xff80 \<noteq> 0" "?u AND 0xf800 \<noteq> 0" unfolding high_zero u by simp_all
  ultimately show ?thesis by (simp add: ConvertUFT16ToUTF8_def del: of_nat_add)
qed

text \<open>The parts of the first half, for each of the 64 that the second plane has.\<close>

lemma pair_marks:
  "q < 16 \<Longrightarrow> ucast (of_nat q OR 0x0090 :: uint16) = (of_nat (0x90 + q) :: uint8)"
proof -
  have "\<forall>q \<in> set [0..<16]. ucast (of_nat q OR 0x0090 :: uint16) = (of_nat (0x90 + q) :: uint8)" by code_simp
  then show "q < 16 \<Longrightarrow> ucast (of_nat q OR 0x0090 :: uint16) = (of_nat (0x90 + q) :: uint8)" by simp
qed

lemma first_half_parts:
  assumes "x < 64" and u: "unat (u :: uint16) = 0xD800 + x"
  shows "drop_bit 7 u AND 0x0007 = 0"
    "drop_bit 1 u AND 0x0020 = 0"
    "drop_bit 2 u AND 0x000f = of_nat (x div 4)"
    "push_bit 4 u AND 0x0030 = of_nat (x mod 4 * 16)"
proof -
  have "(0xD800 + x) div 128 = 432" using assms by linarith
  then show "drop_bit 7 u AND 0x0007 = 0" using field16 [of 7 u 3] u by (simp add: masks16)
  have "(0xD800 + x) div 64 = 864" using assms by linarith
  then have "drop_bit 1 u AND push_bit 5 (mask 1) = 0" unfolding and_push_mask using field16 [of 6 u 1] u by simp
  then show "drop_bit 1 u AND 0x0020 = 0" by (simp add: mask_eq_exp_minus_1)
  have "(0xD800 + x) div 4 = 16 * 864 + x div 4" "x div 4 < 16" using assms by simp_all
  then have "(0xD800 + x) div 4 mod 16 = x div 4" by (metis mod_mult_self4 mod_less)
  then show "drop_bit 2 u AND 0x000f = of_nat (x div 4)" using field16 [of 2 u 4] u by (simp add: masks16)
  have "(0x0030 :: uint16) = push_bit 4 (mask 2)" by (simp add: mask_eq_exp_minus_1)
  then have "push_bit 4 u AND 0x0030 = push_bit 4 (drop_bit 0 u AND mask 2)" by (simp add: push_bit_and)
  also have "drop_bit 0 u AND mask 2 = of_nat ((0xD800 + x) mod 4)" unfolding field16 u by simp
  also have "0xD800 + x = 4 * 13824 + x" by simp
  also have "(4 * 13824 + x) mod 4 = x mod 4" by (rule mod_mult_self4)
  also have "push_bit 4 (of_nat (x mod 4)) = (of_nat (x mod 4 * 16) :: uint16)" by (simp add: push_bit_eq_mult)
  finally show "push_bit 4 u AND 0x0030 = of_nat (x mod 4 * 16)" .
qed

lemma third_mark:
  assumes "m < 4" "a < 16"
  shows "ucast (of_nat a OR of_nat (m * 16) OR 0x0080 :: uint16) = (of_nat (0x80 + (m * 16 + a)) :: uint8)"
proof -
  have "\<forall>m \<in> set [0..<4]. \<forall>a \<in> set [0..<16]. ucast (of_nat a OR of_nat (m * 16) OR 0x0080 :: uint16) = (of_nat (0x80 + (m * 16 + a)) :: uint8)"
    by code_simp
  then show ?thesis using assms by simp
qed

lemma pair_parts:
  assumes "q < 16" "r < 4" "z < 16" "t < 64"
  shows "(0x10000 + (q * 4 + r) * 1024 + (z * 64 + t)) div 262144 = (0 :: nat)"
    "(0x10000 + (q * 4 + r) * 1024 + (z * 64 + t)) div 4096 mod 64 = 16 + q"
    "(0x10000 + (q * 4 + r) * 1024 + (z * 64 + t)) div 64 mod 64 = r * 16 + z"
    "(0x10000 + (q * 4 + r) * 1024 + (z * 64 + t)) mod 64 = t"
proof -
  let ?n = "0x10000 + (q * 4 + r) * 1024 + (z * 64 + t)"
  show "?n div 262144 = 0" using assms by simp
  have "?n = 4096 * (16 + q) + (r * 1024 + z * 64 + t)" "r * 1024 + z * 64 + t < 4096" using assms by simp_all
  then have "?n div 4096 = 16 + q" by simp
  then show "?n div 4096 mod 64 = 16 + q" using assms by simp
  have "?n = 64 * (64 * (16 + q) + (r * 16 + z)) + t" by simp
  then have "?n div 64 = 64 * (16 + q) + (r * 16 + z)" using assms by simp
  moreover have "r * 16 + z < 64" using assms by simp
  ultimately show "?n div 64 mod 64 = r * 16 + z" by (metis mod_mult_self4 mod_less)
  have "?n = 64 * (1024 + q * 64 + r * 16 + z) + t" by simp
  then show "?n mod 64 = t" using assms by (metis mod_mult_self4 mod_less)
qed

lemma convert_second:
  assumes "x < 64" "y < 1024"
  shows "ConvertUFT16ToUTF8 (of_nat (0xDC00 + y)) (of_nat (0xD800 + x), str) =
    map_option (Pair (of_nat (0xD800 + x))) (put_chars str (utf8 (0x10000 + x * 1024 + y)))"
proof -
  let ?s = "of_nat (0xD800 + x) :: uint16" and ?u = "of_nat (0xDC00 + y) :: uint16" and ?cp = "0x10000 + x * 1024 + y"
  have s: "unat ?s = 0xD800 + x" and u: "unat ?u = 0xDC00 + y" using assms by (intro unat_u16_of_nat; simp)+
  have n: "?s \<noteq> 0" using s by (auto simp: word_unat_eq_iff simp del: of_nat_add)
  have "(0xDC00 + y) div 2048 = 27" "(0xDC00 + y) div 1024 = 55" using assms by linarith+
  then have "?u AND 0xd800 = 0xd800" "bit (unat ?u) 10" unfolding surrogate_test u by (simp_all add: bit_iff_odd)
  then have l: "?u AND 0xdc00 = 0xdc00" by (intro second_half_test) (simp_all add: bit_unsigned_iff)
  have c: "?cp div 262144 = 0" "?cp div 4096 mod 64 = 16 + x div 4" "?cp div 64 mod 64 = x mod 4 * 16 + y div 64" "?cp mod 64 = y mod 64"
    using pair_parts [of "x div 4" "x mod 4" "y div 64" "y mod 64"] assms by simp_all
  have d: "drop_bit 6 ?u AND 0x000f = of_nat (y div 64)"
  proof -
    have "(0xDC00 + y) div 64 = 16 * 55 + y div 64" "y div 64 < 16" using assms by simp_all
    then have "(0xDC00 + y) div 64 mod 16 = y div 64" by (metis mod_mult_self4 mod_less)
    then show ?thesis using field16 [of 6 ?u 4] u by (simp add: masks16)
  qed
  have e: "?u AND 0x003f = of_nat (y mod 64)"
  proof -
    have "0xDC00 + y = 64 * 880 + y" by simp
    then have "(0xDC00 + y) mod 64 = y mod 64" by (metis mod_mult_self4)
    then show ?thesis using low6 [of ?u] u by (simp add: masks16)
  qed
  have "x div 4 < 16" "x mod 4 < 4" "y div 64 < 16" "y mod 64 < 64" using assms by simp_all
  note m = pair_marks [OF this(1)] third_mark [OF this(2,3)] marks(1) [OF this(4)]
  note p = first_half_parts [OF assms(1) s]
  have "utf8 ?cp = [0xf0, of_nat (0x90 + x div 4), of_nat (0x80 + (x mod 4 * 16 + y div 64)), of_nat (0x80 + y mod 64)]"
    unfolding utf8_def c by (simp add: add.assoc)
  then show ?thesis
    by (simp add: ConvertUFT16ToUTF8_def n l p d e m del: of_nat_add of_nat_mult One_nat_def)
qed

section \<open>The whole text\<close>

fun convert_all :: "uint16 list \<Rightarrow> uint16 \<times> bytes \<Rightarrow> (uint16 \<times> bytes) option" where
  "convert_all [] s = Some s"
| "convert_all (u # us) s = Option.bind (ConvertUFT16ToUTF8 u s) (convert_all us)"

text \<open>The units as the report sends them, the high byte first.\<close>

definition unit_bytes :: "uint16 \<Rightarrow> bytes" where
  "unit_bytes u = [ucast (drop_bit 8 u), ucast u]"

lemma unit_bytes_join: "push_bit 8 (ucast (ucast (drop_bit 8 u) :: uint8)) OR ucast (ucast u :: uint8) = (u :: uint16)"
  by (rule bit_word_eqI) (auto simp: bit_simps)

lemma length_unit_bytes: "length (concat (map unit_bytes us)) = 2 * length us"
  by (induction us) (auto simp: unit_bytes_def)

lemma nth_unit_bytes:
  "i < length us \<Longrightarrow> concat (map unit_bytes us) ! (2 * i) = ucast (drop_bit 8 (us ! i))"
  "i < length us \<Longrightarrow> concat (map unit_bytes us) ! (2 * i + 1) = ucast (us ! i)"
proof (induction us arbitrary: i)
  case (Cons u us)
  { case 1 then show ?case using Cons(1) by (cases i) (auto simp: unit_bytes_def) }
  { case 2 then show ?case using Cons(2) by (cases i) (auto simp: unit_bytes_def) }
qed simp_all

lemma copy_utf16_all:
  assumes "k \<le> length us" and "length us \<le> 8"
  shows "copy_utf16 (c # e # concat (map unit_bytes us) @ rest) (map ((*) 2) [k..<length us]) s = convert_all (drop k us) s"
  using assms
proof (induction "length us - k" arbitrary: k s)
  case 0
  then show ?case by simp
next
  case (Suc n)
  then have k: "k < length us" by simp
  let ?d = "c # e # concat (map unit_bytes us) @ rest"
  have p: "peek ?d (2 * k + 2) = Some (ucast (drop_bit 8 (us ! k)))" "peek ?d (2 * k + 3) = Some (ucast (us ! k))"
    using k nth_unit_bytes [OF k] length_unit_bytes [of us] by (simp_all add: peek_def nth_append numeral_3_eq_3)
  have r: "[k..<length us] = k # [Suc k..<length us]" using k by (rule upt_conv_Cons)
  have d: "drop k us = us ! k # drop (Suc k) us" using k by (rule Cons_nth_drop_Suc [symmetric])
  have "copy_utf16 ?d (map ((*) 2) [Suc k..<length us]) = convert_all (drop (Suc k) us)"
    by (rule ext) (use Suc in \<open>auto intro!: Suc.hyps(1)\<close>)
  then show ?case unfolding r d by (simp add: p p(1) [simplified] unit_bytes_join)
qed


lemma utf8_length: "length (utf8 cp) \<le> 3 * length (utf16 cp)"
  by (simp add: utf8_def utf16_def)

lemma convert_point:
  assumes "convertible cp" and "length str + length (utf8 cp) \<le> 32"
  shows "\<exists>sur'. convert_all (utf16 cp @ us) (sur, str) = convert_all us (sur', str @ utf8 cp)"
proof (cases "cp < 0x10000")
  case True
  then have "cp < 0xD800 \<or> 0xE000 \<le> cp \<and> cp < 0xF800" using assms(1) by (auto simp: convertible_def)
  from convert_single [OF this, of sur str] show ?thesis
    using True assms(2) by (auto simp: utf16_def put_chars_def)
next
  case False
  let ?x = "(cp - 0x10000) div 1024" and ?y = "(cp - 0x10000) mod 1024"
  have x: "?x < 64" and y: "?y < 1024" using False assms(1) by (auto simp: convertible_def)
  have c: "0x10000 + ?x * 1024 + ?y = cp" using False by simp
  have "utf16 cp = [of_nat (0xD800 + ?x), of_nat (0xDC00 + ?y)]" using False by (simp add: utf16_def)
  then show ?thesis
    using assms(2) convert_first [OF x, of sur str] convert_second [OF x y, of str] unfolding c
    by (auto simp: put_chars_def simp del: of_nat_add)
qed

lemma convert_points:
  assumes "\<forall>cp \<in> set cps. convertible cp" and "length str + 3 * length (concat (map utf16 cps)) \<le> 32"
  shows "\<exists>sur'. convert_all (concat (map utf16 cps)) (sur, str) = Some (sur', str @ concat (map utf8 cps))"
  using assms
proof (induction cps arbitrary: sur str)
  case (Cons cp cps)
  have "length str + length (utf8 cp) \<le> 32" using Cons.prems(2) utf8_length [of cp] by simp
  then obtain sur' where "convert_all (utf16 cp @ concat (map utf16 cps)) (sur, str) = convert_all (concat (map utf16 cps)) (sur', str @ utf8 cp)"
    using convert_point Cons.prems(1) by (metis list.set_intros(1))
  moreover have "\<exists>sur''. convert_all (concat (map utf16 cps)) (sur', str @ utf8 cp) = Some (sur'', (str @ utf8 cp) @ concat (map utf8 cps))"
    using Cons.prems utf8_length [of cp] by (intro Cons.IH) auto
  ultimately show ?case by simp
qed simp

lemma utf8_all_length: "length (concat (map utf8 cps)) \<le> 3 * length (concat (map utf16 cps))"
  by (induction cps) (use utf8_length in \<open>auto intro: order_trans [OF add_mono]\<close>)

lemma name_length:
  assumes "n \<le> 16"
  shows "name_bytes (of_nat (n + 3)) = n" "\<not> (of_nat (n + 3) :: uint32) < 3"
proof -
  have u: "unat (of_nat (n + 3) :: uint32) = n + 3" using assms by (simp add: unat_of_nat take_bit_nat_eq_self del: of_nat_add)
  show "\<not> (of_nat (n + 3) :: uint32) < 3" unfolding word_less_nat_alt u by simp
  have "of_nat (n + 3) - 3 = (of_nat n :: uint32)" by simp
  then show "name_bytes (of_nat (n + 3)) = n"
    using assms by (simp add: name_bytes_def unsigned_of_nat unsigned_ucast_eq unat_of_nat take_bit_nat_eq_self del: of_nat_add)
qed

text \<open>(C24)
  For every text of up to eight UTF-16 units, of characters the conversion handles, the routine with its masks and shifts gives
  exactly the UTF-8 encoding of the text (up to a zero, where a C string ends), whatever half of a pair an earlier text left behind
  and whatever follows the text in the frame.
\<close>

theorem utf16_names_exact:
  assumes "\<forall>cp \<in> set cps. convertible cp" and "us = concat (map utf16 cps)" and "length us \<le> 8"
  shows "map_option fst (ExtractString ([cmd, 2] @ concat (map unit_bytes us) @ rest) (of_nat (2 * length us + 3)) sur) =
    Some (takeWhile (\<lambda>c. c \<noteq> 0) (concat (map utf8 cps)))"
proof -
  let ?d = "[cmd, 2] @ concat (map unit_bytes us) @ rest" and ?len = "of_nat (2 * length us + 3) :: uint32"
  have n: "name_bytes ?len = 2 * length us" "\<not> ?len < 3" using name_length [of "2 * length us"] assms(3) by simp_all
  have "3 * length us \<le> 32" using assms(3) by simp
  then obtain sur' where c: "convert_all us (sur, []) = Some (sur', concat (map utf8 cps))"
    using convert_points [OF assms(1), of "[]" sur] unfolding assms(2) by auto
  have i: "copy_utf16 ?d (map ((*) 2) [0..<length us]) (sur, []) = Some (sur', concat (map utf8 cps))"
    using copy_utf16_all [of 0 us cmd 2 rest "(sur, [])"] assms(3) c by simp
  have "length (concat (map utf8 cps)) < 32" using utf8_all_length [of cps] assms(2,3) by simp
  moreover have "(2 :: uint8) AND 7 = 2" by simp
  ultimately show ?thesis
    using i n by (simp add: ExtractString_def peek_def Let_def del: of_nat_add of_nat_mult)
qed


theorem utf16_names_exact_witness:
  "map_option fst (ExtractString ([3, 2] @ concat (map unit_bytes [0x48, 0x20AC, 0xD83D, 0xDE00]) @ [7]) 11 5) =
    Some [0x48, 0xE2, 0x82, 0xAC, 0xF0, 0x9F, 0x98, 0x80]"
proof -
  have e: "concat (map utf16 [0x48, 0x20AC, 0x1F600]) = [0x48, 0x20AC, 0xD83D, 0xDE00]"
    "takeWhile (\<lambda>c. c \<noteq> 0) (concat (map utf8 [0x48, 0x20AC, 0x1F600])) = [0x48, 0xE2, 0x82, 0xAC, 0xF0, 0x9F, 0x98, 0x80]"
    by (simp_all add: utf16_def utf8_def)
  have "of_nat (2 * length [0x48, 0x20AC, 0xD83D, 0xDE00 :: uint16] + 3) = (11 :: uint32)" by simp
  with utf16_names_exact [of "[0x48, 0x20AC, 0x1F600]" "[0x48, 0x20AC, 0xD83D, 0xDE00]" 3 "[7]" 5] show ?thesis
    unfolding e by (simp add: convertible_def)
qed

section \<open>The extended character set\<close>

definition extended_point :: "uint8 \<Rightarrow> nat" where
  "extended_point b = (if b < 0x80 then unat b else unat (c_extendedAsciiToUnicode ! unat (b - 0x80)))"

lemma extended_table: "length c_extendedAsciiToUnicode = 128" "\<forall>u \<in> set c_extendedAsciiToUnicode. unat u < 0xD800"
proof -
  show "length c_extendedAsciiToUnicode = 128" by (simp add: c_extendedAsciiToUnicode_def)
  have "\<forall>n \<in> set [0xa0..<0x100]. unat (of_nat n :: uint16) < 0xD800" by (simp add: unat_u16_of_nat)
  then show "\<forall>u \<in> set c_extendedAsciiToUnicode. unat u < 0xD800"
    by (simp add: c_extendedAsciiToUnicode_def del: upt_rec_numeral)
qed

lemma extended_step:
  "(if 0x80 \<le> ch then ConvertUFT16ToUTF8 (c_extendedAsciiToUnicode ! unat (ch - 0x80)) (sur, str)
    else map_option (Pair sur) (put_chars str [ch])) =
   map_option (Pair (if 0x80 \<le> ch then 0 else sur)) (put_chars str (utf8 (extended_point ch)))"
proof (cases "0x80 \<le> ch")
  case True
  have "unat ch < 256" by (rule unat_u8_less)
  then have "unat ch - 128 < 128" by linarith
  moreover have "unat (ch - 0x80) = unat ch - 128" using True by (simp add: unat_sub)
  ultimately have "unat (ch - 0x80) < length c_extendedAsciiToUnicode" by (simp add: extended_table)
  then have "unat (c_extendedAsciiToUnicode ! unat (ch - 0x80)) < 0xD800" using extended_table by simp
  from convert_single [OF disjI1, OF this, of sur str] show ?thesis
    using True by (simp add: extended_point_def not_less [symmetric])
next
  case False
  then have l: "ch < 0x80" by simp
  then have "unat ch < 128" by (simp add: word_less_nat_alt)
  then have "utf8 (extended_point ch) = [ch]" using l by (simp add: extended_point_def utf8_def)
  then show ?thesis by (simp only: False if_False)
qed

lemma copy_extended_all:
  assumes "k \<le> length bs" and "length str \<le> 32"
  shows "map_option snd (copy_extended (c # e # bs @ rest) [k..<length bs] (sur, str)) =
    (if length (str @ concat (map (\<lambda>b. utf8 (extended_point b)) (drop k bs))) \<le> 32
     then Some (str @ concat (map (\<lambda>b. utf8 (extended_point b)) (drop k bs))) else None)"
  using assms
proof (induction "length bs - k" arbitrary: k sur str)
  case 0
  then show ?case by simp
next
  case (Suc n)
  then have k: "k < length bs" by simp
  let ?d = "c # e # bs @ rest" and ?t = "utf8 (extended_point (bs ! k))"
  have r: "[k..<length bs] = k # [Suc k..<length bs]" using k by (rule upt_conv_Cons)
  have d: "drop k bs = bs ! k # drop (Suc k) bs" using k by (rule Cons_nth_drop_Suc [symmetric])
  have "peek ?d (k + 2) = Some (bs ! k)" using k by (simp add: peek_def nth_append)
  then have s: "copy_extended ?d [k..<length bs] (sur, str) = Option.bind
    (map_option (Pair (if 0x80 \<le> bs ! k then 0 else sur)) (put_chars str ?t)) (copy_extended ?d [Suc k..<length bs])"
    unfolding r by (simp only: copy_extended.simps extended_step Option.bind.bind_lunit)
  show ?case
  proof (cases "length (str @ ?t) \<le> 32")
    case True
    have "map_option snd (copy_extended ?d [Suc k..<length bs] (sur', str @ ?t)) =
      (if length ((str @ ?t) @ concat (map (\<lambda>b. utf8 (extended_point b)) (drop (Suc k) bs))) \<le> 32
       then Some ((str @ ?t) @ concat (map (\<lambda>b. utf8 (extended_point b)) (drop (Suc k) bs))) else None)" for sur'
      using Suc.hyps(2) k True by (intro Suc.hyps(1)) auto
    then show ?thesis unfolding s d using True by (simp add: put_chars_def)
  next
    case False
    then show ?thesis unfolding s d by (simp add: put_chars_def)
  qed
qed

text \<open>(C25)
  A text in the extended character set: with at most sixteen characters whose UTF-8 encoding is shorter than the buffer it is
  exactly that encoding (up to a zero); with a longer encoding the routine writes beyond its buffer of 32 characters.
\<close>

theorem extended_names_exact:
  assumes "length bs \<le> 16" and "t = concat (map (\<lambda>b. utf8 (extended_point b)) bs)"
  shows "map_option fst (ExtractString ([cmd, 1] @ bs @ rest) (of_nat (length bs + 3)) sur) =
    (if length t < 32 then Some (takeWhile (\<lambda>c. c \<noteq> 0) t) else None)"
proof -
  let ?d = "[cmd, 1] @ bs @ rest" and ?len = "of_nat (length bs + 3) :: uint32"
  have n: "name_bytes ?len = length bs" "\<not> ?len < 3" using name_length [OF assms(1)] by simp_all
  have i: "map_option snd (copy_extended ?d [0..<length bs] (sur, [])) = (if length t \<le> 32 then Some t else None)"
    using copy_extended_all [of 0 bs "[]" cmd 1 rest sur] assms(2) by simp
  show ?thesis
  proof (cases "copy_extended ?d [0..<length bs] (sur, [])")
    case None
    with i have "\<not> length t \<le> 32" by (auto split: if_splits)
    then show ?thesis using None n by (simp add: ExtractString_def peek_def Let_def del: of_nat_add)
  next
    case (Some p)
    with i have "snd p = t" by (auto split: if_splits)
    then show ?thesis using Some n by (cases p) (simp add: ExtractString_def peek_def Let_def del: of_nat_add)
  qed
qed

theorem extended_names_exact_witness:
  "map_option fst (ExtractString ([3, 1] @ [0x4F, 0xE9, 0x80] @ [9]) 6 0) = Some [0x4F, 0xC3, 0xA9, 0xE2, 0x82, 0xAC] \<and>
    ExtractString ([3, 1] @ replicate 11 0x80 @ []) 14 0 = None"
proof (intro conjI)
  have e: "extended_point 0x4F = 0x4F" "extended_point 0xE9 = 0xE9" "extended_point 0x80 = 0x20AC"
    by code_simp+
  have c: "concat (map (\<lambda>b. utf8 (extended_point b)) [0x4F, 0xE9, 0x80]) = [0x4F, 0xC3, 0xA9, 0xE2, 0x82, 0xAC]"
    by (simp add: e utf8_def)
  have "map_option fst (ExtractString ([3, 1] @ [0x4F, 0xE9, 0x80] @ [9]) (of_nat (length [0x4F, 0xE9, 0x80 :: uint8] + 3)) 0) =
      Some (takeWhile (\<lambda>c. c \<noteq> 0) [0x4F, 0xC3, 0xA9, 0xE2, 0x82, 0xAC])"
    using extended_names_exact [of "[0x4F, 0xE9, 0x80]" "[0x4F, 0xC3, 0xA9, 0xE2, 0x82, 0xAC]" 3 "[9]" 0, OF _ c [symmetric]] by simp
  then show "map_option fst (ExtractString ([3, 1] @ [0x4F, 0xE9, 0x80] @ [9]) 6 0) = Some [0x4F, 0xC3, 0xA9, 0xE2, 0x82, 0xAC]" by simp
  have "length (concat (map (\<lambda>b. utf8 (extended_point b)) (replicate 11 0x80))) = 33"
    by (simp add: length_concat sum_list_replicate e utf8_def)
  with extended_names_exact [of "replicate 11 0x80" _ 3 "[]" 0, OF _ refl]
  show "ExtractString ([3, 1] @ replicate 11 0x80 @ []) 14 0 = None" by simp
qed

section \<open>Where the conversion leaves the reference\<close>

text \<open>A character of the first plane above the pairs is taken for the half of a pair and dropped; a character of the third plane becomes one of the
  fourth.\<close>

lemma high_first_plane_dropped: "convert_all (utf16 0xFB01) (0, str) = Some (0xFB01, str)"
  by (simp add: utf16_def ConvertUFT16ToUTF8_def)

lemma third_plane_wrong:
  "convert_all (utf16 0x20000) (0, []) = Some (0xD840, utf8 0x30000)" "utf8 0x20000 = [0xF0, 0xA0, 0x80, 0x80]"
  by (simp_all add: utf16_def utf8_def ConvertUFT16ToUTF8_def put_chars_def)

text \<open>The half kept from an earlier text turns every second half into four characters: eight of them fill the buffer.\<close>

lemma stale_half_overflow:
  "ExtractString ([3, 2] @ concat (map unit_bytes (replicate 8 0xDC00))) 19 0xD800 = None"
  by code_simp

end
