(* ===== verification/Spec2Isabelle.thy ===== *)
theory Spec2Isabelle
  imports Msg_Frame Serial_Buffer Zw_Security Bit_Field Value_Id Value_Verify Value_Schedule Value_Store Node_Queries Wake_Laws Receive_Laws Node_Info_Laws Request_Laws CC_Values Group_Walk Polling Encapsulation_Safe Options_Laws Multi_Channel_Laws Timer_Laws Schedule_Class Network_Key User_Codes Neighbour_Map Config_Params Scene_Store Node_Names
begin

text \<open>
  A verification development for OpenZWave, the Z-Wave controller library under \<open>cpp/src\<close>.

  The program.  A \<open>Driver\<close> talks to a Z-Wave controller over a serial port.  One thread takes
  messages from seven send queues, writes one at a time and waits for the acknowledgement, the
  callback and the reply; another fills a circular buffer with the bytes received.  Every \<open>Node\<close> is
  interviewed in stages when it is found, sends and receives through its command classes, and keeps
  its data as values in a store.  Nodes that sleep have a pending queue of their own.  A node may use
  the S0 security layer, with nonces and an AES block cipher.  Further threads poll values and run
  delayed actions.

  Conventions.  Machine integers keep their width (\<open>uint8\<close>, \<open>uint16\<close>, \<open>uint32\<close>); signed comparisons are
  written with \<open>sint\<close>.  An operation that would use a deleted object, follow a null pointer or leave a buffer is
  undefined in the model (\<open>None\<close>): that the operations are defined in every well-formed state is proved where
  it holds, and where it fails a theorem says so.  Objects the code shares by pointer (controller
  commands, values, timer entries) live on explicit heaps.  Operations of different threads are atomic; a
  theory that interleaves them says where.  What other code supplies is a parameter: the block cipher, the random
  numbers, the answers of the node (\<open>node_env\<close>) and of the command classes that are not modelled
  (\<open>frame_handler\<close>, \<open>reply_env\<close>), the callbacks of timers.

  Foundations.
  \<^item> \<open>Prelude\<close>: types of the program, lemmas on lists, words and byte sequences, reading a buffer (\<open>peek\<close>).
  \<^item> \<open>Ordered_Map\<close>, \<open>Keyed_Store\<close>: interfaces of \<open>std::map\<close> and of a store by key, as locales.

  The serial link.
  \<^item> \<open>Msg_Frame\<close> (\<open>Msg.cpp\<close>, \<open>Msg.h\<close>): construction, encapsulation and check sums of frames, callback ids; every
    finalised frame is the one specified and passes the check of the receiver.
  \<^item> \<open>Serial_Buffer\<close> (\<open>platform/Stream.cpp\<close>): the circular buffer refines a queue of bytes.
  \<^item> \<open>Serial_Frames\<close> (\<open>Driver::ReadMsg\<close>): a frame taken from the buffer while bytes arrive; a frame that was
    written is read back, and a change of one byte is found.

  The S0 security layer.
  \<^item> \<open>Zw_Security\<close> (\<open>ZWSecurity.cpp\<close>, nonces of \<open>Node.cpp\<close>): encryption and decryption are inverse, the
    authentication code is the CBC-MAC of its specification, a nonce is found when one is left.
  \<^item> \<open>Text_Parse\<close> (\<open>Utils.cpp\<close>), \<open>Network_Key\<close> (\<open>GetNetworkKey\<close>, \<open>initNetworkKeys\<close>, \<open>GetAuthKey\<close>, \<open>GetEncKey\<close>): the key is read
    from the options, and the keys in use are the right ones at every time.

  Values.
  \<^item> \<open>Bit_Field\<close> (\<open>Bitfield.cpp\<close>, \<open>ValueBitSet.cpp\<close>), \<open>Value_Id\<close> (\<open>ValueID.h\<close>), \<open>Value_Verify\<close> (\<open>Value.cpp\<close> and the
    value classes), \<open>Value_Schedule\<close> (\<open>ValueSchedule.cpp\<close>), \<open>Value_Store\<close> (\<open>ValueStore.cpp\<close>, \<open>Ref.h\<close>).
  \<^item> \<open>CC_Values\<close> (\<open>CommandClass.cpp\<close>): numbers and durations in payloads; what is printed reads back.

  The driver.
  \<^item> \<open>Driver_State\<close>, \<open>Send_Queues\<close>, \<open>Queue_Laws\<close> (\<open>Driver.cpp\<close>): the state, the queues, and the controller command
    items.  \<open>well_formed\<close> is the invariant of the driver: every item in use is on the heap, every event tells whether its
    queue has entries, pending queues hold messages for their node.
  \<^item> \<open>Node_Queries\<close> (\<open>Node.cpp\<close>): the interview as a loop over its stages.
  \<^item> \<open>Wake_Up\<close>, \<open>Wake_Laws\<close>, \<open>Wake_Class\<close>, \<open>Wake_Class_Laws\<close> (\<open>WakeUp.cpp\<close>, \<open>Driver.cpp\<close>): sleeping and dead nodes, and a
    wake-up notification followed from the serial port to the send queues.
  \<^item> \<open>Controller_Commands\<close> (\<open>DoControllerCommand\<close> and what follows it): each command is sent or refused.
  \<^item> \<open>Send_Engine\<close>, \<open>Send_Laws\<close> (\<open>WriteMsg\<close>, \<open>WriteNextMsg\<close>): every entry the thread decides to serve is served; a
    message is sent a bounded number of times.
  \<^item> \<open>Receive_Path\<close>, \<open>Receive_Laws\<close> (\<open>ReadMsg\<close>, \<open>CheckCompletedNodeQueries\<close> and what follows a frame): secured frames
    are obeyed only when authentic, a transaction ends when nothing is awaited.
  \<^item> \<open>Controller_Replies\<close>, \<open>Reply_Laws\<close> and \<open>Controller_Requests\<close>, \<open>Request_Safety\<close>, \<open>Request_Laws\<close>: the handlers of
    responses and requests, with the node table brought into line with the network.
  \<^item> \<open>Process_Message\<close>: \<open>ProcessMsg\<close> as a whole and the driver as an \<open>inductive\<close> transition system.  Every
    reachable state is well formed and every read of a frame in it is defined but for the stated cases.
    A node that is reloaded (\<open>Manager\<close>) is not a step of it.

  Nodes and command classes.
  \<^item> \<open>Node_Info\<close>, \<open>Node_Info_Laws\<close> (\<open>Node.cpp\<close>): protocol information, node information frame, device classes.
  \<^item> \<open>Assoc_Group\<close>, \<open>Assoc_Laws\<close>, \<open>Group_Walk\<close> (\<open>Group.cpp\<close>, \<open>Association.cpp\<close>, \<open>MultiChannelAssociation.cpp\<close>): the members of
    a group after a report, the routes assigned from the groups, and the walk over the groups, proved once
    in the locale \<open>group_walk\<close> for both classes.
  \<^item> \<open>Encapsulation\<close>, \<open>Encapsulation_Laws\<close>, \<open>Encapsulation_Safe\<close> (\<open>CRC16Encap.cpp\<close>, \<open>MultiCmd.cpp\<close>, \<open>MultiInstance.cpp\<close>):
    frames inside frames; they reach their class from any depth and keep the driver well formed.
  \<^item> \<open>Multi_Channel\<close>, \<open>Multi_Channel_Laws\<close> (\<open>MultiInstance.cpp\<close>): instances and end points.
  \<^item> \<open>Schedule_Class\<close> (\<open>ClimateControlSchedule.cpp\<close>): schedules on the wire.
  \<^item> \<open>User_Codes\<close> (\<open>UserCode.cpp\<close>): the codes of a lock and the walk that asks for them.
  \<^item> \<open>Config_Params\<close> (\<open>Configuration.cpp\<close>, \<open>SetConfigParam\<close> of \<open>Node.cpp\<close>): what is set is read back; lists are set by position.
  \<^item> \<open>Node_Names\<close> (\<open>NodeNaming.cpp\<close>): names and locations in three encodings; UTF-16 against UTF-8, the bound of the buffer.
  \<^item> \<open>Neighbour_Map\<close> (\<open>GetNeighbors\<close>, \<open>GetVirtualNeighbors\<close>): bit maps as lists of nodes.

  Services.
  \<^item> \<open>Polling\<close> (\<open>Driver::PollThreadProc\<close> and the operations on the poll list): rounds in order, at most one entry for a value.
  \<^item> \<open>Timer_Service\<close>, \<open>Timer_Laws\<close> (\<open>TimerThread.cpp\<close>, \<open>TimeStampImpl.cpp\<close>): delayed actions and time stamps.
  \<^item> \<open>Options_Store\<close>, \<open>Options_Laws\<close> (\<open>Options.cpp\<close>): program options, the command line, types and locking.
  \<^item> \<open>Scene_Store\<close> (\<open>Scene.cpp\<close>, the scenes of \<open>Manager.cpp\<close>): the table of scenes, its count, saving and reading it.

  Bounds and loops.  Nothing runs on fuel: loops are structural recursion or functions with a measure (\<open>advance_loop\<close>, the
  interview, by the stages left; \<open>unwrap\<close>, nested frames, by the bytes left).  Random numbers are drawn from a list
  that is given; that enough of them yield a nonce is \<open>GenerateNonceKey_found\<close>.  Loops that may not end are
  \<open>partial_function (option)\<close>: \<open>for8\<close> and \<open>route_groups\<close> with an index of eight bits, the pass \<open>scan\<close> of the timer
  thread, iterators over a bit set, the destruction of a store; that they return is proved where it holds.

  Not modelled.
  \<^item> The serial, HID and HTTP transports, threads, events and mutexes of the platform, logging: input and output.
    What reaches the driver is a sequence of bytes and of waits that end or time out.
  \<^item> XML: the cache and configuration files (\<open>ReadCache\<close> is a parameter), the device database, localisation, compatibility options.
    The scenes are read from elements already parsed.
  \<^item> The wrappers of \<open>Manager\<close> other than those for scenes: they look up a driver, a node or a value under locks and call the operations above.
  \<^item> Command classes that only translate between a payload and values of the store; those that are not
    named above are parameters of the handlers.
  \<^item> The vendored libraries: \<open>tinyxml\<close>, \<open>hidapi\<close> and the AES code, of which only the interface is used.
  \<^item> The interleaving of threads inside an operation; the data races found by reading are
    not theorems.
\<close>

end
